(* ===== verification/Prelude.thy ===== *)
theory Prelude
  imports Main "HOL-Library.List_Lexorder" "HOL-Library.Char_ord" "HOL-Library.Multiset"
begin

section \<open>Shared vocabulary\<close>

text \<open>
  The pieces of the JavaScript runtime that several components use, and the generic
  lemmas about them.

  A JavaScript string is a sequence of UTF-16 code units; the model uses \<open>string\<close>, so a
  code unit is a value below 256 (the component that depends on wider code units, the
  composer's byte counter, works on \<open>16 word list\<close>). Strings are compared code unit by code
  unit, as \<open><\<close> does in JavaScript: the library order \<^verbatim>\<open>List_Lexorder\<close> on \<^verbatim>\<open>Char_ord\<close>.
  Integers that the code uses as timestamps, counts and indices are \<open>int\<close> and \<open>nat\<close>.
  \<open>undefined\<close> and \<open>null\<close> are \<open>None\<close>.
\<close>

named_theorems js_list \<open>list operations of the JavaScript runtime\<close>
named_theorems js_intro \<open>introduction rules for invariants\<close>

type_synonym jstr = string

subsection \<open>Strings\<close>

text \<open>White space that \<^verbatim>\<open>String.prototype.trim\<close> and \<^verbatim>\<open>\s\<close> recognise below code unit 256.\<close>

definition js_space :: "char \<Rightarrow> bool" where
  "js_space c \<longleftrightarrow> c \<in> {CHR 0x09, CHR 0x0A, CHR 0x0B, CHR 0x0C, CHR 0x0D, CHR 0x20, CHR 0xA0}"

definition js_trim_start :: "jstr \<Rightarrow> jstr" where
  "js_trim_start s = dropWhile js_space s"

definition js_trim_end :: "jstr \<Rightarrow> jstr" where
  "js_trim_end s = rev (dropWhile js_space (rev s))"

definition js_trim :: "jstr \<Rightarrow> jstr" where
  "js_trim s = js_trim_end (js_trim_start s)"

lemma dropWhile_hd_not: "dropWhile P xs \<noteq> [] \<Longrightarrow> \<not> P (hd (dropWhile P xs))"
  by (rule hd_dropWhile)

lemma dropWhile_fixed: "(xs = [] \<or> \<not> P (hd xs)) \<Longrightarrow> dropWhile P xs = xs"
  by (cases xs) auto

lemma js_trim_end_prefix: "\<exists>ws. s = js_trim_end s @ ws \<and> (\<forall>c \<in> set ws. js_space c)"
proof -
  have "rev s = takeWhile js_space (rev s) @ dropWhile js_space (rev s)" by simp
  then have "s = js_trim_end s @ rev (takeWhile js_space (rev s))"
    by (metis js_trim_end_def rev_append rev_rev_ident)
  then show ?thesis by (metis set_rev set_takeWhileD)
qed

lemma js_trim_end_idem [simp]: "js_trim_end (js_trim_end s) = js_trim_end s"
  unfolding js_trim_end_def
  by (simp add: dropWhile_fixed[of "dropWhile js_space (rev s)"] dropWhile_hd_not disj_imp)

lemma js_trim_start_trim: "js_trim_start (js_trim s) = js_trim s"
proof (cases "js_trim s = []")
  case True
  then show ?thesis by (simp add: js_trim_start_def)
next
  case False
  obtain ws where ws: "js_trim_start s = js_trim s @ ws"
    using js_trim_end_prefix unfolding js_trim_def by blast
  from False ws have "hd (js_trim s) = hd (js_trim_start s)" "js_trim_start s \<noteq> []" by auto
  then have "\<not> js_space (hd (js_trim s))"
    using dropWhile_hd_not unfolding js_trim_start_def by metis
  then show ?thesis unfolding js_trim_start_def by (simp add: dropWhile_fixed)
qed

lemma js_trim_idem [simp]: "js_trim (js_trim s) = js_trim s"
  by (metis js_trim_def js_trim_end_idem js_trim_start_trim)

lemma js_trim_Nil [simp]: "js_trim [] = []"
  by (simp add: js_trim_def js_trim_start_def js_trim_end_def)

lemma js_trim_end_all_space: "\<forall>c \<in> set s. js_space c \<Longrightarrow> js_trim_end s = []"
  by (simp add: js_trim_end_def)

lemma js_trim_empty_iff: "js_trim s = [] \<longleftrightarrow> (\<forall>c \<in> set s. js_space c)"
proof
  assume "js_trim s = []"
  then have sp: "\<forall>c \<in> set (js_trim_start s). js_space c"
    using js_trim_end_prefix[of "js_trim_start s"] unfolding js_trim_def by auto
  have "s = takeWhile js_space s @ js_trim_start s" by (simp add: js_trim_start_def)
  then show "\<forall>c \<in> set s. js_space c"
    using sp by (metis Un_iff set_append set_takeWhileD)
next
  assume "\<forall>c \<in> set s. js_space c"
  then have "js_trim_start s = []" by (simp add: js_trim_start_def)
  then show "js_trim s = []" by (simp add: js_trim_def js_trim_end_def)
qed

subsection \<open>Numbers as strings\<close>

text \<open>\<^verbatim>\<open>String(n)\<close> for an integer: decimal digits, with a leading minus sign.\<close>

definition js_digit :: "nat \<Rightarrow> char" where
  "js_digit d = char_of (48 + d)"

definition js_is_digit :: "char \<Rightarrow> bool" where
  "js_is_digit c \<longleftrightarrow> 48 \<le> (of_char c :: nat) \<and> (of_char c :: nat) \<le> 57"

fun js_of_nat :: "nat \<Rightarrow> jstr" where
  "js_of_nat n = (if n < 10 then [js_digit n] else js_of_nat (n div 10) @ [js_digit (n mod 10)])"

declare js_of_nat.simps [simp del]

definition js_of_int :: "int \<Rightarrow> jstr" where
  "js_of_int i = (if i < 0 then CHR ''-'' # js_of_nat (nat (- i)) else js_of_nat (nat i))"

text \<open>Reading decimal digits back, as \<^verbatim>\<open>Number(s)\<close> does for a string of digits.\<close>

definition js_to_nat :: "jstr \<Rightarrow> nat" where
  "js_to_nat s = foldl (\<lambda>a c. 10 * a + (of_char c - 48)) 0 s"

lemma of_char_digit: "d < 10 \<Longrightarrow> of_char (js_digit d) = 48 + d"
  by (simp add: js_digit_def)

lemma js_is_digit_digit: "d < 10 \<Longrightarrow> js_is_digit (js_digit d)"
  by (simp add: js_is_digit_def of_char_digit)

lemma js_to_nat_of_nat [simp]: "js_to_nat (js_of_nat n) = n"
proof (induction n rule: js_of_nat.induct)
  case (1 n)
  show ?case
  proof (cases "n < 10")
    case True
    then show ?thesis by (simp add: js_of_nat.simps[of n] js_to_nat_def of_char_digit)
  next
    case False
    then show ?thesis using "1.IH"
      by (simp add: js_of_nat.simps[of n] js_to_nat_def of_char_digit)
  qed
qed

lemma js_of_nat_digits: "\<forall>c \<in> set (js_of_nat n). js_is_digit c"
proof (induction n rule: js_of_nat.induct)
  case (1 n)
  then show ?case by (cases "n < 10") (simp_all add: js_of_nat.simps[of n] js_is_digit_digit)
qed

lemma js_of_nat_nonempty: "js_of_nat n \<noteq> []"
  by (subst js_of_nat.simps) simp

lemma js_of_nat_inject: "js_of_nat m = js_of_nat n \<longleftrightarrow> m = n"
  by (metis js_to_nat_of_nat)

lemma js_digit_not_punct:
  "js_is_digit c \<Longrightarrow> c \<noteq> CHR '':''" "js_is_digit c \<Longrightarrow> c \<noteq> CHR ''-''"
  by (auto simp: js_is_digit_def)

lemma js_of_int_chars: "c \<in> set (js_of_int i) \<Longrightarrow> js_is_digit c \<or> c = CHR ''-''"
  using js_of_nat_digits by (auto simp: js_of_int_def split: if_splits)

lemma js_of_int_no_colon: "CHR '':'' \<notin> set (js_of_int i)"
  using js_of_int_chars js_digit_not_punct by fastforce

lemma js_of_int_inject: "js_of_int i = js_of_int j \<longleftrightarrow> i = j"
proof -
  have hd: "js_is_digit (hd (js_of_nat n))" for n
    using js_of_nat_digits js_of_nat_nonempty hd_in_set by blast
  have "CHR ''-'' # s \<noteq> js_of_nat n" for s n
    using hd[of n] js_digit_not_punct(2) by (metis list.sel(1))
  then show ?thesis
    by (auto simp: js_of_int_def js_of_nat_inject split: if_splits) metis+
qed

text \<open>A separator that a prefix cannot contain makes the concatenation injective.\<close>

lemma separator_inject:
  assumes "x \<notin> set as" "x \<notin> set bs" "as @ x # s = bs @ x # t"
  shows "as = bs \<and> s = t"
proof -
  have "takeWhile (\<lambda>c. c \<noteq> x) (as @ x # s) = as" "takeWhile (\<lambda>c. c \<noteq> x) (bs @ x # t) = bs"
    using assms(1,2) by (auto simp: takeWhile_append)
  then show ?thesis using assms(3) by simp
qed

subsection \<open>Lists\<close>

text \<open>\<^verbatim>\<open>findIndex\<close>, with \<open>None\<close> for the code's \<open>-1\<close>, and \<^verbatim>\<open>at(-1)\<close>.\<close>

fun js_find_index :: "('a \<Rightarrow> bool) \<Rightarrow> 'a list \<Rightarrow> nat option" where
  "js_find_index P [] = None"
| "js_find_index P (x # xs) = (if P x then Some 0 else map_option Suc (js_find_index P xs))"

definition js_last :: "'a list \<Rightarrow> 'a option" where
  "js_last xs = (if xs = [] then None else Some (last xs))"

lemma js_last_simps [simp]:
  "js_last [] = None" "js_last (xs @ [x]) = Some x"
  by (simp_all add: js_last_def)

lemma js_last_Some_in [js_list]: "js_last xs = Some x \<Longrightarrow> x \<in> set xs"
  by (auto simp: js_last_def split: if_splits)

lemma js_find_index_None [js_list]: "js_find_index P xs = None \<longleftrightarrow> (\<forall>x \<in> set xs. \<not> P x)"
  by (induction xs) auto

lemma js_find_index_NoneD: "js_find_index P xs = None \<Longrightarrow> \<forall>x \<in> set xs. \<not> P x"
  by (simp add: js_find_index_None)

lemma js_find_index_Some:
  "js_find_index P xs = Some i \<longleftrightarrow> i < length xs \<and> P (xs ! i) \<and> (\<forall>j < i. \<not> P (xs ! j))"
proof (induction xs arbitrary: i)
  case Nil
  then show ?case by simp
next
  case (Cons x xs)
  show ?case
  proof (cases i)
    case 0
    then show ?thesis by auto
  next
    case (Suc k)
    then show ?thesis using Cons.IH[of k] by (auto simp: All_less_Suc2)
  qed
qed

lemma js_find_index_SomeD:
  assumes "js_find_index P xs = Some i"
  shows "i < length xs" "P (xs ! i)" "\<And>j. j < i \<Longrightarrow> \<not> P (xs ! j)"
  using assms by (simp_all add: js_find_index_Some)

lemma set_list_update_subset: "set (xs[i := y]) \<subseteq> insert y (set xs)"
  by (rule set_update_subset_insert)

lemma filter_length_eq_iff: "length (filter P xs) = length xs \<longleftrightarrow> filter P xs = xs"
  by (metis filter_id_conv length_filter_less less_irrefl)

lemma length_filter_neq:
  assumes "distinct xs" "x \<in> set xs"
  shows "length (filter (\<lambda>y. y \<noteq> x) xs) = length xs - 1"
proof -
  have "filter (\<lambda>y. y \<noteq> x) xs = remove1 x xs"
    using assms(1) by (simp add: distinct_remove1_removeAll removeAll_filter_not_eq eq_commute)
  then show ?thesis using assms(2) by (simp add: length_remove1)
qed

lemma option_eqI: "(\<And>v. x = Some v \<longleftrightarrow> y = Some v) \<Longrightarrow> x = y"
  by (cases x; cases y) auto

subsection \<open>Maps as JavaScript records\<close>

text \<open>
  \<^verbatim>\<open>{ ...m, [k]: v }\<close> is \<open>m(k \<mapsto> v)\<close>; \<^verbatim>\<open>const { [k]: _, ...rest } = m\<close> is \<open>m(k := None)\<close>,
  written \<open>without_key k m\<close>.
\<close>

definition without_key :: "'k \<Rightarrow> ('k \<rightharpoonup> 'v) \<Rightarrow> ('k \<rightharpoonup> 'v)" where
  "without_key k m = m(k := None)"

lemma without_key_apply [simp]: "without_key k m k' = (if k' = k then None else m k')"
  by (simp add: without_key_def)

lemma dom_without_key [simp]: "dom (without_key k m) = dom m - {k}"
  by (auto simp: without_key_def split: if_splits)

lemma without_key_update_other: "k \<noteq> k' \<Longrightarrow> without_key k (m(k' \<mapsto> v)) = (without_key k m)(k' \<mapsto> v)"
  by (auto simp: without_key_def)

subsection \<open>Sorting with a comparator\<close>

text \<open>
  \<^verbatim>\<open>Array.prototype.sort\<close> is stable, and for a consistent comparator the result is fixed by
  the specification: the stable sorted permutation. The model computes it by stable
  insertion from the right.
\<close>

fun js_insert :: "('a \<Rightarrow> 'a \<Rightarrow> int) \<Rightarrow> 'a \<Rightarrow> 'a list \<Rightarrow> 'a list" where
  "js_insert cmp x [] = [x]"
| "js_insert cmp x (y # ys) = (if cmp x y \<le> 0 then x # y # ys else y # js_insert cmp x ys)"

fun js_sort :: "('a \<Rightarrow> 'a \<Rightarrow> int) \<Rightarrow> 'a list \<Rightarrow> 'a list" where
  "js_sort cmp [] = []"
| "js_sort cmp (x # xs) = js_insert cmp x (js_sort cmp xs)"

lemma mset_js_insert [simp]: "mset (js_insert cmp x xs) = add_mset x (mset xs)"
  by (induction xs) auto

lemma mset_js_sort [simp]: "mset (js_sort cmp xs) = mset xs"
  by (induction xs) auto

lemma set_js_sort [simp]: "set (js_sort cmp xs) = set xs"
  by (metis mset_js_sort set_mset_mset)

lemma set_js_insert [simp]: "set (js_insert cmp x xs) = insert x (set xs)"
  by (induction xs) auto

lemma length_js_sort [simp]: "length (js_sort cmp xs) = length xs"
  by (metis mset_js_sort size_mset)

lemma js_insert_min: "(\<And>y. y \<in> set ys \<Longrightarrow> cmp x y \<le> 0) \<Longrightarrow> js_insert cmp x ys = x # ys"
  by (cases ys) auto

text \<open>The contract of a comparator, and what sorting with one gives.\<close>

locale js_comparator =
  fixes cmp :: "'a \<Rightarrow> 'a \<Rightarrow> int"
  assumes cmp_total: "cmp x y \<le> 0 \<or> cmp y x \<le> 0"
    and cmp_trans: "cmp x y \<le> 0 \<Longrightarrow> cmp y z \<le> 0 \<Longrightarrow> cmp x z \<le> 0"
begin

lemma sorted_insert:
  "sorted_wrt (\<lambda>x y. cmp x y \<le> 0) xs \<Longrightarrow> sorted_wrt (\<lambda>x y. cmp x y \<le> 0) (js_insert cmp x xs)"
proof (induction xs)
  case Nil
  then show ?case by simp
next
  case (Cons y ys)
  then show ?case using cmp_total[of x y] by (auto intro: cmp_trans)
qed

lemma sorted_sort: "sorted_wrt (\<lambda>x y. cmp x y \<le> 0) (js_sort cmp xs)"
  by (induction xs) (auto intro: sorted_insert)

lemma sort_sorted: "sorted_wrt (\<lambda>x y. cmp x y \<le> 0) xs \<Longrightarrow> js_sort cmp xs = xs"
  by (induction xs) (auto intro: js_insert_min)

lemma filter_insert:
  assumes "sorted_wrt (\<lambda>x y. cmp x y \<le> 0) ys"
    and "\<And>y. P y \<Longrightarrow> P x \<Longrightarrow> cmp x y \<le> 0"
  shows "filter P (js_insert cmp x ys) = (if P x then x # filter P ys else filter P ys)"
  using assms(1)
proof (induction ys)
  case Nil
  then show ?case by simp
next
  case (Cons y ys)
  then show ?case using assms(2) by (auto split: if_splits)
qed

text \<open>Stability: elements the comparator does not tell apart keep their order.\<close>

lemma sort_stable:
  assumes "\<And>x y. P x \<Longrightarrow> P y \<Longrightarrow> cmp x y \<le> 0"
  shows "filter P (js_sort cmp xs) = filter P xs"
  by (induction xs) (use filter_insert[OF sorted_sort] assms in \<open>auto\<close>)

lemma strict_if_distinct:
  assumes "\<And>x y. f x \<noteq> f y \<Longrightarrow> cmp x y \<noteq> 0"
  shows "sorted_wrt (\<lambda>x y. cmp x y \<le> 0) xs \<Longrightarrow> distinct (map f xs) \<Longrightarrow> sorted_wrt (\<lambda>x y. cmp x y < 0) xs"
  using assms by (induction xs) (force simp: order_less_le)+

lemma sort_strict:
  assumes "distinct (map f xs)"
    and "\<And>x y. f x \<noteq> f y \<Longrightarrow> cmp x y \<noteq> 0"
  shows "sorted_wrt (\<lambda>x y. cmp x y < 0) (js_sort cmp xs)"
proof -
  have "mset (map f (js_sort cmp xs)) = mset (map f xs)" by simp
  then have "distinct (map f (js_sort cmp xs))"
    using assms(1) by (metis mset_eq_imp_distinct_iff)
  then show ?thesis using strict_if_distinct[of f, OF assms(2) sorted_sort] by blast
qed

end

subsection \<open>Bounded minima and maxima\<close>

text \<open>\<^verbatim>\<open>Math.min(...xs)\<close> is \<open>Infinity\<close> on the empty list: \<open>None\<close> here.\<close>

definition js_min :: "int list \<Rightarrow> int option" where
  "js_min xs = (if xs = [] then None else Some (Min (set xs)))"

definition js_max :: "int list \<Rightarrow> int option" where
  "js_max xs = (if xs = [] then None else Some (Max (set xs)))"

end
