(* ===== verification/JS_Map.thy ===== *)
theory JS_Map
  imports Prelude "HOL-Library.AList"
begin

section \<open>JavaScript's insertion-ordered \<^verbatim>\<open>Map\<close>\<close>

text \<open>
  \<^verbatim>\<open>Map\<close> iterates its entries in the order their keys were first inserted: setting a key
  that is present keeps its place, deleting and setting it again moves it to the end. The
  model is an association list with distinct keys. The locale states what the clients rely
  on (the message merge, the scroll memory, the rate limiter, the audio mixer), and the
  interpretation \<open>jm\<close> discharges it for the association list.
\<close>

type_synonym ('k, 'v) jsmap = "('k \<times> 'v) list"

definition jm_get :: "('k, 'v) jsmap \<Rightarrow> 'k \<rightharpoonup> 'v" where
  "jm_get m = map_of m"

definition jm_set :: "'k \<Rightarrow> 'v \<Rightarrow> ('k, 'v) jsmap \<Rightarrow> ('k, 'v) jsmap" where
  "jm_set k v m = AList.update k v m"

definition jm_delete :: "'k \<Rightarrow> ('k, 'v) jsmap \<Rightarrow> ('k, 'v) jsmap" where
  "jm_delete k m = AList.delete k m"

definition jm_keys :: "('k, 'v) jsmap \<Rightarrow> 'k list" where
  "jm_keys m = map fst m"

definition jm_values :: "('k, 'v) jsmap \<Rightarrow> 'v list" where
  "jm_values m = map snd m"

definition jm_size :: "('k, 'v) jsmap \<Rightarrow> nat" where
  "jm_size m = length m"

definition jm_ok :: "('k, 'v) jsmap \<Rightarrow> bool" where
  "jm_ok m \<longleftrightarrow> distinct (map fst m)"

locale insertion_map =
  fixes get :: "'m \<Rightarrow> 'k \<rightharpoonup> 'v"
    and put :: "'k \<Rightarrow> 'v \<Rightarrow> 'm \<Rightarrow> 'm"
    and del :: "'k \<Rightarrow> 'm \<Rightarrow> 'm"
    and keys :: "'m \<Rightarrow> 'k list"
    and ok :: "'m \<Rightarrow> bool"
  assumes get_put: "get (put k v m) = (get m)(k \<mapsto> v)"
    and get_del: "get (del k m) = (get m)(k := None)"
    and keys_put: "keys (put k v m) = (if k \<in> set (keys m) then keys m else keys m @ [k])"
    and keys_del: "keys (del k m) = filter (\<lambda>k'. k' \<noteq> k) (keys m)"
    and keys_get: "k \<in> set (keys m) \<longleftrightarrow> get m k \<noteq> None"
    and ok_keys: "ok m \<longleftrightarrow> distinct (keys m)"
begin

lemma ok_put: "ok m \<Longrightarrow> ok (put k v m)"
  by (simp add: ok_keys keys_put)

lemma ok_del: "ok m \<Longrightarrow> ok (del k m)"
  by (simp add: ok_keys keys_del)

text \<open>Delete then set: the entry becomes the most recently inserted one.\<close>

lemma keys_refresh: "keys (put k v (del k m)) = filter (\<lambda>k'. k' \<noteq> k) (keys m) @ [k]"
  by (simp add: keys_put keys_del)

lemma get_refresh: "get (put k v (del k m)) = (get m)(k \<mapsto> v)"
  by (simp add: get_put get_del)

lemma ok_refresh: "ok m \<Longrightarrow> ok (put k v (del k m))"
  by (simp add: ok_put ok_del)

lemma length_refresh_old:
  assumes "ok m" "k \<in> set (keys m)"
  shows "length (keys (put k v (del k m))) = length (keys m)"
  using assms length_filter_neq[of "keys m" k] length_pos_if_in_set[of k "keys m"]
  by (simp add: ok_keys keys_refresh)

lemma length_refresh_le: "length (keys (put k v (del k m))) \<le> Suc (length (keys m))"
  by (simp add: keys_refresh)

lemma keys_drop_oldest:
  assumes "ok m" "keys m = k # ks"
  shows "keys (del k m) = ks"
proof -
  have "k \<notin> set ks" using assms by (simp add: ok_keys)
  then have "filter (\<lambda>k'. k' \<noteq> k) ks = ks" by (simp add: filter_id_conv) (metis)
  with assms show ?thesis by (simp add: keys_del)
qed

end

lemma jm_keys_update [js_list]:
  "jm_keys (jm_set k v m) = (if k \<in> set (jm_keys m) then jm_keys m else jm_keys m @ [k])"
  by (induction m) (auto simp: jm_keys_def jm_set_def)

lemma jm_keys_delete [js_list]: "jm_keys (jm_delete k m) = filter (\<lambda>k'. k' \<noteq> k) (jm_keys m)"
  by (induction m) (auto simp: jm_keys_def jm_delete_def)

interpretation jm: insertion_map jm_get jm_set jm_delete jm_keys jm_ok
proof unfold_locales
  fix k :: 'k and v :: 'v and m :: "('k, 'v) jsmap"
  show "jm_get (jm_set k v m) = (jm_get m)(k \<mapsto> v)"
    by (simp add: jm_get_def jm_set_def update_conv')
  show "jm_get (jm_delete k m) = (jm_get m)(k := None)"
    by (simp add: jm_get_def jm_delete_def delete_conv')
  show "k \<in> set (jm_keys m) \<longleftrightarrow> jm_get m k \<noteq> None"
    by (simp add: jm_keys_def jm_get_def map_of_eq_None_iff)
  show "jm_ok m \<longleftrightarrow> distinct (jm_keys m)"
    by (simp add: jm_ok_def jm_keys_def)
qed (simp_all add: jm_keys_update jm_keys_delete)

lemma jm_size_keys: "jm_size m = length (jm_keys m)"
  by (simp add: jm_size_def jm_keys_def)

lemma jm_get_Nil [simp]: "jm_get [] = Map.empty"
  by (simp add: jm_get_def)

lemma jm_ok_Nil [simp]: "jm_ok []"
  by (simp add: jm_ok_def)

lemma jm_get_iff: "jm_ok m \<Longrightarrow> jm_get m k = Some v \<longleftrightarrow> (k, v) \<in> set m"
  by (simp add: jm_get_def jm_ok_def)

lemma set_jm_values: "jm_ok m \<Longrightarrow> v \<in> set (jm_values m) \<longleftrightarrow> (\<exists>k. jm_get m k = Some v)"
  by (auto simp: jm_values_def jm_get_iff image_iff) force+

lemmas jm_simps = jm.get_put jm.get_del jm.keys_put jm.keys_del jm.ok_put jm.ok_del

end
