(* ===== verification/Messages_Types.thy ===== *)
theory Messages_Types
  imports JS_Map
begin

section \<open>The messaging contract\<close>

text \<open>
  The data of \<^verbatim>\<open>landing/lib/api/messages.types.ts\<close>, field for field, and the error
  classification of \<^verbatim>\<open>landing/lib/api/messages.ts\<close>. A field \<^verbatim>\<open>T | null\<close> or \<^verbatim>\<open>field?: T\<close> is an
  option; a field that is both optional and nullable, where the code tells the two apart, is
  an option of an option.
\<close>

record message_user =
  u_fid :: int
  u_username :: "jstr option"
  u_display_name :: jstr
  u_pfp_url :: "jstr option"

record message_media =
  media_url :: jstr
  media_width :: int
  media_height :: int
  media_mime_type :: "jstr option"

record message_url_embed =
  embed_url :: jstr
  embed_title :: "jstr option"
  embed_description :: "jstr option"
  embed_image_url :: "jstr option"
  embed_domain :: "jstr option"

record message_metadata =
  md_medias :: "message_media list"
  md_urls :: "message_url_embed list"
  md_mentions :: "message_user list"
  md_cast_hashes :: "jstr list"

record reaction_summary =
  r_reaction :: jstr
  r_count :: int
  r_viewer_reacted :: bool

datatype message_type =
  Text | Group_name_change | Group_membership_addition | Group_membership_removal
  | Pin_message | Message_ttl_change | Rich_announcement

record message_quote =
  q_message_id :: jstr
  q_sender :: message_user
  q_text :: jstr
  q_is_deleted :: bool

datatype send_state = Sending | Failed

record message =
  message_id :: jstr
  m_conversation_id :: jstr
  sender :: message_user
  m_type :: message_type
  m_text :: jstr
  sent_at :: int
  reactions :: "reaction_summary list"
  in_reply_to :: "message_quote option"
  metadata :: "message_metadata option"
  is_deleted :: bool
  is_pinned :: bool
  is_last_read :: bool
  send_state :: "send_state option"

datatype conversation_category = CDefault | CArchived | CRequest | CVoid
datatype conversation_access = Read_only | Read_write

record conversation =
  conversation_id :: jstr
  is_group :: bool
  c_name :: "jstr option"
  photo_url :: "jstr option"
  participants :: "message_user list"
  counterparty :: "message_user option"
  last_message :: "message option"
  unread_count :: int
  unread_mentions_count :: int
  muted :: bool
  pinned :: bool
  archived :: bool
  category :: conversation_category
  access :: conversation_access
  last_read_at :: int
  manually_marked_unread :: bool
  created_at :: int
  peer_last_read_at :: "int option"

text \<open>
  \<open>next_newer_cursor\<close> of a page is \<open>None\<close> when the server omits it, \<open>Some None\<close> when it
  sends \<open>null\<close> and \<open>Some (Some c)\<close> for a cursor: the store treats the three differently.
\<close>

record messages_page =
  mp_items :: "message list"
  mp_next_cursor :: "jstr option"
  mp_next_newer_cursor :: "jstr option option"

record inbox_response =
  ir_items :: "conversation list"
  ir_next_cursor :: "jstr option"
  ir_requests_count :: int
  ir_has_unread_requests :: bool
  ir_has_archived :: bool

record send_message_request =
  sr_conversation_id :: "jstr option"
  sr_recipient_fids :: "int list"
  sr_message_id :: jstr
  sr_text :: jstr
  sr_in_reply_to_id :: "jstr option"
  sr_process_metadata :: "bool option"

record highlight_range =
  hr_start :: int
  hr_end :: int

record message_search_hit =
  hit_message :: message
  hit_conversation :: conversation
  hit_highlights :: "jstr list"
  hit_before :: "message list"
  hit_after :: "message list"
  hit_highlight_ranges :: "highlight_range list option"
  hit_matched_terms :: "jstr list option"
  hit_thread_cursor :: "jstr option option"
  hit_thread_newer_cursor :: "jstr option option"

datatype signer_status = SS_ready | SS_not_linked | SS_invalid_bearer | SS_unavailable
datatype messaging_token_status = Token_active | Token_missing | Token_expired

record messaging_status =
  ms_enabled :: bool
  ms_signer_status :: "signer_status option"
  ms_token_status :: "messaging_token_status option"
  ms_expires_at :: "jstr option"

datatype read_by = By_viewer | By_peer

datatype messages_event =
  Ev_message jstr message
  | Ev_read jstr "read_by option"
  | Ev_inbox jstr
  | Ev_ping

subsection \<open>Errors\<close>

text \<open>
  What a rejected call can carry: an \<^verbatim>\<open>ApiFetchError\<close> with a status, the body's \<open>detail\<close> and
  the sanitised \<open>serverMessage\<close>; another \<^verbatim>\<open>Error\<close> with its message; or any other value.
\<close>

datatype js_error =
  Api_error (err_status: int) (err_detail: "jstr option") (err_server_message: "jstr option")
  | Plain_error jstr
  | Other_thrown

definition MESSAGING_TOKEN_ERRORS :: "jstr set" where
  "MESSAGING_TOKEN_ERRORS =
     {''messaging_token_missing'', ''messaging_token_expired'', ''messaging_token_rejected''}"

definition MESSAGING_TOKEN_UNAVAILABLE :: jstr where
  "MESSAGING_TOKEN_UNAVAILABLE = ''messaging_token_unavailable''"

definition NOT_FOUND_DETAILS :: "jstr set" where
  "NOT_FOUND_DETAILS = {''not_found'', ''conversation_not_found''}"

fun is_messaging_token_detail :: "jstr option \<Rightarrow> bool" where
  "is_messaging_token_detail None = False"
| "is_messaging_token_detail (Some d) = (d \<in> MESSAGING_TOKEN_ERRORS)"

fun is_api_error :: "js_error \<Rightarrow> int \<Rightarrow> jstr option \<Rightarrow> bool" where
  "is_api_error (Api_error st d sm) status detail = (st = status \<and> (detail = None \<or> d = detail))"
| "is_api_error _ _ _ = False"

fun is_messaging_token_error :: "js_error \<Rightarrow> bool" where
  "is_messaging_token_error (Api_error st d sm) =
     (is_api_error (Api_error st d sm) 403 None \<and> is_messaging_token_detail d)"
| "is_messaging_token_error _ = False"

definition is_messaging_disabled_error :: "js_error \<Rightarrow> bool" where
  "is_messaging_disabled_error e = is_api_error e 404 (Some ''messaging_disabled'')"

fun is_conversation_not_found_error :: "js_error \<Rightarrow> bool" where
  "is_conversation_not_found_error (Api_error st d sm) =
     (if \<not> is_api_error (Api_error st d sm) 404 None then False
      else (case d of None \<Rightarrow> True | Some x \<Rightarrow> x \<in> NOT_FOUND_DETAILS))"
| "is_conversation_not_found_error _ = False"

definition is_upstream_rejected_error :: "js_error \<Rightarrow> bool" where
  "is_upstream_rejected_error e = is_api_error e 422 (Some ''upstream_rejected'')"

definition UPSTREAM_REJECTED_FALLBACK_COPY :: jstr where
  "UPSTREAM_REJECTED_FALLBACK_COPY = ''Farcaster didn't accept that. Check it and try again.''"

definition upstream_rejected_copy :: "js_error \<Rightarrow> jstr" where
  "upstream_rejected_copy e =
     (case (case e of Api_error _ _ sm \<Rightarrow> map_option js_trim sm | _ \<Rightarrow> None) of
        Some m \<Rightarrow> (if m \<noteq> [] then m else UPSTREAM_REJECTED_FALLBACK_COPY)
      | None \<Rightarrow> UPSTREAM_REJECTED_FALLBACK_COPY)"

definition is_invalid_cursor_error :: "js_error \<Rightarrow> bool" where
  "is_invalid_cursor_error e = is_api_error e 400 (Some ''invalid_cursor'')"

definition is_rate_limited_error :: "js_error \<Rightarrow> bool" where
  "is_rate_limited_error e = is_api_error e 429 None"

definition messaging_error_copy :: "js_error \<Rightarrow> jstr \<Rightarrow> jstr" where
  "messaging_error_copy e fallback =
     (if is_upstream_rejected_error e then upstream_rejected_copy e
      else if is_rate_limited_error e then ''Slow down a little, then try again.''
      else (case e of
              Api_error _ _ _ \<Rightarrow> fallback
            | Plain_error m \<Rightarrow> (if m \<noteq> [] then m else fallback)
            | Other_thrown \<Rightarrow> fallback))"

lemmas error_defs =
  is_messaging_disabled_error_def is_upstream_rejected_error_def is_invalid_cursor_error_def
  is_rate_limited_error_def MESSAGING_TOKEN_ERRORS_def NOT_FOUND_DETAILS_def

text \<open>The classes the store branches on are pairwise disjoint.\<close>

lemma error_classes_disjoint:
  "\<not> (is_messaging_disabled_error e \<and> is_messaging_token_error e)"
  "\<not> (is_messaging_disabled_error e \<and> is_conversation_not_found_error e)"
  "\<not> (is_messaging_token_error e \<and> is_conversation_not_found_error e)"
  "\<not> (is_invalid_cursor_error e \<and> is_messaging_disabled_error e)"
  "\<not> (is_upstream_rejected_error e \<and> is_messaging_token_error e)"
  by (cases e; auto simp: error_defs)+

end
