(* ===== verification/Message_List.thy ===== *)
theory Message_List
  imports Messages_Types
begin

section \<open>A conversation's message list\<close>

text \<open>
  \<^verbatim>\<open>landing/lib/messages/message-list.ts\<close>: the pure operations on the list of loaded messages,
  kept ascending by \<open>(sent_at, message_id)\<close> and without duplicate ids. The functions return
  their argument itself where the code returns the same reference, so a caller's
  \<^verbatim>\<open>messages === current\<close> is equality here.
\<close>

definition compare_messages :: "message \<Rightarrow> message \<Rightarrow> int" where
  "compare_messages a b =
     (if sent_at a \<noteq> sent_at b then sent_at a - sent_at b
      else if message_id a < message_id b then -1
      else if message_id a > message_id b then 1 else 0)"

definition same_reactions :: "reaction_summary list \<Rightarrow> reaction_summary list \<Rightarrow> bool" where
  "same_reactions a b \<longleftrightarrow>
     length a = length b \<and>
     list_all2 (\<lambda>x y. r_reaction x = r_reaction y \<and> r_count x = r_count y \<and>
       r_viewer_reacted x = r_viewer_reacted y) a b"

definition is_same_message :: "message \<Rightarrow> message \<Rightarrow> bool" where
  "is_same_message a b \<longleftrightarrow>
     sent_at a = sent_at b \<and> m_text a = m_text b \<and> is_deleted a = is_deleted b \<and>
     is_pinned a = is_pinned b \<and> is_last_read a = is_last_read b \<and>
     send_state a = send_state b \<and> same_reactions (reactions a) (reactions b)"

text \<open>
  The loop body of \<^verbatim>\<open>mergeMessages\<close>: which incoming copies replace the current one. Object
  identity (\<^verbatim>\<open>current === message\<close>) is value equality, which \<open>is_same_message\<close> implies.
\<close>

definition merge_skips :: "message option \<Rightarrow> message \<Rightarrow> bool" where
  "merge_skips current m \<longleftrightarrow>
     (case current of None \<Rightarrow> False
      | Some c \<Rightarrow> c = m \<or> (send_state c = None \<and> send_state m \<noteq> None) \<or> is_same_message c m)"

fun merge_incoming ::
  "message list \<Rightarrow> (jstr, message) jsmap \<times> bool \<Rightarrow> (jstr, message) jsmap \<times> bool" where
  "merge_incoming [] st = st"
| "merge_incoming (m # ms) (byId, changed) =
     (if merge_skips (jm_get byId (message_id m)) m then merge_incoming ms (byId, changed)
      else merge_incoming ms (jm_set (message_id m) m byId, True))"

definition index_by_id :: "message list \<Rightarrow> (jstr, message) jsmap" where
  "index_by_id ms = fold (\<lambda>m. jm_set (message_id m) m) ms []"

definition merge_messages :: "message list \<Rightarrow> message list \<Rightarrow> message list" where
  "merge_messages existing incoming =
     (if incoming = [] then existing
      else let (byId, changed) = merge_incoming incoming (index_by_id existing, False)
           in if \<not> changed then existing else js_sort compare_messages (jm_values byId))"

definition update_message :: "message list \<Rightarrow> jstr \<Rightarrow> (message \<Rightarrow> message) \<Rightarrow> message list" where
  "update_message ms mid update =
     (case js_find_index (\<lambda>m. message_id m = mid) ms of
        None \<Rightarrow> ms
      | Some i \<Rightarrow> ms[i := update (ms ! i)])"

definition remove_message :: "message list \<Rightarrow> jstr \<Rightarrow> message list" where
  "remove_message ms mid =
     (let next = filter (\<lambda>m. message_id m \<noteq> mid) ms
      in if length next = length ms then ms else next)"

definition toggle_reaction :: "reaction_summary list \<Rightarrow> jstr \<Rightarrow> bool \<Rightarrow> reaction_summary list" where
  "toggle_reaction rs reaction add =
     (case js_find_index (\<lambda>r. r_reaction r = reaction) rs of
        None \<Rightarrow> (if \<not> add then rs
                 else rs @ [\<lparr>r_reaction = reaction, r_count = 1, r_viewer_reacted = True\<rparr>])
      | Some i \<Rightarrow>
          (let current = rs ! i
           in if r_viewer_reacted current = add then rs
              else let count = max 0 (r_count current + (if add then 1 else -1))
                   in if count = 0 then take i rs @ drop (Suc i) rs
                      else rs[i := current\<lparr>r_count := count, r_viewer_reacted := add\<rparr>]))"

definition quote_of :: "message \<Rightarrow> message_quote" where
  "quote_of m = \<lparr>q_message_id = message_id m, q_sender = sender m, q_text = m_text m,
     q_is_deleted = is_deleted m\<rparr>"

definition build_optimistic_message ::
  "jstr \<Rightarrow> jstr \<Rightarrow> message_user \<Rightarrow> jstr \<Rightarrow> int \<Rightarrow> message option \<Rightarrow> message" where
  "build_optimistic_message mid cid usr txt sentAt replyTo =
     \<lparr>message_id = mid, m_conversation_id = cid, sender = usr, m_type = Text, m_text = txt,
      sent_at = sentAt, reactions = [], in_reply_to = map_option quote_of replyTo,
      metadata = None, is_deleted = False, is_pinned = False, is_last_read = False,
      send_state = Some Sending\<rparr>"

definition count_incoming_after :: "message list \<Rightarrow> jstr option \<Rightarrow> int option \<Rightarrow> nat" where
  "count_incoming_after ms lastSeenId viewerFid =
     (case lastSeenId of None \<Rightarrow> 0
      | Some seen \<Rightarrow>
          (if seen = [] then 0
           else case js_find_index (\<lambda>m. message_id m = seen) ms of
              None \<Rightarrow> 0
            | Some i \<Rightarrow> length (filter (\<lambda>m. Some (u_fid (sender m)) \<noteq> viewerFid) (drop (Suc i) ms))))"

definition pages_overlap :: "message list \<Rightarrow> message list \<Rightarrow> bool" where
  "pages_overlap loaded page =
     (if loaded = [] \<or> page = [] then False
      else list_ex (\<lambda>m. message_id m \<in> set (map message_id loaded)) page)"

definition optimistic_sent_at :: "message list \<Rightarrow> int \<Rightarrow> int" where
  "optimistic_sent_at ms now =
     (case map_option sent_at (js_last ms) of
        None \<Rightarrow> now
      | Some newest \<Rightarrow> max now (newest + 1))"

definition PLACEHOLDER_QUOTE_SENDER_FID :: int where
  "PLACEHOLDER_QUOTE_SENDER_FID = 0"

definition merge_send_echo :: "message \<Rightarrow> message option \<Rightarrow> message" where
  "merge_send_echo echo optimistic =
     (case Option.bind optimistic in_reply_to of
        None \<Rightarrow> echo
      | Some localQuote \<Rightarrow>
          (case in_reply_to echo of
             Some q \<Rightarrow> (if u_fid (q_sender q) \<noteq> PLACEHOLDER_QUOTE_SENDER_FID then echo
                        else echo\<lparr>in_reply_to := Some localQuote\<rparr>)
           | None \<Rightarrow> echo\<lparr>in_reply_to := Some localQuote\<rparr>))"

subsection \<open>The order\<close>

lemma compare_messages_eq_0: "compare_messages a b = 0 \<longleftrightarrow> sent_at a = sent_at b \<and> message_id a = message_id b"
  by (auto simp: compare_messages_def)

lemma compare_messages_neg:
  "compare_messages a b < 0 \<longleftrightarrow>
     sent_at a < sent_at b \<or> (sent_at a = sent_at b \<and> message_id a < message_id b)"
  by (auto simp: compare_messages_def)

lemma compare_messages_le:
  "compare_messages a b \<le> 0 \<longleftrightarrow>
     sent_at a < sent_at b \<or> (sent_at a = sent_at b \<and> message_id a \<le> message_id b)"
  by (auto simp: compare_messages_def)

interpretation msgs: js_comparator compare_messages
  by unfold_locales (auto simp: compare_messages_le)

lemma compare_messages_cong:
  assumes "sent_at a' = sent_at a" "message_id a' = message_id a"
  shows "compare_messages a' b = compare_messages a b" "compare_messages b a' = compare_messages b a"
  using assms by (simp_all add: compare_messages_def)

text \<open>The store's invariant on a loaded list: strictly ascending, no id twice.\<close>

definition msgs_ok :: "message list \<Rightarrow> bool" where
  "msgs_ok ms \<longleftrightarrow> sorted_wrt (\<lambda>a b. compare_messages a b < 0) ms \<and> distinct (map message_id ms)"

definition by_id :: "message list \<Rightarrow> jstr \<rightharpoonup> message" where
  "by_id ms = map_of (map (\<lambda>m. (message_id m, m)) ms)"

lemma msgs_ok_Nil [simp, js_intro]: "msgs_ok []"
  by (simp add: msgs_ok_def)

lemma msgs_ok_distinct: "msgs_ok ms \<Longrightarrow> distinct (map message_id ms)"
  by (simp add: msgs_ok_def)

lemma msgs_ok_filter [js_intro]: "msgs_ok ms \<Longrightarrow> msgs_ok (filter P ms)"
  by (simp add: msgs_ok_def sorted_wrt_filter distinct_map_filter)

lemma by_id_Some_iff:
  "distinct (map message_id ms) \<Longrightarrow> by_id ms i = Some m \<longleftrightarrow> m \<in> set ms \<and> message_id m = i"
  by (auto simp: by_id_def map_of_eq_Some_iff comp_def)

lemma by_id_SomeD: "by_id ms i = Some m \<Longrightarrow> m \<in> set ms \<and> message_id m = i"
  by (auto simp: by_id_def dest: map_of_SomeD)

lemma by_id_None_iff: "by_id ms i = None \<longleftrightarrow> i \<notin> message_id ` set ms"
  by (auto simp: by_id_def map_of_eq_None_iff image_image)

lemma dom_by_id: "dom (by_id ms) = message_id ` set ms"
  using by_id_None_iff by (force simp: dom_def)

lemma by_id_Nil [simp]: "by_id [] = Map.empty"
  by (simp add: by_id_def)

lemma by_id_same_set:
  assumes "distinct (map message_id xs)" "distinct (map message_id ys)" "set xs = set ys"
  shows "by_id xs = by_id ys"
  using assms by (intro ext option_eqI) (simp add: by_id_Some_iff)

subsection \<open>The index and the merge loop\<close>

definition keyed :: "(jstr, message) jsmap \<Rightarrow> bool" where
  "keyed d \<longleftrightarrow> jm_ok d \<and> (\<forall>k m. jm_get d k = Some m \<longrightarrow> message_id m = k)"

lemma keyed_Nil [simp]: "keyed []"
  by (simp add: keyed_def)

lemma keyed_set: "keyed d \<Longrightarrow> keyed (jm_set (message_id m) m d)"
  by (auto simp: keyed_def jm_simps split: if_splits)

lemma keyed_values_distinct: "keyed d \<Longrightarrow> distinct (map message_id (jm_values d))"
proof -
  assume k: "keyed d"
  then have "map message_id (jm_values d) = map fst d"
    by (auto simp: jm_values_def keyed_def jm_get_iff intro!: map_cong)
  with k show ?thesis by (simp add: keyed_def jm_ok_def)
qed

lemma keyed_by_id: "keyed d \<Longrightarrow> by_id (jm_values d) = jm_get d"
proof (intro ext option_eqI)
  fix i m assume k: "keyed d"
  then show "by_id (jm_values d) i = Some m \<longleftrightarrow> jm_get d i = Some m"
    by (auto simp: by_id_Some_iff[OF keyed_values_distinct] set_jm_values keyed_def)
qed

lemma index_fold:
  "keyed d \<Longrightarrow> keyed (fold (\<lambda>m. jm_set (message_id m) m) ms d)"
  by (induction ms arbitrary: d) (auto intro: keyed_set)

lemma index_fold_get:
  "distinct (map message_id ms) \<Longrightarrow>
   jm_get (fold (\<lambda>m. jm_set (message_id m) m) ms d) = jm_get d ++ by_id ms"
proof (induction ms arbitrary: d)
  case Nil
  then show ?case by simp
next
  case (Cons m ms)
  have "by_id ms (message_id m) = None" using Cons.prems by (auto simp: by_id_None_iff)
  then show ?case using Cons
    by (intro ext) (auto simp: jm_simps by_id_def map_add_def split: option.splits)
qed

lemma keyed_index: "keyed (index_by_id ms)"
  by (simp add: index_by_id_def index_fold)

lemma get_index: "distinct (map message_id ms) \<Longrightarrow> jm_get (index_by_id ms) = by_id ms"
  by (simp add: index_by_id_def index_fold_get)

text \<open>The merge over plain maps: the specification of the loop.\<close>

definition reconcile :: "message option \<Rightarrow> message \<Rightarrow> message option" where
  "reconcile cur m = (if merge_skips cur m then cur else Some m)"

fun merge_map :: "message list \<Rightarrow> (jstr \<rightharpoonup> message) \<Rightarrow> (jstr \<rightharpoonup> message)" where
  "merge_map [] f = f"
| "merge_map (m # ms) f = merge_map ms (f(message_id m := reconcile (f (message_id m)) m))"

lemma merge_incoming_get:
  "jm_get (fst (merge_incoming ms (d, c))) = merge_map ms (jm_get d)"
  by (induction ms arbitrary: d c) (auto simp: reconcile_def jm_simps fun_upd_idem)

lemma merge_incoming_keyed: "keyed d \<Longrightarrow> keyed (fst (merge_incoming ms (d, c)))"
  by (induction ms arbitrary: d c) (auto intro: keyed_set)

lemma merge_incoming_changed: "c \<Longrightarrow> snd (merge_incoming ms (d, c))"
  by (induction ms arbitrary: d c) auto

lemma merge_incoming_unchanged:
  "\<not> snd (merge_incoming ms (d, c)) \<Longrightarrow> fst (merge_incoming ms (d, c)) = d"
proof (induction ms arbitrary: d c)
  case Nil
  then show ?case by simp
next
  case (Cons m ms)
  then show ?case using merge_incoming_changed[of True ms] by (auto split: if_splits)
qed

lemma merge_messages_cases:
  obtains (same) "merge_messages ex inc = ex"
      "distinct (map message_id ex) \<Longrightarrow> merge_map inc (by_id ex) = by_id ex"
  | (sorted) d where "keyed d" "merge_messages ex inc = js_sort compare_messages (jm_values d)"
      "distinct (map message_id ex) \<Longrightarrow> jm_get d = merge_map inc (by_id ex)"
proof (cases "inc = []")
  case True
  then show thesis using same by (simp add: merge_messages_def)
next
  case False
  let ?r = "merge_incoming inc (index_by_id ex, False)"
  have g: "distinct (map message_id ex) \<Longrightarrow> jm_get (fst ?r) = merge_map inc (by_id ex)"
    by (simp add: merge_incoming_get get_index)
  show thesis
  proof (cases "snd ?r")
    case True
    then show thesis using False g sorted[of "fst ?r"]
      by (simp add: merge_messages_def merge_incoming_keyed keyed_index case_prod_beta)
  next
    case nc: False
    then have "fst ?r = index_by_id ex" by (rule merge_incoming_unchanged)
    then show thesis using False nc g same
      by (simp add: merge_messages_def case_prod_beta get_index)
  qed
qed

lemma keyed_sort_ok: "keyed d \<Longrightarrow> msgs_ok (js_sort compare_messages (jm_values d))"
proof -
  assume k: "keyed d"
  have dist: "distinct (map message_id (jm_values d))" using k by (rule keyed_values_distinct)
  have "mset (map message_id (js_sort compare_messages (jm_values d))) = mset (map message_id (jm_values d))"
    by simp
  then have "distinct (map message_id (js_sort compare_messages (jm_values d)))"
    using dist mset_eq_imp_distinct_iff by blast
  then show ?thesis
    using msgs.sort_strict[OF dist] by (auto simp: msgs_ok_def compare_messages_eq_0)
qed

lemma keyed_sort_by_id: "keyed d \<Longrightarrow> by_id (js_sort compare_messages (jm_values d)) = jm_get d"
  using by_id_same_set[of "js_sort compare_messages (jm_values d)" "jm_values d"]
    keyed_sort_ok keyed_values_distinct keyed_by_id msgs_ok_distinct by simp

lemma msgs_ok_merge [js_intro]: "msgs_ok ex \<Longrightarrow> msgs_ok (merge_messages ex inc)"
  by (cases rule: merge_messages_cases[of ex inc]) (auto simp: keyed_sort_ok)

lemma by_id_merge: "msgs_ok ex \<Longrightarrow> by_id (merge_messages ex inc) = merge_map inc (by_id ex)"
  by (cases rule: merge_messages_cases[of ex inc]) (auto simp: msgs_ok_distinct keyed_sort_by_id)

subsection \<open>What a merge keeps\<close>

lemma reconcile_id:
  "reconcile cur m = Some m' \<Longrightarrow> (\<And>c. cur = Some c \<Longrightarrow> message_id c = message_id m) \<Longrightarrow>
   message_id m' = message_id m"
  by (auto simp: reconcile_def split: if_splits)

lemma reconcile_not_None: "reconcile cur m \<noteq> None"
  by (auto simp: reconcile_def merge_skips_def split: option.splits)

lemma dom_merge_map: "dom (merge_map ms f) = dom f \<union> message_id ` set ms"
proof (induction ms arbitrary: f)
  case Nil
  then show ?case by simp
next
  case (Cons m ms)
  obtain r where "reconcile (f (message_id m)) m = Some r" using reconcile_not_None by blast
  then show ?case using Cons by auto
qed

lemma ids_merge:
  "msgs_ok ex \<Longrightarrow> message_id ` set (merge_messages ex inc) = message_id ` set ex \<union> message_id ` set inc"
  using dom_merge_map[of inc "by_id ex"] by (simp add: by_id_merge flip: dom_by_id)

text \<open>A confirmed copy is only ever replaced by a confirmed copy.\<close>

lemma reconcile_confirmed:
  "send_state c = None \<Longrightarrow> \<exists>c'. reconcile (Some c) m = Some c' \<and> send_state c' = None"
  by (auto simp: reconcile_def merge_skips_def)

lemma merge_map_confirmed:
  "f i = Some c \<Longrightarrow> send_state c = None \<Longrightarrow> \<exists>c'. merge_map ms f i = Some c' \<and> send_state c' = None"
proof (induction ms arbitrary: f c)
  case Nil
  then show ?case by simp
next
  case (Cons m ms)
  show ?case
  proof (cases "message_id m = i")
    case True
    then obtain c' where "reconcile (f i) m = Some c'" "send_state c' = None"
      using reconcile_confirmed Cons.prems by metis
    then show ?thesis using Cons.IH True by simp
  next
    case False
    then show ?thesis using Cons by simp
  qed
qed

text \<open>A confirmed incoming copy confirms the message.\<close>

lemma reconcile_to_confirmed:
  "send_state m = None \<Longrightarrow> \<exists>c'. reconcile cur m = Some c' \<and> send_state c' = None"
  by (cases cur) (auto simp: reconcile_def merge_skips_def is_same_message_def)

lemma merge_map_confirms:
  "m \<in> set ms \<Longrightarrow> send_state m = None \<Longrightarrow>
   \<exists>c'. merge_map ms f (message_id m) = Some c' \<and> send_state c' = None"
proof (induction ms arbitrary: f)
  case Nil
  then show ?case by simp
next
  case (Cons x ms)
  show ?case
  proof (cases "x = m")
    case True
    then obtain c' where "reconcile (f (message_id m)) m = Some c'" "send_state c' = None"
      using reconcile_to_confirmed Cons.prems by metis
    then show ?thesis using True merge_map_confirmed by simp
  next
    case False
    then show ?thesis using Cons by auto
  qed
qed

subsection \<open>Update and removal\<close>

lemma msgs_ok_update_nth:
  assumes "msgs_ok ms" "i < length ms" "message_id y = message_id (ms ! i)" "sent_at y = sent_at (ms ! i)"
  shows "msgs_ok (ms[i := y])"
proof -
  have "map message_id (ms[i := y]) = map message_id ms"
    using assms(2,3) list_update_id[of "map message_id ms" i] by (simp add: map_update)
  moreover have "sorted_wrt (\<lambda>a b. compare_messages a b < 0) (ms[i := y])"
    using assms by (auto simp: msgs_ok_def sorted_wrt_iff_nth_less nth_list_update compare_messages_neg)
  ultimately show ?thesis using assms(1) by (simp add: msgs_ok_def)
qed

lemma msgs_ok_update [js_intro]:
  assumes "msgs_ok ms" "\<And>m. message_id (u m) = message_id m" "\<And>m. sent_at (u m) = sent_at m"
  shows "msgs_ok (update_message ms mid u)"
proof (cases "js_find_index (\<lambda>m. message_id m = mid) ms")
  case None
  then show ?thesis using assms by (simp add: update_message_def)
next
  case (Some i)
  then have "i < length ms" by (rule js_find_index_SomeD)
  then show ?thesis using Some assms by (simp add: update_message_def msgs_ok_update_nth)
qed

lemma remove_message_filter: "remove_message ms mid = filter (\<lambda>m. message_id m \<noteq> mid) ms"
  by (auto simp: remove_message_def Let_def filter_length_eq_iff)

lemma msgs_ok_remove [js_intro]: "msgs_ok ms \<Longrightarrow> msgs_ok (remove_message ms mid)"
  by (simp add: remove_message_filter msgs_ok_filter)

lemma by_id_update:
  assumes "msgs_ok ms" "\<And>m. message_id (u m) = message_id m"
  shows "by_id (update_message ms mid u) = (by_id ms)(mid := map_option u (by_id ms mid))"
proof (cases "js_find_index (\<lambda>m. message_id m = mid) ms")
  case None
  then have "by_id ms mid = None" by (auto simp: js_find_index_None by_id_None_iff)
  then show ?thesis using None by (simp add: update_message_def fun_upd_idem)
next
  case (Some i)
  then have i: "i < length ms" "message_id (ms ! i) = mid" by (rule js_find_index_SomeD)+
  have d: "distinct (map message_id ms)" using assms(1) by (rule msgs_ok_distinct)
  have m: "by_id ms mid = Some (ms ! i)" using i d by (simp add: by_id_Some_iff)
  have split: "ms = take i ms @ ms ! i # drop (Suc i) ms" using i(1) by (simp add: id_take_nth_drop)
  have upd: "ms[i := u (ms ! i)] = take i ms @ u (ms ! i) # drop (Suc i) ms"
    using i(1) by (simp add: upd_conv_take_nth_drop)
  have ni: "mid \<notin> message_id ` set (take i ms)" using d i split
    by (metis (no_types, lifting) IntI distinct_append image_set list.set_intros(1) list.simps(9) map_append
        disjoint_iff)
  have "by_id (take i ms @ u (ms ! i) # drop (Suc i) ms) = (by_id (take i ms @ ms ! i # drop (Suc i) ms))(mid := Some (u (ms ! i)))"
    using ni i(2) assms(2) by (intro ext) (auto simp: by_id_def map_add_def split: option.splits
        dest!: map_of_SomeD)
  then show ?thesis using Some m split upd by (simp add: update_message_def)
qed

lemma by_id_remove: "msgs_ok ms \<Longrightarrow> by_id (remove_message ms mid) = (by_id ms)(mid := None)"
proof (intro ext option_eqI)
  fix i m assume ok: "msgs_ok ms"
  then show "by_id (remove_message ms mid) i = Some m \<longleftrightarrow> ((by_id ms)(mid := None)) i = Some m"
    using msgs_ok_distinct[OF ok] msgs_ok_distinct[OF msgs_ok_remove[OF ok], of mid]
    by (auto simp: by_id_Some_iff remove_message_filter)
qed

subsection \<open>Optimistic sends\<close>

lemma last_sent_at_max:
  assumes "msgs_ok ms" "m \<in> set ms"
  shows "sent_at m \<le> sent_at (last ms)"
proof (cases "ms = []")
  case False
  then have split: "ms = butlast ms @ [last ms]" by simp
  then have "sorted_wrt (\<lambda>a b. compare_messages a b < 0) (butlast ms @ [last ms])"
    using assms(1) by (simp add: msgs_ok_def)
  then have "\<forall>x \<in> set (butlast ms). sent_at x \<le> sent_at (last ms)"
    by (auto simp: sorted_wrt_append compare_messages_neg)
  then show ?thesis using assms(2) split by (metis Un_iff empty_iff empty_set order_refl set_ConsD set_append)
qed (use assms in simp)

lemma optimistic_sent_at_newest:
  assumes "msgs_ok ms" "m \<in> set ms"
  shows "sent_at m < optimistic_sent_at ms now"
  using last_sent_at_max[OF assms] assms(2)
  by (cases "ms = []") (auto simp: optimistic_sent_at_def js_last_def)

lemma msgs_ok_snoc:
  assumes "msgs_ok ms" "\<And>x. x \<in> set ms \<Longrightarrow> sent_at x < sent_at m" "message_id m \<notin> message_id ` set ms"
  shows "msgs_ok (ms @ [m])"
  using assms by (auto simp: msgs_ok_def sorted_wrt_append compare_messages_neg)

lemma sorted_unique:
  assumes "msgs_ok xs" "msgs_ok ys" "set xs = set ys"
  shows "xs = ys"
proof -
  have d: "distinct xs" "distinct ys" using assms(1,2) by (auto simp: msgs_ok_def distinct_map)
  then have m: "mset xs = mset ys" using assms(3) by (simp add: set_eq_iff_mset_eq_distinct)
  show ?thesis using assms(1,2) m unfolding msgs_ok_def
  proof (induction xs arbitrary: ys)
    case Nil
    then show ?case by simp
  next
    case (Cons x xs)
    then obtain y ys' where ys: "ys = y # ys'" by (cases ys) auto
    have "x = y"
    proof (rule ccontr)
      assume "x \<noteq> y"
      then have "y \<in> set xs" "x \<in> set ys'"
        using Cons.prems(3) ys by (metis list.set_intros(1) set_ConsD set_mset_mset)+
      then have "compare_messages x y < 0" "compare_messages y x < 0"
        using Cons.prems ys by auto
      then show False by (auto simp: compare_messages_neg)
    qed
    then show ?case using Cons ys by auto
  qed
qed

lemma merge_fresh_last:
  assumes ok: "msgs_ok ms" and fresh: "message_id m \<notin> message_id ` set ms"
    and newest: "\<And>x. x \<in> set ms \<Longrightarrow> sent_at x < sent_at m"
  shows "merge_messages ms [m] = ms @ [m]"
proof (rule sorted_unique)
  have none: "by_id ms (message_id m) = None" using fresh by (simp add: by_id_None_iff)
  have snoc: "msgs_ok (ms @ [m])" using msgs_ok_snoc[OF ok newest fresh] .
  show "msgs_ok (merge_messages ms [m])" using ok by (rule msgs_ok_merge)
  show "msgs_ok (ms @ [m])" by (rule snoc)
  have "by_id (merge_messages ms [m]) = by_id (ms @ [m])"
  proof
    fix i
    have "by_id (merge_messages ms [m]) i = (if i = message_id m then Some m else by_id ms i)"
      by (simp add: by_id_merge[OF ok] none reconcile_def merge_skips_def)
    also have "\<dots> = by_id (ms @ [m]) i"
      using none by (auto simp: by_id_def map_add_def split: option.splits)
    finally show "by_id (merge_messages ms [m]) i = by_id (ms @ [m]) i" .
  qed
  then show "set (merge_messages ms [m]) = set (ms @ [m])"
    using by_id_Some_iff[OF msgs_ok_distinct[OF snoc]]
      by_id_Some_iff[OF msgs_ok_distinct[OF msgs_ok_merge[OF ok]], of "[m]"]
    by (metis subsetI subset_antisym)
qed

lemma optimistic_fields [simp]:
  "message_id (build_optimistic_message mid cid usr txt t r) = mid"
  "sent_at (build_optimistic_message mid cid usr txt t r) = t"
  "send_state (build_optimistic_message mid cid usr txt t r) = Some Sending"
  "m_conversation_id (build_optimistic_message mid cid usr txt t r) = cid"
  "sender (build_optimistic_message mid cid usr txt t r) = usr"
  "m_text (build_optimistic_message mid cid usr txt t r) = txt"
  by (simp_all add: build_optimistic_message_def)

lemma merge_send_echo_fields [simp]:
  "message_id (merge_send_echo e opt) = message_id e"
  "sent_at (merge_send_echo e opt) = sent_at e"
  "send_state (merge_send_echo e opt) = send_state e"
  "m_conversation_id (merge_send_echo e opt) = m_conversation_id e"
  by (simp_all add: merge_send_echo_def split: option.splits)

text \<open>
  The quote of a reply survives the echo: whenever the local row had one, the merged row has
  one that names a real sender or is the local one.
\<close>

lemma merge_send_echo_quote:
  assumes "in_reply_to opt = Some q"
  shows "in_reply_to (merge_send_echo e (Some opt)) = Some q \<or>
    (\<exists>q'. in_reply_to e = Some q' \<and> u_fid (q_sender q') \<noteq> 0 \<and>
      in_reply_to (merge_send_echo e (Some opt)) = Some q')"
  using assms by (auto simp: merge_send_echo_def PLACEHOLDER_QUOTE_SENDER_FID_def split: option.splits)

lemma pages_overlap_iff:
  "pages_overlap loaded page \<longleftrightarrow> message_id ` set loaded \<inter> message_id ` set page \<noteq> {}"
  by (auto simp: pages_overlap_def list_ex_iff image_iff) (metis IntI empty_iff imageI)+

subsection \<open>Reactions\<close>

text \<open>A reaction list as the server sends it: one chip per emoji, each with a positive count.\<close>

definition reactions_ok :: "reaction_summary list \<Rightarrow> bool" where
  "reactions_ok rs \<longleftrightarrow> distinct (map r_reaction rs) \<and> (\<forall>r \<in> set rs. r_count r \<ge> 1)"

lemma toggle_reaction_ok: "reactions_ok rs \<Longrightarrow> reactions_ok (toggle_reaction rs e add)"
proof (cases "js_find_index (\<lambda>r. r_reaction r = e) rs")
  case None
  assume ok: "reactions_ok rs"
  have "\<forall>r \<in> set rs. r_reaction r \<noteq> e" using None by (rule js_find_index_NoneD)
  with None ok show ?thesis by (auto simp: toggle_reaction_def reactions_ok_def)
next
  case (Some i)
  assume ok: "reactions_ok rs"
  have i: "i < length rs" using Some by (rule js_find_index_SomeD)
  let ?c = "rs ! i" and ?n = "max 0 (r_count (rs ! i) + (if add then 1 else -1))"
  have cut: "reactions_ok (take i rs @ drop (Suc i) rs)"
  proof -
    have "distinct (map r_reaction (take i rs @ rs ! i # drop (Suc i) rs))"
      using ok i by (simp add: reactions_ok_def id_take_nth_drop[symmetric])
    then have "distinct (map r_reaction (take i rs @ drop (Suc i) rs))" by auto
    moreover have "set (take i rs @ drop (Suc i) rs) \<subseteq> set rs"
      by (auto dest: in_set_takeD in_set_dropD)
    ultimately show ?thesis using ok by (auto simp: reactions_ok_def)
  qed
  have upd: "reactions_ok (rs[i := ?c\<lparr>r_count := ?n, r_viewer_reacted := add\<rparr>])" if "?n \<noteq> 0"
  proof -
    have "map r_reaction (rs[i := ?c\<lparr>r_count := ?n, r_viewer_reacted := add\<rparr>]) = map r_reaction rs"
      using i list_update_id[of "map r_reaction rs" i] by (simp add: map_update)
    moreover have "?n \<ge> 1" using that by simp
    ultimately show ?thesis
      using ok set_update_subset_insert[of rs i "?c\<lparr>r_count := ?n, r_viewer_reacted := add\<rparr>"]
      by (auto simp: reactions_ok_def)
  qed
  show ?thesis using Some ok cut upd by (simp add: toggle_reaction_def Let_def)
qed

text \<open>The viewer's own state of one emoji, and its count, after a toggle.\<close>

definition viewer_reacted :: "reaction_summary list \<Rightarrow> jstr \<Rightarrow> bool" where
  "viewer_reacted rs e \<longleftrightarrow> (\<exists>r \<in> set rs. r_reaction r = e \<and> r_viewer_reacted r)"

lemma viewer_reacted_find:
  assumes "distinct (map r_reaction rs)"
  shows "viewer_reacted rs e \<longleftrightarrow>
    (case js_find_index (\<lambda>r. r_reaction r = e) rs of None \<Rightarrow> False | Some i \<Rightarrow> r_viewer_reacted (rs ! i))"
proof (cases "js_find_index (\<lambda>r. r_reaction r = e) rs")
  case None
  then show ?thesis using js_find_index_NoneD[OF None] by (auto simp: viewer_reacted_def)
next
  case (Some i)
  then have i: "i < length rs" "r_reaction (rs ! i) = e" by (rule js_find_index_SomeD)+
  have "r = rs ! i" if "r \<in> set rs" "r_reaction r = e" for r
    using assms that i by (auto simp: distinct_map dest!: inj_onD)
  then show ?thesis using Some i by (auto simp: viewer_reacted_def)
qed

lemma toggle_reaction_sets:
  assumes "reactions_ok rs"
  shows "viewer_reacted (toggle_reaction rs e add) e \<longleftrightarrow> add"
proof (cases "js_find_index (\<lambda>r. r_reaction r = e) rs")
  case None
  then show ?thesis using js_find_index_NoneD[OF None]
    by (auto simp: toggle_reaction_def viewer_reacted_def)
next
  case (Some i)
  then have i: "i < length rs" "r_reaction (rs ! i) = e" by (rule js_find_index_SomeD)+
  let ?c = "rs ! i" and ?n = "max 0 (r_count (rs ! i) + (if add then 1 else -1))"
  have d: "distinct (map r_reaction rs)" using assms by (simp add: reactions_ok_def)
  have pos: "r_count ?c \<ge> 1" using assms i(1) by (simp add: reactions_ok_def)
  have gone: "\<not> viewer_reacted (take i rs @ drop (Suc i) rs) e"
  proof -
    have "distinct (map r_reaction (take i rs @ rs ! i # drop (Suc i) rs))"
      using d i(1) by (simp add: id_take_nth_drop[symmetric])
    then show ?thesis using i(2) by (fastforce simp: viewer_reacted_def image_iff)
  qed
  have upd: "viewer_reacted (rs[i := ?c\<lparr>r_count := ?n, r_viewer_reacted := add\<rparr>]) e \<longleftrightarrow> add"
  proof -
    let ?rs = "rs[i := ?c\<lparr>r_count := ?n, r_viewer_reacted := add\<rparr>]"
    have m: "map r_reaction ?rs = map r_reaction rs"
      using i list_update_id[of "map r_reaction rs" i] by (simp add: map_update)
    have "js_find_index (\<lambda>r. r_reaction r = e) ?rs = Some i"
      using Some i m by (auto simp: js_find_index_Some nth_list_update)
    then show ?thesis using viewer_reacted_find[of ?rs e] m d i(1) by simp
  qed
  show ?thesis using Some gone upd pos viewer_reacted_find[OF d, of e]
    by (auto simp: toggle_reaction_def Let_def)
qed

end
