(* ===== verification/Draft_Storage.thy ===== *)
theory Draft_Storage
  imports JS_Map "HOL-Library.Sublist"
begin

section \<open>Persisted composer drafts\<close>

text \<open>
  \<^verbatim>\<open>landing/lib/messages/draft-storage.ts\<close>: drafts kept in \<^verbatim>\<open>localStorage\<close> under a key that
  holds the viewer's fid and the conversation key. Storage can be absent (\<open>None\<close>), blocked
  (every access throws) or full (writes throw); each operation catches and degrades.
\<close>

record storage =
  entries :: "(jstr, jstr) jsmap"
  blocked :: bool
  full :: bool

definition DRAFT_KEY_PREFIX :: jstr where
  "DRAFT_KEY_PREFIX = ''juke:dm-draft:v1:''"

definition draft_storage_key :: "int \<Rightarrow> jstr \<Rightarrow> jstr" where
  "draft_storage_key viewerFid conversationKey =
     DRAFT_KEY_PREFIX @ js_of_int viewerFid @ '':'' @ conversationKey"

definition load_persisted_draft :: "int \<Rightarrow> jstr \<Rightarrow> storage option \<Rightarrow> jstr" where
  "load_persisted_draft viewerFid conversationKey st =
     (case st of None \<Rightarrow> []
      | Some s \<Rightarrow>
          if conversationKey = [] then []
          else if blocked s then []
          else (case jm_get (entries s) (draft_storage_key viewerFid conversationKey) of
                  Some t \<Rightarrow> t | None \<Rightarrow> []))"

definition persist_draft :: "int \<Rightarrow> jstr \<Rightarrow> jstr \<Rightarrow> storage option \<Rightarrow> storage option" where
  "persist_draft viewerFid conversationKey txt st =
     (case st of None \<Rightarrow> None
      | Some s \<Rightarrow>
          if conversationKey = [] then Some s
          else let key = draft_storage_key viewerFid conversationKey
               in if blocked s then Some s
                  else if js_trim txt \<noteq> []
                       then (if full s then Some s
                             else Some (s\<lparr>entries := jm_set key txt (entries s)\<rparr>))
                       else Some (s\<lparr>entries := jm_delete key (entries s)\<rparr>))"

definition clear_persisted_draft :: "int \<Rightarrow> jstr \<Rightarrow> storage option \<Rightarrow> storage option" where
  "clear_persisted_draft viewerFid conversationKey st = persist_draft viewerFid conversationKey [] st"

definition clear_all_persisted_drafts :: "storage option \<Rightarrow> storage option" where
  "clear_all_persisted_drafts st =
     (case st of None \<Rightarrow> None
      | Some s \<Rightarrow>
          if blocked s then Some s
          else let keys = filter (\<lambda>k. prefix DRAFT_KEY_PREFIX k) (jm_keys (entries s))
               in Some (s\<lparr>entries := fold jm_delete keys (entries s)\<rparr>))"

text \<open>Distinct (viewer, conversation) pairs never share a key.\<close>

lemma draft_storage_key_inject:
  "draft_storage_key f c = draft_storage_key g d \<longleftrightarrow> f = g \<and> c = d"
  using separator_inject[OF js_of_int_no_colon js_of_int_no_colon]
  by (auto simp: draft_storage_key_def js_of_int_inject)

lemma draft_key_prefix: "prefix DRAFT_KEY_PREFIX (draft_storage_key f c)"
  by (simp add: draft_storage_key_def)

lemma load_persist_same:
  assumes "\<not> blocked s" "\<not> full s" "c \<noteq> []"
  shows "load_persisted_draft f c (persist_draft f c t (Some s)) = (if js_trim t = [] then [] else t)"
  using assms by (simp add: load_persisted_draft_def persist_draft_def jm_simps Let_def)

lemma load_persist_other:
  assumes "(f, c) \<noteq> (g, d)"
  shows "load_persisted_draft g d (persist_draft f c t st) = load_persisted_draft g d st"
  using assms
  by (auto simp: load_persisted_draft_def persist_draft_def jm_simps Let_def draft_storage_key_inject
      split: option.splits)

lemma get_fold_delete: "jm_get (fold jm_delete ks m) k = (if k \<in> set ks then None else jm_get m k)"
  by (induction ks arbitrary: m) (auto simp: jm_simps)

lemma load_after_clear_all:
  assumes "\<not> blocked s"
  shows "load_persisted_draft f c (clear_all_persisted_drafts (Some s)) = []"
proof (cases "draft_storage_key f c \<in> set (jm_keys (entries s))")
  case True
  then show ?thesis using assms draft_key_prefix
    by (simp add: load_persisted_draft_def clear_all_persisted_drafts_def get_fold_delete Let_def)
next
  case False
  then have "jm_get (entries s) (draft_storage_key f c) = None" by (simp add: jm.keys_get)
  then show ?thesis using assms
    by (simp add: load_persisted_draft_def clear_all_persisted_drafts_def get_fold_delete Let_def)
qed

text \<open>Clearing touches nothing but drafts.\<close>

lemma clear_all_keeps_others:
  assumes "\<not> prefix DRAFT_KEY_PREFIX k" "clear_all_persisted_drafts (Some s) = Some s'"
  shows "jm_get (entries s') k = jm_get (entries s) k"
  using assms by (auto simp: clear_all_persisted_drafts_def get_fold_delete Let_def split: if_splits)

lemma persist_never_throws_away: "persist_draft f c t st = None \<longleftrightarrow> st = None"
  by (auto simp: persist_draft_def Let_def split: option.splits)

end
