(* ===== verification/Message_Specs.thy ===== *)
theory Message_Specs
  imports Message_List Draft_Storage
begin

section \<open>What merging and drafts promise\<close>

text \<open>
  The contracts of \<^verbatim>\<open>landing/lib/messages/message-list.ts\<close> and
  \<^verbatim>\<open>landing/lib/messages/draft-storage.ts\<close>, as properties over the lemmas of their theories. A
  thread's list is the concrete form of a map from ids to messages (\<open>by_id\<close>); \<open>kept_copies\<close> is
  what a merge means there.
\<close>

definition msg :: "jstr \<Rightarrow> int \<Rightarrow> send_state option \<Rightarrow> message" where
  "msg i t st = \<lparr>message_id = i, m_conversation_id = ''c'',
     sender = \<lparr>u_fid = 1, u_username = None, u_display_name = [], u_pfp_url = None\<rparr>,
     m_type = Text, m_text = [], sent_at = t, reactions = [], in_reply_to = None, metadata = None,
     is_deleted = False, is_pinned = False, is_last_read = False, send_state = st\<rparr>"

lemma sorted_set_unique:
  assumes asym: "\<And>a b. R a b \<Longrightarrow> \<not> R b a"
  shows "sorted_wrt R xs \<Longrightarrow> sorted_wrt R ys \<Longrightarrow> set xs = set ys \<Longrightarrow> xs = ys"
proof (induction xs arbitrary: ys)
  case Nil
  then show ?case by simp
next
  case (Cons x xs)
  then obtain y ys' where ys: "ys = y # ys'" by (cases ys) auto
  have "x = y"
  proof (rule ccontr)
    assume "x \<noteq> y"
    then have "R y x" "R x y" using Cons.prems ys by auto
    then show False using asym by blast
  qed
  moreover have "x \<notin> set xs" "y \<notin> set ys'" using Cons.prems(1,2) ys asym by (auto dest: bspec)
  ultimately have "set xs = set ys'" using Cons.prems(3) ys by auto
  then show ?case using Cons ys \<open>x = y\<close> by simp
qed

lemma msgs_ok_unique:
  assumes "msgs_ok xs" "msgs_ok ys" "by_id xs = by_id ys"
  shows "xs = ys"
proof (rule sorted_set_unique)
  show "sorted_wrt (\<lambda>a b. compare_messages a b < 0) xs" "sorted_wrt (\<lambda>a b. compare_messages a b < 0) ys"
    using assms by (simp_all add: msgs_ok_def)
  have "m \<in> set zs \<longleftrightarrow> by_id zs (message_id m) = Some m" if "msgs_ok zs" for m zs
    using that by (simp add: by_id_Some_iff msgs_ok_distinct)
  then show "set xs = set ys" using assms by auto
  show "\<not> compare_messages b a < 0" if "compare_messages a b < 0" for a b
    using that by (auto simp: compare_messages_neg)
qed

text \<open>
  The contract of a merge, stated on its own: how a thread is ordered, when two copies of a message
  show the same, which of two copies of one id is kept, and a page as successive updates of the map.
\<close>

definition thread_ordered :: "message list \<Rightarrow> bool" where
  "thread_ordered ms \<longleftrightarrow> distinct (map message_id ms)
     \<and> sorted_wrt (\<lambda>a b. sent_at a < sent_at b \<or> (sent_at a = sent_at b \<and> message_id a < message_id b)) ms"

definition shows_the_same :: "message \<Rightarrow> message \<Rightarrow> bool" where
  "shows_the_same a b \<longleftrightarrow>
     (sent_at a, m_text a, is_deleted a, is_pinned a, is_last_read a, send_state a)
       = (sent_at b, m_text b, is_deleted b, is_pinned b, is_last_read b, send_state b)
     \<and> map (\<lambda>r. (r_reaction r, r_count r, r_viewer_reacted r)) (reactions a)
       = map (\<lambda>r. (r_reaction r, r_count r, r_viewer_reacted r)) (reactions b)"

fun kept_copy :: "message option \<Rightarrow> message \<Rightarrow> message" where
  "kept_copy None m = m"
| "kept_copy (Some c) m =
     (case (send_state c, send_state m) of
        (None, Some _) \<Rightarrow> c
      | _ \<Rightarrow> if shows_the_same c m then c else m)"

definition kept_copies :: "message list \<Rightarrow> (jstr \<rightharpoonup> message) \<Rightarrow> (jstr \<rightharpoonup> message)" where
  "kept_copies page thread =
     foldl (\<lambda>f m. f(message_id m \<mapsto> kept_copy (f (message_id m)) m)) thread page"

lemma thread_ordered_iff: "thread_ordered ms \<longleftrightarrow> msgs_ok ms"
  by (auto simp: thread_ordered_def msgs_ok_def compare_messages_neg)

lemma shows_the_same_iff: "shows_the_same a b \<longleftrightarrow> is_same_message a b"
proof -
  have "list_all2 (\<lambda>x y. r_reaction x = r_reaction y \<and> r_count x = r_count y \<and>
       r_viewer_reacted x = r_viewer_reacted y) xs ys
    \<longleftrightarrow> map (\<lambda>r. (r_reaction r, r_count r, r_viewer_reacted r)) xs
      = map (\<lambda>r. (r_reaction r, r_count r, r_viewer_reacted r)) ys" for xs ys
    by (induction xs arbitrary: ys) (auto simp: list_all2_Cons1)
  then show ?thesis
    by (auto simp: shows_the_same_def is_same_message_def same_reactions_def dest: list_all2_lengthD map_eq_imp_length_eq)
qed

lemma reconcile_kept: "reconcile cur m = Some (kept_copy cur m)"
  by (cases cur; cases "send_state m"; cases "send_state (the cur)")
    (auto simp: reconcile_def merge_skips_def shows_the_same_iff)

lemma merge_map_kept: "merge_map page f = kept_copies page f"
  by (induction page arbitrary: f) (simp_all add: kept_copies_def reconcile_kept)

text \<open>
  C8. Merging a page into a thread is exactly the merge of two maps from ids to messages, kept as the
  one list ordered by time then id with no id twice: a new id is added; a local copy (sending or
  failed) never replaces a server one; a copy that shows the same as the one there changes nothing;
  any other copy replaces the one there. No other list is an ordered list of those messages.
\<close>

theorem merge_refines_map:
  assumes "thread_ordered existing"
  shows "thread_ordered ys \<and> by_id ys = kept_copies incoming (by_id existing)
    \<longleftrightarrow> ys = merge_messages existing incoming"
proof -
  have ok: "msgs_ok existing" using assms by (simp add: thread_ordered_iff)
  show ?thesis
    using msgs_ok_unique[of ys "merge_messages existing incoming"] msgs_ok_merge[OF ok] by_id_merge[OF ok]
    by (auto simp: thread_ordered_iff merge_map_kept)
qed

theorem merge_refines_map_witness:
  "\<exists>ms. merge_messages [msg ''a'' 1 None, msg ''b'' 2 (Some Sending)]
        [msg ''a'' 7 (Some Sending), msg ''b'' 3 None, msg ''c'' 2 None] = ms \<and>
     by_id ms = kept_copies [msg ''a'' 7 (Some Sending), msg ''b'' 3 None, msg ''c'' 2 None]
       (by_id [msg ''a'' 1 None, msg ''b'' 2 (Some Sending)]) \<and>
     map (\<lambda>m. (message_id m, sent_at m)) ms = [(''a'', 1), (''c'', 2), (''b'', 3)]"
proof -
  let ?old = "[msg ''a'' 1 None, msg ''b'' 2 (Some Sending)]"
  let ?page = "[msg ''a'' 7 (Some Sending), msg ''b'' 3 None, msg ''c'' 2 None]"
  have ok: "thread_ordered ?old" by code_simp
  have m: "map (\<lambda>m. (message_id m, sent_at m)) (merge_messages ?old ?page) = [(''a'', 1), (''c'', 2), (''b'', 3)]"
    by code_simp
  have "by_id (merge_messages ?old ?page) = kept_copies ?page (by_id ?old)"
    by (rule iffD2[OF merge_refines_map[OF ok] refl, THEN conjunct2])
  with m show ?thesis by (intro exI[of _ "merge_messages ?old ?page"] conjI refl)
qed

text \<open>
  A draft survives the round trip through the browser's storage: what was saved for a viewer and a
  conversation is what is restored for them, and nothing else is: no draft of another viewer or of
  another conversation is ever read or overwritten. A blank draft is cleared. A storage that is full or
  blocked loses only the write.
\<close>

theorem draft_round_trip:
  assumes "\<not> blocked s" "\<not> full s" "c \<noteq> []"
  shows "load_persisted_draft f c (persist_draft f c t (Some s)) = (if js_trim t = [] then [] else t) \<and>
    ((f, c) \<noteq> (g, d) \<longrightarrow>
       load_persisted_draft g d (persist_draft f c t st) = load_persisted_draft g d st) \<and>
    load_persisted_draft g d (clear_all_persisted_drafts (Some s)) = []"
  using assms by (simp add: load_persist_same load_persist_other load_after_clear_all)

theorem draft_round_trip_witness:
  "\<exists>s. \<not> blocked s \<and> load_persisted_draft 1 ''c'' (persist_draft 1 ''c'' ''hi'' (Some s)) = ''hi''"
proof -
  define s where "s = \<lparr>entries = [], blocked = False, full = False\<rparr>"
  have s: "\<not> blocked s" "\<not> full s" by (simp_all add: s_def)
  have t: "js_trim ''hi'' \<noteq> []" by code_simp
  show ?thesis
    using draft_round_trip[OF s, of "''c''" 1 "''hi''"] t s by (intro exI[of _ s]) simp
qed

end
