(* ===== verification/Inbox_Merge.thy ===== *)
theory Inbox_Merge
  imports Messages_Types
begin

section \<open>Merging an inbox refresh\<close>

text \<open>
  \<^verbatim>\<open>landing/lib/messages/inbox-merge.ts\<close>: a fresh first page is merged into an inbox the user
  has already paged through. Ids on the page come first; ids the page does not list are kept
  only if they are older than everything unpinned on the page.
\<close>

record inbox_ids =
  ii_ids :: "jstr list"
  ii_cursor :: "jstr option"
  ii_has_more :: bool

definition inbox_activity_at :: "conversation \<Rightarrow> int" where
  "inbox_activity_at c =
     (case last_message c of Some m \<Rightarrow> sent_at m | None \<Rightarrow> created_at c)"

definition unpinned_conversation :: "(jstr \<rightharpoonup> conversation) \<Rightarrow> jstr \<Rightarrow> conversation option" where
  "unpinned_conversation conversations i =
     (case conversations i of None \<Rightarrow> None | Some c \<Rightarrow> if pinned c then None else Some c)"

definition merge_inbox_refresh ::
  "inbox_ids \<Rightarrow> jstr list \<Rightarrow> jstr option \<Rightarrow> (jstr \<rightharpoonup> conversation) \<Rightarrow> inbox_ids" where
  "merge_inbox_refresh existing pageIds nextCursor conversations =
     (let fresh = \<lparr>ii_ids = pageIds, ii_cursor = nextCursor, ii_has_more = (nextCursor \<noteq> None)\<rparr>
      in if nextCursor = None then fresh
         else let unpinned = List.map_filter (unpinned_conversation conversations) pageIds
              in case js_min (map inbox_activity_at unpinned) of
                   None \<Rightarrow> fresh
                 | Some boundary \<Rightarrow>
                     (let tail = filter (\<lambda>i. if i \<in> set pageIds then False
                                   else case unpinned_conversation conversations i of
                                          None \<Rightarrow> False
                                        | Some c \<Rightarrow> inbox_activity_at c < boundary) (ii_ids existing)
                      in if tail = [] then fresh
                         else \<lparr>ii_ids = pageIds @ tail, ii_cursor = ii_cursor existing,
                               ii_has_more = ii_has_more existing\<rparr>))"

lemma set_map_filter: "set (List.map_filter f xs) = {y. \<exists>x \<in> set xs. f x = Some y}"
  by (induction xs) (auto split: option.splits)

lemma map_filter_empty_iff: "List.map_filter f xs = [] \<longleftrightarrow> (\<forall>x \<in> set xs. f x = None)"
  by (induction xs) (auto split: option.splits)

lemma unpinned_conversation_Some [simp]:
  "unpinned_conversation cs i = Some c \<longleftrightarrow> cs i = Some c \<and> \<not> pinned c"
  by (auto simp: unpinned_conversation_def split: option.splits)

text \<open>
  The tail that a refresh keeps, as a specification: already listed, not on the page, known
  and unpinned, and older than every unpinned conversation of the page.
\<close>

definition kept_in_tail :: "inbox_ids \<Rightarrow> jstr list \<Rightarrow> (jstr \<rightharpoonup> conversation) \<Rightarrow> jstr \<Rightarrow> bool" where
  "kept_in_tail existing pageIds cs i \<longleftrightarrow>
     i \<in> set (ii_ids existing) \<and> i \<notin> set pageIds \<and>
     (\<exists>c. cs i = Some c \<and> \<not> pinned c \<and>
       (\<forall>j \<in> set pageIds. \<forall>d. cs j = Some d \<longrightarrow> \<not> pinned d \<longrightarrow>
          inbox_activity_at c < inbox_activity_at d))"

lemma merge_inbox_cases:
  obtains (fresh) "merge_inbox_refresh ex page nc cs =
      \<lparr>ii_ids = page, ii_cursor = nc, ii_has_more = (nc \<noteq> None)\<rparr>"
      "nc = None \<or> (\<forall>j \<in> set page. unpinned_conversation cs j = None) \<or> (\<forall>i. \<not> kept_in_tail ex page cs i)"
  | (tail) tl where "merge_inbox_refresh ex page nc cs =
      \<lparr>ii_ids = page @ tl, ii_cursor = ii_cursor ex, ii_has_more = ii_has_more ex\<rparr>"
      "nc \<noteq> None" "tl = filter (kept_in_tail ex page cs) (ii_ids ex)" "tl \<noteq> []"
      "\<exists>j \<in> set page. unpinned_conversation cs j \<noteq> None"
proof -
  let ?un = "List.map_filter (unpinned_conversation cs) page"
  show thesis
  proof (cases "nc = None \<or> ?un = []")
    case True
    then show thesis using fresh map_filter_empty_iff[of "unpinned_conversation cs" page]
      by (auto simp: merge_inbox_refresh_def js_min_def Let_def)
  next
    case False
    let ?b = "Min (inbox_activity_at ` set ?un)"
    let ?t = "\<lambda>i. if i \<in> set page then False else case unpinned_conversation cs i of None \<Rightarrow> False
       | Some c \<Rightarrow> inbox_activity_at c < ?b"
    have b: "x < ?b \<longleftrightarrow> (\<forall>j \<in> set page. \<forall>d. cs j = Some d \<longrightarrow> \<not> pinned d \<longrightarrow> x < inbox_activity_at d)" for x
    proof -
      have "x < ?b \<longleftrightarrow> (\<forall>d \<in> set ?un. x < inbox_activity_at d)"
        using False by (subst Min_gr_iff) auto
      then show ?thesis by (auto simp: set_map_filter)
    qed
    have t: "filter ?t (ii_ids ex) = filter (kept_in_tail ex page cs) (ii_ids ex)"
      by (rule filter_cong[OF refl]) (auto simp: kept_in_tail_def b unpinned_conversation_def split: option.splits if_splits)
    have ne: "\<exists>j \<in> set page. unpinned_conversation cs j \<noteq> None"
      using False map_filter_empty_iff[of "unpinned_conversation cs" page] by blast
    have eq: "merge_inbox_refresh ex page nc cs = (if filter ?t (ii_ids ex) = []
        then \<lparr>ii_ids = page, ii_cursor = nc, ii_has_more = (nc \<noteq> None)\<rparr>
        else \<lparr>ii_ids = page @ filter ?t (ii_ids ex), ii_cursor = ii_cursor ex, ii_has_more = ii_has_more ex\<rparr>)"
      using False by (cases nc) (simp_all add: merge_inbox_refresh_def js_min_def Let_def)
    show thesis
    proof (cases "filter ?t (ii_ids ex) = []")
      case True
      then have "\<forall>i. \<not> kept_in_tail ex page cs i"
        unfolding t by (auto simp: filter_empty_conv kept_in_tail_def)
      then show thesis using fresh eq True by simp
    next
      case ne2: False
      show thesis by (rule tail[of "filter (kept_in_tail ex page cs) (ii_ids ex)"])
          (use eq ne2 False ne t in simp_all)
    qed
  qed
qed

lemma merge_inbox_distinct:
  assumes "distinct page" "distinct (ii_ids ex)"
  shows "distinct (ii_ids (merge_inbox_refresh ex page nc cs))"
  by (cases rule: merge_inbox_cases[of ex page nc cs]) (use assms in \<open>auto simp: kept_in_tail_def\<close>)

lemma merge_inbox_prefix: "\<exists>tl. ii_ids (merge_inbox_refresh ex page nc cs) = page @ tl"
  by (cases rule: merge_inbox_cases[of ex page nc cs]) auto

text \<open>Exactly the page and the kept tail are listed, when the page is not the last one.\<close>

lemma merge_inbox_members:
  assumes "nc \<noteq> None" "\<exists>j \<in> set page. unpinned_conversation cs j \<noteq> None"
  shows "i \<in> set (ii_ids (merge_inbox_refresh ex page nc cs)) \<longleftrightarrow> i \<in> set page \<or> kept_in_tail ex page cs i"
  by (cases rule: merge_inbox_cases[of ex page nc cs])
    (use assms in \<open>auto simp: kept_in_tail_def simp del: unpinned_conversation_Some\<close>)

text \<open>A page without a next cursor is authoritative.\<close>

lemma merge_inbox_final: "merge_inbox_refresh ex page None cs = \<lparr>ii_ids = page, ii_cursor = None, ii_has_more = False\<rparr>"
  by (simp add: merge_inbox_refresh_def)

end
