(* ===== verification/Message_Store.thy ===== *)
theory Message_Store
  imports Message_List Inbox_Merge Draft_Storage
begin

section \<open>The messaging store: state and reducers\<close>

text \<open>
  The state of \<^verbatim>\<open>landing/lib/stores/messageStore.ts\<close> and the synchronous updates its actions
  are made of. \<open>mstate\<close> holds the zustand state, the two closure variables of the draft send
  queue (\<open>draft_send_chains\<close>, \<open>resolved_drafts\<close>) with the settled values of the chain
  promises, and the browser's local storage. The asynchronous actions are in
  \<^verbatim>\<open>Message_Actions\<close>.
\<close>

datatype inbox_segment = Seg_default | Seg_request

datatype messaging_availability = Av_unknown | Av_available | Av_disabled | Av_token_required

datatype load_status = St_idle | St_loading | St_ready | St_error

record inbox_list =
  ib_ids :: "jstr list"
  ib_cursor :: "jstr option"
  ib_has_more :: bool
  ib_status :: load_status
  ib_loading_more :: bool
  ib_error :: "jstr option"

record thread_state =
  t_messages :: "message list"
  older_cursor :: "jstr option"
  has_older :: bool
  newer_cursor :: "jstr option"
  has_newer :: bool
  t_status :: load_status
  loading_older :: bool
  loading_newer :: bool
  t_error :: "jstr option"
  is_not_found :: bool
  newer_while_detached :: int

definition draft_conversation_key :: "int \<Rightarrow> jstr" where
  "draft_conversation_key peerFid = ''draft:'' @ js_of_int peerFid"

definition empty_inbox :: inbox_list where
  "empty_inbox = \<lparr>ib_ids = [], ib_cursor = None, ib_has_more = True, ib_status = St_idle,
     ib_loading_more = False, ib_error = None\<rparr>"

definition empty_thread :: thread_state where
  "empty_thread = \<lparr>t_messages = [], older_cursor = None, has_older = True, newer_cursor = None,
     has_newer = False, t_status = St_idle, loading_older = False, loading_newer = False,
     t_error = None, is_not_found = False, newer_while_detached = 0\<rparr>"

definition empty_live_thread :: thread_state where
  "empty_live_thread = empty_thread\<lparr>t_status := St_ready, has_older := False\<rparr>"

record window_page =
  wp_items :: "message list"
  wp_older_cursor :: "jstr option"
  wp_newer_cursor :: "jstr option"
  wp_has_newer :: bool

definition window_from_messages_page :: "messages_page \<Rightarrow> window_page" where
  "window_from_messages_page page =
     \<lparr>wp_items = mp_items page, wp_older_cursor = mp_next_cursor page,
      wp_newer_cursor = Option.bind (mp_next_newer_cursor page) id,
      wp_has_newer = (mp_next_newer_cursor page \<noteq> Some None)\<rparr>"

text \<open>
  \<^verbatim>\<open>Math.min\<close> and \<^verbatim>\<open>Math.max\<close> of no page times are the infinities, for which both
  comparisons are false.
\<close>

definition apply_window_page :: "thread_state \<Rightarrow> window_page \<Rightarrow> thread_state" where
  "apply_window_page current page =
     (let confirmed = filter (\<lambda>m. send_state m = None) (t_messages current);
          pageTimes = map sent_at (wp_items page)
      in case (find (\<lambda>m. send_state m = None) (t_messages current), js_last confirmed,
               pages_overlap (t_messages current) (wp_items page)) of
        (Some oldest, Some newest, True) \<Rightarrow>
          (let extendsOlder = (case js_min pageTimes of Some t \<Rightarrow> t < sent_at oldest | None \<Rightarrow> False);
               extendsNewer = ((case js_max pageTimes of Some t \<Rightarrow> t > sent_at newest | None \<Rightarrow> False)
                 \<and> has_newer current);
               reachesLiveEnd = (extendsNewer \<and> \<not> wp_has_newer page)
           in current\<lparr>
             t_messages := merge_messages (t_messages current) (wp_items page),
             older_cursor := (if extendsOlder then wp_older_cursor page else older_cursor current),
             has_older := (if extendsOlder then wp_older_cursor page \<noteq> None else has_older current),
             newer_cursor := (if extendsNewer then wp_newer_cursor page else newer_cursor current),
             has_newer := (if extendsNewer then wp_has_newer page else has_newer current),
             newer_while_detached := (if reachesLiveEnd then 0 else newer_while_detached current),
             t_status := St_ready, t_error := None, is_not_found := False\<rparr>)
      | _ \<Rightarrow>
          (let optimistic = (if wp_has_newer page then []
                             else filter (\<lambda>m. send_state m \<noteq> None) (t_messages current))
           in current\<lparr>
             t_messages := merge_messages optimistic (wp_items page),
             older_cursor := wp_older_cursor page,
             has_older := (wp_older_cursor page \<noteq> None),
             newer_cursor := wp_newer_cursor page,
             has_newer := wp_has_newer page,
             loading_older := False, loading_newer := False,
             newer_while_detached := 0,
             t_status := St_ready, t_error := None, is_not_found := False\<rparr>))"

fun unread_weight :: "conversation option \<Rightarrow> int" where
  "unread_weight None = 0"
| "unread_weight (Some c) =
     (if muted c then 0
      else if unread_count c > 0 then unread_count c
      else if manually_marked_unread c then 1 else 0)"

definition compute_unread_total :: "jstr list \<Rightarrow> (jstr \<rightharpoonup> conversation) \<Rightarrow> int" where
  "compute_unread_total ids conversations =
     foldl (\<lambda>total i. total + unread_weight (conversations i)) 0 ids"

definition is_pinned_id :: "(jstr \<rightharpoonup> conversation) \<Rightarrow> jstr \<Rightarrow> bool" where
  "is_pinned_id conversations i = (case conversations i of None \<Rightarrow> False | Some c \<Rightarrow> pinned c)"

definition promote :: "jstr list \<Rightarrow> jstr \<Rightarrow> (jstr \<rightharpoonup> conversation) \<Rightarrow> jstr list" where
  "promote ids i conversations =
     (let rest = filter (\<lambda>x. x \<noteq> i) ids;
          pinnedCount = (if is_pinned_id conversations i then Some 0
                         else js_find_index (\<lambda>x. \<not> is_pinned_id conversations x) rest);
          insertAt = (case pinnedCount of None \<Rightarrow> length rest | Some n \<Rightarrow> n)
      in take insertAt rest @ [i] @ drop insertAt rest)"

record send_result =
  res_conversation_id :: "jstr option"
  res_message_id :: jstr
  res_ok :: bool

record mstate =
  viewer :: "message_user option"
  availability :: messaging_availability
  conversations :: "jstr \<rightharpoonup> conversation"
  inbox :: "inbox_segment \<Rightarrow> inbox_list"
  requests_count :: int
  has_unread_requests :: bool
  unread_total :: int
  threads :: "jstr \<rightharpoonup> thread_state"
  reply_targets :: "jstr \<rightharpoonup> message option"
  drafts :: "jstr \<rightharpoonup> jstr"
  pending_sends :: "jstr \<rightharpoonup> send_message_request"
  send_errors :: "jstr \<rightharpoonup> jstr"
  focused_conversation_id :: "jstr option"
  realtime_connected :: bool
  missing_conversations :: "jstr set"
  read_marks :: "jstr \<rightharpoonup> jstr"
  draft_send_chains :: "jstr \<rightharpoonup> nat"
  resolved_drafts :: "jstr \<rightharpoonup> jstr"
  chain_values :: "nat \<rightharpoonup> jstr option"
  next_chain :: nat
  local_storage :: "storage option"

definition with_initial_data :: "mstate \<Rightarrow> mstate" where
  "with_initial_data s =
     s\<lparr>viewer := None, availability := Av_unknown, conversations := Map.empty,
       inbox := (\<lambda>_. empty_inbox), requests_count := 0, has_unread_requests := False,
       unread_total := 0, threads := Map.empty, reply_targets := Map.empty, drafts := Map.empty,
       pending_sends := Map.empty, send_errors := Map.empty, focused_conversation_id := None,
       realtime_connected := False, missing_conversations := {}, read_marks := Map.empty\<rparr>"

definition initial_store :: "storage option \<Rightarrow> mstate" where
  "initial_store st =
     \<lparr>viewer = None, availability = Av_unknown, conversations = Map.empty,
      inbox = (\<lambda>_. empty_inbox), requests_count = 0, has_unread_requests = False,
      unread_total = 0, threads = Map.empty, reply_targets = Map.empty, drafts = Map.empty,
      pending_sends = Map.empty, send_errors = Map.empty, focused_conversation_id = None,
      realtime_connected = False, missing_conversations = {}, read_marks = Map.empty,
      draft_send_chains = Map.empty, resolved_drafts = Map.empty, chain_values = Map.empty,
      next_chain = 0, local_storage = st\<rparr>"

definition thread_or_empty :: "mstate \<Rightarrow> jstr \<Rightarrow> thread_state" where
  "thread_or_empty s cid = (case threads s cid of Some t \<Rightarrow> t | None \<Rightarrow> empty_thread)"

definition put_thread :: "jstr \<Rightarrow> thread_state \<Rightarrow> mstate \<Rightarrow> mstate" where
  "put_thread cid t s = s\<lparr>threads := (threads s)(cid \<mapsto> t)\<rparr>"

definition note_not_found :: "jstr \<Rightarrow> mstate \<Rightarrow> mstate" where
  "note_not_found cid s = s\<lparr>missing_conversations := insert cid (missing_conversations s)\<rparr>"

text \<open>The second component is the function's result: whether the error was an availability change.\<close>

definition note_availability_error :: "js_error \<Rightarrow> mstate \<Rightarrow> mstate \<times> bool" where
  "note_availability_error e s =
     (if is_messaging_disabled_error e then (s\<lparr>availability := Av_disabled\<rparr>, True)
      else if is_messaging_token_error e then (s\<lparr>availability := Av_token_required\<rparr>, True)
      else (s, False))"

definition patch_thread :: "jstr \<Rightarrow> (thread_state \<Rightarrow> thread_state) \<Rightarrow> mstate \<Rightarrow> mstate" where
  "patch_thread cid patch s = put_thread cid (patch (thread_or_empty s cid)) s"

definition patch_inbox :: "inbox_segment \<Rightarrow> (inbox_list \<Rightarrow> inbox_list) \<Rightarrow> mstate \<Rightarrow> mstate" where
  "patch_inbox seg patch s = s\<lparr>inbox := (inbox s)(seg := patch (inbox s seg))\<rparr>"

definition remove_from_requests :: "jstr \<Rightarrow> mstate \<Rightarrow> jstr list \<times> mstate" where
  "remove_from_requests cid s =
     (let requestIds = ib_ids (inbox s Seg_request)
      in (requestIds,
          (patch_inbox Seg_request (\<lambda>l. l\<lparr>ib_ids := filter (\<lambda>i. i \<noteq> cid) requestIds\<rparr>) s)
            \<lparr>requests_count := max 0 (requests_count s - 1)\<rparr>))"

definition restore_requests :: "jstr list \<Rightarrow> mstate \<Rightarrow> mstate" where
  "restore_requests requestIds s =
     (patch_inbox Seg_request (\<lambda>l. l\<lparr>ib_ids := requestIds\<rparr>) s)
       \<lparr>requests_count := requests_count s + 1\<rparr>"

definition update_loaded_message :: "jstr \<Rightarrow> jstr \<Rightarrow> (message \<Rightarrow> message) \<Rightarrow> mstate \<Rightarrow> mstate" where
  "update_loaded_message cid mid update s =
     (case threads s cid of
        None \<Rightarrow> s
      | Some current \<Rightarrow>
          put_thread cid (current\<lparr>t_messages := update_message (t_messages current) mid update\<rparr>) s)"

text \<open>
  \<open>update\<close> returns \<open>None\<close> where the code's callback returns the same object: the store is
  then left alone. Any new object, equal or not, recomputes the badge.
\<close>

definition patch_conversation ::
  "jstr \<Rightarrow> (conversation \<Rightarrow> conversation option) \<Rightarrow> mstate \<Rightarrow> mstate" where
  "patch_conversation cid update s =
     (case conversations s cid of
        None \<Rightarrow> s
      | Some current \<Rightarrow>
          (case update current of
             None \<Rightarrow> s
           | Some next \<Rightarrow>
               (let cs = (conversations s)(cid \<mapsto> next)
                in s\<lparr>conversations := cs,
                     unread_total := compute_unread_total (ib_ids (inbox s Seg_default)) cs\<rparr>)))"

definition store_conversations :: "conversation list \<Rightarrow> (jstr \<rightharpoonup> conversation) \<Rightarrow> (jstr \<rightharpoonup> conversation)" where
  "store_conversations items cs = foldl (\<lambda>m c. m(conversation_id c \<mapsto> c)) cs items"

definition apply_inbox_page :: "inbox_segment \<Rightarrow> inbox_response \<Rightarrow> bool \<Rightarrow> mstate \<Rightarrow> mstate" where
  "apply_inbox_page seg page appending s =
     (let cs = store_conversations (ir_items page) (conversations s);
          existing = inbox s seg;
          pageIds = map conversation_id (ir_items page);
          merged = (if appending
            then \<lparr>ii_ids = ib_ids existing @ filter (\<lambda>i. i \<notin> set (ib_ids existing)) pageIds,
                  ii_cursor = ir_next_cursor page, ii_has_more = (ir_next_cursor page \<noteq> None)\<rparr>
            else merge_inbox_refresh
                   \<lparr>ii_ids = ib_ids existing, ii_cursor = ib_cursor existing,
                    ii_has_more = ib_has_more existing\<rparr>
                   pageIds (ir_next_cursor page) cs);
          ib = (inbox s)(seg := \<lparr>ib_ids = ii_ids merged, ib_cursor = ii_cursor merged,
            ib_has_more = ii_has_more merged, ib_status = St_ready, ib_loading_more = False,
            ib_error = None\<rparr>)
      in s\<lparr>availability := Av_available, conversations := cs, inbox := ib,
           requests_count := ir_requests_count page,
           has_unread_requests := ir_has_unread_requests page,
           unread_total := compute_unread_total (ib_ids (ib Seg_default)) cs\<rparr>)"

text \<open>The update of \<^verbatim>\<open>reloadThreadFromStart\<close>, before it calls \<^verbatim>\<open>loadLatest\<close>.\<close>

definition reset_thread_window :: "jstr \<Rightarrow> mstate \<Rightarrow> mstate" where
  "reset_thread_window cid s =
     put_thread cid (empty_thread\<lparr>t_messages :=
       filter (\<lambda>m. send_state m \<noteq> None) (t_messages (thread_or_empty s cid))\<rparr>) s"

definition segment_of :: "mstate \<Rightarrow> jstr \<Rightarrow> inbox_segment" where
  "segment_of s cid =
     (case conversations s cid of
        Some c \<Rightarrow> (if category c = CRequest then Seg_request else Seg_default)
      | None \<Rightarrow> Seg_default)"

definition note_last_message :: "message \<Rightarrow> bool \<Rightarrow> mstate \<Rightarrow> mstate" where
  "note_last_message m countUnread s =
     (let cid = m_conversation_id m
      in case conversations s cid of
           None \<Rightarrow> s
         | Some c \<Rightarrow>
             (let isNewer = (case last_message c of None \<Rightarrow> True | Some l \<Rightarrow> sent_at m \<ge> sent_at l);
                  isAlreadyLast = (case last_message c of None \<Rightarrow> False
                                   | Some l \<Rightarrow> message_id l = message_id m)
              in if \<not> isNewer then s
                 else let s1 = patch_conversation cid (\<lambda>c. Some (c\<lparr>last_message := Some m,
                            unread_count := (if countUnread \<and> \<not> isAlreadyLast
                              then unread_count c + 1 else unread_count c)\<rparr>)) s;
                          seg = segment_of s1 cid
                      in if cid \<notin> set (ib_ids (inbox s1 seg)) \<and> ib_status (inbox s1 seg) \<noteq> St_ready
                         then s1
                         else patch_inbox seg
                           (\<lambda>l. l\<lparr>ib_ids := promote (ib_ids l) cid (conversations s1)\<rparr>) s1))"

text \<open>The two updates of \<^verbatim>\<open>performSend\<close>: the echo arrived, or the call was rejected.\<close>

definition apply_send_success :: "jstr \<Rightarrow> send_message_request \<Rightarrow> message \<Rightarrow> mstate \<Rightarrow> mstate" where
  "apply_send_success key request echo s =
     (let realId = m_conversation_id echo;
          mid = sr_message_id request;
          source = thread_or_empty s key;
          optimistic = find (\<lambda>m. message_id m = mid) (t_messages source);
          m = merge_send_echo echo optimistic;
          withoutOptimistic = remove_message (t_messages source) mid;
          s1 = s\<lparr>pending_sends := without_key mid (pending_sends s),
                 send_errors := without_key mid (send_errors s)\<rparr>
      in if realId \<noteq> key
         then (let rest = without_key key (threads s);
                   target = (case rest realId of Some t \<Rightarrow> t | None \<Rightarrow> empty_live_thread)
               in s1\<lparr>threads := rest(realId \<mapsto> target\<lparr>t_messages :=
                     merge_messages (merge_messages (t_messages target) withoutOptimistic) [m]\<rparr>)\<rparr>)
         else s1\<lparr>threads := (threads s)(key \<mapsto> source\<lparr>t_messages :=
                merge_messages withoutOptimistic [m]\<rparr>)\<rparr>)"

definition fail_if_sending :: "message \<Rightarrow> message" where
  "fail_if_sending m = (if send_state m = Some Sending then m\<lparr>send_state := Some Failed\<rparr> else m)"

definition apply_send_failure :: "jstr \<Rightarrow> send_message_request \<Rightarrow> js_error \<Rightarrow> mstate \<Rightarrow> mstate" where
  "apply_send_failure key request e s =
     (let reason = (if is_upstream_rejected_error e then Some (upstream_rejected_copy e) else None);
          mid = sr_message_id request;
          s1 = s\<lparr>send_errors := (case reason of
                   Some r \<Rightarrow> if r \<noteq> [] then (send_errors s)(mid \<mapsto> r) else without_key mid (send_errors s)
                 | None \<Rightarrow> without_key mid (send_errors s))\<rparr>
      in case threads s key of
           None \<Rightarrow> s1
         | Some t \<Rightarrow> put_thread key
             (t\<lparr>t_messages := update_message (t_messages t) mid fail_if_sending\<rparr>) s1)"

end
