(* ===== verification/Message_Actions.thy ===== *)
theory Message_Actions
  imports Message_Store
begin

section \<open>The messaging store: actions\<close>

text \<open>
  The actions of \<^verbatim>\<open>landing/lib/stores/messageStore.ts\<close>. An asynchronous action runs up to its
  first \<^verbatim>\<open>await\<close> in one piece and continues when the call settles, so each is split there:
  \<open>load_inbox\<close> is the part before the call, \<open>load_inbox_done\<close> what happens with its result.
  The first part returns the calls it leaves in flight (\<open>pending\<close>), each with the variables
  its continuation captured; anything may happen between the two parts. An \<open>outcome\<close> is the
  action's own result, \<open>Out_pending\<close> while it is still to come.
\<close>

datatype outcome =
  Out_pending
  | Out_void
  | Out_bool bool
  | Out_conv "conversation option"
  | Out_send send_result
  | Out_throw js_error

datatype pending =
  P_inbox inbox_segment
  | P_inbox_more inbox_segment jstr
  | P_ensure jstr "message option"
  | P_find_direct int
  | P_latest jstr
  | P_older jstr jstr
  | P_newer jstr jstr
  | P_recent jstr
  | P_jump jstr jstr
  | P_accept jstr "jstr list" "conversation option"
  | P_decline jstr "jstr list"
  | P_send jstr send_message_request "(jstr \<times> nat) option"
  | P_wait jstr send_message_request nat nat
  | P_react jstr jstr jstr bool "reaction_summary list"
  | P_delete jstr jstr bool
  | P_mark_read jstr
  | P_mark_unread jstr
  | P_peer_read jstr

type_synonym act = "mstate \<times> pending list \<times> outcome"

definition truthy :: "jstr option \<Rightarrow> bool" where
  "truthy s \<longleftrightarrow> (case s of None \<Rightarrow> False | Some t \<Rightarrow> t \<noteq> [])"

subsection \<open>Session\<close>

definition viewer_fid :: "mstate \<Rightarrow> int option" where
  "viewer_fid s = map_option u_fid (viewer s)"

definition set_viewer :: "message_user option \<Rightarrow> mstate \<Rightarrow> mstate" where
  "set_viewer v s =
     (if viewer_fid s \<noteq> map_option u_fid v
      then (with_initial_data s)\<lparr>viewer := v, draft_send_chains := Map.empty,
              resolved_drafts := Map.empty\<rparr>
      else s\<lparr>viewer := v\<rparr>)"

definition reset_store :: "mstate \<Rightarrow> mstate" where
  "reset_store s = (with_initial_data s)\<lparr>draft_send_chains := Map.empty, resolved_drafts := Map.empty\<rparr>"

subsection \<open>Inbox\<close>

definition load_inbox :: "inbox_segment \<Rightarrow> mstate \<Rightarrow> act" where
  "load_inbox seg s =
     (if ib_status (inbox s seg) = St_loading then (s, [], Out_void)
      else (patch_inbox seg (\<lambda>l. l\<lparr>ib_status :=
                (if ib_status (inbox s seg) = St_ready then St_ready else St_loading),
              ib_error := None\<rparr>) s,
            [P_inbox seg], Out_pending))"

definition load_inbox_done :: "inbox_segment \<Rightarrow> js_error + inbox_response \<Rightarrow> mstate \<Rightarrow> act" where
  "load_inbox_done seg r s =
     (case r of
        Inr page \<Rightarrow> (apply_inbox_page seg page False s, [], Out_void)
      | Inl e \<Rightarrow>
          (case note_availability_error e s of (s1, handled) \<Rightarrow>
             if handled
             then (patch_inbox seg (\<lambda>l. l\<lparr>ib_status := St_error, ib_error := None\<rparr>) s1, [], Out_void)
             else (patch_inbox seg (\<lambda>l. l\<lparr>ib_status :=
                       (if length (ib_ids (inbox s1 seg)) > 0 then St_ready else St_error),
                     ib_error := Some (messaging_error_copy e ''Couldn't load your messages'')\<rparr>) s1,
                   [], Out_void)))"

definition load_more_inbox :: "inbox_segment \<Rightarrow> mstate \<Rightarrow> act" where
  "load_more_inbox seg s =
     (let l = inbox s seg
      in if \<not> truthy (ib_cursor l) \<or> \<not> ib_has_more l \<or> ib_loading_more l \<or> ib_status l \<noteq> St_ready
         then (s, [], Out_void)
         else (case ib_cursor l of
                 None \<Rightarrow> (s, [], Out_void)
               | Some c \<Rightarrow> (patch_inbox seg (\<lambda>l. l\<lparr>ib_loading_more := True\<rparr>) s,
                            [P_inbox_more seg c], Out_pending)))"

definition load_more_inbox_done :: "inbox_segment \<Rightarrow> js_error + inbox_response \<Rightarrow> mstate \<Rightarrow> act" where
  "load_more_inbox_done seg r s =
     (case r of
        Inr page \<Rightarrow> (apply_inbox_page seg page True s, [], Out_void)
      | Inl e \<Rightarrow>
          if is_invalid_cursor_error e
          then load_inbox seg (patch_inbox seg (\<lambda>l. empty_inbox\<lparr>ib_status := St_idle\<rparr>) s)
          else (patch_inbox seg (\<lambda>l. l\<lparr>ib_loading_more := False,
                  ib_error := Some (messaging_error_copy e ''Couldn't load more conversations'')\<rparr>)
                  (fst (note_availability_error e s)), [], Out_void))"

subsection \<open>Conversations\<close>

text \<open>
  \<open>P_ensure cid (Some m)\<close> is the call \<^verbatim>\<open>performSend\<close> makes, whose continuation also notes the
  confirmed message \<open>m\<close>.
\<close>

definition ensure_conversation :: "jstr \<Rightarrow> message option \<Rightarrow> mstate \<Rightarrow> act" where
  "ensure_conversation cid thenNote s =
     (case conversations s cid of
        Some c \<Rightarrow> ((case thenNote of None \<Rightarrow> s | Some m \<Rightarrow> note_last_message m False s), [],
                   Out_conv (Some c))
      | None \<Rightarrow> (s, [P_ensure cid thenNote], Out_pending))"

definition ensure_conversation_done ::
  "jstr \<Rightarrow> message option \<Rightarrow> js_error + conversation \<Rightarrow> mstate \<Rightarrow> act" where
  "ensure_conversation_done cid thenNote r s =
     (let (s1, res) =
        (case r of
           Inr c \<Rightarrow> (s\<lparr>availability := Av_available, conversations := (conversations s)(cid \<mapsto> c)\<rparr>, Some c)
         | Inl e \<Rightarrow>
             ((if is_conversation_not_found_error e then note_not_found cid s
               else fst (note_availability_error e s)), None))
      in ((case thenNote of None \<Rightarrow> s1 | Some m \<Rightarrow> note_last_message m False s1), [], Out_conv res))"

definition find_direct_conversation :: "int \<Rightarrow> mstate \<Rightarrow> act" where
  "find_direct_conversation fid s = (s, [P_find_direct fid], Out_pending)"

definition find_direct_conversation_done :: "js_error + conversation \<Rightarrow> mstate \<Rightarrow> act" where
  "find_direct_conversation_done r s =
     (case r of
        Inr c \<Rightarrow> (s\<lparr>availability := Av_available,
                    conversations := (conversations s)(conversation_id c \<mapsto> c)\<rparr>, [], Out_conv (Some c))
      | Inl e \<Rightarrow>
          if is_conversation_not_found_error e then (s, [], Out_conv None)
          else (fst (note_availability_error e s), [], Out_throw e))"

subsection \<open>Threads\<close>

definition load_latest :: "jstr \<Rightarrow> mstate \<Rightarrow> act" where
  "load_latest cid s =
     (let thread = threads s cid
      in if (case thread of Some t \<Rightarrow> t_status t = St_loading | None \<Rightarrow> False) then (s, [], Out_void)
         else (patch_thread cid (\<lambda>t. t\<lparr>t_status :=
                   (case thread of
                      Some t \<Rightarrow> (if length (t_messages t) > 0 \<and> \<not> has_newer t then St_ready else St_loading)
                    | None \<Rightarrow> St_loading),
                 t_error := None\<rparr>) s,
               [P_latest cid], Out_pending))"

definition load_latest_done :: "jstr \<Rightarrow> js_error + messages_page \<Rightarrow> mstate \<Rightarrow> act" where
  "load_latest_done cid r s =
     (case r of
        Inr page \<Rightarrow>
          (let latest = (window_from_messages_page page)\<lparr>wp_newer_cursor := None, wp_has_newer := False\<rparr>
           in (put_thread cid (apply_window_page (thread_or_empty s cid) latest)
                 (s\<lparr>availability := Av_available\<rparr>), [], Out_void))
      | Inl e \<Rightarrow>
          (let notFound = is_conversation_not_found_error e;
               s1 = (if notFound then note_not_found cid s else fst (note_availability_error e s))
           in (patch_thread cid (\<lambda>t. t\<lparr>t_status := St_error, is_not_found := notFound,
                 t_error := (if notFound then None
                   else Some (messaging_error_copy e ''Couldn't load this conversation''))\<rparr>) s1,
               [], Out_void)))"

definition reload_thread_from_start :: "jstr \<Rightarrow> mstate \<Rightarrow> act" where
  "reload_thread_from_start cid s = load_latest cid (reset_thread_window cid s)"

definition load_older :: "jstr \<Rightarrow> mstate \<Rightarrow> act" where
  "load_older cid s =
     (case threads s cid of
        None \<Rightarrow> (s, [], Out_void)
      | Some t \<Rightarrow>
          if loading_older t \<or> \<not> has_older t \<or> t_status t \<noteq> St_ready then (s, [], Out_void)
          else (case older_cursor t of
                  None \<Rightarrow> (patch_thread cid (\<lambda>t. t\<lparr>has_older := False\<rparr>) s, [], Out_void)
                | Some c \<Rightarrow>
                    if c = [] then (patch_thread cid (\<lambda>t. t\<lparr>has_older := False\<rparr>) s, [], Out_void)
                    else (patch_thread cid (\<lambda>t. t\<lparr>loading_older := True\<rparr>) s, [P_older cid c], Out_pending)))"

definition load_older_done :: "jstr \<Rightarrow> js_error + messages_page \<Rightarrow> mstate \<Rightarrow> act" where
  "load_older_done cid r s =
     (case r of
        Inr page \<Rightarrow>
          (let current = thread_or_empty s cid
           in (put_thread cid (current\<lparr>t_messages := merge_messages (t_messages current) (mp_items page),
                 older_cursor := mp_next_cursor page,
                 has_older := (mp_next_cursor page \<noteq> None \<and> length (mp_items page) > 0),
                 loading_older := False\<rparr>) s, [], Out_void))
      | Inl e \<Rightarrow>
          if is_invalid_cursor_error e then reload_thread_from_start cid s
          else (patch_thread cid (\<lambda>t. t\<lparr>loading_older := False,
                  t_error := Some (messaging_error_copy e ''Couldn't load older messages'')\<rparr>)
                  (fst (note_availability_error e s)), [], Out_void))"

definition poll_recent :: "jstr \<Rightarrow> mstate \<Rightarrow> act" where
  "poll_recent cid s =
     (case threads s cid of
        None \<Rightarrow> (s, [], Out_void)
      | Some t \<Rightarrow> if t_status t \<noteq> St_ready then (s, [], Out_void) else (s, [P_recent cid], Out_pending))"

definition apply_recent :: "jstr \<Rightarrow> message list \<Rightarrow> mstate \<Rightarrow> mstate" where
  "apply_recent cid items s =
     (case threads s cid of
        None \<Rightarrow> s
      | Some current \<Rightarrow>
          if has_newer current
          then (let known = set (map message_id (t_messages current));
                    newest = (case js_last (t_messages current) of Some m \<Rightarrow> sent_at m | None \<Rightarrow> 0);
                    fresh = int (length (filter (\<lambda>m. message_id m \<notin> known \<and> sent_at m > newest) items))
                in if fresh = newer_while_detached current then s
                   else put_thread cid (current\<lparr>newer_while_detached := fresh\<rparr>) s)
          else (let ms = merge_messages (t_messages current) items
                in if ms = t_messages current then s
                   else put_thread cid (current\<lparr>t_messages := ms\<rparr>) s))"

definition poll_recent_done :: "jstr \<Rightarrow> js_error + message list \<Rightarrow> mstate \<Rightarrow> act" where
  "poll_recent_done cid r s =
     (case r of
        Inr items \<Rightarrow>
          (let s1 = apply_recent cid items s;
               latest = Option.bind (threads s1 cid) (\<lambda>t. js_last (t_messages t))
           in ((case latest of
                  Some m \<Rightarrow> (if send_state m = None then note_last_message m False s1 else s1)
                | None \<Rightarrow> s1), [], Out_void))
      | Inl e \<Rightarrow> (fst (note_availability_error e s), [], Out_void))"

definition load_newer :: "jstr \<Rightarrow> mstate \<Rightarrow> act" where
  "load_newer cid s =
     (case threads s cid of
        None \<Rightarrow> (s, [], Out_void)
      | Some t \<Rightarrow>
          if loading_newer t \<or> \<not> has_newer t \<or> t_status t \<noteq> St_ready then (s, [], Out_void)
          else (case newer_cursor t of
                  None \<Rightarrow> load_latest cid s
                | Some c \<Rightarrow>
                    if c = [] then load_latest cid s
                    else (patch_thread cid (\<lambda>t. t\<lparr>loading_newer := True\<rparr>) s, [P_newer cid c], Out_pending)))"

definition load_newer_done :: "jstr \<Rightarrow> js_error + messages_page \<Rightarrow> mstate \<Rightarrow> act" where
  "load_newer_done cid r s =
     (case r of
        Inr page \<Rightarrow>
          (let current = thread_or_empty s cid;
               newer = Option.bind (mp_next_newer_cursor page) id;
               hasNewer = (newer \<noteq> None \<and> length (mp_items page) > 0);
               s1 = put_thread cid (current\<lparr>t_messages := merge_messages (t_messages current) (mp_items page),
                 newer_cursor := (if hasNewer then newer else None), has_newer := hasNewer,
                 newer_while_detached := (if hasNewer then newer_while_detached current else 0),
                 loading_newer := False\<rparr>) s
           in if \<not> hasNewer then poll_recent cid s1 else (s1, [], Out_void))
      | Inl e \<Rightarrow>
          if is_invalid_cursor_error e then reload_thread_from_start cid s
          else (patch_thread cid (\<lambda>t. t\<lparr>loading_newer := False,
                  t_error := Some (messaging_error_copy e ''Couldn't load newer messages'')\<rparr>)
                  (fst (note_availability_error e s)), [], Out_void))"

definition is_loaded :: "mstate \<Rightarrow> jstr \<Rightarrow> jstr \<Rightarrow> bool" where
  "is_loaded s cid mid =
     (case threads s cid of None \<Rightarrow> False | Some t \<Rightarrow> list_ex (\<lambda>m. message_id m = mid) (t_messages t))"

definition jump_to_message :: "jstr \<Rightarrow> jstr \<Rightarrow> mstate \<Rightarrow> act" where
  "jump_to_message cid mid s =
     (if is_loaded s cid mid then (s, [], Out_bool True) else (s, [P_jump cid mid], Out_pending))"

definition jump_to_message_done :: "jstr \<Rightarrow> jstr \<Rightarrow> js_error + messages_page \<Rightarrow> mstate \<Rightarrow> act" where
  "jump_to_message_done cid mid r s =
     (case r of
        Inr page \<Rightarrow>
          if \<not> list_ex (\<lambda>m. message_id m = mid) (mp_items page) then (s, [], Out_bool False)
          else (put_thread cid (apply_window_page (thread_or_empty s cid)
                  (window_from_messages_page page)) s, [], Out_bool True)
      | Inl e \<Rightarrow> (fst (note_availability_error e s), [], Out_bool False))"

definition seed_from_search_hit :: "message_search_hit \<Rightarrow> mstate \<Rightarrow> mstate" where
  "seed_from_search_hit hit s =
     (let cid = conversation_id (hit_conversation hit); mid = message_id (hit_message hit)
      in if is_loaded s cid mid then s
         else (case (hit_thread_cursor hit, hit_thread_newer_cursor hit) of
                 (Some older, Some newer) \<Rightarrow>
                   put_thread cid (apply_window_page (thread_or_empty s cid)
                     \<lparr>wp_items = hit_after hit @ [hit_message hit] @ hit_before hit,
                      wp_older_cursor = older, wp_newer_cursor = newer,
                      wp_has_newer = (newer \<noteq> None)\<rparr>)
                   (if conversations s cid \<noteq> None then s
                    else s\<lparr>conversations := (conversations s)(cid \<mapsto> hit_conversation hit)\<rparr>)
               | _ \<Rightarrow> s))"

subsection \<open>Requests\<close>

definition accept_request :: "jstr \<Rightarrow> mstate \<Rightarrow> act" where
  "accept_request cid s =
     (let before = conversations s cid;
          (requestIds, s1) = remove_from_requests cid s
      in (patch_conversation cid (\<lambda>c. Some (c\<lparr>category := CDefault\<rparr>)) s1,
          [P_accept cid requestIds before], Out_pending))"

definition accept_request_done ::
  "jstr \<Rightarrow> jstr list \<Rightarrow> conversation option \<Rightarrow> js_error + unit \<Rightarrow> mstate \<Rightarrow> act" where
  "accept_request_done cid requestIds before r s =
     (case r of
        Inl e \<Rightarrow>
          (let s1 = restore_requests requestIds (fst (note_availability_error e s))
           in ((case before of None \<Rightarrow> s1 | Some b \<Rightarrow> patch_conversation cid (\<lambda>_. Some b) s1),
               [], Out_throw e))
      | Inr _ \<Rightarrow>
          (let (s1, p1, _) = load_inbox Seg_default s; (s2, p2, _) = load_inbox Seg_request s1
           in (s2, p1 @ p2, Out_void)))"

definition decline_request :: "jstr \<Rightarrow> mstate \<Rightarrow> act" where
  "decline_request cid s =
     (let (requestIds, s1) = remove_from_requests cid s
      in (s1, [P_decline cid requestIds], Out_pending))"

definition decline_request_done :: "jstr list \<Rightarrow> js_error + unit \<Rightarrow> mstate \<Rightarrow> act" where
  "decline_request_done requestIds r s =
     (case r of
        Inl e \<Rightarrow> (restore_requests requestIds (fst (note_availability_error e s)), [], Out_throw e)
      | Inr _ \<Rightarrow> load_inbox Seg_request s)"

end
