(* ===== verification/Message_Sends.thy ===== *)
theory Message_Sends
  imports Message_Actions
begin

section \<open>The messaging store: sends, reactions, read state and events\<close>

text \<open>
  The remaining actions of \<^verbatim>\<open>landing/lib/stores/messageStore.ts\<close>, split at their awaits as in
  \<^verbatim>\<open>Message_Actions\<close>. Sends from a draft (no conversation yet) are chained per peer: a chain
  promise has a number, \<open>chain_values\<close> holds the values of the settled ones, and a send that
  waits for its predecessor is a \<open>P_wait\<close>.
\<close>

subsection \<open>Sending\<close>

text \<open>What the chain promise resolves to after a send, and its removal when it is the latest.\<close>

definition settle_chain :: "(jstr \<times> nat) option \<Rightarrow> send_result \<Rightarrow> mstate \<Rightarrow> mstate" where
  "settle_chain chain res s =
     (case chain of
        None \<Rightarrow> s
      | Some (draftKey, n) \<Rightarrow>
          (let s1 = (if res_ok res \<and> truthy (res_conversation_id res)
                     then s\<lparr>resolved_drafts := (resolved_drafts s)
                              (draftKey := res_conversation_id res)\<rparr>
                     else s);
               value = resolved_drafts s1 draftKey;
               s2 = s1\<lparr>chain_values := (chain_values s1)(n \<mapsto> value)\<rparr>
           in if draft_send_chains s2 draftKey = Some n
              then s2\<lparr>draft_send_chains := without_key draftKey (draft_send_chains s2)\<rparr>
              else s2))"

definition perform_send :: "jstr \<Rightarrow> send_message_request \<Rightarrow> (jstr \<times> nat) option \<Rightarrow> mstate \<Rightarrow> act" where
  "perform_send key request chain s = (s, [P_send key request chain], Out_pending)"

definition perform_send_done ::
  "jstr \<Rightarrow> send_message_request \<Rightarrow> (jstr \<times> nat) option \<Rightarrow> js_error + message \<Rightarrow> mstate \<Rightarrow> act" where
  "perform_send_done key request chain r s =
     (case r of
        Inr echo \<Rightarrow>
          (let realId = m_conversation_id echo;
               mid = sr_message_id request;
               s1 = apply_send_success key request echo s;
               confirmed = (case Option.bind (threads s1 realId)
                                  (\<lambda>t. find (\<lambda>m. message_id m = mid) (t_messages t)) of
                              Some m \<Rightarrow> m | None \<Rightarrow> echo);
               (s2, p) = (if conversations s1 realId = None
                          then (case ensure_conversation realId (Some confirmed) s1 of (s', p', _) \<Rightarrow> (s', p'))
                          else (note_last_message confirmed False s1, []));
               res = \<lparr>res_conversation_id = Some realId, res_message_id = mid, res_ok = True\<rparr>
           in (settle_chain chain res s2, p, Out_send res))
      | Inl e \<Rightarrow>
          (let s1 = apply_send_failure key request e (fst (note_availability_error e s));
               res = \<lparr>res_conversation_id = sr_conversation_id request,
                      res_message_id = sr_message_id request, res_ok = False\<rparr>
           in (settle_chain chain res s1, [], Out_send res)))"

definition send_from_draft :: "jstr \<Rightarrow> send_message_request \<Rightarrow> mstate \<Rightarrow> act" where
  "send_from_draft draftKey request s =
     (let n = next_chain s;
          s1 = s\<lparr>next_chain := Suc n, draft_send_chains := (draft_send_chains s)(draftKey \<mapsto> n)\<rparr>
      in case draft_send_chains s draftKey of
           None \<Rightarrow> perform_send draftKey request (Some (draftKey, n)) s1
         | Some prev \<Rightarrow> (s1, [P_wait draftKey request prev n], Out_pending))"

text \<open>The predecessor's chain promise has resolved to \<open>realId\<close>: the waiting send goes out.\<close>

definition resume_draft_send ::
  "jstr \<Rightarrow> send_message_request \<Rightarrow> nat \<Rightarrow> jstr option \<Rightarrow> mstate \<Rightarrow> act" where
  "resume_draft_send draftKey request n realId s =
     (case realId of
        None \<Rightarrow> perform_send draftKey request (Some (draftKey, n)) s
      | Some rid \<Rightarrow>
          if rid = [] then perform_send draftKey request (Some (draftKey, n)) s
          else let resolved = request\<lparr>sr_conversation_id := Some rid, sr_recipient_fids := []\<rparr>;
                   mid = sr_message_id request;
                   s1 = (if pending_sends s mid \<noteq> None
                         then s\<lparr>pending_sends := (pending_sends s)(mid \<mapsto> resolved)\<rparr> else s)
               in perform_send rid resolved (Some (draftKey, n)) s1)"

record send_input =
  si_conversation_id :: "jstr option"
  si_recipient_fid :: "int option"
  si_text :: jstr
  si_reply_to :: "message option"
  si_process_metadata :: bool

text \<open>The optimistic row and the composer updates of \<^verbatim>\<open>sendMessage\<close>.\<close>

definition put_optimistic ::
  "jstr \<Rightarrow> jstr option \<Rightarrow> send_message_request \<Rightarrow> message \<Rightarrow> mstate \<Rightarrow> mstate" where
  "put_optimistic key draftKey request optimistic s =
     (let thread = (case threads s key of Some t \<Rightarrow> t | None \<Rightarrow> empty_live_thread);
          ds = (drafts s)(key \<mapsto> [])
      in s\<lparr>pending_sends := (pending_sends s)(sr_message_id request \<mapsto> request),
           threads := (threads s)(key \<mapsto> thread\<lparr>t_messages :=
             merge_messages (t_messages thread) [optimistic]\<rparr>),
           reply_targets := (reply_targets s)(key \<mapsto> None),
           drafts := (case draftKey of None \<Rightarrow> ds | Some k \<Rightarrow> (if k \<noteq> [] then ds(k \<mapsto> []) else ds))\<rparr>)"

text \<open>
  The rest of \<^verbatim>\<open>sendMessage\<close> once the guards have passed: \<open>peer\<close> is the recipient of a draft,
  \<open>None\<close> when the input names a conversation.
\<close>

definition clear_sent_drafts :: "int \<Rightarrow> jstr \<Rightarrow> jstr option \<Rightarrow> mstate \<Rightarrow> mstate" where
  "clear_sent_drafts fid key draftKey s =
     (let st = clear_persisted_draft fid key (local_storage s)
      in s\<lparr>local_storage := (case draftKey of
             Some k \<Rightarrow> (if k \<noteq> [] \<and> k \<noteq> key then clear_persisted_draft fid k st else st)
           | None \<Rightarrow> st)\<rparr>)"

definition dispatch_send :: "jstr \<Rightarrow> jstr option \<Rightarrow> send_message_request \<Rightarrow> mstate \<Rightarrow> act" where
  "dispatch_send key knownId request s =
     (if truthy knownId then perform_send key request None s else send_from_draft key request s)"

definition send_accepted ::
  "jstr \<Rightarrow> int \<Rightarrow> send_input \<Rightarrow> message_user \<Rightarrow> jstr \<Rightarrow> int option \<Rightarrow> mstate \<Rightarrow> act" where
  "send_accepted messageId now input v trimmed peer s =
     (let draftKey = map_option draft_conversation_key peer;
          knownId = (case si_conversation_id input of Some c \<Rightarrow> Some c
                     | None \<Rightarrow> Option.bind draftKey (resolved_drafts s));
          key = (case knownId of Some c \<Rightarrow> c | None \<Rightarrow> (case draftKey of Some k \<Rightarrow> k | None \<Rightarrow> []));
          request = \<lparr>sr_conversation_id = knownId,
            sr_recipient_fids = (if truthy knownId then []
              else case peer of Some f \<Rightarrow> [f] | None \<Rightarrow> []),
            sr_message_id = messageId, sr_text = trimmed,
            sr_in_reply_to_id = map_option message_id (si_reply_to input),
            sr_process_metadata = (if si_process_metadata input then None else Some False)\<rparr>;
          optimistic = build_optimistic_message messageId key v trimmed
            (optimistic_sent_at (t_messages (thread_or_empty s key)) now) (si_reply_to input)
      in dispatch_send key knownId request
           (clear_sent_drafts (u_fid v) key draftKey (put_optimistic key draftKey request optimistic s)))"

definition send_message :: "jstr \<Rightarrow> int \<Rightarrow> send_input \<Rightarrow> mstate \<Rightarrow> act" where
  "send_message messageId now input s =
     (let cid = si_conversation_id input;
          trimmed = js_trim (si_text input);
          refused = (s, [], Out_send \<lparr>res_conversation_id = cid, res_message_id = messageId, res_ok = False\<rparr>)
      in case viewer s of
           None \<Rightarrow> refused
         | Some v \<Rightarrow>
             if trimmed = [] then refused
             else if truthy cid then send_accepted messageId now input v trimmed None s
             else (case si_recipient_fid input of
                     None \<Rightarrow> refused
                   | Some f \<Rightarrow> send_accepted messageId now input v trimmed (Some f) s))"

definition retry_send :: "jstr \<Rightarrow> jstr \<Rightarrow> mstate \<Rightarrow> act" where
  "retry_send key mid s =
     (case pending_sends s mid of
        None \<Rightarrow> (s, [], Out_send \<lparr>res_conversation_id = Some key, res_message_id = mid, res_ok = False\<rparr>)
      | Some request \<Rightarrow>
          (let s1 = patch_thread key (\<lambda>t. t\<lparr>t_messages := update_message (t_messages t) mid
                     (\<lambda>m. m\<lparr>send_state := Some Sending\<rparr>)\<rparr>) s;
               s2 = s1\<lparr>send_errors := without_key mid (send_errors s1)\<rparr>
           in perform_send key request None s2))"

definition discard_failed :: "jstr \<Rightarrow> jstr \<Rightarrow> mstate \<Rightarrow> mstate" where
  "discard_failed key mid s =
     (let s1 = s\<lparr>pending_sends := without_key mid (pending_sends s),
                 send_errors := without_key mid (send_errors s)\<rparr>
      in case threads s key of
           None \<Rightarrow> s1
         | Some t \<Rightarrow> put_thread key (t\<lparr>t_messages := remove_message (t_messages t) mid\<rparr>) s1)"

subsection \<open>Reactions and deletion\<close>

definition find_loaded :: "mstate \<Rightarrow> jstr \<Rightarrow> jstr \<Rightarrow> message option" where
  "find_loaded s cid mid =
     Option.bind (threads s cid) (\<lambda>t. find (\<lambda>m. message_id m = mid) (t_messages t))"

definition set_reactions ::
  "jstr \<Rightarrow> jstr \<Rightarrow> (reaction_summary list \<Rightarrow> reaction_summary list) \<Rightarrow> mstate \<Rightarrow> mstate" where
  "set_reactions cid mid update s =
     update_loaded_message cid mid (\<lambda>m. m\<lparr>reactions := update (reactions m)\<rparr>) s"

definition toggle_message_reaction :: "jstr \<Rightarrow> jstr \<Rightarrow> jstr \<Rightarrow> mstate \<Rightarrow> act" where
  "toggle_message_reaction cid mid reaction s =
     (case find_loaded s cid mid of
        None \<Rightarrow> (s, [], Out_void)
      | Some m \<Rightarrow>
          if send_state m \<noteq> None then (s, [], Out_void)
          else let hasReacted = list_ex (\<lambda>r. r_reaction r = reaction \<and> r_viewer_reacted r) (reactions m)
               in (set_reactions cid mid (\<lambda>rs. toggle_reaction rs reaction (\<not> hasReacted)) s,
                   [P_react cid mid reaction (\<not> hasReacted) (reactions m)], Out_pending))"

definition toggle_message_reaction_done ::
  "jstr \<Rightarrow> jstr \<Rightarrow> reaction_summary list \<Rightarrow> js_error + unit \<Rightarrow> mstate \<Rightarrow> act" where
  "toggle_message_reaction_done cid mid snapshot r s =
     (case r of
        Inr _ \<Rightarrow> (s, [], Out_void)
      | Inl e \<Rightarrow> (set_reactions cid mid (\<lambda>_. snapshot) (fst (note_availability_error e s)), [], Out_throw e))"

definition set_deleted :: "jstr \<Rightarrow> jstr \<Rightarrow> bool \<Rightarrow> mstate \<Rightarrow> mstate" where
  "set_deleted cid mid b s = update_loaded_message cid mid (\<lambda>m. m\<lparr>is_deleted := b\<rparr>) s"

definition delete_message :: "jstr \<Rightarrow> jstr \<Rightarrow> mstate \<Rightarrow> act" where
  "delete_message cid mid s =
     (case find_loaded s cid mid of
        None \<Rightarrow> (s, [], Out_void)
      | Some m \<Rightarrow> (set_deleted cid mid True s, [P_delete cid mid (is_deleted m)], Out_pending))"

definition delete_message_done :: "jstr \<Rightarrow> jstr \<Rightarrow> bool \<Rightarrow> js_error + unit \<Rightarrow> mstate \<Rightarrow> act" where
  "delete_message_done cid mid original r s =
     (case r of
        Inr _ \<Rightarrow> (s, [], Out_void)
      | Inl e \<Rightarrow> (set_deleted cid mid original (fst (note_availability_error e s)), [], Out_throw e))"

subsection \<open>Read state\<close>

definition mark_read :: "jstr \<Rightarrow> int \<Rightarrow> mstate \<Rightarrow> act" where
  "mark_read cid now s =
     (let c = conversations s cid in
      if (case c of Some c \<Rightarrow> unread_count c = 0 \<and> \<not> manually_marked_unread c | None \<Rightarrow> False)
      then (s, [], Out_void)
      else
        (let newestId = Option.bind (threads s cid)
               (\<lambda>t. map_option message_id (js_last (filter (\<lambda>m. send_state m = None) (t_messages t))));
             manual = (case c of Some c \<Rightarrow> manually_marked_unread c | None \<Rightarrow> False);
             isAlreadyMarked = (newestId \<noteq> None \<and> read_marks s cid = newestId \<and> \<not> manual);
             s1 = patch_conversation cid (\<lambda>c. Some (c\<lparr>unread_count := 0, unread_mentions_count := 0,
                    manually_marked_unread := False, last_read_at := now\<rparr>)) s
         in if isAlreadyMarked then (s1, [], Out_void)
            else ((case newestId of
                     Some i \<Rightarrow> s1\<lparr>read_marks := (read_marks s1)(cid \<mapsto> i)\<rparr>
                   | None \<Rightarrow> s1), [P_mark_read cid], Out_pending)))"

definition mark_read_done :: "js_error + unit \<Rightarrow> mstate \<Rightarrow> act" where
  "mark_read_done r s =
     (case r of Inr _ \<Rightarrow> (s, [], Out_void) | Inl e \<Rightarrow> (fst (note_availability_error e s), [], Out_void))"

definition mark_unread :: "jstr \<Rightarrow> mstate \<Rightarrow> act" where
  "mark_unread cid s =
     (let s1 = s\<lparr>read_marks := without_key cid (read_marks s)\<rparr>
      in (patch_conversation cid (\<lambda>c. Some (c\<lparr>manually_marked_unread := True\<rparr>)) s1,
          [P_mark_unread cid], Out_pending))"

definition mark_unread_done :: "jstr \<Rightarrow> js_error + unit \<Rightarrow> mstate \<Rightarrow> act" where
  "mark_unread_done cid r s =
     (case r of
        Inr _ \<Rightarrow> (s, [], Out_void)
      | Inl e \<Rightarrow> (patch_conversation cid (\<lambda>c. Some (c\<lparr>manually_marked_unread := False\<rparr>))
                    (fst (note_availability_error e s)), [], Out_throw e))"

subsection \<open>Socket frames\<close>

definition ingest_message :: "bool \<Rightarrow> jstr \<Rightarrow> message \<Rightarrow> mstate \<Rightarrow> act" where
  "ingest_message visible cid m s =
     (let s1 = (case threads s cid of
                  None \<Rightarrow> s
                | Some t \<Rightarrow>
                    if has_newer t
                    then patch_thread cid (\<lambda>u. u\<lparr>newer_while_detached := newer_while_detached t + 1\<rparr>) s
                    else (let ms = merge_messages (t_messages t) [m]
                          in if ms \<noteq> t_messages t then patch_thread cid (\<lambda>u. u\<lparr>t_messages := ms\<rparr>) s else s));
          isIncoming = (Some (u_fid (sender m)) \<noteq> viewer_fid s);
          isFocused = (focused_conversation_id s = Some cid \<and> visible)
      in if conversations s cid = None then (s1, [], Out_bool True)
         else (note_last_message m (isIncoming \<and> \<not> isFocused) s1, [], Out_bool False))"

definition ingest_event :: "bool \<Rightarrow> messages_event \<Rightarrow> mstate \<Rightarrow> act" where
  "ingest_event visible ev s =
     (case ev of
        Ev_ping \<Rightarrow> (s, [], Out_bool False)
      | Ev_inbox _ \<Rightarrow> (s, [], Out_bool True)
      | Ev_read cid by \<Rightarrow>
          if by = Some By_peer then (s, [P_peer_read cid], Out_bool False)
          else (patch_conversation cid (\<lambda>c.
                  if unread_count c = 0 \<and> \<not> manually_marked_unread c then None
                  else Some (c\<lparr>unread_count := 0, unread_mentions_count := 0,
                               manually_marked_unread := False\<rparr>)) s, [], Out_bool False)
      | Ev_message cid m \<Rightarrow> ingest_message visible cid m s)"

definition peer_read_done :: "jstr \<Rightarrow> js_error + conversation \<Rightarrow> mstate \<Rightarrow> act" where
  "peer_read_done cid r s =
     (case r of
        Inr fresh \<Rightarrow> (patch_conversation cid (\<lambda>c.
            if peer_last_read_at c = peer_last_read_at fresh then None
            else Some (c\<lparr>peer_last_read_at := peer_last_read_at fresh\<rparr>)) s, [], Out_void)
      | Inl e \<Rightarrow> (fst (note_availability_error e s), [], Out_void))"

subsection \<open>Composer state\<close>

definition set_reply_target :: "jstr \<Rightarrow> message option \<Rightarrow> mstate \<Rightarrow> mstate" where
  "set_reply_target key m s = s\<lparr>reply_targets := (reply_targets s)(key \<mapsto> m)\<rparr>"

definition set_draft :: "jstr \<Rightarrow> jstr \<Rightarrow> mstate \<Rightarrow> mstate" where
  "set_draft key txt s =
     (if drafts s key = Some txt then s
      else let s1 = s\<lparr>drafts := (drafts s)(key \<mapsto> txt)\<rparr>
           in case viewer_fid s1 of
                None \<Rightarrow> s1
              | Some fid \<Rightarrow> s1\<lparr>local_storage := persist_draft fid key txt (local_storage s1)\<rparr>)"

definition restore_draft :: "jstr \<Rightarrow> mstate \<Rightarrow> mstate" where
  "restore_draft key s =
     (case viewer_fid s of
        None \<Rightarrow> s
      | Some fid \<Rightarrow>
          if key = [] \<or> truthy (drafts s key) then s
          else let saved = load_persisted_draft fid key (local_storage s)
               in if saved \<noteq> [] then s\<lparr>drafts := (drafts s)(key \<mapsto> saved)\<rparr> else s)"

definition set_focused_conversation :: "jstr option \<Rightarrow> mstate \<Rightarrow> mstate" where
  "set_focused_conversation cid s = s\<lparr>focused_conversation_id := cid\<rparr>"

definition set_realtime_connected :: "bool \<Rightarrow> mstate \<Rightarrow> mstate" where
  "set_realtime_connected b s = s\<lparr>realtime_connected := b\<rparr>"

definition set_availability :: "messaging_availability \<Rightarrow> mstate \<Rightarrow> mstate" where
  "set_availability a s = (if availability s = a then s else s\<lparr>availability := a\<rparr>)"

end
