(* ===== verification/Message_Sys.thy ===== *)
theory Message_Sys
  imports Message_Sends
begin

section \<open>The messaging store as a system\<close>

text \<open>
  The store with its calls in flight. A step is a user action (or a socket frame) running to
  its first await, a call in flight settling with any response of its type, or a queued
  draft send waking up when its predecessor has settled. Steps interleave freely.

  What the store relies on from the server is the hypothesis \<open>server_ok\<close> on a response: a
  page lists a conversation once, and messages carry no client-only \<open>send_state\<close>
  (\<open>action_ok\<close> says the same of a search hit, which also comes from the server).
\<close>

datatype response =
  R_err js_error
  | R_inbox inbox_response
  | R_conv conversation
  | R_page messages_page
  | R_items "message list"
  | R_msg message
  | R_ok

definition confirmed :: "message \<Rightarrow> bool" where
  "confirmed m \<longleftrightarrow> send_state m = None"

fun server_ok :: "response \<Rightarrow> bool" where
  "server_ok (R_inbox page) = distinct (map conversation_id (ir_items page))"
| "server_ok (R_page page) = list_all confirmed (mp_items page)"
| "server_ok (R_items ms) = list_all confirmed ms"
| "server_ok (R_msg m) = confirmed m"
| "server_ok _ = True"

text \<open>A response read as the result of a call of each type; \<open>None\<close> if it is of another type.\<close>

fun as_inbox :: "response \<Rightarrow> (js_error + inbox_response) option" where
  "as_inbox (R_err e) = Some (Inl e)" | "as_inbox (R_inbox x) = Some (Inr x)" | "as_inbox _ = None"

fun as_conv :: "response \<Rightarrow> (js_error + conversation) option" where
  "as_conv (R_err e) = Some (Inl e)" | "as_conv (R_conv x) = Some (Inr x)" | "as_conv _ = None"

fun as_page :: "response \<Rightarrow> (js_error + messages_page) option" where
  "as_page (R_err e) = Some (Inl e)" | "as_page (R_page x) = Some (Inr x)" | "as_page _ = None"

fun as_items :: "response \<Rightarrow> (js_error + message list) option" where
  "as_items (R_err e) = Some (Inl e)" | "as_items (R_items x) = Some (Inr x)" | "as_items _ = None"

fun as_msg :: "response \<Rightarrow> (js_error + message) option" where
  "as_msg (R_err e) = Some (Inl e)" | "as_msg (R_msg x) = Some (Inr x)" | "as_msg _ = None"

fun as_void :: "response \<Rightarrow> (js_error + unit) option" where
  "as_void (R_err e) = Some (Inl e)" | "as_void R_ok = Some (Inr ())" | "as_void _ = None"

text \<open>The continuation of a call, applied to its response. A \<open>P_wait\<close> is not a call.\<close>

fun settle :: "pending \<Rightarrow> response \<Rightarrow> mstate \<Rightarrow> act option" where
  "settle (P_inbox seg) r s = map_option (\<lambda>x. load_inbox_done seg x s) (as_inbox r)"
| "settle (P_inbox_more seg c) r s = map_option (\<lambda>x. load_more_inbox_done seg x s) (as_inbox r)"
| "settle (P_ensure cid m) r s = map_option (\<lambda>x. ensure_conversation_done cid m x s) (as_conv r)"
| "settle (P_find_direct fid) r s = map_option (\<lambda>x. find_direct_conversation_done x s) (as_conv r)"
| "settle (P_latest cid) r s = map_option (\<lambda>x. load_latest_done cid x s) (as_page r)"
| "settle (P_older cid c) r s = map_option (\<lambda>x. load_older_done cid x s) (as_page r)"
| "settle (P_newer cid c) r s = map_option (\<lambda>x. load_newer_done cid x s) (as_page r)"
| "settle (P_recent cid) r s = map_option (\<lambda>x. poll_recent_done cid x s) (as_items r)"
| "settle (P_jump cid mid) r s = map_option (\<lambda>x. jump_to_message_done cid mid x s) (as_page r)"
| "settle (P_accept cid ids b) r s = map_option (\<lambda>x. accept_request_done cid ids b x s) (as_void r)"
| "settle (P_decline cid ids) r s = map_option (\<lambda>x. decline_request_done ids x s) (as_void r)"
| "settle (P_send key rq ch) r s = map_option (\<lambda>x. perform_send_done key rq ch x s) (as_msg r)"
| "settle (P_wait key rq prev n) r s = None"
| "settle (P_react cid mid rx add snap) r s =
     map_option (\<lambda>x. toggle_message_reaction_done cid mid snap x s) (as_void r)"
| "settle (P_delete cid mid b) r s = map_option (\<lambda>x. delete_message_done cid mid b x s) (as_void r)"
| "settle (P_mark_read cid) r s = map_option (\<lambda>x. mark_read_done x s) (as_void r)"
| "settle (P_mark_unread cid) r s = map_option (\<lambda>x. mark_unread_done cid x s) (as_void r)"
| "settle (P_peer_read cid) r s = map_option (\<lambda>x. peer_read_done cid x s) (as_conv r)"

datatype user_action =
  A_set_viewer "message_user option"
  | A_reset
  | A_load_inbox inbox_segment
  | A_load_more inbox_segment
  | A_ensure jstr
  | A_find_direct int
  | A_load_latest jstr
  | A_load_older jstr
  | A_load_newer jstr
  | A_poll_recent jstr
  | A_jump jstr jstr
  | A_seed message_search_hit
  | A_accept jstr
  | A_decline jstr
  | A_send jstr int send_input
  | A_retry jstr jstr
  | A_discard jstr jstr
  | A_react jstr jstr jstr
  | A_delete jstr jstr
  | A_mark_read jstr int
  | A_mark_unread jstr
  | A_ingest bool messages_event
  | A_reply_target jstr "message option"
  | A_set_draft jstr jstr
  | A_restore_draft jstr
  | A_focus "jstr option"
  | A_realtime bool
  | A_availability messaging_availability

fun perform :: "user_action \<Rightarrow> mstate \<Rightarrow> act" where
  "perform (A_set_viewer v) s = (set_viewer v s, [], Out_void)"
| "perform A_reset s = (reset_store s, [], Out_void)"
| "perform (A_load_inbox seg) s = load_inbox seg s"
| "perform (A_load_more seg) s = load_more_inbox seg s"
| "perform (A_ensure cid) s = ensure_conversation cid None s"
| "perform (A_find_direct fid) s = find_direct_conversation fid s"
| "perform (A_load_latest cid) s = load_latest cid s"
| "perform (A_load_older cid) s = load_older cid s"
| "perform (A_load_newer cid) s = load_newer cid s"
| "perform (A_poll_recent cid) s = poll_recent cid s"
| "perform (A_jump cid mid) s = jump_to_message cid mid s"
| "perform (A_seed hit) s = (seed_from_search_hit hit s, [], Out_void)"
| "perform (A_accept cid) s = accept_request cid s"
| "perform (A_decline cid) s = decline_request cid s"
| "perform (A_send mid now inp) s = send_message mid now inp s"
| "perform (A_retry key mid) s = retry_send key mid s"
| "perform (A_discard key mid) s = (discard_failed key mid s, [], Out_void)"
| "perform (A_react cid mid r) s = toggle_message_reaction cid mid r s"
| "perform (A_delete cid mid) s = delete_message cid mid s"
| "perform (A_mark_read cid now) s = mark_read cid now s"
| "perform (A_mark_unread cid) s = mark_unread cid s"
| "perform (A_ingest vis ev) s = ingest_event vis ev s"
| "perform (A_reply_target key m) s = (set_reply_target key m s, [], Out_void)"
| "perform (A_set_draft key t) s = (set_draft key t s, [], Out_void)"
| "perform (A_restore_draft key) s = (restore_draft key s, [], Out_void)"
| "perform (A_focus cid) s = (set_focused_conversation cid s, [], Out_void)"
| "perform (A_realtime b) s = (set_realtime_connected b s, [], Out_void)"
| "perform (A_availability a) s = (set_availability a s, [], Out_void)"

text \<open>The messages of a search hit come from the server.\<close>

fun action_ok :: "user_action \<Rightarrow> bool" where
  "action_ok (A_seed hit) =
     list_all confirmed (hit_after hit @ [hit_message hit] @ hit_before hit)"
| "action_ok _ = True"

type_synonym sys = "mstate \<times> pending list"

inductive sys_step :: "sys \<Rightarrow> sys \<Rightarrow> bool" where
  step_act: "action_ok a \<Longrightarrow> perform a s = (s', new, out) \<Longrightarrow> sys_step (s, P) (s', P @ new)"
| step_settle: "p \<in> set P \<Longrightarrow> server_ok r \<Longrightarrow> settle p r s = Some (s', new, out) \<Longrightarrow>
     sys_step (s, P) (s', remove1 p P @ new)"
| step_wake: "P_wait dk rq prev n \<in> set P \<Longrightarrow> chain_values s prev = Some v \<Longrightarrow>
     resume_draft_send dk rq n v s = (s', new, out) \<Longrightarrow>
     sys_step (s, P) (s', remove1 (P_wait dk rq prev n) P @ new)"

inductive_cases sys_step_cases: "sys_step (s, P) x"

inductive sys_reachable :: "sys \<Rightarrow> bool" where
  sys_init: "sys_reachable (initial_store st, [])"
| sys_next: "sys_reachable x \<Longrightarrow> sys_step x y \<Longrightarrow> sys_reachable y"

subsection \<open>Frames: what an operation leaves alone\<close>

named_theorems frame \<open>components of the state an operation does not change\<close>

lemma note_not_found_frame [simp, frame]:
  "threads (note_not_found cid s) = threads s" "inbox (note_not_found cid s) = inbox s"
  by (simp_all add: note_not_found_def)

lemma note_availability_frame [simp, frame]:
  "threads (fst (note_availability_error e s)) = threads s"
  "inbox (fst (note_availability_error e s)) = inbox s"
  by (simp_all add: note_availability_error_def)

lemma patch_inbox_frame [simp, frame]: "threads (patch_inbox seg f s) = threads s"
  by (simp add: patch_inbox_def)

lemma patch_conversation_frame [simp, frame]:
  "threads (patch_conversation cid f s) = threads s" "inbox (patch_conversation cid f s) = inbox s"
  by (simp_all add: patch_conversation_def Let_def split: option.splits)

lemma put_thread_frame [simp, frame]: "inbox (put_thread cid t s) = inbox s"
  by (simp add: put_thread_def)

lemma patch_thread_frame [simp, frame]: "inbox (patch_thread cid f s) = inbox s"
  by (simp add: patch_thread_def)

lemma note_last_message_frame [simp, frame]: "threads (note_last_message m b s) = threads s"
  by (simp add: note_last_message_def Let_def split: option.splits)

lemma apply_inbox_page_frame [simp, frame]: "threads (apply_inbox_page seg pg b s) = threads s"
  by (simp add: apply_inbox_page_def Let_def)

lemma restore_requests_frame [simp, frame]: "threads (restore_requests ids s) = threads s"
  by (simp add: restore_requests_def)

lemma remove_from_requests_frame [simp, frame]:
  "threads (snd (remove_from_requests cid s)) = threads s"
  by (simp add: remove_from_requests_def Let_def)

lemma settle_chain_frame [simp, frame]:
  "threads (settle_chain ch r s) = threads s" "inbox (settle_chain ch r s) = inbox s"
  by (auto simp: settle_chain_def Let_def split: option.splits prod.splits)

subsection \<open>Invariant: loaded lists stay sorted and free of duplicates\<close>

definition threads_ok :: "mstate \<Rightarrow> bool" where
  "threads_ok s \<longleftrightarrow> (\<forall>cid t. threads s cid = Some t \<longrightarrow> msgs_ok (t_messages t))"

lemma threads_okI [js_intro]: "threads s' = threads s \<Longrightarrow> threads_ok s \<Longrightarrow> threads_ok s'"
  by (simp add: threads_ok_def)

lemma threads_ok_fields [simp]:
  "threads_ok (s\<lparr>availability := x0\<rparr>) = threads_ok s"
  "threads_ok (s\<lparr>conversations := x1\<rparr>) = threads_ok s"
  "threads_ok (s\<lparr>inbox := x2\<rparr>) = threads_ok s"
  "threads_ok (s\<lparr>requests_count := x3\<rparr>) = threads_ok s"
  "threads_ok (s\<lparr>has_unread_requests := x4\<rparr>) = threads_ok s"
  "threads_ok (s\<lparr>unread_total := x5\<rparr>) = threads_ok s"
  "threads_ok (s\<lparr>reply_targets := x6\<rparr>) = threads_ok s"
  "threads_ok (s\<lparr>drafts := x7\<rparr>) = threads_ok s"
  "threads_ok (s\<lparr>pending_sends := x8\<rparr>) = threads_ok s"
  "threads_ok (s\<lparr>send_errors := x9\<rparr>) = threads_ok s"
  "threads_ok (s\<lparr>focused_conversation_id := x10\<rparr>) = threads_ok s"
  "threads_ok (s\<lparr>realtime_connected := x11\<rparr>) = threads_ok s"
  "threads_ok (s\<lparr>missing_conversations := x12\<rparr>) = threads_ok s"
  "threads_ok (s\<lparr>read_marks := x13\<rparr>) = threads_ok s"
  "threads_ok (s\<lparr>draft_send_chains := x14\<rparr>) = threads_ok s"
  "threads_ok (s\<lparr>resolved_drafts := x15\<rparr>) = threads_ok s"
  "threads_ok (s\<lparr>chain_values := x16\<rparr>) = threads_ok s"
  "threads_ok (s\<lparr>next_chain := x17\<rparr>) = threads_ok s"
  "threads_ok (s\<lparr>local_storage := x18\<rparr>) = threads_ok s"
  "threads_ok (s\<lparr>viewer := x19\<rparr>) = threads_ok s"
  by (simp_all add: threads_ok_def)

lemma threads_okD: "threads_ok s \<Longrightarrow> threads s cid = Some t \<Longrightarrow> msgs_ok (t_messages t)"
  by (simp add: threads_ok_def)

lemma threads_ok_put [js_intro]: "threads_ok s \<Longrightarrow> msgs_ok (t_messages t) \<Longrightarrow> threads_ok (put_thread cid t s)"
  by (simp add: threads_ok_def put_thread_def)

lemma msgs_ok_empty_thread [simp]:
  "msgs_ok (t_messages empty_thread)" "msgs_ok (t_messages empty_live_thread)"
  by (simp_all add: empty_thread_def empty_live_thread_def)

lemma msgs_ok_thread_or_empty [js_intro]: "threads_ok s \<Longrightarrow> msgs_ok (t_messages (thread_or_empty s cid))"
  by (auto simp: thread_or_empty_def threads_ok_def split: option.splits)

lemma threads_ok_patch [js_intro]:
  "threads_ok s \<Longrightarrow> (\<And>t. msgs_ok (t_messages t) \<Longrightarrow> msgs_ok (t_messages (f t))) \<Longrightarrow>
   threads_ok (patch_thread cid f s)"
  by (simp add: patch_thread_def threads_ok_put msgs_ok_thread_or_empty)

lemma msgs_ok_window [js_intro]:
  "msgs_ok (t_messages t) \<Longrightarrow> msgs_ok (t_messages (apply_window_page t pg))"
  by (auto simp: apply_window_page_def Let_def msgs_ok_merge msgs_ok_filter split: option.splits bool.splits)

lemma threads_ok_update_loaded [js_intro]:
  "threads_ok s \<Longrightarrow> (\<And>m. message_id (u m) = message_id m) \<Longrightarrow> (\<And>m. sent_at (u m) = sent_at m) \<Longrightarrow>
   threads_ok (update_loaded_message cid mid u s)"
  by (auto simp: update_loaded_message_def split: option.splits
      intro!: threads_ok_put msgs_ok_update dest: threads_okD)

lemma threads_ok_send_success [js_intro]: "threads_ok s \<Longrightarrow> threads_ok (apply_send_success key rq echo s)"
  unfolding apply_send_success_def Let_def threads_ok_def
  by (auto simp: thread_or_empty_def msgs_ok_merge msgs_ok_remove split: option.splits if_splits)

lemma fail_if_sending_id [simp]:
  "message_id (fail_if_sending m) = message_id m" "sent_at (fail_if_sending m) = sent_at m"
  by (simp_all add: fail_if_sending_def)

lemma threads_ok_send_failure [js_intro]: "threads_ok s \<Longrightarrow> threads_ok (apply_send_failure key rq e s)"
  unfolding apply_send_failure_def Let_def
  by (auto split: option.splits intro!: threads_ok_put msgs_ok_update intro: threads_okI dest: threads_okD)

lemma threads_ok_avail [js_intro]: "threads_ok s \<Longrightarrow> threads_ok (fst (note_availability_error e s))"
  by (rule threads_okI[OF _ ]) simp_all

lemma threads_ok_note_last [simp]: "threads_ok (note_last_message m b s) = threads_ok s"
  by (simp add: threads_ok_def)

lemma threads_ok_patch_conversation [simp]: "threads_ok (patch_conversation cid f s) = threads_ok s"
  by (simp add: threads_ok_def)

lemma threads_ok_patch_inbox [simp]: "threads_ok (patch_inbox seg f s) = threads_ok s"
  by (simp add: threads_ok_def)

lemma threads_ok_requests [simp]:
  "threads_ok (snd (remove_from_requests cid s)) = threads_ok s"
  "threads_ok (restore_requests ids s) = threads_ok s"
  by (simp_all add: threads_ok_def)

lemma threads_ok_load_inbox [js_intro]: "threads_ok s \<Longrightarrow> threads_ok (fst (load_inbox seg s))"
  by (auto simp: load_inbox_def intro: threads_okI)

lemma threads_ok_load_latest [js_intro]: "threads_ok s \<Longrightarrow> threads_ok (fst (load_latest cid s))"
  by (auto simp: load_latest_def Let_def intro!: threads_ok_patch)

lemma threads_ok_reload [js_intro]: "threads_ok s \<Longrightarrow> threads_ok (fst (reload_thread_from_start cid s))"
  unfolding reload_thread_from_start_def reset_thread_window_def
  by (intro threads_ok_load_latest threads_ok_put) (auto intro!: msgs_ok_filter msgs_ok_thread_or_empty)

lemma threads_ok_load_older [js_intro]: "threads_ok s \<Longrightarrow> threads_ok (fst (load_older cid s))"
  by (auto simp: load_older_def split: option.splits intro!: threads_ok_patch)

lemma threads_ok_load_newer [js_intro]: "threads_ok s \<Longrightarrow> threads_ok (fst (load_newer cid s))"
  by (auto simp: load_newer_def split: option.splits intro!: threads_ok_patch threads_ok_load_latest)

lemma threads_ok_poll [js_intro]: "threads_ok s \<Longrightarrow> threads_ok (fst (poll_recent cid s))"
  by (auto simp: poll_recent_def split: option.splits)

lemma threads_ok_recent [js_intro]: "threads_ok s \<Longrightarrow> threads_ok (apply_recent cid ms s)"
  by (auto simp: apply_recent_def Let_def split: option.splits
      intro!: threads_ok_put msgs_ok_merge dest: threads_okD)

lemma threads_ok_put_optimistic: "threads_ok s \<Longrightarrow> threads_ok (put_optimistic key dk rq m s)"
  unfolding put_optimistic_def Let_def threads_ok_def
  by (auto simp: msgs_ok_merge split: option.splits)

lemma fst_perform_send [simp]: "fst (perform_send key rq ch s) = s"
  by (simp add: perform_send_def)

lemma threads_send_from_draft [simp]: "threads (fst (send_from_draft dk rq s)) = threads s"
  by (simp add: send_from_draft_def perform_send_def Let_def split: option.splits)

lemma threads_dispatch_send [simp]: "threads (fst (dispatch_send key k rq s)) = threads s"
  by (simp add: dispatch_send_def)

lemma threads_clear_sent_drafts [simp]: "threads (clear_sent_drafts fid key dk s) = threads s"
  by (simp add: clear_sent_drafts_def Let_def)

lemma threads_ok_dispatch:
  "threads_ok s \<Longrightarrow> threads_ok (fst (dispatch_send k kn r (clear_sent_drafts fid k' d (put_optimistic a b c m s))))"
  by (drule threads_ok_put_optimistic[where key = a and dk = b and rq = c and m = m])
    (simp add: threads_ok_def)

lemma threads_ok_send_accepted: "threads_ok s \<Longrightarrow> threads_ok (fst (send_accepted mid now inp v txt peer s))"
  unfolding send_accepted_def Let_def by (rule threads_ok_dispatch)

lemma threads_ok_send_message [js_intro]: "threads_ok s \<Longrightarrow> threads_ok (fst (send_message mid now inp s))"
  by (simp add: send_message_def Let_def threads_ok_send_accepted split: option.splits)

lemma threads_ok_retry [js_intro]: "threads_ok s \<Longrightarrow> threads_ok (fst (retry_send key mid s))"
  by (simp add: retry_send_def Let_def threads_ok_patch msgs_ok_update split: option.splits)

lemma threads_ok_discard [js_intro]: "threads_ok s \<Longrightarrow> threads_ok (discard_failed key mid s)"
  by (auto simp: discard_failed_def Let_def split: option.splits
      intro!: threads_ok_put msgs_ok_remove dest: threads_okD)

lemma threads_ok_ingest_message [js_intro]: "threads_ok s \<Longrightarrow> threads_ok (fst (ingest_message vis cid m s))"
  by (auto simp: ingest_message_def Let_def threads_ok_note_last split: option.splits
      intro!: threads_ok_patch msgs_ok_merge dest: threads_okD)

lemma threads_ok_perform: "threads_ok s \<Longrightarrow> threads_ok (fst (perform a s))"
proof (cases a)
  case (A_set_viewer v)
  then show "threads_ok s \<Longrightarrow> threads_ok (fst (perform a s))"
    by (auto simp: set_viewer_def with_initial_data_def threads_ok_def)
next
  case A_reset
  then show ?thesis by (auto simp: reset_store_def with_initial_data_def threads_ok_def)
next
  case (A_seed hit)
  then show "threads_ok s \<Longrightarrow> threads_ok (fst (perform a s))"
    by (auto simp: seed_from_search_hit_def Let_def threads_ok_def put_thread_def
        intro!: msgs_ok_window msgs_ok_thread_or_empty[unfolded threads_ok_def] split: option.splits)
next
  case (A_ingest vis ev)
  then show "threads_ok s \<Longrightarrow> threads_ok (fst (perform a s))"
    by (cases ev) (auto simp: ingest_event_def intro: threads_okI threads_ok_ingest_message)
qed (auto simp: load_more_inbox_def ensure_conversation_def find_direct_conversation_def
    jump_to_message_def accept_request_def decline_request_def toggle_message_reaction_def
    delete_message_def mark_read_def mark_unread_def set_reply_target_def set_draft_def restore_draft_def
    set_focused_conversation_def set_realtime_connected_def set_availability_def set_reactions_def
    set_deleted_def Let_def case_prod_beta split: option.splits intro: js_intro threads_okI)

lemma threads_ok_ensure_done [js_intro]: "threads_ok s \<Longrightarrow> threads_ok (fst (ensure_conversation_done cid m r s))"
  by (auto simp: ensure_conversation_done_def split: option.splits sum.splits prod.splits
      intro: threads_okI)

lemma threads_ok_perform_send_done [js_intro]:
  "threads_ok s \<Longrightarrow> threads_ok (fst (perform_send_done key rq ch r s))"
proof (cases r)
  case (Inl e)
  assume "threads_ok s"
  then have "threads_ok (apply_send_failure key rq e (fst (note_availability_error e s)))"
    by (intro threads_ok_send_failure threads_ok_avail)
  then show ?thesis using Inl by (simp add: perform_send_done_def Let_def threads_ok_def)
next
  case (Inr echo)
  assume "threads_ok s"
  then have "threads_ok (apply_send_success key rq echo s)" by (rule threads_ok_send_success)
  then show ?thesis using Inr
    by (simp add: perform_send_done_def Let_def ensure_conversation_def threads_ok_def
        split: option.splits)
qed

lemma threads_ok_put_simp [simp]:
  "threads_ok s \<Longrightarrow> threads_ok (put_thread cid t s) = msgs_ok (t_messages t)"
  by (auto simp: threads_ok_def put_thread_def)

lemma threads_ok_note_not_found [simp]: "threads_ok (note_not_found cid s) = threads_ok s"
  by (simp add: threads_ok_def)

lemma threads_ok_avail_simp [simp]: "threads_ok (fst (note_availability_error e s)) = threads_ok s"
  by (simp add: threads_ok_def)

lemma threads_ok_inbox_page [simp]: "threads_ok (apply_inbox_page seg pg b s) = threads_ok s"
  by (simp add: threads_ok_def)

lemma threads_ok_inbox_done [js_intro]:
  "threads_ok s \<Longrightarrow> threads_ok (fst (load_inbox_done seg r s))"
  "threads_ok s \<Longrightarrow> threads_ok (fst (load_more_inbox_done seg r s))"
  by (auto simp: load_inbox_done_def load_more_inbox_done_def case_prod_beta intro: threads_ok_load_inbox
      split: sum.splits)

lemma threads_ok_latest_done [js_intro]: "threads_ok s \<Longrightarrow> threads_ok (fst (load_latest_done cid r s))"
  by (auto simp: load_latest_done_def Let_def thread_or_empty_def split: sum.splits option.splits
      intro!: threads_ok_put threads_ok_patch msgs_ok_window intro: threads_okD)

lemma threads_ok_older_done [js_intro]: "threads_ok s \<Longrightarrow> threads_ok (fst (load_older_done cid r s))"
  by (auto simp: load_older_done_def Let_def split: sum.splits
      intro!: threads_ok_put threads_ok_patch msgs_ok_merge threads_ok_reload msgs_ok_thread_or_empty)

lemma threads_ok_newer_done [js_intro]: "threads_ok s \<Longrightarrow> threads_ok (fst (load_newer_done cid r s))"
  by (auto simp: load_newer_done_def Let_def split: sum.splits
      intro!: threads_ok_put threads_ok_patch msgs_ok_merge threads_ok_reload msgs_ok_thread_or_empty
        threads_ok_poll)

lemma threads_ok_recent_done [js_intro]: "threads_ok s \<Longrightarrow> threads_ok (fst (poll_recent_done cid r s))"
  by (auto simp: poll_recent_done_def Let_def split: sum.splits option.splits intro: threads_ok_recent)

lemma threads_ok_jump_done [js_intro]: "threads_ok s \<Longrightarrow> threads_ok (fst (jump_to_message_done cid mid r s))"
  by (auto simp: jump_to_message_done_def split: sum.splits
      intro!: threads_ok_put msgs_ok_window msgs_ok_thread_or_empty)

lemma threads_ok_request_done [js_intro]:
  "threads_ok s \<Longrightarrow> threads_ok (fst (accept_request_done cid ids b r s))"
  "threads_ok s \<Longrightarrow> threads_ok (fst (decline_request_done ids r s))"
  by (auto simp: accept_request_done_def decline_request_done_def Let_def case_prod_beta
      split: sum.splits option.splits intro: threads_ok_load_inbox)

lemma threads_ok_set_loaded [js_intro]:
  "threads_ok s \<Longrightarrow> threads_ok (set_reactions cid mid u s)"
  "threads_ok s \<Longrightarrow> threads_ok (set_deleted cid mid b s)"
  by (auto simp: set_reactions_def set_deleted_def intro: threads_ok_update_loaded)

lemma threads_ok_loaded_done [js_intro]:
  "threads_ok s \<Longrightarrow> threads_ok (fst (toggle_message_reaction_done cid mid snap q s))"
  "threads_ok s \<Longrightarrow> threads_ok (fst (delete_message_done cid mid b q s))"
  by (auto simp: toggle_message_reaction_done_def delete_message_done_def
      split: sum.splits intro: threads_ok_set_loaded)

lemma threads_ok_mark_done [js_intro]:
  "threads_ok s \<Longrightarrow> threads_ok (fst (mark_read_done q s))"
  "threads_ok s \<Longrightarrow> threads_ok (fst (mark_unread_done cid q s))"
  "threads_ok s \<Longrightarrow> threads_ok (fst (peer_read_done cid z s))"
  by (auto simp: mark_read_done_def mark_unread_done_def peer_read_done_def Let_def
      split: sum.splits)

lemma threads_ok_find_direct_done [js_intro]:
  "threads_ok s \<Longrightarrow> threads_ok (fst (find_direct_conversation_done r s))"
  by (auto simp: find_direct_conversation_done_def split: sum.splits)

lemma threads_ok_settle: "threads_ok s \<Longrightarrow> settle p r s = Some y \<Longrightarrow> threads_ok (fst y)"
  by (cases p) (auto intro: js_intro)

lemma threads_ok_resume: "threads_ok s \<Longrightarrow> threads_ok (fst (resume_draft_send dk rq n v s))"
  by (auto simp: resume_draft_send_def Let_def perform_send_def split: option.splits)

lemma sys_step_state [consumes 1, case_names act settled woken]:
  assumes "sys_step (s, P) (s', P')"
  obtains (act) a where "action_ok a" "s' = fst (perform a s)"
    | (settled) p r y where "p \<in> set P" "server_ok r" "settle p r s = Some y" "s' = fst y"
    | (woken) dk rq n v where "s' = fst (resume_draft_send dk rq n v s)"
  using assms by (elim sys_step_cases) (metis Pair_inject fst_conv)+

lemma sys_reachable_threads_ok: "sys_reachable x \<Longrightarrow> threads_ok (fst x)"
proof (induction rule: sys_reachable.induct)
  case (sys_init st)
  then show ?case by (simp add: threads_ok_def initial_store_def)
next
  case (sys_next x y)
  obtain s P s' P' where xy: "x = (s, P)" "y = (s', P')" by fastforce
  then have "sys_step (s, P) (s', P')" using sys_next.hyps by simp
  then have "threads_ok s'"
    by (cases rule: sys_step_state)
      (use sys_next.IH xy in \<open>auto intro: threads_ok_perform threads_ok_settle threads_ok_resume\<close>)
  then show ?case using xy by simp
qed

end
