(* ===== verification/Message_Confirm.thy ===== *)
theory Message_Confirm
  imports Message_Sys
begin

section \<open>A confirmed message is not downgraded\<close>

text \<open>
  Which steps of the messaging store can turn a confirmed row back into a client-only one.
  \<open>keeps old new\<close> relates two loaded lists: a row confirmed in the old one is confirmed in the
  new one, if it is still loaded there. \<open>keeps_rows\<close> says it of every thread of two states.
\<close>

definition loaded_messages :: "mstate \<Rightarrow> jstr \<Rightarrow> message list" where
  "loaded_messages s cid = (case threads s cid of None \<Rightarrow> [] | Some t \<Rightarrow> t_messages t)"

definition keeps :: "message list \<Rightarrow> message list \<Rightarrow> bool" where
  "keeps old new \<longleftrightarrow>
     (\<forall>m \<in> set old. \<forall>m' \<in> set new. message_id m = message_id m' \<and> confirmed m \<longrightarrow> confirmed m')"

definition keeps_rows :: "mstate \<Rightarrow> mstate \<Rightarrow> bool" where
  "keeps_rows s s' \<longleftrightarrow> (\<forall>cid. keeps (loaded_messages s cid) (loaded_messages s' cid))"

subsection \<open>Message lists\<close>

lemma keeps_by_id:
  assumes "msgs_ok old" "msgs_ok new"
  shows "keeps old new \<longleftrightarrow>
    (\<forall>i m m'. by_id old i = Some m \<and> confirmed m \<and> by_id new i = Some m' \<longrightarrow> confirmed m')"
  using msgs_ok_distinct[OF assms(1)] msgs_ok_distinct[OF assms(2)]
  by (fastforce simp: keeps_def by_id_Some_iff)

lemma keeps_refl [js_intro]: "msgs_ok ms \<Longrightarrow> keeps ms ms"
  by (auto simp: keeps_by_id)

lemma keeps_Nil [simp]: "keeps [] new" "keeps old []"
  by (simp_all add: keeps_def)

lemma keeps_merge [js_intro]: "msgs_ok ms \<Longrightarrow> keeps ms (merge_messages ms inc)"
  using merge_map_confirmed[of "by_id ms"]
  by (auto simp: keeps_by_id msgs_ok_merge by_id_merge confirmed_def) (metis option.inject)

lemma keeps_subset [js_intro]: "msgs_ok ms \<Longrightarrow> set new \<subseteq> set ms \<Longrightarrow> keeps ms new"
  using keeps_refl[of ms] by (auto simp: keeps_def)

text \<open>Rebuilding a list from its unconfirmed rows and a page of confirmed ones.\<close>

lemma merge_map_page:
  "\<forall>m \<in> set ms. confirmed m \<Longrightarrow> merge_map ms f i = Some m' \<Longrightarrow> f i \<noteq> Some m' \<Longrightarrow> confirmed m'"
proof (induction ms arbitrary: f)
  case Nil
  then show ?case by simp
next
  case (Cons x ms)
  let ?g = "f(message_id x := reconcile (f (message_id x)) x)"
  show ?case
  proof (cases "?g i = Some m'")
    case True
    then show ?thesis using Cons.prems by (auto simp: reconcile_def split: if_splits)
  next
    case False
    then show ?thesis using Cons by simp
  qed
qed

lemma keeps_rebuild:
  assumes "msgs_ok ms" "\<forall>m \<in> set page. confirmed m"
  shows "keeps ms (merge_messages (filter (\<lambda>m. send_state m \<noteq> None) ms) page)"
proof -
  let ?f = "filter (\<lambda>m. send_state m \<noteq> None) ms"
  have ok: "msgs_ok ?f" using assms(1) by (rule msgs_ok_filter)
  have "confirmed m'" if old: "by_id ms i = Some m" "confirmed m"
    and new: "merge_map page (by_id ?f) i = Some m'" for i m m'
  proof (cases "by_id ?f i = Some m'")
    case True
    then have "m' \<in> set ms" "message_id m' = i" "send_state m' \<noteq> None"
      using msgs_ok_distinct[OF ok] by (auto simp: by_id_Some_iff)
    then show ?thesis using old msgs_ok_distinct[OF assms(1)]
      by (metis by_id_Some_iff confirmed_def option.inject)
  next
    case False
    then show ?thesis using merge_map_page assms(2) new by blast
  qed
  then show ?thesis using assms ok by (simp add: keeps_by_id msgs_ok_merge by_id_merge) blast
qed

lemma keeps_page [js_intro]: "\<forall>m \<in> set page. confirmed m \<Longrightarrow> keeps ms (merge_messages [] page)"
proof -
  assume p: "\<forall>m \<in> set page. confirmed m"
  have ok: "msgs_ok ([] :: message list)" by (simp add: msgs_ok_def)
  have "confirmed m" if "m \<in> set (merge_messages [] page)" for m
  proof -
    have "by_id (merge_messages [] page) (message_id m) = Some m"
      using that msgs_ok_distinct[OF msgs_ok_merge[OF ok]] by (simp add: by_id_Some_iff)
    then show ?thesis using merge_map_page[OF p] by (auto simp: by_id_merge[OF ok])
  qed
  then show "keeps ms (merge_messages [] page)" by (simp add: keeps_def)
qed

lemma keeps_window [js_intro]:
  assumes "msgs_ok (t_messages t)" "\<forall>m \<in> set (wp_items pg). confirmed m"
  shows "keeps (t_messages t) (t_messages (apply_window_page t pg))"
  unfolding apply_window_page_def Let_def
  using assms keeps_rebuild[OF assms]
  by (auto split: option.splits bool.splits intro: keeps_merge keeps_page)

lemma keeps_update [js_intro]:
  assumes "msgs_ok ms" "\<And>m. message_id (u m) = message_id m" "\<And>m. sent_at (u m) = sent_at m"
    "\<And>m. confirmed m \<Longrightarrow> confirmed (u m)"
  shows "keeps ms (update_message ms mid u)"
  using assms by (auto simp: keeps_by_id msgs_ok_update by_id_update split: if_splits)

lemma keeps_remove [js_intro]: "msgs_ok ms \<Longrightarrow> keeps ms (remove_message ms mid)"
  by (rule keeps_subset) (auto simp: remove_message_filter)

lemma merge_echo_confirmed [simp]: "confirmed (merge_send_echo echo opt) = confirmed echo"
  by (auto simp: merge_send_echo_def confirmed_def split: option.splits)

subsection \<open>States\<close>

lemma loaded_messages_put [simp]:
  "loaded_messages (put_thread cid t s) c = (if c = cid then t_messages t else loaded_messages s c)"
  by (simp add: loaded_messages_def put_thread_def)

lemma loaded_messages_or_empty [simp]: "t_messages (thread_or_empty s cid) = loaded_messages s cid"
  by (simp add: loaded_messages_def thread_or_empty_def empty_thread_def split: option.splits)

lemma loaded_messages_threads: "threads s cid = Some t \<Longrightarrow> loaded_messages s cid = t_messages t"
  by (simp add: loaded_messages_def)

lemma msgs_ok_loaded: "threads_ok s \<Longrightarrow> msgs_ok (loaded_messages s cid)"
  using msgs_ok_thread_or_empty[of s cid] by simp

lemma keeps_rows_same: "threads_ok s \<Longrightarrow> threads s' = threads s \<Longrightarrow> keeps_rows s s'"
  unfolding keeps_rows_def loaded_messages_def[of s']
  using msgs_ok_loaded keeps_refl by (simp add: loaded_messages_def)

lemma keeps_rows_put:
  "threads_ok s \<Longrightarrow> threads s0 = threads s \<Longrightarrow> keeps (loaded_messages s cid) (t_messages t) \<Longrightarrow>
   keeps_rows s (put_thread cid t s0)"
  using keeps_rows_same[of s s0] by (simp add: keeps_rows_def)

lemma keeps_rows_patch:
  "threads_ok s \<Longrightarrow> threads s0 = threads s \<Longrightarrow>
   keeps (loaded_messages s cid) (t_messages (f (thread_or_empty s cid))) \<Longrightarrow>
   keeps_rows s (patch_thread cid f s0)"
  unfolding patch_thread_def by (rule keeps_rows_put) (simp_all add: thread_or_empty_def)

lemma keeps_rows_patch_same:
  "threads_ok s \<Longrightarrow> threads s0 = threads s \<Longrightarrow> (\<And>t. t_messages (f t) = t_messages t) \<Longrightarrow>
   keeps_rows s (patch_thread cid f s0)"
  by (rule keeps_rows_patch) (simp_all add: keeps_refl msgs_ok_loaded)

lemma keeps_rows_threads: "threads s1 = threads s2 \<Longrightarrow> keeps_rows s s1 = keeps_rows s s2"
  by (simp add: keeps_rows_def loaded_messages_def)

lemma keeps_rows_update_loaded:
  "threads_ok s \<Longrightarrow> threads s0 = threads s \<Longrightarrow> (\<And>m. message_id (u m) = message_id m) \<Longrightarrow>
   (\<And>m. sent_at (u m) = sent_at m) \<Longrightarrow> (\<And>m. confirmed m \<Longrightarrow> confirmed (u m)) \<Longrightarrow>
   keeps_rows s (update_loaded_message cid mid u s0)"
  by (auto simp: update_loaded_message_def loaded_messages_threads split: option.splits
      intro!: keeps_rows_put keeps_update intro: keeps_rows_same dest: threads_okD)

lemma threads_patch_same:
  "keeps_rows s s0 \<Longrightarrow> (\<And>t. t_messages (f t) = t_messages t) \<Longrightarrow> keeps_rows s (patch_thread cid f s0)"
  by (simp add: keeps_rows_def patch_thread_def)

lemma keeps_rows_latest [js_intro]: "keeps_rows s s0 \<Longrightarrow> keeps_rows s (fst (load_latest cid s0))"
  by (auto simp: load_latest_def Let_def intro!: threads_patch_same)

lemma keeps_rows_poll [js_intro]: "keeps_rows s s0 \<Longrightarrow> keeps_rows s (fst (poll_recent cid s0))"
  by (auto simp: poll_recent_def split: option.splits)

lemma keeps_rows_older [js_intro]: "keeps_rows s s0 \<Longrightarrow> keeps_rows s (fst (load_older cid s0))"
  by (auto simp: load_older_def split: option.splits intro!: threads_patch_same)

lemma keeps_rows_newer [js_intro]: "keeps_rows s s0 \<Longrightarrow> keeps_rows s (fst (load_newer cid s0))"
  by (auto simp: load_newer_def split: option.splits intro!: threads_patch_same keeps_rows_latest)

lemma keeps_rows_reload [js_intro]:
  "threads_ok s \<Longrightarrow> keeps_rows s (fst (reload_thread_from_start cid s))"
  unfolding reload_thread_from_start_def reset_thread_window_def
  by (intro keeps_rows_latest keeps_rows_put) (auto intro!: keeps_subset intro: msgs_ok_loaded)

lemma keeps_rows_put_optimistic:
  "threads_ok s \<Longrightarrow> keeps_rows s (put_optimistic key dk rq m s)"
  by (auto simp: put_optimistic_def Let_def keeps_rows_def loaded_messages_def threads_ok_def
      split: option.splits intro!: keeps_merge keeps_refl)

lemma keeps_rows_send_accepted:
  assumes "threads_ok s"
  shows "keeps_rows s (fst (send_accepted mid now inp v txt peer s))"
  using keeps_rows_put_optimistic[OF assms]
  by (simp add: send_accepted_def Let_def keeps_rows_threads[OF threads_dispatch_send]
      keeps_rows_threads[OF threads_clear_sent_drafts])

lemma keeps_rows_send_message:
  "threads_ok s \<Longrightarrow> keeps_rows s (fst (send_message mid now inp s))"
  by (simp add: send_message_def Let_def keeps_rows_send_accepted keeps_rows_same split: option.splits)

lemma keeps_rows_ingest:
  "threads_ok s \<Longrightarrow> keeps_rows s (fst (ingest_message vis cid m s))"
  by (auto simp: ingest_message_def Let_def keeps_rows_threads[OF note_last_message_frame] loaded_messages_threads
      split: option.splits intro!: keeps_rows_patch keeps_merge keeps_refl intro: keeps_rows_same dest: threads_okD)

lemma keeps_rows_seed:
  assumes "threads_ok s" "\<forall>m \<in> set (hit_after hit @ [hit_message hit] @ hit_before hit). confirmed m"
  shows "keeps_rows s (seed_from_search_hit hit s)"
  using assms keeps_window[of "thread_or_empty s (conversation_id (hit_conversation hit))"] 
  by (auto simp: seed_from_search_hit_def Let_def msgs_ok_loaded split: option.splits
      intro!: keeps_rows_put intro: keeps_rows_same)

lemma loaded_messages_send_errors [simp]:
  "loaded_messages (s\<lparr>send_errors := e\<rparr>) = loaded_messages s"
  by (simp add: loaded_messages_def fun_eq_iff)

lemma loaded_messages_retry:
  "loaded_messages (fst (retry_send key mid s)) cid =
     (if cid = key \<and> pending_sends s mid \<noteq> None
      then update_message (loaded_messages s key) mid (\<lambda>m. m\<lparr>send_state := Some Sending\<rparr>)
      else loaded_messages s cid)"
  by (simp add: retry_send_def Let_def patch_thread_def split: option.splits)

lemma keeps_update_other:
  assumes "msgs_ok ms" "\<And>m. message_id (u m) = message_id m" "\<And>m. sent_at (u m) = sent_at m"
    "m \<in> set ms" "message_id m = i" "i \<noteq> mid" "confirmed m"
    "m' \<in> set (update_message ms mid u)" "message_id m' = i"
  shows "confirmed m'"
proof -
  have "by_id ms i = Some m" using assms msgs_ok_distinct by (metis by_id_Some_iff)
  moreover have "by_id (update_message ms mid u) i = Some m'"
    using assms msgs_ok_distinct[OF msgs_ok_update[OF assms(1-3)]] by (metis by_id_Some_iff)
  ultimately show ?thesis using assms by (simp add: by_id_update)
qed

lemma keeps_rows_discard [js_intro]: "threads_ok s \<Longrightarrow> keeps_rows s (discard_failed key mid s)"
  by (auto simp: discard_failed_def Let_def loaded_messages_threads split: option.splits
      intro!: keeps_rows_put keeps_remove intro: keeps_rows_same dest: threads_okD)

lemma keeps_rows_set_loaded [js_intro]:
  "threads_ok s \<Longrightarrow> threads s0 = threads s \<Longrightarrow> keeps_rows s (set_reactions cid mid u s0)"
  "threads_ok s \<Longrightarrow> threads s0 = threads s \<Longrightarrow> keeps_rows s (set_deleted cid mid b s0)"
  by (auto simp: set_reactions_def set_deleted_def confirmed_def intro!: keeps_rows_update_loaded)

lemma loaded_messages_Nil: "threads s' = Map.empty \<Longrightarrow> keeps_rows s s'"
  by (simp add: keeps_rows_def loaded_messages_def)

lemma keeps_rows_perform:
  "threads_ok s \<Longrightarrow> action_ok a \<Longrightarrow> \<forall>key mid. a \<noteq> A_retry key mid \<Longrightarrow> keeps_rows s (fst (perform a s))"
proof (cases a)
  case (A_set_viewer v)
  then show "threads_ok s \<Longrightarrow> keeps_rows s (fst (perform a s))"
    by (auto simp: set_viewer_def with_initial_data_def intro: loaded_messages_Nil keeps_rows_same)
next
  case A_reset
  then show ?thesis by (auto simp: reset_store_def with_initial_data_def intro: loaded_messages_Nil)
next
  case (A_ingest vis ev)
  then show "threads_ok s \<Longrightarrow> keeps_rows s (fst (perform a s))"
    by (cases ev) (auto simp: ingest_event_def intro: keeps_rows_same keeps_rows_ingest)
next
  case (A_seed hit)
  then show "threads_ok s \<Longrightarrow> action_ok a \<Longrightarrow> keeps_rows s (fst (perform a s))"
    by (auto simp: list_all_iff intro!: keeps_rows_seed)
next
  case (A_send mid now inp)
  then show "threads_ok s \<Longrightarrow> keeps_rows s (fst (perform a s))"
    by (simp add: keeps_rows_send_message)
qed (auto simp: load_inbox_def load_more_inbox_def ensure_conversation_def find_direct_conversation_def
    jump_to_message_def accept_request_def decline_request_def toggle_message_reaction_def
    delete_message_def mark_read_def mark_unread_def set_reply_target_def set_draft_def restore_draft_def
    set_focused_conversation_def set_realtime_connected_def set_availability_def
    Let_def case_prod_beta split: option.splits
    intro: keeps_rows_same keeps_rows_latest keeps_rows_older keeps_rows_newer keeps_rows_poll
      keeps_rows_discard keeps_rows_set_loaded)

lemma keeps_rows_send_success:
  assumes ok: "threads_ok s" and echo: "confirmed echo"
  shows "keeps_rows s (apply_send_success key rq echo s)"
proof -
  let ?m = "merge_send_echo echo (find (\<lambda>m. message_id m = sr_message_id rq)
    (loaded_messages s key))"
  let ?src = "remove_message (loaded_messages s key) (sr_message_id rq)"
  have same: "keeps (loaded_messages s key) (merge_messages ?src [?m])"
  proof -
    note okk = msgs_ok_loaded[OF ok, of key]
    note okr = msgs_ok_remove[OF okk]
    have "confirmed m'" if "by_id (loaded_messages s key) i = Some m" "confirmed m"
      "merge_map [?m] (by_id ?src) i = Some m'" for i m m'
      using that echo merge_map_page[of "[?m]" "by_id ?src" i m'] by (auto simp: by_id_remove[OF okk] split: if_splits)
    then show ?thesis
      by (simp add: keeps_by_id okk okr msgs_ok_merge by_id_merge[OF okr] del: merge_map.simps) blast
  qed
  have moved: "keeps (loaded_messages s rid) (merge_messages (merge_messages (loaded_messages s rid) ?src) [?m])"
    for rid
  proof -
    note okk = msgs_ok_loaded[OF ok, of rid]
    have "\<exists>c'. merge_map [?m] (merge_map ?src (by_id (loaded_messages s rid))) i = Some c' \<and> send_state c' = None"
      if "by_id (loaded_messages s rid) i = Some m" "confirmed m" for i m
      using that merge_map_confirmed unfolding confirmed_def by metis
    then show ?thesis
      by (simp add: keeps_by_id okk msgs_ok_merge by_id_merge[OF okk] by_id_merge[OF msgs_ok_merge[OF okk]] del: merge_map.simps)
        (metis confirmed_def option.inject)
  qed
  have rest: "t_messages (case threads s rid of None \<Rightarrow> empty_live_thread | Some t \<Rightarrow> t) =
      loaded_messages s rid" for rid
    by (simp add: loaded_messages_def empty_live_thread_def empty_thread_def
        split: option.splits)
  have other: "loaded_messages (s0\<lparr>threads := (threads s)(k \<mapsto> t)\<rparr>) c =
      (if c = k then t_messages t else loaded_messages s c)"
    "loaded_messages (s0\<lparr>threads := (without_key key (threads s))(k \<mapsto> t)\<rparr>) c =
      (if c = k then t_messages t else if c = key then [] else loaded_messages s c)" for s0 k t c
    by (auto simp: loaded_messages_def without_key_def)
  show ?thesis
    unfolding apply_send_success_def Let_def keeps_rows_def
    using same moved ok by (auto simp: other rest keeps_refl msgs_ok_loaded)
qed

lemma keeps_rows_send_failure:
  "threads_ok s \<Longrightarrow> threads s0 = threads s \<Longrightarrow> keeps_rows s (apply_send_failure key rq e s0)"
  unfolding apply_send_failure_def Let_def
  by (auto simp: loaded_messages_threads fail_if_sending_def confirmed_def split: option.splits
      intro!: keeps_rows_put keeps_update intro: keeps_rows_same dest: threads_okD)

lemma list_all_confirmed: "list_all confirmed ms \<longleftrightarrow> (\<forall>m \<in> set ms. confirmed m)"
  by (simp add: list_all_iff)

lemma keeps_rows_fields [simp]:
  "keeps_rows s (s'\<lparr>availability := x0\<rparr>) = keeps_rows s s'"
  "keeps_rows s (s'\<lparr>conversations := x1\<rparr>) = keeps_rows s s'"
  by (simp_all add: keeps_rows_def loaded_messages_def)

lemma keeps_rows_ensure_done:
  "keeps_rows s s0 \<Longrightarrow> keeps_rows s (fst (ensure_conversation_done cid m r s0))"
  by (subst keeps_rows_threads[of _ s0])
    (auto simp: ensure_conversation_done_def split: option.splits sum.splits prod.splits)

lemma keeps_rows_perform_send_done:
  assumes "threads_ok s" "\<And>echo. r = Inr echo \<Longrightarrow> confirmed echo"
  shows "keeps_rows s (fst (perform_send_done key rq ch r s))"
proof (cases r)
  case (Inl e)
  then show ?thesis
    by (simp add: perform_send_done_def Let_def keeps_rows_threads[OF settle_chain_frame(1)]
        keeps_rows_send_failure assms(1))
next
  case (Inr echo)
  have "keeps_rows s (apply_send_success key rq echo s)"
    using Inr assms by (intro keeps_rows_send_success) auto
  then show ?thesis using Inr
    by (auto simp: perform_send_done_def Let_def keeps_rows_threads[OF settle_chain_frame(1)]
        keeps_rows_threads[OF note_last_message_frame] ensure_conversation_def split: option.splits)
qed

lemma keeps_rows_recent: "threads_ok s \<Longrightarrow> keeps_rows s (apply_recent cid ms s)"
  by (auto simp: apply_recent_def Let_def loaded_messages_threads split: option.splits
      intro!: keeps_rows_put keeps_merge keeps_refl intro: keeps_rows_same dest: threads_okD)

lemma keeps_rows_page_done:
  assumes "threads_ok s" "\<And>pg. r = Inr pg \<Longrightarrow> list_all confirmed (mp_items pg)"
  shows "keeps_rows s (fst (load_latest_done cid r s))"
    "keeps_rows s (fst (load_older_done cid r s))"
    "keeps_rows s (fst (load_newer_done cid r s))"
    "keeps_rows s (fst (jump_to_message_done cid mid r s))"
proof -
  note win = keeps_window[of "thread_or_empty (s\<lparr>availability := a\<rparr>) cid" for a]
  have av: "thread_or_empty (s\<lparr>availability := a\<rparr>) cid = thread_or_empty s cid" for a
    by (simp add: thread_or_empty_def)
  have w: "keeps (loaded_messages s cid) (t_messages (apply_window_page (thread_or_empty s cid) w))"
    if "\<forall>m \<in> set (wp_items w). confirmed m" for w
    using keeps_window[of "thread_or_empty s cid" w] that msgs_ok_loaded[OF assms(1)] by simp
  note ok = msgs_ok_loaded[OF assms(1), of cid]
  show "keeps_rows s (fst (load_latest_done cid r s))"
    using assms by (auto simp: load_latest_done_def Let_def av window_from_messages_page_def list_all_iff
        split: sum.splits intro!: keeps_rows_put keeps_rows_patch_same w)
  show "keeps_rows s (fst (jump_to_message_done cid mid r s))"
    using assms by (auto simp: jump_to_message_done_def window_from_messages_page_def list_all_iff
        split: sum.splits intro!: keeps_rows_put w intro: keeps_rows_same)
  show "keeps_rows s (fst (load_older_done cid r s))"
    using assms(1) ok by (auto simp: load_older_done_def Let_def split: sum.splits
        intro!: keeps_rows_put keeps_rows_patch_same keeps_merge keeps_rows_reload)
  show "keeps_rows s (fst (load_newer_done cid r s))"
    using assms(1) ok by (auto simp: load_newer_done_def Let_def split: sum.splits
        intro!: keeps_rows_poll keeps_rows_put keeps_rows_patch_same keeps_merge keeps_rows_reload)
qed

lemma keeps_rows_same_done:
  "threads_ok s \<Longrightarrow> keeps_rows s (fst (load_inbox_done seg x1 s))"
  "threads_ok s \<Longrightarrow> keeps_rows s (fst (load_more_inbox_done seg x1 s))"
  "threads_ok s \<Longrightarrow> keeps_rows s (fst (find_direct_conversation_done x2 s))"
  "threads_ok s \<Longrightarrow> keeps_rows s (fst (accept_request_done cid ids b x3 s))"
  "threads_ok s \<Longrightarrow> keeps_rows s (fst (decline_request_done ids x3 s))"
  "threads_ok s \<Longrightarrow> keeps_rows s (fst (mark_read_done x3 s))"
  "threads_ok s \<Longrightarrow> keeps_rows s (fst (mark_unread_done cid x3 s))"
  "threads_ok s \<Longrightarrow> keeps_rows s (fst (peer_read_done cid x2 s))"
  "threads_ok s \<Longrightarrow> keeps_rows s (fst (poll_recent_done cid x4 s))"
  "threads_ok s \<Longrightarrow> keeps_rows s (fst (toggle_message_reaction_done cid mid snap x3 s))"
  "threads_ok s \<Longrightarrow> keeps_rows s (fst (delete_message_done cid mid b0 x3 s))"
  by (auto simp: load_inbox_done_def load_more_inbox_done_def load_inbox_def Let_def case_prod_beta
      find_direct_conversation_done_def accept_request_done_def decline_request_done_def
      mark_read_done_def mark_unread_done_def peer_read_done_def poll_recent_done_def
      toggle_message_reaction_done_def delete_message_done_def
      keeps_rows_threads[OF note_last_message_frame]
      split: sum.splits option.splits intro: keeps_rows_same keeps_rows_recent keeps_rows_set_loaded)

lemma as_okD:
  "as_page r = Some (Inr pg) \<Longrightarrow> server_ok r \<Longrightarrow> list_all confirmed (mp_items pg)"
  "as_msg r = Some (Inr m) \<Longrightarrow> server_ok r \<Longrightarrow> confirmed m"
  by (cases r; simp)+

lemma keeps_rows_settle:
  "threads_ok s \<Longrightarrow> server_ok r \<Longrightarrow> settle p r s = Some y \<Longrightarrow> keeps_rows s (fst y)"
  by (cases p) (auto intro: keeps_rows_same_done keeps_rows_ensure_done keeps_rows_same
      intro!: keeps_rows_page_done keeps_rows_perform_send_done dest: as_okD)

lemma keeps_rows_resume: "threads_ok s \<Longrightarrow> keeps_rows s (fst (resume_draft_send dk rq n v s))"
  by (auto simp: resume_draft_send_def Let_def split: option.splits intro: keeps_rows_same)

lemma keeps_rows_step:
  assumes ok: "threads_ok s" and step: "sys_step (s, P) (s', P')"
  shows "keeps_rows s s' \<or> (\<exists>key mid. s' = fst (retry_send key mid s))"
  using step
proof (cases rule: sys_step_state)
  case (act a)
  then show ?thesis
  proof (cases "\<forall>key mid. a \<noteq> A_retry key mid")
    case True
    then show ?thesis using act keeps_rows_perform[OF ok] by simp
  next
    case False
    then obtain key mid where "a = A_retry key mid" by blast
    then show ?thesis using act by (metis perform.simps(16))
  qed
next
  case (settled p r y)
  then show ?thesis using keeps_rows_settle[OF ok] by simp
next
  case (woken dk rq n v)
  then show ?thesis using keeps_rows_resume[OF ok] by simp
qed

lemma keeps_rowsD:
  "keeps_rows s s' \<Longrightarrow> m \<in> set (loaded_messages s cid) \<Longrightarrow> m' \<in> set (loaded_messages s' cid) \<Longrightarrow>
   message_id m' = message_id m \<Longrightarrow> confirmed m \<Longrightarrow> confirmed m'"
  unfolding keeps_rows_def keeps_def by metis

lemma keeps_retry_other:
  assumes ok: "threads_ok s" and "mid \<noteq> message_id m \<or> cid \<noteq> key"
    "m \<in> set (loaded_messages s cid)" "confirmed m"
    "m' \<in> set (loaded_messages (fst (retry_send key mid s)) cid)" "message_id m' = message_id m"
  shows "confirmed m'"
proof (cases "cid = key \<and> pending_sends s mid \<noteq> None")
  case True
  show ?thesis
    by (rule keeps_update_other[OF msgs_ok_loaded[OF ok, of key], where i = "message_id m" and m = m
          and mid = mid and u = "\<lambda>m. m\<lparr>send_state := Some Sending\<rparr>"])
      (use True assms in \<open>auto simp: loaded_messages_retry\<close>)
next
  case False
  then have "m' \<in> set (loaded_messages s cid)" using assms(5) by (simp add: loaded_messages_retry split: if_splits)
  then show ?thesis using assms keeps_rowsD[OF keeps_rows_same[OF ok refl]] by metis
qed

end
