(* ===== verification/Message_Demo.thy ===== *)
theory Message_Demo
  imports Message_Confirm
begin

section \<open>Running the messaging store\<close>

text \<open>
  A script of moves executes the step relation: a user action, the answer to the n-th call in
  flight, or waking the n-th waiting draft send. What a script reaches is reachable
  (\<open>run_reachable\<close>), so concrete runs of the store are evaluated, not argued about. The
  users, conversation and messages below are the data of those runs.
\<close>

datatype move = Do user_action | Answer nat response | Wake nat

fun play :: "move \<Rightarrow> sys \<Rightarrow> sys option" where
  "play (Do a) (s, P) =
     (if action_ok a then (case perform a s of (s', new, _) \<Rightarrow> Some (s', P @ new)) else None)"
| "play (Answer n r) (s, P) =
     (if n < length P \<and> server_ok r
      then (case settle (P ! n) r s of
              Some (s', new, _) \<Rightarrow> Some (s', remove1 (P ! n) P @ new)
            | None \<Rightarrow> None)
      else None)"
| "play (Wake n) (s, P) =
     (if n < length P
      then (case P ! n of
              P_wait dk rq prev k \<Rightarrow>
                (case chain_values s prev of
                   Some v \<Rightarrow> (case resume_draft_send dk rq k v s of
                      (s', new, _) \<Rightarrow> Some (s', remove1 (P ! n) P @ new))
                 | None \<Rightarrow> None)
            | _ \<Rightarrow> None)
      else None)"

fun run :: "move list \<Rightarrow> sys \<Rightarrow> sys option" where
  "run [] x = Some x"
| "run (m # ms) x = (case play m x of None \<Rightarrow> None | Some y \<Rightarrow> run ms y)"

lemma play_step: "play m (s, P) = Some y \<Longrightarrow> sys_step (s, P) y"
proof (cases m)
  case (Wake n)
  assume "play m (s, P) = Some y"
  then obtain dk rq prev k v where n: "n < length P" "P ! n = P_wait dk rq prev k"
    "chain_values s prev = Some v"
    "y = (case resume_draft_send dk rq k v s of (s', new, _) \<Rightarrow> (s', remove1 (P ! n) P @ new))"
    using Wake by (auto split: if_splits pending.splits option.splits prod.splits)
  then have "P_wait dk rq prev k \<in> set P" by (metis nth_mem)
  then show ?thesis using n by (auto split: prod.splits intro: step_wake)
qed (auto split: if_splits option.splits prod.splits intro!: step_act step_settle)

lemma run_reachable: "run ms x = Some y \<Longrightarrow> sys_reachable x \<Longrightarrow> sys_reachable y"
proof (induction ms arbitrary: x)
  case Nil
  then show ?case by simp
next
  case (Cons m ms)
  then show ?case
    by (cases x) (auto split: option.splits intro: sys_next dest!: play_step)
qed

lemma run_initial: "run ms (initial_store st, []) = Some y \<Longrightarrow> sys_reachable y"
  using run_reachable sys_init by blast

definition alice :: message_user where
  "alice = \<lparr>u_fid = 1, u_username = None, u_display_name = ''Alice'', u_pfp_url = None\<rparr>"

definition bob :: message_user where
  "bob = \<lparr>u_fid = 2, u_username = None, u_display_name = ''Bob'', u_pfp_url = None\<rparr>"

definition a_message :: "jstr \<Rightarrow> jstr \<Rightarrow> message_user \<Rightarrow> int \<Rightarrow> message" where
  "a_message mid cid u t = \<lparr>message_id = mid, m_conversation_id = cid, sender = u, m_type = Text,
     m_text = ''hi'', sent_at = t, reactions = [], in_reply_to = None, metadata = None,
     is_deleted = False, is_pinned = False, is_last_read = False, send_state = None\<rparr>"

definition a_conversation :: "jstr \<Rightarrow> conversation" where
  "a_conversation cid = \<lparr>conversation_id = cid, is_group = False, c_name = None, photo_url = None,
     participants = [alice, bob], counterparty = Some bob, last_message = None, unread_count = 0,
     unread_mentions_count = 0, muted = False, pinned = False, archived = False, category = CDefault,
     access = Read_write, last_read_at = 0, manually_marked_unread = False, created_at = 0,
     peer_last_read_at = None\<rparr>"

definition a_page :: "message list \<Rightarrow> response" where
  "a_page ms = R_page \<lparr>mp_items = ms, mp_next_cursor = None, mp_next_newer_cursor = None\<rparr>"

definition an_inbox :: "conversation list \<Rightarrow> response" where
  "an_inbox cs = R_inbox \<lparr>ir_items = cs, ir_next_cursor = None, ir_requests_count = 0,
     ir_has_unread_requests = False, ir_has_archived = False\<rparr>"

definition a_send :: "jstr option \<Rightarrow> int option \<Rightarrow> send_input" where
  "a_send cid peer = \<lparr>si_conversation_id = cid, si_recipient_fid = peer, si_text = ''hello'',
     si_reply_to = None, si_process_metadata = True\<rparr>"

text \<open>Alice opens a thread holding one message of Bob's.\<close>

definition open_thread :: "move list" where
  "open_thread = [Do (A_set_viewer (Some alice)), Do (A_load_latest ''c''),
     Answer 0 (a_page [a_message ''m1'' ''c'' bob 10])]"

definition opened :: sys where
  "opened = the (run open_thread (initial_store None, []))"

lemma run_open_thread: "run open_thread (initial_store None, []) = Some opened"
proof -
  have "run open_thread (initial_store None, []) \<noteq> None" by code_simp
  then show ?thesis by (auto simp: opened_def)
qed

lemma opened_reachable: "sys_reachable opened"
  using run_open_thread by (rule run_initial)

end
