(* ===== verification/Message_Lifecycle.thy ===== *)
theory Message_Lifecycle
  imports Message_Demo
begin

section \<open>The life of a sent message\<close>

text \<open>
  From the optimistic row a send adds, through the server's echo, a failure and a retry: what
  each of these does to the thread and to the queue of unconfirmed requests.
\<close>

subsection \<open>Properties of every run\<close>

text \<open>
  C1. In every state the store can reach, whatever the order in which calls settle, each
  loaded thread is sorted by time then id and holds no message id twice.
\<close>

theorem reachable_threads_ok:
  "sys_reachable (s, P) \<Longrightarrow> threads s cid = Some t \<Longrightarrow>
     sorted_wrt (\<lambda>a b. compare_messages a b < 0) (t_messages t) \<and> distinct (map message_id (t_messages t))"
  using sys_reachable_threads_ok[of "(s, P)"] by (simp add: threads_ok_def msgs_ok_def)

theorem reachable_threads_ok_witness:
  "\<exists>s P t. sys_reachable (s, P) \<and> threads s ''c'' = Some t \<and>
     sorted_wrt (\<lambda>a b. compare_messages a b < 0) (t_messages t) \<and> map message_id (t_messages t) = [''m1'']"
proof -
  have r: "sys_reachable (fst opened, snd opened)" using opened_reachable by simp
  have "map_option (\<lambda>t. map message_id (t_messages t)) (threads (fst opened) ''c'') = Some [''m1'']"
    by code_simp
  then obtain t where t: "threads (fst opened) ''c'' = Some t" "map message_id (t_messages t) = [''m1'']"
    by auto
  show ?thesis
    by (intro exI[of _ "fst opened"] exI[of _ "snd opened"] exI[of _ t])
      (use r t reachable_threads_ok[OF r t(1)] in simp)
qed

text \<open>
  C3. A message the server has confirmed stays confirmed for as long as it is loaded: no page, poll,
  echo, socket frame, failed call or other action of the store turns it back into a sending or
  failed row. The one exception is a manual retry of that very message.
\<close>

theorem confirmed_not_downgraded:
  assumes "sys_reachable (s, P)" "sys_step (s, P) (s', P')"
    "m \<in> set (loaded_messages s cid)" "confirmed m"
    "m' \<in> set (loaded_messages s' cid)" "message_id m' = message_id m"
  shows "confirmed m' \<or> s' = fst (retry_send cid (message_id m) s)"
proof -
  have ok: "threads_ok s" using sys_reachable_threads_ok[OF assms(1)] by simp
  from keeps_rows_step[OF ok assms(2)] show ?thesis
  proof
    assume "keeps_rows s s'"
    then show ?thesis using keeps_rowsD assms(3-6) by blast
  next
    assume "\<exists>key mid. s' = fst (retry_send key mid s)"
    then obtain key mid where s': "s' = fst (retry_send key mid s)" by blast
    then show ?thesis using keeps_retry_other[OF ok, of mid m cid key m'] assms(3-6) by blast
  qed
qed

theorem confirmed_not_downgraded_witness:
  "\<exists>s P s' P' m m'. sys_reachable (s, P) \<and> sys_step (s, P) (s', P') \<and>
     m \<in> set (loaded_messages s ''c'') \<and> confirmed m \<and> m' \<in> set (loaded_messages s' ''c'') \<and>
     message_id m' = message_id m \<and> m' \<noteq> m \<and>
     (confirmed m' \<or> s' = fst (retry_send ''c'' (message_id m) s))"
proof -
  have r: "sys_reachable (fst opened, snd opened)" using opened_reachable by simp
  define m m' where "m = a_message ''m1'' ''c'' bob 10"
    and "m' = m\<lparr>reactions := [\<lparr>r_reaction = ''+'', r_count = 1, r_viewer_reacted = True\<rparr>]\<rparr>"
  let ?y = "the (play (Do (A_react ''c'' ''m1'' ''+'')) opened)"
  have "play (Do (A_react ''c'' ''m1'' ''+'')) opened \<noteq> None" by code_simp
  then have st: "sys_step (fst opened, snd opened) (fst ?y, snd ?y)"
    using play_step[of _ "fst opened" "snd opened"] by auto
  have m: "m \<in> set (loaded_messages (fst opened) ''c'')" "confirmed m" unfolding m_def by code_simp+
  have m': "m' \<in> set (loaded_messages (fst ?y) ''c'')" "message_id m' = message_id m" "m' \<noteq> m"
    unfolding m'_def m_def by code_simp+
  show ?thesis using r st m m' confirmed_not_downgraded[OF r st m m'(1,2)] by blast
qed

subsection \<open>Sending\<close>

lemma loaded_messages_frame: "threads s' = threads s \<Longrightarrow> loaded_messages s' = loaded_messages s"
  by (simp add: loaded_messages_def fun_eq_iff)

lemma loaded_messages_put_optimistic:
  "loaded_messages (put_optimistic key dk rq m s) c =
     (if c = key then merge_messages (loaded_messages s key) [m] else loaded_messages s c)"
  by (auto simp: put_optimistic_def Let_def loaded_messages_def empty_live_thread_def empty_thread_def
      split: option.splits)

lemma threads_put_optimistic_other: "c \<noteq> key \<Longrightarrow> threads (put_optimistic key dk rq m s) c = threads s c"
  by (simp add: put_optimistic_def Let_def)

lemma merge_optimistic:
  "msgs_ok ms \<Longrightarrow> mid \<notin> message_id ` set ms \<Longrightarrow>
   merge_messages ms [build_optimistic_message mid key v txt (optimistic_sent_at ms now) rt] =
     ms @ [build_optimistic_message mid key v txt (optimistic_sent_at ms now) rt]"
  by (rule merge_fresh_last) (auto simp: build_optimistic_message_def optimistic_sent_at_newest)

lemma put_optimistic_fields [simp]:
  "pending_sends (put_optimistic key dk rq m s) = (pending_sends s)(sr_message_id rq \<mapsto> rq)"
  "reply_targets (put_optimistic key dk rq m s) = (reply_targets s)(key \<mapsto> None)"
  "drafts (put_optimistic key None rq m s) = (drafts s)(key \<mapsto> [])"
  by (simp_all add: put_optimistic_def Let_def)

lemma clear_sent_drafts_fields [simp]:
  "pending_sends (clear_sent_drafts f key dk s) = pending_sends s"
  "reply_targets (clear_sent_drafts f key dk s) = reply_targets s"
  "drafts (clear_sent_drafts f key dk s) = drafts s"
  by (simp_all add: clear_sent_drafts_def Let_def)

text \<open>
  Sending to an open conversation shows the message at once: the thread gains exactly one row,
  at its end, in state \<open>sending\<close> and under the fresh idempotency id; the request is queued under
  that id and goes out; the composer's draft and reply target are cleared; no other thread changes.
\<close>

theorem send_appends_row:
  assumes "sys_reachable (s, P)" "viewer s = Some v" "js_trim (si_text inp) \<noteq> []"
    "si_conversation_id inp = Some cid" "cid \<noteq> []"
    "mid \<notin> message_id ` set (loaded_messages s cid)"
  shows "\<exists>s' row rq. send_message mid now inp s = (s', [P_send cid rq None], Out_pending) \<and>
    loaded_messages s' cid = loaded_messages s cid @ [row] \<and>
    message_id row = mid \<and> m_text row = js_trim (si_text inp) \<and> sender row = v \<and>
    send_state row = Some Sending \<and> in_reply_to row = map_option quote_of (si_reply_to inp) \<and>
    pending_sends s' = (pending_sends s)(mid \<mapsto> rq) \<and>
    sr_message_id rq = mid \<and> sr_conversation_id rq = Some cid \<and> sr_recipient_fids rq = [] \<and>
    sr_text rq = js_trim (si_text inp) \<and>
    drafts s' cid = Some [] \<and> reply_targets s' cid = Some None \<and>
    (\<forall>c. c \<noteq> cid \<longrightarrow> threads s' c = threads s c)"
proof -
  have ok: "msgs_ok (loaded_messages s cid)"
    using sys_reachable_threads_ok[OF assms(1)] by (simp add: msgs_ok_loaded)
  let ?row = "build_optimistic_message mid cid v (js_trim (si_text inp))
    (optimistic_sent_at (loaded_messages s cid) now) (si_reply_to inp)"
  define rq where "rq = \<lparr>sr_conversation_id = Some cid, sr_recipient_fids = [], sr_message_id = mid,
    sr_text = js_trim (si_text inp), sr_in_reply_to_id = map_option message_id (si_reply_to inp),
    sr_process_metadata = (if si_process_metadata inp then None else Some False)\<rparr>"
  let ?s = "clear_sent_drafts (u_fid v) cid None (put_optimistic cid None rq ?row s)"
  have "send_message mid now inp s = (?s, [P_send cid rq None], Out_pending)"
    using assms by (simp add: send_message_def send_accepted_def dispatch_send_def perform_send_def
        Let_def truthy_def rq_def)
  moreover have "loaded_messages ?s cid = loaded_messages s cid @ [?row]"
    by (simp add: loaded_messages_frame[OF threads_clear_sent_drafts] loaded_messages_put_optimistic
        merge_optimistic ok assms(6))
  ultimately show ?thesis
    by (intro exI[of _ ?s] exI[of _ ?row] exI[of _ rq])
      (simp add: rq_def build_optimistic_message_def threads_put_optimistic_other)
qed

theorem send_appends_row_witness:
  "\<exists>s' row rq. send_message ''m2'' 5 (a_send (Some ''c'') None) (fst opened) = (s', [P_send ''c'' rq None], Out_pending) \<and>
     loaded_messages s' ''c'' = loaded_messages (fst opened) ''c'' @ [row] \<and> send_state row = Some Sending"
proof -
  have r: "sys_reachable (fst opened, snd opened)" using opened_reachable by simp
  have "viewer (fst opened) = Some alice" "js_trim (si_text (a_send (Some ''c'') None)) \<noteq> []"
    "''m2'' \<notin> message_id ` set (loaded_messages (fst opened) ''c'')"
    by code_simp+
  then show ?thesis
    using send_appends_row[OF r, of alice "a_send (Some ''c'') None" "''c''" "''m2''" 5]
    by (fastforce simp: a_send_def)
qed

subsection \<open>The answer to a send\<close>

lemma loaded_messages_send_success:
  "loaded_messages (apply_send_success key rq echo s) c =
     (let m = merge_send_echo echo (find (\<lambda>m. message_id m = sr_message_id rq) (loaded_messages s key));
          rest = remove_message (loaded_messages s key) (sr_message_id rq)
      in if c = m_conversation_id echo
         then (if c = key then merge_messages rest [m]
               else merge_messages (merge_messages (loaded_messages s c) rest) [m])
         else if c = key \<and> m_conversation_id echo \<noteq> key then [] else loaded_messages s c)"
  by (auto simp: apply_send_success_def Let_def loaded_messages_def without_key_def
      thread_or_empty_def empty_live_thread_def empty_thread_def split: option.splits)

lemma apply_send_success_fields [simp]:
  "pending_sends (apply_send_success key rq echo s) = without_key (sr_message_id rq) (pending_sends s)"
  "send_errors (apply_send_success key rq echo s) = without_key (sr_message_id rq) (send_errors s)"
  by (simp_all add: apply_send_success_def Let_def)

lemma settle_chain_fields [simp]:
  "pending_sends (settle_chain ch r s) = pending_sends s" "send_errors (settle_chain ch r s) = send_errors s"
  by (auto simp: settle_chain_def Let_def split: option.splits prod.splits)

lemma note_last_message_fields [simp]:
  "pending_sends (note_last_message m b s) = pending_sends s"
  "send_errors (note_last_message m b s) = send_errors s"
  by (auto simp: note_last_message_def patch_conversation_def patch_inbox_def Let_def split: option.splits)

lemma perform_send_done_frame:
  "threads (fst (perform_send_done key rq ch (Inr echo) s)) = threads (apply_send_success key rq echo s)"
  "pending_sends (fst (perform_send_done key rq ch (Inr echo) s)) = without_key (sr_message_id rq) (pending_sends s)"
  "send_errors (fst (perform_send_done key rq ch (Inr echo) s)) = without_key (sr_message_id rq) (send_errors s)"
  by (auto simp: perform_send_done_def Let_def ensure_conversation_def split: option.splits)

lemma filter_by_id:
  assumes "msgs_ok ms"
  shows "filter (\<lambda>m. message_id m = i) ms = (case by_id ms i of None \<Rightarrow> [] | Some m \<Rightarrow> [m])"
proof (cases "by_id ms i")
  case None
  then have "i \<notin> message_id ` set ms" by (simp add: by_id_None_iff)
  then have "filter (\<lambda>m. message_id m = i) ms = []" by (auto simp: filter_empty_conv)
  then show ?thesis using None by simp
next
  case (Some m)
  then have m: "m \<in> set ms" "message_id m = i" by (auto dest: by_id_SomeD)
  have "filter (\<lambda>m. message_id m = i) ms = [m]"
  proof (rule sorted_unique)
    show "msgs_ok (filter (\<lambda>m. message_id m = i) ms)" using assms by (rule msgs_ok_filter)
    show "msgs_ok [m]" by (simp add: msgs_ok_def)
    show "set (filter (\<lambda>m. message_id m = i) ms) = set [m]"
      using m msgs_ok_distinct[OF assms] by (auto simp: distinct_map dest: inj_onD)
  qed
  then show ?thesis using Some by simp
qed

lemma by_id_send_success:
  assumes ok: "threads_ok s" and echo: "confirmed echo" "message_id echo = sr_message_id rq"
  shows "\<exists>row. by_id (loaded_messages (apply_send_success key rq echo s) (m_conversation_id echo))
      (sr_message_id rq) = Some row \<and> confirmed row"
proof -
  note okk = msgs_ok_loaded[OF ok]
  define m where "m = merge_send_echo echo
    (find (\<lambda>m. message_id m = sr_message_id rq) (loaded_messages s key))"
  have m: "message_id m = sr_message_id rq" "send_state m = None"
    using echo merge_echo_confirmed unfolding m_def
    by (auto simp: confirmed_def merge_send_echo_def split: option.splits)
  have "\<exists>row. merge_map [m] f (sr_message_id rq) = Some row \<and> confirmed row" for f
    using merge_map_confirms[of m "[m]" f] m by (simp add: confirmed_def)
  then show ?thesis
    by (simp add: loaded_messages_send_success Let_def by_id_merge msgs_ok_merge msgs_ok_remove okk
        flip: m_def del: merge_map.simps)
qed

lemma ids_remove: "msgs_ok ms \<Longrightarrow> message_id ` set (remove_message ms mid) = message_id ` set ms - {mid}"
  by (auto simp: remove_message_filter)

lemma ids_send_success:
  assumes ok: "threads_ok s" and echo: "message_id echo = sr_message_id rq"
  shows "message_id ` set (loaded_messages (apply_send_success key rq echo s) (m_conversation_id echo)) =
    insert (sr_message_id rq) (message_id ` set (loaded_messages s (m_conversation_id echo)) \<union>
      message_id ` set (loaded_messages s key))"
proof -
  note okk = msgs_ok_loaded[OF ok]
  have "message_id (merge_send_echo echo opt) = sr_message_id rq" for opt
    using echo by (simp add: merge_send_echo_def split: option.splits)
  then show ?thesis
    by (auto simp: loaded_messages_send_success Let_def ids_merge msgs_ok_merge msgs_ok_remove okk
        ids_remove)
qed

text \<open>
  C22. When the server echoes a send, the message appears exactly once in the thread of the
  conversation the server names, confirmed; nothing that was loaded there or in the thread it was
  sent from is lost; a draft thread is dissolved into the real one; and the request leaves the queue.
\<close>

theorem send_echo_confirms:
  assumes "sys_reachable (s, P)" "confirmed echo" "message_id echo = sr_message_id rq"
    "settle (P_send key rq ch) (R_msg echo) s = Some (s', new, out)"
  shows "(\<exists>row. filter (\<lambda>m. message_id m = sr_message_id rq)
        (loaded_messages s' (m_conversation_id echo)) = [row] \<and> confirmed row) \<and>
    message_id ` set (loaded_messages s' (m_conversation_id echo)) =
      insert (sr_message_id rq) (message_id ` set (loaded_messages s (m_conversation_id echo)) \<union>
        message_id ` set (loaded_messages s key)) \<and>
    (key \<noteq> m_conversation_id echo \<longrightarrow> threads s' key = None) \<and>
    pending_sends s' = without_key (sr_message_id rq) (pending_sends s)"
proof -
  have ok: "threads_ok s" using sys_reachable_threads_ok[OF assms(1)] by simp
  have s': "s' = fst (perform_send_done key rq ch (Inr echo) s)" using assms(4) by auto
  have l: "loaded_messages s' = loaded_messages (apply_send_success key rq echo s)"
    by (rule loaded_messages_frame) (simp add: s' perform_send_done_frame)
  have okl: "msgs_ok (loaded_messages (apply_send_success key rq echo s) c)" for c
    using msgs_ok_loaded[OF threads_ok_send_success[OF ok]] .
  have "\<exists>row. filter (\<lambda>m. message_id m = sr_message_id rq)
        (loaded_messages s' (m_conversation_id echo)) = [row] \<and> confirmed row"
    using by_id_send_success[OF ok assms(2,3), of key] by (auto simp: l filter_by_id okl)
  moreover have "threads s' key = None" if "key \<noteq> m_conversation_id echo"
    using that by (simp add: s' perform_send_done_frame apply_send_success_def Let_def)
  ultimately show ?thesis
    by (simp add: l ids_send_success[OF ok assms(3)]) (simp add: s' perform_send_done_frame)
qed

text \<open>Alice sends to the open thread, and the echo names a conversation.\<close>

definition sent :: sys where
  "sent = the (play (Do (A_send ''m2'' 5 (a_send (Some ''c'') None))) opened)"

definition sent_request :: send_message_request where
  "sent_request = \<lparr>sr_conversation_id = Some ''c'', sr_recipient_fids = [], sr_message_id = ''m2'',
     sr_text = ''hello'', sr_in_reply_to_id = None, sr_process_metadata = None\<rparr>"

lemma sent_reachable: "sys_reachable (fst sent, snd sent)"
proof -
  have "play (Do (A_send ''m2'' 5 (a_send (Some ''c'') None))) opened \<noteq> None" by code_simp
  then have "play (Do (A_send ''m2'' 5 (a_send (Some ''c'') None))) (fst opened, snd opened) = Some sent"
    by (auto simp: sent_def)
  then show ?thesis using opened_reachable by (metis play_step prod.collapse sys_next)
qed

theorem send_echo_confirms_witness:
  "\<exists>s' new out row. settle (P_send ''c'' sent_request None) (R_msg (a_message ''m2'' ''c'' alice 12)) (fst sent) =
      Some (s', new, out) \<and> filter (\<lambda>m. message_id m = ''m2'') (loaded_messages s' ''c'') = [row] \<and>
    confirmed row \<and> pending_sends s' ''m2'' = None \<and> pending_sends (fst sent) ''m2'' \<noteq> None"
proof -
  let ?echo = "a_message ''m2'' ''c'' alice 12"
  obtain s' new out where st: "settle (P_send ''c'' sent_request None) (R_msg ?echo) (fst sent) = Some (s', new, out)"
    by (cases "perform_send_done ''c'' sent_request None (Inr ?echo) (fst sent)") auto
  have e: "confirmed ?echo" "message_id ?echo = sr_message_id sent_request" by code_simp+
  have "pending_sends (fst sent) ''m2'' \<noteq> None" by code_simp
  then show ?thesis using st send_echo_confirms[OF sent_reachable e st]
    by (auto simp: sent_request_def a_message_def)
qed

lemma apply_send_failure_fields [simp]:
  "pending_sends (apply_send_failure key rq e s) = pending_sends s"
  by (simp add: apply_send_failure_def Let_def put_thread_def split: option.splits)

lemma note_availability_fields [simp]:
  "pending_sends (fst (note_availability_error e s)) = pending_sends s"
  by (simp add: note_availability_error_def)

lemma loaded_messages_send_failure:
  "loaded_messages (apply_send_failure key rq e s) c =
     (if c = key then update_message (loaded_messages s key) (sr_message_id rq) fail_if_sending
      else loaded_messages s c)"
proof -
  have "update_message [] mid u = []" for mid u by (simp add: update_message_def)
  then show ?thesis
    by (auto simp: apply_send_failure_def Let_def loaded_messages_def put_thread_def split: option.splits)
qed

lemma update_message_ids: "(\<And>m. message_id (u m) = message_id m) \<Longrightarrow>
  map message_id (update_message ms mid u) = map message_id ms"
  by (auto simp: update_message_def map_update intro!: list_update_same_conv[THEN iffD2]
      split: option.splits dest: js_find_index_SomeD)

lemma update_message_map:
  assumes "distinct (map message_id ms)"
  shows "update_message ms mid u = map (\<lambda>m. if message_id m = mid then u m else m) ms"
proof (cases "js_find_index (\<lambda>m. message_id m = mid) ms")
  case None
  then have "\<forall>m \<in> set ms. message_id m \<noteq> mid" by (simp add: js_find_index_None)
  then show ?thesis using None by (simp add: update_message_def map_idI)
next
  case (Some i)
  then have i: "i < length ms" "message_id (ms ! i) = mid" by (auto dest: js_find_index_SomeD)
  have "message_id (ms ! j) = mid \<longleftrightarrow> j = i" if "j < length ms" for j
    using assms i that nth_eq_iff_index_eq[of "map message_id ms" j i] by auto
  then show ?thesis using Some i by (auto simp: update_message_def nth_list_update intro!: nth_equalityI)
qed

text \<open>
  C28. A rejected send loses nothing: in the thread it was sent from, the row with its id turns from
  sending to failed if it is still sending, and stays as it is if it is not (an echo that came first
  has confirmed it); every other row of that thread, their order and every other thread stay as they
  are; and its request stays queued, so a retry sends the same request with the same idempotency id.
\<close>

theorem send_failure_retryable:
  assumes "sys_reachable (s, P)" "settle (P_send key rq ch) (R_err e) s = Some (s', new, out)"
    "pending_sends s (sr_message_id rq) = Some rq"
  shows "loaded_messages s' key =
      map (\<lambda>m. if message_id m = sr_message_id rq \<and> send_state m = Some Sending
                then m\<lparr>send_state := Some Failed\<rparr> else m) (loaded_messages s key) \<and>
    (\<forall>c. c \<noteq> key \<longrightarrow> loaded_messages s' c = loaded_messages s c) \<and>
    pending_sends s' = pending_sends s \<and>
    snd (retry_send key (sr_message_id rq) s') = ([P_send key rq None], Out_pending)"
proof -
  have ok: "distinct (map message_id (loaded_messages s key))"
    using sys_reachable_threads_ok[OF assms(1)] by (simp add: msgs_ok_loaded msgs_ok_distinct)
  let ?s = "apply_send_failure key rq e (fst (note_availability_error e s))"
  have s': "threads s' = threads ?s" "pending_sends s' = pending_sends s"
    using assms(2) by (auto simp: perform_send_done_def Let_def)
  have l: "loaded_messages s' c =
      (if c = key then update_message (loaded_messages s key) (sr_message_id rq) fail_if_sending
       else loaded_messages s c)" for c
    by (simp add: loaded_messages_frame[OF s'(1)] loaded_messages_send_failure
        loaded_messages_frame[OF note_availability_frame(1)])
  show ?thesis using assms(3)
    by (auto simp: l s'(2) update_message_map[OF ok] fail_if_sending_def retry_send_def perform_send_def Let_def)
qed

theorem send_failure_retryable_witness:
  "\<exists>s' new out. settle (P_send ''c'' sent_request None) (R_err (Api_error 503 None None)) (fst sent) = Some (s', new, out) \<and>
    map (\<lambda>m. (message_id m, send_state m)) (loaded_messages (fst sent) ''c'') = [(''m1'', None), (''m2'', Some Sending)] \<and>
    map (\<lambda>m. (message_id m, send_state m)) (loaded_messages s' ''c'') = [(''m1'', None), (''m2'', Some Failed)] \<and>
    snd (retry_send ''c'' ''m2'' s') = ([P_send ''c'' sent_request None], Out_pending)"
proof -
  let ?e = "Api_error 503 None None"
  obtain s' new out where st: "settle (P_send ''c'' sent_request None) (R_err ?e) (fst sent) = Some (s', new, out)"
    by (cases "perform_send_done ''c'' sent_request None (Inl ?e) (fst sent)") auto
  have r: "pending_sends (fst sent) (sr_message_id sent_request) = Some sent_request"
    and b: "map (\<lambda>m. (message_id m, send_state m)) (loaded_messages (fst sent) ''c'') = [(''m1'', None), (''m2'', Some Sending)]"
    by code_simp+
  have i: "sr_message_id sent_request = ''m2''" by (simp add: sent_request_def)
  have after: "loaded_messages s' ''c'' = map (\<lambda>m. if message_id m = ''m2'' \<and> send_state m = Some Sending
        then m\<lparr>send_state := Some Failed\<rparr> else m) (loaded_messages (fst sent) ''c'')"
      "snd (retry_send ''c'' ''m2'' s') = ([P_send ''c'' sent_request None], Out_pending)"
    using send_failure_retryable[OF sent_reachable st r, unfolded i] by - (elim conjE, assumption)+
  have "map (\<lambda>m. (message_id m, send_state m)) (loaded_messages s' ''c'') = [(''m1'', None), (''m2'', Some Failed)]"
  proof -
    from b obtain y z where "loaded_messages (fst sent) ''c'' = [y, z]" "message_id y = ''m1''" "send_state y = None"
        "message_id z = ''m2''" "send_state z = Some Sending"
      by (auto simp: map_eq_Cons_conv)
    then show ?thesis using after(1) by simp
  qed
  with st b after(2) show ?thesis by (intro exI conjI)
qed

end
