(* ===== verification/Message_Inbox.thy ===== *)
theory Message_Inbox
  imports Message_Lifecycle
begin

section \<open>The inbox lists and the unread badge\<close>

text \<open>
  Two facts about the inbox: no list of either segment ever holds a conversation twice (calls
  in flight included, since a request list captured for a roll back is written back later),
  and what an incoming message does to the badge and to the order of the list.
\<close>

subsection \<open>Promoting a conversation\<close>

lemma promote_cases:
  obtains n where "promote ids i cs = take n (filter (\<lambda>x. x \<noteq> i) ids) @ [i] @ drop n (filter (\<lambda>x. x \<noteq> i) ids)"
    "\<forall>x \<in> set (take n (filter (\<lambda>x. x \<noteq> i) ids)). is_pinned_id cs x"
    "is_pinned_id cs i \<Longrightarrow> n = 0"
proof -
  let ?rest = "filter (\<lambda>x. x \<noteq> i) ids"
  show thesis
  proof (cases "is_pinned_id cs i")
    case True
    then show thesis using that[of 0] by (simp add: promote_def Let_def)
  next
    case False
    show thesis
    proof (cases "js_find_index (\<lambda>x. \<not> is_pinned_id cs x) ?rest")
      case None
      then have "\<forall>x \<in> set ?rest. is_pinned_id cs x" by (auto dest: js_find_index_NoneD)
      then show thesis using that[of "length ?rest"] False None by (simp add: promote_def Let_def)
    next
      case (Some n)
      then have "\<forall>x \<in> set (take n ?rest). is_pinned_id cs x"
        using js_find_index_SomeD[OF Some] by (auto simp: in_set_conv_nth)
      then show thesis using that[of n] False Some by (simp add: promote_def Let_def)
    qed
  qed
qed

lemma mset_insert_at: "mset (take n r @ [i] @ drop n r) = add_mset i (mset r)"
proof -
  have "mset (take n r) + mset (drop n r) = mset r"
    by (simp flip: mset_append)
  then show ?thesis by simp
qed

lemma mset_promote_filter: "mset (promote ids i cs) = mset (i # filter (\<lambda>x. x \<noteq> i) ids)"
proof (rule promote_cases[of ids i cs])
  fix n assume p: "promote ids i cs = take n (filter (\<lambda>x. x \<noteq> i) ids) @ [i] @ drop n (filter (\<lambda>x. x \<noteq> i) ids)"
  show ?thesis unfolding p mset_insert_at by simp
qed

lemma distinct_promote: "distinct ids \<Longrightarrow> distinct (promote ids i cs)"
  using mset_eq_imp_distinct_iff[OF mset_promote_filter[of ids i cs]] by simp

lemma set_promote: "set (promote ids i cs) = insert i (set ids)"
  using mset_eq_setD[OF mset_promote_filter[of ids i cs]] by auto

lemma mset_promote: "distinct ids \<Longrightarrow> i \<in> set ids \<Longrightarrow> mset (promote ids i cs) = mset ids"
  using set_eq_iff_mset_eq_distinct[of "promote ids i cs" ids] distinct_promote[of ids i cs]
  by (auto simp: set_promote)

subsection \<open>Invariant: no list holds a conversation twice\<close>

definition inbox_ok :: "mstate \<Rightarrow> bool" where
  "inbox_ok s \<longleftrightarrow> (\<forall>seg. distinct (ib_ids (inbox s seg)))"

fun captured_ok :: "pending \<Rightarrow> bool" where
  "captured_ok (P_accept cid ids b) = distinct ids"
| "captured_ok (P_decline cid ids) = distinct ids"
| "captured_ok _ = True"

definition inbox_sys_ok :: "sys \<Rightarrow> bool" where
  "inbox_sys_ok x \<longleftrightarrow> inbox_ok (fst x) \<and> list_all captured_ok (snd x)"

lemma inbox_okI: "inbox s' = inbox s \<Longrightarrow> inbox_ok s \<Longrightarrow> inbox_ok s'"
  by (simp add: inbox_ok_def)

lemma inbox_ok_fields [simp]:
  "inbox_ok (s\<lparr>availability := x0\<rparr>) = inbox_ok s"
  "inbox_ok (s\<lparr>conversations := x1\<rparr>) = inbox_ok s"
  "inbox_ok (s\<lparr>requests_count := x3\<rparr>) = inbox_ok s"
  "inbox_ok (s\<lparr>unread_total := x5\<rparr>) = inbox_ok s"
  "inbox_ok (s\<lparr>reply_targets := x6\<rparr>) = inbox_ok s"
  "inbox_ok (s\<lparr>drafts := x7\<rparr>) = inbox_ok s"
  "inbox_ok (s\<lparr>pending_sends := x8\<rparr>) = inbox_ok s"
  "inbox_ok (s\<lparr>send_errors := x9\<rparr>) = inbox_ok s"
  "inbox_ok (s\<lparr>focused_conversation_id := x10\<rparr>) = inbox_ok s"
  "inbox_ok (s\<lparr>realtime_connected := x11\<rparr>) = inbox_ok s"
  "inbox_ok (s\<lparr>read_marks := x13\<rparr>) = inbox_ok s"
  "inbox_ok (s\<lparr>draft_send_chains := x14\<rparr>) = inbox_ok s"
  "inbox_ok (s\<lparr>local_storage := x18\<rparr>) = inbox_ok s"
  "inbox_ok (s\<lparr>next_chain := x19\<rparr>) = inbox_ok s"
  "inbox_ok (s\<lparr>viewer := x20\<rparr>) = inbox_ok s"
  by (simp_all add: inbox_ok_def)

lemma inbox_ok_ops [simp]:
  "inbox_ok (note_not_found cid s) = inbox_ok s"
  "inbox_ok (fst (note_availability_error e s)) = inbox_ok s"
  "inbox_ok (patch_conversation cid f s) = inbox_ok s"
  "inbox_ok (put_thread cid t s) = inbox_ok s"
  "inbox_ok (patch_thread cid g s) = inbox_ok s"
  "inbox_ok (settle_chain ch r s) = inbox_ok s"
  "inbox_ok (update_loaded_message cid mid u s) = inbox_ok s"
  by (auto simp: inbox_ok_def update_loaded_message_def split: option.splits)

lemma inbox_ok_patch:
  "inbox_ok s \<Longrightarrow> distinct (ib_ids (f (inbox s seg))) \<Longrightarrow> inbox_ok (patch_inbox seg f s)"
  by (simp add: inbox_ok_def patch_inbox_def)

lemma inbox_ok_patch_same:
  "(\<And>l. ib_ids (f l) = ib_ids l) \<Longrightarrow> inbox_ok (patch_inbox seg f s) = inbox_ok s"
  by (auto simp: inbox_ok_def patch_inbox_def)

lemma inbox_ok_note_last: "inbox_ok s \<Longrightarrow> inbox_ok (note_last_message m b s)"
  by (auto simp: note_last_message_def Let_def inbox_ok_def patch_inbox_def distinct_promote
      split: option.splits)

lemma inbox_ok_page:
  assumes "inbox_ok s" "distinct (map conversation_id (ir_items page))"
  shows "inbox_ok (apply_inbox_page seg page b s)"
  using assms by (auto simp: apply_inbox_page_def Let_def inbox_ok_def intro!: merge_inbox_distinct)

lemma inbox_ok_requests:
  "inbox_ok s \<Longrightarrow> inbox_ok (snd (remove_from_requests cid s))"
  "distinct (ib_ids (inbox s Seg_request)) \<Longrightarrow> distinct (fst (remove_from_requests cid s))"
  "inbox_ok s \<Longrightarrow> distinct ids \<Longrightarrow> inbox_ok (restore_requests ids s)"
  by (auto simp: remove_from_requests_def restore_requests_def Let_def inbox_ok_def patch_inbox_def)

lemma inbox_okD: "inbox_ok s \<Longrightarrow> distinct (ib_ids (inbox s seg))"
  by (simp add: inbox_ok_def)

definition op_ok :: "act \<Rightarrow> bool" where
  "op_ok y \<longleftrightarrow> inbox_ok (fst y) \<and> list_all captured_ok (fst (snd y))"

lemma op_okI [simp]: "op_ok (s, P, out) = (inbox_ok s \<and> list_all captured_ok P)"
  by (simp add: op_ok_def)

lemma op_ok_load_inbox: "inbox_ok s \<Longrightarrow> op_ok (load_inbox seg s)"
  by (simp add: load_inbox_def inbox_ok_patch_same)

lemma op_ok_load_latest: "inbox_ok s \<Longrightarrow> op_ok (load_latest cid s)"
  by (simp add: load_latest_def Let_def)

lemma op_ok_poll: "inbox_ok s \<Longrightarrow> op_ok (poll_recent cid s)"
  by (simp add: poll_recent_def split: option.splits)

lemma op_ok_threads:
  "inbox_ok s \<Longrightarrow> op_ok (load_older cid s)" "inbox_ok s \<Longrightarrow> op_ok (load_newer cid s)"
  by (auto simp: load_older_def load_newer_def op_ok_load_latest split: option.splits)

lemma op_ok_ensure: "inbox_ok s \<Longrightarrow> op_ok (ensure_conversation cid m s)"
  by (auto simp: ensure_conversation_def inbox_ok_note_last split: option.splits)

lemma inbox_put_optimistic [simp]: "inbox_ok (put_optimistic key dk rq m s) = inbox_ok s"
  by (simp add: put_optimistic_def Let_def inbox_ok_def)

lemma op_ok_send_accepted: "inbox_ok s \<Longrightarrow> op_ok (send_accepted mid now inp v txt peer s)"
  by (auto simp: send_accepted_def dispatch_send_def send_from_draft_def perform_send_def
      clear_sent_drafts_def Let_def split: option.splits)

lemma op_ok_send: "inbox_ok s \<Longrightarrow> op_ok (send_message mid now inp s)"
  by (simp add: send_message_def Let_def op_ok_send_accepted split: option.splits)

lemma op_ok_retry: "inbox_ok s \<Longrightarrow> op_ok (retry_send key mid s)"
  by (simp add: retry_send_def perform_send_def Let_def split: option.splits)

lemma op_ok_accept: "inbox_ok s \<Longrightarrow> op_ok (accept_request cid s)"
  by (auto simp: accept_request_def Let_def case_prod_beta inbox_ok_requests inbox_okD)

lemma op_ok_decline: "inbox_ok s \<Longrightarrow> op_ok (decline_request cid s)"
  by (auto simp: decline_request_def Let_def case_prod_beta inbox_ok_requests inbox_okD)

lemma op_ok_mark_read: "inbox_ok s \<Longrightarrow> op_ok (mark_read cid now s)"
  by (auto simp: mark_read_def Let_def split: option.splits)

lemma op_ok_ingest: "inbox_ok s \<Longrightarrow> op_ok (ingest_message vis cid m s)"
  by (auto simp: ingest_message_def Let_def inbox_ok_note_last split: option.splits)

lemma op_ok_perform: "inbox_ok s \<Longrightarrow> op_ok (perform a s)"
proof (cases a)
  case (A_ingest vis ev)
  then show "inbox_ok s \<Longrightarrow> op_ok (perform a s)"
    by (cases ev) (auto simp: ingest_event_def op_ok_ingest)
next
  case (A_set_viewer v)
  then show "inbox_ok s \<Longrightarrow> op_ok (perform a s)"
    by (auto simp: set_viewer_def with_initial_data_def empty_inbox_def inbox_ok_def)
next
  case A_reset
  then show ?thesis by (auto simp: reset_store_def with_initial_data_def empty_inbox_def inbox_ok_def)
qed (auto simp: op_ok_load_inbox op_ok_load_latest op_ok_poll op_ok_threads op_ok_ensure op_ok_send
    op_ok_retry op_ok_accept op_ok_decline op_ok_mark_read load_more_inbox_def
    find_direct_conversation_def jump_to_message_def seed_from_search_hit_def discard_failed_def
    toggle_message_reaction_def delete_message_def set_reactions_def set_deleted_def mark_unread_def
    set_reply_target_def set_draft_def restore_draft_def set_focused_conversation_def
    set_realtime_connected_def set_availability_def Let_def inbox_ok_patch_same split: option.splits)

lemma op_ok_inbox_done:
  assumes "inbox_ok s" "\<And>pg. r = Inr pg \<Longrightarrow> distinct (map conversation_id (ir_items pg))"
  shows "op_ok (load_inbox_done seg r s)" "op_ok (load_more_inbox_done seg r s)"
  using assms by (auto simp: load_inbox_done_def load_more_inbox_done_def case_prod_beta empty_inbox_def
      inbox_ok_page inbox_ok_patch_same inbox_ok_patch op_ok_load_inbox split: sum.splits)

lemma op_ok_ensure_done: "inbox_ok s \<Longrightarrow> op_ok (ensure_conversation_done cid m r s)"
  by (auto simp: ensure_conversation_done_def inbox_ok_note_last split: option.splits sum.splits prod.splits)

lemma inbox_send_done [simp]:
  "inbox_ok (apply_send_success key rq echo s) = inbox_ok s"
  "inbox_ok (apply_send_failure key rq e s) = inbox_ok s"
  by (auto simp: apply_send_success_def apply_send_failure_def inbox_ok_def Let_def split: option.splits)

lemma op_ok_perform_send_done: "inbox_ok s \<Longrightarrow> op_ok (perform_send_done key rq ch r s)"
  by (cases r) (auto simp: perform_send_done_def Let_def ensure_conversation_def inbox_ok_note_last
      split: option.splits)

lemma op_ok_thread_done:
  "inbox_ok s \<Longrightarrow> op_ok (load_latest_done cid x s)" "inbox_ok s \<Longrightarrow> op_ok (load_older_done cid x s)"
  "inbox_ok s \<Longrightarrow> op_ok (load_newer_done cid x s)" "inbox_ok s \<Longrightarrow> op_ok (jump_to_message_done cid mid x s)"
  "inbox_ok s \<Longrightarrow> op_ok (poll_recent_done cid y s)"
  by (auto simp: load_latest_done_def load_older_done_def load_newer_done_def jump_to_message_done_def
      poll_recent_done_def apply_recent_def reload_thread_from_start_def reset_thread_window_def Let_def
      op_ok_load_latest op_ok_poll inbox_ok_note_last split: sum.splits option.splits)

lemma op_ok_request_done:
  "inbox_ok s \<Longrightarrow> distinct ids \<Longrightarrow> op_ok (accept_request_done cid ids b x s)"
  "inbox_ok s \<Longrightarrow> distinct ids \<Longrightarrow> op_ok (decline_request_done ids x s)"
  by (auto simp: accept_request_done_def decline_request_done_def Let_def load_inbox_def
      inbox_ok_requests inbox_ok_patch_same split: sum.splits option.splits)

lemma op_ok_other_done:
  "inbox_ok s \<Longrightarrow> op_ok (find_direct_conversation_done c s)"
  "inbox_ok s \<Longrightarrow> op_ok (toggle_message_reaction_done cid mid snap x s)"
  "inbox_ok s \<Longrightarrow> op_ok (delete_message_done cid mid b x s)"
  "inbox_ok s \<Longrightarrow> op_ok (mark_read_done x s)"
  "inbox_ok s \<Longrightarrow> op_ok (mark_unread_done cid x s)"
  "inbox_ok s \<Longrightarrow> op_ok (peer_read_done cid c s)"
  by (auto simp: find_direct_conversation_done_def toggle_message_reaction_done_def delete_message_done_def
      mark_read_done_def mark_unread_done_def peer_read_done_def set_reactions_def set_deleted_def
      split: sum.splits)

lemma as_inbox_okD:
  "as_inbox r = Some (Inr pg) \<Longrightarrow> server_ok r \<Longrightarrow> distinct (map conversation_id (ir_items pg))"
  by (cases r) auto

lemma op_ok_settle:
  "inbox_ok s \<Longrightarrow> captured_ok p \<Longrightarrow> server_ok r \<Longrightarrow> settle p r s = Some y \<Longrightarrow> op_ok y"
  by (cases p) (auto intro: op_ok_inbox_done op_ok_ensure_done op_ok_perform_send_done op_ok_thread_done
      op_ok_request_done op_ok_other_done dest: as_inbox_okD)

lemma op_ok_resume: "inbox_ok s \<Longrightarrow> op_ok (resume_draft_send dk rq n v s)"
  by (auto simp: resume_draft_send_def perform_send_def Let_def split: option.splits)

lemma list_all_remove1: "list_all f xs \<Longrightarrow> list_all f (remove1 x xs)"
  by (metis list_all_iff notin_set_remove1)

lemma inbox_sys_ok_step: "sys_step x y \<Longrightarrow> inbox_sys_ok x \<Longrightarrow> inbox_sys_ok y"
proof (induction rule: sys_step.induct)
  case (step_act a s s' new out P)
  then show ?case using op_ok_perform[of s a] by (simp add: inbox_sys_ok_def)
next
  case (step_settle p P r s s' new out)
  then have "captured_ok p" by (auto simp: inbox_sys_ok_def list_all_iff)
  then show ?case using step_settle op_ok_settle[of s p r] by (auto simp: inbox_sys_ok_def list_all_remove1)
next
  case (step_wake dk rq prev n P s v s' new out)
  then show ?case using op_ok_resume[of s dk rq n v] by (auto simp: inbox_sys_ok_def list_all_remove1)
qed

lemma sys_reachable_inbox_ok: "sys_reachable x \<Longrightarrow> inbox_sys_ok x"
proof (induction rule: sys_reachable.induct)
  case (sys_init st)
  then show ?case by (simp add: inbox_sys_ok_def inbox_ok_def initial_store_def empty_inbox_def)
next
  case (sys_next x y)
  then show ?case by (blast intro: inbox_sys_ok_step)
qed

text \<open>
  In every reachable state, with any calls in flight and in any order of their answers (refreshes,
  further pages, promoted conversations, requests rolled back), neither inbox list names a conversation
  twice.
\<close>

theorem reachable_inbox_distinct:
  "sys_reachable (s, P) \<Longrightarrow> distinct (ib_ids (inbox s seg))"
  using sys_reachable_inbox_ok[of "(s, P)"] by (simp add: inbox_sys_ok_def inbox_ok_def)

definition with_inbox :: sys where
  "with_inbox = the (run [Do (A_set_viewer (Some alice)), Do (A_load_inbox Seg_default),
     Answer 0 (an_inbox [a_conversation ''c'', a_conversation ''d''])] (initial_store None, []))"

lemma with_inbox_reachable: "sys_reachable (fst with_inbox, snd with_inbox)"
proof -
  have "run [Do (A_set_viewer (Some alice)), Do (A_load_inbox Seg_default),
     Answer 0 (an_inbox [a_conversation ''c'', a_conversation ''d''])] (initial_store None, []) \<noteq> None"
    by code_simp
  then show ?thesis using run_initial unfolding with_inbox_def by fastforce
qed

theorem reachable_inbox_distinct_witness:
  "ib_ids (inbox (fst with_inbox) Seg_default) = [''c'', ''d''] \<and>
   distinct (ib_ids (inbox (fst with_inbox) Seg_default))"
proof
  show "ib_ids (inbox (fst with_inbox) Seg_default) = [''c'', ''d'']" by code_simp
  show "distinct (ib_ids (inbox (fst with_inbox) Seg_default))"
    using reachable_inbox_distinct[OF with_inbox_reachable] .
qed

subsection \<open>The badge\<close>

definition badge_ok :: "mstate \<Rightarrow> bool" where
  "badge_ok s \<longleftrightarrow> unread_total s = compute_unread_total (ib_ids (inbox s Seg_default)) (conversations s)"

lemma compute_unread_total_sum: "compute_unread_total ids cs = (\<Sum>i\<leftarrow>ids. unread_weight (cs i))"
proof -
  have "foldl (\<lambda>total i. total + unread_weight (cs i)) a ids = a + (\<Sum>i\<leftarrow>ids. unread_weight (cs i))" for a
    by (induction ids arbitrary: a) auto
  then show ?thesis by (simp add: compute_unread_total_def)
qed

lemma compute_unread_total_perm:
  "mset ids = mset ids' \<Longrightarrow> compute_unread_total ids cs = compute_unread_total ids' cs"
  unfolding compute_unread_total_sum by (metis mset_map sum_mset_sum_list)

lemma compute_unread_total_update:
  assumes "distinct ids" "i \<in> set ids"
  shows "compute_unread_total ids (cs(i := x)) =
    compute_unread_total ids cs - unread_weight (cs i) + unread_weight x"
proof -
  have f: "(\<Sum>j\<leftarrow>ids. unread_weight (f j)) = (\<Sum>j\<in>set ids. unread_weight (f j))" for f
    using assms(1) by (rule sum_list_distinct_conv_sum_set)
  have "(\<Sum>j\<in>set ids. unread_weight ((cs(i := x)) j)) =
      unread_weight x + (\<Sum>j\<in>set ids - {i}. unread_weight (cs j))"
    using assms(2) by (subst sum.remove[of _ i]) (auto intro!: sum.cong)
  moreover have "(\<Sum>j\<in>set ids. unread_weight (cs j)) =
      unread_weight (cs i) + (\<Sum>j\<in>set ids - {i}. unread_weight (cs j))"
    using assms(2) by (subst sum.remove[of _ i]) auto
  ultimately show ?thesis unfolding compute_unread_total_sum f by simp
qed

text \<open>
  A message from someone else to a listed conversation that is not on screen: the conversation
  becomes the most recent of the unpinned ones, its last message and unread count are updated, and the
  badge, if it was right, is right again: one more, or unchanged for a muted conversation and for one
  that already counted through its manual unread mark.
\<close>

theorem ingest_updates_badge:
  assumes "sys_reachable (s, P)" "badge_ok s" "conversations s cid = Some c"
    "cid \<in> set (ib_ids (inbox s Seg_default))" "category c \<noteq> CRequest" "0 \<le> unread_count c"
    "m_conversation_id m = cid"
    "\<And>l. last_message c = Some l \<Longrightarrow> sent_at l \<le> sent_at m \<and> message_id l \<noteq> message_id m"
    "Some (u_fid (sender m)) \<noteq> viewer_fid s" "focused_conversation_id s \<noteq> Some cid"
  shows "\<exists>s'. ingest_event vis (Ev_message cid m) s = (s', [], Out_bool False) \<and>
    conversations s' = (conversations s)(cid \<mapsto>
      c\<lparr>last_message := Some m, unread_count := unread_count c + 1\<rparr>) \<and>
    ib_ids (inbox s' Seg_default) =
      promote (ib_ids (inbox s Seg_default)) cid (conversations s') \<and>
    unread_total s' = unread_total s +
      (if muted c \<or> (unread_count c = 0 \<and> manually_marked_unread c) then 0 else 1) \<and>
    badge_ok s'"
proof -
  let ?ids = "ib_ids (inbox s Seg_default)"
  let ?c = "c\<lparr>last_message := Some m, unread_count := unread_count c + 1\<rparr>"
  have d: "distinct ?ids" using reachable_inbox_distinct[OF assms(1)] .
  have newer: "(case last_message c of None \<Rightarrow> True | Some l \<Rightarrow> sent_at l \<le> sent_at m)"
    and not_last: "\<not> (case last_message c of None \<Rightarrow> False | Some l \<Rightarrow> message_id l = message_id m)"
    using assms(8) by (auto split: option.splits)
  obtain s1 where s1: "conversations s1 = conversations s" "inbox s1 = inbox s" "unread_total s1 = unread_total s"
    "ingest_event vis (Ev_message cid m) s = (note_last_message m True s1, [], Out_bool False)"
  proof
    let ?s1 = "(case threads s cid of None \<Rightarrow> s | Some t \<Rightarrow>
        if has_newer t then patch_thread cid (\<lambda>u. u\<lparr>newer_while_detached := newer_while_detached t + 1\<rparr>) s
        else (let ms = merge_messages (t_messages t) [m]
              in if ms \<noteq> t_messages t then patch_thread cid (\<lambda>u. u\<lparr>t_messages := ms\<rparr>) s else s))"
    show "conversations ?s1 = conversations s" "inbox ?s1 = inbox s" "unread_total ?s1 = unread_total s"
      by (auto simp: Let_def patch_thread_def put_thread_def split: option.splits)
    show "ingest_event vis (Ev_message cid m) s = (note_last_message m True ?s1, [], Out_bool False)"
      using assms by (simp add: ingest_event_def ingest_message_def Let_def)
  qed
  let ?cs = "(conversations s)(cid \<mapsto> ?c)"
  let ?s' = "note_last_message m True s1"
  have c: "conversations ?s' = ?cs" "ib_ids (inbox ?s' Seg_default) = promote ?ids cid ?cs"
    "unread_total ?s' = compute_unread_total ?ids ?cs"
    using assms newer not_last s1(1-3)
    by (simp_all add: note_last_message_def patch_conversation_def patch_inbox_def segment_of_def Let_def)
  have t: "compute_unread_total ?ids ?cs = unread_total s +
      (if muted c \<or> (unread_count c = 0 \<and> manually_marked_unread c) then 0 else 1)"
    using assms(2,3,6) compute_unread_total_update[OF d assms(4)] by (auto simp: badge_ok_def)
  have "badge_ok ?s'"
    using compute_unread_total_perm[OF mset_promote[OF d assms(4)]] by (simp add: badge_ok_def c)
  then show ?thesis using s1(4) c t by auto
qed

theorem ingest_updates_badge_witness:
  "\<exists>s'. ingest_event True (Ev_message ''d'' (a_message ''m'' ''d'' bob 7)) (fst with_inbox) = (s', [], Out_bool False) \<and>
    unread_total s' = 1 \<and> badge_ok s'"
proof -
  let ?m = "a_message ''m'' ''d'' bob 7"
  have b: "badge_ok (fst with_inbox)"
    "conversations (fst with_inbox) ''d'' = Some (a_conversation ''d'')"
    "''d'' \<in> set (ib_ids (inbox (fst with_inbox) Seg_default))"
    "category (a_conversation ''d'') \<noteq> CRequest" "0 \<le> unread_count (a_conversation ''d'')"
    "m_conversation_id ?m = ''d''"
    by code_simp+
  have l: "last_message (a_conversation ''d'') = Some l \<Longrightarrow> sent_at l \<le> sent_at ?m \<and> message_id l \<noteq> message_id ?m" for l
    by (simp add: a_conversation_def)
  have f: "Some (u_fid (sender ?m)) \<noteq> viewer_fid (fst with_inbox)"
    "focused_conversation_id (fst with_inbox) \<noteq> Some ''d''" by code_simp+
  have "unread_total (fst with_inbox) = 0" by code_simp
  then show ?thesis
    using ingest_updates_badge[OF with_inbox_reachable b l f] by (auto simp: a_conversation_def)
qed

text \<open>
  The badge is computed before a conversation joins the list, so the first unread message of a
  conversation the store knows but has not listed leaves the badge short.
\<close>

definition unlisted_run :: "move list" where
  "unlisted_run = [Do (A_set_viewer (Some alice)), Do (A_load_inbox Seg_default),
     Answer 0 (an_inbox []), Do (A_ensure ''c''), Answer 0 (R_conv (a_conversation ''c'')),
     Do (A_ingest True (Ev_message ''c'' (a_message ''m'' ''c'' bob 7)))]"

text \<open>
  The unread badge can be stale: after a message arrives for a conversation that was known but not
  yet listed, the conversation is listed with one unread message and the badge still shows zero.
\<close>

theorem badge_misses_promoted:
  "\<exists>s P. run unlisted_run (initial_store None, []) = Some (s, P) \<and>
     ib_ids (inbox s Seg_default) = [''c''] \<and>
     map_option unread_count (conversations s ''c'') = Some 1 \<and>
     unread_total s = 0 \<and> compute_unread_total (ib_ids (inbox s Seg_default)) (conversations s) = 1"
proof -
  have "map_option (\<lambda>(s, P). (ib_ids (inbox s Seg_default), map_option unread_count (conversations s ''c''),
      unread_total s, compute_unread_total (ib_ids (inbox s Seg_default)) (conversations s)))
      (run unlisted_run (initial_store None, [])) = Some ([''c''], Some 1, 0, 1)"
    by code_simp
  then show ?thesis by auto
qed

end
