(* ===== verification/Message_Accounts.thy ===== *)
theory Message_Accounts
  imports Message_Inbox
begin

section \<open>Switching accounts\<close>

text \<open>
  What \<^verbatim>\<open>setViewer\<close> guarantees about the previous account's data, and the two ways in which a
  call left in flight still reaches the next account.
\<close>

text \<open>
  Switching to another account leaves nothing of the previous one in the store: the state is that
  of a fresh store with the new viewer, apart from the numbering of send chains, and a composer can
  only be filled from a draft saved under the new account's own id.
\<close>

theorem switch_clears_store:
  assumes "viewer_fid s \<noteq> Some (u_fid v)" "perform (A_set_viewer (Some v)) s = (s', calls, out)"
  shows "calls = [] \<and>
    s' = (initial_store (local_storage s))\<lparr>viewer := Some v, chain_values := chain_values s,
           next_chain := next_chain s\<rparr> \<and>
    drafts (restore_draft key s') key =
      (let saved = load_persisted_draft (u_fid v) key (local_storage s)
       in if key \<noteq> [] \<and> saved \<noteq> [] then Some saved else None)"
proof -
  have s': "calls = []" "s' = (initial_store (local_storage s))\<lparr>viewer := Some v,
      chain_values := chain_values s, next_chain := next_chain s\<rparr>"
    using assms by (auto simp: set_viewer_def with_initial_data_def initial_store_def)
  then show ?thesis
    by (simp add: restore_draft_def initial_store_def viewer_fid_def truthy_def Let_def)
qed

theorem switch_clears_store_witness:
  "\<exists>s'. perform (A_set_viewer (Some bob)) (fst opened) = (s', [], Out_void) \<and>
     loaded_messages (fst opened) ''c'' \<noteq> [] \<and> threads s' = Map.empty"
proof -
  obtain s' calls out where p: "perform (A_set_viewer (Some bob)) (fst opened) = (s', calls, out)"
    by (metis prod_cases3)
  have "viewer_fid (fst opened) \<noteq> Some (u_fid bob)" "loaded_messages (fst opened) ''c'' \<noteq> []" by code_simp+
  then show ?thesis using switch_clears_store[OF _ p, of "[]"] p by (auto simp: initial_store_def)
qed

text \<open>
  A page that was requested by one account and arrives after a switch is stored for the next one:
  the thread Alice opened appears in the store of Bob.
\<close>

theorem stale_page_after_switch:
  "\<exists>s P. run [Do (A_set_viewer (Some alice)), Do (A_load_latest ''c''), Do (A_set_viewer (Some bob)),
       Answer 0 (a_page [a_message ''m1'' ''c'' alice 10])] (initial_store None, []) = Some (s, P) \<and>
     viewer s = Some bob \<and> map message_id (loaded_messages s ''c'') = [''m1'']"
proof -
  have "map_option (\<lambda>(s, P). (viewer s, map message_id (loaded_messages s ''c'')))
     (run [Do (A_set_viewer (Some alice)), Do (A_load_latest ''c''), Do (A_set_viewer (Some bob)),
       Answer 0 (a_page [a_message ''m1'' ''c'' alice 10])] (initial_store None, [])) = Some (Some bob, [''m1''])"
    by code_simp
  then show ?thesis by auto
qed

text \<open>
  The echo of a first message that arrives after a switch also records the conversation it opened:
  Bob's own first message to the same peer is then addressed to Alice's conversation instead of
  to the peer.
\<close>

theorem stale_echo_redirects_send:
  "\<exists>s P rq. run [Do (A_set_viewer (Some alice)), Do (A_send ''m1'' 5 (a_send None (Some 3))),
       Do (A_set_viewer (Some bob)), Answer 0 (R_msg (a_message ''m1'' ''alice-3'' alice 6)),
       Do (A_send ''m2'' 7 (a_send None (Some 3)))] (initial_store None, []) = Some (s, P) \<and>
     viewer s = Some bob \<and> P_send ''alice-3'' rq None \<in> set P \<and>
     sr_message_id rq = ''m2'' \<and> sr_conversation_id rq = Some ''alice-3'' \<and> sr_recipient_fids rq = []"
proof -
  let ?rq = "\<lparr>sr_conversation_id = Some ''alice-3'', sr_recipient_fids = [], sr_message_id = ''m2'',
     sr_text = ''hello'', sr_in_reply_to_id = None, sr_process_metadata = None\<rparr>"
  have "map_option (\<lambda>(s, P). (viewer s, P_send ''alice-3'' ?rq None \<in> set P))
     (run [Do (A_set_viewer (Some alice)), Do (A_send ''m1'' 5 (a_send None (Some 3))),
       Do (A_set_viewer (Some bob)), Answer 0 (R_msg (a_message ''m1'' ''alice-3'' alice 6)),
       Do (A_send ''m2'' 7 (a_send None (Some 3)))] (initial_store None, [])) = Some (Some bob, True)"
    by code_simp
  then obtain s P where "run [Do (A_set_viewer (Some alice)), Do (A_send ''m1'' 5 (a_send None (Some 3))),
       Do (A_set_viewer (Some bob)), Answer 0 (R_msg (a_message ''m1'' ''alice-3'' alice 6)),
       Do (A_send ''m2'' 7 (a_send None (Some 3)))] (initial_store None, []) = Some (s, P)"
    "viewer s = Some bob" "P_send ''alice-3'' ?rq None \<in> set P"
    by auto
  then show ?thesis by (intro exI[of _ s] exI[of _ P] exI[of _ ?rq]) simp
qed

end
