(* ===== verification/Message_Chains.thy ===== *)
theory Message_Chains
  imports Message_Accounts
begin

section \<open>First messages to a peer go out one at a time\<close>

text \<open>
  Sends to a peer without a conversation are chained, so that the first one creates the
  conversation and the later ones use it. A chain tag of a call in flight is its peer key, its
  place in the numbering and, while it waits, the place of the send it waits for.
  \<open>session_reachable\<close> are the runs in which the account is not switched while such a send
  is in flight (a switch clears the chains, not the calls).
\<close>

fun chain_tag :: "pending \<Rightarrow> (jstr \<times> nat \<times> nat option) list" where
  "chain_tag (P_send key rq ch) = (case ch of None \<Rightarrow> [] | Some (dk, n) \<Rightarrow> [(dk, n, None)])"
| "chain_tag (P_wait dk rq prev n) = [(dk, n, Some prev)]"
| "chain_tag _ = []"

definition chain_tags :: "pending list \<Rightarrow> (jstr \<times> nat \<times> nat option) list" where
  "chain_tags P = concat (map chain_tag P)"

lemma chain_tags_simps [simp]:
  "chain_tags [] = []" "chain_tags (p # P) = chain_tag p @ chain_tags P"
  "chain_tags (P @ Q) = chain_tags P @ chain_tags Q"
  by (simp_all add: chain_tags_def)

lemma mset_chain_tags_remove1:
  "p \<in> set P \<Longrightarrow> mset (chain_tags P) = mset (chain_tag p) + mset (chain_tags (remove1 p P))"
  by (induction P) auto

fun keeps_account :: "user_action \<Rightarrow> mstate \<Rightarrow> bool" where
  "keeps_account (A_set_viewer v) s = (map_option u_fid v = viewer_fid s)"
| "keeps_account A_reset s = False"
| "keeps_account _ s = True"

inductive session_reachable :: "sys \<Rightarrow> bool" where
  ses_init: "session_reachable (initial_store st, [])"
| ses_act: "session_reachable (s, P) \<Longrightarrow> action_ok a \<Longrightarrow> keeps_account a s \<or> chain_tags P = [] \<Longrightarrow>
     perform a s = (s', new, out) \<Longrightarrow> session_reachable (s', P @ new)"
| ses_settle: "session_reachable (s, P) \<Longrightarrow> p \<in> set P \<Longrightarrow> server_ok r \<Longrightarrow>
     settle p r s = Some (s', new, out) \<Longrightarrow> session_reachable (s', remove1 p P @ new)"
| ses_wake: "session_reachable (s, P) \<Longrightarrow> P_wait dk rq prev n \<in> set P \<Longrightarrow> chain_values s prev = Some v \<Longrightarrow>
     resume_draft_send dk rq n v s = (s', new, out) \<Longrightarrow>
     session_reachable (s', remove1 (P_wait dk rq prev n) P @ new)"

subsection \<open>Operations that leave the chains alone\<close>

definition quiet :: "mstate \<Rightarrow> mstate \<Rightarrow> bool" where
  "quiet s s' \<longleftrightarrow> draft_send_chains s' = draft_send_chains s \<and> chain_values s' = chain_values s \<and>
     next_chain s' = next_chain s \<and> resolved_drafts s' = resolved_drafts s"

lemma quiet_refl [simp]: "quiet s s"
  by (simp add: quiet_def)

lemma quiet_fields [simp]:
  "quiet s (s'\<lparr>availability := x0\<rparr>) = quiet s s'"
  "quiet s (s'\<lparr>conversations := x1\<rparr>) = quiet s s'"
  "quiet s (s'\<lparr>inbox := x2\<rparr>) = quiet s s'"
  "quiet s (s'\<lparr>requests_count := x3\<rparr>) = quiet s s'"
  "quiet s (s'\<lparr>has_unread_requests := x4\<rparr>) = quiet s s'"
  "quiet s (s'\<lparr>unread_total := x5\<rparr>) = quiet s s'"
  "quiet s (s'\<lparr>threads := y5\<rparr>) = quiet s s'"
  "quiet s (s'\<lparr>reply_targets := x6\<rparr>) = quiet s s'"
  "quiet s (s'\<lparr>drafts := x7\<rparr>) = quiet s s'"
  "quiet s (s'\<lparr>pending_sends := x8\<rparr>) = quiet s s'"
  "quiet s (s'\<lparr>send_errors := x9\<rparr>) = quiet s s'"
  "quiet s (s'\<lparr>focused_conversation_id := x10\<rparr>) = quiet s s'"
  "quiet s (s'\<lparr>realtime_connected := x11\<rparr>) = quiet s s'"
  "quiet s (s'\<lparr>missing_conversations := x12\<rparr>) = quiet s s'"
  "quiet s (s'\<lparr>read_marks := x13\<rparr>) = quiet s s'"
  "quiet s (s'\<lparr>local_storage := x18\<rparr>) = quiet s s'"
  "quiet s (s'\<lparr>viewer := x19\<rparr>) = quiet s s'"
  by (simp_all add: quiet_def)

lemma quiet_ops [simp]:
  "quiet s (put_thread cid t s') = quiet s s'"
  "quiet s (note_not_found cid s') = quiet s s'"
  "quiet s (fst (note_availability_error e s')) = quiet s s'"
  "quiet s (patch_thread cid f s') = quiet s s'"
  "quiet s (patch_inbox seg g s') = quiet s s'"
  "quiet s (snd (remove_from_requests cid s')) = quiet s s'"
  "quiet s (restore_requests ids s') = quiet s s'"
  "quiet s (update_loaded_message cid mid u s') = quiet s s'"
  "quiet s (patch_conversation cid h s') = quiet s s'"
  "quiet s (apply_inbox_page seg pg b s') = quiet s s'"
  "quiet s (apply_send_success key rq echo s') = quiet s s'"
  "quiet s (apply_send_failure key rq e s') = quiet s s'"
  "quiet s (put_optimistic key dk rq m s') = quiet s s'"
  "quiet s (clear_sent_drafts fid key dk s') = quiet s s'"
  by (auto simp: put_thread_def note_not_found_def note_availability_error_def patch_thread_def
      patch_inbox_def remove_from_requests_def restore_requests_def update_loaded_message_def
      patch_conversation_def apply_inbox_page_def apply_send_success_def apply_send_failure_def
      put_optimistic_def clear_sent_drafts_def Let_def split: option.splits)

lemma quiet_note_last [simp]: "quiet s (note_last_message m b s') = quiet s s'"
  by (auto simp: note_last_message_def Let_def split: option.splits)

text \<open>The result of an operation that is quiet and starts no send.\<close>

fun no_send :: "pending \<Rightarrow> bool" where
  "no_send (P_send key rq ch) = False"
| "no_send (P_wait dk rq prev n) = False"
| "no_send _ = True"

lemma no_send_tags: "list_all no_send new \<Longrightarrow> chain_tags new = []"
proof (induction new)
  case (Cons p new)
  then show ?case by (cases p) auto
qed simp

definition quiet_act :: "mstate \<Rightarrow> act \<Rightarrow> bool" where
  "quiet_act s y \<longleftrightarrow> quiet s (fst y) \<and> list_all no_send (fst (snd y))"

lemma quiet_actI [simp]: "quiet_act s (s', new, out) = (quiet s s' \<and> list_all no_send new)"
  by (simp add: quiet_act_def)

lemma quiet_act_loads [simp]:
  "quiet s s' \<Longrightarrow> quiet_act s (load_inbox seg s')"
  "quiet s s' \<Longrightarrow> quiet_act s (load_latest cid s')"
  "quiet s s' \<Longrightarrow> quiet_act s (poll_recent cid s')"
  "quiet s s' \<Longrightarrow> quiet_act s (ensure_conversation cid m s')"
  by (auto simp: load_inbox_def load_latest_def poll_recent_def ensure_conversation_def Let_def
      split: option.splits)

lemma quiet_act_threads [simp]:
  "quiet s s' \<Longrightarrow> quiet_act s (load_older cid s')" "quiet s s' \<Longrightarrow> quiet_act s (load_newer cid s')"
  by (auto simp: load_older_def load_newer_def split: option.splits)

lemma quiet_retry:
  "quiet s (fst (retry_send key mid s)) \<and> chain_tags (fst (snd (retry_send key mid s))) = []"
  by (simp add: retry_send_def perform_send_def Let_def split: option.splits)

lemma quiet_act_mark_read: "quiet_act s (mark_read cid now s)"
  by (auto simp: mark_read_def Let_def split: option.splits)

lemma quiet_act_ingest: "quiet_act s (ingest_event vis ev s)"
  by (cases ev) (auto simp: ingest_event_def ingest_message_def Let_def split: option.splits)

lemma quiet_perform:
  "keeps_account a s \<Longrightarrow> \<forall>mid now inp. a \<noteq> A_send mid now inp \<Longrightarrow> \<forall>key mid. a \<noteq> A_retry key mid \<Longrightarrow>
   quiet_act s (perform a s)"
  by (cases a) (auto simp: quiet_act_mark_read quiet_act_ingest set_viewer_def
    load_more_inbox_def find_direct_conversation_def jump_to_message_def seed_from_search_hit_def
    accept_request_def decline_request_def discard_failed_def case_prod_beta
    toggle_message_reaction_def delete_message_def set_reactions_def set_deleted_def mark_unread_def
    set_reply_target_def set_draft_def restore_draft_def set_focused_conversation_def
    set_realtime_connected_def set_availability_def Let_def split: option.splits)

lemma perform_send_done_parts:
  obtains s1 res new where "perform_send_done key rq ch r s = (settle_chain ch res s1, new, Out_send res)"
    "quiet s s1" "list_all no_send new"
proof (cases r)
  case (Inl e)
  then show thesis using that by (simp add: perform_send_done_def Let_def)
next
  case (Inr echo)
  define m where "m = (case Option.bind (threads (apply_send_success key rq echo s) (m_conversation_id echo))
    (\<lambda>t. find (\<lambda>m. message_id m = sr_message_id rq) (t_messages t)) of Some m \<Rightarrow> m | None \<Rightarrow> echo)"
  show thesis
  proof (cases "conversations (apply_send_success key rq echo s) (m_conversation_id echo)")
    case None
    show thesis
      by (rule that) (use None Inr in \<open>auto simp: perform_send_done_def Let_def ensure_conversation_def simp flip: m_def\<close>)
  next
    case (Some c)
    show thesis
      by (rule that) (use Some Inr in \<open>auto simp: perform_send_done_def Let_def simp flip: m_def\<close>)
  qed
qed

lemma quiet_act_reload [simp]: "quiet_act s (reload_thread_from_start cid s)"
  by (simp add: reload_thread_from_start_def reset_thread_window_def)

lemma quiet_act_done:
  "quiet_act s (load_inbox_done seg x1 s)" "quiet_act s (load_more_inbox_done seg x1 s)"
  "quiet_act s (ensure_conversation_done cid m x2 s)" "quiet_act s (find_direct_conversation_done x2 s)"
  "quiet_act s (peer_read_done cid x2 s)" "quiet_act s (load_latest_done cid x3 s)"
  "quiet_act s (load_older_done cid x3 s)" "quiet_act s (load_newer_done cid x3 s)"
  "quiet_act s (jump_to_message_done cid mid x3 s)" "quiet_act s (poll_recent_done cid x4 s)"
  "quiet_act s (accept_request_done cid ids b x5 s)" "quiet_act s (decline_request_done ids x5 s)"
  "quiet_act s (toggle_message_reaction_done cid mid snap x5 s)" "quiet_act s (delete_message_done cid mid b0 x5 s)"
  "quiet_act s (mark_read_done x5 s)" "quiet_act s (mark_unread_done cid x5 s)"
  by (auto simp: load_inbox_done_def load_more_inbox_done_def ensure_conversation_done_def case_prod_beta
    find_direct_conversation_done_def load_latest_done_def load_older_done_def load_newer_done_def
    poll_recent_done_def apply_recent_def jump_to_message_done_def accept_request_done_def
    decline_request_done_def toggle_message_reaction_done_def delete_message_done_def mark_read_done_def
    mark_unread_done_def peer_read_done_def set_reactions_def set_deleted_def Let_def load_inbox_def
    split: sum.splits option.splits)

lemma quiet_settle_plain:
  "settle p r s = Some y \<Longrightarrow> chain_tag p = [] \<Longrightarrow> quiet_act s y"
proof (cases p)
  case (P_send key rq ch)
  moreover assume "settle p r s = Some y" "chain_tag p = []"
  moreover obtain s1 res new where sd: "perform_send_done key rq ch (the (as_msg r)) s =
      (settle_chain ch res s1, new, Out_send res)" "quiet s s1" "list_all no_send new"
    by (rule perform_send_done_parts)
  ultimately have "y = (settle_chain ch res s1, new, Out_send res)" "ch = None"
    by (auto split: option.splits)
  then show ?thesis using sd by (simp add: settle_chain_def)
qed (auto simp: quiet_act_done)

text \<open>The chain update of a chained send that settles.\<close>

definition chain_settled :: "jstr \<Rightarrow> nat \<Rightarrow> mstate \<Rightarrow> mstate \<Rightarrow> bool" where
  "chain_settled dk n s s' \<longleftrightarrow>
     (\<exists>v. chain_values s' = (chain_values s)(n \<mapsto> v)) \<and> next_chain s' = next_chain s \<and>
     draft_send_chains s' = (if draft_send_chains s dk = Some n
       then without_key dk (draft_send_chains s) else draft_send_chains s) \<and>
     (resolved_drafts s' = resolved_drafts s \<or>
      (\<exists>c. truthy c \<and> resolved_drafts s' = (resolved_drafts s)(dk := c)))"

lemma settle_chain_settled: "quiet s s1 \<Longrightarrow> chain_settled dk n s (settle_chain (Some (dk, n)) res s1)"
  by (auto simp: settle_chain_def Let_def chain_settled_def quiet_def)

lemma settle_chained:
  assumes "settle (P_send key rq (Some (dk, n))) r s = Some y"
  shows "chain_settled dk n s (fst y) \<and> list_all no_send (fst (snd y))"
proof -
  obtain s1 res new where "perform_send_done key rq (Some (dk, n)) (the (as_msg r)) s =
      (settle_chain (Some (dk, n)) res s1, new, Out_send res)" "quiet s s1" "list_all no_send new"
    by (rule perform_send_done_parts)
  then show ?thesis using assms by (auto simp: settle_chain_settled)
qed

subsection \<open>The invariant of the chains\<close>

definition tags_fresh :: "(nat \<rightharpoonup> 'v) \<Rightarrow> nat \<Rightarrow> (jstr \<times> nat \<times> nat option) list \<Rightarrow> bool" where
  "tags_fresh V N T \<longleftrightarrow> distinct (map (\<lambda>(dk, n, x). n) T) \<and> (\<forall>n \<ge> N. V n = None) \<and>
     (\<forall>dk n x. (dk, n, x) \<in> set T \<longrightarrow> n < N \<and> V n = None)"

definition tags_linked :: "(nat \<rightharpoonup> 'v) \<Rightarrow> (jstr \<times> nat \<times> nat option) set \<Rightarrow> bool" where
  "tags_linked V T \<longleftrightarrow>
     (\<forall>dk n p. (dk, n, Some p) \<in> T \<longrightarrow> p < n \<and> (V p \<noteq> None \<or> (\<exists>y. (dk, p, y) \<in> T)))"

definition tags_ordered :: "(nat \<rightharpoonup> 'v) \<Rightarrow> (jstr \<times> nat \<times> nat option) set \<Rightarrow> bool" where
  "tags_ordered V T \<longleftrightarrow>
     (\<forall>dk n x k y. (dk, n, x) \<in> T \<longrightarrow> (dk, k, y) \<in> T \<longrightarrow> k < n \<longrightarrow>
        (\<exists>p. x = Some p \<and> k \<le> p \<and> V p = None))"

definition tags_last :: "(jstr \<rightharpoonup> nat) \<Rightarrow> (jstr \<times> nat \<times> nat option) set \<Rightarrow> bool" where
  "tags_last C T \<longleftrightarrow>
     (\<forall>dk k y. (dk, k, y) \<in> T \<longrightarrow> (\<exists>n. C dk = Some n \<and> k \<le> n)) \<and>
     (\<forall>dk n. C dk = Some n \<longrightarrow> (\<exists>x. (dk, n, x) \<in> T))"

definition chains_ok ::
  "(jstr \<rightharpoonup> nat) \<Rightarrow> (nat \<rightharpoonup> 'v) \<Rightarrow> nat \<Rightarrow> (jstr \<times> nat \<times> nat option) list \<Rightarrow> bool" where
  "chains_ok C V N T \<longleftrightarrow> tags_fresh V N T \<and> tags_linked V (set T) \<and> tags_ordered V (set T) \<and>
     tags_last C (set T)"

lemma chains_ok_mset: "mset T = mset T' \<Longrightarrow> chains_ok C V N T = chains_ok C V N T'"
proof -
  assume m: "mset T = mset T'"
  then have "set T = set T'" by (rule mset_eq_setD)
  moreover have "distinct (map (\<lambda>(dk, n, x). n) T) = distinct (map (\<lambda>(dk, n, x). n) T')"
    using m by (metis mset_eq_imp_distinct_iff mset_map)
  ultimately show ?thesis by (simp add: chains_ok_def tags_fresh_def)
qed

lemma chains_ok_init: "\<forall>n \<ge> N. V n = None \<Longrightarrow> chains_ok Map.empty V N []"
  by (simp add: chains_ok_def tags_fresh_def tags_linked_def tags_ordered_def tags_last_def)

lemma tags_fresh_new: "tags_fresh V N T \<Longrightarrow> tags_fresh V (Suc N) ((dk, N, x) # T)"
  by (fastforce simp: tags_fresh_def)

lemma tags_linked_insert:
  "tags_linked V T \<Longrightarrow> (\<And>p. x = Some p \<Longrightarrow> p < n \<and> (\<exists>y. (dk, p, y) \<in> T)) \<Longrightarrow>
   tags_linked V (insert (dk, n, x) T)"
  unfolding tags_linked_def by blast

lemma tags_ordered_insert:
  assumes "tags_ordered V T"
    and new: "\<And>k y. (dk, k, y) \<in> T \<Longrightarrow> k < n \<and> (\<exists>p. x = Some p \<and> k \<le> p \<and> V p = None)"
  shows "tags_ordered V (insert (dk, n, x) T)"
  unfolding tags_ordered_def
proof (intro allI impI)
  fix dk' n' x' k y
  assume m: "(dk', n', x') \<in> insert (dk, n, x) T" "(dk', k, y) \<in> insert (dk, n, x) T" "k < n'"
  show "\<exists>p. x' = Some p \<and> k \<le> p \<and> V p = None"
  proof (cases "(dk', n', x') \<in> T")
    case True
    then have "(dk', k, y) \<in> T" using m new[of n' x'] by auto
    then show ?thesis using True m(3) assms(1) unfolding tags_ordered_def by blast
  next
    case False
    then show ?thesis using m new[of k y] by auto
  qed
qed

lemma chains_ok_start:
  assumes "chains_ok C V N T" "C dk = None"
  shows "chains_ok (C(dk \<mapsto> N)) V (Suc N) ((dk, N, None) # T)"
proof -
  note parts = assms(1)[unfolded chains_ok_def]
  have none: "(dk, k, y) \<notin> set T" for k y using parts assms(2) unfolding tags_last_def by (metis option.distinct(1))
  have "tags_linked V (set ((dk, N, None) # T))" using parts by (auto intro!: tags_linked_insert)
  moreover have "tags_ordered V (set ((dk, N, None) # T))" using parts none by (auto intro!: tags_ordered_insert)
  moreover have "tags_last (C(dk \<mapsto> N)) (set ((dk, N, None) # T))"
    using parts none by (auto simp: tags_last_def)
  ultimately show ?thesis using parts tags_fresh_new by (auto simp: chains_ok_def)
qed

lemma chains_ok_queue:
  assumes "chains_ok C V N T" "C dk = Some p"
  shows "chains_ok (C(dk \<mapsto> N)) V (Suc N) ((dk, N, Some p) # T)"
proof -
  note parts = assms(1)[unfolded chains_ok_def]
  obtain x where x: "(dk, p, x) \<in> set T" using parts assms(2) unfolding tags_last_def by metis
  then have p: "p < N" "V p = None" using parts by (auto simp: tags_fresh_def)
  have old: "k < N" if "(d, k, y) \<in> set T" for d k y using parts that by (auto simp: tags_fresh_def)
  have le: "k \<le> p" if "(dk, k, y) \<in> set T" for k y using parts that assms(2) by (fastforce simp: tags_last_def)
  have "tags_linked V (set ((dk, N, Some p) # T))" using parts x p by (auto intro!: tags_linked_insert)
  moreover have "tags_ordered V (set ((dk, N, Some p) # T))"
    using parts p le old by (auto intro!: tags_ordered_insert)
  moreover have "tags_last (C(dk \<mapsto> N)) (set ((dk, N, Some p) # T))"
    using parts old by (auto simp: tags_last_def dest: less_imp_le)
  ultimately show ?thesis using parts tags_fresh_new by (auto simp: chains_ok_def)
qed

lemma chains_ok_settle:
  assumes "chains_ok C V N ((dk, n, None) # T)"
  shows "chains_ok (if C dk = Some n then without_key dk C else C) (V(n \<mapsto> v)) N T"
proof -
  let ?T = "insert (dk, n, None) (set T)"
  have fr: "tags_fresh V N ((dk, n, None) # T)" and li: "tags_linked V ?T" and or: "tags_ordered V ?T"
    and la: "tags_last C ?T" using assms by (auto simp: chains_ok_def)
  have other: "k \<noteq> n" if "(d, k, y) \<in> set T" for d k y
    using fr that by (force simp: tags_fresh_def)
  have first: "n \<le> k" if "(dk, k, y) \<in> set T" for k y
    using or that unfolding tags_ordered_def by (metis insertI1 insertI2 not_le option.distinct(1))
  have "tags_fresh (V(n \<mapsto> v)) N T" using fr other by (fastforce simp: tags_fresh_def)
  moreover have "tags_linked (V(n \<mapsto> v)) (set T)"
    unfolding tags_linked_def
  proof (intro allI impI)
    fix d m q assume "(d, m, Some q) \<in> set T"
    then have "q < m" "V q \<noteq> None \<or> (\<exists>y. (d, q, y) \<in> ?T)" using li unfolding tags_linked_def by blast+
    then show "q < m \<and> ((V(n \<mapsto> v)) q \<noteq> None \<or> (\<exists>y. (d, q, y) \<in> set T))" by auto
  qed
  moreover have "tags_ordered (V(n \<mapsto> v)) (set T)"
    unfolding tags_ordered_def
  proof (intro allI impI)
    fix d m x k y assume m: "(d, m, x) \<in> set T" "(d, k, y) \<in> set T" "k < m"
    then obtain p where p: "x = Some p" "k \<le> p" "V p = None"
      using or unfolding tags_ordered_def by (metis insertI2)
    have "p \<noteq> n"
    proof
      assume "p = n"
      then obtain z where "(d, n, z) \<in> ?T" using li m(1) p unfolding tags_linked_def by (metis insertI2)
      then have "d = dk" using other by auto
      then show False using first m(2) other p(2) \<open>p = n\<close> by (metis le_antisym)
    qed
    then show "\<exists>p. x = Some p \<and> k \<le> p \<and> (V(n \<mapsto> v)) p = None" using p by auto
  qed
  moreover have "tags_last (if C dk = Some n then without_key dk C else C) (set T)"
    unfolding tags_last_def
  proof (intro conjI allI impI)
    fix d k y assume t: "(d, k, y) \<in> set T"
    then obtain m where m: "C d = Some m" "k \<le> m" using la unfolding tags_last_def by (metis insertI2)
    have "\<not> (d = dk \<and> C dk = Some n)" using first[of k y] other[of d k y] t m by auto
    then show "\<exists>m. (if C dk = Some n then without_key dk C else C) d = Some m \<and> k \<le> m" using m by auto
  next
    fix d m assume c: "(if C dk = Some n then without_key dk C else C) d = Some m"
    then have "C d = Some m" "\<not> (d = dk \<and> m = n)" by (auto split: if_splits)
    then show "\<exists>x. (d, m, x) \<in> set T" using la unfolding tags_last_def by (metis Pair_inject insertE)
  qed
  ultimately show ?thesis by (simp add: chains_ok_def)
qed

lemma chains_ok_wake:
  assumes "chains_ok C V N ((dk, n, Some p) # T)" "V p \<noteq> None"
  shows "chains_ok C V N ((dk, n, None) # T)"
proof -
  let ?T = "insert (dk, n, Some p) (set T)"
  have fr: "tags_fresh V N ((dk, n, Some p) # T)" and li: "tags_linked V ?T" and or: "tags_ordered V ?T"
    and la: "tags_last C ?T" using assms(1) by (auto simp: chains_ok_def)
  have first: "n \<le> k" if "(dk, k, y) \<in> set T" for k y
  proof (rule ccontr)
    assume "\<not> n \<le> k"
    moreover have "(dk, n, Some p) \<in> ?T" "(dk, k, y) \<in> ?T" using that by auto
    ultimately obtain q where "Some p = Some q" "V q = None"
      using or unfolding tags_ordered_def by (meson not_le)
    then show False using assms(2) by simp
  qed
  have "tags_fresh V N ((dk, n, None) # T)" using fr by (auto simp: tags_fresh_def)
  moreover have "tags_linked V (insert (dk, n, None) (set T))"
    unfolding tags_linked_def
  proof (intro allI impI)
    fix d m q assume "(d, m, Some q) \<in> insert (dk, n, None) (set T)"
    then have "q < m" "V q \<noteq> None \<or> (\<exists>y. (d, q, y) \<in> ?T)" using li unfolding tags_linked_def by blast+
    then show "q < m \<and> (V q \<noteq> None \<or> (\<exists>y. (d, q, y) \<in> insert (dk, n, None) (set T)))" by auto
  qed
  moreover have "tags_ordered V (insert (dk, n, None) (set T))"
    unfolding tags_ordered_def
  proof (intro allI impI)
    fix d m x k y
    assume m: "(d, m, x) \<in> insert (dk, n, None) (set T)" "(d, k, y) \<in> insert (dk, n, None) (set T)" "k < m"
    then have t: "(d, m, x) \<in> set T" using first[of k y] by auto
    have "\<exists>y'. (d, k, y') \<in> ?T" using m(2) by auto
    then show "\<exists>p. x = Some p \<and> k \<le> p \<and> V p = None"
      using or t m(3) unfolding tags_ordered_def by (metis insertI2)
  qed
  moreover have "tags_last C (insert (dk, n, None) (set T))"
    using la unfolding tags_last_def by (metis insert_iff prod.inject)
  ultimately show ?thesis by (simp add: chains_ok_def)
qed

subsection \<open>The chains of a session\<close>

definition chain_sys_ok :: "sys \<Rightarrow> bool" where
  "chain_sys_ok x \<longleftrightarrow> chains_ok (draft_send_chains (fst x)) (chain_values (fst x)) (next_chain (fst x))
     (chain_tags (snd x))"

lemma chain_sys_ok_quiet: "quiet s s' \<Longrightarrow> chain_sys_ok (s, P) \<Longrightarrow> chain_tags new = [] \<Longrightarrow> chain_sys_ok (s', P @ new)"
  by (simp add: chain_sys_ok_def quiet_def)

lemma chain_sys_ok_send:
  assumes "chain_sys_ok (s, P)" "send_message mid now inp s = (s', new, out)"
  shows "chain_sys_ok (s', P @ new)"
proof -
  have draft: "chain_sys_ok (fst (send_from_draft dk rq t), P @ fst (snd (send_from_draft dk rq t)))"
    if q: "quiet s t" for dk rq t
  proof -
    have t: "chains_ok (draft_send_chains t) (chain_values t) (next_chain t) (chain_tags P)"
      using assms(1) q by (simp add: chain_sys_ok_def quiet_def)
    show ?thesis
    proof (cases "draft_send_chains t dk")
      case None
      then show ?thesis
        using chains_ok_start[OF t None]
        by (simp add: send_from_draft_def perform_send_def chain_sys_ok_def Let_def
            chains_ok_mset[of "(dk, next_chain t, None) # chain_tags P" "chain_tags P @ [(dk, next_chain t, None)]"])
    next
      case (Some p)
      then show ?thesis
        using chains_ok_queue[OF t Some]
        by (simp add: send_from_draft_def chain_sys_ok_def Let_def
            chains_ok_mset[of "(dk, next_chain t, Some p) # chain_tags P" "chain_tags P @ [(dk, next_chain t, Some p)]"])
    qed
  qed
  have dispatch: "chain_sys_ok (fst (dispatch_send key k rq t), P @ fst (snd (dispatch_send key k rq t)))"
    if q: "quiet s t" for key k rq t
    using draft[OF q] chain_sys_ok_quiet[OF q assms(1)] by (simp add: dispatch_send_def perform_send_def)
  have acc: "chain_sys_ok (fst (send_accepted mid now inp v tx peer s),
      P @ fst (snd (send_accepted mid now inp v tx peer s)))" for v tx peer
    unfolding send_accepted_def Let_def by (rule dispatch) simp
  have "chain_sys_ok (fst (send_message mid now inp s), P @ fst (snd (send_message mid now inp s)))"
    unfolding send_message_def Let_def using assms(1) acc by (auto split: option.splits)
  then show ?thesis using assms(2) by simp
qed

lemma chain_sys_ok_reset:
  assumes "chain_sys_ok (s, [])" "draft_send_chains s' = Map.empty" "chain_values s' = chain_values s"
    "next_chain s' = next_chain s"
  shows "chain_sys_ok (s', [])"
  using assms chains_ok_init[of "next_chain s" "chain_values s"]
  by (simp add: chain_sys_ok_def chains_ok_def tags_fresh_def)

lemma chain_sys_ok_remove:
  assumes "chain_sys_ok (s, P)" "p \<in> set P"
  shows "chains_ok (draft_send_chains s) (chain_values s) (next_chain s) (chain_tag p @ chain_tags (remove1 p P))"
  using assms mset_chain_tags_remove1[OF assms(2)]
  by (simp add: chain_sys_ok_def chains_ok_mset[of "chain_tag p @ chain_tags (remove1 p P)" "chain_tags P"])

lemma chain_sys_ok_act:
  assumes "chain_sys_ok (s, P)" "keeps_account a s \<or> chain_tags P = []" "perform a s = (s', new, out)"
  shows "chain_sys_ok (s', P @ new)"
proof (cases "\<exists>mid now inp. a = A_send mid now inp")
  case True
  then show ?thesis using chain_sys_ok_send[OF assms(1)] assms(3) by auto
next
  case False
  show ?thesis
  proof (cases "keeps_account a s")
    case True
    then show ?thesis
    proof (cases "\<exists>key mid. a = A_retry key mid")
      case True
      then obtain key mid where "retry_send key mid s = (s', new, out)" using assms(3) by auto
      then show ?thesis using quiet_retry[of s key mid] assms(1) by (auto intro: chain_sys_ok_quiet)
    next
      case other: False
      then show ?thesis using quiet_perform[OF True] False assms by (auto intro: chain_sys_ok_quiet no_send_tags)
    qed
  next
    case switch: False
    then have "new = []" "quiet s s' \<or> draft_send_chains s' = Map.empty" "chain_values s' = chain_values s"
      "next_chain s' = next_chain s"
      using assms(3) by (cases a; auto simp: set_viewer_def reset_store_def with_initial_data_def)+
    moreover have "chain_tags P = []" using switch assms(2) by simp
    ultimately show ?thesis using assms(1) chain_sys_ok_reset[of s s'] chain_sys_ok_quiet[of s s' P "[]"]
      by (auto simp: chain_sys_ok_def)
  qed
qed

lemma chain_sys_ok_settle:
  assumes "chain_sys_ok (s, P)" "p \<in> set P" "settle p r s = Some (s', new, out)"
  shows "chain_sys_ok (s', remove1 p P @ new)"
proof (cases "chain_tag p")
  case Nil
  then show ?thesis using quiet_settle_plain[OF assms(3) Nil] chain_sys_ok_remove[OF assms(1,2)]
    by (simp add: chain_sys_ok_def quiet_def no_send_tags)
next
  case (Cons t ts)
  then obtain key rq dk n where p: "p = P_send key rq (Some (dk, n))"
    using assms(3) by (cases p) (auto split: option.splits)
  then show ?thesis
    using settle_chained assms(3) chain_sys_ok_remove[OF assms(1,2)]
      chains_ok_settle[of "draft_send_chains s" "chain_values s" "next_chain s" dk n "chain_tags (remove1 p P)"]
    by (fastforce simp: chain_sys_ok_def chain_settled_def no_send_tags)
qed

lemma chain_sys_ok_wake:
  assumes "chain_sys_ok (s, P)" "P_wait dk rq prev n \<in> set P" "chain_values s prev = Some v"
    "resume_draft_send dk rq n v s = (s', new, out)"
  shows "chain_sys_ok (s', remove1 (P_wait dk rq prev n) P @ new)"
proof -
  let ?R = "chain_tags (remove1 (P_wait dk rq prev n) P)"
  have "quiet s s'" "chain_tags new = [(dk, n, None)]"
    using assms(4) by (auto simp: resume_draft_send_def perform_send_def Let_def split: option.splits if_splits)
  then show ?thesis
    using chain_sys_ok_remove[OF assms(1,2)] chains_ok_wake[of "draft_send_chains s" "chain_values s" "next_chain s" dk n prev ?R] assms(3)
    by (simp add: chain_sys_ok_def quiet_def chains_ok_mset[of "?R @ [(dk, n, None)]" "(dk, n, None) # ?R"])
qed

lemma session_chain_ok: "session_reachable x \<Longrightarrow> chain_sys_ok x"
proof (induction rule: session_reachable.induct)
  case (ses_init st)
  then show ?case by (simp add: chain_sys_ok_def initial_store_def chains_ok_init)
qed (auto intro: chain_sys_ok_act chain_sys_ok_settle chain_sys_ok_wake)

fun sends_for :: "jstr \<Rightarrow> pending \<Rightarrow> bool" where
  "sends_for dk (P_send key rq (Some (dk', n))) = (dk' = dk)"
| "sends_for dk _ = False"

fun waits_for :: "jstr \<Rightarrow> pending \<Rightarrow> bool" where
  "waits_for dk (P_wait dk' rq prev n) = (dk' = dk)"
| "waits_for dk _ = False"

lemma sends_for_tag: "sends_for dk p \<longleftrightarrow> (\<exists>n. chain_tag p = [(dk, n, None)])"
  by (cases p) (auto split: option.splits)

lemma waits_for_tag: "waits_for dk p \<longleftrightarrow> (\<exists>n q. chain_tag p = [(dk, n, Some q)])"
  by (cases p) (auto split: option.splits)

lemma chain_tag_in: "p \<in> set P \<Longrightarrow> chain_tag p = [t] \<Longrightarrow> t \<in> set (chain_tags P)"
  by (force simp: chain_tags_def)

lemma chain_tag_single: "t \<in> set (chain_tag p) \<Longrightarrow> chain_tag p = [t]"
  by (cases p) (auto split: option.splits)

lemma tags_of_sends:
  "chain_tags (filter (sends_for dk) P) = filter (\<lambda>(d, n, x). d = dk \<and> x = None) (chain_tags P)"
proof (induction P)
  case Nil
  then show ?case by simp
next
  case (Cons p P)
  then show ?case by (cases p) (auto split: option.splits)
qed

lemma length_tags_of_sends: "length (filter (sends_for dk) P) = length (chain_tags (filter (sends_for dk) P))"
proof (induction P)
  case Nil
  then show ?case by simp
next
  case (Cons p P)
  then show ?case by (auto simp: sends_for_tag)
qed

lemma at_most_one:
  assumes "distinct (map f xs)" "\<And>x y. x \<in> set xs \<Longrightarrow> y \<in> set xs \<Longrightarrow> f x = f y"
  shows "length xs \<le> 1"
proof (rule ccontr)
  assume "\<not> length xs \<le> 1"
  then obtain x y zs where "xs = x # y # zs" by (cases xs rule: remdups_adj.cases) auto
  then show False using assms(1) assms(2)[of x y] by simp
qed

subsection \<open>Runs without a retried first message\<close>

text \<open>
  \<^verbatim>\<open>retrySend\<close> posts the queued request at once, past the chain. These are the runs of a session in
  which only requests that name their conversation are retried (and no caller passes an empty
  conversation id).
\<close>

fun first_try :: "user_action \<Rightarrow> mstate \<Rightarrow> bool" where
  "first_try (A_retry key mid) s =
     (case pending_sends s mid of Some rq \<Rightarrow> truthy (sr_conversation_id rq) | None \<Rightarrow> True)"
| "first_try (A_send mid now inp) s = (si_conversation_id inp \<noteq> Some [])"
| "first_try _ s = True"

inductive first_try_reachable :: "sys \<Rightarrow> bool" where
  ft_init: "first_try_reachable (initial_store st, [])"
| ft_act: "first_try_reachable (s, P) \<Longrightarrow> action_ok a \<Longrightarrow> keeps_account a s \<or> chain_tags P = [] \<Longrightarrow>
     first_try a s \<Longrightarrow> perform a s = (s', new, out) \<Longrightarrow> first_try_reachable (s', P @ new)"
| ft_settle: "first_try_reachable (s, P) \<Longrightarrow> p \<in> set P \<Longrightarrow> server_ok r \<Longrightarrow>
     settle p r s = Some (s', new, out) \<Longrightarrow> first_try_reachable (s', remove1 p P @ new)"
| ft_wake: "first_try_reachable (s, P) \<Longrightarrow> P_wait dk rq prev n \<in> set P \<Longrightarrow> chain_values s prev = Some v \<Longrightarrow>
     resume_draft_send dk rq n v s = (s', new, out) \<Longrightarrow>
     first_try_reachable (s', remove1 (P_wait dk rq prev n) P @ new)"

lemma first_try_session: "first_try_reachable x \<Longrightarrow> session_reachable x"
proof (induction rule: first_try_reachable.induct)
  case (ft_init st)
  show ?case by (rule ses_init)
next
  case (ft_act s P a s' new out)
  then show ?case by (auto intro: ses_act)
next
  case (ft_settle s P p r s' new out)
  then show ?case by (auto intro: ses_settle)
next
  case (ft_wake s P dk rq prev n v s' new out)
  then show ?case by (auto intro: ses_wake)
qed

text \<open>A request names its conversation, or is the chained first message to the peer of its draft.\<close>

definition names_target :: "jstr \<Rightarrow> send_message_request \<Rightarrow> bool" where
  "names_target dk rq \<longleftrightarrow> truthy (sr_conversation_id rq) \<or>
     (\<exists>f. sr_recipient_fids rq = [f] \<and> dk = draft_conversation_key f)"

fun addressed :: "pending \<Rightarrow> bool" where
  "addressed (P_send key rq ch) =
     (case ch of None \<Rightarrow> truthy (sr_conversation_id rq) | Some (dk, n) \<Rightarrow> names_target dk rq)"
| "addressed (P_wait dk rq prev n) = names_target dk rq"
| "addressed _ = True"

lemma no_send_addressed: "list_all no_send new \<Longrightarrow> list_all addressed new"
proof (induction new)
  case (Cons p new)
  then show ?case by (cases p) auto
qed simp

definition resolved_ok :: "mstate \<Rightarrow> bool" where
  "resolved_ok s \<longleftrightarrow> (\<forall>dk. resolved_drafts s dk \<noteq> Some [])"

definition first_ok :: "sys \<Rightarrow> bool" where
  "first_ok x \<longleftrightarrow> resolved_ok (fst x) \<and> list_all addressed (snd x)"

lemma first_ok_plain: "first_ok (s, P) \<Longrightarrow> quiet_act s (s', new, out) \<Longrightarrow> first_ok (s', P @ new)"
  using no_send_addressed by (auto simp: first_ok_def resolved_ok_def quiet_def)

lemma send_addressed:
  assumes "resolved_ok s" "si_conversation_id inp \<noteq> Some []" "send_message mid now inp s = (s', new, out)"
  shows "quiet s (s'\<lparr>draft_send_chains := draft_send_chains s, next_chain := next_chain s\<rparr>) \<and> list_all addressed new"
proof -
  have q: "quiet s (clear_sent_drafts fid key dk (put_optimistic key dk' rq m s))" for fid key dk dk' rq m by simp
  have draft: "quiet s ((fst (send_from_draft dk rq t))\<lparr>draft_send_chains := draft_send_chains s, next_chain := next_chain s\<rparr>)
      \<and> list_all addressed (fst (snd (send_from_draft dk rq t)))"
    if "quiet s t" "names_target dk rq" for dk rq t
    using that by (simp add: send_from_draft_def perform_send_def Let_def quiet_def split: option.split)
  have acc: "quiet s ((fst (send_accepted mid now inp v tx peer s))\<lparr>draft_send_chains := draft_send_chains s, next_chain := next_chain s\<rparr>)
      \<and> list_all addressed (fst (snd (send_accepted mid now inp v tx peer s)))"
    if peer: "truthy (si_conversation_id inp) \<or> (\<exists>f. peer = Some f)" for v tx peer
  proof (cases "si_conversation_id inp")
    case None
    then have "\<exists>f. peer = Some f" using peer by (simp add: truthy_def)
    then obtain f where f: "peer = Some f" by blast
    show ?thesis
    proof (cases "resolved_drafts s (draft_conversation_key f)")
      case (Some c)
      then have "truthy (Some c)" using assms(1) by (auto simp: resolved_ok_def truthy_def)
      then show ?thesis using None f Some
        by (simp add: send_accepted_def Let_def dispatch_send_def perform_send_def) (simp add: quiet_def clear_sent_drafts_def put_optimistic_def Let_def)
    next
      case none: None
      have "\<not> truthy None" by (simp add: truthy_def)
      then show ?thesis using None f none draft[OF q]
        by (simp add: send_accepted_def Let_def dispatch_send_def names_target_def)
    qed
  next
    case (Some c)
    then have "truthy (Some c)" using assms(2) by (simp add: truthy_def)
    then show ?thesis using Some
      by (simp add: send_accepted_def Let_def dispatch_send_def perform_send_def) (simp add: quiet_def clear_sent_drafts_def put_optimistic_def Let_def)
  qed
  have "quiet s ((fst (send_message mid now inp s))\<lparr>draft_send_chains := draft_send_chains s, next_chain := next_chain s\<rparr>)
      \<and> list_all addressed (fst (snd (send_message mid now inp s)))"
    unfolding send_message_def Let_def using acc by (auto simp: quiet_def split: option.splits)
  then show ?thesis using assms(3) by simp
qed

lemma first_ok_act:
  assumes ok: "first_ok (s, P)" and try': "first_try a s" and act: "perform a s = (s', new, out)"
  shows "first_ok (s', P @ new)"
proof -
  consider (send) mid now inp where "a = A_send mid now inp" | (retry) key mid where "a = A_retry key mid"
    | (other) "\<forall>mid now inp. a \<noteq> A_send mid now inp" "\<forall>key mid. a \<noteq> A_retry key mid" by blast
  then show ?thesis
  proof cases
    case send
    then show ?thesis using send_addressed[of s inp mid now s' new out] assms
      by (auto simp: first_ok_def resolved_ok_def quiet_def)
  next
    case retry
    then show ?thesis using assms
      by (auto simp: first_ok_def resolved_ok_def retry_send_def perform_send_def patch_thread_def put_thread_def Let_def
        split: option.splits)
  next
    case other
    show ?thesis
    proof (cases "keeps_account a s")
      case True
      then show ?thesis using quiet_perform[OF True other] act first_ok_plain[OF ok] by simp
    next
      case False
      then have "new = []" "quiet s s' \<or> resolved_drafts s' = Map.empty"
        using act by (cases a; auto simp: set_viewer_def reset_store_def with_initial_data_def)+
      then show ?thesis using ok by (auto simp: first_ok_def resolved_ok_def quiet_def)
    qed
  qed
qed

lemma first_ok_settle:
  assumes ok: "first_ok (s, P)" and st: "settle p r s = Some (s', new, out)"
  shows "first_ok (s', remove1 p P @ new)"
proof -
  have rest: "list_all addressed (remove1 p P)" using ok by (auto simp: first_ok_def list_all_iff dest: notin_set_remove1)
  show ?thesis
  proof (cases "chain_tag p")
    case Nil
    then have "quiet_act s (s', new, out)" using quiet_settle_plain[OF st] by simp
    then show ?thesis using ok rest no_send_addressed by (auto simp: first_ok_def resolved_ok_def quiet_def)
  next
    case (Cons t ts)
    then obtain key rq dk n where "p = P_send key rq (Some (dk, n))"
      using st by (cases p) (auto split: option.splits)
    then have "chain_settled dk n s s'" "list_all no_send new" using settle_chained st by fastforce+
    then show ?thesis using ok rest no_send_addressed
      by (auto simp: first_ok_def resolved_ok_def chain_settled_def truthy_def split: option.splits if_splits)
  qed
qed

lemma first_ok_wake:
  assumes "first_ok (s, P)" "P_wait dk rq prev n \<in> set P" "resume_draft_send dk rq n v s = (s', new, out)"
  shows "first_ok (s', remove1 (P_wait dk rq prev n) P @ new)"
proof -
  have "names_target dk rq" using assms(1,2) by (auto simp: first_ok_def list_all_iff)
  then have "resolved_drafts s' = resolved_drafts s \<and> list_all addressed new"
    using assms(3)
    by (auto simp: resume_draft_send_def perform_send_def names_target_def truthy_def Let_def split: option.splits if_splits)
  moreover have "list_all addressed (remove1 (P_wait dk rq prev n) P)"
    using assms(1) by (auto simp: first_ok_def list_all_iff dest: notin_set_remove1)
  ultimately show ?thesis using assms(1) by (simp add: first_ok_def resolved_ok_def)
qed

lemma first_try_ok: "first_try_reachable x \<Longrightarrow> first_ok x"
proof (induction rule: first_try_reachable.induct)
  case (ft_init st)
  then show ?case by (simp add: first_ok_def resolved_ok_def initial_store_def)
qed (auto intro: first_ok_act first_ok_settle first_ok_wake)

lemma session_one_send:
  assumes "session_reachable (s, P)"
  shows "length (filter (sends_for dk) P) \<le> 1"
proof -
  have ok: "chains_ok (draft_send_chains s) (chain_values s) (next_chain s) (chain_tags P)"
    using session_chain_ok[OF assms] by (simp add: chain_sys_ok_def)
  then have or: "tags_ordered (chain_values s) (set (chain_tags P))"
    and d: "distinct (map (\<lambda>(dk, n, x). n) (chain_tags P))"
    by (auto simp: chains_ok_def tags_fresh_def)
  let ?X = "filter (\<lambda>(d, n, x). d = dk \<and> x = None) (chain_tags P)"
  have "length ?X \<le> 1"
  proof (rule at_most_one[of "\<lambda>(dk, n, x). n"])
    show "distinct (map (\<lambda>(dk, n, x). n) ?X)" using d by (rule distinct_map_filter)
    fix t u assume "t \<in> set ?X" "u \<in> set ?X"
    then obtain n m where tu: "t = (dk, n, None)" "u = (dk, m, None)"
      "(dk, n, None) \<in> set (chain_tags P)" "(dk, m, None) \<in> set (chain_tags P)" by auto
    then have "\<not> n < m" "\<not> m < n" using or unfolding tags_ordered_def by (metis option.distinct(1))+
    then show "(\<lambda>(dk, n, x). n) t = (\<lambda>(dk, n, x). n) u" using tu by simp
  qed
  then show ?thesis by (simp add: length_tags_of_sends tags_of_sends)
qed

text \<open>A request in flight that asks the server for a conversation with \<open>peer\<close>.\<close>

fun asks_for_conversation :: "int \<Rightarrow> pending \<Rightarrow> bool" where
  "asks_for_conversation peer (P_send key rq ch) =
     (sr_conversation_id rq \<in> {None, Some []} \<and> sr_recipient_fids rq = [peer])"
| "asks_for_conversation peer _ = False"

lemma asks_sends:
  assumes "addressed p" "asks_for_conversation peer p"
  shows "sends_for (draft_conversation_key peer) p"
proof (cases p)
  case (P_send key rq ch)
  with assms obtain dk n where ch: "ch = Some (dk, n)" by (cases ch) (auto simp: truthy_def)
  with P_send assms have "dk = draft_conversation_key peer"
    by (auto simp: names_target_def truthy_def)
  then show ?thesis using P_send ch by simp
qed (use assms in auto)

lemma length_filter_weaken:
  "(\<And>x. x \<in> set xs \<Longrightarrow> Q x \<Longrightarrow> R x) \<Longrightarrow> length (filter Q xs) \<le> length (filter R xs)"
proof (induction xs)
  case (Cons x xs)
  have "length (filter Q xs) \<le> length (filter R xs)" by (rule Cons.IH) (use Cons.prems in simp)
  then show ?case using Cons.prems[of x] by simp
qed simp

text \<open>
  C29. First messages to a peer do not race as long as none of them is retried: in every run of a session
  (the account is not switched nor the store reset while such a send is pending, only requests that name
  their conversation are retried, and no caller passes an empty conversation id), at most one of the requests in flight asks the server for a conversation
  with a peer, however many messages the user types and however the calls interleave, so two
  conversations with one peer are not created side by side. A retry of a failed first message goes past
  the queue; \<^verbatim>\<open>retry_races_first_send\<close> shows that the claim fails then.
\<close>

theorem one_draft_send_in_flight:
  assumes "first_try_reachable (s, P)"
  shows "length (filter (asks_for_conversation peer) P) \<le> 1"
proof -
  have "list_all addressed P" using first_try_ok[OF assms] by (simp add: first_ok_def)
  then have "length (filter (asks_for_conversation peer) P) \<le> length (filter (sends_for (draft_conversation_key peer)) P)"
    by (intro length_filter_weaken) (auto simp: list_all_iff asks_sends)
  then show ?thesis using session_one_send[OF first_try_session[OF assms], of "draft_conversation_key peer"] by simp
qed

text \<open>
  C30. No queued send is stuck within a session: in every run in which no account is switched and the
  store is not reset while a chained send is pending, as long as a send to a peer is waiting, either one
  to that peer is in flight, or one can go out at once because the send it waits for has settled. A retry
  does not disturb it.
\<close>

theorem waiting_send_not_stuck:
  assumes "session_reachable (s, P)" "p \<in> set P" "waits_for dk p"
  shows "\<exists>q \<in> set P. sends_for dk q \<or>
    (\<exists>rq prev n. q = P_wait dk rq prev n \<and> chain_values s prev \<noteq> None)"
proof -
  let ?T = "set (chain_tags P)"
  have ok: "chains_ok (draft_send_chains s) (chain_values s) (next_chain s) (chain_tags P)"
    using session_chain_ok[OF assms(1)] by (simp add: chain_sys_ok_def)
  obtain n0 q0 where "(dk, n0, Some q0) \<in> ?T"
    using assms(2,3) chain_tag_in by (metis waits_for_tag)
  then obtain n x where n: "(dk, n, x) \<in> ?T" and least: "\<And>k y. (dk, k, y) \<in> ?T \<Longrightarrow> n \<le> k"
    using exists_least_iff[of "\<lambda>n. \<exists>x. (dk, n, x) \<in> ?T"] by (metis not_le)
  from n obtain q where q: "q \<in> set P" "(dk, n, x) \<in> set (chain_tag q)"
    by (auto simp: chain_tags_def)
  then have tag: "chain_tag q = [(dk, n, x)]" using chain_tag_single by blast
  show ?thesis
  proof (cases x)
    case None
    then show ?thesis using q tag sends_for_tag by blast
  next
    case (Some prev)
    then have "prev < n" "chain_values s prev \<noteq> None \<or> (\<exists>y. (dk, prev, y) \<in> ?T)"
      using ok n by (auto simp: chains_ok_def tags_linked_def)
    then have "chain_values s prev \<noteq> None" using least by (meson not_le)
    moreover obtain rq where "q = P_wait dk rq prev n"
      using tag Some by (cases q) (auto split: option.splits)
    ultimately show ?thesis using q by blast
  qed
qed

text \<open>Two first messages to peer 3 of Alice's: the second waits for the first.\<close>

definition two_firsts :: sys where
  "two_firsts = the (run [Do (A_set_viewer (Some alice)), Do (A_send ''m1'' 5 (a_send None (Some 3))),
     Do (A_send ''m2'' 6 (a_send None (Some 3)))] (initial_store None, []))"

lemma two_firsts_first_try: "first_try_reachable (fst two_firsts, snd two_firsts)"
proof -
  let ?a1 = "A_set_viewer (Some alice)" and ?a2 = "A_send ''m1'' 5 (a_send None (Some 3))"
    and ?a3 = "A_send ''m2'' 6 (a_send None (Some 3))"
  obtain s1 P1 o1 where 1: "perform ?a1 (initial_store None) = (s1, P1, o1)" by (metis prod_cases3)
  obtain s2 P2 o2 where 2: "perform ?a2 s1 = (s2, P2, o2)" by (metis prod_cases3)
  obtain s3 P3 o3 where 3: "perform ?a3 s2 = (s3, P3, o3)" by (metis prod_cases3)
  have r: "first_try_reachable (s3, (([] @ P1) @ P2) @ P3)"
    by (rule ft_act[OF ft_act[OF ft_act[OF ft_init _ _ _ 1] _ _ _ 2] _ _ _ 3]) (simp_all add: a_send_def)
  have "two_firsts = (s3, (([] @ P1) @ P2) @ P3)"
    unfolding two_firsts_def using 1 2 3 by (simp del: perform.simps)
  then show ?thesis using r by simp
qed

lemma two_firsts_session: "session_reachable (fst two_firsts, snd two_firsts)"
  by (rule first_try_session[OF two_firsts_first_try])

theorem one_draft_send_in_flight_witness:
  "map (asks_for_conversation 3) (snd two_firsts) = [True, False] \<and>
   map (waits_for (draft_conversation_key 3)) (snd two_firsts) = [False, True] \<and>
   length (filter (asks_for_conversation 3) (snd two_firsts)) \<le> 1"
proof (intro conjI)
  show "map (asks_for_conversation 3) (snd two_firsts) = [True, False]" by code_simp
  show "map (waits_for (draft_conversation_key 3)) (snd two_firsts) = [False, True]" by code_simp
  show "length (filter (asks_for_conversation 3) (snd two_firsts)) \<le> 1"
    using two_firsts_first_try by (rule one_draft_send_in_flight)
qed

text \<open>
  A retried first message races: the first one fails, the user retries it and types another; both
  requests are in flight and each asks for a conversation with peer 3.
\<close>

fun session_script :: "move list \<Rightarrow> sys \<Rightarrow> bool" where
  "session_script [] x = True"
| "session_script (m # ms) x =
     ((case m of Do a \<Rightarrow> keeps_account a (fst x) \<or> chain_tags (snd x) = [] | _ \<Rightarrow> True) \<and>
      (case play m x of None \<Rightarrow> False | Some y \<Rightarrow> session_script ms y))"

lemma play_session:
  assumes "play m (s, P) = Some y" "session_reachable (s, P)"
    and "case m of Do a \<Rightarrow> keeps_account a s \<or> chain_tags P = [] | _ \<Rightarrow> True"
  shows "session_reachable y"
proof (cases m)
  case (Wake n)
  then obtain dk rq prev k v where n: "n < length P" "P ! n = P_wait dk rq prev k"
    "chain_values s prev = Some v"
    "y = (case resume_draft_send dk rq k v s of (s', new, _) \<Rightarrow> (s', remove1 (P ! n) P @ new))"
    using assms(1) by (auto split: if_splits pending.splits option.splits prod.splits)
  then have "P_wait dk rq prev k \<in> set P" by (metis nth_mem)
  then show ?thesis using n assms(2) by (auto split: prod.splits intro: ses_wake)
next
  case (Do a)
  then show ?thesis using assms by (auto split: if_splits option.splits prod.splits intro!: ses_act)
next
  case (Answer n r)
  then show ?thesis using assms(1,2) by (auto split: if_splits option.splits prod.splits intro!: ses_settle)
qed

lemma run_session:
  "run ms x = Some y \<Longrightarrow> session_reachable x \<Longrightarrow> session_script ms x \<Longrightarrow> session_reachable y"
proof (induction ms arbitrary: x)
  case (Cons m ms)
  then obtain z where z: "play m x = Some z" by (auto split: option.splits)
  moreover obtain s P where x: "x = (s, P)" by (cases x)
  moreover have "case m of Do a \<Rightarrow> keeps_account a s \<or> chain_tags P = [] | _ \<Rightarrow> True"
    using Cons.prems(3) x by (cases m) auto
  ultimately have "session_reachable z" using Cons.prems(2) by (auto intro: play_session)
  then show ?case using Cons z by simp
qed simp

lemma retry_races_first_send:
  "\<exists>s P. session_reachable (s, P) \<and> length (filter (asks_for_conversation 3) P) = 2"
proof -
  let ?ms = "[Do (A_set_viewer (Some alice)), Do (A_send ''m1'' 5 (a_send None (Some 3))),
    Answer 0 (R_err (Api_error 503 None None)), Do (A_retry (draft_conversation_key 3) ''m1''),
    Do (A_send ''m2'' 6 (a_send None (Some 3)))]"
  have ss: "session_script ?ms (initial_store None, [])" by code_simp
  have "map_option (\<lambda>x. length (filter (asks_for_conversation 3) (snd x))) (run ?ms (initial_store None, [])) = Some 2"
    by code_simp
  then obtain x where x: "run ?ms (initial_store None, []) = Some x"
    "length (filter (asks_for_conversation 3) (snd x)) = 2"
    unfolding map_option_eq_Some by blast
  have "session_reachable (fst x, snd x)" using run_session[OF x(1) ses_init ss] by simp
  with x(2) show ?thesis by blast
qed

theorem waiting_send_not_stuck_witness:
  "\<exists>p \<in> set (snd two_firsts). waits_for (draft_conversation_key 3) p \<and>
     (\<exists>q \<in> set (snd two_firsts). sends_for (draft_conversation_key 3) q \<or>
       (\<exists>rq prev n. q = P_wait (draft_conversation_key 3) rq prev n \<and>
          chain_values (fst two_firsts) prev \<noteq> None))"
proof -
  have "list_ex (waits_for (draft_conversation_key 3)) (snd two_firsts)" by code_simp
  then obtain p where p: "p \<in> set (snd two_firsts)" "waits_for (draft_conversation_key 3) p"
    by (auto simp: list_ex_iff)
  show ?thesis by (rule bexI[OF _ p(1)]) (intro conjI p(2) waiting_send_not_stuck[OF two_firsts_session p])
qed

end
