(* ===== verification/Thread_View.thy ===== *)
theory Thread_View
  imports Message_List "HOL-Library.Sublist"
begin

section \<open>What a thread shows\<close>

text \<open>
  The pure functions between the messaging store and the thread on screen:
  \<^verbatim>\<open>landing/lib/messages/unread-divider.ts\<close>, \<^verbatim>\<open>thread-rows.ts\<close>, \<^verbatim>\<open>receipts.ts\<close>,
  \<^verbatim>\<open>double-tap.ts\<close>, \<^verbatim>\<open>reactors.ts\<close> and \<^verbatim>\<open>format.ts\<close> of the same directory.

  The browser's time zone and locale are a \<open>calendar\<close>: the fields of a local date, the start
  of its day, and the strings \<^verbatim>\<open>toLocaleDateString\<close> and \<^verbatim>\<open>toLocaleTimeString\<close> give for the
  option sets the code passes.
\<close>

subsection \<open>The unread divider\<close>

definition MAX_UNREAD_DIVIDER_PAGES :: int where
  "MAX_UNREAD_DIVIDER_PAGES = 5"

datatype unread_divider_resolution = Divider_found "jstr option" | Divider_load_older

record unread_divider_input =
  ud_messages :: "message list"
  ud_unread_count :: int
  ud_viewer_fid :: "int option"
  ud_last_read_at :: int
  ud_has_older :: bool
  ud_pages_loaded :: int
  ud_max_pages :: "int option"

definition is_incoming :: "message \<Rightarrow> int option \<Rightarrow> bool" where
  "is_incoming m viewerFid \<longleftrightarrow> Some (u_fid (sender m)) \<noteq> viewerFid"

text \<open>The loop of \<^verbatim>\<open>afterIdByCount\<close>, from index \<open>n - 1\<close> down.\<close>

fun after_id_by_count_from :: "message list \<Rightarrow> nat \<Rightarrow> int \<Rightarrow> int option \<Rightarrow> nat option" where
  "after_id_by_count_from ms 0 remaining viewerFid = None"
| "after_id_by_count_from ms (Suc i) remaining viewerFid =
     (let r = (if is_incoming (ms ! i) viewerFid then remaining - 1 else remaining)
      in if r = 0 then Some i else after_id_by_count_from ms i r viewerFid)"

definition after_id_by_count :: "message list \<Rightarrow> int \<Rightarrow> int option \<Rightarrow> nat option" where
  "after_id_by_count ms unreadCount viewerFid =
     after_id_by_count_from ms (length ms) unreadCount viewerFid"

definition after_id_by_last_read :: "message list \<Rightarrow> int \<Rightarrow> int option \<Rightarrow> jstr option" where
  "after_id_by_last_read ms lastReadAt viewerFid =
     (if \<not> lastReadAt > 0 then None
      else case js_find_index (\<lambda>m. is_incoming m viewerFid \<and> sent_at m > lastReadAt) ms of
             Some index \<Rightarrow> if index > 0 then Some (message_id (ms ! (index - 1))) else None
           | None \<Rightarrow> None)"

definition resolve_unread_divider :: "unread_divider_input \<Rightarrow> unread_divider_resolution" where
  "resolve_unread_divider inp =
     (let ms = ud_messages inp;
          maxPages = (case ud_max_pages inp of Some n \<Rightarrow> n | None \<Rightarrow> MAX_UNREAD_DIVIDER_PAGES);
          byLastRead = after_id_by_last_read ms (ud_last_read_at inp) (ud_viewer_fid inp);
          canLoadOlder = (ud_has_older inp \<and> ud_pages_loaded inp < maxPages)
      in if ud_unread_count inp \<le> 0 then Divider_found None
         else case after_id_by_count ms (ud_unread_count inp) (ud_viewer_fid inp) of
                Some i \<Rightarrow>
                  if i > 0 then Divider_found (Some (message_id (ms ! (i - 1))))
                  else if canLoadOlder then Divider_load_older
                  else Divider_found (if ud_has_older inp then byLastRead else None)
              | None \<Rightarrow>
                  if canLoadOlder then Divider_load_older else Divider_found byLastRead)"

lemma after_id_by_count_from_spec:
  "after_id_by_count_from ms n r v = Some i \<Longrightarrow> n \<le> length ms \<Longrightarrow> r > 0 \<Longrightarrow>
   i < n \<and> is_incoming (ms ! i) v \<and>
   int (length (filter (\<lambda>m. is_incoming m v) (drop i (take n ms)))) = r"
proof (induction n arbitrary: r)
  case 0
  then show ?case by simp
next
  case (Suc n)
  let ?r = "if is_incoming (ms ! n) v then r - 1 else r"
  have take: "take (Suc n) ms = take n ms @ [ms ! n]" using Suc.prems(2) by (simp add: take_Suc_conv_app_nth)
  show ?case
  proof (cases "?r = 0")
    case True
    then show ?thesis using Suc.prems take by (auto split: if_splits)
  next
    case False
    then have rec: "after_id_by_count_from ms n ?r v = Some i"
      using Suc.prems(1) by (auto simp: Let_def split: if_splits)
    have "?r > 0" using False Suc.prems(3) by (auto split: if_splits)
    then have "i < n" "is_incoming (ms ! i) v"
      "int (length (filter (\<lambda>m. is_incoming m v) (drop i (take n ms)))) = ?r"
      using Suc.IH[OF rec] Suc.prems(2) by auto
    then show ?thesis using take Suc.prems(2) by auto
  qed
qed

lemma after_id_by_count_from_None:
  "after_id_by_count_from ms n r v = None \<Longrightarrow> n \<le> length ms \<Longrightarrow> r > 0 \<Longrightarrow>
   int (length (filter (\<lambda>m. is_incoming m v) (take n ms))) < r"
proof (induction n arbitrary: r)
  case 0
  then show ?case by simp
next
  case (Suc n)
  let ?r = "if is_incoming (ms ! n) v then r - 1 else r"
  have take: "take (Suc n) ms = take n ms @ [ms ! n]" using Suc.prems(2) by (simp add: take_Suc_conv_app_nth)
  have ne: "?r \<noteq> 0" and rec: "after_id_by_count_from ms n ?r v = None"
    using Suc.prems(1) by (auto simp: Let_def split: if_splits)
  then have "?r > 0" using Suc.prems(3) by (auto split: if_splits)
  then have "int (length (filter (\<lambda>m. is_incoming m v) (take n ms))) < ?r"
    using Suc.IH[OF rec] Suc.prems(2) by simp
  then show ?case by (simp add: take split: if_splits)
qed

lemma after_id_by_count_spec:
  assumes "after_id_by_count ms n v = Some i" "n > 0"
  shows "i < length ms" "is_incoming (ms ! i) v"
    "int (length (filter (\<lambda>m. is_incoming m v) (drop i ms))) = n"
  using after_id_by_count_from_spec[of ms "length ms" n v i] assms
  by (simp_all add: after_id_by_count_def)

lemma after_id_by_last_read_spec:
  assumes "after_id_by_last_read ms t v = Some mid"
  shows "\<exists>i. Suc i < length ms \<and> message_id (ms ! i) = mid \<and> is_incoming (ms ! Suc i) v \<and>
    t < sent_at (ms ! Suc i) \<and> (\<forall>j \<le> i. is_incoming (ms ! j) v \<longrightarrow> sent_at (ms ! j) \<le> t)"
proof -
  obtain n where n: "js_find_index (\<lambda>m. is_incoming m v \<and> sent_at m > t) ms = Some n" "n > 0"
    "mid = message_id (ms ! (n - 1))"
    using assms by (auto simp: after_id_by_last_read_def split: if_splits option.splits)
  note s = js_find_index_SomeD[OF n(1)]
  have "Suc (n - 1) = n" using n(2) by simp
  then show ?thesis using n s by (intro exI[of _ "n - 1"]) (auto simp: not_less)
qed

text \<open>
  The "New messages" divider stands directly before an unread incoming message: either exactly
  \<open>unread_count\<close> incoming messages follow it, or, when the loaded history is too short for the count,
  everything incoming above it was sent by the time the viewer last read. A thread keeps asking for
  older pages only while there are any and the page budget is not spent.
\<close>

theorem divider_before_oldest_unread:
  assumes "ud_unread_count inp > 0"
  shows "(\<forall>mid. resolve_unread_divider inp = Divider_found (Some mid) \<longrightarrow>
      (\<exists>i. Suc i < length (ud_messages inp) \<and> message_id (ud_messages inp ! i) = mid \<and>
        is_incoming (ud_messages inp ! Suc i) (ud_viewer_fid inp) \<and>
        (int (length (filter (\<lambda>m. is_incoming m (ud_viewer_fid inp)) (drop (Suc i) (ud_messages inp)))) =
           ud_unread_count inp \<or>
         ud_last_read_at inp < sent_at (ud_messages inp ! Suc i) \<and>
           (\<forall>j \<le> i. is_incoming (ud_messages inp ! j) (ud_viewer_fid inp) \<longrightarrow>
              sent_at (ud_messages inp ! j) \<le> ud_last_read_at inp)))) \<and>
    (resolve_unread_divider inp = Divider_load_older \<longrightarrow>
      ud_has_older inp \<and> ud_pages_loaded inp <
        (case ud_max_pages inp of Some n \<Rightarrow> n | None \<Rightarrow> MAX_UNREAD_DIVIDER_PAGES))"
proof (intro conjI allI impI)
  let ?ms = "ud_messages inp" and ?v = "ud_viewer_fid inp"
  fix mid assume r: "resolve_unread_divider inp = Divider_found (Some mid)"
  then consider (count) i where "after_id_by_count ?ms (ud_unread_count inp) ?v = Some i" "i > 0"
      "mid = message_id (?ms ! (i - 1))"
    | (read) "after_id_by_last_read ?ms (ud_last_read_at inp) ?v = Some mid"
    using assms by (auto simp: resolve_unread_divider_def Let_def split: option.splits if_splits)
  then show "\<exists>i. Suc i < length ?ms \<and> message_id (?ms ! i) = mid \<and> is_incoming (?ms ! Suc i) ?v \<and>
      (int (length (filter (\<lambda>m. is_incoming m ?v) (drop (Suc i) ?ms))) = ud_unread_count inp \<or>
       ud_last_read_at inp < sent_at (?ms ! Suc i) \<and>
         (\<forall>j \<le> i. is_incoming (?ms ! j) ?v \<longrightarrow> sent_at (?ms ! j) \<le> ud_last_read_at inp))"
  proof cases
    case count
    note s = after_id_by_count_spec[OF count(1) assms]
    have "Suc (i - 1) = i" using count(2) by simp
    then show ?thesis using s count(3) by (intro exI[of _ "i - 1"]) simp
  next
    case read
    then show ?thesis using after_id_by_last_read_spec by blast
  qed
next
  assume "resolve_unread_divider inp = Divider_load_older"
  then show "ud_has_older inp" "ud_pages_loaded inp <
      (case ud_max_pages inp of Some n \<Rightarrow> n | None \<Rightarrow> MAX_UNREAD_DIVIDER_PAGES)"
    by (auto simp: resolve_unread_divider_def Let_def split: option.splits if_splits)
qed

definition a_user :: "int \<Rightarrow> message_user" where
  "a_user fid = \<lparr>u_fid = fid, u_username = None, u_display_name = ''u'', u_pfp_url = None\<rparr>"

definition a_text :: "jstr \<Rightarrow> int \<Rightarrow> int \<Rightarrow> message" where
  "a_text mid fid t = \<lparr>message_id = mid, m_conversation_id = ''c'', sender = a_user fid, m_type = Text,
     m_text = ''x'', sent_at = t, reactions = [], in_reply_to = None, metadata = None,
     is_deleted = False, is_pinned = False, is_last_read = False, send_state = None\<rparr>"

theorem divider_before_oldest_unread_witness:
  "\<exists>inp. resolve_unread_divider inp = Divider_found (Some ''b'') \<and> ud_unread_count inp = 2 \<and>
    (\<exists>i. message_id (ud_messages inp ! i) = ''b'' \<and> is_incoming (ud_messages inp ! Suc i) (ud_viewer_fid inp))"
proof -
  define inp where "inp = \<lparr>ud_messages = [a_text ''a'' 2 1, a_text ''b'' 1 2, a_text ''c'' 2 3, a_text ''d'' 1 4,
      a_text ''e'' 2 5], ud_unread_count = 2, ud_viewer_fid = Some 1, ud_last_read_at = 0,
      ud_has_older = False, ud_pages_loaded = 0, ud_max_pages = None\<rparr>"
  have r: "resolve_unread_divider inp = Divider_found (Some ''b'')" unfolding inp_def by code_simp
  have u: "ud_unread_count inp = 2" by (simp add: inp_def)
  show ?thesis using r u divider_before_oldest_unread[of inp] by auto
qed

subsection \<open>Dates\<close>

record calendar =
  cal_year :: "int \<Rightarrow> int"
  cal_month :: "int \<Rightarrow> nat"
  cal_date :: "int \<Rightarrow> nat"
  cal_start_of_day :: "int \<Rightarrow> int"
  cal_weekday_long :: "int \<Rightarrow> jstr"
  cal_weekday_short :: "int \<Rightarrow> jstr"
  cal_month_long :: "bool \<Rightarrow> int \<Rightarrow> jstr"
  cal_month_short :: "bool \<Rightarrow> int \<Rightarrow> jstr"
  cal_time :: "int \<Rightarrow> jstr"

definition DAY_MS :: int where "DAY_MS = 24 * 60 * 60 * 1000"

definition WEEK_DAYS :: int where "WEEK_DAYS = 7"

definition MAX_BADGE_COUNT :: int where "MAX_BADGE_COUNT = 99"

definition format_badge_count :: "int \<Rightarrow> jstr" where
  "format_badge_count n = (if n > MAX_BADGE_COUNT then js_of_int MAX_BADGE_COUNT @ ''+'' else js_of_int n)"

definition pad2 :: "jstr \<Rightarrow> jstr" where
  "pad2 s = replicate (2 - length s) CHR ''0'' @ s"

definition day_key :: "calendar \<Rightarrow> int \<Rightarrow> jstr" where
  "day_key cal ms = js_of_int (cal_year cal ms) @ ''-'' @ pad2 (js_of_nat (cal_month cal ms + 1)) @ ''-'' @
     pad2 (js_of_nat (cal_date cal ms))"

text \<open>\<^verbatim>\<open>Math.round\<close> of a quotient of integers: half rounds up.\<close>

definition round_div :: "int \<Rightarrow> int \<Rightarrow> int" where
  "round_div a d = (2 * a + d) div (2 * d)"

definition calendar_days_between :: "calendar \<Rightarrow> int \<Rightarrow> int \<Rightarrow> int" where
  "calendar_days_between cal earlier later =
     round_div (cal_start_of_day cal later - cal_start_of_day cal earlier) DAY_MS"

definition format_day_label :: "calendar \<Rightarrow> int \<Rightarrow> int \<Rightarrow> jstr" where
  "format_day_label cal ms now =
     (let days = calendar_days_between cal ms now
      in if days = 0 then ''Today''
         else if days = 1 then ''Yesterday''
         else if days > 1 \<and> days < WEEK_DAYS then cal_weekday_long cal ms
         else cal_month_long cal (cal_year cal ms = cal_year cal now) ms)"

definition format_inbox_time :: "calendar \<Rightarrow> int \<Rightarrow> int \<Rightarrow> jstr" where
  "format_inbox_time cal ms now =
     (let days = calendar_days_between cal ms now
      in if days \<le> 0 then cal_time cal ms
         else if days < WEEK_DAYS then cal_weekday_short cal ms
         else cal_month_short cal (cal_year cal ms = cal_year cal now) ms)"

subsection \<open>Rows\<close>

definition GROUP_WINDOW_MS :: int where "GROUP_WINDOW_MS = 5 * 60 * 1000"

definition UNREAD_ROW_KEY :: jstr where "UNREAD_ROW_KEY = ''row:unread''"

datatype thread_row =
  Row_day (row_key: jstr) jstr
  | Row_unread (row_key: jstr)
  | Row_system (row_key: jstr) message
  | Row_message (row_key: jstr) message (row_own: bool) (row_first: bool) (row_last: bool)

definition is_groupable :: "calendar \<Rightarrow> message \<Rightarrow> message \<Rightarrow> bool" where
  "is_groupable cal a b \<longleftrightarrow> m_type a = Text \<and> m_type b = Text \<and> u_fid (sender a) = u_fid (sender b) \<and>
     sent_at b - sent_at a < GROUP_WINDOW_MS \<and> day_key cal (sent_at a) = day_key cal (sent_at b)"

text \<open>The key of a day row, a template string in the code.\<close>

definition day_row_key :: "jstr \<Rightarrow> jstr" where
  "day_row_key day = ''day:'' @ day"

definition message_row_key :: "jstr \<Rightarrow> jstr" where
  "message_row_key mid = ''msg:'' @ mid"

text \<open>
  The \<^verbatim>\<open>forEach\<close> body for one message. \<open>prev\<close> and \<open>next\<close> are the neighbours, \<open>here\<close> says
  whether the divider stands after this message and \<open>before\<close> whether it stands before it.
\<close>

definition message_row ::
  "calendar \<Rightarrow> int option \<Rightarrow> message option \<Rightarrow> message \<Rightarrow> message option \<Rightarrow> bool \<Rightarrow> bool \<Rightarrow> thread_row" where
  "message_row cal viewerFid prev m next before here =
     (if m_type m \<noteq> Text then Row_system (message_row_key (message_id m)) m
      else Row_message (message_row_key (message_id m)) m (Some (u_fid (sender m)) = viewerFid)
        (before \<or> (case prev of None \<Rightarrow> True | Some p \<Rightarrow> \<not> is_groupable cal p m))
        (here \<or> (case next of None \<Rightarrow> True | Some n \<Rightarrow> \<not> is_groupable cal m n)))"

fun thread_rows_from ::
  "calendar \<Rightarrow> int option \<Rightarrow> int \<Rightarrow> nat option \<Rightarrow> nat \<Rightarrow> jstr option \<Rightarrow> message option \<Rightarrow> message list \<Rightarrow>
   thread_row list" where
  "thread_rows_from cal viewerFid now unread index previousDay prev [] = []"
| "thread_rows_from cal viewerFid now unread index previousDay prev (m # rest) =
     (let day = day_key cal (sent_at m)
      in (if Some day \<noteq> previousDay
          then [Row_day (day_row_key day) (format_day_label cal (sent_at m) now)] else []) @
         [message_row cal viewerFid prev m (case rest of [] \<Rightarrow> None | n # _ \<Rightarrow> Some n)
            (map_option Suc unread = Some index) (unread = Some index)] @
         (if unread = Some index then [Row_unread UNREAD_ROW_KEY] else []) @
         thread_rows_from cal viewerFid now unread (Suc index) (Some day) (Some m) rest)"

text \<open>Where the divider row goes: after this index, if something not sent by the viewer follows.\<close>

definition unread_row_index :: "message list \<Rightarrow> int option \<Rightarrow> jstr option \<Rightarrow> nat option" where
  "unread_row_index ms viewerFid unreadAfterId =
     (case unreadAfterId of
        None \<Rightarrow> None
      | Some i \<Rightarrow>
          if i = [] then None
          else case js_find_index (\<lambda>m. message_id m = i) ms of
                 None \<Rightarrow> None
               | Some n \<Rightarrow> if list_ex (\<lambda>m. Some (u_fid (sender m)) \<noteq> viewerFid) (drop (Suc n) ms)
                            then Some n else None)"

definition build_thread_rows ::
  "calendar \<Rightarrow> message list \<Rightarrow> int option \<Rightarrow> jstr option \<Rightarrow> int \<Rightarrow> thread_row list" where
  "build_thread_rows cal ms viewerFid unreadAfterId now =
     thread_rows_from cal viewerFid now (unread_row_index ms viewerFid unreadAfterId) 0 None None ms"

definition find_message_row_index :: "thread_row list \<Rightarrow> jstr \<Rightarrow> nat option" where
  "find_message_row_index rows mid = js_find_index (\<lambda>r. row_key r = message_row_key mid) rows"

fun row_message :: "thread_row \<Rightarrow> message option" where
  "row_message (Row_system k m) = Some m"
| "row_message (Row_message k m own f l) = Some m"
| "row_message _ = None"

fun row_is_day :: "thread_row \<Rightarrow> bool" where
  "row_is_day (Row_day k l) = True"
| "row_is_day _ = False"

lemma row_message_row [simp]: "row_message (message_row cal v p m n b h) = Some m"
  by (simp add: message_row_def)

lemma row_key_row [simp]: "row_key (message_row cal v p m n b h) = message_row_key (message_id m)"
  by (simp add: message_row_def)

lemma map_filter_append_singleton:
  "List.map_filter f (xs @ ys) = List.map_filter f xs @ List.map_filter f ys"
  by (induction xs) (auto split: option.splits)

lemma rows_messages: "List.map_filter row_message (thread_rows_from cal v now u i d p ms) = ms"
  by (induction ms arbitrary: i d p) (auto simp: Let_def map_filter_append_singleton)

text \<open>All keys of the rows: the message keys, the day keys and the divider's.\<close>

lemma rows_keys_cases:
  "r \<in> set (thread_rows_from cal v now u i d p ms) \<Longrightarrow>
     (\<exists>m \<in> set ms. row_key r = message_row_key (message_id m)) \<or>
     (\<exists>m \<in> set ms. row_key r = day_row_key (day_key cal (sent_at m))) \<or>
     (row_key r = UNREAD_ROW_KEY \<and> (\<exists>n \<ge> i. u = Some n))"
proof (induction ms arbitrary: i d p)
  case Nil
  then show ?case by simp
next
  case (Cons m ms)
  from Cons.prems consider "row_key r = message_row_key (message_id m)"
    | "row_key r = day_row_key (day_key cal (sent_at m))" | "row_key r = UNREAD_ROW_KEY" "u = Some i"
    | "r \<in> set (thread_rows_from cal v now u (Suc i) (Some (day_key cal (sent_at m))) (Some m) ms)"
    by (auto simp: Let_def split: if_splits)
  then show ?case
  proof cases
    case 4
    then show ?thesis using Cons.IH[OF 4] by (auto dest: Suc_leD)
  qed auto
qed

lemma key_kinds [simp]:
  "message_row_key a \<noteq> UNREAD_ROW_KEY" "day_row_key b \<noteq> UNREAD_ROW_KEY" "message_row_key a \<noteq> day_row_key b"
  "UNREAD_ROW_KEY \<noteq> message_row_key a" "UNREAD_ROW_KEY \<noteq> day_row_key b" "day_row_key b \<noteq> message_row_key a"
  "message_row_key a = message_row_key b \<longleftrightarrow> a = b" "day_row_key c = day_row_key b \<longleftrightarrow> c = b"
  by (auto simp: message_row_key_def day_row_key_def UNREAD_ROW_KEY_def)

text \<open>Local days are intervals of time, so equal day keys enclose only equal ones.\<close>

definition contiguous_days :: "calendar \<Rightarrow> bool" where
  "contiguous_days cal \<longleftrightarrow>
     (\<forall>a b c. a \<le> b \<longrightarrow> b \<le> c \<longrightarrow> day_key cal a = day_key cal c \<longrightarrow> day_key cal b = day_key cal a)"

lemma day_rows_later:
  "contiguous_days cal \<Longrightarrow> sorted_wrt (\<lambda>a b. sent_at a \<le> sent_at b) ms \<Longrightarrow>
   \<forall>m \<in> set ms. t \<le> sent_at m \<Longrightarrow>
   day_row_key (day_key cal t) \<notin> row_key ` set (thread_rows_from cal v now u i (Some (day_key cal t)) p ms)"
proof (induction ms arbitrary: i p t)
  case Nil
  then show ?case by simp
next
  case (Cons m ms)
  show ?case
  proof (cases "day_key cal (sent_at m) = day_key cal t")
    case True
    have "day_row_key (day_key cal (sent_at m)) \<notin>
        row_key ` set (thread_rows_from cal v now u (Suc i) (Some (day_key cal (sent_at m))) (Some m) ms)"
      using Cons.IH[of "sent_at m"] Cons.prems by auto
    then show ?thesis using True by (auto simp: Let_def)
  next
    case False
    have ne: "day_key cal (sent_at x) \<noteq> day_key cal t" if "x \<in> set ms" for x
    proof
      assume "day_key cal (sent_at x) = day_key cal t"
      moreover have "t \<le> sent_at m" "sent_at m \<le> sent_at x" using Cons.prems that by auto
      ultimately show False using Cons.prems(1) False unfolding contiguous_days_def by metis
    qed
    show ?thesis
    proof
      assume "day_row_key (day_key cal t) \<in>
        row_key ` set (thread_rows_from cal v now u i (Some (day_key cal t)) p (m # ms))"
      then obtain r where r: "r \<in> set (thread_rows_from cal v now u i (Some (day_key cal t)) p (m # ms))"
        "row_key r = day_row_key (day_key cal t)" by auto
      from rows_keys_cases[OF r(1)] ne False r(2) show False by auto (metis)
    qed
  qed
qed

lemma rows_keys_distinct:
  "contiguous_days cal \<Longrightarrow> sorted_wrt (\<lambda>a b. sent_at a \<le> sent_at b) ms \<Longrightarrow> distinct (map message_id ms) \<Longrightarrow>
   distinct (map row_key (thread_rows_from cal v now u i d p ms))"
proof (induction ms arbitrary: i d p)
  case Nil
  then show ?case by simp
next
  case (Cons m ms)
  let ?R = "thread_rows_from cal v now u (Suc i) (Some (day_key cal (sent_at m))) (Some m) ms"
  have d: "distinct (map row_key ?R)" using Cons by simp
  have day: "day_row_key (day_key cal (sent_at m)) \<notin> row_key ` set ?R"
    using day_rows_later[of cal ms "sent_at m"] Cons.prems by simp
  have msg: "message_row_key (message_id m) \<noteq> row_key r" if "r \<in> set ?R" for r
    using rows_keys_cases[OF that] Cons.prems(3) by auto
  have un: "UNREAD_ROW_KEY \<noteq> row_key r" if "u = Some i" "r \<in> set ?R" for r
    using rows_keys_cases[OF that(2)] that(1) by auto
  have msg': "message_row_key (message_id m) \<notin> row_key ` set ?R" using msg by blast
  have un': "u = Some i \<Longrightarrow> UNREAD_ROW_KEY \<notin> row_key ` set ?R" using un by blast
  show ?case using d day msg' un' by (auto simp: Let_def)
qed

lemma msgs_ok_sorted_time: "msgs_ok ms \<Longrightarrow> sorted_wrt (\<lambda>a b. sent_at a \<le> sent_at b) ms"
  unfolding msgs_ok_def by (auto elim: sorted_wrt_mono_rel[rotated] simp: compare_messages_neg)

text \<open>The bubbles and system lines of a thread, one per message.\<close>

definition bubble_rows :: "thread_row list \<Rightarrow> thread_row list" where
  "bubble_rows rows = filter (\<lambda>r. row_message r \<noteq> None) rows"

lemma bubble_rows_from:
  "bubble_rows (thread_rows_from cal v now u i d p (m # ms)) =
     message_row cal v p m (case ms of [] \<Rightarrow> None | n # _ \<Rightarrow> Some n) (map_option Suc u = Some i) (u = Some i) #
     bubble_rows (thread_rows_from cal v now u (Suc i) (Some (day_key cal (sent_at m))) (Some m) ms)"
  by (simp add: bubble_rows_def Let_def)

lemma bubble_rows_nth:
  "k < length ms \<Longrightarrow> bubble_rows (thread_rows_from cal v now u i d p ms) ! k =
     message_row cal v (if k = 0 then p else Some (ms ! (k - 1))) (ms ! k)
       (if Suc k < length ms then Some (ms ! Suc k) else None)
       (map_option Suc u = Some (i + k)) (u = Some (i + k))"
proof (induction ms arbitrary: i d p k)
  case Nil
  then show ?case by simp
next
  case (Cons m ms)
  show ?case
  proof (cases k)
    case 0
    then show ?thesis by (cases ms) (simp_all add: bubble_rows_from del: thread_rows_from.simps)
  next
    case (Suc j)
    then show ?thesis using Cons by (cases j) (simp_all add: bubble_rows_from del: thread_rows_from.simps)
  qed
qed

lemma length_bubble_rows: "length (bubble_rows (thread_rows_from cal v now u i d p ms)) = length ms"
  by (induction ms arbitrary: i d p) (simp_all add: bubble_rows_from del: thread_rows_from.simps(2), simp add: bubble_rows_def)

lemma unread_rows_none:
  "\<forall>n. u = Some n \<longrightarrow> n < i \<Longrightarrow> UNREAD_ROW_KEY \<notin> row_key ` set (thread_rows_from cal v now u i d p ms)"
proof
  assume u: "\<forall>n. u = Some n \<longrightarrow> n < i"
  assume "UNREAD_ROW_KEY \<in> row_key ` set (thread_rows_from cal v now u i d p ms)"
  then obtain r where r: "r \<in> set (thread_rows_from cal v now u i d p ms)" "row_key r = UNREAD_ROW_KEY" by auto
  from rows_keys_cases[OF r(1)] r(2) u show False by auto
qed

text \<open>
  The rows of a thread: every loaded message is rendered exactly once and in order; no two rows share
  a key; and grouping is consistent: of two neighbouring text messages the upper one closes its group
  exactly when the lower one opens one, and otherwise they are from one sender, on one day, within the
  grouping window.
\<close>

theorem thread_rows_faithful:
  assumes "msgs_ok ms" "contiguous_days cal"
  shows "List.map_filter row_message (build_thread_rows cal ms v after now) = ms \<and>
    distinct (map row_key (build_thread_rows cal ms v after now)) \<and>
    (\<forall>k. Suc k < length ms \<longrightarrow> m_type (ms ! k) = Text \<longrightarrow> m_type (ms ! Suc k) = Text \<longrightarrow>
       row_last (bubble_rows (build_thread_rows cal ms v after now) ! k) =
         row_first (bubble_rows (build_thread_rows cal ms v after now) ! Suc k) \<and>
       (\<not> row_last (bubble_rows (build_thread_rows cal ms v after now) ! k) \<longrightarrow>
          is_groupable cal (ms ! k) (ms ! Suc k)))"
  using rows_keys_distinct[OF assms(2) msgs_ok_sorted_time[OF assms(1)] msgs_ok_distinct[OF assms(1)]]
  by (auto simp: build_thread_rows_def rows_messages bubble_rows_nth message_row_def)

text \<open>A calendar of days of 24 hours, counted from zero, in one month of one year.\<close>

definition flat_calendar :: calendar where
  "flat_calendar = \<lparr>cal_year = (\<lambda>_. 2), cal_month = (\<lambda>_. 0), cal_date = (\<lambda>t. nat (t div DAY_MS)),
     cal_start_of_day = (\<lambda>t. DAY_MS * (t div DAY_MS)), cal_weekday_long = (\<lambda>_. ''Monday''),
     cal_weekday_short = (\<lambda>_. ''Mon''), cal_month_long = (\<lambda>_ _. ''January 1''),
     cal_month_short = (\<lambda>_ _. ''Jan 1''), cal_time = (\<lambda>_. ''9:41 AM'')\<rparr>"

lemma pad2_inject: "pad2 (js_of_nat m) = pad2 (js_of_nat n) \<Longrightarrow> m = n"
proof -
  have val: "js_to_nat (replicate k CHR ''0'' @ s) = js_to_nat s" for k s
    by (induction k) (simp_all add: js_to_nat_def of_char_def)
  assume "pad2 (js_of_nat m) = pad2 (js_of_nat n)"
  then have "js_to_nat (pad2 (js_of_nat m)) = js_to_nat (pad2 (js_of_nat n))" by simp
  then show "m = n" by (simp add: pad2_def val)
qed

lemma flat_calendar_contiguous: "contiguous_days flat_calendar"
proof -
  have "a \<le> b \<Longrightarrow> b \<le> c \<Longrightarrow> nat (a div DAY_MS) = nat (c div DAY_MS) \<Longrightarrow> nat (b div DAY_MS) = nat (a div DAY_MS)"
    for a b c :: int
    using nat_mono[OF zdiv_mono1[of a b DAY_MS]] nat_mono[OF zdiv_mono1[of b c DAY_MS]] by (simp add: DAY_MS_def)
  then show ?thesis
    by (fastforce simp: contiguous_days_def day_key_def flat_calendar_def dest: pad2_inject)
qed

theorem thread_rows_faithful_witness:
  "\<exists>ms. msgs_ok ms \<and> map message_id ms = [''a'', ''b'', ''c''] \<and>
     map row_key (build_thread_rows flat_calendar ms (Some 1) (Some ''b'') 5) =
       [''day:2-01-00'', ''msg:a'', ''msg:b'', ''row:unread'', ''msg:c''] \<and>
     distinct (map row_key (build_thread_rows flat_calendar ms (Some 1) (Some ''b'') 5))"
proof -
  define ms where "ms = [a_text ''a'' 2 1, a_text ''b'' 2 2, a_text ''c'' 2 3]"
  have ok: "msgs_ok ms" unfolding ms_def msgs_ok_def by code_simp
  have k: "map row_key (build_thread_rows flat_calendar ms (Some 1) (Some ''b'') 5) =
      [''day:2-01-00'', ''msg:a'', ''msg:b'', ''row:unread'', ''msg:c'']"
    unfolding ms_def by code_simp
  have "map message_id ms = [''a'', ''b'', ''c'']" by (simp add: ms_def a_text_def)
  then show ?thesis
    using ok k thread_rows_faithful[OF ok flat_calendar_contiguous, of "Some 1" "Some ''b''" 5]
    by (intro exI[of _ ms]) (simp only: simp_thms)
qed

subsection \<open>Read receipts\<close>

datatype read_receipt = Receipt_sent | Receipt_seen

definition is_seen_by_peer :: "int \<Rightarrow> int option \<Rightarrow> bool" where
  "is_seen_by_peer sentAt peerLastReadAt =
     (case peerLastReadAt of None \<Rightarrow> False | Some t \<Rightarrow> if t \<le> 0 then False else t \<ge> sentAt)"

text \<open>The loop of \<^verbatim>\<open>placeReadReceipt\<close>, over the messages from the newest back.\<close>

fun place_receipt_from :: "message list \<Rightarrow> int \<Rightarrow> int option \<Rightarrow> (jstr \<times> read_receipt) option" where
  "place_receipt_from [] viewerFid peer = None"
| "place_receipt_from (m # ms) viewerFid peer =
     (if m_type m \<noteq> Text \<or> is_deleted m then place_receipt_from ms viewerFid peer
      else if u_fid (sender m) \<noteq> viewerFid then None
      else if send_state m \<noteq> None then place_receipt_from ms viewerFid peer
      else Some (message_id m, if is_seen_by_peer (sent_at m) peer then Receipt_seen else Receipt_sent))"

definition place_read_receipt ::
  "message list \<Rightarrow> int option \<Rightarrow> int option \<Rightarrow> (jstr \<times> read_receipt) option" where
  "place_read_receipt ms viewerFid peerLastReadAt =
     (case (viewerFid, peerLastReadAt) of
        (Some v, Some t) \<Rightarrow> place_receipt_from (rev ms) v (Some t)
      | _ \<Rightarrow> None)"

lemma place_receipt_from_spec:
  "place_receipt_from xs v p = Some (mid, r) \<longleftrightarrow>
     (\<exists>ys m zs. xs = ys @ m # zs \<and> message_id m = mid \<and> m_type m = Text \<and> \<not> is_deleted m \<and>
        u_fid (sender m) = v \<and> send_state m = None \<and>
        (\<forall>y \<in> set ys. m_type y = Text \<and> \<not> is_deleted y \<longrightarrow> u_fid (sender y) = v \<and> send_state y \<noteq> None) \<and>
        r = (if is_seen_by_peer (sent_at m) p then Receipt_seen else Receipt_sent))"
  (is "_ \<longleftrightarrow> ?spec xs")
proof (induction xs)
  case Nil
  then show ?case by simp
next
  case (Cons x xs)
  let ?skip = "m_type x \<noteq> Text \<or> is_deleted x \<or> (u_fid (sender x) = v \<and> send_state x \<noteq> None)"
  show ?case
  proof (cases ?skip)
    case True
    have "?spec (x # xs) \<longleftrightarrow> ?spec xs"
    proof
      assume "?spec (x # xs)"
      then obtain ys m zs where s: "x # xs = ys @ m # zs" "message_id m = mid" "m_type m = Text" "\<not> is_deleted m"
        "u_fid (sender m) = v" "send_state m = None"
        "\<forall>y \<in> set ys. m_type y = Text \<and> \<not> is_deleted y \<longrightarrow> u_fid (sender y) = v \<and> send_state y \<noteq> None"
        "r = (if is_seen_by_peer (sent_at m) p then Receipt_seen else Receipt_sent)" by blast
      then obtain ys' where "ys = x # ys'" using True by (cases ys) auto
      then show "?spec xs" using s by auto
    next
      assume "?spec xs"
      then obtain ys m zs where s: "xs = ys @ m # zs" "message_id m = mid" "m_type m = Text" "\<not> is_deleted m"
        "u_fid (sender m) = v" "send_state m = None"
        "\<forall>y \<in> set ys. m_type y = Text \<and> \<not> is_deleted y \<longrightarrow> u_fid (sender y) = v \<and> send_state y \<noteq> None"
        "r = (if is_seen_by_peer (sent_at m) p then Receipt_seen else Receipt_sent)" by blast
      then show "?spec (x # xs)" using True by (intro exI[of _ "x # ys"] exI[of _ m] exI[of _ zs]) auto
    qed
    moreover have "place_receipt_from (x # xs) v p = place_receipt_from xs v p" using True by auto
    ultimately show ?thesis using Cons.IH by (simp only:)
  next
    case False
    have "?spec (x # xs) \<longleftrightarrow> u_fid (sender x) = v \<and> message_id x = mid \<and>
        r = (if is_seen_by_peer (sent_at x) p then Receipt_seen else Receipt_sent)"
    proof
      assume "?spec (x # xs)"
      then obtain ys m zs where s: "x # xs = ys @ m # zs" "message_id m = mid" "u_fid (sender m) = v"
        "\<forall>y \<in> set ys. m_type y = Text \<and> \<not> is_deleted y \<longrightarrow> u_fid (sender y) = v \<and> send_state y \<noteq> None"
        "r = (if is_seen_by_peer (sent_at m) p then Receipt_seen else Receipt_sent)" by blast
      then have "ys = []" using False by (cases ys) auto
      then show "u_fid (sender x) = v \<and> message_id x = mid \<and>
        r = (if is_seen_by_peer (sent_at x) p then Receipt_seen else Receipt_sent)" using s by simp
    next
      assume "u_fid (sender x) = v \<and> message_id x = mid \<and>
        r = (if is_seen_by_peer (sent_at x) p then Receipt_seen else Receipt_sent)"
      then show "?spec (x # xs)" using False by (intro exI[of _ "[]"] exI[of _ x] exI[of _ xs]) auto
    qed
    moreover have "place_receipt_from (x # xs) v p = (if u_fid (sender x) = v
        then Some (message_id x, if is_seen_by_peer (sent_at x) p then Receipt_seen else Receipt_sent) else None)"
      using False by auto
    ultimately show ?thesis by (auto simp del: place_receipt_from.simps)
  qed
qed

lemma ex_rev_split:
  "(\<exists>ys m zs. ms = rev zs @ m # rev ys \<and> Q m \<and> (\<forall>y \<in> set ys. R y)) \<longleftrightarrow>
   (\<exists>before m rest. ms = before @ m # rest \<and> Q m \<and> (\<forall>y \<in> set rest. R y))"
  by (metis rev_rev_ident set_rev)

text \<open>
  The one read receipt of a thread is under the viewer's newest confirmed message that is not
  deleted, and only while nothing of anyone else's follows it; it says "seen" exactly when the
  peer's read mark is set and has reached the message.
\<close>

theorem receipt_placement:
  "place_read_receipt ms viewer peer = Some (mid, r) \<longleftrightarrow>
     (\<exists>v t before m rest. viewer = Some v \<and> peer = Some t \<and> ms = before @ m # rest \<and> message_id m = mid \<and>
        m_type m = Text \<and> \<not> is_deleted m \<and> u_fid (sender m) = v \<and> send_state m = None \<and>
        (\<forall>y \<in> set rest. m_type y = Text \<and> \<not> is_deleted y \<longrightarrow> u_fid (sender y) = v \<and> send_state y \<noteq> None) \<and>
        r = (if 0 < t \<and> sent_at m \<le> t then Receipt_seen else Receipt_sent))"
proof (cases "viewer = None \<or> peer = None")
  case True
  then show ?thesis by (auto simp: place_read_receipt_def split: option.splits)
next
  case False
  then obtain v t where vt: "viewer = Some v" "peer = Some t" by auto
  have seen: "is_seen_by_peer (sent_at m) (Some t) \<longleftrightarrow> 0 < t \<and> sent_at m \<le> t" for m :: message
    by (simp add: is_seen_by_peer_def)
  have rev: "rev ms = ys @ m # zs \<longleftrightarrow> ms = rev zs @ m # rev ys" for ys zs and m :: message
    by (metis append.assoc append_Cons append_Nil rev.simps(2) rev_append rev_rev_ident)
  show ?thesis
    using ex_rev_split[of ms "\<lambda>m. message_id m = mid \<and> m_type m = Text \<and> \<not> is_deleted m \<and>
        u_fid (sender m) = v \<and> send_state m = None \<and>
        r = (if 0 < t \<and> sent_at m \<le> t then Receipt_seen else Receipt_sent)"
      "\<lambda>y. m_type y = Text \<and> \<not> is_deleted y \<longrightarrow> u_fid (sender y) = v \<and> send_state y \<noteq> None"]
    by (simp add: vt place_read_receipt_def place_receipt_from_spec rev seen conj_ac)
qed

theorem receipt_placement_witness:
  "place_read_receipt [a_text ''a'' 1 5, a_text ''b'' 1 9\<lparr>send_state := Some Sending\<rparr>] (Some 1) (Some 7) =
     Some (''a'', Receipt_seen)"
  by (subst receipt_placement)
    (intro exI[of _ 1] exI[of _ 7] exI[of _ "[]"] exI[of _ "a_text ''a'' 1 5"]
      exI[of _ "[a_text ''b'' 1 9\<lparr>send_state := Some Sending\<rparr>]"], simp add: a_text_def a_user_def)

subsection \<open>Taps, reactors and labels\<close>

text \<open>Coordinates and times are the integers of pointer events; the quick reaction itself is a string.\<close>

definition DOUBLE_TAP_MS :: int where "DOUBLE_TAP_MS = 300"

definition DOUBLE_TAP_SLOP_PX :: int where "DOUBLE_TAP_SLOP_PX = 24"

record tap =
  tap_time :: int
  tap_x :: int
  tap_y :: int

definition is_double_tap :: "tap option \<Rightarrow> tap \<Rightarrow> bool" where
  "is_double_tap previous current =
     (case previous of
        None \<Rightarrow> False
      | Some p \<Rightarrow>
          (let elapsed = tap_time current - tap_time p
           in if elapsed < 0 \<or> elapsed > DOUBLE_TAP_MS then False
              else abs (tap_x current - tap_x p) \<le> DOUBLE_TAP_SLOP_PX \<and>
                   abs (tap_y current - tap_y p) \<le> DOUBLE_TAP_SLOP_PX))"

record reactor_paging_state =
  rp_visible_count :: int
  rp_cursor :: "jstr option"
  rp_has_more :: bool
  rp_is_loading :: bool
  rp_has_error :: bool

definition should_auto_page_reactors :: "reactor_paging_state \<Rightarrow> bool" where
  "should_auto_page_reactors st \<longleftrightarrow> rp_visible_count st = 0 \<and> rp_has_more st \<and> rp_cursor st \<noteq> None \<and>
     \<not> rp_is_loading st \<and> \<not> rp_has_error st"

text \<open>An optional string that is also tested for being empty, as \<^verbatim>\<open>x || y\<close> does.\<close>

definition nonempty :: "jstr option \<Rightarrow> jstr option" where
  "nonempty x = (case x of Some t \<Rightarrow> if t = [] then None else Some t | None \<Rightarrow> None)"

definition user_label :: "message_user \<Rightarrow> jstr" where
  "user_label u =
     (if u_display_name u \<noteq> [] then u_display_name u
      else case nonempty (u_username u) of
             Some n \<Rightarrow> ''@'' @ n
           | None \<Rightarrow> ''fid '' @ js_of_int (u_fid u))"

text \<open>\<open>enc\<close> is \<^verbatim>\<open>encodeURIComponent\<close>.\<close>

definition mention_href :: "(jstr \<Rightarrow> jstr) \<Rightarrow> jstr \<Rightarrow> jstr" where
  "mention_href enc username = ''/app/profile/'' @ enc username"

definition profile_href :: "(jstr \<Rightarrow> jstr) \<Rightarrow> message_user \<Rightarrow> jstr" where
  "profile_href enc u =
     (case nonempty (u_username u) of
        Some n \<Rightarrow> mention_href enc n
      | None \<Rightarrow> ''/app/profile/'' @ js_of_int (u_fid u))"

fun join_with :: "jstr \<Rightarrow> jstr list \<Rightarrow> jstr" where
  "join_with sep [] = []"
| "join_with sep [x] = x"
| "join_with sep (x # y # zs) = x @ sep @ join_with sep (y # zs)"

definition others_of :: "conversation \<Rightarrow> int option \<Rightarrow> message_user list" where
  "others_of c viewerFid = filter (\<lambda>p. Some (u_fid p) \<noteq> viewerFid) (participants c)"

definition conversation_title :: "conversation \<Rightarrow> int option \<Rightarrow> jstr" where
  "conversation_title c viewerFid =
     (case nonempty (c_name c) of
        Some n \<Rightarrow> n
      | None \<Rightarrow>
          (case counterparty c of
             Some p \<Rightarrow> user_label p
           | None \<Rightarrow>
               if others_of c viewerFid = [] then ''Conversation''
               else join_with '', '' (map user_label (others_of c viewerFid))))"

definition conversation_avatar :: "conversation \<Rightarrow> int option \<Rightarrow> jstr option \<times> jstr" where
  "conversation_avatar c viewerFid =
     (let name = conversation_title c viewerFid
      in case nonempty (photo_url c) of
           Some url \<Rightarrow> (Some url, name)
         | None \<Rightarrow>
             (let peer = (case counterparty c of
                            Some p \<Rightarrow> Some p
                          | None \<Rightarrow> find (\<lambda>p. Some (u_fid p) \<noteq> viewerFid) (participants c))
              in (Option.bind peer u_pfp_url, name)))"

fun system_label :: "message_type \<Rightarrow> jstr" where
  "system_label Text = []"
| "system_label Group_name_change = ''changed the group name''"
| "system_label Group_membership_addition = ''added a member''"
| "system_label Group_membership_removal = ''removed a member''"
| "system_label Pin_message = ''pinned a message''"
| "system_label Message_ttl_change = ''changed disappearing messages''"
| "system_label Rich_announcement = ''posted an announcement''"

definition system_message_text :: "message \<Rightarrow> jstr" where
  "system_message_text m =
     (if m_type m = Text then m_text m
      else if m_text m \<noteq> [] then m_text m
      else user_label (sender m) @ '' '' @ system_label (m_type m))"

text \<open>\<^verbatim>\<open>toLowerCase\<close> on the code units below 128, and \<^verbatim>\<open>split(";")[0]\<close>.\<close>

definition ascii_lower :: "char \<Rightarrow> char" where
  "ascii_lower c = (let n = (of_char c :: nat) in if 65 \<le> n \<and> n \<le> 90 then char_of (n + 32) else c)"

definition media_label :: "jstr option \<Rightarrow> jstr" where
  "media_label mimeType =
     (case map_option (\<lambda>t. js_trim (takeWhile (\<lambda>c. c \<noteq> CHR '';'') (map ascii_lower t))) mimeType of
        None \<Rightarrow> ''Photo''
      | Some mime \<Rightarrow>
          if mime = [] then ''Photo''
          else if mime = ''image/gif'' then ''GIF''
          else if prefix ''image/'' mime then ''Photo''
          else if prefix ''video/'' mime then ''Video''
          else if prefix ''audio/'' mime then ''Voice message''
          else ''File'')"

definition attachment_label :: "message \<Rightarrow> jstr" where
  "attachment_label m =
     (case metadata m of
        None \<Rightarrow> ''Message''
      | Some md \<Rightarrow>
          (case md_medias md of
             media # _ \<Rightarrow> media_label (media_mime_type media)
           | [] \<Rightarrow> if md_urls md \<noteq> [] then ''Link'' else ''Message''))"

definition last_message_preview :: "message option \<Rightarrow> int option \<Rightarrow> bool \<Rightarrow> jstr" where
  "last_message_preview msg viewerFid isGroup =
     (case msg of
        None \<Rightarrow> ''No messages yet''
      | Some m \<Rightarrow>
          if is_deleted m then ''Message deleted''
          else if m_type m \<noteq> Text then system_message_text m
          else let body = (if js_trim (m_text m) \<noteq> [] then js_trim (m_text m) else attachment_label m)
               in if Some (u_fid (sender m)) = viewerFid then ''You: '' @ body
                  else if isGroup then user_label (sender m) @ '': '' @ body
                  else body)"

lemma media_label_nonempty: "media_label t \<noteq> []"
  by (auto simp: media_label_def split: option.splits)

lemma user_label_nonempty: "user_label u \<noteq> []"
  by (auto simp: user_label_def split: option.splits)

lemma join_with_nonempty: "xs \<noteq> [] \<Longrightarrow> \<forall>x \<in> set xs. x \<noteq> [] \<Longrightarrow> join_with sep xs \<noteq> []"
  by (cases "(sep, xs)" rule: join_with.cases) auto

text \<open>
  No inbox row is blank: every conversation has a title and every last message a preview, whatever
  is missing from the data, and a deleted message's text never shows.
\<close>

theorem inbox_row_never_blank:
  "conversation_title c viewer \<noteq> [] \<and> last_message_preview msg viewer isGroup \<noteq> [] \<and>
   (is_deleted m \<longrightarrow> last_message_preview (Some m) viewer isGroup = ''Message deleted'')"
proof -
  have "join_with '', '' (map user_label (others_of c viewer)) \<noteq> []" if "others_of c viewer \<noteq> []"
    using that by (intro join_with_nonempty) (auto simp: user_label_nonempty)
  then have "conversation_title c viewer \<noteq> []"
    by (auto simp: conversation_title_def user_label_nonempty nonempty_def split: option.splits if_splits)
  moreover have "attachment_label x \<noteq> []" for x
    by (auto simp: attachment_label_def media_label_nonempty split: option.splits list.splits)
  ultimately show ?thesis
    by (auto simp: last_message_preview_def system_message_text_def user_label_nonempty Let_def
        split: option.splits)
qed

theorem inbox_row_never_blank_witness:
  "last_message_preview (Some (a_text ''a'' 2 1\<lparr>is_deleted := True\<rparr>)) (Some 1) False = ''Message deleted''"
  using inbox_row_never_blank[of undefined undefined None False "a_text ''a'' 2 1\<lparr>is_deleted := True\<rparr>"]
  by (simp add: last_message_preview_def)

end
