(* ===== verification/Events_Socket.thy ===== *)
theory Events_Socket
  imports Messages_Types
begin

section \<open>The messaging events socket\<close>

text \<open>
  \<^verbatim>\<open>landing/lib/api/messagesEvents.ts\<close>: the close-code policy, the ticket mint and the
  reconnecting subscription. \<open>ws\<close> holds the variables of the closure \<^verbatim>\<open>subscribeToMessageEvents\<close>
  together with the browser's side of it: the state of every socket it created, the mints and
  refreshes in flight, and the due time of the reconnect timer. Each event the browser can
  deliver is a \<open>ws_input\<close>; \<open>handle\<close> runs its handler and returns the callbacks it invoked.
  A closed or closing socket delivers no open, message or error event.
\<close>

subsection \<open>Policy\<close>

definition RECONNECT_BASE_MS :: int where "RECONNECT_BASE_MS = 1000"

definition RECONNECT_MAX_MS :: int where "RECONNECT_MAX_MS = 30000"

definition STALE_SOCKET_MS :: int where "STALE_SOCKET_MS = 60000"

definition RATE_LIMITED_RECONNECT_MS :: int where "RATE_LIMITED_RECONNECT_MS = 60000"

definition CLOSE_UNAUTHORIZED :: int where "CLOSE_UNAUTHORIZED = 4401"

definition CLOSE_TOKEN_REQUIRED :: int where "CLOSE_TOKEN_REQUIRED = 4403"

definition CLOSE_DISABLED :: int where "CLOSE_DISABLED = 4404"

definition CLOSE_RATE_LIMITED :: int where "CLOSE_RATE_LIMITED = 4429"

definition SESSION_EXPIRED_REASON :: jstr where "SESSION_EXPIRED_REASON = ''session_expired''"

definition TICKET_REJECTED_REASON :: jstr where "TICKET_REJECTED_REASON = ''ticket_rejected''"

definition MAX_TICKET_REJECTIONS :: nat where "MAX_TICKET_REJECTIONS = 5"

datatype unavailable_reason = Token_required | Disabled | Unauthorized | No_session

datatype close_action =
  Act_refresh_auth
  | Act_remint
  | Act_give_up unavailable_reason
  | Act_reconnect int

definition close_action_of :: "int \<Rightarrow> bool \<Rightarrow> jstr \<Rightarrow> close_action" where
  "close_action_of code hasRetriedAuth reason =
     (if code = CLOSE_UNAUTHORIZED then
        (if reason = TICKET_REJECTED_REASON then Act_remint
         else if hasRetriedAuth then Act_give_up Unauthorized else Act_refresh_auth)
      else if code = CLOSE_TOKEN_REQUIRED then
        (if reason = MESSAGING_TOKEN_UNAVAILABLE then Act_reconnect 0 else Act_give_up Token_required)
      else if code = CLOSE_DISABLED then Act_give_up Disabled
      else if code = CLOSE_RATE_LIMITED then Act_reconnect RATE_LIMITED_RECONNECT_MS
      else Act_reconnect 0)"

datatype ready_state = Rs_connecting | Rs_open | Rs_closing | Rs_closed

definition should_replace_socket :: "ready_state option \<Rightarrow> int \<Rightarrow> int \<Rightarrow> bool" where
  "should_replace_socket readyState lastFrameAt now =
     (if readyState \<noteq> Some Rs_open then True else now - lastFrameAt > STALE_SOCKET_MS)"

definition reconnect_delay_ms :: "nat \<Rightarrow> int" where
  "reconnect_delay_ms attempt = min (RECONNECT_BASE_MS * 2 ^ attempt) RECONNECT_MAX_MS"

subsection \<open>Minting a ticket\<close>

datatype ticket_outcome = Ticket jstr | Ticket_give_up unavailable_reason | Ticket_retry int

datatype ticket_attempt = Attempt ticket_outcome | Attempt_unauthorized

text \<open>
  The answer to \<^verbatim>\<open>POST /events/ticket\<close>: \<open>Inr\<close> the \<^verbatim>\<open>ticket\<close> field, \<open>None\<close> if it is not a string.
\<close>

definition request_ticket :: "js_error + jstr option \<Rightarrow> ticket_attempt" where
  "request_ticket r =
     (case r of
        Inr ticket \<Rightarrow> (case ticket of
            None \<Rightarrow> Attempt (Ticket_retry 0)
          | Some t \<Rightarrow> if t = [] then Attempt (Ticket_retry 0) else Attempt (Ticket t))
      | Inl e \<Rightarrow> (case e of
            Api_error status d sm \<Rightarrow>
              if status = 401 then Attempt_unauthorized
              else if is_messaging_disabled_error e then Attempt (Ticket_give_up Disabled)
              else if status = 429 then Attempt (Ticket_retry RATE_LIMITED_RECONNECT_MS)
              else Attempt (Ticket_retry 0)
          | _ \<Rightarrow> Attempt (Ticket_retry 0)))"

datatype refresh_result = Refreshed | Refresh_denied | Refresh_failed

definition mint_events_ticket ::
  "bool \<Rightarrow> js_error + jstr option \<Rightarrow> refresh_result \<Rightarrow> js_error + jstr option \<Rightarrow> ticket_outcome" where
  "mint_events_ticket hasJwt first refresh second =
     (if \<not> hasJwt then Ticket_give_up No_session
      else case request_ticket first of
             Attempt out \<Rightarrow> out
           | Attempt_unauthorized \<Rightarrow>
               (case refresh of
                  Refresh_failed \<Rightarrow> Ticket_retry 0
                | Refresh_denied \<Rightarrow> Ticket_give_up No_session
                | Refreshed \<Rightarrow>
                    (case request_ticket second of
                       Attempt_unauthorized \<Rightarrow> Ticket_give_up Unauthorized
                     | Attempt out \<Rightarrow> out)))"

subsection \<open>Frames\<close>

text \<open>
  A parsed JSON value; \<^verbatim>\<open>JSON.parse\<close> itself is the argument \<open>parse\<close>, \<open>None\<close> when it throws. A
  field of an object is the last one of that name.
\<close>

datatype json = J_null | J_bool bool | J_num int | J_str jstr | J_arr "json list" | J_obj "(jstr \<times> json) list"

fun json_field :: "json \<Rightarrow> jstr \<Rightarrow> json option" where
  "json_field (J_obj fs) k = map_of (rev fs) k"
| "json_field _ k = None"

fun json_is_object :: "json \<Rightarrow> bool" where
  "json_is_object (J_obj _) = True"
| "json_is_object (J_arr _) = True"
| "json_is_object _ = False"

fun json_string :: "json option \<Rightarrow> jstr option" where
  "json_string (Some (J_str s)) = Some s"
| "json_string _ = None"

definition EVENT_TYPES :: "jstr set" where
  "EVENT_TYPES = {''message'', ''read'', ''inbox'', ''ping''}"

definition parse_messages_event :: "(jstr \<Rightarrow> json option) \<Rightarrow> jstr \<Rightarrow> json option" where
  "parse_messages_event parse raw =
     (case parse raw of
        None \<Rightarrow> None
      | Some payload \<Rightarrow>
          if \<not> json_is_object payload then None
          else case json_string (json_field payload ''type'') of
                 None \<Rightarrow> None
               | Some ty \<Rightarrow>
                   if ty \<notin> EVENT_TYPES then None
                   else if ty = ''ping'' then Some (J_obj [(''type'', J_str ''ping'')])
                   else if json_string (json_field payload ''conversation_id'') = None then None
                   else if ty = ''message'' \<and>
                       Option.bind (json_field payload ''message'') (\<lambda>m. json_string (json_field m ''message_id'')) = None
                   then None
                   else Some payload)"

definition event_type :: "json \<Rightarrow> jstr option" where
  "event_type ev = json_string (json_field ev ''type'')"

subsection \<open>The subscription\<close>

datatype ws_callback =
  Cb_event json
  | Cb_open
  | Cb_close
  | Cb_resume
  | Cb_unavailable unavailable_reason

record ws =
  ws_cancelled :: bool
  ws_stopped :: bool
  ws_socket :: "nat option"
  ws_reconnect_timer :: "int option"
  ws_ping_timer :: "nat option"
  ws_reconnect_attempt :: nat
  ws_has_retried_auth :: bool
  ws_ticket_rejections :: nat
  ws_last_frame_at :: int
  ws_rate_limited_until :: int
  ws_connect_generation :: nat
  ws_is_minting :: bool
  ws_sockets :: "nat \<rightharpoonup> ready_state"
  ws_next_socket :: nat
  ws_mints :: "nat list"
  ws_refreshes :: nat

definition stop_ping_timer :: "ws \<Rightarrow> ws" where
  "stop_ping_timer s = s\<lparr>ws_ping_timer := None\<rparr>"

definition clear_timers :: "ws \<Rightarrow> ws" where
  "clear_timers s = stop_ping_timer (s\<lparr>ws_reconnect_timer := None\<rparr>)"

definition give_up :: "unavailable_reason \<Rightarrow> ws \<Rightarrow> ws \<times> ws_callback list" where
  "give_up reason s = (clear_timers (s\<lparr>ws_stopped := True\<rparr>), [Cb_unavailable reason])"

definition schedule_reconnect :: "int \<Rightarrow> int \<Rightarrow> ws \<Rightarrow> ws" where
  "schedule_reconnect minDelay now s =
     (if ws_cancelled s \<or> ws_stopped s \<or> ws_reconnect_timer s \<noteq> None then s
      else s\<lparr>ws_rate_limited_until := (if minDelay > 0 then now + minDelay else ws_rate_limited_until s),
             ws_reconnect_attempt := ws_reconnect_attempt s + 1,
             ws_reconnect_timer := Some (now + max minDelay (reconnect_delay_ms (ws_reconnect_attempt s)))\<rparr>)"

text \<open>\<^verbatim>\<open>close()\<close> on a socket starts the closing handshake unless it is closing or closed.\<close>

definition close_socket :: "nat \<Rightarrow> ws \<Rightarrow> ws" where
  "close_socket i s =
     (if ws_sockets s i = Some Rs_connecting \<or> ws_sockets s i = Some Rs_open
      then s\<lparr>ws_sockets := (ws_sockets s)(i \<mapsto> Rs_closing)\<rparr> else s)"

definition detach_socket :: "ws \<Rightarrow> ws \<times> ws_callback list" where
  "detach_socket s =
     (case ws_socket s of
        None \<Rightarrow> (s, [])
      | Some previous \<Rightarrow> (close_socket previous (stop_ping_timer (s\<lparr>ws_socket := None\<rparr>)), [Cb_close]))"

definition retire_stale_socket :: "int \<Rightarrow> ws \<Rightarrow> ws \<times> ws_callback list" where
  "retire_stale_socket now s =
     (case detach_socket s of (s1, cbs) \<Rightarrow> (schedule_reconnect 0 now s1, cbs))"

text \<open>\<^verbatim>\<open>connect\<close> up to its await; \<open>connect_done\<close> is the rest.\<close>

definition connect :: "ws \<Rightarrow> ws \<times> ws_callback list" where
  "connect s =
     (if ws_cancelled s \<or> ws_stopped s then (s, [])
      else (case detach_socket s of
              (s1, cbs) \<Rightarrow>
                (let g = ws_connect_generation s1 + 1
                 in (s1\<lparr>ws_connect_generation := g, ws_is_minting := True, ws_mints := g # ws_mints s1\<rparr>, cbs))))"

definition connect_done :: "nat \<Rightarrow> ticket_outcome \<Rightarrow> bool \<Rightarrow> int \<Rightarrow> ws \<Rightarrow> ws \<times> ws_callback list" where
  "connect_done generation out throws now s =
     (if generation \<noteq> ws_connect_generation s then (s, [])
      else let s1 = s\<lparr>ws_is_minting := False\<rparr>
           in if ws_cancelled s1 \<or> ws_stopped s1 then (s1, [])
              else case out of
                     Ticket_give_up reason \<Rightarrow> give_up reason s1
                   | Ticket_retry minDelay \<Rightarrow> (schedule_reconnect minDelay now s1, [])
                   | Ticket ticket \<Rightarrow>
                       if throws then (schedule_reconnect 0 now s1, [])
                       else (s1\<lparr>ws_socket := Some (ws_next_socket s1), ws_next_socket := ws_next_socket s1 + 1,
                               ws_sockets := (ws_sockets s1)(ws_next_socket s1 \<mapsto> Rs_connecting)\<rparr>, []))"

definition on_open :: "nat \<Rightarrow> int \<Rightarrow> ws \<Rightarrow> ws \<times> ws_callback list" where
  "on_open i now s =
     (s\<lparr>ws_reconnect_attempt := 0, ws_has_retried_auth := False, ws_ticket_rejections := 0,
        ws_last_frame_at := now, ws_ping_timer := Some i\<rparr>, [Cb_open])"

definition on_ping_timer :: "nat \<Rightarrow> int \<Rightarrow> ws \<Rightarrow> ws \<times> ws_callback list" where
  "on_ping_timer i now s =
     (if ws_socket s \<noteq> Some i then (s, [])
      else if now - ws_last_frame_at s > STALE_SOCKET_MS then retire_stale_socket now s
      else (s, []))"

definition on_message :: "(jstr \<Rightarrow> json option) \<Rightarrow> jstr \<Rightarrow> int \<Rightarrow> ws \<Rightarrow> ws \<times> ws_callback list" where
  "on_message parse frame now s =
     (s\<lparr>ws_last_frame_at := now\<rparr>,
      (case parse_messages_event parse frame of
         None \<Rightarrow> []
       | Some ev \<Rightarrow> if event_type ev \<noteq> Some ''ping'' then [Cb_event ev] else []))"

definition on_close :: "nat \<Rightarrow> int \<Rightarrow> jstr \<Rightarrow> int \<Rightarrow> ws \<Rightarrow> ws \<times> ws_callback list" where
  "on_close i code reason now s =
     (if ws_socket s \<noteq> Some i then (s, [])
      else let s1 = (stop_ping_timer s)\<lparr>ws_socket := None\<rparr>
           in (case (case close_action_of code (ws_has_retried_auth s1) reason of
                 Act_give_up r \<Rightarrow> give_up r s1
               | Act_remint \<Rightarrow>
                   (let s2 = s1\<lparr>ws_ticket_rejections := ws_ticket_rejections s1 + 1\<rparr>
                    in if ws_ticket_rejections s2 \<ge> MAX_TICKET_REJECTIONS then give_up Unauthorized s2
                       else (schedule_reconnect 0 now s2, []))
               | Act_refresh_auth \<Rightarrow>
                   (s1\<lparr>ws_has_retried_auth := True, ws_refreshes := ws_refreshes s1 + 1\<rparr>, [])
               | Act_reconnect minDelay \<Rightarrow> (schedule_reconnect minDelay now s1, []))
               of (s3, cbs) \<Rightarrow> (s3, Cb_close # cbs)))"

definition refresh_done :: "refresh_result \<Rightarrow> int \<Rightarrow> ws \<Rightarrow> ws \<times> ws_callback list" where
  "refresh_done r now s =
     (case r of
        Refreshed \<Rightarrow> connect s
      | Refresh_denied \<Rightarrow> give_up No_session s
      | Refresh_failed \<Rightarrow> (schedule_reconnect 0 now s, []))"

definition resume :: "int \<Rightarrow> ws \<Rightarrow> ws \<times> ws_callback list" where
  "resume now s =
     (case (if ws_stopped s \<or> ws_cancelled s then (s, [])
            else if ws_is_minting s then (s, [])
            else if now < ws_rate_limited_until s then (s, [])
            else if (case ws_socket s of
                       None \<Rightarrow> False
                     | Some i \<Rightarrow> \<not> should_replace_socket (ws_sockets s i) (ws_last_frame_at s) now) then (s, [])
            else connect (s\<lparr>ws_reconnect_attempt := 0, ws_reconnect_timer := None\<rparr>))
      of (s', cbs) \<Rightarrow> (s', Cb_resume # cbs))"

definition unsubscribe :: "ws \<Rightarrow> ws \<times> ws_callback list" where
  "unsubscribe s =
     (let s1 = clear_timers (s\<lparr>ws_cancelled := True, ws_connect_generation := ws_connect_generation s + 1\<rparr>)
      in ((case ws_socket s1 of
             None \<Rightarrow> s1
           | Some i \<Rightarrow> close_socket i (s1\<lparr>ws_socket := None\<rparr>)), []))"

text \<open>The subscription as it starts, before its first \<^verbatim>\<open>connect\<close>.\<close>

definition ws_initial :: ws where
  "ws_initial = \<lparr>ws_cancelled = False, ws_stopped = False, ws_socket = None, ws_reconnect_timer = None,
     ws_ping_timer = None, ws_reconnect_attempt = 0, ws_has_retried_auth = False,
     ws_ticket_rejections = 0, ws_last_frame_at = 0, ws_rate_limited_until = 0,
     ws_connect_generation = 0, ws_is_minting = False, ws_sockets = Map.empty, ws_next_socket = 0,
     ws_mints = [], ws_refreshes = 0\<rparr>"

definition subscribe_to_message_events :: ws where
  "subscribe_to_message_events = fst (connect ws_initial)"

datatype ws_input =
  In_mint nat ticket_outcome bool int
  | In_open nat int
  | In_message nat jstr int
  | In_error nat
  | In_close nat int jstr int
  | In_ping int
  | In_timer int
  | In_refresh refresh_result int
  | In_resume int
  | In_unsubscribe

text \<open>What the browser can deliver in a state; the resume listeners are gone once unsubscribed.\<close>

fun enabled :: "ws_input \<Rightarrow> ws \<Rightarrow> bool" where
  "enabled (In_mint g out throws now) s = (g \<in> set (ws_mints s))"
| "enabled (In_open i now) s = (ws_sockets s i = Some Rs_connecting)"
| "enabled (In_message i frame now) s = (ws_sockets s i = Some Rs_open)"
| "enabled (In_error i) s = (ws_sockets s i = Some Rs_connecting \<or> ws_sockets s i = Some Rs_open)"
| "enabled (In_close i code reason now) s = (ws_sockets s i \<noteq> None \<and> ws_sockets s i \<noteq> Some Rs_closed)"
| "enabled (In_ping now) s = (ws_ping_timer s \<noteq> None)"
| "enabled (In_timer now) s = (case ws_reconnect_timer s of None \<Rightarrow> False | Some due \<Rightarrow> due \<le> now)"
| "enabled (In_refresh r now) s = (ws_refreshes s > 0)"
| "enabled (In_resume now) s = (\<not> ws_cancelled s)"
| "enabled In_unsubscribe s = True"

fun handle :: "(jstr \<Rightarrow> json option) \<Rightarrow> ws_input \<Rightarrow> ws \<Rightarrow> ws \<times> ws_callback list" where
  "handle parse (In_mint g out throws now) s =
     connect_done g out throws now (s\<lparr>ws_mints := remove1 g (ws_mints s)\<rparr>)"
| "handle parse (In_open i now) s = on_open i now (s\<lparr>ws_sockets := (ws_sockets s)(i \<mapsto> Rs_open)\<rparr>)"
| "handle parse (In_message i frame now) s = on_message parse frame now s"
| "handle parse (In_error i) s = (close_socket i s, [])"
| "handle parse (In_close i code reason now) s =
     on_close i code reason now (s\<lparr>ws_sockets := (ws_sockets s)(i \<mapsto> Rs_closed)\<rparr>)"
| "handle parse (In_ping now) s =
     (case ws_ping_timer s of None \<Rightarrow> (s, []) | Some i \<Rightarrow> on_ping_timer i now s)"
| "handle parse (In_timer now) s = connect (s\<lparr>ws_reconnect_timer := None\<rparr>)"
| "handle parse (In_refresh r now) s = refresh_done r now (s\<lparr>ws_refreshes := ws_refreshes s - 1\<rparr>)"
| "handle parse (In_resume now) s = resume now s"
| "handle parse In_unsubscribe s = unsubscribe s"

inductive ws_reachable :: "(jstr \<Rightarrow> json option) \<Rightarrow> ws \<Rightarrow> bool" for parse where
  ws_start: "ws_reachable parse subscribe_to_message_events"
| ws_next: "ws_reachable parse s \<Longrightarrow> enabled inp s \<Longrightarrow> handle parse inp s = (s', cbs) \<Longrightarrow> ws_reachable parse s'"

lemmas ws_defs =
  stop_ping_timer_def clear_timers_def give_up_def schedule_reconnect_def close_socket_def
  detach_socket_def retire_stale_socket_def connect_def connect_done_def on_open_def on_ping_timer_def
  on_message_def on_close_def refresh_done_def resume_def unsubscribe_def

subsection \<open>Invariant of the subscription\<close>

definition live :: "ws \<Rightarrow> nat \<Rightarrow> bool" where
  "live s i \<longleftrightarrow> ws_sockets s i = Some Rs_connecting \<or> ws_sockets s i = Some Rs_open"

definition sockets_ok :: "ws \<Rightarrow> bool" where
  "sockets_ok s \<longleftrightarrow> (\<forall>i. live s i \<longrightarrow> ws_socket s = Some i) \<and>
     (\<forall>i. ws_socket s = Some i \<longrightarrow> i < ws_next_socket s) \<and>
     (\<forall>i. ws_ping_timer s = Some i \<longrightarrow> ws_socket s = Some i)"

definition mints_ok :: "ws \<Rightarrow> bool" where
  "mints_ok s \<longleftrightarrow> distinct (ws_mints s) \<and> (\<forall>g \<in> set (ws_mints s). g \<le> ws_connect_generation s) \<and>
     (ws_connect_generation s \<in> set (ws_mints s) \<longrightarrow> ws_socket s = None) \<and>
     (\<not> ws_cancelled s \<longrightarrow> ws_is_minting s = (ws_connect_generation s \<in> set (ws_mints s)))"

definition ended_ok :: "ws \<Rightarrow> bool" where
  "ended_ok s \<longleftrightarrow> (ws_stopped s \<longrightarrow> ws_reconnect_timer s = None) \<and>
     (ws_cancelled s \<longrightarrow> ws_reconnect_timer s = None \<and> ws_ping_timer s = None \<and> ws_socket s = None \<and>
        ws_connect_generation s \<notin> set (ws_mints s)) \<and>
     (ws_ticket_rejections s < MAX_TICKET_REJECTIONS \<or> ws_stopped s)"

definition not_idle :: "ws \<Rightarrow> bool" where
  "not_idle s \<longleftrightarrow> ws_cancelled s \<or> ws_stopped s \<or> ws_socket s \<noteq> None \<or> ws_is_minting s \<or>
     ws_reconnect_timer s \<noteq> None \<or> ws_refreshes s > 0"

definition ws_ok :: "ws \<Rightarrow> bool" where
  "ws_ok s \<longleftrightarrow> sockets_ok s \<and> mints_ok s \<and> ended_ok s \<and> not_idle s"

text \<open>Everything of the invariant but \<open>not_idle\<close>, which holds again only at the end of a handler.\<close>

definition ws_pre :: "ws \<Rightarrow> bool" where
  "ws_pre s \<longleftrightarrow> sockets_ok s \<and> mints_ok s \<and> ended_ok s"

lemmas ws_inv_defs = ws_pre_def sockets_ok_def mints_ok_def ended_ok_def live_def

lemma ws_okI: "ws_pre s \<Longrightarrow> not_idle s \<Longrightarrow> ws_ok s"
  by (simp add: ws_ok_def ws_pre_def)

lemma ws_okD: "ws_ok s \<Longrightarrow> ws_pre s" "ws_ok s \<Longrightarrow> not_idle s"
  by (simp_all add: ws_ok_def ws_pre_def)

lemma ws_pre_schedule: "ws_pre s \<Longrightarrow> ws_pre (schedule_reconnect d now s)"
  by (auto simp: schedule_reconnect_def ws_inv_defs)

lemma not_idle_schedule: "not_idle (schedule_reconnect d now s)"
  by (auto simp: schedule_reconnect_def not_idle_def)

lemma ws_ok_schedule: "ws_pre s \<Longrightarrow> ws_ok (schedule_reconnect d now s)"
  by (intro ws_okI ws_pre_schedule not_idle_schedule)

lemma ws_ok_give_up: "ws_pre s \<Longrightarrow> ws_ok (fst (give_up r s))"
  by (auto simp: ws_inv_defs give_up_def clear_timers_def stop_ping_timer_def not_idle_def intro!: ws_okI)

lemma live_close_socket [simp]: "live (close_socket p s) i \<longleftrightarrow> live s i \<and> i \<noteq> p"
  by (auto simp: live_def close_socket_def)

lemma close_socket_frame [simp]:
  "ws_cancelled (close_socket p s) = ws_cancelled s" "ws_stopped (close_socket p s) = ws_stopped s"
  "ws_connect_generation (close_socket p s) = ws_connect_generation s"
  "ws_mints (close_socket p s) = ws_mints s" "ws_next_socket (close_socket p s) = ws_next_socket s"
  "ws_socket (close_socket p s) = ws_socket s" "ws_ping_timer (close_socket p s) = ws_ping_timer s"
  "ws_reconnect_timer (close_socket p s) = ws_reconnect_timer s" "ws_is_minting (close_socket p s) = ws_is_minting s"
  "ws_ticket_rejections (close_socket p s) = ws_ticket_rejections s" "ws_refreshes (close_socket p s) = ws_refreshes s"
  by (simp_all add: close_socket_def)

lemma live_update [simp]:
  "live (s\<lparr>ws_socket := x, ws_ping_timer := y\<rparr>) i = live s i" "live (s\<lparr>ws_socket := x\<rparr>) i = live s i"
  by (simp_all add: live_def)

lemmas ws_parts = ws_pre_def sockets_ok_def mints_ok_def ended_ok_def

lemma ws_pre_detach: "ws_pre s \<Longrightarrow> ws_pre (fst (detach_socket s)) \<and> ws_socket (fst (detach_socket s)) = None"
  by (cases "ws_socket s") (auto simp: detach_socket_def stop_ping_timer_def ws_parts)

lemma detach_socket_frame [simp]:
  "ws_cancelled (fst (detach_socket s)) = ws_cancelled s" "ws_stopped (fst (detach_socket s)) = ws_stopped s"
  "ws_connect_generation (fst (detach_socket s)) = ws_connect_generation s"
  "ws_mints (fst (detach_socket s)) = ws_mints s" "ws_next_socket (fst (detach_socket s)) = ws_next_socket s"
  by (auto simp: detach_socket_def close_socket_def stop_ping_timer_def split: option.splits)

lemma ws_pre_connect_start:
  "ws_pre s \<Longrightarrow> ws_socket s = None \<Longrightarrow> \<not> ws_cancelled s \<Longrightarrow>
   ws_pre (s\<lparr>ws_connect_generation := Suc (ws_connect_generation s), ws_is_minting := True,
     ws_mints := Suc (ws_connect_generation s) # ws_mints s\<rparr>)"
  by (auto simp: ws_inv_defs dest: Suc_leD intro: le_SucI)

lemma ws_ok_connect: "ws_pre s \<Longrightarrow> ws_ok (fst (connect s))"
proof (cases "ws_cancelled s \<or> ws_stopped s")
  case True
  then show "ws_pre s \<Longrightarrow> ?thesis" by (auto simp: connect_def not_idle_def intro: ws_okI)
next
  case False
  assume "ws_pre s"
  then show ?thesis using False ws_pre_detach[of s] ws_pre_connect_start[of "fst (detach_socket s)"]
    by (auto simp: connect_def case_prod_beta Let_def not_idle_def intro!: ws_okI)
qed

lemma ws_ok_connect_done:
  assumes "ws_ok s" "g \<in> set (ws_mints s)"
  shows "ws_ok (fst (connect_done g out throws now (s\<lparr>ws_mints := remove1 g (ws_mints s)\<rparr>)))"
proof (cases "g = ws_connect_generation s")
  case False
  then show ?thesis using assms
    by (auto simp: connect_done_def ws_ok_def ws_inv_defs not_idle_def)
next
  case True
  let ?s = "s\<lparr>ws_mints := remove1 g (ws_mints s), ws_is_minting := False\<rparr>"
  have p: "ws_pre ?s" "\<not> ws_cancelled s" "ws_socket s = None" "ws_connect_generation s \<notin> set (remove1 g (ws_mints s))"
    using assms True by (auto simp: ws_ok_def ws_inv_defs)
  have new: "ws_ok (?s\<lparr>ws_socket := Some (ws_next_socket s), ws_next_socket := Suc (ws_next_socket s),
      ws_sockets := (ws_sockets s)(ws_next_socket s \<mapsto> Rs_connecting)\<rparr>)"
    using p by (intro ws_okI) (auto simp: ws_inv_defs not_idle_def)
  show ?thesis
    using p new True ws_ok_schedule[OF p(1)] ws_ok_give_up[OF p(1)]
    by (auto simp: connect_done_def Let_def not_idle_def intro!: ws_okI split: ticket_outcome.splits)
qed

lemma live_set:
  "live (s\<lparr>ws_sockets := (ws_sockets s)(i \<mapsto> r)\<rparr>) j \<longleftrightarrow>
     (if j = i then r = Rs_connecting \<or> r = Rs_open else live s j)"
  by (auto simp: live_def)

lemma live_cong: "ws_sockets s' = ws_sockets s \<Longrightarrow> live s' = live s"
  by (simp add: live_def fun_eq_iff)

lemma ws_ok_open:
  assumes ok: "ws_ok s" and c: "ws_sockets s i = Some Rs_connecting"
  shows "ws_ok (fst (on_open i now (s\<lparr>ws_sockets := (ws_sockets s)(i \<mapsto> Rs_open)\<rparr>)))"
proof -
  let ?t = "s\<lparr>ws_sockets := (ws_sockets s)(i \<mapsto> Rs_open)\<rparr>"
  have i: "live s i" using c by (simp add: live_def)
  have "live (fst (on_open i now ?t)) = live ?t" by (rule live_cong) (simp add: on_open_def)
  then have l: "live (fst (on_open i now ?t)) j = live s j" for j using i by (auto simp: live_set)
  have so: "ws_socket s = Some i" using ok i by (simp add: ws_ok_def sockets_ok_def)
  show ?thesis
  proof (rule ws_okI)
    show "ws_pre (fst (on_open i now ?t))"
      using ok so unfolding ws_parts l ws_ok_def by (simp add: on_open_def MAX_TICKET_REJECTIONS_def)
    show "not_idle (fst (on_open i now ?t))" using so by (simp add: not_idle_def on_open_def)
  qed
qed

lemma ws_ok_unsubscribe:
  assumes ok: "ws_ok s"
  shows "ws_ok (fst (unsubscribe s))"
proof -
  let ?s1 = "s\<lparr>ws_cancelled := True, ws_connect_generation := ws_connect_generation s + 1,
    ws_reconnect_timer := None, ws_ping_timer := None\<rparr>"
  have l: "live ?s1 = live s" by (rule live_cong) simp
  have n: "Suc (ws_connect_generation s) \<notin> set (ws_mints s)"
    "\<forall>g \<in> set (ws_mints s). g \<le> Suc (ws_connect_generation s)"
    using ok by (force simp: ws_ok_def mints_ok_def)+
  show ?thesis
    using ok n l
    by (cases "ws_socket s")
      (auto simp: unsubscribe_def clear_timers_def stop_ping_timer_def Let_def not_idle_def ws_ok_def
        sockets_ok_def mints_ok_def ended_ok_def)
qed

lemma ws_ok_frame:
  assumes "ws_ok s" "ws_sockets s' = ws_sockets s \<or> (\<exists>p t. s' = close_socket p t \<and> t = s)"
    "s' = s\<lparr>ws_sockets := ws_sockets s', ws_last_frame_at := ws_last_frame_at s'\<rparr>"
  shows "ws_ok s'"
proof -
  have l: "live s' i \<Longrightarrow> live s i" for i using assms(2) live_cong[of s' s] by auto
  have f: "ws_socket s' = ws_socket s" "ws_next_socket s' = ws_next_socket s" "ws_ping_timer s' = ws_ping_timer s"
    "mints_ok s' = mints_ok s" "ended_ok s' = ended_ok s" "not_idle s' = not_idle s"
    by (subst assms(3); simp add: mints_ok_def ended_ok_def not_idle_def)+
  show ?thesis using assms(1) l by (auto simp: ws_ok_def sockets_ok_def f)
qed

lemma ws_ok_close:
  assumes "ws_ok s"
  shows "ws_ok (fst (on_close i code reason now (s\<lparr>ws_sockets := (ws_sockets s)(i \<mapsto> Rs_closed)\<rparr>)))"
proof (cases "ws_socket s = Some i")
  case False
  then show ?thesis using assms by (auto simp: on_close_def ws_ok_def ws_inv_defs not_idle_def)
next
  case True
  let ?s = "s\<lparr>ws_sockets := (ws_sockets s)(i \<mapsto> Rs_closed), ws_ping_timer := None, ws_socket := None\<rparr>"
  have p: "ws_pre ?s" using assms True by (auto simp: ws_ok_def ws_inv_defs)
  have r: "ws_ok (?s\<lparr>ws_has_retried_auth := True, ws_refreshes := Suc (ws_refreshes s)\<rparr>)"
    using p by (intro ws_okI) (auto simp: ws_inv_defs not_idle_def)
  have m: "ws_pre (?s\<lparr>ws_ticket_rejections := Suc (ws_ticket_rejections s)\<rparr>)"
    if "Suc (ws_ticket_rejections s) < MAX_TICKET_REJECTIONS"
    using p that by (auto simp: ws_inv_defs)
  have g: "ws_ok (fst (give_up Unauthorized (?s\<lparr>ws_ticket_rejections := Suc (ws_ticket_rejections s)\<rparr>)))"
    using p by (auto simp: ws_inv_defs give_up_def clear_timers_def stop_ping_timer_def not_idle_def intro!: ws_okI)
  show ?thesis
    using p r g ws_ok_schedule[OF p] ws_ok_schedule[OF m] ws_ok_give_up[OF p] True
    by (auto simp: on_close_def stop_ping_timer_def Let_def case_prod_beta not_less split: close_action.splits)
qed

lemma ws_ok_step:
  assumes ok: "ws_ok s" and en: "enabled inp s"
  shows "ws_ok (fst (handle parse inp s))"
proof (cases inp)
  case (In_mint g out throws now)
  then show ?thesis using ws_ok_connect_done[OF ok] en by simp
next
  case (In_open i now)
  then show ?thesis using ws_ok_open[OF ok] en by simp
next
  case (In_close i code reason now)
  then show ?thesis using ws_ok_close[OF ok] by simp
next
  case (In_ping now)
  then show ?thesis using ok en ws_pre_detach[OF ws_okD(1)[OF ok]]
    by (auto simp: on_ping_timer_def retire_stale_socket_def case_prod_beta intro: ws_ok_schedule)
next
  case (In_timer now)
  have "ws_pre (s\<lparr>ws_reconnect_timer := None\<rparr>)" using ok by (auto simp: ws_ok_def ws_inv_defs)
  then show ?thesis using In_timer ws_ok_connect by simp
next
  case (In_refresh r now)
  have "ws_pre (s\<lparr>ws_refreshes := ws_refreshes s - 1\<rparr>)" using ok by (auto simp: ws_ok_def ws_inv_defs)
  then show ?thesis using In_refresh
    by (auto simp: refresh_done_def intro: ws_ok_connect ws_ok_give_up ws_ok_schedule split: refresh_result.splits)
next
  case (In_resume now)
  have "ws_pre (s\<lparr>ws_reconnect_attempt := 0, ws_reconnect_timer := None\<rparr>)"
    using ok by (auto simp: ws_ok_def ws_inv_defs)
  then show ?thesis using In_resume ok
    by (auto simp: resume_def case_prod_beta Let_def intro: ws_ok_connect)
next
  case In_unsubscribe
  then show ?thesis using ok ws_ok_unsubscribe by simp
next
  case (In_message i frame now)
  then show ?thesis by (intro ws_ok_frame[OF ok]) (simp_all add: on_message_def)
next
  case (In_error i)
  then show ?thesis by (intro ws_ok_frame[OF ok]) (auto simp: close_socket_def)
qed

lemma ws_reachable_ok: "ws_reachable parse s \<Longrightarrow> ws_ok s"
proof (induction rule: ws_reachable.induct)
  case ws_start
  have "ws_pre ws_initial" by (auto simp: ws_inv_defs ws_initial_def MAX_TICKET_REJECTIONS_def)
  then show ?case unfolding subscribe_to_message_events_def by (rule ws_ok_connect)
next
  case (ws_next s inp s' cbs)
  then show ?case using ws_ok_step[of s inp parse] by simp
qed

subsection \<open>Properties\<close>

fun ws_run :: "(jstr \<Rightarrow> json option) \<Rightarrow> ws_input list \<Rightarrow> ws \<Rightarrow> (ws \<times> ws_callback list) option" where
  "ws_run parse [] s = Some (s, [])"
| "ws_run parse (i # is) s =
     (if enabled i s
      then (case handle parse i s of (s1, c1) \<Rightarrow>
              map_option (\<lambda>(s2, c2). (s2, c1 @ c2)) (ws_run parse is s1))
      else None)"

lemma ws_run_reachable: "ws_run parse is s = Some (s', cbs) \<Longrightarrow> ws_reachable parse s \<Longrightarrow> ws_reachable parse s'"
proof (induction "is" arbitrary: s cbs)
  case Nil
  then show ?case by simp
next
  case (Cons i js)
  obtain s1 c1 where h: "handle parse i s = (s1, c1)" by fastforce
  with Cons.prems obtain c2 where "ws_run parse js s1 = Some (s', c2)" "enabled i s"
    by (auto split: if_splits)
  then show ?case using Cons.IH ws_next[OF Cons.prems(2) _ h] by blast
qed

text \<open>
  C5. At any time at most one socket is connecting or open, and it is the current one: resumes, timers,
  refreshes and late ticket mints never leave a second connection behind. After \<^verbatim>\<open>unsubscribe\<close> none is,
  no timer runs, and no mint in flight can open one.
\<close>

theorem one_live_socket:
  assumes "ws_reachable parse s"
  shows "(live s i \<longrightarrow> live s j \<longrightarrow> i = j) \<and> (live s i \<longrightarrow> ws_socket s = Some i) \<and>
    (ws_cancelled s \<longrightarrow> \<not> live s i \<and> ws_reconnect_timer s = None \<and> ws_ping_timer s = None \<and>
       (\<forall>g out throws now. enabled (In_mint g out throws now) s \<longrightarrow>
          ws_sockets (fst (handle parse (In_mint g out throws now) s)) = ws_sockets s))"
proof -
  note ok = ws_reachable_ok[OF assms]
  then have l: "live s k \<Longrightarrow> ws_socket s = Some k" for k by (simp add: ws_ok_def sockets_ok_def)
  then have "live s i \<longrightarrow> live s j \<longrightarrow> i = j" by (metis option.inject)
  then show ?thesis using ok l[of i] by (auto simp: ws_ok_def ended_ok_def connect_done_def)
qed

definition parse_none :: "jstr \<Rightarrow> json option" where
  "parse_none _ = None"

definition reconnecting :: "ws_input list" where
  "reconnecting = [In_mint 1 (Ticket ''t1'') False 0, In_open 0 10, In_resume 70020, In_mint 2 (Ticket ''t2'') False 70100]"

lemma reconnecting_run:
  "\<exists>s cbs. ws_run parse_none reconnecting subscribe_to_message_events = Some (s, cbs) \<and>
     live s 1 \<and> ws_sockets s 0 = Some Rs_closing \<and> cbs = [Cb_open, Cb_resume, Cb_close]"
proof -
  have "map_option (\<lambda>(s, cbs). (live s 1, ws_sockets s 0, cbs))
      (ws_run parse_none reconnecting subscribe_to_message_events) =
      Some (True, Some Rs_closing, [Cb_open, Cb_resume, Cb_close])"
    by code_simp
  then show ?thesis by auto
qed

theorem one_live_socket_witness:
  "\<exists>s. ws_reachable parse_none s \<and> live s 1 \<and> ws_socket s = Some 1 \<and> \<not> live s 0"
proof -
  obtain s cbs where s: "ws_run parse_none reconnecting subscribe_to_message_events = Some (s, cbs)" "live s 1"
    using reconnecting_run by blast
  have r: "ws_reachable parse_none s" using ws_run_reachable[OF s(1) ws_start] .
  show ?thesis using r s(2) one_live_socket[OF r, of 1 0] by auto
qed

text \<open>
  The subscription never gets stuck: until it is unsubscribed or has given up there is always a
  current socket, a ticket mint, a scheduled reconnect or a session refresh that will move it on; and
  five rejected tickets in a row are enough for it to give up.
\<close>

theorem subscription_not_stuck:
  assumes "ws_reachable parse s" "\<not> ws_cancelled s" "\<not> ws_stopped s"
  shows "(ws_socket s \<noteq> None \<or> ws_connect_generation s \<in> set (ws_mints s) \<or>
      ws_reconnect_timer s \<noteq> None \<or> ws_refreshes s > 0) \<and>
    ws_ticket_rejections s < MAX_TICKET_REJECTIONS"
  using ws_reachable_ok[OF assms(1)] assms(2,3)
  by (auto simp: ws_ok_def not_idle_def mints_ok_def ended_ok_def)

theorem subscription_not_stuck_witness:
  "\<exists>s. ws_reachable parse_none s \<and> \<not> ws_stopped s \<and> ws_socket s = None \<and> ws_reconnect_timer s = Some 61000 \<and>
     ws_ticket_rejections s < MAX_TICKET_REJECTIONS"
proof -
  let ?is = "[In_mint 1 (Ticket ''t1'') False 0, In_open 0 10, In_close 0 4429 [] 1000]"
  have "map_option (\<lambda>(s, cbs). (ws_cancelled s, ws_stopped s, ws_socket s, ws_reconnect_timer s))
      (ws_run parse_none ?is subscribe_to_message_events) = Some (False, False, None, Some 61000)"
    by code_simp
  then obtain s cbs where s: "ws_run parse_none ?is subscribe_to_message_events = Some (s, cbs)"
    "\<not> ws_cancelled s" "\<not> ws_stopped s" "ws_socket s = None" "ws_reconnect_timer s = Some 61000" by auto
  have r: "ws_reachable parse_none s" using ws_run_reachable[OF s(1) ws_start] .
  show ?thesis using r s subscription_not_stuck[OF r s(2,3)] by auto
qed

text \<open>
  What a close code leads to: a rejected ticket is minted again, an expired session is refreshed at
  most once between two opens, an unusable token or a disabled feature gives up, a rate limit waits at
  least a minute, and every other close reconnects with a backoff of one to thirty seconds that never
  shrinks from one attempt to the next.
\<close>

theorem close_policy:
  "close_action_of 4401 retried ''ticket_rejected'' = Act_remint \<and>
   (reason \<noteq> ''ticket_rejected'' \<longrightarrow>
      close_action_of 4401 False reason = Act_refresh_auth \<and>
      close_action_of 4401 True reason = Act_give_up Unauthorized) \<and>
   close_action_of 4403 retried ''messaging_token_unavailable'' = Act_reconnect 0 \<and>
   (reason \<noteq> ''messaging_token_unavailable'' \<longrightarrow> close_action_of 4403 retried reason = Act_give_up Token_required) \<and>
   close_action_of 4404 retried reason = Act_give_up Disabled \<and>
   close_action_of 4429 retried reason = Act_reconnect 60000 \<and>
   (code \<notin> {4401, 4403, 4404, 4429} \<longrightarrow> close_action_of code retried reason = Act_reconnect 0) \<and>
   1000 \<le> reconnect_delay_ms n \<and> reconnect_delay_ms n \<le> 30000 \<and>
   reconnect_delay_ms n \<le> reconnect_delay_ms (Suc n)"
proof -
  have "(1::int) \<le> 2 ^ n" by simp
  then have "1000 \<le> reconnect_delay_ms n"
    by (simp add: reconnect_delay_ms_def RECONNECT_BASE_MS_def RECONNECT_MAX_MS_def)
  moreover have "reconnect_delay_ms n \<le> reconnect_delay_ms (Suc n)"
    by (auto simp: reconnect_delay_ms_def RECONNECT_BASE_MS_def min_le_iff_disj)
  ultimately show ?thesis
    by (simp add: close_action_of_def CLOSE_UNAUTHORIZED_def CLOSE_TOKEN_REQUIRED_def CLOSE_DISABLED_def
        CLOSE_RATE_LIMITED_def TICKET_REJECTED_REASON_def MESSAGING_TOKEN_UNAVAILABLE_def
        RATE_LIMITED_RECONNECT_MS_def reconnect_delay_ms_def RECONNECT_MAX_MS_def)
qed

theorem close_policy_witness:
  "close_action_of 4401 False ''session_expired'' = Act_refresh_auth \<and>
   close_action_of 4403 False ''messaging_token_expired'' = Act_give_up Token_required \<and>
   close_action_of 1006 False ''x'' = Act_reconnect 0"
  using close_policy[of False "''session_expired''" 1006 0] close_policy[of False "''messaging_token_expired''" 1006 0]
    close_policy[of False "''x''" 1006 0]
  by simp

text \<open>
  A refusal to refresh the session is reported whenever it arrives: also to a caller that has already
  unsubscribed, and while a newer connection is open and working.
\<close>

theorem late_refresh_gives_up:
  "\<exists>s1 cbs1 s2 cbs2.
     ws_run parse_none [In_mint 1 (Ticket ''t1'') False 0, In_open 0 10, In_close 0 4401 ''session_expired'' 20,
       In_unsubscribe, In_refresh Refresh_denied 30] subscribe_to_message_events = Some (s1, cbs1) \<and>
     ws_cancelled s1 \<and> last cbs1 = Cb_unavailable No_session \<and>
     ws_run parse_none [In_mint 1 (Ticket ''t1'') False 0, In_open 0 10, In_close 0 4401 ''session_expired'' 20,
       In_resume 25, In_mint 2 (Ticket ''t2'') False 26, In_open 1 27,
       In_refresh Refresh_denied 30] subscribe_to_message_events = Some (s2, cbs2) \<and>
     ws_sockets s2 1 = Some Rs_open \<and> ws_stopped s2 \<and> last cbs2 = Cb_unavailable No_session"
proof -
  have 1: "map_option (\<lambda>(s, cbs). (ws_cancelled s, last cbs))
     (ws_run parse_none [In_mint 1 (Ticket ''t1'') False 0, In_open 0 10, In_close 0 4401 ''session_expired'' 20,
       In_unsubscribe, In_refresh Refresh_denied 30] subscribe_to_message_events) =
     Some (True, Cb_unavailable No_session)"
    by code_simp
  have 2: "map_option (\<lambda>(s, cbs). (ws_sockets s 1, ws_stopped s, last cbs))
     (ws_run parse_none [In_mint 1 (Ticket ''t1'') False 0, In_open 0 10, In_close 0 4401 ''session_expired'' 20,
       In_resume 25, In_mint 2 (Ticket ''t2'') False 26, In_open 1 27,
       In_refresh Refresh_denied 30] subscribe_to_message_events) =
     Some (Some Rs_open, True, Cb_unavailable No_session)"
    by code_simp
  from 1 2 show ?thesis by (auto simp: map_option_eq_Some)
qed

end
