(* ===== verification/Thread_Tree.thy ===== *)
theory Thread_Tree
  imports Prelude
begin

section \<open>The reply tree of a cast\<close>

text \<open>
  \<^verbatim>\<open>landing/lib/thread/thread-tree.ts\<close>. A \<open>cast_node\<close> is a cast with its nested replies; of the
  flat cast the code reads the hash and the reply count, and carries the rest (\<open>c_rest\<close>).

  The helpers preserve object identity for what they do not change. A function that returns
  the very object it was given returns \<open>False\<close> in its second component here, \<open>True\<close> with a new
  object: \<open>changed\<close> in the code.
\<close>

record 'd cast_data =
  c_hash :: jstr
  c_replies_count :: int
  c_rest :: 'd

datatype 'd cast_node =
  Cast_node (node_cast: "'d cast_data") (author_is_spam: "bool option") (replies: "'d cast_node list")

abbreviation node_hash :: "'d cast_node \<Rightarrow> jstr" where
  "node_hash n \<equiv> c_hash (node_cast n)"

definition with_replies :: "'d cast_node \<Rightarrow> 'd cast_node list \<Rightarrow> 'd cast_node" where
  "with_replies n rs = Cast_node (node_cast n) (author_is_spam n) rs"

lemma size_reply [termination_simp]: "r \<in> set (replies n) \<Longrightarrow> size r < size n"
  by (cases n) (auto simp: size_list_conv_sum_list less_Suc_eq_le intro: member_le_sum_list dest: split_list)

text \<open>
  \<^verbatim>\<open>updateTree\<close> descends into what \<open>fn\<close> returned, so its depth is bounded by fuel; \<open>None\<close> is
  running out of it.
\<close>

fun update_tree ::
  "nat \<Rightarrow> jstr \<Rightarrow> ('d cast_node \<Rightarrow> 'd cast_node \<times> bool) \<Rightarrow> 'd cast_node list \<Rightarrow>
   ('d cast_node list \<times> bool) option" where
  "update_tree 0 hash fn nodes = None"
| "update_tree (Suc n) hash fn nodes =
     map_option (\<lambda>next. if list_ex snd next then (map fst next, True) else (nodes, False))
       (those (map (\<lambda>node.
          let (updated, ch) = (if node_hash node = hash then fn node else (node, False))
          in if replies updated = [] then Some (updated, ch)
             else map_option (\<lambda>(children, chc).
                    if chc then (with_replies updated children, True) else (updated, ch))
                    (update_tree n hash fn (replies updated))) nodes))"

fun partition_spam :: "'d cast_node list \<Rightarrow> 'd cast_node list \<times> 'd cast_node list" where
  "partition_spam [] = ([], [])"
| "partition_spam (Cast_node c sp rs # nodes) =
     (let (clean, spam) = partition_spam nodes
      in if sp = Some True then (clean, Cast_node c sp rs # spam)
         else if rs = [] then (Cast_node c sp rs # clean, spam)
         else let (cclean, cspam) = partition_spam rs
              in (Cast_node c sp cclean # clean, cspam @ spam))"

fun remove_from_tree :: "jstr \<Rightarrow> 'd cast_node list \<Rightarrow> 'd cast_node list \<times> bool" where
  "remove_from_tree hash [] = ([], False)"
| "remove_from_tree hash (Cast_node c sp rs # nodes) =
     (let (rest, chr) = remove_from_tree hash nodes
      in if c_hash c = hash then (rest, True)
         else if rs \<noteq> []
         then let (children, ch) = remove_from_tree hash rs
              in if ch then (Cast_node c sp children # rest, True) else (Cast_node c sp rs # rest, chr)
         else (Cast_node c sp rs # rest, chr))"

fun subtree_contains_hash :: "'d cast_node \<Rightarrow> jstr \<Rightarrow> bool" where
  "subtree_contains_hash (Cast_node c sp rs) hash =
     (if c_hash c = hash then True else list_ex (\<lambda>child. subtree_contains_hash child hash) rs)"

definition find_top_level_index_containing :: "'d cast_node list \<Rightarrow> jstr \<Rightarrow> nat option" where
  "find_top_level_index_containing nodes hash = js_find_index (\<lambda>n. subtree_contains_hash n hash) nodes"

text \<open>\<open>attach\<close> is the local function of \<^verbatim>\<open>insertReply\<close>.\<close>

fun attach :: "jstr \<Rightarrow> 'd cast_node \<Rightarrow> 'd cast_node list \<Rightarrow> 'd cast_node list \<times> bool" where
  "attach parentHash node [] = ([], False)"
| "attach parentHash node (Cast_node c sp rs # nodes) =
     (let (rest, chr) = attach parentHash node nodes
      in if c_hash c = parentHash
         then (Cast_node (c\<lparr>c_replies_count := c_replies_count c + 1\<rparr>) sp (node # rs) # rest, True)
         else if rs \<noteq> []
         then let (children, ch) = attach parentHash node rs
              in if ch then (Cast_node c sp children # rest, True) else (Cast_node c sp rs # rest, chr)
         else (Cast_node c sp rs # rest, chr))"

definition insert_reply :: "'d cast_node list \<Rightarrow> jstr \<Rightarrow> 'd cast_node \<Rightarrow> 'd cast_node list" where
  "insert_reply nodes parentHash node =
     (if list_ex (\<lambda>n. subtree_contains_hash n (node_hash node)) nodes then nodes
      else fst (attach parentHash node nodes))"

definition MAX_INLINE_CHAIN :: int where "MAX_INLINE_CHAIN = 3"

text \<open>The loop of \<^verbatim>\<open>selectReplyChain\<close>: \<open>len\<close> is the length of the chain so far, \<open>node\<close> its last cast.\<close>

function select_chain_from ::
  "jstr option \<Rightarrow> int \<Rightarrow> int \<Rightarrow> 'd cast_node \<Rightarrow> 'd cast_node option \<Rightarrow> 'd cast_node list \<times> 'd cast_node option" where
  "select_chain_from focus maxLength len node continueFrom =
     (if replies node = [] then ([], continueFrom)
      else let focusBranch = (case focus of
                 None \<Rightarrow> None
               | Some f \<Rightarrow> if f = [] then None else find (\<lambda>r. subtree_contains_hash r f) (replies node));
               here = (case continueFrom of None \<Rightarrow> Some node | Some c \<Rightarrow> Some c)
           in if len \<ge> maxLength \<and> focusBranch = None then ([], here)
              else let next = (case focusBranch of Some b \<Rightarrow> b | None \<Rightarrow> hd (replies node));
                       (chain, cont) = select_chain_from focus maxLength (len + 1) next
                         (if length (replies node) > 1 then here else continueFrom)
                   in (next # chain, cont))"
  by pat_completeness auto

termination
  by (relation "measure (\<lambda>(f, m, l, n, c). size n)")
    (auto simp: find_Some_iff split: option.splits if_splits intro!: size_reply)

declare select_chain_from.simps [simp del]

definition select_reply_chain ::
  "'d cast_node \<Rightarrow> jstr option \<Rightarrow> int \<Rightarrow> 'd cast_node list \<times> 'd cast_node option" where
  "select_reply_chain root focus maxLength =
     (case select_chain_from focus maxLength 1 root None of (chain, cont) \<Rightarrow> (root # chain, cont))"

subsection \<open>Hashes of a forest\<close>

fun node_hashes :: "'d cast_node \<Rightarrow> jstr list" where
  "node_hashes (Cast_node c sp rs) = c_hash c # concat (map node_hashes rs)"

definition forest_hashes :: "'d cast_node list \<Rightarrow> jstr list" where
  "forest_hashes nodes = concat (map node_hashes nodes)"

lemma forest_hashes_simps [simp]:
  "forest_hashes [] = []" "forest_hashes (n # ns) = node_hashes n @ forest_hashes ns"
  "forest_hashes (ms @ ns) = forest_hashes ms @ forest_hashes ns"
  by (simp_all add: forest_hashes_def)

lemma node_hashes_Node: "node_hashes (Cast_node c sp rs) = c_hash c # forest_hashes rs"
  by (simp add: forest_hashes_def)

lemma subtree_contains_hash_iff: "subtree_contains_hash n h \<longleftrightarrow> h \<in> set (node_hashes n)"
  by (induction n h rule: subtree_contains_hash.induct) (auto simp: list_ex_iff)

subsection \<open>Spam and removal\<close>

fun no_spam :: "'d cast_node \<Rightarrow> bool" where
  "no_spam (Cast_node c sp rs) = (sp \<noteq> Some True \<and> list_all no_spam rs)"

definition fresh_cast :: "jstr \<Rightarrow> bool option \<Rightarrow> 'd \<Rightarrow> 'd cast_node list \<Rightarrow> 'd cast_node" where
  "fresh_cast h sp d rs = Cast_node \<lparr>c_hash = h, c_replies_count = int (length rs), c_rest = d\<rparr> sp rs"

text \<open>
  Splitting spam off a conversation loses and duplicates nothing: the casts of the clean forest and of
  the hoisted spam subtrees are exactly the casts of the input; no cast of the clean part is flagged, and
  every hoisted root is.
\<close>

theorem partition_spam_complete:
  "mset (forest_hashes (fst (partition_spam nodes))) + mset (forest_hashes (snd (partition_spam nodes))) =
     mset (forest_hashes nodes) \<and>
   list_all no_spam (fst (partition_spam nodes)) \<and>
   list_all (\<lambda>n. author_is_spam n = Some True) (snd (partition_spam nodes))"
proof (induction nodes rule: partition_spam.induct)
  case 1
  then show ?case by simp
next
  case (2 c sp rs nodes)
  obtain cl spm where p: "partition_spam nodes = (cl, spm)" by fastforce
  obtain ccl cspm where q: "partition_spam rs = (ccl, cspm)" by fastforce
  note ih1 = "2.IH"(1)[unfolded p, simplified]
  show ?case
  proof (cases "sp = Some True \<or> rs = []")
    case True
    then show ?thesis using ih1 p by (auto simp: node_hashes_Node simp del: node_hashes.simps)
  next
    case False
    then have ih2: "mset (forest_hashes ccl) + mset (forest_hashes cspm) = mset (forest_hashes rs)"
      "list_all no_spam ccl" "list_all (\<lambda>n. author_is_spam n = Some True) cspm"
      using "2.IH"(2)[OF p[symmetric] refl] q by simp_all
    show ?thesis using False ih1 p q ih2(2,3)
      by (auto simp: node_hashes_Node simp del: node_hashes.simps simp flip: ih2(1))
  qed
qed

text \<open>Removal as a specification: drop the matching nodes at every level.\<close>

fun prune :: "jstr \<Rightarrow> 'd cast_node list \<Rightarrow> 'd cast_node list" where
  "prune h [] = []"
| "prune h (Cast_node c sp rs # nodes) =
     (if c_hash c = h then prune h nodes else Cast_node c sp (prune h rs) # prune h nodes)"

lemma remove_from_tree_spec:
  "fst (remove_from_tree h nodes) = prune h nodes \<and>
   (snd (remove_from_tree h nodes) \<longleftrightarrow> h \<in> set (forest_hashes nodes)) \<and>
   (h \<notin> set (forest_hashes nodes) \<longrightarrow> prune h nodes = nodes)"
proof (induction h nodes rule: remove_from_tree.induct)
  case (1 h)
  then show ?case by simp
next
  case (2 h c sp rs nodes)
  obtain r ch where p: "remove_from_tree h nodes = (r, ch)" by fastforce
  obtain r' ch' where q: "remove_from_tree h rs = (r', ch')" by fastforce
  have ih1: "r = prune h nodes" "ch \<longleftrightarrow> h \<in> set (forest_hashes nodes)"
    "h \<notin> set (forest_hashes nodes) \<Longrightarrow> prune h nodes = nodes" using "2.IH"(1) p by auto
  show ?case
  proof (cases "c_hash c = h \<or> rs = []")
    case True
    then show ?thesis using ih1 p by (auto simp: node_hashes_Node simp del: node_hashes.simps)
  next
    case False
    then have ih2: "r' = prune h rs" "ch' \<longleftrightarrow> h \<in> set (forest_hashes rs)"
      "h \<notin> set (forest_hashes rs) \<Longrightarrow> prune h rs = rs"
      using "2.IH"(2)[OF p[symmetric] refl] q by auto
    then show ?thesis using False ih1 p q by (auto simp: node_hashes_Node simp del: node_hashes.simps)
  qed
qed

lemma prune_hashes: "h \<notin> set (forest_hashes (prune h nodes)) \<and> set (forest_hashes (prune h nodes)) \<subseteq> set (forest_hashes nodes)"
  by (induction h nodes rule: prune.induct) (auto simp: node_hashes_Node simp del: node_hashes.simps)

text \<open>
  Removing a cast prunes every node with its hash together with its subtree and nothing else; the
  result is the same object exactly when no node matched, and the hash is gone afterwards.
\<close>

theorem remove_from_tree_prunes:
  "fst (remove_from_tree h nodes) = prune h nodes \<and>
   (snd (remove_from_tree h nodes) \<longleftrightarrow> list_ex (\<lambda>n. subtree_contains_hash n h) nodes) \<and>
   \<not> list_ex (\<lambda>n. subtree_contains_hash n h) (fst (remove_from_tree h nodes))"
  using remove_from_tree_spec[of h nodes] prune_hashes[of h nodes]
  by (auto simp: list_ex_iff subtree_contains_hash_iff forest_hashes_def)

subsection \<open>Insertion\<close>

lemma attach_spec:
  "snd (attach p node nodes) \<longleftrightarrow> p \<in> set (forest_hashes nodes)"
  "\<not> snd (attach p node nodes) \<Longrightarrow> fst (attach p node nodes) = nodes"
  "distinct (forest_hashes nodes) \<Longrightarrow> p \<in> set (forest_hashes nodes) \<Longrightarrow>
   mset (forest_hashes (fst (attach p node nodes))) = mset (node_hashes node) + mset (forest_hashes nodes)"
proof (induction p node nodes rule: attach.induct)
  case (1 p node)
  { case 1 then show ?case by simp next case 2 then show ?case by simp next case 3 then show ?case by simp }
next
  case (2 p node c sp rs nodes)
  obtain r ch where q: "attach p node nodes = (r, ch)" by fastforce
  obtain r' ch' where q': "attach p node rs = (r', ch')" by fastforce
  have ih1: "ch \<longleftrightarrow> p \<in> set (forest_hashes nodes)" "\<not> ch \<Longrightarrow> r = nodes"
    "distinct (forest_hashes nodes) \<Longrightarrow> p \<in> set (forest_hashes nodes) \<Longrightarrow>
       mset (forest_hashes r) = mset (node_hashes node) + mset (forest_hashes nodes)"
    using "2.IH"(1-3) q by auto
  have ih2: "ch' \<longleftrightarrow> p \<in> set (forest_hashes rs)" "\<not> ch' \<Longrightarrow> r' = rs"
    "distinct (forest_hashes rs) \<Longrightarrow> p \<in> set (forest_hashes rs) \<Longrightarrow>
       mset (forest_hashes r') = mset (node_hashes node) + mset (forest_hashes rs)"
    if "c_hash c \<noteq> p" "rs \<noteq> []"
    using "2.IH"(4-6)[OF q[symmetric] refl that] q' by auto
  {
    case 1
    then show ?case using ih1 ih2 q q' by (auto simp: node_hashes_Node simp del: node_hashes.simps)
  next
    case 2
    then show ?case using ih1 ih2 q q' by (auto split: if_splits)
  next
    case 3
    have np: "p \<notin> set (forest_hashes nodes)" if "p \<in> set (node_hashes (Cast_node c sp rs))"
      using 3 that by auto
    show ?case
    proof (cases "p \<in> set (node_hashes (Cast_node c sp rs))")
      case True
      then have "r = nodes" using np ih1 by simp
      then show ?thesis using 3 True ih2 q q'
        by (cases "rs = []") (auto simp: node_hashes_Node simp del: node_hashes.simps)
    next
      case False
      then have "\<not> ch'" if "c_hash c \<noteq> p" "rs \<noteq> []" using ih2[OF that] by (auto simp: node_hashes_Node simp del: node_hashes.simps)
      then show ?thesis using 3 False ih1 q q'
        by (auto simp: node_hashes_Node simp del: node_hashes.simps)
    qed
  }
qed

text \<open>
  Inserting a published reply is idempotent, does nothing when its parent is not in the conversation,
  and otherwise adds exactly the reply's casts; what was there stays.
\<close>

theorem insert_reply_once:
  assumes "distinct (forest_hashes nodes)"
  shows "insert_reply (insert_reply nodes p node) p node = insert_reply nodes p node \<and>
    (\<not> list_ex (\<lambda>n. subtree_contains_hash n p) nodes \<longrightarrow> insert_reply nodes p node = nodes) \<and>
    (list_ex (\<lambda>n. subtree_contains_hash n p) nodes \<longrightarrow>
     \<not> list_ex (\<lambda>n. subtree_contains_hash n (node_hash node)) nodes \<longrightarrow>
     mset (forest_hashes (insert_reply nodes p node)) = mset (node_hashes node) + mset (forest_hashes nodes))"
proof -
  have c: "list_ex (\<lambda>n. subtree_contains_hash n x) ns \<longleftrightarrow> x \<in> set (forest_hashes ns)" for x and ns :: "'a cast_node list"
    by (auto simp: list_ex_iff subtree_contains_hash_iff forest_hashes_def)
  have own: "node_hash node \<in> set (node_hashes node)" by (cases node) simp
  show ?thesis
  proof (cases "node_hash node \<in> set (forest_hashes nodes)")
    case True
    then show ?thesis by (simp add: insert_reply_def c)
  next
    case new: False
    then have i: "insert_reply nodes p node = fst (attach p node nodes)" by (simp add: insert_reply_def c)
    show ?thesis
    proof (cases "p \<in> set (forest_hashes nodes)")
      case True
      then have m: "mset (forest_hashes (insert_reply nodes p node)) = mset (node_hashes node) + mset (forest_hashes nodes)"
        using attach_spec(3)[OF assms] i by simp
      then have "node_hash node \<in> set (forest_hashes (insert_reply nodes p node))"
        using own by (metis UnI1 set_mset_mset set_mset_union)
      then have "insert_reply (insert_reply nodes p node) p node = insert_reply nodes p node"
        by (simp add: insert_reply_def[of "insert_reply nodes p node"] c)
      then show ?thesis using m True new by (simp add: c)
    next
      case False
      then have "insert_reply nodes p node = nodes" using attach_spec(1,2)[of p node nodes] i by simp
      then show ?thesis using False by (simp add: c)
    qed
  qed
qed

theorem insert_reply_once_witness:
  "\<exists>nodes. forest_hashes (insert_reply nodes ''p'' (fresh_cast ''r'' None () [])) = [''p'', ''r'', ''a''] \<and>
     forest_hashes nodes = [''p'', ''a''] \<and>
     insert_reply (insert_reply nodes ''p'' (fresh_cast ''r'' None () [])) ''p'' (fresh_cast ''r'' None () []) =
       insert_reply nodes ''p'' (fresh_cast ''r'' None () [])"
proof -
  define nodes where "nodes = [fresh_cast ''p'' None () [fresh_cast ''a'' None () []]]"
  have d: "distinct (forest_hashes nodes)" "forest_hashes nodes = [''p'', ''a'']"
    "forest_hashes (insert_reply nodes ''p'' (fresh_cast ''r'' None () [])) = [''p'', ''r'', ''a'']"
    unfolding nodes_def by code_simp+
  show ?thesis using d insert_reply_once[OF d(1), of "''p''" "fresh_cast ''r'' None () []"]
    by (intro exI[of _ nodes]) simp
qed

subsection \<open>The inline reply chain\<close>

text \<open>Each cast of a chain replies to the one before it.\<close>

fun is_chain :: "'d cast_node list \<Rightarrow> bool" where
  "is_chain (a # b # ns) = (b \<in> set (replies a) \<and> is_chain (b # ns))"
| "is_chain _ = True"

lemma node_hashes_replies: "node_hashes n = node_hash n # forest_hashes (replies n)"
  by (cases n) (simp add: forest_hashes_def)

definition focus_on :: "jstr option \<Rightarrow> 'd cast_node \<Rightarrow> bool" where
  "focus_on focus n \<longleftrightarrow> (\<exists>f. focus = Some f \<and> f \<noteq> [] \<and> subtree_contains_hash n f)"

lemma select_chain_step:
  obtains (leaf) "replies node = []" "select_chain_from focus maxL len node cont = ([], cont)"
  | (cut) "replies node \<noteq> []" "len \<ge> maxL" "\<forall>r \<in> set (replies node). \<not> focus_on focus r"
      "select_chain_from focus maxL len node cont = ([], Some (case cont of None \<Rightarrow> node | Some c \<Rightarrow> c))"
  | (go) nxt where "nxt \<in> set (replies node)" "len < maxL \<or> focus_on focus nxt"
      "(\<exists>r \<in> set (replies node). focus_on focus r) \<Longrightarrow> focus_on focus nxt"
      "length (replies node) = 1 \<Longrightarrow> replies node = [nxt]"
      "select_chain_from focus maxL len node cont =
         (let r = select_chain_from focus maxL (len + 1) nxt
            (if length (replies node) > 1 then Some (case cont of None \<Rightarrow> node | Some c \<Rightarrow> c) else cont)
          in (nxt # fst r, snd r))"
proof (cases "replies node = []")
  case True
  then show thesis using leaf by (simp add: select_chain_from.simps[of _ _ _ node])
next
  case False
  define fb where "fb = (case focus of None \<Rightarrow> None | Some f \<Rightarrow> if f = [] then None
     else find (\<lambda>r. subtree_contains_hash r f) (replies node))"
  define nxt where "nxt = (case fb of Some b \<Rightarrow> b | None \<Rightarrow> hd (replies node))"
  have none: "fb = None \<longleftrightarrow> (\<forall>r \<in> set (replies node). \<not> focus_on focus r)"
    by (auto simp: fb_def focus_on_def find_None_iff split: option.splits)
  have some: "b \<in> set (replies node) \<and> focus_on focus b" if "fb = Some b" for b
    using that by (auto simp: fb_def focus_on_def find_Some_iff split: option.splits if_splits)
  show thesis
  proof (cases "len \<ge> maxL \<and> fb = None")
    case True
    then show thesis using cut False none
      by (simp add: select_chain_from.simps[of _ _ _ node] Let_def flip: fb_def split: option.splits)
  next
    case go': False
    show thesis
    proof (rule go)
      show "nxt \<in> set (replies node)" using False some by (auto simp: nxt_def split: option.splits)
      show "len < maxL \<or> focus_on focus nxt" using go' some by (auto simp: nxt_def)
      show "focus_on focus nxt" if "\<exists>r \<in> set (replies node). focus_on focus r"
        using that none some by (auto simp: nxt_def split: option.splits)
      show "replies node = [nxt]" if "length (replies node) = 1"
        using that some by (cases fb) (auto simp: nxt_def length_Suc_conv)
      show "select_chain_from focus maxL len node cont =
         (let r = select_chain_from focus maxL (len + 1) nxt
            (if length (replies node) > 1 then Some (case cont of None \<Rightarrow> node | Some c \<Rightarrow> c) else cont)
          in (nxt # fst r, snd r))"
        using False go' by (auto simp: select_chain_from.simps[of _ _ _ node] Let_def case_prod_beta
            simp flip: fb_def nxt_def split: option.splits)
    qed
  qed
qed

lemma select_chain_is_chain: "is_chain (node # fst (select_chain_from focus maxL len node cont))"
proof (induction node arbitrary: len cont rule: measure_induct_rule[of size])
  case (less node)
  show ?case
  proof (cases rule: select_chain_step[of node focus maxL len cont])
    case (go nxt)
    then show ?thesis using less.IH[OF size_reply[OF go(1)]] by (simp only: go(5)) (simp add: Let_def go(1))
  qed simp_all
qed

lemma select_chain_capped:
  "i < length (fst (select_chain_from focus maxL len node cont)) \<Longrightarrow> maxL \<le> len + int i \<Longrightarrow>
   focus_on focus (fst (select_chain_from focus maxL len node cont) ! i)"
proof (induction node arbitrary: len cont i rule: measure_induct_rule[of size])
  case (less node)
  show ?case
  proof (cases rule: select_chain_step[of node focus maxL len cont])
    case (go nxt)
    then show ?thesis using less.prems less.IH[OF size_reply[OF go(1)], of "i - 1" "len + 1"]
      by (cases i) (auto simp: Let_def algebra_simps)
  qed (use less.prems in auto)
qed

lemma contains_reply: "r \<in> set (replies n) \<Longrightarrow> subtree_contains_hash r f \<Longrightarrow> subtree_contains_hash n f"
  by (cases n) (auto simp: list_ex_iff)

lemma select_chain_inside:
  "n \<in> set (fst (select_chain_from focus maxL len node cont)) \<Longrightarrow> subtree_contains_hash n f \<Longrightarrow> subtree_contains_hash node f"
proof (induction node arbitrary: len cont rule: measure_induct_rule[of size])
  case (less node)
  show ?case
  proof (cases rule: select_chain_step[of node focus maxL len cont])
    case (go nxt)
    then have "n = nxt \<or> subtree_contains_hash nxt f"
      using less.prems less.IH[OF size_reply[OF go(1)]] by (auto simp: Let_def)
    then show ?thesis using less.prems(2) contains_reply[OF go(1)] by blast
  qed (use less.prems in auto)
qed

lemma select_chain_focus:
  "focus_on (Some f) node \<Longrightarrow>
   f \<in> set (map node_hash (node # fst (select_chain_from (Some f) maxL len node cont)))"
proof (induction node arbitrary: len cont rule: measure_induct_rule[of size])
  case (less node)
  show ?case
  proof (cases "node_hash node = f")
    case False
    then obtain r where r: "r \<in> set (replies node)" "focus_on (Some f) r"
      using less.prems by (cases node) (auto simp: focus_on_def list_ex_iff)
    show ?thesis
    proof (cases rule: select_chain_step[of node "Some f" maxL len cont])
      case (go nxt)
      then have "focus_on (Some f) nxt" using r by blast
      then show ?thesis using less.IH[OF size_reply[OF go(1)]] go by (simp add: Let_def)
    qed (use r in auto)
  qed simp
qed

lemma select_chain_hidden:
  "snd (select_chain_from focus maxL len node cont) = None \<Longrightarrow>
   cont = None \<and> node_hashes node = map node_hash (node # fst (select_chain_from focus maxL len node cont))"
proof (induction node arbitrary: len cont rule: measure_induct_rule[of size])
  case (less node)
  show ?case
  proof (cases rule: select_chain_step[of node focus maxL len cont])
    case leaf
    then show ?thesis using less.prems by (simp add: node_hashes_replies)
  next
    case cut
    then show ?thesis using less.prems by simp
  next
    case (go nxt)
    let ?c = "if length (replies node) > 1 then Some (case cont of None \<Rightarrow> node | Some c \<Rightarrow> c) else cont"
    have "snd (select_chain_from focus maxL (len + 1) nxt ?c) = None" using less.prems go by (simp add: Let_def)
    then have ih: "?c = None" "node_hashes nxt = map node_hash (nxt # fst (select_chain_from focus maxL (len + 1) nxt ?c))"
      using less.IH[OF size_reply[OF go(1)]] by blast+
    then have one: "cont = None" "length (replies node) = 1" using go(1)
      by (cases "length (replies node) > 1"; force simp: not_less le_Suc_eq)+
    have "fst (select_chain_from focus maxL len node cont) = nxt # fst (select_chain_from focus maxL (len + 1) nxt ?c)"
      using go(5) by (simp add: Let_def)
    moreover have "node_hashes node = node_hash node # node_hashes nxt"
      using go(4)[OF one(2)] by (simp add: node_hashes_replies[of node])
    ultimately show ?thesis using ih(2) one(1) by simp
  qed
qed

text \<open>
  C32. The inline chain of a conversation: it starts at the root and follows replies; it goes past the
  cap only towards the focused cast (every cast of the chain beyond the cap has the focused cast in its
  subtree), so a group that does not hold the focused cast, or any group when nothing is focused, is never
  longer than the cap; a focused cast in the tree is always on the chain; and when no "Show more replies"
  is offered, the chain is the whole conversation, so nothing is hidden silently.
\<close>

theorem reply_chain_complete:
  "is_chain (fst (select_reply_chain root focus maxL)) \<and> hd (fst (select_reply_chain root focus maxL)) = root \<and>
   (\<forall>i < length (fst (select_reply_chain root focus maxL)). max 1 maxL \<le> int i \<longrightarrow>
      (\<exists>f. focus = Some f \<and> f \<noteq> [] \<and> f \<in> set (node_hashes (fst (select_reply_chain root focus maxL) ! i)))) \<and>
   ((\<forall>f. focus = Some f \<longrightarrow> f \<notin> set (node_hashes root)) \<longrightarrow>
      int (length (fst (select_reply_chain root focus maxL))) \<le> max 1 maxL) \<and>
   (\<forall>f. focus = Some f \<longrightarrow> f \<noteq> [] \<longrightarrow> f \<in> set (node_hashes root) \<longrightarrow>
      f \<in> node_hash ` set (fst (select_reply_chain root focus maxL))) \<and>
   (snd (select_reply_chain root focus maxL) = None \<longrightarrow>
      node_hashes root = map node_hash (fst (select_reply_chain root focus maxL)))"
proof -
  have p: "select_reply_chain root fo maxL =
      (root # fst (select_chain_from fo maxL 1 root None), snd (select_chain_from fo maxL 1 root None))" for fo
    by (simp add: select_reply_chain_def case_prod_beta)
  let ?c = "fst (select_chain_from focus maxL 1 root None)"
  have capped: "focus_on focus ((root # ?c) ! i)" if "i < length (root # ?c)" "max 1 maxL \<le> int i" for i
    using that select_chain_capped[of "i - 1" focus maxL 1 root None] by (cases i) auto
  have short: "int (length (root # ?c)) \<le> max 1 maxL" if "\<forall>f. focus = Some f \<longrightarrow> \<not> subtree_contains_hash root f"
  proof (rule ccontr)
    let ?i = "nat (max 1 maxL)"
    assume "\<not> int (length (root # ?c)) \<le> max 1 maxL"
    then have i: "?i < length (root # ?c)" "max 1 maxL \<le> int ?i" "?i \<noteq> 0" by auto
    then obtain f where f: "focus = Some f" "subtree_contains_hash ((root # ?c) ! ?i) f"
      using capped focus_on_def by blast
    moreover have "(root # ?c) ! ?i \<in> set ?c" using i by (cases ?i) auto
    ultimately show False using that select_chain_inside by blast
  qed
  show ?thesis
    unfolding p fst_conv snd_conv
    using select_chain_is_chain[of root focus maxL 1 None] capped short
      select_chain_focus[of _ root maxL 1 None] select_chain_hidden[of focus maxL 1 root None]
    by (auto simp: focus_on_def subtree_contains_hash_iff)
qed

theorem reply_chain_complete_witness:
  "\<exists>root :: unit cast_node. map node_hash (fst (select_reply_chain root (Some ''d'') 2)) = [''a'', ''c'', ''d''] \<and>
     ''d'' \<in> node_hash ` set (fst (select_reply_chain root (Some ''d'') 2)) \<and>
     map node_hash (fst (select_reply_chain root (Some ''z'') 2)) = [''a'', ''b''] \<and>
     length (fst (select_reply_chain root (Some ''z'') 2)) \<le> 2"
proof -
  define root where "root = fresh_cast ''a'' None () [fresh_cast ''b'' None () [fresh_cast ''e'' None () []],
    fresh_cast ''c'' None () [fresh_cast ''d'' None () []]]"
  have d: "map node_hash (fst (select_reply_chain root (Some ''d'') 2)) = [''a'', ''c'', ''d'']"
    "map node_hash (fst (select_reply_chain root (Some ''z'') 2)) = [''a'', ''b'']"
    "list_ex (\<lambda>x. x = ''d'') (node_hashes root)" "list_all (\<lambda>x. x \<noteq> ''z'') (node_hashes root)"
    unfolding root_def by code_simp+
  have "''d'' \<in> set (node_hashes root)" "''z'' \<notin> set (node_hashes root)"
    using d(3,4) unfolding list_ex_iff list_all_iff by blast+
  then have "''d'' \<in> node_hash ` set (fst (select_reply_chain root (Some ''d'') 2))"
    "length (fst (select_reply_chain root (Some ''z'') 2)) \<le> 2"
    using reply_chain_complete[of root "Some ''d''" 2] reply_chain_complete[of root "Some ''z''" 2] by auto
  then show ?thesis using d(1,2) by (intro exI[of _ root]) (simp only: simp_thms)
qed

subsection \<open>Updating a cast\<close>

fun node_height :: "'d cast_node \<Rightarrow> nat" where
  "node_height (Cast_node c sp rs) = Suc (fold max (map node_height rs) 0)"

text \<open>The reference: apply \<open>f\<close> to every node with the hash, wherever it is.\<close>

fun map_node :: "jstr \<Rightarrow> ('d cast_node \<Rightarrow> 'd cast_node) \<Rightarrow> 'd cast_node \<Rightarrow> 'd cast_node" where
  "map_node h f (Cast_node c sp rs) =
     with_replies (if c_hash c = h then f (Cast_node c sp rs) else Cast_node c sp rs) (map (map_node h f) rs)"

lemma fold_max_le: "fold max xs (a::nat) \<le> k \<longleftrightarrow> a \<le> k \<and> (\<forall>x \<in> set xs. x \<le> k)"
  by (induction xs arbitrary: a) auto

lemma node_height_reply: "node_height n \<le> Suc k \<longleftrightarrow> (\<forall>r \<in> set (replies n). node_height r \<le> k)"
  by (cases n) (simp add: fold_max_le)

lemma those_map_Some: "(\<forall>x \<in> set xs. g x = Some (h x)) \<Longrightarrow> those (map g xs) = Some (map h xs)"
  by (induction xs) auto

lemma with_replies_self [simp]: "with_replies n (replies n) = n"
  by (cases n) (simp add: with_replies_def)

lemma map_node_unfold:
  "map_node h f n = with_replies (if node_hash n = h then f n else n) (map (map_node h f) (replies n))"
  by (cases n) simp

text \<open>
  Updating a cast (a like, a recast) applies the change to every copy of it at any depth and to
  nothing else, and it finishes: a fuel beyond the height of the tree always gives a result. When the
  result is reported as unchanged it is the input itself.
\<close>

theorem update_tree_maps:
  assumes "\<And>n. replies (fst (fn n)) = replies n" "\<And>n. \<not> snd (fn n) \<Longrightarrow> fst (fn n) = n"
    "\<forall>n \<in> set nodes. node_height n \<le> k"
  shows "\<exists>ch. update_tree (Suc k) h fn nodes = Some (map (map_node h (\<lambda>n. fst (fn n))) nodes, ch) \<and>
    (\<not> ch \<longrightarrow> map (map_node h (\<lambda>n. fst (fn n))) nodes = nodes)"
  using assms(3)
proof (induction k arbitrary: nodes)
  case 0
  have pos: "node_height n \<noteq> 0" for n :: "'a cast_node" by (cases n) simp
  have "nodes = []" using 0 pos[of "hd nodes"] by (cases nodes) auto
  then show ?case by (intro exI[of _ False]) simp
next
  case (Suc k)
  let ?f = "\<lambda>n. fst (fn n)"
  let ?step = "\<lambda>node. let (updated, ch) = (if node_hash node = h then fn node else (node, False))
          in if replies updated = [] then Some (updated, ch)
             else map_option (\<lambda>(children, chc).
                    if chc then (with_replies updated children, True) else (updated, ch))
                    (update_tree (Suc k) h fn (replies updated))"
  have one: "\<exists>ch. ?step n = Some (map_node h ?f n, ch) \<and> (\<not> ch \<longrightarrow> map_node h ?f n = n)" if "n \<in> set nodes" for n
  proof -
    obtain u ch where u: "(if node_hash n = h then fn n else (n, False)) = (u, ch)" by fastforce
    have ur: "replies u = replies n" "u = (if node_hash n = h then ?f n else n)" "\<not> ch \<longrightarrow> u = n"
      using u assms(1,2)[of n] by (auto split: if_splits)
    have "\<forall>r \<in> set (replies n). node_height r \<le> k" using Suc.prems that node_height_reply by blast
    then obtain chc where c: "update_tree (Suc k) h fn (replies n) = Some (map (map_node h ?f) (replies n), chc)"
      "\<not> chc \<longrightarrow> map (map_node h ?f) (replies n) = replies n"
      using Suc.IH by blast
    have m: "map_node h ?f n = with_replies u (map (map_node h ?f) (replies n))"
      using ur(2) by (simp add: map_node_unfold[of h ?f n])
    show ?thesis
    proof (cases "replies n = []")
      case True
      then have "map_node h ?f n = u" using m ur(1) by (metis list.simps(8) with_replies_self)
      then show ?thesis using u ur(1,3) True by (simp del: update_tree.simps)
    next
      case False
      show ?thesis
      proof (cases chc)
        case True
        then show ?thesis using u ur(1) c(1) m False by (simp del: update_tree.simps) blast
      next
        case nc: False
        then have "map_node h ?f n = u" using m c(2) ur(1) by (metis with_replies_self)
        then show ?thesis using u ur(1,3) c(1) False nc by (simp del: update_tree.simps)
      qed
    qed
  qed
  define h' where "h' n = the (?step n)" for n
  have s: "?step n = Some (h' n)" "fst (h' n) = map_node h ?f n" "\<not> snd (h' n) \<longrightarrow> map_node h ?f n = n"
    if "n \<in> set nodes" for n
    using one[OF that] unfolding h'_def by fastforce+
  have "those (map ?step nodes) = Some (map h' nodes)" using s(1) by (intro those_map_Some) blast
  then have r: "update_tree (Suc (Suc k)) h fn nodes =
      Some (if list_ex snd (map h' nodes) then (map fst (map h' nodes), True) else (nodes, False))"
    unfolding update_tree.simps(2)[of "Suc k"] by simp
  have mf: "map fst (map h' nodes) = map (map_node h ?f) nodes" using s(2) by simp
  show ?case
  proof (cases "list_ex snd (map h' nodes)")
    case True
    then show ?thesis by (intro exI[of _ True]) (simp only: r mf if_True simp_thms)
  next
    case False
    then have "map (map_node h ?f) nodes = nodes"
      using s(3) by (intro map_idI) (auto simp: list_ex_iff)
    then show ?thesis using False by (intro exI[of _ False]) (simp only: r if_False simp_thms)
  qed
qed

theorem update_tree_maps_witness:
  "\<exists>ch. update_tree 4 ''b'' (\<lambda>n. (Cast_node ((node_cast n)\<lparr>c_rest := 7\<rparr>) (author_is_spam n) (replies n), True))
      [fresh_cast ''a'' None (0::nat) [fresh_cast ''b'' None 0 []]] =
    Some ([fresh_cast ''a'' None 0 [fresh_cast ''b'' None 7 []]], ch)"
proof -
  let ?fn = "\<lambda>n. (Cast_node ((node_cast n)\<lparr>c_rest := 7\<rparr>) (author_is_spam n) (replies n), True)"
  let ?nodes = "[fresh_cast ''a'' None (0::nat) [fresh_cast ''b'' None 0 []]]"
  have h: "\<forall>n \<in> set ?nodes. node_height n \<le> 3" by code_simp
  have m: "map (map_node ''b'' (\<lambda>n. fst (?fn n))) ?nodes = [fresh_cast ''a'' None 0 [fresh_cast ''b'' None 7 []]]"
    by (simp add: fresh_cast_def with_replies_def)
  show ?thesis using update_tree_maps[of ?fn ?nodes 3 "''b''"] h m by (auto simp: eval_nat_numeral simp del: update_tree.simps)
qed

end
