(* ===== verification/Discovery.thy ===== *)
theory Discovery
  imports Prelude
begin

section \<open>Discovering spaces\<close>

text \<open>
  The merge of \<^verbatim>\<open>landing/lib/discovery/mergeDiscoverySpaces.ts\<close> and the store of
  \<^verbatim>\<open>landing/lib/stores/spacesDiscoveryStore.ts\<close>. A room record has the fields these read; dates
  are strings that the argument \<open>parse\<close> (\<^verbatim>\<open>Date.parse\<close>) turns into milliseconds, \<open>None\<close> for
  \<^verbatim>\<open>NaN\<close>. A refresh of the store is split at its await: \<open>run_refresh\<close> captures the lists and
  \<open>run_refresh_done\<close> publishes what the four requests gave, \<open>None\<close> for one that failed.
\<close>

record rsvp_user =
  ru_fid :: int
  ru_display_name :: jstr
  ru_pfp_url :: "jstr option"

record rsvp_summary =
  rsvp_count :: int
  rsvp_users :: "rsvp_user list"
  rsvp_is_going :: bool

record space =
  sp_id :: jstr
  sp_title :: jstr
  sp_host_fid :: int
  sp_status :: jstr
  sp_started_at :: jstr
  sp_scheduled_at :: "jstr option"
  sp_rsvp_summary :: "rsvp_summary option"
  sp_farcaster_room_id :: "jstr option"

record native_space =
  ns_id :: jstr
  ns_title :: "jstr option"
  ns_state :: jstr
  ns_started_at :: "jstr option"
  ns_scheduled_at :: "jstr option"

datatype discovery_space = Juke_hosted space | Farcaster_native native_space

definition nonempty_id :: "jstr option \<Rightarrow> jstr list" where
  "nonempty_id x = (case x of None \<Rightarrow> [] | Some i \<Rightarrow> if i = [] then [] else [i])"

subsection \<open>The merged feed\<close>

definition UPCOMING_SCHEDULED_GRACE_MS :: int where
  "UPCOMING_SCHEDULED_GRACE_MS = 60 * 60 * 1000"

definition is_stale_past_scheduled :: "(jstr \<Rightarrow> int option) \<Rightarrow> int \<Rightarrow> jstr option \<Rightarrow> bool" where
  "is_stale_past_scheduled parse now scheduledAt =
     (case scheduledAt of
        None \<Rightarrow> False
      | Some raw \<Rightarrow>
          if raw = [] then False
          else case parse raw of None \<Rightarrow> False | Some ms \<Rightarrow> ms < now - UPCOMING_SCHEDULED_GRACE_MS)"

definition parse_or_zero :: "(jstr \<Rightarrow> int option) \<Rightarrow> jstr option \<Rightarrow> int" where
  "parse_or_zero parse raw =
     (case raw of
        None \<Rightarrow> 0
      | Some r \<Rightarrow> if r = [] then 0 else case parse r of None \<Rightarrow> 0 | Some ms \<Rightarrow> ms)"

definition juke_timestamp :: "(jstr \<Rightarrow> int option) \<Rightarrow> space \<Rightarrow> int" where
  "juke_timestamp parse room =
     parse_or_zero parse
       (if sp_status room = ''active'' then Some (sp_started_at room)
        else case sp_scheduled_at room of Some t \<Rightarrow> Some t | None \<Rightarrow> Some (sp_started_at room))"

definition native_timestamp :: "(jstr \<Rightarrow> int option) \<Rightarrow> native_space \<Rightarrow> int" where
  "native_timestamp parse sp =
     parse_or_zero parse
       (if ns_state sp = ''live''
        then (case ns_started_at sp of Some t \<Rightarrow> Some t | None \<Rightarrow> ns_scheduled_at sp)
        else (case ns_scheduled_at sp of Some t \<Rightarrow> Some t | None \<Rightarrow> ns_started_at sp))"

fun is_live_discovery_space :: "discovery_space \<Rightarrow> bool" where
  "is_live_discovery_space (Farcaster_native sp) = (ns_state sp = ''live'')"
| "is_live_discovery_space (Juke_hosted sp) = (sp_status sp = ''active'')"

fun timestamp_of :: "(jstr \<Rightarrow> int option) \<Rightarrow> discovery_space \<Rightarrow> int" where
  "timestamp_of parse (Farcaster_native sp) = native_timestamp parse sp"
| "timestamp_of parse (Juke_hosted sp) = juke_timestamp parse sp"

record discovery_lists =
  juke_live :: "space list"
  juke_scheduled :: "space list"
  farcaster_live :: "native_space list"
  farcaster_scheduled :: "native_space list"

definition juke_mirrored_farcaster_ids :: "space list \<Rightarrow> jstr set" where
  "juke_mirrored_farcaster_ids rooms = set (concat (map (\<lambda>r. nonempty_id (sp_farcaster_room_id r)) rooms))"

definition by_time_desc :: "(jstr \<Rightarrow> int option) \<Rightarrow> discovery_space \<Rightarrow> discovery_space \<Rightarrow> int" where
  "by_time_desc parse a b = timestamp_of parse b - timestamp_of parse a"

definition merge_discovery_spaces ::
  "(jstr \<Rightarrow> int option) \<Rightarrow> int \<Rightarrow> discovery_lists \<Rightarrow> discovery_space list \<times> discovery_space list" where
  "merge_discovery_spaces parse now args =
     (let liveMirrored = juke_mirrored_farcaster_ids (juke_live args);
          scheduledMirrored = juke_mirrored_farcaster_ids (juke_scheduled args);
          live = map Juke_hosted (juke_live args) @
            map Farcaster_native (filter (\<lambda>s. ns_id s \<notin> liveMirrored) (farcaster_live args));
          upcoming = map Juke_hosted
              (filter (\<lambda>r. \<not> is_stale_past_scheduled parse now (sp_scheduled_at r)) (juke_scheduled args)) @
            map Farcaster_native
              (filter (\<lambda>s. ns_id s \<notin> scheduledMirrored \<and>
                 \<not> is_stale_past_scheduled parse now (ns_scheduled_at s)) (farcaster_scheduled args))
      in (js_sort (by_time_desc parse) live, js_sort (by_time_desc parse) upcoming))"

interpretation by_time: js_comparator "by_time_desc parse" for parse
  by unfold_locales (auto simp: by_time_desc_def)

text \<open>
  The "Live now" rail: every Juke room that is live is listed, and a native room unless a live Juke
  room mirrors it (a scheduled mirror never hides a live room); nothing is listed twice that was not sent
  twice; and rooms are ordered from the most recent on, equal times keeping the order of the lists.
\<close>

theorem live_rail_complete:
  "mset (fst (merge_discovery_spaces parse now args)) =
     mset (map Juke_hosted (juke_live args)) +
     mset (map Farcaster_native (filter (\<lambda>s. \<forall>r \<in> set (juke_live args).
       ns_id s \<notin> set (nonempty_id (sp_farcaster_room_id r))) (farcaster_live args))) \<and>
   sorted_wrt (\<lambda>a b. timestamp_of parse b \<le> timestamp_of parse a) (fst (merge_discovery_spaces parse now args)) \<and>
   filter (\<lambda>x. timestamp_of parse x = t) (map Juke_hosted (juke_live args)) @
     filter (\<lambda>x. timestamp_of parse x = t) (map Farcaster_native (filter (\<lambda>s. \<forall>r \<in> set (juke_live args).
       ns_id s \<notin> set (nonempty_id (sp_farcaster_room_id r))) (farcaster_live args))) =
     filter (\<lambda>x. timestamp_of parse x = t) (fst (merge_discovery_spaces parse now args))"
proof -
  let ?n = "filter (\<lambda>s. \<forall>r \<in> set (juke_live args). ns_id s \<notin> set (nonempty_id (sp_farcaster_room_id r)))
    (farcaster_live args)"
  let ?l = "map Juke_hosted (juke_live args) @ map Farcaster_native ?n"
  have l: "fst (merge_discovery_spaces parse now args) = js_sort (by_time_desc parse) ?l"
    by (simp add: merge_discovery_spaces_def juke_mirrored_farcaster_ids_def Let_def)
  have "sorted_wrt (\<lambda>a b. timestamp_of parse b \<le> timestamp_of parse a) (js_sort (by_time_desc parse) ?l)"
    using by_time.sorted_sort[of parse ?l] by (simp add: by_time_desc_def)
  moreover have "filter (\<lambda>x. timestamp_of parse x = t) (js_sort (by_time_desc parse) ?l) =
      filter (\<lambda>x. timestamp_of parse x = t) ?l"
    by (rule by_time.sort_stable) (simp add: by_time_desc_def)
  ultimately show ?thesis by (simp add: l)
qed

subsection \<open>Normalising a snapshot\<close>

definition is_past_scheduled :: "(jstr \<Rightarrow> int option) \<Rightarrow> jstr option \<Rightarrow> int \<Rightarrow> bool" where
  "is_past_scheduled parse v nowMs =
     (case v of
        None \<Rightarrow> False
      | Some raw \<Rightarrow> if raw = [] then False else case parse raw of None \<Rightarrow> False | Some t \<Rightarrow> t \<le> nowMs)"

text \<open>\<^verbatim>\<open>uniqueBy\<close> keeps the first item of each key; \<open>seen\<close> is its set.\<close>

fun unique_by_from :: "('a \<Rightarrow> jstr) \<Rightarrow> jstr set \<Rightarrow> 'a list \<Rightarrow> 'a list" where
  "unique_by_from key seen [] = []"
| "unique_by_from key seen (x # xs) =
     (if key x \<in> seen then unique_by_from key seen xs
      else x # unique_by_from key (insert (key x) seen) xs)"

definition unique_by :: "('a \<Rightarrow> jstr) \<Rightarrow> 'a list \<Rightarrow> 'a list" where
  "unique_by key xs = unique_by_from key {} xs"

definition room_key :: "space \<Rightarrow> jstr" where
  "room_key room = (case nonempty_id (sp_farcaster_room_id room) of
     i # _ \<Rightarrow> ''fc:'' @ i | [] \<Rightarrow> ''juke:'' @ sp_id room)"

definition mirrored_ids :: "space list \<Rightarrow> jstr list" where
  "mirrored_ids rooms = concat (map (\<lambda>r. nonempty_id (sp_farcaster_room_id r)) rooms)"

definition normalize_discovery_lists :: "(jstr \<Rightarrow> int option) \<Rightarrow> discovery_lists \<Rightarrow> int \<Rightarrow> discovery_lists" where
  "normalize_discovery_lists parse ls nowMs =
     (let jukeLive = unique_by room_key (filter (\<lambda>r. sp_status r = ''active'') (juke_live ls));
          mirroredLiveIds = set (mirrored_ids jukeLive);
          farcasterLive = unique_by ns_id
            (filter (\<lambda>s. ns_state s = ''live'' \<and> ns_id s \<notin> mirroredLiveIds) (farcaster_live ls));
          liveNativeIds = mirroredLiveIds \<union> set (map ns_id farcasterLive);
          jukeScheduled = unique_by room_key
            (filter (\<lambda>r. sp_status r = ''scheduled'' \<and> \<not> is_past_scheduled parse (sp_scheduled_at r) nowMs \<and>
               \<not> (\<exists>i \<in> set (nonempty_id (sp_farcaster_room_id r)). i \<in> liveNativeIds)) (juke_scheduled ls));
          mirroredScheduledIds = set (mirrored_ids jukeScheduled);
          farcasterScheduled = unique_by ns_id
            (filter (\<lambda>s. ns_state s = ''scheduled'' \<and> \<not> is_past_scheduled parse (ns_scheduled_at s) nowMs \<and>
               ns_id s \<notin> liveNativeIds \<and> ns_id s \<notin> mirroredScheduledIds) (farcaster_scheduled ls))
      in \<lparr>juke_live = jukeLive, juke_scheduled = jukeScheduled, farcaster_live = farcasterLive,
          farcaster_scheduled = farcasterScheduled\<rparr>)"

lemma unique_by_from_set: "set (unique_by_from key seen xs) \<subseteq> set xs"
  by (induction xs arbitrary: seen) (auto split: if_splits)

lemma unique_by_from_distinct:
  "distinct (map key (unique_by_from key seen xs)) \<and> (\<forall>x \<in> set (unique_by_from key seen xs). key x \<notin> seen)"
  by (induction xs arbitrary: seen) force+

lemma unique_by_from_keys: "key ` set (unique_by_from key seen xs) = key ` set xs - seen"
  by (induction xs arbitrary: seen) auto

lemma set_unique_by: "set (unique_by key xs) \<subseteq> set xs"
  by (simp add: unique_by_def unique_by_from_set)

lemma distinct_unique_by: "distinct (map key (unique_by key xs))"
  by (simp add: unique_by_def unique_by_from_distinct)

lemma keys_unique_by: "key ` set (unique_by key xs) = key ` set xs"
  by (simp add: unique_by_def unique_by_from_keys)

lemma unique_by_from_id:
  "distinct (map key xs) \<Longrightarrow> (\<forall>x \<in> set xs. key x \<notin> seen) \<Longrightarrow> unique_by_from key seen xs = xs"
proof (induction xs arbitrary: seen)
  case (Cons a xs)
  have "key x \<noteq> key a" if "x \<in> set xs" for x
    using Cons.prems(1) that by (metis distinct.simps(2) image_eqI list.simps(9) set_map)
  then have "\<forall>x \<in> set xs. key x \<notin> insert (key a) seen" using Cons.prems(2) by simp
  then show ?case using Cons by simp
qed simp

lemma unique_by_id: "distinct (map key xs) \<Longrightarrow> unique_by key xs = xs"
  by (simp add: unique_by_def unique_by_from_id)

lemma nonempty_id_cases: "nonempty_id x = [] \<or> (\<exists>i. nonempty_id x = [i])"
  by (auto simp: nonempty_id_def split: option.splits)

lemma distinct_mirrored_ids: "distinct (map room_key rooms) \<Longrightarrow> distinct (mirrored_ids rooms)"
proof (induction rooms)
  case Nil
  then show ?case by (simp add: mirrored_ids_def)
next
  case (Cons r rooms)
  have "i \<notin> set (mirrored_ids rooms)" if i: "nonempty_id (sp_farcaster_room_id r) = [i]" for i
  proof
    assume "i \<in> set (mirrored_ids rooms)"
    then obtain q where q: "q \<in> set rooms" "i \<in> set (nonempty_id (sp_farcaster_room_id q))"
      by (auto simp: mirrored_ids_def)
    then have "nonempty_id (sp_farcaster_room_id q) = [i]"
      using nonempty_id_cases[of "sp_farcaster_room_id q"] by auto
    then have "room_key q = room_key r" using i by (simp add: room_key_def)
    then show False using Cons.prems q(1) by (metis distinct.simps(2) image_eqI list.simps(9) set_map)
  qed
  then show ?case using Cons nonempty_id_cases[of "sp_farcaster_room_id r"] by (auto simp: mirrored_ids_def)
qed

lemma distinct_append4:
  "distinct a \<Longrightarrow> distinct b \<Longrightarrow> distinct c \<Longrightarrow> distinct d \<Longrightarrow> set a \<inter> set b = {} \<Longrightarrow>
   set c \<inter> (set a \<union> set b) = {} \<Longrightarrow> set d \<inter> (set a \<union> set b \<union> set c) = {} \<Longrightarrow> distinct (a @ b @ c @ d)"
  by auto

text \<open>The Farcaster ids a snapshot shows, over all four lists.\<close>

definition native_ids :: "discovery_lists \<Rightarrow> jstr list" where
  "native_ids ls = mirrored_ids (juke_live ls) @ map ns_id (farcaster_live ls) @
     mirrored_ids (juke_scheduled ls) @ map ns_id (farcaster_scheduled ls)"

text \<open>
  A published snapshot shows every Farcaster room at most once over all four lists, whether through a
  Juke mirror or natively; its live lists hold only live rooms and its scheduled lists only scheduled
  ones whose known time has not passed.
\<close>

theorem normalized_once:
  "distinct (native_ids (normalize_discovery_lists parse ls now)) \<and>
   (\<forall>r \<in> set (juke_live (normalize_discovery_lists parse ls now)). sp_status r = ''active'') \<and>
   (\<forall>s \<in> set (farcaster_live (normalize_discovery_lists parse ls now)). ns_state s = ''live'') \<and>
   (\<forall>r \<in> set (juke_scheduled (normalize_discovery_lists parse ls now)).
      sp_status r = ''scheduled'' \<and> \<not> is_past_scheduled parse (sp_scheduled_at r) now) \<and>
   (\<forall>s \<in> set (farcaster_scheduled (normalize_discovery_lists parse ls now)).
      ns_state s = ''scheduled'' \<and> \<not> is_past_scheduled parse (ns_scheduled_at s) now)"
proof -
  let ?n = "normalize_discovery_lists parse ls now"
  have dj: "distinct (mirrored_ids (juke_live ?n))" "distinct (mirrored_ids (juke_scheduled ?n))"
    by (simp_all add: normalize_discovery_lists_def Let_def distinct_mirrored_ids distinct_unique_by)
  have dn: "distinct (map ns_id (farcaster_live ?n))" "distinct (map ns_id (farcaster_scheduled ?n))"
    by (simp_all add: normalize_discovery_lists_def Let_def distinct_unique_by)
  have fields:
    "juke_live ?n = unique_by room_key (filter (\<lambda>r. sp_status r = ''active'') (juke_live ls))"
    "farcaster_live ?n = unique_by ns_id (filter (\<lambda>s. ns_state s = ''live'' \<and>
       ns_id s \<notin> set (mirrored_ids (juke_live ?n))) (farcaster_live ls))"
    "juke_scheduled ?n = unique_by room_key (filter (\<lambda>r. sp_status r = ''scheduled'' \<and>
       \<not> is_past_scheduled parse (sp_scheduled_at r) now \<and>
       \<not> (\<exists>i \<in> set (nonempty_id (sp_farcaster_room_id r)).
          i \<in> set (mirrored_ids (juke_live ?n)) \<union> set (map ns_id (farcaster_live ?n)))) (juke_scheduled ls))"
    "farcaster_scheduled ?n = unique_by ns_id (filter (\<lambda>s. ns_state s = ''scheduled'' \<and>
       \<not> is_past_scheduled parse (ns_scheduled_at s) now \<and>
       ns_id s \<notin> set (mirrored_ids (juke_live ?n)) \<union> set (map ns_id (farcaster_live ?n)) \<and>
       ns_id s \<notin> set (mirrored_ids (juke_scheduled ?n))) (farcaster_scheduled ls))"
    by (simp_all add: normalize_discovery_lists_def Let_def)
  have jl: "sp_status r = ''active''" if "r \<in> set (juke_live ?n)" for r
    using subsetD[OF set_unique_by that[unfolded fields(1)]] by simp
  have fl: "ns_state s = ''live'' \<and> ns_id s \<notin> set (mirrored_ids (juke_live ?n))" if "s \<in> set (farcaster_live ?n)" for s
    using subsetD[OF set_unique_by that[unfolded fields(2)]] by simp
  have js: "sp_status r = ''scheduled'' \<and> \<not> is_past_scheduled parse (sp_scheduled_at r) now \<and>
      (\<forall>i \<in> set (nonempty_id (sp_farcaster_room_id r)).
         i \<notin> set (mirrored_ids (juke_live ?n)) \<and> i \<notin> ns_id ` set (farcaster_live ?n))"
    if "r \<in> set (juke_scheduled ?n)" for r
    using subsetD[OF set_unique_by that[unfolded fields(3)]] by simp
  have fs: "ns_state s = ''scheduled'' \<and> \<not> is_past_scheduled parse (ns_scheduled_at s) now \<and>
      ns_id s \<notin> set (mirrored_ids (juke_live ?n)) \<and> ns_id s \<notin> ns_id ` set (farcaster_live ?n) \<and>
      ns_id s \<notin> set (mirrored_ids (juke_scheduled ?n))"
    if "s \<in> set (farcaster_scheduled ?n)" for s
    using subsetD[OF set_unique_by that[unfolded fields(4)]] by simp
  have jm: "i \<in> set (mirrored_ids (juke_scheduled ?n)) \<Longrightarrow>
      i \<notin> set (mirrored_ids (juke_live ?n)) \<and> i \<notin> ns_id ` set (farcaster_live ?n)" for i
    using js by (fastforce simp: mirrored_ids_def[of "juke_scheduled ?n"])
  have "distinct (native_ids ?n)"
  proof -
    have "set (mirrored_ids (juke_live ?n)) \<inter> ns_id ` set (farcaster_live ?n) = {}" using fl by blast
    moreover have "set (mirrored_ids (juke_scheduled ?n)) \<inter>
        (set (mirrored_ids (juke_live ?n)) \<union> ns_id ` set (farcaster_live ?n)) = {}" using jm by blast
    moreover have "ns_id ` set (farcaster_scheduled ?n) \<inter> (set (mirrored_ids (juke_live ?n)) \<union>
        ns_id ` set (farcaster_live ?n) \<union> set (mirrored_ids (juke_scheduled ?n))) = {}" using fs by blast
    ultimately show ?thesis unfolding native_ids_def
      by (intro distinct_append4 dj dn) (simp_all only: set_map)
  qed
  then show ?thesis using jl fl js fs by blast
qed

subsection \<open>The store\<close>

datatype refresh_scope = Scope_all | Scope_natives

record discovery_state =
  d_lists :: discovery_lists
  d_hydrated :: bool
  d_ws_connected :: bool
  d_refresh :: "(refresh_scope \<times> discovery_lists) option"
  d_ref_count :: nat
  d_subscribed :: bool

definition initial_lists :: discovery_lists where
  "initial_lists = \<lparr>juke_live = [], juke_scheduled = [], farcaster_live = [], farcaster_scheduled = []\<rparr>"

definition initial_discovery :: discovery_state where
  "initial_discovery = \<lparr>d_lists = initial_lists, d_hydrated = False, d_ws_connected = False,
     d_refresh = None, d_ref_count = 0, d_subscribed = False\<rparr>"

definition patch_rsvp :: "jstr \<Rightarrow> rsvp_summary option \<Rightarrow> space list \<Rightarrow> space list" where
  "patch_rsvp roomId summary rooms =
     map (\<lambda>r. if sp_id r = roomId then r\<lparr>sp_rsvp_summary := summary\<rparr> else r) rooms"

definition apply_rsvp_summary :: "jstr \<Rightarrow> rsvp_summary option \<Rightarrow> discovery_state \<Rightarrow> discovery_state" where
  "apply_rsvp_summary roomId summary s =
     s\<lparr>d_lists := (d_lists s)\<lparr>juke_live := patch_rsvp roomId summary (juke_live (d_lists s)),
                            juke_scheduled := patch_rsvp roomId summary (juke_scheduled (d_lists s))\<rparr>\<rparr>"

definition drop_room_from_lists :: "discovery_lists \<Rightarrow> jstr \<Rightarrow> discovery_lists" where
  "drop_room_from_lists ls roomId =
     \<lparr>juke_live = filter (\<lambda>r. sp_id r \<noteq> roomId) (juke_live ls),
      juke_scheduled = filter (\<lambda>r. sp_id r \<noteq> roomId) (juke_scheduled ls),
      farcaster_live = filter (\<lambda>r. ns_id r \<noteq> roomId) (farcaster_live ls),
      farcaster_scheduled = filter (\<lambda>r. ns_id r \<noteq> roomId) (farcaster_scheduled ls)\<rparr>"

definition drop_room :: "jstr \<Rightarrow> discovery_state \<Rightarrow> discovery_state" where
  "drop_room roomId s = s\<lparr>d_lists := drop_room_from_lists (d_lists s) roomId\<rparr>"

definition next_rsvp_summary :: "rsvp_user option \<Rightarrow> rsvp_summary option \<Rightarrow> rsvp_summary" where
  "next_rsvp_summary viewer current =
     (let base = (case current of Some c \<Rightarrow> c
                  | None \<Rightarrow> \<lparr>rsvp_count = 0, rsvp_users = [], rsvp_is_going = False\<rparr>);
          going = (\<not> rsvp_is_going base);
          users = (case viewer of
             None \<Rightarrow> rsvp_users base
           | Some v \<Rightarrow>
               if going
               then (if list_ex (\<lambda>u. ru_fid u = ru_fid v) (rsvp_users base) then rsvp_users base
                     else v # rsvp_users base)
               else filter (\<lambda>u. ru_fid u \<noteq> ru_fid v) (rsvp_users base))
      in \<lparr>rsvp_count = max 0 (rsvp_count base + (if going then 1 else -1)), rsvp_users = users,
          rsvp_is_going = going\<rparr>)"

text \<open>\<^verbatim>\<open>toggleRsvp\<close> up to its call, which is \<^verbatim>\<open>rsvpRoom\<close> if the flag is set; and its end.\<close>

definition toggle_rsvp :: "rsvp_user option \<Rightarrow> space \<Rightarrow> discovery_state \<Rightarrow> discovery_state \<times> bool" where
  "toggle_rsvp viewer room s =
     (let optimistic = next_rsvp_summary viewer (sp_rsvp_summary room)
      in (apply_rsvp_summary (sp_id room) (Some optimistic) s, rsvp_is_going optimistic))"

definition toggle_rsvp_done :: "space \<Rightarrow> bool \<Rightarrow> discovery_state \<Rightarrow> discovery_state" where
  "toggle_rsvp_done room succeeded s =
     (if succeeded then s else apply_rsvp_summary (sp_id room) (sp_rsvp_summary room) s)"

definition refresh :: "refresh_scope \<Rightarrow> discovery_state \<Rightarrow> discovery_state" where
  "refresh scope s = (if d_refresh s \<noteq> None then s else s\<lparr>d_refresh := Some (scope, d_lists s)\<rparr>)"

definition run_refresh_done ::
  "(jstr \<Rightarrow> int option) \<Rightarrow> int \<Rightarrow> space list option \<Rightarrow> space list option \<Rightarrow> native_space list option \<Rightarrow>
   native_space list option \<Rightarrow> discovery_state \<Rightarrow> discovery_state" where
  "run_refresh_done parse now active scheduled liveNative scheduledNative s =
     (case d_refresh s of
        None \<Rightarrow> s
      | Some (scope, current) \<Rightarrow>
          (let pick = (\<lambda>res old. case res of Some x \<Rightarrow> x | None \<Rightarrow> old);
               includeJuke = (scope = Scope_all);
               ls = \<lparr>juke_live = (if includeJuke then pick active (juke_live current) else juke_live current),
                     juke_scheduled = (if includeJuke then pick scheduled (juke_scheduled current)
                       else juke_scheduled current),
                     farcaster_live = (case liveNative of Some x \<Rightarrow> x | None \<Rightarrow> farcaster_live current),
                     farcaster_scheduled = (case scheduledNative of Some x \<Rightarrow> x
                       | None \<Rightarrow> farcaster_scheduled current)\<rparr>
           in s\<lparr>d_lists := normalize_discovery_lists parse ls now, d_hydrated := True, d_refresh := None\<rparr>))"

text \<open>The shared lifecycle: one socket and one timer while anyone is subscribed.\<close>

definition start_spaces_discovery :: "discovery_state \<Rightarrow> discovery_state" where
  "start_spaces_discovery s =
     (let s1 = s\<lparr>d_ref_count := d_ref_count s + 1\<rparr>
      in if d_ref_count s1 = 1 then (refresh Scope_all s1)\<lparr>d_subscribed := True\<rparr> else s1)"

definition release_spaces_discovery :: "discovery_state \<Rightarrow> discovery_state" where
  "release_spaces_discovery s =
     (let s1 = s\<lparr>d_ref_count := d_ref_count s - 1\<rparr>
      in if d_ref_count s1 = 0 then s1\<lparr>d_subscribed := False\<rparr> else s1)"

definition on_rooms_changed :: "discovery_state \<Rightarrow> discovery_state" where
  "on_rooms_changed s = refresh Scope_all s"

definition on_poll :: "discovery_state \<Rightarrow> discovery_state" where
  "on_poll s = refresh (if d_ws_connected s then Scope_natives else Scope_all) s"

definition set_ws_connected :: "bool \<Rightarrow> discovery_state \<Rightarrow> discovery_state" where
  "set_ws_connected b s = s\<lparr>d_ws_connected := b\<rparr>"

definition reset_discovery :: "discovery_state \<Rightarrow> discovery_state" where
  "reset_discovery s = s\<lparr>d_lists := initial_lists, d_hydrated := False, d_ws_connected := False\<rparr>"

subsection \<open>What the store guarantees\<close>

definition a_room :: "jstr \<Rightarrow> jstr \<Rightarrow> space" where
  "a_room i status = \<lparr>sp_id = i, sp_title = ''t'', sp_host_fid = 1, sp_status = status, sp_started_at = [],
     sp_scheduled_at = None, sp_rsvp_summary = None, sp_farcaster_room_id = None\<rparr>"

definition no_dates :: "jstr \<Rightarrow> int option" where
  "no_dates _ = None"

lemma patch_rsvp_restore:
  "\<forall>r \<in> set rooms. sp_id r = i \<longrightarrow> sp_rsvp_summary r = x \<Longrightarrow> patch_rsvp i x (patch_rsvp i y rooms) = rooms"
  by (induction rooms) (auto simp: patch_rsvp_def)

text \<open>
  An RSVP that the server refuses leaves no trace: the optimistic change is rolled back exactly. The
  optimistic change itself flips the flag, moves the count by one but never below zero, and lists the
  viewer exactly when they are going.
\<close>

theorem rsvp_rollback:
  assumes "\<forall>r \<in> set (juke_live (d_lists s) @ juke_scheduled (d_lists s)).
      sp_id r = sp_id room \<longrightarrow> sp_rsvp_summary r = sp_rsvp_summary room"
    "sp_rsvp_summary room = Some c"
  shows "toggle_rsvp_done room False (fst (toggle_rsvp (Some v) room s)) = s \<and>
    rsvp_is_going (next_rsvp_summary (Some v) (Some c)) = (\<not> rsvp_is_going c) \<and>
    snd (toggle_rsvp (Some v) room s) = (\<not> rsvp_is_going c) \<and>
    0 \<le> rsvp_count (next_rsvp_summary (Some v) (Some c)) \<and>
    (0 < rsvp_count c \<longrightarrow> rsvp_count (next_rsvp_summary (Some v) (Some c)) =
       rsvp_count c + (if rsvp_is_going c then - 1 else 1)) \<and>
    (ru_fid v \<in> ru_fid ` set (rsvp_users (next_rsvp_summary (Some v) (Some c))) \<longleftrightarrow> \<not> rsvp_is_going c)"
proof -
  have "patch_rsvp (sp_id room) (sp_rsvp_summary room) (patch_rsvp (sp_id room) y (juke_live (d_lists s))) =
      juke_live (d_lists s)"
    "patch_rsvp (sp_id room) (sp_rsvp_summary room) (patch_rsvp (sp_id room) y (juke_scheduled (d_lists s))) =
      juke_scheduled (d_lists s)" for y
    using assms(1) by (intro patch_rsvp_restore; simp)+
  then have "toggle_rsvp_done room False (fst (toggle_rsvp (Some v) room s)) = s"
    by (simp add: toggle_rsvp_done_def toggle_rsvp_def apply_rsvp_summary_def Let_def)
  moreover have "ru_fid v \<in> ru_fid ` set (rsvp_users (next_rsvp_summary (Some v) (Some c))) \<longleftrightarrow> \<not> rsvp_is_going c"
    by (cases "ru_fid v \<in> ru_fid ` set (rsvp_users c)")
      (auto simp: next_rsvp_summary_def list_ex_iff image_iff Let_def)
  ultimately show ?thesis
    using assms(2) by (simp add: toggle_rsvp_def next_rsvp_summary_def Let_def)
qed

theorem rsvp_rollback_witness:
  "\<exists>room s. rsvp_count (next_rsvp_summary (Some \<lparr>ru_fid = 1, ru_display_name = ''a'', ru_pfp_url = None\<rparr>)
      (sp_rsvp_summary room)) = 3 \<and> juke_scheduled (d_lists s) = [room] \<and>
    toggle_rsvp_done room False (fst (toggle_rsvp (Some \<lparr>ru_fid = 1, ru_display_name = ''a'', ru_pfp_url = None\<rparr>) room s)) = s"
proof -
  define c where "c = \<lparr>rsvp_count = 2, rsvp_users = [], rsvp_is_going = False\<rparr>"
  define room where "room = (a_room ''r'' ''scheduled'')\<lparr>sp_rsvp_summary := Some c\<rparr>"
  define s where "s = initial_discovery\<lparr>d_lists := initial_lists\<lparr>juke_scheduled := [room]\<rparr>\<rparr>"
  have p: "\<forall>r \<in> set (juke_live (d_lists s) @ juke_scheduled (d_lists s)).
      sp_id r = sp_id room \<longrightarrow> sp_rsvp_summary r = sp_rsvp_summary room"
    by (simp add: s_def initial_lists_def)
  have q: "sp_rsvp_summary room = Some c" by (simp add: room_def)
  show ?thesis
    using rsvp_rollback[OF p q, of "\<lparr>ru_fid = 1, ru_display_name = ''a'', ru_pfp_url = None\<rparr>"] q
    by (intro exI[of _ room] exI[of _ s]) (simp add: c_def s_def initial_lists_def)
qed

lemma juke_live_normalize:
  "juke_live (normalize_discovery_lists parse ls now) =
     unique_by room_key (filter (\<lambda>r. sp_status r = ''active'') (juke_live ls))"
  by (simp add: normalize_discovery_lists_def Let_def)

text \<open>
  A push event is lost when it arrives while the native lists are being polled: it joins the refresh in
  flight, which publishes the Juke lists as they were, whatever the server would have answered.
\<close>

theorem event_joins_native_refresh:
  assumes "d_refresh s = Some (Scope_natives, cur)"
  shows "on_rooms_changed s = s \<and>
    juke_live (d_lists (run_refresh_done parse now active scheduled ln sn (on_rooms_changed s))) =
      juke_live (normalize_discovery_lists parse cur now) \<and>
    d_refresh (run_refresh_done parse now active scheduled ln sn (on_rooms_changed s)) = None"
proof -
  have s: "on_rooms_changed s = s" using assms by (simp add: on_rooms_changed_def refresh_def)
  show ?thesis unfolding s using assms by (simp add: run_refresh_done_def juke_live_normalize)
qed

theorem event_joins_native_refresh_witness:
  "\<exists>s. d_refresh s = Some (Scope_natives, initial_lists) \<and>
     juke_live (d_lists (run_refresh_done no_dates 0 (Some [a_room ''r'' ''active'']) None None None (on_rooms_changed s))) = []"
proof -
  define s where "s = initial_discovery\<lparr>d_refresh := Some (Scope_natives, initial_lists)\<rparr>"
  have r: "d_refresh s = Some (Scope_natives, initial_lists)" by (simp add: s_def)
  have "juke_live (normalize_discovery_lists no_dates initial_lists 0) = []" by code_simp
  then have "juke_live (d_lists (run_refresh_done no_dates 0 (Some [a_room ''r'' ''active'']) None None None
      (on_rooms_changed s))) = []"
    by (rule event_joins_native_refresh[OF r, THEN conjunct2, THEN conjunct1, THEN trans])
  with r show ?thesis by (intro exI[of _ s] conjI)
qed

text \<open>
  A room that is dropped when its host ends it comes back: a refresh of the native lists that was in
  flight publishes the Juke lists it captured before.
\<close>

theorem dropped_room_returns:
  "\<exists>s. juke_live (d_lists s) = [a_room ''r'' ''active''] \<and> d_refresh s = None \<and> d_ws_connected s \<and>
     juke_live (d_lists (drop_room ''r'' (on_poll s))) = [] \<and>
     juke_live (d_lists (run_refresh_done no_dates 0 (Some []) (Some []) (Some []) (Some [])
       (drop_room ''r'' (on_poll s)))) = [a_room ''r'' ''active'']"
proof -
  define s where "s = initial_discovery\<lparr>d_lists := initial_lists\<lparr>juke_live := [a_room ''r'' ''active'']\<rparr>,
     d_ws_connected := True\<rparr>"
  have "juke_live (d_lists s) = [a_room ''r'' ''active'']" "d_refresh s = None" "d_ws_connected s"
    "juke_live (d_lists (drop_room ''r'' (on_poll s))) = []"
    "juke_live (d_lists (run_refresh_done no_dates 0 (Some []) (Some []) (Some []) (Some [])
       (drop_room ''r'' (on_poll s)))) = [a_room ''r'' ''active'']"
    unfolding s_def by code_simp+
  then show ?thesis by blast
qed

text \<open>
  A Juke room without a Farcaster mirror can be published as live and as upcoming at once, when the
  scheduled list still has its old row.
\<close>

theorem juke_room_in_both_lists:
  "\<exists>ls. map sp_id (juke_live (normalize_discovery_lists no_dates ls 0)) = [''r''] \<and>
     map sp_id (juke_scheduled (normalize_discovery_lists no_dates ls 0)) = [''r'']"
proof -
  define ls where "ls = initial_lists\<lparr>juke_live := [a_room ''r'' ''active''],
     juke_scheduled := [a_room ''r'' ''scheduled'']\<rparr>"
  have "map sp_id (juke_live (normalize_discovery_lists no_dates ls 0)) = [''r'']"
    "map sp_id (juke_scheduled (normalize_discovery_lists no_dates ls 0)) = [''r'']"
    unfolding ls_def by code_simp+
  then show ?thesis by (intro exI[of _ ls] conjI)
qed

definition some_lists :: discovery_lists where
  "some_lists = \<lparr>juke_live = [(a_room ''r'' ''active'')\<lparr>sp_farcaster_room_id := Some ''f''\<rparr>],
     juke_scheduled = [(a_room ''q'' ''scheduled'')\<lparr>sp_farcaster_room_id := Some ''g''\<rparr>],
     farcaster_live = [\<lparr>ns_id = ''f'', ns_title = None, ns_state = ''live'', ns_started_at = None, ns_scheduled_at = None\<rparr>,
       \<lparr>ns_id = ''g'', ns_title = None, ns_state = ''live'', ns_started_at = None, ns_scheduled_at = None\<rparr>],
     farcaster_scheduled = []\<rparr>"

theorem live_rail_complete_witness:
  "mset (fst (merge_discovery_spaces no_dates 0 some_lists)) =
     mset [Juke_hosted (hd (juke_live some_lists)), Farcaster_native (farcaster_live some_lists ! 1)]"
proof -
  have s: "mset (map Juke_hosted (juke_live some_lists)) +
      mset (map Farcaster_native (filter (\<lambda>s. \<forall>r \<in> set (juke_live some_lists).
        ns_id s \<notin> set (nonempty_id (sp_farcaster_room_id r))) (farcaster_live some_lists))) =
      mset [Juke_hosted (hd (juke_live some_lists)), Farcaster_native (farcaster_live some_lists ! 1)]"
    by (simp add: some_lists_def nonempty_id_def)
  show ?thesis
    by (rule trans[OF live_rail_complete[THEN conjunct1] s])
qed

theorem normalized_once_witness:
  "native_ids (normalize_discovery_lists no_dates some_lists 0) = [''f'', ''g''] \<and>
   distinct (native_ids (normalize_discovery_lists no_dates some_lists 0))"
proof
  show "native_ids (normalize_discovery_lists no_dates some_lists 0) = [''f'', ''g'']" by code_simp
  show "distinct (native_ids (normalize_discovery_lists no_dates some_lists 0))"
    by (rule normalized_once[THEN conjunct1])
qed

end
