(* ===== verification/Audio_Mixer.thy ===== *)
theory Audio_Mixer
  imports Complex_Main JS_Map
begin

section \<open>The browser audio mixer\<close>

text \<open>
  \<^verbatim>\<open>landing/lib/space/audioMixer.ts\<close>: the local sources of a space are summed into one destination
  track, which is published to LiveKit. The module's variables are the record \<open>mixer\<close>; a graph has a
  number, a \<open>local_track\<close> is a \<^verbatim>\<open>LocalAudioTrack\<close> around the destination of a graph. The record also
  holds what the module acts on: the capture streams that are running, the local participant of the
  active room, and what is published by whom. The asynchronous operations are split at their awaits:
  a \<open>call\<close> in flight holds what its continuation captured, and its result is an argument of the
  continuation (\<open>settle_call\<close>). Gains are rationals.
\<close>

datatype source_kind = Mic | Device | System_audio

record audio_source =
  as_id :: jstr
  as_kind :: source_kind
  as_label :: jstr
  as_gain :: rat
  as_muted :: bool

text \<open>\<open>sn_output\<close> is the value set on the gain node.\<close>

record source_node =
  sn_id :: jstr
  sn_kind :: source_kind
  sn_label :: jstr
  sn_gain :: rat
  sn_muted :: bool
  sn_stream :: nat
  sn_output :: rat

record local_track =
  lt_id :: nat
  lt_graph :: nat

datatype publish_mode = Voice | Music

record mixer =
  mx_graph :: "nat option"
  mx_published_track :: "local_track option"
  mx_published_mode :: "publish_mode option"
  mx_sources :: "(jstr, source_node) jsmap"
  mx_source_id_seq :: nat
  mx_reconciling :: bool
  mx_level_loop :: bool
  mx_source_subscribers :: "nat \<rightharpoonup> audio_source list"
  mx_level_subscribers :: "nat set"
  mx_has_context :: bool
  mx_participant :: "nat option"
  mx_live_streams :: "nat set"
  mx_publications :: "(nat \<times> local_track \<times> publish_mode) list"
  mx_next :: nat

datatype mixer_error =
  No_audio_context
  | No_graph
  | Device_id_required
  | Connect_failed
  | Not_allowed
  | System_audio_unsupported
  | Capture_failed
  | Publish_failed

datatype mixer_result = R_pending | R_done | R_id jstr | R_throw mixer_error

datatype call =
  C_mic
  | C_device
  | C_display
  | C_publish nat local_track publish_mode source_kind jstr
  | C_unpublish nat local_track nat jstr
  | C_publish_music nat local_track nat jstr
  | C_publish_restore nat local_track jstr
  | C_teardown_unpublish nat local_track
  | C_disconnect nat
  | C_stale_disconnect nat
  | C_connect

type_synonym mix_act = "mixer \<times> call list \<times> mixer_result"

definition initial_mixer :: "bool \<Rightarrow> mixer" where
  "initial_mixer ctx =
     \<lparr>mx_graph = None, mx_published_track = None, mx_published_mode = None, mx_sources = [],
      mx_source_id_seq = 0, mx_reconciling = False, mx_level_loop = False,
      mx_source_subscribers = Map.empty, mx_level_subscribers = {}, mx_has_context = ctx,
      mx_participant = None, mx_live_streams = {}, mx_publications = [], mx_next = 0\<rparr>"

subsection \<open>Snapshots and levels\<close>

definition to_audio_source :: "source_node \<Rightarrow> audio_source" where
  "to_audio_source s = \<lparr>as_id = sn_id s, as_kind = sn_kind s, as_label = sn_label s,
     as_gain = sn_gain s, as_muted = sn_muted s\<rparr>"

definition snapshot :: "mixer \<Rightarrow> audio_source list" where
  "snapshot s = map to_audio_source (jm_values (mx_sources s))"

text \<open>Every subscriber gets the snapshot; \<open>mx_source_subscribers\<close> holds what each was last given.\<close>

definition emit_sources :: "mixer \<Rightarrow> mixer" where
  "emit_sources s =
     s\<lparr>mx_source_subscribers := (\<lambda>k. case mx_source_subscribers s k of
         None \<Rightarrow> None | Some _ \<Rightarrow> Some (snapshot s))\<rparr>"

definition apply_gain :: "mixer \<Rightarrow> source_node \<Rightarrow> source_node" where
  "apply_gain s n = (if mx_graph s = None then n
     else n\<lparr>sn_output := (if sn_muted n then 0 else sn_gain n)\<rparr>)"

text \<open>One frame of the level loop; \<open>raw\<close> is what the analysers measure. \<open>None\<close>: the loop stopped.\<close>

definition level_tick :: "(nat \<Rightarrow> rat) \<Rightarrow> mixer \<Rightarrow> mixer \<times> (jstr \<times> rat) list option" where
  "level_tick raw s =
     (if mx_level_subscribers s = {} \<or> jm_size (mx_sources s) = 0 then (s\<lparr>mx_level_loop := False\<rparr>, None)
      else (s, Some (map (\<lambda>n. (sn_id n, if sn_muted n then 0 else raw (sn_stream n) * sn_gain n))
              (jm_values (mx_sources s)))))"

definition run_level_loop :: "mixer \<Rightarrow> mixer" where
  "run_level_loop s = s\<lparr>mx_level_loop := True\<rparr>"

definition stop_level_loop :: "mixer \<Rightarrow> mixer" where
  "stop_level_loop s = s\<lparr>mx_level_loop := False\<rparr>"

subsection \<open>Publishing\<close>

definition has_non_mic_source :: "mixer \<Rightarrow> bool" where
  "has_non_mic_source s = list_ex (\<lambda>n. sn_kind n \<noteq> Mic) (jm_values (mx_sources s))"

text \<open>A new \<^verbatim>\<open>LocalAudioTrack\<close> around the destination track of graph \<open>g\<close>.\<close>

definition new_track :: "nat \<Rightarrow> mixer \<Rightarrow> local_track \<times> mixer" where
  "new_track g s = (\<lparr>lt_id = mx_next s, lt_graph = g\<rparr>, s\<lparr>mx_next := Suc (mx_next s)\<rparr>)"

definition publish :: "nat \<Rightarrow> local_track \<Rightarrow> publish_mode \<Rightarrow> mixer \<Rightarrow> mixer" where
  "publish p t mode s = s\<lparr>mx_publications := mx_publications s @ [(p, t, mode)]\<rparr>"

definition unpublish :: "nat \<Rightarrow> local_track \<Rightarrow> mixer \<Rightarrow> mixer" where
  "unpublish p t s = s\<lparr>mx_publications :=
     filter (\<lambda>(q, u, _). \<not> (q = p \<and> lt_id u = lt_id t)) (mx_publications s)\<rparr>"

text \<open>The end of the three add operations.\<close>

definition finish_add :: "jstr \<Rightarrow> mixer \<Rightarrow> mix_act" where
  "finish_add i s = (run_level_loop (emit_sources s), [], R_id i)"

definition reconcile_publish_preset :: "jstr \<Rightarrow> mixer \<Rightarrow> mix_act" where
  "reconcile_publish_preset i s =
     (case (mx_published_track s, mx_graph s, mx_participant s) of
        (Some old, Some g, Some p) \<Rightarrow>
          (if mx_reconciling s \<or> mx_published_mode s \<noteq> Some Voice \<or> \<not> has_non_mic_source s
           then finish_add i s
           else (s\<lparr>mx_reconciling := True\<rparr>, [C_unpublish p old g i], R_pending))
      | _ \<Rightarrow> finish_add i s)"

definition reconciled :: "jstr \<Rightarrow> mixer \<Rightarrow> mix_act" where
  "reconciled i s = finish_add i (s\<lparr>mx_reconciling := False\<rparr>)"

text \<open>
  After the unpublish: both new tracks read \<open>graph.ctx\<close>, which throws when the graph is gone by
  then; the outer handler swallows that.
\<close>

definition unpublish_done :: "nat \<Rightarrow> local_track \<Rightarrow> nat \<Rightarrow> jstr \<Rightarrow> bool \<Rightarrow> mixer \<Rightarrow> mix_act" where
  "unpublish_done p old g i ok s =
     (if \<not> ok then reconciled i s
      else let s1 = unpublish p old s
           in if mx_graph s1 = None then reconciled i s1
              else case new_track g s1 of (t, s2) \<Rightarrow> (s2, [C_publish_music p t g i], R_pending))"

definition publish_music_done :: "nat \<Rightarrow> local_track \<Rightarrow> nat \<Rightarrow> jstr \<Rightarrow> bool \<Rightarrow> mixer \<Rightarrow> mix_act" where
  "publish_music_done p t g i ok s =
     (if ok
      then reconciled i ((publish p t Music s)\<lparr>mx_published_track := Some t, mx_published_mode := Some Music\<rparr>)
      else if mx_graph s = None then reconciled i s
      else case new_track g s of (r, s1) \<Rightarrow> (s1, [C_publish_restore p r i], R_pending))"

definition publish_restore_done :: "nat \<Rightarrow> local_track \<Rightarrow> jstr \<Rightarrow> bool \<Rightarrow> mixer \<Rightarrow> mix_act" where
  "publish_restore_done p r i ok s =
     (if ok then reconciled i ((publish p r Voice s)\<lparr>mx_published_track := Some r\<rparr>)
      else reconciled i s)"

definition after_published :: "source_kind \<Rightarrow> jstr \<Rightarrow> mixer \<Rightarrow> mix_act" where
  "after_published k i s = (if k = Mic then finish_add i s else reconcile_publish_preset i s)"

definition ensure_published :: "source_kind \<Rightarrow> jstr \<Rightarrow> mixer \<Rightarrow> mix_act" where
  "ensure_published k i s =
     (if mx_published_track s \<noteq> None then after_published k i s
      else case (mx_graph s, mx_participant s) of
        (Some g, Some p) \<Rightarrow>
          (let mode = (if has_non_mic_source s then Music else Voice)
           in case new_track g s of (t, s1) \<Rightarrow> (s1, [C_publish p t mode k i], R_pending))
      | _ \<Rightarrow> after_published k i s)"

definition publish_done ::
  "nat \<Rightarrow> local_track \<Rightarrow> publish_mode \<Rightarrow> source_kind \<Rightarrow> jstr \<Rightarrow> bool \<Rightarrow> mixer \<Rightarrow> mix_act" where
  "publish_done p t mode k i ok s =
     (if ok
      then after_published k i
             ((publish p t mode s)\<lparr>mx_published_track := Some t, mx_published_mode := Some mode\<rparr>)
      else (s, [], R_throw Publish_failed))"

subsection \<open>Sources\<close>

text \<open>\<open>None\<close>: no \<^verbatim>\<open>AudioContext\<close>, the call throws.\<close>

definition ensure_mixer :: "mixer \<Rightarrow> mixer option" where
  "ensure_mixer s =
     (if mx_graph s \<noteq> None then Some s
      else if \<not> mx_has_context s then None
      else Some (s\<lparr>mx_graph := Some (mx_next s), mx_next := Suc (mx_next s)\<rparr>))"

definition source_id :: "nat \<Rightarrow> jstr" where
  "source_id n = ''src-'' @ js_of_nat n"

definition wire_source :: "source_kind \<Rightarrow> jstr \<Rightarrow> nat \<Rightarrow> mixer \<Rightarrow> (jstr \<times> mixer) option" where
  "wire_source k label stream s =
     (if mx_graph s = None then None
      else let n = Suc (mx_source_id_seq s);
               i = source_id n;
               rec = \<lparr>sn_id = i, sn_kind = k, sn_label = label, sn_gain = 1, sn_muted = False,
                      sn_stream = stream, sn_output = 1\<rparr>
           in Some (i, s\<lparr>mx_source_id_seq := n,
                        mx_sources := jm_set i (apply_gain s rec) (mx_sources s)\<rparr>))"

definition set_mic_muted :: "bool \<Rightarrow> mixer \<Rightarrow> mixer" where
  "set_mic_muted muted s =
     (let upd = (\<lambda>n. if sn_kind n = Mic \<and> sn_muted n \<noteq> muted then apply_gain s (n\<lparr>sn_muted := muted\<rparr>) else n);
          s1 = s\<lparr>mx_sources := map (\<lambda>(i, n). (i, upd n)) (mx_sources s)\<rparr>
      in if list_ex (\<lambda>n. sn_kind n = Mic \<and> sn_muted n \<noteq> muted) (jm_values (mx_sources s))
         then emit_sources s1 else s)"

definition add_mic_source :: "mixer \<Rightarrow> mix_act" where
  "add_mic_source s0 =
     (case ensure_mixer s0 of
        None \<Rightarrow> (s0, [], R_throw No_audio_context)
      | Some s \<Rightarrow>
          (case find (\<lambda>n. sn_kind n = Mic) (jm_values (mx_sources s)) of
             Some n \<Rightarrow> (set_mic_muted False s, [], R_id (sn_id n))
           | None \<Rightarrow> (s, [C_mic], R_pending)))"

definition add_device_source :: "jstr \<Rightarrow> mixer \<Rightarrow> mix_act" where
  "add_device_source deviceId s0 =
     (if deviceId = [] then (s0, [], R_throw Device_id_required)
      else case ensure_mixer s0 of
        None \<Rightarrow> (s0, [], R_throw No_audio_context)
      | Some s \<Rightarrow> (s, [C_device], R_pending))"

definition add_system_audio_source :: "bool \<Rightarrow> mixer \<Rightarrow> mix_act" where
  "add_system_audio_source hasDisplayMedia s0 =
     (case ensure_mixer s0 of
        None \<Rightarrow> (s0, [], R_throw No_audio_context)
      | Some s \<Rightarrow> (if hasDisplayMedia then (s, [C_display], R_pending)
                  else (s, [], R_throw System_audio_unsupported)))"

text \<open>The browser's answer to a capture request; a stream carries the label of its first track.\<close>

datatype capture =
  Captured jstr
  | Captured_video_only
  | Capture_denied
  | Capture_error

definition wire_and_publish :: "source_kind \<Rightarrow> jstr \<Rightarrow> mixer \<Rightarrow> mix_act" where
  "wire_and_publish k label s =
     (let stream = mx_next s;
          s1 = s\<lparr>mx_next := Suc stream, mx_live_streams := insert stream (mx_live_streams s)\<rparr>
      in case wire_source k label stream s1 of
           None \<Rightarrow> (s1, [], R_throw No_graph)
         | Some (i, s2) \<Rightarrow> ensure_published k i s2)"

definition add_mic_done :: "capture \<Rightarrow> mixer \<Rightarrow> mix_act" where
  "add_mic_done c s =
     (case c of Captured _ \<Rightarrow> wire_and_publish Mic ''Microphone'' s
      | Capture_denied \<Rightarrow> (s, [], R_throw Not_allowed)
      | _ \<Rightarrow> (s, [], R_throw Capture_failed))"

definition add_device_done :: "capture \<Rightarrow> mixer \<Rightarrow> mix_act" where
  "add_device_done c s =
     (case c of Captured l \<Rightarrow> wire_and_publish Device (if l = [] then ''Audio device'' else l) s
      | Capture_denied \<Rightarrow> (s, [], R_throw Not_allowed)
      | _ \<Rightarrow> (s, [], R_throw Capture_failed))"

definition add_system_done :: "capture \<Rightarrow> mixer \<Rightarrow> mix_act" where
  "add_system_done c s =
     (case c of Captured _ \<Rightarrow> wire_and_publish System_audio ''Computer audio'' s
      | Capture_denied \<Rightarrow> (s, [], R_throw Not_allowed)
      | _ \<Rightarrow> (s, [], R_throw System_audio_unsupported))"

definition remove_source :: "jstr \<Rightarrow> mixer \<Rightarrow> mixer" where
  "remove_source i s =
     (case jm_get (mx_sources s) i of
        None \<Rightarrow> s
      | Some n \<Rightarrow>
          (let s1 = emit_sources (s\<lparr>mx_live_streams := mx_live_streams s - {sn_stream n},
                                   mx_sources := jm_delete i (mx_sources s)\<rparr>)
           in if jm_size (mx_sources s1) = 0 then stop_level_loop s1 else s1))"

definition set_source_gain :: "jstr \<Rightarrow> rat \<Rightarrow> mixer \<Rightarrow> mixer" where
  "set_source_gain i gain s =
     (case jm_get (mx_sources s) i of
        None \<Rightarrow> s
      | Some n \<Rightarrow> emit_sources (s\<lparr>mx_sources :=
          jm_set i (apply_gain s (n\<lparr>sn_gain := max 0 (min 1 gain)\<rparr>)) (mx_sources s)\<rparr>))"

definition set_source_muted :: "jstr \<Rightarrow> bool \<Rightarrow> mixer \<Rightarrow> mixer" where
  "set_source_muted i muted s =
     (case jm_get (mx_sources s) i of
        None \<Rightarrow> s
      | Some n \<Rightarrow> if sn_muted n = muted then s
          else emit_sources (s\<lparr>mx_sources :=
            jm_set i (apply_gain s (n\<lparr>sn_muted := muted\<rparr>)) (mx_sources s)\<rparr>))"

definition list_sources :: "mixer \<Rightarrow> audio_source list" where
  "list_sources s = snapshot s"

definition is_producing_audio :: "mixer \<Rightarrow> bool" where
  "is_producing_audio s =
     (mx_published_track s \<noteq> None \<and>
      list_ex (\<lambda>n. \<not> sn_muted n \<and> sn_gain n > 0) (jm_values (mx_sources s)))"

definition teardown :: "mixer \<Rightarrow> mixer \<times> call list" where
  "teardown s =
     (let s1 = stop_level_loop s;
          calls = (case (mx_published_track s1, mx_participant s1) of
                     (Some t, Some p) \<Rightarrow> [C_teardown_unpublish p t] | _ \<Rightarrow> []);
          s2 = (if mx_published_track s1 = None then s1
                else s1\<lparr>mx_published_track := None, mx_published_mode := None\<rparr>);
          s3 = s2\<lparr>mx_live_streams := mx_live_streams s2 - set (map sn_stream (jm_values (mx_sources s2))),
                  mx_sources := [], mx_graph := None\<rparr>
      in ((emit_sources s3)\<lparr>mx_source_subscribers := Map.empty, mx_level_subscribers := {}\<rparr>, calls))"

definition subscribe_sources :: "nat \<Rightarrow> mixer \<Rightarrow> mixer" where
  "subscribe_sources k s = s\<lparr>mx_source_subscribers := (mx_source_subscribers s)(k \<mapsto> snapshot s)\<rparr>"

definition unsubscribe_sources :: "nat \<Rightarrow> mixer \<Rightarrow> mixer" where
  "unsubscribe_sources k s = s\<lparr>mx_source_subscribers := without_key k (mx_source_subscribers s)\<rparr>"

definition subscribe_levels :: "nat \<Rightarrow> mixer \<Rightarrow> mixer" where
  "subscribe_levels k s =
     (let s1 = s\<lparr>mx_level_subscribers := insert k (mx_level_subscribers s)\<rparr>
      in if jm_size (mx_sources s1) > 0 then run_level_loop s1 else s1)"

definition unsubscribe_levels :: "nat \<Rightarrow> mixer \<Rightarrow> mixer" where
  "unsubscribe_levels k s =
     (let s1 = s\<lparr>mx_level_subscribers := mx_level_subscribers s - {k}\<rparr>
      in if mx_level_subscribers s1 = {} then stop_level_loop s1 else s1)"

subsection \<open>Runs of the mixer\<close>

text \<open>
  \<open>connect_to_room\<close> and \<open>disconnect_from_room\<close> are the parts of \<^verbatim>\<open>landing/lib/space/livekit.ts\<close> that
  the mixer sees, and a local participant stands for its room. A connect first disconnects a room that
  is still the active one, whether that fails or not and without touching the mixer, then connects a
  new room, which becomes the active one only when \<^verbatim>\<open>room.connect\<close> succeeds; a disconnect tears the mixer
  down first. What a participant had published is gone with its room.
\<close>

definition connect_to_room :: "mixer \<Rightarrow> mix_act" where
  "connect_to_room s =
     (s, case mx_participant s of Some p \<Rightarrow> [C_stale_disconnect p] | None \<Rightarrow> [C_connect], R_done)"

definition room_connect_done :: "bool \<Rightarrow> mixer \<Rightarrow> mixer" where
  "room_connect_done ok s =
     (if ok then s\<lparr>mx_participant := Some (mx_next s), mx_next := Suc (mx_next s)\<rparr> else s)"

definition disconnect_from_room :: "mixer \<Rightarrow> mix_act" where
  "disconnect_from_room s =
     (case teardown s of (s1, calls) \<Rightarrow>
        (s1, calls @ (case mx_participant s1 of Some p \<Rightarrow> [C_disconnect p] | None \<Rightarrow> []), R_done))"

definition disconnect_done :: "nat \<Rightarrow> mixer \<Rightarrow> mixer" where
  "disconnect_done p s = s\<lparr>mx_participant := None,
     mx_publications := filter (\<lambda>(q, _). q \<noteq> p) (mx_publications s)\<rparr>"

definition stale_disconnected :: "nat \<Rightarrow> mixer \<Rightarrow> mix_act" where
  "stale_disconnected p s = (disconnect_done p s, [C_connect], R_done)"

datatype mixer_op =
  Op_add_mic
  | Op_add_device jstr
  | Op_add_system bool
  | Op_remove jstr
  | Op_gain jstr rat
  | Op_muted jstr bool
  | Op_mic_muted bool
  | Op_subscribe nat
  | Op_unsubscribe nat
  | Op_levels nat
  | Op_no_levels nat
  | Op_tick
  | Op_connect
  | Op_disconnect

datatype answer = A_capture capture | A_ok bool

fun perform_op :: "mixer_op \<Rightarrow> mixer \<Rightarrow> mix_act" where
  "perform_op Op_add_mic s = add_mic_source s"
| "perform_op (Op_add_device d) s = add_device_source d s"
| "perform_op (Op_add_system b) s = add_system_audio_source b s"
| "perform_op (Op_remove i) s = (remove_source i s, [], R_done)"
| "perform_op (Op_gain i x) s = (set_source_gain i x s, [], R_done)"
| "perform_op (Op_muted i b) s = (set_source_muted i b s, [], R_done)"
| "perform_op (Op_mic_muted b) s = (set_mic_muted b s, [], R_done)"
| "perform_op (Op_subscribe k) s = (subscribe_sources k s, [], R_done)"
| "perform_op (Op_unsubscribe k) s = (unsubscribe_sources k s, [], R_done)"
| "perform_op (Op_levels k) s = (subscribe_levels k s, [], R_done)"
| "perform_op (Op_no_levels k) s = (unsubscribe_levels k s, [], R_done)"
| "perform_op Op_tick s = (fst (level_tick (\<lambda>_. 0) s), [], R_done)"
| "perform_op Op_connect s = connect_to_room s"
| "perform_op Op_disconnect s = disconnect_from_room s"

fun settle_call :: "call \<Rightarrow> answer \<Rightarrow> mixer \<Rightarrow> mix_act option" where
  "settle_call C_mic (A_capture c) s = Some (add_mic_done c s)"
| "settle_call C_device (A_capture c) s = Some (add_device_done c s)"
| "settle_call C_display (A_capture c) s = Some (add_system_done c s)"
| "settle_call (C_publish p t m k i) (A_ok ok) s = Some (publish_done p t m k i ok s)"
| "settle_call (C_unpublish p t g i) (A_ok ok) s = Some (unpublish_done p t g i ok s)"
| "settle_call (C_publish_music p t g i) (A_ok ok) s = Some (publish_music_done p t g i ok s)"
| "settle_call (C_publish_restore p t i) (A_ok ok) s = Some (publish_restore_done p t i ok s)"
| "settle_call (C_teardown_unpublish p t) (A_ok ok) s = Some (if ok then unpublish p t s else s, [], R_done)"
| "settle_call (C_disconnect p) (A_ok _) s = Some (disconnect_done p s, [], R_done)"
| "settle_call (C_stale_disconnect p) (A_ok _) s = Some (stale_disconnected p s)"
| "settle_call C_connect (A_ok ok) s = Some (room_connect_done ok s, [], if ok then R_done else R_throw Connect_failed)"
| "settle_call _ _ _ = None"

inductive mixer_reachable :: "mixer \<times> call list \<Rightarrow> bool" where
  start: "mixer_reachable (initial_mixer ctx, [])"
| op: "mixer_reachable (s, cs) \<Longrightarrow> perform_op x s = (s', new, r) \<Longrightarrow> mixer_reachable (s', cs @ new)"
| settle: "mixer_reachable (s, cs @ c # cs') \<Longrightarrow> settle_call c a s = Some (s', new, r) \<Longrightarrow>
    mixer_reachable (s', cs @ cs' @ new)"

subsection \<open>The sources of a reachable mixer\<close>

definition sources_ok ::
  "nat \<Rightarrow> nat \<Rightarrow> nat set \<Rightarrow> nat option \<Rightarrow> (jstr, source_node) jsmap \<Rightarrow> bool" where
  "sources_ok q nx l g m \<longleftrightarrow>
     jm_ok m \<and> (g = None \<longrightarrow> m = []) \<and> (\<forall>x \<in> l. x < nx) \<and>
     (\<forall>i n. jm_get m i = Some n \<longrightarrow>
        sn_id n = i \<and> 0 \<le> sn_gain n \<and> sn_gain n \<le> 1 \<and> sn_output n = (if sn_muted n then 0 else sn_gain n) \<and>
        (\<exists>k \<le> q. i = source_id k) \<and> sn_stream n \<in> l) \<and>
     (\<forall>i j n n'. jm_get m i = Some n \<longrightarrow> jm_get m j = Some n' \<longrightarrow> sn_stream n = sn_stream n' \<longrightarrow> i = j)"

abbreviation mixer_ok :: "mixer \<Rightarrow> bool" where
  "mixer_ok s \<equiv> sources_ok (mx_source_id_seq s) (mx_next s) (mx_live_streams s) (mx_graph s) (mx_sources s)"

text \<open>Publishing never touches the sources.\<close>

definition same_sources :: "mixer \<Rightarrow> mixer \<Rightarrow> bool" where
  "same_sources s s' \<longleftrightarrow> mx_source_id_seq s' = mx_source_id_seq s \<and> mx_next s \<le> mx_next s' \<and>
     mx_live_streams s' = mx_live_streams s \<and> mx_graph s' = mx_graph s \<and> mx_sources s' = mx_sources s"

lemma sources_ok_next: "sources_ok q nx l g m \<Longrightarrow> nx \<le> nx' \<Longrightarrow> sources_ok q nx' l g m"
  by (auto simp: sources_ok_def)

lemma same_sources_ok: "same_sources s s' \<Longrightarrow> mixer_ok s \<Longrightarrow> mixer_ok s'"
  by (auto simp: same_sources_def intro: sources_ok_next)

lemma same_sources_trans [trans]: "same_sources s t \<Longrightarrow> same_sources t u \<Longrightarrow> same_sources s u"
  by (auto simp: same_sources_def)

lemma same_finish: "same_sources s (fst (finish_add i s))"
  by (simp add: same_sources_def finish_add_def run_level_loop_def emit_sources_def)

lemma same_reconcile: "same_sources s (fst (reconcile_publish_preset i s))"
  by (auto simp: reconcile_publish_preset_def same_finish same_sources_def[of s "s\<lparr>mx_reconciling := True\<rparr>"]
      split: option.splits)

lemma same_reconciled: "same_sources s (fst (reconciled i s))"
  by (simp add: same_sources_def reconciled_def finish_add_def run_level_loop_def emit_sources_def)

lemma same_after_published: "same_sources s (fst (after_published k i s))"
  by (simp add: after_published_def same_finish same_reconcile)

lemma same_next: "same_sources s (s\<lparr>mx_next := Suc (mx_next s)\<rparr>)"
  by (simp add: same_sources_def)

lemma same_ensure_published: "same_sources s (fst (ensure_published k i s))"
  by (simp add: ensure_published_def same_after_published new_track_def same_next Let_def split: option.split)

lemma same_publish: "same_sources s (publish p t m s)"
  by (simp add: same_sources_def publish_def)

lemma same_publish_done: "same_sources s (fst (publish_done p t m k i ok s))"
proof -
  have "same_sources s ((publish p t m s)\<lparr>mx_published_track := Some t, mx_published_mode := Some m\<rparr>)"
    by (simp add: same_sources_def publish_def)
  from same_sources_trans[OF this same_after_published[of _ k i]] show ?thesis
    by (auto simp: publish_done_def same_sources_def[of s s])
qed

lemma same_unpublish_done: "same_sources s (fst (unpublish_done p t g i ok s))"
  using same_sources_trans[of s "unpublish p t s" "fst (reconciled i (unpublish p t s))"]
    same_reconciled[of "unpublish p t s" i] same_reconciled[of s i]
  by (auto simp: unpublish_done_def new_track_def Let_def)
    (auto simp: same_sources_def unpublish_def)

lemma same_music_done: "same_sources s (fst (publish_music_done p t g i ok s))"
proof -
  let ?s = "(publish p t Music s)\<lparr>mx_published_track := Some t, mx_published_mode := Some Music\<rparr>"
  have "same_sources s ?s" by (simp add: same_sources_def publish_def)
  from same_sources_trans[OF this same_reconciled[of _ i]] same_reconciled[of s i] show ?thesis
    by (auto simp: publish_music_done_def new_track_def) (auto simp: same_sources_def)
qed

lemma same_restore_done: "same_sources s (fst (publish_restore_done p t i ok s))"
proof -
  have "same_sources s ((publish p t Voice s)\<lparr>mx_published_track := Some t\<rparr>)"
    by (simp add: same_sources_def publish_def)
  from same_sources_trans[OF this same_reconciled[of _ i]] same_reconciled[of s i] show ?thesis
    by (auto simp: publish_restore_done_def)
qed

lemma source_id_inject: "source_id m = source_id n \<longleftrightarrow> m = n"
  by (simp add: source_id_def js_of_nat_inject)

lemma sources_ok_fresh: "sources_ok q nx l g m \<Longrightarrow> jm_get m (source_id (Suc q)) = None"
  by (auto simp: sources_ok_def source_id_inject) (metis Suc_n_not_le_n not_Some_eq source_id_inject)

lemma jm_get_map_values: "jm_get (map (\<lambda>(i, n). (i, f n)) m) i = map_option f (jm_get m i)"
  by (simp add: jm_get_def map_of_map)

lemma jm_ok_map_values: "jm_ok (map (\<lambda>(i, n). (i, f n)) m) = jm_ok m"
proof -
  have "map fst (map (\<lambda>(i, n). (i, f n)) m) = map fst m" by (induction m) auto
  then show ?thesis by (simp only: jm_ok_def)
qed

text \<open>Changing fader positions, mutes and outputs together keeps the sources well formed.\<close>

definition node_update :: "source_node \<Rightarrow> source_node \<Rightarrow> bool" where
  "node_update n n' \<longleftrightarrow> sn_id n' = sn_id n \<and> sn_stream n' = sn_stream n \<and> 0 \<le> sn_gain n' \<and> sn_gain n' \<le> 1 \<and>
     sn_output n' = (if sn_muted n' then 0 else sn_gain n')"

lemma sources_ok_put:
  "sources_ok q nx l g m \<Longrightarrow> jm_get m i = Some n \<Longrightarrow> node_update n n' \<Longrightarrow> sources_ok q nx l g (jm_set i n' m)"
  unfolding sources_ok_def node_update_def by (auto simp: jm_simps split: if_splits)

lemma sources_ok_map:
  "sources_ok q nx l g m \<Longrightarrow> (\<And>i n. jm_get m i = Some n \<Longrightarrow> node_update n (f n)) \<Longrightarrow>
   sources_ok q nx l g (map (\<lambda>(i, n). (i, f n)) m)"
  unfolding sources_ok_def node_update_def by (auto simp: jm_get_map_values jm_ok_map_values)

lemma sources_ok_delete:
  "sources_ok q nx l g m \<Longrightarrow> jm_get m i = Some n \<Longrightarrow> sources_ok q nx (l - {sn_stream n}) g (jm_delete i m)"
  unfolding sources_ok_def by (auto simp: jm_simps split: if_splits)

lemma sources_ok_wire:
  assumes "sources_ok q nx l g m" "g \<noteq> None"
    "sn_id n = source_id (Suc q)" "0 \<le> sn_gain n" "sn_gain n \<le> 1"
    "sn_output n = (if sn_muted n then 0 else sn_gain n)" "sn_stream n = nx"
  shows "sources_ok (Suc q) (Suc nx) (insert nx l) g (jm_set (source_id (Suc q)) n m)"
proof -
  have fr: "x \<noteq> nx" if "x \<in> l" for x using assms(1) that by (auto simp: sources_ok_def)
  show ?thesis
    using assms fr unfolding sources_ok_def
    by (auto simp: jm_simps intro: le_SucI less_SucI split: if_splits) (metis le_SucI less_irrefl)+
qed

lemma sources_ok_graph: "sources_ok q nx l g m \<Longrightarrow> g \<noteq> None \<or> m = [] \<Longrightarrow> g' \<noteq> None \<Longrightarrow> sources_ok q nx l g' m"
  by (auto simp: sources_ok_def)

lemma sources_ok_empty: "sources_ok q nx l g m \<Longrightarrow> l' \<subseteq> l \<Longrightarrow> sources_ok q nx l' g' []"
  by (auto simp: sources_ok_def)

lemma sources_ok_stream:
  "sources_ok q nx l g m \<Longrightarrow> sources_ok q (Suc nx) (insert nx l) g m"
  unfolding sources_ok_def by (auto intro: less_SucI)

lemma node_update_apply_gain:
  "mx_graph s \<noteq> None \<Longrightarrow> 0 \<le> sn_gain n' \<Longrightarrow> sn_gain n' \<le> 1 \<Longrightarrow> sn_id n' = sn_id n \<Longrightarrow>
   sn_stream n' = sn_stream n \<Longrightarrow> node_update n (apply_gain s n')"
  by (auto simp: node_update_def apply_gain_def)

lemma mixer_ok_graph: "mixer_ok s \<Longrightarrow> jm_get (mx_sources s) i = Some n \<Longrightarrow> mx_graph s \<noteq> None"
  by (auto simp: sources_ok_def)

lemma mixer_ok_gain: "mixer_ok s \<Longrightarrow> jm_get (mx_sources s) i = Some n \<Longrightarrow> 0 \<le> sn_gain n \<and> sn_gain n \<le> 1"
  by (auto simp: sources_ok_def)

lemma mixer_ok_update:
  assumes "mixer_ok s" "jm_get (mx_sources s) i = Some n" "0 \<le> sn_gain n'" "sn_gain n' \<le> 1"
    "sn_id n' = sn_id n" "sn_stream n' = sn_stream n"
  shows "sources_ok (mx_source_id_seq s) (mx_next s) (mx_live_streams s) (mx_graph s)
    (jm_set i (apply_gain s n') (mx_sources s))"
  using assms by (intro sources_ok_put[OF assms(1,2)] node_update_apply_gain mixer_ok_graph) simp_all

lemma mixer_ok_gain_op: "mixer_ok s \<Longrightarrow> mixer_ok (set_source_gain i x s)"
  by (auto simp: set_source_gain_def emit_sources_def mixer_ok_update split: option.splits)

lemma mixer_ok_muted_op: "mixer_ok s \<Longrightarrow> mixer_ok (set_source_muted i b s)"
  by (auto simp: set_source_muted_def emit_sources_def mixer_ok_gain intro!: mixer_ok_update split: option.split)

lemma mixer_ok_mic_muted:
  assumes ok: "mixer_ok s"
  shows "mixer_ok (set_mic_muted b s)"
proof -
  let ?f = "\<lambda>n. if sn_kind n = Mic \<and> sn_muted n \<noteq> b then apply_gain s (n\<lparr>sn_muted := b\<rparr>) else n"
  have "node_update n (?f n)" if n: "jm_get (mx_sources s) i = Some n" for i n
  proof -
    have "node_update n (apply_gain s (n\<lparr>sn_muted := b\<rparr>))"
      using mixer_ok_graph[OF ok n] mixer_ok_gain[OF ok n] by (intro node_update_apply_gain) auto
    moreover have "node_update n n" using ok n by (auto simp: sources_ok_def node_update_def)
    ultimately show ?thesis by simp
  qed
  from sources_ok_map[OF ok this] show ?thesis
    using ok by (simp add: set_mic_muted_def emit_sources_def Let_def)
qed

lemma mixer_ok_remove: "mixer_ok s \<Longrightarrow> mixer_ok (remove_source i s)"
  by (auto simp: remove_source_def emit_sources_def stop_level_loop_def Let_def sources_ok_delete split: option.splits)

lemma mixer_ok_ensure: "mixer_ok s \<Longrightarrow> ensure_mixer s = Some s' \<Longrightarrow> mixer_ok s' \<and> mx_graph s' \<noteq> None"
  by (auto simp: ensure_mixer_def split: if_splits)
    (auto simp: sources_ok_def)

lemma mixer_ok_wire:
  assumes "mixer_ok s"
  shows "mixer_ok (fst (wire_and_publish k label s))"
proof -
  let ?s1 = "s\<lparr>mx_next := Suc (mx_next s), mx_live_streams := insert (mx_next s) (mx_live_streams s)\<rparr>"
  show ?thesis
  proof (cases "mx_graph s")
    case None
    then show ?thesis using sources_ok_stream[OF assms] by (simp add: wire_and_publish_def wire_source_def Let_def)
  next
    case (Some g)
    let ?n = "apply_gain ?s1 \<lparr>sn_id = source_id (Suc (mx_source_id_seq s)), sn_kind = k, sn_label = label, sn_gain = 1,
        sn_muted = False, sn_stream = mx_next s, sn_output = 1\<rparr>"
    let ?s2 = "?s1\<lparr>mx_source_id_seq := Suc (mx_source_id_seq s),
        mx_sources := jm_set (source_id (Suc (mx_source_id_seq s))) ?n (mx_sources s)\<rparr>"
    have "mixer_ok ?s2"
      using sources_ok_wire[OF assms, of ?n] Some by (simp add: apply_gain_def)
    then have "mixer_ok (fst (ensure_published k (source_id (Suc (mx_source_id_seq s))) ?s2))"
      using same_ensure_published by (rule same_sources_ok[rotated])
    then show ?thesis using Some by (simp add: wire_and_publish_def wire_source_def Let_def)
  qed
qed

lemma mixer_ok_teardown: "mixer_ok s \<Longrightarrow> mixer_ok (fst (teardown s))"
  by (auto simp: teardown_def stop_level_loop_def emit_sources_def Let_def intro: sources_ok_empty)

lemma mixer_ok_perform:
  assumes "mixer_ok s"
  shows "mixer_ok (fst (perform_op x s))"
proof (cases x)
  case Op_add_mic
  then show ?thesis using assms mixer_ok_ensure[OF assms]
    by (auto simp: add_mic_source_def mixer_ok_mic_muted split: option.split)
next
  case (Op_add_device d)
  then show ?thesis using assms mixer_ok_ensure[OF assms] by (auto simp: add_device_source_def split: option.split)
next
  case (Op_add_system b)
  then show ?thesis using assms mixer_ok_ensure[OF assms] by (auto simp: add_system_audio_source_def split: option.split)
next
  case Op_disconnect
  then show ?thesis using mixer_ok_teardown[OF assms] by (simp add: disconnect_from_room_def case_prod_beta)
next
  case Op_connect
  then show ?thesis using assms by (simp add: connect_to_room_def)
qed (use assms in \<open>simp_all add: mixer_ok_remove mixer_ok_gain_op mixer_ok_muted_op mixer_ok_mic_muted
  subscribe_sources_def unsubscribe_sources_def subscribe_levels_def unsubscribe_levels_def run_level_loop_def
  stop_level_loop_def level_tick_def Let_def\<close>)

lemma mixer_ok_settle:
  assumes "mixer_ok s" "settle_call c a s = Some act"
  shows "mixer_ok (fst act)"
  using assms
  by (cases "(c, a, s)" rule: settle_call.cases)
    (auto simp: add_mic_done_def add_device_done_def add_system_done_def mixer_ok_wire unpublish_def disconnect_done_def
      stale_disconnected_def room_connect_done_def sources_ok_next
      same_sources_ok[OF same_publish_done] same_sources_ok[OF same_unpublish_done]
      same_sources_ok[OF same_music_done] same_sources_ok[OF same_restore_done] split: capture.splits)

lemma mixer_reachable_ok: "mixer_reachable sc \<Longrightarrow> mixer_ok (fst sc)"
proof (induction rule: mixer_reachable.induct)
  case (start ctx)
  then show ?case by (simp add: initial_mixer_def sources_ok_def)
next
  case (op s cs x s' new r)
  then show ?case using mixer_ok_perform[of s x] by simp
next
  case (settle s cs c cs' a s' new r)
  then show ?case using mixer_ok_settle[of s c a "(s', new, r)"] by simp
qed

lemma distinct_ids: "mixer_ok s \<Longrightarrow> map sn_id (jm_values (mx_sources s)) = jm_keys (mx_sources s)"
  unfolding sources_ok_def jm_values_def jm_keys_def
  by (auto simp: jm_get_iff)

lemma distinct_streams:
  assumes "mixer_ok s"
  shows "distinct (map sn_stream (jm_values (mx_sources s)))"
proof -
  have inj: "inj_on (\<lambda>p. sn_stream (snd p)) (set (mx_sources s))"
  proof (rule inj_onI)
    fix p q
    assume "p \<in> set (mx_sources s)" "q \<in> set (mx_sources s)" and e: "sn_stream (snd p) = sn_stream (snd q)"
    then have "jm_get (mx_sources s) (fst p) = Some (snd p)" "jm_get (mx_sources s) (fst q) = Some (snd q)"
      using assms by (simp_all add: sources_ok_def jm_get_iff)
    then show "p = q" using assms e by (auto simp: sources_ok_def prod_eq_iff) (metis option.inject)+
  qed
  moreover have "distinct (mx_sources s)"
    using assms by (simp add: sources_ok_def jm_ok_def distinct_map)
  ultimately show ?thesis by (simp add: jm_values_def distinct_map comp_def)
qed

text \<open>
  What is heard of a source is what its channel strip shows: in every reachable state, whatever
  calls are in flight, the gain node of each source is at its fader, or at zero while it is muted, and
  the fader is between 0 and 1; no two sources share an id or a capture, and each source's capture is
  still running.
\<close>

theorem mixer_faders:
  assumes "mixer_reachable (s, cs)"
  shows "distinct (map as_id (list_sources s)) \<and>
    distinct (map sn_stream (jm_values (mx_sources s))) \<and>
    (\<forall>n \<in> set (jm_values (mx_sources s)).
       0 \<le> sn_gain n \<and> sn_gain n \<le> 1 \<and> sn_output n = (if sn_muted n then 0 else sn_gain n) \<and>
       sn_stream n \<in> mx_live_streams s)"
proof -
  have ok: "mixer_ok s" using mixer_reachable_ok[OF assms] by simp
  then have j: "jm_ok (mx_sources s)" by (simp add: sources_ok_def)
  have "map as_id (list_sources s) = jm_keys (mx_sources s)"
    using distinct_ids[OF ok] by (simp add: list_sources_def snapshot_def to_audio_source_def comp_def)
  then have "distinct (map as_id (list_sources s))" using j by (simp add: jm_ok_def jm_keys_def)
  moreover have "\<forall>n \<in> set (jm_values (mx_sources s)).
       0 \<le> sn_gain n \<and> sn_gain n \<le> 1 \<and> sn_output n = (if sn_muted n then 0 else sn_gain n) \<and>
       sn_stream n \<in> mx_live_streams s"
  proof
    fix n
    assume "n \<in> set (jm_values (mx_sources s))"
    then obtain i where "jm_get (mx_sources s) i = Some n" by (auto simp: set_jm_values[OF j])
    with ok show "0 \<le> sn_gain n \<and> sn_gain n \<le> 1 \<and> sn_output n = (if sn_muted n then 0 else sn_gain n) \<and>
       sn_stream n \<in> mx_live_streams s"
      unfolding sources_ok_def by blast
  qed
  ultimately show ?thesis using distinct_streams[OF ok] by blast
qed

text \<open>Scripts: a script performs an operation, or settles the call at a position.\<close>

datatype mixer_move = Perform mixer_op | Settle nat answer

fun mixer_play :: "mixer_move list \<Rightarrow> mixer \<times> call list \<Rightarrow> (mixer \<times> call list) option" where
  "mixer_play [] sc = Some sc"
| "mixer_play (Perform x # ms) (s, cs) =
     (case perform_op x s of (s', new, _) \<Rightarrow> mixer_play ms (s', cs @ new))"
| "mixer_play (Settle k a # ms) (s, cs) =
     (if k < length cs
      then case settle_call (cs ! k) a s of
             Some (s', new, _) \<Rightarrow> mixer_play ms (s', take k cs @ drop (Suc k) cs @ new)
           | None \<Rightarrow> None
      else None)"

lemma mixer_play_reachable:
  "mixer_reachable sc \<Longrightarrow> mixer_play ms sc = Some sc' \<Longrightarrow> mixer_reachable sc'"
proof (induction ms sc arbitrary: sc' rule: mixer_play.induct)
  case (2 x ms s cs)
  obtain s' new r where e: "perform_op x s = (s', new, r)" by (cases "perform_op x s")
  show ?case using 2(1)[OF e[symmetric] refl] mixer_reachable.op[OF 2(2) e] 2(3) e by simp
next
  case (3 k a ms s cs)
  then have k: "k < length cs" by (auto split: if_splits)
  obtain s' new r where st: "settle_call (cs ! k) a s = Some (s', new, r)"
    and p: "mixer_play ms (s', take k cs @ drop (Suc k) cs @ new) = Some sc'"
    using 3(3) k by (auto split: option.splits)
  have "mixer_reachable (s, take k cs @ cs ! k # drop (Suc k) cs)"
    using 3(2) k by (simp add: id_take_nth_drop[symmetric])
  then have "mixer_reachable (s', take k cs @ drop (Suc k) cs @ new)"
    using st by (rule mixer_reachable.settle)
  then show ?case using 3(1)[OF k st] p by simp
qed simp

definition one_mic_one_device :: "mixer_move list" where
  "one_mic_one_device =
     [Perform Op_connect, Settle 0 (A_ok True), Perform Op_add_mic, Settle 0 (A_capture (Captured [])), Settle 0 (A_ok True),
      Perform (Op_add_device ''d''), Settle 0 (A_capture (Captured ''Deck'')),
      Perform (Op_gain ''src-2'' 7), Perform (Op_mic_muted True)]"

theorem mixer_faders_witness:
  "\<exists>s cs. mixer_reachable (s, cs) \<and> map sn_gain (jm_values (mx_sources s)) = [1, 1] \<and>
     map sn_muted (jm_values (mx_sources s)) = [True, False] \<and> cs \<noteq> [] \<and>
     (\<forall>n \<in> set (jm_values (mx_sources s)). sn_stream n \<in> mx_live_streams s)"
proof -
  obtain sc where sc: "mixer_play one_mic_one_device (initial_mixer True, []) = Some sc"
    and v: "map sn_gain (jm_values (mx_sources (fst sc))) = [1, 1]"
      "map sn_muted (jm_values (mx_sources (fst sc))) = [True, False]" "snd sc \<noteq> []"
  proof -
    have "case mixer_play one_mic_one_device (initial_mixer True, []) of None \<Rightarrow> False | Some sc \<Rightarrow>
        map sn_gain (jm_values (mx_sources (fst sc))) = [1, 1] \<and>
        map sn_muted (jm_values (mx_sources (fst sc))) = [True, False] \<and> snd sc \<noteq> []"
      by code_simp
    then show ?thesis using that by (auto split: option.splits)
  qed
  have r: "mixer_reachable (fst sc, snd sc)"
    using mixer_play_reachable[OF mixer_reachable.start[of True] sc] by simp
  show ?thesis
    using mixer_faders[OF r] v r by (intro exI[of _ "fst sc"] exI[of _ "snd sc"]) simp
qed

subsection \<open>One published track\<close>

text \<open>
  Serial runs: an operation that adds a source, joins or leaves starts when nothing is in flight;
  faders, mutes, removals and subscriptions may happen at any time.
\<close>

fun quick :: "mixer_op \<Rightarrow> bool" where
  "quick Op_add_mic = False"
| "quick (Op_add_device _) = False"
| "quick (Op_add_system _) = False"
| "quick Op_connect = False"
| "quick Op_disconnect = False"
| "quick _ = True"

inductive serial_reachable :: "mixer \<times> call list \<Rightarrow> bool" where
  start: "serial_reachable (initial_mixer ctx, [])"
| op: "serial_reachable (s, cs) \<Longrightarrow> quick x \<or> cs = [] \<Longrightarrow> perform_op x s = (s', new, r) \<Longrightarrow>
    serial_reachable (s', cs @ new)"
| settle: "serial_reachable (s, cs @ c # cs') \<Longrightarrow> settle_call c a s = Some (s', new, r) \<Longrightarrow>
    serial_reachable (s', cs @ cs' @ new)"

definition pubs :: "mixer \<Rightarrow> nat \<Rightarrow> (nat \<times> local_track \<times> publish_mode) list" where
  "pubs s p = filter (\<lambda>(q, _). q = p) (mx_publications s)"

definition settled :: "mixer \<Rightarrow> bool" where
  "settled s \<longleftrightarrow> (\<forall>p. mx_participant s = Some p \<longrightarrow> pubs s p = [] \<or>
     (\<exists>t m. mx_published_track s = Some t \<and> mx_published_mode s = Some m \<and> pubs s p = [(p, t, m)]))"

definition leaving :: "mixer \<Rightarrow> bool" where
  "leaving s \<longleftrightarrow> mx_published_track s = None \<and> (\<forall>p. mx_participant s = Some p \<longrightarrow> length (pubs s p) \<le> 1)"

fun calls_ok :: "mixer \<Rightarrow> call list \<Rightarrow> bool" where
  "calls_ok s [] = settled s"
| "calls_ok s [C_mic] = settled s"
| "calls_ok s [C_device] = settled s"
| "calls_ok s [C_display] = settled s"
| "calls_ok s [C_publish p t m k i] = (settled s \<and> mx_participant s = Some p \<and> mx_published_track s = None \<and>
     mx_graph s = Some (lt_graph t))"
| "calls_ok s [C_unpublish p t g i] = (settled s \<and> mx_participant s = Some p \<and> mx_published_track s = Some t \<and>
     mx_published_mode s = Some Voice \<and> mx_graph s = Some g)"
| "calls_ok s [C_publish_music p t g i] = (mx_participant s = Some p \<and> pubs s p = [] \<and>
     mx_published_mode s = Some Voice \<and> mx_published_track s \<noteq> None \<and> mx_graph s = Some g \<and> lt_graph t = g)"
| "calls_ok s [C_publish_restore p t i] = (mx_participant s = Some p \<and> pubs s p = [] \<and>
     mx_published_mode s = Some Voice \<and> mx_published_track s \<noteq> None \<and> mx_graph s = Some (lt_graph t))"
| "calls_ok s [C_disconnect p] = (leaving s \<and> mx_participant s = Some p)"
| "calls_ok s [C_teardown_unpublish p t, C_disconnect q] = (leaving s \<and> mx_participant s = Some q)"
| "calls_ok s [C_stale_disconnect p] = (settled s \<and> mx_participant s = Some p)"
| "calls_ok s [C_connect] = (mx_participant s = None)"
| "calls_ok s [C_teardown_unpublish p t] = (mx_published_track s = None \<and> mx_participant s = None)"
| "calls_ok s _ = False"

definition serial_inv :: "mixer \<Rightarrow> call list \<Rightarrow> bool" where
  "serial_inv s cs \<longleftrightarrow>
     (\<forall>p. mx_next s \<le> p \<longrightarrow> pubs s p = []) \<and>
     (\<forall>p. mx_participant s = Some p \<longrightarrow> p < mx_next s) \<and>
     (mx_published_mode s = None \<longleftrightarrow> mx_published_track s = None) \<and>
     (\<forall>t. mx_published_track s = Some t \<longrightarrow> mx_graph s = Some (lt_graph t)) \<and> calls_ok s cs"

text \<open>The fields that publishing reads and writes.\<close>

definition same_pub :: "mixer \<Rightarrow> mixer \<Rightarrow> bool" where
  "same_pub s s' \<longleftrightarrow> mx_participant s' = mx_participant s \<and> mx_graph s' = mx_graph s \<and>
     mx_published_track s' = mx_published_track s \<and> mx_published_mode s' = mx_published_mode s \<and>
     mx_publications s' = mx_publications s \<and> mx_next s \<le> mx_next s'"

lemma same_pub_calls: "same_pub s s' \<Longrightarrow> calls_ok s cs \<Longrightarrow> calls_ok s' cs"
  by (cases "(s, cs)" rule: calls_ok.cases)
    (auto simp: same_pub_def settled_def leaving_def pubs_def)

lemma same_pub_inv: "same_pub s s' \<Longrightarrow> serial_inv s cs \<Longrightarrow> serial_inv s' cs"
  using same_pub_calls[of s s' cs] unfolding serial_inv_def same_pub_def pubs_def
  by (auto intro: less_le_trans)

abbreviation act_inv :: "mix_act \<Rightarrow> bool" where
  "act_inv act \<equiv> serial_inv (fst act) (fst (snd act))"

lemma inv_finish: "serial_inv s [] \<Longrightarrow> act_inv (finish_add i s)"
  by (simp add: finish_add_def) (erule same_pub_inv[rotated],
    simp add: same_pub_def run_level_loop_def emit_sources_def)

lemma inv_reconciled: "serial_inv s [] \<Longrightarrow> act_inv (reconciled i s)"
  unfolding reconciled_def by (rule inv_finish, erule same_pub_inv[rotated]) (simp add: same_pub_def)

lemma inv_reconcile:
  assumes "serial_inv s []"
  shows "act_inv (reconcile_publish_preset i s)"
proof -
  have "serial_inv (s\<lparr>mx_reconciling := True\<rparr>) [C_unpublish p old g i]"
    if "mx_published_track s = Some old" "mx_graph s = Some g" "mx_participant s = Some p"
      "mx_published_mode s = Some Voice" for old g p
    using assms that by (simp add: serial_inv_def settled_def pubs_def)
  then show ?thesis
    using inv_finish[OF assms] by (simp add: reconcile_publish_preset_def split: option.split)
qed

lemma inv_after_published: "serial_inv s [] \<Longrightarrow> act_inv (after_published k i s)"
  by (simp add: after_published_def inv_finish inv_reconcile)

lemma inv_ensure_published:
  assumes "serial_inv s []"
  shows "act_inv (ensure_published k i s)"
proof -
  have "serial_inv (s\<lparr>mx_next := Suc (mx_next s)\<rparr>) [C_publish p \<lparr>lt_id = mx_next s, lt_graph = g\<rparr> m k i]"
    if "mx_published_track s = None" "mx_graph s = Some g" "mx_participant s = Some p" for g p m
    using assms that by (auto simp: serial_inv_def settled_def pubs_def)
  then show ?thesis
    using inv_after_published[OF assms]
    by (simp add: ensure_published_def new_track_def Let_def split: option.split)
qed

lemma inv_publish_done:
  assumes "serial_inv s [C_publish p t m k i]"
  shows "act_inv (publish_done p t m k i ok s)"
proof -
  have "serial_inv ((publish p t m s)\<lparr>mx_published_track := Some t, mx_published_mode := Some m\<rparr>) []"
    using assms by (auto simp: serial_inv_def settled_def pubs_def publish_def)
  from inv_after_published[OF this] assms show ?thesis
    by (auto simp: publish_done_def serial_inv_def)
qed

lemma pubs_unpublish: "pubs (unpublish p t s) p = filter (\<lambda>(_, u, _). lt_id u \<noteq> lt_id t) (pubs s p)"
  by (auto simp: pubs_def unpublish_def intro: filter_cong)

lemma length_filter_filter: "length (filter Q (filter P xs)) \<le> length (filter Q xs)"
  by (induction xs) auto

lemma length_pubs_unpublish: "length (pubs s p) \<le> n \<Longrightarrow> length (pubs (unpublish q t s) p) \<le> n"
  using length_filter_filter[of "\<lambda>(r, _). r = p" "\<lambda>(r, u, _). \<not> (r = q \<and> lt_id u = lt_id t)" "mx_publications s"]
  by (simp add: pubs_def unpublish_def del: filter_filter)

lemma pubs_unpublish_empty: "pubs s p = [] \<Longrightarrow> pubs (unpublish q t s) p = []"
  using length_pubs_unpublish[of s p 0 q t] by simp

lemma unpublish_fields [simp]:
  "mx_participant (unpublish p t s) = mx_participant s" "mx_graph (unpublish p t s) = mx_graph s"
  "mx_published_track (unpublish p t s) = mx_published_track s"
  "mx_published_mode (unpublish p t s) = mx_published_mode s" "mx_next (unpublish p t s) = mx_next s"
  by (simp_all add: unpublish_def)

lemma pubs_next [simp]: "pubs (s\<lparr>mx_next := n\<rparr>) p = pubs s p"
  by (simp add: pubs_def)

lemma inv_unpublish_done:
  assumes "serial_inv s [C_unpublish p t g i]"
  shows "act_inv (unpublish_done p t g i ok s)"
proof (cases ok)
  case False
  have "serial_inv s []" using assms by (auto simp: serial_inv_def)
  with False show ?thesis by (simp add: unpublish_done_def inv_reconciled)
next
  case True
  have "pubs (unpublish p t s) p = []"
    using assms by (auto simp: pubs_unpublish serial_inv_def settled_def)
  moreover have "g = lt_graph t" using assms by (auto simp: serial_inv_def)
  ultimately show ?thesis
    using True assms
    by (auto simp: unpublish_done_def new_track_def serial_inv_def pubs_unpublish_empty)
qed

lemma inv_music_done:
  assumes "serial_inv s [C_publish_music p t g i]"
  shows "act_inv (publish_music_done p t g i ok s)"
proof -
  have "serial_inv ((publish p t Music s)\<lparr>mx_published_track := Some t, mx_published_mode := Some Music\<rparr>) []"
    using assms by (auto simp: serial_inv_def settled_def pubs_def publish_def)
  from inv_reconciled[OF this] assms show ?thesis
    by (auto simp: publish_music_done_def new_track_def serial_inv_def pubs_def)
qed

lemma inv_restore_done:
  assumes "serial_inv s [C_publish_restore p t i]"
  shows "act_inv (publish_restore_done p t i ok s)"
proof -
  have "serial_inv ((publish p t Voice s)\<lparr>mx_published_track := Some t\<rparr>) []"
    using assms by (auto simp: serial_inv_def settled_def pubs_def publish_def)
  moreover have "serial_inv s []" using assms by (auto simp: serial_inv_def settled_def)
  ultimately show ?thesis by (simp add: publish_restore_done_def inv_reconciled)
qed

lemma inv_wire:
  assumes "serial_inv s []"
  shows "act_inv (wire_and_publish k l s)"
proof -
  have "serial_inv (s\<lparr>mx_next := Suc (mx_next s), mx_live_streams := x\<rparr>) []" for x
    using assms by (elim same_pub_inv[rotated]) (simp add: same_pub_def)
  moreover have "serial_inv (s\<lparr>mx_next := Suc (mx_next s), mx_live_streams := x, mx_source_id_seq := q, mx_sources := m\<rparr>) []"
    for x q m
    using assms by (elim same_pub_inv[rotated]) (simp add: same_pub_def)
  ultimately show ?thesis
    by (simp add: wire_and_publish_def wire_source_def Let_def inv_ensure_published)
qed

lemma inv_quick:
  assumes "serial_inv s cs" "quick x"
  shows "fst (snd (perform_op x s)) = [] \<and> serial_inv (fst (perform_op x s)) cs"
proof -
  have "same_pub s (fst (perform_op x s))"
    using assms(2)
    by (cases x) (auto simp: same_pub_def remove_source_def set_source_gain_def set_source_muted_def set_mic_muted_def
      emit_sources_def stop_level_loop_def run_level_loop_def subscribe_sources_def unsubscribe_sources_def
      subscribe_levels_def unsubscribe_levels_def level_tick_def Let_def split: option.split)
  moreover have "fst (snd (perform_op x s)) = []" using assms(2) by (cases x) auto
  ultimately show ?thesis using same_pub_inv assms(1) by blast
qed

lemma same_pub_ensure: "ensure_mixer s = Some s' \<Longrightarrow> serial_inv s [] \<Longrightarrow> serial_inv s' []"
  by (auto simp: ensure_mixer_def serial_inv_def settled_def pubs_def split: if_splits)

lemma calls_ok_capture: "serial_inv s [] \<Longrightarrow> c \<in> {C_mic, C_device, C_display} \<Longrightarrow> serial_inv s [c]"
  by (auto simp: serial_inv_def)

lemma inv_disconnect:
  assumes "serial_inv s []"
  shows "act_inv (disconnect_from_room s)"
proof -
  have "length (pubs s p) \<le> 1" if "mx_participant s = Some p" for p
    using assms that by (auto simp: serial_inv_def settled_def)
  then show ?thesis
    using assms
    by (auto simp: disconnect_from_room_def teardown_def stop_level_loop_def emit_sources_def Let_def
      serial_inv_def leaving_def settled_def pubs_def split: option.split)
qed

lemma inv_connect: "serial_inv s [] \<Longrightarrow> act_inv (connect_to_room s)"
  by (auto simp: connect_to_room_def serial_inv_def split: option.split)

lemma inv_room_connect_done: "serial_inv s [C_connect] \<Longrightarrow> serial_inv (room_connect_done ok s) []"
  by (auto simp: room_connect_done_def serial_inv_def settled_def pubs_def filter_empty_conv less_SucI)

lemma inv_perform: "serial_inv s [] \<Longrightarrow> act_inv (perform_op x s)"
proof (cases x)
  case Op_add_mic
  assume inv: "serial_inv s []"
  have "serial_inv (set_mic_muted False t) []" if "serial_inv t []" for t
    using inv_quick[OF that, of "Op_mic_muted False"] by simp
  with Op_add_mic inv show ?thesis
    by (auto simp: add_mic_source_def intro: same_pub_ensure calls_ok_capture split: option.split)
next
  case (Op_add_device d)
  assume "serial_inv s []"
  with Op_add_device show ?thesis
    by (auto simp: add_device_source_def intro: same_pub_ensure calls_ok_capture split: option.split)
next
  case (Op_add_system b)
  assume "serial_inv s []"
  with Op_add_system show ?thesis
    by (auto simp: add_system_audio_source_def intro: same_pub_ensure calls_ok_capture split: option.split)
qed (use inv_quick[of s "[]" x] inv_disconnect inv_connect[of s] in auto)

lemma inv_add_done:
  assumes "serial_inv s []"
  shows "act_inv (add_mic_done c s)" "act_inv (add_device_done c s)" "act_inv (add_system_done c s)"
  using assms by (auto simp: add_mic_done_def add_device_done_def add_system_done_def inv_wire split: capture.split)

lemma pubs_disconnect: "pubs (disconnect_done q s) p = (if p = q then [] else pubs s p)"
  by (auto simp: pubs_def disconnect_done_def filter_empty_conv intro: filter_cong)

lemma disconnect_done_fields [simp]:
  "mx_participant (disconnect_done p s) = None" "mx_graph (disconnect_done p s) = mx_graph s"
  "mx_published_track (disconnect_done p s) = mx_published_track s"
  "mx_published_mode (disconnect_done p s) = mx_published_mode s" "mx_next (disconnect_done p s) = mx_next s"
  by (simp_all add: disconnect_done_def)

lemma inv_leaving:
  "serial_inv s [C_disconnect p] \<Longrightarrow> serial_inv (disconnect_done p s) []"
  "serial_inv s [C_teardown_unpublish q t, C_disconnect p] \<Longrightarrow> serial_inv (disconnect_done p s) [C_teardown_unpublish q t]"
  unfolding serial_inv_def settled_def leaving_def calls_ok.simps by (simp_all add: pubs_disconnect)

lemma inv_stale: "serial_inv s [C_stale_disconnect p] \<Longrightarrow> act_inv (stale_disconnected p s)"
  unfolding serial_inv_def settled_def calls_ok.simps stale_disconnected_def by (simp add: pubs_disconnect)

lemma inv_unpublish_left:
  "serial_inv s [C_teardown_unpublish q t] \<Longrightarrow> serial_inv s [] \<and> serial_inv (unpublish q t s) []"
  unfolding serial_inv_def settled_def calls_ok.simps by (simp add: pubs_unpublish_empty)

lemma inv_teardown_unpublish:
  "serial_inv s [C_teardown_unpublish q t, C_disconnect p] \<Longrightarrow>
   serial_inv s [C_disconnect p] \<and> serial_inv (unpublish q t s) [C_disconnect p]"
  using length_pubs_unpublish[of s p 1 q t] unfolding serial_inv_def leaving_def calls_ok.simps
  by (simp add: pubs_unpublish_empty)

lemma calls_ok_two:
  "calls_ok s (c # d # cs) \<Longrightarrow> cs = [] \<and> (\<exists>q t. c = C_teardown_unpublish q t) \<and> (\<exists>p. d = C_disconnect p)"
  by (cases "(s, c # d # cs)" rule: calls_ok.cases) simp_all

lemma calls_ok_shape:
  assumes "calls_ok s (cs @ c # cs')"
  shows "cs = [] \<and> cs' = [] \<or> (\<exists>q t p. cs = [] \<and> c = C_teardown_unpublish q t \<and> cs' = [C_disconnect p]) \<or>
   (\<exists>q t p. cs = [C_teardown_unpublish q t] \<and> c = C_disconnect p \<and> cs' = [])"
proof (cases cs)
  case Nil
  then show ?thesis using assms calls_ok_two[of s c] by (cases cs') auto
next
  case (Cons d ds)
  then show ?thesis using assms calls_ok_two[of s d] by (cases ds) auto
qed

lemma inv_settle_one:
  assumes "serial_inv s [c]" "settle_call c a s = Some act"
  shows "act_inv act"
proof -
  have cap: "serial_inv s []" if "c \<in> {C_mic, C_device, C_display}"
    using assms(1) that by (auto simp: serial_inv_def)
  show ?thesis
    using assms cap inv_leaving(1) inv_unpublish_left
    by (cases "(c, a, s)" rule: settle_call.cases)
      (auto simp: inv_add_done inv_publish_done inv_unpublish_done inv_music_done inv_restore_done
        inv_stale inv_room_connect_done)
qed

lemma inv_settle:
  assumes "serial_inv s (cs @ c # cs')" "settle_call c a s = Some (s', new, r)"
  shows "serial_inv s' (cs @ cs' @ new)"
proof -
  have "calls_ok s (cs @ c # cs')" using assms(1) by (simp add: serial_inv_def)
  then consider "cs = []" "cs' = []"
    | q t p where "cs = []" "c = C_teardown_unpublish q t" "cs' = [C_disconnect p]"
    | q t p where "cs = [C_teardown_unpublish q t]" "c = C_disconnect p" "cs' = []"
    using calls_ok_shape by blast
  then show ?thesis
  proof cases
    case 1
    then show ?thesis using inv_settle_one[of s c a "(s', new, r)"] assms by simp
  next
    case 2
    then show ?thesis using assms inv_teardown_unpublish[of s q t p] by (cases a) (auto split: if_splits)
  next
    case 3
    then show ?thesis using assms inv_leaving(2)[of s q t p] by (cases a) auto
  qed
qed

lemma serial_reachable_inv: "serial_reachable sc \<Longrightarrow> serial_inv (fst sc) (snd sc)"
proof (induction rule: serial_reachable.induct)
  case (start ctx)
  then show ?case by (simp add: initial_mixer_def serial_inv_def settled_def pubs_def)
next
  case (op s cs x s' new r)
  then show ?case using inv_quick[of s cs x] inv_perform[of s x] by auto
next
  case (settle s cs c cs' a s' new r)
  then show ?case using inv_settle[of s cs c cs' a s' new r] by simp
qed

lemma calls_ok_one: "serial_inv s cs \<Longrightarrow> mx_participant s = Some p \<Longrightarrow> length (pubs s p) \<le> 1"
  unfolding serial_inv_def
  by (cases "(s, cs)" rule: calls_ok.cases) (auto simp: settled_def leaving_def)

text \<open>
  C6. As long as adding a source, joining and leaving do not overlap, the participant publishes at most
  one track, whatever fails and however faders, mutes and removals interleave; when nothing is in
  flight it is the track the mixer holds, wrapped around the running graph, in the mode the mixer
  recorded.
\<close>

theorem single_published_track:
  assumes "serial_reachable (s, cs)" "mx_participant s = Some p"
  shows "length (pubs s p) \<le> 1 \<and>
    (cs = [] \<longrightarrow> (\<forall>(q, t, m) \<in> set (pubs s p).
       mx_published_track s = Some t \<and> mx_published_mode s = Some m \<and> mx_graph s = Some (lt_graph t)))"
proof
  have inv: "serial_inv s cs" using serial_reachable_inv[OF assms(1)] by simp
  then show "length (pubs s p) \<le> 1" using assms(2) by (rule calls_ok_one)
  show "cs = [] \<longrightarrow> (\<forall>(q, t, m) \<in> set (pubs s p).
      mx_published_track s = Some t \<and> mx_published_mode s = Some m \<and> mx_graph s = Some (lt_graph t))"
    using inv assms(2) by (auto simp: serial_inv_def settled_def)
qed

fun serial_script :: "mixer_move list \<Rightarrow> mixer \<times> call list \<Rightarrow> bool" where
  "serial_script [] _ = True"
| "serial_script (Perform x # ms) (s, cs) =
     ((quick x \<or> cs = []) \<and> (case perform_op x s of (s', new, _) \<Rightarrow> serial_script ms (s', cs @ new)))"
| "serial_script (Settle k a # ms) (s, cs) =
     (k < length cs \<and> (case settle_call (cs ! k) a s of
        Some (s', new, _) \<Rightarrow> serial_script ms (s', take k cs @ drop (Suc k) cs @ new) | None \<Rightarrow> False))"

lemma mixer_play_serial:
  "serial_reachable sc \<Longrightarrow> serial_script ms sc \<Longrightarrow> mixer_play ms sc = Some sc' \<Longrightarrow> serial_reachable sc'"
proof (induction ms sc arbitrary: sc' rule: mixer_play.induct)
  case (2 x ms s cs)
  obtain s' new r where e: "perform_op x s = (s', new, r)" by (cases "perform_op x s")
  show ?case using 2(1)[OF e[symmetric] refl] serial_reachable.op[OF 2(2) _ e] 2(3,4) e by simp
next
  case (3 k a ms s cs)
  then have k: "k < length cs" by simp
  obtain s' new r where st: "settle_call (cs ! k) a s = Some (s', new, r)"
    and p: "mixer_play ms (s', take k cs @ drop (Suc k) cs @ new) = Some sc'"
    and ser: "serial_script ms (s', take k cs @ drop (Suc k) cs @ new)"
    using 3(3,4) k by (auto split: option.splits)
  have "serial_reachable (s, take k cs @ cs ! k # drop (Suc k) cs)"
    using 3(2) k by (simp add: id_take_nth_drop[symmetric])
  then have "serial_reachable (s', take k cs @ drop (Suc k) cs @ new)"
    using st by (rule serial_reachable.settle)
  then show ?case using 3(1)[OF k st] p ser by simp
qed simp

theorem single_published_track_witness:
  "\<exists>s cs p. serial_reachable (s, cs) \<and> mx_participant s = Some p \<and> length (pubs s p) = 1 \<and>
     jm_size (mx_sources s) = 2 \<and> length (pubs s p) \<le> 1"
proof -
  let ?m = "one_mic_one_device"
  have "case mixer_play ?m (initial_mixer True, []) of None \<Rightarrow> False | Some sc \<Rightarrow>
      mx_participant (fst sc) = Some 0 \<and> length (pubs (fst sc) 0) = 1 \<and> jm_size (mx_sources (fst sc)) = 2"
    by code_simp
  then obtain sc where sc: "mixer_play ?m (initial_mixer True, []) = Some sc"
    and v: "mx_participant (fst sc) = Some 0" "length (pubs (fst sc) 0) = 1" "jm_size (mx_sources (fst sc)) = 2"
    by (auto split: option.splits)
  have "serial_script ?m (initial_mixer True, [])" by code_simp
  then have r: "serial_reachable (fst sc, snd sc)"
    using mixer_play_serial[OF serial_reachable.start[of True] _ sc] by simp
  show ?thesis
    using single_published_track[OF r v(1)] v r
    by (intro exI[of _ "fst sc"] exI[of _ "snd sc"] exI[of _ 0]) simp
qed

text \<open>The continuations of an operation, each next call answered by the next boolean.\<close>

fun drive :: "bool list \<Rightarrow> mix_act \<Rightarrow> mix_act" where
  "drive [] act = act"
| "drive (b # bs) (s, [], r) = (s, [], r)"
| "drive (b # bs) (s, c # cs, r) =
     (case settle_call c (A_ok b) s of
        Some (s', new, r') \<Rightarrow> drive bs (s', cs @ new, r') | None \<Rightarrow> (s, c # cs, r))"

text \<open>
  The upgrade from the voice to the music preset never leaves the host silent as long as one
  publish succeeds: if the unpublish fails the old track stays; if the music track cannot be published
  the voice track is restored; only if that fails too is nothing published, and then the mode is still
  voice, so the next added source tries again. It always ends, and the source is added in each case.
\<close>

theorem upgrade_never_silent:
  assumes "mx_published_track s = Some old" "mx_graph s = Some g" "mx_participant s = Some p"
    "\<not> mx_reconciling s" "mx_published_mode s = Some Voice" "has_non_mic_source s"
    "pubs s p = [(p, old, Voice)]"
  shows "(\<exists>u. drive [False] (reconcile_publish_preset i s) = (u, [], R_id i) \<and> \<not> mx_reconciling u \<and>
      pubs u p = [(p, old, Voice)] \<and> mx_published_track u = Some old) \<and>
    (\<exists>u t. drive [True, True] (reconcile_publish_preset i s) = (u, [], R_id i) \<and> \<not> mx_reconciling u \<and>
      pubs u p = [(p, t, Music)] \<and> mx_published_track u = Some t \<and> lt_graph t = g \<and>
      mx_published_mode u = Some Music) \<and>
    (\<exists>u t. drive [True, False, True] (reconcile_publish_preset i s) = (u, [], R_id i) \<and> \<not> mx_reconciling u \<and>
      pubs u p = [(p, t, Voice)] \<and> mx_published_track u = Some t \<and> lt_graph t = g \<and>
      mx_published_mode u = Some Voice) \<and>
    (\<exists>u. drive [True, False, False] (reconcile_publish_preset i s) = (u, [], R_id i) \<and> \<not> mx_reconciling u \<and>
      pubs u p = [] \<and> mx_published_mode u = Some Voice)"
proof -
  have fin: "finish_add i u = (u', [], R_id i) \<longleftrightarrow> u' = run_level_loop (emit_sources u)" for u u'
    by (auto simp: finish_add_def)
  have keep: "pubs (run_level_loop (emit_sources u)) q = pubs u q"
    "mx_published_track (run_level_loop (emit_sources u)) = mx_published_track u"
    "mx_published_mode (run_level_loop (emit_sources u)) = mx_published_mode u"
    "mx_reconciling (run_level_loop (emit_sources u)) = mx_reconciling u" for u q
    by (simp_all add: run_level_loop_def emit_sources_def pubs_def)
  have "pubs (unpublish p old s) p = []" using assms(7) by (simp add: pubs_unpublish)
  then show ?thesis
    using assms
    by (simp add: reconcile_publish_preset_def unpublish_done_def publish_music_done_def publish_restore_done_def
      reconciled_def new_track_def fin keep)
      (simp add: pubs_def publish_def unpublish_def)
qed

definition voice_then_deck :: "mixer_move list" where
  "voice_then_deck =
     [Perform Op_connect, Settle 0 (A_ok True), Perform Op_add_mic, Settle 0 (A_capture (Captured [])), Settle 0 (A_ok True),
      Perform (Op_add_device ''d''), Settle 0 (A_capture (Captured ''Deck''))]"

theorem upgrade_never_silent_witness:
  "\<exists>s old g p. mx_published_track s = Some old \<and> mx_participant s = Some p \<and>
     has_non_mic_source s \<and> pubs s p = [(p, old, Voice)] \<and>
     (\<exists>u t. drive [True, False, True] (reconcile_publish_preset ''src-2'' s) = (u, [], R_id ''src-2'') \<and>
        pubs u p = [(p, t, Voice)] \<and> lt_graph t = g)"
proof -
  have "case mixer_play voice_then_deck (initial_mixer True, []) of None \<Rightarrow> False | Some (s, _) \<Rightarrow>
      (let u = s\<lparr>mx_reconciling := False\<rparr>; t = \<lparr>lt_id = 3, lt_graph = 1\<rparr> in
       mx_published_track u = Some t \<and> mx_graph u = Some 1 \<and> mx_participant u = Some 0 \<and>
       mx_published_mode u = Some Voice \<and> has_non_mic_source u \<and> pubs u 0 = [(0, t, Voice)])"
    by code_simp
  then obtain s0 where v: "let u = s0\<lparr>mx_reconciling := False\<rparr>; t = \<lparr>lt_id = 3, lt_graph = 1\<rparr> in
       mx_published_track u = Some t \<and> mx_graph u = Some 1 \<and> mx_participant u = Some 0 \<and>
       mx_published_mode u = Some Voice \<and> has_non_mic_source u \<and> pubs u 0 = [(0, t, Voice)]"
    by (auto simp only: split: option.splits prod.splits)
  define s where "s = s0\<lparr>mx_reconciling := False\<rparr>"
  have s: "mx_published_track s = Some \<lparr>lt_id = 3, lt_graph = 1\<rparr>" "mx_graph s = Some 1"
    "mx_participant s = Some 0" "\<not> mx_reconciling s" "mx_published_mode s = Some Voice" "has_non_mic_source s"
    "pubs s 0 = [(0, \<lparr>lt_id = 3, lt_graph = 1\<rparr>, Voice)]"
    using v unfolding s_def[symmetric] Let_def by (simp_all add: s_def)
  then show ?thesis
    using upgrade_never_silent[OF s, of "''src-2''"]
    by (intro exI[of _ s] exI[of _ "\<lparr>lt_id = 3, lt_graph = 1\<rparr>"] exI[of _ 1] exI[of _ 0]) blast
qed

text \<open>
  Adds that overlap break the rule of one published track: two device sources added in quick
  succession both find nothing published, and the mix goes out twice to the same room.
\<close>

theorem overlapping_adds_publish_twice:
  "\<exists>s cs p. mixer_reachable (s, cs) \<and> cs = [] \<and> mx_participant s = Some p \<and> length (pubs s p) = 2"
proof -
  let ?m = "[Perform Op_connect, Settle 0 (A_ok True), Perform (Op_add_device ''a''), Perform (Op_add_device ''b''),
    Settle 0 (A_capture (Captured ''A'')), Settle 0 (A_capture (Captured ''B'')),
    Settle 0 (A_ok True), Settle 0 (A_ok True)]"
  have "case mixer_play ?m (initial_mixer True, []) of None \<Rightarrow> False | Some sc \<Rightarrow>
      snd sc = [] \<and> mx_participant (fst sc) = Some 0 \<and> length (pubs (fst sc) 0) = 2"
    by code_simp
  then obtain sc where sc: "mixer_play ?m (initial_mixer True, []) = Some sc"
    and v: "snd sc = []" "mx_participant (fst sc) = Some 0" "length (pubs (fst sc) 0) = 2"
    by (auto split: option.splits)
  have "mixer_reachable (fst sc, snd sc)"
    using mixer_play_reachable[OF mixer_reachable.start[of True] sc] by simp
  then show ?thesis using v by (intro exI[of _ "fst sc"] exI[of _ "snd sc"] exI[of _ 0]) simp
qed

text \<open>
  A publish that completes after the space was left is remembered into the next session: there the
  mixer reports that it is producing audio, and the participant publishes nothing.
\<close>

theorem late_publish_silences_next_session:
  "\<exists>s cs p. mixer_reachable (s, cs) \<and> cs = [] \<and> mx_participant s = Some p \<and>
     is_producing_audio s \<and> pubs s p = []"
proof -
  let ?m = "[Perform Op_connect, Settle 0 (A_ok True), Perform Op_add_mic, Settle 0 (A_capture (Captured [])),
    Perform Op_disconnect, Settle 0 (A_ok True), Settle 0 (A_ok True),
    Perform Op_connect, Settle 0 (A_ok True), Perform Op_add_mic, Settle 0 (A_capture (Captured []))]"
  have "case mixer_play ?m (initial_mixer True, []) of None \<Rightarrow> False | Some sc \<Rightarrow>
      snd sc = [] \<and> mx_participant (fst sc) = Some 4 \<and> is_producing_audio (fst sc) \<and> pubs (fst sc) 4 = []"
    by code_simp
  then obtain sc where sc: "mixer_play ?m (initial_mixer True, []) = Some sc"
    and v: "snd sc = []" "mx_participant (fst sc) = Some 4" "is_producing_audio (fst sc)" "pubs (fst sc) 4 = []"
    by (auto split: option.splits)
  have "mixer_reachable (fst sc, snd sc)"
    using mixer_play_reachable[OF mixer_reachable.start[of True] sc] by simp
  then show ?thesis using v by (intro exI[of _ "fst sc"] exI[of _ "snd sc"] exI[of _ 4]) simp
qed

text \<open>A capture granted after the space was left keeps running, with no source that could stop it.\<close>

lemma capture_outlives_teardown:
  assumes "mx_graph s = None"
  shows "snd (snd (add_mic_done (Captured l) s)) = R_throw No_graph \<and>
    mx_next s \<in> mx_live_streams (fst (add_mic_done (Captured l) s)) \<and>
    mx_sources (fst (add_mic_done (Captured l) s)) = mx_sources s"
  using assms by (simp add: add_mic_done_def wire_and_publish_def wire_source_def Let_def)

end
