(* ===== verification/Space_Session.thy ===== *)
theory Space_Session
  imports Audio_Mixer
begin

section \<open>The space session\<close>

text \<open>
  The store of \<^verbatim>\<open>landing/lib/space/spaceStore.ts\<close> with the microphone functions of
  \<^verbatim>\<open>landing/lib/space/livekit.ts\<close> and the reconnect engine of
  \<^verbatim>\<open>landing/app/app/space/useReconnect.ts\<close>, over the mixer. \<open>space_state\<close> holds the store, the mixer
  and the engine's ref; the store's own mixer subscription is subscriber 0. Roles are the strings the
  wire has. The engine's answers (token refresh, room detail, connect) come from an \<open>attempt_world\<close>
  per attempt, arbitrary ones; times are in milliseconds.
\<close>

record session_participant =
  pt_fid :: int
  pt_role :: jstr
  pt_is_muted :: bool
  pt_is_speaking :: bool
  pt_hand_raised :: bool
  pt_display_name :: jstr
  pt_pfp_url :: "jstr option"

record space_participant =
  wp_fid :: int
  wp_role :: jstr
  wp_is_muted :: bool
  wp_hand_raised :: bool
  wp_display_name :: jstr
  wp_pfp_url :: "jstr option"

record space_room =
  sr_id :: jstr
  sr_host_fid :: int
  sr_status :: jstr
  sr_recording :: bool
  sr_is_farcaster_native :: bool
  sr_farcaster_room_id :: "jstr option"

record reaction_bubble =
  rb_key :: jstr
  rb_id :: nat
  rb_fid :: int

record pending_stage_invite =
  pi_inviter_fid :: "int option"
  pi_inviter_display_name :: "jstr option"
  pi_inviter_pfp_url :: "jstr option"
  pi_role :: jstr

record session =
  ss_room :: "space_room option"
  ss_participants :: "session_participant list"
  ss_hand_queue :: "int list"
  ss_my_role :: "jstr option"
  ss_is_connected :: bool
  ss_is_muted :: bool
  ss_is_hand_raised :: bool
  ss_is_recording :: bool
  ss_mic_permission_denied :: bool
  ss_reactions :: "reaction_bubble list"
  ss_chat_new_reply_tick :: nat
  ss_pending_stage_invite :: "pending_stage_invite option"
  ss_audio_sources :: "audio_source list"

record reconnect_state =
  rc_attempts :: nat
  rc_is_reconnecting :: bool
  rc_token :: jstr
  rc_token_expires_at :: int
  rc_ws_url :: jstr

record space_state =
  st_session :: session
  st_reaction_seq :: nat
  st_mixer :: mixer
  st_reconnect :: reconnect_state

definition MAX_REACTION_BUFFER :: nat where "MAX_REACTION_BUFFER = 20"

definition initial_session :: session where
  "initial_session =
     \<lparr>ss_room = None, ss_participants = [], ss_hand_queue = [], ss_my_role = None,
      ss_is_connected = False, ss_is_muted = True, ss_is_hand_raised = False, ss_is_recording = False,
      ss_mic_permission_denied = False, ss_reactions = [], ss_chat_new_reply_tick = 0,
      ss_pending_stage_invite = None, ss_audio_sources = []\<rparr>"

subsection \<open>Participants, flags and reactions\<close>

definition add_participant :: "session_participant \<Rightarrow> session \<Rightarrow> session" where
  "add_participant p s =
     s\<lparr>ss_participants := filter (\<lambda>q. pt_fid q \<noteq> pt_fid p) (ss_participants s) @ [p]\<rparr>"

definition remove_participant :: "int \<Rightarrow> session \<Rightarrow> session" where
  "remove_participant fid s =
     s\<lparr>ss_participants := filter (\<lambda>q. pt_fid q \<noteq> fid) (ss_participants s),
       ss_hand_queue := filter (\<lambda>f. f \<noteq> fid) (ss_hand_queue s)\<rparr>"

definition update_participant :: "int \<Rightarrow> (session_participant \<Rightarrow> session_participant) \<Rightarrow> session \<Rightarrow> session" where
  "update_participant fid updates s =
     s\<lparr>ss_participants := map (\<lambda>p. if pt_fid p = fid then updates p else p) (ss_participants s)\<rparr>"

definition set_speaking_participants :: "int set \<Rightarrow> session \<Rightarrow> session" where
  "set_speaking_participants fids s =
     s\<lparr>ss_participants := map (\<lambda>p. if pt_is_speaking p = (pt_fid p \<in> fids) then p
        else p\<lparr>pt_is_speaking := pt_fid p \<in> fids\<rparr>) (ss_participants s)\<rparr>"

definition set_recording :: "bool \<Rightarrow> session \<Rightarrow> session" where
  "set_recording b s = s\<lparr>ss_is_recording := b, ss_room := map_option (\<lambda>r. r\<lparr>sr_recording := b\<rparr>) (ss_room s)\<rparr>"

text \<open>\<^verbatim>\<open>slice(-n)\<close> of a list: its last \<open>n\<close> elements.\<close>

definition last_n :: "nat \<Rightarrow> 'a list \<Rightarrow> 'a list" where
  "last_n n xs = drop (length xs - n) xs"

definition push_reaction :: "jstr \<Rightarrow> int \<Rightarrow> space_state \<Rightarrow> space_state" where
  "push_reaction key fid st =
     (let n = Suc (st_reaction_seq st); s = st_session st
      in st\<lparr>st_reaction_seq := n, st_session := s\<lparr>ss_reactions :=
           last_n (MAX_REACTION_BUFFER - 1) (ss_reactions s) @ [\<lparr>rb_key = key, rb_id = n, rb_fid = fid\<rparr>]\<rparr>\<rparr>)"

definition bump_chat_new_reply :: "session \<Rightarrow> session" where
  "bump_chat_new_reply s = s\<lparr>ss_chat_new_reply_tick := Suc (ss_chat_new_reply_tick s)\<rparr>"

subsection \<open>Lifecycle\<close>

text \<open>
  An operation of the mixer with the store's callback, which is called when the sources that the store
  has seen change.
\<close>

definition on_mixer :: "(mixer \<Rightarrow> mixer) \<Rightarrow> space_state \<Rightarrow> space_state" where
  "on_mixer f st =
     (let m = f (st_mixer st)
      in st\<lparr>st_mixer := m, st_session :=
           (if mx_source_subscribers m 0 = mx_source_subscribers (st_mixer st) 0 then st_session st
            else case mx_source_subscribers m 0 of
              None \<Rightarrow> st_session st | Some xs \<Rightarrow> (st_session st)\<lparr>ss_audio_sources := xs\<rparr>)\<rparr>)"

definition subscribe_to_mixer :: "space_state \<Rightarrow> space_state" where
  "subscribe_to_mixer st =
     (let m = unsubscribe_sources 0 (st_mixer st)
      in st\<lparr>st_mixer := subscribe_sources 0 m,
           st_session := (st_session st)\<lparr>ss_audio_sources := list_sources m\<rparr>\<rparr>)"

definition join_space :: "space_room \<Rightarrow> session_participant list \<Rightarrow> jstr \<Rightarrow> space_state \<Rightarrow> space_state" where
  "join_space room participants myRole st0 =
     (let st = subscribe_to_mixer st0
      in st\<lparr>st_session := (st_session st)\<lparr>ss_room := Some room, ss_participants := participants,
          ss_my_role := Some myRole, ss_is_connected := True, ss_is_muted := (myRole = ''listener''),
          ss_is_hand_raised := False, ss_hand_queue := [], ss_is_recording := sr_recording room,
          ss_mic_permission_denied := False, ss_reactions := [], ss_pending_stage_invite := None,
          ss_audio_sources := []\<rparr>\<rparr>)"

text \<open>
  \<^verbatim>\<open>disconnectFromRoom\<close> to its end: the mixer is torn down, which sends the store an empty source list
  if it is subscribed, and the room is disconnected.
\<close>

definition disconnect_room :: "space_state \<Rightarrow> space_state" where
  "disconnect_room st =
     (let m = st_mixer st; m1 = fst (disconnect_from_room m);
          m2 = (case mx_participant m1 of Some p \<Rightarrow> disconnect_done p m1 | None \<Rightarrow> m1)
      in st\<lparr>st_mixer := m2, st_session := (if mx_source_subscribers m 0 = None then st_session st
            else (st_session st)\<lparr>ss_audio_sources := []\<rparr>)\<rparr>)"

text \<open>\<^verbatim>\<open>connectToRoom\<close> to its end: a room that lingers is disconnected, then the new one connects or not.\<close>

definition connect_room :: "bool \<Rightarrow> mixer \<Rightarrow> mixer" where
  "connect_room ok m =
     room_connect_done ok (case mx_participant m of Some p \<Rightarrow> disconnect_done p m | None \<Rightarrow> m)"

definition disconnect_session :: "space_state \<Rightarrow> space_state" where
  "disconnect_session st = (disconnect_room st)\<lparr>st_session := initial_session\<rparr>"

text \<open>The REST leave before it is best effort: it has no effect here, whether it fails or not.\<close>

definition leave_space :: "space_state \<Rightarrow> space_state" where
  "leave_space st = disconnect_session st"

definition reset_session :: "space_state \<Rightarrow> space_state" where
  "reset_session st = st\<lparr>st_session := initial_session\<rparr>"

subsection \<open>The microphone\<close>

text \<open>\<open>None\<close> in the last component: the microphone is being added, \<open>microphone_added\<close> follows.\<close>

definition toggle_microphone :: "mixer \<Rightarrow> mixer \<times> call list \<times> (mixer_error + bool) option" where
  "toggle_microphone m =
     (if mx_participant m = None then (m, [], Some (Inr True))
      else case find (\<lambda>s. as_kind s = Mic) (list_sources m) of
        Some mic \<Rightarrow> (set_mic_muted (\<not> as_muted mic) m, [], Some (Inr (\<not> as_muted mic)))
      | None \<Rightarrow>
          (case add_mic_source m of
             (m1, cs, R_throw e) \<Rightarrow> (m1, cs, Some (Inl e))
           | (m1, cs, R_id _) \<Rightarrow> (set_mic_muted False m1, cs, Some (Inr False))
           | (m1, cs, _) \<Rightarrow> (m1, cs, None)))"

definition toggle_mute_done :: "int option \<Rightarrow> mixer_error + bool \<Rightarrow> space_state \<Rightarrow> space_state" where
  "toggle_mute_done myFid r st =
     (let s = st_session st
      in case r of
           Inr muted \<Rightarrow>
             (let s1 = s\<lparr>ss_is_muted := muted, ss_mic_permission_denied := False\<rparr>
              in st\<lparr>st_session := (case myFid of
                     Some fid \<Rightarrow> if fid \<noteq> 0 then update_participant fid (\<lambda>p. p\<lparr>pt_is_muted := muted\<rparr>) s1 else s1
                   | None \<Rightarrow> s1)\<rparr>)
         | Inl Not_allowed \<Rightarrow> st\<lparr>st_session := s\<lparr>ss_mic_permission_denied := True, ss_is_muted := True\<rparr>\<rparr>
         | Inl _ \<Rightarrow> st)"

definition toggle_mute :: "int option \<Rightarrow> space_state \<Rightarrow> space_state \<times> call list" where
  "toggle_mute myFid st =
     (case toggle_microphone (st_mixer st) of (m, cs, r) \<Rightarrow>
        (let st1 = on_mixer (\<lambda>_. m) st
         in (case r of None \<Rightarrow> st1 | Some x \<Rightarrow> toggle_mute_done myFid x st1, cs)))"

definition microphone_added :: "int option \<Rightarrow> space_state \<Rightarrow> space_state" where
  "microphone_added myFid st = toggle_mute_done myFid (Inr False) (on_mixer (set_mic_muted False) st)"

subsection \<open>The reconnect engine\<close>

definition RECONNECT_MAX_ATTEMPTS :: nat where "RECONNECT_MAX_ATTEMPTS = 8"

definition SPACE_RECONNECT_BASE_MS :: int where "SPACE_RECONNECT_BASE_MS = 1000"

definition SPACE_RECONNECT_MAX_MS :: int where "SPACE_RECONNECT_MAX_MS = 30000"

definition TOKEN_REFRESH_BUFFER_MS :: int where "TOKEN_REFRESH_BUFFER_MS = 5 * 60 * 1000"

record room_detail =
  rd_room :: space_room
  rd_participants :: "space_participant list"

text \<open>
  What one attempt meets: the clock, the answer of the token refresh (a token and its expiry), the
  room detail (\<open>Some None\<close> for a room that is gone) and whether the connect succeeds; \<open>None\<close> is a
  call that throws.
\<close>

record attempt_world =
  aw_now :: int
  aw_refresh :: "(jstr \<times> jstr option) option"
  aw_detail :: "room_detail option option"
  aw_connect :: bool

definition to_session_participant :: "space_participant \<Rightarrow> session_participant" where
  "to_session_participant p =
     \<lparr>pt_fid = wp_fid p, pt_role = wp_role p, pt_is_muted = wp_is_muted p, pt_is_speaking = False,
      pt_hand_raised = wp_hand_raised p, pt_display_name = wp_display_name p, pt_pfp_url = wp_pfp_url p\<rparr>"

definition is_token_expiring_soon :: "int \<Rightarrow> reconnect_state \<Rightarrow> bool" where
  "is_token_expiring_soon now rc = (rc_token_expires_at rc - now < TOKEN_REFRESH_BUFFER_MS)"

definition cache_token ::
  "(jstr \<Rightarrow> int option) \<Rightarrow> jstr \<Rightarrow> jstr option \<Rightarrow> jstr option \<Rightarrow> reconnect_state \<Rightarrow> reconnect_state" where
  "cache_token parse token expiresAt wsUrl rc =
     (let rc1 = rc\<lparr>rc_token := token, rc_token_expires_at := (case expiresAt of
                None \<Rightarrow> 0
              | Some e \<Rightarrow> if e = [] then 0 else case parse e of Some t \<Rightarrow> t | None \<Rightarrow> 0)\<rparr>
      in case wsUrl of Some u \<Rightarrow> if u = [] then rc1 else rc1\<lparr>rc_ws_url := u\<rparr> | None \<Rightarrow> rc1)"

datatype attempt_result = Attempt_done | Attempt_left | Attempt_failed

definition token_for_attempt ::
  "(jstr \<Rightarrow> int option) \<Rightarrow> attempt_world \<Rightarrow> reconnect_state \<Rightarrow> reconnect_state option" where
  "token_for_attempt parse w rc =
     (if is_token_expiring_soon (aw_now w) rc \<or> rc_token rc = []
      then (case aw_refresh w of None \<Rightarrow> None | Some (t, e) \<Rightarrow> Some (cache_token parse t e None rc))
      else Some rc)"

definition stop_reconnecting :: "space_state \<Rightarrow> space_state" where
  "stop_reconnecting st = st\<lparr>st_reconnect := (st_reconnect st)\<lparr>rc_is_reconnecting := False\<rparr>\<rparr>"

definition restore_session :: "int option \<Rightarrow> room_detail \<Rightarrow> space_state \<Rightarrow> space_state \<times> attempt_result" where
  "restore_session myFid d st0 =
     (let st = st0\<lparr>st_session := (st_session st0)\<lparr>ss_room := Some (rd_room d),
                 ss_participants := map to_session_participant (rd_participants d)\<rparr>\<rparr>
      in case find (\<lambda>p. Some (wp_fid p) = myFid) (rd_participants d) of
           None \<Rightarrow> (stop_reconnecting (leave_space (disconnect_room st)), Attempt_left)
         | Some me \<Rightarrow>
             (st\<lparr>st_session := (st_session st)\<lparr>ss_my_role := Some (wp_role me), ss_is_connected := True\<rparr>,
                st_reconnect := (st_reconnect st)\<lparr>rc_attempts := 0, rc_is_reconnecting := False\<rparr>\<rparr>,
              Attempt_done))"

definition reconnect_attempt ::
  "(jstr \<Rightarrow> int option) \<Rightarrow> int option \<Rightarrow> attempt_world \<Rightarrow> space_state \<Rightarrow> space_state \<times> attempt_result" where
  "reconnect_attempt parse myFid w st =
     (case token_for_attempt parse w (st_reconnect st) of
        None \<Rightarrow> (st, Attempt_failed)
      | Some rc \<Rightarrow>
          (let st1 = st\<lparr>st_reconnect := rc\<rparr>
           in case aw_detail w of
                None \<Rightarrow> (st1, Attempt_failed)
              | Some None \<Rightarrow> (stop_reconnecting (leave_space st1), Attempt_left)
              | Some (Some d) \<Rightarrow>
                  (if sr_status (rd_room d) \<noteq> ''active''
                   then (stop_reconnecting (leave_space st1), Attempt_left)
                   else let st2 = disconnect_room st1;
                            st3 = st2\<lparr>st_mixer := connect_room (aw_connect w) (st_mixer st2)\<rparr>
                        in if \<not> aw_connect w then (st3, Attempt_failed) else restore_session myFid d st3)))"

definition reconnect_wait :: "nat \<Rightarrow> int" where
  "reconnect_wait attempts = min (SPACE_RECONNECT_BASE_MS * 2 ^ attempts) SPACE_RECONNECT_MAX_MS"

lemma failed_attempt_attempts:
  "reconnect_attempt parse myFid w st = (st', Attempt_failed) \<Longrightarrow>
   rc_attempts (st_reconnect st') = rc_attempts (st_reconnect st)"
  by (auto simp: reconnect_attempt_def token_for_attempt_def cache_token_def restore_session_def disconnect_room_def
      Let_def split: option.splits if_splits prod.splits)

text \<open>
  The loop: \<open>w n\<close> is what attempt \<open>n\<close> meets. The result has the waits before each attempt and the
  outcome, where \<open>Attempt_failed\<close> is the exit after the last attempt.
\<close>

function reconnect_loop ::
  "(jstr \<Rightarrow> int option) \<Rightarrow> int option \<Rightarrow> (nat \<Rightarrow> attempt_world) \<Rightarrow> space_state \<Rightarrow>
   space_state \<times> int list \<times> attempt_result" where
  "reconnect_loop parse myFid w st =
     (let n = rc_attempts (st_reconnect st)
      in if n < RECONNECT_MAX_ATTEMPTS
         then (case reconnect_attempt parse myFid (w n) st of
                 (st1, Attempt_failed) \<Rightarrow>
                   (let st2 = st1\<lparr>st_reconnect := (st_reconnect st1)\<lparr>rc_attempts := Suc (rc_attempts (st_reconnect st1))\<rparr>\<rparr>
                    in case reconnect_loop parse myFid w st2 of (st3, ds, r) \<Rightarrow> (st3, reconnect_wait n # ds, r))
               | (st1, r) \<Rightarrow> (st1, [reconnect_wait n], r))
         else (leave_space (stop_reconnecting st), [], Attempt_failed))"
  by auto

termination
  by (relation "measure (\<lambda>(_, _, _, st). RECONNECT_MAX_ATTEMPTS - rc_attempts (st_reconnect st))")
    (auto dest: failed_attempt_attempts[OF sym])

declare reconnect_loop.simps [simp del]

text \<open>\<open>None\<close>: the call returns at once.\<close>

definition reconnect ::
  "(jstr \<Rightarrow> int option) \<Rightarrow> int option \<Rightarrow> (nat \<Rightarrow> attempt_world) \<Rightarrow> space_state \<Rightarrow>
   (space_state \<times> int list \<times> attempt_result) option" where
  "reconnect parse myFid w st =
     (case ss_room (st_session st) of
        None \<Rightarrow> None
      | Some room \<Rightarrow>
          if sr_is_farcaster_native room \<or> rc_is_reconnecting (st_reconnect st) then None
          else Some (reconnect_loop parse myFid w
                 (st\<lparr>st_session := (st_session st)\<lparr>ss_is_connected := False\<rparr>,
                    st_reconnect := (st_reconnect st)\<lparr>rc_is_reconnecting := True, rc_attempts := 0\<rparr>\<rparr>)))"

text \<open>The proactive top-up of the token, once a minute; \<open>r\<close> is the answer of the refresh it makes.\<close>

definition top_up_token ::
  "(jstr \<Rightarrow> int option) \<Rightarrow> int \<Rightarrow> (jstr \<times> jstr option) option \<Rightarrow> reconnect_state \<Rightarrow> reconnect_state" where
  "top_up_token parse now r rc =
     (if is_token_expiring_soon now rc
      then (case r of None \<Rightarrow> rc | Some (t, e) \<Rightarrow> cache_token parse t e None rc)
      else rc)"

subsection \<open>What a reconnect guarantees\<close>

lemma disconnect_room_fields:
  "mx_sources (st_mixer (disconnect_room st)) = []"
  "mx_source_subscribers (st_mixer (disconnect_room st)) = Map.empty"
  "mx_published_track (st_mixer (disconnect_room st)) = None"
  "mx_participant (st_mixer (disconnect_room st)) = None"
  "st_reconnect (disconnect_room st) = st_reconnect st"
  "ss_is_muted (st_session (disconnect_room st)) = ss_is_muted (st_session st)"
  by (auto simp: disconnect_room_def disconnect_from_room_def teardown_def stop_level_loop_def emit_sources_def
      disconnect_done_def Let_def split: option.split)

lemma leave_space_fields:
  "st_session (leave_space st) = initial_session" "mx_participant (st_mixer (leave_space st)) = None"
  "st_reconnect (leave_space st) = st_reconnect st"
  by (simp_all add: leave_space_def disconnect_session_def disconnect_room_fields)

lemma stop_reconnecting_fields [simp]:
  "st_session (stop_reconnecting st) = st_session st" "st_mixer (stop_reconnecting st) = st_mixer st"
  "rc_is_reconnecting (st_reconnect (stop_reconnecting st)) = False"
  by (simp_all add: stop_reconnecting_def)

text \<open>The session after a successful attempt, and after any other end.\<close>

definition reconnected_to :: "int option \<Rightarrow> room_detail \<Rightarrow> space_state \<Rightarrow> bool" where
  "reconnected_to myFid d u \<longleftrightarrow>
     ss_is_connected (st_session u) \<and> ss_room (st_session u) = Some (rd_room d) \<and>
     sr_status (rd_room d) = ''active'' \<and>
     ss_participants (st_session u) = map to_session_participant (rd_participants d) \<and>
     (\<exists>me \<in> set (rd_participants d). Some (wp_fid me) = myFid \<and> ss_my_role (st_session u) = Some (wp_role me))"

definition left_space :: "space_state \<Rightarrow> bool" where
  "left_space u \<longleftrightarrow> st_session u = initial_session \<and> mx_participant (st_mixer u) = None"

definition quiet_mixer :: "mixer \<Rightarrow> bool" where
  "quiet_mixer m \<longleftrightarrow> mx_sources m = [] \<and> mx_source_subscribers m = Map.empty \<and> mx_published_track m = None \<and>
     mx_participant m \<noteq> None"

lemma restore_session_result:
  assumes "restore_session myFid d st = (u, r)" "sr_status (rd_room d) = ''active''"
    "quiet_mixer (st_mixer st)"
  shows "\<not> rc_is_reconnecting (st_reconnect u) \<and>
    (r = Attempt_done \<and> reconnected_to myFid d u \<and> quiet_mixer (st_mixer u) \<and>
       ss_is_muted (st_session u) = ss_is_muted (st_session st) \<or> r = Attempt_left \<and> left_space u)"
proof (cases "find (\<lambda>p. Some (wp_fid p) = myFid) (rd_participants d)")
  case None
  then show ?thesis using assms(1)
    by (auto simp: restore_session_def leave_space_fields left_space_def)
next
  case (Some me)
  then have "me \<in> set (rd_participants d)" "Some (wp_fid me) = myFid"
    by (auto simp: find_Some_iff)
  then show ?thesis using Some assms
    by (auto simp: restore_session_def reconnected_to_def)
qed

lemma reconnect_attempt_result:
  assumes "reconnect_attempt parse myFid w st = (u, r)"
  shows "(r = Attempt_failed \<longrightarrow> ss_is_muted (st_session u) = ss_is_muted (st_session st)) \<and>
    (r = Attempt_left \<longrightarrow> left_space u \<and> \<not> rc_is_reconnecting (st_reconnect u)) \<and>
    (r = Attempt_done \<longrightarrow> (\<exists>d. aw_detail w = Some (Some d) \<and> reconnected_to myFid d u) \<and>
       quiet_mixer (st_mixer u) \<and> ss_is_muted (st_session u) = ss_is_muted (st_session st) \<and>
       \<not> rc_is_reconnecting (st_reconnect u))"
proof -
  consider "token_for_attempt parse w (st_reconnect st) = None"
    | rc where "token_for_attempt parse w (st_reconnect st) = Some rc" "aw_detail w = None"
    | rc where "token_for_attempt parse w (st_reconnect st) = Some rc" "aw_detail w = Some None"
    | rc d where "token_for_attempt parse w (st_reconnect st) = Some rc" "aw_detail w = Some (Some d)"
      "sr_status (rd_room d) \<noteq> ''active''"
    | rc d where "token_for_attempt parse w (st_reconnect st) = Some rc" "aw_detail w = Some (Some d)"
      "sr_status (rd_room d) = ''active''"
    by (metis option.exhaust)
  then show ?thesis
  proof cases
    case 1
    then show ?thesis using assms by (auto simp: reconnect_attempt_def)
  next
    case 2
    then show ?thesis using assms by (auto simp: reconnect_attempt_def)
  next
    case 3
    then show ?thesis using assms by (auto simp: reconnect_attempt_def leave_space_fields left_space_def)
  next
    case 4
    then show ?thesis using assms by (auto simp: reconnect_attempt_def leave_space_fields left_space_def)
  next
    case (5 rc d)
    let ?st1 = "st\<lparr>st_reconnect := rc\<rparr>"
    let ?st2 = "disconnect_room ?st1"
    let ?st3 = "?st2\<lparr>st_mixer := connect_room (aw_connect w) (st_mixer ?st2)\<rparr>"
    have q: "quiet_mixer (st_mixer ?st3)" if "aw_connect w"
      using that by (simp add: quiet_mixer_def connect_room_def room_connect_done_def disconnect_room_fields)
    have m: "ss_is_muted (st_session ?st3) = ss_is_muted (st_session st)"
      by (simp add: disconnect_room_fields)
    show ?thesis
    proof (cases "aw_connect w")
      case True
      then have "restore_session myFid d ?st3 = (u, r)"
        using 5 assms by (simp add: reconnect_attempt_def Let_def)
      from restore_session_result[OF this 5(3) q[OF True]] m 5(2) show ?thesis by auto
    next
      case False
      then show ?thesis using 5 assms by (auto simp: reconnect_attempt_def Let_def disconnect_room_fields)
    qed
  qed
qed

definition all_waits :: "int list" where
  "all_waits = map reconnect_wait [0..<RECONNECT_MAX_ATTEMPTS]"

lemma all_waits_value: "all_waits = [1000, 2000, 4000, 8000, 16000, 30000, 30000, 30000]"
  by code_simp

lemma reconnect_loop_result:
  "reconnect_loop parse myFid w st = (u, ds, r) \<Longrightarrow>
   rc_is_reconnecting (st_reconnect u) = False \<and>
   (\<exists>k. ds = take k (drop (rc_attempts (st_reconnect st)) all_waits)) \<and>
   (if r = Attempt_done
    then (\<exists>n d. n < RECONNECT_MAX_ATTEMPTS \<and> aw_detail (w n) = Some (Some d) \<and> reconnected_to myFid d u) \<and>
      quiet_mixer (st_mixer u) \<and> ss_is_muted (st_session u) = ss_is_muted (st_session st)
    else left_space u)"
proof (induction parse myFid w st arbitrary: u ds r rule: reconnect_loop.induct)
  case (1 parse myFid w st)
  let ?n = "rc_attempts (st_reconnect st)"
  show ?case
  proof (cases "?n < RECONNECT_MAX_ATTEMPTS")
    case False
    then have "u = leave_space (stop_reconnecting st)" "ds = []" "r = Attempt_failed"
      using 1(2) by (simp_all add: reconnect_loop.simps[of parse myFid w st] Let_def)
    then show ?thesis by (auto simp: leave_space_fields left_space_def)
  next
    case True
    then have len: "?n < length all_waits" by (simp add: all_waits_def)
    then have d: "drop ?n all_waits = reconnect_wait ?n # drop (Suc ?n) all_waits"
      using True by (subst Cons_nth_drop_Suc[symmetric]) (simp_all add: all_waits_def)
    obtain st1 r1 where a: "reconnect_attempt parse myFid (w ?n) st = (st1, r1)"
      by (cases "reconnect_attempt parse myFid (w ?n) st")
    note res = reconnect_attempt_result[OF a]
    show ?thesis
    proof (cases "r1 = Attempt_failed")
      case F: True
      let ?st2 = "st1\<lparr>st_reconnect := (st_reconnect st1)\<lparr>rc_attempts := Suc (rc_attempts (st_reconnect st1))\<rparr>\<rparr>"
      have n1: "rc_attempts (st_reconnect st1) = ?n"
        using a F failed_attempt_attempts by simp
      obtain ds' where l: "reconnect_loop parse myFid w ?st2 = (u, ds', r)" and ds: "ds = reconnect_wait ?n # ds'"
        using 1(2) True a F n1 by (auto simp: reconnect_loop.simps[of parse myFid w st] Let_def split: prod.splits)
      have ih: "rc_is_reconnecting (st_reconnect u) = False \<and>
        (\<exists>k. ds' = take k (drop (rc_attempts (st_reconnect ?st2)) all_waits)) \<and>
        (if r = Attempt_done
         then (\<exists>n d. n < RECONNECT_MAX_ATTEMPTS \<and> aw_detail (w n) = Some (Some d) \<and> reconnected_to myFid d u) \<and>
           quiet_mixer (st_mixer u) \<and> ss_is_muted (st_session u) = ss_is_muted (st_session ?st2)
         else left_space u)"
        by (rule 1(1)[OF refl True a[symmetric] F refl l])
      then obtain k where "ds' = take k (drop (Suc ?n) all_waits)" using n1 by auto
      then have "ds = take (Suc k) (drop ?n all_waits)" using ds d by simp
      moreover have "ss_is_muted (st_session ?st2) = ss_is_muted (st_session st)" using res F by simp
      ultimately show ?thesis using ih by auto
    next
      case False
      then have e: "u = st1" "ds = [reconnect_wait ?n]" "r = r1"
        using 1(2) True a by (cases r1; simp add: reconnect_loop.simps[of parse myFid w st] Let_def)+
      have "ds = take 1 (drop ?n all_waits)" using e d by simp
      then show ?thesis using e res False True by (cases r1) auto
    qed
  qed
qed

lemma reconnect_as_loop:
  assumes "reconnect parse myFid w st = Some (u, ds, r)"
  obtains st' where "reconnect_loop parse myFid w st' = (u, ds, r)" "rc_attempts (st_reconnect st') = 0"
    "ss_is_muted (st_session st') = ss_is_muted (st_session st)"
  using assms that by (auto simp: reconnect_def split: option.splits if_splits)

lemma sum_list_take_le:
  fixes xs :: "int list"
  shows "\<forall>x \<in> set xs. 0 \<le> x \<Longrightarrow> sum_list (take k xs) \<le> sum_list xs"
proof (induction xs arbitrary: k)
  case (Cons x xs)
  then show ?case by (cases k) (auto simp: sum_list_nonneg add_nonneg_nonneg)
qed simp

text \<open>
  A reconnect always ends, whatever the server and the network do: after at most eight attempts,
  with waits that double from one second up to thirty (121 seconds together), the engine is free again
  and the user is either back in the active room, with the server's roster and their own role there, or
  has left the space with the session cleared. Nothing in between remains.
\<close>

theorem reconnect_ends:
  assumes "ss_room (st_session st) = Some room" "\<not> sr_is_farcaster_native room"
    "\<not> rc_is_reconnecting (st_reconnect st)"
  shows "\<exists>u ds r. reconnect parse myFid w st = Some (u, ds, r) \<and>
    \<not> rc_is_reconnecting (st_reconnect u) \<and>
    ds = take (length ds) [1000, 2000, 4000, 8000, 16000, 30000, 30000, 30000] \<and> sum_list ds \<le> 121000 \<and>
    (if r = Attempt_done
     then \<exists>n d. n < 8 \<and> aw_detail (w n) = Some (Some d) \<and> reconnected_to myFid d u
     else st_session u = initial_session \<and> mx_participant (st_mixer u) = None)"
proof -
  obtain u ds r where e: "reconnect parse myFid w st = Some (u, ds, r)"
    using assms by (auto simp: reconnect_def) (metis prod.exhaust)
  obtain st' where l: "reconnect_loop parse myFid w st' = (u, ds, r)" "rc_attempts (st_reconnect st') = 0"
    using e by (rule reconnect_as_loop)
  note res = reconnect_loop_result[OF l(1)]
  obtain k where k: "ds = take k all_waits" using res l(2) by auto
  then have "ds = take (length ds) all_waits" by (simp add: min_def)
  moreover have "sum_list ds \<le> sum_list all_waits"
    unfolding k by (rule sum_list_take_le) (simp add: all_waits_value)
  ultimately show ?thesis
    using e res by (auto simp: all_waits_value left_space_def RECONNECT_MAX_ATTEMPTS_def)
qed

text \<open>
  A successful reconnect loses the microphone without saying so: the mixer that the engine tore
  down has no source and publishes nothing, and the store is no longer subscribed to it, while the mute
  button still shows what it showed before.
\<close>

theorem reconnect_drops_microphone:
  assumes "reconnect parse myFid w st = Some (u, ds, Attempt_done)"
  shows "ss_is_connected (st_session u) \<and> ss_is_muted (st_session u) = ss_is_muted (st_session st) \<and>
    list_sources (st_mixer u) = [] \<and> \<not> is_producing_audio (st_mixer u) \<and>
    mx_source_subscribers (st_mixer u) = Map.empty"
proof -
  obtain st' where l: "reconnect_loop parse myFid w st' = (u, ds, Attempt_done)"
    "ss_is_muted (st_session st') = ss_is_muted (st_session st)"
    using assms by (rule reconnect_as_loop)
  show ?thesis
    using reconnect_loop_result[OF l(1)] l(2)
    by (auto simp: quiet_mixer_def reconnected_to_def list_sources_def snapshot_def jm_values_def is_producing_audio_def)
qed

definition a_space :: space_room where
  "a_space = \<lparr>sr_id = ''s'', sr_host_fid = 1, sr_status = ''active'', sr_recording = False,
     sr_is_farcaster_native = False, sr_farcaster_room_id = None\<rparr>"

definition a_speaker :: "int \<Rightarrow> jstr \<Rightarrow> space_participant" where
  "a_speaker fid role = \<lparr>wp_fid = fid, wp_role = role, wp_is_muted = False, wp_hand_raised = False,
     wp_display_name = ''n'', wp_pfp_url = None\<rparr>"

definition speaking_mixer :: mixer where
  "speaking_mixer =
     (case mixer_play [Perform Op_connect, Settle 0 (A_ok True), Perform (Op_subscribe 0), Perform Op_add_mic,
             Settle 0 (A_capture (Captured [])), Settle 0 (A_ok True)] (initial_mixer True, []) of
        Some (m, _) \<Rightarrow> m | None \<Rightarrow> initial_mixer True)"

definition speaking_space :: space_state where
  "speaking_space =
     \<lparr>st_session = initial_session\<lparr>ss_room := Some a_space, ss_my_role := Some ''host'', ss_is_connected := True,
        ss_is_muted := False\<rparr>, st_reaction_seq = 0, st_mixer = speaking_mixer,
      st_reconnect = \<lparr>rc_attempts = 0, rc_is_reconnecting = False, rc_token = [], rc_token_expires_at = 0,
        rc_ws_url = ''ws''\<rparr>\<rparr>"

text \<open>The network is back at once.\<close>

definition first_time :: "nat \<Rightarrow> attempt_world" where
  "first_time n = \<lparr>aw_now = 0, aw_refresh = Some (''t'', None),
     aw_detail = Some (Some \<lparr>rd_room = a_space, rd_participants = [a_speaker 1 ''host'']\<rparr>),
     aw_connect = True\<rparr>"

definition no_times :: "jstr \<Rightarrow> int option" where
  "no_times _ = None"

lemma reconnect_loop_first:
  assumes "reconnect_attempt parse myFid (w 0) st = (u, Attempt_done)" "rc_attempts (st_reconnect st) = 0"
  shows "reconnect_loop parse myFid w st = (u, [1000], Attempt_done)"
  using assms
  by (subst reconnect_loop.simps)
    (simp add: Let_def RECONNECT_MAX_ATTEMPTS_def reconnect_wait_def SPACE_RECONNECT_BASE_MS_def
      SPACE_RECONNECT_MAX_MS_def)

theorem reconnect_ends_witness:
  "\<exists>u ds r. reconnect no_times (Some 1) first_time speaking_space = Some (u, ds, r) \<and>
     \<not> rc_is_reconnecting (st_reconnect u) \<and> sum_list ds \<le> 121000"
proof -
  have s: "ss_room (st_session speaking_space) = Some a_space" "\<not> sr_is_farcaster_native a_space"
    "\<not> rc_is_reconnecting (st_reconnect speaking_space)"
    by (simp_all add: speaking_space_def a_space_def)
  show ?thesis
    using reconnect_ends[OF s, of no_times "Some 1" first_time]
    by (elim exE conjE) (intro exI conjI, assumption+)
qed

theorem reconnect_drops_microphone_witness:
  "\<exists>u. reconnect no_times (Some 1) first_time speaking_space = Some (u, [1000], Attempt_done) \<and>
     is_producing_audio (st_mixer speaking_space) \<and> \<not> ss_is_muted (st_session u) \<and>
     list_sources (st_mixer u) = [] \<and> \<not> is_producing_audio (st_mixer u)"
proof -
  let ?st = "speaking_space\<lparr>st_session := (st_session speaking_space)\<lparr>ss_is_connected := False\<rparr>,
    st_reconnect := (st_reconnect speaking_space)\<lparr>rc_is_reconnecting := True, rc_attempts := 0\<rparr>\<rparr>"
  have "snd (reconnect_attempt no_times (Some 1) (first_time 0) ?st) = Attempt_done" by code_simp
  then obtain u where "reconnect_attempt no_times (Some 1) (first_time 0) ?st = (u, Attempt_done)"
    by (metis prod.collapse)
  then have "reconnect_loop no_times (Some 1) first_time ?st = (u, [1000], Attempt_done)"
    by (rule reconnect_loop_first) simp
  then have u: "reconnect no_times (Some 1) first_time speaking_space = Some (u, [1000], Attempt_done)"
    by (simp add: reconnect_def) (simp add: speaking_space_def a_space_def)
  have p: "is_producing_audio (st_mixer speaking_space)" by code_simp
  have "\<not> ss_is_muted (st_session speaking_space)" by (simp add: speaking_space_def)
  with u p show ?thesis
    using reconnect_drops_microphone[OF u] by (intro exI[of _ u]) simp
qed

end
