(* ===== verification/Space_Events.thy ===== *)
theory Space_Events
  imports Space_Session
begin

section \<open>Events of the space's room\<close>

text \<open>
  The event handlers of \<^verbatim>\<open>setupRoomListeners\<close>, the hydration of the roster on connect and the overlay
  for native rooms, of \<^verbatim>\<open>landing/app/app/space/useSpace.ts\<close>, with \<^verbatim>\<open>parseParticipantFid\<close> of
  \<^verbatim>\<open>landing/lib/space/livekit.ts\<close> and \<^verbatim>\<open>safeImageUrl\<close> of \<^verbatim>\<open>landing/lib/safe-url.ts\<close>. What the
  handlers read of the browser is the record \<open>runtime\<close>: how JSON metadata and data packets parse
  (\<open>None\<close> for a \<^verbatim>\<open>JSON.parse\<close> that throws), the protocol of a URL (\<open>None\<close> if it is malformed) and the
  signed-in user. A handler gives the new state and the calls it starts.
\<close>

record participant_metadata =
  md_role :: "jstr option"
  md_pfp_url :: "jstr option"
  md_display_name :: "jstr option"

record data_packet =
  dp_type :: "jstr option"
  dp_key :: "jstr option"
  dp_recording :: "bool option"

record live_participant =
  lp_identity :: "jstr option"
  lp_metadata :: "jstr option"
  lp_name :: "jstr option"

record runtime =
  rt_metadata :: "jstr \<Rightarrow> participant_metadata option"
  rt_data :: "jstr \<Rightarrow> data_packet option"
  rt_protocol :: "jstr \<Rightarrow> jstr option"
  rt_my_fid :: "int option"

text \<open>
  \<^verbatim>\<open>parseInt\<close> of a digit string is its number; from \<open>2 ^ 53\<close> on a double would round it, and there are
  no such fids.
\<close>

definition parse_participant_fid :: "jstr option \<Rightarrow> int option" where
  "parse_participant_fid identity =
     (case identity of
        None \<Rightarrow> None
      | Some i \<Rightarrow>
          (let raw = (if take 4 i = ''fid:'' then drop 4 i else i);
               n = int (js_to_nat raw)
           in if i = [] \<or> raw = [] \<or> \<not> list_all js_is_digit raw then None
              else if n > 0 then Some n else None))"

definition parse_metadata :: "runtime \<Rightarrow> jstr option \<Rightarrow> participant_metadata" where
  "parse_metadata rt raw =
     (let none = \<lparr>md_role = None, md_pfp_url = None, md_display_name = None\<rparr>
      in case raw of None \<Rightarrow> none
         | Some r \<Rightarrow> if r = [] then none else case rt_metadata rt r of Some m \<Rightarrow> m | None \<Rightarrow> none)"

definition safe_image_url :: "runtime \<Rightarrow> jstr option \<Rightarrow> jstr option" where
  "safe_image_url rt url =
     (case url of
        None \<Rightarrow> None
      | Some u \<Rightarrow> if u \<noteq> [] \<and> rt_protocol rt u = Some ''https:'' then Some u else None)"

text \<open>\<^verbatim>\<open>a || b\<close> on strings.\<close>

definition or_else :: "jstr option \<Rightarrow> jstr \<Rightarrow> jstr" where
  "or_else a b = (case a of Some x \<Rightarrow> if x = [] then b else x | None \<Rightarrow> b)"

definition default_name :: "int \<Rightarrow> jstr" where
  "default_name fid = ''User '' @ js_of_int fid"

definition on_session :: "(session \<Rightarrow> session) \<Rightarrow> space_state \<Rightarrow> space_state" where
  "on_session f st = st\<lparr>st_session := f (st_session st)\<rparr>"

definition new_participant ::
  "runtime \<Rightarrow> int \<Rightarrow> participant_metadata \<Rightarrow> jstr \<Rightarrow> bool \<Rightarrow> bool \<Rightarrow> jstr \<Rightarrow> session_participant" where
  "new_participant rt fid md role muted speaking name =
     \<lparr>pt_fid = fid, pt_role = or_else (md_role md) role, pt_is_muted = muted, pt_is_speaking = speaking,
      pt_hand_raised = False, pt_display_name = or_else (md_display_name md) name,
      pt_pfp_url = safe_image_url rt (md_pfp_url md)\<rparr>"

datatype disconnect_reason = Server_shutdown | Room_deleted | Other_reason

datatype room_event =
  Participant_connected live_participant
  | Participant_disconnected live_participant
  | Track_muted live_participant
  | Track_unmuted live_participant
  | Active_speakers_changed "live_participant list"
  | Disconnected disconnect_reason
  | Reconnecting
  | Reconnected
  | Metadata_changed live_participant
  | Permissions_changed bool bool bool
  | Data_received jstr "live_participant option" "jstr option"

datatype room_effect = Fx_room_ended | Fx_enable_microphone | Fx_disable_microphone | Fx_refetch_recording

definition on_participant_connected :: "runtime \<Rightarrow> live_participant \<Rightarrow> session \<Rightarrow> session" where
  "on_participant_connected rt p s =
     (case parse_participant_fid (lp_identity p) of
        None \<Rightarrow> s
      | Some fid \<Rightarrow> add_participant (new_participant rt fid (parse_metadata rt (lp_metadata p)) ''listener'' True False
                      (default_name fid)) s)"

definition on_participant_disconnected :: "live_participant \<Rightarrow> session \<Rightarrow> session" where
  "on_participant_disconnected p s =
     (case parse_participant_fid (lp_identity p) of None \<Rightarrow> s | Some fid \<Rightarrow> remove_participant fid s)"

definition on_track_muted :: "live_participant \<Rightarrow> session \<Rightarrow> session" where
  "on_track_muted p s =
     (case parse_participant_fid (lp_identity p) of
        None \<Rightarrow> s
      | Some fid \<Rightarrow> update_participant fid (\<lambda>q. q\<lparr>pt_is_muted := True, pt_is_speaking := False\<rparr>) s)"

definition on_track_unmuted :: "live_participant \<Rightarrow> session \<Rightarrow> session" where
  "on_track_unmuted p s =
     (case parse_participant_fid (lp_identity p) of
        None \<Rightarrow> s
      | Some fid \<Rightarrow> update_participant fid (\<lambda>q. q\<lparr>pt_is_muted := False\<rparr>) s)"

text \<open>The loop over the speakers: \<open>known\<close> starts as the roster's fids, the result has the speakers' fids.\<close>

fun hear_speakers :: "runtime \<Rightarrow> live_participant list \<Rightarrow> int set \<Rightarrow> session \<Rightarrow> session \<times> int list" where
  "hear_speakers rt [] known s = (s, [])"
| "hear_speakers rt (p # ps) known s =
     (case parse_participant_fid (lp_identity p) of
        None \<Rightarrow> hear_speakers rt ps known s
      | Some fid \<Rightarrow>
          (let s1 = (if fid \<in> known then s
                     else add_participant (new_participant rt fid (parse_metadata rt (lp_metadata p)) ''speaker'' False True
                            (or_else (lp_name p) (default_name fid))) s)
           in case hear_speakers rt ps (insert fid known) s1 of (s2, fids) \<Rightarrow> (s2, fid # fids)))"

definition on_active_speakers :: "runtime \<Rightarrow> live_participant list \<Rightarrow> session \<Rightarrow> session" where
  "on_active_speakers rt speakers s =
     (case hear_speakers rt speakers (set (map pt_fid (ss_participants s))) s of
        (s1, fids) \<Rightarrow> set_speaking_participants (set fids) s1)"

definition on_metadata_changed :: "runtime \<Rightarrow> live_participant \<Rightarrow> session \<Rightarrow> session" where
  "on_metadata_changed rt p s =
     (case parse_participant_fid (lp_identity p) of
        None \<Rightarrow> s
      | Some fid \<Rightarrow>
          (let md = parse_metadata rt (lp_metadata p)
           in if \<not> list_ex (\<lambda>q. pt_fid q = fid) (ss_participants s)
              then add_participant (new_participant rt fid md ''listener'' True False
                     (or_else (lp_name p) (default_name fid))) s
              else case md_role md of
                     Some role \<Rightarrow> if role = [] then s else update_participant fid (\<lambda>q. q\<lparr>pt_role := role\<rparr>) s
                   | None \<Rightarrow> s))"

definition on_permissions_changed ::
  "runtime \<Rightarrow> bool \<Rightarrow> bool \<Rightarrow> bool \<Rightarrow> session \<Rightarrow> session \<times> room_effect list" where
  "on_permissions_changed rt isLocal couldPublish canPublish s =
     (case rt_my_fid rt of
        None \<Rightarrow> (s, [])
      | Some fid \<Rightarrow>
          if \<not> isLocal \<or> fid = 0 then (s, [])
          else if canPublish \<and> \<not> couldPublish
          then (update_participant fid (\<lambda>q. q\<lparr>pt_role := ''speaker'', pt_is_muted := False\<rparr>)
                  (s\<lparr>ss_my_role := Some ''speaker''\<rparr>), [Fx_enable_microphone])
          else if \<not> canPublish \<and> couldPublish
          then (update_participant fid (\<lambda>q. q\<lparr>pt_role := ''listener'', pt_is_muted := True\<rparr>)
                  (s\<lparr>ss_my_role := Some ''listener''\<rparr>), [Fx_disable_microphone])
          else (s, []))"

text \<open>The role of the sender of a data packet, as the roster knows it.\<close>

definition sender_role :: "live_participant option \<Rightarrow> session \<Rightarrow> jstr option" where
  "sender_role participant s =
     (case participant of
        None \<Rightarrow> None
      | Some p \<Rightarrow>
          (case parse_participant_fid (lp_identity p) of
             None \<Rightarrow> None
           | Some fid \<Rightarrow> map_option pt_role (find (\<lambda>q. pt_fid q = fid) (ss_participants s))))"

definition on_data_received ::
  "runtime \<Rightarrow> jstr \<Rightarrow> live_participant option \<Rightarrow> jstr option \<Rightarrow> space_state \<Rightarrow> space_state \<times> room_effect list" where
  "on_data_received rt payload participant topic st =
     (case rt_data rt payload of
        None \<Rightarrow> (st, [])
      | Some d \<Rightarrow>
          if topic = Some ''space_chat'' \<and> dp_type d = Some ''new_reply''
          then (on_session bump_chat_new_reply st, [])
          else if topic = Some ''space_state'' \<and> dp_type d = Some ''recording_state'' \<and> dp_recording d \<noteq> None
          then (if participant = None \<or> sender_role participant (st_session st) \<in> {Some ''host'', Some ''co_host''}
                then (on_session (set_recording (the (dp_recording d))) st, [])
                else (st, if ss_room (st_session st) = None then [] else [Fx_refetch_recording]))
          else case (participant, dp_key d) of
            (Some p, Some key) \<Rightarrow>
              (if topic = Some ''reactions'' \<and> dp_type d = Some ''reaction'' \<and> 0 < length key \<and> length key \<le> 8
               then (case parse_participant_fid (lp_identity p) of
                       Some fid \<Rightarrow> push_reaction key fid st | None \<Rightarrow> st, [])
               else (st, []))
          | _ \<Rightarrow> (st, []))"

definition refetched_recording :: "bool option \<Rightarrow> space_state \<Rightarrow> space_state" where
  "refetched_recording r st = (case r of None \<Rightarrow> st | Some b \<Rightarrow> on_session (set_recording b) st)"

definition microphone_enabled :: "unit + mixer_error \<Rightarrow> space_state \<Rightarrow> space_state" where
  "microphone_enabled r st =
     (case r of
        Inl _ \<Rightarrow> on_session (\<lambda>s. s\<lparr>ss_is_muted := False, ss_mic_permission_denied := False\<rparr>) st
      | Inr Not_allowed \<Rightarrow> on_session (\<lambda>s. s\<lparr>ss_mic_permission_denied := True\<rparr>) st
      | Inr _ \<Rightarrow> st)"

definition disable_microphone :: "space_state \<Rightarrow> space_state" where
  "disable_microphone st =
     on_session (\<lambda>s. s\<lparr>ss_is_muted := True\<rparr>)
       (if mx_participant (st_mixer st) = None then st else on_mixer (set_mic_muted True) st)"

fun on_room_event :: "runtime \<Rightarrow> room_event \<Rightarrow> space_state \<Rightarrow> space_state \<times> room_effect list" where
  "on_room_event rt (Participant_connected p) st = (on_session (on_participant_connected rt p) st, [])"
| "on_room_event rt (Participant_disconnected p) st = (on_session (on_participant_disconnected p) st, [])"
| "on_room_event rt (Track_muted p) st = (on_session (on_track_muted p) st, [])"
| "on_room_event rt (Track_unmuted p) st = (on_session (on_track_unmuted p) st, [])"
| "on_room_event rt (Active_speakers_changed ps) st = (on_session (on_active_speakers rt ps) st, [])"
| "on_room_event rt (Disconnected reason) st =
     (let st1 = on_session (\<lambda>s. s\<lparr>ss_is_connected := False\<rparr>) st
      in if reason = Other_reason then (st1, []) else (disconnect_session st1, [Fx_room_ended]))"
| "on_room_event rt Reconnecting st = (on_session (\<lambda>s. s\<lparr>ss_is_connected := False\<rparr>) st, [])"
| "on_room_event rt Reconnected st = (on_session (\<lambda>s. s\<lparr>ss_is_connected := True\<rparr>) st, [])"
| "on_room_event rt (Metadata_changed p) st = (on_session (on_metadata_changed rt p) st, [])"
| "on_room_event rt (Permissions_changed l could can) st =
     (case on_permissions_changed rt l could can (st_session st) of (s, fx) \<Rightarrow> (st\<lparr>st_session := s\<rparr>, fx))"
| "on_room_event rt (Data_received payload p topic) st = on_data_received rt payload p topic st"

subsection \<open>Hydration\<close>

record remote_participant = live_participant +
  rp_can_publish :: bool
  rp_microphone_enabled :: bool

definition hydrate_remote :: "runtime \<Rightarrow> remote_participant \<Rightarrow> session \<Rightarrow> session" where
  "hydrate_remote rt p s =
     (case parse_participant_fid (lp_identity p) of
        None \<Rightarrow> s
      | Some fid \<Rightarrow> add_participant (new_participant rt fid (parse_metadata rt (lp_metadata p))
            (if rp_can_publish p then ''speaker'' else ''listener'') (\<not> rp_microphone_enabled p) False
            (or_else (lp_name p) (default_name fid))) s)"

definition SPEAKER_ROLES :: "jstr set" where
  "SPEAKER_ROLES = {''host'', ''co_host'', ''speaker''}"

text \<open>\<open>me\<close> is the user's fid, name and picture; the name is what its own fallbacks give.\<close>

definition seed_local :: "runtime \<Rightarrow> (int \<times> jstr \<times> jstr option) option \<Rightarrow> session \<Rightarrow> session" where
  "seed_local rt me s =
     (case (me, ss_my_role s) of
        (Some (fid, name, pfp), Some role) \<Rightarrow>
          (if fid = 0 \<or> role = [] then s
           else add_participant \<lparr>pt_fid = fid, pt_role = role, pt_is_muted = (role \<notin> SPEAKER_ROLES),
                  pt_is_speaking = False, pt_hand_raised = False, pt_display_name = name,
                  pt_pfp_url = safe_image_url rt pfp\<rparr> s)
      | _ \<Rightarrow> s)"

definition hydrate_room ::
  "runtime \<Rightarrow> remote_participant list \<Rightarrow> (int \<times> jstr \<times> jstr option) option \<Rightarrow> session \<Rightarrow> session" where
  "hydrate_room rt remotes me s = seed_local rt me (foldl (\<lambda>u p. hydrate_remote rt p u) s remotes)"

record native_participant =
  np_fid :: "int option"
  np_display_name :: "jstr option"
  np_username :: "jstr option"
  np_pfp_url :: "jstr option"
  np_role :: jstr
  np_hand_raised :: bool

definition native_role :: "jstr \<Rightarrow> jstr" where
  "native_role r =
     (if r = ''host'' then ''host'' else if r = ''cohost'' \<or> r = ''co_host'' then ''co_host''
      else if r = ''speaker'' then ''speaker'' else ''listener'')"

definition hydrate_native_one :: "runtime \<Rightarrow> int set \<Rightarrow> native_participant \<Rightarrow> session \<Rightarrow> session" where
  "hydrate_native_one rt seen p s =
     (case np_fid p of
        None \<Rightarrow> s
      | Some fid \<Rightarrow>
          if fid = 0 then s
          else (let role = native_role (np_role p);
                    name = or_else (np_display_name p) (or_else (np_username p) (default_name fid));
                    pfp = safe_image_url rt (np_pfp_url p)
                in if fid \<in> seen
                   then update_participant fid (\<lambda>q. q\<lparr>pt_role := role, pt_display_name := name,
                          pt_hand_raised := np_hand_raised p,
                          pt_pfp_url := (if pfp = None then pt_pfp_url q else pfp)\<rparr>) s
                   else add_participant \<lparr>pt_fid = fid, pt_role = role, pt_is_muted = (role = ''listener''),
                          pt_is_speaking = False, pt_hand_raised = np_hand_raised p, pt_display_name = name,
                          pt_pfp_url = pfp\<rparr> s))"

definition hydrate_native_participants :: "runtime \<Rightarrow> native_participant list \<Rightarrow> session \<Rightarrow> session" where
  "hydrate_native_participants rt upstream s =
     (let seen = set (map pt_fid (ss_participants s))
      in foldl (\<lambda>u p. hydrate_native_one rt seen p u) s upstream)"

subsection \<open>The roster\<close>

definition fids :: "session \<Rightarrow> int list" where
  "fids s = map pt_fid (ss_participants s)"

text \<open>Handlers of the store that keep the roster free of duplicates.\<close>

definition roster_op :: "(session \<Rightarrow> session) \<Rightarrow> bool" where
  "roster_op f \<longleftrightarrow> (\<forall>s. distinct (fids s) \<longrightarrow> distinct (fids (f s))) \<and> (\<forall>s. ss_reactions (f s) = ss_reactions s)"

lemma roster_op_add [js_intro]: "roster_op (add_participant p)"
proof -
  have "distinct (fids (add_participant p s))" if "distinct (fids s)" for s
    using that by (auto simp: fids_def add_participant_def distinct_map intro: inj_on_subset)
  then show ?thesis by (simp add: roster_op_def add_participant_def)
qed

lemma roster_op_remove [js_intro]: "roster_op (remove_participant fid)"
  by (auto simp: roster_op_def fids_def remove_participant_def distinct_map intro: inj_on_subset)

lemma fids_update: "(\<And>p. pt_fid (f p) = pt_fid p) \<Longrightarrow> fids (update_participant fid f s) = fids s"
  by (simp add: fids_def update_participant_def)

lemma roster_op_update [js_intro]: "(\<And>p. pt_fid (f p) = pt_fid p) \<Longrightarrow> roster_op (update_participant fid f)"
  by (simp add: roster_op_def fids_update) (simp add: update_participant_def)

lemma fids_speaking: "fids (set_speaking_participants F s) = fids s"
  by (simp add: fids_def set_speaking_participants_def)

lemma roster_op_speaking [js_intro]: "roster_op (set_speaking_participants F)"
  by (simp add: roster_op_def fids_speaking) (simp add: set_speaking_participants_def)

lemma roster_op_flags [js_intro]:
  "roster_op (\<lambda>s. s)" "roster_op (set_recording b)" "roster_op bump_chat_new_reply"
  "roster_op (\<lambda>s. s\<lparr>ss_is_connected := b\<rparr>)"
  by (simp_all add: roster_op_def fids_def set_recording_def bump_chat_new_reply_def)

lemma roster_op_case:
  "roster_op f \<Longrightarrow> (\<And>x. roster_op (g x)) \<Longrightarrow> roster_op (\<lambda>s. case v of None \<Rightarrow> f s | Some x \<Rightarrow> g x s)"
  by (cases v) simp_all

lemma roster_op_if: "roster_op f \<Longrightarrow> roster_op g \<Longrightarrow> roster_op (\<lambda>s. if P s then f s else g s)"
  by (simp add: roster_op_def)

lemma roster_op_connected: "roster_op (on_participant_connected rt p)"
  unfolding on_participant_connected_def by (intro roster_op_case js_intro)

lemma roster_op_disconnected: "roster_op (on_participant_disconnected p)"
  unfolding on_participant_disconnected_def by (intro roster_op_case js_intro)

lemma roster_op_muted: "roster_op (on_track_muted p)" "roster_op (on_track_unmuted p)"
  unfolding on_track_muted_def on_track_unmuted_def by (intro roster_op_case js_intro; simp)+

lemma roster_op_metadata: "roster_op (on_metadata_changed rt p)"
  unfolding on_metadata_changed_def Let_def by (intro roster_op_case roster_op_if js_intro) simp_all

lemma hear_speakers_fids:
  "hear_speakers rt ps known s = (s', fs) \<Longrightarrow> known = set (fids s) \<Longrightarrow>
   set (fids s') = set (fids s) \<union> set fs \<and> (distinct (fids s) \<longrightarrow> distinct (fids s')) \<and>
   ss_reactions s' = ss_reactions s"
proof (induction rt ps known s arbitrary: s' fs rule: hear_speakers.induct)
  case (1 rt known s)
  then show ?case by simp
next
  case (2 rt p ps known s)
  show ?case
  proof (cases "parse_participant_fid (lp_identity p)")
    case None
    then show ?thesis using 2 by simp
  next
    case (Some fid)
    define s1 where "s1 = (if fid \<in> known then s
      else add_participant (new_participant rt fid (parse_metadata rt (lp_metadata p)) ''speaker'' False True
             (or_else (lp_name p) (default_name fid))) s)"
    obtain fs' where h: "hear_speakers rt ps (insert fid known) s1 = (s', fs')" and f: "fs = fid # fs'"
      using 2(3) Some by (auto simp: s1_def Let_def split: prod.splits)
    have k: "insert fid known = set (fids s1)"
      using 2(4) by (auto simp: s1_def fids_def add_participant_def new_participant_def)
    have "distinct (fids s) \<longrightarrow> distinct (fids s1)" "ss_reactions s1 = ss_reactions s"
      using roster_op_add by (auto simp: s1_def roster_op_def)
    then show ?thesis
      using 2(2)[OF Some s1_def h k] f k 2(4) by auto
  qed
qed

lemma roster_op_speakers: "roster_op (on_active_speakers rt ps)"
proof -
  have "distinct (fids (on_active_speakers rt ps s)) \<and> ss_reactions (on_active_speakers rt ps s) = ss_reactions s"
    if "distinct (fids s)" for s
  proof -
    obtain s' fs where h: "hear_speakers rt ps (set (fids s)) s = (s', fs)" by (cases "hear_speakers rt ps (set (fids s)) s")
    have "distinct (fids s')" "ss_reactions s' = ss_reactions s"
      using hear_speakers_fids[OF h refl] that by auto
    then show ?thesis
      using h roster_op_speaking[of "set fs"] by (simp add: on_active_speakers_def fids_def roster_op_def)
  qed
  moreover have "ss_reactions (on_active_speakers rt ps s) = ss_reactions s" for s
  proof -
    obtain s' fs where h: "hear_speakers rt ps (set (fids s)) s = (s', fs)" by (cases "hear_speakers rt ps (set (fids s)) s")
    then show ?thesis
      using hear_speakers_fids[OF h refl]
      by (simp add: on_active_speakers_def fids_def set_speaking_participants_def)
  qed
  ultimately show ?thesis by (simp add: roster_op_def)
qed

definition reactions_bounded :: "space_state \<Rightarrow> bool" where
  "reactions_bounded st \<longleftrightarrow>
     (let rs = ss_reactions (st_session st)
      in length rs \<le> MAX_REACTION_BUFFER \<and> sorted_wrt (<) (map rb_id rs) \<and>
         (\<forall>r \<in> set rs. rb_id r \<le> st_reaction_seq st \<and> 0 < length (rb_key r) \<and> length (rb_key r) \<le> 8))"

definition roster_ok :: "space_state \<Rightarrow> bool" where
  "roster_ok st \<longleftrightarrow> distinct (fids (st_session st)) \<and> reactions_bounded st"

lemma on_session_roster: "roster_op f \<Longrightarrow> roster_ok st \<Longrightarrow> roster_ok (on_session f st)"
  by (simp add: roster_op_def roster_ok_def on_session_def reactions_bounded_def)

lemma set_last_n: "set (last_n n xs) \<subseteq> set xs"
  by (simp add: last_n_def set_drop_subset)

lemma length_last_n: "length (last_n n xs) \<le> n"
  by (simp add: last_n_def)

lemma sorted_last_n: "sorted_wrt P xs \<Longrightarrow> sorted_wrt P (last_n n xs)"
  by (simp add: last_n_def sorted_wrt_drop)

lemma map_last_n: "map f (last_n n xs) = last_n n (map f xs)"
  by (simp add: last_n_def drop_map)

lemma push_reaction_roster:
  assumes "roster_ok st" "0 < length key" "length key \<le> 8"
  shows "roster_ok (push_reaction key fid st)"
proof -
  let ?rs = "ss_reactions (st_session st)"
  let ?old = "last_n (MAX_REACTION_BUFFER - 1) ?rs"
  have old: "\<forall>r \<in> set ?old. rb_id r \<le> st_reaction_seq st \<and> 0 < length (rb_key r) \<and> length (rb_key r) \<le> 8"
    using assms(1) set_last_n[of "MAX_REACTION_BUFFER - 1" ?rs]
    by (auto simp: roster_ok_def reactions_bounded_def Let_def)
  have "sorted_wrt (<) (map rb_id ?old)"
    using assms(1) by (simp add: roster_ok_def reactions_bounded_def Let_def map_last_n sorted_last_n)
  moreover have "length ?old \<le> MAX_REACTION_BUFFER - 1" by (rule length_last_n)
  moreover have "distinct (fids (st_session (push_reaction key fid st)))"
    using assms(1) by (simp add: roster_ok_def push_reaction_def fids_def Let_def)
  ultimately show ?thesis
    using old assms(2,3)
    by (auto simp: roster_ok_def reactions_bounded_def push_reaction_def Let_def sorted_wrt_append MAX_REACTION_BUFFER_def
        intro: le_imp_less_Suc)
qed

lemma disconnect_session_roster: "roster_ok (disconnect_session st)"
  by (simp add: roster_ok_def reactions_bounded_def disconnect_session_def fids_def initial_session_def Let_def)

lemma permissions_roster:
  assumes "distinct (fids s)" "on_permissions_changed rt l could can s = (s', fx)"
  shows "distinct (fids s') \<and> ss_reactions s' = ss_reactions s"
proof -
  have u: "fids (update_participant fid f t) = fids t \<and> ss_reactions (update_participant fid f t) = ss_reactions t"
    if "\<And>p. pt_fid (f p) = pt_fid p" for fid f t
    using fids_update[OF that] by (simp add: update_participant_def)
  show ?thesis
    using assms u by (auto simp: on_permissions_changed_def fids_def split: option.splits if_splits)
qed

lemma data_roster:
  assumes "roster_ok st"
  shows "roster_ok (fst (on_data_received rt payload p topic st))"
  using assms
  by (auto simp: on_data_received_def push_reaction_roster intro!: on_session_roster js_intro
      split: option.split)

text \<open>
  The roster stays sound through any sequence of room events, from any peers and with any payloads:
  nobody is listed twice, and of the reactions at most twenty are kept, in order of arrival under
  distinct ids, each with a key of one to eight characters.
\<close>

theorem roster_stays_sound:
  assumes "roster_ok st"
  shows "roster_ok (foldl (\<lambda>u e. fst (on_room_event rt e u)) st events)"
proof -
  have step: "roster_ok (fst (on_room_event rt e u))" if u: "roster_ok u" for e u
  proof (cases e)
    case (Disconnected r)
    then show ?thesis using u on_session_roster[OF roster_op_flags(4)] by (simp add: Let_def disconnect_session_roster)
  next
    case (Permissions_changed l could can)
    then show ?thesis using u permissions_roster[of "st_session u" rt l could can]
      by (auto simp: roster_ok_def reactions_bounded_def split: prod.split)
  next
    case (Data_received payload p topic)
    then show ?thesis using u data_roster by simp
  qed (use u in \<open>simp_all add: on_session_roster roster_op_flags roster_op_connected roster_op_disconnected
    roster_op_muted roster_op_speakers roster_op_metadata\<close>)
  show ?thesis using assms by (induction events arbitrary: st) (simp_all add: step)
qed

text \<open>Concrete peers: JSON metadata and packets that parse to fixed values.\<close>

definition a_peer :: "jstr \<Rightarrow> live_participant" where
  "a_peer i = \<lparr>lp_identity = Some i, lp_metadata = None, lp_name = None\<rparr>"

definition a_runtime :: "data_packet option \<Rightarrow> runtime" where
  "a_runtime d = \<lparr>rt_metadata = (\<lambda>_. None), rt_data = (\<lambda>_. d), rt_protocol = (\<lambda>_. None), rt_my_fid = Some 7\<rparr>"

definition a_packet :: "jstr \<Rightarrow> jstr option \<Rightarrow> bool option \<Rightarrow> data_packet" where
  "a_packet t k r = \<lparr>dp_type = Some t, dp_key = k, dp_recording = r\<rparr>"

text \<open>A session before anything happened.\<close>

definition quiet_space :: space_state where
  "quiet_space =
     \<lparr>st_session = initial_session, st_reaction_seq = 0, st_mixer = initial_mixer True,
      st_reconnect = \<lparr>rc_attempts = 0, rc_is_reconnecting = False, rc_token = [], rc_token_expires_at = 0,
        rc_ws_url = []\<rparr>\<rparr>"

definition some_events :: "room_event list" where
  "some_events = [Participant_connected (a_peer ''fid:2''), Active_speakers_changed [a_peer ''3'', a_peer ''2'']]"

theorem roster_stays_sound_witness:
  "\<exists>st. roster_ok st \<and> fids (st_session (foldl (\<lambda>u e. fst (on_room_event (a_runtime None) e u)) st some_events)) = [2, 3] \<and>
     roster_ok (foldl (\<lambda>u e. fst (on_room_event (a_runtime None) e u)) st some_events)"
proof -
  have ok: "roster_ok quiet_space"
    by (simp add: quiet_space_def roster_ok_def reactions_bounded_def fids_def initial_session_def Let_def)
  have f: "fids (st_session (foldl (\<lambda>u e. fst (on_room_event (a_runtime None) e u)) quiet_space some_events)) = [2, 3]"
    by code_simp
  show ?thesis
    by (intro exI[of _ quiet_space] conjI ok f roster_stays_sound)
qed

text \<open>
  C31. The REC badge cannot be spoofed by a peer: whatever a data packet holds, it changes the recording
  flag only if the roster lists its sender as host or co-host. A recording packet of anyone else leaves
  the whole session as it was and asks the server for the room's state instead (if there is a room); one
  of a sender whom the roster lists as host or co-host sets the flag to what it says and asks nothing.
\<close>

theorem recording_only_by_hosts:
  assumes "on_data_received rt payload (Some p) topic st = (st', fx)"
  shows "(ss_is_recording (st_session st') \<noteq> ss_is_recording (st_session st) \<longrightarrow>
      (\<exists>q \<in> set (ss_participants (st_session st)).
         parse_participant_fid (lp_identity p) = Some (pt_fid q) \<and> pt_role q \<in> {''host'', ''co_host''})) \<and>
    (\<forall>d b. rt_data rt payload = Some d \<and> topic = Some ''space_state'' \<and> dp_type d = Some ''recording_state'' \<and>
       dp_recording d = Some b \<longrightarrow>
       ((\<forall>q \<in> set (ss_participants (st_session st)).
           parse_participant_fid (lp_identity p) = Some (pt_fid q) \<longrightarrow> pt_role q \<notin> {''host'', ''co_host''}) \<longrightarrow>
          st' = st \<and> fx = (if ss_room (st_session st) = None then [] else [Fx_refetch_recording])) \<and>
       ((\<forall>q \<in> set (ss_participants (st_session st)).
           parse_participant_fid (lp_identity p) = Some (pt_fid q) \<longrightarrow> pt_role q \<in> {''host'', ''co_host''}) \<and>
         (\<exists>q \<in> set (ss_participants (st_session st)). parse_participant_fid (lp_identity p) = Some (pt_fid q)) \<longrightarrow>
          ss_is_recording (st_session st') = b \<and> fx = []))"
proof (intro conjI allI impI)
  have found: "\<exists>q \<in> set (ss_participants (st_session st)).
      parse_participant_fid (lp_identity p) = Some (pt_fid q) \<and> pt_role q \<in> {''host'', ''co_host''}"
    if "sender_role (Some p) (st_session st) \<in> {Some ''host'', Some ''co_host''}"
    using that by (auto simp: sender_role_def find_Some_iff split: option.splits)
  have other: "ss_is_recording (st_session (on_session bump_chat_new_reply u)) = ss_is_recording (st_session u)"
    "ss_is_recording (st_session (push_reaction key fid u)) = ss_is_recording (st_session u)" for u key fid
    by (simp_all add: on_session_def bump_chat_new_reply_def push_reaction_def Let_def)
  show "\<exists>q \<in> set (ss_participants (st_session st)).
         parse_participant_fid (lp_identity p) = Some (pt_fid q) \<and> pt_role q \<in> {''host'', ''co_host''}"
    if "ss_is_recording (st_session st') \<noteq> ss_is_recording (st_session st)"
    using that assms found other by (auto simp: on_data_received_def split: option.splits if_splits)
  fix d b
  assume d: "rt_data rt payload = Some d \<and> topic = Some ''space_state'' \<and> dp_type d = Some ''recording_state'' \<and>
       dp_recording d = Some b"
  show "st' = st" "fx = (if ss_room (st_session st) = None then [] else [Fx_refetch_recording])"
    if "\<forall>q \<in> set (ss_participants (st_session st)).
        parse_participant_fid (lp_identity p) = Some (pt_fid q) \<longrightarrow> pt_role q \<notin> {''host'', ''co_host''}"
  proof -
    have "sender_role (Some p) (st_session st) \<notin> {Some ''host'', Some ''co_host''}" using that found by blast
    then show "st' = st" "fx = (if ss_room (st_session st) = None then [] else [Fx_refetch_recording])"
      using assms d by (auto simp: on_data_received_def split: if_splits)
  qed
  show "ss_is_recording (st_session st') = b" "fx = []"
    if q: "(\<forall>q \<in> set (ss_participants (st_session st)).
        parse_participant_fid (lp_identity p) = Some (pt_fid q) \<longrightarrow> pt_role q \<in> {''host'', ''co_host''}) \<and>
      (\<exists>q \<in> set (ss_participants (st_session st)). parse_participant_fid (lp_identity p) = Some (pt_fid q))"
  proof -
    from q obtain fid where fid: "parse_participant_fid (lp_identity p) = Some fid"
      and hosts: "\<forall>q \<in> set (ss_participants (st_session st)). pt_fid q = fid \<longrightarrow> pt_role q \<in> {''host'', ''co_host''}"
      and listed: "\<exists>q \<in> set (ss_participants (st_session st)). pt_fid q = fid" by auto
    obtain q where "find (\<lambda>q. pt_fid q = fid) (ss_participants (st_session st)) = Some q"
      using listed by (cases "find (\<lambda>q. pt_fid q = fid) (ss_participants (st_session st))")
        (auto simp: find_None_iff)
    moreover from this have "q \<in> set (ss_participants (st_session st))" "pt_fid q = fid"
      by (auto simp: find_Some_iff)
    ultimately have "sender_role (Some p) (st_session st) \<in> {Some ''host'', Some ''co_host''}"
      using hosts by (auto simp: sender_role_def fid)
    then show "ss_is_recording (st_session st') = b" "fx = []"
      using assms d by (auto simp: on_data_received_def on_session_def set_recording_def)
  qed
qed

theorem recording_only_by_hosts_witness:
  "\<exists>st. ss_room (st_session st) \<noteq> None \<and> \<not> ss_is_recording (st_session st) \<and>
     (let packet = \<lambda>p. on_data_received (a_runtime (Some (a_packet ''recording_state'' None (Some True)))) ''x''
        (Some (a_peer p)) (Some ''space_state'') st in
      packet ''3'' = (st, [Fx_refetch_recording]) \<and>
      ss_is_recording (st_session (fst (packet ''2''))) \<and> snd (packet ''2'') = [])"
proof -
  let ?rt = "a_runtime (Some (a_packet ''recording_state'' None (Some True)))"
  let ?packet = "\<lambda>p st. on_data_received ?rt ''x'' (Some (a_peer p)) (Some ''space_state'') st"
  define st where "st = quiet_space\<lparr>st_session := initial_session\<lparr>ss_room := Some a_space, ss_participants :=
    [to_session_participant (a_speaker 2 ''co_host''), to_session_participant (a_speaker 3 ''speaker'')]\<rparr>\<rparr>"
  have r: "ss_room (st_session st) \<noteq> None" "\<not> ss_is_recording (st_session st)"
    by (simp_all add: st_def initial_session_def)
  have d: "rt_data ?rt ''x'' = Some (a_packet ''recording_state'' None (Some True))"
    "dp_type (a_packet ''recording_state'' None (Some True)) = Some ''recording_state''"
    "dp_recording (a_packet ''recording_state'' None (Some True)) = Some True"
    by (simp_all add: a_runtime_def a_packet_def)
  have f: "parse_participant_fid (lp_identity (a_peer ''3'')) = Some 3" "parse_participant_fid (lp_identity (a_peer ''2'')) = Some 2"
    by code_simp+
  have ps: "set (ss_participants (st_session st)) = {to_session_participant (a_speaker 2 ''co_host''),
      to_session_participant (a_speaker 3 ''speaker'')}"
    by (simp add: st_def)
  have q: "pt_fid (to_session_participant (a_speaker fid role)) = fid" "pt_role (to_session_participant (a_speaker fid role)) = role"
    for fid role by (simp_all add: to_session_participant_def a_speaker_def)
  obtain st3 fx3 st2 fx2 where e: "?packet ''3'' st = (st3, fx3)" "?packet ''2'' st = (st2, fx2)"
    by (metis surj_pair)
  have "st3 = st" "fx3 = [Fx_refetch_recording]"
    using recording_only_by_hosts[OF e(1)] d f(1) r(1) by (auto simp: ps q)
  moreover have "ss_is_recording (st_session st2)" "fx2 = []"
    using recording_only_by_hosts[OF e(2)] d f(2) by (auto simp: ps q)
  ultimately show ?thesis using e r by (intro exI[of _ st]) simp
qed

lemma hear_speakers_result:
  "hear_speakers rt ps known s = (s', fs) \<Longrightarrow>
   set fs = {f. \<exists>p \<in> set ps. parse_participant_fid (lp_identity p) = Some f}"
  by (induction rt ps known s arbitrary: s' fs rule: hear_speakers.induct)
    (force simp: Let_def split: option.splits prod.splits)+

text \<open>
  Whoever speaks is visible: after a change of the active speakers, everybody of them with a valid
  identity is on the roster, also when their join was missed; nobody is dropped; and the speaking mark
  is on exactly the speakers.
\<close>

theorem speakers_on_roster:
  "set (fids (on_active_speakers rt speakers s)) =
     set (fids s) \<union> {f. \<exists>p \<in> set speakers. parse_participant_fid (lp_identity p) = Some f} \<and>
   (\<forall>q \<in> set (ss_participants (on_active_speakers rt speakers s)).
      pt_is_speaking q \<longleftrightarrow> (\<exists>p \<in> set speakers. parse_participant_fid (lp_identity p) = Some (pt_fid q)))"
proof -
  obtain s' fs where h: "hear_speakers rt speakers (set (fids s)) s = (s', fs)"
    by (cases "hear_speakers rt speakers (set (fids s)) s")
  have e: "on_active_speakers rt speakers s = set_speaking_participants (set fs) s'"
    using h by (simp add: on_active_speakers_def fids_def)
  have "\<forall>q \<in> set (ss_participants (set_speaking_participants (set fs) s')). pt_is_speaking q = (pt_fid q \<in> set fs)"
    by (auto simp: set_speaking_participants_def)
  then show ?thesis
    unfolding e fids_speaking using hear_speakers_fids[OF h refl] hear_speakers_result[OF h] by simp
qed

theorem speakers_on_roster_witness:
  "set (fids (on_active_speakers (a_runtime None) [a_peer ''fid:5''] initial_session)) = {5}"
proof -
  have p: "parse_participant_fid (lp_identity (a_peer ''fid:5'')) = Some 5" by code_simp
  show ?thesis
    using speakers_on_roster[of "a_runtime None" "[a_peer ''fid:5'']" initial_session] p
    by (simp add: fids_def initial_session_def)
qed

end
