(* ===== verification/JS_Value.thy ===== *)
theory JS_Value
  imports Complex_Main Prelude "HOL-Library.AList"
begin

section \<open>Untyped values, numbers, bytes and base64\<close>

text \<open>
  What the authentication code uses of the JavaScript runtime: values of type \<^verbatim>\<open>unknown\<close>
  (what \<^verbatim>\<open>JSON.parse\<close> returns, with \<^verbatim>\<open>bigint\<close> beside it), numbers with their non-finite
  values, \<^verbatim>\<open>toLowerCase\<close>, \<^verbatim>\<open>btoa\<close> / \<^verbatim>\<open>atob\<close>, and \<^verbatim>\<open>TextEncoder\<close> / \<^verbatim>\<open>TextDecoder\<close>.

  A finite double is a rational number, so \<open>Fin\<close> carries a \<open>rat\<close>; rounding is not modelled (the
  code adds and compares integers far below 2 to the 53). A byte sequence (\<^verbatim>\<open>Uint8Array\<close>) and a
  binary string are both \<open>char list\<close>, because a \<open>char\<close> is a byte. An object is the list of its
  own properties in order, with distinct keys; \<^verbatim>\<open>__proto__\<close> as a key is not modelled.
\<close>

subsection \<open>Numbers\<close>

datatype js_num = Fin rat | Pos_inf | Neg_inf | NaN

abbreviation num_int :: "int \<Rightarrow> js_num" where
  "num_int i \<equiv> Fin (of_int i)"

fun num_min :: "js_num \<Rightarrow> js_num \<Rightarrow> js_num" where
  "num_min NaN _ = NaN"
| "num_min _ NaN = NaN"
| "num_min (Fin a) (Fin b) = Fin (min a b)"
| "num_min Neg_inf _ = Neg_inf"
| "num_min _ Neg_inf = Neg_inf"
| "num_min Pos_inf y = y"
| "num_min x Pos_inf = x"

text \<open>\<^verbatim>\<open>BigInt(n)\<close> throws a \<^verbatim>\<open>RangeError\<close> unless the number is an integer.\<close>

fun num_to_bigint :: "js_num \<Rightarrow> int option" where
  "num_to_bigint (Fin r) = (if of_int \<lfloor>r\<rfloor> = r then Some \<lfloor>r\<rfloor> else None)"
| "num_to_bigint _ = None"

definition max_safe_integer :: int where
  "max_safe_integer = 9007199254740991"

fun num_safe_int :: "js_num \<Rightarrow> int option" where
  "num_safe_int (Fin r) =
     (if of_int \<lfloor>r\<rfloor> = r \<and> \<bar>\<lfloor>r\<rfloor>\<bar> \<le> max_safe_integer then Some \<lfloor>r\<rfloor> else None)"
| "num_safe_int _ = None"

text \<open>
  \<^verbatim>\<open>new Date(ms).getTime()\<close>: the argument is truncated towards zero, and a value more than 8.64e15
  away from the epoch is the invalid date, whose time is \<open>NaN\<close>: \<open>None\<close> here.
\<close>

definition max_time :: int where
  "max_time = 8640000000000000"

fun date_of :: "js_num \<Rightarrow> int option" where
  "date_of (Fin r) =
     (if \<bar>r\<bar> \<le> of_int max_time then Some (if r < 0 then \<lceil>r\<rceil> else \<lfloor>r\<rfloor>) else None)"
| "date_of _ = None"

fun num_scale :: "int \<Rightarrow> js_num \<Rightarrow> js_num" where
  "num_scale k (Fin r) = Fin (of_int k * r)"
| "num_scale k x = x"

lemma num_to_bigint_int [simp]: "num_to_bigint (num_int i) = Some i"
  by simp

lemma num_min_int [simp]: "num_min (num_int a) (num_int b) = num_int (min a b)"
  by (simp add: of_int_min)

lemma num_min_SomeD:
  assumes "num_to_bigint (num_min x (num_int b)) = Some d"
  shows "d \<le> b"
proof (cases x)
  case (Fin r)
  with assms have "of_int d = min r (of_int b)" by (auto split: if_splits)
  then have "rat_of_int d \<le> rat_of_int b" by simp
  then show ?thesis by (simp only: of_int_le_iff)
qed (use assms in simp_all)

lemma date_of_int [simp]:
  "date_of (num_int i) = (if \<bar>i\<bar> \<le> max_time then Some i else None)"
proof -
  have "\<bar>rat_of_int i\<bar> \<le> rat_of_int max_time \<longleftrightarrow> \<bar>i\<bar> \<le> max_time"
    by (metis of_int_abs of_int_le_iff)
  then show ?thesis by simp
qed

subsection \<open>Values\<close>

datatype js_value =
  V_undefined
  | V_null
  | V_bool bool
  | V_num js_num
  | V_bigint int
  | V_str jstr
  | V_arr "js_value list"
  | V_obj "(jstr \<times> js_value) list"

type_synonym js_object = "(jstr \<times> js_value) list"

definition js_prop :: "js_object \<Rightarrow> jstr \<Rightarrow> js_value" where
  "js_prop ps k = (case map_of ps k of None \<Rightarrow> V_undefined | Some v \<Rightarrow> v)"

lemma js_prop_update [simp]:
  "js_prop (AList.update k v ps) k' = (if k' = k then v else js_prop ps k')"
  by (simp add: js_prop_def update_conv)

subsection \<open>Strings\<close>

text \<open>\<^verbatim>\<open>toLowerCase\<close> on code units below 256: \<open>A\<close>-\<open>Z\<close> and the accented capitals of Latin-1.\<close>

definition js_lower_char :: "char \<Rightarrow> char" where
  "js_lower_char c =
     (let n = of_char c :: nat
      in if (65 \<le> n \<and> n \<le> 90) \<or> (192 \<le> n \<and> n \<le> 222 \<and> n \<noteq> 215) then char_of (n + 32) else c)"

definition js_lower :: "jstr \<Rightarrow> jstr" where
  "js_lower s = map js_lower_char s"

lemma js_lower_char_idem [simp]: "js_lower_char (js_lower_char c) = js_lower_char c"
proof -
  have "(of_char c :: nat) < 256" by simp
  then show ?thesis by (auto simp: js_lower_char_def Let_def)
qed

lemma js_lower_idem [simp]: "js_lower (js_lower s) = js_lower s"
  by (simp add: js_lower_def)

lemma js_space_lower [simp]: "js_space (js_lower_char c) \<longleftrightarrow> js_space c"
proof -
  have sp: "js_space d \<longleftrightarrow> (of_char d :: nat) \<in> {9, 10, 11, 12, 13, 32, 160}" for d
    by (cases d) (auto simp: js_space_def of_char_def)
  have "(of_char c :: nat) < 256" by simp
  then show ?thesis by (auto simp: sp js_lower_char_def Let_def)
qed

definition js_starts_with :: "jstr \<Rightarrow> jstr \<Rightarrow> bool" where
  "js_starts_with p s \<longleftrightarrow> take (length p) s = p"

text \<open>\<^verbatim>\<open>s.split(c)\<close> for a one-character separator: one piece more than there are separators.\<close>

fun js_split :: "char \<Rightarrow> jstr \<Rightarrow> jstr list" where
  "js_split c [] = [[]]"
| "js_split c (x # xs) =
     (if x = c then [] # js_split c xs
      else case js_split c xs of [] \<Rightarrow> [[x]] | w # ws \<Rightarrow> (x # w) # ws)"

lemma js_split_nonempty [simp]: "js_split c s \<noteq> []"
  by (induction s) (auto split: list.splits)

lemma js_split_no_sep: "c \<notin> set s \<Longrightarrow> js_split c s = [s]"
  by (induction s) auto

lemma js_split_append: "c \<notin> set s \<Longrightarrow> js_split c (s @ c # t) = s # js_split c t"
  by (induction s) auto

text \<open>\<^verbatim>\<open>xs.join(sep)\<close>\<close>

fun js_join :: "jstr \<Rightarrow> jstr list \<Rightarrow> jstr" where
  "js_join sep [] = []"
| "js_join sep [x] = x"
| "js_join sep (x # y # ys) = x @ sep @ js_join sep (y # ys)"

lemma js_join_Cons: "ys \<noteq> [] \<Longrightarrow> js_join sep (x # ys) = x @ sep @ js_join sep ys"
  by (cases ys) auto

lemma js_split_join:
  assumes "\<forall>x \<in> set xs. c \<notin> set x" "xs \<noteq> []" "c \<notin> set ws"
  shows "js_split c (js_join (c # ws) xs) = hd xs # map ((@) ws) (tl xs)"
  using assms
proof (induction xs)
  case (Cons x xs)
  show ?case
  proof (cases xs)
    case Nil
    then show ?thesis using Cons.prems by (simp add: js_split_no_sep)
  next
    case (Cons y ys)
    have "js_split c (ws @ js_join (c # ws) xs) = (ws @ y) # map ((@) ws) ys"
    proof -
      have "js_split c (ws @ t) = (ws @ hd (js_split c t)) # tl (js_split c t)" for t
        using \<open>c \<notin> set ws\<close> by (induction ws) (auto split: list.splits)
      then show ?thesis using Cons.IH Cons.prems Cons by simp
    qed
    then show ?thesis using Cons.prems Cons by (simp add: js_split_append)
  qed
qed simp

end
