(* ===== verification/Base64.thy ===== *)
theory Base64
  imports JS_Value
begin

section \<open>Base64 and UTF-8\<close>

text \<open>
  \<^verbatim>\<open>btoa\<close> and \<^verbatim>\<open>atob\<close> (the forgiving decoder of the Infra standard) over binary strings, and
  \<^verbatim>\<open>TextEncoder\<close> / \<^verbatim>\<open>TextDecoder\<close> for UTF-8, with the round trips the token codecs rest on.
\<close>

subsection \<open>Base64\<close>

definition b64_char :: "nat \<Rightarrow> char" where
  "b64_char n =
     (if n < 26 then char_of (65 + n) else if n < 52 then char_of (71 + n)
      else if n < 62 then char_of (n - 4) else if n = 62 then CHR ''+'' else CHR ''/'')"

definition b64_value :: "char \<Rightarrow> nat option" where
  "b64_value c =
     (let n = of_char c :: nat
      in if 65 \<le> n \<and> n \<le> 90 then Some (n - 65) else if 97 \<le> n \<and> n \<le> 122 then Some (n - 71)
         else if 48 \<le> n \<and> n \<le> 57 then Some (n + 4) else if n = 43 then Some 62
         else if n = 47 then Some 63 else None)"

lemma b64_value_char:
  assumes "n < 64"
  shows "b64_value (b64_char n) = Some n"
proof -
  consider "n < 26" | "26 \<le> n" "n < 52" | "52 \<le> n" "n < 62" | "n = 62" | "n = 63"
    using assms by linarith
  then show ?thesis
    by cases (auto simp: b64_value_def b64_char_def Let_def)
qed

text \<open>What \<^verbatim>\<open>b64_value\<close> rejects cannot be a character of an encoding.\<close>

lemma b64_char_range:
  assumes "n < 64"
  shows "b64_char n \<noteq> CHR ''=''" "b64_char n \<noteq> CHR ''-''" "b64_char n \<noteq> CHR ''_''"
    "b64_char n \<noteq> CHR ''.''" "\<not> js_space (b64_char n)"
proof -
  have "b64_value c = None \<Longrightarrow> b64_char n \<noteq> c" for c
    using b64_value_char[OF assms] by auto
  then show "b64_char n \<noteq> CHR ''=''" "b64_char n \<noteq> CHR ''-''" "b64_char n \<noteq> CHR ''_''"
    "b64_char n \<noteq> CHR ''.''" "\<not> js_space (b64_char n)"
    by (auto simp: b64_value_def js_space_def)
qed

fun b64_sextets :: "char list \<Rightarrow> nat list" where
  "b64_sextets [] = []"
| "b64_sextets [a] = [of_char a div 4, (of_char a mod 4) * 16]"
| "b64_sextets [a, b] =
     [of_char a div 4, (of_char a mod 4) * 16 + of_char b div 16, (of_char b mod 16) * 4]"
| "b64_sextets (a # b # c # r) =
     [of_char a div 4, (of_char a mod 4) * 16 + of_char b div 16,
      (of_char b mod 16) * 4 + of_char c div 64, of_char c mod 64] @ b64_sextets r"

text \<open>\<^verbatim>\<open>btoa(binary)\<close>: the alphabet, padded with \<^verbatim>\<open>=\<close> to a multiple of four.\<close>

definition b64_pad :: "nat \<Rightarrow> jstr" where
  "b64_pad n = replicate ((4 - n mod 4) mod 4) (CHR ''='')"

definition js_btoa :: "char list \<Rightarrow> jstr" where
  "js_btoa bs = (let s = map b64_char (b64_sextets bs) in s @ b64_pad (length s))"

fun b64_bytes :: "nat list \<Rightarrow> char list" where
  "b64_bytes (w # x # y # z # r) =
     [char_of (w * 4 + x div 16), char_of ((x mod 16) * 16 + y div 4), char_of ((y mod 4) * 64 + z)]
     @ b64_bytes r"
| "b64_bytes [w, x, y] = [char_of (w * 4 + x div 16), char_of ((x mod 16) * 16 + y div 4)]"
| "b64_bytes [w, x] = [char_of (w * 4 + x div 16)]"
| "b64_bytes _ = []"

text \<open>
  \<^verbatim>\<open>atob(s)\<close>: white space is dropped, at most two \<^verbatim>\<open>=\<close> are dropped from the end when the length is a
  multiple of four, and what remains must be in the alphabet and must not leave one character
  over; otherwise it throws (\<open>None\<close>).
\<close>

fun all_some :: "'a option list \<Rightarrow> 'a list option" where
  "all_some [] = Some []"
| "all_some (None # _) = None"
| "all_some (Some x # xs) = map_option ((#) x) (all_some xs)"

definition b64_white :: "char \<Rightarrow> bool" where
  "b64_white c \<longleftrightarrow> c \<in> {CHR 0x09, CHR 0x0A, CHR 0x0C, CHR 0x0D, CHR 0x20}"

definition b64_unpad :: "jstr \<Rightarrow> jstr" where
  "b64_unpad s =
     (if length s mod 4 = 0 then
        (if s \<noteq> [] \<and> last s = CHR ''=''
         then (let t = butlast s in if t \<noteq> [] \<and> last t = CHR ''='' then butlast t else t)
         else s)
      else s)"

definition js_atob :: "jstr \<Rightarrow> char list option" where
  "js_atob s =
     (let t = b64_unpad (filter (\<lambda>c. \<not> b64_white c) s)
      in if length t mod 4 = 1 then None else map_option b64_bytes (all_some (map b64_value t)))"

lemma of_char_less_256: "(of_char (c::char) :: nat) < 256"
  by simp

lemma b64_split_bound:
  fixes a b c :: nat
  assumes "a < 256" "b < 256" "c < 256"
  shows "a div 4 < 64" "a mod 4 * 16 + b div 16 < 64" "b mod 16 * 4 + c div 64 < 64" "c mod 64 < 64"
  using assms by auto

lemma b64_sextets_bound: "x \<in> set (b64_sextets bs) \<Longrightarrow> x < 64"
  using b64_split_bound[OF of_char_less_256 of_char_less_256 of_char_less_256]
    b64_split_bound[OF of_char_less_256 of_char_less_256, of 0]
    b64_split_bound[OF of_char_less_256, of 0 0]
  by (induction bs rule: b64_sextets.induct) auto

lemma b64_join:
  fixes a b c d :: nat
  assumes "a < 256" "b < 256" "c < 256"
  shows "a div 4 * 4 + (a mod 4 * 16 + b div 16) div 16 = a"
    "(a mod 4 * 16 + b div 16) mod 16 * 16 + (b mod 16 * 4 + c div 64) div 4 = b"
    "(b mod 16 * 4 + c div 64) mod 4 * 64 + c mod 64 = c"
proof -
  have 1: "b div 16 < 16" "c div 64 < 4" using assms by auto
  have "(a mod 4 * 16 + b div 16) div 16 = a mod 4" "(a mod 4 * 16 + b div 16) mod 16 = b div 16"
    "(b mod 16 * 4 + c div 64) div 4 = b mod 16" "(b mod 16 * 4 + c div 64) mod 4 = c div 64"
    using 1 by auto
  then show "a div 4 * 4 + (a mod 4 * 16 + b div 16) div 16 = a"
    "(a mod 4 * 16 + b div 16) mod 16 * 16 + (b mod 16 * 4 + c div 64) div 4 = b"
    "(b mod 16 * 4 + c div 64) mod 4 * 64 + c mod 64 = c" by simp_all
qed

lemma b64_bytes_sextets: "b64_bytes (b64_sextets bs) = bs"
proof (induction bs rule: b64_sextets.induct)
  case (2 a)
  have "of_char a div 4 * 4 + of_char a mod 4 * 16 div 16 = (of_char a :: nat)" by simp
  then show ?case by (simp only: b64_sextets.simps b64_bytes.simps char_of_char)
next
  case (3 a b)
  have "(of_char a mod 4 * 16 + of_char b div 16) mod 16 * 16 + of_char b mod 16 * 4 div 4
      = (of_char b :: nat)"
    using b64_join(2)[of "of_char a" "of_char b" 0] by simp
  with b64_join(1)[of "of_char a" "of_char b" 0] show ?case
    by (simp only: of_char_less_256 zero_less_numeral simp_thms b64_sextets.simps b64_bytes.simps char_of_char)
next
  case (4 a b c r)
  then show ?case
    using b64_join[of "of_char a" "of_char b" "of_char c"] by simp
qed simp

lemma b64_sextets_length: "length (b64_sextets bs) mod 4 \<noteq> 1"
  by (induction bs rule: b64_sextets.induct) simp_all

lemma all_some_map: "all_some (map Some xs) = Some xs"
  by (induction xs) simp_all

lemma b64_values: "all_some (map b64_value (map b64_char (b64_sextets bs))) = Some (b64_sextets bs)"
proof -
  have "map b64_value (map b64_char (b64_sextets bs)) = map Some (b64_sextets bs)"
    using b64_sextets_bound b64_value_char by (simp add: map_eq_conv)
  then show ?thesis by (simp only: all_some_map)
qed

lemma b64_unpad_pad:
  assumes "\<forall>c \<in> set s. c \<noteq> CHR ''=''" "length s mod 4 \<noteq> 1"
  shows "b64_unpad (s @ b64_pad (length s)) = s"
proof (cases "length s mod 4 = 0")
  case True
  then have "s = [] \<or> last s \<noteq> CHR ''=''" using assms(1) last_in_set by blast
  then show ?thesis using True by (auto simp: b64_unpad_def b64_pad_def)
next
  case False
  then have ne: "s \<noteq> []" by auto
  have "length s mod 4 = 2 \<or> length s mod 4 = 3" using False assms(2) by presburger
  then show ?thesis
  proof
    assume 2: "length s mod 4 = 2"
    then have "b64_pad (length s) = [CHR ''='', CHR ''='']"
      by (simp add: b64_pad_def numeral_2_eq_2)
    moreover have "(length s + 2) mod 4 = 0" using 2 by presburger
    ultimately show ?thesis using ne by (simp add: b64_unpad_def butlast_append Let_def)
  next
    assume 3: "length s mod 4 = 3"
    then have "b64_pad (length s) = [CHR ''='']" by (simp add: b64_pad_def)
    moreover have "Suc (length s) mod 4 = 0" using 3 by presburger
    moreover have "last s \<noteq> CHR ''=''" using ne assms(1) last_in_set by blast
    ultimately show ?thesis using ne by (simp add: b64_unpad_def Let_def)
  qed
qed

lemma b64_no_white: "n < 64 \<Longrightarrow> \<not> b64_white (b64_char n)"
  using b64_char_range(5)[of n] by (auto simp: b64_white_def js_space_def)

lemma b64_pad_white: "c \<in> set (b64_pad n) \<Longrightarrow> \<not> b64_white c"
  by (auto simp: b64_pad_def b64_white_def)

lemma filter_b64:
  "filter (\<lambda>c. \<not> b64_white c) (map b64_char (b64_sextets bs) @ b64_pad n)
     = map b64_char (b64_sextets bs) @ b64_pad n"
  by (rule filter_True) (auto dest: b64_sextets_bound b64_no_white b64_pad_white)

lemma b64_chars_no_pad: "\<forall>c \<in> set (map b64_char (b64_sextets bs)). c \<noteq> CHR ''=''"
  using b64_sextets_bound b64_char_range(1) by auto

lemma atob_padded:
  "js_atob (map b64_char (b64_sextets bs) @ b64_pad (length (b64_sextets bs))) = Some bs"
proof -
  have "b64_unpad (map b64_char (b64_sextets bs) @ b64_pad (length (b64_sextets bs)))
      = map b64_char (b64_sextets bs)"
    using b64_unpad_pad[OF b64_chars_no_pad] b64_sextets_length[of bs] by simp
  then show ?thesis
    using b64_sextets_length[of bs] b64_values[of bs]
    unfolding js_atob_def Let_def filter_b64 by (simp add: b64_bytes_sextets)
qed

lemma atob_btoa: "js_atob (js_btoa bs) = Some bs"
  using atob_padded[of bs] by (simp add: js_btoa_def Let_def)

subsection \<open>UTF-8\<close>

text \<open>
  \<^verbatim>\<open>TextEncoder\<close> on code units below 256 gives one or two bytes each. \<^verbatim>\<open>TextDecoder\<close> accepts any
  bytes, so its result is a list of code points (\<open>nat\<close>): the decoder of the Encoding standard,
  with 0xFFFD for malformed input and a leading byte order mark dropped.
\<close>

definition utf8_char :: "char \<Rightarrow> char list" where
  "utf8_char c =
     (let n = of_char c :: nat
      in if n < 128 then [c] else [char_of (192 + n div 64), char_of (128 + n mod 64)])"

definition utf8_encode :: "jstr \<Rightarrow> char list" where
  "utf8_encode s = concat (map utf8_char s)"

text \<open>The decoder's state: bytes still needed, the code point so far, the bounds of the next byte.\<close>

record utf8_state =
  u_needed :: nat
  u_point :: nat
  u_lower :: nat
  u_upper :: nat

definition utf8_initial :: utf8_state where
  "utf8_initial = \<lparr>u_needed = 0, u_point = 0, u_lower = 128, u_upper = 191\<rparr>"

definition utf8_lead :: "nat \<Rightarrow> nat list \<times> utf8_state" where
  "utf8_lead b =
     (if b < 128 then ([b], utf8_initial)
      else if 194 \<le> b \<and> b \<le> 223 then
        ([], utf8_initial\<lparr>u_needed := 1, u_point := b mod 32\<rparr>)
      else if 224 \<le> b \<and> b \<le> 239 then
        ([], utf8_initial\<lparr>u_needed := 2, u_point := b mod 16,
               u_lower := (if b = 224 then 160 else 128), u_upper := (if b = 237 then 159 else 191)\<rparr>)
      else if 240 \<le> b \<and> b \<le> 244 then
        ([], utf8_initial\<lparr>u_needed := 3, u_point := b mod 8,
               u_lower := (if b = 240 then 144 else 128), u_upper := (if b = 244 then 143 else 191)\<rparr>)
      else ([65533], utf8_initial))"

definition utf8_byte :: "utf8_state \<Rightarrow> nat \<Rightarrow> nat list \<times> utf8_state" where
  "utf8_byte st b =
     (if u_needed st = 0 then utf8_lead b
      else if b < u_lower st \<or> u_upper st < b then
        (case utf8_lead b of (ps, st') \<Rightarrow> (65533 # ps, st'))
      else
        (let p = u_point st * 64 + b mod 64
         in if u_needed st = 1 then ([p], utf8_initial)
            else ([], utf8_initial\<lparr>u_needed := u_needed st - 1, u_point := p\<rparr>)))"

fun utf8_run :: "utf8_state \<Rightarrow> char list \<Rightarrow> nat list" where
  "utf8_run st [] = (if u_needed st = 0 then [] else [65533])"
| "utf8_run st (b # bs) = (case utf8_byte st (of_char b) of (ps, st') \<Rightarrow> ps @ utf8_run st' bs)"

definition utf8_decode :: "char list \<Rightarrow> nat list" where
  "utf8_decode bs =
     (if take 3 bs = [CHR 0xEF, CHR 0xBB, CHR 0xBF] then utf8_run utf8_initial (drop 3 bs)
      else utf8_run utf8_initial bs)"

lemma utf8_run_char: "utf8_run utf8_initial (utf8_char c @ bs) = of_char c # utf8_run utf8_initial bs"
proof (cases "(of_char c :: nat) < 128")
  case True
  then show ?thesis by (simp add: utf8_char_def utf8_byte_def utf8_lead_def utf8_initial_def)
next
  case False
  define n where "n = (of_char c :: nat)"
  have n: "128 \<le> n" "n < 256" using False by (simp_all add: n_def)
  have lead: "utf8_byte utf8_initial (192 + n div 64)
      = ([], utf8_initial\<lparr>u_needed := 1, u_point := n div 64\<rparr>)"
  proof -
    have "n div 64 = 2 \<or> n div 64 = 3" using n by auto
    then show ?thesis
      by (elim disjE) (simp_all add: utf8_byte_def utf8_lead_def utf8_initial_def)
  qed
  have tail: "utf8_byte (utf8_initial\<lparr>u_needed := 1, u_point := n div 64\<rparr>) (128 + n mod 64)
      = ([n], utf8_initial)"
  proof -
    have "n mod 64 < 64" by simp
    then have "128 + n mod 64 \<le> 191" by linarith
    moreover have "(128 + n mod 64) mod 64 = n mod 64"
    proof -
      have "128 + n mod 64 = n mod 64 + 2 * 64" by simp
      then show ?thesis by (simp only: mod_mult_self1 mod_mod_trivial)
    qed
    moreover have "n div 64 * 64 + n mod 64 = n" by (rule div_mult_mod_eq)
    ultimately show ?thesis unfolding utf8_byte_def utf8_initial_def Let_def
      by (simp del: mod_add_self1 mod_mod_trivial)
  qed
  have char: "utf8_char c = [char_of (192 + n div 64), char_of (128 + n mod 64)]"
    using False by (simp add: utf8_char_def Let_def n_def)
  have bytes: "of_char (char_of (192 + n div 64) :: char) = 192 + n div 64"
    "of_char (char_of (128 + n mod 64) :: char) = 128 + n mod 64"
    using n by simp_all
  show ?thesis by (simp only: char bytes utf8_run.simps append.simps lead tail prod.case n_def[symmetric])
qed

lemma utf8_run_encode: "utf8_run utf8_initial (utf8_encode s) = map of_char s"
proof (induction s)
  case Nil
  then show ?case by (simp add: utf8_encode_def utf8_initial_def)
next
  case (Cons c s)
  then show ?case by (simp add: utf8_encode_def utf8_run_char)
qed

lemma utf8_encode_no_bom: "take 3 (utf8_encode s) \<noteq> [CHR 0xEF, CHR 0xBB, CHR 0xBF]"
proof (cases s)
  case (Cons c r)
  define n where "n = (of_char c :: nat)"
  have small: "(192 + n div 64) < 239" using of_char_less_256[of c] unfolding n_def by linarith
  have "hd (utf8_char c) \<noteq> CHR 0xEF"
  proof (cases "n < 128")
    case True
    then show ?thesis by (auto simp: utf8_char_def n_def)
  next
    case False
    have "of_char (char_of (192 + n div 64) :: char) \<noteq> (of_char (CHR 0xEF) :: nat)"
      using small by simp
    then have "char_of (192 + n div 64) \<noteq> CHR 0xEF" by metis
    then show ?thesis using False by (simp add: utf8_char_def Let_def n_def)
  qed
  then show ?thesis using Cons by (auto simp: utf8_encode_def utf8_char_def Let_def split: if_splits)
qed (simp add: utf8_encode_def)

lemma utf8_decode_encode: "utf8_decode (utf8_encode s) = map of_char s"
  by (simp add: utf8_decode_def utf8_encode_no_bom utf8_run_encode)

end
