(* ===== verification/Auth_Tokens.thy ===== *)
theory Auth_Tokens
  imports Base64
begin

section \<open>Protocol Auth tokens and the messaging token request\<close>

text \<open>
  \<^verbatim>\<open>lib/auth/protocolToken.ts\<close> (the \<^verbatim>\<open>hqa1\<close> token: expiry, SIWE message, codec) and
  \<^verbatim>\<open>lib/auth/messagingToken.ts\<close> (the Direct Cast \<^verbatim>\<open>generateToken\<close> request, its canonical JSON and the
  checks made before custody signs it).

  The library viem is not part of the repository. What the code calls of it is a record of
  functions, \<open>viem\<close>: \<^verbatim>\<open>createSiweMessage\<close> and \<^verbatim>\<open>hexToBytes\<close> (both throw on bad input, \<open>None\<close>) and
  \<^verbatim>\<open>bytesToHex\<close>. \<^verbatim>\<open>PROTOCOL_AUTH_DOMAIN\<close> and \<^verbatim>\<open>PROTOCOL_AUTH_URI\<close>, read from the build
  environment, are fields of the same record. A \<^verbatim>\<open>Date\<close> is its time value, \<open>None\<close> when invalid.
\<close>

subsection \<open>Errors\<close>

datatype auth_error =
  Auth_request_error int "jstr option"
  | Link_required_error
  | Custody_mismatch_error
  | Invalid_recovery_phrase_error
  | Signer_link_failed_error "jstr option"
  | Unexpected_signing_request_error jstr
  | User_not_found_error jstr
  | Invalid_messaging_token_request_error jstr
  | Range_error jstr
  | Abort_error
  | Other_error jstr

definition assert_that :: "bool \<Rightarrow> auth_error \<Rightarrow> auth_error + unit" where
  "assert_that b e = (if b then Inr () else Inl e)"

fun err_bind :: "auth_error + 'a \<Rightarrow> ('a \<Rightarrow> auth_error + 'b) \<Rightarrow> auth_error + 'b" where
  "err_bind (Inl e) f = Inl e"
| "err_bind (Inr x) f = f x"

lemma err_bind_Inr: "err_bind m f = Inr y \<longleftrightarrow> (\<exists>x. m = Inr x \<and> f x = Inr y)"
  by (cases m) auto

lemma assert_that_Inr [simp]: "assert_that b e = Inr u \<longleftrightarrow> b"
  by (simp add: assert_that_def)

lemma assert_that_Inl [simp]: "assert_that b e = Inl x \<longleftrightarrow> \<not> b \<and> x = e"
  by (auto simp: assert_that_def)

subsection \<open>The token\<close>

record siwe_message =
  sw_domain :: jstr
  sw_address :: jstr
  sw_statement :: jstr
  sw_uri :: jstr
  sw_version :: jstr
  sw_chain_id :: int
  sw_nonce :: jstr
  sw_issued_at :: "int option"
  sw_expiration_time :: "int option"
  sw_resources :: "jstr list"

record viem =
  vm_create_siwe :: "siwe_message \<Rightarrow> jstr option"
  vm_hex_to_bytes :: "jstr \<Rightarrow> char list option"
  vm_bytes_to_hex :: "char list \<Rightarrow> jstr"
  PROTOCOL_AUTH_DOMAIN :: jstr
  PROTOCOL_AUTH_URI :: jstr

definition PROTOCOL_TOKEN_PREFIX :: jstr where
  "PROTOCOL_TOKEN_PREFIX = ''hqa1.''"

definition FID_RESOURCE_PREFIX :: jstr where
  "FID_RESOURCE_PREFIX = ''farcaster://fid/''"

definition PROTOCOL_AUTH_CHAIN_ID :: int where
  "PROTOCOL_AUTH_CHAIN_ID = 10"

definition MAX_PROTOCOL_TOKEN_TTL_SECONDS :: int where
  "MAX_PROTOCOL_TOKEN_TTL_SECONDS = 60 * 60"

definition DEFAULT_PROTOCOL_TOKEN_TTL_SECONDS :: int where
  "DEFAULT_PROTOCOL_TOKEN_TTL_SECONDS = 5 * 60"

definition protocol_statement :: "int \<Rightarrow> jstr" where
  "protocol_statement fid = ''Authenticate as Farcaster FID '' @ js_of_int fid @ ''.''"

text \<open>
  \<^verbatim>\<open>resolveTokenExpiry\<close>: the lifetime in seconds and \<^verbatim>\<open>notAfter\<close> are optional; \<^verbatim>\<open>notAfter\<close> may be an
  invalid date, which makes the result one.
\<close>

definition resolve_token_expiry :: "int \<Rightarrow> int option \<Rightarrow> int option option \<Rightarrow> int option" where
  "resolve_token_expiry issued_at ttl_seconds not_after =
     (let requested = (case ttl_seconds of None \<Rightarrow> DEFAULT_PROTOCOL_TOKEN_TTL_SECONDS | Some t \<Rightarrow> t);
          ttl = min (max requested 1) MAX_PROTOCOL_TOKEN_TTL_SECONDS;
          from_ttl = issued_at + ttl * 1000;
          bound = (case not_after of None \<Rightarrow> Pos_inf
                   | Some None \<Rightarrow> NaN
                   | Some (Some t) \<Rightarrow> num_int t)
      in date_of (num_min (num_int from_ttl) bound))"

definition not_after_issue :: "int option \<Rightarrow> int \<Rightarrow> bool" where
  "not_after_issue expiration issued_at = (case expiration of None \<Rightarrow> False | Some e \<Rightarrow> e \<le> issued_at)"

definition create_protocol_message ::
    "viem \<Rightarrow> jstr \<Rightarrow> js_num \<Rightarrow> jstr \<Rightarrow> jstr \<Rightarrow> jstr \<Rightarrow> int \<Rightarrow> int option \<Rightarrow> auth_error + jstr" where
  "create_protocol_message vm address fid nonce domain uri issued_at expiration_time =
     (case num_safe_int fid of
        None \<Rightarrow> Inl (Range_error ''fid must be a positive integer'')
      | Some n \<Rightarrow>
          if n \<le> 0 then Inl (Range_error ''fid must be a positive integer'')
          else if not_after_issue expiration_time issued_at
          then Inl (Range_error ''token expiry must be after issuedAt'')
          else
            (case vm_create_siwe vm
               \<lparr>sw_domain = domain, sw_address = address, sw_statement = protocol_statement n,
                sw_uri = uri, sw_version = ''1'', sw_chain_id = PROTOCOL_AUTH_CHAIN_ID,
                sw_nonce = nonce, sw_issued_at = Some issued_at, sw_expiration_time = expiration_time,
                sw_resources = [FID_RESOURCE_PREFIX @ js_of_int n]\<rparr> of
               None \<Rightarrow> Inl (Other_error ''createSiweMessage'')
             | Some m \<Rightarrow> Inr m))"

definition base64_url_char :: "char \<Rightarrow> char" where
  "base64_url_char c = (if c = CHR ''+'' then CHR ''-'' else if c = CHR ''/'' then CHR ''_'' else c)"

definition base64_url_encode :: "char list \<Rightarrow> jstr" where
  "base64_url_encode bytes =
     rev (dropWhile (\<lambda>c. c = CHR ''='') (rev (map base64_url_char (js_btoa bytes))))"

definition base64_plain_char :: "char \<Rightarrow> char" where
  "base64_plain_char c = (if c = CHR ''-'' then CHR ''+'' else if c = CHR ''_'' then CHR ''/'' else c)"

definition base64_url_decode :: "jstr \<Rightarrow> auth_error + char list" where
  "base64_url_decode value =
     (let base64 = map base64_plain_char value;
          padded = base64 @ take ((4 - length base64 mod 4) mod 4) ''===''
      in case js_atob padded of
           None \<Rightarrow> Inl (Other_error ''InvalidCharacterError'')
         | Some binary \<Rightarrow> Inr binary)"

definition encode_protocol_token :: "viem \<Rightarrow> jstr \<Rightarrow> jstr \<Rightarrow> auth_error + jstr" where
  "encode_protocol_token vm message signature =
     (let encoded_message = base64_url_encode (utf8_encode message)
      in case vm_hex_to_bytes vm signature of
           None \<Rightarrow> Inl (Other_error ''hexToBytes'')
         | Some bytes \<Rightarrow>
             Inr (PROTOCOL_TOKEN_PREFIX @ encoded_message @ ''.'' @ base64_url_encode bytes))"

definition decode_protocol_token :: "viem \<Rightarrow> jstr \<Rightarrow> auth_error + nat list \<times> jstr" where
  "decode_protocol_token vm token =
     (if \<not> js_starts_with PROTOCOL_TOKEN_PREFIX token
      then Inl (Other_error ''not a protocol auth token'')
      else
        (case js_split (CHR ''.'') (drop (length PROTOCOL_TOKEN_PREFIX) token) of
           [message, signature] \<Rightarrow>
             if message = [] \<or> signature = [] then Inl (Other_error ''malformed protocol auth token'')
             else
               err_bind (base64_url_decode message) (\<lambda>m.
               err_bind (base64_url_decode signature) (\<lambda>s.
                 Inr (utf8_decode m, vm_bytes_to_hex vm s)))
         | _ \<Rightarrow> Inl (Other_error ''malformed protocol auth token'')))"

text \<open>An account of viem: its address and its two signing functions (typed data may be refused).\<close>

record 'td account =
  acc_address :: jstr
  acc_sign_message :: "jstr \<Rightarrow> jstr"
  acc_sign_typed_data :: "'td \<Rightarrow> jstr option"

text \<open>
  \<^verbatim>\<open>signProtocolToken\<close> with the defaults for \<^verbatim>\<open>domain\<close> and \<^verbatim>\<open>uri\<close> (no caller passes its own). The
  message that is signed is returned beside the result, \<open>None\<close> when nothing was signed.
\<close>

definition sign_protocol_token ::
    "viem \<Rightarrow> 'td account \<Rightarrow> js_num \<Rightarrow> jstr \<Rightarrow> int \<Rightarrow> int option \<Rightarrow> int option option
       \<Rightarrow> (auth_error + jstr) \<times> jstr option" where
  "sign_protocol_token vm signer fid nonce issued_at ttl_seconds not_after =
     (case create_protocol_message vm (acc_address signer) fid nonce (PROTOCOL_AUTH_DOMAIN vm)
             (PROTOCOL_AUTH_URI vm) issued_at (resolve_token_expiry issued_at ttl_seconds not_after) of
        Inl e \<Rightarrow> (Inl e, None)
      | Inr message \<Rightarrow>
          (encode_protocol_token vm message (acc_sign_message signer message), Some message))"

subsection \<open>Round trip of the codec\<close>

lemma base64_url_char_facts:
  assumes "n < 64"
  shows "base64_plain_char (base64_url_char (b64_char n)) = b64_char n"
    "base64_url_char (b64_char n) \<noteq> CHR ''=''" "base64_url_char (b64_char n) \<noteq> CHR ''.''"
  using b64_char_range[OF assms] by (auto simp: base64_plain_char_def base64_url_char_def)

lemma dropWhile_pad: "dropWhile (\<lambda>c. c = x) (replicate k x @ ys) = dropWhile (\<lambda>c. c = x) ys"
  by (induction k) auto

lemma base64_url_encode_eq:
  "base64_url_encode bs = map base64_url_char (map b64_char (b64_sextets bs))"
proof -
  let ?u = "map base64_url_char (map b64_char (b64_sextets bs))"
  have "\<forall>c \<in> set ?u. c \<noteq> CHR ''=''"
    using b64_sextets_bound base64_url_char_facts(2) by auto
  then have "rev ?u = [] \<or> hd (rev ?u) \<noteq> CHR ''=''"
    using hd_in_set set_rev by metis
  then have "dropWhile (\<lambda>c. c = CHR ''='') (rev ?u) = rev ?u" by (rule dropWhile_fixed)
  then show ?thesis
    by (simp add: base64_url_encode_def js_btoa_def Let_def b64_pad_def base64_url_char_def
        dropWhile_pad)
qed

lemma take_pad:
  assumes "k \<le> 3"
  shows "take k ''==='' = replicate k (CHR ''='')"
proof -
  consider "k = 0" | "k = 1" | "k = 2" | "k = 3" using assms by linarith
  then show ?thesis by cases (simp_all add: numeral_eq_Suc)
qed

lemma base64_url_round_trip: "base64_url_decode (base64_url_encode bs) = Inr bs"
proof -
  have "map base64_plain_char (base64_url_encode bs) = map b64_char (b64_sextets bs)"
    using b64_sextets_bound base64_url_char_facts(1) by (auto simp: base64_url_encode_eq)
  moreover have "(4 - k mod 4) mod 4 \<le> (3::nat)" for k
    using mod_less_divisor[of 4 "4 - k mod 4"] by linarith
  ultimately show ?thesis
    using atob_padded[of bs] by (simp add: base64_url_decode_def Let_def take_pad b64_pad_def)
qed

lemma base64_url_encode_no_dot: "CHR ''.'' \<notin> set (base64_url_encode bs)"
  using b64_sextets_bound base64_url_char_facts(3) by (force simp: base64_url_encode_eq)

lemma base64_url_encode_empty: "base64_url_encode bs = [] \<longleftrightarrow> bs = []"
  using base64_url_round_trip[of bs]
  by (metis base64_url_encode_eq b64_sextets.simps(1) list.simps(8) base64_url_round_trip sum.inject(2))

lemma utf8_encode_empty: "utf8_encode s = [] \<longleftrightarrow> s = []"
  by (cases s) (auto simp: utf8_encode_def utf8_char_def Let_def)

text \<open>
  C17. A Protocol Auth token carries its message and signature unchanged: for a non-empty message
  and a signature that viem reads as a non-empty run of bytes and prints back, decoding the encoded
  token gives the message's code points and the signature again. The codec goes through UTF-8,
  base64, the URL-safe alphabet, the stripped padding and the split at the dots.
\<close>

theorem protocol_token_round_trip:
  assumes "vm_hex_to_bytes vm signature = Some bytes"
    and "vm_bytes_to_hex vm bytes = signature"
    and "message \<noteq> []" "bytes \<noteq> []"
  shows "\<exists>token. encode_protocol_token vm message signature = Inr token
    \<and> decode_protocol_token vm token = Inr (map of_char message, signature)"
proof -
  define a where "a = base64_url_encode (utf8_encode message)"
  define b where "b = base64_url_encode bytes"
  have enc: "encode_protocol_token vm message signature
      = Inr (PROTOCOL_TOKEN_PREFIX @ a @ ''.'' @ b)"
    using assms(1) by (simp add: encode_protocol_token_def a_def b_def Let_def)
  have "js_split (CHR ''.'') (a @ ''.'' @ b) = [a, b]"
    using base64_url_encode_no_dot by (simp add: a_def b_def js_split_append js_split_no_sep)
  moreover have "a \<noteq> []" "b \<noteq> []"
    using assms(3,4) by (simp_all add: a_def b_def base64_url_encode_empty utf8_encode_empty)
  moreover have "base64_url_decode a = Inr (utf8_encode message)" "base64_url_decode b = Inr bytes"
    by (simp_all add: a_def b_def base64_url_round_trip)
  ultimately have "decode_protocol_token vm (PROTOCOL_TOKEN_PREFIX @ a @ ''.'' @ b)
      = Inr (map of_char message, signature)"
    using assms(2) by (simp add: decode_protocol_token_def js_starts_with_def utf8_decode_encode)
  with enc show ?thesis by blast
qed

text \<open>A viem whose hex form of a byte string is the string itself, after \<^verbatim>\<open>0x\<close>.\<close>

definition plain_viem :: viem where
  "plain_viem = \<lparr>vm_create_siwe = (\<lambda>m. Some (sw_statement m)),
     vm_hex_to_bytes = (\<lambda>s. if js_starts_with ''0x'' s then Some (drop 2 s) else None),
     vm_bytes_to_hex = (\<lambda>bs. ''0x'' @ bs),
     PROTOCOL_AUTH_DOMAIN = ''juke.audio'', PROTOCOL_AUTH_URI = ''https://juke.audio''\<rparr>"

theorem protocol_token_round_trip_witness:
  "\<exists>token. encode_protocol_token plain_viem ''hi'' ''0xS'' = Inr token
    \<and> decode_protocol_token plain_viem token = Inr (map of_char ''hi'', ''0xS'')"
  by (rule protocol_token_round_trip[where bytes = "''S''"])
    (simp_all add: plain_viem_def js_starts_with_def)

subsection \<open>Expiry\<close>

definition clamped_ttl :: "int option \<Rightarrow> int" where
  "clamped_ttl ttl_seconds =
     min (max (case ttl_seconds of None \<Rightarrow> 300 | Some t \<Rightarrow> t) 1) 3600"

lemma clamped_ttl_bounds: "1 \<le> clamped_ttl t" "clamped_ttl t \<le> 3600"
  by (auto simp: clamped_ttl_def)

definition time_clip :: "int \<Rightarrow> int option" where
  "time_clip t = (if \<bar>t\<bar> \<le> max_time then Some t else None)"

lemma date_of_num_min [simp]:
  "date_of (num_min (num_int a) Pos_inf) = time_clip a"
  "date_of (num_min (num_int a) NaN) = None"
  "date_of (num_min (num_int a) (num_int b)) = time_clip (min a b)"
proof -
  show "date_of (num_min (num_int a) Pos_inf) = time_clip a"
    by (simp only: num_min.simps date_of_int time_clip_def)
  show "date_of (num_min (num_int a) NaN) = None" by simp
  show "date_of (num_min (num_int a) (num_int b)) = time_clip (min a b)"
    by (simp only: num_min_int date_of_int time_clip_def)
qed

lemma resolve_token_expiry_eq:
  "resolve_token_expiry issued_at ttl_seconds not_after =
     (case not_after of
        None \<Rightarrow> time_clip (issued_at + clamped_ttl ttl_seconds * 1000)
      | Some None \<Rightarrow> None
      | Some (Some t) \<Rightarrow> time_clip (min (issued_at + clamped_ttl ttl_seconds * 1000) t))"
proof -
  define f where "f = issued_at + clamped_ttl ttl_seconds * 1000"
  have "resolve_token_expiry issued_at ttl_seconds not_after =
      date_of (num_min (num_int f)
        (case not_after of None \<Rightarrow> Pos_inf | Some None \<Rightarrow> NaN | Some (Some t) \<Rightarrow> num_int t))"
    by (simp only: f_def resolve_token_expiry_def Let_def clamped_ttl_def
        MAX_PROTOCOL_TOKEN_TTL_SECONDS_def DEFAULT_PROTOCOL_TOKEN_TTL_SECONDS_def)
      (simp only: mult_num_simps arith_simps)
  then show ?thesis
    unfolding f_def[symmetric] by (cases not_after) (auto simp: time_clip_def split: option.split simp del: num_min.simps date_of.simps)
qed

lemma token_expiry_bounds:
  assumes "resolve_token_expiry issued_at ttl_seconds not_after = Some e"
  shows "e \<le> issued_at + 3600000" "not_after = Some (Some t) \<Longrightarrow> e \<le> t"
    "not_after = None \<Longrightarrow> issued_at + 1000 \<le> e"
  using assms clamped_ttl_bounds[of ttl_seconds]
  by (auto simp: resolve_token_expiry_eq time_clip_def split: option.splits if_splits)

text \<open>
  The specification of a signed token: the text is the SIWE message of viem over the client's own
  domain and URI (never the server's), version 1, chain 10, the statement and the resource of the
  FID, which is a positive safe integer, for the signing account's own address; its expiry, unless
  the date is invalid and viem still accepts it, is after the issue time, at most one hour later and
  not past \<^verbatim>\<open>notAfter\<close>.
\<close>

definition pinned_token_text ::
    "viem \<Rightarrow> jstr \<Rightarrow> js_num \<Rightarrow> jstr \<Rightarrow> int \<Rightarrow> int option option \<Rightarrow> jstr \<Rightarrow> bool" where
  "pinned_token_text vm address fid nonce issued_at not_after message \<longleftrightarrow>
     (\<exists>n siwe. num_safe_int fid = Some n \<and> 0 < n \<and> vm_create_siwe vm siwe = Some message
        \<and> sw_domain siwe = PROTOCOL_AUTH_DOMAIN vm \<and> sw_uri siwe = PROTOCOL_AUTH_URI vm
        \<and> sw_version siwe = ''1'' \<and> sw_chain_id siwe = 10 \<and> sw_nonce siwe = nonce
        \<and> sw_address siwe = address
        \<and> sw_statement siwe = ''Authenticate as Farcaster FID '' @ js_of_int n @ ''.''
        \<and> sw_resources siwe = [''farcaster://fid/'' @ js_of_int n]
        \<and> sw_issued_at siwe = Some issued_at
        \<and> (\<forall>e. sw_expiration_time siwe = Some e \<longrightarrow>
             issued_at < e \<and> e \<le> issued_at + 3600000
             \<and> (\<forall>t. not_after = Some (Some t) \<longrightarrow> e \<le> t)))"

lemma sign_protocol_token_pinned:
  assumes "sign_protocol_token vm signer fid nonce issued_at ttl_seconds not_after = (r, Some message)"
  shows "pinned_token_text vm (acc_address signer) fid nonce issued_at not_after message"
proof -
  let ?e = "resolve_token_expiry issued_at ttl_seconds not_after"
  have "create_protocol_message vm (acc_address signer) fid nonce (PROTOCOL_AUTH_DOMAIN vm)
      (PROTOCOL_AUTH_URI vm) issued_at ?e = Inr message"
    using assms by (auto simp: sign_protocol_token_def split: sum.splits)
  then obtain n siwe where n: "num_safe_int fid = Some n" "0 < n" "\<not> not_after_issue ?e issued_at"
    and siwe: "vm_create_siwe vm siwe = Some message"
    and fields: "siwe =
        \<lparr>sw_domain = PROTOCOL_AUTH_DOMAIN vm, sw_address = acc_address signer,
         sw_statement = protocol_statement n, sw_uri = PROTOCOL_AUTH_URI vm, sw_version = ''1'',
         sw_chain_id = PROTOCOL_AUTH_CHAIN_ID, sw_nonce = nonce, sw_issued_at = Some issued_at,
         sw_expiration_time = ?e, sw_resources = [FID_RESOURCE_PREFIX @ js_of_int n]\<rparr>"
    by (auto simp: create_protocol_message_def split: option.splits if_splits)
  have bounds: "\<forall>e. sw_expiration_time siwe = Some e \<longrightarrow> issued_at < e \<and> e \<le> issued_at + 3600000
      \<and> (\<forall>t. not_after = Some (Some t) \<longrightarrow> e \<le> t)"
    using token_expiry_bounds n(3) by (auto simp: not_after_issue_def fields)
  show ?thesis
    unfolding pinned_token_text_def
    by (intro exI[of _ n] exI[of _ siwe] conjI; (rule bounds n siwe)?)
      (simp_all add: fields protocol_statement_def PROTOCOL_AUTH_CHAIN_ID_def FID_RESOURCE_PREFIX_def)
qed

definition plain_account :: "jstr \<Rightarrow> 'td account" where
  "plain_account address =
     \<lparr>acc_address = address, acc_sign_message = (\<lambda>m. ''0x'' @ take 65 m),
      acc_sign_typed_data = (\<lambda>_. Some ''0x01'')\<rparr>"

end
