(* ===== verification/Messaging_Token.thy ===== *)
theory Messaging_Token
  imports Auth_Tokens
begin

section \<open>The messaging token request\<close>

text \<open>
  \<^verbatim>\<open>lib/auth/messagingToken.ts\<close>: the Direct Cast \<^verbatim>\<open>generateToken\<close> request, its canonical JSON
  (sorted keys, no white space), the checks made before custody signs it and the encoding of the
  signature. The only thing taken as an argument is how the runtime prints a number that is not an
  integer (\<open>show_frac\<close>), which no request that passes the checks contains.
\<close>

subsection \<open>JSON.stringify\<close>

definition hex_digit :: "nat \<Rightarrow> char" where
  "hex_digit n = (if n < 10 then char_of (48 + n) else char_of (87 + n))"

definition json_escape :: "char \<Rightarrow> jstr" where
  "json_escape c =
     (let n = of_char c :: nat
      in if n = 34 then [CHR 0x5C, CHR 0x22] else if n = 92 then [CHR 0x5C, CHR 0x5C]
         else if n = 8 then [CHR 0x5C, CHR ''b''] else if n = 9 then [CHR 0x5C, CHR ''t'']
         else if n = 10 then [CHR 0x5C, CHR ''n''] else if n = 12 then [CHR 0x5C, CHR ''f'']
         else if n = 13 then [CHR 0x5C, CHR ''r'']
         else if n < 32 then
           [CHR 0x5C, CHR ''u'', CHR ''0'', CHR ''0'', hex_digit (n div 16), hex_digit (n mod 16)]
         else [c])"

definition json_quote :: "jstr \<Rightarrow> jstr" where
  "json_quote s = [CHR 0x22] @ concat (map json_escape s) @ [CHR 0x22]"

fun json_number :: "(rat \<Rightarrow> jstr) \<Rightarrow> js_num \<Rightarrow> jstr" where
  "json_number show_frac (Fin r) =
     (if of_int \<lfloor>r\<rfloor> = r \<and> \<bar>\<lfloor>r\<rfloor>\<bar> < 10 ^ 21 then js_of_int \<lfloor>r\<rfloor> else show_frac r)"
| "json_number show_frac _ = ''null''"

text \<open>
  A member whose value is \<^verbatim>\<open>undefined\<close> is left out of an object and is \<^verbatim>\<open>null\<close> in an array; a
  \<^verbatim>\<open>bigint\<close> throws, which is \<open>None\<close>.
\<close>

fun json_stringify :: "(rat \<Rightarrow> jstr) \<Rightarrow> js_value \<Rightarrow> jstr option" where
  "json_stringify f V_undefined = Some ''null''"
| "json_stringify f V_null = Some ''null''"
| "json_stringify f (V_bool b) = Some (if b then ''true'' else ''false'')"
| "json_stringify f (V_num n) = Some (json_number f n)"
| "json_stringify f (V_bigint i) = None"
| "json_stringify f (V_str s) = Some (json_quote s)"
| "json_stringify f (V_arr vs) =
     map_option (\<lambda>ss. ''['' @ js_join '','' ss @ '']'') (all_some (map (json_stringify f) vs))"
| "json_stringify f (V_obj ps) =
     map_option (\<lambda>ss. ''{'' @ js_join '','' ss @ ''}'')
       (all_some (map (\<lambda>p. map_option (\<lambda>s. json_quote (fst p) @ '':'' @ s) (json_stringify f (snd p)))
          (filter (\<lambda>p. snd p \<noteq> V_undefined) ps)))"

subsection \<open>Canonical form\<close>

text \<open>
  \<^verbatim>\<open>Object.fromEntries\<close> stores the members in the order of an ordinary object: array indices first,
  ascending, then the other keys as they were inserted.
\<close>

definition js_index_key :: "jstr \<Rightarrow> nat option" where
  "js_index_key k =
     (if k \<noteq> [] \<and> list_all js_is_digit k \<and> js_of_nat (js_to_nat k) = k \<and> js_to_nat k < 4294967295
      then Some (js_to_nat k) else None)"

definition js_own_order :: "js_object \<Rightarrow> js_object" where
  "js_own_order ps =
     sort_key (\<lambda>p. the (js_index_key (fst p))) (filter (\<lambda>p. js_index_key (fst p) \<noteq> None) ps)
     @ filter (\<lambda>p. js_index_key (fst p) = None) ps"

fun sort_keys_deep :: "js_value \<Rightarrow> js_value" where
  "sort_keys_deep (V_arr vs) = V_arr (map sort_keys_deep vs)"
| "sort_keys_deep (V_obj ps) =
     V_obj (js_own_order (sort_key fst (map (\<lambda>p. (fst p, sort_keys_deep (snd p))) ps)))"
| "sort_keys_deep v = v"

definition canonicalize_auth_request :: "(rat \<Rightarrow> jstr) \<Rightarrow> js_value \<Rightarrow> jstr option" where
  "canonicalize_auth_request f v = json_stringify f (sort_keys_deep v)"

subsection \<open>Building and checking the request\<close>

definition MESSAGING_TOKEN_METHOD :: jstr where
  "MESSAGING_TOKEN_METHOD = ''generateToken''"

definition MESSAGING_TOKEN_TTL_MS :: int where
  "MESSAGING_TOKEN_TTL_MS = 90 * 24 * 60 * 60 * 1000"

definition MESSAGING_TOKEN_CLOCK_SKEW_MS :: int where
  "MESSAGING_TOKEN_CLOCK_SKEW_MS = 60 * 1000"

definition SIGNATURE_PREFIX :: jstr where
  "SIGNATURE_PREFIX = ''eip191:''"

definition SIGNATURE_BYTE_LENGTH :: nat where
  "SIGNATURE_BYTE_LENGTH = 65"

definition build_messaging_token_request :: "int \<Rightarrow> js_value" where
  "build_messaging_token_request now =
     V_obj [(''method'', V_str MESSAGING_TOKEN_METHOD),
            (''params'', V_obj [(''timestamp'', V_num (num_int now)),
               (''expiresAt'', V_num (num_int (now + MESSAGING_TOKEN_TTL_MS)))])]"

fun is_plain_object :: "js_value \<Rightarrow> js_object option" where
  "is_plain_object (V_obj ps) = Some ps"
| "is_plain_object _ = None"

definition has_exact_keys :: "js_object \<Rightarrow> jstr list \<Rightarrow> bool" where
  "has_exact_keys ps keys \<longleftrightarrow> length ps = length keys \<and> list_all (\<lambda>k. k \<in> set (map fst ps)) keys"

fun safe_integer :: "js_value \<Rightarrow> int option" where
  "safe_integer (V_num n) = num_safe_int n"
| "safe_integer _ = None"

definition assert_messaging_token_request :: "js_value \<Rightarrow> int \<Rightarrow> auth_error + unit" where
  "assert_messaging_token_request request now =
     (let bad = (\<lambda>r. Inl (Invalid_messaging_token_request_error r)) in
      case is_plain_object request of None \<Rightarrow> bad ''shape''
      | Some req \<Rightarrow>
          if \<not> has_exact_keys req [''method'', ''params''] then bad ''shape''
          else if js_prop req ''method'' \<noteq> V_str MESSAGING_TOKEN_METHOD then bad ''method''
          else
            (case is_plain_object (js_prop req ''params'') of None \<Rightarrow> bad ''params''
             | Some params \<Rightarrow>
                 if \<not> has_exact_keys params [''expiresAt'', ''timestamp''] then bad ''params''
                 else
                   (case (safe_integer (js_prop params ''timestamp''),
                          safe_integer (js_prop params ''expiresAt'')) of
                      (Some timestamp, Some expires_at) \<Rightarrow>
                        if \<bar>timestamp - now\<bar> > MESSAGING_TOKEN_CLOCK_SKEW_MS then bad ''timestamp''
                        else if expires_at \<le> timestamp then bad ''expiry before timestamp''
                        else if expires_at - now > MESSAGING_TOKEN_TTL_MS + MESSAGING_TOKEN_CLOCK_SKEW_MS
                        then bad ''expiry beyond 90 days''
                        else Inr ()
                    | _ \<Rightarrow> bad ''non-integer time'')))"

definition encode_eip191_signature :: "viem \<Rightarrow> jstr \<Rightarrow> auth_error + jstr" where
  "encode_eip191_signature vm signature =
     (case vm_hex_to_bytes vm signature of
        None \<Rightarrow> Inl (Other_error ''hexToBytes'')
      | Some bytes \<Rightarrow>
          if length bytes \<noteq> SIGNATURE_BYTE_LENGTH
          then Inl (Invalid_messaging_token_request_error ''signature length'')
          else Inr (SIGNATURE_PREFIX @ js_btoa bytes))"

text \<open>The request, and what custody was asked to sign (\<open>None\<close> when nothing).\<close>

record enable_messaging_request =
  dc_auth_request :: js_value
  dc_auth_signature :: jstr

definition sign_messaging_token_request ::
    "viem \<Rightarrow> (rat \<Rightarrow> jstr) \<Rightarrow> 'td account \<Rightarrow> int
       \<Rightarrow> (auth_error + enable_messaging_request) \<times> jstr option" where
  "sign_messaging_token_request vm f custody now =
     (let request = build_messaging_token_request now in
      case assert_messaging_token_request request now of
        Inl e \<Rightarrow> (Inl e, None)
      | Inr _ \<Rightarrow>
          (case canonicalize_auth_request f request of
             None \<Rightarrow> (Inl (Other_error ''TypeError''), None)
           | Some message \<Rightarrow>
               (case encode_eip191_signature vm (acc_sign_message custody message) of
                  Inl e \<Rightarrow> (Inl e, Some message)
                | Inr s \<Rightarrow>
                    (Inr \<lparr>dc_auth_request = request, dc_auth_signature = s\<rparr>, Some message))))"

subsection \<open>The checks\<close>

lemma has_exact_keys_two:
  assumes "a \<noteq> b"
  shows "has_exact_keys ps [a, b] \<longleftrightarrow>
    length ps = 2 \<and> set ps = {(a, js_prop ps a), (b, js_prop ps b)}"
proof
  assume k: "has_exact_keys ps [a, b]"
  then obtain p q where ps: "ps = [p, q]"
    by (auto simp: has_exact_keys_def numeral_2_eq_2 length_Suc_conv)
  then have "fst p = a \<and> fst q = b \<or> fst p = b \<and> fst q = a"
    using k assms by (auto simp: has_exact_keys_def)
  then show "length ps = 2 \<and> set ps = {(a, js_prop ps a), (b, js_prop ps b)}"
    using assms ps by (cases p; cases q) (auto simp: js_prop_def)
next
  assume "length ps = 2 \<and> set ps = {(a, js_prop ps a), (b, js_prop ps b)}"
  then have "length ps = 2" "fst ` set ps = {a, b}" by (simp_all add: insert_commute)
  then show "has_exact_keys ps [a, b]" by (simp add: has_exact_keys_def)
qed

lemma js_prop_two:
  assumes "length ps = 2" "set ps = {(a, x), (b, y)}" "a \<noteq> b"
  shows "js_prop ps a = x" "js_prop ps b = y"
proof -
  obtain p q where ps: "ps = [p, q]"
    using assms(1) by (auto simp: numeral_2_eq_2 length_Suc_conv)
  then have "p = (a, x) \<and> q = (b, y) \<or> p = (b, y) \<and> q = (a, x)"
    using assms(2,3) by (auto simp: doubleton_eq_iff)
  then show "js_prop ps a = x" "js_prop ps b = y" using ps assms(3) by (auto simp: js_prop_def)
qed

lemma num_safe_int_Some:
  "num_safe_int n = Some i \<longleftrightarrow> n = num_int i \<and> \<bar>i\<bar> \<le> max_safe_integer"
  by (cases n) auto

lemma safe_integer_Some:
  "safe_integer v = Some i \<longleftrightarrow> v = V_num (num_int i) \<and> \<bar>i\<bar> \<le> max_safe_integer"
  by (cases v) (auto simp: num_safe_int_Some)

lemma is_plain_object_Some: "is_plain_object v = Some ps \<longleftrightarrow> v = V_obj ps"
  by (cases v) auto

text \<open>
  The check before custody signs accepts exactly the pinned request: an object with the two
  members \<^verbatim>\<open>method: "generateToken"\<close> and \<^verbatim>\<open>params\<close>, the latter with the two safe integers
  \<^verbatim>\<open>timestamp\<close> (within one minute of the clock) and \<^verbatim>\<open>expiresAt\<close> (after the timestamp, at most 90
  days and a minute from now) and nothing else; every other value is refused.
\<close>

theorem messaging_request_pinned:
  "assert_messaging_token_request request now = Inr () \<longleftrightarrow>
     (\<exists>ps params timestamp expires_at. request = V_obj ps \<and> length ps = 2
        \<and> set ps = {(''method'', V_str ''generateToken''), (''params'', V_obj params)}
        \<and> length params = 2
        \<and> set params = {(''timestamp'', V_num (num_int timestamp)),
                        (''expiresAt'', V_num (num_int expires_at))}
        \<and> \<bar>timestamp\<bar> \<le> max_safe_integer \<and> \<bar>expires_at\<bar> \<le> max_safe_integer
        \<and> \<bar>timestamp - now\<bar> \<le> 60000 \<and> timestamp < expires_at \<and> expires_at - now \<le> 7776060000)"
    (is "?l \<longleftrightarrow> ?r")
proof
  assume ?l
  then obtain ps params t e where l: "request = V_obj ps" "has_exact_keys ps [''method'', ''params'']"
    "js_prop ps ''method'' = V_str ''generateToken''" "js_prop ps ''params'' = V_obj params"
    "has_exact_keys params [''expiresAt'', ''timestamp'']"
    "safe_integer (js_prop params ''timestamp'') = Some t"
    "safe_integer (js_prop params ''expiresAt'') = Some e"
    and b: "\<bar>t - now\<bar> \<le> 60000" "t < e" "e - now \<le> 7776060000"
    by (auto simp: assert_messaging_token_request_def Let_def is_plain_object_Some
        MESSAGING_TOKEN_METHOD_def MESSAGING_TOKEN_CLOCK_SKEW_MS_def MESSAGING_TOKEN_TTL_MS_def
        split: option.splits if_splits)
  have ps: "length ps = 2" "set ps = {(''method'', V_str ''generateToken''), (''params'', V_obj params)}"
    using l(2) by (simp_all add: has_exact_keys_two l(3,4))
  have t: "js_prop params ''timestamp'' = V_num (num_int t)" "\<bar>t\<bar> \<le> max_safe_integer"
    and e: "js_prop params ''expiresAt'' = V_num (num_int e)" "\<bar>e\<bar> \<le> max_safe_integer"
    using l(6,7) by (simp_all only: safe_integer_Some)
  have "length params = 2"
    "set params = {(''expiresAt'', V_num (num_int e)), (''timestamp'', V_num (num_int t))}"
    using l(5) t(1) e(1) by (simp_all add: has_exact_keys_two)
  then have params: "length params = 2"
    "set params = {(''timestamp'', V_num (num_int t)), (''expiresAt'', V_num (num_int e))}"
    by (simp_all only: insert_commute)
  show ?r
    by (intro exI[of _ ps] exI[of _ params] exI[of _ t] exI[of _ e] conjI)
      (rule l ps params t e b)+
next
  assume ?r
  then obtain ps params t e where r: "request = V_obj ps" "length ps = 2"
    "set ps = {(''method'', V_str ''generateToken''), (''params'', V_obj params)}"
    "length params = 2"
    "set params = {(''timestamp'', V_num (num_int t)), (''expiresAt'', V_num (num_int e))}"
    "\<bar>t\<bar> \<le> max_safe_integer" "\<bar>e\<bar> \<le> max_safe_integer"
    "\<bar>t - now\<bar> \<le> 60000" "t < e" "e - now \<le> 7776060000"
    by (elim exE conjE) (rule that)
  have p: "js_prop ps ''method'' = V_str ''generateToken''" "js_prop ps ''params'' = V_obj params"
    using js_prop_two[OF r(2,3)] by simp_all
  have q: "js_prop params ''timestamp'' = V_num (num_int t)"
    "js_prop params ''expiresAt'' = V_num (num_int e)"
    using js_prop_two[OF r(4,5)] by simp_all
  have "safe_integer (js_prop params ''timestamp'') = Some t"
    "safe_integer (js_prop params ''expiresAt'') = Some e"
    using q r(6,7) by (simp_all only: safe_integer_Some)
  moreover have "has_exact_keys ps [''method'', ''params'']"
    using r(2,3) p by (simp add: has_exact_keys_two)
  moreover have "has_exact_keys params [''expiresAt'', ''timestamp'']"
    using r(4,5) q by (simp add: has_exact_keys_two doubleton_eq_iff)
  ultimately show ?l
    using r(1,8,9,10) p by (simp add: assert_messaging_token_request_def Let_def
        MESSAGING_TOKEN_METHOD_def MESSAGING_TOKEN_CLOCK_SKEW_MS_def MESSAGING_TOKEN_TTL_MS_def)
qed

subsection \<open>Canonical JSON\<close>

text \<open>Two values that differ only in the order of the members of their objects, at any depth.\<close>

inductive reordered :: "js_value \<Rightarrow> js_value \<Rightarrow> bool" where
  reordered_same: "reordered v v"
| reordered_arr: "list_all2 reordered vs ws \<Longrightarrow> reordered (V_arr vs) (V_arr ws)"
| reordered_obj: "list_all2 (\<lambda>p q. fst p = fst q \<and> reordered (snd p) (snd q)) ps qs \<Longrightarrow>
    mset qs = mset rs \<Longrightarrow> distinct (map fst ps) \<Longrightarrow> reordered (V_obj ps) (V_obj rs)"

lemma filter_key_single:
  "distinct (map f xs) \<Longrightarrow> k \<in> set xs \<Longrightarrow> filter (\<lambda>x. f k = f x) xs = [k]"
proof (induction xs)
  case (Cons a xs)
  show ?case
  proof (cases "k = a")
    case True
    then have "\<forall>x \<in> set xs. f k \<noteq> f x" using Cons.prems(1) by auto
    then show ?thesis using True by (simp add: filter_False)
  next
    case False
    then have "k \<in> set xs" using Cons.prems(2) by simp
    then have "f k \<noteq> f a" using Cons.prems(1) by (metis distinct.simps(2) imageI list.simps(9) list.set_map)
    then show ?thesis using Cons \<open>k \<in> set xs\<close> by simp
  qed
qed simp

lemma sort_key_mset_eq:
  assumes "mset ps = mset qs" "distinct (map f ps)"
  shows "sort_key f ps = sort_key f qs"
proof (rule properties_for_sort_key)
  have "mset (map f (sort_key f qs)) = mset (map f ps)" using assms(1) by simp
  then have d: "distinct (map f (sort_key f qs))"
    using assms(2) mset_eq_imp_distinct_iff by blast
  have sets: "set (sort_key f qs) = set ps" using mset_eq_setD[OF assms(1)] by simp
  show "mset (sort_key f qs) = mset ps" using assms(1) by simp
  show "filter (\<lambda>x. f k = f x) (sort_key f qs) = filter (\<lambda>x. f k = f x) ps"
    if "k \<in> set (sort_key f qs)" for k
    using filter_key_single[OF d that] filter_key_single[OF assms(2)] that sets by simp
  show "sorted (map f (sort_key f qs))" by simp
qed

lemma list_all2_map_eq: "list_all2 (\<lambda>x y. f x = g y) xs ys \<Longrightarrow> map f xs = map g ys"
  by (induction rule: list_all2_induct) auto

lemma sort_keys_deep_reordered: "reordered v w \<Longrightarrow> sort_keys_deep v = sort_keys_deep w"
proof (induction rule: reordered.induct)
  case (reordered_arr vs ws)
  have "map sort_keys_deep vs = map sort_keys_deep ws"
  proof (rule list_all2_map_eq)
    show "list_all2 (\<lambda>x y. sort_keys_deep x = sort_keys_deep y) vs ws"
      by (rule list_all2_mono[OF reordered_arr]) blast
  qed
  then show ?case by simp
next
  case (reordered_obj ps qs rs)
  let ?f = "\<lambda>p. (fst p, sort_keys_deep (snd p))"
  have "map ?f ps = map ?f qs"
  proof (rule list_all2_map_eq)
    show "list_all2 (\<lambda>x y. ?f x = ?f y) ps qs"
      by (rule list_all2_mono[OF reordered_obj(1)]) simp
  qed
  moreover have "distinct (map fst (map ?f ps))"
    using reordered_obj(3) by (simp add: comp_def)
  moreover have "mset (map ?f qs) = mset (map ?f rs)" using reordered_obj(2) by simp
  ultimately have "sort_key fst (map ?f ps) = sort_key fst (map ?f rs)"
    by (intro sort_key_mset_eq) simp_all
  then show ?case by simp
qed simp

text \<open>
  The canonical JSON does not depend on the order of the members: two requests that differ only
  in the order in which the members of their objects were written, at any depth, canonicalise to the
  same text, so the signature made over one verifies over the other.
\<close>

theorem canonical_order_independent:
  "reordered v w \<Longrightarrow> canonicalize_auth_request f v = canonicalize_auth_request f w"
  by (simp add: canonicalize_auth_request_def sort_keys_deep_reordered)

lemma reordered_params:
  "reordered (build_messaging_token_request now)
     (V_obj [(''params'', V_obj [(''expiresAt'', V_num (num_int (now + MESSAGING_TOKEN_TTL_MS))),
                                 (''timestamp'', V_num (num_int now))]),
             (''method'', V_str MESSAGING_TOKEN_METHOD)])"
proof -
  let ?t = "(''timestamp'', V_num (num_int now))"
  let ?e = "(''expiresAt'', V_num (num_int (now + MESSAGING_TOKEN_TTL_MS)))"
  have "reordered (V_obj [?t, ?e]) (V_obj [?e, ?t])"
    by (rule reordered_obj[of _ "[?t, ?e]"]) (auto intro: reordered_same)
  then show ?thesis
    unfolding build_messaging_token_request_def
    by (intro reordered_obj[of _ "[(''method'', V_str MESSAGING_TOKEN_METHOD), (''params'', V_obj [?e, ?t])]"])
      (auto intro: reordered_same)
qed

theorem canonical_order_independent_witness:
  "canonicalize_auth_request (\<lambda>_. []) (build_messaging_token_request 5)
     = canonicalize_auth_request (\<lambda>_. [])
         (V_obj [(''params'', V_obj [(''expiresAt'', V_num (num_int (5 + MESSAGING_TOKEN_TTL_MS))),
                                     (''timestamp'', V_num (num_int 5))]),
                 (''method'', V_str MESSAGING_TOKEN_METHOD)])"
  by (rule canonical_order_independent[OF reordered_params])

subsection \<open>Signing\<close>

definition quoted :: "jstr \<Rightarrow> jstr" where
  "quoted s = [CHR 0x22] @ s @ [CHR 0x22]"

lemma json_quote_names:
  "json_quote ''method'' = quoted ''method''" "json_quote ''params'' = quoted ''params''"
  "json_quote ''generateToken'' = quoted ''generateToken''"
  "json_quote ''expiresAt'' = quoted ''expiresAt''" "json_quote ''timestamp'' = quoted ''timestamp''"
  by code_simp+

lemma json_number_int: "\<bar>i\<bar> \<le> max_safe_integer \<Longrightarrow> json_number f (num_int i) = js_of_int i"
  by (simp add: max_safe_integer_def)

lemma canonical_members:
  "sort_keys_deep (build_messaging_token_request now) =
     V_obj [(''method'', V_str ''generateToken''),
            (''params'', V_obj [(''expiresAt'', V_num (num_int (now + MESSAGING_TOKEN_TTL_MS))),
               (''timestamp'', V_num (num_int now))])]"
proof -
  have keys: "js_index_key ''method'' = None" "js_index_key ''params'' = None"
    "js_index_key ''expiresAt'' = None" "js_index_key ''timestamp'' = None"
    by code_simp+
  have "''expiresAt'' < ''timestamp''" "''method'' < ''params''" by code_simp+
  then have sorts: "sort_key fst [(''timestamp'', a), (''expiresAt'', b)] = [(''expiresAt'', b), (''timestamp'', a)]"
    "sort_key fst [(''method'', c), (''params'', d)] = [(''method'', c), (''params'', d)]"
    for a b c d :: js_value
    by (simp_all add: insort_key.simps)
  show ?thesis
    by (simp add: build_messaging_token_request_def MESSAGING_TOKEN_METHOD_def sorts js_own_order_def keys
        del: of_int_add)
qed

text \<open>
  Signing messaging access works and signs one fixed text: with a clock in the range of dates
  and an account whose signature viem reads as 65 bytes, the request built is accepted by its own
  check, custody signs exactly the canonical JSON of it, with the two times 90 days apart, and the
  result carries the request beside the base64 of the signature, from which the bytes can be read
  back.
\<close>

lemma messaging_request_signed:
  assumes "\<bar>now\<bar> \<le> max_time"
    and message: "message = ''{'' @ quoted ''method'' @ '':'' @ quoted ''generateToken'' @ '',''
      @ quoted ''params'' @ '':{'' @ quoted ''expiresAt'' @ '':'' @ js_of_int (now + 7776000000)
      @ '','' @ quoted ''timestamp'' @ '':'' @ js_of_int now @ ''}}''"
    and bytes: "vm_hex_to_bytes vm (acc_sign_message custody message) = Some bytes" "length bytes = 65"
  shows "sign_messaging_token_request vm f custody now =
      (Inr \<lparr>dc_auth_request = build_messaging_token_request now,
            dc_auth_signature = ''eip191:'' @ js_btoa bytes\<rparr>, Some message)
    \<and> js_atob (js_btoa bytes) = Some bytes"
proof -
  have safe: "\<bar>now\<bar> \<le> max_safe_integer" "\<bar>now + 7776000000\<bar> \<le> max_safe_integer"
    using assms(1) by (auto simp: max_time_def max_safe_integer_def)
  have times: "now + MESSAGING_TOKEN_TTL_MS = now + 7776000000"
    by (simp add: MESSAGING_TOKEN_TTL_MS_def)
  have "safe_integer (V_num (num_int now)) = Some now"
    "safe_integer (V_num (num_int (now + 7776000000))) = Some (now + 7776000000)"
    unfolding safe_integer_Some using safe by blast+
  then have "assert_messaging_token_request (build_messaging_token_request now) now = Inr ()"
    unfolding build_messaging_token_request_def times
    by (simp add: assert_messaging_token_request_def Let_def has_exact_keys_def js_prop_def
        MESSAGING_TOKEN_TTL_MS_def MESSAGING_TOKEN_CLOCK_SKEW_MS_def
        del: safe_integer.simps of_int_add)
  moreover have "canonicalize_auth_request f (build_messaging_token_request now) = Some message"
    unfolding canonicalize_auth_request_def canonical_members times message
    using json_number_int[OF safe(1), of f] json_number_int[OF safe(2), of f]
    by (simp add: json_quote_names del: json_number.simps of_int_add)
  ultimately show ?thesis
    using bytes by (simp add: sign_messaging_token_request_def Let_def encode_eip191_signature_def
        SIGNATURE_BYTE_LENGTH_def SIGNATURE_PREFIX_def atob_btoa)
qed

end
