(* ===== verification/Key_Gateway.thy ===== *)
theory Key_Gateway
  imports Messaging_Token
begin

section \<open>What custody signs when a browser is linked\<close>

text \<open>
  The part of \<^verbatim>\<open>lib/auth/protocolLogin.ts\<close> that stands between the server's prepare response and
  the custody key: \<^verbatim>\<open>toSignableTypedData\<close>, \<^verbatim>\<open>assertKeyGatewayAdd\<close>, \<^verbatim>\<open>deriveCustodyAccount\<close>,
  \<^verbatim>\<open>signSignerLink\<close> and \<^verbatim>\<open>signMessagingToken\<close>.

  The prepare response is taken to have its declared TypeScript shape; every field that is declared
  \<^verbatim>\<open>unknown\<close> (the members of the EIP-712 domain and message) is an arbitrary value, and every string
  and number is arbitrary, since the server is not trusted here. Arguments of the model: viem
  (\<open>vm\<close>), \<^verbatim>\<open>mnemonicToAccount\<close> (\<open>derive\<close>, \<open>None\<close> when it throws) and what \<^verbatim>\<open>Number\<close> makes of a
  string or an object (\<open>coerce\<close>, \<open>None\<close> when it throws). A function that signs returns, beside its
  result, the list of what it asked the custody account to sign, in order.
\<close>

subsection \<open>Typed data\<close>

record eip_field =
  ef_name :: jstr
  ef_type :: jstr

record typed_data =
  td_domain :: js_object
  td_types :: "(jstr \<times> eip_field list) list"
  td_primary_type :: jstr
  td_message :: js_object

definition KEY_GATEWAY_ADDRESS :: jstr where
  "KEY_GATEWAY_ADDRESS = ''0x00000000fC56947c7E7183f8Ca4B62398CaAdf0B''"

definition KEY_GATEWAY_DOMAIN_NAME :: jstr where
  "KEY_GATEWAY_DOMAIN_NAME = ''Farcaster KeyGateway''"

definition KEY_GATEWAY_DOMAIN_VERSION :: jstr where
  "KEY_GATEWAY_DOMAIN_VERSION = ''1''"

definition KEY_GATEWAY_DOMAIN_FIELD_COUNT :: nat where
  "KEY_GATEWAY_DOMAIN_FIELD_COUNT = 4"

definition ADD_PRIMARY_TYPE :: jstr where
  "ADD_PRIMARY_TYPE = ''Add''"

definition ADD_FIELDS :: "eip_field list" where
  "ADD_FIELDS =
     [\<lparr>ef_name = ''owner'', ef_type = ''address''\<rparr>,
      \<lparr>ef_name = ''keyType'', ef_type = ''uint32''\<rparr>,
      \<lparr>ef_name = ''key'', ef_type = ''bytes''\<rparr>,
      \<lparr>ef_name = ''metadataType'', ef_type = ''uint8''\<rparr>,
      \<lparr>ef_name = ''metadata'', ef_type = ''bytes''\<rparr>,
      \<lparr>ef_name = ''nonce'', ef_type = ''uint256''\<rparr>,
      \<lparr>ef_name = ''deadline'', ef_type = ''uint256''\<rparr>]"

definition KEY_TYPE_ED25519 :: int where
  "KEY_TYPE_ED25519 = 1"

definition KEY_TYPE_AUTH_ADDRESS :: int where
  "KEY_TYPE_AUTH_ADDRESS = 2"

definition METADATA_TYPE_SIGNED_KEY_REQUEST :: int where
  "METADATA_TYPE_SIGNED_KEY_REQUEST = 1"

definition MAX_ADD_DEADLINE_SECONDS :: int where
  "MAX_ADD_DEADLINE_SECONDS = 60 * 60"

definition CLOCK_SKEW_SECONDS :: int where
  "CLOCK_SKEW_SECONDS = 5 * 60"

definition AUTH_ADDRESS_KEY_PADDING :: jstr where
  "AUTH_ADDRESS_KEY_PADDING = replicate 24 (CHR ''0'')"

definition js_is_hex :: "char \<Rightarrow> bool" where
  "js_is_hex c \<longleftrightarrow> js_is_digit c \<or> c \<in> set ''abcdefABCDEF''"

text \<open>\<^verbatim>\<open>/^0x[0-9a-f]{64}$/i\<close>; the flag lets \<^verbatim>\<open>X\<close> stand for \<^verbatim>\<open>x\<close> as well.\<close>

definition ED25519_PUBLIC_KEY_PATTERN :: "jstr \<Rightarrow> bool" where
  "ED25519_PUBLIC_KEY_PATTERN s \<longleftrightarrow>
     length s = 66 \<and> take 1 s = ''0'' \<and> js_lower (take 1 (drop 1 s)) = ''x'' \<and> list_all js_is_hex (drop 2 s)"

text \<open>\<^verbatim>\<open>/^u?int\d*$/\<close>\<close>

definition is_integer_type :: "jstr \<Rightarrow> bool" where
  "is_integer_type t =
     (let r = (if js_starts_with ''u'' t then drop 1 t else t)
      in js_starts_with ''int'' r \<and> list_all js_is_digit (drop 3 r))"

definition js_hex_value :: "char \<Rightarrow> int" where
  "js_hex_value c =
     (let n = of_char c :: nat
      in int (if n \<le> 57 then n - 48 else if n \<le> 70 then n - 55 else n - 87))"

text \<open>
  \<^verbatim>\<open>toBigInt\<close>: bigints, safe integers, and strings that match \<^verbatim>\<open>/^(0x[0-9a-f]+|\d+)$/i\<close>.
\<close>

fun to_big_int :: "js_value \<Rightarrow> auth_error + int" where
  "to_big_int (V_bigint i) = Inr i"
| "to_big_int (V_num n) =
     (case num_safe_int n of Some i \<Rightarrow> Inr i
      | None \<Rightarrow> Inl (Other_error ''typed data carries a non-integer value for an integer field''))"
| "to_big_int (V_str s) =
     (if take 1 s = ''0'' \<and> js_lower (take 1 (drop 1 s)) = ''x'' \<and> drop 2 s \<noteq> []
         \<and> list_all js_is_hex (drop 2 s)
      then Inr (foldl (\<lambda>a c. 16 * a + js_hex_value c) 0 (drop 2 s))
      else if s \<noteq> [] \<and> list_all js_is_digit s then Inr (int (js_to_nat s))
      else Inl (Other_error ''typed data carries a non-integer value for an integer field''))"
| "to_big_int _ = Inl (Other_error ''typed data carries a non-integer value for an integer field'')"

text \<open>\<^verbatim>\<open>Number(v)\<close>; strings, arrays and objects are left to \<open>coerce\<close>.\<close>

fun js_number :: "(js_value \<Rightarrow> js_num option) \<Rightarrow> js_value \<Rightarrow> js_num option" where
  "js_number coerce (V_num n) = Some n"
| "js_number coerce (V_bigint i) = Some (num_int i)"
| "js_number coerce V_null = Some (num_int 0)"
| "js_number coerce V_undefined = Some NaN"
| "js_number coerce (V_bool b) = Some (num_int (if b then 1 else 0))"
| "js_number coerce v = coerce v"

fun coerce_integer_fields :: "eip_field list \<Rightarrow> js_object \<Rightarrow> auth_error + js_object" where
  "coerce_integer_fields [] message = Inr message"
| "coerce_integer_fields (field # fs) message =
     (if is_integer_type (ef_type field) then
        err_bind (to_big_int (js_prop message (ef_name field))) (\<lambda>i.
          coerce_integer_fields fs (AList.update (ef_name field) (V_bigint i) message))
      else coerce_integer_fields fs message)"

definition to_signable_typed_data ::
    "(js_value \<Rightarrow> js_num option) \<Rightarrow> typed_data \<Rightarrow> auth_error + typed_data" where
  "to_signable_typed_data coerce payload =
     (let types = filter (\<lambda>p. fst p \<noteq> ''EIP712Domain'') (td_types payload) in
      case map_of types (td_primary_type payload) of
        None \<Rightarrow> Inl (Other_error ''typed data is missing the primary type'')
      | Some fs \<Rightarrow>
          err_bind (coerce_integer_fields fs (td_message payload)) (\<lambda>message.
            (let chain_id = js_prop (td_domain payload) ''chainId'' in
             if chain_id = V_undefined
             then Inr (payload\<lparr>td_types := types, td_message := message\<rparr>)
             else case js_number coerce chain_id of
                 None \<Rightarrow> Inl (Other_error ''TypeError'')
               | Some n \<Rightarrow>
                   Inr (payload\<lparr>td_domain := AList.update ''chainId'' (V_num n) (td_domain payload),
                          td_types := types, td_message := message\<rparr>))))"

subsection \<open>The pinned Add\<close>

definition is_same_hex :: "js_value \<Rightarrow> jstr \<Rightarrow> bool" where
  "is_same_hex value expected =
     (case value of V_str s \<Rightarrow> js_lower s = js_lower expected | _ \<Rightarrow> False)"

record expected_add =
  ea_owner :: jstr
  ea_key_type :: int
  ea_key :: jstr
  ea_latest_deadline :: js_num

definition is_pinned_domain :: "js_object \<Rightarrow> bool" where
  "is_pinned_domain domain \<longleftrightarrow>
     length domain = KEY_GATEWAY_DOMAIN_FIELD_COUNT
     \<and> js_prop domain ''name'' = V_str KEY_GATEWAY_DOMAIN_NAME
     \<and> js_prop domain ''version'' = V_str KEY_GATEWAY_DOMAIN_VERSION
     \<and> js_prop domain ''chainId'' = V_num (num_int PROTOCOL_AUTH_CHAIN_ID)
     \<and> is_same_hex (js_prop domain ''verifyingContract'') KEY_GATEWAY_ADDRESS"

definition is_pinned_type :: "typed_data \<Rightarrow> bool" where
  "is_pinned_type typed \<longleftrightarrow>
     td_primary_type typed = ADD_PRIMARY_TYPE
     \<and> length (td_types typed) = 1
     \<and> (case map_of (td_types typed) ADD_PRIMARY_TYPE of
          None \<Rightarrow> False
        | Some fs \<Rightarrow>
            length fs = length ADD_FIELDS
            \<and> list_all2 (\<lambda>field e. ef_name field = ef_name e \<and> ef_type field = ef_type e)
                fs ADD_FIELDS)"

definition assert_key_gateway_add :: "typed_data \<Rightarrow> expected_add \<Rightarrow> auth_error + unit" where
  "assert_key_gateway_add typed expected =
     (let message = td_message typed; bad = (\<lambda>r. Inl (Unexpected_signing_request_error r)) in
      if \<not> is_pinned_domain (td_domain typed) then bad ''domain''
      else if \<not> is_pinned_type typed then bad ''message type''
      else if \<not> is_same_hex (js_prop message ''owner'') (ea_owner expected) then bad ''owner''
      else if js_prop message ''keyType'' \<noteq> V_bigint (ea_key_type expected) then bad ''key type''
      else if \<not> is_same_hex (js_prop message ''key'') (ea_key expected) then bad ''key''
      else if js_prop message ''metadataType'' \<noteq> V_bigint METADATA_TYPE_SIGNED_KEY_REQUEST
      then bad ''metadata type''
      else
        (case js_prop message ''deadline'' of
           V_bigint deadline \<Rightarrow>
             (case num_to_bigint (ea_latest_deadline expected) of
                None \<Rightarrow> Inl (Range_error ''BigInt'')
              | Some latest \<Rightarrow> if deadline > latest then bad ''deadline'' else Inr ())
         | _ \<Rightarrow> bad ''deadline''))"

text \<open>\<^verbatim>\<open>Object.keys(domain).length\<close> is the length of the list because own keys are distinct.\<close>

definition to_auth_address_key :: "jstr \<Rightarrow> jstr" where
  "to_auth_address_key address = ''0x'' @ AUTH_ADDRESS_KEY_PADDING @ js_lower (drop 2 address)"

definition latest_add_deadline :: "js_num \<Rightarrow> int \<Rightarrow> js_num" where
  "latest_add_deadline expires_at now =
     num_min expires_at (num_int (now div 1000 + MAX_ADD_DEADLINE_SECONDS + CLOCK_SKEW_SECONDS))"

subsection \<open>The recovery phrase\<close>

function split_spaces :: "jstr \<Rightarrow> jstr list" where
  "split_spaces s =
     (let w = takeWhile (\<lambda>c. \<not> js_space c) s; r = dropWhile (\<lambda>c. \<not> js_space c) s
      in if r = [] then [w] else w # split_spaces (dropWhile js_space r))"
  by pat_completeness auto
termination
proof (relation "measure length")
  fix s :: jstr and w r
  assume r: "r = dropWhile (\<lambda>c. \<not> js_space c) s" "r \<noteq> []"
  then have "js_space (hd r)" using hd_dropWhile by metis
  then have "length (dropWhile js_space r) < length r"
    using r(2) by (cases r) (auto simp: le_imp_less_Suc length_dropWhile_le)
  moreover have "length r \<le> length s" using r(1) by (simp add: length_dropWhile_le)
  ultimately show "(dropWhile js_space r, s) \<in> measure length" by simp
qed simp

declare split_spaces.simps [simp del]

definition normalize_recovery_phrase :: "jstr \<Rightarrow> jstr" where
  "normalize_recovery_phrase phrase = js_join '' '' (split_spaces (js_lower (js_trim phrase)))"

definition count_recovery_phrase_words :: "jstr \<Rightarrow> nat" where
  "count_recovery_phrase_words phrase =
     (let trimmed = js_trim phrase in if trimmed = [] then 0 else length (split_spaces trimmed))"

type_synonym derivation = "jstr \<Rightarrow> typed_data account option"

definition derive_custody_account ::
    "derivation \<Rightarrow> jstr \<Rightarrow> jstr \<Rightarrow> auth_error + typed_data account" where
  "derive_custody_account derive recovery_phrase custody_address =
     (case derive (normalize_recovery_phrase recovery_phrase) of
        None \<Rightarrow> Inl Invalid_recovery_phrase_error
      | Some custody \<Rightarrow>
          if js_lower (acc_address custody) \<noteq> js_lower custody_address
          then Inl Custody_mismatch_error else Inr custody)"

subsection \<open>Signing\<close>

record signer_prepare =
  sp_prepare_id :: jstr
  sp_custody_address :: jstr
  sp_signer_public_key :: jstr
  sp_typed_signer :: typed_data
  sp_typed_auth_address :: typed_data
  sp_auth_domain :: jstr
  sp_auth_uri :: jstr
  sp_auth_nonce :: jstr
  sp_auth_expires_at :: js_num
  sp_expires_at :: js_num

record signed_link =
  sl_signer_add_signature :: jstr
  sl_auth_address_add_signature :: jstr
  sl_protocol_auth_token :: jstr
  sl_messaging_token :: enable_messaging_request

datatype custody_op = Sign_typed typed_data | Sign_text jstr

text \<open>What a caller of the signing functions provides.\<close>

record signing_env =
  se_viem :: viem
  se_show_frac :: "rat \<Rightarrow> jstr"
  se_coerce :: "js_value \<Rightarrow> js_num option"
  se_derive :: derivation

definition sign_typed :: "typed_data account \<Rightarrow> typed_data \<Rightarrow> auth_error + jstr" where
  "sign_typed custody td =
     (case acc_sign_typed_data custody td of
        None \<Rightarrow> Inl (Other_error ''signTypedData'') | Some s \<Rightarrow> Inr s)"

text \<open>The checks of \<^verbatim>\<open>signSignerLink\<close>: the account and the two payloads it may sign.\<close>

definition check_signer_link ::
    "signing_env \<Rightarrow> jstr \<Rightarrow> jstr \<Rightarrow> signer_prepare \<Rightarrow> int
       \<Rightarrow> auth_error + typed_data account \<times> typed_data \<times> typed_data" where
  "check_signer_link env auth_address recovery_phrase prepare now =
     err_bind (derive_custody_account (se_derive env) recovery_phrase (sp_custody_address prepare)) (\<lambda>custody.
     (let latest_deadline = latest_add_deadline (sp_expires_at prepare) now in
     if \<not> ED25519_PUBLIC_KEY_PATTERN (sp_signer_public_key prepare)
     then Inl (Unexpected_signing_request_error ''signer key'')
     else
     err_bind (to_signable_typed_data (se_coerce env) (sp_typed_signer prepare)) (\<lambda>signer_add.
     err_bind (assert_key_gateway_add signer_add
         \<lparr>ea_owner = acc_address custody, ea_key_type = KEY_TYPE_ED25519,
          ea_key = sp_signer_public_key prepare, ea_latest_deadline = latest_deadline\<rparr>) (\<lambda>_.
     err_bind (to_signable_typed_data (se_coerce env) (sp_typed_auth_address prepare)) (\<lambda>auth_address_add.
     err_bind (assert_key_gateway_add auth_address_add
         \<lparr>ea_owner = acc_address custody, ea_key_type = KEY_TYPE_AUTH_ADDRESS,
          ea_key = to_auth_address_key auth_address, ea_latest_deadline = latest_deadline\<rparr>) (\<lambda>_.
     if js_lower (sp_auth_domain prepare) \<noteq> js_lower (PROTOCOL_AUTH_DOMAIN (se_viem env))
        \<or> sp_auth_uri prepare \<noteq> PROTOCOL_AUTH_URI (se_viem env)
     then Inl (Unexpected_signing_request_error ''sign-in domain'')
     else Inr (custody, signer_add, auth_address_add)))))))"

text \<open>
  The signatures, once the checks passed, and what custody was asked to sign, the request that fails
  included. \<open>issued_at\<close> and \<open>messaging_now\<close> are the two later readings
  of the clock (one value when the caller passes \<^verbatim>\<open>now\<close>).
\<close>

definition sign_checked_link ::
    "signing_env \<Rightarrow> js_num \<Rightarrow> signer_prepare \<Rightarrow> typed_data account \<Rightarrow> typed_data \<Rightarrow> typed_data
       \<Rightarrow> int \<Rightarrow> int \<Rightarrow> (auth_error + signed_link) \<times> custody_op list" where
  "sign_checked_link env fid prepare custody signer_add auth_address_add issued_at messaging_now =
     (case sign_typed custody signer_add of
        Inl e \<Rightarrow> (Inl e, [Sign_typed signer_add])
      | Inr s1 \<Rightarrow>
     (case sign_typed custody auth_address_add of
        Inl e \<Rightarrow> (Inl e, [Sign_typed signer_add, Sign_typed auth_address_add])
      | Inr s2 \<Rightarrow>
     (let ops = [Sign_typed signer_add, Sign_typed auth_address_add];
          (token, text) = sign_protocol_token (se_viem env) custody fid (sp_auth_nonce prepare) issued_at
             (Some DEFAULT_PROTOCOL_TOKEN_TTL_SECONDS)
             (Some (date_of (num_scale 1000 (sp_auth_expires_at prepare))));
          ops = ops @ map Sign_text (case text of None \<Rightarrow> [] | Some t \<Rightarrow> [t])
      in case token of
           Inl e \<Rightarrow> (Inl e, ops)
         | Inr t \<Rightarrow>
             (let (messaging, text) =
                sign_messaging_token_request (se_viem env) (se_show_frac env) custody messaging_now;
                  ops = ops @ map Sign_text (case text of None \<Rightarrow> [] | Some t \<Rightarrow> [t])
              in case messaging of
                   Inl e \<Rightarrow> (Inl e, ops)
                 | Inr m \<Rightarrow>
                     (Inr \<lparr>sl_signer_add_signature = s1, sl_auth_address_add_signature = s2,
                           sl_protocol_auth_token = t, sl_messaging_token = m\<rparr>, ops)))))"

definition sign_signer_link ::
    "signing_env \<Rightarrow> js_num \<Rightarrow> jstr \<Rightarrow> jstr \<Rightarrow> signer_prepare \<Rightarrow> int \<Rightarrow> int \<Rightarrow> int
       \<Rightarrow> (auth_error + signed_link) \<times> custody_op list" where
  "sign_signer_link env fid auth_address recovery_phrase prepare now issued_at messaging_now =
     (case check_signer_link env auth_address recovery_phrase prepare now of
        Inl e \<Rightarrow> (Inl e, [])
      | Inr (custody, signer_add, auth_address_add) \<Rightarrow>
          sign_checked_link env fid prepare custody signer_add auth_address_add issued_at messaging_now)"

definition sign_messaging_token ::
    "signing_env \<Rightarrow> jstr \<Rightarrow> jstr \<Rightarrow> int
       \<Rightarrow> (auth_error + enable_messaging_request) \<times> custody_op list" where
  "sign_messaging_token env phrase custody_address now =
     (case derive_custody_account (se_derive env) phrase custody_address of
        Inl e \<Rightarrow> (Inl e, [])
      | Inr custody \<Rightarrow>
          (let (r, text) = sign_messaging_token_request (se_viem env) (se_show_frac env) custody now
           in (r, map Sign_text (case text of None \<Rightarrow> [] | Some t \<Rightarrow> [t]))))"

subsection \<open>What an accepted payload is\<close>

text \<open>
  The specification: the typed data names exactly the seven fields of a KeyGateway \<^verbatim>\<open>Add\<close>, is bound
  to the KeyGateway contract on Optimism by a domain of four members, and its message has the given
  owner, key type and key, signed-key-request metadata and a deadline of at most \<open>latest\<close>.
\<close>

definition key_gateway_add :: "typed_data \<Rightarrow> jstr \<Rightarrow> int \<Rightarrow> jstr \<Rightarrow> int \<Rightarrow> bool" where
  "key_gateway_add td owner key_type key latest \<longleftrightarrow>
     length (td_domain td) = 4
     \<and> js_prop (td_domain td) ''name'' = V_str ''Farcaster KeyGateway''
     \<and> js_prop (td_domain td) ''version'' = V_str ''1''
     \<and> js_prop (td_domain td) ''chainId'' = V_num (num_int 10)
     \<and> (\<exists>a. js_prop (td_domain td) ''verifyingContract'' = V_str a
           \<and> js_lower a = js_lower KEY_GATEWAY_ADDRESS)
     \<and> td_primary_type td = ''Add'' \<and> td_types td = [(''Add'', ADD_FIELDS)]
     \<and> (\<exists>a. js_prop (td_message td) ''owner'' = V_str a \<and> js_lower a = js_lower owner)
     \<and> js_prop (td_message td) ''keyType'' = V_bigint key_type
     \<and> (\<exists>a. js_prop (td_message td) ''key'' = V_str a \<and> js_lower a = js_lower key)
     \<and> js_prop (td_message td) ''metadataType'' = V_bigint 1
     \<and> (\<exists>d. js_prop (td_message td) ''deadline'' = V_bigint d \<and> d \<le> latest)"

lemma is_same_hex_iff: "is_same_hex v e \<longleftrightarrow> (\<exists>a. v = V_str a \<and> js_lower a = js_lower e)"
  by (cases v) (auto simp: is_same_hex_def)

lemma is_pinned_type_iff:
  "is_pinned_type td \<longleftrightarrow> td_primary_type td = ''Add'' \<and> td_types td = [(''Add'', ADD_FIELDS)]"
proof
  assume p: "is_pinned_type td"
  then obtain k fs where td: "td_types td = [(k, fs)]"
    by (auto simp: is_pinned_type_def length_Suc_conv)
  have eq: "fs = es" if "list_all2 (\<lambda>field e. ef_name field = ef_name e \<and> ef_type field = ef_type e) fs es"
    for es :: "eip_field list"
    using that by (induction rule: list_all2_induct) simp_all
  show "td_primary_type td = ''Add'' \<and> td_types td = [(''Add'', ADD_FIELDS)]"
    using p td eq by (auto simp: is_pinned_type_def ADD_PRIMARY_TYPE_def split: if_splits)
qed (simp add: is_pinned_type_def ADD_PRIMARY_TYPE_def list_all2_refl)

lemma assert_key_gateway_add_iff:
  "assert_key_gateway_add td expected = Inr () \<longleftrightarrow>
     (\<exists>latest. num_to_bigint (ea_latest_deadline expected) = Some latest
        \<and> key_gateway_add td (ea_owner expected) (ea_key_type expected) (ea_key expected) latest)"
  unfolding assert_key_gateway_add_def key_gateway_add_def Let_def is_pinned_type_iff[symmetric]
    is_pinned_domain_def is_same_hex_iff[symmetric] KEY_GATEWAY_DOMAIN_FIELD_COUNT_def
    KEY_GATEWAY_DOMAIN_NAME_def KEY_GATEWAY_DOMAIN_VERSION_def PROTOCOL_AUTH_CHAIN_ID_def
    METADATA_TYPE_SIGNED_KEY_REQUEST_def
  by (auto split: js_value.split option.split simp: is_pinned_type_iff)

lemma latest_add_deadline_bounds:
  assumes "num_to_bigint (latest_add_deadline expires_at now) = Some latest"
  shows "latest \<le> now div 1000 + 3900" "expires_at = num_int e \<Longrightarrow> latest \<le> e"
proof -
  show "latest \<le> now div 1000 + 3900"
    using num_min_SomeD[of expires_at "3900 + now div 1000" latest] assms
    by (simp add: latest_add_deadline_def MAX_ADD_DEADLINE_SECONDS_def CLOCK_SKEW_SECONDS_def
        del: of_int_add)
  assume "expires_at = num_int e"
  then have "num_to_bigint (num_min (num_int e)
      (num_int (now div 1000 + MAX_ADD_DEADLINE_SECONDS + CLOCK_SKEW_SECONDS))) = Some latest"
    using assms by (simp add: latest_add_deadline_def)
  then show "latest \<le> e" unfolding num_min_int num_to_bigint_int by simp
qed

lemma derive_custody_account_Inr:
  "derive_custody_account derive phrase address = Inr custody \<longleftrightarrow>
     derive (normalize_recovery_phrase phrase) = Some custody
     \<and> js_lower (acc_address custody) = js_lower address"
  by (auto simp: derive_custody_account_def split: option.splits)

lemma check_signer_link_Inr:
  assumes "check_signer_link env auth_address phrase prepare now = Inr (custody, signer_add, auth_add)"
  shows "derive_custody_account (se_derive env) phrase (sp_custody_address prepare) = Inr custody
    \<and> ED25519_PUBLIC_KEY_PATTERN (sp_signer_public_key prepare)
    \<and> js_lower (sp_auth_domain prepare) = js_lower (PROTOCOL_AUTH_DOMAIN (se_viem env))
    \<and> sp_auth_uri prepare = PROTOCOL_AUTH_URI (se_viem env)
    \<and> (\<exists>latest. num_to_bigint (latest_add_deadline (sp_expires_at prepare) now) = Some latest
        \<and> key_gateway_add signer_add (acc_address custody) 1 (sp_signer_public_key prepare) latest
        \<and> key_gateway_add auth_add (acc_address custody) 2 (to_auth_address_key auth_address) latest)"
  using assms
  by (auto simp: check_signer_link_def Let_def err_bind_Inr assert_key_gateway_add_iff
      KEY_TYPE_ED25519_def KEY_TYPE_AUTH_ADDRESS_def split: if_splits)

lemma sign_messaging_token_request_text:
  assumes "sign_messaging_token_request vm f custody now = (r, Some text)"
  shows "canonicalize_auth_request f (build_messaging_token_request now) = Some text"
  using assms by (auto simp: sign_messaging_token_request_def Let_def split: sum.splits option.splits)

text \<open>What custody may be asked to sign while linking: two Adds, a pinned token, the fixed request.\<close>

definition link_op_ok ::
    "signing_env \<Rightarrow> js_num \<Rightarrow> jstr \<Rightarrow> signer_prepare \<Rightarrow> int \<Rightarrow> int \<Rightarrow> int \<Rightarrow> jstr \<Rightarrow> custody_op \<Rightarrow> bool" where
  "link_op_ok env fid auth_address prepare now issued_at messaging_now owner op \<longleftrightarrow>
     (\<exists>td latest. op = Sign_typed td \<and> latest \<le> now div 1000 + 3900
        \<and> (\<forall>e. sp_expires_at prepare = num_int e \<longrightarrow> latest \<le> e)
        \<and> (key_gateway_add td owner 1 (sp_signer_public_key prepare) latest
           \<or> key_gateway_add td owner 2
               (''0x000000000000000000000000'' @ js_lower (drop 2 auth_address)) latest))
     \<or> (\<exists>t. op = Sign_text t
        \<and> (pinned_token_text (se_viem env) owner fid (sp_auth_nonce prepare) issued_at
             (Some (date_of (num_scale 1000 (sp_auth_expires_at prepare)))) t
           \<or> canonicalize_auth_request (se_show_frac env) (build_messaging_token_request messaging_now)
               = Some t))"

lemma to_auth_address_key_eq:
  "to_auth_address_key a = ''0x000000000000000000000000'' @ js_lower (drop 2 a)"
  by (simp add: to_auth_address_key_def AUTH_ADDRESS_KEY_PADDING_def numeral_eq_Suc)

lemma sign_checked_link_ops:
  assumes "sign_checked_link env fid prepare custody signer_add auth_add issued_at messaging_now = (r, ops)"
  shows "set ops \<subseteq> {Sign_typed signer_add, Sign_typed auth_add} \<union>
    {Sign_text t | t. pinned_token_text (se_viem env) (acc_address custody) fid (sp_auth_nonce prepare)
          issued_at (Some (date_of (num_scale 1000 (sp_auth_expires_at prepare)))) t
        \<or> canonicalize_auth_request (se_show_frac env) (build_messaging_token_request messaging_now)
            = Some t}"
  using assms
  by (auto simp: sign_checked_link_def Let_def
      dest!: sign_protocol_token_pinned sign_messaging_token_request_text
      split: sum.splits option.splits prod.splits)

text \<open>
  Linking a browser has custody sign nothing else. Whatever the server answers to prepare, every
  operation the custody account is asked for, whether or not the flow then succeeds, is one of: a
  KeyGateway Add on Optimism owned by custody for the signer key of the response (key type 1) or for
  this browser's own auth address, left-padded (key type 2), with a deadline no later than the
  prepare's own expiry and 65 minutes from now; a Protocol Auth token over the client's own domain;
  or the canonical messaging request. The account is the one the phrase derives, and it controls the
  custody address of the response.
\<close>

lemma custody_signs_only_pinned:
  assumes "sign_signer_link env fid auth_address phrase prepare now issued_at messaging_now = (r, ops)"
    and "op \<in> set ops"
  shows "\<exists>custody. se_derive env (normalize_recovery_phrase phrase) = Some custody
    \<and> js_lower (acc_address custody) = js_lower (sp_custody_address prepare)
    \<and> link_op_ok env fid auth_address prepare now issued_at messaging_now (acc_address custody) op"
proof -
  obtain custody a b where
    check: "check_signer_link env auth_address phrase prepare now = Inr (custody, a, b)"
    and sign: "sign_checked_link env fid prepare custody a b issued_at messaging_now = (r, ops)"
    using assms by (auto simp: sign_signer_link_def split: sum.splits prod.splits)
  note c = check_signer_link_Inr[OF check]
  then obtain latest where
    latest: "num_to_bigint (latest_add_deadline (sp_expires_at prepare) now) = Some latest"
    and adds: "key_gateway_add a (acc_address custody) 1 (sp_signer_public_key prepare) latest"
      "key_gateway_add b (acc_address custody) 2 (to_auth_address_key auth_address) latest"
    by blast
  have "link_op_ok env fid auth_address prepare now issued_at messaging_now (acc_address custody) op"
    using sign_checked_link_ops[OF sign] assms(2) adds latest_add_deadline_bounds[OF latest]
    unfolding link_op_ok_def to_auth_address_key_eq by blast
  then show ?thesis using c derive_custody_account_Inr by blast
qed

text \<open>
  A refused request signs nothing: when linking ends with an unexpected signing request, a
  recovery phrase that does not derive, or a custody mismatch, the custody account was not asked for
  a single signature.
\<close>

theorem refused_link_signs_nothing:
  assumes "sign_signer_link env fid auth_address phrase prepare now issued_at messaging_now = (Inl e, ops)"
    and "(\<exists>reason. e = Unexpected_signing_request_error reason) \<or> e = Custody_mismatch_error
      \<or> e = Invalid_recovery_phrase_error"
  shows "ops = []"
proof (cases "check_signer_link env auth_address phrase prepare now")
  case (Inr x)
  obtain custody a b where x: "x = (custody, a, b)" by (cases x)
  have "sign_checked_link env fid prepare custody a b issued_at messaging_now = (Inl e, ops)"
    using assms(1) Inr x by (simp add: sign_signer_link_def)
  then show ?thesis
    using assms(2)
    by (auto simp: sign_checked_link_def Let_def sign_typed_def sign_protocol_token_def
        create_protocol_message_def encode_protocol_token_def sign_messaging_token_request_def
        assert_messaging_token_request_def encode_eip191_signature_def
        split: sum.splits option.splits prod.splits if_splits)
qed (use assms(1) in \<open>simp add: sign_signer_link_def\<close>)

subsection \<open>An honest server\<close>

text \<open>The payload of the frozen auth contract, as JSON carries it: the integers are numbers.\<close>

definition add_domain :: js_object where
  "add_domain =
     [(''name'', V_str ''Farcaster KeyGateway''), (''version'', V_str ''1''),
      (''chainId'', V_num (num_int 10)), (''verifyingContract'', V_str KEY_GATEWAY_ADDRESS)]"

definition add_message :: "(int \<Rightarrow> js_value) \<Rightarrow> jstr \<Rightarrow> int \<Rightarrow> jstr \<Rightarrow> jstr \<Rightarrow> int \<Rightarrow> int \<Rightarrow> js_object" where
  "add_message num owner key_type key metadata nonce deadline =
     [(''owner'', V_str owner), (''keyType'', num key_type), (''key'', V_str key),
      (''metadataType'', num 1), (''metadata'', V_str metadata), (''nonce'', num nonce),
      (''deadline'', num deadline)]"

definition add_payload :: "js_object \<Rightarrow> typed_data" where
  "add_payload message =
     \<lparr>td_domain = add_domain, td_types = [(''Add'', ADD_FIELDS)], td_primary_type = ''Add'',
      td_message = message\<rparr>"

lemma integer_types:
  "\<not> is_integer_type ''address''" "is_integer_type ''uint32''" "\<not> is_integer_type ''bytes''"
  "is_integer_type ''uint8''" "is_integer_type ''uint256''"
  by code_simp+

lemma to_big_int_num: "\<bar>i\<bar> \<le> max_safe_integer \<Longrightarrow> to_big_int (V_num (num_int i)) = Inr i"
  using num_safe_int_Some[of "num_int i" i] by simp

lemma to_signable_add_payload:
  assumes "\<bar>key_type\<bar> \<le> max_safe_integer" "\<bar>nonce\<bar> \<le> max_safe_integer" "\<bar>deadline\<bar> \<le> max_safe_integer"
  shows "to_signable_typed_data coerce
      (add_payload (add_message (\<lambda>i. V_num (num_int i)) owner key_type key metadata nonce deadline))
    = Inr (add_payload (add_message V_bigint owner key_type key metadata nonce deadline))"
proof -
  have one: "to_big_int (V_num (num_int 1)) = Inr 1"
    by (rule to_big_int_num) (simp add: max_safe_integer_def)
  note nums = to_big_int_num[OF assms(1)] to_big_int_num[OF assms(2)] to_big_int_num[OF assms(3)] one
  have "coerce_integer_fields ADD_FIELDS
      (add_message (\<lambda>i. V_num (num_int i)) owner key_type key metadata nonce deadline)
    = Inr (add_message V_bigint owner key_type key metadata nonce deadline)"
    using nums by (simp add: ADD_FIELDS_def add_message_def integer_types js_prop_def
        del: to_big_int.simps of_int_1)
  then show ?thesis
    by (simp add: to_signable_typed_data_def add_payload_def add_domain_def js_prop_def)
qed

lemma key_gateway_add_payload:
  "deadline \<le> latest \<Longrightarrow>
     key_gateway_add (add_payload (add_message V_bigint owner key_type key metadata nonce deadline))
       owner key_type key latest"
  by (simp add: key_gateway_add_def add_payload_def add_domain_def add_message_def js_prop_def)

lemma check_honest:
  assumes derive: "derive_custody_account (se_derive env) phrase (sp_custody_address prepare) = Inr custody"
    and key: "ED25519_PUBLIC_KEY_PATTERN (sp_signer_public_key prepare)"
    and signer: "sp_typed_signer prepare = add_payload (add_message (\<lambda>i. V_num (num_int i))
          (acc_address custody) 1 (sp_signer_public_key prepare) metadata nonce deadline)"
    and auth: "sp_typed_auth_address prepare = add_payload (add_message (\<lambda>i. V_num (num_int i))
          (acc_address custody) 2 (to_auth_address_key auth_address) metadata' nonce' deadline)"
    and deadline: "sp_expires_at prepare = num_int expiry" "deadline \<le> expiry"
      "deadline \<le> now div 1000 + 3900"
    and ranges: "\<bar>nonce\<bar> \<le> max_safe_integer" "\<bar>nonce'\<bar> \<le> max_safe_integer"
      "\<bar>deadline\<bar> \<le> max_safe_integer"
    and site: "sp_auth_domain prepare = PROTOCOL_AUTH_DOMAIN (se_viem env)"
      "sp_auth_uri prepare = PROTOCOL_AUTH_URI (se_viem env)"
  shows "check_signer_link env auth_address phrase prepare now = Inr (custody,
      add_payload (add_message V_bigint (acc_address custody) 1 (sp_signer_public_key prepare)
        metadata nonce deadline),
      add_payload (add_message V_bigint (acc_address custody) 2 (to_auth_address_key auth_address)
        metadata' nonce' deadline))"
proof -
  have latest: "num_to_bigint (latest_add_deadline (sp_expires_at prepare) now)
      = Some (min expiry (now div 1000 + 3900))"
    unfolding latest_add_deadline_def deadline(1) num_min_int num_to_bigint_int
    by (simp add: MAX_ADD_DEADLINE_SECONDS_def CLOCK_SKEW_SECONDS_def)
  have asserts: "assert_key_gateway_add (add_payload (add_message V_bigint owner kt k md n deadline))
      \<lparr>ea_owner = owner, ea_key_type = kt, ea_key = k,
       ea_latest_deadline = latest_add_deadline (sp_expires_at prepare) now\<rparr> = Inr ()" for owner kt k md n
    using key_gateway_add_payload deadline(2,3) by (simp add: assert_key_gateway_add_iff latest)
  have small: "\<bar>1\<bar> \<le> max_safe_integer" "\<bar>2\<bar> \<le> max_safe_integer"
    by (simp_all add: max_safe_integer_def)
  show ?thesis
    unfolding check_signer_link_def derive signer auth Let_def err_bind.simps
      to_signable_add_payload[OF small(1) ranges(1,3)] to_signable_add_payload[OF small(2) ranges(2,3)]
      KEY_TYPE_ED25519_def KEY_TYPE_AUTH_ADDRESS_def asserts
    using key site by simp
qed

lemma resolve_token_expiry_before:
  assumes "\<bar>issued_at\<bar> + 300000 \<le> max_time" "issued_at < t"
  shows "\<exists>e. resolve_token_expiry issued_at (Some DEFAULT_PROTOCOL_TOKEN_TTL_SECONDS) (Some (Some t)) = Some e
    \<and> issued_at < e"
  using assms
  by (auto simp: resolve_token_expiry_eq clamped_ttl_def DEFAULT_PROTOCOL_TOKEN_TTL_SECONDS_def
      time_clip_def min_def max_time_def)

lemma sign_protocol_token_ok:
  assumes fid: "num_safe_int fid = Some n" "0 < n"
    and siwe: "\<And>m. vm_create_siwe vm m \<noteq> None"
    and hex: "\<And>m. vm_hex_to_bytes vm (acc_sign_message signer m) \<noteq> None"
    and time: "\<bar>issued_at\<bar> + 300000 \<le> max_time" "issued_at < t"
  shows "\<exists>token said. sign_protocol_token vm signer fid nonce issued_at
      (Some DEFAULT_PROTOCOL_TOKEN_TTL_SECONDS) (Some (Some t)) = (Inr token, Some said)
    \<and> encode_protocol_token vm said (acc_sign_message signer said) = Inr token"
proof -
  define g where "g = (\<lambda>m. the (vm_create_siwe vm m))"
  have "vm_create_siwe vm = (\<lambda>m. Some (g m))" using siwe by (auto simp: g_def)
  moreover obtain e where "resolve_token_expiry issued_at (Some DEFAULT_PROTOCOL_TOKEN_TTL_SECONDS)
      (Some (Some t)) = Some e" "issued_at < e"
    using resolve_token_expiry_before[OF time] by blast
  ultimately obtain said where said: "create_protocol_message vm (acc_address signer) fid nonce
      (PROTOCOL_AUTH_DOMAIN vm) (PROTOCOL_AUTH_URI vm) issued_at
      (resolve_token_expiry issued_at (Some DEFAULT_PROTOCOL_TOKEN_TTL_SECONDS) (Some (Some t))) = Inr said"
    using fid by (simp add: create_protocol_message_def not_after_issue_def)
  obtain token where "encode_protocol_token vm said (acc_sign_message signer said) = Inr token"
    using hex[of said] by (auto simp: encode_protocol_token_def Let_def)
  then show ?thesis using said by (simp add: sign_protocol_token_def)
qed

lemma sign_messaging_token_ok:
  assumes "\<bar>now\<bar> \<le> max_time"
    and "\<And>m. \<exists>bs. vm_hex_to_bytes vm (acc_sign_message custody m) = Some bs \<and> length bs = 65"
  shows "\<exists>m said. sign_messaging_token_request vm f custody now = (Inr m, Some said)
    \<and> dc_auth_request m = build_messaging_token_request now
    \<and> encode_eip191_signature vm (acc_sign_message custody said) = Inr (dc_auth_signature m)"
proof -
  define said where "said = ''{'' @ quoted ''method'' @ '':'' @ quoted ''generateToken'' @ '',''
      @ quoted ''params'' @ '':{'' @ quoted ''expiresAt'' @ '':'' @ js_of_int (now + 7776000000)
      @ '','' @ quoted ''timestamp'' @ '':'' @ js_of_int now @ ''}}''"
  obtain bs where "vm_hex_to_bytes vm (acc_sign_message custody said) = Some bs" "length bs = 65"
    using assms(2) by blast
  then show ?thesis using messaging_request_signed[OF assms(1) said_def, of vm custody bs f]
    by (auto simp: encode_eip191_signature_def SIGNATURE_PREFIX_def SIGNATURE_BYTE_LENGTH_def)
qed

text \<open>
  Linking works against the server it was written for: when the phrase derives the custody
  account of the response, both payloads are the contract's Adds for it with a deadline inside the
  bounds, the sign-in domain is the client's and the nonce has not expired, the flow succeeds and has
  custody sign exactly four things in this order: the signer's Add, the auth address's Add, the token
  said and the messaging request; each Add's signature is the one returned under its own name, and
  the token it returns encodes that said and its signature.
\<close>

lemma honest_link_completes:
  assumes derive: "se_derive env (normalize_recovery_phrase phrase) = Some custody"
      "js_lower (acc_address custody) = js_lower (sp_custody_address prepare)"
    and key: "ED25519_PUBLIC_KEY_PATTERN (sp_signer_public_key prepare)"
    and signer: "sp_typed_signer prepare = add_payload (add_message (\<lambda>i. V_num (num_int i))
          (acc_address custody) 1 (sp_signer_public_key prepare) metadata nonce deadline)"
    and auth: "sp_typed_auth_address prepare = add_payload (add_message (\<lambda>i. V_num (num_int i))
          (acc_address custody) 2 (to_auth_address_key auth_address) metadata' nonce' deadline)"
    and deadline: "sp_expires_at prepare = num_int expiry" "deadline \<le> expiry"
      "deadline \<le> now div 1000 + 3900"
    and ranges: "\<bar>nonce\<bar> \<le> max_safe_integer" "\<bar>nonce'\<bar> \<le> max_safe_integer"
      "\<bar>deadline\<bar> \<le> max_safe_integer"
    and site: "sp_auth_domain prepare = PROTOCOL_AUTH_DOMAIN (se_viem env)"
      "sp_auth_uri prepare = PROTOCOL_AUTH_URI (se_viem env)"
    and time: "date_of (num_scale 1000 (sp_auth_expires_at prepare)) = Some t" "issued_at < t"
      "\<bar>issued_at\<bar> + 300000 \<le> max_time" "\<bar>messaging_now\<bar> \<le> max_time"
    and fid: "num_safe_int fid = Some n" "0 < n"
    and siwe: "\<And>m. vm_create_siwe (se_viem env) m \<noteq> None"
    and typed: "\<And>td. acc_sign_typed_data custody td \<noteq> None"
    and bytes: "\<And>m. \<exists>bs. vm_hex_to_bytes (se_viem env) (acc_sign_message custody m) = Some bs \<and> length bs = 65"
  shows "\<exists>link token_text request_text.
    sign_signer_link env fid auth_address phrase prepare now issued_at messaging_now = (Inr link,
      [Sign_typed (add_payload (add_message V_bigint (acc_address custody) 1
         (sp_signer_public_key prepare) metadata nonce deadline)),
       Sign_typed (add_payload (add_message V_bigint (acc_address custody) 2
         (to_auth_address_key auth_address) metadata' nonce' deadline)),
       Sign_text token_text, Sign_text request_text])
    \<and> acc_sign_typed_data custody (add_payload (add_message V_bigint (acc_address custody) 1
         (sp_signer_public_key prepare) metadata nonce deadline)) = Some (sl_signer_add_signature link)
    \<and> acc_sign_typed_data custody (add_payload (add_message V_bigint (acc_address custody) 2
         (to_auth_address_key auth_address) metadata' nonce' deadline))
        = Some (sl_auth_address_add_signature link)
    \<and> encode_protocol_token (se_viem env) token_text (acc_sign_message custody token_text)
        = Inr (sl_protocol_auth_token link)
    \<and> dc_auth_request (sl_messaging_token link) = build_messaging_token_request messaging_now
    \<and> encode_eip191_signature (se_viem env) (acc_sign_message custody request_text)
        = Inr (dc_auth_signature (sl_messaging_token link))"
proof -
  have "derive_custody_account (se_derive env) phrase (sp_custody_address prepare) = Inr custody"
    using derive by (simp add: derive_custody_account_Inr)
  note check = check_honest[OF this key signer auth deadline ranges site]
  have hex: "vm_hex_to_bytes (se_viem env) (acc_sign_message custody m) \<noteq> None" for m
    using bytes[of m] by auto
  obtain token said where token: "sign_protocol_token (se_viem env) custody fid (sp_auth_nonce prepare)
      issued_at (Some DEFAULT_PROTOCOL_TOKEN_TTL_SECONDS) (Some (Some t)) = (Inr token, Some said)"
    "encode_protocol_token (se_viem env) said (acc_sign_message custody said) = Inr token"
    using sign_protocol_token_ok[OF fid siwe hex time(3,2)] by blast
  obtain m said' where request: "sign_messaging_token_request (se_viem env) (se_show_frac env) custody
      messaging_now = (Inr m, Some said')" "dc_auth_request m = build_messaging_token_request messaging_now"
      "encode_eip191_signature (se_viem env) (acc_sign_message custody said') = Inr (dc_auth_signature m)"
    using sign_messaging_token_ok[OF time(4) bytes] by blast
  obtain s1 where s1: "acc_sign_typed_data custody (add_payload (add_message V_bigint
      (acc_address custody) 1 (sp_signer_public_key prepare) metadata nonce deadline)) = Some s1"
    using typed by blast
  obtain s2 where s2: "acc_sign_typed_data custody (add_payload (add_message V_bigint
      (acc_address custody) 2 (to_auth_address_key auth_address) metadata' nonce' deadline)) = Some s2"
    using typed by blast
  show ?thesis
    using token request
    by (simp add: sign_signer_link_def check sign_checked_link_def sign_typed_def s1 s2 time(1) Let_def)
qed

subsection \<open>A concrete link\<close>

text \<open>
  A custody account whose signatures are 65 bytes (a typed one tells the key type), a runtime that derives it from one phrase, and a
  prepare response for it.
\<close>

definition demo_custody :: "typed_data account" where
  "demo_custody = \<lparr>acc_address = ''0xCAFE'', acc_sign_message = (\<lambda>m. ''0x'' @ replicate 65 (CHR ''s'')),
     acc_sign_typed_data = (\<lambda>td. Some (if js_prop (td_message td) ''keyType'' = V_bigint 1
       then ''0x01'' else ''0x02''))\<rparr>"

definition demo_env :: signing_env where
  "demo_env = \<lparr>se_viem = plain_viem, se_show_frac = (\<lambda>_. []), se_coerce = (\<lambda>_. None),
     se_derive = (\<lambda>p. if p = ''olive tree'' then Some demo_custody else None)\<rparr>"

definition demo_key :: "char \<Rightarrow> jstr" where
  "demo_key c = ''0x'' @ replicate 64 c"

definition demo_prepare :: "jstr \<Rightarrow> int \<Rightarrow> signer_prepare" where
  "demo_prepare key nonce_expires_at =
     \<lparr>sp_prepare_id = ''p1'', sp_custody_address = ''0xcafe'', sp_signer_public_key = key,
      sp_typed_signer = add_payload (add_message (\<lambda>i. V_num (num_int i)) ''0xCAFE'' 1 key ''0xaa'' 0 1100),
      sp_typed_auth_address = add_payload (add_message (\<lambda>i. V_num (num_int i)) ''0xCAFE'' 2
         (to_auth_address_key ''0xBEEF'') ''0xbb'' 1 1100),
      sp_auth_domain = ''juke.audio'', sp_auth_uri = ''https://juke.audio'', sp_auth_nonce = ''nonce123'',
      sp_auth_expires_at = num_int nonce_expires_at, sp_expires_at = num_int 1200\<rparr>"

lemma demo_phrase: "normalize_recovery_phrase ''  Olive  TREE '' = ''olive tree''"
proof -
  have "js_lower (js_trim ''  Olive  TREE '') = ''olive  tree''" by code_simp
  moreover have "split_spaces ''olive  tree'' = [''olive'', ''tree'']"
    by (subst split_spaces.simps, simp add: js_space_def Let_def)
      (subst split_spaces.simps, simp add: js_space_def Let_def)
  ultimately show ?thesis by (simp add: normalize_recovery_phrase_def)
qed

lemma demo_key_ok: "ED25519_PUBLIC_KEY_PATTERN (demo_key (CHR ''a''))"
  "ED25519_PUBLIC_KEY_PATTERN (demo_key (CHR ''b''))"
  by (simp_all add: ED25519_PUBLIC_KEY_PATTERN_def demo_key_def js_lower_def js_lower_char_def
      list_all_iff js_is_hex_def)

lemma date_of_demo: "date_of (num_scale 1000 (num_int 1100)) = Some 1100000"
  using date_of_int[of 1100000] by (simp add: max_time_def)

definition demo_add :: "jstr \<Rightarrow> typed_data" where
  "demo_add key = add_payload (add_message V_bigint ''0xCAFE'' 1 key ''0xaa'' 0 1100)"

lemma demo_check:
  assumes "ED25519_PUBLIC_KEY_PATTERN key"
  shows "\<exists>b. check_signer_link demo_env ''0xBEEF'' ''  Olive  TREE '' (demo_prepare key nonce_expiry) 1000000
    = Inr (demo_custody, demo_add key, b)"
proof -
  have lower: "js_lower ''0xCAFE'' = js_lower ''0xcafe''" by code_simp
  have "derive_custody_account (se_derive demo_env) ''  Olive  TREE ''
      (sp_custody_address (demo_prepare key nonce_expiry)) = Inr demo_custody"
    unfolding derive_custody_account_Inr demo_phrase
    by (simp add: demo_env_def demo_prepare_def demo_custody_def lower)
  from check_honest[OF this, where auth_address = "''0xBEEF''" and deadline = 1100 and expiry = 1200
      and metadata = "''0xaa''" and nonce = 0 and metadata' = "''0xbb''" and nonce' = 1 and now = 1000000]
  show ?thesis
    using assms
    by (auto simp: demo_prepare_def demo_custody_def demo_env_def plain_viem_def demo_add_def
        max_safe_integer_def)
qed

lemma first_op:
  "acc_sign_typed_data custody a \<noteq> None \<Longrightarrow>
     Sign_typed a \<in> set (snd (sign_checked_link env fid prepare custody a b issued_at messaging_now))"
  by (auto simp: sign_checked_link_def sign_typed_def Let_def split: sum.split option.split prod.split)

lemma demo_first_op:
  assumes "ED25519_PUBLIC_KEY_PATTERN key"
  shows "Sign_typed (demo_add key) \<in> set (snd (sign_signer_link demo_env (num_int 7) ''0xBEEF''
    ''  Olive  TREE '' (demo_prepare key nonce_expiry) 1000000 1000000 1000000))"
proof -
  obtain b where "check_signer_link demo_env ''0xBEEF'' ''  Olive  TREE '' (demo_prepare key nonce_expiry) 1000000
      = Inr (demo_custody, demo_add key, b)"
    using demo_check[OF assms] by blast
  moreover have "acc_sign_typed_data demo_custody td \<noteq> None" for td by (simp add: demo_custody_def)
  ultimately show ?thesis using first_op by (simp add: sign_signer_link_def)
qed

theorem refused_link_signs_nothing_witness:
  "snd (sign_signer_link demo_env (num_int 7) ''0xBEEF'' ''olive'' (demo_prepare (demo_key (CHR ''a'')) 1100)
     1000000 1000000 1000000) = []"
proof (rule refused_link_signs_nothing)
  have "normalize_recovery_phrase ''olive'' = ''olive''"
    by (simp add: normalize_recovery_phrase_def split_spaces.simps[of "js_lower (js_trim ''olive'')"])
      code_simp
  then have "check_signer_link demo_env ''0xBEEF'' ''olive'' (demo_prepare (demo_key (CHR ''a'')) 1100) 1000000
      = Inl Invalid_recovery_phrase_error"
    by (simp add: check_signer_link_def derive_custody_account_def demo_env_def)
  then show "sign_signer_link demo_env (num_int 7) ''0xBEEF'' ''olive'' (demo_prepare (demo_key (CHR ''a'')) 1100)
     1000000 1000000 1000000 = (Inl Invalid_recovery_phrase_error,
       snd (sign_signer_link demo_env (num_int 7) ''0xBEEF'' ''olive''
         (demo_prepare (demo_key (CHR ''a'')) 1100) 1000000 1000000 1000000))"
    by (simp add: sign_signer_link_def)
qed simp

text \<open>
  The signer key is the server's choice: custody signs an Add of an app signer (key type 1) for
  any well-formed Ed25519 key that the prepare response names. The checks pin this browser's auth
  address and the owner, but nothing on the client pins the signer's key.
\<close>

theorem server_chooses_signer_key:
  assumes "ED25519_PUBLIC_KEY_PATTERN key"
  shows "\<exists>td. Sign_typed td \<in> set (snd (sign_signer_link demo_env (num_int 7) ''0xBEEF''
      ''  Olive  TREE '' (demo_prepare key 1100) 1000000 1000000 1000000))
    \<and> key_gateway_add td ''0xCAFE'' 1 key 1100"
  using demo_first_op[OF assms]
  by (intro exI[of _ "demo_add key"]) (simp add: demo_add_def key_gateway_add_payload)

end
