(* ===== verification/Auth_Session.thy ===== *)
theory Auth_Session
  imports Base64 Draft_Storage Messages_Types
begin

section \<open>The signed-in session\<close>

text \<open>
  The in-memory session (\<^verbatim>\<open>lib/auth/session.ts\<close>), the React-facing store
  (\<^verbatim>\<open>lib/stores/authStore.ts\<close>), the single-flight refresh (\<^verbatim>\<open>lib/auth/authRefresh.ts\<close>) and the
  fetch client that retries once after a 401 (\<^verbatim>\<open>lib/api/client.ts\<close>).

  A pending promise is state: the refresh in flight with the generation it started in, and every
  API call with the phase it waits in. The runtime's \<^verbatim>\<open>Date.parse\<close> and \<^verbatim>\<open>JSON.parse\<close> are the
  arguments \<open>date_parse\<close> and \<open>parse\<close> (\<open>None\<close>: \<^verbatim>\<open>NaN\<close>, respectively a thrown syntax error).
\<close>

subsection \<open>session.ts\<close>

record user_response =
  ur_fid :: int
  ur_signer_status :: "jstr option"

record login_response =
  lr_jwt :: jstr
  lr_refresh_token :: "jstr option"
  lr_expires_at :: jstr
  lr_user :: user_response

record auth_session =
  s_jwt :: jstr
  s_expires_at :: js_num
  s_user :: user_response

record js_runtime =
  rt_date_parse :: "jstr \<Rightarrow> int option"
  rt_json_parse :: "jstr \<Rightarrow> js_value option"

definition FALLBACK_LIFETIME_MS :: int where
  "FALLBACK_LIFETIME_MS = 10 * 60 * 1000"

definition base64_unurl :: "char \<Rightarrow> char" where
  "base64_unurl c = (if c = CHR ''-'' then CHR ''+'' else if c = CHR ''_'' then CHR ''/'' else c)"

definition parse_jwt_expiry :: "js_runtime \<Rightarrow> jstr \<Rightarrow> js_num option" where
  "parse_jwt_expiry rt token =
     (case js_split (CHR ''.'') token of
        [_, part, _] \<Rightarrow>
          (let payload = map base64_unurl part;
               padded = payload @ take ((4 - length payload mod 4) mod 4) ''===''
           in case js_atob padded of
                None \<Rightarrow> None
              | Some json \<Rightarrow>
                  if json = [] then None
                  else (case rt_json_parse rt json of
                          Some (V_obj claims) \<Rightarrow>
                            (case js_prop claims ''exp'' of V_num e \<Rightarrow> Some (num_scale 1000 e) | _ \<Rightarrow> None)
                        | _ \<Rightarrow> None))
      | _ \<Rightarrow> None)"

definition resolve_expiry :: "js_runtime \<Rightarrow> int \<Rightarrow> login_response \<Rightarrow> js_num" where
  "resolve_expiry rt now response =
     (case rt_date_parse rt (lr_expires_at response) of
        Some t \<Rightarrow> num_int t
      | None \<Rightarrow>
          (case parse_jwt_expiry rt (lr_jwt response) of
             Some e \<Rightarrow> e
           | None \<Rightarrow> num_int (now + FALLBACK_LIFETIME_MS)))"

definition set_session :: "js_runtime \<Rightarrow> int \<Rightarrow> login_response \<Rightarrow> auth_session option" where
  "set_session rt now response =
     Some \<lparr>s_jwt = lr_jwt response, s_expires_at = resolve_expiry rt now response,
           s_user = lr_user response\<rparr>"

definition get_jwt :: "auth_session option \<Rightarrow> jstr option" where
  "get_jwt s = map_option s_jwt s"

definition get_user :: "auth_session option \<Rightarrow> user_response option" where
  "get_user s = map_option s_user s"

subsection \<open>Requests of the fetch client\<close>

record http_response =
  resp_status :: int
  resp_text :: "jstr option"

definition resp_ok :: "http_response \<Rightarrow> bool" where
  "resp_ok r \<longleftrightarrow> 200 \<le> resp_status r \<and> resp_status r < 300"

definition extract_error_body :: "js_runtime \<Rightarrow> http_response \<Rightarrow> jstr option \<times> jstr option" where
  "extract_error_body rt response =
     (case resp_text response of
        None \<Rightarrow> (None, None)
      | Some t \<Rightarrow>
          if t = [] then (None, None)
          else (case rt_json_parse rt t of
                  Some (V_obj parsed) \<Rightarrow>
                    (case js_prop parsed ''detail'' of
                       V_str d \<Rightarrow> (Some d, (case js_prop parsed ''message'' of V_str m \<Rightarrow> Some m | _ \<Rightarrow> None))
                     | _ \<Rightarrow> (Some t, None))
                | _ \<Rightarrow> (Some t, None)))"

definition handle_response :: "js_runtime \<Rightarrow> http_response \<Rightarrow> js_error + js_value" where
  "handle_response rt response =
     (if \<not> resp_ok response then
        (case extract_error_body rt response of
           (detail, m) \<Rightarrow> Inl (Api_error (resp_status response) detail m))
      else if resp_status response = 204 then Inr V_undefined
      else (case resp_text response of
              None \<Rightarrow> Inl Other_thrown
            | Some t \<Rightarrow>
                if t = [] then Inr V_undefined
                else (case rt_json_parse rt t of
                        None \<Rightarrow> Inl (Plain_error ''SyntaxError'')
                      | Some v \<Rightarrow> Inr v)))"

datatype api_phase =
  Waiting_first
  | Waiting_refresh http_response
  | Waiting_retry
  | Settled "js_error + js_value"

text \<open>\<open>ac_jwts\<close> is the list of requests sent, each with the token it carried.\<close>

record api_call =
  ac_skip_auth_refresh :: bool
  ac_jwts :: "jstr option list"
  ac_phase :: api_phase

subsection \<open>The store\<close>

record auth_state =
  as_session :: "auth_session option"
  as_user :: "user_response option"
  as_is_authenticated :: bool
  as_session_gen :: nat
  as_in_flight :: "nat option"
  as_storage :: "storage option"
  as_calls :: "nat \<rightharpoonup> api_call"

definition initial_auth :: "storage option \<Rightarrow> auth_state" where
  "initial_auth st =
     \<lparr>as_session = None, as_user = None, as_is_authenticated = False, as_session_gen = 0,
      as_in_flight = None, as_storage = st, as_calls = Map.empty\<rparr>"

definition set_auth :: "js_runtime \<Rightarrow> int \<Rightarrow> login_response \<Rightarrow> auth_state \<Rightarrow> auth_state" where
  "set_auth rt now response s =
     s\<lparr>as_session := set_session rt now response, as_user := Some (lr_user response),
       as_is_authenticated := True, as_session_gen := as_session_gen s + 1\<rparr>"

definition apply_refresh :: "js_runtime \<Rightarrow> int \<Rightarrow> login_response \<Rightarrow> auth_state \<Rightarrow> auth_state" where
  "apply_refresh rt now response s =
     s\<lparr>as_session := set_session rt now response, as_user := Some (lr_user response),
       as_is_authenticated := True\<rparr>"

definition logout :: "auth_state \<Rightarrow> auth_state" where
  "logout s =
     s\<lparr>as_session := None, as_storage := clear_all_persisted_drafts (as_storage s),
       as_user := None, as_is_authenticated := False, as_session_gen := as_session_gen s + 1\<rparr>"

definition hydrate :: "auth_state \<Rightarrow> auth_state" where
  "hydrate s =
     s\<lparr>as_user := get_user (as_session s), as_is_authenticated := (get_user (as_session s) \<noteq> None)\<rparr>"

subsection \<open>authRefresh.ts\<close>

text \<open>
  \<^verbatim>\<open>refreshSession\<close> joins the refresh in flight or sends one; \<open>auth_refresh_done\<close> is what happens
  when its request settles, which also clears \<^verbatim>\<open>inFlight\<close>.
\<close>

definition refresh_session :: "auth_state \<Rightarrow> auth_state" where
  "refresh_session s =
     (case as_in_flight s of
        Some _ \<Rightarrow> s
      | None \<Rightarrow> s\<lparr>as_in_flight := Some (as_session_gen s)\<rparr>)"

datatype refresh_outcome =
  Rf_unreachable js_error
  | Rf_response int "js_error + login_response"

datatype refresh_settled =
  Rs_rejected js_error
  | Rs_null
  | Rs_data login_response

definition auth_refresh_done ::
    "js_runtime \<Rightarrow> int \<Rightarrow> nat \<Rightarrow> refresh_outcome \<Rightarrow> auth_state \<Rightarrow> refresh_settled \<times> auth_state" where
  "auth_refresh_done rt now start_gen outcome s =
     (case outcome of
        Rf_unreachable e \<Rightarrow> (Rs_rejected e, s)
      | Rf_response status body \<Rightarrow>
          if status = 401 \<or> status = 403 then
            (Rs_null, if as_session_gen s = start_gen then logout s else s)
          else if \<not> (200 \<le> status \<and> status < 300) then
            (Rs_rejected (Plain_error (''refresh failed: '' @ js_of_int status)), s)
          else
            (case body of
               Inl e \<Rightarrow> (Rs_rejected e, s)
             | Inr data \<Rightarrow>
                 if as_session_gen s \<noteq> start_gen then (Rs_null, s)
                 else (Rs_data data, apply_refresh rt now data s)))"

subsection \<open>client.ts\<close>

definition update_call :: "nat \<Rightarrow> (api_call \<Rightarrow> api_call) \<Rightarrow> auth_state \<Rightarrow> auth_state" where
  "update_call i f s = s\<lparr>as_calls := (as_calls s)(i := map_option f (as_calls s i))\<rparr>"

definition api_fetch :: "nat \<Rightarrow> bool \<Rightarrow> auth_state \<Rightarrow> auth_state" where
  "api_fetch i skip_auth_refresh s =
     s\<lparr>as_calls := (as_calls s)(i \<mapsto>
        \<lparr>ac_skip_auth_refresh = skip_auth_refresh, ac_jwts = [get_jwt (as_session s)],
         ac_phase = Waiting_first\<rparr>)\<rparr>"

text \<open>A response, or the rejection of \<^verbatim>\<open>fetch\<close>, for the request the call waits for.\<close>

definition api_fetch_response ::
    "js_runtime \<Rightarrow> nat \<Rightarrow> js_error + http_response \<Rightarrow> auth_state \<Rightarrow> auth_state" where
  "api_fetch_response rt i r s =
     (case as_calls s i of
        None \<Rightarrow> s
      | Some c \<Rightarrow>
          (case (ac_phase c, r) of
             (Waiting_first, Inl e) \<Rightarrow> update_call i (\<lambda>c. c\<lparr>ac_phase := Settled (Inl e)\<rparr>) s
           | (Waiting_first, Inr response) \<Rightarrow>
               if resp_status response = 401 \<and> \<not> ac_skip_auth_refresh c
               then refresh_session (update_call i (\<lambda>c. c\<lparr>ac_phase := Waiting_refresh response\<rparr>) s)
               else update_call i (\<lambda>c. c\<lparr>ac_phase := Settled (handle_response rt response)\<rparr>) s
           | (Waiting_retry, Inl e) \<Rightarrow> update_call i (\<lambda>c. c\<lparr>ac_phase := Settled (Inl e)\<rparr>) s
           | (Waiting_retry, Inr response) \<Rightarrow>
               update_call i (\<lambda>c. c\<lparr>ac_phase := Settled (handle_response rt response)\<rparr>) s
           | _ \<Rightarrow> s))"

text \<open>The calls that await the refresh resume when it settles.\<close>

definition resume_call :: "js_runtime \<Rightarrow> refresh_settled \<Rightarrow> api_call \<Rightarrow> api_call" where
  "resume_call rt settled c =
     (case ac_phase c of
        Waiting_refresh response \<Rightarrow>
          (case settled of
             Rs_data d \<Rightarrow> c\<lparr>ac_jwts := ac_jwts c @ [Some (lr_jwt d)], ac_phase := Waiting_retry\<rparr>
           | Rs_null \<Rightarrow> c\<lparr>ac_phase := Settled (handle_response rt response)\<rparr>
           | Rs_rejected e \<Rightarrow> c\<lparr>ac_phase := Settled (Inl e)\<rparr>)
      | _ \<Rightarrow> c)"

definition refresh_settles :: "js_runtime \<Rightarrow> int \<Rightarrow> refresh_outcome \<Rightarrow> auth_state \<Rightarrow> auth_state" where
  "refresh_settles rt now outcome s =
     (case as_in_flight s of
        None \<Rightarrow> s
      | Some start_gen \<Rightarrow>
          (case auth_refresh_done rt now start_gen outcome s of
             (settled, s') \<Rightarrow>
               s'\<lparr>as_in_flight := None,
                  as_calls := (\<lambda>i. map_option (resume_call rt settled) (as_calls s' i))\<rparr>))"

subsection \<open>Runs\<close>

datatype auth_event =
  Ev_login int login_response
  | Ev_logout
  | Ev_hydrate
  | Ev_refresh
  | Ev_fetch nat bool
  | Ev_response nat "js_error + http_response"
  | Ev_refresh_settles int refresh_outcome

fun auth_step :: "js_runtime \<Rightarrow> auth_event \<Rightarrow> auth_state \<Rightarrow> auth_state" where
  "auth_step rt (Ev_login now response) s = set_auth rt now response s"
| "auth_step rt Ev_logout s = logout s"
| "auth_step rt Ev_hydrate s = hydrate s"
| "auth_step rt Ev_refresh s = refresh_session s"
| "auth_step rt (Ev_fetch i skip) s = (if as_calls s i = None then api_fetch i skip s else s)"
| "auth_step rt (Ev_response i r) s = api_fetch_response rt i r s"
| "auth_step rt (Ev_refresh_settles now outcome) s = refresh_settles rt now outcome s"

inductive auth_reachable :: "js_runtime \<Rightarrow> auth_state \<Rightarrow> bool" for rt where
  auth_start: "auth_reachable rt (initial_auth st)"
| auth_next: "auth_reachable rt s \<Longrightarrow> auth_reachable rt (auth_step rt ev s)"

definition auth_run :: "js_runtime \<Rightarrow> auth_event list \<Rightarrow> auth_state \<Rightarrow> auth_state" where
  "auth_run rt evs s = fold (auth_step rt) evs s"

lemma auth_run_reachable: "auth_reachable rt s \<Longrightarrow> auth_reachable rt (auth_run rt evs s)"
  unfolding auth_run_def by (induction evs arbitrary: s) (auto intro: auth_next)

subsection \<open>Invariant\<close>

definition call_ok :: "bool \<Rightarrow> api_call \<Rightarrow> bool" where
  "call_ok refreshing c \<longleftrightarrow>
     (case ac_phase c of
        Waiting_first \<Rightarrow> length (ac_jwts c) = 1
      | Waiting_refresh r \<Rightarrow>
          refreshing \<and> length (ac_jwts c) = 1 \<and> resp_status r = 401 \<and> \<not> ac_skip_auth_refresh c
      | Waiting_retry \<Rightarrow> length (ac_jwts c) = 2 \<and> \<not> ac_skip_auth_refresh c
      | Settled _ \<Rightarrow> length (ac_jwts c) = 1 \<or> length (ac_jwts c) = 2 \<and> \<not> ac_skip_auth_refresh c)"

definition mirror_ok :: "auth_state \<Rightarrow> bool" where
  "mirror_ok s \<longleftrightarrow>
     as_user s = get_user (as_session s) \<and> (as_is_authenticated s \<longleftrightarrow> as_session s \<noteq> None)"

definition auth_ok :: "auth_state \<Rightarrow> bool" where
  "auth_ok s \<longleftrightarrow> mirror_ok s \<and> (\<forall>g. as_in_flight s = Some g \<longrightarrow> g \<le> as_session_gen s)
     \<and> (\<forall>i c. as_calls s i = Some c \<longrightarrow> call_ok (as_in_flight s \<noteq> None) c)"

lemmas store_defs = set_auth_def apply_refresh_def logout_def hydrate_def refresh_session_def
  set_session_def get_user_def

lemma call_ok_requests:
  "call_ok b c \<Longrightarrow> length (ac_jwts c) \<le> 2 \<and> (ac_skip_auth_refresh c \<longrightarrow> length (ac_jwts c) = 1)
     \<and> (\<forall>r. ac_phase c = Waiting_refresh r \<longrightarrow> b)"
  by (auto simp: call_ok_def split: api_phase.splits)

lemma call_ok_mono: "call_ok False c \<Longrightarrow> call_ok b c"
  by (auto simp: call_ok_def split: api_phase.splits)

lemma auth_refresh_done_frame:
  assumes "auth_refresh_done rt now g outcome s = (settled, s')"
  shows "as_calls s' = as_calls s" "as_session_gen s \<le> as_session_gen s'" "mirror_ok s \<Longrightarrow> mirror_ok s'"
  using assms
  by (auto simp: auth_refresh_done_def store_defs mirror_ok_def split: refresh_outcome.splits sum.splits if_splits)

lemma call_ok_resume: "call_ok True c \<Longrightarrow> call_ok False (resume_call rt settled c)"
  by (auto simp: call_ok_def resume_call_def split: api_phase.splits refresh_settled.splits)

lemma auth_ok_settles: "auth_ok s \<Longrightarrow> auth_ok (refresh_settles rt now outcome s)"
proof (cases "as_in_flight s")
  case (Some g)
  assume ok: "auth_ok s"
  obtain settled s' where r: "auth_refresh_done rt now g outcome s = (settled, s')"
    by (cases "auth_refresh_done rt now g outcome s")
  note frame = auth_refresh_done_frame[OF r]
  have "call_ok False (resume_call rt settled c)" if "as_calls s' i = Some c" for i c
    using that ok Some frame(1) by (auto simp: auth_ok_def intro: call_ok_resume)
  then show ?thesis
    using ok Some frame(3) by (auto simp: auth_ok_def refresh_settles_def r mirror_ok_def)
qed (simp add: refresh_settles_def)

lemma auth_ok_call:
  assumes "auth_ok s" "call_ok (as_in_flight s \<noteq> None) c"
  shows "auth_ok (s\<lparr>as_calls := (as_calls s)(i \<mapsto> c)\<rparr>)"
  using assms by (auto simp: auth_ok_def mirror_ok_def)

lemma auth_ok_refresh: "auth_ok s \<Longrightarrow> auth_ok (refresh_session s)"
  by (auto simp: auth_ok_def mirror_ok_def refresh_session_def intro: call_ok_mono split: option.splits)

lemma auth_ok_response: "auth_ok s \<Longrightarrow> auth_ok (api_fetch_response rt i r s)"
proof (cases "as_calls s i")
  case (Some c)
  assume ok: "auth_ok s"
  have c: "call_ok (as_in_flight s \<noteq> None) c" using ok Some by (simp add: auth_ok_def)
  have upd: "update_call i f s = s\<lparr>as_calls := (as_calls s)(i \<mapsto> f c)\<rparr>" for f
    using Some by (simp add: update_call_def)
  have settled: "auth_ok (update_call i (\<lambda>c. c\<lparr>ac_phase := Settled x\<rparr>) s)"
    if "ac_phase c = Waiting_first \<or> ac_phase c = Waiting_retry" for x
    unfolding upd using that c by (intro auth_ok_call[OF ok]) (auto simp: call_ok_def)
  have waiting: "auth_ok (refresh_session (update_call i (\<lambda>c. c\<lparr>ac_phase := Waiting_refresh r\<rparr>) s))"
    if "ac_phase c = Waiting_first" "resp_status r = 401" "\<not> ac_skip_auth_refresh c" for r
  proof -
    have "call_ok True (c\<lparr>ac_phase := Waiting_refresh r\<rparr>)" using that c by (simp add: call_ok_def)
    then show ?thesis
      using ok unfolding upd
      by (auto simp: auth_ok_def mirror_ok_def refresh_session_def intro: call_ok_mono split: option.splits)
  qed
  show ?thesis
    using Some settled waiting ok
    by (cases "ac_phase c"; cases r) (auto simp: api_fetch_response_def)
qed (simp add: api_fetch_response_def)

lemma auth_ok_store:
  assumes "auth_ok s"
  shows "auth_ok (set_auth rt now response s)" "auth_ok (logout s)" "auth_ok (hydrate s)"
  using assms by (auto simp: auth_ok_def mirror_ok_def store_defs)

lemma auth_ok_step: "auth_ok s \<Longrightarrow> auth_ok (auth_step rt ev s)"
proof (cases ev)
  case (Ev_fetch i skip)
  assume "auth_ok s"
  then show ?thesis using Ev_fetch
    by (auto simp: api_fetch_def call_ok_def intro!: auth_ok_call)
qed (simp_all add: auth_ok_settles auth_ok_response auth_ok_refresh auth_ok_store)

lemma auth_reachable_ok: "auth_reachable rt s \<Longrightarrow> auth_ok s"
proof (induction rule: auth_reachable.induct)
  case (auth_start st)
  then show ?case by (simp add: auth_ok_def mirror_ok_def initial_auth_def get_user_def)
qed (rule auth_ok_step)

text \<open>
  C13. The store and the secret session never disagree, and a call sends at most two requests: in
  every reachable state React is authenticated exactly when a session is in memory, and sees that
  session's user; a call that waits for a refresh has one in flight to wake it; no call has sent
  more than two requests, and one that opted out of the refresh has sent one.
\<close>

theorem session_mirrored:
  assumes "auth_reachable rt s"
  shows "as_user s = get_user (as_session s) \<and> (as_is_authenticated s \<longleftrightarrow> as_session s \<noteq> None)
    \<and> (\<forall>i c. as_calls s i = Some c \<longrightarrow>
         length (ac_jwts c) \<le> 2 \<and> (ac_skip_auth_refresh c \<longrightarrow> length (ac_jwts c) = 1)
         \<and> (\<forall>r. ac_phase c = Waiting_refresh r \<longrightarrow> as_in_flight s \<noteq> None))"
  using auth_reachable_ok[OF assms] call_ok_requests unfolding auth_ok_def mirror_ok_def by blast

subsection \<open>Generations\<close>

text \<open>A step that is not the settling of the refresh keeps it in flight, and never lowers the generation.\<close>

fun ends_refresh :: "auth_event \<Rightarrow> bool" where
  "ends_refresh (Ev_refresh_settles _ _) = True"
| "ends_refresh _ = False"

fun changes_session :: "auth_event \<Rightarrow> bool" where
  "changes_session (Ev_login _ _) = True"
| "changes_session Ev_logout = True"
| "changes_session _ = False"

lemma update_call_frame [simp]:
  "as_in_flight (update_call i f s) = as_in_flight s"
  "as_session_gen (update_call i f s) = as_session_gen s"
  by (simp_all add: update_call_def)

lemma refresh_session_frame [simp]:
  "as_in_flight s = Some g \<Longrightarrow> refresh_session s = s"
  "as_session_gen (refresh_session s) = as_session_gen s"
  by (auto simp: refresh_session_def split: option.split)

lemma response_frame:
  assumes "as_in_flight s = Some g"
  shows "as_in_flight (api_fetch_response rt i r s) = Some g"
    "as_session_gen (api_fetch_response rt i r s) = as_session_gen s"
  using assms by (auto simp: api_fetch_response_def split: option.split api_phase.split sum.split)

lemma step_in_flight:
  assumes "as_in_flight s = Some g" "\<not> ends_refresh ev"
  shows "as_in_flight (auth_step rt ev s) = Some g"
    "as_session_gen s \<le> as_session_gen (auth_step rt ev s)"
    "changes_session ev \<Longrightarrow> as_session_gen s < as_session_gen (auth_step rt ev s)"
  using assms
  by (cases ev; simp add: response_frame set_auth_def logout_def hydrate_def api_fetch_def)+

lemma run_in_flight:
  assumes "as_in_flight s = Some g" "\<forall>ev \<in> set evs. \<not> ends_refresh ev"
  shows "as_in_flight (auth_run rt evs s) = Some g \<and> as_session_gen s \<le> as_session_gen (auth_run rt evs s)
    \<and> ((\<exists>ev \<in> set evs. changes_session ev) \<longrightarrow> as_session_gen s < as_session_gen (auth_run rt evs s))"
  using assms
proof (induction evs arbitrary: s)
  case (Cons ev evs)
  have step: "as_in_flight (auth_step rt ev s) = Some g"
    "as_session_gen s \<le> as_session_gen (auth_step rt ev s)"
    "changes_session ev \<Longrightarrow> as_session_gen s < as_session_gen (auth_step rt ev s)"
    using step_in_flight[of s g ev rt] Cons.prems by auto
  have rest: "\<forall>ev \<in> set evs. \<not> ends_refresh ev" using Cons.prems(2) by simp
  have "auth_run rt (ev # evs) s = auth_run rt evs (auth_step rt ev s)"
    by (simp add: auth_run_def)
  then show ?case using Cons.IH[OF step(1) rest] step(2,3) by fastforce
qed (simp add: auth_run_def)

text \<open>
  C4. A dead session is not resurrected. If a login or a logout happens while a refresh is in flight,
  then whatever that refresh returns, its settling leaves the session and the user alone: the login
  or the signed-out state stands, and no waiting call is retried with the stale refresh's token.
\<close>

theorem stale_refresh_discarded:
  assumes "auth_reachable rt s" "as_in_flight s = Some g"
    and "\<forall>ev \<in> set evs. \<not> ends_refresh ev" "\<exists>ev \<in> set evs. changes_session ev"
    and t_def: "t = auth_run rt evs s"
  shows "as_session (refresh_settles rt now outcome t) = as_session t
    \<and> as_user (refresh_settles rt now outcome t) = as_user t
    \<and> as_is_authenticated (refresh_settles rt now outcome t) = as_is_authenticated t
    \<and> (\<forall>i c. as_calls (refresh_settles rt now outcome t) i = Some c \<longrightarrow> ac_phase c = Waiting_retry \<longrightarrow>
         as_calls t i = Some c)"
proof -
  have "g \<le> as_session_gen s" using auth_reachable_ok[OF assms(1)] assms(2) by (simp add: auth_ok_def)
  moreover have run: "as_in_flight t = Some g" "as_session_gen s < as_session_gen t"
    using run_in_flight[OF assms(2,3)] assms(4) unfolding t_def by blast+
  ultimately have t: "as_in_flight t = Some g" "as_session_gen t \<noteq> g" by simp_all
  obtain settled t' where r: "auth_refresh_done rt now g outcome t = (settled, t')"
    by (cases "auth_refresh_done rt now g outcome t")
  then have same: "t' = t" and no_data: "\<And>d. settled \<noteq> Rs_data d"
    using t(2) by (auto simp: auth_refresh_done_def split: refresh_outcome.splits sum.splits if_splits)
  have "resume_call rt settled c = c" if "ac_phase (resume_call rt settled c) = Waiting_retry" for c
    using that no_data by (auto simp: resume_call_def split: api_phase.splits refresh_settled.splits)
  then show ?thesis using same t(1) by (auto simp: refresh_settles_def r) metis
qed

text \<open>
  One refresh serves every call that waits for it. When the refresh of the current generation
  returns a session, it becomes the session in memory, no refresh is left in flight, and each call
  that was refused with a 401 in the meantime, however many there are, sends its second and last
  request with the new token.
\<close>

theorem refresh_serves_all_waiters:
  assumes "auth_reachable rt s" "as_in_flight s = Some (as_session_gen s)"
    and "200 \<le> status" "status < 300"
    and t_def: "t = refresh_settles rt now (Rf_response status (Inr d)) s"
  shows "as_session t = set_session rt now d \<and> as_user t = Some (lr_user d) \<and> as_is_authenticated t
    \<and> as_in_flight t = None
    \<and> (\<forall>i c r. as_calls s i = Some c \<longrightarrow> ac_phase c = Waiting_refresh r \<longrightarrow>
         (\<exists>j. ac_jwts c = [j]
           \<and> as_calls t i = Some (c\<lparr>ac_jwts := [j, Some (lr_jwt d)], ac_phase := Waiting_retry\<rparr>)))"
proof -
  have r: "auth_refresh_done rt now (as_session_gen s) (Rf_response status (Inr d)) s
      = (Rs_data d, apply_refresh rt now d s)"
    using assms(3,4) by (simp add: auth_refresh_done_def)
  have t: "t = (apply_refresh rt now d s)\<lparr>as_in_flight := None,
      as_calls := (\<lambda>i. map_option (resume_call rt (Rs_data d)) (as_calls s i))\<rparr>"
    using assms(2) by (simp add: t_def refresh_settles_def r apply_refresh_def)
  have "\<exists>j. ac_jwts c = [j]" if "as_calls s i = Some c" "ac_phase c = Waiting_refresh x" for i c x
  proof -
    have "call_ok (as_in_flight s \<noteq> None) c"
      using auth_reachable_ok[OF assms(1)] that(1) by (simp add: auth_ok_def)
    then show ?thesis using that(2) by (simp add: call_ok_def length_Suc_conv)
  qed
  then show ?thesis by (fastforce simp: t apply_refresh_def resume_call_def)
qed

subsection \<open>Runs of the whole\<close>

definition demo_runtime :: js_runtime where
  "demo_runtime = \<lparr>rt_date_parse = (\<lambda>_. Some 9000), rt_json_parse = (\<lambda>_. None)\<rparr>"

definition demo_login :: "jstr \<Rightarrow> login_response" where
  "demo_login jwt = \<lparr>lr_jwt = jwt, lr_refresh_token = None, lr_expires_at = ''2030'',
     lr_user = \<lparr>ur_fid = 7, ur_signer_status = None\<rparr>\<rparr>"

text \<open>A call is refused with a 401 while signed in: its refresh is in flight.\<close>

definition refused_events :: "auth_event list" where
  "refused_events = [Ev_login 0 (demo_login ''j1''), Ev_fetch 0 False,
     Ev_response 0 (Inr \<lparr>resp_status = 401, resp_text = None\<rparr>)]"

definition refused_state :: auth_state where
  "refused_state = auth_run demo_runtime refused_events (initial_auth None)"

lemma refused_reachable: "auth_reachable demo_runtime refused_state"
  unfolding refused_state_def by (intro auth_run_reachable auth_start)

lemma refused_facts:
  "as_in_flight refused_state = Some 1" "as_session_gen refused_state = 1"
  by (simp_all add: refused_state_def refused_events_def auth_run_def initial_auth_def set_auth_def
      api_fetch_def api_fetch_response_def update_call_def refresh_session_def)

theorem session_mirrored_witness:
  "as_user refused_state = get_user (as_session refused_state)
    \<and> (as_is_authenticated refused_state \<longleftrightarrow> as_session refused_state \<noteq> None)"
  using session_mirrored[OF refused_reachable] by (elim conjE) (rule conjI)

theorem stale_refresh_discarded_witness:
  "as_session (refresh_settles demo_runtime 0 (Rf_response 200 (Inr (demo_login ''j2'')))
      (auth_run demo_runtime [Ev_logout] refused_state))
     = as_session (auth_run demo_runtime [Ev_logout] refused_state)
   \<and> as_session (auth_run demo_runtime [Ev_logout] refused_state) = None"
proof -
  have "as_session (auth_run demo_runtime [Ev_logout] refused_state) = None"
    by (simp add: auth_run_def logout_def)
  then show ?thesis
    using stale_refresh_discarded[OF refused_reachable refused_facts(1), of "[Ev_logout]"
        "auth_run demo_runtime [Ev_logout] refused_state" 0 "Rf_response 200 (Inr (demo_login ''j2''))"]
    by simp
qed

theorem refresh_serves_all_waiters_witness:
  "as_session (refresh_settles demo_runtime 0 (Rf_response 200 (Inr (demo_login ''j2''))) refused_state)
     = set_session demo_runtime 0 (demo_login ''j2'')"
  using refresh_serves_all_waiters[OF refused_reachable _ _ _ refl, of 200 0 "demo_login ''j2''"]
    refused_facts by simp

text \<open>
  Signing out is undone when the server did not hear of it. \<^verbatim>\<open>signOut\<close> swallows a failed
  revocation request, so the refresh cookie stays valid; the next call of any component is sent
  without a token, is refused with a 401, and its refresh, which started after the logout and so
  passes the generation check, signs the user in again without any login.
\<close>

theorem failed_revocation_signs_back_in:
  "\<exists>evs. (\<forall>ev \<in> set evs. \<not> changes_session ev)
     \<and> as_session (auth_run demo_runtime [Ev_login 0 (demo_login ''j1''), Ev_logout] (initial_auth None)) = None
     \<and> as_is_authenticated (auth_run demo_runtime
          ([Ev_login 0 (demo_login ''j1''), Ev_logout] @ evs) (initial_auth None))"
proof (intro exI conjI)
  let ?evs = "[Ev_fetch 0 False, Ev_response 0 (Inr \<lparr>resp_status = 401, resp_text = None\<rparr>),
    Ev_refresh_settles 0 (Rf_response 200 (Inr (demo_login ''j2'')))]"
  show "\<forall>ev \<in> set ?evs. \<not> changes_session ev" by simp
  show "as_session (auth_run demo_runtime [Ev_login 0 (demo_login ''j1''), Ev_logout] (initial_auth None)) = None"
    by (simp add: auth_run_def logout_def)
  show "as_is_authenticated (auth_run demo_runtime
          ([Ev_login 0 (demo_login ''j1''), Ev_logout] @ ?evs) (initial_auth None))"
    by (simp add: auth_run_def initial_auth_def set_auth_def logout_def api_fetch_def
        api_fetch_response_def update_call_def refresh_session_def refresh_settles_def
        auth_refresh_done_def apply_refresh_def)
qed

end
