(* ===== verification/Signer_Link.thy ===== *)
theory Signer_Link
  imports Key_Gateway Auth_Session
begin

section \<open>Linking a browser and signing in\<close>

text \<open>
  The flows of \<^verbatim>\<open>lib/auth/protocolLogin.ts\<close> (error codes, sign-in with the auth address, the
  retried sign-in after a link, the status poll) and of \<^verbatim>\<open>lib/auth/webSignIn.ts\<close> (the two sign-in
  paths built from them).

  A flow is run against a \<open>world\<close>: what the server answers to each request, what the clock reads and
  whether the caller's signal has aborted. It returns its result and the trace of what it did, in
  order. The poll may go on for as long as the clock allows, so it is a partial function: \<open>None\<close> is a
  flow that never settles, and that it does settle is a theorem.
\<close>

subsection \<open>Responses and their errors\<close>

fun object_members :: "js_value \<Rightarrow> js_object option" where
  "object_members (V_obj ps) = Some ps"
| "object_members (V_arr vs) = Some []"
| "object_members _ = None"

fun js_string :: "js_value \<Rightarrow> jstr option" where
  "js_string (V_str s) = Some s"
| "js_string _ = None"

definition first_some :: "'a option \<Rightarrow> 'a option \<Rightarrow> 'a option" where
  "first_some a b = (case a of None \<Rightarrow> b | Some _ \<Rightarrow> a)"

definition extract_error_code :: "js_value \<Rightarrow> jstr option" where
  "extract_error_code body =
     (case object_members body of
        None \<Rightarrow> None
      | Some rec' \<Rightarrow>
          first_some (js_string (js_prop rec' ''detail''))
            (first_some
              (case js_prop rec' ''detail'' of
                 V_obj nested \<Rightarrow>
                   first_some (js_string (js_prop nested ''code'')) (js_string (js_prop nested ''error''))
               | _ \<Rightarrow> None)
              (first_some (js_string (js_prop rec' ''code'')) (js_string (js_prop rec' ''error'')))))"

text \<open>The body is \<^verbatim>\<open>undefined\<close> when it is empty or not JSON; reading it can itself fail.\<close>

definition parse_response :: "js_runtime \<Rightarrow> http_response \<Rightarrow> auth_error + js_value" where
  "parse_response rt response =
     (case resp_text response of
        None \<Rightarrow> Inl (Other_error ''text'')
      | Some t \<Rightarrow>
          (let body = (if t = [] then V_undefined
                       else case rt_json_parse rt t of None \<Rightarrow> V_undefined | Some v \<Rightarrow> v)
           in if \<not> resp_ok response
              then Inl (Auth_request_error (resp_status response) (extract_error_code body))
              else Inr body))"

subsection \<open>The world and the trace\<close>

datatype link_status = Pending | Submitted | Approved | Failed

record world =
  w_prepare :: "auth_error + signer_prepare"
  w_register :: "auth_error + unit"
  w_status :: "nat \<Rightarrow> auth_error + link_status \<times> jstr option"
  w_poll_aborted :: "nat \<Rightarrow> bool"
  w_poll_sleep_aborted :: "nat \<Rightarrow> bool"
  w_poll_now :: "nat \<Rightarrow> int"
  w_nonce :: "nat \<Rightarrow> auth_error + jstr"
  w_login :: "nat \<Rightarrow> auth_error + login_response"
  w_login_aborted :: "nat \<Rightarrow> bool"
  w_login_sleep_aborted :: "nat \<Rightarrow> bool"
  w_login_now :: "nat \<Rightarrow> int"
  w_signing_now :: "nat \<Rightarrow> int"

datatype link_progress = Lp_preparing | Lp_signing | Lp_submitting | Lp_pending | Lp_submitted | Lp_approved

datatype link_event =
  Lk_progress link_progress
  | Lk_prepare js_num jstr
  | Lk_take_phrase
  | Lk_custody custody_op
  | Lk_register jstr signed_link
  | Lk_status jstr
  | Lk_sleep int
  | Lk_nonce
  | Lk_account_signs jstr
  | Lk_login jstr

subsection \<open>protocolLogin.ts: sign-in with the auth address\<close>

definition sign_in_with_auth_address ::
    "viem \<Rightarrow> world \<Rightarrow> nat \<Rightarrow> js_num \<Rightarrow> 'td account option
       \<Rightarrow> (auth_error + login_response) \<times> link_event list" where
  "sign_in_with_auth_address vm w k fid account =
     (case account of
        None \<Rightarrow> (Inl Link_required_error, [])
      | Some acc \<Rightarrow>
          (case w_nonce w k of
             Inl e \<Rightarrow> (Inl e, [Lk_nonce])
           | Inr nonce \<Rightarrow>
               (let (token, said) = sign_protocol_token vm acc fid nonce (w_login_now w k) None None;
                    evs = Lk_nonce # map Lk_account_signs (case said of None \<Rightarrow> [] | Some t \<Rightarrow> [t])
                in case token of
                     Inl e \<Rightarrow> (Inl e, evs)
                   | Inr t \<Rightarrow>
                       (case w_login w k of
                          Inr response \<Rightarrow> (Inr response, evs @ [Lk_login t])
                        | Inl (Auth_request_error status (Some code)) \<Rightarrow>
                            (Inl (if code = ''signer_not_linked'' then Link_required_error
                                  else Auth_request_error status (Some code)), evs @ [Lk_login t])
                        | Inl e \<Rightarrow> (Inl e, evs @ [Lk_login t])))))"

definition POST_LINK_LOGIN_ATTEMPTS :: nat where
  "POST_LINK_LOGIN_ATTEMPTS = 5"

definition POST_LINK_LOGIN_RETRY_DELAY_MS :: int where
  "POST_LINK_LOGIN_RETRY_DELAY_MS = 2000"

text \<open>The loop of \<^verbatim>\<open>signInWithAuthAddressAfterLink\<close>, on the attempts that are left.\<close>

fun login_attempts ::
    "viem \<Rightarrow> world \<Rightarrow> js_num \<Rightarrow> 'td account \<Rightarrow> int \<Rightarrow> nat \<Rightarrow> nat
       \<Rightarrow> (auth_error + login_response) \<times> link_event list" where
  "login_attempts vm w fid account delay_ms 0 k = (Inl Link_required_error, [])"
| "login_attempts vm w fid account delay_ms (Suc left) k =
     (if w_login_aborted w k then (Inl Abort_error, [])
      else
        (case sign_in_with_auth_address vm w k fid (Some account) of
           (Inr response, evs) \<Rightarrow> (Inr response, evs)
         | (Inl e, evs) \<Rightarrow>
             if e \<noteq> Link_required_error \<or> left = 0 then (Inl e, evs)
             else if w_login_sleep_aborted w k then (Inl Abort_error, evs @ [Lk_sleep delay_ms])
             else (case login_attempts vm w fid account delay_ms left (k + 1) of
                     (r, evs') \<Rightarrow> (r, evs @ [Lk_sleep delay_ms] @ evs'))))"

definition sign_in_with_auth_address_after_link ::
    "viem \<Rightarrow> world \<Rightarrow> js_num \<Rightarrow> 'td account \<Rightarrow> nat option \<Rightarrow> int option
       \<Rightarrow> (auth_error + login_response) \<times> link_event list" where
  "sign_in_with_auth_address_after_link vm w fid account attempts delay_ms =
     login_attempts vm w fid account
       (case delay_ms of None \<Rightarrow> POST_LINK_LOGIN_RETRY_DELAY_MS | Some d \<Rightarrow> d)
       (max (case attempts of None \<Rightarrow> POST_LINK_LOGIN_ATTEMPTS | Some a \<Rightarrow> a) 1) 0"

subsection \<open>protocolLogin.ts: the status poll\<close>

definition SIGNER_STATUS_POLL_INTERVAL_MS :: int where
  "SIGNER_STATUS_POLL_INTERVAL_MS = 3000"

definition SIGNER_STATUS_TIMEOUT_MS :: int where
  "SIGNER_STATUS_TIMEOUT_MS = 3 * 60 * 1000"

text \<open>\<^verbatim>\<open>onStatus\<close> of the link flow: the three statuses it shows.\<close>

fun status_progress :: "link_status \<Rightarrow> link_event list" where
  "status_progress Pending = [Lk_progress Lp_pending]"
| "status_progress Submitted = [Lk_progress Lp_submitted]"
| "status_progress Approved = [Lk_progress Lp_approved]"
| "status_progress Failed = []"

partial_function (option) poll_loop ::
    "world \<Rightarrow> jstr \<Rightarrow> int \<Rightarrow> int \<Rightarrow> nat \<Rightarrow> ((auth_error + unit) \<times> link_event list) option" where
  "poll_loop w prepare_id interval deadline k =
     (if w_poll_aborted w k then Some (Inl Abort_error, [])
      else
        (case w_status w k of
           Inl e \<Rightarrow> Some (Inl e, [Lk_status prepare_id])
         | Inr (status, err) \<Rightarrow>
             (let evs = Lk_status prepare_id # status_progress status in
              if status = Approved then Some (Inr (), evs)
              else if status = Failed then Some (Inl (Signer_link_failed_error err), evs)
              else if w_poll_now w (k + 1) + interval > deadline
              then Some (Inl (Signer_link_failed_error (Some ''timeout'')), evs)
              else if w_poll_sleep_aborted w k then Some (Inl Abort_error, evs @ [Lk_sleep interval])
              else Option.bind (poll_loop w prepare_id interval deadline (k + 1))
                     (\<lambda>(r, evs'). Some (r, evs @ [Lk_sleep interval] @ evs')))))"

definition poll_signer_link_until_approved ::
    "world \<Rightarrow> jstr \<Rightarrow> int option \<Rightarrow> int option \<Rightarrow> ((auth_error + unit) \<times> link_event list) option" where
  "poll_signer_link_until_approved w prepare_id interval_ms timeout_ms =
     (let interval = (case interval_ms of None \<Rightarrow> SIGNER_STATUS_POLL_INTERVAL_MS | Some i \<Rightarrow> i);
          timeout = (case timeout_ms of None \<Rightarrow> SIGNER_STATUS_TIMEOUT_MS | Some t \<Rightarrow> t)
      in poll_loop w prepare_id interval (w_poll_now w 0 + timeout) 0)"

subsection \<open>webSignIn.ts\<close>

text \<open>
  \<^verbatim>\<open>linkBrowserWithRecoveryPhrase\<close>, from the account that the store loaded or created, in three
  stages: the prepare request; the signatures and the registration; the poll and the sign-in.
  \<open>phrase\<close> is what \<^verbatim>\<open>takeRecoveryPhrase\<close> hands over.
\<close>

definition link_after_register ::
    "viem \<Rightarrow> world \<Rightarrow> js_num \<Rightarrow> 'td account \<Rightarrow> jstr
       \<Rightarrow> ((auth_error + login_response) \<times> link_event list) option" where
  "link_after_register vm w fid account prepare_id =
     Option.bind (poll_signer_link_until_approved w prepare_id None None)
       (\<lambda>(polled, evs).
         case polled of
           Inl e \<Rightarrow> Some (Inl e, evs)
         | Inr _ \<Rightarrow>
             (case sign_in_with_auth_address_after_link vm w fid account None None of
                (r, evs') \<Rightarrow> Some (r, evs @ evs')))"

fun register_refused :: "auth_error + unit \<Rightarrow> auth_error option" where
  "register_refused (Inr _) = None"
| "register_refused (Inl (Auth_request_error status (Some code))) =
     (if code = ''already_submitted'' then None else Some (Auth_request_error status (Some code)))"
| "register_refused (Inl e) = Some e"

definition link_after_prepare ::
    "signing_env \<Rightarrow> world \<Rightarrow> js_num \<Rightarrow> typed_data account \<Rightarrow> jstr \<Rightarrow> signer_prepare
       \<Rightarrow> ((auth_error + login_response) \<times> link_event list) option" where
  "link_after_prepare env w fid account phrase prepare =
     (case sign_signer_link env fid (acc_address account) phrase prepare
             (w_signing_now w 0) (w_signing_now w 1) (w_signing_now w 2) of
        (signed, ops) \<Rightarrow>
          (let evs = [Lk_progress Lp_signing, Lk_take_phrase] @ map Lk_custody ops in
           case signed of
             Inl e \<Rightarrow> Some (Inl e, evs)
           | Inr link \<Rightarrow>
               (let evs = evs @ [Lk_progress Lp_submitting, Lk_register (sp_prepare_id prepare) link] in
                case register_refused (w_register w) of
                  Some e \<Rightarrow> Some (Inl e, evs)
                | None \<Rightarrow>
                    Option.bind (link_after_register (se_viem env) w fid account (sp_prepare_id prepare))
                      (\<lambda>(r, evs'). Some (r, evs @ evs')))))"

definition link_browser_with_recovery_phrase ::
    "signing_env \<Rightarrow> world \<Rightarrow> js_num \<Rightarrow> typed_data account \<Rightarrow> jstr
       \<Rightarrow> ((auth_error + login_response) \<times> link_event list) option" where
  "link_browser_with_recovery_phrase env w fid account phrase =
     (let evs = [Lk_progress Lp_preparing, Lk_prepare fid (js_lower (acc_address account))] in
      case w_prepare w of
        Inr prepare \<Rightarrow>
          Option.bind (link_after_prepare env w fid account phrase prepare)
            (\<lambda>(r, evs'). Some (r, evs @ evs'))
      | Inl (Auth_request_error status (Some code)) \<Rightarrow>
          if code = ''already_linked'' then
            (case sign_in_with_auth_address (se_viem env) w 0 fid (Some account) of
               (r, evs') \<Rightarrow> Some (r, evs @ [Lk_take_phrase] @ evs'))
          else Some (Inl (Auth_request_error status (Some code)), evs)
      | Inl e \<Rightarrow> Some (Inl e, evs))"

text \<open>
  \<^verbatim>\<open>readLastFid\<close> / \<^verbatim>\<open>writeLastFid\<close> over \<^verbatim>\<open>localStorage\<close>; \<open>to_number\<close> is the runtime's \<^verbatim>\<open>Number\<close> on a
  string.
\<close>

definition LAST_FID_KEY :: jstr where
  "LAST_FID_KEY = ''juke:last-fid''"

definition read_last_fid :: "(jstr \<Rightarrow> js_num) \<Rightarrow> storage option \<Rightarrow> int option" where
  "read_last_fid to_number st =
     (case st of
        None \<Rightarrow> None
      | Some s \<Rightarrow>
          if blocked s then None
          else (case jm_get (entries s) LAST_FID_KEY of
                  None \<Rightarrow> None
                | Some raw \<Rightarrow>
                    if raw = [] then None
                    else (case num_safe_int (to_number raw) of
                            Some fid \<Rightarrow> (if 0 < fid then Some fid else None)
                          | None \<Rightarrow> None)))"

definition write_last_fid :: "int option \<Rightarrow> storage option \<Rightarrow> storage option" where
  "write_last_fid fid st =
     (case st of
        None \<Rightarrow> None
      | Some s \<Rightarrow>
          if blocked s then Some s
          else (case fid of
                  None \<Rightarrow> Some (s\<lparr>entries := jm_delete LAST_FID_KEY (entries s)\<rparr>)
                | Some n \<Rightarrow>
                    if full s then Some s
                    else Some (s\<lparr>entries := jm_set LAST_FID_KEY (js_of_int n) (entries s)\<rparr>)))"

subsection \<open>The loops return\<close>

fun is_status_request :: "link_event \<Rightarrow> bool" where
  "is_status_request (Lk_status _) = True"
| "is_status_request _ = False"

fun is_login_request :: "link_event \<Rightarrow> bool" where
  "is_login_request (Lk_login _) = True"
| "is_login_request _ = False"

definition requests :: "(link_event \<Rightarrow> bool) \<Rightarrow> link_event list \<Rightarrow> nat" where
  "requests p evs = length (filter p evs)"

lemma requests_simps [simp]:
  "requests p [] = 0" "requests p (e # evs) = (if p e then 1 else 0) + requests p evs"
  "requests p (xs @ ys) = requests p xs + requests p ys"
  by (simp_all add: requests_def)

text \<open>Between two readings of the clock there is a sleep of the interval.\<close>

definition poll_clock_ok :: "world \<Rightarrow> int \<Rightarrow> bool" where
  "poll_clock_ok w interval \<longleftrightarrow>
     w_poll_now w 0 \<le> w_poll_now w 1
     \<and> (\<forall>k. w_poll_now w (k + 1) + interval \<le> w_poll_now w (k + 2))"

lemma poll_clock_bound:
  assumes "poll_clock_ok w interval"
  shows "w_poll_now w 0 + int k * interval \<le> w_poll_now w (k + 1)"
proof (induction k)
  case (Suc k)
  have "w_poll_now w (k + 1) + interval \<le> w_poll_now w (Suc k + 1)"
    using assms by (simp add: poll_clock_ok_def)
  then show ?case using Suc by (simp add: algebra_simps)
qed (use assms in \<open>simp add: poll_clock_ok_def\<close>)

definition polled_ok :: "world \<Rightarrow> (auth_error + unit) \<Rightarrow> bool" where
  "polled_ok w r \<longleftrightarrow> (r = Inr () \<longrightarrow> (\<exists>j err. w_status w j = Inr (Approved, err)))"

lemma status_progress_requests [simp]: "requests is_status_request (status_progress s) = 0"
  by (cases s) simp_all

text \<open>One round of the poll settles it, or there is time for another.\<close>

lemma poll_loop_round:
  "(\<exists>r evs. poll_loop w prepare_id interval deadline k = Some (r, evs)
      \<and> requests is_status_request evs \<le> 1 \<and> polled_ok w r)
   \<or> (w_poll_now w (k + 1) + interval \<le> deadline
      \<and> (\<exists>pre. requests is_status_request pre = 1
          \<and> poll_loop w prepare_id interval deadline k =
              Option.bind (poll_loop w prepare_id interval deadline (k + 1)) (\<lambda>(r, evs). Some (r, pre @ evs))))"
proof (cases "w_poll_aborted w k")
  case True
  then show ?thesis by (subst poll_loop.simps) (simp add: polled_ok_def)
next
  case False
  note unfolded = poll_loop.simps[of w prepare_id interval deadline k] False
  show ?thesis
  proof (cases "w_status w k")
    case (Inl e)
    then show ?thesis using unfolded by (simp add: polled_ok_def)
  next
    case (Inr x)
    obtain status err where x: "x = (status, err)" by (cases x)
    let ?pre = "Lk_status prepare_id # status_progress status @ [Lk_sleep interval]"
    consider (approved) "status = Approved" | (failed) "status = Failed"
      | (late) "status \<noteq> Approved" "status \<noteq> Failed" "w_poll_now w (k + 1) + interval > deadline"
      | (aborted) "status \<noteq> Approved" "status \<noteq> Failed" "w_poll_now w (k + 1) + interval \<le> deadline"
          "w_poll_sleep_aborted w k"
      | (again) "status \<noteq> Approved" "status \<noteq> Failed" "w_poll_now w (k + 1) + interval \<le> deadline"
          "\<not> w_poll_sleep_aborted w k"
      by fastforce
    then show ?thesis
    proof cases
      case approved
      then have "\<exists>j err. w_status w j = Inr (Approved, err)" using Inr x by blast
      then show ?thesis using unfolded Inr x approved by (simp add: polled_ok_def)
    next
      case again
      have "poll_loop w prepare_id interval deadline k =
          Option.bind (poll_loop w prepare_id interval deadline (k + 1)) (\<lambda>(r, evs). Some (r, ?pre @ evs))"
        using unfolded Inr x again by (simp add: Let_def)
      moreover have "requests is_status_request ?pre = 1" by simp
      ultimately show ?thesis using again(3) by blast
    qed (use unfolded Inr x in \<open>simp_all add: polled_ok_def Let_def\<close>)
  qed
qed

lemma poll_loop_returns:
  assumes clock: "poll_clock_ok w interval" and interval: "0 < interval"
    and n: "n = nat (timeout div interval)" and timeout: "0 \<le> timeout"
  shows "k \<le> n \<Longrightarrow> \<exists>r evs. poll_loop w prepare_id interval (w_poll_now w 0 + timeout) k = Some (r, evs)
    \<and> requests is_status_request evs \<le> n - k + 1 \<and> polled_ok w r"
proof (induction "n - k" arbitrary: k)
  case 0
  then have k: "k = n" by simp
  have "0 \<le> timeout div interval" using timeout interval by (simp add: pos_imp_zdiv_nonneg_iff)
  then have "int n = timeout div interval" using n by simp
  then have "timeout = int n * interval + timeout mod interval" by simp
  moreover have "timeout mod interval < interval" using interval by simp
  ultimately have "timeout < int n * interval + interval" by linarith
  then have "\<not> w_poll_now w (k + 1) + interval \<le> w_poll_now w 0 + timeout"
    using poll_clock_bound[OF clock, of k] unfolding k by linarith
  then show ?case using poll_loop_round[of w prepare_id interval "w_poll_now w 0 + timeout" k] k by auto
next
  case (Suc d)
  then have less: "d = n - (k + 1)" "k + 1 \<le> n" by auto
  obtain r evs where nxt: "poll_loop w prepare_id interval (w_poll_now w 0 + timeout) (k + 1) = Some (r, evs)"
    "requests is_status_request evs \<le> n - (k + 1) + 1" "polled_ok w r"
    using Suc.hyps(1)[OF less] by blast
  from poll_loop_round[of w prepare_id interval "w_poll_now w 0 + timeout" k]
  show ?case
  proof
    assume "\<exists>r evs. poll_loop w prepare_id interval (w_poll_now w 0 + timeout) k = Some (r, evs)
      \<and> requests is_status_request evs \<le> 1 \<and> polled_ok w r"
    then show ?thesis by fastforce
  next
    assume "w_poll_now w (k + 1) + interval \<le> w_poll_now w 0 + timeout
      \<and> (\<exists>pre. requests is_status_request pre = 1
          \<and> poll_loop w prepare_id interval (w_poll_now w 0 + timeout) k =
              Option.bind (poll_loop w prepare_id interval (w_poll_now w 0 + timeout) (k + 1))
                (\<lambda>(r, evs). Some (r, pre @ evs)))"
    then obtain pre where "requests is_status_request pre = 1"
      "poll_loop w prepare_id interval (w_poll_now w 0 + timeout) k = Some (r, pre @ evs)"
      using nxt(1) by auto
    then show ?thesis using nxt(2,3) less(2) by auto
  qed
qed

lemma sign_in_requests:
  assumes "sign_in_with_auth_address vm w k fid account = (r, evs)"
  shows "requests is_login_request evs \<le> 1" "requests is_status_request evs = 0"
    "Lk_take_phrase \<notin> set evs" "Lk_custody op \<notin> set evs"
    "r = Inr response \<Longrightarrow> w_login w k = Inr response"
  using assms
  by (auto simp: sign_in_with_auth_address_def Let_def
      split: option.splits sum.splits prod.splits auth_error.splits if_splits)

lemma login_attempts_requests:
  assumes "login_attempts vm w fid account delay left k = (r, evs)"
  shows "requests is_login_request evs \<le> left \<and> requests is_status_request evs = 0
    \<and> Lk_take_phrase \<notin> set evs \<and> Lk_custody op \<notin> set evs
    \<and> (\<forall>response. r = Inr response \<longrightarrow> (\<exists>j. w_login w j = Inr response))"
  using assms
proof (induction left arbitrary: k r evs)
  case (Suc left)
  obtain r1 evs1 where one: "sign_in_with_auth_address vm w k fid (Some account) = (r1, evs1)"
    by (cases "sign_in_with_auth_address vm w k fid (Some account)")
  obtain r2 evs2 where rest: "login_attempts vm w fid account delay left (k + 1) = (r2, evs2)"
    by (cases "login_attempts vm w fid account delay left (k + 1)")
  note first = sign_in_requests[OF one] and later = Suc.IH[OF rest]
  show ?case
    using Suc.prems first later one rest by (auto split: if_splits sum.splits)
qed simp

lemma after_link_requests:
  assumes "sign_in_with_auth_address_after_link vm w fid account None None = (r, evs)"
  shows "requests is_login_request evs \<le> 5 \<and> requests is_status_request evs = 0
    \<and> Lk_take_phrase \<notin> set evs \<and> Lk_custody op \<notin> set evs
    \<and> (\<forall>response. r = Inr response \<longrightarrow> (\<exists>j. w_login w j = Inr response))"
  using login_attempts_requests[of vm w fid account POST_LINK_LOGIN_RETRY_DELAY_MS 5 0 r evs op] assms
  by (simp add: sign_in_with_auth_address_after_link_def POST_LINK_LOGIN_ATTEMPTS_def)

fun poll_event :: "link_event \<Rightarrow> bool" where
  "poll_event (Lk_status _) = True"
| "poll_event (Lk_progress _) = True"
| "poll_event (Lk_sleep _) = True"
| "poll_event _ = False"

lemma status_progress_events: "e \<in> set (status_progress s) \<Longrightarrow> poll_event e"
  by (cases s) auto

lemma poll_loop_events:
  assumes "poll_loop w prepare_id interval deadline k = Some x"
  shows "\<forall>e \<in> set (snd x). poll_event e"
proof (rule poll_loop.raw_induct[OF _ assms])
  fix loop w prepare_id interval deadline k x
  assume IH: "\<And>w prepare_id interval deadline k y.
      loop w prepare_id interval deadline k = Some y \<Longrightarrow> \<forall>e \<in> set (snd y). poll_event e"
    and "(if w_poll_aborted w k then Some (Inl Abort_error, [])
      else
        (case w_status w k of
           Inl e \<Rightarrow> Some (Inl e, [Lk_status prepare_id])
         | Inr (status, err) \<Rightarrow>
             (let evs = Lk_status prepare_id # status_progress status in
              if status = Approved then Some (Inr (), evs)
              else if status = Failed then Some (Inl (Signer_link_failed_error err), evs)
              else if w_poll_now w (k + 1) + interval > deadline
              then Some (Inl (Signer_link_failed_error (Some ''timeout'')), evs)
              else if w_poll_sleep_aborted w k then Some (Inl Abort_error, evs @ [Lk_sleep interval])
              else Option.bind (loop w prepare_id interval deadline (k + 1))
                     (\<lambda>(r, evs'). Some (r, evs @ [Lk_sleep interval] @ evs'))))) = Some x"
  then consider
      (settled) "\<forall>e \<in> set (snd x). poll_event e"
    | (again) status y where "loop w prepare_id interval deadline (k + 1) = Some y"
        "snd x = Lk_status prepare_id # status_progress status @ Lk_sleep interval # snd y"
    by (auto simp: Let_def bind_eq_Some_conv status_progress_events
        split: if_splits sum.splits prod.splits)
  then show "\<forall>e \<in> set (snd x). poll_event e"
    using IH by cases (auto dest: status_progress_events)
qed

lemma poll_requests:
  assumes "poll_signer_link_until_approved w prepare_id i t = Some (r, evs)"
  shows "requests is_login_request evs = 0 \<and> Lk_take_phrase \<notin> set evs \<and> Lk_custody op \<notin> set evs"
proof -
  have "\<forall>e \<in> set evs. poll_event e"
    using poll_loop_events assms unfolding poll_signer_link_until_approved_def Let_def by fastforce
  moreover have "poll_event e \<Longrightarrow> \<not> is_login_request e" for e by (cases e) auto
  ultimately show ?thesis unfolding requests_def by (auto simp: filter_empty_conv)
qed

subsection \<open>What comes before a sign-in\<close>

fun sign_in_event :: "link_event \<Rightarrow> bool" where
  "sign_in_event Lk_nonce = True"
| "sign_in_event (Lk_account_signs _) = True"
| "sign_in_event (Lk_login _) = True"
| "sign_in_event _ = False"

text \<open>
  Whenever the flow has just started one of those steps, the last status request it made (the
  \<open>j\<close>-th, from 0) was answered Approved.
\<close>

definition sign_in_after_approval :: "world \<Rightarrow> link_event list \<Rightarrow> bool" where
  "sign_in_after_approval w evs \<longleftrightarrow>
     (\<forall>pre e post. evs = pre @ e # post \<and> sign_in_event e \<longrightarrow>
        (\<exists>j err. requests is_status_request pre = Suc j \<and> w_status w j = Inr (Approved, err)))"

lemma sign_in_after_approvalI:
  assumes "\<And>e. e \<in> set evs \<Longrightarrow> \<not> sign_in_event e"
  shows "sign_in_after_approval w evs"
  using assms unfolding sign_in_after_approval_def by fastforce

lemma requests_0: "requests p xs = 0 \<longleftrightarrow> (\<forall>x \<in> set xs. \<not> p x)"
  by (simp add: requests_def filter_empty_conv)

lemma sign_in_after_approval_append:
  assumes "\<And>e. e \<in> set xs \<Longrightarrow> \<not> sign_in_event e" and "requests is_status_request ys = 0"
    and "requests is_status_request xs = Suc j" "w_status w j = Inr (Approved, err)"
  shows "sign_in_after_approval w (xs @ ys)"
  unfolding sign_in_after_approval_def
proof (intro allI impI)
  fix pre e post
  assume eq: "xs @ ys = pre @ e # post \<and> sign_in_event e"
  then have "e \<notin> set xs" using assms(1) by blast
  then obtain us where "pre = xs @ us" "ys = us @ e # post"
    using eq by (auto simp: append_eq_append_conv2 append_eq_Cons_conv Cons_eq_append_conv)
  then have "requests is_status_request pre = Suc j"
    using assms(2,3) by simp
  then show "\<exists>j err. requests is_status_request pre = Suc j \<and> w_status w j = Inr (Approved, err)"
    using assms(4) by blast
qed

lemma poll_loop_last:
  assumes "poll_loop w prepare_id interval deadline k = Some x"
  shows "fst x = Inr () \<longrightarrow> (\<exists>j err. requests is_status_request (snd x) + k = Suc j
    \<and> w_status w j = Inr (Approved, err))"
proof (rule poll_loop.raw_induct[OF _ assms])
  fix loop w prepare_id interval deadline k x
  assume IH: "\<And>w prepare_id interval deadline k y.
      loop w prepare_id interval deadline k = Some y \<Longrightarrow>
        fst y = Inr () \<longrightarrow> (\<exists>j err. requests is_status_request (snd y) + k = Suc j
          \<and> w_status w j = Inr (Approved, err))"
    and "(if w_poll_aborted w k then Some (Inl Abort_error, [])
      else
        (case w_status w k of
           Inl e \<Rightarrow> Some (Inl e, [Lk_status prepare_id])
         | Inr (status, err) \<Rightarrow>
             (let evs = Lk_status prepare_id # status_progress status in
              if status = Approved then Some (Inr (), evs)
              else if status = Failed then Some (Inl (Signer_link_failed_error err), evs)
              else if w_poll_now w (k + 1) + interval > deadline
              then Some (Inl (Signer_link_failed_error (Some ''timeout'')), evs)
              else if w_poll_sleep_aborted w k then Some (Inl Abort_error, evs @ [Lk_sleep interval])
              else Option.bind (loop w prepare_id interval deadline (k + 1))
                     (\<lambda>(r, evs'). Some (r, evs @ [Lk_sleep interval] @ evs'))))) = Some x"
  then consider (failed) e where "fst x = Inl e"
    | (approved) err where "w_status w k = Inr (Approved, err)" "requests is_status_request (snd x) = 1"
    | (again) y where "loop w prepare_id interval deadline (k + 1) = Some y" "fst x = fst y"
        "requests is_status_request (snd x) = Suc (requests is_status_request (snd y))"
    by (auto simp: Let_def bind_eq_Some_conv split: if_splits sum.splits prod.splits)
  then show "fst x = Inr () \<longrightarrow> (\<exists>j err. requests is_status_request (snd x) + k = Suc j
    \<and> w_status w j = Inr (Approved, err))"
  proof cases
    case again
    then show ?thesis using IH[OF again(1)] by simp
  qed auto
qed

subsection \<open>The whole link\<close>

lemma after_register_order:
  assumes "link_after_register vm w fid account prepare_id = Some (r, evs)"
  shows "sign_in_after_approval w evs"
proof -
  obtain polled evs1 where poll: "poll_signer_link_until_approved w prepare_id None None = Some (polled, evs1)"
    and rest: "(case polled of Inl e \<Rightarrow> Some (Inl e, evs1)
         | Inr _ \<Rightarrow> (case sign_in_with_auth_address_after_link vm w fid account None None of
                (r, evs') \<Rightarrow> Some (r, evs1 @ evs'))) = Some (r, evs)"
    using assms unfolding link_after_register_def bind_eq_Some_conv by auto
  have "\<forall>e \<in> set evs1. poll_event e"
    using poll_loop_events poll unfolding poll_signer_link_until_approved_def Let_def by fastforce
  moreover have "poll_event e \<Longrightarrow> \<not> sign_in_event e" for e by (cases e) auto
  ultimately have quiet: "\<not> sign_in_event e" if "e \<in> set evs1" for e using that by blast
  obtain r2 evs2 where last: "sign_in_with_auth_address_after_link vm w fid account None None = (r2, evs2)"
    by (cases "sign_in_with_auth_address_after_link vm w fid account None None")
  show ?thesis
  proof (cases polled)
    case (Inl e)
    then show ?thesis using rest quiet by (auto intro: sign_in_after_approvalI)
  next
    case (Inr u)
    then obtain j err where "requests is_status_request evs1 = Suc j" "w_status w j = Inr (Approved, err)"
      using poll poll_loop_last unfolding poll_signer_link_until_approved_def Let_def by fastforce
    then show ?thesis
      using rest Inr sign_in_after_approval_append[OF quiet] after_link_requests[OF last] by (auto simp: last)
  qed
qed

lemma sign_in_after_approval_prefix:
  assumes "\<And>e. e \<in> set xs \<Longrightarrow> \<not> sign_in_event e \<and> \<not> is_status_request e" "sign_in_after_approval w ys"
  shows "sign_in_after_approval w (xs @ ys)"
  unfolding sign_in_after_approval_def
proof (intro allI impI)
  fix pre e post
  assume eq: "xs @ ys = pre @ e # post \<and> sign_in_event e"
  then have "e \<notin> set xs" using assms(1) by blast
  then obtain us where "pre = xs @ us" "ys = us @ e # post"
    using eq by (auto simp: append_eq_append_conv2 append_eq_Cons_conv Cons_eq_append_conv)
  moreover have "requests is_status_request xs = 0" using assms(1) by (simp add: requests_0)
  ultimately show "\<exists>j err. requests is_status_request pre = Suc j \<and> w_status w j = Inr (Approved, err)"
    using assms(2) eq unfolding sign_in_after_approval_def by auto
qed

lemma after_prepare_order:
  assumes "link_after_prepare env w fid account phrase prepare = Some (r, evs)"
  shows "sign_in_after_approval w evs"
proof -
  have "sign_in_after_approval w []" by (rule sign_in_after_approvalI) simp
  then consider xs where "evs = xs" "\<forall>e \<in> set xs. \<not> sign_in_event e \<and> \<not> is_status_request e"
    | xs ys r' where "evs = xs @ ys" "\<forall>e \<in> set xs. \<not> sign_in_event e \<and> \<not> is_status_request e"
      "link_after_register (se_viem env) w fid account (sp_prepare_id prepare) = Some (r', ys)"
  proof (cases "sign_signer_link env fid (acc_address account) phrase prepare
      (w_signing_now w 0) (w_signing_now w 1) (w_signing_now w 2)")
    case (Pair signed ops)
    show ?thesis
    proof (cases signed)
      case (Inl e)
      then show ?thesis using assms Pair that(1)[of evs] by (auto simp: link_after_prepare_def)
    next
      case (Inr link)
      let ?xs = "[Lk_progress Lp_signing, Lk_take_phrase] @ map Lk_custody ops
          @ [Lk_progress Lp_submitting, Lk_register (sp_prepare_id prepare) link]"
      show ?thesis
      proof (cases "register_refused (w_register w)")
        case (Some e)
        then show ?thesis using assms Pair Inr that(1)[of evs] by (auto simp: link_after_prepare_def)
      next
        case None
        then show ?thesis using assms Pair Inr that(2)[of ?xs]
          by (fastforce simp: link_after_prepare_def bind_eq_Some_conv)
      qed
    qed
  qed
  then show ?thesis
  proof cases
    case (2 xs ys r')
    then have "sign_in_after_approval w (xs @ ys)"
      by (intro sign_in_after_approval_prefix after_register_order) auto
    then show ?thesis using 2(1) by simp
  qed (auto intro: sign_in_after_approvalI)
qed

lemma after_register_events:
  assumes "link_after_register vm w fid account prepare_id = Some (r, evs)"
  shows "Lk_take_phrase \<notin> set evs \<and> Lk_custody op \<notin> set evs \<and> requests is_login_request evs \<le> 5
    \<and> (\<forall>session. r = Inr session \<longrightarrow> (\<exists>j. w_login w j = Inr session))"
proof -
  obtain polled evs1 where poll: "poll_signer_link_until_approved w prepare_id None None = Some (polled, evs1)"
    and rest: "(case polled of Inl e \<Rightarrow> Some (Inl e, evs1)
         | Inr _ \<Rightarrow> (case sign_in_with_auth_address_after_link vm w fid account None None of
                (r, evs') \<Rightarrow> Some (r, evs1 @ evs'))) = Some (r, evs)"
    using assms unfolding link_after_register_def bind_eq_Some_conv by auto
  obtain r2 evs2 where last: "sign_in_with_auth_address_after_link vm w fid account None None = (r2, evs2)"
    by (cases "sign_in_with_auth_address_after_link vm w fid account None None")
  show ?thesis
    using rest poll_requests[OF poll, of op] after_link_requests[OF last, of op]
    by (cases polled) (auto simp: last)
qed

lemma after_prepare_events:
  assumes "link_after_prepare env w fid account phrase prepare = Some (r, evs)"
    and "sign_signer_link env fid (acc_address account) phrase prepare
          (w_signing_now w 0) (w_signing_now w 1) (w_signing_now w 2) = (signed, ops)"
  shows "requests (\<lambda>e. e = Lk_take_phrase) evs = 1 \<and> requests is_login_request evs \<le> 5
    \<and> (Lk_custody op \<in> set evs \<longrightarrow> op \<in> set ops)
    \<and> (\<forall>session. r = Inr session \<longrightarrow> (\<exists>j. w_login w j = Inr session))"
proof -
  have none: "requests (\<lambda>e. e = Lk_take_phrase) (map Lk_custody ops) = 0"
    "requests is_login_request (map Lk_custody ops) = 0"
    by (simp_all add: requests_def filter_empty_conv)
  have zero: "requests (\<lambda>e. e = Lk_take_phrase) xs = 0" if "Lk_take_phrase \<notin> set xs" for xs
    using that by (auto simp: requests_def filter_empty_conv)
  have stage: "requests (\<lambda>e. e = Lk_take_phrase) xs = 0 \<and> requests is_login_request xs \<le> 5
      \<and> Lk_custody op \<notin> set xs \<and> (\<forall>session. q = Inr session \<longrightarrow> (\<exists>j. w_login w j = Inr session))"
    if "link_after_register (se_viem env) w fid account (sp_prepare_id prepare) = Some (q, xs)" for q xs
    using after_register_events[OF that, of op] zero by blast
  show ?thesis
  proof (cases signed)
    case (Inl e)
    then show ?thesis using assms none by (auto simp: link_after_prepare_def)
  next
    case (Inr link)
    show ?thesis
    proof (cases "register_refused (w_register w)")
      case (Some e)
      then show ?thesis using assms none Inr by (auto simp: link_after_prepare_def)
    next
      case None
      then obtain xs where
        "link_after_register (se_viem env) w fid account (sp_prepare_id prepare) = Some (r, xs)"
        "evs = [Lk_progress Lp_signing, Lk_take_phrase] @ map Lk_custody ops
          @ [Lk_progress Lp_submitting, Lk_register (sp_prepare_id prepare) link] @ xs"
        using assms Inr by (auto simp: link_after_prepare_def bind_eq_Some_conv)
      then show ?thesis using stage[of r xs] none by auto
    qed
  qed
qed

text \<open>
  C2. In the whole link flow, from the prepare request to the sign-in and through every error exit,
  the custody account is asked to sign only what the pinning allows: a KeyGateway Add for the key of
  the prepare response or for this browser's own auth address, with a bounded deadline, a token over
  the client's own domain, or the canonical messaging request; and only the account the phrase
  derives, when it controls the custody address of the response.
\<close>

theorem linking_signs_only_pinned:
  assumes "link_browser_with_recovery_phrase env w fid account phrase = Some (r, evs)"
    and "Lk_custody op \<in> set evs"
  shows "\<exists>prepare custody. w_prepare w = Inr prepare
    \<and> se_derive env (normalize_recovery_phrase phrase) = Some custody
    \<and> js_lower (acc_address custody) = js_lower (sp_custody_address prepare)
    \<and> link_op_ok env fid (acc_address account) prepare (w_signing_now w 0) (w_signing_now w 1)
        (w_signing_now w 2) (acc_address custody) op"
proof (cases "w_prepare w")
  case (Inl e)
  obtain r2 evs2 where "sign_in_with_auth_address (se_viem env) w 0 fid (Some account) = (r2, evs2)"
    by (cases "sign_in_with_auth_address (se_viem env) w 0 fid (Some account)")
  then show ?thesis
    using assms Inl sign_in_requests(4)[of "se_viem env" w 0 fid "Some account" r2 evs2 op]
    by (auto simp: link_browser_with_recovery_phrase_def Let_def split: auth_error.splits option.splits if_splits)
next
  case (Inr prepare)
  obtain signed ops where sign: "sign_signer_link env fid (acc_address account) phrase prepare
      (w_signing_now w 0) (w_signing_now w 1) (w_signing_now w 2) = (signed, ops)"
    by (cases "sign_signer_link env fid (acc_address account) phrase prepare
      (w_signing_now w 0) (w_signing_now w 1) (w_signing_now w 2)")
  have "op \<in> set ops"
    using assms Inr after_prepare_events[OF _ sign, of r _ op]
    by (auto simp: link_browser_with_recovery_phrase_def Let_def bind_eq_Some_conv)
  from custody_signs_only_pinned[OF sign this] Inr show ?thesis by blast
qed

lemma after_register_returns:
  assumes "poll_clock_ok w SIGNER_STATUS_POLL_INTERVAL_MS"
  shows "\<exists>r evs. link_after_register vm w fid account prepare_id = Some (r, evs)
    \<and> requests is_status_request evs \<le> 61
    \<and> (\<forall>session. r = Inr session \<longrightarrow> (\<exists>j err. w_status w j = Inr (Approved, err)))"
proof -
  have "60 = nat (SIGNER_STATUS_TIMEOUT_MS div SIGNER_STATUS_POLL_INTERVAL_MS)"
    by (simp add: SIGNER_STATUS_TIMEOUT_MS_def SIGNER_STATUS_POLL_INTERVAL_MS_def)
  moreover have "0 < SIGNER_STATUS_POLL_INTERVAL_MS" "0 \<le> SIGNER_STATUS_TIMEOUT_MS"
    by (simp_all add: SIGNER_STATUS_TIMEOUT_MS_def SIGNER_STATUS_POLL_INTERVAL_MS_def)
  ultimately obtain polled evs1 where
    loop: "poll_loop w prepare_id SIGNER_STATUS_POLL_INTERVAL_MS
       (w_poll_now w 0 + SIGNER_STATUS_TIMEOUT_MS) 0 = Some (polled, evs1)"
    and bound: "requests is_status_request evs1 \<le> 61" and ok: "polled_ok w polled"
    using poll_loop_returns[OF assms, of 60 SIGNER_STATUS_TIMEOUT_MS 0 prepare_id] by auto
  have poll: "poll_signer_link_until_approved w prepare_id None None = Some (polled, evs1)"
    using loop by (simp add: poll_signer_link_until_approved_def Let_def)
  obtain r2 evs2 where last: "sign_in_with_auth_address_after_link vm w fid account None None = (r2, evs2)"
    by (cases "sign_in_with_auth_address_after_link vm w fid account None None")
  show ?thesis
    using bound ok after_link_requests[OF last]
    by (cases polled) (auto simp: link_after_register_def poll last polled_ok_def)
qed

text \<open>
  C7. Linking always ends. Whatever the server answers, when the clock advances by the poll interval
  across each sleep the flow returns a result; on the way it asks for the status at most 61 times,
  signs in at most five times and takes the recovery phrase at most once. A session it returns is
  the answer to a sign-in request, for a link the server reported as approved or already there; and
  after a prepare that was answered, every step of the sign-in (the nonce, the signature, the login)
  comes when the last of the status requests before it was answered Approved.
\<close>

theorem link_flow_returns:
  assumes "poll_clock_ok w SIGNER_STATUS_POLL_INTERVAL_MS"
  shows "\<exists>r evs. link_browser_with_recovery_phrase env w fid account phrase = Some (r, evs)
    \<and> requests is_status_request evs \<le> 61 \<and> requests is_login_request evs \<le> 5
    \<and> requests (\<lambda>e. e = Lk_take_phrase) evs \<le> 1
    \<and> (\<forall>session. r = Inr session \<longrightarrow> (\<exists>j. w_login w j = Inr session)
        \<and> ((\<exists>j err. w_status w j = Inr (Approved, err))
           \<or> (\<exists>status. w_prepare w = Inl (Auth_request_error status (Some ''already_linked'')))))
    \<and> (\<forall>prepare pre e post. w_prepare w = Inr prepare \<and> evs = pre @ e # post \<and> sign_in_event e \<longrightarrow>
        (\<exists>j err. requests is_status_request pre = Suc j \<and> w_status w j = Inr (Approved, err)))"
proof (cases "w_prepare w")
  case (Inl e)
  obtain r2 evs2 where one: "sign_in_with_auth_address (se_viem env) w 0 fid (Some account) = (r2, evs2)"
    by (cases "sign_in_with_auth_address (se_viem env) w 0 fid (Some account)")
  have "requests (\<lambda>e. e = Lk_take_phrase) evs2 = 0"
    using sign_in_requests(3)[OF one] by (auto simp: requests_def filter_empty_conv)
  then show ?thesis
    using Inl sign_in_requests(1,2,5)[OF one]
    by (auto simp: link_browser_with_recovery_phrase_def Let_def one split: auth_error.split option.split)
next
  case (Inr prepare)
  obtain signed ops where sign: "sign_signer_link env fid (acc_address account) phrase prepare
      (w_signing_now w 0) (w_signing_now w 1) (w_signing_now w 2) = (signed, ops)"
    by (cases "sign_signer_link env fid (acc_address account) phrase prepare
      (w_signing_now w 0) (w_signing_now w 1) (w_signing_now w 2)")
  obtain q xs where "link_after_register (se_viem env) w fid account (sp_prepare_id prepare) = Some (q, xs)"
    "requests is_status_request xs \<le> 61"
    "\<forall>session. q = Inr session \<longrightarrow> (\<exists>j err. w_status w j = Inr (Approved, err))"
    using after_register_returns[OF assms] by blast
  moreover have "requests is_status_request (map Lk_custody ops) = 0"
    by (simp add: requests_def filter_empty_conv)
  ultimately have "\<exists>r evs. link_after_prepare env w fid account phrase prepare = Some (r, evs)
      \<and> requests is_status_request evs \<le> 61
      \<and> (\<forall>session. r = Inr session \<longrightarrow> (\<exists>j err. w_status w j = Inr (Approved, err)))"
    unfolding link_after_prepare_def sign
    by (cases signed; cases "register_refused (w_register w)") auto
  then obtain r evs where after: "link_after_prepare env w fid account phrase prepare = Some (r, evs)"
    "requests is_status_request evs \<le> 61"
    "\<forall>session. r = Inr session \<longrightarrow> (\<exists>j err. w_status w j = Inr (Approved, err))" by blast
  define whole where
    "whole = [Lk_progress Lp_preparing, Lk_prepare fid (js_lower (acc_address account))] @ evs"
  have "sign_in_after_approval w whole"
    unfolding whole_def by (rule sign_in_after_approval_prefix) (auto intro: after_prepare_order[OF after(1)])
  then have order: "\<forall>prepare pre e post. w_prepare w = Inr prepare \<and> whole = pre @ e # post \<and> sign_in_event e \<longrightarrow>
      (\<exists>j err. requests is_status_request pre = Suc j \<and> w_status w j = Inr (Approved, err))"
    unfolding sign_in_after_approval_def by blast
  have "link_browser_with_recovery_phrase env w fid account phrase = Some (r, whole)"
    using after(1) Inr by (simp add: link_browser_with_recovery_phrase_def whole_def)
  moreover have "requests is_status_request whole \<le> 61" "requests is_login_request whole \<le> 5"
    "requests (\<lambda>e. e = Lk_take_phrase) whole \<le> 1"
    using after(2) after_prepare_events[OF after(1) sign] by (simp_all add: whole_def)
  ultimately show ?thesis
    using order after(3) after_prepare_events[OF after(1) sign] by blast
qed

subsection \<open>A link that succeeds\<close>







subsection \<open>A link from end to end\<close>

definition demo_world :: "auth_error + unit \<Rightarrow> world" where
  "demo_world register =
     \<lparr>w_prepare = Inr (demo_prepare (demo_key (CHR ''a'')) 1100), w_register = register,
      w_status = (\<lambda>k. Inr (if k = 0 then Submitted else Approved, None)),
      w_poll_aborted = (\<lambda>_. False), w_poll_sleep_aborted = (\<lambda>_. False),
      w_poll_now = (\<lambda>k. 1000000 + 3000 * int k),
      w_nonce = (\<lambda>_. Inr ''nonce456''), w_login = (\<lambda>_. Inr (demo_login ''j1'')),
      w_login_aborted = (\<lambda>_. False), w_login_sleep_aborted = (\<lambda>_. False),
      w_login_now = (\<lambda>_. 1010000), w_signing_now = (\<lambda>_. 1000000)\<rparr>"

theorem link_flow_returns_witness:
  "\<exists>r evs. link_browser_with_recovery_phrase demo_env (demo_world (Inr ())) (num_int 7) demo_custody
      ''  Olive  TREE '' = Some (r, evs)
    \<and> requests is_status_request evs \<le> 61 \<and> requests is_login_request evs \<le> 5
    \<and> requests (\<lambda>e. e = Lk_take_phrase) evs \<le> 1
    \<and> (\<forall>pre t post. evs = pre @ Lk_login t # post \<longrightarrow>
        2 \<le> requests is_status_request pre)"
proof -
  have "poll_clock_ok (demo_world (Inr ())) SIGNER_STATUS_POLL_INTERVAL_MS"
    by (simp add: poll_clock_ok_def demo_world_def SIGNER_STATUS_POLL_INTERVAL_MS_def)
  from link_flow_returns[OF this, of demo_env "num_int 7" demo_custody "''  Olive  TREE ''"]
  obtain r evs where flow: "link_browser_with_recovery_phrase demo_env (demo_world (Inr ())) (num_int 7)
      demo_custody ''  Olive  TREE '' = Some (r, evs)"
    "requests is_status_request evs \<le> 61" "requests is_login_request evs \<le> 5"
    "requests (\<lambda>e. e = Lk_take_phrase) evs \<le> 1"
    "\<And>pre e post. evs = pre @ e # post \<Longrightarrow> sign_in_event e \<Longrightarrow>
      (\<exists>j err. requests is_status_request pre = Suc j
        \<and> w_status (demo_world (Inr ())) j = Inr (Approved, err))"
    by (auto simp: demo_world_def)
  have "2 \<le> requests is_status_request pre" if "evs = pre @ Lk_login t # post" for pre t post
    using flow(5)[OF that] by (auto simp: demo_world_def split: if_splits)
  then show ?thesis using flow(1-4) by blast
qed







theorem linking_signs_only_pinned_witness:
  "\<exists>prepare custody. w_prepare (demo_world (Inl Abort_error)) = Inr prepare
    \<and> se_derive demo_env (normalize_recovery_phrase ''  Olive  TREE '') = Some custody
    \<and> js_lower (acc_address custody) = js_lower (sp_custody_address prepare)
    \<and> link_op_ok demo_env (num_int 7) (acc_address (plain_account ''0xBEEF'' :: typed_data account)) prepare
        (w_signing_now (demo_world (Inl Abort_error)) 0) (w_signing_now (demo_world (Inl Abort_error)) 1)
        (w_signing_now (demo_world (Inl Abort_error)) 2) (acc_address custody)
        (Sign_typed (demo_add (demo_key (CHR ''a''))))"
proof -
  let ?w = "demo_world (Inl Abort_error)"
  let ?acc = "plain_account ''0xBEEF'' :: typed_data account"
  let ?p = "demo_prepare (demo_key (CHR ''a'')) 1100"
  obtain signed ops where s: "sign_signer_link demo_env (num_int 7) ''0xBEEF'' ''  Olive  TREE '' ?p
      1000000 1000000 1000000 = (signed, ops)"
    by (cases "sign_signer_link demo_env (num_int 7) ''0xBEEF'' ''  Olive  TREE '' ?p 1000000 1000000 1000000")
  then have op: "Sign_typed (demo_add (demo_key (CHR ''a''))) \<in> set ops"
    using demo_first_op[OF demo_key_ok(1), of 1100] by simp
  have w: "w_prepare ?w = Inr ?p" "w_signing_now ?w k = 1000000" "w_register ?w = Inl Abort_error" for k
    by (simp_all add: demo_world_def)
  have acc: "acc_address ?acc = ''0xBEEF''" by (simp add: plain_account_def)
  obtain r evs where "link_after_prepare demo_env ?w (num_int 7) ?acc ''  Olive  TREE '' ?p = Some (r, evs)"
    "\<forall>op \<in> set ops. Lk_custody op \<in> set evs"
    unfolding link_after_prepare_def w acc s by (cases signed) (auto simp: Let_def)
  with op obtain evs' where
    "link_browser_with_recovery_phrase demo_env ?w (num_int 7) ?acc ''  Olive  TREE '' = Some (r, evs')"
    "Lk_custody (Sign_typed (demo_add (demo_key (CHR ''a'')))) \<in> set evs'"
    by (auto simp: link_browser_with_recovery_phrase_def w(1) Let_def)
  from linking_signs_only_pinned[OF this] show ?thesis .
qed

end
