(* ===== verification/Auth_Address.thy ===== *)
theory Auth_Address
  imports Key_Gateway
begin

section \<open>The browser's stored auth address\<close>

text \<open>
  \<^verbatim>\<open>lib/auth/authAddressStore.ts\<close>: the per-FID signing key of a browser, kept encrypted in IndexedDB
  under a wrapping key. The cryptography of the browser and of viem is a record of functions,
  \<open>crypto\<close>; keys and initialisation vectors are numbers. An account is represented by its private
  key. \<open>None\<close> as the result of \<open>decrypt\<close> is a rejected promise.

  \<^verbatim>\<open>loadOrCreate\<close> awaits between its accesses to the database, so other tabs (or another call in the
  same tab) run in between. It is modelled twice: as one function, and as a program whose steps are
  the single accesses.
\<close>

record 'c crypto =
  cr_encrypt :: "nat \<Rightarrow> nat \<Rightarrow> jstr \<Rightarrow> 'c"
  cr_decrypt :: "nat \<Rightarrow> nat \<Rightarrow> 'c \<Rightarrow> jstr option"
  cr_address :: "jstr \<Rightarrow> jstr"

record 'c stored_auth_address =
  sa_address :: jstr
  sa_iv :: nat
  sa_ciphertext :: 'c

record 'c auth_backend =
  ab_wrapping_key :: "nat option"
  ab_records :: "int \<rightharpoonup> 'c stored_auth_address"

text \<open>What the runtime generates for one call.\<close>

record fresh =
  fr_wrapping_key :: nat
  fr_private_key :: jstr
  fr_iv :: nat

definition PRIVATE_KEY_PATTERN :: "jstr \<Rightarrow> bool" where
  "PRIVATE_KEY_PATTERN s \<longleftrightarrow>
     length s = 66 \<and> take 1 s = ''0'' \<and> js_lower (take 1 (drop 1 s)) = ''x'' \<and> list_all js_is_hex (drop 2 s)"

definition assert_fid :: "js_num \<Rightarrow> auth_error + int" where
  "assert_fid fid =
     (case num_safe_int fid of
        None \<Rightarrow> Inl (Range_error ''fid must be a positive integer'')
      | Some n \<Rightarrow> if n \<le> 0 then Inl (Range_error ''fid must be a positive integer'') else Inr n)"

definition delete_record :: "int \<Rightarrow> 'c auth_backend \<Rightarrow> 'c auth_backend" where
  "delete_record fid b = b\<lparr>ab_records := (ab_records b)(fid := None)\<rparr>"

definition put_record :: "int \<Rightarrow> 'c stored_auth_address \<Rightarrow> 'c auth_backend \<Rightarrow> 'c auth_backend" where
  "put_record fid r b = b\<lparr>ab_records := (ab_records b)(fid \<mapsto> r)\<rparr>"

subsection \<open>The operations\<close>

text \<open>The private key of a record under a key: decrypted, well formed, and of the recorded address.\<close>

definition unwrap_record :: "'c crypto \<Rightarrow> nat \<Rightarrow> 'c stored_auth_address \<Rightarrow> jstr option" where
  "unwrap_record cr key r =
     (case cr_decrypt cr key (sa_iv r) (sa_ciphertext r) of
        None \<Rightarrow> None
      | Some private_key \<Rightarrow>
          if \<not> PRIVATE_KEY_PATTERN private_key then None
          else if js_lower (cr_address cr private_key) \<noteq> js_lower (sa_address r) then None
          else Some private_key)"

definition load :: "'c crypto \<Rightarrow> int \<Rightarrow> 'c auth_backend \<Rightarrow> jstr option \<times> 'c auth_backend" where
  "load cr fid b =
     (case ab_records b fid of
        None \<Rightarrow> (None, b)
      | Some r \<Rightarrow>
          (case ab_wrapping_key b of
             None \<Rightarrow> (None, delete_record fid b)
           | Some key \<Rightarrow>
               (case unwrap_record cr key r of
                  None \<Rightarrow> (None, delete_record fid b)
                | Some private_key \<Rightarrow> (Some private_key, b))))"

definition wrapping_key :: "fresh \<Rightarrow> 'c auth_backend \<Rightarrow> nat \<times> 'c auth_backend" where
  "wrapping_key f b =
     (case ab_wrapping_key b of
        Some key \<Rightarrow> (key, b)
      | None \<Rightarrow> (fr_wrapping_key f, b\<lparr>ab_wrapping_key := Some (fr_wrapping_key f)\<rparr>))"

definition new_record :: "'c crypto \<Rightarrow> fresh \<Rightarrow> nat \<Rightarrow> 'c stored_auth_address" where
  "new_record cr f key =
     \<lparr>sa_address = cr_address cr (fr_private_key f), sa_iv = fr_iv f,
      sa_ciphertext = cr_encrypt cr key (fr_iv f) (fr_private_key f)\<rparr>"

definition load_or_create :: "'c crypto \<Rightarrow> fresh \<Rightarrow> int \<Rightarrow> 'c auth_backend \<Rightarrow> jstr \<times> 'c auth_backend" where
  "load_or_create cr f fid b =
     (case load cr fid b of
        (Some private_key, b') \<Rightarrow> (private_key, b')
      | (None, b') \<Rightarrow>
          (case wrapping_key f b' of
             (key, b'') \<Rightarrow> (fr_private_key f, put_record fid (new_record cr f key) b'')))"

definition remove_key :: "js_num \<Rightarrow> 'c auth_backend \<Rightarrow> (auth_error + unit) \<times> 'c auth_backend" where
  "remove_key fid b =
     (case assert_fid fid of Inl e \<Rightarrow> (Inl e, b) | Inr n \<Rightarrow> (Inr (), delete_record n b))"

text \<open>The public \<^verbatim>\<open>load\<close> and \<^verbatim>\<open>loadOrCreate\<close> check the FID first.\<close>

definition checked_load :: "'c crypto \<Rightarrow> js_num \<Rightarrow> 'c auth_backend \<Rightarrow> (auth_error + jstr option) \<times> 'c auth_backend" where
  "checked_load cr fid b =
     (case assert_fid fid of
        Inl e \<Rightarrow> (Inl e, b)
      | Inr n \<Rightarrow> (case load cr n b of (r, b') \<Rightarrow> (Inr r, b')))"

definition checked_load_or_create ::
    "'c crypto \<Rightarrow> fresh \<Rightarrow> js_num \<Rightarrow> 'c auth_backend \<Rightarrow> (auth_error + jstr) \<times> 'c auth_backend" where
  "checked_load_or_create cr f fid b =
     (case assert_fid fid of
        Inl e \<Rightarrow> (Inl e, b)
      | Inr n \<Rightarrow> (case load_or_create cr f n b of (r, b') \<Rightarrow> (Inr r, b')))"

subsection \<open>One access at a time\<close>

datatype 'c create_pc =
  Cp_get_record
  | Cp_get_key "'c stored_auth_address"
  | Cp_delete_record
  | Cp_get_wrapping_key
  | Cp_put_wrapping_key
  | Cp_put_record "'c stored_auth_address"
  | Cp_done jstr

fun create_step :: "'c crypto \<Rightarrow> fresh \<Rightarrow> int \<Rightarrow> 'c create_pc \<times> 'c auth_backend \<Rightarrow> 'c create_pc \<times> 'c auth_backend" where
  "create_step cr f fid (Cp_get_record, b) =
     ((case ab_records b fid of None \<Rightarrow> Cp_get_wrapping_key | Some r \<Rightarrow> Cp_get_key r), b)"
| "create_step cr f fid (Cp_get_key r, b) =
     ((case ab_wrapping_key b of
         None \<Rightarrow> Cp_delete_record
       | Some key \<Rightarrow> (case unwrap_record cr key r of None \<Rightarrow> Cp_delete_record | Some p \<Rightarrow> Cp_done p)), b)"
| "create_step cr f fid (Cp_delete_record, b) = (Cp_get_wrapping_key, delete_record fid b)"
| "create_step cr f fid (Cp_get_wrapping_key, b) =
     ((case ab_wrapping_key b of
         None \<Rightarrow> Cp_put_wrapping_key | Some key \<Rightarrow> Cp_put_record (new_record cr f key)), b)"
| "create_step cr f fid (Cp_put_wrapping_key, b) =
     (Cp_put_record (new_record cr f (fr_wrapping_key f)), b\<lparr>ab_wrapping_key := Some (fr_wrapping_key f)\<rparr>)"
| "create_step cr f fid (Cp_put_record r, b) = (Cp_done (fr_private_key f), put_record fid r b)"
| "create_step cr f fid (Cp_done p, b) = (Cp_done p, b)"

text \<open>Two calls over one database: the schedule says whose access comes next.\<close>

fun create_two ::
    "'c crypto \<Rightarrow> fresh \<Rightarrow> fresh \<Rightarrow> int \<Rightarrow> bool list
       \<Rightarrow> 'c create_pc \<times> 'c create_pc \<times> 'c auth_backend \<Rightarrow> 'c create_pc \<times> 'c create_pc \<times> 'c auth_backend" where
  "create_two cr f g fid [] s = s"
| "create_two cr f g fid (first # schedule) (p, q, b) =
     create_two cr f g fid schedule
       (if first then (case create_step cr f fid (p, b) of (p', b') \<Rightarrow> (p', q, b'))
        else (case create_step cr g fid (q, b) of (q', b') \<Rightarrow> (p, q', b')))"

subsection \<open>Alone\<close>

text \<open>What the store relies on: a sealed text opens under the key and vector it was sealed with.\<close>

definition seals :: "'c crypto \<Rightarrow> bool" where
  "seals cr \<longleftrightarrow> (\<forall>k iv p. cr_decrypt cr k iv (cr_encrypt cr k iv p) = Some p)"

lemma unwrap_new:
  assumes "seals cr" "PRIVATE_KEY_PATTERN (fr_private_key f)"
  shows "unwrap_record cr key (new_record cr f key) = Some (fr_private_key f)"
  using assms by (simp add: unwrap_record_def new_record_def seals_def)

lemma load_cases:
  assumes "load cr fid b = (r, b')"
  shows "r = None \<Longrightarrow> ab_records b' fid = None \<and> ab_wrapping_key b' = ab_wrapping_key b"
    "r = Some p \<Longrightarrow> b' = b"
    "other \<noteq> fid \<Longrightarrow> ab_records b' other = ab_records b other"
  using assms by (auto simp: load_def delete_record_def split: option.splits)

lemma load_after_create:
  assumes "seals cr" "PRIVATE_KEY_PATTERN (fr_private_key f)" "load cr fid b = (None, b1)"
    and "load_or_create cr f fid b = (p, b')"
  shows "p = fr_private_key f \<and> load cr fid b' = (Some p, b')"
proof -
  obtain key b2 where w: "wrapping_key f b1 = (key, b2)" by (cases "wrapping_key f b1")
  then have key: "ab_wrapping_key b2 = Some key" by (auto simp: wrapping_key_def split: option.splits)
  have "p = fr_private_key f" "b' = put_record fid (new_record cr f key) b2"
    using assms(3,4) w by (simp_all add: load_or_create_def)
  then show ?thesis using key unwrap_new[OF assms(1,2)] by (simp add: load_def put_record_def)
qed

text \<open>
  The key a browser creates is the key it finds again. After \<^verbatim>\<open>loadOrCreate\<close> returned an account,
  loading the FID returns that account and changes nothing, asking again creates nothing, whatever
  the runtime would generate, and no other FID's record was touched. It relies on the seal opening
  under its own key and on the runtime generating well-formed private keys.
\<close>

lemma created_key_loads:
  assumes "seals cr" "PRIVATE_KEY_PATTERN (fr_private_key f)"
    and "load_or_create cr f fid b = (p, b')"
  shows "load cr fid b' = (Some p, b') \<and> load_or_create cr g fid b' = (p, b')
    \<and> (\<forall>other. other \<noteq> fid \<longrightarrow> ab_records b' other = ab_records b other)"
proof -
  obtain r b1 where l: "load cr fid b = (r, b1)" by (cases "load cr fid b")
  have loads: "load cr fid b' = (Some p, b')"
  proof (cases r)
    case None
    then show ?thesis using load_after_create[OF assms(1,2)] l assms(3) by blast
  next
    case (Some q)
    then have "b1 = b" using load_cases(2)[OF l] by simp
    then show ?thesis using Some l assms(3) by (simp add: load_or_create_def)
  qed
  have "ab_records b' other = ab_records b other" if "other \<noteq> fid" for other
    using assms(3) l load_cases(3)[OF l that] that
    by (auto simp: load_or_create_def wrapping_key_def put_record_def split: option.splits prod.splits)
  with loads show ?thesis by (simp add: load_or_create_def)
qed

text \<open>A seal that keeps the key and the vector beside the text: it opens only under both.\<close>

definition demo_crypto :: "(nat \<times> nat \<times> jstr) crypto" where
  "demo_crypto = \<lparr>cr_encrypt = (\<lambda>k iv p. (k, iv, p)),
     cr_decrypt = (\<lambda>k iv c. case c of (k', iv', p) \<Rightarrow> if k = k' \<and> iv = iv' then Some p else None),
     cr_address = (\<lambda>p. p)\<rparr>"

definition demo_private :: "char \<Rightarrow> jstr" where
  "demo_private c = ''0x'' @ replicate 64 c"

definition empty_backend :: "'c auth_backend" where
  "empty_backend = \<lparr>ab_wrapping_key = None, ab_records = Map.empty\<rparr>"

lemma demo_private_ok: "PRIVATE_KEY_PATTERN (demo_private (CHR ''a''))"
  by (simp add: PRIVATE_KEY_PATTERN_def demo_private_def js_lower_def js_lower_char_def
      list_all_iff js_is_hex_def)

text \<open>The steps, run without interference, are the function: six accesses are enough.\<close>

lemma steps_alone:
  assumes "load_or_create cr f fid b = (p, b')"
  shows "(create_step cr f fid ^^ 6) (Cp_get_record, b) = (Cp_done p, b')"
  using assms
  by (auto simp: numeral_eq_Suc load_or_create_def load_def wrapping_key_def delete_record_def
      split: option.splits)

subsection \<open>Two tabs\<close>

text \<open>
  Two tabs that create the key at the same time lose it. Starting from an empty database, there
  is an order of the accesses of two \<^verbatim>\<open>loadOrCreate\<close> calls after which both have returned an account,
  and yet the next load finds a record it cannot decrypt, deletes it and returns nothing: each tab
  sealed its key under the wrapping key it generated, and the database kept one tab's wrapping key
  and the other tab's record. Either tab may by then have linked its address on-chain. It holds for
  every cipher that does not open under another key.
\<close>

theorem two_tabs_lose_the_key:
  assumes "cr_decrypt cr (fr_wrapping_key g) (fr_iv f)
      (cr_encrypt cr (fr_wrapping_key f) (fr_iv f) (fr_private_key f)) = None"
  shows "\<exists>schedule b. create_two cr f g fid schedule (Cp_get_record, Cp_get_record, empty_backend)
      = (Cp_done (fr_private_key f), Cp_done (fr_private_key g), b)
    \<and> fst (load cr fid b) = None \<and> ab_records (snd (load cr fid b)) fid = None"
proof -
  let ?schedule = "[True, False, True, False, True, False, False, True]"
  obtain p q b where run: "create_two cr f g fid ?schedule (Cp_get_record, Cp_get_record, empty_backend) = (p, q, b)"
    by (cases "create_two cr f g fid ?schedule (Cp_get_record, Cp_get_record, empty_backend)")
  then have ends: "p = Cp_done (fr_private_key f)" "q = Cp_done (fr_private_key g)"
    and b: "b = \<lparr>ab_wrapping_key = Some (fr_wrapping_key g),
      ab_records = [fid \<mapsto> new_record cr f (fr_wrapping_key f)]\<rparr>"
    by (auto simp: empty_backend_def put_record_def)
  have "unwrap_record cr (fr_wrapping_key g) (new_record cr f (fr_wrapping_key f)) = None"
    using assms by (simp add: unwrap_record_def new_record_def)
  then have "load cr fid b = (None, delete_record fid b)" by (simp add: load_def b)
  then show ?thesis using run ends
    by (intro exI[of _ ?schedule] exI[of _ b]) (simp add: delete_record_def)
qed

theorem two_tabs_lose_the_key_witness:
  "\<exists>schedule b. create_two demo_crypto
        \<lparr>fr_wrapping_key = 1, fr_private_key = demo_private (CHR ''a''), fr_iv = 5\<rparr>
        \<lparr>fr_wrapping_key = 2, fr_private_key = demo_private (CHR ''b''), fr_iv = 6\<rparr> 7 schedule
        (Cp_get_record, Cp_get_record, empty_backend)
      = (Cp_done (demo_private (CHR ''a'')), Cp_done (demo_private (CHR ''b'')), b)
    \<and> fst (load demo_crypto 7 b) = None"
  using two_tabs_lose_the_key[of demo_crypto
      "\<lparr>fr_wrapping_key = 2, fr_private_key = demo_private (CHR ''b''), fr_iv = 6\<rparr>"
      "\<lparr>fr_wrapping_key = 1, fr_private_key = demo_private (CHR ''a''), fr_iv = 5\<rparr>" 7]
  by (auto simp: demo_crypto_def)

end
