(* ===== verification/Web_Sign_In.thy ===== *)
theory Web_Sign_In
  imports Signer_Link Auth_Address
begin

section \<open>Signing in from a browser\<close>

text \<open>
  The composition of \<^verbatim>\<open>lib/auth/webSignIn.ts\<close> with the auth-address store, the FID lookups at the
  end of \<^verbatim>\<open>lib/auth/protocolLogin.ts\<close>, and the read-only rule of \<^verbatim>\<open>lib/auth/signerStatus.ts\<close>.
  \<open>account_of\<close> is viem's \<^verbatim>\<open>privateKeyToAccount\<close>.
\<close>

subsection \<open>The two paths\<close>

definition sign_in_returning_browser ::
    "'c crypto \<Rightarrow> (jstr \<Rightarrow> 'td account) \<Rightarrow> viem \<Rightarrow> world \<Rightarrow> js_num \<Rightarrow> 'c auth_backend
       \<Rightarrow> ((auth_error + login_response) \<times> link_event list) \<times> 'c auth_backend" where
  "sign_in_returning_browser cr account_of vm w fid b =
     (case checked_load cr fid b of
        (Inl e, b') \<Rightarrow> ((Inl e, []), b')
      | (Inr private_key, b') \<Rightarrow>
          (sign_in_with_auth_address vm w 0 fid (map_option account_of private_key), b'))"

definition link_browser ::
    "'c crypto \<Rightarrow> (jstr \<Rightarrow> typed_data account) \<Rightarrow> fresh \<Rightarrow> signing_env \<Rightarrow> world \<Rightarrow> js_num \<Rightarrow> jstr \<Rightarrow> 'c auth_backend
       \<Rightarrow> (((auth_error + login_response) \<times> link_event list) option) \<times> 'c auth_backend" where
  "link_browser cr account_of f env w fid phrase b =
     (case checked_load_or_create cr f fid b of
        (Inl e, b') \<Rightarrow> (Some (Inl e, []), b')
      | (Inr private_key, b') \<Rightarrow>
          (link_browser_with_recovery_phrase env w fid (account_of private_key) phrase, b'))"

subsection \<open>Looking up accounts\<close>

text \<open>\<^verbatim>\<open>lookup\<close> is the public Hypersnap read: the rejection of \<^verbatim>\<open>fetch\<close>, or a status with a parsed body.\<close>

definition js_alnum :: "char \<Rightarrow> bool" where
  "js_alnum c \<longleftrightarrow> js_is_digit c \<or> c \<in> set ''abcdefghijklmnopqrstuvwxyzABCDEFGHIJKLMNOPQRSTUVWXYZ''"

text \<open>\<^verbatim>\<open>/^[a-z0-9][a-z0-9.-]{0,63}$/i\<close>\<close>

definition username_pattern :: "jstr \<Rightarrow> bool" where
  "username_pattern s \<longleftrightarrow>
     s \<noteq> [] \<and> length s \<le> 64 \<and> js_alnum (hd s)
     \<and> list_all (\<lambda>c. js_alnum c \<or> c = CHR ''.'' \<or> c = CHR ''-'') (tl s)"

definition positive_fid :: "js_value \<Rightarrow> int option" where
  "positive_fid v =
     (case safe_integer v of Some n \<Rightarrow> (if 0 < n then Some n else None) | None \<Rightarrow> None)"

definition response_user :: "js_value \<Rightarrow> auth_error + js_value" where
  "response_user body =
     (case body of
        V_obj ps \<Rightarrow> Inr (js_prop ps ''user'')
      | V_null \<Rightarrow> Inl (Other_error ''TypeError'')
      | V_undefined \<Rightarrow> Inl (Other_error ''TypeError'')
      | _ \<Rightarrow> Inr V_undefined)"

definition user_fid :: "js_value \<Rightarrow> js_value" where
  "user_fid user = (case user of V_obj ps \<Rightarrow> js_prop ps ''fid'' | _ \<Rightarrow> V_undefined)"

definition resolve_fid ::
    "(jstr \<Rightarrow> auth_error + int \<times> (auth_error + js_value)) \<Rightarrow> jstr \<Rightarrow> auth_error + int" where
  "resolve_fid lookup query =
     (let t = js_trim query;
          trimmed = (if js_starts_with ''@'' t then drop 1 t else t)
      in if trimmed = [] then Inl (User_not_found_error query)
         else if list_all js_is_digit trimmed then
           (let n = int (js_to_nat trimmed)
            in if n \<le> max_safe_integer \<and> 0 < n then Inr n else Inl (User_not_found_error query))
         else if \<not> username_pattern trimmed then Inl (User_not_found_error query)
         else
           err_bind (lookup (js_lower trimmed)) (\<lambda>(status, json).
             if status = 404 then Inl (User_not_found_error query)
             else if \<not> (200 \<le> status \<and> status < 300)
             then Inl (Auth_request_error status (Some ''lookup_failed''))
             else err_bind json (\<lambda>body. err_bind (response_user body) (\<lambda>user.
               (case positive_fid (user_fid user) of
                  None \<Rightarrow> Inl (User_not_found_error query) | Some n \<Rightarrow> Inr n)))))"

text \<open>\<^verbatim>\<open>/^0x[0-9a-fA-F]{40}$/\<close>\<close>

definition custody_pattern :: "jstr \<Rightarrow> bool" where
  "custody_pattern s \<longleftrightarrow> length s = 42 \<and> take 2 s = ''0x'' \<and> list_all js_is_hex (drop 2 s)"

definition fetch_custody_address ::
    "(int \<Rightarrow> auth_error + int \<times> (auth_error + js_value)) \<Rightarrow> int \<Rightarrow> auth_error + jstr" where
  "fetch_custody_address lookup fid =
     err_bind (lookup fid) (\<lambda>(status, json).
       if \<not> (200 \<le> status \<and> status < 300) then Inl (Auth_request_error status (Some ''lookup_failed''))
       else err_bind json (\<lambda>body.
         (case body of
            V_null \<Rightarrow> Inl (Other_error ''TypeError'')
          | V_undefined \<Rightarrow> Inl (Other_error ''TypeError'')
          | _ \<Rightarrow>
             (let custody = (case body of
                  V_obj ps \<Rightarrow> (case js_prop ps ''users'' of
                      V_arr (V_obj u # _) \<Rightarrow> js_string (js_prop u ''custody_address'') | _ \<Rightarrow> None)
                | _ \<Rightarrow> None)
              in case custody of
                   Some c \<Rightarrow> if custody_pattern c then Inr c else Inl (User_not_found_error (js_of_int fid))
                 | None \<Rightarrow> Inl (User_not_found_error (js_of_int fid))))))"

subsection \<open>Read-only mode\<close>

definition is_signer_read_only :: "user_response option \<Rightarrow> bool" where
  "is_signer_read_only user =
     (case user of None \<Rightarrow> False
      | Some u \<Rightarrow> (case ur_signer_status u of None \<Rightarrow> False | Some s \<Rightarrow> s \<noteq> ''approved''))"

subsection \<open>Properties\<close>

lemma link_prepares:
  assumes "link_browser_with_recovery_phrase env w fid account phrase = Some (r, evs)"
  shows "Lk_prepare fid (js_lower (acc_address account)) \<in> set evs"
  using assms
  by (auto simp: link_browser_with_recovery_phrase_def Let_def bind_eq_Some_conv
      split: sum.splits prod.splits auth_error.splits option.splits if_splits)

text \<open>
  The key that is linked is the key that signs in later. Whatever becomes of the link flow, the
  auth address it asks the server to prepare belongs to a private key that stays in this browser's
  database: from then on the returning sign-in, in any world, uses the account of that key and leaves
  the database alone; it never asks for the phrase again for want of a key. It relies on the seal
  opening under its own key and on the runtime generating well-formed private keys.
\<close>

theorem linked_browser_signs_in_again:
  assumes "seals cr" "PRIVATE_KEY_PATTERN (fr_private_key f)"
    and "num_safe_int fid = Some n" "0 < n"
    and "link_browser cr account_of f env w fid phrase b = (Some (r, evs), b')"
  shows "\<exists>p. Lk_prepare fid (js_lower (acc_address (account_of p))) \<in> set evs
    \<and> (\<forall>w'. sign_in_returning_browser cr account_of (se_viem env) w' fid b'
          = (sign_in_with_auth_address (se_viem env) w' 0 fid (Some (account_of p)), b'))"
proof -
  have fid: "assert_fid fid = Inr n" using assms(3,4) by (simp add: assert_fid_def)
  obtain p c where create: "load_or_create cr f n b = (p, c)" by (cases "load_or_create cr f n b")
  then have "c = b'" and link: "link_browser_with_recovery_phrase env w fid (account_of p) phrase = Some (r, evs)"
    using assms(5) by (auto simp: link_browser_def checked_load_or_create_def fid)
  then have "load cr n b' = (Some p, b')" using created_key_loads[OF assms(1,2) create] by blast
  then show ?thesis
    using link_prepares[OF link]
    by (intro exI[of _ p]) (simp add: sign_in_returning_browser_def checked_load_def fid)
qed

theorem linked_browser_signs_in_again_witness:
  "\<exists>p evs b'. link_browser demo_crypto plain_account
        \<lparr>fr_wrapping_key = 1, fr_private_key = demo_private (CHR ''a''), fr_iv = 5\<rparr>
        demo_env ((demo_world (Inr ()))\<lparr>w_prepare := Inl Abort_error\<rparr>) (num_int 7) [] empty_backend
      = (Some (Inl Abort_error, evs), b')
    \<and> (\<forall>w'. sign_in_returning_browser demo_crypto
            (plain_account :: jstr \<Rightarrow> typed_data account) (se_viem demo_env) w' (num_int 7) b'
          = (sign_in_with_auth_address (se_viem demo_env) w' 0 (num_int 7)
               (Some (plain_account p :: typed_data account)), b'))"
proof -
  let ?f = "\<lparr>fr_wrapping_key = 1, fr_private_key = demo_private (CHR ''a''), fr_iv = 5\<rparr>"
  let ?w = "(demo_world (Inr ()))\<lparr>w_prepare := Inl Abort_error\<rparr>"
  have fid: "num_safe_int (num_int 7) = Some 7" by (simp add: max_safe_integer_def)
  obtain p c where create: "load_or_create demo_crypto ?f 7 empty_backend = (p, c)"
    by (cases "load_or_create demo_crypto ?f 7 empty_backend")
  have afid: "assert_fid (num_int 7) = Inr 7" by (simp add: assert_fid_def max_safe_integer_def)
  have "\<exists>evs. link_browser_with_recovery_phrase demo_env ?w (num_int 7) (plain_account p) []
      = Some (Inl Abort_error, evs)"
    by (simp add: link_browser_with_recovery_phrase_def)
  then obtain evs where link: "link_browser_with_recovery_phrase demo_env ?w (num_int 7) (plain_account p) []
      = Some (Inl Abort_error, evs)" ..
  have run: "link_browser demo_crypto plain_account ?f demo_env ?w (num_int 7) [] empty_backend
      = (Some (Inl Abort_error, evs), c)"
    unfolding link_browser_def checked_load_or_create_def afid
    by (simp only: sum.case create prod.case link)
  have seals: "seals demo_crypto" by (simp add: seals_def demo_crypto_def)
  have key: "PRIVATE_KEY_PATTERN (fr_private_key ?f)" using demo_private_ok by simp
  have "(0 :: int) < 7" by simp
  note linked_browser_signs_in_again[OF seals key fid this run]
  then obtain q where "\<forall>w'. sign_in_returning_browser demo_crypto
            (plain_account :: jstr \<Rightarrow> typed_data account) (se_viem demo_env) w' (num_int 7) c
          = (sign_in_with_auth_address (se_viem demo_env) w' 0 (num_int 7) (Some (plain_account q :: typed_data account)), c)"
    by (elim exE conjE)
  then show ?thesis using run by (intro exI conjI)
qed

lemma num_safe_int_bound: "num_safe_int n = Some i \<Longrightarrow> i \<le> max_safe_integer"
  by (auto simp: num_safe_int_Some)

text \<open>
  A resolved account number is a number a token can be made for: whatever the query and whatever
  the lookup answers, a successful resolution is a positive safe integer; and digits are taken at
  their value without asking the network.
\<close>

theorem resolved_fid_sound:
  "(\<forall>n. resolve_fid lookup query = Inr n \<longrightarrow> 0 < n \<and> n \<le> max_safe_integer)
   \<and> (list_all js_is_digit query \<and> query \<noteq> [] \<and> 0 < js_to_nat query
        \<and> int (js_to_nat query) \<le> max_safe_integer
      \<longrightarrow> resolve_fid lookup query = Inr (int (js_to_nat query)))"
proof (intro conjI allI impI)
  fix n
  assume "resolve_fid lookup query = Inr n"
  then show "0 < n" "n \<le> max_safe_integer"
    by (auto simp: resolve_fid_def Let_def err_bind_Inr positive_fid_def safe_integer_Some
        split: if_splits option.splits prod.splits)
next
  assume q: "list_all js_is_digit query \<and> query \<noteq> [] \<and> 0 < js_to_nat query
      \<and> int (js_to_nat query) \<le> max_safe_integer"
  have no_space: "\<not> js_space c" and no_at: "c \<noteq> CHR ''@''" if "js_is_digit c" for c
    using that by (auto simp: js_is_digit_def js_space_def)
  have "js_trim query = query"
  proof -
    have "\<not> js_space (hd query)" "\<not> js_space (hd (rev query))"
      using q no_space by (metis hd_in_set list_all_iff set_rev rev_is_Nil_conv)+
    then show ?thesis using q
      by (simp add: js_trim_def js_trim_start_def js_trim_end_def dropWhile_fixed)
  qed
  moreover have "\<not> js_starts_with ''@'' query"
    using q no_at by (cases query) (auto simp: js_starts_with_def)
  ultimately show "resolve_fid lookup query = Inr (int (js_to_nat query))"
    using q by (simp add: resolve_fid_def Let_def)
qed

theorem resolved_fid_sound_witness:
  "resolve_fid (\<lambda>u. Inr (404, Inl Abort_error)) ''42'' = Inr (42 :: int)"
proof -
  have n: "js_to_nat ''42'' = 42" by code_simp
  have q: "list_all js_is_digit ''42'' \<and> ''42'' \<noteq> []" by code_simp
  show ?thesis
    using resolved_fid_sound[of "\<lambda>u. Inr (404, Inl Abort_error)" "''42''"] q
    unfolding n by (simp add: max_safe_integer_def)
qed

end
