(* ===== verification/Rate_Limit.thy ===== *)
theory Rate_Limit
  imports JS_Map JS_Value
begin

section \<open>The fixed-window rate limiter\<close>

text \<open>
  \<^verbatim>\<open>landing/lib/security/rateLimit.ts\<close>. The buckets are an insertion-ordered map; a bucket
  object that the code mutates in place is an entry whose key keeps its place. The clock is an
  argument of each call. The specification is a limiter without a bound on the number of keys.
\<close>

record limiter_options =
  lo_limit :: int
  lo_window_ms :: int
  lo_max_keys :: nat

record bucket =
  bk_count :: int
  bk_reset_at_ms :: int

type_synonym buckets = "(jstr, bucket) jsmap"

definition evict_expired :: "int \<Rightarrow> buckets \<Rightarrow> buckets" where
  "evict_expired now bs = filter (\<lambda>(k, b). \<not> bk_reset_at_ms b \<le> now) bs"

definition make_room :: "limiter_options \<Rightarrow> int \<Rightarrow> buckets \<Rightarrow> buckets" where
  "make_room opts now bs =
     (if lo_max_keys opts \<le> jm_size bs then
        (let bs' = evict_expired now bs in
         if lo_max_keys opts \<le> jm_size bs' then
           (case jm_keys bs' of [] \<Rightarrow> bs' | oldest # _ \<Rightarrow> jm_delete oldest bs')
         else bs')
      else bs)"

definition fresh_bucket :: "limiter_options \<Rightarrow> int \<Rightarrow> bucket" where
  "fresh_bucket opts now = \<lparr>bk_count = 1, bk_reset_at_ms = now + lo_window_ms opts\<rparr>"

definition is_allowed :: "limiter_options \<Rightarrow> jstr \<Rightarrow> int \<Rightarrow> buckets \<Rightarrow> bool \<times> buckets" where
  "is_allowed opts key now bs =
     (case jm_get bs key of
        Some existing \<Rightarrow>
          if bk_reset_at_ms existing > now then
            (let counted = existing\<lparr>bk_count := bk_count existing + 1\<rparr>
             in (bk_count counted \<le> lo_limit opts, jm_set key counted bs))
          else (1 \<le> lo_limit opts,
                jm_set key (fresh_bucket opts now) (jm_delete key (make_room opts now bs)))
      | None \<Rightarrow> (1 \<le> lo_limit opts,
                jm_set key (fresh_bucket opts now) (jm_delete key (make_room opts now bs))))"

text \<open>The two headers, as \<^verbatim>\<open>Headers.get\<close> returns them.\<close>

definition client_ip_from_headers :: "jstr option \<Rightarrow> jstr option \<Rightarrow> jstr" where
  "client_ip_from_headers x_real_ip x_forwarded_for =
     (case map_option js_trim x_real_ip of
        Some (c # cs) \<Rightarrow> c # cs
      | _ \<Rightarrow> (case map_option (\<lambda>h. js_trim (hd (js_split (CHR '','') h))) x_forwarded_for of
               Some (c # cs) \<Rightarrow> c # cs
             | _ \<Rightarrow> ''unknown''))"

text \<open>A run of the limiter: its answers to a list of requests.\<close>

fun limiter_run :: "limiter_options \<Rightarrow> (jstr \<times> int) list \<Rightarrow> buckets \<Rightarrow> bool list" where
  "limiter_run opts [] bs = []"
| "limiter_run opts ((k, t) # rs) bs =
     (case is_allowed opts k t bs of (ok, bs') \<Rightarrow> ok # limiter_run opts rs bs')"

fun limiter_state :: "limiter_options \<Rightarrow> (jstr \<times> int) list \<Rightarrow> buckets \<Rightarrow> buckets" where
  "limiter_state opts [] bs = bs"
| "limiter_state opts ((k, t) # rs) bs = limiter_state opts rs (snd (is_allowed opts k t bs))"

subsection \<open>The memory is bounded\<close>

lemma evict_keys: "set (jm_keys (evict_expired now bs)) \<subseteq> set (jm_keys bs)"
  by (auto simp: evict_expired_def jm_keys_def)

lemma evict_size: "jm_size (evict_expired now bs) \<le> jm_size bs"
  by (simp add: evict_expired_def jm_size_def)

lemma distinct_map_filter_keys: "distinct (map fst m) \<Longrightarrow> distinct (map fst (filter P m))"
  by (simp add: distinct_map inj_on_def)

lemma evict_ok: "jm_ok bs \<Longrightarrow> jm_ok (evict_expired now bs)"
  by (simp add: evict_expired_def jm_ok_def distinct_map_filter_keys)

lemma evict_get:
  assumes "jm_ok bs"
  shows "jm_get (evict_expired now bs) k =
    (case jm_get bs k of Some b \<Rightarrow> if bk_reset_at_ms b \<le> now then None else Some b | None \<Rightarrow> None)"
  using assms
  by (induction bs) (auto simp: evict_expired_def jm_get_def jm_ok_def map_of_eq_None_iff
      split: option.splits)

lemma make_room_ok: "jm_ok bs \<Longrightarrow> jm_ok (make_room opts now bs)"
  by (auto simp: make_room_def Let_def evict_ok jm.ok_del split: list.splits)

lemma make_room_size:
  assumes "jm_ok bs" "jm_size bs \<le> max 1 (lo_max_keys opts)"
  shows "Suc (jm_size (make_room opts now bs)) \<le> max 1 (lo_max_keys opts)"
proof (cases "lo_max_keys opts \<le> jm_size (evict_expired now bs) \<and> lo_max_keys opts \<le> jm_size bs")
  case True
  show ?thesis
  proof (cases "jm_keys (evict_expired now bs)")
    case Nil
    then show ?thesis using True by (simp add: make_room_def jm_size_keys)
  next
    case (Cons oldest ks)
    have "jm_keys (jm_delete oldest (evict_expired now bs)) = ks"
      by (rule jm.keys_drop_oldest[OF evict_ok[OF assms(1)] Cons])
    moreover have "Suc (length ks) \<le> jm_size bs"
      using evict_size[of now bs] Cons by (simp add: jm_size_keys)
    ultimately show ?thesis using True Cons assms(2)
      by (simp add: make_room_def jm_size_keys)
  qed
qed (auto simp: make_room_def Let_def)

lemma is_allowed_bounded:
  assumes "jm_ok bs" "jm_size bs \<le> max 1 (lo_max_keys opts)"
  shows "jm_ok (snd (is_allowed opts k t bs))
    \<and> jm_size (snd (is_allowed opts k t bs)) \<le> max 1 (lo_max_keys opts)"
proof -
  let ?new = "jm_set k (fresh_bucket opts t) (jm_delete k (make_room opts t bs))"
  have "jm_ok ?new" by (simp add: make_room_ok[OF assms(1)] jm.ok_refresh)
  moreover have "jm_size ?new \<le> max 1 (lo_max_keys opts)"
    using jm.length_refresh_le[of k _ "make_room opts t bs"] make_room_size[OF assms, of t]
    by (simp add: jm_size_keys) (meson le_trans)
  moreover have "jm_ok (jm_set k b bs) \<and> jm_size (jm_set k b bs) \<le> max 1 (lo_max_keys opts)"
    if "jm_get bs k \<noteq> None" for b
    using that assms jm.keys_get[of k bs] by (simp add: jm.ok_put jm_size_keys jm.keys_put)
  ultimately show ?thesis by (auto simp: is_allowed_def Let_def split: option.splits)
qed

lemma limiter_state_bounded:
  assumes "jm_ok bs" "jm_size bs \<le> max 1 (lo_max_keys opts)"
  shows "jm_ok (limiter_state opts rs bs) \<and> jm_size (limiter_state opts rs bs) \<le> max 1 (lo_max_keys opts)"
  using assms
proof (induction rs arbitrary: bs)
  case (Cons r rs)
  then show ?case using is_allowed_bounded by (cases r) simp
qed simp

subsection \<open>The specification: every key has its own window\<close>

definition live :: "int \<Rightarrow> bucket option \<Rightarrow> bucket option" where
  "live now b = (case b of Some e \<Rightarrow> if bk_reset_at_ms e > now then Some e else None | None \<Rightarrow> None)"

definition window_step :: "limiter_options \<Rightarrow> int \<Rightarrow> bucket option \<Rightarrow> bool \<times> bucket option" where
  "window_step opts now b =
     (case live now b of
        Some e \<Rightarrow> (bk_count e + 1 \<le> lo_limit opts, Some (e\<lparr>bk_count := bk_count e + 1\<rparr>))
      | None \<Rightarrow> (1 \<le> lo_limit opts, Some (fresh_bucket opts now)))"

fun window_run :: "limiter_options \<Rightarrow> (jstr \<times> int) list \<Rightarrow> (jstr \<Rightarrow> bucket option) \<Rightarrow> bool list" where
  "window_run opts [] w = []"
| "window_run opts ((k, t) # rs) w =
     (case window_step opts t (w k) of (ok, b) \<Rightarrow> ok # window_run opts rs (w(k := b)))"

definition agree :: "int \<Rightarrow> buckets \<Rightarrow> (jstr \<Rightarrow> bucket option) \<Rightarrow> bool" where
  "agree now bs w \<longleftrightarrow> (\<forall>k. live now (jm_get bs k) = live now (w k))"

lemma live_mono: "live t b = live t c \<Longrightarrow> t \<le> t' \<Longrightarrow> live t' b = live t' c"
  by (auto simp: live_def split: option.splits if_splits)

lemma live_evicted: "jm_ok bs \<Longrightarrow> live now (jm_get (evict_expired now bs) k) = live now (jm_get bs k)"
  by (auto simp: evict_get live_def split: option.splits)

text \<open>With no more keys than the limiter tracks, making room only removes expired buckets.\<close>

lemma make_room_live:
  assumes "jm_ok bs" "set (jm_keys bs) \<subseteq> K" "finite K" "card K \<le> lo_max_keys opts" "k \<in> K"
    and "live now (jm_get bs k) = None"
  shows "live now (jm_get (make_room opts now bs) k') = live now (jm_get bs k')"
proof (cases "lo_max_keys opts \<le> jm_size bs")
  case True
  have "card (set (jm_keys bs)) = jm_size bs"
    using assms(1) by (simp add: jm_size_keys jm.ok_keys distinct_card)
  then have "set (jm_keys bs) = K"
    using True assms(2-4) card_mono[OF assms(3,2)] by (intro card_subset_eq) auto
  then have "k \<in> set (jm_keys bs)" using assms(5) by simp
  then obtain b where b: "jm_get bs k = Some b" "bk_reset_at_ms b \<le> now"
    using assms(6) jm.keys_get[of k bs] by (auto simp: live_def split: if_splits)
  then have "k \<notin> set (jm_keys (evict_expired now bs))"
    unfolding jm.keys_get by (simp add: evict_get[OF assms(1)])
  then have "set (jm_keys (evict_expired now bs)) \<subseteq> K - {k}"
    using evict_keys[of now bs] assms(2) by blast
  then have "card (set (jm_keys (evict_expired now bs))) < card K"
    using assms(3,5) by (meson card_Diff1_less card_mono finite_Diff le_less_trans)
  then have "jm_size (evict_expired now bs) < lo_max_keys opts"
    using assms(4) evict_ok[OF assms(1), of now] by (simp add: jm_size_keys jm.ok_keys distinct_card)
  then show ?thesis using True by (simp add: make_room_def live_evicted[OF assms(1)])
qed (simp add: make_room_def)

lemma make_room_keys: "set (jm_keys (make_room opts now bs)) \<subseteq> set (jm_keys bs)"
proof (cases "lo_max_keys opts \<le> jm_size bs \<and> lo_max_keys opts \<le> jm_size (evict_expired now bs)")
  case True
  then show ?thesis using evict_keys[of now bs]
    by (auto simp: make_room_def Let_def jm.keys_del split: list.splits)
qed (use evict_keys[of now bs] in \<open>auto simp: make_room_def Let_def\<close>)

lemma is_allowed_agrees:
  assumes "jm_ok bs" "set (jm_keys bs) \<subseteq> K" "finite K" "card K \<le> lo_max_keys opts" "k \<in> K"
    and "agree t bs w" "is_allowed opts k t bs = (ok, bs')" "window_step opts t (w k) = (ok', b)"
  shows "ok = ok' \<and> agree t bs' (w(k := b)) \<and> set (jm_keys bs') \<subseteq> K \<and> jm_ok bs'"
proof (cases "live t (jm_get bs k)")
  case None
  have "jm_ok (make_room opts t bs)" by (rule make_room_ok[OF assms(1)])
  then have "jm_ok (jm_set k (fresh_bucket opts t) (jm_delete k (make_room opts t bs)))"
    by (rule jm.ok_refresh)
  moreover have "is_allowed opts k t bs
      = (1 \<le> lo_limit opts, jm_set k (fresh_bucket opts t) (jm_delete k (make_room opts t bs)))"
    using None by (auto simp: is_allowed_def live_def split: option.splits if_splits)
  moreover have "window_step opts t (w k) = (1 \<le> lo_limit opts, Some (fresh_bucket opts t))"
    using None assms(6) by (simp add: window_step_def agree_def)
  ultimately show ?thesis
    using assms(2,5,6-8) make_room_live[OF assms(1-5) None] make_room_keys[of opts t bs]
    by (auto simp: agree_def jm.get_refresh jm.keys_refresh)
next
  case (Some e)
  then have e: "jm_get bs k = Some e" "bk_reset_at_ms e > t"
    by (auto simp: live_def split: option.splits if_splits)
  let ?e = "e\<lparr>bk_count := bk_count e + 1\<rparr>"
  have "is_allowed opts k t bs = (bk_count e + 1 \<le> lo_limit opts, jm_set k ?e bs)"
    by (simp add: is_allowed_def e)
  moreover have "window_step opts t (w k) = (bk_count e + 1 \<le> lo_limit opts, Some ?e)"
    using Some assms(6) by (simp add: window_step_def agree_def)
  ultimately show ?thesis
    using assms(1,2,5-8) by (auto simp: agree_def jm.get_put jm.keys_put jm.ok_put)
qed

lemma limiter_run_agrees:
  assumes "jm_ok bs" "set (jm_keys bs) \<subseteq> K" "finite K" "card K \<le> lo_max_keys opts"
    and "fst ` set rs \<subseteq> K" "sorted (map snd rs)" "rs \<noteq> [] \<Longrightarrow> agree (snd (hd rs)) bs w"
  shows "limiter_run opts rs bs = window_run opts rs w"
  using assms
proof (induction rs arbitrary: bs w)
  case (Cons r rs)
  obtain k t where r: "r = (k, t)" by (cases r)
  obtain ok bs' where a: "is_allowed opts k t bs = (ok, bs')" by (cases "is_allowed opts k t bs")
  obtain ok' b where s: "window_step opts t (w k) = (ok', b)" by (cases "window_step opts t (w k)")
  have "k \<in> K" "agree t bs w" using Cons.prems by (auto simp: r)
  note step = is_allowed_agrees[OF Cons.prems(1-4) this a s]
  have "agree (snd (hd rs)) bs' (w(k := b))" if "rs \<noteq> []"
  proof -
    have "t \<le> snd (hd rs)" using Cons.prems(6) that by (cases rs) (auto simp: r)
    then show ?thesis using step live_mono unfolding agree_def by blast
  qed
  then have "limiter_run opts rs bs' = window_run opts rs (w(k := b))"
    using step Cons.prems by (intro Cons.IH) (auto simp del: fun_upd_apply)
  then show ?case using step by (simp add: r a s)
qed simp

text \<open>
  C21. As long as it sees no more distinct clients than it tracks, the rate limiter answers every
  request as if each client had its own fixed window: whatever the interleaving of clients, the
  bound on the number of tracked keys costs no client its count, because only expired windows are
  evicted. The clock must not run backwards.
\<close>

theorem limiter_refines_windows:
  assumes "card (fst ` set rs) \<le> lo_max_keys opts" "sorted (map snd rs)"
  shows "limiter_run opts rs [] = window_run opts rs (\<lambda>_. None)"
  by (rule limiter_run_agrees[where K = "fst ` set rs"]) (use assms in \<open>auto simp: agree_def jm_keys_def\<close>)

theorem limiter_refines_windows_witness:
  "limiter_run \<lparr>lo_limit = 1, lo_window_ms = 60, lo_max_keys = 2\<rparr>
      [(''a'', 0), (''b'', 1), (''a'', 2), (''a'', 60)] [] = [True, True, False, True]"
proof -
  let ?o = "\<lparr>lo_limit = 1, lo_window_ms = 60, lo_max_keys = 2\<rparr>"
  let ?rs = "[(''a'', 0), (''b'', 1), (''a'', 2), (''a'', 60 :: int)]"
  have "fst ` set ?rs = {''a'', ''b''}" by auto
  then have "card (fst ` set ?rs) \<le> lo_max_keys ?o" by simp
  then have "limiter_run ?o ?rs [] = window_run ?o ?rs (\<lambda>_. None)"
    by (rule limiter_refines_windows) simp
  also have "\<dots> = [True, True, False, True]"
    by (simp add: window_step_def live_def fresh_bucket_def)
  finally show ?thesis .
qed

text \<open>The requests of one client that were allowed, in a stretch of time.\<close>

definition allowed_within :: "limiter_options \<Rightarrow> jstr \<Rightarrow> int \<Rightarrow> int \<Rightarrow> (jstr \<times> int) list \<Rightarrow> nat" where
  "allowed_within opts k a e rs =
     length (filter (\<lambda>((k', t), ok). k' = k \<and> a \<le> t \<and> t < e \<and> ok) (zip rs (limiter_run opts rs [])))"

fun spent_run :: "limiter_options \<Rightarrow> jstr \<Rightarrow> int \<Rightarrow> int \<Rightarrow> (jstr \<times> int) list \<Rightarrow> (jstr \<Rightarrow> bucket option) \<Rightarrow> nat" where
  "spent_run opts k a e [] w = 0"
| "spent_run opts k a e ((k', t) # rs) w =
     (case window_step opts t (w k') of (ok, b) \<Rightarrow>
        (if k' = k \<and> a \<le> t \<and> t < e \<and> ok then 1 else 0) + spent_run opts k a e rs (w(k' := b)))"

lemma spent_run_count:
  "length (filter (\<lambda>((k', t), ok). k' = k \<and> a \<le> t \<and> t < e \<and> ok) (zip rs (window_run opts rs w)))
     = spent_run opts k a e rs w"
  by (induction rs arbitrary: w) (auto split: prod.splits)

definition counted :: "bucket option \<Rightarrow> bool" where
  "counted b \<longleftrightarrow> (case b of None \<Rightarrow> True | Some e \<Rightarrow> 1 \<le> bk_count e)"

lemma window_step_counted:
  "counted b \<Longrightarrow> window_step opts t b = (ok, b') \<Longrightarrow> counted b'"
  by (auto simp: window_step_def counted_def live_def fresh_bucket_def split: option.splits if_splits)

text \<open>Until a window ends, it grants at most what is left of the limit.\<close>

lemma spent_in_window:
  assumes "w k = Some b" "1 \<le> bk_count b" "\<forall>r \<in> set rs. snd r < e" "e \<le> bk_reset_at_ms b"
  shows "int (spent_run opts k a e rs w) \<le> max 0 (lo_limit opts - bk_count b)"
  using assms
proof (induction rs arbitrary: w b)
  case (Cons r rs)
  obtain k' t where r: "r = (k', t)" by (cases r)
  show ?case
  proof (cases "k' = k")
    case True
    have "window_step opts t (w k)
        = (bk_count b + 1 \<le> lo_limit opts, Some (b\<lparr>bk_count := bk_count b + 1\<rparr>))"
      using Cons.prems by (simp add: window_step_def live_def r)
    moreover have "int (spent_run opts k a e rs (w(k \<mapsto> b\<lparr>bk_count := bk_count b + 1\<rparr>)))
        \<le> max 0 (lo_limit opts - (bk_count b + 1))"
      by (rule order_trans[OF Cons.IH[of _ "b\<lparr>bk_count := bk_count b + 1\<rparr>"]]) (use Cons.prems in auto)
    ultimately show ?thesis using True Cons.prems by (auto simp: r max_def split: if_splits simp del: fun_upd_apply)
  next
    case False
    obtain ok c where s: "window_step opts t (w k') = (ok, c)" by (cases "window_step opts t (w k')")
    have "int (spent_run opts k a e rs (w(k' := c))) \<le> max 0 (lo_limit opts - bk_count b)"
      by (rule Cons.IH) (use Cons.prems False in auto)
    then show ?thesis using False by (simp add: r s del: fun_upd_apply)
  qed
qed simp

lemma spent_run_before: "\<forall>r \<in> set rs. e \<le> snd r \<Longrightarrow> spent_run opts k a e rs w = 0"
  by (induction rs arbitrary: w) (auto split: prod.splits)

text \<open>A window's length of time meets at most two windows.\<close>

lemma spent_two_windows:
  assumes "counted (w k)" "sorted (map snd rs)" "\<forall>r \<in> set rs. a \<le> snd r \<and> snd r < a + lo_window_ms opts"
    and "0 \<le> lo_limit opts"
  shows "int (spent_run opts k a (a + lo_window_ms opts) rs w)
    \<le> lo_limit opts + (case w k of None \<Rightarrow> 0
        | Some b \<Rightarrow> if bk_reset_at_ms b > a then max 0 (lo_limit opts - bk_count b) else 0)"
  using assms
proof (induction rs arbitrary: w)
  case Nil
  then show ?case by (auto split: option.splits)
next
  case (Cons r rs)
  let ?e = "a + lo_window_ms opts"
  obtain k' t where r: "r = (k', t)" by (cases r)
  show ?case
  proof (cases "k' = k")
    case False
    obtain ok c where s: "window_step opts t (w k') = (ok, c)" by (cases "window_step opts t (w k')")
    have "int (spent_run opts k a ?e rs (w(k' := c)))
        \<le> lo_limit opts + (case (w(k' := c)) k of None \<Rightarrow> 0
            | Some b \<Rightarrow> if bk_reset_at_ms b > a then max 0 (lo_limit opts - bk_count b) else 0)"
      by (rule Cons.IH) (use Cons.prems False in auto)
    then show ?thesis using False by (simp add: r s fun_upd_other del: fun_upd_apply)
  next
    case True
    show ?thesis
    proof (cases "live t (w k)")
      case None
      have "window_step opts t (w k) = (1 \<le> lo_limit opts, Some (fresh_bucket opts t))"
        by (simp add: window_step_def None)
      moreover have "int (spent_run opts k a ?e rs (w(k \<mapsto> fresh_bucket opts t)))
          \<le> max 0 (lo_limit opts - 1)"
        using spent_in_window[of "w(k \<mapsto> fresh_bucket opts t)" k "fresh_bucket opts t" rs ?e opts a]
          Cons.prems by (simp add: fresh_bucket_def r)
      ultimately show ?thesis using True Cons.prems by (auto simp: r split: option.splits)
    next
      case (Some b)
      then have b: "w k = Some b" "bk_reset_at_ms b > t"
        by (auto simp: live_def split: option.splits if_splits)
      have "window_step opts t (w k)
          = (bk_count b + 1 \<le> lo_limit opts, Some (b\<lparr>bk_count := bk_count b + 1\<rparr>))"
        by (simp add: window_step_def Some)
      moreover have "int (spent_run opts k a ?e rs (w(k \<mapsto> b\<lparr>bk_count := bk_count b + 1\<rparr>)))
          \<le> lo_limit opts + (case (w(k \<mapsto> b\<lparr>bk_count := bk_count b + 1\<rparr>)) k of None \<Rightarrow> 0
              | Some b \<Rightarrow> if bk_reset_at_ms b > a then max 0 (lo_limit opts - bk_count b) else 0)"
        by (rule Cons.IH) (use Cons.prems b in \<open>auto simp: counted_def\<close>)
      ultimately show ?thesis
        using Cons.prems True b by (auto simp: r max_def fun_upd_same simp del: fun_upd_apply)
    qed
  qed
qed

lemma spent_run_bound:
  assumes "\<forall>k. counted (w k)" "sorted (map snd rs)" "0 \<le> lo_limit opts"
  shows "int (spent_run opts k a (a + lo_window_ms opts) rs w) \<le> 2 * lo_limit opts"
  using assms
proof (induction rs arbitrary: w)
  case (Cons r rs)
  obtain k' t where r: "r = (k', t)" by (cases r)
  let ?e = "a + lo_window_ms opts"
  consider (before) "t < a" | (inside) "a \<le> t" by linarith
  then show ?case
  proof cases
    case before
    obtain ok c where s: "window_step opts t (w k') = (ok, c)" by (cases "window_step opts t (w k')")
    have "\<forall>k. counted ((w(k' := c)) k)"
      using Cons.prems(1) window_step_counted[OF _ s] by simp
    then have "int (spent_run opts k a ?e rs (w(k' := c))) \<le> 2 * lo_limit opts"
      using Cons.IH Cons.prems by (simp del: fun_upd_apply)
    then show ?thesis using before by (simp add: r s)
  next
    case inside
    let ?in = "takeWhile (\<lambda>r. snd r < ?e) (r # rs)"
    have split: "spent_run opts k a ?e xs w = spent_run opts k a ?e (takeWhile (\<lambda>r. snd r < ?e) xs) w"
      if "sorted (map snd xs)" for xs :: "(jstr \<times> int) list" and w
      using that
    proof (induction xs arbitrary: w)
      case (Cons x xs)
      show ?case
      proof (cases "snd x < ?e")
        case True
        then show ?thesis using Cons by (cases x) (auto split: prod.splits)
      next
        case False
        then have "\<forall>r \<in> set (x # xs). ?e \<le> snd r" using Cons.prems by auto
        then show ?thesis using False spent_run_before by (simp del: spent_run.simps(2))
      qed
    qed simp
    have srt: "sorted (map snd ?in)" using Cons.prems(2) by (metis map_append sorted_append takeWhile_dropWhile_id)
    have inn: "\<forall>x \<in> set ?in. a \<le> snd x \<and> snd x < ?e"
    proof
      fix x
      assume "x \<in> set ?in"
      from set_takeWhileD[OF this] show "a \<le> snd x \<and> snd x < ?e"
        using inside Cons.prems(2) by (auto simp: r)
    qed
    have "int (spent_run opts k a ?e ?in w) \<le> lo_limit opts + (case w k of None \<Rightarrow> 0
        | Some b \<Rightarrow> if bk_reset_at_ms b > a then max 0 (lo_limit opts - bk_count b) else 0)"
      by (rule spent_two_windows[OF Cons.prems(1)[rule_format] srt inn Cons.prems(3)])
    moreover have "(case w k of None \<Rightarrow> 0
        | Some b \<Rightarrow> if bk_reset_at_ms b > a then max 0 (lo_limit opts - bk_count b) else 0) \<le> lo_limit opts"
      using Cons.prems(1)[rule_format, of k] Cons.prems(3) by (simp add: counted_def split: option.splits)
    ultimately have "int (spent_run opts k a ?e ?in w) \<le> lo_limit opts + lo_limit opts" by linarith
    then show ?thesis using split[OF Cons.prems(2), of w] by simp
  qed
qed simp

text \<open>
  No client is let through more than twice the limit in any stretch of time as long as a window,
  wherever the stretch begins and whatever the other clients do, provided the limiter sees no more
  clients than it tracks and the clock does not run backwards.
\<close>

theorem limiter_bounds_rate:
  assumes "card (fst ` set rs) \<le> lo_max_keys opts" "sorted (map snd rs)" "0 \<le> lo_limit opts"
  shows "int (allowed_within opts k a (a + lo_window_ms opts) rs) \<le> 2 * lo_limit opts"
proof -
  have "limiter_run opts rs [] = window_run opts rs (\<lambda>_. None)"
    by (rule limiter_run_agrees[where K = "fst ` set rs"])
      (use assms in \<open>auto simp: agree_def jm_keys_def\<close>)
  then show ?thesis
    using spent_run_bound[of "\<lambda>_. None" rs opts k a] assms
    by (simp add: allowed_within_def spent_run_count counted_def)
qed

theorem limiter_bounds_rate_witness:
  "int (allowed_within \<lparr>lo_limit = 1, lo_window_ms = 60, lo_max_keys = 2\<rparr> ''a'' 30 90
      [(''a'', 30), (''a'', 40), (''a'', 89)]) \<le> 2"
proof -
  let ?o = "\<lparr>lo_limit = 1, lo_window_ms = 60, lo_max_keys = 2\<rparr>"
  let ?rs = "[(''a'', 30), (''a'', 40), (''a'', 89 :: int)]"
  have "card (fst ` set ?rs) \<le> lo_max_keys ?o" by simp
  from limiter_bounds_rate[OF this, of "''a''" 30] show ?thesis by simp
qed

text \<open>The map of a limiter that tracks at least one key never outgrows its bound.\<close>

lemma limiter_memory_bounded:
  "jm_size (limiter_state opts rs []) \<le> max 1 (lo_max_keys opts)"
  using limiter_state_bounded[of "[]"] by (simp add: jm_size_def)

end
