(* ===== verification/Web_Security.thy ===== *)
theory Web_Security
  imports Base64
begin

section \<open>The content security policy\<close>

text \<open>
  \<^verbatim>\<open>landing/lib/security/csp.ts\<close>, \<^verbatim>\<open>embedFrameAncestors.ts\<close>, \<^verbatim>\<open>landing/lib/api-path.ts\<close>,
  \<^verbatim>\<open>landing/lib/hypersnap/config.ts\<close> and \<^verbatim>\<open>landing/middleware.ts\<close>: who may frame which page, and the
  header that says so. The URL parser of the platform and \<^verbatim>\<open>decodeURIComponent\<close> are arguments (the
  former is not part of the language, the latter makes code points that \<open>jstr\<close> does not hold). The
  backend's answer is an argument too: \<open>None\<close> for a rejected or timed-out \<^verbatim>\<open>fetch\<close>. The specification is
  the browser's own reading of the header.
\<close>

record url =
  u_protocol :: jstr
  u_username :: jstr
  u_password :: jstr
  u_hostname :: jstr
  u_host :: jstr
  u_pathname :: jstr
  u_search :: jstr
  u_hash :: jstr
  u_origin :: jstr

record web_platform =
  wp_parse_url :: "jstr \<Rightarrow> url option"
  wp_decode_uri :: "jstr \<Rightarrow> jstr option"

datatype web_error = Web_type_error jstr

subsection \<open>csp.ts\<close>

definition CSP_REPORT_PATH :: jstr where
  "CSP_REPORT_PATH = ''/api/csp-report''"

definition CSP_REPORT_GROUP :: jstr where
  "CSP_REPORT_GROUP = ''csp-endpoint''"

definition FRAME_ANCESTORS_NONE :: "jstr list" where
  "FRAME_ANCESTORS_NONE = [[CHR 0x27] @ ''none'' @ [CHR 0x27]]"

text \<open>A keyword source, \<^verbatim>\<open>'keyword'\<close> with its quotes.\<close>

definition quoted_source :: "jstr \<Rightarrow> jstr" where
  "quoted_source s = [CHR 0x27] @ s @ [CHR 0x27]"

definition UNFRAMEABLE_ROUTE_PREFIXES :: "jstr list" where
  "UNFRAMEABLE_ROUTE_PREFIXES = [''/app'', ''/auth'', ''/developers'']"

definition is_unframeable_path :: "jstr \<Rightarrow> bool" where
  "is_unframeable_path pathname \<longleftrightarrow>
     list_ex (\<lambda>prefix. pathname = prefix \<or> js_starts_with (prefix @ ''/'') pathname)
       UNFRAMEABLE_ROUTE_PREFIXES"

text \<open>\<^verbatim>\<open>/^[A-Za-z0-9+/]+={0,2}$/\<close>\<close>

definition b64_plain :: "char \<Rightarrow> bool" where
  "b64_plain c \<longleftrightarrow> b64_value c \<noteq> None"

definition BASE64_PATTERN :: "jstr \<Rightarrow> bool" where
  "BASE64_PATTERN s \<longleftrightarrow>
     (let body = takeWhile b64_plain s; pad = dropWhile b64_plain s
      in body \<noteq> [] \<and> pad \<in> {[], ''='', ''==''})"

definition THIRD_PARTY_CONNECT_SOURCES :: "jstr list" where
  "THIRD_PARTY_CONNECT_SOURCES =
     [''wss://*.livekit.cloud'', ''https://*.livekit.cloud'',
      ''https://your-s3-endpoint.example.com'', ''https://*.your-s3-endpoint.example.com'',
      ''https://stream.farcaster.xyz'', ''https://*.cloudflarestream.com'', ''https://videodelivery.net'']"

record csp_options =
  co_nonce :: jstr
  co_frame_ancestors :: "jstr list"
  co_api_base_url :: jstr
  co_hypersnap_connect_source :: jstr
  co_is_development :: bool

text \<open>The sixteen random bytes are an argument.\<close>

definition create_nonce :: "char list \<Rightarrow> jstr" where
  "create_nonce bytes = js_btoa bytes"

definition is_loopback :: "url \<Rightarrow> bool" where
  "is_loopback url \<longleftrightarrow> u_hostname url = ''localhost'' \<or> u_hostname url = ''127.0.0.1''"

definition to_api_connect_sources :: "(jstr \<Rightarrow> url option) \<Rightarrow> jstr \<Rightarrow> web_error + jstr list" where
  "to_api_connect_sources parse_url api_base_url =
     (case parse_url api_base_url of
        None \<Rightarrow> Inl (Web_type_error ''Invalid URL'')
      | Some url \<Rightarrow>
          if u_protocol url = ''https:'' then Inr [u_origin url, ''wss://'' @ u_host url]
          else if u_protocol url = ''http:'' \<and> is_loopback url then Inr [u_origin url, ''ws://'' @ u_host url]
          else Inl (Web_type_error (''API base URL must be https: '' @ u_origin url)))"

definition to_hypersnap_connect_source :: "(jstr \<Rightarrow> url option) \<Rightarrow> jstr \<Rightarrow> web_error + jstr" where
  "to_hypersnap_connect_source parse_url base_url =
     (case parse_url base_url of
        None \<Rightarrow> Inl (Web_type_error ''Invalid URL'')
      | Some url \<Rightarrow>
          if u_protocol url \<noteq> ''https:'' \<and> \<not> (u_protocol url = ''http:'' \<and> is_loopback url)
          then Inl (Web_type_error (''Hypersnap URL must be https: '' @ u_origin url))
          else Inr (u_origin url))"

type_synonym directives = "(jstr \<times> jstr list) list"

definition csp_directives :: "csp_options \<Rightarrow> jstr list \<Rightarrow> directives" where
  "csp_directives opts api_sources =
     (let self = quoted_source ''self'' in
      [(''default-src'', [self]),
       (''script-src'', [self, quoted_source (''nonce-'' @ co_nonce opts), quoted_source ''strict-dynamic'']
          @ (if co_is_development opts then [quoted_source ''unsafe-eval''] else [])),
       (''style-src'', [self, quoted_source ''unsafe-inline'']),
       (''img-src'', [self, ''https:'', ''data:'', ''blob:'']),
       (''font-src'', [self]),
       (''media-src'', [self, ''https:'', ''blob:'']),
       (''connect-src'', [self] @ api_sources @ [co_hypersnap_connect_source opts] @ THIRD_PARTY_CONNECT_SOURCES),
       (''worker-src'', [self, ''blob:'']),
       (''frame-src'', [''https:'']),
       (''object-src'', [quoted_source ''none'']),
       (''base-uri'', [self]),
       (''form-action'', [self]),
       (''frame-ancestors'', co_frame_ancestors opts),
       (''report-uri'', [CSP_REPORT_PATH]),
       (''report-to'', [CSP_REPORT_GROUP])])"

definition serialize_directives :: "directives \<Rightarrow> jstr" where
  "serialize_directives ds =
     js_join ''; '' (map (\<lambda>(name, sources). name @ '' '' @ js_join '' '' sources) ds)"

definition build_content_security_policy ::
    "(jstr \<Rightarrow> url option) \<Rightarrow> csp_options \<Rightarrow> web_error + jstr" where
  "build_content_security_policy parse_url opts =
     (if \<not> BASE64_PATTERN (co_nonce opts)
      then Inl (Web_type_error ''CSP nonce must be a non-empty base64 string'')
      else if co_frame_ancestors opts = []
      then Inl (Web_type_error ''frame-ancestors needs at least one source'')
      else (case to_api_connect_sources parse_url (co_api_base_url opts) of
              Inl e \<Rightarrow> Inl e
            | Inr api_sources \<Rightarrow> Inr (serialize_directives (csp_directives opts api_sources))))"

subsection \<open>api-path.ts\<close>

definition uri_unreserved :: "char \<Rightarrow> bool" where
  "uri_unreserved c \<longleftrightarrow> c \<in> set ''ABCDEFGHIJKLMNOPQRSTUVWXYZabcdefghijklmnopqrstuvwxyz0123456789-_.!~*()''
     \<or> c = CHR 0x27"

definition upper_hex_digit :: "nat \<Rightarrow> char" where
  "upper_hex_digit n = (if n < 10 then char_of (48 + n) else char_of (55 + n))"

definition percent_byte :: "char \<Rightarrow> jstr" where
  "percent_byte b = (let n = of_char b :: nat in [CHR ''%'', upper_hex_digit (n div 16), upper_hex_digit (n mod 16)])"

definition encode_uri_component :: "jstr \<Rightarrow> jstr" where
  "encode_uri_component s =
     concat (map (\<lambda>c. if uri_unreserved c then [c] else concat (map percent_byte (utf8_char c))) s)"

definition encode_path_segment :: "jstr \<Rightarrow> jstr option" where
  "encode_path_segment value =
     (if value = [] \<or> value = ''.'' \<or> value = ''..'' then None else Some (encode_uri_component value))"

subsection \<open>embedFrameAncestors.ts\<close>

definition FRAME_ANCESTORS_EMBED_PERMISSIVE :: "jstr list" where
  "FRAME_ANCESTORS_EMBED_PERMISSIVE = [''*'']"

datatype embed_policy_lookup = Lookup_ok "jstr list option" | Lookup_failed

definition to_frame_ancestor_source :: "(jstr \<Rightarrow> url option) \<Rightarrow> js_value \<Rightarrow> jstr option" where
  "to_frame_ancestor_source parse_url value =
     (case value of
        V_str s \<Rightarrow>
          if s = [] then None
          else (case parse_url s of
                  None \<Rightarrow> None
                | Some parsed \<Rightarrow>
                    if u_protocol parsed \<noteq> ''https:'' \<and> u_protocol parsed \<noteq> ''http:'' then None
                    else if u_username parsed \<noteq> [] \<or> u_password parsed \<noteq> [] then None
                    else if u_pathname parsed \<noteq> ''/'' \<or> u_search parsed \<noteq> [] \<or> u_hash parsed \<noteq> [] then None
                    else if CHR ''*'' \<in> set (u_hostname parsed) then None
                    else Some (u_origin parsed))
      | _ \<Rightarrow> None)"

text \<open>\<^verbatim>\<open>[...new Set(xs)]\<close> keeps the first of equal elements.\<close>

definition js_unique :: "jstr list \<Rightarrow> jstr list" where
  "js_unique xs = rev (remdups (rev xs))"

definition parse_embed_policy :: "(jstr \<Rightarrow> url option) \<Rightarrow> js_value \<Rightarrow> embed_policy_lookup" where
  "parse_embed_policy parse_url body =
     (case body of
        V_obj ps \<Rightarrow>
          (case map_of ps ''allowed_origins'' of
             None \<Rightarrow> Lookup_failed
           | Some V_null \<Rightarrow> Lookup_ok None
           | Some (V_arr origins) \<Rightarrow>
               Lookup_ok (Some (js_unique (List.map_filter (to_frame_ancestor_source parse_url) origins)))
           | Some _ \<Rightarrow> Lookup_failed)
      | _ \<Rightarrow> Lookup_failed)"

definition frame_ancestors_for_embed_policy :: "embed_policy_lookup \<Rightarrow> jstr list" where
  "frame_ancestors_for_embed_policy lookup =
     (case lookup of
        Lookup_failed \<Rightarrow> FRAME_ANCESTORS_NONE
      | Lookup_ok None \<Rightarrow> FRAME_ANCESTORS_EMBED_PERMISSIVE
      | Lookup_ok (Some []) \<Rightarrow> FRAME_ANCESTORS_NONE
      | Lookup_ok (Some allowed_origins) \<Rightarrow> allowed_origins)"

text \<open>The backend: from the URL that is fetched to its \<^verbatim>\<open>ok\<close> and what \<^verbatim>\<open>res.json()\<close> gives.\<close>

type_synonym policy_backend = "jstr \<Rightarrow> (bool \<times> js_value option) option"

definition fetch_embed_policy ::
    "(jstr \<Rightarrow> url option) \<Rightarrow> policy_backend \<Rightarrow> jstr \<Rightarrow> jstr \<Rightarrow> embed_policy_lookup" where
  "fetch_embed_policy parse_url backend api_base_url space_id =
     (case encode_path_segment space_id of
        None \<Rightarrow> Lookup_failed
      | Some segment \<Rightarrow>
          (case backend (api_base_url @ ''/v1/rooms/'' @ segment @ ''/embed-policy'') of
             None \<Rightarrow> Lookup_failed
           | Some (ok, json) \<Rightarrow>
               if \<not> ok then Lookup_failed
               else (case json of None \<Rightarrow> Lookup_failed | Some body \<Rightarrow> parse_embed_policy parse_url body)))"

datatype embed_path_target = Target_space jstr | Target_reserved | Target_invalid

definition RESERVED_EMBED_SEGMENTS :: "jstr list" where
  "RESERVED_EMBED_SEGMENTS = [''demo'']"

text \<open>\<^verbatim>\<open>/^\/embed\/([^/]+)/\<close>\<close>

definition parse_embed_path :: "(jstr \<Rightarrow> jstr option) \<Rightarrow> jstr \<Rightarrow> embed_path_target" where
  "parse_embed_path decode_uri pathname =
     (if \<not> js_starts_with ''/embed/'' pathname then Target_invalid
      else (let group = takeWhile (\<lambda>c. c \<noteq> CHR ''/'') (drop 7 pathname) in
            if group = [] then Target_invalid
            else (case decode_uri group of
                    None \<Rightarrow> Target_invalid
                  | Some segment \<Rightarrow>
                      if segment \<in> set RESERVED_EMBED_SEGMENTS then Target_reserved
                      else Target_space segment)))"

definition resolve_embed_frame_ancestors ::
    "web_platform \<Rightarrow> policy_backend \<Rightarrow> jstr \<Rightarrow> jstr \<Rightarrow> jstr list" where
  "resolve_embed_frame_ancestors wp backend api_base_url pathname =
     (case parse_embed_path (wp_decode_uri wp) pathname of
        Target_reserved \<Rightarrow> FRAME_ANCESTORS_EMBED_PERMISSIVE
      | Target_invalid \<Rightarrow> FRAME_ANCESTORS_NONE
      | Target_space space_id \<Rightarrow>
          frame_ancestors_for_embed_policy (fetch_embed_policy (wp_parse_url wp) backend api_base_url space_id))"

subsection \<open>middleware.ts\<close>

definition FRAME_ANCESTORS_DEFAULT :: "jstr list" where
  "FRAME_ANCESTORS_DEFAULT = [''https://client.farcaster.xyz'', ''https://*.farcaster.xyz'']"

definition resolve_frame_ancestors :: "web_platform \<Rightarrow> policy_backend \<Rightarrow> jstr \<Rightarrow> jstr \<Rightarrow> jstr list" where
  "resolve_frame_ancestors wp backend api_base_url pathname =
     (if is_unframeable_path pathname then FRAME_ANCESTORS_NONE
      else if \<not> js_starts_with ''/embed/'' pathname then FRAME_ANCESTORS_DEFAULT
      else resolve_embed_frame_ancestors wp backend api_base_url pathname)"

text \<open>
  The configuration of an isolate: the API base URL, the Hypersnap URL (turned into a source when the
  isolate starts) and the build mode. The answer is the policy of both the request and the response.
\<close>

record web_config =
  wc_api_base_url :: jstr
  wc_hypersnap_url :: jstr
  wc_is_development :: bool

definition middleware ::
    "web_platform \<Rightarrow> web_config \<Rightarrow> policy_backend \<Rightarrow> char list \<Rightarrow> jstr \<Rightarrow> web_error + jstr" where
  "middleware wp cfg backend random_bytes pathname =
     (case to_hypersnap_connect_source (wp_parse_url wp) (wc_hypersnap_url cfg) of
        Inl e \<Rightarrow> Inl e
      | Inr hypersnap \<Rightarrow>
          build_content_security_policy (wp_parse_url wp)
            \<lparr>co_nonce = create_nonce random_bytes,
             co_frame_ancestors = resolve_frame_ancestors wp backend (wc_api_base_url cfg) pathname,
             co_api_base_url = wc_api_base_url cfg, co_hypersnap_connect_source = hypersnap,
             co_is_development = wc_is_development cfg\<rparr>)"

subsection \<open>How a browser reads the header\<close>

text \<open>
  A header is a list of policies separated by commas; a policy is a list of directives separated by
  semicolons; a directive is a name and its sources separated by white space; of two directives
  with the same name the first counts.
\<close>

definition ascii_space :: "char \<Rightarrow> bool" where
  "ascii_space c \<longleftrightarrow> c \<in> {CHR 0x09, CHR 0x0A, CHR 0x0C, CHR 0x0D, CHR 0x20}"

definition header_words :: "jstr \<Rightarrow> jstr list" where
  "header_words s =
     filter (\<lambda>w. w \<noteq> []) (js_split (CHR '' '') (map (\<lambda>c. if ascii_space c then CHR '' '' else c) s))"

definition policy_directives :: "jstr \<Rightarrow> directives" where
  "policy_directives p =
     concat (map (\<lambda>d. case header_words d of [] \<Rightarrow> [] | name # sources \<Rightarrow> [(name, sources)])
       (js_split (CHR '';'') p))"

definition header_policies :: "jstr \<Rightarrow> directives list" where
  "header_policies h = map policy_directives (js_split (CHR '','') h)"

definition framing_policy :: "jstr \<Rightarrow> jstr list option list" where
  "framing_policy h = map (\<lambda>ds. map_of ds ''frame-ancestors'') (header_policies h)"

definition csp_token :: "jstr \<Rightarrow> bool" where
  "csp_token s \<longleftrightarrow> s \<noteq> [] \<and> (\<forall>c \<in> set s. \<not> ascii_space c \<and> c \<noteq> CHR '';'' \<and> c \<noteq> CHR '','')"

subsection \<open>Writing and reading agree\<close>

lemma token_words:
  assumes "\<forall>w \<in> set ws. csp_token w"
  shows "header_words (js_join '' '' ws) = ws"
proof (cases "ws = []")
  case False
  have norm: "map (\<lambda>c. if ascii_space c then CHR '' '' else c) w = w" if "csp_token w" for w
    using that by (intro map_idI) (auto simp: csp_token_def)
  have "map (\<lambda>c. if ascii_space c then CHR '' '' else c) (js_join '' '' ws) = js_join '' '' ws"
    using assms
  proof (induction ws)
    case (Cons w ws)
    have "(if ascii_space (CHR '' '') then CHR '' '' else CHR '' '') = CHR '' ''" by simp
    then show ?case using Cons by (cases ws) (auto simp: norm)
  qed simp
  moreover have "js_split (CHR '' '') (js_join '' '' ws) = ws"
    using js_split_join[of ws "CHR '' ''" "[]"] assms False
    by (auto simp: csp_token_def ascii_space_def map_idI)
  ultimately show ?thesis using assms by (auto simp: header_words_def csp_token_def filter_id_conv)
qed (simp add: header_words_def)

lemma words_skip_space: "header_words (CHR '' '' # s) = header_words s"
  by (simp add: header_words_def ascii_space_def)

lemma words_of_directive:
  assumes "csp_token name" "\<forall>w \<in> set sources. csp_token w" "sources \<noteq> []"
  shows "header_words (name @ '' '' @ js_join '' '' sources) = name # sources"
  using token_words[of "name # sources"] assms by (simp add: js_join_Cons)

lemma join_chars: "c \<in> set (js_join sep xs) \<Longrightarrow> c \<in> set sep \<or> (\<exists>x \<in> set xs. c \<in> set x)"
proof (induction xs)
  case (Cons x xs)
  then show ?case by (cases xs) auto
qed simp

definition directives_ok :: "directives \<Rightarrow> bool" where
  "directives_ok ds \<longleftrightarrow> ds \<noteq> [] \<and>
     (\<forall>(name, sources) \<in> set ds. csp_token name \<and> sources \<noteq> [] \<and> (\<forall>w \<in> set sources. csp_token w))"

lemma read_serialized:
  assumes "directives_ok ds"
  shows "header_policies (serialize_directives ds) = [ds]"
proof -
  let ?text = "\<lambda>(name, sources). name @ '' '' @ js_join '' '' sources :: jstr"
  have no_sep: "CHR '';'' \<notin> set (?text d) \<and> CHR '','' \<notin> set (?text d)" if "d \<in> set ds" for d
    using that assms by (fastforce simp: directives_ok_def csp_token_def split: prod.splits dest!: join_chars)
  have "CHR '','' \<notin> set (serialize_directives ds)"
    using no_sep by (auto simp: serialize_directives_def dest!: join_chars)
  then have one: "header_policies (serialize_directives ds) = [policy_directives (serialize_directives ds)]"
    by (simp add: header_policies_def js_split_no_sep)
  have pieces: "js_split (CHR '';'') (serialize_directives ds)
      = ?text (hd ds) # map (\<lambda>d. CHR '' '' # ?text d) (tl ds)"
    using js_split_join[of "map ?text ds" "CHR '';''" "'' ''"] no_sep assms
    by (simp add: serialize_directives_def directives_ok_def ascii_space_def hd_map map_tl comp_def)
  have read: "(case header_words (?text d) of [] \<Rightarrow> [] | name # sources \<Rightarrow> [(name, sources)]) = [d]"
    if "d \<in> set ds" for d
  proof (cases d)
    case (Pair name sources)
    then have "header_words (?text d) = name # sources"
      using that assms words_of_directive[of name sources] by (auto simp: directives_ok_def)
    then show ?thesis by (simp add: Pair)
  qed
  let ?read = "\<lambda>d. case header_words (?text d) of [] \<Rightarrow> [] | name # sources \<Rightarrow> [(name, sources)]"
  have "map ?read ds = map (\<lambda>d. [d]) ds" by (rule map_cong[OF refl read])
  moreover have "policy_directives (serialize_directives ds) = concat (map ?read ds)"
    unfolding policy_directives_def pieces
    using assms by (cases ds) (auto simp: directives_ok_def words_skip_space comp_def)
  moreover have "concat (map (\<lambda>d. [d]) ds) = ds" by (induction ds) auto
  ultimately have "policy_directives (serialize_directives ds) = ds" by metis
  then show ?thesis using one assms by (simp add: directives_ok_def)
qed

lemma quoted_token: "csp_token (quoted_source s) \<longleftrightarrow> (\<forall>c \<in> set s. \<not> ascii_space c \<and> c \<noteq> CHR '';'' \<and> c \<noteq> CHR '','')"
  by (auto simp: csp_token_def quoted_source_def ascii_space_def)

lemma b64_plain_char: "b64_plain c \<Longrightarrow> \<not> ascii_space c \<and> c \<noteq> CHR '';'' \<and> c \<noteq> CHR '',''"
  by (auto simp: b64_plain_def ascii_space_def b64_value_def Let_def)

lemma nonce_chars:
  assumes "BASE64_PATTERN s" "c \<in> set s"
  shows "\<not> ascii_space c \<and> c \<noteq> CHR '';'' \<and> c \<noteq> CHR '',''"
proof -
  have "c \<in> set (takeWhile b64_plain s) \<or> c \<in> set (dropWhile b64_plain s)"
    using assms(2) by (metis Un_iff set_append takeWhile_dropWhile_id)
  then show ?thesis
  proof
    assume "c \<in> set (takeWhile b64_plain s)"
    then show ?thesis by (blast dest: set_takeWhileD b64_plain_char)
  next
    assume tail: "c \<in> set (dropWhile b64_plain s)"
    moreover have "dropWhile b64_plain s \<in> {[], ''='', ''==''}"
      using assms(1) by (simp only: BASE64_PATTERN_def Let_def)
    ultimately have "c = CHR ''=''" by (elim insertE) (simp_all only: list.set insert_iff empty_iff simp_thms)
    then show ?thesis by (simp add: ascii_space_def)
  qed
qed

text \<open>The sources that come from the configuration are single words without separators.\<close>

definition sources_ok :: "csp_options \<Rightarrow> jstr list \<Rightarrow> bool" where
  "sources_ok opts api \<longleftrightarrow>
     (\<forall>s \<in> set (api @ co_hypersnap_connect_source opts # co_frame_ancestors opts). csp_token s)"

lemma built_directives_ok:
  assumes "BASE64_PATTERN (co_nonce opts)" "co_frame_ancestors opts \<noteq> []" "sources_ok opts api"
  shows "directives_ok (csp_directives opts api)"
proof -
  have nonce: "csp_token (quoted_source (''nonce-'' @ co_nonce opts))"
    using nonce_chars[OF assms(1)] by (auto simp: quoted_token ascii_space_def)
  have lit: "csp_token s" if "list_all (\<lambda>c. \<not> ascii_space c \<and> c \<noteq> CHR '';'' \<and> c \<noteq> CHR '','') s" "s \<noteq> []" for s
    using that by (simp add: csp_token_def list_all_iff)
  have third: "\<forall>s \<in> set THIRD_PARTY_CONNECT_SOURCES. csp_token s"
    unfolding THIRD_PARTY_CONNECT_SOURCES_def by (simp add: csp_token_def ascii_space_def)
  show ?thesis
    using assms(2,3) nonce third
    by (auto simp: directives_ok_def csp_directives_def Let_def sources_ok_def CSP_REPORT_PATH_def CSP_REPORT_GROUP_def
        quoted_token csp_token_def[of "_ # _"] ascii_space_def)
qed

subsection \<open>Properties\<close>

text \<open>
  The browser enforces the policy that was written: a policy that is built without an error reads
  back, under the browser's splitting at commas, semicolons and white space, as the one list of
  directives the builder started from, nonce and connect sources included. The sources that come
  from configuration and from the room's policy must be single words.
\<close>

theorem csp_header_round_trip:
  assumes "build_content_security_policy parse_url opts = Inr h"
    and "to_api_connect_sources parse_url (co_api_base_url opts) = Inr api" "sources_ok opts api"
  shows "header_policies h = [csp_directives opts api]"
proof -
  have "BASE64_PATTERN (co_nonce opts)" "co_frame_ancestors opts \<noteq> []"
    and h: "h = serialize_directives (csp_directives opts api)"
    using assms(1,2) by (auto simp: build_content_security_policy_def split: if_splits sum.splits)
  then show ?thesis using read_serialized[OF built_directives_ok] assms(3) by simp
qed

lemma framing_of_directives: "map_of (csp_directives opts api) ''frame-ancestors'' = Some (co_frame_ancestors opts)"
  by (simp add: csp_directives_def Let_def)

text \<open>What an answer of the policy endpoint must be to let some site frame the room.\<close>

definition answer_permits :: "(jstr \<Rightarrow> url option) \<Rightarrow> (bool \<times> js_value option) option \<Rightarrow> bool" where
  "answer_permits parse_url answer =
     (case answer of
        Some (True, Some (V_obj ps)) \<Rightarrow>
          (case map_of ps ''allowed_origins'' of
             Some V_null \<Rightarrow> True
           | Some (V_arr origins) \<Rightarrow> list_ex (\<lambda>entry. to_frame_ancestor_source parse_url entry \<noteq> None) origins
           | _ \<Rightarrow> False)
      | _ \<Rightarrow> False)"

lemma map_filter_Nil: "List.map_filter f xs = [] \<longleftrightarrow> \<not> list_ex (\<lambda>x. f x \<noteq> None) xs"
  by (induction xs) (auto simp: List.map_filter_simps split: option.splits)

lemma refused_lookup:
  assumes "\<not> answer_permits parse_url (backend (base @ ''/v1/rooms/'' @ segment @ ''/embed-policy''))"
    and "encode_path_segment space_id = Some segment"
  shows "frame_ancestors_for_embed_policy (fetch_embed_policy parse_url backend base space_id) = FRAME_ANCESTORS_NONE"
proof (cases "backend (base @ ''/v1/rooms/'' @ segment @ ''/embed-policy'')")
  case None
  then show ?thesis by (simp add: fetch_embed_policy_def assms(2) frame_ancestors_for_embed_policy_def)
next
  case (Some answer)
  obtain ok json where answer: "answer = (ok, json)" by (cases answer)
  have empty: "js_unique (List.map_filter f vs) = []" if "\<not> list_ex (\<lambda>x. f x \<noteq> None) vs"
    for f :: "js_value \<Rightarrow> jstr option" and vs
    using that map_filter_Nil[of f vs] by (simp add: js_unique_def)
  have parsed: "frame_ancestors_for_embed_policy (parse_embed_policy parse_url body) = FRAME_ANCESTORS_NONE"
    if "\<not> answer_permits parse_url (Some (True, Some body))" for body
  proof (cases body)
    case (V_obj ps)
    show ?thesis
    proof (cases "map_of ps ''allowed_origins''")
      case None
      then show ?thesis by (simp add: V_obj parse_embed_policy_def frame_ancestors_for_embed_policy_def)
    next
      case (Some v)
      then show ?thesis using that
        by (cases v) (simp_all add: V_obj answer_permits_def parse_embed_policy_def
            frame_ancestors_for_embed_policy_def empty)
    qed
  qed (simp_all add: parse_embed_policy_def frame_ancestors_for_embed_policy_def)
  show ?thesis
  proof (cases "ok \<and> json \<noteq> None")
    case True
    then obtain body where "answer = (True, Some body)" by (auto simp: answer)
    then show ?thesis using parsed[of body] assms(1) Some by (simp add: fetch_embed_policy_def assms(2))
  next
    case False
    then have "fetch_embed_policy parse_url backend base space_id = Lookup_failed"
      unfolding fetch_embed_policy_def assms(2) option.case Some answer prod.case by auto
    then show ?thesis by (simp add: frame_ancestors_for_embed_policy_def)
  qed
qed

definition config_ok :: "web_platform \<Rightarrow> web_config \<Rightarrow> bool" where
  "config_ok wp cfg \<longleftrightarrow>
     (\<forall>url. wp_parse_url wp (wc_api_base_url cfg) = Some url \<longrightarrow> csp_token (u_origin url) \<and> csp_token (u_host url))
     \<and> (\<forall>url. wp_parse_url wp (wc_hypersnap_url cfg) = Some url \<longrightarrow> csp_token (u_origin url))"

lemma token_prefix: "csp_token s \<Longrightarrow> csp_token (''wss://'' @ s) \<and> csp_token (''ws://'' @ s)"
  by (simp add: csp_token_def ascii_space_def)

lemma api_sources_tokens:
  assumes "to_api_connect_sources (wp_parse_url wp) (wc_api_base_url cfg) = Inr api" "config_ok wp cfg"
  shows "\<forall>s \<in> set api. csp_token s"
proof -
  obtain url where url: "wp_parse_url wp (wc_api_base_url cfg) = Some url"
    and api: "api = [u_origin url, ''wss://'' @ u_host url] \<or> api = [u_origin url, ''ws://'' @ u_host url]"
    using assms(1) unfolding to_api_connect_sources_def by (simp split: option.splits if_splits)
  have "csp_token (u_origin url)" "csp_token (u_host url)" using assms(2) url by (simp_all add: config_ok_def)
  with token_prefix api show ?thesis by (metis empty_iff empty_set set_ConsD)
qed

lemma middleware_framing:
  assumes "middleware wp cfg backend bytes pathname = Inr h" "config_ok wp cfg"
    and "\<forall>s \<in> set (resolve_frame_ancestors wp backend (wc_api_base_url cfg) pathname). csp_token s"
  shows "framing_policy h = [Some (resolve_frame_ancestors wp backend (wc_api_base_url cfg) pathname)]"
proof -
  obtain hypersnap where hs: "to_hypersnap_connect_source (wp_parse_url wp) (wc_hypersnap_url cfg) = Inr hypersnap"
    using assms(1) by (auto simp: middleware_def split: sum.splits)
  define opts where "opts = \<lparr>co_nonce = create_nonce bytes,
      co_frame_ancestors = resolve_frame_ancestors wp backend (wc_api_base_url cfg) pathname,
      co_api_base_url = wc_api_base_url cfg, co_hypersnap_connect_source = hypersnap,
      co_is_development = wc_is_development cfg\<rparr>"
  have built: "build_content_security_policy (wp_parse_url wp) opts = Inr h"
    using assms(1) hs by (simp add: middleware_def opts_def)
  then obtain api where api: "to_api_connect_sources (wp_parse_url wp) (wc_api_base_url cfg) = Inr api"
    by (auto simp: build_content_security_policy_def opts_def split: if_splits sum.splits)
  have "csp_token hypersnap"
    using hs assms(2) by (auto simp: to_hypersnap_connect_source_def config_ok_def split: option.splits if_splits)
  then have ok: "sources_ok opts api"
    using api_sources_tokens[OF api assms(2)] assms(3) by (auto simp: sources_ok_def opts_def)
  have "BASE64_PATTERN (co_nonce opts)" "co_frame_ancestors opts \<noteq> []"
    and h: "h = serialize_directives (csp_directives opts api)"
    using built api by (auto simp: build_content_security_policy_def opts_def split: if_splits)
  then have "header_policies h = [csp_directives opts api]"
    using read_serialized[OF built_directives_ok] ok by simp
  then show ?thesis by (simp add: framing_policy_def framing_of_directives) (simp add: opts_def)
qed

text \<open>
  C20. Framing fails closed. Every page that holds credentials, and every embedded room whose own policy
  URL does not answer with an origin or a legacy room (no answer, a timeout, an error status, a body of
  another shape, a suspended app's empty list, a list without any http(s) origin), whatever the
  endpoint answers for other rooms, is served with a policy whose one reading forbids framing by
  anyone; so is an \<^verbatim>\<open>/embed\<close> path whose room does not decode, is empty or is a dot segment. The rest of
  the policy's sources come from a configuration whose URLs have no separator in their origins.
\<close>

theorem framing_fails_closed:
  assumes "middleware wp cfg backend bytes pathname = Inr h" "config_ok wp cfg"
    and "is_unframeable_path pathname
      \<or> js_starts_with ''/embed/'' pathname
        \<and> (\<forall>room. wp_decode_uri wp (takeWhile (\<lambda>c. c \<noteq> CHR ''/'') (drop 7 pathname)) = Some room \<longrightarrow>
              room \<noteq> ''demo''
              \<and> (room \<in> {[], ''.'', ''..''}
                 \<or> \<not> answer_permits (wp_parse_url wp)
                      (backend (wc_api_base_url cfg @ ''/v1/rooms/'' @ encode_uri_component room @ ''/embed-policy''))))"
  shows "framing_policy h = [Some FRAME_ANCESTORS_NONE]"
proof -
  have none: "resolve_frame_ancestors wp backend (wc_api_base_url cfg) pathname = FRAME_ANCESTORS_NONE"
  proof (cases "is_unframeable_path pathname")
    case False
    let ?group = "takeWhile (\<lambda>c. c \<noteq> CHR ''/'') (drop 7 pathname)"
    from False have embed: "js_starts_with ''/embed/'' pathname"
      and refused: "\<And>room. wp_decode_uri wp ?group = Some room \<Longrightarrow> room \<noteq> ''demo''
        \<and> (room \<in> {[], ''.'', ''..''} \<or> \<not> answer_permits (wp_parse_url wp)
             (backend (wc_api_base_url cfg @ ''/v1/rooms/'' @ encode_uri_component room @ ''/embed-policy'')))"
      using assms(3) by blast+
    have "frame_ancestors_for_embed_policy
        (fetch_embed_policy (wp_parse_url wp) backend (wc_api_base_url cfg) room) = FRAME_ANCESTORS_NONE"
      if "wp_decode_uri wp ?group = Some room" for room
    proof (cases "encode_path_segment room")
      case None
      then show ?thesis by (simp add: fetch_embed_policy_def frame_ancestors_for_embed_policy_def)
    next
      case (Some segment)
      then have "segment = encode_uri_component room" "room \<notin> {[], ''.'', ''..''}"
        by (auto simp: encode_path_segment_def split: if_splits)
      then show ?thesis using refused_lookup[OF _ Some] refused[OF that] by blast
    qed
    moreover have "parse_embed_path (wp_decode_uri wp) pathname \<noteq> Target_reserved"
      using refused embed
      by (auto simp: parse_embed_path_def Let_def RESERVED_EMBED_SEGMENTS_def split: option.splits)
    moreover have "wp_decode_uri wp ?group = Some room"
      if "parse_embed_path (wp_decode_uri wp) pathname = Target_space room" for room
      using that by (auto simp: parse_embed_path_def Let_def split: if_splits option.splits)
    ultimately show ?thesis using False embed
      by (auto simp: resolve_frame_ancestors_def resolve_embed_frame_ancestors_def split: embed_path_target.splits)
  qed (simp add: resolve_frame_ancestors_def)
  have "csp_token [CHR 0x27, CHR ''n'', CHR ''o'', CHR ''n'', CHR ''e'', CHR 0x27]"
    by (simp add: csp_token_def ascii_space_def)
  then show ?thesis using middleware_framing[OF assms(1,2)] none by (simp add: FRAME_ANCESTORS_NONE_def)
qed

text \<open>
  A host may contain a semicolon (the URL standard forbids \<^verbatim>\<open>#\<close>, \<^verbatim>\<open>/\<close>, \<^verbatim>\<open>:\<close>, \<^verbatim>\<open>?\<close>, \<^verbatim>\<open>@\<close>, white space and
  a few more in a domain, but not \<^verbatim>\<open>;\<close> or \<^verbatim>\<open>,\<close>), so the claim of \<^verbatim>\<open>toFrameAncestorSource\<close> that no
  further directive can be smuggled through \<^verbatim>\<open>URL.origin\<close> does not hold: this entry adds a directive.
\<close>

definition semicolon_url :: url where
  "semicolon_url = \<lparr>u_protocol = ''https:'', u_username = [], u_password = [], u_hostname = ''a;sandbox'',
     u_host = ''a;sandbox'', u_pathname = ''/'', u_search = [], u_hash = [], u_origin = ''https://a;sandbox''\<rparr>"

lemma origin_smuggles_directive:
  assumes "parse_url ''https://a;sandbox'' = Some semicolon_url"
    and "parse_embed_policy parse_url (V_obj [(''allowed_origins'', V_arr [V_str ''https://a;sandbox''])]) = lookup"
  shows "policy_directives (serialize_directives [(''frame-ancestors'', frame_ancestors_for_embed_policy lookup)])
    = [(''frame-ancestors'', [''https://a'']), (''sandbox'', [])]"
proof -
  have "to_frame_ancestor_source parse_url (V_str ''https://a;sandbox'') = Some ''https://a;sandbox''"
    using assms(1) by (simp add: to_frame_ancestor_source_def semicolon_url_def)
  then have "frame_ancestors_for_embed_policy lookup = [''https://a;sandbox'']"
    using assms(2)[symmetric]
    by (simp add: parse_embed_policy_def List.map_filter_simps js_unique_def frame_ancestors_for_embed_policy_def)
  moreover have "policy_directives (serialize_directives [(''frame-ancestors'', [''https://a;sandbox''])])
    = [(''frame-ancestors'', [''https://a'']), (''sandbox'', [])]" by code_simp
  ultimately show ?thesis by simp
qed

subsection \<open>A deployment\<close>

definition https_url :: "jstr \<Rightarrow> url" where
  "https_url host = \<lparr>u_protocol = ''https:'', u_username = [], u_password = [], u_hostname = host,
     u_host = host, u_pathname = ''/'', u_search = [], u_hash = [], u_origin = ''https://'' @ host\<rparr>"

definition demo_platform :: web_platform where
  "demo_platform = \<lparr>wp_parse_url = (\<lambda>s. if js_starts_with ''https://'' s then Some (https_url (drop 8 s)) else None),
     wp_decode_uri = Some\<rparr>"

definition demo_config :: web_config where
  "demo_config = \<lparr>wc_api_base_url = ''https://api.x'', wc_hypersnap_url = ''https://node.x'', wc_is_development = False\<rparr>"

lemma demo_config_ok: "config_ok demo_platform demo_config"
  by (simp add: config_ok_def demo_platform_def demo_config_def https_url_def js_starts_with_def csp_token_def ascii_space_def)

lemma demo_builds:
  assumes "BASE64_PATTERN nonce" "ancestors \<noteq> []"
  shows "\<exists>h. build_content_security_policy (wp_parse_url demo_platform)
      \<lparr>co_nonce = nonce, co_frame_ancestors = ancestors, co_api_base_url = ''https://api.x'',
       co_hypersnap_connect_source = hypersnap, co_is_development = dev\<rparr> = Inr h"
  using assms
  by (simp add: build_content_security_policy_def to_api_connect_sources_def demo_platform_def
      js_starts_with_def https_url_def)

text \<open>A backend where every room but one is a legacy room, which anybody may frame.\<close>

definition one_closed_room :: policy_backend where
  "one_closed_room u =
     (if u = ''https://api.x/v1/rooms/room1/embed-policy'' then Some (False, None)
      else Some (True, Some (V_obj [(''allowed_origins'', V_null)])))"

theorem framing_fails_closed_witness:
  "\<exists>h. middleware demo_platform demo_config one_closed_room ''0123456789abcdef'' ''/embed/room1/live''
      = Inr h \<and> framing_policy h = [Some FRAME_ANCESTORS_NONE]
    \<and> resolve_frame_ancestors demo_platform one_closed_room ''https://api.x'' ''/embed/room2/live'' = [''*'']"
proof -
  let ?m = "middleware demo_platform demo_config one_closed_room ''0123456789abcdef'' ''/embed/room1/live''"
  have "BASE64_PATTERN (create_nonce ''0123456789abcdef'')" by code_simp
  moreover have "resolve_frame_ancestors demo_platform one_closed_room ''https://api.x'' ''/embed/room1/live'' \<noteq> []"
    by code_simp
  ultimately have "\<exists>h. ?m = Inr h"
    using demo_builds[of _ _ "''https://node.x''" False]
    by (simp add: middleware_def to_hypersnap_connect_source_def demo_config_def)
      (simp add: demo_platform_def js_starts_with_def https_url_def)
  then obtain h where h: "?m = Inr h" ..
  have path: "js_starts_with ''/embed/'' ''/embed/room1/live''"
    "takeWhile (\<lambda>c. c \<noteq> CHR ''/'') (drop 7 ''/embed/room1/live'') = ''room1''"
    "one_closed_room (wc_api_base_url demo_config @ ''/v1/rooms/'' @ encode_uri_component ''room1'' @ ''/embed-policy'')
      = Some (False, None)" by code_simp+
  have "framing_policy h = [Some FRAME_ANCESTORS_NONE]"
    by (rule framing_fails_closed[OF h demo_config_ok]) (use path in \<open>simp add: answer_permits_def demo_platform_def\<close>)
  moreover have "resolve_frame_ancestors demo_platform one_closed_room ''https://api.x'' ''/embed/room2/live'' = [''*'']"
    by code_simp
  ultimately show ?thesis using h by blast
qed

theorem csp_header_round_trip_witness:
  "\<exists>h opts. build_content_security_policy (wp_parse_url demo_platform) opts = Inr h
    \<and> header_policies h = [csp_directives opts [''https://api.x'', ''wss://api.x'']]"
proof -
  let ?o = "\<lparr>co_nonce = ''AAAA'', co_frame_ancestors = [''*''], co_api_base_url = ''https://api.x'',
    co_hypersnap_connect_source = ''https://node.x'', co_is_development = True\<rparr>"
  have "BASE64_PATTERN ''AAAA''" by code_simp
  from demo_builds[OF this, of "[''*'']"]
  obtain h where h: "build_content_security_policy (wp_parse_url demo_platform) ?o = Inr h" by blast
  have api: "to_api_connect_sources (wp_parse_url demo_platform) (co_api_base_url ?o)
      = Inr [''https://api.x'', ''wss://api.x'']"
    by (simp add: to_api_connect_sources_def demo_platform_def js_starts_with_def https_url_def)
  have "sources_ok ?o [''https://api.x'', ''wss://api.x'']"
    by (simp add: sources_ok_def csp_token_def ascii_space_def)
  from csp_header_round_trip[OF h api this] h show ?thesis by blast
qed

end
