(* ===== verification/Web_Endpoints.thy ===== *)
theory Web_Endpoints
  imports Rate_Limit Web_Security
begin

section \<open>Two public endpoints\<close>

text \<open>
  \<^verbatim>\<open>landing/lib/security/cspReport.ts\<close> with \<^verbatim>\<open>landing/app/api/csp-report/route.ts\<close>, and
  \<^verbatim>\<open>landing/lib/security/miniappWebhook.ts\<close> with \<^verbatim>\<open>landing/app/api/webhook/route.ts\<close>: what a request
  of a stranger can make the server log and forward. \<^verbatim>\<open>JSON.parse\<close> and \<^verbatim>\<open>Number\<close> on a string are
  arguments of the handlers, as are the URL parser and the answer of the backend.
\<close>

record http_runtime =
  hr_json_parse :: "jstr \<Rightarrow> js_value option"
  hr_to_number :: "jstr \<Rightarrow> js_num"
  hr_parse_url :: "jstr \<Rightarrow> url option"

record http_request =
  rq_content_length :: "jstr option"
  rq_text :: jstr

text \<open>\<^verbatim>\<open>n > k\<close>: false for \<^verbatim>\<open>NaN\<close>.\<close>

fun num_above :: "js_num \<Rightarrow> int \<Rightarrow> bool" where
  "num_above (Fin r) k \<longleftrightarrow> r > of_int k"
| "num_above Pos_inf k \<longleftrightarrow> True"
| "num_above _ k \<longleftrightarrow> False"

definition too_large :: "http_runtime \<Rightarrow> int \<Rightarrow> http_request \<Rightarrow> bool" where
  "too_large rt limit request \<longleftrightarrow>
     num_above (hr_to_number rt (case rq_content_length request of None \<Rightarrow> ''0'' | Some s \<Rightarrow> s)) limit
     \<or> int (length (rq_text request)) > limit"

subsection \<open>cspReport.ts\<close>

definition MAX_CSP_REPORT_BYTES :: int where
  "MAX_CSP_REPORT_BYTES = 16 * 1024"

definition MAX_CSP_VIOLATIONS_PER_REQUEST :: nat where
  "MAX_CSP_VIOLATIONS_PER_REQUEST = 10"

definition MAX_FIELD_LENGTH :: nat where
  "MAX_FIELD_LENGTH = 256"

definition NETWORK_PROTOCOLS :: "jstr list" where
  "NETWORK_PROTOCOLS = [''http:'', ''https:'', ''ws:'', ''wss:'']"

record csp_violation =
  cv_document_uri :: jstr
  cv_blocked_uri :: jstr
  cv_directive :: jstr

definition truncate_field :: "jstr \<Rightarrow> jstr" where
  "truncate_field value = take MAX_FIELD_LENGTH value"

definition redact_uri :: "(jstr \<Rightarrow> url option) \<Rightarrow> js_value \<Rightarrow> jstr" where
  "redact_uri parse_url value =
     (case value of
        V_str s \<Rightarrow>
          (case parse_url s of
             None \<Rightarrow> truncate_field (takeWhile (\<lambda>c. c \<noteq> CHR ''?'' \<and> c \<noteq> CHR ''#'') s)
           | Some url \<Rightarrow>
               if u_protocol url \<notin> set NETWORK_PROTOCOLS then butlast (u_protocol url)
               else truncate_field (u_origin url @ u_pathname url))
      | _ \<Rightarrow> [])"

definition to_text :: "js_value \<Rightarrow> jstr" where
  "to_text value = (case value of V_str s \<Rightarrow> truncate_field s | _ \<Rightarrow> [])"

text \<open>\<^verbatim>\<open>a ?? b\<close>\<close>

definition nullish_or :: "js_value \<Rightarrow> js_value \<Rightarrow> js_value" where
  "nullish_or a b = (if a = V_undefined \<or> a = V_null then b else a)"

definition from_legacy_report :: "(jstr \<Rightarrow> url option) \<Rightarrow> js_object \<Rightarrow> csp_violation" where
  "from_legacy_report parse_url report =
     \<lparr>cv_document_uri = redact_uri parse_url (js_prop report ''document-uri''),
      cv_blocked_uri = redact_uri parse_url (js_prop report ''blocked-uri''),
      cv_directive = to_text (nullish_or (js_prop report ''effective-directive'') (js_prop report ''violated-directive''))\<rparr>"

definition from_reporting_api_body :: "(jstr \<Rightarrow> url option) \<Rightarrow> js_object \<Rightarrow> csp_violation" where
  "from_reporting_api_body parse_url body =
     \<lparr>cv_document_uri = redact_uri parse_url (js_prop body ''documentURL''),
      cv_blocked_uri = redact_uri parse_url (js_prop body ''blockedURL''),
      cv_directive = to_text (js_prop body ''effectiveDirective'')\<rparr>"

definition violation_body :: "js_value \<Rightarrow> js_object option" where
  "violation_body entry =
     (case entry of
        V_obj ps \<Rightarrow>
          if js_prop ps ''type'' = V_str ''csp-violation''
          then (case js_prop ps ''body'' of V_obj body \<Rightarrow> Some body | _ \<Rightarrow> None)
          else None
      | _ \<Rightarrow> None)"

definition parse_csp_reports :: "(jstr \<Rightarrow> url option) \<Rightarrow> js_value \<Rightarrow> csp_violation list" where
  "parse_csp_reports parse_url payload =
     (case payload of
        V_obj ps \<Rightarrow>
          (case js_prop ps ''csp-report'' of
             V_obj report \<Rightarrow> [from_legacy_report parse_url report]
           | _ \<Rightarrow> [])
      | V_arr entries \<Rightarrow>
          map (from_reporting_api_body parse_url)
            (take MAX_CSP_VIOLATIONS_PER_REQUEST (List.map_filter violation_body entries))
      | _ \<Rightarrow> [])"

text \<open>The status, and the violations that are logged.\<close>

definition csp_report_post :: "http_runtime \<Rightarrow> http_request \<Rightarrow> int \<times> csp_violation list" where
  "csp_report_post rt request =
     (if too_large rt MAX_CSP_REPORT_BYTES request then (413, [])
      else (case hr_json_parse rt (rq_text request) of
              None \<Rightarrow> (400, [])
            | Some payload \<Rightarrow> (204, parse_csp_reports (hr_parse_url rt) payload)))"

subsection \<open>miniappWebhook.ts\<close>

definition MAX_MINIAPP_WEBHOOK_BYTES :: int where
  "MAX_MINIAPP_WEBHOOK_BYTES = 16 * 1024"

definition MAX_HEADER_CHARS :: nat where "MAX_HEADER_CHARS = 1024"

definition MAX_PAYLOAD_CHARS :: nat where "MAX_PAYLOAD_CHARS = 8 * 1024"

definition MAX_SIGNATURE_CHARS :: nat where "MAX_SIGNATURE_CHARS = 256"

record jfs_envelope =
  je_header :: jstr
  je_payload :: jstr
  je_signature :: jstr

text \<open>\<^verbatim>\<open>/^[A-Za-z0-9_-]+={0,2}$/\<close>\<close>

definition b64url_plain :: "char \<Rightarrow> bool" where
  "b64url_plain c \<longleftrightarrow> (b64_plain c \<and> c \<noteq> CHR ''+'' \<and> c \<noteq> CHR ''/'') \<or> c = CHR ''_'' \<or> c = CHR ''-''"

definition BASE64URL_PATTERN :: "jstr \<Rightarrow> bool" where
  "BASE64URL_PATTERN s \<longleftrightarrow>
     takeWhile b64url_plain s \<noteq> [] \<and> dropWhile b64url_plain s \<in> {[], ''='', ''==''}"

definition base64url_string :: "js_value \<Rightarrow> nat \<Rightarrow> jstr option" where
  "base64url_string value max_chars =
     (case value of
        V_str s \<Rightarrow> if 0 < length s \<and> length s \<le> max_chars \<and> BASE64URL_PATTERN s then Some s else None
      | _ \<Rightarrow> None)"

definition parse_jfs_envelope :: "js_value \<Rightarrow> jfs_envelope option" where
  "parse_jfs_envelope raw =
     (case raw of
        V_obj ps \<Rightarrow>
          (case base64url_string (js_prop ps ''header'') MAX_HEADER_CHARS of
             None \<Rightarrow> None
           | Some header \<Rightarrow>
          (case base64url_string (js_prop ps ''payload'') MAX_PAYLOAD_CHARS of
             None \<Rightarrow> None
           | Some payload \<Rightarrow>
          (case base64url_string (js_prop ps ''signature'') MAX_SIGNATURE_CHARS of
             None \<Rightarrow> None
           | Some sig \<Rightarrow> Some \<lparr>je_header = header, je_payload = payload, je_signature = sig\<rparr>)))
      | _ \<Rightarrow> None)"

definition PASSTHROUGH_CLIENT_ERRORS :: "int list" where
  "PASSTHROUGH_CLIENT_ERRORS = [400, 401, 413, 429]"

definition proxy_status_for :: "int \<Rightarrow> int" where
  "proxy_status_for backend_status =
     (if 200 \<le> backend_status \<and> backend_status < 300 then 200
      else if backend_status \<in> set PASSTHROUGH_CLIENT_ERRORS then backend_status
      else 502)"

subsection \<open>The webhook route\<close>

definition webhook_limits :: limiter_options where
  "webhook_limits = \<lparr>lo_limit = 600, lo_window_ms = 60000, lo_max_keys = 10000\<rparr>"

text \<open>What is sent to the backend: the secret, the address of the sender, and the envelope.\<close>

record webhook_call =
  wk_secret :: jstr
  wk_sender_ip :: jstr
  wk_envelope :: jfs_envelope

record webhook_request = http_request +
  rq_x_real_ip :: "jstr option"
  rq_x_forwarded_for :: "jstr option"

definition webhook_post ::
    "http_runtime \<Rightarrow> jstr \<Rightarrow> (webhook_call \<Rightarrow> int option) \<Rightarrow> int \<Rightarrow> webhook_request \<Rightarrow> buckets
       \<Rightarrow> int \<times> webhook_call option \<times> buckets" where
  "webhook_post rt secret backend now request bs =
     (let sender_ip = client_ip_from_headers (rq_x_real_ip request) (rq_x_forwarded_for request) in
      case is_allowed webhook_limits sender_ip now bs of
        (allowed, bs') \<Rightarrow>
          if \<not> allowed then (429, None, bs')
          else if too_large rt MAX_MINIAPP_WEBHOOK_BYTES (http_request.truncate request) then (413, None, bs')
          else (case hr_json_parse rt (rq_text request) of
                  None \<Rightarrow> (400, None, bs')
                | Some parsed \<Rightarrow>
                    (case parse_jfs_envelope parsed of
                       None \<Rightarrow> (400, None, bs')
                     | Some envelope \<Rightarrow>
                         if secret = [] then (503, None, bs')
                         else (let call = \<lparr>wk_secret = secret, wk_sender_ip = sender_ip, wk_envelope = envelope\<rparr>
                               in case backend call of
                                    None \<Rightarrow> (502, Some call, bs')
                                  | Some backend_status \<Rightarrow> (proxy_status_for backend_status, Some call, bs')))))"

subsection \<open>What is logged\<close>

definition no_query :: "jstr \<Rightarrow> bool" where
  "no_query s \<longleftrightarrow> CHR ''?'' \<notin> set s \<and> CHR ''#'' \<notin> set s"

text \<open>The URL standard: neither the origin nor the path nor the scheme of a URL has a \<^verbatim>\<open>?\<close> or a \<^verbatim>\<open>#\<close>.\<close>

definition url_parts_clean :: "(jstr \<Rightarrow> url option) \<Rightarrow> bool" where
  "url_parts_clean parse_url \<longleftrightarrow>
     (\<forall>s u. parse_url s = Some u \<longrightarrow> no_query (u_origin u) \<and> no_query (u_pathname u) \<and> no_query (u_protocol u))"

lemma redacted:
  assumes "url_parts_clean parse_url"
  shows "no_query (redact_uri parse_url v)"
proof (cases v)
  case (V_str s)
  show ?thesis
  proof (cases "parse_url s")
    case None
    have "no_query (take n (takeWhile (\<lambda>c. c \<noteq> CHR ''?'' \<and> c \<noteq> CHR ''#'') s))" for n
      by (auto simp: no_query_def dest: in_set_takeD set_takeWhileD)
    then show ?thesis by (simp add: V_str None redact_uri_def truncate_field_def)
  next
    case (Some u)
    then have "no_query (u_origin u)" "no_query (u_pathname u)" "no_query (u_protocol u)"
      using assms by (auto simp: url_parts_clean_def)
    then show ?thesis
      by (auto simp: V_str Some redact_uri_def truncate_field_def no_query_def dest: in_set_takeD in_set_butlastD)
  qed
qed (simp_all add: redact_uri_def no_query_def)

lemma text_capped: "length (to_text v) \<le> MAX_FIELD_LENGTH"
  by (cases v) (simp_all add: to_text_def truncate_field_def)

text \<open>The schemes that are reported by name are not capped, unlike every other value.\<close>

lemma uri_capped:
  "length (redact_uri parse_url v) \<le> MAX_FIELD_LENGTH
   \<or> (\<exists>s u. v = V_str s \<and> parse_url s = Some u \<and> u_protocol u \<notin> set NETWORK_PROTOCOLS
        \<and> redact_uri parse_url v = butlast (u_protocol u))"
  by (cases v) (auto simp: redact_uri_def truncate_field_def split: option.splits)

lemma long_scheme_is_logged:
  assumes "parse_url s = Some u" "u_protocol u = replicate n (CHR ''a'') @ '':''" "6 \<le> n"
  shows "redact_uri parse_url (V_str s) = replicate n (CHR ''a'')"
proof -
  have "length (u_protocol u) \<noteq> length p" if "p \<in> set NETWORK_PROTOCOLS" for p
    using that assms(2,3) by (auto simp: NETWORK_PROTOCOLS_def)
  then have "u_protocol u \<notin> set NETWORK_PROTOCOLS" by blast
  then show ?thesis using assms(1,2) by (simp add: redact_uri_def)
qed

lemma report_fields:
  assumes "violation \<in> set (parse_csp_reports parse_url payload)"
  shows "\<exists>a b c. violation = \<lparr>cv_document_uri = redact_uri parse_url a, cv_blocked_uri = redact_uri parse_url b,
           cv_directive = to_text c\<rparr>"
  using assms
  by (auto simp: parse_csp_reports_def from_legacy_report_def from_reporting_api_body_def split: js_value.splits)

lemma report_count: "length (parse_csp_reports parse_url payload) \<le> MAX_CSP_VIOLATIONS_PER_REQUEST"
  by (auto simp: parse_csp_reports_def MAX_CSP_VIOLATIONS_PER_REQUEST_def split: js_value.splits)

definition violation_ok :: "(jstr \<Rightarrow> url option) \<Rightarrow> csp_violation \<Rightarrow> bool" where
  "violation_ok parse_url v \<longleftrightarrow>
     no_query (cv_document_uri v) \<and> no_query (cv_blocked_uri v) \<and> length (cv_directive v) \<le> 256
     \<and> (\<forall>uri \<in> {cv_document_uri v, cv_blocked_uri v}. length uri \<le> 256
          \<or> (\<exists>s u. parse_url s = Some u \<and> u_protocol u \<notin> set NETWORK_PROTOCOLS \<and> uri = butlast (u_protocol u)))"

lemma reports_ok:
  assumes "url_parts_clean parse_url" "v \<in> set (parse_csp_reports parse_url payload)"
  shows "violation_ok parse_url v"
proof -
  obtain a b c where v: "v = \<lparr>cv_document_uri = redact_uri parse_url a, cv_blocked_uri = redact_uri parse_url b,
      cv_directive = to_text c\<rparr>" using report_fields[OF assms(2)] by blast
  show ?thesis
    using redacted[OF assms(1)] text_capped[of c] uri_capped[of parse_url a] uri_capped[of parse_url b]
    by (auto simp: violation_ok_def v MAX_FIELD_LENGTH_def)
qed

text \<open>
  What a stranger can make the report collector log is bounded and redacted: at most ten lines per
  request, none for a body over the size limit; a logged address never has a query or a fragment
  (where upload signatures and sign-in callbacks keep their secrets), the directive is capped at 256
  characters, and so is an address unless it is the bare name of a scheme.
\<close>

theorem csp_report_bounded:
  assumes "url_parts_clean (hr_parse_url rt)" "csp_report_post rt request = (status, logged)"
  shows "length logged \<le> 10 \<and> (\<forall>v \<in> set logged. violation_ok (hr_parse_url rt) v)
    \<and> (int (length (rq_text request)) > MAX_CSP_REPORT_BYTES \<longrightarrow> status = 413 \<and> logged = [])"
proof -
  have "logged = [] \<or> (\<exists>payload. logged = parse_csp_reports (hr_parse_url rt) payload)"
    using assms(2) by (auto simp: csp_report_post_def split: if_splits option.splits)
  then have "length logged \<le> 10" "\<forall>v \<in> set logged. violation_ok (hr_parse_url rt) v"
    using report_count[of "hr_parse_url rt"] reports_ok[OF assms(1)]
    by (auto simp: MAX_CSP_VIOLATIONS_PER_REQUEST_def)
  moreover have "status = 413 \<and> logged = []" if "int (length (rq_text request)) > MAX_CSP_REPORT_BYTES"
    using that assms(2) by (simp add: csp_report_post_def too_large_def)
  ultimately show ?thesis by blast
qed

subsection \<open>What is forwarded\<close>

lemma webhook_state:
  "snd (snd (webhook_post rt secret backend now request bs))
     = snd (is_allowed webhook_limits
         (client_ip_from_headers (rq_x_real_ip request) (rq_x_forwarded_for request)) now bs)"
  by (auto simp: webhook_post_def Let_def split: prod.splits option.splits)

lemma webhook_allowed:
  assumes "webhook_post rt secret backend now request bs = (status, Some call, bs')"
  shows "fst (is_allowed webhook_limits
         (client_ip_from_headers (rq_x_real_ip request) (rq_x_forwarded_for request)) now bs)"
  using assms by (auto simp: webhook_post_def Let_def split: prod.splits option.splits if_splits)

text \<open>A run of the route: the calls that reach the backend.\<close>

fun webhook_run ::
    "http_runtime \<Rightarrow> jstr \<Rightarrow> (webhook_call \<Rightarrow> int option) \<Rightarrow> (webhook_request \<times> int) list \<Rightarrow> buckets
       \<Rightarrow> webhook_call option list" where
  "webhook_run rt secret backend [] bs = []"
| "webhook_run rt secret backend ((request, now) # rs) bs =
     (case webhook_post rt secret backend now request bs of
        (status, call, bs') \<Rightarrow> call # webhook_run rt secret backend rs bs')"

definition sender_of :: "webhook_request \<times> int \<Rightarrow> jstr \<times> int" where
  "sender_of r = (client_ip_from_headers (rq_x_real_ip (fst r)) (rq_x_forwarded_for (fst r)), snd r)"

lemma webhook_run_allowed:
  "list_all2 (\<lambda>call ok. call \<noteq> None \<longrightarrow> ok) (webhook_run rt secret backend rs bs)
     (limiter_run webhook_limits (map sender_of rs) bs)"
proof (induction rs arbitrary: bs)
  case (Cons r rs)
  obtain request now where r: "r = (request, now)" by (cases r)
  obtain status call bs' where post: "webhook_post rt secret backend now request bs = (status, call, bs')"
    by (cases "webhook_post rt secret backend now request bs") auto
  have "snd (is_allowed webhook_limits (fst (sender_of r)) now bs) = bs'"
    using webhook_state[of rt secret backend now request bs] by (simp add: post r sender_of_def)
  moreover have "call \<noteq> None \<longrightarrow> fst (is_allowed webhook_limits (fst (sender_of r)) now bs)"
    using webhook_allowed[of rt secret backend now request bs status _ bs'] by (auto simp: post r sender_of_def)
  ultimately show ?case using Cons[of bs']
    by (auto simp: r post sender_of_def split: prod.splits)
qed simp

text \<open>The calls made for one sender in a stretch of time.\<close>

definition forwarded_within ::
    "jstr \<Rightarrow> int \<Rightarrow> int \<Rightarrow> (webhook_request \<times> int) list \<Rightarrow> webhook_call option list \<Rightarrow> nat" where
  "forwarded_within ip a e rs calls =
     length (filter (\<lambda>(r, call). fst (sender_of r) = ip \<and> a \<le> snd r \<and> snd r < e \<and> call \<noteq> None) (zip rs calls))"

lemma forwarded_le_allowed:
  assumes "list_all2 (\<lambda>call ok. call \<noteq> None \<longrightarrow> ok) calls oks"
  shows "forwarded_within ip a e rs calls \<le>
    length (filter (\<lambda>((k, t), ok). k = ip \<and> a \<le> t \<and> t < e \<and> ok) (zip (map sender_of rs) oks))"
  using assms
proof (induction arbitrary: rs rule: list_all2_induct)
  case (Cons call calls ok oks)
  then show ?case by (cases rs) (auto simp: forwarded_within_def sender_of_def intro: le_SucI)
qed (simp add: forwarded_within_def)

text \<open>
  However the requests of the world interleave, one sender address gets at most twice the limit,
  1200 events, through to the backend in any minute, as long as no more than ten thousand addresses
  have been seen and the clock does not run backwards: the route never calls the backend without a
  pass from the limiter.
\<close>

theorem webhook_rate_bounded:
  assumes "card ((\<lambda>r. fst (sender_of r)) ` set rs) \<le> 10000" "sorted (map snd rs)"
  shows "forwarded_within ip a (a + 60000) rs (webhook_run rt secret backend rs []) \<le> 1200"
proof -
  let ?rs = "map sender_of rs"
  have agree: "limiter_run webhook_limits ?rs [] = window_run webhook_limits ?rs (\<lambda>_. None)"
    by (rule limiter_run_agrees[where K = "fst ` set ?rs"])
      (use assms in \<open>auto simp: agree_def jm_keys_def webhook_limits_def image_image sender_of_def comp_def\<close>)
  have "sorted (map snd ?rs)" using assms(2) by (simp add: comp_def sender_of_def)
  then have "int (spent_run webhook_limits ip a (a + 60000) ?rs (\<lambda>_. None)) \<le> 1200"
    using spent_run_bound[of "\<lambda>_. None" ?rs webhook_limits ip a] by (simp add: webhook_limits_def counted_def)
  then show ?thesis
    using forwarded_le_allowed[OF webhook_run_allowed, of ip a "a + 60000" rs rt secret backend rs "[]"]
    unfolding agree spent_run_count by linarith
qed

text \<open>
  Nothing but a well-formed envelope leaves the route, and only with the secret: a call to the
  backend carries the configured, non-empty secret, the address the limiter counted, and the three
  base64url fields of the JSON object that was posted, each within its length; the sender sees
  success exactly when the backend answered with a success.
\<close>

theorem webhook_forwards_envelopes:
  assumes "webhook_post rt secret backend now request bs = (status, Some call, bs')"
  shows "secret \<noteq> [] \<and> wk_secret call = secret
    \<and> wk_sender_ip call = client_ip_from_headers (rq_x_real_ip request) (rq_x_forwarded_for request)
    \<and> int (length (rq_text request)) \<le> MAX_MINIAPP_WEBHOOK_BYTES
    \<and> (\<exists>ps. hr_json_parse rt (rq_text request) = Some (V_obj ps)
        \<and> js_prop ps ''header'' = V_str (je_header (wk_envelope call))
        \<and> js_prop ps ''payload'' = V_str (je_payload (wk_envelope call))
        \<and> js_prop ps ''signature'' = V_str (je_signature (wk_envelope call)))
    \<and> length (je_header (wk_envelope call)) \<le> 1024 \<and> length (je_payload (wk_envelope call)) \<le> 8192
    \<and> length (je_signature (wk_envelope call)) \<le> 256
    \<and> (status = 200 \<longleftrightarrow> (\<exists>s. backend call = Some s \<and> 200 \<le> s \<and> s < 300))"
proof -
  obtain parsed envelope where json: "hr_json_parse rt (rq_text request) = Some parsed"
    and envelope: "parse_jfs_envelope parsed = Some envelope" and secret: "secret \<noteq> []"
    and size: "\<not> too_large rt MAX_MINIAPP_WEBHOOK_BYTES (http_request.truncate request)"
    and call: "call = \<lparr>wk_secret = secret,
        wk_sender_ip = client_ip_from_headers (rq_x_real_ip request) (rq_x_forwarded_for request),
        wk_envelope = envelope\<rparr>"
    and status: "status = (case backend call of None \<Rightarrow> 502 | Some s \<Rightarrow> proxy_status_for s)"
    using assms by (auto simp: webhook_post_def Let_def split: prod.splits option.splits if_splits)
  have str: "v = V_str s \<and> length s \<le> n" if "base64url_string v n = Some s" for v n s
    using that by (cases v) (auto simp: base64url_string_def split: if_splits)
  obtain ps where ps: "parsed = V_obj ps" using envelope by (cases parsed) (auto simp: parse_jfs_envelope_def)
  have "js_prop ps ''header'' = V_str (je_header envelope) \<and> length (je_header envelope) \<le> MAX_HEADER_CHARS
    \<and> js_prop ps ''payload'' = V_str (je_payload envelope) \<and> length (je_payload envelope) \<le> MAX_PAYLOAD_CHARS
    \<and> js_prop ps ''signature'' = V_str (je_signature envelope) \<and> length (je_signature envelope) \<le> MAX_SIGNATURE_CHARS"
    using envelope str by (auto simp: ps parse_jfs_envelope_def split: option.splits)
  moreover have "status = 200 \<longleftrightarrow> (\<exists>s. backend call = Some s \<and> 200 \<le> s \<and> s < 300)"
    by (auto simp: status proxy_status_for_def PASSTHROUGH_CLIENT_ERRORS_def split: option.splits)
  ultimately show ?thesis
    using secret json size
    by (simp add: call ps too_large_def http_request.truncate_def MAX_HEADER_CHARS_def MAX_PAYLOAD_CHARS_def
        MAX_SIGNATURE_CHARS_def)
qed

subsection \<open>Witnesses\<close>

definition demo_http :: http_runtime where
  "demo_http = \<lparr>hr_json_parse = (\<lambda>s. if s = ''e'' then
        Some (V_obj [(''header'', V_str ''aGk''), (''payload'', V_str ''cA''), (''signature'', V_str ''c2ln'')])
      else if s = ''r'' then
        Some (V_obj [(''csp-report'', V_obj [(''document-uri'', V_str ''inline?x'')])]) else None),
     hr_to_number = (\<lambda>_. num_int 0), hr_parse_url = (\<lambda>_. None)\<rparr>"

definition demo_post :: webhook_request where
  "demo_post = \<lparr>rq_content_length = None, rq_text = ''e'', rq_x_real_ip = Some ''9.9.9.9'', rq_x_forwarded_for = None\<rparr>"

theorem csp_report_bounded_witness:
  "csp_report_post demo_http \<lparr>rq_content_length = None, rq_text = ''r''\<rparr>
     = (204, [\<lparr>cv_document_uri = ''inline'', cv_blocked_uri = [], cv_directive = []\<rparr>])
   \<and> violation_ok (hr_parse_url demo_http) \<lparr>cv_document_uri = ''inline'', cv_blocked_uri = [], cv_directive = []\<rparr>"
proof -
  have run: "csp_report_post demo_http \<lparr>rq_content_length = None, rq_text = ''r''\<rparr>
     = (204, [\<lparr>cv_document_uri = ''inline'', cv_blocked_uri = [], cv_directive = []\<rparr>])"
    by (simp add: csp_report_post_def too_large_def demo_http_def MAX_CSP_REPORT_BYTES_def parse_csp_reports_def
        from_legacy_report_def js_prop_def redact_uri_def truncate_field_def MAX_FIELD_LENGTH_def to_text_def nullish_or_def)
  have "url_parts_clean (hr_parse_url demo_http)" by (simp add: url_parts_clean_def demo_http_def)
  from csp_report_bounded[OF this run] run show ?thesis by simp
qed

lemma demo_forwards:
  "webhook_post demo_http ''s'' (\<lambda>_. Some 204) 0 demo_post []
     = (200, Some \<lparr>wk_secret = ''s'', wk_sender_ip = ''9.9.9.9'',
         wk_envelope = \<lparr>je_header = ''aGk'', je_payload = ''cA'', je_signature = ''c2ln''\<rparr>\<rparr>,
        [(''9.9.9.9'', \<lparr>bk_count = 1, bk_reset_at_ms = 60000\<rparr>)])"
proof -
  have ip: "client_ip_from_headers (Some ''9.9.9.9'') None = ''9.9.9.9''" by code_simp
  have env: "parse_jfs_envelope (V_obj [(''header'', V_str ''aGk''), (''payload'', V_str ''cA''), (''signature'', V_str ''c2ln'')])
      = Some \<lparr>je_header = ''aGk'', je_payload = ''cA'', je_signature = ''c2ln''\<rparr>" by code_simp
  have ok: "is_allowed webhook_limits ''9.9.9.9'' 0 []
      = (True, [(''9.9.9.9'', \<lparr>bk_count = 1, bk_reset_at_ms = 60000\<rparr>)])"
    by (simp add: is_allowed_def webhook_limits_def fresh_bucket_def make_room_def jm_size_def jm_delete_def jm_set_def)
  show ?thesis
    by (simp add: webhook_post_def Let_def ip ok env demo_post_def demo_http_def too_large_def MAX_MINIAPP_WEBHOOK_BYTES_def
        http_request.truncate_def proxy_status_for_def)
qed

theorem webhook_forwards_envelopes_witness:
  "\<exists>call bs. webhook_post demo_http ''s'' (\<lambda>_. Some 204) 0 demo_post [] = (200, Some call, bs)
     \<and> wk_secret call = ''s'' \<and> wk_sender_ip call = client_ip_from_headers (Some ''9.9.9.9'') None"
  using demo_forwards webhook_forwards_envelopes[OF demo_forwards] by (simp add: demo_post_def)

theorem webhook_rate_bounded_witness:
  "forwarded_within ''9.9.9.9'' 0 60000 [(demo_post, 0), (demo_post, 5)]
     (webhook_run demo_http ''s'' (\<lambda>_. Some 204) [(demo_post, 0), (demo_post, 5)] []) \<le> 1200"
proof -
  have "card ((\<lambda>r. fst (sender_of r)) ` set [(demo_post, 0), (demo_post, 5 :: int)]) = card {fst (sender_of (demo_post, 0))}"
    by (simp add: sender_of_def)
  then have "card ((\<lambda>r. fst (sender_of r)) ` set [(demo_post, 0), (demo_post, 5 :: int)]) \<le> 10000" by simp
  from webhook_rate_bounded[OF this, of "''9.9.9.9''" 0 demo_http "''s''" "\<lambda>_. Some 204"] show ?thesis
    by (simp del: webhook_run.simps)
qed

end
