(* ===== verification/Windowing.thy ===== *)
theory Windowing
  imports Complex_Main JS_Map
begin

section \<open>Layout of the windowed message list\<close>

text \<open>
  \<^verbatim>\<open>landing/lib/messages/windowing.ts\<close>: row tops from measured or estimated heights, the binary
  search for the row at an offset, the visible range and the scroll anchor. Pixels are rationals,
  indices naturals; \<^verbatim>\<open>-1\<close> is an integer because the code compares it with zero. The measured heights
  are a \<^verbatim>\<open>Map\<close>. The specification of the search is the scan for the last row that starts at or above
  the offset.
\<close>

record row_layout =
  rl_offsets :: "rat list"
  rl_total_height :: rat

definition row_height :: "(jstr, rat) jsmap \<Rightarrow> (nat \<Rightarrow> rat) \<Rightarrow> jstr \<Rightarrow> nat \<Rightarrow> rat" where
  "row_height sizes estimate key i = (case jm_get sizes key of Some h \<Rightarrow> h | None \<Rightarrow> estimate i)"

fun layout_from :: "(jstr, rat) jsmap \<Rightarrow> (nat \<Rightarrow> rat) \<Rightarrow> jstr list \<Rightarrow> nat \<Rightarrow> rat \<Rightarrow> rat list" where
  "layout_from sizes estimate [] i start = [start]"
| "layout_from sizes estimate (key # keys) i start =
     start # layout_from sizes estimate keys (i + 1) (start + row_height sizes estimate key i)"

definition compute_layout :: "jstr list \<Rightarrow> (jstr, rat) jsmap \<Rightarrow> (nat \<Rightarrow> rat) \<Rightarrow> row_layout" where
  "compute_layout keys sizes estimate =
     (let offsets = layout_from sizes estimate keys 0 0
      in \<lparr>rl_offsets = offsets, rl_total_height = last offsets\<rparr>)"

function row_search :: "rat list \<Rightarrow> rat \<Rightarrow> nat \<Rightarrow> nat \<Rightarrow> nat" where
  "row_search offsets offset low high =
     (if low < high then
        (let mid = (low + high + 1) div 2 in
         if offsets ! mid \<le> offset then row_search offsets offset mid high
         else row_search offsets offset low (mid - 1))
      else low)"
  by pat_completeness auto
termination by (relation "measure (\<lambda>(_, _, low, high). high - low)") auto

declare row_search.simps [simp del]

definition row_count :: "rat list \<Rightarrow> int" where
  "row_count offsets = int (length offsets) - 1"

definition row_index_at_offset :: "rat list \<Rightarrow> rat \<Rightarrow> int" where
  "row_index_at_offset offsets offset =
     (if row_count offsets \<le> 0 then -1
      else if offset \<le> 0 then 0
      else int (row_search offsets offset 0 (nat (row_count offsets - 1))))"

record visible_rows =
  vr_start :: int
  vr_end :: int

definition visible_range :: "rat list \<Rightarrow> rat \<Rightarrow> rat \<Rightarrow> rat \<Rightarrow> visible_rows" where
  "visible_range offsets scroll_top viewport_height overscan =
     (if row_count offsets \<le> 0 then \<lparr>vr_start = 0, vr_end = 0\<rparr>
      else (let start = row_index_at_offset offsets (scroll_top - overscan);
                lst = row_index_at_offset offsets (scroll_top + viewport_height + overscan)
            in \<lparr>vr_start = max 0 start, vr_end = min (row_count offsets) (lst + 1)\<rparr>))"

record scroll_anchor =
  sc_key :: jstr
  sc_delta :: rat

definition capture_anchor :: "jstr list \<Rightarrow> rat list \<Rightarrow> rat \<Rightarrow> scroll_anchor option" where
  "capture_anchor keys offsets scroll_top =
     (let index = row_index_at_offset offsets scroll_top in
      if index < 0 \<or> index \<ge> int (length keys) then None
      else Some \<lparr>sc_key = keys ! nat index, sc_delta = offsets ! nat index - scroll_top\<rparr>)"

text \<open>\<^verbatim>\<open>indexOf\<close>: the first occurrence.\<close>

fun index_of :: "'a \<Rightarrow> 'a list \<Rightarrow> nat option" where
  "index_of x [] = None"
| "index_of x (y # ys) = (if x = y then Some 0 else map_option Suc (index_of x ys))"

definition restore_anchor :: "scroll_anchor \<Rightarrow> jstr list \<Rightarrow> rat list \<Rightarrow> rat option" where
  "restore_anchor anchor keys offsets =
     (case index_of (sc_key anchor) keys of
        None \<Rightarrow> None
      | Some index \<Rightarrow> Some (max 0 (offsets ! index - sc_delta anchor)))"

definition centered_scroll_top :: "rat list \<Rightarrow> int \<Rightarrow> rat \<Rightarrow> rat" where
  "centered_scroll_top offsets index viewport_height =
     (if index < 0 \<or> index \<ge> row_count offsets then 0
      else (let row_top = offsets ! nat index;
                row_h = offsets ! nat (index + 1) - row_top;
                max_scroll = max 0 (offsets ! nat (row_count offsets) - viewport_height);
                target = row_top - (viewport_height - row_h) / 2
            in min max_scroll (max 0 target)))"

subsection \<open>Layouts\<close>

lemma layout_length [simp]: "length (layout_from sizes estimate keys i start) = length keys + 1"
  by (induction keys arbitrary: i start) auto

lemma layout_hd [simp]: "layout_from sizes estimate keys i start ! 0 = start"
  by (cases keys) auto

definition heights_ok :: "jstr list \<Rightarrow> (jstr, rat) jsmap \<Rightarrow> (nat \<Rightarrow> rat) \<Rightarrow> bool" where
  "heights_ok keys sizes estimate \<longleftrightarrow> (\<forall>i < length keys. 0 \<le> row_height sizes estimate (keys ! i) i)"

lemma layout_step:
  "j < length keys \<Longrightarrow> layout_from sizes estimate keys i start ! Suc j
     = layout_from sizes estimate keys i start ! j + row_height sizes estimate (keys ! j) (i + j)"
  by (induction keys arbitrary: i start j) (auto simp: nth_Cons' less_Suc_eq_0_disj split: nat.splits)

lemma layout_sorted:
  assumes "heights_ok keys sizes estimate"
  shows "sorted (rl_offsets (compute_layout keys sizes estimate))"
    and "length (rl_offsets (compute_layout keys sizes estimate)) = length keys + 1"
    and "rl_offsets (compute_layout keys sizes estimate) ! 0 = 0"
proof -
  show "sorted (rl_offsets (compute_layout keys sizes estimate))"
    unfolding compute_layout_def Let_def row_layout.simps
  proof (rule sorted_iff_nth_Suc[THEN iffD2], intro allI impI)
    fix j
    assume "Suc j < length (layout_from sizes estimate keys 0 0)"
    then show "layout_from sizes estimate keys 0 0 ! j \<le> layout_from sizes estimate keys 0 0 ! Suc j"
      using assms by (simp add: layout_step heights_ok_def)
  qed
qed (simp_all add: compute_layout_def Let_def)

subsection \<open>The search\<close>

lemma row_search_step:
  "low < high \<Longrightarrow> row_search os x low high =
     (if os ! ((low + high + 1) div 2) \<le> x then row_search os x ((low + high + 1) div 2) high
      else row_search os x low ((low + high + 1) div 2 - 1))"
  by (subst row_search.simps) (simp add: Let_def)

lemma row_search_done: "\<not> low < high \<Longrightarrow> row_search os x low high = low"
  by (subst row_search.simps) simp

lemma row_search_bounds: "low \<le> high \<Longrightarrow> low \<le> row_search os x low high \<and> row_search os x low high \<le> high"
proof (induction os x low high rule: row_search.induct)
  case (1 os x low high)
  show ?case
  proof (cases "low < high")
    case True
    define mid where "mid = (low + high + 1) div 2"
    have mid: "low < mid" "mid \<le> high" using True by (auto simp: mid_def)
    have "low \<le> mid - 1" using mid by simp
    then show ?thesis using 1(1)[OF True mid_def] 1(2)[OF True mid_def] mid
      unfolding row_search_step[OF True] mid_def[symmetric] by (auto simp del: One_nat_def)
  qed (use 1 in \<open>simp add: row_search_done\<close>)
qed

text \<open>The loop keeps a row at or above the offset at \<^verbatim>\<open>low\<close> and no such row beyond \<^verbatim>\<open>high\<close>.\<close>

lemma row_search_correct:
  assumes "sorted os" "high < length os" "low \<le> high" "os ! low \<le> x"
  shows "os ! row_search os x low high \<le> x
    \<and> (\<forall>j. row_search os x low high < j \<and> j \<le> high \<longrightarrow> x < os ! j)"
  using assms
proof (induction os x low high rule: row_search.induct)
  case (1 os x low high)
  show ?case
  proof (cases "low < high")
    case True
    define mid where "mid = (low + high + 1) div 2"
    have mid: "low < mid" "mid \<le> high" using True by (auto simp: mid_def)
    show ?thesis
    proof (cases "os ! mid \<le> x")
      case le: True
      have "row_search os x low high = row_search os x mid high"
        unfolding row_search_step[OF True] mid_def[symmetric] using le by simp
      then show ?thesis using 1(1)[OF True mid_def le] "1.prems" mid le by simp
    next
      case gt: False
      have eq: "row_search os x low high = row_search os x low (mid - 1)"
        unfolding row_search_step[OF True] mid_def[symmetric] using gt by simp
      have "x < os ! j" if "mid \<le> j" "j \<le> high" for j
        using gt that "1.prems"(1,2) sorted_nth_mono[of os mid j] by linarith
      moreover have "os ! row_search os x low (mid - 1) \<le> x
          \<and> (\<forall>j. row_search os x low (mid - 1) < j \<and> j \<le> mid - 1 \<longrightarrow> x < os ! j)"
        using 1(2)[OF True mid_def gt] "1.prems" mid by simp
      ultimately show ?thesis unfolding eq using mid by (metis Suc_pred' Suc_leI leI le_trans less_Suc_eq_le less_nat_zero_code not_gr_zero)
    qed
  next
    case False
    then show ?thesis using "1.prems" by (simp add: row_search_done)
  qed
qed

text \<open>The reference: scan for the last row that starts at or above the offset.\<close>

definition row_scan :: "rat list \<Rightarrow> rat \<Rightarrow> int" where
  "row_scan offsets x = max 0 (int (length (takeWhile (\<lambda>y. y \<le> x) (butlast offsets))) - 1)"

definition layout_ok :: "rat list \<Rightarrow> bool" where
  "layout_ok os \<longleftrightarrow> sorted os \<and> os \<noteq> [] \<and> os ! 0 = 0"

lemma layout_ok_compute: "heights_ok keys sizes estimate \<Longrightarrow> layout_ok (rl_offsets (compute_layout keys sizes estimate))"
  using layout_sorted[of keys sizes estimate] by (auto simp: layout_ok_def simp flip: length_greater_0_conv)

lemma takeWhile_length_unique:
  assumes "n \<le> length xs" "\<forall>i < n. P (xs ! i)" "n < length xs \<Longrightarrow> \<not> P (xs ! n)"
  shows "length (takeWhile P xs) = n"
proof (cases "n < length xs")
  case True
  then have "takeWhile P xs = take n xs" using assms by (intro takeWhile_eq_take_P_nth) auto
  then show ?thesis using True by simp
next
  case False
  then have "\<forall>x \<in> set xs. P x" using assms(1,2) by (auto simp: in_set_conv_nth)
  then have "takeWhile P xs = xs" by (simp only: takeWhile_eq_all_conv)
  then show ?thesis using False assms(1) by (metis le_antisym leI)
qed

lemma row_index_correct:
  assumes "layout_ok os" "0 < row_count os" "0 \<le> x"
  shows "0 \<le> row_index_at_offset os x \<and> row_index_at_offset os x < row_count os
    \<and> os ! nat (row_index_at_offset os x) \<le> x
    \<and> (0 < x \<longrightarrow> (\<forall>j. row_index_at_offset os x < int j \<and> int j < row_count os \<longrightarrow> x < os ! j))"
proof (cases "x = 0")
  case True
  then show ?thesis using assms by (simp add: row_index_at_offset_def layout_ok_def)
next
  case False
  let ?h = "nat (row_count os - 1)"
  have h: "?h < length os" "int ?h = row_count os - 1" using assms(2) by (auto simp: row_count_def)
  have "os ! row_search os x 0 ?h \<le> x \<and> (\<forall>j. row_search os x 0 ?h < j \<and> j \<le> ?h \<longrightarrow> x < os ! j)"
    using row_search_correct[of os ?h 0 x] assms h(1) by (simp add: layout_ok_def)
  moreover have "row_search os x 0 ?h \<le> ?h" using row_search_bounds[of 0 ?h os x] by simp
  moreover have "row_index_at_offset os x = int (row_search os x 0 ?h)"
    using assms False by (simp add: row_index_at_offset_def)
  ultimately show ?thesis using h(2) by fastforce
qed

text \<open>
  C35. The binary search finds the row a scan would find: for every layout of non-negative heights and
  every positive offset into a list that has rows, the row index is that of the last row that starts at
  or above the offset (rows of no height included). At offset 0 or above the list it is the first row,
  even when rows of no height start at 0 as well, and an empty list has the index -1 at every offset.
\<close>

theorem row_index_is_scan:
  assumes "heights_ok keys sizes estimate"
  shows "row_index_at_offset (rl_offsets (compute_layout keys sizes estimate)) x =
    (if keys = [] then -1
     else if x \<le> 0 then 0
     else row_scan (rl_offsets (compute_layout keys sizes estimate)) x)"
proof (cases "keys \<noteq> [] \<and> 0 < x")
  case True
  define os where "os = rl_offsets (compute_layout keys sizes estimate)"
  have ok: "layout_ok os" and len: "length os = length keys + 1"
    using layout_ok_compute[OF assms(1)] layout_sorted(2)[OF assms(1)] by (simp_all add: os_def)
  have n: "row_count os = int (length keys)" "0 < row_count os" using True len by (auto simp: row_count_def)
  have nth: "butlast os ! i = os ! i" if "i < length keys" for i using that len by (simp add: nth_butlast)
  define i where "i = nat (row_index_at_offset os x)"
  have idx: "row_index_at_offset os x = int i" "i < length keys" "os ! i \<le> x"
    and above: "\<forall>j. i < j \<and> j < length keys \<longrightarrow> x < os ! j"
    using row_index_correct[OF ok n(2), of x] True n(1) by (auto simp: i_def)
  have "\<forall>j < Suc i. butlast os ! j \<le> x"
  proof (intro allI impI)
    fix j
    assume "j < Suc i"
    then have "os ! j \<le> os ! i" using ok idx(2) len by (intro sorted_nth_mono) (auto simp: layout_ok_def)
    then show "butlast os ! j \<le> x" using \<open>j < Suc i\<close> idx nth[of j] by simp
  qed
  moreover have "\<not> butlast os ! Suc i \<le> x" if "Suc i < length (butlast os)"
    using that above len nth[of "Suc i"] by (simp add: not_le)
  ultimately have "length (takeWhile (\<lambda>y. y \<le> x) (butlast os)) = Suc i"
    using idx(2) len by (intro takeWhile_length_unique) auto
  then have "row_index_at_offset os x = row_scan os x" using idx(1) by (simp add: row_scan_def)
  then show ?thesis using True by (simp add: os_def)
next
  case False
  have "length (rl_offsets (compute_layout keys sizes estimate)) = length keys + 1" by (rule layout_sorted(2)[OF assms])
  then show ?thesis using False by (auto simp: row_index_at_offset_def row_count_def)
qed

text \<open>
  No row that can be seen is left out: the visible range lies within the list, and every row that
  meets the viewport, widened by the overscan, is in it, whatever is measured and whatever is only
  estimated.
\<close>

theorem visible_rows_complete:
  assumes "heights_ok keys sizes estimate" "0 \<le> viewport" "0 \<le> overscan" "0 \<le> scroll_top"
    and "os = rl_offsets (compute_layout keys sizes estimate)"
    and "visible_range os scroll_top viewport overscan = r"
  shows "0 \<le> vr_start r \<and> vr_start r \<le> vr_end r \<and> vr_end r \<le> int (length keys)
    \<and> (\<forall>i < length keys. os ! i < scroll_top + viewport + overscan \<and> scroll_top - overscan < os ! Suc i
        \<longrightarrow> vr_start r \<le> int i \<and> int i < vr_end r)"
proof (cases "keys = []")
  case True
  then have "row_count os \<le> 0" using layout_sorted(2)[OF assms(1)] assms(5) by (simp add: row_count_def)
  then show ?thesis using True assms(6) by (auto simp: visible_range_def)
next
  case False
  have ok: "layout_ok os" and len: "length os = length keys + 1"
    using layout_ok_compute[OF assms(1)] layout_sorted(2)[OF assms(1)] assms(5) by simp_all
  have n: "row_count os = int (length keys)" "0 < row_count os" using False len by (auto simp: row_count_def)
  let ?a = "row_index_at_offset os (scroll_top - overscan)"
  let ?b = "row_index_at_offset os (scroll_top + viewport + overscan)"
  have nonneg: "0 \<le> scroll_top + viewport + overscan" using assms(2-4) by simp
  note last = row_index_correct[OF ok n(2) nonneg]
  have first: "0 \<le> ?a \<and> ?a < int (length keys) \<and> (0 < scroll_top - overscan \<longrightarrow> os ! nat ?a \<le> scroll_top - overscan)
      \<and> (scroll_top - overscan \<le> 0 \<longrightarrow> ?a = 0)"
    using row_index_correct[OF ok n(2), of "scroll_top - overscan"] n
    by (cases "scroll_top - overscan \<le> 0") (auto simp: row_index_at_offset_def)
  have r: "r = \<lparr>vr_start = ?a, vr_end = ?b + 1\<rparr>"
    using assms(6) n first last by (auto simp: visible_range_def Let_def)
  have mono: "os ! i \<le> os ! j" if "i \<le> j" "j \<le> length keys" for i j
    using that ok len by (intro sorted_nth_mono) (auto simp: layout_ok_def)
  have before: "?a \<le> int i" if "i < length keys" "scroll_top - overscan < os ! Suc i" for i
  proof (rule ccontr)
    assume "\<not> ?a \<le> int i"
    then have less: "Suc i \<le> nat ?a" "0 < ?a" using first by auto
    then have "0 < scroll_top - overscan" using first by (metis less_irrefl not_less)
    then have "os ! nat ?a \<le> scroll_top - overscan" using first by simp
    moreover have "os ! Suc i \<le> os ! nat ?a" using less first by (intro mono) auto
    ultimately show False using that(2) by linarith
  qed
  have after: "int i \<le> ?b" if "i < length keys" "os ! i < scroll_top + viewport + overscan" for i
  proof (cases "0 < scroll_top + viewport + overscan")
    case True
    then have "\<not> ?b < int i" using last that n(1) by (metis less_asym of_nat_less_iff)
    then show ?thesis by simp
  next
    case False
    then have "os ! i < 0" using that(2) by linarith
    then show ?thesis using mono[of 0 i] ok that(1) by (simp add: layout_ok_def)
  qed
  have "?a \<le> ?b"
  proof (cases "0 < scroll_top - overscan")
    case True
    then have "os ! nat ?a \<le> scroll_top - overscan" using first by simp
    show ?thesis
    proof (cases "overscan = 0 \<and> viewport = 0")
      case True
      then show ?thesis by simp
    next
      case False
      then have "os ! nat ?a < scroll_top + viewport + overscan"
        using \<open>os ! nat ?a \<le> _\<close> assms(2,3) by linarith
      then show ?thesis using after[of "nat ?a"] first by (simp add: nat_less_iff)
    qed
  qed (use first last in auto)
  then show ?thesis using before after first last n by (auto simp: r)
qed

subsection \<open>The anchor\<close>

lemma index_of_Some: "index_of x xs = Some i \<longleftrightarrow> i < length xs \<and> xs ! i = x \<and> (\<forall>j < i. xs ! j \<noteq> x)"
proof (induction xs arbitrary: i)
  case (Cons y ys)
  show ?case
    by (cases i) (auto simp: Cons All_less_Suc2)
qed simp

lemma index_of_None: "index_of x xs = None \<longleftrightarrow> x \<notin> set xs"
  by (induction xs) auto

text \<open>
  The view does not jump: a row captured as the anchor of one layout and found again in another
  (older messages prepended, estimates replaced by measurements, rows above removed) is put back at
  the distance from the top of the viewport that it had, exactly and without clamping; when the row
  is gone there is nothing to restore.
\<close>

theorem anchor_keeps_distance:
  assumes "heights_ok keys sizes estimate" "heights_ok keys' sizes' estimate'" "0 \<le> scroll_top"
    and "os = rl_offsets (compute_layout keys sizes estimate)"
    and "os' = rl_offsets (compute_layout keys' sizes' estimate')"
    and "capture_anchor keys os scroll_top = Some anchor"
  shows "case restore_anchor anchor keys' os' of
      None \<Rightarrow> sc_key anchor \<notin> set keys'
    | Some scroll_top' \<Rightarrow> \<exists>i j. i < length keys \<and> j < length keys' \<and> keys ! i = keys' ! j
        \<and> keys' ! j = sc_key anchor \<and> os' ! j - scroll_top' = os ! i - scroll_top"
proof (cases "restore_anchor anchor keys' os'")
  case None
  then show ?thesis by (simp add: restore_anchor_def index_of_None split: option.splits)
next
  case (Some scroll_top')
  then obtain j where j: "index_of (sc_key anchor) keys' = Some j"
    and rest: "scroll_top' = max 0 (os' ! j - sc_delta anchor)"
    by (auto simp: restore_anchor_def split: option.splits)
  have ok: "layout_ok os" and len: "length os = length keys + 1"
    using layout_ok_compute[OF assms(1)] layout_sorted(2)[OF assms(1)] assms(4) by simp_all
  have ok': "layout_ok os'" and len': "length os' = length keys' + 1"
    using layout_ok_compute[OF assms(2)] layout_sorted(2)[OF assms(2)] assms(5) by simp_all
  define i where "i = nat (row_index_at_offset os scroll_top)"
  have captured: "i < length keys" "anchor = \<lparr>sc_key = keys ! i, sc_delta = os ! i - scroll_top\<rparr>"
    using assms(6) by (auto simp: capture_anchor_def i_def Let_def nat_less_iff split: if_splits)
  then have "0 < row_count os" using len by (auto simp: row_count_def)
  then have "os ! i \<le> scroll_top" using row_index_correct[OF ok _ assms(3)] by (simp add: i_def)
  have at_j: "j < length keys'" "keys' ! j = keys ! i" using j captured(2) by (auto simp: index_of_Some)
  have "os' ! 0 \<le> os' ! j" using ok' len' at_j(1) by (intro sorted_nth_mono) (auto simp: layout_ok_def)
  then have "0 \<le> os' ! j" using ok' by (simp add: layout_ok_def)
  then have "os' ! j - scroll_top' = os ! i - scroll_top"
    using rest captured(2) \<open>os ! i \<le> scroll_top\<close> by simp
  then have "i < length keys \<and> j < length keys' \<and> keys ! i = keys' ! j
      \<and> keys' ! j = sc_key anchor \<and> os' ! j - scroll_top' = os ! i - scroll_top"
    using captured at_j by simp
  then show ?thesis unfolding Some option.case by (intro exI)
qed

text \<open>Centring stays within the range the list can be scrolled to.\<close>

lemma centered_in_range:
  "0 \<le> centered_scroll_top os index viewport
   \<and> centered_scroll_top os index viewport \<le> max 0 (os ! nat (row_count os) - viewport)"
  by (auto simp: centered_scroll_top_def Let_def)

subsection \<open>Witnesses\<close>

lemma demo_heights: "heights_ok keys [] (\<lambda>_. 50)"
  by (simp add: heights_ok_def row_height_def)

lemma demo_offsets: "rl_offsets (compute_layout [''a'', ''b''] [] (\<lambda>_. 50)) = [0, 50, 100]"
  by (simp add: compute_layout_def row_height_def)

theorem row_index_is_scan_witness:
  "row_index_at_offset [0, 0, 50, 100] 60 = 2 \<and> row_index_at_offset [0, 0, 50, 100] 1 = 1 \<and>
   row_index_at_offset [0, 0, 50, 100] 0 = 0"
proof -
  let ?sizes = "jm_set ''z'' (0::rat) []" and ?keys = "[''z'', ''a'', ''b'']"
  have h: "heights_ok ?keys ?sizes (\<lambda>_. 50)" by (simp add: heights_ok_def row_height_def jm_get_def jm_set_def)
  have o': "rl_offsets (compute_layout ?keys ?sizes (\<lambda>_. 50)) = [0, 0, 50, 100]"
    by (simp add: compute_layout_def row_height_def jm_get_def jm_set_def)
  show ?thesis
    using row_index_is_scan[OF h, of 60] row_index_is_scan[OF h, of 1] row_index_is_scan[OF h, of 0]
    by (simp add: o' row_scan_def)
qed

theorem visible_rows_complete_witness:
  "0 \<le> vr_start (visible_range [0, 50, 100] 60 10 0) \<and> vr_end (visible_range [0, 50, 100] 60 10 0) \<le> 2"
  using visible_rows_complete[OF demo_heights, of 10 0 60 "[0, 50, 100]" "[''a'', ''b'']"]
  by (simp add: demo_offsets)

theorem anchor_keeps_distance_witness:
  "\<exists>anchor. capture_anchor [''a'', ''b''] [0, 50, 100] 60 = Some anchor
     \<and> restore_anchor anchor [''z'', ''a'', ''b''] [0, 50, 100, 150] = Some 110"
proof -
  have "row_index_at_offset [0, 50, 100] 60 = 1"
    by (simp add: row_index_at_offset_def row_count_def row_search_step row_search_done)
  then have cap: "capture_anchor [''a'', ''b''] [0, 50, 100] 60 = Some \<lparr>sc_key = ''b'', sc_delta = -10\<rparr>"
    by (simp add: capture_anchor_def)
  have os': "[0, 50, 100, 150] = rl_offsets (compute_layout [''z'', ''a'', ''b''] [] (\<lambda>_. 50))"
    by (simp add: compute_layout_def row_height_def)
  have restore: "restore_anchor \<lparr>sc_key = ''b'', sc_delta = -10\<rparr> [''z'', ''a'', ''b''] [0, 50, 100, 150] = Some 110"
    by (simp add: restore_anchor_def)
  from anchor_keeps_distance[OF demo_heights demo_heights _ demo_offsets[symmetric] os' cap] restore
  have "\<exists>i j. i < 2 \<and> j < 3 \<and> [''a'', ''b''] ! i = [''z'', ''a'', ''b''] ! j" by (auto simp: numeral_3_eq_3 numeral_2_eq_2)
  with cap restore show ?thesis by blast
qed

end
