(* ===== verification/Background_Poll.thy ===== *)
theory Background_Poll
  imports Message_Store
begin

text \<open>
  The slow inbox poll behind the unread badge (\<^verbatim>\<open>landing/lib/messages/background-poll.ts\<close>). The poll
  is written against an interface, \<^verbatim>\<open>BackgroundInboxPollDeps\<close>: a record of functions over the state
  of the host, here the argument \<open>deps\<close>; \<open>poll_host\<close> is its contract. \<^verbatim>\<open>confirmToken\<close> and \<^verbatim>\<open>tick\<close> are
  split at their awaits, with the awaited calls kept as pending continuations, and the system below
  lets them settle in any order, between any changes of the host.
\<close>

subsection \<open>The poll\<close>

record 'h poll_deps =
  dep_viewer_fid :: "'h \<Rightarrow> int option"
  dep_availability :: "'h \<Rightarrow> messaging_availability"
  dep_set_availability :: "messaging_availability \<Rightarrow> 'h \<Rightarrow> 'h"
  dep_load_inbox :: "'h \<Rightarrow> 'h"

text \<open>
  The variables of the closure. \<open>intervals\<close> are the intervals the host is running, \<open>timer\<close> the
  handle the poll keeps; a continuation remembers the \<^verbatim>\<open>fid\<close> it was started for.
\<close>

record poll_state =
  retain_count :: int
  timer :: "nat option"
  confirmed_fid :: "int option"
  is_checking_status :: bool
  intervals :: "nat set"
  next_interval :: nat

datatype poll_pending =
  Await_status int
  | Await_confirmed int bool

definition create_background_inbox_poll :: poll_state where
  "create_background_inbox_poll =
     \<lparr>retain_count = 0, timer = None, confirmed_fid = None, is_checking_status = False,
      intervals = {}, next_interval = 0\<rparr>"

definition confirm_token :: "int \<Rightarrow> poll_state \<Rightarrow> poll_state \<times> poll_pending list" where
  "confirm_token fid p =
     (if confirmed_fid p = Some fid then (p, [Await_confirmed fid True])
      else if is_checking_status p then (p, [Await_confirmed fid False])
      else (p\<lparr>is_checking_status := True\<rparr>, [Await_status fid]))"

text \<open>The rest of \<^verbatim>\<open>confirmToken\<close>, given what \<^verbatim>\<open>getStatus\<close> resolved or rejected with.\<close>

definition confirm_token_done ::
  "'h poll_deps \<Rightarrow> int \<Rightarrow> js_error + messaging_status \<Rightarrow> poll_state \<times> 'h \<Rightarrow> (poll_state \<times> 'h) \<times> poll_pending list" where
  "confirm_token_done deps fid r ph =
     (case ph of (p, h) \<Rightarrow>
        let p0 = p\<lparr>is_checking_status := False\<rparr>; no = [Await_confirmed fid False]
        in case r of
             Inl e \<Rightarrow> ((p0, if is_messaging_disabled_error e then dep_set_availability deps Av_disabled h else h), no)
           | Inr st \<Rightarrow>
               if \<not> ms_enabled st then ((p0, dep_set_availability deps Av_disabled h), no)
               else if ms_token_status st \<noteq> Some Token_active
               then ((p0, if ms_token_status st = Some Token_missing \<or> ms_token_status st = Some Token_expired
                          then dep_set_availability deps Av_token_required h else h), no)
               else if dep_viewer_fid deps h \<noteq> Some fid then ((p0, h), no)
               else ((p0\<lparr>confirmed_fid := Some fid\<rparr>, h), [Await_confirmed fid True]))"

definition tick :: "'h poll_deps \<Rightarrow> bool \<Rightarrow> poll_state \<times> 'h \<Rightarrow> (poll_state \<times> 'h) \<times> poll_pending list" where
  "tick deps visible ph =
     (case ph of (p, h) \<Rightarrow>
        if \<not> visible then (ph, [])
        else case dep_viewer_fid deps h of
               None \<Rightarrow> (ph, [])
             | Some fid \<Rightarrow>
                 if dep_availability deps h = Av_disabled then (ph, [])
                 else (let p1 = (if dep_availability deps h = Av_token_required \<or> confirmed_fid p \<noteq> Some fid
                                 then p\<lparr>confirmed_fid := None\<rparr> else p)
                       in case confirm_token fid p1 of (p2, calls) \<Rightarrow> ((p2, h), calls)))"

definition tick_done :: "'h poll_deps \<Rightarrow> bool \<Rightarrow> 'h \<Rightarrow> 'h" where
  "tick_done deps ok h = (if \<not> ok then h else dep_load_inbox deps h)"

definition retain :: "'h poll_deps \<Rightarrow> bool \<Rightarrow> poll_state \<times> 'h \<Rightarrow> (poll_state \<times> 'h) \<times> poll_pending list" where
  "retain deps visible ph =
     (case ph of (p, h) \<Rightarrow>
        let p1 = p\<lparr>retain_count := retain_count p + 1\<rparr>
        in if retain_count p1 = 1
           then (case tick deps visible (p1, h) of
                   ((p2, h2), calls) \<Rightarrow>
                     ((p2\<lparr>timer := Some (next_interval p2),
                          intervals := insert (next_interval p2) (intervals p2),
                          next_interval := next_interval p2 + 1\<rparr>, h2), calls))
           else ((p1, h), []))"

text \<open>The function \<^verbatim>\<open>retain\<close> returns, with its own \<^verbatim>\<open>isReleased\<close>.\<close>

definition release :: "bool \<Rightarrow> poll_state \<Rightarrow> bool \<times> poll_state" where
  "release isReleased p =
     (if isReleased then (isReleased, p)
      else let p1 = p\<lparr>retain_count := retain_count p - 1\<rparr>
           in (True, if retain_count p1 = 0 \<and> timer p1 \<noteq> None
                     then p1\<lparr>intervals := intervals p1 - set_option (timer p1), timer := None\<rparr> else p1))"

subsection \<open>The poll in its host\<close>

text \<open>
  The badges that retain the poll, the interval, the awaited calls, and a host that changes as it
  likes. \<open>ps_trace\<close> is history, newest first: the statuses that came back and the inbox loads.
\<close>

datatype poll_event = Status_read int "js_error + messaging_status" | Inbox_load int

record 'h poll_sys =
  ps_poll :: poll_state
  ps_host :: 'h
  ps_pending :: "poll_pending list"
  ps_released :: "bool list"
  ps_trace :: "poll_event list"

definition poll_start :: "'h \<Rightarrow> 'h poll_sys" where
  "poll_start h = \<lparr>ps_poll = create_background_inbox_poll, ps_host = h, ps_pending = [],
     ps_released = [], ps_trace = []\<rparr>"

inductive poll_step :: "'h poll_deps \<Rightarrow> 'h poll_sys \<Rightarrow> 'h poll_sys \<Rightarrow> bool" for deps where
  step_retain: "retain deps visible (ps_poll S, ps_host S) = ((p, h), calls) \<Longrightarrow>
    poll_step deps S (S\<lparr>ps_poll := p, ps_host := h, ps_pending := ps_pending S @ calls,
      ps_released := ps_released S @ [False]\<rparr>)"
| step_release: "i < length (ps_released S) \<Longrightarrow> release (ps_released S ! i) (ps_poll S) = (b, p) \<Longrightarrow>
    poll_step deps S (S\<lparr>ps_poll := p, ps_released := (ps_released S)[i := b]\<rparr>)"
| step_interval: "k \<in> intervals (ps_poll S) \<Longrightarrow> tick deps visible (ps_poll S, ps_host S) = ((p, h), calls) \<Longrightarrow>
    poll_step deps S (S\<lparr>ps_poll := p, ps_host := h, ps_pending := ps_pending S @ calls\<rparr>)"
| step_status: "Await_status fid \<in> set (ps_pending S) \<Longrightarrow>
    confirm_token_done deps fid r (ps_poll S, ps_host S) = ((p, h), calls) \<Longrightarrow>
    poll_step deps S (S\<lparr>ps_poll := p, ps_host := h,
      ps_pending := remove1 (Await_status fid) (ps_pending S) @ calls,
      ps_trace := Status_read fid r # ps_trace S\<rparr>)"
| step_confirmed: "Await_confirmed fid ok \<in> set (ps_pending S) \<Longrightarrow>
    poll_step deps S (S\<lparr>ps_host := tick_done deps ok (ps_host S),
      ps_pending := remove1 (Await_confirmed fid ok) (ps_pending S),
      ps_trace := (if ok then Inbox_load fid # ps_trace S else ps_trace S)\<rparr>)"
| step_host: "poll_step deps S (S\<lparr>ps_host := h\<rparr>)"

inductive poll_reachable :: "'h poll_deps \<Rightarrow> 'h poll_sys \<Rightarrow> bool" for deps where
  poll_init: "poll_reachable deps (poll_start h)"
| poll_next: "poll_reachable deps S \<Longrightarrow> poll_step deps S S' \<Longrightarrow> poll_reachable deps S'"

definition says_active :: "js_error + messaging_status \<Rightarrow> bool" where
  "says_active r \<longleftrightarrow> (case r of Inl e \<Rightarrow> False
     | Inr st \<Rightarrow> ms_enabled st \<and> ms_token_status st = Some Token_active)"

definition was_active :: "int \<Rightarrow> poll_event list \<Rightarrow> bool" where
  "was_active fid tr \<longleftrightarrow> (\<exists>r. Status_read fid r \<in> set tr \<and> says_active r)"

text \<open>Every load of the history comes after a status that called the token of that account active.\<close>

primrec loads_justified :: "poll_event list \<Rightarrow> bool" where
  "loads_justified [] = True"
| "loads_justified (e # tr) =
     ((case e of Inbox_load fid \<Rightarrow> was_active fid tr | Status_read fid r \<Rightarrow> True) \<and> loads_justified tr)"

definition status_calls :: "poll_pending list \<Rightarrow> poll_pending list" where
  "status_calls P = filter (\<lambda>c. case c of Await_status fid \<Rightarrow> True | Await_confirmed fid b \<Rightarrow> False) P"

definition open_handles :: "bool list \<Rightarrow> int" where
  "open_handles bs = int (length (filter Not bs))"

subsection \<open>Invariant\<close>

definition timers_ok :: "'h poll_sys \<Rightarrow> bool" where
  "timers_ok S \<longleftrightarrow> retain_count (ps_poll S) = open_handles (ps_released S) \<and>
     intervals (ps_poll S) = set_option (timer (ps_poll S)) \<and>
     (timer (ps_poll S) = None) = (retain_count (ps_poll S) = 0)"

definition checking_ok :: "poll_state \<Rightarrow> poll_pending list \<Rightarrow> bool" where
  "checking_ok p P \<longleftrightarrow> length (status_calls P) = (if is_checking_status p then 1 else 0)"

definition confirmed_ok :: "poll_state \<Rightarrow> poll_pending list \<Rightarrow> poll_event list \<Rightarrow> bool" where
  "confirmed_ok p P tr \<longleftrightarrow> loads_justified tr \<and>
     (\<forall>fid. confirmed_fid p = Some fid \<longrightarrow> was_active fid tr) \<and>
     (\<forall>fid. Await_confirmed fid True \<in> set P \<longrightarrow> was_active fid tr)"

definition poll_ok :: "'h poll_sys \<Rightarrow> bool" where
  "poll_ok S \<longleftrightarrow> timers_ok S \<and> checking_ok (ps_poll S) (ps_pending S) \<and>
     confirmed_ok (ps_poll S) (ps_pending S) (ps_trace S)"

lemma open_handles_simps [simp]:
  "open_handles [] = 0" "open_handles (bs @ [False]) = open_handles bs + 1"
  by (simp_all add: open_handles_def)

lemma open_handles_nonneg: "0 \<le> open_handles bs"
  by (simp add: open_handles_def)

lemma open_handles_release:
  "i < length bs \<Longrightarrow> \<not> bs ! i \<Longrightarrow> open_handles (bs[i := True]) = open_handles bs - 1"
proof (induction bs arbitrary: i)
  case (Cons b bs)
  show ?case
  proof (cases i)
    case 0
    then show ?thesis using Cons.prems by (simp add: open_handles_def)
  next
    case (Suc j)
    then show ?thesis using Cons.IH[of j] Cons.prems by (auto simp: open_handles_def)
  qed
qed simp

lemma status_calls_append [simp]: "status_calls (P @ Q) = status_calls P @ status_calls Q"
  by (simp add: status_calls_def)

lemma status_calls_Nil [simp]: "status_calls [] = []"
  by (simp add: status_calls_def)

lemma status_calls_Cons [simp]:
  "status_calls (Await_status fid # P) = Await_status fid # status_calls P"
  "status_calls (Await_confirmed fid b # P) = status_calls P"
  by (simp_all add: status_calls_def)

lemma status_calls_remove_confirmed [simp]: "status_calls (remove1 (Await_confirmed fid b) P) = status_calls P"
  by (induction P) (auto simp: status_calls_def)

lemma status_calls_remove_status:
  "Await_status fid \<in> set P \<Longrightarrow> length (status_calls P) = length (status_calls (remove1 (Await_status fid) P)) + 1"
  by (induction P) (auto simp: status_calls_def split: poll_pending.splits)

lemma was_active_Cons: "was_active fid tr \<Longrightarrow> was_active fid (e # tr)"
  by (auto simp: was_active_def)

lemma tick_frame:
  assumes "tick deps visible (p, h) = ((p', h'), calls)"
  shows "retain_count p' = retain_count p" "timer p' = timer p" "intervals p' = intervals p" "h' = h"
  using assms by (auto simp: tick_def confirm_token_def Let_def split: if_splits option.splits)

lemma tick_checking:
  assumes "tick deps visible (p, h) = ((p', h'), calls)" and "checking_ok p P"
  shows "checking_ok p' (P @ calls)"
  using assms
  by (auto simp: tick_def confirm_token_def checking_ok_def Let_def split: if_splits option.splits)

lemma tick_confirmed:
  assumes "tick deps visible (p, h) = ((p', h'), calls)" and "confirmed_ok p P tr"
  shows "confirmed_ok p' (P @ calls) tr"
  using assms
  by (auto simp: tick_def confirm_token_def confirmed_ok_def Let_def split: if_splits option.splits)

lemmas tick_rules = tick_frame tick_checking tick_confirmed

lemma retain_cases:
  assumes "retain deps visible (p, h) = ((p', h'), calls)"
  obtains (again) "retain_count p \<noteq> 0" "p' = p\<lparr>retain_count := retain_count p + 1\<rparr>" "h' = h" "calls = []"
  | (first) q where "retain_count p = 0" "tick deps visible (p\<lparr>retain_count := 1\<rparr>, h) = ((q, h'), calls)"
      "p' = q\<lparr>timer := Some (next_interval q), intervals := insert (next_interval q) (intervals q),
              next_interval := next_interval q + 1\<rparr>"
proof (cases "retain_count p = 0")
  case True
  obtain q h2 c where "tick deps visible (p\<lparr>retain_count := 1\<rparr>, h) = ((q, h2), c)"
    by (metis prod.exhaust)
  then show ?thesis using assms first True by (auto simp: retain_def Let_def)
next
  case False
  then show ?thesis using assms again by (auto simp: retain_def Let_def)
qed

lemma retain_timers:
  assumes "retain deps visible (ps_poll S, ps_host S) = ((p, h), calls)" and "timers_ok S"
  shows "timers_ok (S\<lparr>ps_poll := p, ps_host := h, ps_pending := P, ps_released := ps_released S @ [False]\<rparr>)"
  using assms(1)
proof (cases rule: retain_cases)
  case again
  then show ?thesis using assms(2) open_handles_nonneg[of "ps_released S"] by (auto simp: timers_ok_def)
next
  case (first q)
  then show ?thesis using assms(2) tick_frame[OF first(2)] by (simp add: timers_ok_def)
qed

lemma checking_ok_cong: "is_checking_status q = is_checking_status p \<Longrightarrow> checking_ok q P = checking_ok p P"
  by (simp add: checking_ok_def)

lemma confirmed_ok_cong: "confirmed_fid q = confirmed_fid p \<Longrightarrow> confirmed_ok q P tr = confirmed_ok p P tr"
  by (simp add: confirmed_ok_def)

lemma retain_checking:
  assumes "retain deps visible (p, h) = ((p', h'), calls)" and "checking_ok p P"
  shows "checking_ok p' (P @ calls)"
  using assms(1)
proof (cases rule: retain_cases)
  case again
  then show ?thesis using assms(2) checking_ok_cong[of p' p] by simp
next
  case (first q)
  then show ?thesis using assms(2) tick_checking[OF first(2), of P] checking_ok_cong[of p' q]
      checking_ok_cong[of "p\<lparr>retain_count := 1\<rparr>" p] by simp
qed

lemma retain_confirmed:
  assumes "retain deps visible (p, h) = ((p', h'), calls)" and "confirmed_ok p P tr"
  shows "confirmed_ok p' (P @ calls) tr"
  using assms(1)
proof (cases rule: retain_cases)
  case again
  then show ?thesis using assms(2) confirmed_ok_cong[of p' p] by simp
next
  case (first q)
  then show ?thesis using assms(2) tick_confirmed[OF first(2), of P] confirmed_ok_cong[of p' q]
      confirmed_ok_cong[of "p\<lparr>retain_count := 1\<rparr>" p] by simp
qed

lemma confirmed_ok_remove:
  "confirmed_ok p P tr \<Longrightarrow> confirmed_ok p (remove1 c P) tr"
  using set_remove1_subset[of c P] by (auto simp: confirmed_ok_def)

lemma confirmed_ok_read: "confirmed_ok p P tr \<Longrightarrow> confirmed_ok p P (Status_read fid r # tr)"
  by (auto simp: confirmed_ok_def was_active_def)

lemma confirmed_ok_append:
  "confirmed_ok p (P @ Q) tr \<longleftrightarrow> confirmed_ok p P tr \<and> (\<forall>fid. Await_confirmed fid True \<in> set Q \<longrightarrow> was_active fid tr)"
  by (auto simp: confirmed_ok_def)

lemma status_step_ok:
  assumes s: "confirm_token_done deps fid r (p, h) = ((p', h'), calls)"
    and pend: "Await_status fid \<in> set P" and chk: "checking_ok p P" and conf: "confirmed_ok p P tr"
  shows "checking_ok p' (remove1 (Await_status fid) P @ calls)"
    "confirmed_ok p' (remove1 (Await_status fid) P @ calls) (Status_read fid r # tr)"
    "retain_count p' = retain_count p" "timer p' = timer p" "intervals p' = intervals p"
proof -
  have one: "status_calls (remove1 (Await_status fid) P) = []"
    using status_calls_remove_status[OF pend] chk by (auto simp: checking_ok_def split: if_splits)
  have nots: "\<not> is_checking_status p'" "status_calls calls = []"
    using s by (auto simp: confirm_token_done_def Let_def split: sum.splits if_splits)
  show "checking_ok p' (remove1 (Await_status fid) P @ calls)" using one nots by (simp add: checking_ok_def)
  show "retain_count p' = retain_count p" "timer p' = timer p" "intervals p' = intervals p"
    using s by (auto simp: confirm_token_done_def Let_def split: sum.splits if_splits)
  have new: "(confirmed_fid p' = confirmed_fid p \<and> calls = [Await_confirmed fid False]) \<or>
     (confirmed_fid p' = Some fid \<and> calls = [Await_confirmed fid True] \<and> says_active r)"
    using s by (auto simp: confirm_token_done_def says_active_def Let_def split: sum.splits if_splits)
  have act: "says_active r \<Longrightarrow> was_active fid (Status_read fid r # tr)" by (auto simp: was_active_def)
  have old: "confirmed_ok p (remove1 (Await_status fid) P) (Status_read fid r # tr)"
    by (intro confirmed_ok_read confirmed_ok_remove conf)
  from new show "confirmed_ok p' (remove1 (Await_status fid) P @ calls) (Status_read fid r # tr)"
  proof (elim disjE conjE)
    assume "confirmed_fid p' = confirmed_fid p" "calls = [Await_confirmed fid False]"
    then show ?thesis using old confirmed_ok_cong[of p' p] by (simp add: confirmed_ok_append)
  next
    assume "confirmed_fid p' = Some fid" "calls = [Await_confirmed fid True]" "says_active r"
    then show ?thesis using old act by (simp add: confirmed_ok_def)
  qed
qed

lemma release_ok:
  assumes "release r p = (b, p')"
  shows "checking_ok p' P = checking_ok p P" "confirmed_ok p' P tr = confirmed_ok p P tr"
  using assms by (auto simp: release_def Let_def checking_ok_def confirmed_ok_def split: if_splits)

lemma release_timers:
  assumes "release (ps_released S ! i) (ps_poll S) = (b, p)" "i < length (ps_released S)" "timers_ok S"
  shows "timers_ok (S\<lparr>ps_poll := p, ps_released := (ps_released S)[i := b]\<rparr>)"
proof (cases "ps_released S ! i")
  case True
  then have "b" "p = ps_poll S" using assms(1) by (auto simp: release_def)
  moreover have "(ps_released S)[i := True] = ps_released S" using True list_update_id[of "ps_released S" i] by simp
  ultimately show ?thesis using assms(3) by simp
next
  case False
  have "open_handles ((ps_released S)[i := True]) = open_handles (ps_released S) - 1"
    using open_handles_release[OF assms(2) False] .
  then show ?thesis using False assms open_handles_nonneg[of "(ps_released S)[i := True]"]
    by (auto simp: release_def timers_ok_def Let_def split: if_splits)
qed

lemma poll_step_ok: "poll_step deps S S' \<Longrightarrow> poll_ok S \<Longrightarrow> poll_ok S'"
proof (induction rule: poll_step.induct)
  case (step_retain visible S p h calls)
  then show ?case using retain_timers[OF step_retain(1)] retain_checking[OF step_retain(1)]
      retain_confirmed[OF step_retain(1)]
    by (auto simp: poll_ok_def)
next
  case (step_release i S b p)
  show ?case using release_ok[OF step_release(2)] step_release(1,3) release_timers[OF step_release(2,1)]
    by (simp add: poll_ok_def)
next
  case (step_interval k S visible p h calls)
  then show ?case using tick_rules[OF step_interval(2)] by (auto simp: poll_ok_def timers_ok_def)
next
  case (step_status fid S r p h calls)
  then show ?case
    using status_step_ok[OF step_status(2) step_status(1)] by (auto simp: poll_ok_def timers_ok_def)
next
  case (step_confirmed fid ok S)
  then show ?case
    using confirmed_ok_remove[of "ps_poll S" "ps_pending S" "ps_trace S" "Await_confirmed fid ok"]
    by (auto simp: poll_ok_def timers_ok_def checking_ok_def confirmed_ok_def intro: was_active_Cons)
next
  case (step_host S h)
  then show ?case by (auto simp: poll_ok_def timers_ok_def)
qed

lemma poll_reachable_ok: "poll_reachable deps S \<Longrightarrow> poll_ok S"
proof (induction rule: poll_reachable.induct)
  case (poll_init h)
  show ?case
    by (simp add: poll_ok_def timers_ok_def checking_ok_def confirmed_ok_def poll_start_def
        create_background_inbox_poll_def)
qed (rule poll_step_ok)

subsection \<open>The contract of the host\<close>

text \<open>
  What the poll relies on: the availability it sets is the one it reads next, and neither that nor
  starting an inbox load changes the viewer.
\<close>

locale poll_host =
  fixes deps :: "'h poll_deps"
  assumes set_sets: "dep_availability deps (dep_set_availability deps a h) = a"
    and set_keeps: "dep_viewer_fid deps (dep_set_availability deps a h) = dep_viewer_fid deps h"
    and load_keeps: "dep_viewer_fid deps (dep_load_inbox deps h) = dep_viewer_fid deps h"
begin

lemma viewer_kept:
  "confirm_token_done deps fid r (p, h) = ((p', h'), calls) \<Longrightarrow> dep_viewer_fid deps h' = dep_viewer_fid deps h"
  "dep_viewer_fid deps (tick_done deps ok h) = dep_viewer_fid deps h"
  by (auto simp: confirm_token_done_def tick_done_def Let_def set_keeps load_keeps split: sum.splits if_splits)

text \<open>Once messaging is reported off, no tick does anything.\<close>

lemma disabled_stops:
  assumes "confirm_token_done deps fid r (p, h) = ((p', h'), calls)"
    and "case r of Inl e \<Rightarrow> is_messaging_disabled_error e | Inr st \<Rightarrow> \<not> ms_enabled st"
  shows "calls = [Await_confirmed fid False]" "tick deps visible (p', h') = ((p', h'), [])"
  using assms by (auto simp: confirm_token_done_def tick_def Let_def set_sets split: sum.splits option.splits)

text \<open>After a missing or expired token the next tick asks for the status again, before any load.\<close>

lemma token_lost_rechecks:
  assumes "confirm_token_done deps fid (Inr st) (p, h) = ((p', h'), calls)" and "ms_enabled st"
    and "ms_token_status st = Some Token_missing \<or> ms_token_status st = Some Token_expired"
    and "dep_viewer_fid deps h = Some v"
  shows "calls = [Await_confirmed fid False]"
    "\<exists>q. tick deps True (p', h') = ((q, h'), [Await_status v]) \<and> confirmed_fid q = None"
  using assms by (auto simp: confirm_token_done_def tick_def confirm_token_def Let_def set_sets set_keeps)

text \<open>A confirmed viewer's ticks load the inbox without another status call.\<close>

lemma active_loads:
  assumes "confirm_token_done deps fid r (p, h) = ((p', h'), calls)" and "says_active r"
    and "dep_viewer_fid deps h = Some fid"
    and "dep_availability deps h \<noteq> Av_disabled" "dep_availability deps h \<noteq> Av_token_required"
  shows "calls = [Await_confirmed fid True]" "tick deps True (p', h') = ((p', h'), [Await_confirmed fid True])"
  using assms by (auto simp: confirm_token_done_def says_active_def tick_def confirm_token_def Let_def split: sum.splits)

end

subsection \<open>Properties\<close>

definition demo_deps :: "messaging_availability poll_deps" where
  "demo_deps = \<lparr>dep_viewer_fid = (\<lambda>h. Some 7), dep_availability = (\<lambda>h. h),
     dep_set_availability = (\<lambda>a h. a), dep_load_inbox = (\<lambda>h. Av_available)\<rparr>"

definition active_status :: messaging_status where
  "active_status = \<lparr>ms_enabled = True, ms_signer_status = None, ms_token_status = Some Token_active, ms_expires_at = None\<rparr>"

definition demo_poll :: poll_state where
  "demo_poll = \<lparr>retain_count = 1, timer = Some 0, confirmed_fid = Some 7, is_checking_status = False,
     intervals = {0}, next_interval = 1\<rparr>"

definition demo_sys :: "messaging_availability poll_sys" where
  "demo_sys = \<lparr>ps_poll = demo_poll, ps_host = Av_available, ps_pending = [], ps_released = [False],
     ps_trace = [Inbox_load 7, Status_read 7 (Inr active_status)]\<rparr>"

lemma demo_poll_reachable: "poll_reachable demo_deps demo_sys"
proof -
  let ?S1 = "\<lparr>ps_poll = demo_poll\<lparr>confirmed_fid := None, is_checking_status := True\<rparr>, ps_host = Av_unknown,
     ps_pending = [Await_status 7], ps_released = [False], ps_trace = []\<rparr> :: messaging_availability poll_sys"
  let ?S2 = "\<lparr>ps_poll = demo_poll, ps_host = Av_unknown, ps_pending = [Await_confirmed 7 True],
     ps_released = [False], ps_trace = [Status_read 7 (Inr active_status)]\<rparr> :: messaging_availability poll_sys"
  have "poll_step demo_deps (poll_start Av_unknown) ?S1"
    using step_retain[of demo_deps True "poll_start Av_unknown" "demo_poll\<lparr>confirmed_fid := None, is_checking_status := True\<rparr>"
        Av_unknown "[Await_status 7]"]
    by (simp add: poll_start_def create_background_inbox_poll_def retain_def tick_def confirm_token_def
        demo_deps_def demo_poll_def)
  moreover have "poll_step demo_deps ?S1 ?S2"
    using step_status[of 7 ?S1 demo_deps "Inr active_status" demo_poll Av_unknown "[Await_confirmed 7 True]"]
    by (simp add: confirm_token_done_def demo_deps_def demo_poll_def active_status_def)
  moreover have "poll_step demo_deps ?S2 demo_sys"
    using step_confirmed[of 7 True ?S2 demo_deps]
    by (simp add: tick_done_def demo_deps_def demo_sys_def)
  ultimately show ?thesis by (meson poll_init poll_next)
qed

text \<open>
  However badges come and go and in whatever order the status calls come back, one interval runs
  while some badge holds the poll and none otherwise, and at most one \<^verbatim>\<open>GET /status\<close> is in flight.
\<close>

theorem poll_runs_once:
  assumes "poll_reachable deps S"
  shows "card (intervals (ps_poll S)) = (if False \<in> set (ps_released S) then 1 else 0) \<and>
    length (status_calls (ps_pending S)) \<le> 1"
proof -
  have ok: "timers_ok S" "checking_ok (ps_poll S) (ps_pending S)"
    using poll_reachable_ok[OF assms] by (simp_all add: poll_ok_def)
  have "open_handles (ps_released S) = 0 \<longleftrightarrow> False \<notin> set (ps_released S)"
    by (metis (full_types) open_handles_def filter_empty_conv length_0_conv of_nat_eq_0_iff)
  then have "card (intervals (ps_poll S)) = (if False \<in> set (ps_released S) then 1 else 0)"
    using ok(1) by (auto simp: timers_ok_def)
  moreover have "length (status_calls (ps_pending S)) \<le> 1" using ok(2) by (simp add: checking_ok_def)
  ultimately show ?thesis by blast
qed

lemma poll_runs_once_witness:
  "card (intervals (ps_poll demo_sys)) = (if False \<in> set (ps_released demo_sys) then 1 else 0) \<and>
    length (status_calls (ps_pending demo_sys)) \<le> 1"
  using poll_runs_once[OF demo_poll_reachable] .

text \<open>
  C36. The poll never loads the inbox blind: every load follows, in the history, a \<^verbatim>\<open>GET /status\<close> that
  reported messaging enabled and the token of that account active, whatever the host does between the
  calls.
\<close>

theorem inbox_load_needs_active_token:
  assumes "poll_reachable deps S"
  shows "loads_justified (ps_trace S)"
  using poll_reachable_ok[OF assms] by (simp add: poll_ok_def confirmed_ok_def)

lemma inbox_load_needs_active_token_witness:
  "loads_justified (ps_trace demo_sys) \<and> Inbox_load 7 \<in> set (ps_trace demo_sys)"
  using inbox_load_needs_active_token[OF demo_poll_reachable] by (simp add: demo_sys_def)

end
