(* ===== verification/Messaging_Sync.thy ===== *)
theory Messaging_Sync
  imports Background_Poll Message_Sys Events_Socket
begin

text \<open>
  The wiring of the messaging store (\<^verbatim>\<open>landing/components/messages/useMessagingSync.ts\<close>): the poll of
  the badge on the store, and the Messages surface, which subscribes to the event socket, hands its
  callbacks to the store and polls the inbox while the socket is down.
\<close>

subsection \<open>The badge's poll on the store\<close>

text \<open>A store action with the calls it leaves in flight added to the store's own.\<close>

definition store_act :: "(mstate \<Rightarrow> act) \<Rightarrow> sys \<Rightarrow> sys" where
  "store_act f x = (case f (fst x) of (s', new, out) \<Rightarrow> (s', snd x @ new))"

definition message_poll_deps :: "sys poll_deps" where
  "message_poll_deps =
     \<lparr>dep_viewer_fid = (\<lambda>x. viewer_fid (fst x)),
      dep_availability = (\<lambda>x. availability (fst x)),
      dep_set_availability = (\<lambda>a x. (set_availability a (fst x), snd x)),
      dep_load_inbox = store_act (load_inbox Seg_default)\<rparr>"

lemma load_inbox_viewer [simp]: "viewer (fst (load_inbox seg s)) = viewer s"
  by (simp add: load_inbox_def patch_inbox_def)

interpretation message_poll: poll_host message_poll_deps
  by unfold_locales
    (auto simp: message_poll_deps_def set_availability_def viewer_fid_def store_act_def
      dest: arg_cong[where f = fst] split: prod.splits intro: arg_cong[where f = "map_option u_fid"])

text \<open>What the poll does to the store are actions of the store, so its invariants hold under the poll.\<close>

lemma poll_is_store_action:
  assumes "sys_reachable x"
  shows "sys_reachable (dep_set_availability message_poll_deps a x)"
    "sys_reachable (dep_load_inbox message_poll_deps x)"
proof -
  obtain s P where x: "x = (s, P)" by fastforce
  have "sys_step (s, P) (set_availability a s, P @ [])"
    by (rule step_act[where a = "A_availability a" and out = Out_void]) simp_all
  then show "sys_reachable (dep_set_availability message_poll_deps a x)"
    using assms x by (auto simp: message_poll_deps_def intro: sys_next)
  obtain s' new out where l: "load_inbox Seg_default s = (s', new, out)" by (metis prod_cases3)
  then have "sys_step (s, P) (s', P @ new)"
    by (intro step_act[where a = "A_load_inbox Seg_default" and out = out]) simp_all
  then show "sys_reachable (dep_load_inbox message_poll_deps x)"
    using assms x l by (auto simp: message_poll_deps_def store_act_def intro: sys_next)
qed

subsection \<open>Only the surface sets the realtime flag\<close>

lemma rt_helpers [simp]:
  "realtime_connected (put_thread k t s) = realtime_connected s"
  "realtime_connected (note_not_found k s) = realtime_connected s"
  "realtime_connected (fst (note_availability_error e s)) = realtime_connected s"
  "realtime_connected (patch_thread k f s) = realtime_connected s"
  "realtime_connected (patch_inbox seg g s) = realtime_connected s"
  "realtime_connected (snd (remove_from_requests k s)) = realtime_connected s"
  "realtime_connected (restore_requests ids s) = realtime_connected s"
  "realtime_connected (update_loaded_message k i h s) = realtime_connected s"
  "realtime_connected (patch_conversation k c s) = realtime_connected s"
  "realtime_connected (apply_inbox_page seg pg b s) = realtime_connected s"
  "realtime_connected (reset_thread_window k s) = realtime_connected s"
  by (simp_all add: put_thread_def note_not_found_def note_availability_error_def patch_thread_def
      patch_inbox_def remove_from_requests_def restore_requests_def update_loaded_message_def
      patch_conversation_def apply_inbox_page_def reset_thread_window_def Let_def split: option.splits)

lemma rt_helpers2 [simp]:
  "realtime_connected (note_last_message m b s) = realtime_connected s"
  "realtime_connected (apply_recent k ms s) = realtime_connected s"
  "realtime_connected (seed_from_search_hit hit s) = realtime_connected s"
  "realtime_connected (settle_chain ch r s) = realtime_connected s"
  "realtime_connected (clear_sent_drafts n k ko s) = realtime_connected s"
  "realtime_connected (put_optimistic k ko rq m s) = realtime_connected s"
  "realtime_connected (discard_failed k i s) = realtime_connected s"
  "realtime_connected (set_reactions k i f s) = realtime_connected s"
  "realtime_connected (set_deleted k i d s) = realtime_connected s"
  "realtime_connected (set_reply_target k mo s) = realtime_connected s"
  "realtime_connected (set_draft k t s) = realtime_connected s"
  "realtime_connected (restore_draft k s) = realtime_connected s"
  "realtime_connected (set_focused_conversation fo s) = realtime_connected s"
  "realtime_connected (set_availability a s) = realtime_connected s"
  by (simp_all add: note_last_message_def apply_recent_def seed_from_search_hit_def settle_chain_def
      clear_sent_drafts_def put_optimistic_def discard_failed_def set_reactions_def set_deleted_def
      set_reply_target_def set_draft_def restore_draft_def set_focused_conversation_def
      set_availability_def Let_def split: option.splits prod.splits)

lemma rt_send_outcomes [simp]:
  "realtime_connected (apply_send_success k rq m s) = realtime_connected s"
  "realtime_connected (apply_send_failure k rq e s) = realtime_connected s"
  by (simp_all add: apply_send_success_def apply_send_failure_def Let_def split: option.splits)

lemma rt_inbox [simp]:
  "realtime_connected (fst (load_inbox seg s)) = realtime_connected s"
  "realtime_connected (fst (load_inbox_done seg ri s)) = realtime_connected s"
  "realtime_connected (fst (load_more_inbox seg s)) = realtime_connected s"
  "realtime_connected (fst (load_more_inbox_done seg ri s)) = realtime_connected s"
  "realtime_connected (fst (ensure_conversation k mo s)) = realtime_connected s"
  "realtime_connected (fst (ensure_conversation_done k mo rc s)) = realtime_connected s"
  "realtime_connected (fst (find_direct_conversation fid s)) = realtime_connected s"
  "realtime_connected (fst (find_direct_conversation_done rc s)) = realtime_connected s"
  "realtime_connected (fst (accept_request k s)) = realtime_connected s"
  "realtime_connected (fst (accept_request_done k ids b rv s)) = realtime_connected s"
  "realtime_connected (fst (decline_request k s)) = realtime_connected s"
  "realtime_connected (fst (decline_request_done ids rv s)) = realtime_connected s"
  by (auto simp: load_inbox_def load_inbox_done_def load_more_inbox_def load_more_inbox_done_def
      ensure_conversation_def ensure_conversation_done_def find_direct_conversation_def
      find_direct_conversation_done_def accept_request_def accept_request_done_def decline_request_def
      decline_request_done_def Let_def split: option.splits sum.splits prod.splits
      dest!: arg_cong[where f = "\<lambda>x. realtime_connected (fst x)"] arg_cong[where f = "\<lambda>x. realtime_connected (snd x)"])

lemma rt_load_latest [simp]: "realtime_connected (fst (load_latest k s)) = realtime_connected s"
  by (auto simp: load_latest_def Let_def split: option.splits)

lemma rt_reload [simp]: "realtime_connected (fst (reload_thread_from_start k s)) = realtime_connected s"
  by (simp add: reload_thread_from_start_def)

lemma rt_thread [simp]:
  "realtime_connected (fst (load_latest_done k rp s)) = realtime_connected s"
  "realtime_connected (fst (load_older k s)) = realtime_connected s"
  "realtime_connected (fst (load_newer k s)) = realtime_connected s"
  "realtime_connected (fst (load_newer_done k rp s)) = realtime_connected s"
  "realtime_connected (fst (poll_recent k s)) = realtime_connected s"
  "realtime_connected (fst (poll_recent_done k rl s)) = realtime_connected s"
  "realtime_connected (fst (jump_to_message k i s)) = realtime_connected s"
  "realtime_connected (fst (jump_to_message_done k i rp s)) = realtime_connected s"
  by (auto simp: load_latest_done_def load_older_def load_newer_def
      load_newer_done_def poll_recent_def poll_recent_done_def jump_to_message_def jump_to_message_done_def
      Let_def split: option.splits sum.splits prod.splits
      dest!: arg_cong[where f = "\<lambda>x. realtime_connected (fst x)"])

lemma rt_older [simp]: "realtime_connected (fst (load_older_done k rp s)) = realtime_connected s"
  by (auto simp: load_older_done_def Let_def split: option.splits sum.splits prod.splits
      dest!: arg_cong[where f = "\<lambda>x. realtime_connected (fst x)"])

lemma rt_sends [simp]:
  "realtime_connected (fst (perform_send k rq ch s)) = realtime_connected s"
  "realtime_connected (fst (perform_send_done k rq ch rm s)) = realtime_connected s"
  "realtime_connected (fst (send_from_draft k rq s)) = realtime_connected s"
  "realtime_connected (fst (resume_draft_send k rq n v s)) = realtime_connected s"
  "realtime_connected (fst (dispatch_send k ko rq s)) = realtime_connected s"
  by (auto simp: perform_send_def perform_send_done_def send_from_draft_def resume_draft_send_def
      dispatch_send_def Let_def split: option.splits sum.splits prod.splits
      dest!: arg_cong[where f = "\<lambda>x. realtime_connected (fst x)"])

lemma rt_send [simp]:
  "realtime_connected (fst (send_accepted i now inp v t p s)) = realtime_connected s"
  "realtime_connected (fst (send_message i now inp s)) = realtime_connected s"
  "realtime_connected (fst (retry_send k i s)) = realtime_connected s"
  by (auto simp: send_accepted_def send_message_def retry_send_def Let_def split: option.splits)

lemma rt_rest [simp]:
  "realtime_connected (fst (toggle_message_reaction k i rx s)) = realtime_connected s"
  "realtime_connected (fst (toggle_message_reaction_done k i snap rv s)) = realtime_connected s"
  "realtime_connected (fst (delete_message k i s)) = realtime_connected s"
  "realtime_connected (fst (delete_message_done k i b rv s)) = realtime_connected s"
  "realtime_connected (fst (mark_read k now s)) = realtime_connected s"
  "realtime_connected (fst (mark_read_done rv s)) = realtime_connected s"
  "realtime_connected (fst (mark_unread k s)) = realtime_connected s"
  "realtime_connected (fst (mark_unread_done k rv s)) = realtime_connected s"
  "realtime_connected (fst (ingest_message vis k m s)) = realtime_connected s"
  "realtime_connected (fst (ingest_event vis ev s)) = realtime_connected s"
  "realtime_connected (fst (peer_read_done k rc s)) = realtime_connected s"
  by (auto simp: toggle_message_reaction_def toggle_message_reaction_done_def delete_message_def
      delete_message_done_def mark_read_def mark_read_done_def mark_unread_def mark_unread_done_def
      ingest_message_def ingest_event_def peer_read_done_def Let_def
      split: option.splits sum.splits prod.splits messages_event.splits)

lemma settle_rt: "settle p r s = Some (s', new, out) \<Longrightarrow> realtime_connected s' = realtime_connected s"
  by (cases p) (auto dest!: arg_cong[where f = "\<lambda>x. realtime_connected (fst x)"])

lemma perform_rt:
  "perform a s = (s', new, out) \<Longrightarrow> (\<forall>b. a \<noteq> A_realtime b) \<Longrightarrow>
     realtime_connected s' \<Longrightarrow> realtime_connected s"
  by (cases a) (auto simp: set_viewer_def reset_store_def with_initial_data_def split: if_splits
      dest!: arg_cong[where f = "\<lambda>x. realtime_connected (fst x)"])

subsection \<open>The Messages surface\<close>

text \<open>One run of the subscription effect: the socket layer and the debounce timer of \<^verbatim>\<open>refreshInbox\<close>.\<close>

record realtime =
  rt_ws :: ws
  rt_refresh_timer :: bool

text \<open>
  \<open>sy_old\<close> are the runs that were cleaned up, whose sockets may still deliver; \<open>sy_rechecks\<close> counts
  the \<^verbatim>\<open>GET /status\<close> calls of \<^verbatim>\<open>recheckMessagingEnabled\<close> in flight; \<open>sy_poll_deps\<close> are the dependencies
  with which the second effect ran last, \<open>sy_poll_timer\<close> its interval.
\<close>

record sync =
  sy_store :: sys
  sy_current :: "realtime option"
  sy_old :: "realtime list"
  sy_rechecks :: nat
  sy_poll_deps :: "(bool \<times> bool) option"
  sy_poll_timer :: bool

definition is_store_usable :: "mstate \<Rightarrow> bool" where
  "is_store_usable s \<longleftrightarrow> availability s \<noteq> Av_disabled \<and> availability s \<noteq> Av_token_required"

definition do_action :: "user_action \<Rightarrow> sync \<Rightarrow> sync" where
  "do_action a y = y\<lparr>sy_store := store_act (perform a) (sy_store y)\<rparr>"

definition refresh_inbox :: "realtime \<Rightarrow> realtime" where
  "refresh_inbox rt = rt\<lparr>rt_refresh_timer := True\<rparr>"

definition catch_up :: "realtime \<times> sync \<Rightarrow> realtime \<times> sync" where
  "catch_up x =
     (case x of (rt, y) \<Rightarrow>
        (refresh_inbox rt,
         (let focused = focused_conversation_id (fst (sy_store y))
          in if truthy focused then do_action (A_poll_recent (the focused)) y else y)))"

text \<open>
  The five callbacks. An event reaches the store as the parsed JSON, which TypeScript casts to the
  event type; \<open>decode\<close> is that reading, \<open>visible\<close> what \<^verbatim>\<open>document\<close> says at that moment.
\<close>

definition on_callback ::
  "(json \<Rightarrow> messages_event) \<Rightarrow> bool \<Rightarrow> ws_callback \<Rightarrow> realtime \<times> sync \<Rightarrow> realtime \<times> sync" where
  "on_callback decode visible cb x =
     (case x of (rt, y) \<Rightarrow>
        case cb of
          Cb_event ev \<Rightarrow>
            (if snd (snd (perform (A_ingest visible (decode ev)) (fst (sy_store y)))) = Out_bool True
             then (refresh_inbox rt, do_action (A_ingest visible (decode ev)) y)
             else (rt, do_action (A_ingest visible (decode ev)) y))
        | Cb_open \<Rightarrow> (rt, do_action (A_realtime True) y)
        | Cb_close \<Rightarrow> (rt, do_action (A_realtime False) y)
        | Cb_resume \<Rightarrow> catch_up (rt, y)
        | Cb_unavailable reason \<Rightarrow>
            (let y1 = do_action (A_realtime False) y
             in (rt, if reason = Token_required then do_action (A_availability Av_token_required) y1
                     else if reason = Disabled then y1\<lparr>sy_rechecks := sy_rechecks y1 + 1\<rparr>
                     else y1)))"

definition on_callbacks ::
  "(json \<Rightarrow> messages_event) \<Rightarrow> bool \<Rightarrow> ws_callback list \<Rightarrow> realtime \<times> sync \<Rightarrow> realtime \<times> sync" where
  "on_callbacks decode visible cbs x = fold (on_callback decode visible) cbs x"

definition recheck_messaging_enabled_done :: "js_error + messaging_status \<Rightarrow> sync \<Rightarrow> sync" where
  "recheck_messaging_enabled_done r y =
     (let y1 = y\<lparr>sy_rechecks := sy_rechecks y - 1\<rparr>
      in case r of
           Inr st \<Rightarrow> if \<not> ms_enabled st then do_action (A_availability Av_disabled) y1 else y1
         | Inl e \<Rightarrow> if is_messaging_disabled_error e then do_action (A_availability Av_disabled) y1 else y1)"

definition refresh_timer_fires :: "realtime \<times> sync \<Rightarrow> realtime \<times> sync" where
  "refresh_timer_fires x =
     (case x of (rt, y) \<Rightarrow>
        (rt\<lparr>rt_refresh_timer := False\<rparr>,
         (let y1 = do_action (A_load_inbox Seg_default) y
          in if ib_status (inbox (fst (sy_store y1)) Seg_request) \<noteq> St_idle
             then do_action (A_load_inbox Seg_request) y1 else y1)))"

text \<open>The subscription effect: the cleanup of its last run, then the next run.\<close>

definition cleanup_realtime :: "sync \<Rightarrow> sync" where
  "cleanup_realtime y =
     (case sy_current y of
        None \<Rightarrow> y
      | Some rt \<Rightarrow>
          do_action (A_realtime False)
            (y\<lparr>sy_current := None,
               sy_old := rt\<lparr>rt_refresh_timer := False, rt_ws := fst (unsubscribe (rt_ws rt))\<rparr> # sy_old y\<rparr>))"

definition realtime_effect :: "bool \<Rightarrow> sync \<Rightarrow> sync" where
  "realtime_effect en y =
     (let y1 = cleanup_realtime y
      in if \<not> en then y1
         else y1\<lparr>sy_current := Some \<lparr>rt_ws = subscribe_to_message_events, rt_refresh_timer = False\<rparr>\<rparr>)"

text \<open>The polling effect, which React runs again when one of its dependencies has changed.\<close>

definition poll_effect :: "bool \<Rightarrow> sync \<Rightarrow> sync" where
  "poll_effect en y =
     (let connected = realtime_connected (fst (sy_store y))
      in if sy_poll_deps y = Some (en, connected) then y
         else y\<lparr>sy_poll_deps := Some (en, connected), sy_poll_timer := en \<and> \<not> connected\<rparr>)"

definition focused_poll :: "bool \<Rightarrow> sync \<Rightarrow> sync" where
  "focused_poll visible y =
     (if \<not> visible \<or> \<not> is_store_usable (fst (sy_store y)) then y
      else do_action (A_load_inbox Seg_default) y)"

definition sync_start :: "storage option \<Rightarrow> sync" where
  "sync_start st = \<lparr>sy_store = (initial_store st, []), sy_current = None, sy_old = [], sy_rechecks = 0,
     sy_poll_deps = None, sy_poll_timer = False\<rparr>"

text \<open>
  A render of the surface: the subscription effect runs again when \<^verbatim>\<open>enabled\<close> has changed, and the
  polling effect after it.
\<close>

definition commit_render :: "bool \<Rightarrow> sync \<Rightarrow> sync" where
  "commit_render en y = poll_effect en (if (sy_current y \<noteq> None) = en then y else realtime_effect en y)"

text \<open>
  What can happen: any action of the store but the flag, which only the callbacks set; any call of the
  store settling; a render; a delivery to the current socket layer or to one that was cleaned up; the
  timers; a status coming back.
\<close>

inductive sync_step ::
  "(jstr \<Rightarrow> json option) \<Rightarrow> (json \<Rightarrow> messages_event) \<Rightarrow> sync \<Rightarrow> sync \<Rightarrow> bool" for parse decode where
  sync_action: "action_ok a \<Longrightarrow> (\<forall>b. a \<noteq> A_realtime b) \<Longrightarrow> sync_step parse decode y (do_action a y)"
| sync_settle: "p \<in> set P \<Longrightarrow> server_ok r \<Longrightarrow> settle p r s = Some (s', new, out) \<Longrightarrow> sy_store y = (s, P) \<Longrightarrow>
    sync_step parse decode y (y\<lparr>sy_store := (s', remove1 p P @ new)\<rparr>)"
| sync_wake: "P_wait dk rq prev n \<in> set P \<Longrightarrow> chain_values s prev = Some v \<Longrightarrow>
    resume_draft_send dk rq n v s = (s', new, out) \<Longrightarrow> sy_store y = (s, P) \<Longrightarrow>
    sync_step parse decode y (y\<lparr>sy_store := (s', remove1 (P_wait dk rq prev n) P @ new)\<rparr>)"
| sync_render: "sync_step parse decode y (commit_render en y)"
| sync_socket: "sy_current y = Some rt \<Longrightarrow> enabled inp (rt_ws rt) \<Longrightarrow> inp \<noteq> In_unsubscribe \<Longrightarrow>
    handle parse inp (rt_ws rt) = (w, cbs) \<Longrightarrow>
    on_callbacks decode visible cbs (rt\<lparr>rt_ws := w\<rparr>, y) = (rt', y') \<Longrightarrow>
    sync_step parse decode y (y'\<lparr>sy_current := Some rt'\<rparr>)"
| sync_old_socket: "i < length (sy_old y) \<Longrightarrow> enabled inp (rt_ws (sy_old y ! i)) \<Longrightarrow>
    handle parse inp (rt_ws (sy_old y ! i)) = (w, cbs) \<Longrightarrow>
    on_callbacks decode visible cbs ((sy_old y ! i)\<lparr>rt_ws := w\<rparr>, y) = (rt', y') \<Longrightarrow>
    sync_step parse decode y (y'\<lparr>sy_old := (sy_old y)[i := rt']\<rparr>)"
| sync_refresh: "sy_current y = Some rt \<Longrightarrow> rt_refresh_timer rt \<Longrightarrow> refresh_timer_fires (rt, y) = (rt', y') \<Longrightarrow>
    sync_step parse decode y (y'\<lparr>sy_current := Some rt'\<rparr>)"
| sync_recheck: "sy_rechecks y > 0 \<Longrightarrow> sync_step parse decode y (recheck_messaging_enabled_done r y)"
| sync_poll: "sy_poll_timer y \<Longrightarrow> sync_step parse decode y (focused_poll visible y)"

inductive sync_reachable ::
  "(jstr \<Rightarrow> json option) \<Rightarrow> (json \<Rightarrow> messages_event) \<Rightarrow> sync \<Rightarrow> bool" for parse decode where
  sync_init: "sync_reachable parse decode (sync_start st)"
| sync_next: "sync_reachable parse decode y \<Longrightarrow> sync_step parse decode y y' \<Longrightarrow> sync_reachable parse decode y'"

subsection \<open>The flag and the socket\<close>

abbreviation flag :: "sync \<Rightarrow> bool" where
  "flag y \<equiv> realtime_connected (fst (sy_store y))"

text \<open>The socket layer holds a socket that has opened and whose close has not been delivered.\<close>

definition connected_socket :: "ws \<Rightarrow> bool" where
  "connected_socket w \<longleftrightarrow> (case ws_socket w of None \<Rightarrow> False
     | Some i \<Rightarrow> ws_sockets w i = Some Rs_open \<or> ws_sockets w i = Some Rs_closing)"

primrec flag_after :: "bool \<Rightarrow> ws_callback list \<Rightarrow> bool" where
  "flag_after b [] = b"
| "flag_after b (c # cs) = flag_after (case c of Cb_open \<Rightarrow> True | Cb_close \<Rightarrow> False
      | Cb_unavailable r \<Rightarrow> False | _ \<Rightarrow> b) cs"

lemma do_action_frame [simp]:
  "sy_current (do_action a y) = sy_current y" "sy_old (do_action a y) = sy_old y"
  "sy_poll_deps (do_action a y) = sy_poll_deps y" "sy_poll_timer (do_action a y) = sy_poll_timer y"
  by (simp_all add: do_action_def)

lemma do_action_flag [simp]:
  "flag (do_action (A_realtime b) y) = b" "flag (do_action (A_ingest v ev) y) = flag y"
  "flag (do_action (A_poll_recent k) y) = flag y" "flag (do_action (A_availability a) y) = flag y"
  "flag (do_action (A_load_inbox seg) y) = flag y"
  by (auto simp: do_action_def store_act_def set_realtime_connected_def split: prod.splits
      dest!: arg_cong[where f = "\<lambda>x. realtime_connected (fst x)"])

lemma on_callback_effect:
  assumes "on_callback decode visible cb (rt, y) = (rt', y')"
  shows "flag y' = flag_after (flag y) [cb]" "rt_ws rt' = rt_ws rt" "sy_current y' = sy_current y"
    "sy_old y' = sy_old y"
  using assms
  by (cases cb; auto simp: on_callback_def catch_up_def refresh_inbox_def Let_def split: if_splits)+

lemma flag_after_Cons: "flag_after b (c # cs) = flag_after (flag_after b [c]) cs"
  by simp

lemma on_callbacks_effect:
  "on_callbacks decode visible cbs (rt, y) = (rt', y') \<Longrightarrow>
     flag y' = flag_after (flag y) cbs \<and> rt_ws rt' = rt_ws rt \<and> sy_current y' = sy_current y \<and> sy_old y' = sy_old y"
proof (induction cbs arbitrary: rt y)
  case Nil
  then show ?case by (simp add: on_callbacks_def)
next
  case (Cons c cs)
  obtain rt1 y1 where s: "on_callback decode visible c (rt, y) = (rt1, y1)" by fastforce
  then have "on_callbacks decode visible cs (rt1, y1) = (rt', y')" using Cons.prems by (simp add: on_callbacks_def)
  from Cons.IH[OF this] on_callback_effect[OF s] show ?case
    using flag_after_Cons[of "flag y" c cs] by simp
qed

lemma connected_cong:
  "ws_socket s' = ws_socket s \<Longrightarrow> ws_sockets s' = ws_sockets s \<Longrightarrow> connected_socket s' = connected_socket s"
  by (simp add: connected_socket_def split: option.splits)

lemma connected_schedule [simp]: "connected_socket (schedule_reconnect d now s) = connected_socket s"
  by (rule connected_cong) (simp_all add: schedule_reconnect_def)

lemma connect_flag:
  assumes "connect s = (s', cbs)" "f \<longrightarrow> connected_socket s" "flag_after f cbs"
  shows "connected_socket s'"
  using assms by (auto simp: connect_def detach_socket_def connected_socket_def Let_def split: if_splits option.splits)

lemma close_flag:
  assumes "on_close i code reason now (s\<lparr>ws_sockets := (ws_sockets s)(i \<mapsto> Rs_closed)\<rparr>) = (s', cbs)"
    and "f \<longrightarrow> connected_socket s" "flag_after f cbs"
  shows "connected_socket s'"
proof (cases "ws_socket s = Some i")
  case True
  obtain cs where "cbs = Cb_close # cs" "flag_after False cs \<Longrightarrow> False"
    using assms(1) True by (auto simp: on_close_def give_up_def Let_def split: close_action.splits if_splits)
  then show ?thesis using assms(3) by simp
next
  case False
  then show ?thesis using assms by (auto simp: on_close_def connected_socket_def split: option.splits)
qed

lemma mint_flag:
  assumes ok: "ws_ok s" and g: "g \<in> set (ws_mints s)"
    and h: "connect_done g out throws now (s\<lparr>ws_mints := remove1 g (ws_mints s)\<rparr>) = (s', cbs)"
    and was: "f \<longrightarrow> connected_socket s" and nw: "flag_after f cbs"
  shows "connected_socket s'"
proof (cases "g = ws_connect_generation s")
  case True
  then have "ws_socket s = None" using ok g by (auto simp: ws_ok_def mints_ok_def)
  then have "\<not> f" using was by (auto simp: connected_socket_def)
  then have "\<not> flag_after f cbs"
    using h True by (auto simp: connect_done_def give_up_def Let_def split: if_splits ticket_outcome.splits)
  then show ?thesis using nw by blast
next
  case False
  then show ?thesis using h was nw by (auto simp: connect_done_def connected_socket_def split: option.splits)
qed

lemma handle_flag:
  assumes ok: "ws_ok s" and en: "enabled inp s" "inp \<noteq> In_unsubscribe"
    and h: "handle parse inp s = (s', cbs)" and was: "f \<longrightarrow> connected_socket s" and now: "flag_after f cbs"
  shows "connected_socket s'"
proof (cases inp)
  case (In_mint g out throws t)
  then show ?thesis using mint_flag[OF ok _ _ was now] en h by simp
next
  case (In_open i t)
  then have "ws_socket s = Some i" using ok en by (auto simp: ws_ok_def sockets_ok_def live_def)
  then show ?thesis using In_open h by (auto simp: on_open_def connected_socket_def)
next
  case (In_message i frame t)
  then show ?thesis using h was now
    by (auto simp: on_message_def connected_socket_def split: option.splits if_splits)
next
  case (In_error i)
  then show ?thesis using h was now by (auto simp: close_socket_def connected_socket_def split: option.splits if_splits)
next
  case (In_close i code reason t)
  then show ?thesis using close_flag[OF _ was now] h by simp
next
  case (In_ping t)
  then show ?thesis using h was now en
    by (auto simp: on_ping_timer_def retire_stale_socket_def detach_socket_def split: if_splits option.splits)
next
  case (In_timer t)
  then have "connect (s\<lparr>ws_reconnect_timer := None\<rparr>) = (s', cbs)" using h by simp
  then show ?thesis by (rule connect_flag) (use was now connected_cong[of "s\<lparr>ws_reconnect_timer := None\<rparr>" s] in simp_all)
next
  case (In_refresh r t)
  have c: "connected_socket (s\<lparr>ws_refreshes := ws_refreshes s - 1\<rparr>) = connected_socket s"
    by (rule connected_cong) simp_all
  show ?thesis using In_refresh h was now connect_flag[of "s\<lparr>ws_refreshes := ws_refreshes s - 1\<rparr>" s' cbs f] c
    by (auto simp: refresh_done_def give_up_def split: refresh_result.splits)
next
  case (In_resume t)
  let ?s = "s\<lparr>ws_reconnect_attempt := 0, ws_reconnect_timer := None\<rparr>"
  have c: "connected_socket ?s = connected_socket s" by (rule connected_cong) simp_all
  obtain cs where cs: "cbs = Cb_resume # cs" "(s', cs) = (s, []) \<or> (s', cs) = connect ?s"
    using In_resume h by (auto simp: resume_def split: if_splits prod.splits)
  have "flag_after f cs" using now cs(1) by simp
  then show ?thesis using cs(2) connect_flag[of ?s s' cs f] was c by auto
qed (use en in simp_all)

lemma handle_not_cancelled:
  "handle parse inp s = (s', cbs) \<Longrightarrow> inp \<noteq> In_unsubscribe \<Longrightarrow> ws_cancelled s' = ws_cancelled s"
  by (cases inp) (auto simp: ws_defs Let_def split: option.splits if_splits prod.splits refresh_result.splits
      ticket_outcome.splits close_action.splits)

lemma handle_cancelled:
  assumes "ws_ok s" "enabled inp s" "ws_cancelled s" "handle parse inp s = (s', cbs)"
  shows "ws_cancelled s'" "flag_after f cbs \<Longrightarrow> f"
proof -
  have c: "ws_socket s = None" "ws_reconnect_timer s = None" "ws_ping_timer s = None"
    "ws_connect_generation s \<notin> set (ws_mints s)"
    using assms(1,3) by (auto simp: ws_ok_def ended_ok_def)
  have l: "\<not> live s i" for i using assms(1) c(1) by (auto simp: ws_ok_def sockets_ok_def)
  have "ws_cancelled s' \<and> (flag_after f cbs \<longrightarrow> f)"
    using assms(2,3,4) c l
    by (cases inp) (auto simp: ws_defs live_def Let_def split: if_splits refresh_result.splits)
  then show "ws_cancelled s'" "flag_after f cbs \<Longrightarrow> f" by blast+
qed

subsection \<open>Invariant\<close>

text \<open>
  Every layer is in a reachable state, the old ones are cancelled, the flag is set only while the
  current one has a connected socket, and the store is one the store's own steps can reach.
\<close>

definition sync_ok :: "(jstr \<Rightarrow> json option) \<Rightarrow> sync \<Rightarrow> bool" where
  "sync_ok parse y \<longleftrightarrow>
     (\<forall>rt \<in> set (sy_old y). ws_reachable parse (rt_ws rt) \<and> ws_cancelled (rt_ws rt)) \<and>
     (\<forall>rt. sy_current y = Some rt \<longrightarrow> ws_reachable parse (rt_ws rt)) \<and>
     (flag y \<longrightarrow> (case sy_current y of None \<Rightarrow> False | Some rt \<Rightarrow> connected_socket (rt_ws rt)))"

lemma sync_ok_store:
  assumes "sync_ok parse y" "sy_current y' = sy_current y" "sy_old y' = sy_old y" "flag y' \<Longrightarrow> flag y"
  shows "sync_ok parse y'"
  using assms by (auto simp: sync_ok_def split: option.splits)

lemma sync_ok_poll_effect: "sync_ok parse y \<Longrightarrow> sync_ok parse (poll_effect en y)"
  by (rule sync_ok_store[of parse y]) (auto simp: poll_effect_def Let_def split: if_splits)

lemma sync_ok_render:
  assumes "sync_ok parse y"
  shows "sync_ok parse (commit_render en y)"
proof -
  have "ws_reachable parse (fst (unsubscribe w))" if "ws_reachable parse w" for w
    using ws_next[OF that, of In_unsubscribe] by (cases "unsubscribe w") simp
  moreover have "ws_cancelled (fst (unsubscribe w))" for w
    by (simp add: unsubscribe_def clear_timers_def stop_ping_timer_def Let_def split: option.splits)
  ultimately have "sync_ok parse (cleanup_realtime y)"
    using assms by (auto simp: cleanup_realtime_def sync_ok_def split: option.splits)
  moreover have "\<not> flag (cleanup_realtime y)"
    using assms by (auto simp: cleanup_realtime_def sync_ok_def split: option.splits)
  ultimately have "sync_ok parse (realtime_effect en y)"
    using ws_start[of parse] by (auto simp: realtime_effect_def sync_ok_def Let_def split: option.splits)
  then show ?thesis using assms by (simp add: commit_render_def sync_ok_poll_effect)
qed

lemma sync_ok_socket:
  assumes ok: "sync_ok parse y" and rt: "sy_current y = Some rt" and en: "enabled inp (rt_ws rt)" "inp \<noteq> In_unsubscribe"
    and h: "handle parse inp (rt_ws rt) = (w, cbs)"
    and cb: "on_callbacks decode visible cbs (rt\<lparr>rt_ws := w\<rparr>, y) = (rt', y')"
  shows "sync_ok parse (y'\<lparr>sy_current := Some rt'\<rparr>)"
proof -
  have e: "flag y' = flag_after (flag y) cbs" "rt_ws rt' = w" "sy_old y' = sy_old y"
    using on_callbacks_effect[OF cb] by simp_all
  have r: "ws_reachable parse (rt_ws rt)" and f: "flag y \<longrightarrow> connected_socket (rt_ws rt)"
    using ok rt by (auto simp: sync_ok_def)
  have "ws_reachable parse w" using ws_next[OF r en(1) h] .
  moreover have "flag y' \<longrightarrow> connected_socket w"
    using handle_flag[OF ws_reachable_ok[OF r] en h f] e(1) by blast
  ultimately show ?thesis using ok e by (auto simp: sync_ok_def)
qed

lemma sync_ok_old:
  assumes ok: "sync_ok parse y" and i: "i < length (sy_old y)" and en: "enabled inp (rt_ws (sy_old y ! i))"
    and h: "handle parse inp (rt_ws (sy_old y ! i)) = (w, cbs)"
    and cb: "on_callbacks decode visible cbs ((sy_old y ! i)\<lparr>rt_ws := w\<rparr>, y) = (rt', y')"
  shows "sync_ok parse (y'\<lparr>sy_old := (sy_old y)[i := rt']\<rparr>)"
proof -
  have e: "flag y' = flag_after (flag y) cbs" "rt_ws rt' = w" "sy_current y' = sy_current y"
    using on_callbacks_effect[OF cb] by simp_all
  have r: "ws_reachable parse (rt_ws (sy_old y ! i))" "ws_cancelled (rt_ws (sy_old y ! i))"
    using ok i by (auto simp: sync_ok_def)
  have "ws_cancelled w" "flag y' \<Longrightarrow> flag y"
    using handle_cancelled[OF ws_reachable_ok[OF r(1)] en r(2) h] e(1) by auto
  moreover have "ws_reachable parse w" using ws_next[OF r(1) en h] .
  ultimately show ?thesis using ok e
    by (auto simp: sync_ok_def split: option.splits dest!: set_update_subset_insert[THEN subsetD])
qed

lemma sync_step_ok: "sync_step parse decode y y' \<Longrightarrow> sync_ok parse y \<Longrightarrow> sync_ok parse y'"
proof (induction rule: sync_step.induct)
  case (sync_action a y)
  obtain s' new out where p: "perform a (fst (sy_store y)) = (s', new, out)" by (metis prod_cases3)
  show ?case using perform_rt[OF p sync_action(2)] p
    by (intro sync_ok_store[OF sync_action(3)]) (simp_all add: do_action_def store_act_def)
next
  case (sync_settle p P r s s' new out y)
  then show ?case using settle_rt[OF sync_settle(3)]
    by (intro sync_ok_store[OF sync_settle(5)]) simp_all
next
  case (sync_wake dk rq prev n P s v s' new out y)
  have "realtime_connected s' = realtime_connected s"
    using rt_sends(4)[of dk rq n v s] sync_wake(3) by simp
  then show ?case using sync_wake(4) by (intro sync_ok_store[OF sync_wake(5)]) simp_all
next
  case (sync_refresh y rt rt' y')
  then have s: "rt_ws rt' = rt_ws rt" "flag y' = flag y" "sy_old y' = sy_old y"
    by (auto simp: refresh_timer_fires_def Let_def split: if_splits)
  then show ?case using sync_refresh(1,4) by (auto simp: sync_ok_def)
next
  case (sync_recheck y r)
  have "flag (y\<lparr>sy_rechecks := n\<rparr>) = flag y" for n by simp
  then show ?case
    by (intro sync_ok_store[OF sync_recheck(2)])
      (auto simp: recheck_messaging_enabled_done_def Let_def split: sum.splits if_splits)
next
  case (sync_poll y visible)
  then show ?case by (intro sync_ok_store[OF sync_poll(2)]) (auto simp: focused_poll_def split: if_splits)
qed (blast intro: sync_ok_render sync_ok_socket sync_ok_old)+

lemma sync_reachable_ok: "sync_reachable parse decode y \<Longrightarrow> sync_ok parse y"
proof (induction rule: sync_reachable.induct)
  case (sync_init st)
  show ?case by (simp add: sync_ok_def sync_start_def initial_store_def)
qed (rule sync_step_ok)

subsection \<open>The surface drives the store only through its actions\<close>

lemma do_action_reachable:
  assumes "sys_reachable (sy_store y)" "action_ok a"
  shows "sys_reachable (sy_store (do_action a y))"
proof -
  obtain s P where s: "sy_store y = (s, P)" by fastforce
  obtain s' new out where p: "perform a s = (s', new, out)" by (metis prod_cases3)
  have "sys_step (s, P) (s', P @ new)" using step_act[OF assms(2) p] .
  then show ?thesis using assms(1) s p sys_next by (simp add: do_action_def store_act_def)
qed

lemma on_callback_reachable:
  "on_callback decode visible cb (rt, y) = (rt', y') \<Longrightarrow> sys_reachable (sy_store y) \<Longrightarrow> sys_reachable (sy_store y')"
  by (cases cb; auto simp: on_callback_def catch_up_def Let_def split: if_splits intro!: do_action_reachable)

lemma on_callbacks_reachable:
  "on_callbacks decode visible cbs (rt, y) = (rt', y') \<Longrightarrow> sys_reachable (sy_store y) \<Longrightarrow> sys_reachable (sy_store y')"
proof (induction cbs arbitrary: rt y)
  case (Cons c cs)
  obtain rt1 y1 where s: "on_callback decode visible c (rt, y) = (rt1, y1)" by fastforce
  then have "on_callbacks decode visible cs (rt1, y1) = (rt', y')" using Cons.prems by (simp add: on_callbacks_def)
  then show ?case using Cons.IH on_callback_reachable[OF s Cons.prems(2)] by blast
qed (simp add: on_callbacks_def)

lemma sync_step_store:
  "sync_step parse decode y y' \<Longrightarrow> sys_reachable (sy_store y) \<Longrightarrow> sys_reachable (sy_store y')"
proof (induction rule: sync_step.induct)
  case (sync_settle p P r s s' new out y)
  then show ?case using sys_next[OF _ step_settle[OF sync_settle(1-3)]] by simp
next
  case (sync_wake dk rq prev n P s v s' new out y)
  then show ?case using sys_next[OF _ step_wake[OF sync_wake(1-3)]] by simp
next
  case (sync_render y en)
  then show ?case
    by (auto simp: commit_render_def poll_effect_def realtime_effect_def cleanup_realtime_def Let_def
        split: option.splits intro!: do_action_reachable)
next
  case (sync_socket y rt inp w cbs visible rt' y')
  then show ?case using on_callbacks_reachable by simp
next
  case (sync_old_socket i y inp w cbs visible rt' y')
  then show ?case using on_callbacks_reachable by simp
next
  case (sync_refresh y rt rt' y')
  then show ?case by (auto simp: refresh_timer_fires_def Let_def split: if_splits intro!: do_action_reachable)
next
  case (sync_recheck y r)
  then show ?case
    by (auto simp: recheck_messaging_enabled_done_def Let_def split: sum.splits intro!: do_action_reachable)
next
  case (sync_poll y visible)
  then show ?case by (auto simp: focused_poll_def intro!: do_action_reachable)
qed (rule do_action_reachable)

subsection \<open>The interval of the focused poll\<close>

definition poll_timer_ok :: "sync \<Rightarrow> bool" where
  "poll_timer_ok y \<longleftrightarrow> sy_poll_timer y = (case sy_poll_deps y of None \<Rightarrow> False | Some (en, c) \<Rightarrow> en \<and> \<not> c)"

lemma poll_timer_ok_cong:
  "sy_poll_timer y' = sy_poll_timer y \<Longrightarrow> sy_poll_deps y' = sy_poll_deps y \<Longrightarrow> poll_timer_ok y' = poll_timer_ok y"
  by (simp add: poll_timer_ok_def)

lemma on_callbacks_timer:
  "on_callbacks decode visible cbs (rt, y) = (rt', y') \<Longrightarrow>
     sy_poll_timer y' = sy_poll_timer y \<and> sy_poll_deps y' = sy_poll_deps y"
proof (induction cbs arbitrary: rt y)
  case (Cons c cs)
  obtain rt1 y1 where s: "on_callback decode visible c (rt, y) = (rt1, y1)" by fastforce
  then have "on_callbacks decode visible cs (rt1, y1) = (rt', y')" using Cons.prems by (simp add: on_callbacks_def)
  moreover have "sy_poll_timer y1 = sy_poll_timer y \<and> sy_poll_deps y1 = sy_poll_deps y"
    using s by (cases c) (auto simp: on_callback_def catch_up_def Let_def split: if_splits)
  ultimately show ?case using Cons.IH[of rt1 y1] by simp
qed (simp add: on_callbacks_def)

lemma sync_step_timer: "sync_step parse decode y y' \<Longrightarrow> poll_timer_ok y \<Longrightarrow> poll_timer_ok y'"
proof (induction rule: sync_step.induct)
  case (sync_render y en)
  then have "poll_timer_ok (realtime_effect b y)" for b
    by (auto simp: poll_timer_ok_def realtime_effect_def cleanup_realtime_def Let_def split: option.splits)
  then show ?case using sync_render
    by (auto simp: commit_render_def poll_effect_def poll_timer_ok_def Let_def)
next
  case (sync_socket y rt inp w cbs visible rt' y')
  then show ?case using on_callbacks_timer[OF sync_socket(5)] by (simp add: poll_timer_ok_def)
next
  case (sync_old_socket i y inp w cbs visible rt' y')
  then show ?case using on_callbacks_timer[OF sync_old_socket(4)] by (simp add: poll_timer_ok_def)
next
  case (sync_refresh y rt rt' y')
  then show ?case by (auto simp: poll_timer_ok_def refresh_timer_fires_def Let_def split: if_splits)
next
  case (sync_recheck y r)
  then show ?case
    by (auto simp: poll_timer_ok_def recheck_messaging_enabled_done_def Let_def split: sum.splits)
next
  case (sync_poll y visible)
  then show ?case by (simp add: poll_timer_ok_def focused_poll_def)
qed (simp_all add: poll_timer_ok_def)

lemma sync_reachable_timer: "sync_reachable parse decode y \<Longrightarrow> poll_timer_ok y"
proof (induction rule: sync_reachable.induct)
  case (sync_init st)
  show ?case by (simp add: poll_timer_ok_def sync_start_def)
qed (rule sync_step_timer)

subsection \<open>Properties\<close>

definition a_decode :: "json \<Rightarrow> messages_event" where
  "a_decode j = Ev_ping"

text \<open>A surface that has subscribed, minted its ticket and opened its socket.\<close>

definition demo_layer :: ws where
  "demo_layer = fst (handle parse_none (In_open 0 5)
     (fst (handle parse_none (In_mint 1 (Ticket ''t'') False 4) subscribe_to_message_events)))"

definition demo_sync :: sync where
  "demo_sync = (do_action (A_realtime True) (commit_render True (sync_start None)))
     \<lparr>sy_current := Some \<lparr>rt_ws = demo_layer, rt_refresh_timer = False\<rparr>\<rparr>"

lemma delivery:
  assumes "sync_reachable parse decode y" "sy_current y = Some \<lparr>rt_ws = w0, rt_refresh_timer = t\<rparr>"
    "enabled inp w0" "inp \<noteq> In_unsubscribe" "handle parse inp w0 = (w, cbs)"
    "on_callbacks decode visible cbs (\<lparr>rt_ws = w, rt_refresh_timer = t\<rparr>, y) = (rt', y')"
  shows "sync_reachable parse decode (y'\<lparr>sy_current := Some rt'\<rparr>)"
  by (rule sync_next[OF assms(1) sync_socket[OF assms(2) _ assms(4)]]) (use assms in simp_all)

lemma demo_sync_reachable: "sync_reachable parse_none a_decode demo_sync"
proof -
  let ?y0 = "commit_render True (sync_start None)"
  let ?w1 = "fst (handle parse_none (In_mint 1 (Ticket ''t'') False 4) subscribe_to_message_events)"
  let ?y1 = "?y0\<lparr>sy_current := Some \<lparr>rt_ws = ?w1, rt_refresh_timer = False\<rparr>\<rparr>"
  have c: "sy_current ?y0 = Some \<lparr>rt_ws = subscribe_to_message_events, rt_refresh_timer = False\<rparr>"
    by (simp add: commit_render_def poll_effect_def realtime_effect_def cleanup_realtime_def sync_start_def Let_def)
  have m: "enabled (In_mint 1 (Ticket ''t'') False 4) subscribe_to_message_events" by code_simp
  have "snd (handle parse_none (In_mint 1 (Ticket ''t'') False 4) subscribe_to_message_events) = []" by code_simp
  then have hm: "handle parse_none (In_mint 1 (Ticket ''t'') False 4) subscribe_to_message_events = (?w1, [])"
    by (rule prod_eqI[OF fst_conv[symmetric], unfolded snd_conv])
  have o: "enabled (In_open 0 5) ?w1" by code_simp
  have "snd (handle parse_none (In_open 0 5) ?w1) = [Cb_open]" by code_simp
  then have ho: "handle parse_none (In_open 0 5) ?w1 = (demo_layer, [Cb_open])"
    unfolding demo_layer_def by (rule prod_eqI[OF fst_conv[symmetric], unfolded snd_conv])
  have "sync_reachable parse_none a_decode ?y0" by (rule sync_next[OF sync_init sync_render])
  then have r1: "sync_reachable parse_none a_decode ?y1"
    by (rule delivery[OF _ c m _ hm]) (simp_all add: on_callbacks_def)
  have c1: "sy_current ?y1 = Some \<lparr>rt_ws = ?w1, rt_refresh_timer = False\<rparr>" by simp
  have "sync_reachable parse_none a_decode
      ((do_action (A_realtime True) ?y1)\<lparr>sy_current := Some \<lparr>rt_ws = demo_layer, rt_refresh_timer = False\<rparr>\<rparr>)"
    by (rule delivery[OF r1 c1 o _ ho]) (simp_all add: on_callbacks_def on_callback_def)
  then show ?thesis by (simp add: demo_sync_def do_action_def)
qed

text \<open>
  C14. The Messages surface is never left without updates: in every reachable state the realtime flag
  is set only while the current socket layer holds a socket that has opened, and after any render of
  the open surface the focused inbox poll is running or such a socket is there; whichever order the
  socket, its closes and token refreshes, account switches, and the calls of the store come in.
\<close>

theorem surface_always_fed:
  assumes "sync_reachable parse decode y"
  shows "(flag y \<longrightarrow> (\<exists>rt. sy_current y = Some rt \<and> connected_socket (rt_ws rt))) \<and>
    (sy_poll_timer (commit_render True y) \<or>
      (\<exists>rt. sy_current (commit_render True y) = Some rt \<and> connected_socket (rt_ws rt)))"
proof -
  have f: "flag z \<longrightarrow> (\<exists>rt. sy_current z = Some rt \<and> connected_socket (rt_ws rt))"
    if "sync_reachable parse decode z" for z
    using sync_reachable_ok[OF that] by (auto simp: sync_ok_def split: option.splits)
  let ?y = "commit_render True y"
  have r: "sync_reachable parse decode ?y" by (rule sync_next[OF assms sync_render])
  have "sy_poll_deps ?y = Some (True, flag ?y)"
    by (auto simp: commit_render_def poll_effect_def Let_def)
  then have "sy_poll_timer ?y \<or> flag ?y" using sync_reachable_timer[OF r] by (auto simp: poll_timer_ok_def)
  then show ?thesis using f[OF assms] f[OF r] by blast
qed

lemma surface_always_fed_witness:
  "flag demo_sync \<and> (\<exists>rt. sy_current demo_sync = Some rt \<and> connected_socket (rt_ws rt))"
proof -
  have "flag demo_sync" by (simp add: demo_sync_def)
  then show ?thesis using surface_always_fed[OF demo_sync_reachable] by blast
qed

text \<open>
  The surface and the socket only ever drive the store through its own actions: whatever state the
  wired system reaches, its store is one the store's step relation reaches, so every theorem on the
  reachable stores (sorted threads, no confirmed message lost, one draft send in flight) holds while
  the socket delivers.
\<close>

theorem surface_refines_store:
  assumes "sync_reachable parse decode y"
  shows "sys_reachable (sy_store y) \<and> threads_ok (fst (sy_store y))"
proof -
  have "sys_reachable (sy_store y)"
    using assms
  proof (induction rule: sync_reachable.induct)
    case (sync_init st)
    show ?case by (simp add: sync_start_def sys_init)
  qed (rule sync_step_store)
  then show ?thesis using sys_reachable_threads_ok by blast
qed

lemma surface_refines_store_witness: "sys_reachable (sy_store demo_sync)"
  using surface_refines_store[OF demo_sync_reachable] by blast

text \<open>
  The subscription effect depends on \<^verbatim>\<open>enabled\<close> only: when the account changes while the surface stays
  open, no render replaces the socket that was opened for the previous account, and its events go on
  reaching the store, which now is the new account's.
\<close>

lemma old_socket_feeds_new_viewer:
  fixes v :: message_user
  shows "\<exists>y. sync_reachable parse_none a_decode y \<and> viewer (fst (sy_store y)) = Some v \<and>
    sy_current (commit_render True y) = Some \<lparr>rt_ws = demo_layer, rt_refresh_timer = False\<rparr> \<and>
    ws_sockets demo_layer 0 = Some Rs_open \<and> ws_socket demo_layer = Some 0"
proof -
  let ?y = "do_action (A_set_viewer (Some v)) demo_sync"
  have "sync_reachable parse_none a_decode ?y"
    by (rule sync_next[OF demo_sync_reachable sync_action]) simp_all
  moreover have "viewer (fst (sy_store ?y)) = Some v"
    by (auto simp: do_action_def store_act_def set_viewer_def)
  moreover have "sy_current (commit_render True ?y) = Some \<lparr>rt_ws = demo_layer, rt_refresh_timer = False\<rparr>"
    by (simp add: commit_render_def poll_effect_def demo_sync_def Let_def)
  moreover have "ws_sockets demo_layer 0 = Some Rs_open \<and> ws_socket demo_layer = Some 0" by code_simp
  ultimately show ?thesis by blast
qed

text \<open>
  When \<^verbatim>\<open>GET /status\<close> reports that messaging is off, the badge's poll marks the store disabled and
  stops: from then on a tick makes no call at all, for whichever account.
\<close>

theorem badge_stops_when_disabled:
  assumes "confirm_token_done message_poll_deps fid (Inr st) (p, x) = ((p', x'), calls)"
    and "\<not> ms_enabled st"
  shows "availability (fst x') = Av_disabled \<and> calls = [Await_confirmed fid False] \<and>
    tick message_poll_deps visible (p', x') = ((p', x'), []) \<and>
    tick_done message_poll_deps False x' = x'"
proof -
  have "availability (fst x') = Av_disabled"
    using assms by (auto simp: confirm_token_done_def message_poll_deps_def set_availability_def Let_def)
  then show ?thesis
    using message_poll.disabled_stops[OF assms(1)] assms(2) by (simp add: tick_done_def)
qed

lemma badge_stops_when_disabled_witness:
  "\<exists>p x. tick message_poll_deps True (p, x) = ((p, x), []) \<and> availability (fst x) = Av_disabled"
proof -
  let ?st = "active_status\<lparr>ms_enabled := False\<rparr>"
  obtain p x calls where c: "confirm_token_done message_poll_deps 7 (Inr ?st)
      (create_background_inbox_poll, (initial_store None, [])) = ((p, x), calls)"
    by (metis surj_pair)
  have "\<not> ms_enabled ?st" by (simp add: active_status_def)
  from badge_stops_when_disabled[OF c this, of True] show ?thesis by blast
qed

text \<open>
  \<^verbatim>\<open>confirmToken\<close> looks at the viewer only after it has written the availability, so the status of one
  account marks the next one's store as lacking a token.
\<close>

lemma set_availability_sets: "availability (set_availability a s) = a" "viewer (set_availability a s) = viewer s"
  by (simp_all add: set_availability_def)

lemma stale_status_marks_new_viewer:
  assumes "viewer_fid (fst x) = Some other" "other \<noteq> fid"
    and "ms_enabled st" "ms_token_status st = Some Token_missing"
    and "confirm_token_done message_poll_deps fid (Inr st) (p, x) = ((p', x'), calls)"
  shows "viewer_fid (fst x') = Some other" "availability (fst x') = Av_token_required"
    "\<not> is_store_usable (fst x')"
  using assms
  by (auto simp: confirm_token_done_def message_poll_deps_def set_availability_sets is_store_usable_def viewer_fid_def Let_def)

end
