(* ===== verification/Cast_Feed.thy ===== *)
theory Cast_Feed
  imports Prelude
begin

text \<open>
  Casts and the home feed: the wire shape of a cast and its normalisation
  (\<^verbatim>\<open>landing/lib/api/feed.ts\<close>), the feed store (\<^verbatim>\<open>landing/lib/stores/feedStore.ts\<close>) and the Home page's
  loaders and optimistic handlers around it (\<^verbatim>\<open>landing/app/app/page.tsx\<close>). The embeds of a cast are
  carried through unread; their type is a parameter.
\<close>

subsection \<open>Casts\<close>

record author =
  au_fid :: int
  au_username :: jstr
  au_display_name :: jstr
  au_pfp_url :: "jstr option"

record parent_cast =
  pc_hash :: jstr
  pc_author :: author
  pc_text :: jstr
  pc_timestamp :: jstr

text \<open>The viewer flags are optional; comparing one with \<^verbatim>\<open>===\<close> tells a missing flag from \<^verbatim>\<open>false\<close>.\<close>

record cast_reactions =
  likes_count :: int
  recasts_count :: int
  replies_count :: int
  viewer_liked :: "bool option"
  viewer_recasted :: "bool option"

record cast_channel =
  ch_id :: jstr
  ch_name :: jstr
  ch_image_url :: "jstr option"

record 'e cast =
  ca_hash :: jstr
  ca_author :: author
  ca_text :: jstr
  ca_timestamp :: jstr
  ca_embeds :: "'e list"
  ca_reactions :: cast_reactions
  ca_channel :: "cast_channel option"
  ca_parent_hash :: "jstr option"
  ca_parent_cast :: "parent_cast option"
  ca_viewer_bookmarked :: "bool option"

subsection \<open>The wire shape\<close>

record raw_author =
  ra_fid :: int
  ra_username :: "jstr option"
  ra_display_name :: "jstr option"
  ra_pfp_url :: "jstr option"
  ra_is_spam :: "bool option"

record raw_parent_cast =
  rp_hash :: jstr
  rp_author :: "raw_author option"
  rp_text :: "jstr option"
  rp_timestamp :: "jstr option"

record raw_reactions =
  rr_likes_count :: "int option"
  rr_recasts_count :: "int option"

record raw_viewer =
  rv_liked :: "bool option"
  rv_recasted :: "bool option"
  rv_bookmarked :: "bool option"

record raw_channel =
  rc_id :: jstr
  rc_name :: "jstr option"

record 'e raw_cast =
  rw_hash :: jstr
  rw_author :: author
  rw_text :: jstr
  rw_timestamp :: jstr
  rw_embeds :: "'e list option"
  rw_reactions :: "raw_reactions option"
  rw_replies :: "int option option"
  rw_viewer :: "raw_viewer option"
  rw_channel :: "raw_channel option"
  rw_parent_hash :: "jstr option"
  rw_parent_cast :: "raw_parent_cast option"

definition or_default :: "'a option \<Rightarrow> 'a \<Rightarrow> 'a" where
  "or_default x d = (case x of None \<Rightarrow> d | Some v \<Rightarrow> v)"

lemma or_default_simps [simp]: "or_default None d = d" "or_default (Some v) d = v"
  by (simp_all add: or_default_def)

definition normalize_author :: "raw_author \<Rightarrow> author" where
  "normalize_author a =
     \<lparr>au_fid = ra_fid a, au_username = or_default (ra_username a) [],
      au_display_name = or_default (ra_display_name a) (or_default (ra_username a) []),
      au_pfp_url = ra_pfp_url a\<rparr>"

definition normalize_parent_cast :: "raw_parent_cast option \<Rightarrow> parent_cast option" where
  "normalize_parent_cast raw =
     (case raw of
        None \<Rightarrow> None
      | Some r \<Rightarrow>
          (case rp_author r of
             None \<Rightarrow> None
           | Some a \<Rightarrow>
               if rp_hash r = [] then None
               else Some \<lparr>pc_hash = rp_hash r, pc_author = normalize_author a,
                          pc_text = or_default (rp_text r) [], pc_timestamp = or_default (rp_timestamp r) []\<rparr>))"

definition normalize_cast :: "('e, 'm) raw_cast_scheme \<Rightarrow> 'e cast" where
  "normalize_cast raw =
     \<lparr>ca_hash = rw_hash raw, ca_author = rw_author raw, ca_text = rw_text raw,
      ca_timestamp = rw_timestamp raw, ca_embeds = or_default (rw_embeds raw) [],
      ca_reactions =
        \<lparr>likes_count = or_default (Option.bind (rw_reactions raw) rr_likes_count) 0,
         recasts_count = or_default (Option.bind (rw_reactions raw) rr_recasts_count) 0,
         replies_count = or_default (Option.bind (rw_replies raw) id) 0,
         viewer_liked = Some (or_default (Option.bind (rw_viewer raw) rv_liked) False),
         viewer_recasted = Some (or_default (Option.bind (rw_viewer raw) rv_recasted) False)\<rparr>,
      ca_channel = map_option (\<lambda>c. \<lparr>ch_id = rc_id c, ch_name = or_default (rc_name c) (rc_id c), ch_image_url = None\<rparr>) (rw_channel raw),
      ca_parent_hash = rw_parent_hash raw,
      ca_parent_cast = normalize_parent_cast (rw_parent_cast raw),
      ca_viewer_bookmarked = Some (or_default (Option.bind (rw_viewer raw) rv_bookmarked) False)\<rparr>"

subsection \<open>The store\<close>

record 'e feed =
  fd_casts :: "'e cast list"
  fd_cursor :: "jstr option"
  fd_loading :: bool
  fd_refreshing :: bool
  fd_has_more :: bool
  fd_error :: "jstr option"
  fd_refresh_requested_at :: int

definition map_cast :: "'e cast list \<Rightarrow> jstr \<Rightarrow> ('e cast \<Rightarrow> 'e cast) \<Rightarrow> 'e cast list" where
  "map_cast casts hash fn = map (\<lambda>c. if ca_hash c = hash then fn c else c) casts"

definition set_like :: "'e cast \<Rightarrow> bool \<Rightarrow> 'e cast" where
  "set_like c liked =
     (if viewer_liked (ca_reactions c) = Some liked then c
      else c\<lparr>ca_reactions := (ca_reactions c)\<lparr>viewer_liked := Some liked,
             likes_count := (if liked then likes_count (ca_reactions c) + 1
                             else max 0 (likes_count (ca_reactions c) - 1))\<rparr>\<rparr>)"

definition set_recast :: "'e cast \<Rightarrow> bool \<Rightarrow> 'e cast" where
  "set_recast c recasted =
     (if viewer_recasted (ca_reactions c) = Some recasted then c
      else c\<lparr>ca_reactions := (ca_reactions c)\<lparr>viewer_recasted := Some recasted,
             recasts_count := (if recasted then recasts_count (ca_reactions c) + 1
                               else max 0 (recasts_count (ca_reactions c) - 1))\<rparr>\<rparr>)"

definition feed_initial :: "'e feed" where
  "feed_initial = \<lparr>fd_casts = [], fd_cursor = None, fd_loading = False, fd_refreshing = False,
     fd_has_more = True, fd_error = None, fd_refresh_requested_at = 0\<rparr>"

definition set_casts :: "'e cast list \<Rightarrow> jstr option \<Rightarrow> 'e feed \<Rightarrow> 'e feed" where
  "set_casts casts cur s = s\<lparr>fd_casts := casts, fd_cursor := cur, fd_has_more := (cur \<noteq> None),
     fd_loading := False, fd_refreshing := False, fd_error := None\<rparr>"

definition append_casts :: "'e cast list \<Rightarrow> jstr option \<Rightarrow> 'e feed \<Rightarrow> 'e feed" where
  "append_casts newCasts cur s = s\<lparr>fd_casts := fd_casts s @ newCasts, fd_cursor := cur,
     fd_has_more := (cur \<noteq> None), fd_loading := False, fd_error := None\<rparr>"

definition prepend_cast :: "'e cast \<Rightarrow> 'e feed \<Rightarrow> 'e feed" where
  "prepend_cast c s =
     (if list_ex (\<lambda>x. ca_hash x = ca_hash c) (fd_casts s) then s else s\<lparr>fd_casts := c # fd_casts s\<rparr>)"

definition increment_replies :: "jstr \<Rightarrow> 'e feed \<Rightarrow> 'e feed" where
  "increment_replies hash s = s\<lparr>fd_casts := map_cast (fd_casts s) hash
     (\<lambda>c. c\<lparr>ca_reactions := (ca_reactions c)\<lparr>replies_count := replies_count (ca_reactions c) + 1\<rparr>\<rparr>)\<rparr>"

definition set_loading :: "bool \<Rightarrow> 'e feed \<Rightarrow> 'e feed" where
  "set_loading b s = s\<lparr>fd_loading := b\<rparr>"

definition set_refreshing :: "bool \<Rightarrow> 'e feed \<Rightarrow> 'e feed" where
  "set_refreshing b s = s\<lparr>fd_refreshing := b\<rparr>"

definition set_error :: "jstr option \<Rightarrow> 'e feed \<Rightarrow> 'e feed" where
  "set_error e s = s\<lparr>fd_error := e, fd_loading := False, fd_refreshing := False\<rparr>"

definition request_refresh :: "int \<Rightarrow> 'e feed \<Rightarrow> 'e feed" where
  "request_refresh now s = s\<lparr>fd_refresh_requested_at := now\<rparr>"

definition like :: "jstr \<Rightarrow> 'e feed \<Rightarrow> 'e feed" where
  "like hash s = s\<lparr>fd_casts := map_cast (fd_casts s) hash (\<lambda>c. set_like c True)\<rparr>"

definition remove_like :: "jstr \<Rightarrow> 'e feed \<Rightarrow> 'e feed" where
  "remove_like hash s = s\<lparr>fd_casts := map_cast (fd_casts s) hash (\<lambda>c. set_like c False)\<rparr>"

definition recast :: "jstr \<Rightarrow> 'e feed \<Rightarrow> 'e feed" where
  "recast hash s = s\<lparr>fd_casts := map_cast (fd_casts s) hash (\<lambda>c. set_recast c True)\<rparr>"

definition remove_recast :: "jstr \<Rightarrow> 'e feed \<Rightarrow> 'e feed" where
  "remove_recast hash s = s\<lparr>fd_casts := map_cast (fd_casts s) hash (\<lambda>c. set_recast c False)\<rparr>"

definition bookmark :: "jstr \<Rightarrow> bool \<Rightarrow> 'e feed \<Rightarrow> 'e feed" where
  "bookmark hash b s = s\<lparr>fd_casts := map_cast (fd_casts s) hash (\<lambda>c. c\<lparr>ca_viewer_bookmarked := Some b\<rparr>)\<rparr>"

definition remove_cast :: "jstr \<Rightarrow> 'e feed \<Rightarrow> 'e feed" where
  "remove_cast hash s = s\<lparr>fd_casts := filter (\<lambda>c. ca_hash c \<noteq> hash) (fd_casts s)\<rparr>"

definition remove_author :: "int \<Rightarrow> 'e feed \<Rightarrow> 'e feed" where
  "remove_author fid s = s\<lparr>fd_casts := filter (\<lambda>c. au_fid (ca_author c) \<noteq> fid) (fd_casts s)\<rparr>"

definition feed_reset :: "'e feed \<Rightarrow> 'e feed" where
  "feed_reset s = feed_initial"

subsection \<open>The Home page\<close>

text \<open>
  The calls the page leaves in flight, with what their continuations captured. A load, which is a
  \<^verbatim>\<open>Promise.all\<close> with the voice notes, settles with the page of casts or an error's message.
\<close>

datatype 'e feed_call =
  Fc_load
  | Fc_refresh
  | Fc_more jstr
  | Fc_like jstr bool
  | Fc_recast jstr bool
  | Fc_bookmark jstr bool
  | Fc_delete jstr "'e cast list"

type_synonym 'e page_result = "jstr option + 'e cast list \<times> jstr option"

definition load_feed :: "'e feed \<Rightarrow> 'e feed \<times> 'e feed_call list" where
  "load_feed s = (set_loading True s, [Fc_load])"

definition load_feed_done :: "'e page_result \<Rightarrow> 'e feed \<Rightarrow> 'e feed" where
  "load_feed_done r s =
     (case r of
        Inr (casts, cur) \<Rightarrow> set_casts casts cur s
      | Inl msg \<Rightarrow> set_error (Some (or_default msg ''Failed to load your feed'')) s)"

definition refresh_feed :: "'e feed \<Rightarrow> 'e feed \<times> 'e feed_call list" where
  "refresh_feed s = (set_refreshing True s, [Fc_refresh])"

definition refresh_feed_done :: "'e page_result \<Rightarrow> 'e feed \<Rightarrow> 'e feed" where
  "refresh_feed_done r s =
     (case r of
        Inr (casts, cur) \<Rightarrow> set_casts casts cur s
      | Inl msg \<Rightarrow> set_error (Some (or_default msg ''Failed to refresh your feed'')) s)"

definition load_more :: "'e feed \<Rightarrow> 'e feed \<times> 'e feed_call list" where
  "load_more s =
     (case fd_cursor s of
        None \<Rightarrow> (s, [])
      | Some cur \<Rightarrow>
          if \<not> fd_has_more s \<or> fd_loading s \<or> cur = [] then (s, [])
          else (set_loading True s, [Fc_more cur]))"

definition load_more_done :: "'e page_result \<Rightarrow> 'e feed \<Rightarrow> 'e feed" where
  "load_more_done r s =
     (case r of
        Inr (casts, cur) \<Rightarrow> append_casts casts cur s
      | Inl msg \<Rightarrow> set_error (Some (or_default msg ''Failed to load more'')) s)"

text \<open>The optimistic handlers get the cast the card was rendered with.\<close>

definition handle_like :: "'e cast \<Rightarrow> 'e feed \<Rightarrow> 'e feed \<times> 'e feed_call list" where
  "handle_like c s =
     (let wasLiked = (viewer_liked (ca_reactions c) = Some True)
      in (if wasLiked then remove_like (ca_hash c) s else like (ca_hash c) s, [Fc_like (ca_hash c) wasLiked]))"

definition handle_like_failed :: "jstr \<Rightarrow> bool \<Rightarrow> 'e feed \<Rightarrow> 'e feed" where
  "handle_like_failed hash wasLiked s = (if wasLiked then like hash s else remove_like hash s)"

definition handle_recast :: "'e cast \<Rightarrow> 'e feed \<Rightarrow> 'e feed \<times> 'e feed_call list" where
  "handle_recast c s =
     (let was = (viewer_recasted (ca_reactions c) = Some True)
      in (if was then remove_recast (ca_hash c) s else recast (ca_hash c) s, [Fc_recast (ca_hash c) was]))"

definition handle_recast_failed :: "jstr \<Rightarrow> bool \<Rightarrow> 'e feed \<Rightarrow> 'e feed" where
  "handle_recast_failed hash was s = (if was then recast hash s else remove_recast hash s)"

definition handle_bookmark :: "'e cast \<Rightarrow> 'e feed \<Rightarrow> 'e feed \<times> 'e feed_call list" where
  "handle_bookmark c s =
     (let was = or_default (ca_viewer_bookmarked c) False
      in (bookmark (ca_hash c) (\<not> was) s, [Fc_bookmark (ca_hash c) was]))"

definition handle_delete :: "'e cast \<Rightarrow> 'e feed \<Rightarrow> 'e feed \<times> 'e feed_call list" where
  "handle_delete c s = (remove_cast (ca_hash c) s, [Fc_delete (ca_hash c) (fd_casts s)])"

definition handle_delete_failed :: "'e cast list \<Rightarrow> 'e feed \<Rightarrow> 'e feed" where
  "handle_delete_failed priorCasts s = s\<lparr>fd_casts := priorCasts\<rparr>"

text \<open>How a call settles: a page load with its result, the others by resolving or failing.\<close>

fun feed_settle :: "'e feed_call \<Rightarrow> 'e page_result \<Rightarrow> 'e feed \<Rightarrow> 'e feed" where
  "feed_settle Fc_load r s = load_feed_done r s"
| "feed_settle Fc_refresh r s = refresh_feed_done r s"
| "feed_settle (Fc_more c) r s = load_more_done r s"
| "feed_settle (Fc_like h w) r s = (if isl r then handle_like_failed h w s else s)"
| "feed_settle (Fc_recast h w) r s = (if isl r then handle_recast_failed h w s else s)"
| "feed_settle (Fc_bookmark h w) r s = (if isl r then bookmark h w s else s)"
| "feed_settle (Fc_delete h prior) r s = (if isl r then handle_delete_failed prior s else s)"

text \<open>
  Voice notes are dealt into the stream after every fourth cast, the rest at the end.
\<close>

datatype ('c, 'v) feed_item = It_cast 'c | It_voice_note 'v

definition VOICE_NOTE_INTERVAL :: nat where "VOICE_NOTE_INTERVAL = 4"

text \<open>The loop of \<^verbatim>\<open>mergeFeedItems\<close> from index \<open>i\<close>, and the \<^verbatim>\<open>while\<close> after it.\<close>

fun merge_loop :: "nat \<Rightarrow> 'c list \<Rightarrow> 'v list \<Rightarrow> ('c, 'v) feed_item list" where
  "merge_loop i [] vs = map It_voice_note vs"
| "merge_loop i (c # cs) vs =
     It_cast c #
       (case vs of
          v # vs' \<Rightarrow> if (i + 1) mod VOICE_NOTE_INTERVAL = 0 then It_voice_note v # merge_loop (i + 1) cs vs'
                     else merge_loop (i + 1) cs vs
        | [] \<Rightarrow> merge_loop (i + 1) cs [])"

definition merge_feed_items :: "'c list \<Rightarrow> 'v list \<Rightarrow> ('c, 'v) feed_item list" where
  "merge_feed_items casts vs =
     (if vs = [] then map It_cast casts
      else if casts = [] then map It_voice_note vs
      else merge_loop 0 casts vs)"

subsection \<open>A failed like leaves no trace\<close>

text \<open>The store's mutators as data, to speak of whatever happens while a call is in flight.\<close>

datatype 'e feed_op =
  Op_set_casts "'e cast list" "jstr option"
  | Op_append "'e cast list" "jstr option"
  | Op_prepend "'e cast"
  | Op_replies jstr
  | Op_loading bool
  | Op_refreshing bool
  | Op_error "jstr option"
  | Op_request int
  | Op_like jstr bool
  | Op_recast jstr bool
  | Op_bookmark jstr bool
  | Op_remove jstr
  | Op_remove_author int

fun run_op :: "'e feed_op \<Rightarrow> 'e feed \<Rightarrow> 'e feed" where
  "run_op (Op_set_casts cs cur) s = set_casts cs cur s"
| "run_op (Op_append cs cur) s = append_casts cs cur s"
| "run_op (Op_prepend c) s = prepend_cast c s"
| "run_op (Op_replies h) s = increment_replies h s"
| "run_op (Op_loading b) s = set_loading b s"
| "run_op (Op_refreshing b) s = set_refreshing b s"
| "run_op (Op_error e) s = set_error e s"
| "run_op (Op_request now) s = request_refresh now s"
| "run_op (Op_like h b) s = (if b then like h s else remove_like h s)"
| "run_op (Op_recast h b) s = (if b then recast h s else remove_recast h s)"
| "run_op (Op_bookmark h b) s = bookmark h b s"
| "run_op (Op_remove h) s = remove_cast h s"
| "run_op (Op_remove_author fid) s = remove_author fid s"

text \<open>Copies of the cast that arrive meanwhile are ones the viewer has not liked.\<close>

definition not_liked :: "jstr \<Rightarrow> 'e cast \<Rightarrow> bool" where
  "not_liked h c \<longleftrightarrow> ca_hash c = h \<longrightarrow>
     viewer_liked (ca_reactions c) = Some False \<and> 0 \<le> likes_count (ca_reactions c)"

fun leaves_likes :: "jstr \<Rightarrow> 'e feed_op \<Rightarrow> bool" where
  "leaves_likes h (Op_set_casts cs cur) = list_all (not_liked h) cs"
| "leaves_likes h (Op_append cs cur) = list_all (not_liked h) cs"
| "leaves_likes h (Op_prepend c) = not_liked h c"
| "leaves_likes h (Op_like h' b) = (h' \<noteq> h)"
| "leaves_likes h op = True"

definition like_rel :: "jstr \<Rightarrow> 'e cast \<Rightarrow> 'e cast \<Rightarrow> bool" where
  "like_rel h c c' \<longleftrightarrow> not_liked h c \<and> (c' = c \<or> ca_hash c = h \<and> c' = set_like c True)"

definition feed_rel :: "jstr \<Rightarrow> 'e feed \<Rightarrow> 'e feed \<Rightarrow> bool" where
  "feed_rel h s s' \<longleftrightarrow> list_all2 (like_rel h) (fd_casts s) (fd_casts s') \<and> s' = s\<lparr>fd_casts := fd_casts s'\<rparr>"

lemma feed_relI:
  "list_all2 (like_rel h) (fd_casts s) (fd_casts s') \<Longrightarrow> s' = s\<lparr>fd_casts := fd_casts s'\<rparr> \<Longrightarrow> feed_rel h s s'"
  by (simp add: feed_rel_def)

lemma feed_relE:
  assumes "feed_rel h s s'"
  obtains cs where "s' = s\<lparr>fd_casts := cs\<rparr>" "list_all2 (like_rel h) (fd_casts s) cs"
  using assms unfolding feed_rel_def by metis

lemma like_rel_frame: "like_rel h c c' \<Longrightarrow> ca_hash c' = ca_hash c \<and> ca_author c' = ca_author c"
  by (auto simp: like_rel_def set_like_def)

lemma like_rel_refl: "list_all (not_liked h) cs \<Longrightarrow> list_all2 (like_rel h) cs cs"
  by (induction cs) (auto simp: like_rel_def)

lemma rel_map_cast:
  assumes "list_all2 (like_rel h) cs cs'"
    and "\<And>c c'. like_rel h c c' \<Longrightarrow> ca_hash c = k \<Longrightarrow> like_rel h (fn c) (fn c')"
  shows "list_all2 (like_rel h) (map_cast cs k fn) (map_cast cs' k fn)"
  using assms(1) unfolding map_cast_def
  by (induction rule: list_all2_induct) (auto dest: like_rel_frame assms(2))

lemma rel_filter:
  assumes "list_all2 (like_rel h) cs cs'" and "\<And>c c'. like_rel h c c' \<Longrightarrow> P c' = P c"
  shows "list_all2 (like_rel h) (filter P cs) (filter P cs')"
  using assms(1) by (induction rule: list_all2_induct) (auto dest: assms(2))

lemma rel_hashes: "list_all2 (like_rel h) cs cs' \<Longrightarrow> list_ex (\<lambda>x. ca_hash x = k) cs' = list_ex (\<lambda>x. ca_hash x = k) cs"
  by (induction rule: list_all2_induct) (auto dest: like_rel_frame)

lemma rel_set_recast: "like_rel h c c' \<Longrightarrow> like_rel h (set_recast c b) (set_recast c' b)"
  by (auto simp: like_rel_def not_liked_def set_recast_def set_like_def)

lemma rel_set_like: "like_rel h c c' \<Longrightarrow> ca_hash c \<noteq> h \<Longrightarrow> like_rel h (set_like c b) (set_like c' b)"
  by (auto simp: like_rel_def not_liked_def set_like_def)

lemma rel_bookmark: "like_rel h c c' \<Longrightarrow> like_rel h (c\<lparr>ca_viewer_bookmarked := b\<rparr>) (c'\<lparr>ca_viewer_bookmarked := b\<rparr>)"
  by (auto simp: like_rel_def not_liked_def set_like_def)

lemma rel_replies:
  "like_rel h c c' \<Longrightarrow> like_rel h
     (c\<lparr>ca_reactions := (ca_reactions c)\<lparr>replies_count := replies_count (ca_reactions c) + 1\<rparr>\<rparr>)
     (c'\<lparr>ca_reactions := (ca_reactions c')\<lparr>replies_count := replies_count (ca_reactions c') + 1\<rparr>\<rparr>)"
  by (auto simp: like_rel_def not_liked_def set_like_def)

lemma run_op_rel:
  assumes "leaves_likes h op" "feed_rel h s s'"
  shows "feed_rel h (run_op op s) (run_op op s')"
proof -
  obtain cs where s': "s' = s\<lparr>fd_casts := cs\<rparr>" and r: "list_all2 (like_rel h) (fd_casts s) cs"
    using feed_relE[OF assms(2)] .
  show ?thesis
  proof (cases op)
    case (Op_prepend c)
    then show ?thesis
      using assms(1) r rel_hashes[OF r, of "ca_hash c"] s'
      by (auto simp: feed_rel_def prepend_cast_def like_rel_def)
  next
    case (Op_replies k)
    then show ?thesis using s' r rel_replies
      by (auto simp: feed_rel_def increment_replies_def intro!: rel_map_cast)
  next
    case (Op_like k b)
    then show ?thesis using s' r assms(1) rel_set_like
      by (auto simp: feed_rel_def like_def remove_like_def intro!: rel_map_cast)
  next
    case (Op_recast k b)
    then show ?thesis using s' r rel_set_recast
      by (auto simp: feed_rel_def recast_def remove_recast_def intro!: rel_map_cast)
  next
    case (Op_bookmark k b)
    then show ?thesis using s' r rel_bookmark
      by (auto simp: feed_rel_def bookmark_def intro!: rel_map_cast)
  next
    case (Op_remove k)
    then show ?thesis using s' r
      by (auto simp: feed_rel_def remove_cast_def dest: like_rel_frame intro!: rel_filter)
  next
    case (Op_remove_author fid)
    then show ?thesis using s' r
      by (auto simp: feed_rel_def remove_author_def dest: like_rel_frame intro!: rel_filter)
  qed (use assms(1) s' r like_rel_refl in
      \<open>auto simp: feed_rel_def set_casts_def append_casts_def set_loading_def set_refreshing_def
        set_error_def request_refresh_def intro!: list_all2_appendI\<close>)
qed

lemma run_ops_rel:
  "list_all (leaves_likes h) ops \<Longrightarrow> feed_rel h s s' \<Longrightarrow> feed_rel h (fold run_op ops s) (fold run_op ops s')"
  by (induction ops arbitrary: s s') (auto dest: run_op_rel)

lemma unlike_rel: "like_rel h c c' \<Longrightarrow> (if ca_hash c' = h then set_like c' False else c') = c"
  by (auto simp: like_rel_def not_liked_def set_like_def)

lemma remove_like_rel: "feed_rel h s s' \<Longrightarrow> remove_like h s' = s"
proof (elim feed_relE)
  fix cs assume s': "s' = s\<lparr>fd_casts := cs\<rparr>" and r: "list_all2 (like_rel h) (fd_casts s) cs"
  from r have "map_cast cs h (\<lambda>c. set_like c False) = fd_casts s"
    unfolding map_cast_def by (induction rule: list_all2_induct) (auto dest: unlike_rel)
  then show ?thesis using s' by (simp add: remove_like_def)
qed

text \<open>
  C15. The optimistic like is undone exactly: when the viewer likes a cast and the call fails, the feed is
  as if the like had never been tried, whatever the store did in between (pages loaded, casts
  published, removed or authors blocked, other reactions and bookmarks of the same cast), as long as
  that cast's own like was not touched.
\<close>

theorem failed_like_leaves_no_trace:
  assumes "list_all (not_liked (ca_hash c)) (fd_casts s)" and "c \<in> set (fd_casts s)"
    and "list_all (leaves_likes (ca_hash c)) ops"
    and "handle_like c s = (s1, [Fc_like hash wasLiked])"
  shows "feed_settle (Fc_like hash wasLiked) (Inl e) (fold run_op ops s1) = fold run_op ops s"
proof -
  let ?h = "ca_hash c"
  have "viewer_liked (ca_reactions c) = Some False"
    using assms(1,2) by (auto simp: list_all_iff not_liked_def)
  then have s1: "s1 = like ?h s" "hash = ?h" "\<not> wasLiked" using assms(4) by (auto simp: handle_like_def)
  have "list_all2 (like_rel ?h) (fd_casts s) (fd_casts (like ?h s))"
    using assms(1) unfolding like_def map_cast_def
    by (simp, induction "fd_casts s") (auto simp: like_rel_def list_all2_map2 list_all2_same list_all_iff)
  then have "feed_rel ?h s s1" by (auto simp: feed_rel_def s1 like_def)
  then have "feed_rel ?h (fold run_op ops s) (fold run_op ops s1)" using run_ops_rel assms(3) by blast
  then show ?thesis using remove_like_rel s1 by (simp add: handle_like_failed_def)
qed

subsection \<open>The page as a system\<close>

type_synonym 'e feed_sys = "'e feed \<times> 'e feed_call list"

text \<open>Loads, handlers and other writers at any time, and calls that settle in any order.\<close>

inductive feed_step :: "'e feed_sys \<Rightarrow> 'e feed_sys \<Rightarrow> bool" where
  fs_load: "load_feed s = (s', cs) \<Longrightarrow> feed_step (s, P) (s', P @ cs)"
| fs_refresh: "refresh_feed s = (s', cs) \<Longrightarrow> feed_step (s, P) (s', P @ cs)"
| fs_more: "load_more s = (s', cs) \<Longrightarrow> feed_step (s, P) (s', P @ cs)"
| fs_like: "handle_like c s = (s', cs) \<Longrightarrow> feed_step (s, P) (s', P @ cs)"
| fs_recast: "handle_recast c s = (s', cs) \<Longrightarrow> feed_step (s, P) (s', P @ cs)"
| fs_bookmark: "handle_bookmark c s = (s', cs) \<Longrightarrow> feed_step (s, P) (s', P @ cs)"
| fs_delete: "handle_delete c s = (s', cs) \<Longrightarrow> feed_step (s, P) (s', P @ cs)"
| fs_settle: "call \<in> set P \<Longrightarrow> feed_step (s, P) (feed_settle call r s, remove1 call P)"
| fs_publish: "feed_step (s, P) (prepend_cast c s, P)"
| fs_reply: "feed_step (s, P) (increment_replies h s, P)"
| fs_request: "feed_step (s, P) (request_refresh now s, P)"
| fs_dismiss: "feed_step (s, P) (set_error None s, P)"
| fs_block: "feed_step (s, P) (remove_author fid s, P)"

inductive feed_reachable :: "'e feed_sys \<Rightarrow> bool" where
  feed_init: "feed_reachable (feed_initial, [])"
| feed_next: "feed_reachable x \<Longrightarrow> feed_step x y \<Longrightarrow> feed_reachable y"

definition loads_casts :: "'e feed_call \<Rightarrow> bool" where
  "loads_casts c \<longleftrightarrow> (case c of Fc_load \<Rightarrow> True | Fc_more cur \<Rightarrow> True | _ \<Rightarrow> False)"

definition is_refresh :: "'e feed_call \<Rightarrow> bool" where
  "is_refresh c \<longleftrightarrow> (case c of Fc_refresh \<Rightarrow> True | _ \<Rightarrow> False)"

definition feed_ok :: "'e feed_sys \<Rightarrow> bool" where
  "feed_ok x \<longleftrightarrow> (case x of (s, P) \<Rightarrow>
     (fd_loading s \<longrightarrow> list_ex loads_casts P) \<and> (fd_refreshing s \<longrightarrow> list_ex is_refresh P) \<and>
     (fd_cursor s \<noteq> None \<longrightarrow> fd_has_more s))"

lemma list_ex_remove1: "list_ex Q P \<Longrightarrow> \<not> Q c \<Longrightarrow> list_ex Q (remove1 c P)"
  by (induction P) auto

lemmas feed_defs =
  load_feed_def refresh_feed_def load_more_def handle_like_def handle_recast_def handle_bookmark_def
  handle_delete_def set_casts_def append_casts_def prepend_cast_def increment_replies_def set_loading_def
  set_refreshing_def set_error_def request_refresh_def like_def remove_like_def recast_def
  remove_recast_def bookmark_def remove_cast_def remove_author_def load_feed_done_def
  refresh_feed_done_def load_more_done_def handle_like_failed_def handle_recast_failed_def
  handle_delete_failed_def

lemma feed_settle_flags:
  "loads_casts call \<Longrightarrow> \<not> fd_loading (feed_settle call r s)"
  "is_refresh call \<Longrightarrow> \<not> fd_refreshing (feed_settle call r s)"
  "fd_loading (feed_settle call r s) \<Longrightarrow> fd_loading s"
  "fd_refreshing (feed_settle call r s) \<Longrightarrow> fd_refreshing s"
  "(fd_cursor s \<noteq> None \<Longrightarrow> fd_has_more s) \<Longrightarrow> fd_cursor (feed_settle call r s) \<noteq> None \<Longrightarrow>
     fd_has_more (feed_settle call r s)"
  by (cases call; auto simp: feed_defs loads_casts_def is_refresh_def Let_def split: sum.splits if_splits)+

lemma feed_step_ok: "feed_step x y \<Longrightarrow> feed_ok x \<Longrightarrow> feed_ok y"
proof (induction rule: feed_step.induct)
  case (fs_settle call P s r)
  let ?s = "feed_settle call r s"
  have ok: "fd_loading s \<Longrightarrow> list_ex loads_casts P" "fd_refreshing s \<Longrightarrow> list_ex is_refresh P"
    "fd_cursor s \<noteq> None \<Longrightarrow> fd_has_more s"
    using fs_settle(2) by (auto simp: feed_ok_def)
  have "list_ex loads_casts (remove1 call P)" if "fd_loading ?s"
    using that feed_settle_flags(1,3) ok(1) list_ex_remove1 by metis
  moreover have "list_ex is_refresh (remove1 call P)" if "fd_refreshing ?s"
    using that feed_settle_flags(2,4) ok(2) list_ex_remove1 by metis
  moreover have "fd_has_more ?s" if "fd_cursor ?s \<noteq> None"
    using that feed_settle_flags(5) ok(3) by metis
  ultimately show ?case by (simp add: feed_ok_def)
qed (auto simp: feed_ok_def feed_defs loads_casts_def is_refresh_def Let_def split: option.splits if_splits)

lemma feed_reachable_ok: "feed_reachable x \<Longrightarrow> feed_ok x"
proof (induction rule: feed_reachable.induct)
  case feed_init
  show ?case by (simp add: feed_ok_def feed_initial_def)
qed (rule feed_step_ok)

subsection \<open>Properties\<close>

definition demo_author :: author where
  "demo_author = \<lparr>au_fid = 3, au_username = ''ann'', au_display_name = ''Ann'', au_pfp_url = None\<rparr>"

definition demo_cast :: "jstr \<Rightarrow> unit cast" where
  "demo_cast h = \<lparr>ca_hash = h, ca_author = demo_author, ca_text = ''hi'', ca_timestamp = '''', ca_embeds = [],
     ca_reactions = \<lparr>likes_count = 2, recasts_count = 0, replies_count = 0, viewer_liked = Some False,
       viewer_recasted = Some False\<rparr>,
     ca_channel = None, ca_parent_hash = None, ca_parent_cast = None, ca_viewer_bookmarked = Some False\<rparr>"

definition demo_feed :: "unit feed" where
  "demo_feed = set_casts [demo_cast ''a'', demo_cast ''b''] (Some ''n'') feed_initial"

lemma failed_like_leaves_no_trace_witness:
  "\<exists>s1. handle_like (demo_cast ''a'') demo_feed = (s1, [Fc_like ''a'' False]) \<and> s1 \<noteq> demo_feed \<and>
     feed_settle (Fc_like ''a'' False) (Inl None)
       (fold run_op [Op_append [demo_cast ''c''] None, Op_bookmark ''a'' True, Op_remove ''b''] s1) =
     fold run_op [Op_append [demo_cast ''c''] None, Op_bookmark ''a'' True, Op_remove ''b''] demo_feed"
proof -
  let ?s1 = "fst (handle_like (demo_cast ''a'') demo_feed)"
  have h: "handle_like (demo_cast ''a'') demo_feed = (?s1, [Fc_like ''a'' False])"
    by (simp add: handle_like_def demo_cast_def)
  have "list_all (not_liked (ca_hash (demo_cast ''a''))) (fd_casts demo_feed)"
    "demo_cast ''a'' \<in> set (fd_casts demo_feed)"
    "list_all (leaves_likes (ca_hash (demo_cast ''a'')))
       [Op_append [demo_cast ''c''] None, Op_bookmark ''a'' True, Op_remove ''b'']"
    by (simp_all add: demo_feed_def set_casts_def demo_cast_def not_liked_def)
  from failed_like_leaves_no_trace[OF this h] have
    "feed_settle (Fc_like ''a'' False) (Inl None)
       (fold run_op [Op_append [demo_cast ''c''] None, Op_bookmark ''a'' True, Op_remove ''b''] ?s1) =
     fold run_op [Op_append [demo_cast ''c''] None, Op_bookmark ''a'' True, Op_remove ''b''] demo_feed" .
  moreover have "likes_count (ca_reactions (hd (fd_casts ?s1))) = 3"
    "likes_count (ca_reactions (hd (fd_casts demo_feed))) = 2"
    by (simp_all add: handle_like_def demo_feed_def set_casts_def demo_cast_def like_def map_cast_def set_like_def)
  ultimately show ?thesis using h by (metis one_less_numeral_iff less_irrefl numeral_eq_iff semiring_norm(88))
qed

text \<open>
  No spinner without a call: in every reachable state of the Home page, while the feed shows that
  it is loading some page of casts is in flight, while it shows that it is refreshing a refresh is, and
  a cursor is only kept when there is more to load. The result of such a call, page or error, turns its
  spinner off.
\<close>

theorem feed_spinner_has_call:
  assumes "feed_reachable (s, P)"
  shows "(fd_loading s \<longrightarrow> list_ex (\<lambda>c. loads_casts c \<and> \<not> fd_loading (feed_settle c r s)) P) \<and>
    (fd_refreshing s \<longrightarrow> list_ex (\<lambda>c. is_refresh c \<and> \<not> fd_refreshing (feed_settle c r s)) P) \<and>
    (fd_cursor s \<noteq> None \<longrightarrow> fd_has_more s)"
proof -
  have "list_ex loads_casts P \<Longrightarrow> list_ex (\<lambda>c. loads_casts c \<and> \<not> fd_loading (feed_settle c r s)) P"
    "list_ex is_refresh P \<Longrightarrow> list_ex (\<lambda>c. is_refresh c \<and> \<not> fd_refreshing (feed_settle c r s)) P"
    using feed_settle_flags(1,2) unfolding list_ex_iff by blast+
  then show ?thesis using feed_reachable_ok[OF assms] by (auto simp: feed_ok_def)
qed

definition demo_loading :: "unit feed" where
  "demo_loading = fst (load_feed feed_initial)"

lemma feed_spinner_has_call_witness:
  "fd_loading demo_loading \<and>
   list_ex (\<lambda>c. loads_casts c \<and> \<not> fd_loading (feed_settle c (Inl None) demo_loading)) [Fc_load]"
proof -
  have r: "feed_reachable (demo_loading, [] @ [Fc_load])"
    by (rule feed_next[OF feed_init fs_load]) (simp add: load_feed_def demo_loading_def)
  have "fd_loading demo_loading" by (simp add: demo_loading_def load_feed_def set_loading_def)
  then show ?thesis using feed_spinner_has_call[OF r[unfolded append_Nil], of "Inl None"] by blast
qed

subsection \<open>Voice notes in the stream\<close>

definition item_casts :: "('c, 'v) feed_item list \<Rightarrow> 'c list" where
  "item_casts xs = concat (map (\<lambda>x. case x of It_cast c \<Rightarrow> [c] | It_voice_note v \<Rightarrow> []) xs)"

definition item_notes :: "('c, 'v) feed_item list \<Rightarrow> 'v list" where
  "item_notes xs = concat (map (\<lambda>x. case x of It_cast c \<Rightarrow> [] | It_voice_note v \<Rightarrow> [v]) xs)"

text \<open>No two voice notes are adjacent before the last cast.\<close>

fun spread :: "('c, 'v) feed_item list \<Rightarrow> bool" where
  "spread (It_voice_note v # It_voice_note w # xs) = (item_casts xs = [] \<and> spread (It_voice_note w # xs))"
| "spread (x # xs) = spread xs"
| "spread [] = True"

lemma item_simps [simp]:
  "item_casts [] = []" "item_notes [] = []"
  "item_casts (It_cast c # xs) = c # item_casts xs" "item_notes (It_cast c # xs) = item_notes xs"
  "item_casts (It_voice_note v # xs) = item_casts xs" "item_notes (It_voice_note v # xs) = v # item_notes xs"
  by (simp_all add: item_casts_def item_notes_def)

lemma item_maps [simp]:
  "item_casts (map It_cast cs) = cs" "item_notes (map It_cast cs) = []"
  "item_casts (map It_voice_note vs) = []" "item_notes (map It_voice_note vs) = vs"
  by (induction cs; simp)+ (induction vs; simp)+

lemma spread_maps [simp]: "spread (map It_voice_note vs)"
proof (induction vs)
  case (Cons v vs)
  then show ?case by (cases vs) auto
qed simp

lemma spread_casts [simp]: "spread (map It_cast cs)"
  by (induction cs) auto

lemma merge_loop_items: "item_casts (merge_loop i cs vs) = cs \<and> item_notes (merge_loop i cs vs) = vs"
  by (induction i cs vs rule: merge_loop.induct) (auto split: list.splits)

lemma spread_note_cast: "spread xs \<Longrightarrow> (\<exists>c ys. xs = It_cast c # ys) \<Longrightarrow> spread (It_voice_note v # xs)"
  by auto

lemma merge_loop_spread: "spread (merge_loop i cs vs)"
proof (induction i cs vs rule: merge_loop.induct)
  case (2 i c cs vs)
  show ?case
  proof (cases vs)
    case Nil
    then show ?thesis using 2 by simp
  next
    case (Cons v vs')
    have "spread (It_voice_note v # merge_loop (i + 1) cs vs')" if "spread (merge_loop (i + 1) cs vs')"
    proof (cases cs)
      case Nil
      then show ?thesis using spread_maps[of "v # vs'"] by simp
    next
      case (Cons d ds)
      then show ?thesis using that by (intro spread_note_cast) (auto split: list.splits)
    qed
    then show ?thesis using 2 Cons by auto
  qed
qed simp

text \<open>
  The Home stream loses and reorders nothing: the casts and the voice notes read back out of the
  merged stream are exactly the lists that went in, in their order, and two voice notes are adjacent
  only after the last cast.
\<close>

theorem merged_feed_faithful:
  "item_casts (merge_feed_items casts vs) = casts \<and> item_notes (merge_feed_items casts vs) = vs \<and>
   spread (merge_feed_items casts vs)"
  by (simp add: merge_feed_items_def merge_loop_items merge_loop_spread)

subsection \<open>Where the page loses updates\<close>

text \<open>
  The revert of a failed delete puts back the list as it was before the delete. A page that was appended
  while the delete was in flight disappears, and its cursor is spent: the casts of that page cannot
  be reached again.
\<close>

lemma failed_delete_drops_page:
  fixes a b :: "'e cast"
  assumes "ca_hash a = h" "fd_casts s = [a]" "fd_cursor s = Some cur" "cur \<noteq> []" "fd_has_more s" "\<not> fd_loading s"
    and "handle_delete a s = (s1, [Fc_delete h prior])" "load_more s1 = (s2, calls)"
    and "s3 = feed_settle (Fc_more cur) (Inr ([b], None)) s2"
    and "s4 = feed_settle (Fc_delete h prior) (Inl e) s3"
  shows "calls = [Fc_more cur]" "fd_casts s3 = [b]" "fd_casts s4 = [a]" "load_more s4 = (s4, [])"
  using assms by (auto simp: feed_defs)

text \<open>
  \<^verbatim>\<open>loadMore\<close> and a refresh do not know of each other: a page that was asked for before a refresh is
  appended to the refreshed feed, where its casts can already be, and replaces the new cursor.
\<close>

lemma stale_page_duplicates:
  assumes "fd_cursor s = Some cur" "cur \<noteq> []" "fd_has_more s" "\<not> fd_loading s"
    and "load_more s = (s1, [Fc_more cur])" "refresh_feed s1 = (s2, [Fc_refresh])"
    and "s3 = feed_settle Fc_refresh (Inr (fresh, Some new)) s2"
    and "s4 = feed_settle (Fc_more cur) (Inr (page, old)) s3"
  shows "fd_casts s4 = fresh @ page" "fd_cursor s4 = old"
  using assms by (auto simp: feed_defs)

end
