(* ===== verification/Notification_Store.thy ===== *)
theory Notification_Store
  imports Cast_Feed
begin

text \<open>
  The notifications (\<^verbatim>\<open>landing/lib/stores/notificationStore.ts\<close>): pages, the unread badge, optimistic
  reactions on the raw casts, and the mapping of those casts (\<^verbatim>\<open>normalizeCast\<close> of
  \<^verbatim>\<open>landing/lib/api/users.ts\<close>) to what the rows show. \<^verbatim>\<open>new Date(s).getTime()\<close> is the argument \<open>ms\<close>,
  \<open>None\<close> for \<^verbatim>\<open>NaN\<close>; comparing with \<^verbatim>\<open>NaN\<close> is false.
\<close>

subsection \<open>Wire casts\<close>

record raw_image_channel = raw_channel +
  rc_image_url :: "jstr option"

record 'e user_raw_cast =
  ur_hash :: jstr
  ur_author :: raw_author
  ur_text :: "jstr option"
  ur_timestamp :: "jstr option"
  ur_embeds :: "'e list option"
  ur_reactions :: "raw_reactions option"
  ur_replies :: "int option option"
  ur_viewer :: "raw_viewer option"
  ur_channel :: "raw_image_channel option"
  ur_parent_hash :: "jstr option"
  ur_parent_cast :: "raw_parent_cast option"
  ur_thread_hash :: "jstr option"

definition normalize_user_cast :: "'e user_raw_cast \<Rightarrow> 'e cast" where
  "normalize_user_cast raw =
     \<lparr>ca_hash = ur_hash raw, ca_author = normalize_author (ur_author raw), ca_text = or_default (ur_text raw) [],
      ca_timestamp = or_default (ur_timestamp raw) [], ca_embeds = or_default (ur_embeds raw) [],
      ca_reactions =
        \<lparr>likes_count = or_default (Option.bind (ur_reactions raw) rr_likes_count) 0,
         recasts_count = or_default (Option.bind (ur_reactions raw) rr_recasts_count) 0,
         replies_count = or_default (Option.bind (ur_replies raw) id) 0,
         viewer_liked = Some (or_default (Option.bind (ur_viewer raw) rv_liked) False),
         viewer_recasted = Some (or_default (Option.bind (ur_viewer raw) rv_recasted) False)\<rparr>,
      ca_channel = map_option (\<lambda>c. \<lparr>ch_id = rc_id c, ch_name = or_default (rc_name c) (rc_id c),
                                    ch_image_url = rc_image_url c\<rparr>) (ur_channel raw),
      ca_parent_hash = ur_parent_hash raw,
      ca_parent_cast = normalize_parent_cast (ur_parent_cast raw),
      ca_viewer_bookmarked = Some (or_default (Option.bind (ur_viewer raw) rv_bookmarked) False)\<rparr>"

datatype reaction_kind = Like | Recast

text \<open>The empty objects that \<^verbatim>\<open>viewer_context ?? {}\<close> and \<^verbatim>\<open>reactions ?? {}\<close> stand for.\<close>

definition empty_viewer :: raw_viewer where
  "empty_viewer = \<lparr>rv_liked = None, rv_recasted = None, rv_bookmarked = None\<rparr>"

definition empty_reactions :: raw_reactions where
  "empty_reactions = \<lparr>rr_likes_count = None, rr_recasts_count = None\<rparr>"

definition with_cast_reaction :: "'e user_raw_cast \<Rightarrow> reaction_kind \<Rightarrow> bool \<Rightarrow> 'e user_raw_cast" where
  "with_cast_reaction c kind value =
     (let viewer = or_default (ur_viewer c) empty_viewer; rs = or_default (ur_reactions c) empty_reactions;
          d = (if value then 1 else - 1)
      in case kind of
           Like \<Rightarrow>
             if or_default (rv_liked viewer) False = value then c
             else c\<lparr>ur_viewer := Some (viewer\<lparr>rv_liked := Some value\<rparr>),
                    ur_reactions := Some (rs\<lparr>rr_likes_count := Some (max 0 (or_default (rr_likes_count rs) 0 + d))\<rparr>)\<rparr>
         | Recast \<Rightarrow>
             if or_default (rv_recasted viewer) False = value then c
             else c\<lparr>ur_viewer := Some (viewer\<lparr>rv_recasted := Some value\<rparr>),
                    ur_reactions := Some (rs\<lparr>rr_recasts_count := Some (max 0 (or_default (rr_recasts_count rs) 0 + d))\<rparr>)\<rparr>)"

definition with_cast_bookmark :: "'e user_raw_cast \<Rightarrow> bool \<Rightarrow> 'e user_raw_cast" where
  "with_cast_bookmark c value =
     (let viewer = or_default (ur_viewer c) empty_viewer
      in if or_default (rv_bookmarked viewer) False = value then c
         else c\<lparr>ur_viewer := Some (viewer\<lparr>rv_bookmarked := Some value\<rparr>)\<rparr>)"

subsection \<open>Notifications\<close>

datatype notification_type = Nt_likes | Nt_recasts | Nt_follows | Nt_reply | Nt_mention | Nt_quote

record 'e notification =
  nt_type :: notification_type
  nt_timestamp :: jstr
  nt_cast :: "'e user_raw_cast option"
  nt_reactions :: "raw_author list option"
  nt_follows :: "raw_author list option"

text \<open>\<^verbatim>\<open>new Date(a).getTime() > new Date(b).getTime()\<close>.\<close>

definition is_newer :: "(jstr \<Rightarrow> int option) \<Rightarrow> jstr \<Rightarrow> jstr \<Rightarrow> bool" where
  "is_newer ms a b = (case (ms a, ms b) of (Some x, Some y) \<Rightarrow> x > y | _ \<Rightarrow> False)"

definition compute_unread_count :: "(jstr \<Rightarrow> int option) \<Rightarrow> 'e notification list \<Rightarrow> jstr option \<Rightarrow> nat" where
  "compute_unread_count ms ns seen =
     (case seen of
        None \<Rightarrow> length ns
      | Some ts \<Rightarrow>
          if ts = [] then length ns
          else length (filter (\<lambda>n. is_newer ms (nt_timestamp n) ts) ns))"

text \<open>
  \<^verbatim>\<open>mapCastByHash\<close> also keeps the references of what did not change, which only saves renders.
\<close>

definition map_cast_by_hash ::
  "'e notification list \<Rightarrow> jstr \<Rightarrow> ('e user_raw_cast \<Rightarrow> 'e user_raw_cast) \<Rightarrow> 'e notification list" where
  "map_cast_by_hash ns hash transform =
     map (\<lambda>n. case nt_cast n of
                None \<Rightarrow> n
              | Some c \<Rightarrow> if ur_hash c \<noteq> hash then n else n\<lparr>nt_cast := Some (transform c)\<rparr>) ns"

record 'e notifications =
  ns_notifications :: "'e notification list"
  ns_cursor :: "jstr option"
  ns_has_more :: bool
  ns_loading :: bool
  ns_refreshing :: bool
  ns_error :: "jstr option"
  ns_unread_count :: nat
  ns_last_seen :: "jstr option"
  ns_has_hydrated :: bool

text \<open>The store as it starts, with the marker that the persisted part holds.\<close>

definition notifications_initial :: "jstr option \<Rightarrow> 'e notifications" where
  "notifications_initial seen = \<lparr>ns_notifications = [], ns_cursor = None, ns_has_more = True,
     ns_loading = False, ns_refreshing = False, ns_error = None, ns_unread_count = 0,
     ns_last_seen = seen, ns_has_hydrated = False\<rparr>"

datatype notification_call = Nc_load | Nc_more jstr | Nc_refresh

type_synonym 'e notification_page = "jstr option + 'e notification list \<times> jstr option"

text \<open>The part that the three fetches share once a page has arrived.\<close>

definition put_page ::
  "(jstr \<Rightarrow> int option) \<Rightarrow> 'e notification list \<Rightarrow> jstr option \<Rightarrow> 'e notifications \<Rightarrow> 'e notifications" where
  "put_page ms ns cur s =
     s\<lparr>ns_notifications := ns, ns_cursor := cur, ns_has_more := (cur \<noteq> None),
       ns_unread_count := compute_unread_count ms ns (ns_last_seen s)\<rparr>"

definition load_notifications :: "'e notifications \<Rightarrow> 'e notifications \<times> notification_call list" where
  "load_notifications s = (if ns_loading s then (s, []) else (s\<lparr>ns_loading := True, ns_error := None\<rparr>, [Nc_load]))"

definition load_notifications_done ::
  "(jstr \<Rightarrow> int option) \<Rightarrow> 'e notification_page \<Rightarrow> 'e notifications \<Rightarrow> 'e notifications" where
  "load_notifications_done ms r s =
     (case r of
        Inr (ns, cur) \<Rightarrow> (put_page ms ns cur s)\<lparr>ns_loading := False\<rparr>
      | Inl msg \<Rightarrow> s\<lparr>ns_loading := False, ns_error := Some (or_default msg ''Failed to load notifications'')\<rparr>)"

definition load_more_notifications :: "'e notifications \<Rightarrow> 'e notifications \<times> notification_call list" where
  "load_more_notifications s =
     (case ns_cursor s of
        None \<Rightarrow> (s, [])
      | Some cur \<Rightarrow>
          if ns_loading s \<or> \<not> ns_has_more s \<or> cur = [] then (s, [])
          else (s\<lparr>ns_loading := True, ns_error := None\<rparr>, [Nc_more cur]))"

definition load_more_notifications_done ::
  "(jstr \<Rightarrow> int option) \<Rightarrow> 'e notification_page \<Rightarrow> 'e notifications \<Rightarrow> 'e notifications" where
  "load_more_notifications_done ms r s =
     (case r of
        Inr (ns, cur) \<Rightarrow> (put_page ms (ns_notifications s @ ns) cur s)\<lparr>ns_loading := False\<rparr>
      | Inl msg \<Rightarrow> s\<lparr>ns_loading := False, ns_error := Some (or_default msg ''Failed to load more notifications'')\<rparr>)"

definition refresh_notifications :: "'e notifications \<Rightarrow> 'e notifications \<times> notification_call list" where
  "refresh_notifications s =
     (if ns_refreshing s then (s, []) else (s\<lparr>ns_refreshing := True, ns_error := None\<rparr>, [Nc_refresh]))"

definition refresh_notifications_done ::
  "(jstr \<Rightarrow> int option) \<Rightarrow> 'e notification_page \<Rightarrow> 'e notifications \<Rightarrow> 'e notifications" where
  "refresh_notifications_done ms r s =
     (case r of
        Inr (ns, cur) \<Rightarrow> (put_page ms ns cur s)\<lparr>ns_refreshing := False\<rparr>
      | Inl msg \<Rightarrow> s\<lparr>ns_refreshing := False, ns_error := Some (or_default msg ''Failed to refresh notifications'')\<rparr>)"

definition mark_seen :: "(jstr \<Rightarrow> int option) \<Rightarrow> 'e notifications \<Rightarrow> 'e notifications" where
  "mark_seen ms s =
     (case ns_notifications s of
        [] \<Rightarrow> s
      | n # rest \<Rightarrow>
          let latest = nt_timestamp n
          in if latest = [] then s
             else if (case ns_last_seen s of
                        None \<Rightarrow> False
                      | Some seen \<Rightarrow> (case (ms latest, ms seen) of (Some a, Some b) \<Rightarrow> a \<le> b | _ \<Rightarrow> False))
             then (if ns_unread_count s \<noteq> 0 then s\<lparr>ns_unread_count := 0\<rparr> else s)
             else s\<lparr>ns_last_seen := Some latest, ns_unread_count := 0\<rparr>)"

definition set_cast_reaction :: "jstr \<Rightarrow> reaction_kind \<Rightarrow> bool \<Rightarrow> 'e notifications \<Rightarrow> 'e notifications" where
  "set_cast_reaction hash kind value s =
     s\<lparr>ns_notifications := map_cast_by_hash (ns_notifications s) hash (\<lambda>c. with_cast_reaction c kind value)\<rparr>"

definition set_cast_bookmark :: "jstr \<Rightarrow> bool \<Rightarrow> 'e notifications \<Rightarrow> 'e notifications" where
  "set_cast_bookmark hash value s =
     s\<lparr>ns_notifications := map_cast_by_hash (ns_notifications s) hash (\<lambda>c. with_cast_bookmark c value)\<rparr>"

definition set_has_hydrated :: "bool \<Rightarrow> 'e notifications \<Rightarrow> 'e notifications" where
  "set_has_hydrated b s = s\<lparr>ns_has_hydrated := b\<rparr>"

text \<open>What a row shows (\<^verbatim>\<open>landing/components/notifications/NotificationRow.tsx\<close>).\<close>

definition live_actors :: "'e notification \<Rightarrow> raw_author list" where
  "live_actors n =
     filter (\<lambda>u. ra_is_spam u \<noteq> Some True)
       (or_default (if nt_type n = Nt_follows then nt_follows n else nt_reactions n) [])"

definition resolve_notification_cast :: "'e notification \<Rightarrow> 'e cast option" where
  "resolve_notification_cast n =
     (if nt_type n \<in> {Nt_likes, Nt_recasts, Nt_follows}
      then (if live_actors n = [] then None else map_option normalize_user_cast (nt_cast n))
      else case nt_cast n of
             None \<Rightarrow> None
           | Some c \<Rightarrow> if ra_is_spam (ur_author c) = Some True then None else Some (normalize_user_cast c))"

subsection \<open>The badge\<close>

text \<open>The feed is newest first at its head: nothing loaded is newer than the first notification.\<close>

definition newest_first :: "(jstr \<Rightarrow> int option) \<Rightarrow> 'e notification list \<Rightarrow> bool" where
  "newest_first ms ns \<longleftrightarrow> (case ns of [] \<Rightarrow> True | n # rest \<Rightarrow>
     nt_timestamp n \<noteq> [] \<and>
     list_all (\<lambda>m. \<not> is_newer ms (nt_timestamp m) (nt_timestamp n)) ns)"

fun settle_page ::
  "(jstr \<Rightarrow> int option) \<Rightarrow> notification_call \<Rightarrow> 'e notification_page \<Rightarrow> 'e notifications \<Rightarrow> 'e notifications" where
  "settle_page ms Nc_load r s = load_notifications_done ms r s"
| "settle_page ms (Nc_more c) r s = load_more_notifications_done ms r s"
| "settle_page ms Nc_refresh r s = refresh_notifications_done ms r s"

inductive notif_step ::
  "(jstr \<Rightarrow> int option) \<Rightarrow> 'e notifications \<times> notification_call list \<Rightarrow>
     'e notifications \<times> notification_call list \<Rightarrow> bool" for ms where
  nstep_load: "load_notifications s = (s', cs) \<Longrightarrow> notif_step ms (s, P) (s', P @ cs)"
| nstep_more: "load_more_notifications s = (s', cs) \<Longrightarrow> notif_step ms (s, P) (s', P @ cs)"
| nstep_refresh: "refresh_notifications s = (s', cs) \<Longrightarrow> notif_step ms (s, P) (s', P @ cs)"
| nstep_settle: "c \<in> set P \<Longrightarrow> settle_page ms c r s = s' \<Longrightarrow> newest_first ms (ns_notifications s') \<Longrightarrow>
    notif_step ms (s, P) (s', remove1 c P)"
| nstep_seen: "notif_step ms (s, P) (mark_seen ms s, P)"
| nstep_react: "notif_step ms (s, P) (set_cast_reaction h k v s, P)"
| nstep_bookmark: "notif_step ms (s, P) (set_cast_bookmark h v s, P)"
| nstep_hydrated: "notif_step ms (s, P) (set_has_hydrated b s, P)"

inductive notif_reachable ::
  "(jstr \<Rightarrow> int option) \<Rightarrow> 'e notifications \<times> notification_call list \<Rightarrow> bool" for ms where
  notif_init: "notif_reachable ms (notifications_initial seen, [])"
| notif_next: "notif_reachable ms x \<Longrightarrow> notif_step ms x y \<Longrightarrow> notif_reachable ms y"

definition badge_exact :: "(jstr \<Rightarrow> int option) \<Rightarrow> 'e notifications \<Rightarrow> bool" where
  "badge_exact ms s \<longleftrightarrow> newest_first ms (ns_notifications s) \<and>
     ns_unread_count s = compute_unread_count ms (ns_notifications s) (ns_last_seen s)"

lemma map_cast_timestamps: "map nt_timestamp (map_cast_by_hash ns h f) = map nt_timestamp ns"
  by (simp add: map_cast_by_hash_def option.case_eq_if)

lemma filter_timestamps:
  "length (filter (\<lambda>n. Q (nt_timestamp n)) ns) = length (filter Q (map nt_timestamp ns))"
  by (simp add: filter_map comp_def)

lemma all_timestamps: "list_all (\<lambda>n. Q (nt_timestamp n)) ns = list_all Q (map nt_timestamp ns)"
  by (simp add: list.pred_map comp_def)

lemma compute_unread_cong:
  assumes "map nt_timestamp ns = map nt_timestamp ns'"
  shows "compute_unread_count ms ns seen = compute_unread_count ms ns' seen"
proof -
  have l: "length ns = length ns'" using assms map_eq_imp_length_eq by blast
  have "length (filter (\<lambda>n. is_newer ms (nt_timestamp n) ts) ns) =
      length (filter (\<lambda>n. is_newer ms (nt_timestamp n) ts) ns')" for ts
    unfolding filter_timestamps[of "\<lambda>t. is_newer ms t ts"] assms ..
  then show ?thesis using l by (simp add: compute_unread_count_def split: option.split)
qed

lemma newest_first_cong:
  assumes "map nt_timestamp ns = map nt_timestamp ns'"
  shows "newest_first ms ns = newest_first ms ns'"
proof (cases ns)
  case Nil
  then show ?thesis using assms by (simp add: newest_first_def)
next
  case (Cons n rest)
  then obtain m rest' where m: "ns' = m # rest'" "nt_timestamp m = nt_timestamp n" using assms by (cases ns') auto
  let ?Q = "\<lambda>t. \<not> is_newer ms t (nt_timestamp n)"
  have "list_all (\<lambda>x. ?Q (nt_timestamp x)) ns = list_all (\<lambda>x. ?Q (nt_timestamp x)) ns'"
    unfolding all_timestamps[of ?Q] assms ..
  then show ?thesis using Cons m by (simp add: newest_first_def)
qed

lemma seen_counts_none:
  assumes "newest_first ms (n # rest)" "ts \<noteq> []"
    and "ts = nt_timestamp n \<or> (\<exists>a b. ms (nt_timestamp n) = Some a \<and> ms ts = Some b \<and> a \<le> b)"
  shows "compute_unread_count ms (n # rest) (Some ts) = 0"
proof -
  have "\<not> is_newer ms (nt_timestamp m) ts" if "m \<in> set (n # rest)" for m
  proof -
    have "\<not> is_newer ms (nt_timestamp m) (nt_timestamp n)"
      using assms(1) that by (auto simp: newest_first_def list_all_iff)
    then show ?thesis using assms(3) by (auto simp: is_newer_def split: option.splits)
  qed
  then show ?thesis using assms(2) by (simp add: compute_unread_count_def filter_empty_conv)
qed

lemma badge_exact_seen:
  assumes ok: "badge_exact ms s" and nan: "ms [] = None"
  shows "badge_exact ms (mark_seen ms s)"
proof (cases "ns_notifications s")
  case Nil
  then show ?thesis using ok by (simp add: mark_seen_def)
next
  case (Cons n rest)
  have nf: "newest_first ms (n # rest)" "nt_timestamp n \<noteq> []"
    using ok Cons by (auto simp: badge_exact_def newest_first_def)
  show ?thesis
  proof (cases "case ns_last_seen s of None \<Rightarrow> False
      | Some seen \<Rightarrow> (case (ms (nt_timestamp n), ms seen) of (Some a, Some b) \<Rightarrow> a \<le> b | _ \<Rightarrow> False)")
    case True
    then obtain seen a b where s: "ns_last_seen s = Some seen" "ms (nt_timestamp n) = Some a" "ms seen = Some b" "a \<le> b"
      by (auto split: option.splits)
    then have "seen \<noteq> []" using nan by auto
    then have z: "compute_unread_count ms (n # rest) (Some seen) = 0" using seen_counts_none[OF nf(1)] s by blast
    then have "ns_unread_count s = 0" using ok Cons s by (simp add: badge_exact_def)
    then have "mark_seen ms s = s" using Cons s nf(2) by (simp add: mark_seen_def Let_def)
    then show ?thesis using ok by simp
  next
    case False
    then have m: "mark_seen ms s = s\<lparr>ns_last_seen := Some (nt_timestamp n), ns_unread_count := 0\<rparr>"
      using Cons nf(2) by (simp add: mark_seen_def Let_def)
    show ?thesis using seen_counts_none[OF nf] nf(1) Cons by (simp add: m badge_exact_def)
  qed
qed

lemma badge_exact_cong:
  "map nt_timestamp (ns_notifications s') = map nt_timestamp (ns_notifications s) \<Longrightarrow>
   ns_unread_count s' = ns_unread_count s \<Longrightarrow> ns_last_seen s' = ns_last_seen s \<Longrightarrow>
   badge_exact ms s' = badge_exact ms s"
  using newest_first_cong[of "ns_notifications s'" "ns_notifications s" ms]
    compute_unread_cong[of "ns_notifications s'" "ns_notifications s" ms "ns_last_seen s"]
  by (simp add: badge_exact_def)

lemma settle_badge:
  assumes "badge_exact ms s" "newest_first ms (ns_notifications (settle_page ms c r s))"
  shows "badge_exact ms (settle_page ms c r s)"
  using assms
  by (cases c; cases r) (auto simp: load_notifications_done_def load_more_notifications_done_def refresh_notifications_done_def put_page_def badge_exact_def)

lemma notif_step_badge:
  "notif_step ms x y \<Longrightarrow> ms [] = None \<Longrightarrow> badge_exact ms (fst x) \<Longrightarrow> badge_exact ms (fst y)"
proof (induction rule: notif_step.induct)
  case (nstep_load s s' cs P)
  then show ?case using badge_exact_cong[of s' s ms] by (auto simp: load_notifications_def split: if_splits)
next
  case (nstep_more s s' cs P)
  then show ?case using badge_exact_cong[of s' s ms] by (auto simp: load_more_notifications_def split: if_splits option.splits)
next
  case (nstep_refresh s s' cs P)
  then show ?case using badge_exact_cong[of s' s ms] by (auto simp: refresh_notifications_def split: if_splits)
next
  case (nstep_react s P h k v)
  then show ?case using badge_exact_cong[of "set_cast_reaction h k v s" s ms]
    by (simp add: set_cast_reaction_def map_cast_timestamps)
next
  case (nstep_bookmark s P h v)
  then show ?case using badge_exact_cong[of "set_cast_bookmark h v s" s ms]
    by (simp add: set_cast_bookmark_def map_cast_timestamps)
next
  case (nstep_hydrated s P b)
  then show ?case using badge_exact_cong[of "set_has_hydrated b s" s ms] by (simp add: set_has_hydrated_def)
qed (auto intro: settle_badge badge_exact_seen)

lemma notif_reachable_badge: "notif_reachable ms x \<Longrightarrow> ms [] = None \<Longrightarrow> badge_exact ms (fst x)"
proof (induction rule: notif_reachable.induct)
  case (notif_init seen)
  show ?case
    by (simp add: badge_exact_def notifications_initial_def newest_first_def compute_unread_count_def split: option.split)
qed (rule notif_step_badge)

subsection \<open>Reactions on the raw casts\<close>

definition counts_ok :: "'e user_raw_cast \<Rightarrow> bool" where
  "counts_ok c \<longleftrightarrow> 0 \<le> or_default (Option.bind (ur_reactions c) rr_likes_count) 0 \<and>
     0 \<le> or_default (Option.bind (ur_reactions c) rr_recasts_count) 0"

lemma normalize_reaction:
  assumes "counts_ok c"
  shows "normalize_user_cast (with_cast_reaction c kind v) =
    (case kind of Like \<Rightarrow> set_like (normalize_user_cast c) v | Recast \<Rightarrow> set_recast (normalize_user_cast c) v)"
  using assms
  by (cases "ur_viewer c"; cases "ur_reactions c"; cases kind)
    (auto simp: with_cast_reaction_def normalize_user_cast_def set_like_def set_recast_def counts_ok_def
      empty_viewer_def empty_reactions_def Let_def)

lemma reaction_frame [simp]:
  "ur_hash (with_cast_reaction c k v) = ur_hash c" "ur_author (with_cast_reaction c k v) = ur_author c"
  by (cases k; simp add: with_cast_reaction_def Let_def)+

text \<open>What the rows show, and the feed's mutation of one shown cast.\<close>

definition shown :: "'e notifications \<Rightarrow> 'e cast option list" where
  "shown s = map resolve_notification_cast (ns_notifications s)"

definition react_shown :: "jstr \<Rightarrow> reaction_kind \<Rightarrow> bool \<Rightarrow> 'e cast \<Rightarrow> 'e cast" where
  "react_shown h k v c =
     (if ca_hash c \<noteq> h then c else case k of Like \<Rightarrow> set_like c v | Recast \<Rightarrow> set_recast c v)"

lemma resolve_reaction:
  assumes "pred_option counts_ok (nt_cast n)"
  shows "resolve_notification_cast (case nt_cast n of None \<Rightarrow> n
      | Some c \<Rightarrow> if ur_hash c \<noteq> h then n else n\<lparr>nt_cast := Some (with_cast_reaction c k v)\<rparr>) =
    map_option (react_shown h k v) (resolve_notification_cast n)"
proof (cases "nt_cast n")
  case None
  then show ?thesis by (simp add: resolve_notification_cast_def)
next
  case (Some c)
  have "ca_hash (normalize_user_cast c) = ur_hash c" by (simp add: normalize_user_cast_def)
  moreover have "live_actors (n\<lparr>nt_cast := x\<rparr>) = live_actors n" for x by (simp add: live_actors_def)
  ultimately show ?thesis
    using Some assms by (auto simp: resolve_notification_cast_def react_shown_def normalize_reaction)
qed

text \<open>The places of the loaded notifications that the viewer has not seen, by the dates alone.\<close>

definition unseen_places :: "(jstr \<Rightarrow> int option) \<Rightarrow> 'e notification list \<Rightarrow> jstr option \<Rightarrow> nat set" where
  "unseen_places ms ns seen =
     {i. i < length ns \<and> (seen = None \<or> seen = Some [] \<or>
        (\<exists>a b. ms (nt_timestamp (ns ! i)) = Some a \<and> Option.bind seen ms = Some b \<and> b < a))}"

lemma unread_count_places: "compute_unread_count ms ns seen = card (unseen_places ms ns seen)"
proof (cases "seen = None \<or> seen = Some []")
  case True
  then show ?thesis by (auto simp: unseen_places_def compute_unread_count_def)
next
  case False
  then obtain ts where ts: "seen = Some ts" "ts \<noteq> []" by auto
  have "unseen_places ms ns seen = {i. i < length ns \<and> is_newer ms (nt_timestamp (ns ! i)) ts}"
    using ts by (auto simp: unseen_places_def is_newer_def split: option.splits)
  then show ?thesis using ts by (simp add: compute_unread_count_def length_filter_conv_card)
qed

lemma finite_unseen: "finite (unseen_places ms ns seen)"
  by (simp add: unseen_places_def)

text \<open>
  C24. The badge is exact in every reachable state of the store: the unread count is the number of places
  of the loaded list whose notification has a later date than the last-seen marker (all of them while
  there is no marker), whatever order pages, refreshes, optimistic reactions and visits come in; and
  visiting a non-empty feed leaves no such place and a badge of zero. The premises: an empty string is no
  date, and each result leaves the newest notification at the head.
\<close>

theorem badge_counts_unseen:
  assumes "notif_reachable ms (s, P)" and "ms [] = None"
  shows "ns_unread_count s = card (unseen_places ms (ns_notifications s) (ns_last_seen s)) \<and>
    (ns_notifications s \<noteq> [] \<longrightarrow>
       unseen_places ms (ns_notifications s) (ns_last_seen (mark_seen ms s)) = {} \<and>
       ns_unread_count (mark_seen ms s) = 0)"
proof -
  have ok: "badge_exact ms s" using notif_reachable_badge[OF assms] by simp
  have "ns_unread_count (mark_seen ms s) = 0" if "ns_notifications s \<noteq> []"
    using that ok by (auto simp: mark_seen_def Let_def badge_exact_def newest_first_def neq_Nil_conv)
  moreover have "ns_notifications (mark_seen ms s) = ns_notifications s"
    by (simp add: mark_seen_def Let_def split: list.split)
  ultimately show ?thesis
    using ok badge_exact_seen[OF ok assms(2)] by (simp add: badge_exact_def unread_count_places finite_unseen)
qed

text \<open>
  A like or recast on a notification is the feed's own: after \<^verbatim>\<open>setCastReaction\<close> the casts that the
  rows show are those they showed before with the feed store's \<^verbatim>\<open>setLike\<close> or \<^verbatim>\<open>setRecast\<close> applied to
  every copy of the cast, as long as no count was negative.
\<close>

theorem reaction_matches_feed:
  assumes "list_all (\<lambda>n. pred_option counts_ok (nt_cast n)) (ns_notifications s)"
  shows "shown (set_cast_reaction h k v s) = map (map_option (react_shown h k v)) (shown s)"
  using assms
  by (simp add: shown_def set_cast_reaction_def map_cast_by_hash_def list_all_iff resolve_reaction)

subsection \<open>Witnesses\<close>

definition demo_raw :: "jstr \<Rightarrow> unit user_raw_cast" where
  "demo_raw h = \<lparr>ur_hash = h, ur_author = \<lparr>ra_fid = 3, ra_username = Some ''ann'', ra_display_name = None,
       ra_pfp_url = None, ra_is_spam = None\<rparr>, ur_text = None, ur_timestamp = None, ur_embeds = None,
     ur_reactions = Some \<lparr>rr_likes_count = Some 4, rr_recasts_count = None\<rparr>, ur_replies = None, ur_viewer = None,
     ur_channel = None, ur_parent_hash = None, ur_parent_cast = None, ur_thread_hash = None\<rparr>"

definition demo_note :: "jstr \<Rightarrow> unit notification" where
  "demo_note t = \<lparr>nt_type = Nt_reply, nt_timestamp = t, nt_cast = Some (demo_raw ''h''), nt_reactions = None,
     nt_follows = None\<rparr>"

text \<open>Dates of the witnesses: one character, its code the time.\<close>

definition demo_ms :: "jstr \<Rightarrow> int option" where
  "demo_ms t = (case t of [c] \<Rightarrow> Some (int (of_char c)) | _ \<Rightarrow> None)"

definition demo_notifications :: "unit notifications" where
  "demo_notifications = load_notifications_done demo_ms (Inr ([demo_note ''c'', demo_note ''b'', demo_note ''a''], None))
     (fst (load_notifications (notifications_initial (Some ''a''))))"

lemma badge_counts_unseen_witness:
  "\<exists>x P. notif_reachable demo_ms (x :: unit notifications, P) \<and>
     map nt_timestamp (ns_notifications x) = [''e'', ''d'', ''c'', ''b'', ''a''] \<and> ns_last_seen x = Some ''b'' \<and>
     ns_unread_count x = card {0, 1, 2 :: nat} \<and> ns_unread_count (mark_seen demo_ms x) = 0"
proof -
  define x where "x = load_notifications_done demo_ms (Inr (map demo_note [''e'', ''d'', ''c'', ''b'', ''a''], None))
     (fst (load_notifications (notifications_initial (Some ''b'') :: unit notifications)))"
  have r0: "notif_reachable demo_ms (fst (load_notifications (notifications_initial (Some ''b'') :: unit notifications)), [] @ [Nc_load])"
    by (rule notif_next[OF notif_init nstep_load]) (simp add: load_notifications_def notifications_initial_def)
  have n: "newest_first demo_ms (ns_notifications x)" unfolding x_def by code_simp
  have r: "notif_reachable demo_ms (x, remove1 Nc_load ([] @ [Nc_load]))"
    using n by (intro notif_next[OF r0 nstep_settle]) (simp_all add: x_def)
  have ns: "ns_notifications x = map demo_note [''e'', ''d'', ''c'', ''b'', ''a'']" "ns_last_seen x = Some ''b''"
    by (simp_all add: x_def load_notifications_done_def put_page_def load_notifications_def notifications_initial_def)
  have "unseen_places demo_ms (ns_notifications x) (ns_last_seen x) = {0, 1, 2}"
    by (auto simp: unseen_places_def ns demo_note_def demo_ms_def less_Suc_eq nth_Cons' split: if_splits)
  then have "ns_unread_count x = card {0, 1, 2 :: nat}" "ns_unread_count (mark_seen demo_ms x) = 0"
    using badge_counts_unseen[OF r] ns(1) by (simp_all add: demo_ms_def)
  then show ?thesis using r ns by (intro exI[of _ x] exI[of _ "remove1 Nc_load ([] @ [Nc_load])"]) (simp add: demo_note_def)
qed

lemma reaction_matches_feed_witness:
  "map (map_option (\<lambda>c. likes_count (ca_reactions c))) (shown (set_cast_reaction ''h'' Like True demo_notifications)) =
     [Some 5, Some 5, Some 5]"
proof -
  have "ns_notifications demo_notifications = [demo_note ''c'', demo_note ''b'', demo_note ''a'']"
    by (simp add: demo_notifications_def load_notifications_done_def put_page_def)
  then have "list_all (\<lambda>n. pred_option counts_ok (nt_cast n)) (ns_notifications demo_notifications)"
    by (simp add: demo_note_def demo_raw_def counts_ok_def)
  from reaction_matches_feed[OF this, of "''h''" Like True]
  have "map (map_option (\<lambda>c. likes_count (ca_reactions c))) (shown (set_cast_reaction ''h'' Like True demo_notifications)) =
    map (map_option (\<lambda>c. likes_count (ca_reactions (react_shown ''h'' Like True c)))) (shown demo_notifications)"
    by (simp add: option.map_comp comp_def)
  also have "\<dots> = [Some 5, Some 5, Some 5]" by code_simp
  finally show ?thesis .
qed

text \<open>
  \<^verbatim>\<open>loadMore\<close> checks \<^verbatim>\<open>loading\<close> but not \<^verbatim>\<open>refreshing\<close>: a page asked for before a refresh is appended to the
  refreshed feed and puts its older cursor back.
\<close>

lemma stale_notification_page:
  assumes "ns_cursor s = Some cur" "cur \<noteq> []" "ns_has_more s" "\<not> ns_loading s" "\<not> ns_refreshing s"
    and "load_more_notifications s = (s1, [Nc_more cur])" "refresh_notifications s1 = (s2, [Nc_refresh])"
    and "s3 = settle_page ms Nc_refresh (Inr (fresh, Some new)) s2"
    and "s4 = settle_page ms (Nc_more cur) (Inr (page, old)) s3"
  shows "ns_notifications s4 = fresh @ page" "ns_cursor s4 = old"
  using assms
  by (auto simp: load_more_notifications_def refresh_notifications_def refresh_notifications_done_def load_more_notifications_done_def put_page_def)

end
