(* ===== verification/Embed_Sign_In.thy ===== *)
theory Embed_Sign_In
  imports Auth_Session Web_Security "HOL-Library.Sublist"
begin

text \<open>
  How an embedded room signs a visitor in: whom to trust as a Mini App host
  (\<^verbatim>\<open>landing/lib/miniapp-host-origin.ts\<close>), Protocol Auth inside such a host with its cache
  (\<^verbatim>\<open>landing/lib/miniapp-auth.ts\<close>), and the first-party popup (\<^verbatim>\<open>landing/lib/embed-sign-in-popup.ts\<close>).
  The Mini App SDK, the network and the browser's windows are arguments; the URL parser is \<open>parse\<close>.
\<close>

subsection \<open>Who is framing us\<close>

definition TRUSTED_MINIAPP_HOST_DOMAINS :: "jstr list" where
  "TRUSTED_MINIAPP_HOST_DOMAINS = [''farcaster.xyz'', ''warpcast.com'']"

definition js_ends_with :: "jstr \<Rightarrow> jstr \<Rightarrow> bool" where
  "js_ends_with s t = suffix t s"

record frame_context =
  fc_is_framed :: bool
  fc_parent_origin :: "jstr option"

definition is_trusted_miniapp_host_origin :: "(jstr \<Rightarrow> url option) \<Rightarrow> jstr option \<Rightarrow> bool" where
  "is_trusted_miniapp_host_origin parse origin =
     (case origin of
        None \<Rightarrow> False
      | Some o' \<Rightarrow>
          if o' = [] then False
          else (case parse o' of
                  None \<Rightarrow> False
                | Some parsed \<Rightarrow>
                    if u_protocol parsed \<noteq> ''https:'' then False
                    else let host = js_lower (u_hostname parsed)
                         in list_ex (\<lambda>domain. host = domain \<or> js_ends_with host (CHR ''.'' # domain))
                              TRUSTED_MINIAPP_HOST_DOMAINS))"

definition to_origin :: "(jstr \<Rightarrow> url option) \<Rightarrow> jstr option \<Rightarrow> jstr option" where
  "to_origin parse u =
     (case u of None \<Rightarrow> None | Some s \<Rightarrow> if s = [] then None else map_option u_origin (parse s))"

text \<open>
  A window: whether it differs from its parent (\<open>None\<close>: reading the parent throws), and
  \<^verbatim>\<open>location.ancestorOrigins\<close> where the browser has it.
\<close>

record frame_window =
  fw_has_parent :: "bool option"
  fw_ancestor_origins :: "jstr list option"

definition read_frame_context :: "(jstr \<Rightarrow> url option) \<Rightarrow> frame_window option \<Rightarrow> frame_context" where
  "read_frame_context parse win =
     (case win of
        None \<Rightarrow> \<lparr>fc_is_framed = False, fc_parent_origin = None\<rparr>
      | Some target \<Rightarrow>
          let isFramed = (case fw_has_parent target of None \<Rightarrow> True | Some b \<Rightarrow> b)
          in if \<not> isFramed then \<lparr>fc_is_framed = False, fc_parent_origin = None\<rparr>
             else \<lparr>fc_is_framed = isFramed,
                   fc_parent_origin = (case fw_ancestor_origins target of
                     Some (a # as) \<Rightarrow> to_origin parse (Some a) | _ \<Rightarrow> None)\<rparr>)"

definition can_trust_miniapp_host :: "(jstr \<Rightarrow> url option) \<Rightarrow> frame_context \<Rightarrow> bool" where
  "can_trust_miniapp_host parse context =
     (if \<not> fc_is_framed context then True
      else is_trusted_miniapp_host_origin parse (fc_parent_origin context))"

subsection \<open>Protocol Auth in a Mini App host\<close>

definition MIN_LIFETIME_MS :: int where "MIN_LIFETIME_MS = 10 * 60 * 1000"
definition EXPIRY_SAFETY_MS :: int where "EXPIRY_SAFETY_MS = 60 * 1000"
definition PROTOCOL_AUTH_TIMEOUT_MESSAGE :: jstr where "PROTOCOL_AUTH_TIMEOUT_MESSAGE = ''protocol_auth_timeout''"

datatype miniapp_auth_error =
  User_cancelled | Network | Verify_failed | Invalid_response | Timeout | Not_in_miniapp

record cached_auth =
  ca_token :: jstr
  ca_fid :: int
  ca_expires_at :: js_num

text \<open>What a promise of the SDK rejects with, as far as the code looks at it.\<close>

record thrown =
  th_name :: "jstr option"
  th_code :: "js_num option"
  th_message :: "jstr option"

definition is_user_rejection :: "thrown \<Rightarrow> bool" where
  "is_user_rejection err \<longleftrightarrow>
     th_code err = Some (num_int 4001) \<or>
     (case th_name err of None \<Rightarrow> False
        | Some name \<Rightarrow> sublist ''Rejected'' name \<or> sublist ''UserRejected'' name)"

record exchange_response =
  xr_url :: jstr
  xr_ok :: bool
  xr_status :: int
  xr_json :: "js_value option"

text \<open>
  One run of the flow: whether the host may be trusted, what the SDK's check said before its timeout
  (\<open>None\<close>: it threw), whether the host has a wallet, what the race of the wallet's token against the
  two minutes gave (for a forced or an unforced token), and the answer of the exchange (\<open>None\<close>: the
  fetch threw).
\<close>

record miniapp_world =
  mw_trusted :: bool
  mw_in_miniapp :: "bool option"
  mw_provider :: "thrown + bool"
  mw_token :: "bool \<Rightarrow> thrown + jstr"
  mw_exchange :: "jstr \<Rightarrow> exchange_response option"
  mw_now :: int

definition is_in_miniapp_host :: "miniapp_world \<Rightarrow> bool" where
  "is_in_miniapp_host w =
     (if \<not> mw_trusted w then False else case mw_in_miniapp w of None \<Rightarrow> False | Some b \<Rightarrow> b)"

definition acquire_error :: "thrown \<Rightarrow> miniapp_auth_error" where
  "acquire_error err =
     (if is_user_rejection err then User_cancelled
      else if th_message err = Some PROTOCOL_AUTH_TIMEOUT_MESSAGE then Timeout else Network)"

definition acquire_protocol_token :: "miniapp_world \<Rightarrow> bool \<Rightarrow> miniapp_auth_error + jstr" where
  "acquire_protocol_token w force =
     (case mw_provider w of
        Inl err \<Rightarrow> Inl (acquire_error err)
      | Inr present \<Rightarrow>
          if \<not> present then Inl Not_in_miniapp
          else (case mw_token w force of Inl err \<Rightarrow> Inl (acquire_error err) | Inr token \<Rightarrow> Inr token))"

definition same_origin :: "(jstr \<Rightarrow> url option) \<Rightarrow> jstr \<Rightarrow> jstr \<Rightarrow> bool" where
  "same_origin parse a b =
     (case (parse a, parse b) of (Some u, Some v) \<Rightarrow> u_origin u = u_origin v | _ \<Rightarrow> False)"

definition exchange_protocol_token ::
  "js_runtime \<Rightarrow> (jstr \<Rightarrow> url option) \<Rightarrow> jstr \<Rightarrow> int \<Rightarrow> exchange_response option \<Rightarrow>
     miniapp_auth_error + cached_auth" where
  "exchange_protocol_token rt parse verifyUrl now reply =
     (case reply of
        None \<Rightarrow> Inl Network
      | Some resp \<Rightarrow>
          if xr_url resp \<noteq> [] \<and> \<not> same_origin parse (xr_url resp) verifyUrl then Inl Invalid_response
          else if \<not> xr_ok resp then Inl (if xr_status resp \<ge> 500 then Network else Verify_failed)
          else (case xr_json resp of
                  Some (V_obj body) \<Rightarrow>
                    (case js_prop body ''token'' of
                       V_str token \<Rightarrow>
                         if token = [] then Inl Invalid_response
                         else (case js_prop body ''fid'' of
                                 V_num n \<Rightarrow>
                                   (case num_safe_int n of
                                      Some fid \<Rightarrow>
                                        if fid \<le> 0 then Inl Invalid_response
                                        else Inr \<lparr>ca_token = token, ca_fid = fid,
                                               ca_expires_at = (case parse_jwt_expiry rt token of
                                                  Some e \<Rightarrow> e | None \<Rightarrow> num_int (now + MIN_LIFETIME_MS))\<rparr>
                                    | None \<Rightarrow> Inl Invalid_response)
                               | _ \<Rightarrow> Inl Invalid_response)
                     | _ \<Rightarrow> Inl Invalid_response)
                | _ \<Rightarrow> Inl Invalid_response))"

text \<open>The module's state is its cache.\<close>

definition authenticate_miniapp ::
  "js_runtime \<Rightarrow> (jstr \<Rightarrow> url option) \<Rightarrow> jstr \<Rightarrow> miniapp_world \<Rightarrow> bool \<Rightarrow> cached_auth option \<Rightarrow>
     (miniapp_auth_error + cached_auth) \<times> cached_auth option" where
  "authenticate_miniapp rt parse verifyUrl w force cached =
     (if \<not> is_in_miniapp_host w then (Inl Not_in_miniapp, cached)
      else (case acquire_protocol_token w force of
              Inl e \<Rightarrow> (Inl e, cached)
            | Inr token \<Rightarrow>
                (case exchange_protocol_token rt parse verifyUrl (mw_now w) (mw_exchange w token) of
                   Inl e \<Rightarrow> (Inl e, cached)
                 | Inr auth \<Rightarrow> (Inr auth, Some auth))))"

fun num_less :: "int \<Rightarrow> js_num \<Rightarrow> bool" where
  "num_less i (Fin r) = (of_int i < r)"
| "num_less i Pos_inf = True"
| "num_less i _ = False"

definition get_cached_miniapp_auth ::
  "js_runtime \<Rightarrow> (jstr \<Rightarrow> url option) \<Rightarrow> jstr \<Rightarrow> miniapp_world \<Rightarrow> cached_auth option \<Rightarrow>
     (miniapp_auth_error + cached_auth) \<times> cached_auth option" where
  "get_cached_miniapp_auth rt parse verifyUrl w cached =
     (case cached of
        Some c \<Rightarrow> if num_less (mw_now w + EXPIRY_SAFETY_MS) (ca_expires_at c) then (Inr c, cached)
                  else authenticate_miniapp rt parse verifyUrl w False cached
      | None \<Rightarrow> authenticate_miniapp rt parse verifyUrl w False cached)"

definition clear_cached_miniapp_auth :: "cached_auth option \<Rightarrow> cached_auth option" where
  "clear_cached_miniapp_auth cached = None"

subsection \<open>The sign-in popup\<close>

definition EMBED_SIGN_IN_MESSAGE_TYPE :: jstr where
  "EMBED_SIGN_IN_MESSAGE_TYPE = ''juke:embed-sign-in''"

datatype popup_failure = Blocked | Closed | Aborted

definition parse_embed_sign_in_message :: "js_value \<Rightarrow> js_object option" where
  "parse_embed_sign_in_message data =
     (case data of
        V_obj d \<Rightarrow>
          if js_prop d ''type'' \<noteq> V_str EMBED_SIGN_IN_MESSAGE_TYPE then None
          else (case js_prop d ''response'' of
                  V_obj response \<Rightarrow>
                    (case js_prop response ''jwt'' of
                       V_str jwt \<Rightarrow>
                         if jwt = [] then None
                         else (case js_prop response ''user'' of
                                 V_obj user \<Rightarrow>
                                   (case js_prop user ''fid'' of
                                      V_num n \<Rightarrow> (case num_safe_int n of None \<Rightarrow> None | Some fid \<Rightarrow> Some response)
                                    | _ \<Rightarrow> None)
                               | _ \<Rightarrow> None)
                     | _ \<Rightarrow> None)
                | _ \<Rightarrow> None)
      | _ \<Rightarrow> None)"

text \<open>
  The promise of \<^verbatim>\<open>openEmbedSignInPopup\<close>: its outcome, whether the listeners and the interval are on,
  and whether the embed has closed the window.
\<close>

record popup =
  pu_origin :: jstr
  pu_outcome :: "(popup_failure + js_object) option"
  pu_listening :: bool
  pu_closed_by_us :: bool

definition open_embed_sign_in_popup :: "jstr \<Rightarrow> bool \<Rightarrow> bool \<Rightarrow> popup" where
  "open_embed_sign_in_popup origin aborted opened =
     (let idle = \<lparr>pu_origin = origin, pu_outcome = None, pu_listening = False, pu_closed_by_us = False\<rparr>
      in if aborted then idle\<lparr>pu_outcome := Some (Inl Aborted)\<rparr>
         else if \<not> opened then idle\<lparr>pu_outcome := Some (Inl Blocked)\<rparr>
         else idle\<lparr>pu_listening := True\<rparr>)"

definition cleanup :: "popup \<Rightarrow> popup" where
  "cleanup s = s\<lparr>pu_listening := False\<rparr>"

text \<open>Settling a settled promise does nothing.\<close>

definition settle_popup :: "popup_failure + js_object \<Rightarrow> popup \<Rightarrow> popup" where
  "settle_popup r s = (if pu_outcome s = None then s\<lparr>pu_outcome := Some r\<rparr> else s)"

definition popup_fail :: "popup_failure \<Rightarrow> popup \<Rightarrow> popup" where
  "popup_fail reason s = settle_popup (Inl reason) (cleanup s)"

text \<open>A message with its sender's origin and whether the popup is its source; an abort; the interval.\<close>

datatype popup_input =
  Pe_message jstr bool js_value
  | Pe_abort
  | Pe_poll bool

definition handle_message :: "jstr \<Rightarrow> bool \<Rightarrow> js_value \<Rightarrow> popup \<Rightarrow> popup" where
  "handle_message origin fromPopup data s =
     (if origin \<noteq> pu_origin s \<or> \<not> fromPopup then s
      else case parse_embed_sign_in_message data of
             None \<Rightarrow> s
           | Some response \<Rightarrow> settle_popup (Inr response) (cleanup s))"

definition handle_abort :: "popup \<Rightarrow> popup" where
  "handle_abort s = popup_fail Aborted (s\<lparr>pu_closed_by_us := True\<rparr>)"

definition popup_event :: "popup_input \<Rightarrow> popup \<Rightarrow> popup" where
  "popup_event e s =
     (if \<not> pu_listening s then s
      else case e of
             Pe_message origin fromPopup data \<Rightarrow> handle_message origin fromPopup data s
           | Pe_abort \<Rightarrow> handle_abort s
           | Pe_poll isClosed \<Rightarrow> if isClosed then popup_fail Closed s else s)"

text \<open>
  The popup's own window: its opener, with whether it is the window itself and its origin (\<open>None\<close>:
  reading it throws, the opener is on another origin).
\<close>

record opener =
  op_is_self :: bool
  op_origin :: "jstr option"

definition has_same_origin_opener :: "jstr \<Rightarrow> opener option \<Rightarrow> bool" where
  "has_same_origin_opener origin opener =
     (case opener of
        None \<Rightarrow> False
      | Some p \<Rightarrow> if op_is_self p then False
                  else (case op_origin p of None \<Rightarrow> False | Some po \<Rightarrow> po = origin))"

definition is_framed :: "bool option \<Rightarrow> bool" where
  "is_framed topDiffers = (case topDiffers of None \<Rightarrow> True | Some b \<Rightarrow> b)"

text \<open>The message that is posted, with its target origin; \<open>None\<close> when there is no one to receive it.\<close>

definition post_login_response_to_opener :: "js_object \<Rightarrow> jstr \<Rightarrow> opener option \<Rightarrow> (js_value \<times> jstr) option" where
  "post_login_response_to_opener response origin opener =
     (if \<not> has_same_origin_opener origin opener then None
      else Some (V_obj [(''type'', V_str EMBED_SIGN_IN_MESSAGE_TYPE), (''response'', V_obj response)], origin))"

text \<open>The browser delivers a posted message to a window that is on the target origin.\<close>

definition deliver :: "(js_value \<times> jstr) option \<Rightarrow> jstr \<Rightarrow> bool \<Rightarrow> popup \<Rightarrow> popup" where
  "deliver post senderOrigin fromPopup s =
     (case post of
        None \<Rightarrow> s
      | Some (message, target) \<Rightarrow>
          if target = pu_origin s then popup_event (Pe_message senderOrigin fromPopup message) s else s)"

subsection \<open>Properties\<close>

definition last_labels :: "jstr \<Rightarrow> jstr list" where
  "last_labels host = (let ls = js_split (CHR ''.'') host in drop (length ls - 2) ls)"

lemma split_after_dot: "js_split (CHR ''.'') (s @ CHR ''.'' # t) = js_split (CHR ''.'') s @ js_split (CHR ''.'') t"
proof (induction s)
  case (Cons c s)
  then show ?case
    by (cases "js_split (CHR ''.'') s") (auto split: list.splits)
qed simp

lemma last_labels_suffix:
  "length (js_split (CHR ''.'') d) = 2 \<Longrightarrow> last_labels (s @ CHR ''.'' # d) = js_split (CHR ''.'') d"
  by (simp add: last_labels_def split_after_dot Let_def)

lemma last_labels_self: "length (js_split (CHR ''.'') d) = 2 \<Longrightarrow> last_labels d = js_split (CHR ''.'') d"
  by (simp add: last_labels_def)

lemma trusted_domain_labels:
  "d \<in> set TRUSTED_MINIAPP_HOST_DOMAINS \<Longrightarrow>
     length (js_split (CHR ''.'') d) = 2 \<and> js_split (CHR ''.'') d \<in> {[''farcaster'', ''xyz''], [''warpcast'', ''com'']}"
  by (auto simp: TRUSTED_MINIAPP_HOST_DOMAINS_def)

lemma untrusted_None: "\<not> is_trusted_miniapp_host_origin parse None"
  by (simp add: is_trusted_miniapp_host_origin_def)

text \<open>
  C34. A Mini App host is trusted only when it cannot be an impostor: either the page is not framed, or the
  browser disclosed an \<^verbatim>\<open>https\<close> parent whose last two labels are exactly those of a Farcaster client, so
  neither a look-alike such as \<^verbatim>\<open>evilfarcaster.xyz\<close> nor \<^verbatim>\<open>farcaster.xyz.evil.com\<close> passes, and an unknown parent
  never does.
\<close>

theorem trusted_host_is_farcaster:
  assumes "can_trust_miniapp_host parse (read_frame_context parse (Some win))"
  shows "fw_has_parent win = Some False \<or>
    (\<exists>a rest u v. fw_ancestor_origins win = Some (a # rest) \<and> parse a = Some u \<and> parse (u_origin u) = Some v \<and>
       u_protocol v = ''https:'' \<and>
       last_labels (js_lower (u_hostname v)) \<in> {[''farcaster'', ''xyz''], [''warpcast'', ''com'']})"
proof (cases "fw_has_parent win = Some False")
  case False
  then obtain a rest where a: "fw_ancestor_origins win = Some (a # rest)"
    and t: "is_trusted_miniapp_host_origin parse (to_origin parse (Some a))"
    using assms untrusted_None[of parse]
    by (auto simp: read_frame_context_def can_trust_miniapp_host_def Let_def
        split: option.splits bool.splits list.splits)
  then obtain u v where u: "parse a = Some u" "parse (u_origin u) = Some v" "u_protocol v = ''https:''"
    and l: "list_ex (\<lambda>d. js_lower (u_hostname v) = d \<or> js_ends_with (js_lower (u_hostname v)) (CHR ''.'' # d))
      TRUSTED_MINIAPP_HOST_DOMAINS"
    by (auto simp: is_trusted_miniapp_host_origin_def to_origin_def Let_def split: option.splits if_splits)
  obtain d where d: "d \<in> set TRUSTED_MINIAPP_HOST_DOMAINS"
    "js_lower (u_hostname v) = d \<or> js_ends_with (js_lower (u_hostname v)) (CHR ''.'' # d)"
    using l by (auto simp: list_ex_iff)
  have "last_labels (js_lower (u_hostname v)) = js_split (CHR ''.'') d"
    using d(2) last_labels_suffix last_labels_self trusted_domain_labels[OF d(1)]
    by (auto simp: js_ends_with_def suffix_def)
  then show ?thesis using a u trusted_domain_labels[OF d(1)] by metis
qed simp

text \<open>The calls of the Mini App module, in any order, with the cache they leave.\<close>

datatype miniapp_call = Mc_get miniapp_world | Mc_force miniapp_world | Mc_clear

fun run_call :: "js_runtime \<Rightarrow> (jstr \<Rightarrow> url option) \<Rightarrow> jstr \<Rightarrow> miniapp_call \<Rightarrow> cached_auth option \<Rightarrow> cached_auth option" where
  "run_call rt parse verifyUrl (Mc_get w) c = snd (get_cached_miniapp_auth rt parse verifyUrl w c)"
| "run_call rt parse verifyUrl (Mc_force w) c = snd (authenticate_miniapp rt parse verifyUrl w True c)"
| "run_call rt parse verifyUrl Mc_clear c = clear_cached_miniapp_auth c"

definition auth_sound :: "cached_auth \<Rightarrow> bool" where
  "auth_sound a \<longleftrightarrow> ca_token a \<noteq> [] \<and> 0 < ca_fid a \<and> ca_fid a \<le> max_safe_integer"

lemma safe_int_bound: "num_safe_int n = Some i \<Longrightarrow> \<bar>i\<bar> \<le> max_safe_integer"
  by (cases n) (auto split: if_splits)

lemma exchange_sound:
  assumes "exchange_protocol_token rt parse verifyUrl now reply = Inr a"
  shows "auth_sound a \<and> (\<exists>resp. reply = Some resp \<and> xr_ok resp \<and>
    (xr_url resp = [] \<or> same_origin parse (xr_url resp) verifyUrl))"
  using assms safe_int_bound
  by (auto simp: exchange_protocol_token_def auth_sound_def
      split: option.splits if_splits js_value.splits; fastforce)

lemma authenticate_cases:
  assumes "authenticate_miniapp rt parse verifyUrl w force c = (r, c')"
  shows "(c' = c \<and> (\<exists>e. r = Inl e)) \<or>
    (\<exists>a. r = Inr a \<and> c' = Some a \<and> auth_sound a \<and> mw_trusted w)"
proof (cases "is_in_miniapp_host w")
  case True
  then have t: "mw_trusted w" by (simp add: is_in_miniapp_host_def split: if_splits)
  show ?thesis
  proof (cases "acquire_protocol_token w force")
    case (Inr token)
    show ?thesis
    proof (cases "exchange_protocol_token rt parse verifyUrl (mw_now w) (mw_exchange w token)")
      case (Inl e)
      then have "authenticate_miniapp rt parse verifyUrl w force c = (Inl e, c)"
        using True Inr by (simp add: authenticate_miniapp_def)
      then show ?thesis using assms by simp
    next
      case (Inr a)
      then have "authenticate_miniapp rt parse verifyUrl w force c = (Inr a, Some a)"
        using True \<open>acquire_protocol_token w force = Inr token\<close> by (simp add: authenticate_miniapp_def)
      then show ?thesis using assms t exchange_sound[OF Inr] by simp
    qed
  qed (use assms True in \<open>auto simp: authenticate_miniapp_def\<close>)
qed (use assms in \<open>auto simp: authenticate_miniapp_def\<close>)

lemma run_call_sound: "pred_option auth_sound c \<Longrightarrow> pred_option auth_sound (run_call rt parse verifyUrl k c)"
proof (cases k)
  case (Mc_get w)
  assume "pred_option auth_sound c"
  then show ?thesis
    using Mc_get authenticate_cases[of rt parse verifyUrl w False c]
    by (cases "authenticate_miniapp rt parse verifyUrl w False c")
      (auto simp: get_cached_miniapp_auth_def split: option.splits)
next
  case (Mc_force w)
  assume "pred_option auth_sound c"
  then show ?thesis
    using Mc_force authenticate_cases[of rt parse verifyUrl w True c]
    by (cases "authenticate_miniapp rt parse verifyUrl w True c") auto
qed (simp add: clear_cached_miniapp_auth_def)

lemma run_calls_sound: "pred_option auth_sound (fold (run_call rt parse verifyUrl) ks None)"
proof -
  have "pred_option auth_sound c \<Longrightarrow> pred_option auth_sound (fold (run_call rt parse verifyUrl) ks c)" for c
    by (induction ks arbitrary: c) (auto dest: run_call_sound)
  then show ?thesis by simp
qed

text \<open>
  A session minted in the call with the world \<open>w\<close>: inside a trusted host with a wallet, the wallet signed
  a token, and the server's answer to exactly that token, from the origin that was asked, holds the
  session's token and FID.
\<close>

definition minted_in :: "(jstr \<Rightarrow> url option) \<Rightarrow> jstr \<Rightarrow> miniapp_world \<Rightarrow> cached_auth \<Rightarrow> bool" where
  "minted_in parse verifyUrl w a \<longleftrightarrow>
     mw_trusted w \<and> mw_in_miniapp w = Some True \<and> mw_provider w = Inr True \<and>
     (\<exists>signed resp body n. mw_token w False = Inr signed \<and> mw_exchange w signed = Some resp \<and> xr_ok resp \<and>
        (xr_url resp = [] \<or> same_origin parse (xr_url resp) verifyUrl) \<and>
        xr_json resp = Some (V_obj body) \<and> js_prop body ''token'' = V_str (ca_token a) \<and>
        js_prop body ''fid'' = V_num n \<and> num_safe_int n = Some (ca_fid a))"

lemma exchange_answer:
  "exchange_protocol_token rt parse verifyUrl now reply = Inr a \<Longrightarrow>
   \<exists>resp body n. reply = Some resp \<and> xr_ok resp \<and> (xr_url resp = [] \<or> same_origin parse (xr_url resp) verifyUrl) \<and>
     xr_json resp = Some (V_obj body) \<and> js_prop body ''token'' = V_str (ca_token a) \<and>
     js_prop body ''fid'' = V_num n \<and> num_safe_int n = Some (ca_fid a)"
  by (auto simp: exchange_protocol_token_def split: option.splits if_splits js_value.splits)

lemma authenticate_mints:
  assumes "authenticate_miniapp rt parse verifyUrl w False c = (Inr a, c')"
  shows "minted_in parse verifyUrl w a"
proof -
  obtain signed where t: "is_in_miniapp_host w" "acquire_protocol_token w False = Inr signed"
    "exchange_protocol_token rt parse verifyUrl (mw_now w) (mw_exchange w signed) = Inr a"
    using assms by (auto simp: authenticate_miniapp_def split: sum.splits if_splits)
  then show ?thesis using exchange_answer[OF t(3)]
    by (auto simp: minted_in_def is_in_miniapp_host_def acquire_protocol_token_def split: if_splits option.splits sum.splits)
qed

text \<open>
  C34. A Mini App session is never handed out unchecked: after any sequence of sign-ins, renewals and
  clears, a session that \<^verbatim>\<open>getCachedMiniappAuth\<close> returns has a token and a positive safe FID, and it either
  was minted in this very call (behind the host check, from the server's answer to the token the wallet
  signed in this call) or is the cached one with more than a minute left; the cache then holds it. A
  failed call leaves the cache as it was.
\<close>

theorem miniapp_session_checked:
  assumes "get_cached_miniapp_auth rt parse verifyUrl w (fold (run_call rt parse verifyUrl) ks None) = (r, c')"
  shows "case r of
      Inl e \<Rightarrow> c' = fold (run_call rt parse verifyUrl) ks None
    | Inr a \<Rightarrow> c' = Some a \<and> ca_token a \<noteq> [] \<and> 0 < ca_fid a \<and> ca_fid a \<le> max_safe_integer \<and>
        (minted_in parse verifyUrl w a \<or>
         fold (run_call rt parse verifyUrl) ks None = Some a \<and> num_less (mw_now w + 60000) (ca_expires_at a))"
proof -
  let ?c = "fold (run_call rt parse verifyUrl) ks None"
  have s: "pred_option auth_sound ?c" by (rule run_calls_sound)
  show ?thesis
  proof (cases "\<exists>a. ?c = Some a \<and> num_less (mw_now w + EXPIRY_SAFETY_MS) (ca_expires_at a)")
    case True
    then obtain a where a: "?c = Some a" "num_less (mw_now w + EXPIRY_SAFETY_MS) (ca_expires_at a)" by blast
    then have "auth_sound a" using s by (simp add: pred_option_def)
    moreover have "r = Inr a" "c' = Some a" using assms a by (simp_all add: get_cached_miniapp_auth_def)
    ultimately show ?thesis using a by (simp add: auth_sound_def EXPIRY_SAFETY_MS_def)
  next
    case False
    then have m: "authenticate_miniapp rt parse verifyUrl w False ?c = (r, c')"
      using assms by (auto simp: get_cached_miniapp_auth_def split: option.splits if_splits)
    from authenticate_cases[OF m] show ?thesis
    proof (elim disjE exE conjE)
      fix a
      assume "r = Inr a" "c' = Some a" "auth_sound a"
      moreover have "minted_in parse verifyUrl w a" using authenticate_mints m \<open>r = Inr a\<close> by blast
      ultimately show ?thesis by (simp add: auth_sound_def)
    qed auto
  qed
qed

text \<open>The promise is open exactly while the listeners are on.\<close>

definition popup_ok :: "popup \<Rightarrow> bool" where
  "popup_ok s \<longleftrightarrow> (pu_outcome s = None) = pu_listening s"

text \<open>The response of a well-formed message that the popup sent from \<open>origin\<close>.\<close>

definition own_response :: "jstr \<Rightarrow> js_object \<Rightarrow> popup_input \<Rightarrow> bool" where
  "own_response origin response e \<longleftrightarrow>
     (case e of Pe_message org fromPopup data \<Rightarrow>
        org = origin \<and> fromPopup \<and> parse_embed_sign_in_message data = Some response | _ \<Rightarrow> False)"

lemma popup_step:
  assumes "popup_ok s"
  shows "popup_ok (popup_event e s)" "pu_origin (popup_event e s) = pu_origin s"
    "pu_outcome (popup_event e s) = Some (Inr response) \<Longrightarrow>
       pu_outcome s = Some (Inr response) \<or> own_response (pu_origin s) response e"
  using assms
  by (cases e; auto simp: popup_ok_def popup_event_def handle_message_def handle_abort_def popup_fail_def
      settle_popup_def cleanup_def own_response_def split: if_splits option.splits)+

lemma popup_run:
  assumes "popup_ok s"
  shows "popup_ok (fold popup_event es s) \<and> pu_origin (fold popup_event es s) = pu_origin s \<and>
    (\<forall>response. pu_outcome (fold popup_event es s) = Some (Inr response) \<longrightarrow>
       pu_outcome s = Some (Inr response) \<or> list_ex (own_response (pu_origin s) response) es)"
  using assms
proof (induction es arbitrary: s)
  case (Cons e es)
  then show ?case using Cons.IH[OF popup_step(1)[OF Cons.prems, of e]] popup_step(2,3)[OF Cons.prems]
    by simp metis
qed simp

text \<open>
  C23. The popup hands a session only to the page that opened it: whatever messages, aborts and closings
  arrive, the promise resolves only with the response of a well-formed message that its own popup sent
  from its own origin, it settles at most once, and when it has settled nothing listens any more. The
  other end posts nothing to an opener on another origin, and what it posts to an embed of its own
  origin resolves that embed's promise.
\<close>

theorem popup_hands_over_own_session:
  assumes "s = fold popup_event es (open_embed_sign_in_popup origin False True)"
  shows "(pu_outcome s = None) = pu_listening s \<and>
    (\<forall>response. pu_outcome s = Some (Inr response) \<longrightarrow>
       list_ex (own_response origin response) es) \<and>
    fold popup_event later (cleanup s) = cleanup s \<and>
    (post_login_response_to_opener response o2 opener \<noteq> None \<longrightarrow>
       (\<exists>p. opener = Some p \<and> op_origin p = Some o2)) \<and>
    (pu_listening s \<longrightarrow> has_same_origin_opener origin opener \<longrightarrow>
       parse_embed_sign_in_message (V_obj [(''type'', V_str EMBED_SIGN_IN_MESSAGE_TYPE), (''response'', V_obj response)]) =
         Some response \<longrightarrow>
       pu_outcome (deliver (post_login_response_to_opener response origin opener) origin True s) = Some (Inr response))"
proof -
  let ?s0 = "open_embed_sign_in_popup origin False True"
  have s0: "popup_ok ?s0" "pu_origin ?s0 = origin" "pu_outcome ?s0 = None"
    by (simp_all add: open_embed_sign_in_popup_def popup_ok_def)
  have run: "popup_ok s" "pu_origin s = origin"
    "\<forall>response. pu_outcome s = Some (Inr response) \<longrightarrow> list_ex (own_response origin response) es"
    using popup_run[OF s0(1), of es] s0 by (simp_all add: assms)
  have "fold popup_event later (cleanup s) = cleanup s"
    by (induction later) (simp_all add: popup_event_def cleanup_def)
  moreover have "post_login_response_to_opener response o2 opener \<noteq> None \<longrightarrow>
       (\<exists>p. opener = Some p \<and> op_origin p = Some o2)"
    by (auto simp: post_login_response_to_opener_def has_same_origin_opener_def split: option.splits if_splits)
  ultimately show ?thesis
    using run
    by (auto simp: popup_ok_def deliver_def post_login_response_to_opener_def popup_event_def handle_message_def
        settle_popup_def cleanup_def)
qed

subsection \<open>Witnesses\<close>

definition host_window :: frame_window where
  "host_window = \<lparr>fw_has_parent = Some True, fw_ancestor_origins = Some [''wallet.farcaster.xyz'']\<rparr>"

lemma trusted_host_is_farcaster_witness:
  "last_labels (js_lower (u_hostname (https_url ''wallet.farcaster.xyz''))) = [''farcaster'', ''xyz''] \<and>
   fw_has_parent host_window = Some True"
proof -
  let ?parse = "\<lambda>s. Some (https_url ''wallet.farcaster.xyz'')"
  have "can_trust_miniapp_host ?parse (read_frame_context ?parse (Some host_window))" by code_simp
  from trusted_host_is_farcaster[OF this]
  have "last_labels (js_lower (u_hostname (https_url ''wallet.farcaster.xyz'')))
      \<in> {[''farcaster'', ''xyz''], [''warpcast'', ''com'']}"
    by (auto simp: host_window_def)
  moreover have "last_labels (js_lower (u_hostname (https_url ''wallet.farcaster.xyz''))) \<noteq> [''warpcast'', ''com'']"
    by code_simp
  ultimately show ?thesis by (simp add: host_window_def)
qed

definition demo_exchange :: exchange_response where
  "demo_exchange = \<lparr>xr_url = '''', xr_ok = True, xr_status = 200,
     xr_json = Some (V_obj [(''token'', V_str ''t''), (''fid'', V_num (num_int 9))])\<rparr>"

definition demo_world :: "int \<Rightarrow> miniapp_world" where
  "demo_world now = \<lparr>mw_trusted = True, mw_in_miniapp = Some True, mw_provider = Inr True,
     mw_token = (\<lambda>force. Inr ''hqa1''), mw_exchange = (\<lambda>t. Some demo_exchange), mw_now = now\<rparr>"

definition demo_runtime :: js_runtime where
  "demo_runtime = \<lparr>rt_date_parse = (\<lambda>s. None), rt_json_parse = (\<lambda>s. None)\<rparr>"

text \<open>At 5 the session minted at 0 is used again; at 600000 it has less than a minute left and a new one is minted.\<close>

lemma miniapp_session_checked_witness:
  "\<exists>a b. fst (get_cached_miniapp_auth demo_runtime (\<lambda>s. None) ''u'' (demo_world 5)
       (fold (run_call demo_runtime (\<lambda>s. None) ''u'') [Mc_force (demo_world 0)] None)) = Inr a \<and>
     0 < ca_fid a \<and> ca_token a \<noteq> [] \<and> ca_expires_at a = num_int 600000 \<and>
     fst (get_cached_miniapp_auth demo_runtime (\<lambda>s. None) ''u'' (demo_world 600000)
       (fold (run_call demo_runtime (\<lambda>s. None) ''u'') [Mc_force (demo_world 0)] None)) = Inr b \<and>
     minted_in (\<lambda>s. None) ''u'' (demo_world 600000) b"
proof -
  let ?r = "\<lambda>t. get_cached_miniapp_auth demo_runtime (\<lambda>s. None) ''u'' (demo_world t)
       (fold (run_call demo_runtime (\<lambda>s. None) ''u'') [Mc_force (demo_world 0)] None)"
  have i: "case fst (?r 5) of Inr a \<Rightarrow> ca_expires_at a = num_int 600000 | Inl e \<Rightarrow> False" by code_simp
  have j: "case fst (?r 600000) of Inr a \<Rightarrow> ca_expires_at a = num_int 1200000 | Inl e \<Rightarrow> False" by code_simp
  have k: "case fold (run_call demo_runtime (\<lambda>s. None) ''u'') [Mc_force (demo_world 0)] None of
      Some a \<Rightarrow> ca_expires_at a = num_int 600000 | None \<Rightarrow> False" by code_simp
  obtain a where a: "fst (?r 5) = Inr a" "ca_expires_at a = num_int 600000" using i by (cases "fst (?r 5)") auto
  obtain b where b: "fst (?r 600000) = Inr b" "ca_expires_at b = num_int 1200000" using j by (cases "fst (?r 600000)") auto
  have "?r 5 = (Inr a, snd (?r 5))" using a by (metis prod.collapse)
  from miniapp_session_checked[OF this] have "0 < ca_fid a" "ca_token a \<noteq> []" by auto
  moreover have "?r 600000 = (Inr b, snd (?r 600000))" using b by (metis prod.collapse)
  from miniapp_session_checked[OF this] have "minted_in (\<lambda>s. None) ''u'' (demo_world 600000) b"
    using k b(2) by (auto split: option.splits)
  ultimately show ?thesis using a b by blast
qed

definition demo_response :: js_object where
  "demo_response = [(''jwt'', V_str ''j''), (''user'', V_obj [(''fid'', V_num (num_int 9))])]"

lemma popup_hands_over_own_session_witness:
  "pu_outcome (deliver (post_login_response_to_opener demo_response ''https://juke.audio''
       (Some \<lparr>op_is_self = False, op_origin = Some ''https://juke.audio''\<rparr>)) ''https://juke.audio'' True
     (fold popup_event [Pe_message ''https://evil'' True V_null, Pe_poll False]
        (open_embed_sign_in_popup ''https://juke.audio'' False True))) = Some (Inr demo_response)"
proof -
  let ?s = "fold popup_event [Pe_message ''https://evil'' True V_null, Pe_poll False]
        (open_embed_sign_in_popup ''https://juke.audio'' False True)"
  let ?p = "Some \<lparr>op_is_self = False, op_origin = Some ''https://juke.audio''\<rparr>"
  have l: "pu_listening ?s" by code_simp
  have o: "has_same_origin_opener ''https://juke.audio'' ?p" by (simp add: has_same_origin_opener_def)
  have p: "parse_embed_sign_in_message
      (V_obj [(''type'', V_str EMBED_SIGN_IN_MESSAGE_TYPE), (''response'', V_obj demo_response)]) = Some demo_response"
    by (simp add: parse_embed_sign_in_message_def js_prop_def demo_response_def max_safe_integer_def)
  from popup_hands_over_own_session[OF refl, of "[Pe_message ''https://evil'' True V_null, Pe_poll False]"
      "''https://juke.audio''" "[]" demo_response "''o2''" ?p]
  show ?thesis using l o p by metis
qed

end
