(* ===== verification/Embed_Sdk.thy ===== *)
theory Embed_Sdk
  imports Embed_Sign_In
begin

text \<open>
  The SDK of the hosted embed (\<^verbatim>\<open>landing/lib/juke-embed-sdk.ts\<close>): the session and its renewal by source,
  the authenticated calls, and the audio room. A method is split at its awaits; the calls in flight
  with what their continuations captured are the second component of a state. LiveKit's rooms are
  numbered by creation; a long dash in a message is written with two hyphens.
\<close>

subsection \<open>Sessions\<close>

datatype auth_source = Src_protocol | Src_miniapp | Src_partner | Src_siwf

text \<open>
  \<open>es_expires\<close> is what \<^verbatim>\<open>new Date(expiresAt).getTime()\<close> gives, \<open>None\<close> for \<^verbatim>\<open>NaN\<close>.
\<close>

record embed_session =
  es_jwt :: jstr
  es_refresh_token :: jstr
  es_expires :: "int option"
  es_fid :: js_num
  es_source :: auth_source

definition SESSION_REFRESH_MARGIN_MS :: int where "SESSION_REFRESH_MARGIN_MS = 60000"
definition PARTNER_TOKEN_MAX_LENGTH :: nat where "PARTNER_TOKEN_MAX_LENGTH = 4096"
definition PARTICIPANT_ROLES_WITH_MIC :: "jstr list" where
  "PARTICIPANT_ROLES_WITH_MIC = [''host'', ''co_host'', ''speaker'']"

datatype embed_error =
  Auth_error jstr "miniapp_auth_error option"
  | Sdk_error jstr
  | Range_error

text \<open>\<^verbatim>\<open>Date.now() / 1000 >= exp\<close>, on rationals.\<close>

fun num_expired :: "int \<Rightarrow> js_num \<Rightarrow> bool" where
  "num_expired now (Fin e) = (of_int now / 1000 \<ge> e)"
| "num_expired now Neg_inf = True"
| "num_expired now _ = False"

definition decode_partner_jwt_claims :: "js_runtime \<Rightarrow> int \<Rightarrow> jstr \<Rightarrow> embed_error + js_num \<times> js_num" where
  "decode_partner_jwt_claims rt now token =
     (let malformed = Inl (Sdk_error ''Partner token is malformed'')
      in if length token > PARTNER_TOKEN_MAX_LENGTH then malformed
         else (case js_split (CHR ''.'') token of
                 [_, payload, _] \<Rightarrow>
                   if payload = [] then malformed
                   else (case js_atob (map base64_unurl payload) of
                           None \<Rightarrow> malformed
                         | Some json \<Rightarrow>
                             (case rt_json_parse rt json of
                                Some (V_obj claims) \<Rightarrow>
                                  (case (js_prop claims ''fid'', js_prop claims ''exp'') of
                                     (V_num fid, V_num expiry) \<Rightarrow>
                                       if num_expired now expiry then Inl (Sdk_error ''Partner token is already expired'')
                                       else Inr (fid, expiry)
                                   | _ \<Rightarrow> Inl (Sdk_error ''Partner token is missing required claims''))
                              | Some (V_arr xs) \<Rightarrow> Inl (Sdk_error ''Partner token is missing required claims'')
                              | _ \<Rightarrow> malformed))
               | _ \<Rightarrow> malformed))"

text \<open>\<^verbatim>\<open>new Date(x).toISOString()\<close> throws on an invalid date.\<close>

definition to_iso :: "js_num \<Rightarrow> embed_error + int" where
  "to_iso x = (case date_of x of None \<Rightarrow> Inl Range_error | Some t \<Rightarrow> Inr t)"

subsection \<open>The SDK object\<close>

record join_response =
  jr_room_id :: jstr
  jr_role :: jstr

datatype room_state = Rm_connecting | Rm_connected | Rm_closed

record embed_sdk =
  sd_auth :: "embed_session option"
  sd_room :: "nat option"
  sd_space :: "jstr option"
  sd_join :: "join_response option"
  sd_rooms :: "nat \<rightharpoonup> room_state"
  sd_next_room :: nat

definition create_juke_embed_sdk :: embed_sdk where
  "create_juke_embed_sdk = \<lparr>sd_auth = None, sd_room = None, sd_space = None, sd_join = None,
     sd_rooms = Map.empty, sd_next_room = 0\<rparr>"

definition adopt_partner_session :: "js_runtime \<Rightarrow> int \<Rightarrow> jstr \<Rightarrow> embed_sdk \<Rightarrow> (embed_error + embed_session) \<times> embed_sdk" where
  "adopt_partner_session rt now token s =
     (case decode_partner_jwt_claims rt now token of
        Inl e \<Rightarrow> (Inl e, s)
      | Inr (fid, expiry) \<Rightarrow>
          (case to_iso (num_scale 1000 expiry) of
             Inl e \<Rightarrow> (Inl e, s)
           | Inr t \<Rightarrow>
               let session = \<lparr>es_jwt = token, es_refresh_token = [], es_expires = Some t, es_fid = fid,
                              es_source = Src_partner\<rparr>
               in (Inr session, s\<lparr>sd_auth := Some session\<rparr>)))"

text \<open>
  A login response as it comes off the network: any field may be missing. \<open>None\<close> stands for a
  response that is \<^verbatim>\<open>null\<close> or has no \<^verbatim>\<open>jwt\<close> or user.
\<close>

record raw_login =
  rl_jwt :: jstr
  rl_refresh_token :: "jstr option"
  rl_expires_at :: jstr
  rl_fid :: js_num

definition store_login_response ::
  "js_runtime \<Rightarrow> raw_login option \<Rightarrow> auth_source \<Rightarrow> embed_sdk \<Rightarrow> (embed_error + embed_session) \<times> embed_sdk" where
  "store_login_response rt response source s =
     (case response of
        None \<Rightarrow> (Inl (Auth_error ''Sign-in returned an invalid session'' None), s)
      | Some r \<Rightarrow>
          if rl_jwt r = [] \<or> num_safe_int (rl_fid r) = None
          then (Inl (Auth_error ''Sign-in returned an invalid session'' None), s)
          else let session = \<lparr>es_jwt = rl_jwt r,
                              es_refresh_token = (case rl_refresh_token r of None \<Rightarrow> [] | Some t \<Rightarrow> t),
                              es_expires = rt_date_parse rt (rl_expires_at r), es_fid = rl_fid r,
                              es_source = source\<rparr>
               in (Inr session, s\<lparr>sd_auth := Some session\<rparr>))"

definition adopt_login_response ::
  "js_runtime \<Rightarrow> raw_login option \<Rightarrow> embed_sdk \<Rightarrow> (embed_error + embed_session) \<times> embed_sdk" where
  "adopt_login_response rt response s = store_login_response rt response Src_protocol s"

fun MINIAPP_AUTH_ERROR_MESSAGES :: "miniapp_auth_error \<Rightarrow> jstr" where
  "MINIAPP_AUTH_ERROR_MESSAGES User_cancelled = ''Sign-in was cancelled.''"
| "MINIAPP_AUTH_ERROR_MESSAGES Network = ''Couldn't reach Juke. Check your connection and try again.''"
| "MINIAPP_AUTH_ERROR_MESSAGES Verify_failed =
     ''Your Farcaster app's wallet couldn't sign in for this account. Sign in with your Farcaster account instead.''"
| "MINIAPP_AUTH_ERROR_MESSAGES Invalid_response = ''Sign-in failed. Try again.''"
| "MINIAPP_AUTH_ERROR_MESSAGES Timeout = ''Your wallet didn't respond. Try again.''"
| "MINIAPP_AUTH_ERROR_MESSAGES Not_in_miniapp = []"

text \<open>The rest of \<^verbatim>\<open>signInWithMiniApp\<close>; \<^verbatim>\<open>null\<close> is \<open>Inr None\<close>.\<close>

definition sign_in_with_miniapp_done ::
  "miniapp_auth_error + cached_auth \<Rightarrow> embed_sdk \<Rightarrow> (embed_error + embed_session option) \<times> embed_sdk" where
  "sign_in_with_miniapp_done result s =
     (case result of
        Inl reason \<Rightarrow>
          if reason = Not_in_miniapp then (Inr None, s)
          else (Inl (Auth_error (MINIAPP_AUTH_ERROR_MESSAGES reason) (Some reason)), s)
      | Inr a \<Rightarrow>
          (case to_iso (ca_expires_at a) of
             Inl e \<Rightarrow> (Inl e, s)
           | Inr t \<Rightarrow>
               let session = \<lparr>es_jwt = ca_token a, es_refresh_token = [], es_expires = Some t,
                              es_fid = num_int (ca_fid a), es_source = Src_miniapp\<rparr>
               in (Inr (Some session), s\<lparr>sd_auth := Some session\<rparr>)))"

subsection \<open>A fresh session\<close>

datatype fresh_session =
  Fresh embed_session
  | Fresh_error embed_error
  | Await_refresh jstr jstr auth_source
  | Await_miniapp

text \<open>\<^verbatim>\<open>getFreshAuthSession\<close> up to its first await.\<close>

definition get_fresh_auth_session :: "int \<Rightarrow> embed_sdk \<Rightarrow> fresh_session \<times> embed_sdk" where
  "get_fresh_auth_session now s =
     (case sd_auth s of
        None \<Rightarrow> (Fresh_error (Auth_error ''Sign in to participate'' None), s)
      | Some session \<Rightarrow>
          if (case es_expires session of None \<Rightarrow> False | Some t \<Rightarrow> now + SESSION_REFRESH_MARGIN_MS < t)
          then (Fresh session, s)
          else if es_source session = Src_miniapp then (Await_miniapp, s\<lparr>sd_auth := None\<rparr>)
          else if es_refresh_token session = []
          then (Fresh_error (Auth_error
                 ''Partner session expired -- re-authenticate via the host site or sign in with Farcaster.'' None),
                s\<lparr>sd_auth := None\<rparr>)
          else (Await_refresh (es_jwt session) (es_refresh_token session) (es_source session), s))"

text \<open>Its continuations: the refreshed login response, and the Mini App's renewal.\<close>

definition refresh_session_done ::
  "js_runtime \<Rightarrow> auth_source \<Rightarrow> jstr + raw_login option \<Rightarrow> embed_sdk \<Rightarrow> (embed_error + embed_session) \<times> embed_sdk" where
  "refresh_session_done rt source r s =
     (case r of Inl detail \<Rightarrow> (Inl (Sdk_error detail), s) | Inr response \<Rightarrow> store_login_response rt response source s)"

definition renew_miniapp_done ::
  "miniapp_auth_error + cached_auth \<Rightarrow> embed_sdk \<Rightarrow> (embed_error + embed_session) \<times> embed_sdk" where
  "renew_miniapp_done result s =
     (case sign_in_with_miniapp_done result s of
        (Inl e, s1) \<Rightarrow> (Inl e, s1)
      | (Inr None, s1) \<Rightarrow> (Inl (Auth_error ''Session expired -- sign in with Farcaster again.'' None), s1)
      | (Inr (Some session), s1) \<Rightarrow> (Inr session, s1))"

subsection \<open>The calls\<close>

datatype embed_op = Op_join jstr | Op_leave jstr | Op_token "jstr option" | Op_raise jstr bool

datatype after_kind = After_leave "jstr option" | After_connect join_response

text \<open>
  What is in flight: the refresh of the session an operation waits for, the Mini App's renewal, the
  operation's own request with the bearer it carries, a room's \<^verbatim>\<open>disconnect\<close> and \<^verbatim>\<open>connect\<close>; and
  \<open>Ec_resume\<close>, the continuation of a \<^verbatim>\<open>disconnectAudio\<close> that had no room to wait for.
\<close>

datatype embed_call =
  Ec_refresh jstr jstr auth_source embed_op
  | Ec_miniapp embed_op
  | Ec_request jstr embed_op
  | Ec_resume after_kind
  | Ec_disconnect nat after_kind
  | Ec_connect nat join_response

type_synonym embed_act = "embed_sdk \<times> embed_call list \<times> embed_error option"

text \<open>The operation with its session: the request, with the space resolved for \<^verbatim>\<open>refreshToken\<close>.\<close>

definition continue_op :: "embed_op \<Rightarrow> embed_session \<Rightarrow> embed_sdk \<Rightarrow> embed_act" where
  "continue_op op session s =
     (case op of
        Op_token spaceId \<Rightarrow>
          (case (case spaceId of Some i \<Rightarrow> Some i | None \<Rightarrow> sd_space s) of
             None \<Rightarrow> (s, [], Some (Sdk_error ''No active space''))
           | Some i \<Rightarrow> if i = [] then (s, [], Some (Sdk_error ''No active space''))
                       else (s, [Ec_request (es_jwt session) (Op_token (Some i))], None))
      | _ \<Rightarrow> (s, [Ec_request (es_jwt session) op], None))"

text \<open>\<^verbatim>\<open>leaveSpace\<close> swallows a session that cannot be had.\<close>

definition fail_op :: "embed_op \<Rightarrow> embed_error \<Rightarrow> embed_sdk \<Rightarrow> embed_act" where
  "fail_op op e s = (case op of Op_leave i \<Rightarrow> (s, [], None) | _ \<Rightarrow> (s, [], Some e))"

definition start_op :: "int \<Rightarrow> embed_op \<Rightarrow> embed_sdk \<Rightarrow> embed_act" where
  "start_op now op s =
     (case get_fresh_auth_session now s of
        (Fresh session, s1) \<Rightarrow> continue_op op session s1
      | (Fresh_error e, s1) \<Rightarrow> fail_op op e s1
      | (Await_refresh jwt token source, s1) \<Rightarrow> (s1, [Ec_refresh jwt token source op], None)
      | (Await_miniapp, s1) \<Rightarrow> (s1, [Ec_miniapp op], None))"

definition session_done :: "embed_op \<Rightarrow> (embed_error + embed_session) \<times> embed_sdk \<Rightarrow> embed_act" where
  "session_done op x =
     (case x of (Inl e, s) \<Rightarrow> fail_op op e s | (Inr session, s) \<Rightarrow> continue_op op session s)"

text \<open>A settled request: joining records the join, the others only return.\<close>

definition request_done :: "embed_op \<Rightarrow> jstr + join_response \<Rightarrow> embed_sdk \<Rightarrow> embed_act" where
  "request_done op r s =
     (case (op, r) of
        (Op_join spaceId, Inr body) \<Rightarrow> (s\<lparr>sd_join := Some body, sd_space := Some spaceId\<rparr>, [], None)
      | (Op_leave i, _) \<Rightarrow> (s, [], None)
      | (_, Inl detail) \<Rightarrow> (s, [], Some (Sdk_error detail))
      | _ \<Rightarrow> (s, [], None))"

subsection \<open>Audio\<close>

definition disconnect_audio :: "after_kind \<Rightarrow> embed_sdk \<Rightarrow> embed_act" where
  "disconnect_audio cont s =
     (case sd_room s of
        None \<Rightarrow> (s, [Ec_resume cont], None)
      | Some r \<Rightarrow> (s\<lparr>sd_room := None\<rparr>, [Ec_disconnect r cont], None))"

definition embed_leave_space :: "jstr option \<Rightarrow> embed_sdk \<Rightarrow> embed_act" where
  "embed_leave_space spaceId s = disconnect_audio (After_leave spaceId) s"

definition connect_audio :: "bool \<Rightarrow> join_response \<Rightarrow> embed_sdk \<Rightarrow> embed_act" where
  "connect_audio supportsWebRtc join s =
     (if \<not> supportsWebRtc then (s, [], Some (Sdk_error ''This browser cannot play live audio''))
      else disconnect_audio (After_connect join) s)"

text \<open>What follows the disconnect.\<close>

definition after_disconnect :: "int \<Rightarrow> after_kind \<Rightarrow> embed_sdk \<Rightarrow> embed_act" where
  "after_disconnect now cont s =
     (case cont of
        After_leave spaceId \<Rightarrow>
          (let i = (case spaceId of Some x \<Rightarrow> Some x | None \<Rightarrow> sd_space s);
               s1 = s\<lparr>sd_join := None, sd_space := None\<rparr>
           in case i of
                None \<Rightarrow> (s1, [], None)
              | Some x \<Rightarrow> if x = [] \<or> sd_auth s1 = None then (s1, [], None) else start_op now (Op_leave x) s1)
      | After_connect join \<Rightarrow>
          (let r = sd_next_room s
           in (s\<lparr>sd_room := Some r, sd_join := Some join, sd_space := Some (jr_room_id join),
                 sd_next_room := r + 1, sd_rooms := (sd_rooms s)(r \<mapsto> Rm_connecting)\<rparr>,
               [Ec_connect r join], None)))"

text \<open>The handler of a room's \<^verbatim>\<open>Disconnected\<close> event, which LiveKit also emits within \<^verbatim>\<open>disconnect()\<close>.\<close>

definition on_disconnected :: "nat \<Rightarrow> embed_sdk \<Rightarrow> embed_sdk" where
  "on_disconnected r s =
     (if sd_rooms s r = Some Rm_closed then s
      else s\<lparr>sd_rooms := (sd_rooms s)(r \<mapsto> Rm_closed), sd_room := None\<rparr>)"

definition embed_connect_done :: "nat \<Rightarrow> bool \<Rightarrow> embed_sdk \<Rightarrow> embed_sdk" where
  "embed_connect_done r ok s =
     (if sd_rooms s r \<noteq> Some Rm_connecting then s
      else s\<lparr>sd_rooms := (sd_rooms s)(r \<mapsto> (if ok then Rm_connected else Rm_closed))\<rparr>)"

definition require_connected_room :: "embed_sdk \<Rightarrow> embed_error + nat" where
  "require_connected_room s =
     (case sd_room s of None \<Rightarrow> Inl (Sdk_error ''Audio is not connected'') | Some r \<Rightarrow> Inr r)"

text \<open>The room whose microphone is switched, or the error.\<close>

definition enable_microphone :: "embed_sdk \<Rightarrow> embed_error + nat" where
  "enable_microphone s =
     (if sd_auth s = None then Inl (Auth_error ''Sign in to participate'' None)
      else case sd_join s of
             None \<Rightarrow> Inl (Sdk_error ''A host must approve you before you can speak'')
           | Some j \<Rightarrow>
               if jr_role j = [] \<or> jr_role j \<notin> set PARTICIPANT_ROLES_WITH_MIC
               then Inl (Sdk_error ''A host must approve you before you can speak'')
               else require_connected_room s)"

definition reaction_key_char :: "char \<Rightarrow> bool" where
  "reaction_key_char c \<longleftrightarrow>
     (let l = js_lower_char c; n = (of_char l :: nat)
      in (97 \<le> n \<and> n \<le> 122) \<or> (48 \<le> n \<and> n \<le> 57) \<or> c \<in> set ''_:+-'')"

definition send_reaction :: "jstr \<Rightarrow> embed_sdk \<Rightarrow> embed_error + nat" where
  "send_reaction key s =
     (if sd_auth s = None then Inl (Auth_error ''Sign in to participate'' None)
      else if \<not> (1 \<le> length key \<and> length key \<le> 32 \<and> list_all reaction_key_char key)
      then Inl (Sdk_error ''Invalid reaction'')
      else require_connected_room s)"

subsection \<open>The SDK as a system\<close>

definition is_switching :: "embed_call \<Rightarrow> bool" where
  "is_switching c \<longleftrightarrow> (case c of Ec_resume k \<Rightarrow> True | Ec_disconnect r k \<Rightarrow> True | _ \<Rightarrow> False)"

text \<open>
  The embed's page calls the methods, the calls settle in any order, and rooms drop when they like.
  \<open>one_at_a_time\<close> says that the page starts no connect or leave while an earlier one still waits for
  its disconnect.
\<close>

inductive embed_step ::
  "bool \<Rightarrow> js_runtime \<Rightarrow> embed_sdk \<times> embed_call list \<Rightarrow> embed_sdk \<times> embed_call list \<Rightarrow> bool"
  for one_at_a_time rt where
  es_op: "start_op now op s = (s', cs, e) \<Longrightarrow> embed_step one_at_a_time rt (s, P) (s', P @ cs)"
| es_leave: "(one_at_a_time \<longrightarrow> \<not> list_ex is_switching P) \<Longrightarrow> embed_leave_space i s = (s', cs, e) \<Longrightarrow>
    embed_step one_at_a_time rt (s, P) (s', P @ cs)"
| es_connect: "(one_at_a_time \<longrightarrow> \<not> list_ex is_switching P) \<Longrightarrow> connect_audio rtc join s = (s', cs, e) \<Longrightarrow>
    embed_step one_at_a_time rt (s, P) (s', P @ cs)"
| es_partner: "adopt_partner_session rt now token s = (r, s') \<Longrightarrow> embed_step one_at_a_time rt (s, P) (s', P)"
| es_login: "store_login_response rt response src s = (r, s') \<Longrightarrow> src \<in> {Src_protocol, Src_siwf} \<Longrightarrow>
    embed_step one_at_a_time rt (s, P) (s', P)"
| es_miniapp: "sign_in_with_miniapp_done result s = (r, s') \<Longrightarrow> embed_step one_at_a_time rt (s, P) (s', P)"
| es_refreshed: "Ec_refresh jwt token src op \<in> set P \<Longrightarrow>
    session_done op (refresh_session_done rt src r s) = (s', cs, e) \<Longrightarrow>
    embed_step one_at_a_time rt (s, P) (s', remove1 (Ec_refresh jwt token src op) P @ cs)"
| es_renewed: "Ec_miniapp op \<in> set P \<Longrightarrow> session_done op (renew_miniapp_done result s) = (s', cs, e) \<Longrightarrow>
    embed_step one_at_a_time rt (s, P) (s', remove1 (Ec_miniapp op) P @ cs)"
| es_request: "Ec_request jwt op \<in> set P \<Longrightarrow> request_done op r s = (s', cs, e) \<Longrightarrow>
    embed_step one_at_a_time rt (s, P) (s', remove1 (Ec_request jwt op) P @ cs)"
| es_resume: "Ec_resume cont \<in> set P \<Longrightarrow> after_disconnect now cont s = (s', cs, e) \<Longrightarrow>
    embed_step one_at_a_time rt (s, P) (s', remove1 (Ec_resume cont) P @ cs)"
| es_disconnected: "Ec_disconnect r cont \<in> set P \<Longrightarrow> after_disconnect now cont (on_disconnected r s) = (s', cs, e) \<Longrightarrow>
    embed_step one_at_a_time rt (s, P) (s', remove1 (Ec_disconnect r cont) P @ cs)"
| es_connected: "Ec_connect r join \<in> set P \<Longrightarrow>
    embed_step one_at_a_time rt (s, P) (embed_connect_done r ok s, remove1 (Ec_connect r join) P)"
| es_dropped: "sd_rooms s r \<noteq> None \<Longrightarrow> embed_step one_at_a_time rt (s, P) (on_disconnected r s, P)"

inductive embed_reachable :: "bool \<Rightarrow> js_runtime \<Rightarrow> embed_sdk \<times> embed_call list \<Rightarrow> bool" for one_at_a_time rt where
  embed_init: "embed_reachable one_at_a_time rt (create_juke_embed_sdk, [])"
| embed_next: "embed_reachable one_at_a_time rt x \<Longrightarrow> embed_step one_at_a_time rt x y \<Longrightarrow>
    embed_reachable one_at_a_time rt y"

subsection \<open>Refresh tokens\<close>

definition renewable :: "auth_source \<Rightarrow> bool" where
  "renewable src \<longleftrightarrow> src = Src_protocol \<or> src = Src_siwf"

definition session_ok :: "embed_session \<Rightarrow> bool" where
  "session_ok x \<longleftrightarrow> renewable (es_source x) \<or> es_refresh_token x = []"

fun renewal_ok :: "embed_call \<Rightarrow> bool" where
  "renewal_ok (Ec_refresh jwt token src op) = (token \<noteq> [] \<and> renewable src)"
| "renewal_ok c = True"

definition sdk_auth_ok :: "embed_sdk \<times> embed_call list \<Rightarrow> bool" where
  "sdk_auth_ok x \<longleftrightarrow> pred_option session_ok (sd_auth (fst x)) \<and> list_all renewal_ok (snd x)"

lemma continue_op_ok: "continue_op op x s = (s', cs, e) \<Longrightarrow> s' = s \<and> list_all renewal_ok cs"
  by (auto simp: continue_op_def split: embed_op.splits option.splits if_splits)

lemma fail_op_ok: "fail_op op e s = (s', cs, e') \<Longrightarrow> s' = s \<and> cs = []"
  by (auto simp: fail_op_def split: embed_op.splits)

lemma start_op_ok:
  assumes "start_op now op s = (s', cs, e)" "pred_option session_ok (sd_auth s)"
  shows "pred_option session_ok (sd_auth s') \<and> list_all renewal_ok cs"
proof (cases "get_fresh_auth_session now s")
  case (Pair f s1)
  have s1: "pred_option session_ok (sd_auth s1)"
    using assms(2) Pair by (auto simp: get_fresh_auth_session_def split: option.splits if_splits)
  show ?thesis
  proof (cases f)
    case (Fresh x)
    then show ?thesis using assms Pair s1 by (auto simp: start_op_def dest!: continue_op_ok)
  next
    case (Fresh_error err)
    then show ?thesis using assms Pair s1 by (auto simp: start_op_def dest!: fail_op_ok)
  next
    case (Await_refresh jwt token src)
    then have "token \<noteq> [] \<and> renewable src"
      using assms(2) Pair
      by (auto simp: get_fresh_auth_session_def session_ok_def renewable_def split: option.splits if_splits
          dest: auth_source.exhaust)
    then show ?thesis using assms Pair s1 Await_refresh by (auto simp: start_op_def)
  next
    case Await_miniapp
    then show ?thesis using assms Pair s1 by (auto simp: start_op_def)
  qed
qed

lemma store_ok:
  "store_login_response rt response src s = (r, s') \<Longrightarrow> renewable src \<Longrightarrow>
     pred_option session_ok (sd_auth s) \<Longrightarrow> pred_option session_ok (sd_auth s')"
  by (auto simp: store_login_response_def session_ok_def Let_def split: option.splits if_splits)

lemma miniapp_ok:
  "sign_in_with_miniapp_done result s = (r, s') \<Longrightarrow> pred_option session_ok (sd_auth s) \<Longrightarrow>
     pred_option session_ok (sd_auth s')"
  by (auto simp: sign_in_with_miniapp_done_def session_ok_def Let_def split: sum.splits if_splits)

lemma partner_ok:
  "adopt_partner_session rt now token s = (r, s') \<Longrightarrow> pred_option session_ok (sd_auth s) \<Longrightarrow>
     pred_option session_ok (sd_auth s')"
  by (auto simp: adopt_partner_session_def session_ok_def Let_def split: sum.splits)

lemma renew_ok:
  "renew_miniapp_done result s = (r, s') \<Longrightarrow> pred_option session_ok (sd_auth s) \<Longrightarrow>
     pred_option session_ok (sd_auth s')"
  using miniapp_ok
  by (auto simp: renew_miniapp_done_def split: prod.splits sum.splits option.splits; metis)

lemma session_done_ok:
  "session_done op (r, s) = (s', cs, e) \<Longrightarrow> pred_option session_ok (sd_auth s) \<Longrightarrow>
     pred_option session_ok (sd_auth s') \<and> list_all renewal_ok cs"
  by (cases r) (auto simp: session_done_def dest!: fail_op_ok continue_op_ok)

lemma refresh_ok:
  "refresh_session_done rt src r s = (q, s') \<Longrightarrow> renewable src \<Longrightarrow>
     pred_option session_ok (sd_auth s) \<Longrightarrow> pred_option session_ok (sd_auth s')"
  by (auto simp: refresh_session_done_def split: sum.splits dest: store_ok)

lemma after_disconnect_ok:
  "after_disconnect now cont s = (s', cs, e) \<Longrightarrow> pred_option session_ok (sd_auth s) \<Longrightarrow>
     pred_option session_ok (sd_auth s') \<and> list_all renewal_ok cs"
  by (auto simp: after_disconnect_def Let_def split: after_kind.splits option.splits if_splits
      dest!: start_op_ok)

lemma list_all_removed: "list_all Q P \<Longrightarrow> list_all Q (remove1 c P)"
  by (induction P) auto

lemma auth_frames [simp]:
  "sd_auth (on_disconnected r s) = sd_auth s" "sd_auth (embed_connect_done r ok s) = sd_auth s"
  by (simp_all add: on_disconnected_def embed_connect_done_def)

lemma embed_step_auth: "embed_step b rt x y \<Longrightarrow> sdk_auth_ok x \<Longrightarrow> sdk_auth_ok y"
proof (induction rule: embed_step.induct)
  case (es_op now op s s' cs e P)
  then show ?case using start_op_ok by (auto simp: sdk_auth_ok_def)
next
  case (es_login response src s r s' P)
  then show ?case using store_ok[OF es_login(1)] by (auto simp: sdk_auth_ok_def renewable_def)
next
  case (es_refreshed jwt token src op P r s s' cs e)
  then have src: "renewable src" and ok: "pred_option session_ok (sd_auth s)" "list_all renewal_ok P"
    by (auto simp: sdk_auth_ok_def list_all_iff)
  obtain q s1 where q: "refresh_session_done rt src r s = (q, s1)" by fastforce
  show ?case
    using session_done_ok[OF es_refreshed(2)[unfolded q] refresh_ok[OF q src ok(1)]] ok(2)
    by (simp add: sdk_auth_ok_def list_all_removed)
next
  case (es_renewed op P result s s' cs e)
  then have ok: "pred_option session_ok (sd_auth s)" "list_all renewal_ok P" by (auto simp: sdk_auth_ok_def)
  obtain q s1 where q: "renew_miniapp_done result s = (q, s1)" by fastforce
  show ?case
    using session_done_ok[OF es_renewed(2)[unfolded q] renew_ok[OF q ok(1)]] ok(2)
    by (simp add: sdk_auth_ok_def list_all_removed)
next
  case (es_resume cont P now s s' cs e)
  then show ?case using after_disconnect_ok by (auto simp: sdk_auth_ok_def list_all_removed)
next
  case (es_disconnected r cont P now s s' cs e)
  then show ?case using after_disconnect_ok[OF es_disconnected(2)] by (auto simp: sdk_auth_ok_def list_all_removed)
qed (auto simp: sdk_auth_ok_def embed_leave_space_def connect_audio_def disconnect_audio_def request_done_def list_all_removed
    dest: partner_ok miniapp_ok split: option.splits if_splits embed_op.splits sum.splits)

lemma embed_reachable_auth: "embed_reachable b rt x \<Longrightarrow> sdk_auth_ok x"
proof (induction rule: embed_reachable.induct)
  case embed_init
  show ?case by (simp add: sdk_auth_ok_def create_juke_embed_sdk_def)
qed (rule embed_step_auth)

subsection \<open>Rooms\<close>

definition live_room :: "embed_sdk \<Rightarrow> nat \<Rightarrow> bool" where
  "live_room s r \<longleftrightarrow> sd_rooms s r = Some Rm_connecting \<or> sd_rooms s r = Some Rm_connected"

definition switching :: "embed_call list \<Rightarrow> embed_call list" where
  "switching P = filter is_switching P"

text \<open>
  With one switch at a time: a live room is the active one or is being disconnected, and during a switch no
  room is active.
\<close>

definition rooms_ok :: "embed_sdk \<times> embed_call list \<Rightarrow> bool" where
  "rooms_ok x \<longleftrightarrow> (case x of (s, P) \<Rightarrow>
     length (switching P) \<le> 1 \<and>
     (switching P \<noteq> [] \<longrightarrow> sd_room s = None) \<and>
     (\<forall>r. live_room s r \<longrightarrow> r < sd_next_room s \<and> (sd_room s = Some r \<or> (\<exists>k. Ec_disconnect r k \<in> set P))))"

lemma switching_simps [simp]:
  "switching [] = []" "switching (P @ Q) = switching P @ switching Q"
  "switching (c # P) = (if is_switching c then c # switching P else switching P)"
  by (simp_all add: switching_def)

lemma is_switching_simps [simp]:
  "is_switching (Ec_resume k)" "is_switching (Ec_disconnect r k)" "\<not> is_switching (Ec_request j op)"
  "\<not> is_switching (Ec_refresh j t sr op)" "\<not> is_switching (Ec_miniapp op)" "\<not> is_switching (Ec_connect r jn)"
  by (simp_all add: is_switching_def)

lemma switching_remove1:
  "switching (remove1 c P) = (if is_switching c then remove1 c (switching P) else switching P)"
  by (induction P) auto

lemma switching_empty: "\<not> list_ex is_switching P \<Longrightarrow> switching P = []"
  by (simp add: switching_def filter_empty_conv list_ex_iff)

lemma one_switch:
  assumes "length (switching P) \<le> 1" "c \<in> set P" "is_switching c"
  shows "switching (remove1 c P) = []"
proof -
  have "c \<in> set (switching P)" using assms(2,3) by (simp add: switching_def)
  then have "switching P = [c]" using assms(1) by (cases "switching P") auto
  then show ?thesis using assms(3) by (simp add: switching_remove1)
qed

lemma switch_no_room: "rooms_ok (s, P) \<Longrightarrow> c \<in> set P \<Longrightarrow> is_switching c \<Longrightarrow> sd_room s = None"
  unfolding rooms_ok_def switching_def by (auto simp: filter_empty_conv)

lemma start_op_frame:
  "start_op now op s = (s', cs, e) \<Longrightarrow>
     sd_room s' = sd_room s \<and> sd_rooms s' = sd_rooms s \<and> sd_next_room s' = sd_next_room s \<and> switching cs = []"
  by (auto simp: start_op_def get_fresh_auth_session_def continue_op_def fail_op_def
      split: option.splits if_splits embed_op.splits)

lemma session_frames:
  "store_login_response rt response src s = (r, s') \<Longrightarrow>
     sd_room s' = sd_room s \<and> sd_rooms s' = sd_rooms s \<and> sd_next_room s' = sd_next_room s"
  "sign_in_with_miniapp_done result s = (r2, s') \<Longrightarrow>
     sd_room s' = sd_room s \<and> sd_rooms s' = sd_rooms s \<and> sd_next_room s' = sd_next_room s"
  "adopt_partner_session rt now token s = (r3, s') \<Longrightarrow>
     sd_room s' = sd_room s \<and> sd_rooms s' = sd_rooms s \<and> sd_next_room s' = sd_next_room s"
  by (auto simp: store_login_response_def sign_in_with_miniapp_done_def adopt_partner_session_def Let_def
      split: option.splits sum.splits if_splits)

lemma session_done_frame:
  "session_done op (r, s) = (s', cs, e) \<Longrightarrow> s' = s \<and> switching cs = []"
  by (auto simp: session_done_def continue_op_def fail_op_def split: sum.splits embed_op.splits option.splits if_splits)

lemma renew_frames:
  "refresh_session_done rt src r s = (q, s') \<Longrightarrow>
     sd_room s' = sd_room s \<and> sd_rooms s' = sd_rooms s \<and> sd_next_room s' = sd_next_room s"
  "renew_miniapp_done result s = (q, s') \<Longrightarrow>
     sd_room s' = sd_room s \<and> sd_rooms s' = sd_rooms s \<and> sd_next_room s' = sd_next_room s"
  using session_frames
  by (auto simp: refresh_session_done_def renew_miniapp_done_def split: sum.splits prod.splits option.splits; metis)+

text \<open>Everything but the rooms may change, and calls that switch nothing may come and go.\<close>

lemma rooms_ok_frame:
  assumes "rooms_ok (s, P)" "sd_room s' = sd_room s" "sd_rooms s' = sd_rooms s" "sd_next_room s' = sd_next_room s"
    and "switching Q = switching P" "\<And>r k. Ec_disconnect r k \<in> set P \<Longrightarrow> Ec_disconnect r k \<in> set Q"
  shows "rooms_ok (s', Q)"
  using assms by (fastforce simp: rooms_ok_def live_room_def)

lemma rooms_ok_switch_done:
  assumes ok: "rooms_ok (s, P)" and c: "c \<in> set P" "is_switching c"
    and s1: "sd_room s1 = None" "sd_next_room s1 = sd_next_room s"
    and l: "\<And>r. live_room s1 r \<Longrightarrow> live_room s r \<and> (\<forall>k. Ec_disconnect r k \<noteq> c)"
    and a: "after_disconnect now cont s1 = (s', cs, e)"
  shows "rooms_ok (s', remove1 c P @ cs)"
proof -
  have none: "switching (remove1 c P) = []" using one_switch ok c by (auto simp: rooms_ok_def)
  then have rest: "Ec_disconnect r k \<notin> set (remove1 c P)" for r k
    by (metis filter_empty_conv is_switching_simps(2) switching_def)
  have dead: "\<not> live_room s1 r" for r
  proof
    assume r: "live_room s1 r"
    have "sd_room s = None" using ok c by (auto simp: rooms_ok_def switching_def filter_empty_conv)
    then obtain k where "Ec_disconnect r k \<in> set P" using ok l[OF r] by (auto simp: rooms_ok_def)
    then show False using l[OF r] rest[of r k] by (metis in_set_remove1)
  qed
  show ?thesis
  proof (cases cont)
    case (After_connect join)
    then have s': "s' = s1\<lparr>sd_room := Some (sd_next_room s1), sd_join := Some join, sd_space := Some (jr_room_id join),
        sd_next_room := sd_next_room s1 + 1, sd_rooms := (sd_rooms s1)(sd_next_room s1 \<mapsto> Rm_connecting)\<rparr>"
      "cs = [Ec_connect (sd_next_room s1) join]"
      using a by (auto simp: after_disconnect_def Let_def)
    have "live_room s' r \<Longrightarrow> r = sd_next_room s1" for r
      using dead[of r] by (auto simp: s' live_room_def split: if_splits)
    then show ?thesis using none by (auto simp: rooms_ok_def s')
  next
    case (After_leave i)
    then have f: "sd_rooms s' = sd_rooms s1" "switching cs = []"
      using a by (auto simp: after_disconnect_def Let_def split: option.splits if_splits dest!: start_op_frame)
    then have "\<not> live_room s' r" for r using dead[of r] by (simp add: live_room_def)
    then show ?thesis using none f by (auto simp: rooms_ok_def)
  qed
qed

lemma on_disconnected_facts:
  "live_room (on_disconnected r s) q \<longleftrightarrow> live_room s q \<and> q \<noteq> r"
  "sd_next_room (on_disconnected r s) = sd_next_room s"
  "sd_room s = None \<Longrightarrow> sd_room (on_disconnected r s) = None"
  by (auto simp: on_disconnected_def live_room_def)

lemma switch_start:
  assumes "disconnect_audio k s = (s', cs, e)" "rooms_ok (s, P)" "switching P = []"
  shows "rooms_ok (s', P @ cs)"
  using assms by (fastforce simp: disconnect_audio_def rooms_ok_def live_room_def split: option.splits)

lemma rooms_ok_dropped:
  assumes ok: "rooms_ok (s, P)" and r: "sd_rooms s r \<noteq> None"
  shows "rooms_ok (on_disconnected r s, P)"
proof (cases "sd_rooms s r = Some Rm_closed")
  case True
  then show ?thesis using ok by (simp add: on_disconnected_def)
next
  case False
  then have live: "live_room s r" using r by (cases "sd_rooms s r"; cases "the (sd_rooms s r)") (auto simp: live_room_def)
  have "\<exists>k. Ec_disconnect q k \<in> set P" if "live_room s q" "q \<noteq> r" for q
  proof (cases "sd_room s = None")
    case True
    then show ?thesis using ok that by (auto simp: rooms_ok_def)
  next
    case act: False
    then have "switching P = []" using ok by (auto simp: rooms_ok_def)
    then have "Ec_disconnect x k \<notin> set P" for x k
      by (metis filter_empty_conv is_switching_simps(2) switching_def)
    then have "\<And>x. live_room s x \<Longrightarrow> sd_room s = Some x" using ok by (auto simp: rooms_ok_def)
    from this[OF that(1)] this[OF live] show ?thesis using that(2) by simp
  qed
  moreover have "sd_room (on_disconnected r s) = None" using False by (simp add: on_disconnected_def)
  ultimately show ?thesis using ok on_disconnected_facts[where r = r and s = s] by (auto simp: rooms_ok_def)
qed

lemma rooms_ok_connected:
  assumes ok: "rooms_ok (s, P)" and c: "Ec_connect r join \<in> set P"
  shows "rooms_ok (embed_connect_done r ok' s, remove1 (Ec_connect r join) P)"
proof -
  have l: "live_room (embed_connect_done r ok' s) q \<Longrightarrow> live_room s q" for q
    by (auto simp: embed_connect_done_def live_room_def split: if_splits)
  have f: "sd_room (embed_connect_done r ok' s) = sd_room s" "sd_next_room (embed_connect_done r ok' s) = sd_next_room s"
    by (simp_all add: embed_connect_done_def)
  have d: "Ec_disconnect q k \<in> set P \<Longrightarrow> Ec_disconnect q k \<in> set (remove1 (Ec_connect r join) P)" for q k
    by (simp add: in_set_remove1)
  show ?thesis using ok l f d by (auto simp: rooms_ok_def switching_remove1)
qed

lemma embed_step_rooms: "embed_step True rt x y \<Longrightarrow> rooms_ok x \<Longrightarrow> rooms_ok y"
proof (induction rule: embed_step.induct)
  case (es_op now op s s' cs e P)
  then show ?case using start_op_frame[OF es_op(1)] by (intro rooms_ok_frame[OF es_op(2)]) auto
next
  case (es_leave P i s s' cs e)
  then show ?case using switch_start switching_empty by (auto simp: embed_leave_space_def)
next
  case (es_connect P rtc join s s' cs e)
  then show ?case using switch_start switching_empty by (auto simp: connect_audio_def split: if_splits)
next
  case (es_partner now token s r s' P)
  show ?case using session_frames(3)[OF es_partner(1)] by (intro rooms_ok_frame[OF es_partner(2)]) auto
next
  case (es_login response src s r s' P)
  show ?case using session_frames(1)[OF es_login(1)] by (intro rooms_ok_frame[OF es_login(3)]) auto
next
  case (es_miniapp result s r s' P)
  show ?case using session_frames(2)[OF es_miniapp(1)] by (intro rooms_ok_frame[OF es_miniapp(2)]) auto
next
  case (es_refreshed jwt token src op P r s s' cs e)
  obtain q s1 where q: "refresh_session_done rt src r s = (q, s1)" by fastforce
  show ?case using session_done_frame[OF es_refreshed(2)[unfolded q]] renew_frames(1)[OF q]
    by (intro rooms_ok_frame[OF es_refreshed(3)]) (auto simp: switching_remove1 in_set_remove1)
next
  case (es_renewed op P result s s' cs e)
  obtain q s1 where q: "renew_miniapp_done result s = (q, s1)" by fastforce
  show ?case using session_done_frame[OF es_renewed(2)[unfolded q]] renew_frames(2)[OF q]
    by (intro rooms_ok_frame[OF es_renewed(3)]) (auto simp: switching_remove1 in_set_remove1)
next
  case (es_request jwt op P r s s' cs e)
  then have "sd_room s' = sd_room s" "sd_rooms s' = sd_rooms s" "sd_next_room s' = sd_next_room s" "cs = []"
    by (auto simp: request_done_def split: embed_op.splits sum.splits)
  then show ?case
    by (intro rooms_ok_frame[OF es_request(3)]) (auto simp: switching_remove1 in_set_remove1)
next
  case (es_resume cont P now s s' cs e)
  have "sd_room s = None" using switch_no_room[OF es_resume(3,1)] by simp
  then show ?case using rooms_ok_switch_done[OF es_resume(3,1) _ _ _ _ es_resume(2)] by simp
next
  case (es_disconnected r cont P now s s' cs e)
  have n: "sd_room s = None" using switch_no_room[OF es_disconnected(3,1)] by simp
  show ?case
    using n on_disconnected_facts[where r = r and s = s]
    by (intro rooms_ok_switch_done[OF es_disconnected(3,1) _ _ _ _ es_disconnected(2)]) auto
qed (auto intro: rooms_ok_connected rooms_ok_dropped)

lemma embed_reachable_rooms: "embed_reachable True rt x \<Longrightarrow> rooms_ok x"
proof (induction rule: embed_reachable.induct)
  case embed_init
  show ?case by (simp add: rooms_ok_def create_juke_embed_sdk_def live_room_def)
qed (rule embed_step_rooms)

subsection \<open>Properties\<close>

text \<open>
  C16. The refresh endpoint is only ever called with a real refresh token of a session that can be
  renewed that way: whatever sign-ins, expiries, renewals and concurrent calls happen, a refresh in
  flight carries a non-empty token and comes from a web sign-in, never from a partner's or a Mini App's
  session.
\<close>

theorem refresh_only_renewable:
  assumes "embed_reachable b rt (s, P)" and "Ec_refresh jwt token src op \<in> set P"
  shows "token \<noteq> [] \<and> (src = Src_protocol \<or> src = Src_siwf)"
  using embed_reachable_auth[OF assms(1)] assms(2)
  by (auto simp: sdk_auth_ok_def list_all_iff renewable_def)

text \<open>
  One audio room at a time: as long as the page does not start a connect or leave while another still
  waits for its disconnect, there is never more than one room that is connecting or connected, and it
  is the one the SDK holds unless its disconnect is under way.
\<close>

theorem one_embed_room:
  assumes "embed_reachable True rt (s, P)" and "live_room s r" and "live_room s q"
  shows "r = q \<and> (sd_room s = Some r \<or> (\<exists>k. Ec_disconnect r k \<in> set P))"
proof -
  have ok: "rooms_ok (s, P)" using embed_reachable_rooms[OF assms(1)] .
  have none: "sd_room s = None" if "Ec_disconnect x k \<in> set P" for x k
    using switch_no_room[OF ok that] by simp
  have "r = q" if "Ec_disconnect r k \<in> set P" "Ec_disconnect q l \<in> set P" for k l
  proof -
    have "Ec_disconnect r k \<in> set (switching P)" "Ec_disconnect q l \<in> set (switching P)"
      using that by (simp_all add: switching_def)
    moreover have "length (switching P) \<le> 1" using ok by (simp add: rooms_ok_def)
    ultimately show ?thesis by (cases "switching P") auto
  qed
  then show ?thesis using ok assms(2,3) none unfolding rooms_ok_def by (simp, metis option.distinct(1) option.inject)
qed

subsection \<open>Partner tokens\<close>

text \<open>A JWT's middle part: unpadded base64 in the URL alphabet.\<close>

definition url_char :: "char \<Rightarrow> char" where
  "url_char c = (if c = CHR ''+'' then CHR ''-'' else if c = CHR ''/'' then CHR ''_'' else c)"

definition jwt_part :: "jstr \<Rightarrow> jstr" where
  "jwt_part json = map (\<lambda>n. url_char (b64_char n)) (b64_sextets json)"

definition make_jwt :: "jstr \<Rightarrow> jstr \<Rightarrow> jstr \<Rightarrow> jstr" where
  "make_jwt header json signature = header @ ''.'' @ jwt_part json @ ''.'' @ signature"

lemma url_char_facts:
  assumes "n < 64"
  shows "base64_unurl (url_char (b64_char n)) = b64_char n" "url_char (b64_char n) \<noteq> CHR ''.''"
  using b64_char_range[OF assms] by (auto simp: base64_unurl_def url_char_def)

lemma unurl_part: "map base64_unurl (jwt_part json) = map b64_char (b64_sextets json)"
  using url_char_facts(1) b64_sextets_bound by (auto simp: jwt_part_def)

lemma part_no_dot: "CHR ''.'' \<notin> set (jwt_part json)"
  using url_char_facts(2) b64_sextets_bound by (fastforce simp: jwt_part_def)

lemma atob_unpadded: "js_atob (map b64_char (b64_sextets bs)) = Some bs"
proof -
  let ?t = "map b64_char (b64_sextets bs)"
  have f: "filter (\<lambda>c. \<not> b64_white c) ?t = ?t"
    using b64_no_white b64_sextets_bound by (auto simp: filter_id_conv)
  have "?t \<noteq> [] \<Longrightarrow> last ?t \<noteq> CHR ''=''" using b64_chars_no_pad last_in_set by metis
  then have "b64_unpad ?t = ?t" by (auto simp: b64_unpad_def)
  then show ?thesis
    using b64_sextets_length[of bs] b64_values[of bs] unfolding js_atob_def Let_def f
    by (simp add: b64_bytes_sextets)
qed

lemma jwt_split:
  assumes "CHR ''.'' \<notin> set header" "CHR ''.'' \<notin> set signature"
  shows "js_split (CHR ''.'') (make_jwt header json signature) = [header, jwt_part json, signature]"
  using assms part_no_dot by (simp add: make_jwt_def js_split_append js_split_no_sep)

text \<open>
  C36. A partner's token arrives as it was minted: for every header, claims and signature within the size
  limit, \<^verbatim>\<open>adoptPartnerSession\<close> decodes the base64url payload back to the claims, and the session it
  stores has the claims' FID and expiry, the token itself as bearer and no refresh token; with more than
  a minute left, every authenticated call uses it as it is.
\<close>

theorem partner_token_round_trip:
  assumes "rt_json_parse rt json = Some (V_obj claims)" and "json \<noteq> []"
    and "js_prop claims ''fid'' = V_num fid" and "js_prop claims ''exp'' = V_num (num_int e)"
    and "0 \<le> e" and "e * 1000 \<le> max_time" and "now + SESSION_REFRESH_MARGIN_MS < e * 1000"
    and "CHR ''.'' \<notin> set header" and "CHR ''.'' \<notin> set signature"
    and "length (make_jwt header json signature) \<le> PARTNER_TOKEN_MAX_LENGTH"
  shows "\<exists>session. adopt_partner_session rt now (make_jwt header json signature) s =
      (Inr session, s\<lparr>sd_auth := Some session\<rparr>) \<and>
    es_jwt session = make_jwt header json signature \<and> es_fid session = fid \<and>
    es_expires session = Some (e * 1000) \<and> es_refresh_token session = [] \<and>
    get_fresh_auth_session now (s\<lparr>sd_auth := Some session\<rparr>) = (Fresh session, s\<lparr>sd_auth := Some session\<rparr>)"
proof -
  have ne: "jwt_part json \<noteq> []"
    using assms(2) by (cases json rule: b64_sextets.cases) (auto simp: jwt_part_def)
  have "rat_of_int now / 1000 < rat_of_int e"
  proof -
    have "rat_of_int now < rat_of_int (e * 1000)"
      using assms(7) by (simp only: of_int_less_iff SESSION_REFRESH_MARGIN_MS_def)
    then show ?thesis by simp
  qed
  then have d: "decode_partner_jwt_claims rt now (make_jwt header json signature) = Inr (fid, num_int e)"
    using assms ne by (simp add: decode_partner_jwt_claims_def jwt_split unurl_part atob_unpadded)
  have "num_scale 1000 (num_int e) = num_int (e * 1000)" by simp
  then have t: "to_iso (num_scale 1000 (num_int e)) = Inr (e * 1000)"
    using assms(5,6) date_of_int[of "e * 1000"] by (simp add: to_iso_def del: date_of.simps num_scale.simps)
  let ?x = "\<lparr>es_jwt = make_jwt header json signature, es_refresh_token = [], es_expires = Some (e * 1000),
     es_fid = fid, es_source = Src_partner\<rparr>"
  have "adopt_partner_session rt now (make_jwt header json signature) s = (Inr ?x, s\<lparr>sd_auth := Some ?x\<rparr>)"
    using t by (simp add: adopt_partner_session_def d Let_def del: num_scale.simps)
  moreover have "get_fresh_auth_session now (s\<lparr>sd_auth := Some ?x\<rparr>) = (Fresh ?x, s\<lparr>sd_auth := Some ?x\<rparr>)"
    using assms(7) by (simp add: get_fresh_auth_session_def)
  ultimately show ?thesis by (intro exI[of _ ?x]) simp
qed

subsection \<open>Where the SDK falls short\<close>

text \<open>
  A Mini App session that cannot be renewed just now is forgotten before the attempt: after a network
  failure the visitor is signed out, and the next call no longer says why.
\<close>

lemma failed_renewal_signs_out:
  assumes "sd_auth s = Some x" "es_source x = Src_miniapp"
    and "es_expires x = Some t" "t \<le> now + SESSION_REFRESH_MARGIN_MS"
    and "start_op now (Op_join i) s = (s1, cs, e)" and "cs = [Ec_miniapp (Op_join i)]"
    and "session_done (Op_join i) (renew_miniapp_done (Inl Network) s1) = (s2, cs2, e2)"
  shows "sd_auth s2 = None" "e2 = Some (Auth_error (MINIAPP_AUTH_ERROR_MESSAGES Network) (Some Network))"
    "start_op now (Op_join i) s2 = (s2, [], Some (Auth_error ''Sign in to participate'' None))"
  using assms
  by (auto simp: start_op_def get_fresh_auth_session_def session_done_def renew_miniapp_done_def
      sign_in_with_miniapp_done_def fail_op_def)

text \<open>
  Nothing makes concurrent refreshes one: two calls on an expired session send the same refresh token
  twice, and the backend rotates a token when it is used.
\<close>

lemma refresh_token_sent_twice:
  assumes "sd_auth s = Some x" "es_source x = Src_protocol" "es_refresh_token x \<noteq> []" "es_expires x = None"
    and "start_op now (Op_token None) s = (s1, cs1, e1)" "start_op now (Op_raise i up) s1 = (s2, cs2, e2)"
  shows "cs1 = [Ec_refresh (es_jwt x) (es_refresh_token x) Src_protocol (Op_token None)]"
    "cs2 = [Ec_refresh (es_jwt x) (es_refresh_token x) Src_protocol (Op_raise i up)]"
  using assms by (auto simp: start_op_def get_fresh_auth_session_def)

text \<open>
  Two connects that overlap leak a room: both pass their disconnect before either has a room, the
  second room replaces the first, and nothing disconnects the first any more.
\<close>

lemma overlapping_connects_leak:
  assumes "sd_room s = None"
    and "connect_audio True j s = (s1, cs1, e1)" "connect_audio True j s1 = (s2, cs2, e2)"
    and "after_disconnect now (After_connect j) s2 = (s3, cs3, e3)"
    and "after_disconnect now (After_connect j) s3 = (s4, cs4, e4)"
  shows "cs1 = [Ec_resume (After_connect j)]" "cs2 = [Ec_resume (After_connect j)]"
    "live_room s4 (sd_next_room s)" "live_room s4 (sd_next_room s + 1)" "sd_room s4 = Some (sd_next_room s + 1)"
  using assms
  by (auto simp: connect_audio_def disconnect_audio_def after_disconnect_def live_room_def Let_def)

subsection \<open>Witnesses\<close>

definition expired_login :: raw_login where
  "expired_login = \<lparr>rl_jwt = ''j'', rl_refresh_token = Some ''r'', rl_expires_at = '''', rl_fid = num_int 7\<rparr>"

definition expired_sdk :: embed_sdk where
  "expired_sdk = snd (adopt_login_response demo_runtime (Some expired_login) create_juke_embed_sdk)"

lemma expired_sdk_reachable:
  "embed_reachable b demo_runtime (expired_sdk, [Ec_refresh ''j'' ''r'' Src_protocol (Op_join ''s'')])"
proof -
  have "embed_reachable b demo_runtime (expired_sdk, [])"
    by (rule embed_next[OF embed_init es_login[where response = "Some expired_login" and src = Src_protocol]])
      (simp_all add: expired_sdk_def adopt_login_response_def prod_eq_iff)
  moreover have "start_op 0 (Op_join ''s'') expired_sdk = (expired_sdk, [Ec_refresh ''j'' ''r'' Src_protocol (Op_join ''s'')], None)"
    by (simp add: start_op_def get_fresh_auth_session_def expired_sdk_def adopt_login_response_def
        store_login_response_def expired_login_def max_safe_integer_def demo_runtime_def Let_def)
  ultimately show ?thesis
    using embed_next[OF _ es_op, of b demo_runtime expired_sdk "[]" 0 "Op_join ''s''"] by fastforce
qed

lemma refresh_only_renewable_witness:
  "\<exists>s P. embed_reachable True demo_runtime (s, P) \<and> map_option es_source (sd_auth s) = Some Src_protocol \<and>
     P = [Ec_refresh ''j'' ''r'' Src_protocol (Op_join ''s'')] \<and>
     list_all (\<lambda>c. case c of Ec_refresh jwt token src op \<Rightarrow> token \<noteq> [] \<and> src \<in> {Src_protocol, Src_siwf} | _ \<Rightarrow> True) P"
proof -
  let ?c = "Ec_refresh ''j'' ''r'' Src_protocol (Op_join ''s'')"
  have "?c \<in> set [?c]" by simp
  from refresh_only_renewable[OF expired_sdk_reachable this]
  have "list_all (\<lambda>c. case c of Ec_refresh jwt token src op \<Rightarrow> token \<noteq> [] \<and> src \<in> {Src_protocol, Src_siwf} | _ \<Rightarrow> True)
      [?c]" by simp
  moreover have "map_option es_source (sd_auth expired_sdk) = Some Src_protocol"
    by code_simp
  ultimately show ?thesis using expired_sdk_reachable by fastforce
qed

definition a_join :: join_response where
  "a_join = \<lparr>jr_room_id = ''s'', jr_role = ''host''\<rparr>"

definition joined_sdk :: embed_sdk where
  "joined_sdk = fst (after_disconnect 0 (After_connect a_join) create_juke_embed_sdk)"

lemma one_embed_room_witness:
  "live_room joined_sdk 0 \<and> sd_room joined_sdk = Some 0 \<and> enable_microphone joined_sdk \<noteq> Inr 0"
proof -
  have "embed_reachable True demo_runtime (create_juke_embed_sdk, [] @ [Ec_resume (After_connect a_join)])"
    by (rule embed_next[OF embed_init es_connect[where rtc = True and join = a_join and e = None]])
      (simp_all add: connect_audio_def disconnect_audio_def create_juke_embed_sdk_def)
  then have r: "embed_reachable True demo_runtime (joined_sdk,
      remove1 (Ec_resume (After_connect a_join)) ([] @ [Ec_resume (After_connect a_join)]) @ [Ec_connect 0 a_join])"
    by (rule embed_next[OF _ es_resume[where now = 0 and e = None]])
      (simp_all add: joined_sdk_def after_disconnect_def create_juke_embed_sdk_def Let_def)
  have l: "live_room joined_sdk 0"
    by (simp add: live_room_def joined_sdk_def after_disconnect_def create_juke_embed_sdk_def Let_def)
  have "enable_microphone joined_sdk \<noteq> Inr 0"
    by (simp add: enable_microphone_def joined_sdk_def after_disconnect_def create_juke_embed_sdk_def Let_def)
  then show ?thesis using one_embed_room[OF r l l] l by simp
qed

definition partner_runtime :: js_runtime where
  "partner_runtime = \<lparr>rt_date_parse = (\<lambda>s. None),
     rt_json_parse = (\<lambda>s. Some (V_obj [(''fid'', V_num (num_int 5)), (''exp'', V_num (num_int 1000))]))\<rparr>"

lemma partner_token_round_trip_witness:
  "\<exists>session. adopt_partner_session partner_runtime 0 (make_jwt ''h'' ''{}'' ''s'') create_juke_embed_sdk =
      (Inr session, create_juke_embed_sdk\<lparr>sd_auth := Some session\<rparr>) \<and> es_fid session = num_int 5"
proof -
  have p: "rt_json_parse partner_runtime ''{}'' =
      Some (V_obj [(''fid'', V_num (num_int 5)), (''exp'', V_num (num_int 1000))])"
    by (simp add: partner_runtime_def)
  have l: "length (make_jwt ''h'' ''{}'' ''s'') \<le> PARTNER_TOKEN_MAX_LENGTH" by code_simp
  show ?thesis
    using partner_token_round_trip[OF p, of "num_int 5" 1000 0 "''h''" "''s''" create_juke_embed_sdk] l
    by (auto simp: js_prop_def max_time_def SESSION_REFRESH_MARGIN_MS_def)
qed

end
