(* ===== verification/Mobile_Store.thy ===== *)
theory Mobile_Store
  imports Message_List
begin

section \<open>The message store of the mobile app\<close>

text \<open>
  \<^verbatim>\<open>farcaster-audio/stores/messageStore.ts\<close> (over the wire types of \<^verbatim>\<open>farcaster-audio/types/messages.ts\<close>,
  which are those of the web app). A window of messages is kept newest first, without duplicate ids,
  with a cursor for each side that can still be paged. \<^verbatim>\<open>undefined\<close> and \<^verbatim>\<open>null\<close> of
  \<^verbatim>\<open>peer_last_read_at\<close> are both \<open>None\<close>. An action that reads the clock takes the reading.
\<close>

subsection \<open>State\<close>

datatype mb_segment = Seg_default | Seg_request

datatype mb_availability = Mav_unknown | Mav_available | Mav_unavailable

datatype messages_error_code =
  E_unavailable | E_not_found | E_invalid_recipient | E_token_missing | E_token_expired
  | E_token_rejected | E_rate_limited | E_upstream_rejected | E_invalid_cursor | E_unauthorized
  | E_upstream_error | E_network | E_unknown

datatype realtime_status = Rt_connected | Rt_reconnecting | Rt_disconnected

datatype inbox_page_mode = Inbox_replace | Inbox_merge | Inbox_append

datatype thread_page_mode = Page_replace | Page_older | Page_newer | Page_anchor

record inbox_slice =
  sl_ids :: "jstr list"
  sl_cursor :: "jstr option"
  sl_has_more :: bool
  sl_loaded_at :: "int option"

record mb_thread =
  w_messages :: "message list"
  w_older_cursor :: "jstr option"
  w_has_older :: bool
  w_newer_cursor :: "jstr option"
  w_has_newer :: bool
  w_is_detached :: bool
  w_is_loaded :: bool
  w_synced_at :: "int option"

record mb_store =
  mb_availability :: mb_availability
  mb_access_error :: "messages_error_code option"
  mb_realtime_status :: realtime_status
  mb_conversations :: "(jstr, conversation) jsmap"
  mb_inbox :: "mb_segment \<Rightarrow> inbox_slice"
  mb_requests_count :: int
  mb_has_unread_requests :: bool
  mb_unread_total :: int
  mb_threads :: "jstr \<rightharpoonup> mb_thread"
  mb_reply_targets :: "jstr \<rightharpoonup> message option"
  mb_draft_aliases :: "jstr \<rightharpoonup> jstr"
  mb_search_seeds :: "jstr \<rightharpoonup> message_search_hit"
  mb_scroll_offsets :: "jstr \<rightharpoonup> int"

definition EMPTY_SLICE :: inbox_slice where
  "EMPTY_SLICE = \<lparr>sl_ids = [], sl_cursor = None, sl_has_more = True, sl_loaded_at = None\<rparr>"

definition EMPTY_THREAD :: mb_thread where
  "EMPTY_THREAD = \<lparr>w_messages = [], w_older_cursor = None, w_has_older = False, w_newer_cursor = None,
     w_has_newer = False, w_is_detached = False, w_is_loaded = False, w_synced_at = None\<rparr>"

definition LOCAL_THREAD :: mb_thread where
  "LOCAL_THREAD = EMPTY_THREAD\<lparr>w_is_loaded := True\<rparr>"

definition INITIAL_STATE :: mb_store where
  "INITIAL_STATE = \<lparr>mb_availability = Mav_unknown, mb_access_error = None,
     mb_realtime_status = Rt_disconnected, mb_conversations = [], mb_inbox = (\<lambda>_. EMPTY_SLICE),
     mb_requests_count = 0, mb_has_unread_requests = False, mb_unread_total = 0,
     mb_threads = Map.empty, mb_reply_targets = Map.empty, mb_draft_aliases = Map.empty,
     mb_search_seeds = Map.empty, mb_scroll_offsets = Map.empty\<rparr>"

subsection \<open>Pure helpers\<close>

text \<open>Unlike a proper comparison this one is never 0; the code only sorts lists without duplicate ids.\<close>

definition compare_newest_first :: "message \<Rightarrow> message \<Rightarrow> int" where
  "compare_newest_first a b =
     (if sent_at a \<noteq> sent_at b then sent_at b - sent_at a
      else if message_id a < message_id b then 1 else -1)"

definition to_server_copy :: "message \<Rightarrow> message" where
  "to_server_copy m = m\<lparr>send_state := None\<rparr>"

definition merge_by_id :: "message list \<Rightarrow> message list \<Rightarrow> message list" where
  "merge_by_id existing incoming =
     (let byId = fold (\<lambda>m. jm_set (message_id m) m) incoming (fold (\<lambda>m. jm_set (message_id m) m) existing [])
      in js_sort compare_newest_first (jm_values byId))"

definition replace_message :: "message list \<Rightarrow> message \<Rightarrow> message list" where
  "replace_message ms m =
     (let without = filter (\<lambda>x. message_id x \<noteq> message_id m) ms
      in js_sort compare_newest_first (m # without))"

definition map_message :: "message list \<Rightarrow> jstr \<Rightarrow> (message \<Rightarrow> message) \<Rightarrow> message list" where
  "map_message ms mid update = map (\<lambda>m. if message_id m = mid then update m else m) ms"

definition is_conversation_unread :: "conversation \<Rightarrow> bool" where
  "is_conversation_unread c \<longleftrightarrow> unread_count c > 0 \<or> manually_marked_unread c"

definition mb_merge_messages :: "message list \<Rightarrow> message list \<Rightarrow> message list" where
  "mb_merge_messages existing incoming = merge_by_id existing (map to_server_copy incoming)"

definition cursor_fields :: "jstr option \<Rightarrow> jstr option \<Rightarrow> mb_thread \<Rightarrow> mb_thread" where
  "cursor_fields olderCursor newerCursor w =
     w\<lparr>w_older_cursor := olderCursor, w_has_older := olderCursor \<noteq> None, w_newer_cursor := newerCursor,
       w_has_newer := newerCursor \<noteq> None, w_is_detached := newerCursor \<noteq> None\<rparr>"

text \<open>\<^verbatim>\<open>page.next_newer_cursor ?? null\<close>.\<close>

definition newer_of :: "messages_page \<Rightarrow> jstr option" where
  "newer_of page = (case mp_next_newer_cursor page of Some c \<Rightarrow> c | None \<Rightarrow> None)"

definition apply_anchor_page :: "int \<Rightarrow> mb_thread \<Rightarrow> messages_page \<Rightarrow> mb_thread" where
  "apply_anchor_page now current page =
     (let loadedIds = set (map message_id (w_messages current));
          overlaps = (w_is_loaded current \<and> list_ex (\<lambda>m. message_id m \<in> loadedIds) (mp_items page))
      in if \<not> overlaps then
           (let newerCursor = newer_of page
            in cursor_fields (mp_next_cursor page) newerCursor
                 (EMPTY_THREAD\<lparr>w_messages := mb_merge_messages [] (mp_items page), w_is_loaded := True,
                    w_synced_at := (if newerCursor = None then Some now else None)\<rparr>))
         else
           (let pageSorted = mb_merge_messages [] (mp_items page);
                reachesOlder = compare_newest_first (last pageSorted) (last (w_messages current)) > 0;
                reachesNewer = compare_newest_first (hd pageSorted) (hd (w_messages current)) < 0;
                olderCursor = (if reachesOlder then mp_next_cursor page else w_older_cursor current);
                newerCursor = (if reachesNewer \<and> w_has_newer current then newer_of page
                               else w_newer_cursor current)
            in cursor_fields olderCursor newerCursor
                 (current\<lparr>w_messages := mb_merge_messages (w_messages current) (mp_items page)\<rparr>)))"

definition search_hit_to_page :: "message_search_hit \<Rightarrow> messages_page" where
  "search_hit_to_page hit =
     \<lparr>mp_items = hit_after hit @ hit_message hit # hit_before hit,
      mp_next_cursor = (case hit_thread_cursor hit of Some c \<Rightarrow> c | None \<Rightarrow> None),
      mp_next_newer_cursor = Some (case hit_thread_newer_cursor hit of Some c \<Rightarrow> c | None \<Rightarrow> None)\<rparr>"

definition can_seed_from_hit :: "message_search_hit \<Rightarrow> bool" where
  "can_seed_from_hit hit \<longleftrightarrow> hit_thread_cursor hit \<noteq> None \<or> hit_thread_newer_cursor hit \<noteq> None"

definition is_placeholder_quote :: "message_quote option \<Rightarrow> bool" where
  "is_placeholder_quote q \<longleftrightarrow> (case q of None \<Rightarrow> False | Some x \<Rightarrow> u_fid (q_sender x) = 0)"

definition mb_merge_send_echo :: "message option \<Rightarrow> message \<Rightarrow> message" where
  "mb_merge_send_echo optimistic echo =
     (let serverCopy = to_server_copy echo
      in case optimistic of
           None \<Rightarrow> serverCopy
         | Some local \<Rightarrow>
             (let echoQuote = (if is_placeholder_quote (in_reply_to serverCopy) then None
                               else in_reply_to serverCopy)
              in serverCopy\<lparr>in_reply_to := (case echoQuote of Some q \<Rightarrow> Some q
                    | None \<Rightarrow> (case in_reply_to local of Some q \<Rightarrow> Some q | None \<Rightarrow> in_reply_to serverCopy)),
                  metadata := (case metadata serverCopy of Some d \<Rightarrow> Some d | None \<Rightarrow> metadata local)\<rparr>))"

definition update_thread_messages ::
  "jstr \<Rightarrow> (message list \<Rightarrow> message list) \<Rightarrow> mb_store \<Rightarrow> mb_store" where
  "update_thread_messages threadKey update s =
     (case mb_threads s threadKey of
        None \<Rightarrow> s
      | Some current \<Rightarrow>
          s\<lparr>mb_threads := (mb_threads s)(threadKey \<mapsto> current\<lparr>w_messages := update (w_messages current)\<rparr>)\<rparr>)"

text \<open>One turn of the loop of \<^verbatim>\<open>computeUnreadTotal\<close>, and the loop.\<close>

definition unread_of :: "conversation option \<Rightarrow> int" where
  "unread_of conversation =
     (case conversation of
        None \<Rightarrow> 0
      | Some c \<Rightarrow> if muted c then 0
                  else if unread_count c > 0 then unread_count c
                  else if manually_marked_unread c then 1 else 0)"

definition mb_compute_unread_total :: "jstr list \<Rightarrow> (jstr, conversation) jsmap \<Rightarrow> int" where
  "mb_compute_unread_total ids cs = fold (\<lambda>i total. total + unread_of (jm_get cs i)) ids 0"

definition toggle_reaction_summary ::
  "reaction_summary list \<Rightarrow> jstr \<Rightarrow> bool \<Rightarrow> reaction_summary list" where
  "toggle_reaction_summary rs reaction add =
     (case js_find_index (\<lambda>r. r_reaction r = reaction) rs of
        None \<Rightarrow> if \<not> add then rs
                else rs @ [\<lparr>r_reaction = reaction, r_count = 1, r_viewer_reacted = True\<rparr>]
      | Some index \<Rightarrow>
          (let current = rs ! index
           in if r_viewer_reacted current = add then rs
              else let count = max 0 (r_count current + (if add then 1 else -1))
                   in if count = 0 then take index rs @ drop (Suc index) rs
                      else rs[index := current\<lparr>r_count := count, r_viewer_reacted := add\<rparr>]))"

text \<open>\<^verbatim>\<open>Array.from(new Set(ids))\<close>: the first occurrence of each id.\<close>

definition unique_ids :: "jstr list \<Rightarrow> jstr list" where
  "unique_ids ids = rev (remdups (rev ids))"

definition mb_apply_inbox_page ::
  "inbox_slice \<Rightarrow> inbox_response \<Rightarrow> inbox_page_mode \<Rightarrow> int \<Rightarrow> inbox_slice" where
  "mb_apply_inbox_page current response mode now =
     (let pageIds = map conversation_id (ir_items response);
          fromPage = \<lparr>sl_ids = [], sl_cursor = ir_next_cursor response,
            sl_has_more = ir_next_cursor response \<noteq> None, sl_loaded_at = Some now\<rparr>
      in if mode = Inbox_append then fromPage\<lparr>sl_ids := unique_ids (sl_ids current @ pageIds)\<rparr>
         else let isWholeInbox = (ir_next_cursor response = None);
                  hasTail = (sl_loaded_at current \<noteq> None \<and> sl_ids current \<noteq> [])
              in if mode = Inbox_replace \<or> isWholeInbox \<or> \<not> hasTail
                 then fromPage\<lparr>sl_ids := unique_ids pageIds\<rparr>
                 else let tail = filter (\<lambda>i. i \<notin> set pageIds) (sl_ids current)
                      in \<lparr>sl_ids = unique_ids (pageIds @ tail), sl_cursor = sl_cursor current,
                          sl_has_more = sl_has_more current, sl_loaded_at = Some now\<rparr>)"

definition inbox_unread_total :: "(mb_segment \<Rightarrow> inbox_slice) \<Rightarrow> (jstr, conversation) jsmap \<Rightarrow> int" where
  "inbox_unread_total inbox cs = mb_compute_unread_total (sl_ids (inbox Seg_default)) cs"

subsection \<open>Actions\<close>

definition mb_set_availability :: "mb_availability \<Rightarrow> mb_store \<Rightarrow> mb_store" where
  "mb_set_availability a s = s\<lparr>mb_availability := a\<rparr>"

definition set_access_error :: "messages_error_code option \<Rightarrow> mb_store \<Rightarrow> mb_store" where
  "set_access_error e s = s\<lparr>mb_access_error := e\<rparr>"

definition set_realtime_status :: "realtime_status \<Rightarrow> mb_store \<Rightarrow> mb_store" where
  "set_realtime_status r s = (if mb_realtime_status s = r then s else s\<lparr>mb_realtime_status := r\<rparr>)"

definition set_inbox_page ::
  "int \<Rightarrow> mb_segment \<Rightarrow> inbox_response \<Rightarrow> inbox_page_mode \<Rightarrow> mb_store \<Rightarrow> mb_store" where
  "set_inbox_page now segment response mode s =
     (let cs = fold (\<lambda>c. jm_set (conversation_id c) c) (ir_items response) (mb_conversations s);
          inbox = (mb_inbox s)(segment := mb_apply_inbox_page (mb_inbox s segment) response mode now)
      in s\<lparr>mb_availability := Mav_available, mb_access_error := None, mb_conversations := cs,
           mb_inbox := inbox, mb_requests_count := ir_requests_count response,
           mb_has_unread_requests := ir_has_unread_requests response,
           mb_unread_total := inbox_unread_total inbox cs\<rparr>)"

definition remove_from_inbox :: "mb_segment \<Rightarrow> jstr \<Rightarrow> mb_store \<Rightarrow> mb_store" where
  "remove_from_inbox segment cid s =
     (let slice = mb_inbox s segment
      in if cid \<notin> set (sl_ids slice) then s
         else let inbox = (mb_inbox s)(segment := slice\<lparr>sl_ids := filter (\<lambda>i. i \<noteq> cid) (sl_ids slice)\<rparr>)
              in s\<lparr>mb_inbox := inbox, mb_unread_total := inbox_unread_total inbox (mb_conversations s)\<rparr>)"

definition put_conversation :: "jstr \<Rightarrow> conversation \<Rightarrow> mb_store \<Rightarrow> mb_store" where
  "put_conversation cid c s =
     (let cs = jm_set cid c (mb_conversations s)
      in s\<lparr>mb_conversations := cs, mb_unread_total := inbox_unread_total (mb_inbox s) cs\<rparr>)"

definition upsert_conversation :: "conversation \<Rightarrow> mb_store \<Rightarrow> mb_store" where
  "upsert_conversation c s = put_conversation (conversation_id c) c s"

definition mb_patch_conversation :: "jstr \<Rightarrow> (conversation \<Rightarrow> conversation) \<Rightarrow> mb_store \<Rightarrow> mb_store" where
  "mb_patch_conversation cid patch s =
     (case jm_get (mb_conversations s) cid of
        None \<Rightarrow> s
      | Some current \<Rightarrow> put_conversation cid (patch current) s)"

definition mb_put_thread :: "jstr \<Rightarrow> mb_thread \<Rightarrow> mb_store \<Rightarrow> mb_store" where
  "mb_put_thread cid t s = s\<lparr>mb_threads := (mb_threads s)(cid \<mapsto> t)\<rparr>"

definition thread_or :: "mb_thread \<Rightarrow> jstr \<Rightarrow> mb_store \<Rightarrow> mb_thread" where
  "thread_or dflt cid s = (case mb_threads s cid of Some t \<Rightarrow> t | None \<Rightarrow> dflt)"

definition next_window :: "int \<Rightarrow> thread_page_mode \<Rightarrow> messages_page \<Rightarrow> mb_thread \<Rightarrow> mb_thread" where
  "next_window now mode page current =
     (case mode of
        Page_older \<Rightarrow>
          current\<lparr>w_messages := mb_merge_messages (w_messages current) (mp_items page),
            w_older_cursor := mp_next_cursor page, w_has_older := mp_next_cursor page \<noteq> None\<rparr>
      | Page_newer \<Rightarrow>
          (let newerCursor = newer_of page
           in (cursor_fields (w_older_cursor current) newerCursor
                (current\<lparr>w_messages := mb_merge_messages (w_messages current) (mp_items page)\<rparr>))
                \<lparr>w_synced_at := (if newerCursor = None then Some now else w_synced_at current)\<rparr>)
      | Page_anchor \<Rightarrow> apply_anchor_page now current page
      | Page_replace \<Rightarrow>
          (let pending = filter (\<lambda>m. send_state m \<noteq> None) (w_messages current)
           in cursor_fields (mp_next_cursor page) (newer_of page)
                (EMPTY_THREAD\<lparr>w_messages := mb_merge_messages pending (mp_items page),
                   w_is_loaded := True, w_synced_at := Some now\<rparr>)))"

definition set_thread_page ::
  "int \<Rightarrow> jstr \<Rightarrow> messages_page \<Rightarrow> thread_page_mode \<Rightarrow> mb_store \<Rightarrow> mb_store" where
  "set_thread_page now cid page mode s =
     mb_put_thread cid (next_window now mode page (thread_or EMPTY_THREAD cid s)) s"

definition merge_latest :: "jstr \<Rightarrow> message list \<Rightarrow> mb_store \<Rightarrow> mb_store" where
  "merge_latest cid ms s =
     (case mb_threads s cid of
        None \<Rightarrow> s
      | Some current \<Rightarrow>
          if \<not> w_is_loaded current \<or> w_is_detached current then s
          else update_thread_messages cid (\<lambda>existing. mb_merge_messages existing ms) s)"

definition mark_thread_synced :: "jstr \<Rightarrow> int \<Rightarrow> mb_store \<Rightarrow> mb_store" where
  "mark_thread_synced cid syncedAt s =
     (case mb_threads s cid of
        None \<Rightarrow> s
      | Some current \<Rightarrow>
          if \<not> w_is_loaded current \<or> w_is_detached current then s
          else mb_put_thread cid (current\<lparr>w_synced_at := Some syncedAt\<rparr>) s)"

definition upsert_message :: "jstr \<Rightarrow> message \<Rightarrow> mb_store \<Rightarrow> mb_store" where
  "upsert_message cid m s =
     (let current = thread_or LOCAL_THREAD cid s
      in mb_put_thread cid (current\<lparr>w_messages := replace_message (w_messages current) m\<rparr>) s)"

definition confirm_sent_message :: "jstr \<Rightarrow> message \<Rightarrow> mb_store \<Rightarrow> mb_store" where
  "confirm_sent_message cid echo s =
     (let current = thread_or LOCAL_THREAD cid s;
          optimistic = find (\<lambda>m. message_id m = message_id echo) (w_messages current)
      in mb_put_thread cid
           (current\<lparr>w_messages := replace_message (w_messages current) (mb_merge_send_echo optimistic echo)\<rparr>) s)"

definition mark_send_failed :: "jstr \<Rightarrow> jstr \<Rightarrow> mb_store \<Rightarrow> mb_store" where
  "mark_send_failed cid mid s =
     update_thread_messages cid (\<lambda>ms. map_message ms mid
       (\<lambda>m. if send_state m = Some Sending then m\<lparr>send_state := Some Failed\<rparr> else m)) s"

definition patch_message :: "jstr \<Rightarrow> jstr \<Rightarrow> (message \<Rightarrow> message) \<Rightarrow> mb_store \<Rightarrow> mb_store" where
  "patch_message cid mid patch s = update_thread_messages cid (\<lambda>ms. map_message ms mid patch) s"

definition mb_remove_message :: "jstr \<Rightarrow> jstr \<Rightarrow> mb_store \<Rightarrow> mb_store" where
  "mb_remove_message cid mid s =
     update_thread_messages cid (\<lambda>ms. filter (\<lambda>m. message_id m \<noteq> mid) ms) s"

definition adopt_draft_thread :: "jstr \<Rightarrow> jstr \<Rightarrow> mb_store \<Rightarrow> mb_store" where
  "adopt_draft_thread draftKey cid s =
     (case mb_threads s draftKey of
        None \<Rightarrow> s\<lparr>mb_draft_aliases := (mb_draft_aliases s)(draftKey \<mapsto> cid)\<rparr>
      | Some draft \<Rightarrow>
          (let target = thread_or LOCAL_THREAD cid s;
               moved = map (\<lambda>m. m\<lparr>m_conversation_id := cid\<rparr>) (w_messages draft);
               threads = (without_key draftKey (mb_threads s))
                 (cid \<mapsto> target\<lparr>w_messages := merge_by_id (w_messages target) moved\<rparr>)
           in s\<lparr>mb_threads := threads, mb_reply_targets := without_key draftKey (mb_reply_targets s),
                mb_draft_aliases := (mb_draft_aliases s)(draftKey \<mapsto> cid)\<rparr>))"

definition apply_reaction :: "jstr \<Rightarrow> jstr \<Rightarrow> jstr \<Rightarrow> bool \<Rightarrow> mb_store \<Rightarrow> mb_store" where
  "apply_reaction cid mid reaction add s =
     update_thread_messages cid (\<lambda>ms. map_message ms mid
       (\<lambda>m. m\<lparr>reactions := toggle_reaction_summary (reactions m) reaction add\<rparr>)) s"

definition mark_read_local :: "int \<Rightarrow> jstr \<Rightarrow> mb_store \<Rightarrow> mb_store" where
  "mark_read_local now cid s =
     (case jm_get (mb_conversations s) cid of
        None \<Rightarrow> s
      | Some current \<Rightarrow>
          if \<not> is_conversation_unread current then s
          else put_conversation cid (current\<lparr>unread_count := 0, unread_mentions_count := 0,
                 manually_marked_unread := False, last_read_at := now\<rparr>) s)"

definition apply_peer_read :: "jstr \<Rightarrow> int option \<Rightarrow> mb_store \<Rightarrow> mb_store" where
  "apply_peer_read cid peerLastReadAt s =
     (case jm_get (mb_conversations s) cid of
        None \<Rightarrow> s
      | Some current \<Rightarrow>
          if peer_last_read_at current = peerLastReadAt then s
          else s\<lparr>mb_conversations :=
                  jm_set cid (current\<lparr>peer_last_read_at := peerLastReadAt\<rparr>) (mb_conversations s)\<rparr>)"

definition stash_search_seed :: "message_search_hit \<Rightarrow> mb_store \<Rightarrow> mb_store" where
  "stash_search_seed hit s =
     s\<lparr>mb_search_seeds := (mb_search_seeds s)(message_id (hit_message hit) \<mapsto> hit)\<rparr>"

definition take_search_seed :: "jstr \<Rightarrow> mb_store \<Rightarrow> message_search_hit option \<times> mb_store" where
  "take_search_seed mid s =
     (case mb_search_seeds s mid of
        None \<Rightarrow> (None, s)
      | Some seed \<Rightarrow> (Some seed, s\<lparr>mb_search_seeds := without_key mid (mb_search_seeds s)\<rparr>))"

definition set_scroll_offset :: "jstr \<Rightarrow> int \<Rightarrow> mb_store \<Rightarrow> mb_store" where
  "set_scroll_offset threadKey offset s =
     (if mb_scroll_offsets s threadKey = Some offset then s
      else s\<lparr>mb_scroll_offsets := (mb_scroll_offsets s)(threadKey \<mapsto> offset)\<rparr>)"

definition mb_set_reply_target :: "jstr \<Rightarrow> message option \<Rightarrow> mb_store \<Rightarrow> mb_store" where
  "mb_set_reply_target cid m s = s\<lparr>mb_reply_targets := (mb_reply_targets s)(cid \<mapsto> m)\<rparr>"

definition mb_reset :: "mb_store \<Rightarrow> mb_store" where
  "mb_reset s = INITIAL_STATE"

definition resolve_thread_key :: "mb_store \<Rightarrow> jstr \<Rightarrow> jstr" where
  "resolve_thread_key s threadKey = (case mb_draft_aliases s threadKey of Some c \<Rightarrow> c | None \<Rightarrow> threadKey)"

definition draft_thread_key :: "int \<Rightarrow> jstr" where
  "draft_thread_key recipientFid = ''draft:'' @ js_of_int recipientFid"

definition mb_find_direct_conversation :: "(jstr, conversation) jsmap \<Rightarrow> int \<Rightarrow> conversation option" where
  "mb_find_direct_conversation cs fid =
     find (\<lambda>c. \<not> is_group c \<and> map_option u_fid (counterparty c) = Some fid) (jm_values cs)"

subsection \<open>The order of a window\<close>

lemma newest_le: "compare_newest_first a b \<le> 0 \<longleftrightarrow>
    sent_at b < sent_at a \<or> (sent_at a = sent_at b \<and> message_id b \<le> message_id a)"
  by (auto simp: compare_newest_first_def)

lemma newest_less: "compare_newest_first a b < 0 \<longleftrightarrow>
    sent_at b < sent_at a \<or> (sent_at a = sent_at b \<and> message_id b \<le> message_id a)"
  by (auto simp: compare_newest_first_def)

interpretation newest: js_comparator compare_newest_first
  by unfold_locales (auto simp: newest_le)

text \<open>Newest first, strictly, and no id twice.\<close>

definition newer_than :: "message \<Rightarrow> message \<Rightarrow> bool" where
  "newer_than a b \<longleftrightarrow> sent_at b < sent_at a \<or> (sent_at a = sent_at b \<and> message_id b < message_id a)"

definition window_ok :: "message list \<Rightarrow> bool" where
  "window_ok ms \<longleftrightarrow> sorted_wrt newer_than ms \<and> distinct (map message_id ms)"

lemma window_ok_Nil [simp, js_intro]: "window_ok []"
  by (simp add: window_ok_def)

lemma window_ok_distinct: "window_ok ms \<Longrightarrow> distinct (map message_id ms)"
  by (simp add: window_ok_def)

lemma window_ok_filter [js_intro]: "window_ok ms \<Longrightarrow> window_ok (filter P ms)"
  by (simp add: window_ok_def sorted_wrt_filter distinct_map_filter)

lemma window_ok_map:
  assumes "window_ok ms" "\<And>m. sent_at (f m) = sent_at m" "\<And>m. message_id (f m) = message_id m"
  shows "window_ok (map f ms)"
proof -
  have "(\<lambda>x y. newer_than (f x) (f y)) = newer_than" by (intro ext) (simp add: newer_than_def assms)
  then show ?thesis using assms by (simp add: window_ok_def sorted_wrt_map comp_def)
qed

lemma sorted_apart:
  "sorted_wrt P xs \<Longrightarrow> distinct (map f xs) \<Longrightarrow> sorted_wrt (\<lambda>a b. P a b \<and> f a \<noteq> f b) xs"
  by (induction xs) auto

lemma window_ok_sort:
  assumes "distinct (map message_id ms)"
  shows "window_ok (js_sort compare_newest_first ms)"
proof -
  let ?xs = "js_sort compare_newest_first ms"
  have d: "distinct (map message_id ?xs)"
    using assms by (metis mset_eq_imp_distinct_iff mset_js_sort mset_map)
  have "sorted_wrt (\<lambda>a b. compare_newest_first a b \<le> 0 \<and> message_id a \<noteq> message_id b) ?xs"
    using sorted_apart[OF newest.sorted_sort d] .
  then have "sorted_wrt newer_than ?xs"
    by (rule sorted_wrt_mono_rel[rotated]) (auto simp: newest_le newer_than_def)
  with d show ?thesis by (simp add: window_ok_def)
qed

text \<open>The last copy of each id, as a map.\<close>

definition last_by_id :: "message list \<Rightarrow> jstr \<rightharpoonup> message" where
  "last_by_id ms = by_id (rev ms)"

lemma last_by_id_simps [simp]:
  "last_by_id [] = Map.empty" "last_by_id (ms @ [m]) = (last_by_id ms)(message_id m \<mapsto> m)"
  by (simp_all add: last_by_id_def by_id_def)

lemma last_by_id_distinct: "distinct (map message_id ms) \<Longrightarrow> last_by_id ms = by_id ms"
  unfolding last_by_id_def by (rule by_id_same_set) (auto simp flip: rev_map)

lemma fold_get: "jm_get (fold (\<lambda>m. jm_set (message_id m) m) ms d) = jm_get d ++ last_by_id ms"
  by (induction ms rule: rev_induct) (auto simp: jm_simps map_add_def intro!: ext)

lemma merge_by_id_sorted:
  "window_ok (merge_by_id ex inc)" "by_id (merge_by_id ex inc) = last_by_id ex ++ last_by_id inc"
proof -
  let ?d = "fold (\<lambda>m. jm_set (message_id m) m) inc (fold (\<lambda>m. jm_set (message_id m) m) ex [])"
  have k: "keyed ?d" by (intro index_fold keyed_Nil)
  note dist = keyed_values_distinct[OF k]
  show ok: "window_ok (merge_by_id ex inc)"
    by (simp add: merge_by_id_def window_ok_sort dist)
  have "by_id (merge_by_id ex inc) = by_id (jm_values ?d)"
    by (rule by_id_same_set[OF window_ok_distinct[OF ok] dist]) (simp add: merge_by_id_def)
  also have "\<dots> = last_by_id ex ++ last_by_id inc"
    by (simp add: keyed_by_id[OF k] fold_get)
  finally show "by_id (merge_by_id ex inc) = last_by_id ex ++ last_by_id inc" .
qed

lemma window_ok_merge [simp, js_intro]: "window_ok (mb_merge_messages ex inc)"
  by (simp add: mb_merge_messages_def merge_by_id_sorted)

lemma by_id_mb_merge:
  assumes "distinct (map message_id ex)"
  shows "by_id (mb_merge_messages ex inc) = by_id ex ++ last_by_id (map to_server_copy inc)"
  using assms by (simp add: mb_merge_messages_def merge_by_id_sorted last_by_id_distinct)

lemma to_server_copy_simps [simp]:
  "message_id (to_server_copy m) = message_id m" "sent_at (to_server_copy m) = sent_at m"
  "send_state (to_server_copy m) = None" "m_conversation_id (to_server_copy m) = m_conversation_id m"
  by (simp_all add: to_server_copy_def)

lemma dom_last_by_id [simp]: "dom (last_by_id ms) = message_id ` set ms"
  by (simp add: last_by_id_def dom_by_id)

lemma ids_mb_merge: "message_id ` set (mb_merge_messages ex inc) = message_id ` set ex \<union> message_id ` set inc"
proof -
  have "dom (by_id (merge_by_id ex (map to_server_copy inc))) =
      message_id ` set ex \<union> message_id ` set (map to_server_copy inc)"
    by (simp add: merge_by_id_sorted Un_commute)
  then show ?thesis by (simp add: dom_by_id mb_merge_messages_def image_image)
qed

lemma window_ok_replace [js_intro]: "window_ok ms \<Longrightarrow> window_ok (replace_message ms m)"
  unfolding replace_message_def Let_def
  by (rule window_ok_sort) (auto simp: window_ok_def distinct_map_filter)

lemma set_replace: "set (replace_message ms m) = insert m {x \<in> set ms. message_id x \<noteq> message_id m}"
  by (simp add: replace_message_def Let_def del: js_sort.simps)

lemma window_ok_map_message [js_intro]:
  assumes "window_ok ms" "\<And>m. sent_at (f m) = sent_at m" "\<And>m. message_id (f m) = message_id m"
  shows "window_ok (map_message ms mid f)"
  unfolding map_message_def by (rule window_ok_map) (use assms in auto)

lemma set_map_message:
  "set (map_message ms mid f) = {x \<in> set ms. message_id x \<noteq> mid} \<union> f ` {x \<in> set ms. message_id x = mid}"
  by (auto simp: map_message_def)

subsection \<open>The invariant of the store\<close>

definition thread_ok :: "mb_thread \<Rightarrow> bool" where
  "thread_ok t \<longleftrightarrow> window_ok (w_messages t) \<and> w_has_older t = (w_older_cursor t \<noteq> None) \<and>
     w_has_newer t = (w_newer_cursor t \<noteq> None) \<and> w_is_detached t = w_has_newer t"

definition slice_ok :: "inbox_slice \<Rightarrow> bool" where
  "slice_ok sl \<longleftrightarrow> distinct (sl_ids sl) \<and>
     (sl_loaded_at sl \<noteq> None \<longrightarrow> sl_has_more sl = (sl_cursor sl \<noteq> None))"

definition mb_badge_ok :: "mb_store \<Rightarrow> bool" where
  "mb_badge_ok s \<longleftrightarrow> mb_unread_total s = inbox_unread_total (mb_inbox s) (mb_conversations s)"

definition mb_ok :: "mb_store \<Rightarrow> bool" where
  "mb_ok s \<longleftrightarrow> (\<forall>k t. mb_threads s k = Some t \<longrightarrow> thread_ok t) \<and>
     (\<forall>seg. slice_ok (mb_inbox s seg)) \<and> mb_badge_ok s"

lemma thread_ok_empty [simp]: "thread_ok EMPTY_THREAD" "thread_ok LOCAL_THREAD"
  by (simp_all add: thread_ok_def EMPTY_THREAD_def LOCAL_THREAD_def)

lemma thread_ok_messages [simp]:
  "thread_ok t \<Longrightarrow> thread_ok (t\<lparr>w_messages := ms\<rparr>) = window_ok ms"
  "thread_ok (t\<lparr>w_synced_at := x\<rparr>) = thread_ok t"
  by (auto simp: thread_ok_def)

lemma thread_ok_cursor_fields [simp]:
  "thread_ok (cursor_fields a b t) = window_ok (w_messages t)"
  by (simp add: thread_ok_def cursor_fields_def)

lemma w_messages_cursor_fields [simp]: "w_messages (cursor_fields a b t) = w_messages t"
  by (simp add: cursor_fields_def)

lemma thread_ok_next_window [simp]: "thread_ok t \<Longrightarrow> thread_ok (next_window now mode page t)"
  by (cases mode)
    (simp_all add: next_window_def apply_anchor_page_def Let_def thread_ok_def cursor_fields_def)

lemma thread_ok_or: "mb_ok s \<Longrightarrow> thread_ok d \<Longrightarrow> thread_ok (thread_or d cid s)"
  by (auto simp: mb_ok_def thread_or_def split: option.splits)

lemma mb_ok_thread: "mb_ok s \<Longrightarrow> mb_threads s k = Some t \<Longrightarrow> thread_ok t"
  by (simp add: mb_ok_def)

lemma thread_ok_replace: "thread_ok t \<Longrightarrow> thread_ok (t\<lparr>w_messages := replace_message (w_messages t) m\<rparr>)"
  by (simp add: thread_ok_def window_ok_replace)

lemma mb_ok_put_thread: "mb_ok s \<Longrightarrow> thread_ok t \<Longrightarrow> mb_ok (mb_put_thread cid t s)"
  by (auto simp: mb_ok_def mb_put_thread_def mb_badge_ok_def)

lemma mb_ok_update_thread:
  assumes "mb_ok s" "\<And>ms. window_ok ms \<Longrightarrow> window_ok (f ms)"
  shows "mb_ok (update_thread_messages cid f s)"
  using assms thread_ok_messages(1)
  by (auto simp: update_thread_messages_def mb_ok_def mb_badge_ok_def thread_ok_def split: option.splits)

lemma mb_ok_fields [simp]:
  "mb_ok (s\<lparr>mb_availability := a\<rparr>) = mb_ok s" "mb_ok (s\<lparr>mb_access_error := e\<rparr>) = mb_ok s"
  "mb_ok (s\<lparr>mb_realtime_status := r\<rparr>) = mb_ok s" "mb_ok (s\<lparr>mb_draft_aliases := d\<rparr>) = mb_ok s"
  "mb_ok (s\<lparr>mb_search_seeds := x\<rparr>) = mb_ok s" "mb_ok (s\<lparr>mb_scroll_offsets := y\<rparr>) = mb_ok s"
  "mb_ok (s\<lparr>mb_reply_targets := z\<rparr>) = mb_ok s"
  by (simp_all add: mb_ok_def mb_badge_ok_def)

lemma mb_ok_initial [simp]: "mb_ok INITIAL_STATE"
  by (simp add: mb_ok_def INITIAL_STATE_def slice_ok_def mb_badge_ok_def inbox_unread_total_def
      mb_compute_unread_total_def EMPTY_SLICE_def)

lemma distinct_unique_ids [simp]: "distinct (unique_ids ids)" "set (unique_ids ids) = set ids"
  by (simp_all add: unique_ids_def)

lemma slice_ok_page [simp]: "slice_ok sl \<Longrightarrow> slice_ok (mb_apply_inbox_page sl response mode now)"
  by (auto simp: slice_ok_def mb_apply_inbox_page_def Let_def)

lemma mb_ok_inbox_page: "mb_ok s \<Longrightarrow> mb_ok (set_inbox_page now seg response mode s)"
  by (auto simp: mb_ok_def set_inbox_page_def Let_def mb_badge_ok_def)

lemma mb_ok_remove: "mb_ok s \<Longrightarrow> mb_ok (remove_from_inbox seg cid s)"
  by (auto simp: mb_ok_def remove_from_inbox_def Let_def mb_badge_ok_def slice_ok_def)

lemma mb_ok_put_conversation: "mb_ok s \<Longrightarrow> mb_ok (put_conversation cid c s)"
  by (auto simp: mb_ok_def put_conversation_def Let_def mb_badge_ok_def)

lemma unread_total_sum: "mb_compute_unread_total ids cs = (\<Sum>i\<leftarrow>ids. unread_of (jm_get cs i))"
proof -
  have "fold (\<lambda>i t. t + unread_of (jm_get cs i)) ids x = x + (\<Sum>i\<leftarrow>ids. unread_of (jm_get cs i))" for x
    by (induction ids arbitrary: x) auto
  then show ?thesis by (simp add: mb_compute_unread_total_def)
qed

lemma unread_total_cong:
  "(\<And>i. unread_of (jm_get cs i) = unread_of (jm_get cs' i)) \<Longrightarrow>
   inbox_unread_total inbox cs = inbox_unread_total inbox cs'"
  by (simp add: inbox_unread_total_def unread_total_sum)

lemma mb_ok_peer_read:
  assumes "mb_ok s"
  shows "mb_ok (apply_peer_read cid at' s)"
proof (cases "jm_get (mb_conversations s) cid")
  case (Some c)
  have "unread_of (jm_get (jm_set cid (c\<lparr>peer_last_read_at := at'\<rparr>) (mb_conversations s)) i) =
      unread_of (jm_get (mb_conversations s) i)" for i
    using Some by (simp add: jm_simps unread_of_def)
  then have "inbox_unread_total (mb_inbox s) (jm_set cid (c\<lparr>peer_last_read_at := at'\<rparr>) (mb_conversations s)) =
      inbox_unread_total (mb_inbox s) (mb_conversations s)"
    by (rule unread_total_cong)
  with assms Some show ?thesis by (simp add: apply_peer_read_def mb_ok_def mb_badge_ok_def)
qed (use assms in \<open>simp add: apply_peer_read_def\<close>)

lemma mb_ok_adopt: "mb_ok s \<Longrightarrow> mb_ok (adopt_draft_thread draftKey cid s)"
  using thread_ok_or[of s LOCAL_THREAD cid]
  by (auto simp: adopt_draft_thread_def mb_ok_def mb_badge_ok_def without_key_apply merge_by_id_sorted Let_def
      split: option.splits if_splits)

lemmas mb_ok_thread_ops = mb_ok_put_thread mb_ok_update_thread thread_ok_or window_ok_replace
  window_ok_filter window_ok_map_message window_ok_merge

lemma mb_ok_thread_page: "mb_ok s \<Longrightarrow> mb_ok (set_thread_page now cid page mode s)"
  by (simp add: set_thread_page_def mb_ok_thread_ops)

lemma mb_ok_upsert: "mb_ok s \<Longrightarrow> mb_ok (upsert_message cid m s)"
  unfolding upsert_message_def Let_def by (intro mb_ok_put_thread thread_ok_replace thread_ok_or) simp_all

lemma mb_ok_confirm: "mb_ok s \<Longrightarrow> mb_ok (confirm_sent_message cid m s)"
  unfolding confirm_sent_message_def Let_def by (intro mb_ok_put_thread thread_ok_replace thread_ok_or) simp_all

lemma mb_ok_merge_latest: "mb_ok s \<Longrightarrow> mb_ok (merge_latest cid ms s)"
  by (auto simp: merge_latest_def intro!: mb_ok_update_thread split: option.splits)

lemma mb_ok_synced: "mb_ok s \<Longrightarrow> mb_ok (mark_thread_synced cid now s)"
  by (auto simp: mark_thread_synced_def intro!: mb_ok_put_thread dest: mb_ok_thread split: option.splits)

lemma mb_ok_failed: "mb_ok s \<Longrightarrow> mb_ok (mark_send_failed cid mid s)"
  by (auto simp: mark_send_failed_def intro!: mb_ok_update_thread window_ok_map_message)

lemma mb_ok_patch:
  "mb_ok s \<Longrightarrow> (\<And>m. sent_at (f m) = sent_at m) \<Longrightarrow> (\<And>m. message_id (f m) = message_id m) \<Longrightarrow>
   mb_ok (patch_message cid mid f s)"
  by (auto simp: patch_message_def intro!: mb_ok_update_thread window_ok_map_message)

lemma mb_ok_remove_message: "mb_ok s \<Longrightarrow> mb_ok (mb_remove_message cid mid s)"
  by (auto simp: mb_remove_message_def intro!: mb_ok_update_thread window_ok_filter)

lemma mb_ok_reaction: "mb_ok s \<Longrightarrow> mb_ok (apply_reaction cid mid r add s)"
  by (auto simp: apply_reaction_def intro!: mb_ok_update_thread window_ok_map_message)

lemma mb_ok_read: "mb_ok s \<Longrightarrow> mb_ok (mark_read_local now cid s)"
  by (auto simp: mark_read_local_def intro!: mb_ok_put_conversation split: option.splits)

text \<open>The two clients agree on reactions and on the badge.\<close>

lemma toggle_reaction_agrees: "toggle_reaction_summary = toggle_reaction"
  by (intro ext) (simp add: toggle_reaction_summary_def toggle_reaction_def)

end
