(* ===== verification/Mobile_Sends.thy ===== *)
theory Mobile_Sends
  imports Mobile_Store
begin

section \<open>Sending from the mobile app\<close>

text \<open>
  \<^verbatim>\<open>farcaster-audio/hooks/useSendMessage.ts\<close> with its queue of draft sends,
  \<^verbatim>\<open>farcaster-audio/utils/messagesErrors.ts\<close> and the error classes of
  \<^verbatim>\<open>farcaster-audio/services/messagesApi.ts\<close>, as a system of the store, the queues and the calls in
  flight. Everything else that writes the store (pages, polls, socket frames, reactions, reads, a
  sign-out) may happen between any two steps, with any content.
\<close>

subsection \<open>Errors\<close>

text \<open>
  What a call rejects with: a cancelled request, an axios error with the status of its response, the
  error code of its body and the body's \<^verbatim>\<open>message\<close> when that is a string, or another value. The code is
  no property name of \<^verbatim>\<open>Object.prototype\<close>, which the source's lookups by name would find too.
\<close>

datatype raw_error = Raw_abort | Raw_axios "int option" "jstr option" "jstr option" | Raw_other

datatype mb_error = Err_abort | Err_api messages_error_code "int option" "jstr option" | Err_other

definition to_messaging_token_error :: "jstr option \<Rightarrow> messages_error_code" where
  "to_messaging_token_error detail =
     (if detail = Some ''messaging_token_missing'' then E_token_missing
      else if detail = Some ''messaging_token_expired'' then E_token_expired
      else if detail = Some ''messaging_token_rejected'' then E_token_rejected
      else E_token_missing)"

definition read_upstream_message :: "jstr option \<Rightarrow> jstr option" where
  "read_upstream_message msg =
     (case msg of None \<Rightarrow> None | Some m \<Rightarrow> if js_trim m = [] then None else Some (js_trim m))"

definition to_messages_error :: "raw_error \<Rightarrow> mb_error" where
  "to_messages_error e =
     (case e of
        Raw_abort \<Rightarrow> Err_abort
      | Raw_other \<Rightarrow> Err_other
      | Raw_axios None detail msg \<Rightarrow> Err_api E_network None None
      | Raw_axios (Some status) detail msg \<Rightarrow>
          if status = 404 \<and> detail = Some ''messaging_disabled'' then Err_api E_unavailable (Some status) None
          else if status = 400 \<and> detail = Some ''invalid_recipient'' then Err_api E_invalid_recipient (Some status) None
          else if status = 400 \<and> detail = Some ''invalid_cursor'' then Err_api E_invalid_cursor (Some status) None
          else if status = 422 \<and> detail = Some ''upstream_rejected''
          then Err_api E_upstream_rejected (Some status) (read_upstream_message msg)
          else if status = 401 then Err_api E_unauthorized (Some status) None
          else if status = 404 then Err_api E_not_found (Some status) None
          else if status = 403 \<and> detail \<in> {Some ''messaging_token_missing'', Some ''messaging_token_expired'',
            Some ''messaging_token_rejected''}
          then Err_api (to_messaging_token_error detail) (Some status) None
          else if status = 429 then Err_api E_rate_limited (Some status) None
          else if status = 502 then Err_api E_upstream_error (Some status) None
          else Err_api E_unknown (Some status) None)"

definition is_signer_error :: "mb_error \<Rightarrow> bool" where
  "is_signer_error e \<longleftrightarrow>
     (case e of Err_api code st m \<Rightarrow> code \<in> {E_token_missing, E_token_expired, E_token_rejected} | _ \<Rightarrow> False)"

text \<open>
  The store after an error, the code for the caller, and whether the feature flag is read again
  (\<^verbatim>\<open>refreshMessagingAvailability\<close>, which \<^verbatim>\<open>availability_probed\<close> settles).
\<close>

definition apply_messages_error :: "mb_error \<Rightarrow> mb_store \<Rightarrow> messages_error_code option \<times> mb_store \<times> bool" where
  "apply_messages_error e s =
     (case e of
        Err_abort \<Rightarrow> (None, s, False)
      | Err_other \<Rightarrow> (Some E_unknown, s, False)
      | Err_api code st msg \<Rightarrow>
          if is_signer_error e then (Some code, set_access_error (Some code) s, False)
          else if code = E_unavailable then (Some code, mb_set_availability Mav_unavailable s, True)
          else (Some code, s, False))"

definition availability_probed :: "bool option \<Rightarrow> mb_store \<Rightarrow> mb_store" where
  "availability_probed enabled s =
     (case enabled of
        None \<Rightarrow> s
      | Some e \<Rightarrow> mb_set_availability (if e then Mav_unknown else Mav_unavailable) s)"

fun ERROR_COPY :: "messages_error_code \<Rightarrow> jstr" where
  "ERROR_COPY E_unavailable = ''Messages aren't available right now.''"
| "ERROR_COPY E_not_found = ''That conversation couldn't be found.''"
| "ERROR_COPY E_invalid_recipient = ''You can't message yourself.''"
| "ERROR_COPY E_token_missing = ''Enable messages to read and send Direct Casts.''"
| "ERROR_COPY E_token_expired = ''Your messaging access expired. Enable messages again.''"
| "ERROR_COPY E_token_rejected = ''Farcaster no longer accepts your messaging access. Enable messages again.''"
| "ERROR_COPY E_rate_limited = ''Slow down a little and try again.''"
| "ERROR_COPY E_upstream_rejected = ''Farcaster rejected this message.''"
| "ERROR_COPY E_invalid_cursor = ''Those results changed. Showing them from the top.''"
| "ERROR_COPY E_unauthorized = ''Your session expired. Sign in again.''"
| "ERROR_COPY E_upstream_error = ''Farcaster is having trouble. Try again shortly.''"
| "ERROR_COPY E_network = ''You're offline. Check your connection.''"
| "ERROR_COPY E_unknown = ''Something went wrong. Try again.''"

definition describe_messages_error :: "messages_error_code \<Rightarrow> jstr option \<Rightarrow> jstr" where
  "describe_messages_error code upstreamMessage =
     (case upstreamMessage of
        Some (c # cs) \<Rightarrow>
          if code \<noteq> E_upstream_rejected then ERROR_COPY code else ERROR_COPY code @ '' '' @ c # cs
      | _ \<Rightarrow> ERROR_COPY code)"

definition describe_messages_failure :: "mb_error \<Rightarrow> mb_store \<Rightarrow> jstr option \<times> mb_store \<times> bool" where
  "describe_messages_failure e s =
     (case apply_messages_error e s of
        (None, s1, probe) \<Rightarrow> (None, s1, probe)
      | (Some code, s1, probe) \<Rightarrow>
          (Some (describe_messages_error code (case e of Err_api c st msg \<Rightarrow> msg | _ \<Rightarrow> None)), s1, probe))"

subsection \<open>State\<close>

text \<open>
  A send that waits in the queue of its draft key, and one whose request is under way with the
  conversation it was addressed to (\<^verbatim>\<open>null\<close>: a new one with the recipient).
\<close>

record draft_task =
  dt_message :: message
  dt_process_metadata :: bool
  dt_recipient :: "int option"

record send_call =
  sc_thread_key :: jstr
  sc_target :: "jstr option"
  sc_recipient :: "int option"
  sc_message :: message
  sc_process_metadata :: bool
  sc_queued :: bool

record mobile =
  mo_store :: mb_store
  mo_queues :: "jstr \<Rightarrow> draft_task list"
  mo_calls :: "send_call list"

record mb_send_result =
  sr_is_sent :: bool
  sr_error_message :: "jstr option"

definition mobile_start :: mobile where
  "mobile_start = \<lparr>mo_store = INITIAL_STATE, mo_queues = (\<lambda>_. []), mo_calls = []\<rparr>"

definition js_string_set :: "jstr option \<Rightarrow> bool" where
  "js_string_set x \<longleftrightarrow> x \<noteq> None \<and> x \<noteq> Some []"

subsection \<open>useSendMessage\<close>

definition clamp_optimistic_sent_at :: "int \<Rightarrow> message option \<Rightarrow> int" where
  "clamp_optimistic_sent_at now newestLoaded =
     (case newestLoaded of None \<Rightarrow> now | Some m \<Rightarrow> max now (sent_at m + 1))"

definition to_quote :: "message \<Rightarrow> message_quote" where
  "to_quote m = \<lparr>q_message_id = message_id m, q_sender = sender m, q_text = m_text m,
     q_is_deleted = is_deleted m\<rparr>"

definition mb_build_optimistic_message ::
  "jstr \<Rightarrow> jstr \<Rightarrow> message_user \<Rightarrow> jstr \<Rightarrow> message option \<Rightarrow> int \<Rightarrow> message" where
  "mb_build_optimistic_message messageId threadKey viewer txt' replyTo sentAt =
     \<lparr>message_id = messageId, m_conversation_id = threadKey, sender = viewer, m_type = Text,
      m_text = txt', sent_at = sentAt, reactions = [], in_reply_to = map_option to_quote replyTo,
      metadata = None, is_deleted = False, is_pinned = False, is_last_read = False,
      send_state = Some Sending\<rparr>"

text \<open>
  \<^verbatim>\<open>deliverNow\<close> up to its await: the request goes out, or the row fails when there is nobody to send to
  (the promise then resolves to the copy of an unknown error).
\<close>

definition deliver_now ::
  "jstr \<Rightarrow> int option \<Rightarrow> message \<Rightarrow> bool \<Rightarrow> jstr option \<Rightarrow> bool \<Rightarrow> mobile \<Rightarrow> mobile" where
  "deliver_now threadKey recipientFid m processMetadata knownConversationId queued x =
     (let s = mo_store x;
          liveKey = resolve_thread_key s threadKey;
          adoptedId = (if liveKey \<noteq> threadKey then Some liveKey else None);
          targetId = (case knownConversationId of Some c \<Rightarrow> Some c | None \<Rightarrow> adoptedId)
      in if \<not> js_string_set targetId \<and> (recipientFid = None \<or> recipientFid = Some 0)
         then x\<lparr>mo_store := mark_send_failed liveKey (message_id m) s\<rparr>
         else x\<lparr>mo_calls := mo_calls x @ [\<lparr>sc_thread_key = threadKey, sc_target = targetId,
                sc_recipient = recipientFid, sc_message = m, sc_process_metadata = processMetadata,
                sc_queued = queued\<rparr>]\<rparr>)"

text \<open>The body of the request.\<close>

definition send_request :: "send_call \<Rightarrow> send_message_request" where
  "send_request c =
     \<lparr>sr_conversation_id = sc_target c,
      sr_recipient_fids = (if js_string_set (sc_target c) then []
                           else case sc_recipient c of Some fid \<Rightarrow> [fid] | None \<Rightarrow> []),
      sr_message_id = message_id (sc_message c), sr_text = m_text (sc_message c),
      sr_in_reply_to_id = map_option q_message_id (in_reply_to (sc_message c)),
      sr_process_metadata = Some (sc_process_metadata c)\<rparr>"

text \<open>\<^verbatim>\<open>deliverNow\<close> after its await: the store, the result and whether the flag is probed.\<close>

definition deliver_done :: "send_call \<Rightarrow> mb_error + message \<Rightarrow> mb_store \<Rightarrow> mb_store \<times> mb_send_result \<times> bool" where
  "deliver_done c r s =
     (case r of
        Inr sent \<Rightarrow>
          (if \<not> js_string_set (sc_target c)
           then confirm_sent_message (m_conversation_id sent) sent
                  (adopt_draft_thread (sc_thread_key c) (m_conversation_id sent) s)
           else confirm_sent_message (resolve_thread_key s (sc_thread_key c)) sent s,
           \<lparr>sr_is_sent = True, sr_error_message = None\<rparr>, False)
      | Inl e \<Rightarrow>
          (case describe_messages_failure e s of
             (msg, s1, probe) \<Rightarrow>
               (mark_send_failed (resolve_thread_key s1 (sc_thread_key c)) (message_id (sc_message c)) s1,
                \<lparr>sr_is_sent = False, sr_error_message =
                   (case msg of Some t \<Rightarrow> Some t | None \<Rightarrow> Some (describe_messages_error E_unknown None))\<rparr>,
                probe)))"

definition enqueue_draft_send :: "jstr \<Rightarrow> draft_task \<Rightarrow> mobile \<Rightarrow> mobile" where
  "enqueue_draft_send key task x = x\<lparr>mo_queues := (mo_queues x)(key := mo_queues x key @ [task])\<rparr>"

definition mb_deliver ::
  "jstr \<Rightarrow> jstr option \<Rightarrow> int option \<Rightarrow> message \<Rightarrow> bool \<Rightarrow> mobile \<Rightarrow> mobile" where
  "mb_deliver threadKey conversationId recipientFid m processMetadata x =
     (if js_string_set conversationId
      then deliver_now threadKey recipientFid m processMetadata conversationId False x
      else enqueue_draft_send threadKey
             \<lparr>dt_message = m, dt_process_metadata = processMetadata, dt_recipient = recipientFid\<rparr> x)"

text \<open>
  A queued task runs when every earlier task of its key has settled. The promise chain of
  \<^verbatim>\<open>enqueueDraftSend\<close> starts the next one in a microtask, so other steps may come first.
\<close>

definition queue_busy :: "jstr \<Rightarrow> mobile \<Rightarrow> bool" where
  "queue_busy key x \<longleftrightarrow> list_ex (\<lambda>c. sc_queued c \<and> sc_thread_key c = key) (mo_calls x)"

definition run_draft_send :: "jstr \<Rightarrow> mobile \<Rightarrow> mobile" where
  "run_draft_send key x =
     (case mo_queues x key of
        [] \<Rightarrow> x
      | task # rest \<Rightarrow>
          if queue_busy key x then x
          else deliver_now key (dt_recipient task) (dt_message task) (dt_process_metadata task) None True
                 (x\<lparr>mo_queues := (mo_queues x)(key := rest)\<rparr>))"

definition MAX_MESSAGE_LENGTH :: nat where
  "MAX_MESSAGE_LENGTH = 2000"

definition mb_send ::
  "jstr \<Rightarrow> jstr option \<Rightarrow> int option \<Rightarrow> message_user option \<Rightarrow> int \<Rightarrow> jstr \<Rightarrow> jstr \<Rightarrow> message option \<Rightarrow> bool \<Rightarrow>
   mobile \<Rightarrow> mobile \<times> mb_send_result option" where
  "mb_send threadKey conversationId recipientFid viewer now messageId rawText replyTo processMetadata x =
     (let txt' = js_trim rawText
      in case viewer of
           None \<Rightarrow> (x, Some \<lparr>sr_is_sent = False, sr_error_message = None\<rparr>)
         | Some v \<Rightarrow>
             if txt' = [] then (x, Some \<lparr>sr_is_sent = False, sr_error_message = None\<rparr>)
             else if length txt' > MAX_MESSAGE_LENGTH
             then (x, Some \<lparr>sr_is_sent = False,
                     sr_error_message = Some (''Messages are limited to 2000 characters.'')\<rparr>)
             else let s = mo_store x;
                      liveKey = resolve_thread_key s threadKey;
                      newest = (case w_messages (thread_or EMPTY_THREAD liveKey s) of [] \<Rightarrow> None | m # ms \<Rightarrow> Some m);
                      optimistic = mb_build_optimistic_message messageId liveKey v txt' replyTo
                        (clamp_optimistic_sent_at now newest)
                  in (mb_deliver threadKey conversationId recipientFid optimistic processMetadata
                        (x\<lparr>mo_store := upsert_message liveKey optimistic s\<rparr>), None))"

definition retry :: "jstr \<Rightarrow> jstr option \<Rightarrow> int option \<Rightarrow> message \<Rightarrow> mobile \<Rightarrow> mobile" where
  "retry threadKey conversationId recipientFid m x =
     (if send_state m \<noteq> Some Failed then x
      else mb_deliver threadKey conversationId recipientFid (m\<lparr>send_state := Some Sending\<rparr>) True
             (x\<lparr>mo_store := patch_message (resolve_thread_key (mo_store x) threadKey) (message_id m)
                  (\<lambda>row. row\<lparr>send_state := Some Sending\<rparr>) (mo_store x)\<rparr>))"

definition discard :: "jstr \<Rightarrow> message \<Rightarrow> mb_store \<Rightarrow> mb_store" where
  "discard threadKey m s =
     (if send_state m = None then s
      else mb_remove_message (resolve_thread_key s threadKey) (message_id m) s)"

subsection \<open>The system\<close>

text \<open>The other writers of the store: hooks, screens, socket frames and errors.\<close>

datatype mb_op =
  Op_inbox int mb_segment inbox_response inbox_page_mode
  | Op_remove_from_inbox mb_segment jstr
  | Op_upsert_conversation conversation
  | Op_patch_conversation jstr "conversation \<Rightarrow> conversation"
  | Op_page int jstr messages_page thread_page_mode
  | Op_latest jstr "message list"
  | Op_synced jstr int
  | Op_deleted jstr jstr bool
  | Op_reaction jstr jstr jstr bool
  | Op_read int jstr
  | Op_peer_read jstr "int option"
  | Op_stash message_search_hit
  | Op_take jstr
  | Op_scroll jstr int
  | Op_reply jstr "message option"
  | Op_error mb_error
  | Op_probed "bool option"
  | Op_access "messages_error_code option"
  | Op_realtime realtime_status
  | Op_sign_out

fun run_mb_op :: "mb_op \<Rightarrow> mb_store \<Rightarrow> mb_store" where
  "run_mb_op (Op_inbox now seg r mode) s = set_inbox_page now seg r mode s"
| "run_mb_op (Op_remove_from_inbox seg cid) s = remove_from_inbox seg cid s"
| "run_mb_op (Op_upsert_conversation c) s = upsert_conversation c s"
| "run_mb_op (Op_patch_conversation cid f) s = mb_patch_conversation cid f s"
| "run_mb_op (Op_page now cid page mode) s = set_thread_page now cid page mode s"
| "run_mb_op (Op_latest cid ms) s = merge_latest cid ms s"
| "run_mb_op (Op_synced cid now) s = mark_thread_synced cid now s"
| "run_mb_op (Op_deleted cid mid d) s = patch_message cid mid (\<lambda>m. m\<lparr>is_deleted := d\<rparr>) s"
| "run_mb_op (Op_reaction cid mid r add) s = apply_reaction cid mid r add s"
| "run_mb_op (Op_read now cid) s = mark_read_local now cid s"
| "run_mb_op (Op_peer_read cid p) s = apply_peer_read cid p s"
| "run_mb_op (Op_stash hit) s = stash_search_seed hit s"
| "run_mb_op (Op_take mid) s = snd (take_search_seed mid s)"
| "run_mb_op (Op_scroll k y) s = set_scroll_offset k y s"
| "run_mb_op (Op_reply k m) s = mb_set_reply_target k m s"
| "run_mb_op (Op_error e) s = fst (snd (apply_messages_error e s))"
| "run_mb_op (Op_probed b) s = availability_probed b s"
| "run_mb_op (Op_access e) s = set_access_error e s"
| "run_mb_op (Op_realtime r) s = set_realtime_status r s"
| "run_mb_op Op_sign_out s = mb_reset s"

text \<open>
  A thread screen has a conversation, or it is a draft: then its key is no conversation id. The server
  names a conversation by an id of its own and echoes the id of the message (the ids are generated by
  the client so that a retry is idempotent).
\<close>

definition draft_like :: "jstr \<Rightarrow> bool" where
  "draft_like k \<longleftrightarrow> k = [] \<or> take 6 k = ''draft:''"

definition screen_ok :: "jstr \<Rightarrow> jstr option \<Rightarrow> bool" where
  "screen_ok threadKey conversationId \<longleftrightarrow>
     (case conversationId of None \<Rightarrow> draft_like threadKey
      | Some c \<Rightarrow> threadKey = c \<and> \<not> draft_like c)"

definition echo_ok :: "send_call \<Rightarrow> mb_error + message \<Rightarrow> bool" where
  "echo_ok c r \<longleftrightarrow> (case r of Inl e \<Rightarrow> True
     | Inr sent \<Rightarrow> message_id sent = message_id (sc_message c) \<and> \<not> draft_like (m_conversation_id sent))"

inductive mobile_step :: "mobile \<Rightarrow> mobile \<Rightarrow> bool" where
  step_store: "mobile_step x (x\<lparr>mo_store := run_mb_op op' (mo_store x)\<rparr>)"
| step_send: "screen_ok k conv \<Longrightarrow> mobile_step x (fst (mb_send k conv fid viewer now mid raw replyTo pm x))"
| step_retry: "screen_ok k conv \<Longrightarrow> mobile_step x (retry k conv fid m x)"
| step_discard: "mobile_step x (x\<lparr>mo_store := discard k m (mo_store x)\<rparr>)"
| step_queue: "mobile_step x (run_draft_send k x)"
| step_sent: "c \<in> set (mo_calls x) \<Longrightarrow> echo_ok c r \<Longrightarrow> deliver_done c r (mo_store x) = (s, res, probe) \<Longrightarrow>
    mobile_step x (x\<lparr>mo_store := s, mo_calls := remove1 c (mo_calls x)\<rparr>)"

inductive mobile_reachable :: "mobile \<Rightarrow> bool" where
  mobile_init: "mobile_reachable mobile_start"
| mobile_next: "mobile_reachable x \<Longrightarrow> mobile_step x y \<Longrightarrow> mobile_reachable y"

subsection \<open>The store stays sound\<close>

lemma mb_ok_errors: "mb_ok s \<Longrightarrow> mb_ok (fst (snd (apply_messages_error e s)))"
  by (simp add: apply_messages_error_def set_access_error_def mb_set_availability_def split: mb_error.splits)

lemma mb_ok_describe: "describe_messages_failure e s = (msg, s1, probe) \<Longrightarrow> mb_ok s \<Longrightarrow> mb_ok s1"
  using mb_ok_errors[of s e]
  by (auto simp: describe_messages_failure_def split: prod.splits option.splits)

lemma mb_ok_run_op: "mb_ok s \<Longrightarrow> mb_ok (run_mb_op op' s)"
  by (cases op')
    (auto simp: mb_ok_inbox_page mb_ok_remove upsert_conversation_def mb_ok_put_conversation
      mb_patch_conversation_def mb_ok_thread_page mb_ok_merge_latest mb_ok_synced mb_ok_patch mb_ok_reaction
      mb_ok_read mb_ok_peer_read stash_search_seed_def take_search_seed_def set_scroll_offset_def
      mb_set_reply_target_def mb_ok_errors availability_probed_def mb_set_availability_def
      set_access_error_def set_realtime_status_def mb_reset_def split: option.splits)

lemma mb_ok_deliver_now: "mb_ok (mo_store x) \<Longrightarrow> mb_ok (mo_store (deliver_now k fid m pm known q x))"
  by (simp add: deliver_now_def Let_def mb_ok_failed)

lemma mb_ok_deliver: "mb_ok (mo_store x) \<Longrightarrow> mb_ok (mo_store (mb_deliver k conv fid m pm x))"
  by (simp add: mb_deliver_def enqueue_draft_send_def mb_ok_deliver_now)

lemma mb_ok_done: "deliver_done c r s = (s', res, probe) \<Longrightarrow> mb_ok s \<Longrightarrow> mb_ok s'"
  by (auto simp: deliver_done_def mb_ok_confirm mb_ok_adopt mb_ok_failed dest: mb_ok_describe
      split: sum.splits prod.splits if_splits)

lemma mobile_step_mb_ok: "mobile_step x y \<Longrightarrow> mb_ok (mo_store x) \<Longrightarrow> mb_ok (mo_store y)"
proof (induction rule: mobile_step.induct)
  case (step_sent c x r s res probe)
  then show ?case by (simp add: mb_ok_done)
next
  case (step_discard x k m)
  then show ?case by (simp add: discard_def mb_ok_remove_message)
qed (auto simp: mb_ok_run_op mb_send_def Let_def mb_ok_deliver mb_ok_upsert retry_def mb_ok_patch
    run_draft_send_def mb_ok_deliver_now split: option.splits list.splits)

lemma mobile_reachable_mb_ok: "mobile_reachable x \<Longrightarrow> mb_ok (mo_store x)"
  by (induction rule: mobile_reachable.induct) (auto simp: mobile_start_def mobile_step_mb_ok)

subsection \<open>Rows that are being sent\<close>

definition sending_ids :: "mb_store \<Rightarrow> jstr \<Rightarrow> jstr set" where
  "sending_ids s k = (case mb_threads s k of None \<Rightarrow> {}
     | Some t \<Rightarrow> message_id ` {m \<in> set (w_messages t). send_state m = Some Sending})"

definition call_ids :: "mobile \<Rightarrow> jstr \<Rightarrow> jstr set" where
  "call_ids x k = {message_id (sc_message c) | c.
     c \<in> set (mo_calls x) \<and> resolve_thread_key (mo_store x) (sc_thread_key c) = k}"

definition queued_ids :: "mobile \<Rightarrow> jstr \<Rightarrow> jstr set" where
  "queued_ids x k = {message_id (dt_message d) | d key.
     d \<in> set (mo_queues x key) \<and> resolve_thread_key (mo_store x) key = k}"

definition aliases_ok :: "mb_store \<Rightarrow> bool" where
  "aliases_ok s \<longleftrightarrow> (\<forall>k c. mb_draft_aliases s k = Some c \<longrightarrow> draft_like k \<and> \<not> draft_like c)"

definition send_call_ok :: "(jstr \<rightharpoonup> jstr) \<Rightarrow> send_call \<Rightarrow> bool" where
  "send_call_ok aliases c \<longleftrightarrow>
     (if sc_queued c
      then draft_like (sc_thread_key c) \<and>
        (case sc_target c of None \<Rightarrow> aliases (sc_thread_key c) = None | Some t \<Rightarrow> \<not> draft_like t)
      else \<not> draft_like (sc_thread_key c) \<and> sc_target c = Some (sc_thread_key c))"

definition queued_calls :: "jstr \<Rightarrow> mobile \<Rightarrow> send_call list" where
  "queued_calls k x = filter (\<lambda>c. sc_queued c \<and> sc_thread_key c = k) (mo_calls x)"

definition sends_base :: "mobile \<Rightarrow> bool" where
  "sends_base x \<longleftrightarrow> aliases_ok (mo_store x) \<and> (\<forall>c\<in>set (mo_calls x). send_call_ok (mb_draft_aliases (mo_store x)) c) \<and>
     (\<forall>k. mo_queues x k \<noteq> [] \<longrightarrow> draft_like k) \<and> (\<forall>k. length (queued_calls k x) \<le> 1)"

definition covered :: "jstr \<Rightarrow> jstr set \<Rightarrow> mobile \<Rightarrow> bool" where
  "covered key ids x \<longleftrightarrow> (\<forall>k i. i \<in> sending_ids (mo_store x) k \<longrightarrow>
     i \<in> call_ids x k \<or> i \<in> queued_ids x k \<or> (k = key \<and> i \<in> ids))"

definition sends_ok :: "mobile \<Rightarrow> bool" where
  "sends_ok x \<longleftrightarrow> sends_base x \<and> covered [] {} x"

lemma draft_like_target: "\<not> draft_like t \<Longrightarrow> js_string_set (Some t)"
  by (auto simp: draft_like_def js_string_set_def)

lemma resolve_same: "mb_draft_aliases s = mb_draft_aliases s' \<Longrightarrow> resolve_thread_key s = resolve_thread_key s'"
  by (auto simp: resolve_thread_key_def)

lemma resolve_plain: "aliases_ok s \<Longrightarrow> \<not> draft_like k \<Longrightarrow> resolve_thread_key s k = k"
  by (auto simp: resolve_thread_key_def aliases_ok_def split: option.splits)

text \<open>Rows of a rewritten window.\<close>

lemma set_merge_by_id: "set (merge_by_id ex inc) \<subseteq> set ex \<union> set inc"
proof
  fix m assume "m \<in> set (merge_by_id ex inc)"
  then have "by_id (merge_by_id ex inc) (message_id m) = Some m"
    using window_ok_distinct[OF merge_by_id_sorted(1)] by (simp add: by_id_Some_iff)
  then show "m \<in> set ex \<union> set inc"
    by (auto simp: merge_by_id_sorted(2) map_add_Some_iff last_by_id_def dest!: by_id_SomeD)
qed

lemma sending_merge: "m \<in> set (mb_merge_messages ex inc) \<Longrightarrow> send_state m = Some Sending \<Longrightarrow> m \<in> set ex"
  using set_merge_by_id[of ex "map to_server_copy inc"] by (auto simp: mb_merge_messages_def)

definition sending_of :: "message list \<Rightarrow> jstr set" where
  "sending_of ms = message_id ` {m \<in> set ms. send_state m = Some Sending}"

lemma sending_of_simps [simp]:
  "sending_of [] = {}"
  "sending_of (m # ms) = (if send_state m = Some Sending then insert (message_id m) (sending_of ms) else sending_of ms)"
  by (auto simp: sending_of_def)

lemma sending_ids_of: "sending_ids s k = (case mb_threads s k of None \<Rightarrow> {} | Some t \<Rightarrow> sending_of (w_messages t))"
  by (simp add: sending_ids_def sending_of_def split: option.splits)

lemma sending_of_merge: "sending_of (mb_merge_messages ex inc) \<subseteq> sending_of ex"
  using sending_merge by (auto simp: sending_of_def)

lemma sending_of_window: "sending_of (w_messages (next_window now mode page t)) \<subseteq> sending_of (w_messages t)"
proof (cases mode)
  case Page_replace
  have "sending_of (mb_merge_messages (filter P (w_messages t)) (mp_items page)) \<subseteq> sending_of (w_messages t)" for P
    using sending_of_merge[of "filter P (w_messages t)"] by (auto simp: sending_of_def)
  with Page_replace show ?thesis by (simp add: next_window_def)
next
  case Page_anchor
  then show ?thesis using sending_of_merge[of "[]" "mp_items page"] sending_of_merge[of "w_messages t" "mp_items page"]
    by (simp add: next_window_def apply_anchor_page_def Let_def)
qed (simp_all add: next_window_def Let_def sending_of_merge)

lemma sending_of_map:
  assumes "\<And>m. message_id (f m) = message_id m" "\<And>m. send_state (f m) = Some Sending \<Longrightarrow> send_state m = Some Sending"
  shows "sending_of (map_message ms mid f) \<subseteq> sending_of ms"
  using assms by (fastforce simp: sending_of_def set_map_message)

lemma sending_of_replace: "sending_of (replace_message ms m) =
    (if send_state m = Some Sending then insert (message_id m) (sending_of ms) else sending_of ms - {message_id m})"
  by (auto simp: sending_of_def set_replace)

lemma sending_of_filter: "sending_of (filter P ms) \<subseteq> sending_of ms"
  by (auto simp: sending_of_def)

lemma sending_of_moved: "sending_of (map (\<lambda>m. m\<lparr>m_conversation_id := cid\<rparr>) ms) = sending_of ms"
  by (induction ms) auto

lemma sending_of_merge_by_id: "sending_of (merge_by_id a b) \<subseteq> sending_of a \<union> sending_of b"
  using set_merge_by_id[of a b] by (fastforce simp: sending_of_def)

text \<open>An operation that only ever shrinks the set of sending rows and keeps the aliases.\<close>

definition shrinks :: "mb_store \<Rightarrow> mb_store \<Rightarrow> bool" where
  "shrinks s s' \<longleftrightarrow> mb_draft_aliases s' = mb_draft_aliases s \<and> (\<forall>k. sending_ids s' k \<subseteq> sending_ids s k)"

lemma shrinks_refl [simp]: "shrinks s s"
  by (simp add: shrinks_def)

lemma shrinks_fields:
  "mb_threads s' = mb_threads s \<Longrightarrow> mb_draft_aliases s' = mb_draft_aliases s \<Longrightarrow> shrinks s s'"
  by (simp add: shrinks_def sending_ids_def)

lemma shrinks_update:
  assumes "\<And>ms. sending_of (f ms) \<subseteq> sending_of ms"
  shows "shrinks s (update_thread_messages k f s)"
  using assms by (fastforce simp: shrinks_def update_thread_messages_def sending_ids_of split: option.splits)

lemma shrinks_put:
  "sending_of (w_messages t) \<subseteq> sending_ids s k \<Longrightarrow> shrinks s (mb_put_thread k t s)"
  by (auto simp: shrinks_def mb_put_thread_def sending_ids_of split: option.splits)

lemma sending_or: "w_messages d = [] \<Longrightarrow> sending_of (w_messages (thread_or d k s)) = sending_ids s k"
  by (simp add: thread_or_def sending_ids_of split: option.splits)

lemma empty_windows [simp]: "w_messages EMPTY_THREAD = []" "w_messages LOCAL_THREAD = []"
  by (simp_all add: EMPTY_THREAD_def LOCAL_THREAD_def)

lemma shrinks_page: "shrinks s (set_thread_page now cid page mode s)"
  unfolding set_thread_page_def
  by (rule shrinks_put) (use sending_of_window[of now mode page "thread_or EMPTY_THREAD cid s"]
      in \<open>simp add: sending_or\<close>)

lemma shrinks_latest: "shrinks s (merge_latest cid ms s)"
  by (auto simp: merge_latest_def intro!: shrinks_update sending_of_merge split: option.splits)

lemma shrinks_synced: "shrinks s (mark_thread_synced cid now s)"
  by (auto simp: mark_thread_synced_def sending_ids_of intro!: shrinks_put split: option.splits)

lemma shrinks_map:
  assumes "\<And>m. message_id (f m) = message_id m" "\<And>m. send_state (f m) = Some Sending \<Longrightarrow> send_state m = Some Sending"
  shows "shrinks s (update_thread_messages cid (\<lambda>ms. map_message ms mid f) s)"
  by (rule shrinks_update[OF sending_of_map]) (fact assms)+

lemma shrinks_failed: "shrinks s (mark_send_failed cid mid s)"
  unfolding mark_send_failed_def by (rule shrinks_map) (simp_all split: if_splits)

lemma shrinks_remove: "shrinks s (mb_remove_message cid mid s)"
  unfolding mb_remove_message_def by (intro shrinks_update sending_of_filter)

lemma shrinks_confirm: "shrinks s (confirm_sent_message cid echo s)"
  unfolding confirm_sent_message_def Let_def
  by (rule shrinks_put) (auto simp: sending_of_replace sending_or mb_merge_send_echo_def Let_def split: option.splits)

lemma shrinks_errors: "shrinks s (fst (snd (apply_messages_error e s)))"
  by (auto simp: apply_messages_error_def set_access_error_def mb_set_availability_def intro!: shrinks_fields
      split: mb_error.splits)

lemma shrinks_inbox: "shrinks s (set_inbox_page now seg r mode s)" "shrinks s (remove_from_inbox seg cid s)"
  "shrinks s (put_conversation cid c s)"
  by (rule shrinks_fields; simp add: set_inbox_page_def remove_from_inbox_def put_conversation_def Let_def)+

lemma shrinks_conversation: "shrinks s (upsert_conversation c s)" "shrinks s (mb_patch_conversation cid f s)"
  "shrinks s (mark_read_local now cid s)" "shrinks s (apply_peer_read cid p s)"
  by (rule shrinks_fields; simp add: upsert_conversation_def mb_patch_conversation_def mark_read_local_def
      apply_peer_read_def put_conversation_def Let_def split: option.split)+

lemma shrinks_rest: "shrinks s (stash_search_seed hit s)" "shrinks s (snd (take_search_seed mid s))"
  "shrinks s (set_scroll_offset k y s)" "shrinks s (mb_set_reply_target k m s)"
  "shrinks s (availability_probed b s)" "shrinks s (set_access_error e s)" "shrinks s (set_realtime_status r s)"
  by (rule shrinks_fields; simp add: stash_search_seed_def take_search_seed_def set_scroll_offset_def
      mb_set_reply_target_def availability_probed_def mb_set_availability_def set_access_error_def
      set_realtime_status_def split: option.split)+

lemma shrinks_deleted: "shrinks s (patch_message cid mid (\<lambda>m. m\<lparr>is_deleted := d\<rparr>) s)"
  "shrinks s (apply_reaction cid mid r add s)"
  unfolding patch_message_def apply_reaction_def by (rule shrinks_map; simp)+

lemma shrinks_op: "op' \<noteq> Op_sign_out \<Longrightarrow> shrinks s (run_mb_op op' s)"
  by (cases op') (simp_all add: shrinks_inbox shrinks_conversation shrinks_rest shrinks_deleted
      shrinks_page shrinks_latest shrinks_synced shrinks_errors)

lemma coveredI:
  "(\<And>k i. i \<in> sending_ids (mo_store x) k \<Longrightarrow> i \<in> call_ids x k \<or> i \<in> queued_ids x k \<or> (k = key \<and> i \<in> ids)) \<Longrightarrow>
   covered key ids x"
  by (simp add: covered_def)

lemma coveredD:
  "covered key ids x \<Longrightarrow> i \<in> sending_ids (mo_store x) k \<Longrightarrow>
   i \<in> call_ids x k \<or> i \<in> queued_ids x k \<or> (k = key \<and> i \<in> ids)"
  unfolding covered_def by blast

lemma covered_mono: "covered [] {} x \<Longrightarrow> covered key ids x"
  by (auto simp: covered_def)

lemma ids_same:
  assumes "mb_draft_aliases s' = mb_draft_aliases (mo_store x)"
  shows "call_ids (x\<lparr>mo_store := s'\<rparr>) k = call_ids x k" "queued_ids (x\<lparr>mo_store := s'\<rparr>) k = queued_ids x k"
  using resolve_same[of "mo_store x" s'] assms by (simp_all add: call_ids_def queued_ids_def)

lemma base_aliases:
  assumes "mb_draft_aliases s' = mb_draft_aliases (mo_store x)"
  shows "sends_base (x\<lparr>mo_store := s'\<rparr>) = sends_base x"
  using assms by (simp add: sends_base_def aliases_ok_def queued_calls_def)

lemma sends_shrink:
  assumes "sends_base x" "covered key ids x" "shrinks (mo_store x) s'"
  shows "sends_base (x\<lparr>mo_store := s'\<rparr>)" "covered key ids (x\<lparr>mo_store := s'\<rparr>)"
proof -
  have al: "mb_draft_aliases s' = mb_draft_aliases (mo_store x)" using assms(3) by (simp add: shrinks_def)
  show "sends_base (x\<lparr>mo_store := s'\<rparr>)" using assms(1) by (simp add: base_aliases[OF al])
  show "covered key ids (x\<lparr>mo_store := s'\<rparr>)"
  proof (rule coveredI)
    fix k i assume "i \<in> sending_ids (mo_store (x\<lparr>mo_store := s'\<rparr>)) k"
    then have "i \<in> sending_ids (mo_store x) k" using assms(3) by (auto simp: shrinks_def)
    then show "i \<in> call_ids (x\<lparr>mo_store := s'\<rparr>) k \<or> i \<in> queued_ids (x\<lparr>mo_store := s'\<rparr>) k \<or> k = key \<and> i \<in> ids"
      using coveredD[OF assms(2)] by (simp add: ids_same[OF al])
  qed
qed

lemma sends_ok_reset: "sends_ok x \<Longrightarrow> sends_ok (x\<lparr>mo_store := INITIAL_STATE\<rparr>)"
proof -
  assume ok: "sends_ok x"
  have "sending_ids INITIAL_STATE k = {}" for k by (simp add: sending_ids_def INITIAL_STATE_def)
  then have "covered [] {} (x\<lparr>mo_store := INITIAL_STATE\<rparr>)" by (simp add: covered_def)
  moreover have "send_call_ok Map.empty c" if "send_call_ok a c" for a c
    using that by (simp add: send_call_ok_def split: option.splits)
  then have "sends_base (x\<lparr>mo_store := INITIAL_STATE\<rparr>)"
    using ok by (auto simp: sends_ok_def sends_base_def aliases_ok_def queued_calls_def INITIAL_STATE_def)
  ultimately show ?thesis by (simp add: sends_ok_def)
qed

lemma queue_busy_calls: "queue_busy k x \<longleftrightarrow> queued_calls k x \<noteq> []"
  by (auto simp: queue_busy_def queued_calls_def list_ex_iff filter_empty_conv)

text \<open>A request that goes out, and a task that joins its queue, take care of their row.\<close>

lemma sends_call:
  assumes "sends_base x" "covered (resolve_thread_key (mo_store x) (sc_thread_key c)) {message_id (sc_message c)} x"
    and "send_call_ok (mb_draft_aliases (mo_store x)) c" "sc_queued c \<Longrightarrow> queued_calls (sc_thread_key c) x = []"
  shows "sends_ok (x\<lparr>mo_calls := mo_calls x @ [c]\<rparr>)"
proof -
  let ?y = "x\<lparr>mo_calls := mo_calls x @ [c]\<rparr>"
  have "queued_calls k ?y = queued_calls k x @ (if sc_queued c \<and> sc_thread_key c = k then [c] else [])" for k
    by (simp add: queued_calls_def)
  then have "length (queued_calls k ?y) \<le> 1" for k
    using assms(1,4) by (auto simp: sends_base_def)
  then have base: "sends_base ?y" using assms(1,3) by (auto simp: sends_base_def)
  have "covered [] {} ?y"
  proof (rule coveredI)
    fix k i assume "i \<in> sending_ids (mo_store ?y) k"
    then have "i \<in> call_ids x k \<or> i \<in> queued_ids x k \<or>
        (k = resolve_thread_key (mo_store x) (sc_thread_key c) \<and> i \<in> {message_id (sc_message c)})"
      using coveredD[OF assms(2)] by simp
    then have "i \<in> call_ids ?y k \<or> i \<in> queued_ids ?y k" by (auto simp: call_ids_def queued_ids_def)
    then show "i \<in> call_ids ?y k \<or> i \<in> queued_ids ?y k \<or> k = [] \<and> i \<in> {}" by blast
  qed
  with base show ?thesis by (simp add: sends_ok_def)
qed

lemma sends_enqueue:
  assumes "sends_base x" "covered (resolve_thread_key (mo_store x) k) {message_id (dt_message d)} x" "draft_like k"
  shows "sends_ok (enqueue_draft_send k d x)"
proof -
  let ?y = "enqueue_draft_send k d x"
  have "covered [] {} ?y"
  proof (rule coveredI)
    fix k' i assume "i \<in> sending_ids (mo_store ?y) k'"
    then have "i \<in> call_ids x k' \<or> i \<in> queued_ids x k' \<or>
        (k' = resolve_thread_key (mo_store x) k \<and> i \<in> {message_id (dt_message d)})"
      using coveredD[OF assms(2)] by (simp add: enqueue_draft_send_def)
    moreover have "call_ids ?y k' = call_ids x k'" by (simp add: call_ids_def enqueue_draft_send_def)
    moreover have "queued_ids x k' \<subseteq> queued_ids ?y k'"
      by (auto simp: queued_ids_def enqueue_draft_send_def)
    moreover have "message_id (dt_message d) \<in> queued_ids ?y (resolve_thread_key (mo_store x) k)"
      by (auto simp: queued_ids_def enqueue_draft_send_def)
    ultimately show "i \<in> call_ids ?y k' \<or> i \<in> queued_ids ?y k' \<or> k' = [] \<and> i \<in> {}" by blast
  qed
  moreover have "sends_base ?y"
    using assms(1,3) by (auto simp: sends_base_def enqueue_draft_send_def queued_calls_def)
  ultimately show ?thesis by (simp add: sends_ok_def)
qed

lemma sending_of_failed: "mid \<notin> sending_of (map_message ms mid
    (\<lambda>m. if send_state m = Some Sending then m\<lparr>send_state := Some Failed\<rparr> else m))"
  by (induction ms) (simp_all add: map_message_def)

lemma sending_failed: "mid \<notin> sending_ids (mark_send_failed k mid s) k"
  by (cases "mb_threads s k")
    (simp_all add: mark_send_failed_def update_thread_messages_def sending_ids_of sending_of_failed)

lemma sending_confirmed: "message_id echo \<notin> sending_ids (confirm_sent_message k echo s) k"
  by (simp add: confirm_sent_message_def Let_def mb_put_thread_def sending_ids_of sending_of_replace
      mb_merge_send_echo_def split: option.splits)

lemma sends_fail:
  assumes "sends_base x" "covered k {mid} x"
  shows "sends_ok (x\<lparr>mo_store := mark_send_failed k mid (mo_store x)\<rparr>)"
proof -
  note sh = sends_shrink[OF assms shrinks_failed[of "mo_store x" k mid]]
  have "covered [] {} (x\<lparr>mo_store := mark_send_failed k mid (mo_store x)\<rparr>)"
    using sh(2) sending_failed[of mid k "mo_store x"] unfolding covered_def by auto
  with sh(1) show ?thesis by (simp add: sends_ok_def)
qed

lemma sends_deliver_now:
  assumes base: "sends_base x" and cov: "covered (resolve_thread_key (mo_store x) k) {message_id m} x"
    and kind: "if q then draft_like k \<and> known = None \<and> queued_calls k x = [] else \<not> draft_like k \<and> known = Some k"
  shows "sends_ok (deliver_now k fid m pm known q x)"
proof -
  have al: "aliases_ok (mo_store x)" using base by (simp add: sends_base_def)
  define target where "target = (case known of Some c \<Rightarrow> Some c
    | None \<Rightarrow> if resolve_thread_key (mo_store x) k \<noteq> k then Some (resolve_thread_key (mo_store x) k) else None)"
  have "case target of None \<Rightarrow> mb_draft_aliases (mo_store x) k = None | Some t \<Rightarrow> \<not> draft_like t" if q
  proof (cases "mb_draft_aliases (mo_store x) k")
    case (Some c)
    moreover from Some have "\<not> draft_like c" "draft_like k" using al by (auto simp: aliases_ok_def)
    ultimately show ?thesis using kind that by (auto simp: target_def resolve_thread_key_def)
  qed (use kind that in \<open>simp add: target_def resolve_thread_key_def\<close>)
  moreover have "target = Some k" if "\<not> q" using kind that by (simp add: target_def)
  moreover define c where "c = \<lparr>sc_thread_key = k, sc_target = target, sc_recipient = fid,
      sc_message = m, sc_process_metadata = pm, sc_queued = q\<rparr>"
  ultimately have ok: "send_call_ok (mb_draft_aliases (mo_store x)) c"
    using kind by (auto simp: send_call_ok_def split: option.splits)
  have "sends_ok (x\<lparr>mo_calls := mo_calls x @ [c]\<rparr>)"
    by (rule sends_call[OF base _ ok]) (use cov kind in \<open>auto simp: c_def\<close>)
  then show ?thesis
    using sends_fail[OF base cov]
    by (simp add: deliver_now_def Let_def c_def flip: target_def)
qed

text \<open>The settling of a call.\<close>

lemma queued_calls_remove: "queued_calls k (x\<lparr>mo_store := s, mo_calls := remove1 c (mo_calls x)\<rparr>) =
    (if sc_queued c \<and> sc_thread_key c = k then remove1 c (queued_calls k x) else queued_calls k x)"
proof -
  have *: "filter P (remove1 c cs) = (if P c then remove1 c (filter P cs) else filter P cs)" for P cs
    by (induction cs) (auto simp: remove1_idem)
  show ?thesis by (simp add: queued_calls_def *)
qed

lemma call_ids_remove:
  assumes "mb_draft_aliases s' = mb_draft_aliases (mo_store x)" "i \<in> call_ids x k"
  shows "i \<in> call_ids (x\<lparr>mo_store := s', mo_calls := remove1 c (mo_calls x)\<rparr>) k \<or>
    (i = message_id (sc_message c) \<and> k = resolve_thread_key (mo_store x) (sc_thread_key c))"
proof -
  obtain c' where c': "c' \<in> set (mo_calls x)" "i = message_id (sc_message c')"
      "resolve_thread_key (mo_store x) (sc_thread_key c') = k"
    using assms(2) by (auto simp: call_ids_def)
  show ?thesis
  proof (cases "c' = c")
    case False
    then have "c' \<in> set (remove1 c (mo_calls x))" using c'(1) by simp
    then show ?thesis using c' resolve_same[OF assms(1)] by (auto simp: call_ids_def)
  qed (use c' in auto)
qed

lemma base_remove:
  assumes "sends_base x" "mb_draft_aliases s' = mb_draft_aliases (mo_store x)"
  shows "sends_base (x\<lparr>mo_store := s', mo_calls := remove1 c (mo_calls x)\<rparr>)"
proof -
  have "length (queued_calls k (x\<lparr>mo_store := s', mo_calls := remove1 c (mo_calls x)\<rparr>)) \<le> 1" for k
    using assms(1) by (auto simp: sends_base_def queued_calls_remove length_remove1 simp del: One_nat_def
        intro: le_trans[OF diff_le_self])
  then show ?thesis
    using assms by (auto simp: sends_base_def aliases_ok_def dest!: set_remove1_subset[THEN subsetD])
qed

lemma sends_settle:
  assumes ok: "sends_ok x" and sh: "shrinks (mo_store x) s'"
    and gone: "message_id (sc_message c) \<notin> sending_ids s' (resolve_thread_key (mo_store x) (sc_thread_key c))"
  shows "sends_ok (x\<lparr>mo_store := s', mo_calls := remove1 c (mo_calls x)\<rparr>)"
proof -
  let ?y = "x\<lparr>mo_store := s', mo_calls := remove1 c (mo_calls x)\<rparr>"
  have al: "mb_draft_aliases s' = mb_draft_aliases (mo_store x)" using sh by (simp add: shrinks_def)
  have cov: "covered [] {} x" using ok by (simp add: sends_ok_def)
  have "covered [] {} ?y"
  proof (rule coveredI)
    fix k i assume i: "i \<in> sending_ids (mo_store ?y) k"
    then have "i \<in> sending_ids (mo_store x) k" using sh by (auto simp: shrinks_def)
    from coveredD[OF cov this] have "i \<in> call_ids x k \<or> i \<in> queued_ids x k" by simp
    moreover have "queued_ids ?y k = queued_ids x k"
      using resolve_same[OF al] by (simp add: queued_ids_def)
    moreover have "\<not> (i = message_id (sc_message c) \<and> k = resolve_thread_key (mo_store x) (sc_thread_key c))"
      using i gone by auto
    ultimately show "i \<in> call_ids ?y k \<or> i \<in> queued_ids ?y k \<or> k = [] \<and> i \<in> {}"
      using call_ids_remove[OF al, of i k c] by blast
  qed
  with base_remove[OF _ al] ok show ?thesis by (simp add: sends_ok_def)
qed

text \<open>The first send of a draft: the rows move to the conversation the server named.\<close>

lemma adopt_sending:
  assumes "key \<noteq> cid" "i \<in> sending_ids (adopt_draft_thread key cid s) k"
  shows "k \<noteq> key \<or> mb_threads s key = None" "k = cid \<Longrightarrow> i \<in> sending_ids s cid \<union> sending_ids s key"
    "k \<noteq> cid \<Longrightarrow> i \<in> sending_ids s k"
proof -
  have "(k \<noteq> key \<or> mb_threads s key = None) \<and> (k = cid \<longrightarrow> i \<in> sending_ids s cid \<union> sending_ids s key) \<and>
    (k \<noteq> cid \<longrightarrow> i \<in> sending_ids s k)"
  proof (cases "mb_threads s key")
    case None
    then show ?thesis using assms(2) by (auto simp: adopt_draft_thread_def sending_ids_def)
  next
    case (Some d)
    let ?t = "thread_or LOCAL_THREAD cid s"
    let ?moved = "map (\<lambda>m. m\<lparr>m_conversation_id := cid\<rparr>) (w_messages d)"
    have thr: "mb_threads (adopt_draft_thread key cid s) =
        (without_key key (mb_threads s))(cid \<mapsto> ?t\<lparr>w_messages := merge_by_id (w_messages ?t) ?moved\<rparr>)"
      using Some by (simp add: adopt_draft_thread_def Let_def)
    have src: "sending_of (w_messages ?t) = sending_ids s cid" "sending_of ?moved = sending_ids s key"
      using Some by (simp_all add: sending_or sending_of_moved sending_ids_of)
    have "i \<in> sending_ids s cid \<union> sending_ids s key" if "k = cid"
      using assms(2) that sending_of_merge_by_id[of "w_messages ?t" ?moved]
      unfolding src by (auto simp: sending_ids_of thr)
    moreover have "k \<noteq> key \<and> i \<in> sending_ids s k" if "k \<noteq> cid"
      using assms(2) that by (auto simp: sending_ids_of thr without_key_apply split: if_splits)
    ultimately show ?thesis using assms(1) by blast
  qed
  then show "k \<noteq> key \<or> mb_threads s key = None" "k = cid \<Longrightarrow> i \<in> sending_ids s cid \<union> sending_ids s key"
    "k \<noteq> cid \<Longrightarrow> i \<in> sending_ids s k" by blast+
qed

lemma adopt_aliases [simp]:
  "mb_draft_aliases (adopt_draft_thread key cid s) = (mb_draft_aliases s)(key \<mapsto> cid)"
  by (simp add: adopt_draft_thread_def Let_def split: option.splits)

lemma sends_adopt:
  assumes ok: "sends_ok x" and c: "c \<in> set (mo_calls x)" "\<not> js_string_set (sc_target c)"
    and sent: "message_id sent = message_id (sc_message c)" "\<not> draft_like (m_conversation_id sent)"
  shows "sends_ok (x\<lparr>mo_store := confirm_sent_message (m_conversation_id sent) sent
      (adopt_draft_thread (sc_thread_key c) (m_conversation_id sent) (mo_store x)),
    mo_calls := remove1 c (mo_calls x)\<rparr>)"
proof -
  define s key cid where "s = mo_store x" and "key = sc_thread_key c" and "cid = m_conversation_id sent"
  define s1 where "s1 = adopt_draft_thread key cid s"
  define s' where "s' = confirm_sent_message cid sent s1"
  let ?y = "x\<lparr>mo_store := s', mo_calls := remove1 c (mo_calls x)\<rparr>"
  have base: "sends_base x" and cov: "covered [] {} x" using ok by (simp_all add: sends_ok_def)
  have al: "aliases_ok s" using base by (simp add: sends_base_def s_def)
  have cok: "send_call_ok (mb_draft_aliases s) c" using base c(1) by (simp add: sends_base_def s_def)
  have q: "sc_queued c" "draft_like key" "mb_draft_aliases s key = None"
    using cok c(2) by (auto simp: send_call_ok_def key_def draft_like_target split: if_splits option.splits)
  have ne: "key \<noteq> cid" using q(2) sent(2) by (auto simp: cid_def)
  have al': "mb_draft_aliases s' = (mb_draft_aliases s)(key \<mapsto> cid)"
    using shrinks_confirm[of s1 cid sent] by (simp add: s'_def s1_def shrinks_def)
  have res: "resolve_thread_key s' k = (if k = key then cid else resolve_thread_key s k)" for k
    by (simp add: resolve_thread_key_def al')
  have from_key: "resolve_thread_key s k = key \<Longrightarrow> k = key" for k
    using al q(2) by (auto simp: resolve_thread_key_def aliases_ok_def split: option.splits)
  have res_key: "resolve_thread_key s key = key" using q(3) by (simp add: resolve_thread_key_def)
  have no_other: "queued_calls key ?y = []"
  proof -
    have "c \<in> set (queued_calls key x)" using c(1) q(1) by (simp add: queued_calls_def key_def)
    moreover have "length (queued_calls key x) \<le> 1" using base by (simp add: sends_base_def)
    ultimately have "queued_calls key x = [c]" by (cases "queued_calls key x") auto
    then show ?thesis using q(1) by (simp add: queued_calls_remove key_def)
  qed
  have base': "sends_base ?y"
  proof -
    have "send_call_ok (mb_draft_aliases s') c'" if "c' \<in> set (remove1 c (mo_calls x))" for c'
    proof -
      have "send_call_ok (mb_draft_aliases s) c'"
        using base that by (auto simp: sends_base_def s_def dest: notin_set_remove1)
      moreover have "\<not> (sc_queued c' \<and> sc_thread_key c' = key)"
        using no_other that by (auto simp: queued_calls_def filter_empty_conv)
      ultimately show ?thesis by (auto simp: send_call_ok_def al' split: option.splits)
    qed
    moreover have "aliases_ok s'" using al q(2) sent(2) by (auto simp: aliases_ok_def al' cid_def)
    moreover have "length (queued_calls k ?y) \<le> 1" for k
      using base by (auto simp: sends_base_def queued_calls_remove length_remove1 simp del: One_nat_def
          intro: le_trans[OF diff_le_self])
    ultimately show ?thesis using base by (auto simp: sends_base_def)
  qed
  have "covered [] {} ?y"
  proof (rule coveredI)
    fix k i assume "i \<in> sending_ids (mo_store ?y) k"
    then have i: "i \<in> sending_ids s' k" by simp
    then have i1: "i \<in> sending_ids s1 k" using shrinks_confirm[of s1 cid sent] by (auto simp: s'_def shrinks_def)
    have other: "k = cid \<Longrightarrow> i \<noteq> message_id (sc_message c)"
      using i sending_confirmed[of sent cid s1] sent(1) by (auto simp: s'_def)
    note parts = adopt_sending[OF ne i1[unfolded s1_def]]
    have "k \<noteq> key" using parts(1,3) ne by (auto simp: sending_ids_of split: option.splits)
    obtain k0 where k0: "i \<in> sending_ids s k0" "k0 = k \<or> (k = cid \<and> k0 = key)"
      using parts(2,3) by (cases "k = cid") auto
    from coveredD[OF cov, of i k0] k0(1) have "i \<in> call_ids x k0 \<or> i \<in> queued_ids x k0" by (simp add: s_def)
    moreover have lift: "resolve_thread_key s k' = k0 \<Longrightarrow> resolve_thread_key s' k' = k" for k'
      using k0(2) from_key res_key \<open>k \<noteq> key\<close> by (auto simp: res)
    have "i \<in> call_ids ?y k" if mem: "i \<in> call_ids x k0"
    proof -
      obtain c' where c': "c' \<in> set (mo_calls x)" "i = message_id (sc_message c')"
          "resolve_thread_key s (sc_thread_key c') = k0"
        using mem by (auto simp: call_ids_def s_def)
      have "c' \<noteq> c"
      proof
        assume "c' = c"
        then have "k0 = key" using c'(3) res_key by (simp add: key_def)
        then have "k = cid" using k0(2) \<open>k \<noteq> key\<close> by auto
        with other c'(2) \<open>c' = c\<close> show False by simp
      qed
      then have "c' \<in> set (remove1 c (mo_calls x))" using c'(1) by simp
      with c'(2) lift[OF c'(3)] show ?thesis by (auto simp: call_ids_def)
    qed
    moreover have "i \<in> queued_ids ?y k" if "i \<in> queued_ids x k0"
      using that lift by (auto simp: queued_ids_def s_def)
    ultimately show "i \<in> call_ids ?y k \<or> i \<in> queued_ids ?y k \<or> k = [] \<and> i \<in> {}" by blast
  qed
  with base' show ?thesis by (simp add: sends_ok_def s'_def s1_def s_def key_def cid_def)
qed

subsection \<open>All steps\<close>

lemma sends_deliver:
  assumes "sends_base x" "covered (resolve_thread_key (mo_store x) k) {message_id m} x" "screen_ok k conv"
  shows "sends_ok (mb_deliver k conv fid m pm x)"
proof (cases conv)
  case None
  then show ?thesis using assms sends_enqueue
    by (simp add: mb_deliver_def js_string_set_def screen_ok_def)
next
  case (Some c)
  then show ?thesis using assms sends_deliver_now[of x k m False "Some k"]
    by (simp add: mb_deliver_def draft_like_target screen_ok_def)
qed

lemma covered_new_row:
  assumes "sends_ok x" "mb_draft_aliases s' = mb_draft_aliases (mo_store x)"
    and "\<And>k' i. i \<in> sending_ids s' k' \<Longrightarrow> i \<in> sending_ids (mo_store x) k' \<or> (k' = k \<and> i = mid)"
  shows "sends_base (x\<lparr>mo_store := s'\<rparr>)" "covered k {mid} (x\<lparr>mo_store := s'\<rparr>)"
  using assms(1,3) by (auto simp: sends_ok_def base_aliases[OF assms(2)] covered_def ids_same[OF assms(2)])

lemma sending_upsert: "i \<in> sending_ids (upsert_message k m s) k' \<Longrightarrow>
    i \<in> sending_ids s k' \<or> (k' = k \<and> i = message_id m)"
  by (cases "k' = k") (auto simp: upsert_message_def Let_def mb_put_thread_def sending_ids_of thread_or_def
      sending_of_replace split: if_splits option.splits)

lemma sending_of_retry: "i \<in> sending_of (map_message ms mid (\<lambda>row. row\<lparr>send_state := Some Sending\<rparr>)) \<Longrightarrow>
    i \<in> sending_of ms \<or> i = mid"
  by (induction ms) (auto simp: map_message_def split: if_splits)

lemma sending_retry:
  "i \<in> sending_ids (patch_message k mid (\<lambda>row. row\<lparr>send_state := Some Sending\<rparr>) s) k' \<Longrightarrow>
   i \<in> sending_ids s k' \<or> (k' = k \<and> i = mid)"
  by (cases "k' = k") (auto simp: patch_message_def update_thread_messages_def sending_ids_of
      split: option.splits if_splits dest: sending_of_retry)

lemma aliases_rows [simp]:
  "mb_draft_aliases (upsert_message k m s) = mb_draft_aliases s"
  "mb_draft_aliases (patch_message k mid f s) = mb_draft_aliases s"
  by (simp_all add: upsert_message_def Let_def mb_put_thread_def patch_message_def update_thread_messages_def
      split: option.splits)

lemma queued_ids_head:
  assumes "mo_queues x k = task # rest" "i \<in> queued_ids x k'"
  shows "i \<in> queued_ids (x\<lparr>mo_queues := (mo_queues x)(k := rest)\<rparr>) k' \<or>
    (k' = resolve_thread_key (mo_store x) k \<and> i = message_id (dt_message task))"
proof -
  obtain d key where d: "d \<in> set (mo_queues x key)" "i = message_id (dt_message d)"
      "resolve_thread_key (mo_store x) key = k'"
    using assms(2) by (auto simp: queued_ids_def)
  show ?thesis
  proof (cases "d \<in> set (((mo_queues x)(k := rest)) key)")
    case True
    then have "i \<in> queued_ids (x\<lparr>mo_queues := (mo_queues x)(k := rest)\<rparr>) k'"
      unfolding queued_ids_def mem_Collect_eq
      by (intro exI[of _ d] exI[of _ key]) (use d(2,3) in \<open>simp add: resolve_thread_key_def\<close>)
    then show ?thesis ..
  next
    case False
    with d(1) have "key = k" "d = task" using assms(1) by (auto split: if_splits)
    with d show ?thesis by simp
  qed
qed

lemma sends_run:
  assumes ok: "sends_ok x"
  shows "sends_ok (run_draft_send k x)"
proof (cases "mo_queues x k")
  case (Cons task rest)
  show ?thesis
  proof (cases "queue_busy k x")
    case False
    let ?y = "x\<lparr>mo_queues := (mo_queues x)(k := rest)\<rparr>"
    have dl: "draft_like k" using ok Cons unfolding sends_ok_def sends_base_def by (metis list.distinct(1))
    have base: "sends_base ?y" using ok dl unfolding sends_ok_def sends_base_def by (simp add: queued_calls_def)
    have "covered (resolve_thread_key (mo_store ?y) k) {message_id (dt_message task)} ?y"
    proof (rule coveredI)
      fix k' i assume "i \<in> sending_ids (mo_store ?y) k'"
      then have "i \<in> call_ids x k' \<or> i \<in> queued_ids x k'"
        using ok coveredD[of "[]" "{}" x i k'] by (simp add: sends_ok_def)
      then have "i \<in> call_ids x k' \<or> i \<in> queued_ids ?y k' \<or>
          k' = resolve_thread_key (mo_store x) k \<and> i = message_id (dt_message task)"
        using queued_ids_head[OF Cons] by blast
      then show "i \<in> call_ids ?y k' \<or> i \<in> queued_ids ?y k' \<or>
          k' = resolve_thread_key (mo_store ?y) k \<and> i \<in> {message_id (dt_message task)}"
        by (simp add: call_ids_def)
    qed
    from sends_deliver_now[OF base this, of True None] False dl show ?thesis
      using Cons by (simp add: run_draft_send_def queue_busy_calls queued_calls_def)
  qed (use ok Cons in \<open>simp add: run_draft_send_def\<close>)
qed (use ok in \<open>simp add: run_draft_send_def\<close>)

lemma shrinks_describe: "describe_messages_failure e s = (msg, s1, probe) \<Longrightarrow> shrinks s s1"
  using shrinks_errors[of s e]
  by (auto simp: describe_messages_failure_def split: prod.splits option.splits)

lemma shrinks_trans: "shrinks a b \<Longrightarrow> shrinks b c \<Longrightarrow> shrinks a c"
  by (fastforce simp: shrinks_def)

lemma sends_done:
  assumes ok: "sends_ok x" and c: "c \<in> set (mo_calls x)" and echo: "echo_ok c r"
    and fin: "deliver_done c r (mo_store x) = (s, res, probe)"
  shows "sends_ok (x\<lparr>mo_store := s, mo_calls := remove1 c (mo_calls x)\<rparr>)"
proof (cases r)
  case (Inl e)
  obtain msg s1 pr where d: "describe_messages_failure e (mo_store x) = (msg, s1, pr)" by (metis surj_pair)
  then have s: "s = mark_send_failed (resolve_thread_key s1 (sc_thread_key c)) (message_id (sc_message c)) s1"
    using fin Inl by (simp add: deliver_done_def)
  have sh: "shrinks (mo_store x) s1" by (rule shrinks_describe[OF d])
  then have "resolve_thread_key s1 = resolve_thread_key (mo_store x)"
    by (intro resolve_same) (simp add: shrinks_def)
  then show ?thesis
    by (intro sends_settle[OF ok]) (use sh s in \<open>auto intro: shrinks_trans shrinks_failed simp: sending_failed\<close>)
next
  case (Inr sent)
  then have sent: "message_id sent = message_id (sc_message c)" "\<not> draft_like (m_conversation_id sent)"
    using echo by (simp_all add: echo_ok_def)
  show ?thesis
  proof (cases "js_string_set (sc_target c)")
    case True
    then have "s = confirm_sent_message (resolve_thread_key (mo_store x) (sc_thread_key c)) sent (mo_store x)"
      using fin Inr by (simp add: deliver_done_def)
    then show ?thesis
      using sends_settle[OF ok shrinks_confirm] sending_confirmed[of sent] sent(1) by simp
  next
    case False
    then show ?thesis using fin Inr sends_adopt[OF ok c False sent] by (simp add: deliver_done_def)
  qed
qed

lemma mobile_step_sends: "mobile_step x y \<Longrightarrow> sends_ok x \<Longrightarrow> sends_ok y"
proof (induction rule: mobile_step.induct)
  case (step_store x op')
  then show ?case
  proof (cases "op' = Op_sign_out")
    case True
    with step_store show ?thesis by (simp add: mb_reset_def sends_ok_reset)
  next
    case False
    from step_store sends_shrink[OF _ _ shrinks_op[OF False, of "mo_store x"], of "[]" "{}"] show ?thesis
      by (simp add: sends_ok_def)
  qed
next
  case (step_send k conv x fid viewer now mid raw replyTo pm)
  have "sends_ok (mb_deliver k conv fid m pm (x\<lparr>mo_store := upsert_message live m (mo_store x)\<rparr>))"
    if "live = resolve_thread_key (mo_store x) k" for m live
    by (rule sends_deliver) (use step_send that covered_new_row[OF _ _ sending_upsert]
        resolve_same[OF aliases_rows(1)] in auto)
  with step_send show ?case by (auto simp: mb_send_def Let_def split: option.splits)
next
  case (step_retry k conv x fid m)
  have "sends_ok (mb_deliver k conv fid (m\<lparr>send_state := Some Sending\<rparr>) True (x\<lparr>mo_store :=
      patch_message (resolve_thread_key (mo_store x) k) (message_id m)
        (\<lambda>row. row\<lparr>send_state := Some Sending\<rparr>) (mo_store x)\<rparr>))"
    by (rule sends_deliver) (use step_retry covered_new_row[OF _ _ sending_retry]
        resolve_same[OF aliases_rows(2)] in auto)
  with step_retry show ?case by (simp add: retry_def)
next
  case (step_discard x k m)
  then show ?case
    using sends_shrink[of x "[]" "{}", OF _ _ shrinks_remove] by (simp add: discard_def sends_ok_def)
next
  case (step_queue x k)
  then show ?case by (simp add: sends_run)
next
  case (step_sent c x r s res probe)
  then show ?case by (simp add: sends_done)
qed

lemma mobile_reachable_sends: "mobile_reachable x \<Longrightarrow> sends_ok x"
proof (induction rule: mobile_reachable.induct)
  case mobile_init
  then show ?case
    by (simp add: mobile_start_def sends_ok_def sends_base_def covered_def aliases_ok_def queued_calls_def
        sending_ids_def INITIAL_STATE_def)
qed (simp add: mobile_step_sends)

subsection \<open>Properties\<close>

text \<open>A first message, its request, and a second message that waits behind it.\<close>

definition mb_me :: message_user where
  "mb_me = \<lparr>u_fid = 7, u_username = None, u_display_name = ''me'', u_pfp_url = None\<rparr>"

definition demo_typed :: "jstr \<Rightarrow> jstr \<Rightarrow> mobile \<Rightarrow> mobile" where
  "demo_typed mid txt' x = fst (mb_send ''draft:42'' None (Some 42) (Some mb_me) 1000 mid txt' None True x)"

definition demo_waiting :: mobile where
  "demo_waiting = demo_typed ''m2'' ''second'' (run_draft_send ''draft:42'' (demo_typed ''m1'' ''first'' mobile_start))"

lemma demo_screen [simp]: "screen_ok ''draft:42'' None"
  by (simp add: screen_ok_def draft_like_def)

lemma demo_typed_step: "mobile_reachable x \<Longrightarrow> mobile_reachable (demo_typed mid txt' x)"
  unfolding demo_typed_def by (rule mobile_next[OF _ mobile_step.step_send]) simp_all

lemma demo_waiting_reachable: "mobile_reachable demo_waiting"
  unfolding demo_waiting_def
  by (intro demo_typed_step mobile_next[OF demo_typed_step[OF mobile_init] mobile_step.step_queue])



text \<open>
  C18. Only one message of a draft is on its way at a time. In every reachable state at most one
  queued request of a draft is in flight; a request that asks the server for a new conversation is only
  in flight while the draft has none; and once the draft has become a conversation, whatever its queue
  sends next is addressed to that conversation and to no recipient, so a draft never creates two.
\<close>
theorem draft_sends_serial:
  assumes "mobile_reachable x"
  shows "length (filter (\<lambda>c. sc_queued c \<and> sc_thread_key c = k) (mo_calls x)) \<le> 1 \<and>
    list_all (\<lambda>c. sc_target c \<noteq> None \<or> mb_draft_aliases (mo_store x) (sc_thread_key c) = None) (mo_calls x) \<and>
    (mb_draft_aliases (mo_store x) k = Some cid \<longrightarrow>
      list_all (\<lambda>c. sr_conversation_id (send_request c) = Some cid \<and> sr_recipient_fids (send_request c) = [])
        (drop (length (mo_calls x)) (mo_calls (run_draft_send k x))))"
proof (intro conjI impI)
  have ok: "sends_base x" using mobile_reachable_sends[OF assms] by (simp add: sends_ok_def)
  then show "length (filter (\<lambda>c. sc_queued c \<and> sc_thread_key c = k) (mo_calls x)) \<le> 1"
    by (simp add: sends_base_def queued_calls_def)
  show "list_all (\<lambda>c. sc_target c \<noteq> None \<or> mb_draft_aliases (mo_store x) (sc_thread_key c) = None) (mo_calls x)"
    unfolding list_all_iff
  proof
    fix c assume "c \<in> set (mo_calls x)"
    then have "send_call_ok (mb_draft_aliases (mo_store x)) c" using ok by (simp add: sends_base_def)
    then show "sc_target c \<noteq> None \<or> mb_draft_aliases (mo_store x) (sc_thread_key c) = None"
      by (cases "sc_target c") (simp_all add: send_call_ok_def split: if_splits)
  qed
  assume "mb_draft_aliases (mo_store x) k = Some cid"
  moreover from this have "draft_like k" "\<not> draft_like cid"
    using ok by (auto simp: sends_base_def aliases_ok_def)
  moreover from this have "cid \<noteq> k" by auto
  ultimately show "list_all (\<lambda>c. sr_conversation_id (send_request c) = Some cid \<and>
      sr_recipient_fids (send_request c) = [])
      (drop (length (mo_calls x)) (mo_calls (run_draft_send k x)))"
    by (simp add: run_draft_send_def deliver_now_def Let_def resolve_thread_key_def send_request_def
        draft_like_target split: list.split)
qed

text \<open>The conversations of the inbox, and what the badge counts of one.\<close>

definition inbox_rows :: "mb_store \<Rightarrow> conversation list" where
  "inbox_rows s = List.map_filter (jm_get (mb_conversations s)) (sl_ids (mb_inbox s Seg_default))"

definition badge_share :: "conversation \<Rightarrow> int" where
  "badge_share c = (if unread_count c \<ge> 1 then unread_count c else of_bool (manually_marked_unread c))"

lemma badge_total:
  "(\<Sum>i\<leftarrow>ids. unread_of (jm_get cs i))
     = sum_list (map badge_share (filter (\<lambda>c. \<not> muted c) (List.map_filter (jm_get cs) ids)))"
  by (induction ids) (auto simp: unread_of_def badge_share_def map_filter_simps split: option.split)

text \<open>
  C19. The mobile store stays sound in every reachable state, whatever pages, frames and answers arrive and
  in whatever order: each window is strictly newest first and holds no message twice; its flags say
  which sides can be paged, an older side exactly when there is an older cursor and a newer one exactly
  when there is a newer cursor, and it is detached from the live tail exactly in the latter case; no
  inbox lists a conversation twice; and the badge is the sum over the unmuted conversations of the
  inbox of their unread messages, where one without unread messages that was marked unread by hand
  counts one.
\<close>
theorem mobile_store_sound:
  assumes "mobile_reachable x"
  shows "(\<forall>k t. mb_threads (mo_store x) k = Some t \<longrightarrow>
      sorted_wrt newer_than (w_messages t) \<and> distinct (map message_id (w_messages t)) \<and>
      w_has_older t = (w_older_cursor t \<noteq> None) \<and> w_has_newer t = (w_newer_cursor t \<noteq> None) \<and>
      w_is_detached t = (w_newer_cursor t \<noteq> None)) \<and>
    distinct (sl_ids (mb_inbox (mo_store x) seg)) \<and>
    mb_unread_total (mo_store x) =
      sum_list (map badge_share (filter (\<lambda>c. \<not> muted c) (inbox_rows (mo_store x))))"
  using mobile_reachable_mb_ok[OF assms]
  by (simp add: mb_ok_def thread_ok_def window_ok_def slice_ok_def mb_badge_ok_def inbox_unread_total_def
      unread_total_sum badge_total inbox_rows_def)




text \<open>The first message lands: the server has made a conversation.\<close>

definition demo_echo :: message where
  "demo_echo = (mb_build_optimistic_message ''m1'' ''7-42'' mb_me ''first'' None 2000)\<lparr>send_state := None\<rparr>"

definition demo_first_call :: send_call where
  "demo_first_call = \<lparr>sc_thread_key = ''draft:42'', sc_target = None, sc_recipient = Some 42,
     sc_message = mb_build_optimistic_message ''m1'' ''draft:42'' mb_me ''first'' None 1000,
     sc_process_metadata = True, sc_queued = True\<rparr>"

definition settle_first :: "mb_error + message \<Rightarrow> mobile \<Rightarrow> mobile" where
  "settle_first r x = x\<lparr>mo_store := fst (deliver_done demo_first_call r (mo_store x)),
     mo_calls := remove1 demo_first_call (mo_calls x)\<rparr>"

lemma settle_first_reachable:
  assumes "mobile_reachable x" "demo_first_call \<in> set (mo_calls x)" "echo_ok demo_first_call r"
  shows "mobile_reachable (settle_first r x)"
  by (cases "deliver_done demo_first_call r (mo_store x)" rule: prod_cases3)
    (use mobile_next[OF assms(1) mobile_step.step_sent[OF assms(2,3)]] in \<open>simp add: settle_first_def\<close>)

lemma demo_calls: "mo_calls demo_waiting = [demo_first_call]"
  by code_simp

definition demo_landed :: mobile where
  "demo_landed = settle_first (Inr demo_echo) demo_waiting"

lemma demo_landed_reachable: "mobile_reachable demo_landed"
  unfolding demo_landed_def
  by (rule settle_first_reachable[OF demo_waiting_reachable])
    (simp_all add: demo_calls, code_simp)

theorem draft_sends_serial_witness:
  "mb_draft_aliases (mo_store demo_landed) ''draft:42'' = Some ''7-42'' \<and>
   map send_request (mo_calls (run_draft_send ''draft:42'' demo_landed)) \<noteq> [] \<and>
   list_all (\<lambda>c. sr_conversation_id (send_request c) = Some ''7-42'' \<and> sr_recipient_fids (send_request c) = [])
     (drop (length (mo_calls demo_landed)) (mo_calls (run_draft_send ''draft:42'' demo_landed)))"
proof -
  have "mb_draft_aliases (mo_store demo_landed) ''draft:42'' = Some ''7-42''" by code_simp
  moreover have "map send_request (mo_calls (run_draft_send ''draft:42'' demo_landed)) \<noteq> []" by code_simp
  ultimately show ?thesis
    using draft_sends_serial[OF demo_landed_reachable, of "''draft:42''" "''7-42''"] by simp
qed

text \<open>An inbox with an unread, a muted and a marked conversation, over the thread that landed.\<close>

definition badge_conv :: "jstr \<Rightarrow> int \<Rightarrow> bool \<Rightarrow> bool \<Rightarrow> conversation" where
  "badge_conv cid unread isMuted marked = \<lparr>conversation_id = cid, is_group = False, c_name = None, photo_url = None,
     participants = [], counterparty = None, last_message = None, unread_count = unread,
     unread_mentions_count = 0, muted = isMuted, pinned = False, archived = False, category = CDefault,
     access = Read_write, last_read_at = 0, manually_marked_unread = marked, created_at = 0, peer_last_read_at = None\<rparr>"

definition demo_inbox :: mobile where
  "demo_inbox = demo_landed\<lparr>mo_store := run_mb_op (Op_inbox 5 Seg_default
     \<lparr>ir_items = [badge_conv ''c1'' 2 False False, badge_conv ''c2'' 7 True False, badge_conv ''c3'' 0 False True,
        badge_conv ''c4'' 0 False False],
      ir_next_cursor = None, ir_requests_count = 0, ir_has_unread_requests = False, ir_has_archived = False\<rparr>
     Inbox_replace) (mo_store demo_landed)\<rparr>"

lemma demo_inbox_reachable: "mobile_reachable demo_inbox"
  unfolding demo_inbox_def by (rule mobile_next[OF demo_landed_reachable mobile_step.step_store])

theorem mobile_store_sound_witness:
  "map_option (\<lambda>t. length (w_messages t)) (mb_threads (mo_store demo_inbox) ''7-42'') = Some 2 \<and>
   map conversation_id (inbox_rows (mo_store demo_inbox)) = [''c1'', ''c2'', ''c3'', ''c4''] \<and>
   mb_unread_total (mo_store demo_inbox) = 3"
proof -
  have "map_option (\<lambda>t. length (w_messages t)) (mb_threads (mo_store demo_inbox) ''7-42'') = Some 2" by code_simp
  moreover have "map conversation_id (inbox_rows (mo_store demo_inbox)) = [''c1'', ''c2'', ''c3'', ''c4'']" by code_simp
  moreover have "sum_list (map badge_share (filter (\<lambda>c. \<not> muted c) (inbox_rows (mo_store demo_inbox)))) = 3"
    by code_simp
  ultimately show ?thesis using mobile_store_sound[OF demo_inbox_reachable, of Seg_default] by simp
qed

text \<open>
  Signing out resets the store but not the queues of draft sends: a message that waited behind another
  one goes out afterwards, with the credentials of whoever is signed in then.
\<close>

lemma queued_send_survives_sign_out:
  "\<exists>x. mobile_reachable x \<and> mo_store x = INITIAL_STATE \<and>
     map (\<lambda>c. m_text (sc_message c)) (mo_calls x) = [''second'']"
proof -
  define out where "out = demo_waiting\<lparr>mo_store := run_mb_op Op_sign_out (mo_store demo_waiting)\<rparr>"
  define x where "x = run_draft_send ''draft:42'' (settle_first (Inl Err_other) out)"
  have "mobile_reachable out" unfolding out_def
    by (rule mobile_next[OF demo_waiting_reachable mobile_step.step_store])
  moreover have "demo_first_call \<in> set (mo_calls out)" by (simp add: out_def demo_calls)
  ultimately have "mobile_reachable x" unfolding x_def
    by (intro mobile_next[OF settle_first_reachable mobile_step.step_queue]) (simp_all add: echo_ok_def)
  moreover have "mo_store x = INITIAL_STATE"
    by (simp add: x_def out_def run_draft_send_def deliver_now_def Let_def settle_first_def deliver_done_def
        describe_messages_failure_def apply_messages_error_def mb_reset_def mark_send_failed_def
        update_thread_messages_def INITIAL_STATE_def split: list.split)
  moreover have "map (\<lambda>c. m_text (sc_message c)) (mo_calls x) = [''second'']"
    unfolding x_def out_def by code_simp
  ultimately show ?thesis by (intro exI[of _ x] conjI)
qed

end
