(* ===== verification/Mobile_Window.thy ===== *)
theory Mobile_Window
  imports Mobile_Sends
begin

section \<open>Reading a thread in the mobile app\<close>

text \<open>
  \<^verbatim>\<open>farcaster-audio/hooks/useConversation.ts\<close>: the loads of a thread's window, the poll at its live tail,
  the jump to a message, the unread separator and the marking as read, each split at its awaits. The
  abstract specification is the conversation's history on the server: a window should be an unbroken
  stretch of it.
\<close>

subsection \<open>Helpers of the hook\<close>

definition THREAD_SYNC_STALE_MS :: int where
  "THREAD_SYNC_STALE_MS = 60000"

definition is_incoming_message :: "message \<Rightarrow> int \<Rightarrow> bool" where
  "is_incoming_message m viewerFid \<longleftrightarrow> u_fid (sender m) \<noteq> viewerFid \<and> send_state m = None"



definition find_unread_separator_id :: "message list \<Rightarrow> int \<Rightarrow> int \<Rightarrow> jstr option" where
  "find_unread_separator_id ms viewerFid unreadCount =
     (if unreadCount \<le> 0 then None
      else let lastReadIndex = js_find_index is_last_read ms
           in if lastReadIndex = Some 0 then None
              else let newer = (case lastReadIndex of Some i \<Rightarrow> take i ms | None \<Rightarrow> ms);
                       incoming = filter (\<lambda>m. is_incoming_message m viewerFid) newer
                   in if incoming = [] then None
                      else if lastReadIndex \<noteq> None then Some (message_id (last incoming))
                      else Some (message_id (incoming ! nat (min unreadCount (int (length incoming)) - 1))))"

definition should_reload_latest :: "mb_thread option \<Rightarrow> message list \<Rightarrow> int \<Rightarrow> bool" where
  "should_reload_latest thread recent now =
     (case thread of
        None \<Rightarrow> False
      | Some t \<Rightarrow>
          if \<not> w_is_loaded t \<or> w_is_detached t then False
          else if (case w_synced_at t of None \<Rightarrow> True | Some sy \<Rightarrow> now - sy > THREAD_SYNC_STALE_MS) then True
          else if recent = [] then False
          else let loadedIds = set (map message_id (w_messages t))
               in \<not> list_ex (\<lambda>m. message_id m \<in> loadedIds) recent)"

subsection \<open>The hook\<close>

record conv_hook =
  ch_is_loading :: bool
  ch_is_loading_older :: bool
  ch_is_loading_newer :: bool
  ch_error_code :: "messages_error_code option"
  ch_unread_separator_id :: "jstr option"
  ch_is_poll_in_flight :: bool
  ch_last_marked_key :: "jstr option"
  ch_has_captured_separator :: bool

definition conv_hook_mounted :: conv_hook where
  "conv_hook_mounted = \<lparr>ch_is_loading = False, ch_is_loading_older = False, ch_is_loading_newer = False,
     ch_error_code = None, ch_unread_separator_id = None, ch_is_poll_in_flight = False,
     ch_last_marked_key = None, ch_has_captured_separator = False\<rparr>"

text \<open>What a handler waits for. An adjacent page carries the cursor it was asked with.\<close>

datatype conv_call =
  Cc_reload
  | Cc_recent
  | Cc_poll_latest
  | Cc_older jstr
  | Cc_newer jstr
  | Cc_anchor jstr
  | Cc_mark_read

type_synonym conv_act = "(conv_hook \<times> mb_store) \<times> conv_call list"





definition poll_recent_messages_done ::
  "int \<Rightarrow> jstr \<Rightarrow> mb_error + messages_page \<Rightarrow> conv_hook \<times> mb_store \<Rightarrow> conv_act" where
  "poll_recent_messages_done now cid r hs =
     (case hs of (h, s) \<Rightarrow>
        case r of
          Inr recent \<Rightarrow>
            (if should_reload_latest (mb_threads s cid) (mp_items recent) now then (hs, [Cc_poll_latest])
             else ((h\<lparr>ch_is_poll_in_flight := False\<rparr>,
                    mark_thread_synced cid now (merge_latest cid (mp_items recent) s)), []))
        | Inl e \<Rightarrow> ((h\<lparr>ch_is_poll_in_flight := False\<rparr>, fst (snd (apply_messages_error e s))), []))"


definition load_adjacent_page ::
  "bool \<Rightarrow> bool \<Rightarrow> jstr option \<Rightarrow> conv_hook \<times> mb_store \<Rightarrow> conv_act" where
  "load_adjacent_page older canFetch conversationId hs =
     (case hs of (h, s) \<Rightarrow>
        case conversationId of
          None \<Rightarrow> (hs, [])
        | Some cid \<Rightarrow>
            if \<not> canFetch \<or> cid = [] then (hs, [])
            else (case (if older then w_older_cursor (thread_or EMPTY_THREAD cid s)
                        else w_newer_cursor (thread_or EMPTY_THREAD cid s)) of
                    None \<Rightarrow> (hs, [])
                  | Some cursor \<Rightarrow>
                      if cursor = [] then (hs, [])
                      else if older then ((h\<lparr>ch_is_loading_older := True\<rparr>, s), [Cc_older cursor])
                      else ((h\<lparr>ch_is_loading_newer := True\<rparr>, s), [Cc_newer cursor])))"



definition load_adjacent_page_done ::
  "bool \<Rightarrow> int \<Rightarrow> jstr \<Rightarrow> mb_error + messages_page \<Rightarrow> conv_hook \<times> mb_store \<Rightarrow> conv_hook \<times> mb_store" where
  "load_adjacent_page_done older now cid r hs =
     (case hs of (h, s) \<Rightarrow>
        (if older then h\<lparr>ch_is_loading_older := False\<rparr> else h\<lparr>ch_is_loading_newer := False\<rparr>,
         case r of
           Inr page \<Rightarrow> set_thread_page now cid page (if older then Page_older else Page_newer) s
         | Inl e \<Rightarrow> fst (snd (apply_messages_error e s))))"




text \<open>The two effects after a render: freezing the separator, then marking as read.\<close>

definition capture_separator ::
  "int \<Rightarrow> conversation option \<Rightarrow> mb_thread \<Rightarrow> conv_hook \<Rightarrow> conv_hook" where
  "capture_separator viewerFid conversation' t h =
     (case conversation' of
        None \<Rightarrow> h
      | Some c \<Rightarrow>
          if \<not> w_is_loaded t \<or> ch_has_captured_separator h then h
          else h\<lparr>ch_has_captured_separator := True,
                 ch_unread_separator_id := find_unread_separator_id (w_messages t) viewerFid (unread_count c)\<rparr>)"


subsection \<open>The history of a conversation\<close>

text \<open>
  The history on the server, oldest first; a stretch of it; and a page that answers with a stretch. A
  cursor is opaque: \<open>pos\<close> is the place in the history it stands for, which later messages do not move.
\<close>

definition key_of :: "message \<Rightarrow> int \<times> jstr" where
  "key_of m = (sent_at m, message_id m)"


definition stretch :: "message list \<Rightarrow> nat \<Rightarrow> nat \<Rightarrow> (int \<times> jstr) set" where
  "stretch H i j = (\<lambda>p. key_of (H ! p)) ` {i..<j}"

definition keys_of :: "message list \<Rightarrow> (int \<times> jstr) set" where
  "keys_of ms = key_of ` set ms"

definition items_of :: "message list \<Rightarrow> nat \<Rightarrow> nat \<Rightarrow> message list \<Rightarrow> bool" where
  "items_of H i j ms \<longleftrightarrow> i \<le> j \<and> j \<le> length H \<and> keys_of ms = stretch H i j"



text \<open>
  The window is an unbroken stretch, and its cursors continue it: the page before the older cursor and
  the page after the newer one join it without a hole.
\<close>

definition unbroken :: "(jstr \<Rightarrow> nat) \<Rightarrow> message list \<Rightarrow> mb_thread \<Rightarrow> nat \<Rightarrow> nat \<Rightarrow> bool" where
  "unbroken pos H t i j \<longleftrightarrow> items_of H i j (w_messages t) \<and>
     (case w_older_cursor t of None \<Rightarrow> i = 0 | Some c \<Rightarrow> i \<le> pos c \<and> pos c \<le> j) \<and>
     (case w_newer_cursor t of None \<Rightarrow> True | Some c \<Rightarrow> i \<le> pos c \<and> pos c \<le> j)"












text \<open>Each load keeps the window unbroken.\<close>

definition win_settled :: "mb_thread \<Rightarrow> bool" where
  "win_settled t \<longleftrightarrow> list_all (\<lambda>m. send_state m = None) (w_messages t) \<and> window_ok (w_messages t)"

lemma win_settled_merge: "list_all (\<lambda>m. send_state m = None) ex \<Longrightarrow> list_all (\<lambda>m. send_state m = None) (mb_merge_messages ex inc)"
  using set_merge_by_id[of ex "map to_server_copy inc"] by (fastforce simp: mb_merge_messages_def list_all_iff)


lemma items_of_Nil [simp]: "i \<le> length H \<Longrightarrow> items_of H i i []"
  by (simp add: items_of_def keys_of_def stretch_def)









subsection \<open>Reading as a system\<close>










text \<open>The invariant: the window is empty and unloaded, or an unbroken stretch.\<close>

definition window_sound :: "(jstr \<Rightarrow> nat) \<Rightarrow> message list \<Rightarrow> mb_thread \<Rightarrow> bool" where
  "window_sound pos H t \<longleftrightarrow> win_settled t \<and> thread_ok t \<and>
     (if w_is_loaded t then \<exists>i j. unbroken pos H t i j
      else w_messages t = [] \<and> w_older_cursor t = None \<and> w_newer_cursor t = None)"












lemma unbroken_synced [simp]: "unbroken pos H (t\<lparr>w_synced_at := x\<rparr>) = unbroken pos H t"
  by (intro ext) (simp add: unbroken_def)

lemma window_sound_synced [simp]:
  "window_sound pos H (t\<lparr>w_synced_at := x\<rparr>) = window_sound pos H t"
  by (simp add: window_sound_def win_settled_def)


















subsection \<open>The window on the screen\<close>







text \<open>A conversation of four messages, opened at its end and read one page back.\<close>

definition demo_msg :: "jstr \<Rightarrow> int \<Rightarrow> message" where
  "demo_msg mid at' = (mb_build_optimistic_message mid ''7-42'' mb_me ''hi'' None at')\<lparr>send_state := None\<rparr>"

definition demo_history :: "message list" where
  "demo_history = [demo_msg ''m1'' 1, demo_msg ''m2'' 2, demo_msg ''m3'' 3, demo_msg ''m4'' 4]"


definition demo_page :: "nat \<Rightarrow> nat \<Rightarrow> jstr option \<Rightarrow> jstr option \<Rightarrow> messages_page" where
  "demo_page i j older newer = \<lparr>mp_items = rev (take (j - i) (drop i demo_history)),
     mp_next_cursor = older, mp_next_newer_cursor = Some newer\<rparr>"










subsection \<open>Where the window breaks\<close>

definition win_shown :: "mb_store \<Rightarrow> jstr list" where
  "win_shown s = map message_id (w_messages (thread_or EMPTY_THREAD ''7-42'' s))"

text \<open>
  A page asked for by the cursor of one window is merged into whatever window is there when it answers:
  after a jump made meanwhile the second message is missing between the first and the third.
\<close>

definition demo_jumped :: mb_store where
  "demo_jumped = set_thread_page 11 ''7-42'' (demo_page 0 1 None (Some ''p1'')) Page_anchor
     (set_thread_page 10 ''7-42'' (demo_page 3 4 (Some ''p3'') None) Page_replace INITIAL_STATE)"

lemma stale_page_opens_gap:
  "snd (load_adjacent_page True True (Some ''7-42'') (conv_hook_mounted,
      set_thread_page 10 ''7-42'' (demo_page 3 4 (Some ''p3'') None) Page_replace INITIAL_STATE)) = [Cc_older ''p3'']"
  "win_shown (snd (load_adjacent_page_done True 12 ''7-42'' (Inr (demo_page 2 3 (Some ''p2'') None))
      (conv_hook_mounted, demo_jumped))) = [''m3'', ''m1'']"
  by code_simp+

text \<open>
  After a lost frame, the frame that follows it is merged onto the window; then a recent page that holds
  it shares a message with the window, and the hole is taken for none: here the third message is missing
  until the window goes stale.
\<close>

lemma pushed_message_hides_gap:
  "win_shown (snd (fst (poll_recent_messages_done 12 ''7-42'' (Inr (demo_page 3 4 (Some ''p3'') None)) (conv_hook_mounted,
      merge_latest ''7-42'' [demo_history ! 3]
        (set_thread_page 10 ''7-42'' (demo_page 0 2 None None) Page_replace INITIAL_STATE))))) = [''m4'', ''m2'', ''m1'']"
  "snd (poll_recent_messages_done 12 ''7-42'' (Inr (demo_page 3 4 (Some ''p3'') None)) (conv_hook_mounted,
      set_thread_page 10 ''7-42'' (demo_page 0 2 None None) Page_replace INITIAL_STATE)) = [Cc_poll_latest]"
  by code_simp+

text \<open>A reload keeps a send that failed; a jump to a message outside the window drops its row.\<close>

lemma anchor_jump_loses_failed_send:
  "win_shown (set_thread_page 11 ''7-42'' (demo_page 2 4 (Some ''p2'') None) Page_replace
     (upsert_message ''7-42'' ((demo_msg ''mine'' 9)\<lparr>send_state := Some Failed\<rparr>)
       (set_thread_page 10 ''7-42'' (demo_page 3 4 (Some ''p3'') None) Page_replace INITIAL_STATE))) = [''mine'', ''m4'', ''m3'']"
  "win_shown (set_thread_page 11 ''7-42'' (demo_page 0 1 None (Some ''p1'')) Page_anchor
     (upsert_message ''7-42'' ((demo_msg ''mine'' 9)\<lparr>send_state := Some Failed\<rparr>)
       (set_thread_page 10 ''7-42'' (demo_page 3 4 (Some ''p3'') None) Page_replace INITIAL_STATE))) = [''m1'']"
  by code_simp+

end
