(* ===== verification/Mobile_Inbox.thy ===== *)
theory Mobile_Inbox
  imports Mobile_Sends
begin

section \<open>The inbox of the mobile app and its badge\<close>

text \<open>
  \<^verbatim>\<open>farcaster-audio/hooks/useInbox.ts\<close> and \<^verbatim>\<open>farcaster-audio/hooks/useMessagesBadge.ts\<close>, each handler
  split at its awaits: the loads of the two segments, the unread toggle, the answer to a request, the
  badge fetch with its throttle and debounce, and the events of the socket. They write the store of
  \<open>Mobile_Store\<close>.
\<close>

subsection \<open>The inbox hook\<close>

definition INBOX_POLL_MS :: int where
  "INBOX_POLL_MS = 15000"

datatype request_decision = Accept | Decline

datatype fetch_mode = Fm_initial | Fm_refresh | Fm_poll | Fm_more

fun INBOX_PAGE_MODE :: "fetch_mode \<Rightarrow> inbox_page_mode" where
  "INBOX_PAGE_MODE Fm_initial = Inbox_replace"
| "INBOX_PAGE_MODE Fm_refresh = Inbox_merge"
| "INBOX_PAGE_MODE Fm_poll = Inbox_merge"
| "INBOX_PAGE_MODE Fm_more = Inbox_append"

text \<open>The state of one mounted hook; \<open>ih_segment\<close> is \<^verbatim>\<open>segmentRef.current\<close>, the sets are lists.\<close>

record inbox_hook =
  ih_is_loading :: bool
  ih_is_refreshing :: bool
  ih_is_loading_more :: bool
  ih_error_code :: "messages_error_code option"
  ih_responding_id :: "jstr option"
  ih_page_one_in_flight :: "mb_segment list"
  ih_load_more_in_flight :: "mb_segment list"
  ih_segment :: mb_segment

definition inbox_hook_mounted :: "mb_segment \<Rightarrow> inbox_hook" where
  "inbox_hook_mounted segment = \<lparr>ih_is_loading = False, ih_is_refreshing = False, ih_is_loading_more = False,
     ih_error_code = None, ih_responding_id = None, ih_page_one_in_flight = [], ih_load_more_in_flight = [],
     ih_segment = segment\<rparr>"

text \<open>The calls of the inbox and of the badge; a page carries its cursor.\<close>

datatype inbox_call =
  Ic_page mb_segment fetch_mode "jstr option"
  | Ic_toggle conversation bool
  | Ic_respond jstr request_decision
  | Ic_refetch
  | Ic_badge
  | Ic_peer jstr

fun set_busy :: "fetch_mode \<Rightarrow> bool \<Rightarrow> inbox_hook \<Rightarrow> inbox_hook" where
  "set_busy Fm_initial b h = h\<lparr>ih_is_loading := b\<rparr>"
| "set_busy Fm_refresh b h = h\<lparr>ih_is_refreshing := b\<rparr>"
| "set_busy Fm_more b h = h\<lparr>ih_is_loading_more := b\<rparr>"
| "set_busy Fm_poll b h = h"

definition in_flight :: "fetch_mode \<Rightarrow> inbox_hook \<Rightarrow> mb_segment list" where
  "in_flight mode h = (if mode = Fm_more then ih_load_more_in_flight h else ih_page_one_in_flight h)"

definition put_in_flight :: "fetch_mode \<Rightarrow> mb_segment list \<Rightarrow> inbox_hook \<Rightarrow> inbox_hook" where
  "put_in_flight mode segs h =
     (if mode = Fm_more then h\<lparr>ih_load_more_in_flight := segs\<rparr> else h\<lparr>ih_page_one_in_flight := segs\<rparr>)"

definition fetch_page ::
  "bool \<Rightarrow> mb_segment \<Rightarrow> fetch_mode \<Rightarrow> inbox_hook \<times> mb_store \<Rightarrow> inbox_hook \<times> inbox_call list" where
  "fetch_page isEnabled segment mode hs =
     (case hs of (h, s) \<Rightarrow>
        if \<not> isEnabled then (h, [])
        else if segment \<in> set (in_flight mode h) then (h, [])
        else let cursor = sl_cursor (mb_inbox s segment)
             in if mode = Fm_more \<and> \<not> js_string_set cursor then (h, [])
                else (set_busy mode True (put_in_flight mode (segment # in_flight mode h) h),
                      [Ic_page segment mode (if mode = Fm_more then cursor else None)]))"

definition fetch_page_done ::
  "int \<Rightarrow> mb_segment \<Rightarrow> fetch_mode \<Rightarrow> mb_error + inbox_response \<Rightarrow> inbox_hook \<times> mb_store \<Rightarrow> inbox_hook \<times> mb_store" where
  "fetch_page_done now segment mode r hs =
     (case hs of (h, s) \<Rightarrow>
        (case (case r of
                 Inr response \<Rightarrow>
                   (if ih_segment h = segment then h\<lparr>ih_error_code := None\<rparr> else h,
                    set_inbox_page now segment response (INBOX_PAGE_MODE mode) s)
               | Inl e \<Rightarrow>
                   (case apply_messages_error e s of (code, s1, probe) \<Rightarrow>
                      (if code \<noteq> None \<and> mode \<noteq> Fm_poll \<and> ih_segment h = segment
                       then h\<lparr>ih_error_code := code\<rparr> else h, s1)))
         of (h1, s1) \<Rightarrow>
           (set_busy mode False (put_in_flight mode (removeAll segment (in_flight mode h1)) h1), s1)))"

text \<open>A render with another segment and its effect; the focus effect and its timer.\<close>

definition switch_segment :: "mb_segment \<Rightarrow> inbox_hook \<Rightarrow> inbox_hook" where
  "switch_segment segment h = h\<lparr>ih_segment := segment, ih_error_code := None\<rparr>"

definition inbox_focus_effect ::
  "bool \<Rightarrow> bool \<Rightarrow> mb_segment \<Rightarrow> inbox_hook \<times> mb_store \<Rightarrow> inbox_hook \<times> inbox_call list" where
  "inbox_focus_effect isEnabled isFocused segment hs =
     (case hs of (h, s) \<Rightarrow>
        if \<not> isEnabled \<or> \<not> isFocused then (h, [])
        else fetch_page isEnabled segment
               (if sl_loaded_at (mb_inbox s segment) \<noteq> None then Fm_poll else Fm_initial) hs)"

definition toggle_unread :: "conversation \<Rightarrow> mb_store \<Rightarrow> mb_store \<times> inbox_call list" where
  "toggle_unread c s =
     (let isUnread = is_conversation_unread c
      in (mb_patch_conversation (conversation_id c)
            (if isUnread then (\<lambda>x. x\<lparr>unread_count := 0, manually_marked_unread := False\<rparr>)
             else (\<lambda>x. x\<lparr>manually_marked_unread := True\<rparr>)) s,
          [Ic_toggle c isUnread]))"

text \<open>The result says whether the promise is rejected.\<close>

definition toggle_unread_done :: "conversation \<Rightarrow> mb_error option \<Rightarrow> mb_store \<Rightarrow> mb_store \<times> bool" where
  "toggle_unread_done c r s =
     (case r of
        None \<Rightarrow> (s, False)
      | Some e \<Rightarrow>
          (fst (snd (apply_messages_error e
             (mb_patch_conversation (conversation_id c)
                (\<lambda>x. x\<lparr>unread_count := unread_count c, manually_marked_unread := manually_marked_unread c\<rparr>) s))), True))"

definition respond_to_request :: "jstr \<Rightarrow> request_decision \<Rightarrow> inbox_hook \<Rightarrow> inbox_hook \<times> inbox_call list" where
  "respond_to_request cid decision h = (h\<lparr>ih_responding_id := Some cid\<rparr>, [Ic_respond cid decision])"

definition respond_to_request_done ::
  "jstr \<Rightarrow> mb_error option \<Rightarrow> inbox_hook \<times> mb_store \<Rightarrow> (inbox_hook \<times> mb_store) \<times> inbox_call list" where
  "respond_to_request_done cid r hs =
     (case hs of (h, s) \<Rightarrow>
        case r of
          Some e \<Rightarrow> ((h\<lparr>ih_responding_id := None\<rparr>, fst (snd (apply_messages_error e s))), [])
        | None \<Rightarrow> ((h\<lparr>ih_responding_id := None\<rparr>, remove_from_inbox Seg_request cid s), [Ic_refetch]))"

definition respond_refetch_done ::
  "int \<Rightarrow> inbox_response option \<Rightarrow> inbox_response option \<Rightarrow> mb_store \<Rightarrow> mb_store" where
  "respond_refetch_done now requests chats s =
     (let s1 = (case requests of Some r \<Rightarrow> set_inbox_page now Seg_request r Inbox_merge s | None \<Rightarrow> s)
      in case chats of Some r \<Rightarrow> set_inbox_page now Seg_default r Inbox_merge s1 | None \<Rightarrow> s1)"

text \<open>The rows on the screen.\<close>

definition inbox_conversations :: "mb_segment \<Rightarrow> mb_store \<Rightarrow> conversation list" where
  "inbox_conversations segment s =
     List.map_filter (jm_get (mb_conversations s)) (sl_ids (mb_inbox s segment))"

subsection \<open>The badge hook\<close>

definition BADGE_REFETCH_THROTTLE_MS :: int where
  "BADGE_REFETCH_THROTTLE_MS = 60000"

definition EVENT_REFETCH_DEBOUNCE_MS :: int where
  "EVENT_REFETCH_DEBOUNCE_MS = 1500"

text \<open>The due time stands for the pending debounce timer.\<close>

record badge_hook =
  bh_in_flight :: bool
  bh_last_fetch_at :: int
  bh_debounce :: "int option"

definition badge_hook_mounted :: badge_hook where
  "badge_hook_mounted = \<lparr>bh_in_flight = False, bh_last_fetch_at = 0, bh_debounce = None\<rparr>"

definition fetch_badge :: "int \<Rightarrow> badge_hook \<Rightarrow> badge_hook \<times> inbox_call list" where
  "fetch_badge now b =
     (if bh_in_flight b then (b, [])
      else (b\<lparr>bh_in_flight := True, bh_last_fetch_at := now\<rparr>, [Ic_badge]))"

definition fetch_badge_done :: "int \<Rightarrow> mb_error + inbox_response \<Rightarrow> badge_hook \<times> mb_store \<Rightarrow> badge_hook \<times> mb_store" where
  "fetch_badge_done now r bs =
     (case bs of (b, s) \<Rightarrow>
        (b\<lparr>bh_in_flight := False\<rparr>,
         (case r of
            Inr response \<Rightarrow> set_inbox_page now Seg_default response Inbox_merge s
          | Inl e \<Rightarrow> fst (snd (apply_messages_error e s)))))"

definition signed_out_effect :: "bool \<Rightarrow> mb_store \<Rightarrow> mb_store" where
  "signed_out_effect isAuthenticated s = (if \<not> isAuthenticated then mb_reset s else s)"

definition badge_ready_effect :: "bool \<Rightarrow> int \<Rightarrow> badge_hook \<times> mb_store \<Rightarrow> badge_hook \<times> inbox_call list" where
  "badge_ready_effect isReady now bs =
     (case bs of (b, s) \<Rightarrow>
        if \<not> isReady \<or> mb_availability s = Mav_unavailable then (b, []) else fetch_badge now b)"

definition badge_foreground :: "int \<Rightarrow> badge_hook \<times> mb_store \<Rightarrow> badge_hook \<times> inbox_call list" where
  "badge_foreground now bs =
     (case bs of (b, s) \<Rightarrow>
        let loadedAt = (case sl_loaded_at (mb_inbox s Seg_default) of None \<Rightarrow> 0 | Some t \<Rightarrow> t);
            lastAt = max loadedAt (bh_last_fetch_at b)
        in if now - lastAt \<le> BADGE_REFETCH_THROTTLE_MS then (b, []) else fetch_badge now b)"

definition schedule_inbox_refetch :: "int \<Rightarrow> badge_hook \<Rightarrow> badge_hook" where
  "schedule_inbox_refetch now b = b\<lparr>bh_debounce := Some (now + EVENT_REFETCH_DEBOUNCE_MS)\<rparr>"

definition debounce_fired :: "int \<Rightarrow> badge_hook \<Rightarrow> badge_hook \<times> inbox_call list" where
  "debounce_fired now b = fetch_badge now (b\<lparr>bh_debounce := None\<rparr>)"

definition apply_read_event :: "int \<Rightarrow> jstr \<Rightarrow> read_by option \<Rightarrow> mb_store \<Rightarrow> mb_store \<times> inbox_call list" where
  "apply_read_event now cid readBy s =
     (if readBy \<noteq> Some By_peer then (mark_read_local now cid s, [])
      else if jm_get (mb_conversations s) cid = None then (s, [])
      else (s, [Ic_peer cid]))"

definition apply_read_event_done :: "jstr \<Rightarrow> mb_error + conversation \<Rightarrow> mb_store \<Rightarrow> mb_store" where
  "apply_read_event_done cid r s =
     (case r of
        Inr c \<Rightarrow> apply_peer_read cid (peer_last_read_at c) s
      | Inl e \<Rightarrow> fst (snd (apply_messages_error e s)))"

definition handle_messages_event ::
  "int \<Rightarrow> messages_event \<Rightarrow> badge_hook \<times> mb_store \<Rightarrow> (badge_hook \<times> mb_store) \<times> inbox_call list" where
  "handle_messages_event now ev bs =
     (case bs of (b, s) \<Rightarrow>
        case ev of
          Ev_message cid m \<Rightarrow> ((schedule_inbox_refetch now b, merge_latest cid [m] s), [])
        | Ev_read cid readBy \<Rightarrow> (case apply_read_event now cid readBy s of (s1, calls) \<Rightarrow> ((b, s1), calls))
        | Ev_inbox cid \<Rightarrow> ((schedule_inbox_refetch now b, s), [])
        | Ev_ping \<Rightarrow> ((b, s), []))"

subsection \<open>The system\<close>

text \<open>
  The inbox screen, the badge and their calls over one store. Any load can be started at any time, any
  call can settle with any answer, and the store can change under them in any other way
  (\<open>run_mb_op\<close>).
\<close>

record inbox_sys =
  sys_hook :: inbox_hook
  sys_badge :: badge_hook
  sys_store :: mb_store
  sys_calls :: "inbox_call list"

definition inbox_sys_start :: "mb_segment \<Rightarrow> inbox_sys" where
  "inbox_sys_start segment = \<lparr>sys_hook = inbox_hook_mounted segment, sys_badge = badge_hook_mounted,
     sys_store = INITIAL_STATE, sys_calls = []\<rparr>"

definition hook_act :: "inbox_hook \<times> inbox_call list \<Rightarrow> inbox_sys \<Rightarrow> inbox_sys" where
  "hook_act a x = x\<lparr>sys_hook := fst a, sys_calls := sys_calls x @ snd a\<rparr>"

definition badge_act :: "badge_hook \<times> inbox_call list \<Rightarrow> inbox_sys \<Rightarrow> inbox_sys" where
  "badge_act a x = x\<lparr>sys_badge := fst a, sys_calls := sys_calls x @ snd a\<rparr>"

definition inbox_store_act :: "mb_store \<times> inbox_call list \<Rightarrow> inbox_sys \<Rightarrow> inbox_sys" where
  "inbox_store_act a x = x\<lparr>sys_store := fst a, sys_calls := sys_calls x @ snd a\<rparr>"

definition settled_call :: "inbox_call \<Rightarrow> inbox_sys \<Rightarrow> inbox_sys" where
  "settled_call c x = x\<lparr>sys_calls := remove1 c (sys_calls x)\<rparr>"

inductive inbox_step :: "inbox_sys \<Rightarrow> inbox_sys \<Rightarrow> bool" where
  is_fetch: "inbox_step x (hook_act (fetch_page en seg mode (sys_hook x, sys_store x)) x)"
| is_focus: "inbox_step x (hook_act (inbox_focus_effect en foc seg (sys_hook x, sys_store x)) x)"
| is_switch: "inbox_step x (x\<lparr>sys_hook := switch_segment seg (sys_hook x)\<rparr>)"
| is_toggle: "inbox_step x (inbox_store_act (toggle_unread c (sys_store x)) x)"
| is_respond: "inbox_step x (hook_act (respond_to_request cid d (sys_hook x)) x)"
| is_ready: "inbox_step x (badge_act (badge_ready_effect ready now (sys_badge x, sys_store x)) x)"
| is_foreground: "inbox_step x (badge_act (badge_foreground now (sys_badge x, sys_store x)) x)"
| is_debounce: "bh_debounce (sys_badge x) = Some due \<Longrightarrow> due \<le> now \<Longrightarrow>
    inbox_step x (badge_act (debounce_fired now (sys_badge x)) x)"
| is_event: "handle_messages_event now ev (sys_badge x, sys_store x) = ((b, s), calls) \<Longrightarrow>
    inbox_step x (x\<lparr>sys_badge := b, sys_store := s, sys_calls := sys_calls x @ calls\<rparr>)"
| is_signed_out: "inbox_step x (x\<lparr>sys_store := signed_out_effect auth (sys_store x)\<rparr>)"
| is_store: "inbox_step x (x\<lparr>sys_store := run_mb_op op' (sys_store x)\<rparr>)"
| is_page: "Ic_page seg mode c \<in> set (sys_calls x) \<Longrightarrow>
    fetch_page_done now seg mode r (sys_hook x, sys_store x) = (h, s) \<Longrightarrow>
    inbox_step x ((settled_call (Ic_page seg mode c) x)\<lparr>sys_hook := h, sys_store := s\<rparr>)"
| is_toggled: "Ic_toggle c u \<in> set (sys_calls x) \<Longrightarrow>
    inbox_step x ((settled_call (Ic_toggle c u) x)\<lparr>sys_store := fst (toggle_unread_done c r' (sys_store x))\<rparr>)"
| is_responded: "Ic_respond cid d \<in> set (sys_calls x) \<Longrightarrow>
    respond_to_request_done cid r' (sys_hook x, sys_store x) = ((h, s), calls) \<Longrightarrow>
    inbox_step x ((settled_call (Ic_respond cid d) x)\<lparr>sys_hook := h, sys_store := s,
      sys_calls := remove1 (Ic_respond cid d) (sys_calls x) @ calls\<rparr>)"
| is_refetched: "Ic_refetch \<in> set (sys_calls x) \<Longrightarrow>
    inbox_step x ((settled_call Ic_refetch x)\<lparr>sys_store := respond_refetch_done now rq ch (sys_store x)\<rparr>)"
| is_badge: "Ic_badge \<in> set (sys_calls x) \<Longrightarrow>
    fetch_badge_done now r (sys_badge x, sys_store x) = (b, s) \<Longrightarrow>
    inbox_step x ((settled_call Ic_badge x)\<lparr>sys_badge := b, sys_store := s\<rparr>)"
| is_peer: "Ic_peer cid \<in> set (sys_calls x) \<Longrightarrow>
    inbox_step x ((settled_call (Ic_peer cid) x)\<lparr>sys_store := apply_read_event_done cid rc (sys_store x)\<rparr>)"

inductive inbox_reachable :: "inbox_sys \<Rightarrow> bool" where
  is_init: "inbox_reachable (inbox_sys_start seg)"
| is_next: "inbox_reachable x \<Longrightarrow> inbox_step x y \<Longrightarrow> inbox_reachable y"

subsection \<open>The store stays sound\<close>

lemma mb_ok_patch_conversation: "mb_ok s \<Longrightarrow> mb_ok (mb_patch_conversation cid f s)"
  by (auto simp: mb_patch_conversation_def mb_ok_put_conversation split: option.splits)

lemma mb_ok_signed_out: "mb_ok s \<Longrightarrow> mb_ok (signed_out_effect a s)"
  using mb_ok_run_op[of s Op_sign_out] by (simp add: signed_out_effect_def)

lemma mb_ok_event:
  "handle_messages_event now ev (b, s) = ((b', s'), calls) \<Longrightarrow> mb_ok s \<Longrightarrow> mb_ok s'"
  by (cases ev)
    (auto simp: handle_messages_event_def apply_read_event_def mb_ok_merge_latest mb_ok_read split: if_splits)

lemma mb_ok_page_done:
  "fetch_page_done now seg mode r (h, s) = (h', s') \<Longrightarrow> mb_ok s \<Longrightarrow> mb_ok s'"
  using mb_ok_errors[of s]
  by (cases r) (auto simp: fetch_page_done_def mb_ok_inbox_page split: prod.splits, metis fst_conv snd_conv)

lemma mb_ok_badge_done: "fetch_badge_done now r (b, s) = (b', s') \<Longrightarrow> mb_ok s \<Longrightarrow> mb_ok s'"
  using mb_ok_errors[of s] by (auto simp: fetch_badge_done_def mb_ok_inbox_page split: sum.splits)

lemma inbox_step_mb_ok: "inbox_step x y \<Longrightarrow> mb_ok (sys_store x) \<Longrightarrow> mb_ok (sys_store y)"
proof (induction rule: inbox_step.induct)
  case (is_page seg mode c x now r h s)
  then show ?case using mb_ok_page_done by simp
next
  case (is_badge x now r b s)
  then show ?case using mb_ok_badge_done by simp
next
  case (is_event now ev x b s calls)
  then show ?case using mb_ok_event by simp
next
  case (is_responded cid d x r' h s calls)
  then show ?case by (auto simp: respond_to_request_done_def mb_ok_errors mb_ok_remove split: option.splits)
qed (auto simp: hook_act_def badge_act_def inbox_store_act_def mb_ok_signed_out mb_ok_run_op toggle_unread_def Let_def
    mb_ok_patch_conversation toggle_unread_done_def mb_ok_errors respond_refetch_done_def mb_ok_inbox_page
    apply_read_event_done_def mb_ok_peer_read split: option.splits sum.splits)

lemma inbox_reachable_mb_ok: "inbox_reachable x \<Longrightarrow> mb_ok (sys_store x)"
proof (induction rule: inbox_reachable.induct)
  case (is_init seg)
  then show ?case
    using mobile_reachable_mb_ok[OF mobile_init] by (simp add: inbox_sys_start_def mobile_start_def)
qed (rule inbox_step_mb_ok)

subsection \<open>Calls in flight\<close>

definition page_calls :: "bool \<Rightarrow> mb_segment \<Rightarrow> inbox_call list \<Rightarrow> inbox_call list" where
  "page_calls isMore seg cs =
     filter (\<lambda>c. case c of Ic_page sg mode cur \<Rightarrow> sg = seg \<and> (mode = Fm_more) = isMore | _ \<Rightarrow> False) cs"

definition badge_calls :: "inbox_call list \<Rightarrow> inbox_call list" where
  "badge_calls cs = filter (\<lambda>c. c = Ic_badge) cs"

definition one_if :: "bool \<Rightarrow> nat" where
  "one_if b = (if b then 1 else 0)"

definition cursor_ok :: "inbox_call \<Rightarrow> bool" where
  "cursor_ok c \<longleftrightarrow> (case c of Ic_page sg mode cur \<Rightarrow> if mode = Fm_more then js_string_set cur else cur = None
     | _ \<Rightarrow> True)"

definition flight_ok :: "inbox_hook \<Rightarrow> badge_hook \<Rightarrow> inbox_call list \<Rightarrow> bool" where
  "flight_ok h b cs \<longleftrightarrow>
     (\<forall>seg. length (page_calls False seg cs) = one_if (seg \<in> set (ih_page_one_in_flight h)) \<and>
            length (page_calls True seg cs) = one_if (seg \<in> set (ih_load_more_in_flight h))) \<and>
     length (badge_calls cs) = one_if (bh_in_flight b) \<and> list_all cursor_ok cs"

definition spinner_ok :: "inbox_hook \<Rightarrow> inbox_call list \<Rightarrow> bool" where
  "spinner_ok h cs \<longleftrightarrow>
     (ih_is_loading h \<longrightarrow> (\<exists>seg c. Ic_page seg Fm_initial c \<in> set cs)) \<and>
     (ih_is_refreshing h \<longrightarrow> (\<exists>seg c. Ic_page seg Fm_refresh c \<in> set cs)) \<and>
     (ih_is_loading_more h \<longrightarrow> (\<exists>seg c. Ic_page seg Fm_more c \<in> set cs)) \<and>
     (\<forall>cid. ih_responding_id h = Some cid \<longrightarrow> (\<exists>d. Ic_respond cid d \<in> set cs))"

definition sys_ok :: "inbox_sys \<Rightarrow> bool" where
  "sys_ok x \<longleftrightarrow> flight_ok (sys_hook x) (sys_badge x) (sys_calls x) \<and> spinner_ok (sys_hook x) (sys_calls x)"

lemma page_calls_simps [simp]:
  "page_calls isMore seg [] = []"
  "page_calls isMore seg (cs @ ds) = page_calls isMore seg cs @ page_calls isMore seg ds"
  "page_calls isMore seg (Ic_page sg mode cur # cs) =
     (if sg = seg \<and> (mode = Fm_more) = isMore then [Ic_page sg mode cur] else []) @ page_calls isMore seg cs"
  "page_calls isMore seg (Ic_toggle c u # cs) = page_calls isMore seg cs"
  "page_calls isMore seg (Ic_respond cid d # cs) = page_calls isMore seg cs"
  "page_calls isMore seg (Ic_refetch # cs) = page_calls isMore seg cs"
  "page_calls isMore seg (Ic_badge # cs) = page_calls isMore seg cs"
  "page_calls isMore seg (Ic_peer cid # cs) = page_calls isMore seg cs"
  by (simp_all add: page_calls_def)

lemma badge_calls_simps [simp]:
  "badge_calls [] = []" "badge_calls (cs @ ds) = badge_calls cs @ badge_calls ds"
  "badge_calls (c # cs) = (if c = Ic_badge then [c] else []) @ badge_calls cs"
  by (simp_all add: badge_calls_def)

lemma one_if_simps [simp]: "one_if True = 1" "one_if False = 0"
  by (simp_all add: one_if_def)

text \<open>A settled call leaves the counts of the others.\<close>

lemma filter_remove1_length:
  "c \<in> set cs \<Longrightarrow> length (filter P (remove1 c cs)) = length (filter P cs) - length (filter P [c])"
proof (induction cs)
  case (Cons d cs)
  show ?case
  proof (cases "c = d")
    case False
    with Cons have "c \<in> set cs" by simp
    then have "P c \<Longrightarrow> filter P cs \<noteq> []" by (auto simp: filter_empty_conv)
    with Cons False show ?thesis by (cases "filter P cs") auto
  qed simp
qed simp

lemma page_calls_remove1:
  "c \<in> set cs \<Longrightarrow> length (page_calls isMore seg (remove1 c cs)) =
     length (page_calls isMore seg cs) - length (page_calls isMore seg [c])"
  unfolding page_calls_def by (rule filter_remove1_length)

lemma badge_calls_remove1:
  "c \<in> set cs \<Longrightarrow> length (badge_calls (remove1 c cs)) = length (badge_calls cs) - length (badge_calls [c])"
  unfolding badge_calls_def by (rule filter_remove1_length)

lemma cursors_remove1: "list_all cursor_ok cs \<Longrightarrow> list_all cursor_ok (remove1 c cs)"
  by (auto simp: list_all_iff dest: notin_set_remove1)

lemma spinner_append: "spinner_ok h cs \<Longrightarrow> spinner_ok h (cs @ ds)"
  by (auto simp: spinner_ok_def)

lemma set_busy_frame [simp]:
  "ih_page_one_in_flight (set_busy mode v h) = ih_page_one_in_flight h"
  "ih_load_more_in_flight (set_busy mode v h) = ih_load_more_in_flight h"
  "ih_responding_id (set_busy mode v h) = ih_responding_id h"
  "in_flight m (set_busy mode v h) = in_flight m h"
  by (cases mode; simp add: in_flight_def)+

lemma put_in_flight_frame [simp]:
  "ih_is_loading (put_in_flight mode l h) = ih_is_loading h"
  "ih_is_refreshing (put_in_flight mode l h) = ih_is_refreshing h"
  "ih_is_loading_more (put_in_flight mode l h) = ih_is_loading_more h"
  "ih_responding_id (put_in_flight mode l h) = ih_responding_id h"
  "ih_page_one_in_flight (put_in_flight mode l h) = (if mode = Fm_more then ih_page_one_in_flight h else l)"
  "ih_load_more_in_flight (put_in_flight mode l h) = (if mode = Fm_more then l else ih_load_more_in_flight h)"
  by (simp_all add: put_in_flight_def)

lemma set_busy_spinners [simp]:
  "ih_is_loading (set_busy mode v h) = (if mode = Fm_initial then v else ih_is_loading h)"
  "ih_is_refreshing (set_busy mode v h) = (if mode = Fm_refresh then v else ih_is_refreshing h)"
  "ih_is_loading_more (set_busy mode v h) = (if mode = Fm_more then v else ih_is_loading_more h)"
  by (cases mode; simp)+

lemma flight_fetch:
  assumes "flight_ok h b cs" "fetch_page en seg mode (h, s) = (h', ds)"
  shows "flight_ok h' b (cs @ ds)"
proof (cases "h' = h \<and> ds = []")
  case False
  then have new: "seg \<notin> set (in_flight mode h)"
      "h' = set_busy mode True (put_in_flight mode (seg # in_flight mode h) h)"
      "ds = [Ic_page seg mode (if mode = Fm_more then sl_cursor (mb_inbox s seg) else None)]"
      "mode = Fm_more \<longrightarrow> js_string_set (sl_cursor (mb_inbox s seg))"
    using assms(2) by (auto simp: fetch_page_def Let_def split: if_splits)
  then show ?thesis using assms(1)
    by (cases "mode = Fm_more") (auto simp: flight_ok_def in_flight_def cursor_ok_def)
qed (use assms(1) in simp)

lemma spinner_fetch:
  assumes "spinner_ok h cs" "fetch_page en seg mode (h, s) = (h', ds)"
  shows "spinner_ok h' (cs @ ds)"
proof (cases "h' = h \<and> ds = []")
  case False
  then have "h' = set_busy mode True (put_in_flight mode (seg # in_flight mode h) h)"
      "ds = [Ic_page seg mode (if mode = Fm_more then sl_cursor (mb_inbox s seg) else None)]"
    using assms(2) by (auto simp: fetch_page_def Let_def split: if_splits)
  then show ?thesis using assms(1) by (cases mode) (auto simp: spinner_ok_def)
qed (use assms(1) in simp)

lemma page_done_hook:
  assumes "fetch_page_done now seg mode r (h, s) = (h', s')"
  shows "ih_page_one_in_flight h' =
      (if mode = Fm_more then ih_page_one_in_flight h else removeAll seg (ih_page_one_in_flight h))"
    "ih_load_more_in_flight h' =
      (if mode = Fm_more then removeAll seg (ih_load_more_in_flight h) else ih_load_more_in_flight h)"
    "ih_responding_id h' = ih_responding_id h"
    "ih_is_loading h' = (ih_is_loading h \<and> mode \<noteq> Fm_initial)"
    "ih_is_refreshing h' = (ih_is_refreshing h \<and> mode \<noteq> Fm_refresh)"
    "ih_is_loading_more h' = (ih_is_loading_more h \<and> mode \<noteq> Fm_more)"
  using assms by (auto simp: fetch_page_done_def in_flight_def split: sum.splits prod.splits if_splits)

lemma flight_page_done:
  assumes f: "flight_ok h b cs" and c: "Ic_page seg mode cur \<in> set cs"
    and d: "fetch_page_done now seg mode r (h, s) = (h', s')"
  shows "flight_ok h' b (remove1 (Ic_page seg mode cur) cs)"
proof -
  have "Ic_page seg mode cur \<in> set (page_calls (mode = Fm_more) seg cs)"
    using c by (simp add: page_calls_def)
  then have "page_calls (mode = Fm_more) seg cs \<noteq> []" by auto
  then have "seg \<in> set (if mode = Fm_more then ih_load_more_in_flight h else ih_page_one_in_flight h)"
    using f by (cases "mode = Fm_more") (auto simp: flight_ok_def one_if_def split: if_splits)
  then show ?thesis using f c
    by (auto simp: flight_ok_def page_done_hook[OF d] page_calls_remove1 badge_calls_remove1 cursors_remove1 one_if_def)
qed

lemma spinner_page_done:
  assumes f: "spinner_ok h cs" and d: "fetch_page_done now seg mode r (h, s) = (h', s')"
  shows "spinner_ok h' (remove1 (Ic_page seg mode cur) cs)"
  using f by (auto simp: spinner_ok_def page_done_hook[OF d]) (metis in_set_remove1 inbox_call.inject(1) inbox_call.distinct)+

text \<open>The other calls neither count as pages nor as badge fetches.\<close>

definition other_call :: "inbox_call \<Rightarrow> bool" where
  "other_call c \<longleftrightarrow> (case c of Ic_page sg mode cur \<Rightarrow> False | Ic_badge \<Rightarrow> False | _ \<Rightarrow> True)"

lemma other_counts:
  assumes "list_all other_call ds"
  shows "page_calls isMore seg ds = []" "badge_calls ds = []" "list_all cursor_ok ds"
  using assms unfolding page_calls_def badge_calls_def
  by (auto simp: list_all_iff filter_empty_conv other_call_def cursor_ok_def split: inbox_call.splits)

lemma flight_other:
  "flight_ok h b cs \<Longrightarrow> list_all other_call ds \<Longrightarrow> flight_ok h b (cs @ ds)"
  "flight_ok h b cs \<Longrightarrow> other_call c \<Longrightarrow> c \<in> set cs \<Longrightarrow> flight_ok h b (remove1 c cs)"
  using other_counts[of ds] other_counts[of "[c]"]
  by (auto simp: flight_ok_def page_calls_remove1 badge_calls_remove1 cursors_remove1)

lemma flight_hook_frame:
  "ih_page_one_in_flight h' = ih_page_one_in_flight h \<Longrightarrow> ih_load_more_in_flight h' = ih_load_more_in_flight h \<Longrightarrow>
   bh_in_flight b' = bh_in_flight b \<Longrightarrow> flight_ok h' b' cs = flight_ok h b cs"
  by (simp add: flight_ok_def)

lemma flight_badge: "flight_ok h b cs \<Longrightarrow> fetch_badge now b = (b', ds) \<Longrightarrow> flight_ok h b' (cs @ ds)"
  by (auto simp: fetch_badge_def flight_ok_def cursor_ok_def split: if_splits)

lemma flight_badge_done:
  assumes f: "flight_ok h b cs" and c: "Ic_badge \<in> set cs"
  shows "flight_ok h (b\<lparr>bh_in_flight := False\<rparr>) (remove1 Ic_badge cs)"
proof -
  have "Ic_badge \<in> set (badge_calls cs)" using c by (simp add: badge_calls_def)
  then have "badge_calls cs \<noteq> []" by auto
  then have "length (badge_calls cs) = 1" using f by (auto simp: flight_ok_def one_if_def split: if_splits)
  then show ?thesis using f c
    by (auto simp: flight_ok_def page_calls_remove1 badge_calls_remove1 cursors_remove1)
qed

lemma spinner_remove:
  "spinner_ok h cs \<Longrightarrow> (\<And>sg mode c'. c \<noteq> Ic_page sg mode c') \<Longrightarrow>
   (\<And>cid d. c = Ic_respond cid d \<Longrightarrow> ih_responding_id h \<noteq> Some cid) \<Longrightarrow> spinner_ok h (remove1 c cs)"
  unfolding spinner_ok_def by (metis in_set_remove1)

lemma spinner_hook_frame:
  "ih_is_loading h' = ih_is_loading h \<Longrightarrow> ih_is_refreshing h' = ih_is_refreshing h \<Longrightarrow>
   ih_is_loading_more h' = ih_is_loading_more h \<Longrightarrow> ih_responding_id h' = ih_responding_id h \<Longrightarrow>
   spinner_ok h' cs = spinner_ok h cs"
  by (simp add: spinner_ok_def)

lemma sys_ok_store [simp]: "sys_ok (x\<lparr>sys_store := s\<rparr>) = sys_ok x"
  by (simp add: sys_ok_def)

lemma sys_ok_fetch:
  assumes "sys_ok x"
  shows "sys_ok (hook_act (fetch_page en seg mode (sys_hook x, sys_store x)) x)"
  using assms flight_fetch[of "sys_hook x" "sys_badge x" "sys_calls x" en seg mode "sys_store x"]
    spinner_fetch[of "sys_hook x" "sys_calls x" en seg mode "sys_store x"]
  by (cases "fetch_page en seg mode (sys_hook x, sys_store x)") (auto simp: sys_ok_def hook_act_def)

lemma sys_ok_fetch_badge:
  assumes "sys_ok x" "fetch_badge now b0 = a" "bh_in_flight b0 = bh_in_flight (sys_badge x)"
  shows "sys_ok (badge_act a x)"
  using assms flight_badge[of "sys_hook x" b0 "sys_calls x" now]
    flight_hook_frame[OF refl refl assms(3), of "sys_hook x" "sys_calls x"]
  by (cases a) (auto simp: sys_ok_def badge_act_def intro: spinner_append)

lemma sys_ok_idle:
  "hook_act (sys_hook x, []) x = x" "badge_act (sys_badge x, []) x = x"
  by (simp_all add: hook_act_def badge_act_def)

lemma sys_ok_settled:
  "sys_ok x \<Longrightarrow> other_call c \<Longrightarrow> c \<in> set (sys_calls x) \<Longrightarrow> (\<And>cid d. c \<noteq> Ic_respond cid d) \<Longrightarrow>
   sys_ok (settled_call c x)"
  by (auto simp: sys_ok_def settled_call_def flight_other other_call_def intro!: spinner_remove)

lemma sys_ok_respond: "sys_ok x \<Longrightarrow> sys_ok (hook_act (respond_to_request cid d (sys_hook x)) x)"
  using flight_hook_frame[of "(sys_hook x)\<lparr>ih_responding_id := Some cid\<rparr>" "sys_hook x" "sys_badge x" "sys_badge x"]
    flight_other(1)[of "sys_hook x" "sys_badge x" "sys_calls x" "[Ic_respond cid d]"]
  by (auto simp: sys_ok_def hook_act_def respond_to_request_def other_call_def spinner_ok_def)

lemma sys_ok_responded:
  assumes ok: "sys_ok x" and c: "Ic_respond cid d \<in> set (sys_calls x)"
    and r: "respond_to_request_done cid r (sys_hook x, sys_store x) = ((h, s), calls)"
  shows "sys_ok (x\<lparr>sys_hook := h, sys_store := s, sys_calls := remove1 (Ic_respond cid d) (sys_calls x) @ calls\<rparr>)"
proof -
  have h: "h = (sys_hook x)\<lparr>ih_responding_id := None\<rparr>" "list_all other_call calls"
    using r by (auto simp: respond_to_request_done_def other_call_def split: option.splits)
  have "flight_ok (sys_hook x) (sys_badge x) (remove1 (Ic_respond cid d) (sys_calls x))"
    using ok c by (intro flight_other(2)) (auto simp: sys_ok_def other_call_def)
  moreover have "flight_ok h b cs = flight_ok (sys_hook x) b cs" for b cs
    by (rule flight_hook_frame) (simp_all add: h)
  ultimately have "flight_ok h (sys_badge x) (remove1 (Ic_respond cid d) (sys_calls x) @ calls)"
    using flight_other(1)[OF _ h(2)] by simp
  moreover have "spinner_ok h (sys_calls x)" using ok by (auto simp: sys_ok_def spinner_ok_def h)
  then have "spinner_ok h (remove1 (Ic_respond cid d) (sys_calls x))" by (rule spinner_remove) (simp_all add: h)
  ultimately show ?thesis by (auto simp: sys_ok_def intro: spinner_append)
qed

lemma sys_ok_page:
  assumes "sys_ok x" "Ic_page seg mode c \<in> set (sys_calls x)"
    "fetch_page_done now seg mode r (sys_hook x, sys_store x) = (h, s)"
  shows "sys_ok ((settled_call (Ic_page seg mode c) x)\<lparr>sys_hook := h, sys_store := s\<rparr>)"
  using assms flight_page_done[OF _ assms(2,3)] spinner_page_done[OF _ assms(3)]
  by (simp add: sys_ok_def settled_call_def)

lemma sys_ok_badge_done:
  assumes "sys_ok x" "Ic_badge \<in> set (sys_calls x)" "fetch_badge_done now r (sys_badge x, sys_store x) = (b, s)"
  shows "sys_ok ((settled_call Ic_badge x)\<lparr>sys_badge := b, sys_store := s\<rparr>)"
proof -
  have "b = (sys_badge x)\<lparr>bh_in_flight := False\<rparr>" using assms(3) by (simp add: fetch_badge_done_def)
  then show ?thesis using assms(1) flight_badge_done[OF _ assms(2)] spinner_remove[of "sys_hook x" "sys_calls x" Ic_badge]
    by (simp add: sys_ok_def settled_call_def)
qed

lemma sys_ok_event:
  assumes "sys_ok x" "handle_messages_event now ev (sys_badge x, sys_store x) = ((b, s), calls)"
  shows "sys_ok (x\<lparr>sys_badge := b, sys_store := s, sys_calls := sys_calls x @ calls\<rparr>)"
proof -
  have b: "bh_in_flight b = bh_in_flight (sys_badge x)" "list_all other_call calls"
    using assms(2) by (auto simp: handle_messages_event_def apply_read_event_def schedule_inbox_refetch_def
        other_call_def split: messages_event.splits if_splits)
  have "flight_ok (sys_hook x) b cs = flight_ok (sys_hook x) (sys_badge x) cs" for cs
    by (rule flight_hook_frame) (simp_all add: b)
  then show ?thesis using assms(1) flight_other(1)[OF _ b(2)] by (auto simp: sys_ok_def intro: spinner_append)
qed

lemma inbox_step_ok: "inbox_step x y \<Longrightarrow> sys_ok x \<Longrightarrow> sys_ok y"
proof (induction rule: inbox_step.induct)
  case (is_fetch x en seg mode)
  then show ?case by (rule sys_ok_fetch)
next
  case (is_focus x en foc seg)
  then show ?case by (auto simp: inbox_focus_effect_def sys_ok_idle intro: sys_ok_fetch)
next
  case (is_switch x seg)
  then show ?case
    using flight_hook_frame[of "switch_segment seg (sys_hook x)" "sys_hook x" "sys_badge x" "sys_badge x" "sys_calls x"]
      spinner_hook_frame[of "switch_segment seg (sys_hook x)" "sys_hook x" "sys_calls x"]
    by (simp add: sys_ok_def switch_segment_def)
next
  case (is_toggle x c)
  then show ?case
    by (auto simp: sys_ok_def inbox_store_act_def toggle_unread_def Let_def other_call_def
        intro!: flight_other(1) spinner_append)
next
  case (is_ready x ready now)
  then show ?case
    using sys_ok_fetch_badge[OF is_ready refl refl] by (auto simp: badge_ready_effect_def sys_ok_idle)
next
  case (is_foreground x now)
  then show ?case
    using sys_ok_fetch_badge[OF is_foreground refl refl] by (auto simp: badge_foreground_def Let_def sys_ok_idle)
next
  case (is_debounce x due now)
  show ?case unfolding debounce_fired_def
    by (rule sys_ok_fetch_badge[OF is_debounce.prems refl]) simp
next
  case (is_page seg mode c x now r h s)
  then show ?case by (blast intro: sys_ok_page)
next
  case (is_badge x now r b s)
  then show ?case by (blast intro: sys_ok_badge_done)
next
  case (is_responded cid d x r' h s calls)
  from sys_ok_responded[OF this(3,1,2)] show ?case by (simp add: settled_call_def)
next
  case (is_event now ev x b s calls)
  then show ?case by (blast intro: sys_ok_event)
qed (auto simp: other_call_def intro: sys_ok_respond sys_ok_settled)

lemma inbox_reachable_ok: "inbox_reachable x \<Longrightarrow> sys_ok x"
proof (induction rule: inbox_reachable.induct)
  case (is_init seg)
  then show ?case
    by (simp add: sys_ok_def inbox_sys_start_def flight_ok_def spinner_ok_def inbox_hook_mounted_def badge_hook_mounted_def)
qed (rule inbox_step_ok)

subsection \<open>Properties\<close>

text \<open>
  C26. In every reachable state of the inbox no load is doubled and no spinner turns for nothing: each
  segment has at most one first-page fetch and one further page under way and the badge one fetch, a
  further page carries a cursor and a first page none, and whichever of the spinners (first load,
  pull to refresh, further page, answer to a request) is shown, its call is still under way.
\<close>
theorem inbox_loads_tracked:
  assumes "inbox_reachable x"
  shows "length (page_calls isMore seg (sys_calls x)) \<le> 1 \<and> length (badge_calls (sys_calls x)) \<le> 1 \<and>
    (ih_is_loading (sys_hook x) \<longrightarrow> (\<exists>sg c. Ic_page sg Fm_initial c \<in> set (sys_calls x))) \<and>
    (ih_is_refreshing (sys_hook x) \<longrightarrow> (\<exists>sg c. Ic_page sg Fm_refresh c \<in> set (sys_calls x))) \<and>
    (ih_is_loading_more (sys_hook x) \<longrightarrow> (\<exists>sg c. Ic_page sg Fm_more (Some c) \<in> set (sys_calls x) \<and> c \<noteq> [])) \<and>
    (ih_responding_id (sys_hook x) = Some cid \<longrightarrow> (\<exists>d. Ic_respond cid d \<in> set (sys_calls x))) \<and>
    (Ic_page sg mode c \<in> set (sys_calls x) \<longrightarrow> (c = None) = (mode \<noteq> Fm_more))"
proof -
  have f: "flight_ok (sys_hook x) (sys_badge x) (sys_calls x)" and s: "spinner_ok (sys_hook x) (sys_calls x)"
    using inbox_reachable_ok[OF assms] by (simp_all add: sys_ok_def)
  have c: "cursor_ok k" if "k \<in> set (sys_calls x)" for k using f that by (auto simp: flight_ok_def list_all_iff)
  have "length (page_calls isMore seg (sys_calls x)) \<le> 1" "length (badge_calls (sys_calls x)) \<le> 1"
    using f by (cases isMore; auto simp: flight_ok_def one_if_def)+
  moreover have "\<exists>sg c. Ic_page sg Fm_more (Some c) \<in> set (sys_calls x) \<and> c \<noteq> []" if more: "ih_is_loading_more (sys_hook x)"
  proof -
    obtain sg c' where m: "Ic_page sg Fm_more c' \<in> set (sys_calls x)" using s more by (auto simp: spinner_ok_def)
    then show ?thesis using c[OF m] by (auto simp: cursor_ok_def js_string_set_def)
  qed
  moreover have "(c = None) = (mode \<noteq> Fm_more)" if "Ic_page sg mode c \<in> set (sys_calls x)"
    using c[OF that] by (auto simp: cursor_ok_def js_string_set_def split: if_splits)
  ultimately show ?thesis using s unfolding spinner_ok_def by blast
qed

text \<open>
  Marking a conversation as read or unread that the server refuses leaves no trace: in every reachable
  state, undoing the toggle gives back the store as it was, badge included, apart from what the error
  itself reports.
\<close>
theorem failed_toggle_leaves_no_trace:
  assumes "inbox_reachable x" and "jm_get (mb_conversations (sys_store x)) (conversation_id c) = Some c"
  shows "fst (toggle_unread_done c (Some e) (fst (toggle_unread c (sys_store x)))) =
    fst (snd (apply_messages_error e (sys_store x)))"
proof -
  let ?s = "sys_store x"
  have total: "mb_unread_total ?s = inbox_unread_total (mb_inbox ?s) (mb_conversations ?s)"
    using inbox_reachable_mb_ok[OF assms(1)] by (simp add: mb_ok_def mb_badge_ok_def)
  have undo: "mb_patch_conversation (conversation_id c)
      (\<lambda>y. y\<lparr>unread_count := unread_count c, manually_marked_unread := manually_marked_unread c\<rparr>)
      (mb_patch_conversation (conversation_id c) f ?s) = ?s"
    if "f c = c\<lparr>unread_count := u, manually_marked_unread := m\<rparr>" for f u m
    using assms(2) that total
    by (simp add: mb_patch_conversation_def put_conversation_def Let_def jm_set_def update_triv
        update_conv' jm_get_def)
  show ?thesis
    using undo[where f = "\<lambda>y. y\<lparr>unread_count := 0, manually_marked_unread := False\<rparr>" and u = 0 and m = False]
      undo[where f = "\<lambda>y. y\<lparr>manually_marked_unread := True\<rparr>" and u = "unread_count c" and m = True]
    by (simp add: toggle_unread_done_def toggle_unread_def Let_def)
qed

text \<open>
  A poll, a refresh or the badge's fetch never drops what the user has paged in: its page of an inbox
  that has more goes to the front in its order, every conversation listed before is still listed, after
  it and in its old order, and the cursor for the next page stays where it was.
\<close>
theorem page_one_keeps_paged_rows:
  assumes "INBOX_PAGE_MODE mode = Inbox_merge" "ir_next_cursor r \<noteq> None"
    and "sl_loaded_at (mb_inbox s seg) \<noteq> None" "sl_ids (mb_inbox s seg) \<noteq> []" "distinct (sl_ids (mb_inbox s seg))"
    and "distinct (map conversation_id (ir_items r))"
  shows "let before = mb_inbox s seg;
      after = mb_inbox (snd (fetch_page_done now seg mode (Inr r) (h, s))) seg
    in sl_ids after = map conversation_id (ir_items r) @
         filter (\<lambda>i. i \<notin> set (map conversation_id (ir_items r))) (sl_ids before) \<and>
       set (sl_ids before) \<subseteq> set (sl_ids after) \<and> sl_cursor after = sl_cursor before \<and>
       sl_has_more after = sl_has_more before"
proof -
  have u: "unique_ids xs = xs" if "distinct xs" for xs
    using that by (simp add: unique_ids_def distinct_remdups_id)
  have "distinct (map conversation_id (ir_items r) @
      filter (\<lambda>i. i \<notin> set (map conversation_id (ir_items r))) (sl_ids (mb_inbox s seg)))"
    using assms(5,6) by auto
  from u[OF this] show ?thesis using assms(1-4)
    by (auto simp: fetch_page_done_def set_inbox_page_def mb_apply_inbox_page_def Let_def)
qed

subsection \<open>A run of the inbox\<close>

definition demo_conv :: "jstr \<Rightarrow> int \<Rightarrow> conversation" where
  "demo_conv cid unread = \<lparr>conversation_id = cid, is_group = False, c_name = None, photo_url = None,
     participants = [], counterparty = None, last_message = None, unread_count = unread,
     unread_mentions_count = 0, muted = False, pinned = False, archived = False, category = CDefault,
     access = Read_write, last_read_at = 0, manually_marked_unread = False, created_at = 0,
     peer_last_read_at = None\<rparr>"

definition demo_inbox_page :: "conversation list \<Rightarrow> jstr option \<Rightarrow> inbox_response" where
  "demo_inbox_page cs cursor = \<lparr>ir_items = cs, ir_next_cursor = cursor, ir_requests_count = 0,
     ir_has_unread_requests = False, ir_has_archived = False\<rparr>"

definition demo_opened :: inbox_sys where
  "demo_opened = (let x = inbox_sys_start Seg_default
     in hook_act (inbox_focus_effect True True Seg_default (sys_hook x, sys_store x)) x)"

definition demo_listed :: inbox_sys where
  "demo_listed = (case fetch_page_done 5 Seg_default Fm_initial
       (Inr (demo_inbox_page [demo_conv ''a'' 2, demo_conv ''b'' 0] (Some ''c2''))) (sys_hook demo_opened, sys_store demo_opened) of
     (h, s) \<Rightarrow> (settled_call (Ic_page Seg_default Fm_initial None) demo_opened)\<lparr>sys_hook := h, sys_store := s\<rparr>)"

definition demo_more :: inbox_sys where
  "demo_more = hook_act (fetch_page True Seg_default Fm_more (sys_hook demo_listed, sys_store demo_listed)) demo_listed"

lemma demo_opened_calls: "sys_calls demo_opened = [Ic_page Seg_default Fm_initial None]"
  by code_simp

lemma demo_listed_reachable: "inbox_reachable demo_listed"
proof -
  have "inbox_reachable demo_opened" unfolding demo_opened_def Let_def
    by (rule is_next[OF is_init inbox_step.is_focus])
  then show ?thesis unfolding demo_listed_def
    by (cases "fetch_page_done 5 Seg_default Fm_initial
          (Inr (demo_inbox_page [demo_conv ''a'' 2, demo_conv ''b'' 0] (Some ''c2''))) (sys_hook demo_opened, sys_store demo_opened)")
      (use is_next[OF _ inbox_step.is_page, of demo_opened] in \<open>simp add: demo_opened_calls\<close>)
qed

lemma demo_more_reachable: "inbox_reachable demo_more"
  unfolding demo_more_def by (rule is_next[OF demo_listed_reachable inbox_step.is_fetch])

theorem inbox_loads_tracked_witness:
  "ih_is_loading_more (sys_hook demo_more) \<and>
   (\<exists>sg c. Ic_page sg Fm_more (Some c) \<in> set (sys_calls demo_more) \<and> c \<noteq> []) \<and>
   length (page_calls True Seg_default (sys_calls demo_more)) \<le> 1"
proof -
  have "ih_is_loading_more (sys_hook demo_more)" by code_simp
  then show ?thesis using inbox_loads_tracked[OF demo_more_reachable, of True Seg_default] by blast
qed

theorem failed_toggle_leaves_no_trace_witness:
  "mb_unread_total (fst (toggle_unread (demo_conv ''a'' 2) (sys_store demo_listed))) = 0 \<and>
   mb_unread_total (sys_store demo_listed) = 2 \<and>
   fst (toggle_unread_done (demo_conv ''a'' 2) (Some Err_abort) (fst (toggle_unread (demo_conv ''a'' 2) (sys_store demo_listed)))) =
   fst (snd (apply_messages_error Err_abort (sys_store demo_listed)))"
proof -
  have "jm_get (mb_conversations (sys_store demo_listed)) (conversation_id (demo_conv ''a'' 2)) = Some (demo_conv ''a'' 2)"
    by code_simp
  from failed_toggle_leaves_no_trace[OF demo_listed_reachable this]
  have "fst (toggle_unread_done (demo_conv ''a'' 2) (Some Err_abort) (fst (toggle_unread (demo_conv ''a'' 2) (sys_store demo_listed)))) =
    fst (snd (apply_messages_error Err_abort (sys_store demo_listed)))" .
  moreover have "mb_unread_total (fst (toggle_unread (demo_conv ''a'' 2) (sys_store demo_listed))) = 0" by code_simp
  moreover have "mb_unread_total (sys_store demo_listed) = 2" by code_simp
  ultimately show ?thesis by blast
qed

theorem page_one_keeps_paged_rows_witness:
  "sl_ids (mb_inbox (snd (fetch_page_done 9 Seg_default Fm_poll (Inr (demo_inbox_page [demo_conv ''n'' 1] (Some ''c1'')))
     (inbox_hook_mounted Seg_default, sys_store demo_listed))) Seg_default) = [''n'', ''a'', ''b'']"
proof -
  have s: "sl_ids (mb_inbox (sys_store demo_listed) Seg_default) = [''a'', ''b'']" by code_simp
  have l: "sl_loaded_at (mb_inbox (sys_store demo_listed) Seg_default) = Some 5" by code_simp
  show ?thesis
    using page_one_keeps_paged_rows[of Fm_poll "demo_inbox_page [demo_conv ''n'' 1] (Some ''c1'')"
        "sys_store demo_listed" Seg_default 9 "inbox_hook_mounted Seg_default"] s l
    by (simp add: Let_def demo_inbox_page_def demo_conv_def)
qed

subsection \<open>Where the inbox goes wrong\<close>

text \<open>
  A poll of the requests that was under way when one is declined lists it again, and later pages of an
  inbox with more to load keep it.
\<close>

definition demo_requests :: mb_store where
  "demo_requests = set_inbox_page 1 Seg_request (demo_inbox_page [demo_conv ''x'' 1, demo_conv ''y'' 0] (Some ''c'')) Inbox_replace INITIAL_STATE"

lemma declined_request_returns:
  "let h = inbox_hook_mounted Seg_request;
       declined = snd (fst (respond_to_request_done ''x'' None (h, demo_requests)));
       refetched = respond_refetch_done 2 (Some (demo_inbox_page [demo_conv ''y'' 0] (Some ''c''))) None declined;
       polled = snd (fetch_page_done 3 Seg_request Fm_poll
         (Inr (demo_inbox_page [demo_conv ''x'' 1, demo_conv ''y'' 0] (Some ''c''))) (h, refetched));
       later = snd (fetch_page_done 4 Seg_request Fm_poll (Inr (demo_inbox_page [demo_conv ''y'' 0] (Some ''c''))) (h, polled))
   in sl_ids (mb_inbox refetched Seg_request) = [''y''] \<and> sl_ids (mb_inbox later Seg_request) = [''y'', ''x'']"
  by code_simp

text \<open>An answer that arrives after the sign-out puts the old account's inbox into the fresh store.\<close>

lemma inbox_answer_after_sign_out:
  "inbox_conversations Seg_default (snd (fetch_badge_done 9 (Inr (demo_inbox_page [demo_conv ''a'' 2] None))
     (badge_hook_mounted, signed_out_effect False (sys_store demo_listed)))) = [demo_conv ''a'' 2]"
  by code_simp

text \<open>A refused toggle writes back the count it remembers over one that arrived meanwhile.\<close>

lemma failed_toggle_overwrites_newer_count:
  "let toggled = fst (toggle_unread (demo_conv ''a'' 2) (sys_store demo_listed));
       polled = snd (fetch_page_done 9 Seg_default Fm_poll (Inr (demo_inbox_page [demo_conv ''a'' 5] (Some ''c1'')))
         (inbox_hook_mounted Seg_default, toggled))
   in mb_unread_total polled = 5 \<and>
      mb_unread_total (fst (toggle_unread_done (demo_conv ''a'' 2) (Some Err_abort) polled)) = 2"
  by code_simp

text \<open>
  The spinner of a first load is one flag for both segments: the load of the segment that was left
  switches it off while the first load of the segment on the screen is still under way.
\<close>

lemma left_segment_clears_spinner:
  "let h1 = fst (fetch_page True Seg_default Fm_initial (inbox_hook_mounted Seg_default, INITIAL_STATE));
       (h2, calls) = fetch_page True Seg_request Fm_initial (switch_segment Seg_request h1, INITIAL_STATE);
       (h3, s3) = fetch_page_done 5 Seg_default Fm_initial (Inl Err_abort) (h2, INITIAL_STATE)
   in calls = [Ic_page Seg_request Fm_initial None] \<and> ih_is_loading h2 \<and> \<not> ih_is_loading h3 \<and>
      ih_page_one_in_flight h3 = [Seg_request]"
  by code_simp

end
