(* ===== verification/Mobile_Events.thy ===== *)
theory Mobile_Events
  imports Mobile_Sends Events_Socket
begin

section \<open>The events socket of the mobile app\<close>

text \<open>
  \<^verbatim>\<open>farcaster-audio/hooks/useMessagesEvents.ts\<close>: the close and ticket policy, and the effect that keeps one
  reconnecting socket. \<open>mev\<close> holds the variables of the effect's closure together with the other side:
  the state of every socket it made, the token reads, ticket mints and session refreshes under way and
  the due time of the reconnect timer. The numbers of the policy and the states of a socket are those of
  \<open>Events_Socket\<close>, the web app's counterpart; a closed or closing socket delivers no open, message or
  error event.
\<close>

subsection \<open>Policy\<close>

definition MAX_AUTH_RECOVERY_FAILURES :: nat where
  "MAX_AUTH_RECOVERY_FAILURES = 5"

definition KEEPALIVE_MS :: int where
  "KEEPALIVE_MS = 25000"

text \<open>\<^verbatim>\<open>JSON.parse\<close> is an argument, \<open>None\<close> when it throws.\<close>

definition mb_parse_messages_event :: "(jstr \<Rightarrow> json option) \<Rightarrow> jstr \<Rightarrow> json option" where
  "mb_parse_messages_event parse raw =
     (case parse raw of
        None \<Rightarrow> None
      | Some v \<Rightarrow>
          if \<not> json_is_object v then None
          else case json_string (json_field v ''type'') of
                 None \<Rightarrow> None
               | Some ty \<Rightarrow> if ty \<notin> {''message'', ''read'', ''inbox'', ''ping''} then None else Some v)"

datatype mb_close_action =
  Ma_refresh_auth bool
  | Ma_remint
  | Ma_stop_access messages_error_code
  | Ma_stop_disabled
  | Ma_backoff int

definition classify_close :: "int option \<Rightarrow> jstr option \<Rightarrow> mb_close_action" where
  "classify_close code reason =
     (if code = Some 4401 then
        (if reason = Some ''ticket_rejected'' then Ma_remint
         else Ma_refresh_auth (reason = Some ''session_expired''))
      else if code = Some 4403 then
        Ma_stop_access (to_messaging_token_error (if reason = Some [] then None else reason))
      else if code = Some 4404 then Ma_stop_disabled
      else if code = Some 4429 then Ma_backoff 60000
      else Ma_backoff 0)"

definition classify_ticket_error :: "mb_error \<Rightarrow> mb_close_action" where
  "classify_ticket_error e =
     (case e of
        Err_api code st msg \<Rightarrow>
          (if code = E_unauthorized then Ma_refresh_auth False
           else if code = E_unavailable \<or> code = E_not_found then Ma_stop_disabled
           else if code = E_rate_limited then Ma_backoff 60000
           else Ma_backoff 0)
      | _ \<Rightarrow> Ma_backoff 0)"

definition compute_reconnect_delay :: "nat \<Rightarrow> int \<Rightarrow> int" where
  "compute_reconnect_delay attempt minDelayMs = max (min (1000 * 2 ^ attempt) 30000) minDelayMs"

definition is_socket_silent :: "int \<Rightarrow> int \<Rightarrow> bool" where
  "is_socket_silent lastFrameAt now \<longleftrightarrow> now - lastFrameAt > 60000"

definition should_reconnect_on_resume :: "ready_state option \<Rightarrow> int \<Rightarrow> int \<Rightarrow> bool" where
  "should_reconnect_on_resume readyState lastFrameAt now =
     (if readyState \<noteq> Some Rs_open then True else is_socket_silent lastFrameAt now)"

subsection \<open>The effect\<close>

text \<open>
  What leaves the closure: an event for the handler, a ping on a socket, a read of the feature flag and
  the writes of the store.
\<close>

datatype mev_out = Mo_event json | Mo_ping nat | Mo_probe | Mo_access messages_error_code

record mev =
  me_cancelled :: bool
  me_is_stopped :: bool
  me_has_given_up :: bool
  me_has_refreshed_auth :: bool
  me_auth_recovery_failures :: nat
  me_socket :: "nat option"
  me_reconnect_timer :: "int option"
  me_keepalive_timer :: "nat option"
  me_attempt :: nat
  me_last_frame_at :: int
  me_pending_min_delay :: int
  me_connect_generation :: nat
  me_status :: realtime_status
  me_sockets :: "nat \<rightharpoonup> ready_state"
  me_next_socket :: nat
  me_token_reads :: "nat list"
  me_mints :: "nat list"
  me_refreshes :: nat

definition clear_keepalive :: "mev \<Rightarrow> mev" where
  "clear_keepalive s = s\<lparr>me_keepalive_timer := None\<rparr>"

definition me_clear_timers :: "mev \<Rightarrow> mev" where
  "me_clear_timers s = clear_keepalive (s\<lparr>me_reconnect_timer := None\<rparr>)"

text \<open>\<^verbatim>\<open>close()\<close> on a socket of the platform.\<close>

definition me_close :: "nat \<Rightarrow> mev \<Rightarrow> mev" where
  "me_close i s =
     (if me_sockets s i = Some Rs_connecting \<or> me_sockets s i = Some Rs_open
      then s\<lparr>me_sockets := (me_sockets s)(i \<mapsto> Rs_closing)\<rparr> else s)"

definition me_close_socket :: "mev \<Rightarrow> mev" where
  "me_close_socket s =
     (case me_socket s of None \<Rightarrow> s | Some i \<Rightarrow> me_close i (s\<lparr>me_socket := None\<rparr>))"

definition me_schedule_reconnect :: "int \<Rightarrow> int \<Rightarrow> mev \<Rightarrow> mev" where
  "me_schedule_reconnect minDelayMs now s =
     (if me_cancelled s \<or> me_is_stopped s \<or> me_reconnect_timer s \<noteq> None then s
      else s\<lparr>me_pending_min_delay := minDelayMs, me_attempt := me_attempt s + 1, me_status := Rt_reconnecting,
             me_reconnect_timer := Some (now + compute_reconnect_delay (me_attempt s) minDelayMs)\<rparr>)"

definition me_stop :: "mev \<Rightarrow> mev" where
  "me_stop s = (me_clear_timers (s\<lparr>me_is_stopped := True\<rparr>))\<lparr>me_status := Rt_disconnected\<rparr>"

definition me_give_up :: "mev \<Rightarrow> mev" where
  "me_give_up s = (me_stop s)\<lparr>me_has_given_up := True\<rparr>"

definition record_auth_recovery_failure :: "int \<Rightarrow> mev \<Rightarrow> mev" where
  "record_auth_recovery_failure now s =
     (let s1 = s\<lparr>me_auth_recovery_failures := me_auth_recovery_failures s + 1\<rparr>
      in if me_auth_recovery_failures s1 \<ge> MAX_AUTH_RECOVERY_FAILURES then me_give_up s1
         else me_schedule_reconnect 0 now s1)"

text \<open>\<^verbatim>\<open>handleUnauthorized\<close> up to its await and after it.\<close>

definition handle_unauthorized :: "bool \<Rightarrow> int \<Rightarrow> mev \<Rightarrow> mev" where
  "handle_unauthorized isSessionExpired now s =
     (let s1 = (if isSessionExpired then s\<lparr>me_has_refreshed_auth := False\<rparr> else s)
      in if me_has_refreshed_auth s1 then record_auth_recovery_failure now s1
         else s1\<lparr>me_has_refreshed_auth := True, me_refreshes := me_refreshes s1 + 1\<rparr>)"

definition me_refresh_done :: "refresh_result \<Rightarrow> int \<Rightarrow> mev \<Rightarrow> mev" where
  "me_refresh_done r now s =
     (if me_cancelled s then s
      else case r of
             Refresh_failed \<Rightarrow> record_auth_recovery_failure now (s\<lparr>me_has_refreshed_auth := False\<rparr>)
           | Refresh_denied \<Rightarrow> me_stop s
           | Refreshed \<Rightarrow> me_schedule_reconnect 0 now s)"

definition handle_action :: "mb_close_action \<Rightarrow> int \<Rightarrow> mev \<Rightarrow> mev \<times> mev_out list" where
  "handle_action action now s =
     (case action of
        Ma_refresh_auth isSessionExpired \<Rightarrow> (handle_unauthorized isSessionExpired now s, [])
      | Ma_remint \<Rightarrow> (me_schedule_reconnect 0 now s, [])
      | Ma_stop_access e \<Rightarrow> (me_stop s, [Mo_access e])
      | Ma_stop_disabled \<Rightarrow> (me_stop s, [Mo_probe])
      | Ma_backoff minDelayMs \<Rightarrow> (me_schedule_reconnect minDelayMs now s, []))"

text \<open>\<^verbatim>\<open>connect\<close> with its two awaits: the stored tokens, then the ticket.\<close>

definition me_connect :: "mev \<Rightarrow> mev" where
  "me_connect s =
     (if me_cancelled s \<or> me_is_stopped s then s
      else let g = me_connect_generation s + 1
           in s\<lparr>me_connect_generation := g, me_token_reads := g # me_token_reads s\<rparr>)"

definition me_tokens_read :: "nat \<Rightarrow> bool \<Rightarrow> mev \<Rightarrow> mev" where
  "me_tokens_read g hasJwt s =
     (if me_cancelled s \<or> me_is_stopped s \<or> \<not> hasJwt then s else s\<lparr>me_mints := g # me_mints s\<rparr>)"

definition me_minted :: "nat \<Rightarrow> mb_error + jstr \<Rightarrow> int \<Rightarrow> mev \<Rightarrow> mev \<times> mev_out list" where
  "me_minted generation r now s =
     (if me_cancelled s \<or> me_is_stopped s \<or> generation \<noteq> me_connect_generation s then (s, [])
      else case r of
             Inl e \<Rightarrow> handle_action (classify_ticket_error e) now s
           | Inr ticket \<Rightarrow>
               (let s1 = me_close_socket s
                in (s1\<lparr>me_socket := Some (me_next_socket s1), me_next_socket := me_next_socket s1 + 1,
                       me_sockets := (me_sockets s1)(me_next_socket s1 \<mapsto> Rs_connecting)\<rparr>, [])))"

definition abandon_silent_socket :: "nat \<Rightarrow> int \<Rightarrow> mev \<Rightarrow> mev" where
  "abandon_silent_socket i now s =
     (if me_socket s \<noteq> Some i then s
      else me_schedule_reconnect 0 now (me_close_socket (clear_keepalive s)))"

definition me_on_open :: "nat \<Rightarrow> int \<Rightarrow> mev \<Rightarrow> mev" where
  "me_on_open i now s =
     (clear_keepalive (s\<lparr>me_attempt := 0, me_has_refreshed_auth := False, me_auth_recovery_failures := 0,
        me_last_frame_at := now, me_status := Rt_connected\<rparr>))\<lparr>me_keepalive_timer := Some i\<rparr>"

definition me_on_keepalive :: "nat \<Rightarrow> int \<Rightarrow> mev \<Rightarrow> mev \<times> mev_out list" where
  "me_on_keepalive i now s =
     (if is_socket_silent (me_last_frame_at s) now then (abandon_silent_socket i now s, [])
      else (s, if me_sockets s i = Some Rs_open then [Mo_ping i] else []))"

definition me_on_message :: "(jstr \<Rightarrow> json option) \<Rightarrow> jstr \<Rightarrow> int \<Rightarrow> mev \<Rightarrow> mev \<times> mev_out list" where
  "me_on_message parse frame now s =
     (s\<lparr>me_last_frame_at := now\<rparr>,
      (case mb_parse_messages_event parse frame of
         None \<Rightarrow> []
       | Some ev \<Rightarrow> if event_type ev \<noteq> Some ''ping'' then [Mo_event ev] else []))"

definition me_on_close :: "nat \<Rightarrow> int option \<Rightarrow> jstr option \<Rightarrow> int \<Rightarrow> mev \<Rightarrow> mev \<times> mev_out list" where
  "me_on_close i code reason now s =
     (if me_socket s \<noteq> Some i then (s, [])
      else handle_action (classify_close code reason) now (clear_keepalive (s\<lparr>me_socket := None\<rparr>)))"

definition me_resume :: "int \<Rightarrow> mev \<Rightarrow> mev" where
  "me_resume now s =
     (if me_has_given_up s then
        me_connect (s\<lparr>me_has_given_up := False, me_is_stopped := False, me_auth_recovery_failures := 0,
          me_has_refreshed_auth := False, me_attempt := 0\<rparr>)
      else if me_is_stopped s then s
      else if \<not> should_reconnect_on_resume (Option.bind (me_socket s) (me_sockets s)) (me_last_frame_at s) now then s
      else if me_reconnect_timer s \<noteq> None \<and> me_pending_min_delay s > 0 then s
      else me_connect (s\<lparr>me_reconnect_timer := None, me_attempt := 0\<rparr>))"

definition me_cleanup :: "mev \<Rightarrow> mev" where
  "me_cleanup s = (me_close_socket (me_clear_timers (s\<lparr>me_cancelled := True\<rparr>)))\<lparr>me_status := Rt_disconnected\<rparr>"

definition me_initial :: "realtime_status \<Rightarrow> mev" where
  "me_initial st = \<lparr>me_cancelled = False, me_is_stopped = False, me_has_given_up = False,
     me_has_refreshed_auth = False, me_auth_recovery_failures = 0, me_socket = None, me_reconnect_timer = None,
     me_keepalive_timer = None, me_attempt = 0, me_last_frame_at = 0, me_pending_min_delay = 0,
     me_connect_generation = 0, me_status = st, me_sockets = Map.empty, me_next_socket = 0,
     me_token_reads = [], me_mints = [], me_refreshes = 0\<rparr>"

definition use_messages_events :: "realtime_status \<Rightarrow> mev" where
  "use_messages_events st = me_connect (me_initial st)"

subsection \<open>The socket as a system\<close>

datatype mev_input =
  Me_tokens nat bool
  | Me_mint nat "mb_error + jstr" int
  | Me_open nat int
  | Me_message nat jstr int
  | Me_error nat
  | Me_closed nat "int option" "jstr option" int
  | Me_keepalive int
  | Me_timer int
  | Me_refresh refresh_result int
  | Me_resume int
  | Me_cleanup

text \<open>
  What can happen in a state; \<open>signedIn\<close> says that the stored tokens are there whenever they are read.
  The foreground listener is gone after the cleanup.
\<close>

fun me_enabled :: "bool \<Rightarrow> mev_input \<Rightarrow> mev \<Rightarrow> bool" where
  "me_enabled signedIn (Me_tokens g hasJwt) s = (g \<in> set (me_token_reads s) \<and> (signedIn \<longrightarrow> hasJwt))"
| "me_enabled signedIn (Me_mint g r now) s = (g \<in> set (me_mints s))"
| "me_enabled signedIn (Me_open i now) s = (me_sockets s i = Some Rs_connecting)"
| "me_enabled signedIn (Me_message i frame now) s = (me_sockets s i = Some Rs_open)"
| "me_enabled signedIn (Me_error i) s = (me_sockets s i = Some Rs_connecting \<or> me_sockets s i = Some Rs_open)"
| "me_enabled signedIn (Me_closed i code reason now) s =
     (me_sockets s i \<noteq> None \<and> me_sockets s i \<noteq> Some Rs_closed)"
| "me_enabled signedIn (Me_keepalive now) s = (me_keepalive_timer s \<noteq> None)"
| "me_enabled signedIn (Me_timer now) s = (case me_reconnect_timer s of None \<Rightarrow> False | Some due \<Rightarrow> due \<le> now)"
| "me_enabled signedIn (Me_refresh r now) s = (me_refreshes s > 0)"
| "me_enabled signedIn (Me_resume now) s = (\<not> me_cancelled s)"
| "me_enabled signedIn Me_cleanup s = True"

fun me_handle :: "(jstr \<Rightarrow> json option) \<Rightarrow> mev_input \<Rightarrow> mev \<Rightarrow> mev \<times> mev_out list" where
  "me_handle parse (Me_tokens g hasJwt) s =
     (me_tokens_read g hasJwt (s\<lparr>me_token_reads := remove1 g (me_token_reads s)\<rparr>), [])"
| "me_handle parse (Me_mint g r now) s = me_minted g r now (s\<lparr>me_mints := remove1 g (me_mints s)\<rparr>)"
| "me_handle parse (Me_open i now) s = (me_on_open i now (s\<lparr>me_sockets := (me_sockets s)(i \<mapsto> Rs_open)\<rparr>), [])"
| "me_handle parse (Me_message i frame now) s = me_on_message parse frame now s"
| "me_handle parse (Me_error i) s = (me_close i s, [])"
| "me_handle parse (Me_closed i code reason now) s =
     me_on_close i code reason now (s\<lparr>me_sockets := (me_sockets s)(i \<mapsto> Rs_closed)\<rparr>)"
| "me_handle parse (Me_keepalive now) s =
     (case me_keepalive_timer s of None \<Rightarrow> (s, []) | Some i \<Rightarrow> me_on_keepalive i now s)"
| "me_handle parse (Me_timer now) s = (me_connect (s\<lparr>me_reconnect_timer := None\<rparr>), [])"
| "me_handle parse (Me_refresh r now) s = (me_refresh_done r now (s\<lparr>me_refreshes := me_refreshes s - 1\<rparr>), [])"
| "me_handle parse (Me_resume now) s = (me_resume now s, [])"
| "me_handle parse Me_cleanup s = (me_cleanup s, [])"

inductive mev_reachable :: "bool \<Rightarrow> (jstr \<Rightarrow> json option) \<Rightarrow> mev \<Rightarrow> bool" for signedIn parse where
  me_start: "mev_reachable signedIn parse (use_messages_events st)"
| me_next: "mev_reachable signedIn parse s \<Longrightarrow> me_enabled signedIn inp s \<Longrightarrow> me_handle parse inp s = (s', outs) \<Longrightarrow>
    mev_reachable signedIn parse s'"

subsection \<open>Invariant\<close>

definition me_live :: "mev \<Rightarrow> nat \<Rightarrow> bool" where
  "me_live s i \<longleftrightarrow> me_sockets s i = Some Rs_connecting \<or> me_sockets s i = Some Rs_open"

definition me_base :: "mev \<Rightarrow> bool" where
  "me_base s \<longleftrightarrow> (\<forall>i. me_live s i \<longrightarrow> me_socket s = Some i) \<and>
     (\<forall>i. me_socket s = Some i \<longrightarrow> i < me_next_socket s) \<and>
     (me_is_stopped s \<longrightarrow> me_reconnect_timer s = None) \<and>
     (me_has_given_up s \<longrightarrow> me_is_stopped s) \<and>
     (me_auth_recovery_failures s < MAX_AUTH_RECOVERY_FAILURES \<or> me_is_stopped s) \<and>
     (me_cancelled s \<longrightarrow> me_socket s = None \<and> me_reconnect_timer s = None \<and> me_keepalive_timer s = None \<and>
        me_status s = Rt_disconnected)"

definition me_moving :: "mev \<Rightarrow> bool" where
  "me_moving s \<longleftrightarrow> me_cancelled s \<or> me_is_stopped s \<or> me_socket s \<noteq> None \<or> me_reconnect_timer s \<noteq> None \<or>
     me_connect_generation s \<in> set (me_token_reads s) \<or> me_connect_generation s \<in> set (me_mints s) \<or>
     me_refreshes s > 0"

lemma me_live_close [simp]: "me_live (me_close p s) i \<longleftrightarrow> me_live s i \<and> i \<noteq> p"
  by (auto simp: me_live_def me_close_def)

lemma me_close_frame [simp]:
  "me_cancelled (me_close p s) = me_cancelled s" "me_is_stopped (me_close p s) = me_is_stopped s"
  "me_has_given_up (me_close p s) = me_has_given_up s" "me_socket (me_close p s) = me_socket s"
  "me_auth_recovery_failures (me_close p s) = me_auth_recovery_failures s"
  "me_reconnect_timer (me_close p s) = me_reconnect_timer s" "me_keepalive_timer (me_close p s) = me_keepalive_timer s"
  "me_next_socket (me_close p s) = me_next_socket s" "me_status (me_close p s) = me_status s"
  "me_connect_generation (me_close p s) = me_connect_generation s" "me_token_reads (me_close p s) = me_token_reads s"
  "me_mints (me_close p s) = me_mints s" "me_refreshes (me_close p s) = me_refreshes s"
  by (simp_all add: me_close_def)

lemma me_live_cong: "me_sockets s' = me_sockets s \<Longrightarrow> me_live s' = me_live s"
  by (simp add: me_live_def fun_eq_iff)

text \<open>An update that leaves the sockets and the fields of the invariant as they are.\<close>

lemma me_base_frame:
  "me_sockets s' = me_sockets s \<Longrightarrow> me_socket s' = me_socket s \<Longrightarrow> me_next_socket s' = me_next_socket s \<Longrightarrow>
   me_is_stopped s' = me_is_stopped s \<Longrightarrow> me_reconnect_timer s' = me_reconnect_timer s \<Longrightarrow>
   me_has_given_up s' = me_has_given_up s \<Longrightarrow> me_auth_recovery_failures s' = me_auth_recovery_failures s \<Longrightarrow>
   me_cancelled s' = me_cancelled s \<Longrightarrow> me_keepalive_timer s' = me_keepalive_timer s \<Longrightarrow>
   me_status s' = me_status s \<Longrightarrow> me_base s' = me_base s"
  by (simp add: me_base_def me_live_cong[of s' s])

lemmas me_act_defs = me_schedule_reconnect_def me_stop_def me_give_up_def me_clear_timers_def clear_keepalive_def
  record_auth_recovery_failure_def handle_unauthorized_def handle_action_def

lemma me_live_upd [simp]:
  "me_live (s\<lparr>me_pending_min_delay := a, me_attempt := b, me_status := c, me_reconnect_timer := d\<rparr>) = me_live s"
  by (rule me_live_cong) simp

lemma me_base_schedule: "me_base s \<Longrightarrow> me_base (me_schedule_reconnect d now s)"
  by (auto simp: me_schedule_reconnect_def me_base_def)

lemma me_moving_schedule: "me_moving (me_schedule_reconnect d now s)"
  by (auto simp: me_schedule_reconnect_def me_moving_def)

lemma me_stop_sockets [simp]: "me_live (me_stop s) = me_live s" "me_live (me_give_up s) = me_live s"
  by (rule me_live_cong, simp add: me_stop_def me_give_up_def me_clear_timers_def clear_keepalive_def)+

lemma me_base_stop: "me_base s \<Longrightarrow> me_base (me_stop s)" "me_base s \<Longrightarrow> me_base (me_give_up s)"
  unfolding me_base_def by (simp_all, simp_all add: me_stop_def me_give_up_def me_clear_timers_def clear_keepalive_def)

lemma me_base_failures:
  "me_base s \<Longrightarrow> n < MAX_AUTH_RECOVERY_FAILURES \<Longrightarrow> me_base (s\<lparr>me_auth_recovery_failures := n\<rparr>)"
  using me_live_cong[of "s\<lparr>me_auth_recovery_failures := n\<rparr>" s] by (simp add: me_base_def)

lemma me_base_give_up_late: "me_base s \<Longrightarrow> me_base (me_give_up (s\<lparr>me_auth_recovery_failures := n\<rparr>))"
  using me_live_cong[of "s\<lparr>me_auth_recovery_failures := n\<rparr>" s] unfolding me_base_def
  by (simp, simp add: me_stop_def me_give_up_def me_clear_timers_def clear_keepalive_def)

lemma me_moving_stop [simp]: "me_moving (me_stop s)" "me_moving (me_give_up s)"
  by (simp_all add: me_moving_def me_stop_def me_give_up_def me_clear_timers_def clear_keepalive_def)

lemma me_base_record: "me_base s \<Longrightarrow> me_base (record_auth_recovery_failure now s)"
  by (auto simp: record_auth_recovery_failure_def Let_def not_le
      intro: me_base_schedule me_base_failures me_base_give_up_late)

lemma me_moving_record: "me_moving (record_auth_recovery_failure now s)"
  by (simp add: record_auth_recovery_failure_def Let_def me_moving_schedule)

lemma me_base_refreshed [simp]:
  "me_base (s\<lparr>me_has_refreshed_auth := b\<rparr>) = me_base s" "me_base (s\<lparr>me_refreshes := n\<rparr>) = me_base s"
  "me_base (s\<lparr>me_has_refreshed_auth := b, me_refreshes := n\<rparr>) = me_base s"
  "me_base (s\<lparr>me_mints := ms\<rparr>) = me_base s" "me_base (s\<lparr>me_token_reads := ms\<rparr>) = me_base s"
  "me_base (s\<lparr>me_connect_generation := g\<rparr>) = me_base s"
  "me_base (s\<lparr>me_token_reads := ms, me_mints := ns\<rparr>) = me_base s"
  "me_base (s\<lparr>me_last_frame_at := t\<rparr>) = me_base s"
  by (rule me_base_frame; simp)+

lemma me_base_unauthorized: "me_base s \<Longrightarrow> me_base (handle_unauthorized e now s)"
  by (simp add: handle_unauthorized_def Let_def me_base_record)

lemma me_moving_unauthorized: "me_moving (handle_unauthorized e now s)"
  by (simp add: handle_unauthorized_def Let_def me_moving_record) (simp add: me_moving_def)

lemma me_action_ok:
  "me_base s \<Longrightarrow> me_base (fst (handle_action a now s))" "me_moving (fst (handle_action a now s))"
  by (cases a; simp add: handle_action_def me_base_unauthorized me_base_schedule me_base_stop
      me_moving_unauthorized me_moving_schedule)+

lemma me_base_connect: "me_base s \<Longrightarrow> me_base (me_connect s)"
  by (simp add: me_connect_def Let_def)

lemma me_moving_connect: "me_moving (me_connect s)"
  by (simp add: me_connect_def Let_def me_moving_def)

lemma me_base_close_socket: "me_base s \<Longrightarrow> me_base (me_close_socket s)"
proof (cases "me_socket s")
  case (Some i)
  assume "me_base s"
  then show ?thesis using Some me_live_cong[of "s\<lparr>me_socket := None\<rparr>" s]
    unfolding me_base_def me_close_socket_def by auto
qed (simp add: me_close_socket_def)

lemma me_close_socket_none: "me_socket (me_close_socket s) = None"
  by (simp add: me_close_socket_def split: option.split)

lemma me_close_socket_frame [simp]:
  "me_cancelled (me_close_socket s) = me_cancelled s" "me_is_stopped (me_close_socket s) = me_is_stopped s"
  "me_next_socket (me_close_socket s) = me_next_socket s"
  "me_keepalive_timer (me_close_socket s) = me_keepalive_timer s"
  by (simp_all add: me_close_socket_def split: option.split)

lemma me_base_new_socket:
  assumes "me_base s" "me_socket s = None" "\<not> me_cancelled s"
  shows "me_base (s\<lparr>me_socket := Some (me_next_socket s), me_next_socket := me_next_socket s + 1,
    me_sockets := (me_sockets s)(me_next_socket s \<mapsto> Rs_connecting)\<rparr>)"
  using assms by (auto simp: me_base_def me_live_def)

lemma me_minted_ok:
  assumes ok: "me_base s"
  shows "me_base (fst (me_minted g r now (s\<lparr>me_mints := remove1 g (me_mints s)\<rparr>)))"
    "me_moving s \<Longrightarrow> me_moving (fst (me_minted g r now (s\<lparr>me_mints := remove1 g (me_mints s)\<rparr>)))"
proof -
  let ?s = "s\<lparr>me_mints := remove1 g (me_mints s)\<rparr>"
  have b: "me_base ?s" using ok by simp
  show "me_base (fst (me_minted g r now ?s))"
    using b me_base_new_socket[OF me_base_close_socket[OF b] me_close_socket_none]
    by (auto simp: me_minted_def me_action_ok(1) Let_def split: sum.split)
  show "me_moving (fst (me_minted g r now ?s))" if mv: "me_moving s"
  proof (cases "g = me_connect_generation s")
    case True
    then show ?thesis by (auto simp: me_minted_def me_action_ok(2) Let_def split: sum.split) (auto simp: me_moving_def)
  next
    case False
    then show ?thesis using mv by (auto simp: me_minted_def me_moving_def)
  qed
qed

lemma me_moving_tokens:
  "me_moving s \<Longrightarrow> hasJwt \<Longrightarrow>
   me_moving (me_tokens_read g hasJwt (s\<lparr>me_token_reads := remove1 g (me_token_reads s)\<rparr>))"
  by (auto simp: me_tokens_read_def me_moving_def)

lemma me_base_tokens:
  "me_base s \<Longrightarrow> me_base (me_tokens_read g hasJwt (s\<lparr>me_token_reads := remove1 g (me_token_reads s)\<rparr>))"
  by (simp add: me_tokens_read_def)

lemma me_live_set: "me_live (s\<lparr>me_sockets := (me_sockets s)(i \<mapsto> r)\<rparr>) j \<longleftrightarrow>
    (if j = i then r = Rs_connecting \<or> r = Rs_open else me_live s j)"
  by (auto simp: me_live_def)

lemma me_open_ok:
  assumes ok: "me_base s" and c: "me_sockets s i = Some Rs_connecting"
  shows "me_base (me_on_open i now (s\<lparr>me_sockets := (me_sockets s)(i \<mapsto> Rs_open)\<rparr>))"
    "me_moving (me_on_open i now (s\<lparr>me_sockets := (me_sockets s)(i \<mapsto> Rs_open)\<rparr>))"
proof -
  let ?t = "s\<lparr>me_sockets := (me_sockets s)(i \<mapsto> Rs_open)\<rparr>"
  have i: "me_live s i" using c by (simp add: me_live_def)
  then have so: "me_socket s = Some i" using ok by (simp add: me_base_def)
  have "me_live (me_on_open i now ?t) = me_live ?t"
    by (rule me_live_cong) (simp add: me_on_open_def clear_keepalive_def)
  then have l: "me_live (me_on_open i now ?t) j = me_live s j" for j using i by (simp add: me_live_set)
  show "me_base (me_on_open i now ?t)" using ok so unfolding me_base_def l
    by (auto simp: me_on_open_def clear_keepalive_def MAX_AUTH_RECOVERY_FAILURES_def)
  show "me_moving (me_on_open i now ?t)" using so by (simp add: me_moving_def me_on_open_def clear_keepalive_def)
qed

lemma me_base_no_keepalive: "me_base s \<Longrightarrow> me_base (clear_keepalive s)"
  using me_live_cong[of "clear_keepalive s" s] by (simp add: me_base_def clear_keepalive_def)

lemma me_moving_cong:
  "me_cancelled s' = me_cancelled s \<Longrightarrow> me_is_stopped s' = me_is_stopped s \<Longrightarrow> me_socket s' = me_socket s \<Longrightarrow>
   me_reconnect_timer s' = me_reconnect_timer s \<Longrightarrow> me_connect_generation s' = me_connect_generation s \<Longrightarrow>
   me_token_reads s' = me_token_reads s \<Longrightarrow> me_mints s' = me_mints s \<Longrightarrow> me_refreshes s' = me_refreshes s \<Longrightarrow>
   me_moving s' = me_moving s"
  by (simp add: me_moving_def)

lemma me_base_closed:
  assumes "me_base s"
  shows "me_base (s\<lparr>me_sockets := (me_sockets s)(i \<mapsto> Rs_closed)\<rparr>)"
    "me_socket s = Some i \<Longrightarrow> me_base (s\<lparr>me_sockets := (me_sockets s)(i \<mapsto> Rs_closed), me_socket := None\<rparr>)"
  using assms by (auto simp: me_base_def me_live_def)

lemma me_closed_ok:
  assumes ok: "me_base s"
  shows "me_base (fst (me_on_close i code reason now (s\<lparr>me_sockets := (me_sockets s)(i \<mapsto> Rs_closed)\<rparr>)))"
    "me_moving s \<Longrightarrow> me_moving (fst (me_on_close i code reason now (s\<lparr>me_sockets := (me_sockets s)(i \<mapsto> Rs_closed)\<rparr>)))"
  using me_base_closed[OF ok] me_action_ok me_base_no_keepalive
    me_moving_cong[of "s\<lparr>me_sockets := (me_sockets s)(i \<mapsto> Rs_closed)\<rparr>" s]
  by (auto simp: me_on_close_def)

lemma me_base_me_close: "me_base s \<Longrightarrow> me_base (me_close p s)"
  unfolding me_base_def by auto

lemma me_keepalive_ok:
  "me_base s \<Longrightarrow> me_base (fst (me_on_keepalive i now s))"
  "me_moving s \<Longrightarrow> me_moving (fst (me_on_keepalive i now s))"
  by (auto simp: me_on_keepalive_def abandon_silent_socket_def me_moving_schedule
      intro!: me_base_schedule me_base_close_socket me_base_no_keepalive)

lemma me_refresh_ok:
  assumes ok: "me_base s"
  shows "me_base (me_refresh_done r now (s\<lparr>me_refreshes := n\<rparr>))" "me_moving (me_refresh_done r now (s\<lparr>me_refreshes := n\<rparr>))"
proof -
  have b: "me_base (s\<lparr>me_refreshes := n\<rparr>)" "me_base (s\<lparr>me_refreshes := n, me_has_refreshed_auth := False\<rparr>)"
    using ok me_base_refreshed(1)[where s = "s\<lparr>me_refreshes := n\<rparr>" and b = False] by simp_all
  show "me_base (me_refresh_done r now (s\<lparr>me_refreshes := n\<rparr>))"
    using b by (cases r) (auto simp: me_refresh_done_def intro: me_base_schedule me_base_stop me_base_record)
  show "me_moving (me_refresh_done r now (s\<lparr>me_refreshes := n\<rparr>))"
    by (cases r) (auto simp: me_refresh_done_def me_moving_schedule me_moving_record me_moving_def[of "_\<lparr>me_refreshes := n\<rparr>"])
qed

lemma me_resume_ok:
  assumes ok: "me_base s" "\<not> me_cancelled s"
  shows "me_base (me_resume now s)" "me_moving s \<Longrightarrow> me_moving (me_resume now s)"
proof -
  let ?fresh = "s\<lparr>me_has_given_up := False, me_is_stopped := False, me_auth_recovery_failures := 0,
      me_has_refreshed_auth := False, me_attempt := 0\<rparr>"
  have l: "me_live ?fresh = me_live s" "me_live (s\<lparr>me_reconnect_timer := None, me_attempt := 0\<rparr>) = me_live s"
    by (rule me_live_cong; simp)+
  have "me_base ?fresh" "me_base (s\<lparr>me_reconnect_timer := None, me_attempt := 0\<rparr>)"
    using ok unfolding me_base_def l by (auto simp: MAX_AUTH_RECOVERY_FAILURES_def)
  then show "me_base (me_resume now s)" using ok(1) by (auto simp: me_resume_def intro: me_base_connect)
  show "me_moving s \<Longrightarrow> me_moving (me_resume now s)" by (auto simp: me_resume_def me_moving_connect)
qed

lemma me_base_cleanup: "me_base s \<Longrightarrow> me_base (me_cleanup s)"
proof -
  assume ok: "me_base s"
  let ?t = "s\<lparr>me_cancelled := True, me_reconnect_timer := None, me_keepalive_timer := None\<rparr>"
  have l: "me_live (me_cleanup s) i \<longleftrightarrow> me_live s i \<and> me_socket s \<noteq> Some i" for i
    by (cases "me_socket s") (auto simp: me_cleanup_def me_clear_timers_def clear_keepalive_def me_close_socket_def
        me_close_def me_live_def)
  have f: "me_socket (me_cleanup s) = None" "me_reconnect_timer (me_cleanup s) = None"
    "me_keepalive_timer (me_cleanup s) = None" "me_status (me_cleanup s) = Rt_disconnected"
    "me_is_stopped (me_cleanup s) = me_is_stopped s" "me_has_given_up (me_cleanup s) = me_has_given_up s"
    "me_auth_recovery_failures (me_cleanup s) = me_auth_recovery_failures s"
    by (cases "me_socket s"; simp add: me_cleanup_def me_clear_timers_def clear_keepalive_def me_close_socket_def)+
  show ?thesis using ok unfolding me_base_def l f by auto
qed

lemma mev_step_ok:
  assumes ok: "me_base s" and en: "me_enabled signedIn inp s"
  shows "me_base (fst (me_handle parse inp s))" "signedIn \<Longrightarrow> me_moving s \<Longrightarrow> me_moving (fst (me_handle parse inp s))"
proof -
  have "me_base (fst (me_handle parse inp s)) \<and> (signedIn \<longrightarrow> me_moving s \<longrightarrow> me_moving (fst (me_handle parse inp s)))"
  proof (cases inp)
    case (Me_timer now)
    have l: "me_live (s\<lparr>me_reconnect_timer := None\<rparr>) = me_live s" by (rule me_live_cong) simp
    have "me_base (s\<lparr>me_reconnect_timer := None\<rparr>)" using ok unfolding me_base_def l by simp
    then show ?thesis using Me_timer by (simp add: me_base_connect me_moving_connect)
  next
    case Me_cleanup
    then show ?thesis using me_base_cleanup[OF ok]
      by (cases "me_socket s") (simp_all add: me_moving_def me_cleanup_def me_close_socket_def me_clear_timers_def clear_keepalive_def)
  next
    case (Me_message i frame now)
    then show ?thesis using ok by (simp add: me_on_message_def me_moving_def)
  next
    case (Me_error i)
    then show ?thesis using me_base_me_close[OF ok] by (simp add: me_moving_def)
  next
    case (Me_keepalive now)
    then show ?thesis using me_keepalive_ok[of s] ok by (auto split: option.split)
  next
    case (Me_mint g r now)
    then show ?thesis using me_minted_ok[OF ok] by simp
  next
    case (Me_tokens g hasJwt)
    then show ?thesis using me_base_tokens[OF ok] me_moving_tokens[of s hasJwt g] en by simp
  next
    case (Me_closed i code reason now)
    then show ?thesis using me_closed_ok[OF ok] by simp
  next
    case (Me_resume now)
    then show ?thesis using me_resume_ok[OF ok] en by simp
  next
    case (Me_open i now)
    then show ?thesis using me_open_ok[OF ok] en by simp
  next
    case (Me_refresh r now)
    then show ?thesis using me_refresh_ok[OF ok] by simp
  qed
  then show "me_base (fst (me_handle parse inp s))"
    "signedIn \<Longrightarrow> me_moving s \<Longrightarrow> me_moving (fst (me_handle parse inp s))" by blast+
qed

lemma mev_reachable_ok: "mev_reachable signedIn parse s \<Longrightarrow> me_base s \<and> (signedIn \<longrightarrow> me_moving s)"
proof (induction rule: mev_reachable.induct)
  case (me_start st)
  have "me_base (me_initial st)" by (simp add: me_base_def me_initial_def me_live_def MAX_AUTH_RECOVERY_FAILURES_def)
  then show ?case by (simp add: use_messages_events_def me_base_connect me_moving_connect)
next
  case (me_next s inp s' outs)
  then show ?case using mev_step_ok[of s signedIn inp parse] by auto
qed

text \<open>The current socket is connecting, open, or closing with its close event still to come.\<close>

definition me_current :: "mev \<Rightarrow> bool" where
  "me_current s \<longleftrightarrow> (\<forall>i. me_socket s = Some i \<longrightarrow> me_live s i \<or> me_sockets s i = Some Rs_closing)"

lemma me_current_frame: "me_socket s' = me_socket s \<Longrightarrow> me_sockets s' = me_sockets s \<Longrightarrow> me_current s' = me_current s"
  by (simp add: me_current_def me_live_def)

lemma me_acts_keep_sockets [simp]:
  "me_socket (me_schedule_reconnect d now s) = me_socket s" "me_sockets (me_schedule_reconnect d now s) = me_sockets s"
  "me_socket (me_stop s) = me_socket s" "me_sockets (me_stop s) = me_sockets s"
  "me_socket (me_connect s) = me_socket s" "me_sockets (me_connect s) = me_sockets s"
  "me_socket (clear_keepalive s) = me_socket s" "me_sockets (clear_keepalive s) = me_sockets s"
  by (simp_all add: me_schedule_reconnect_def me_stop_def me_clear_timers_def clear_keepalive_def me_connect_def Let_def)

lemma me_recovery_keeps_sockets [simp]:
  "me_socket (record_auth_recovery_failure now s) = me_socket s"
  "me_sockets (record_auth_recovery_failure now s) = me_sockets s"
  by (simp_all add: record_auth_recovery_failure_def me_give_up_def Let_def)

lemma me_action_keeps_sockets [simp]:
  "me_socket (fst (handle_action a now s)) = me_socket s" "me_sockets (fst (handle_action a now s)) = me_sockets s"
  by (cases a; simp add: handle_action_def handle_unauthorized_def Let_def)+

lemma me_current_step:
  assumes ok: "me_current s"
  shows "me_current (fst (me_handle parse inp s))"
proof (cases inp)
  case (Me_tokens g hasJwt)
  then show ?thesis using ok by (simp add: me_tokens_read_def me_current_def me_live_def)
next
  case (Me_mint g r now)
  then show ?thesis using ok
    by (cases r) (auto simp: me_minted_def me_current_def me_live_def Let_def)
next
  case (Me_open i now)
  then show ?thesis using ok by (auto simp: me_on_open_def me_current_def me_live_def)
next
  case (Me_message i frame now)
  then show ?thesis using ok by (simp add: me_on_message_def me_current_def me_live_def)
next
  case (Me_error i)
  then show ?thesis using ok by (auto simp: me_close_def me_current_def me_live_def)
next
  case (Me_closed i code reason now)
  then show ?thesis using ok by (auto simp: me_on_close_def me_current_def me_live_def)
next
  case (Me_keepalive now)
  then show ?thesis using ok
    by (auto simp: me_on_keepalive_def abandon_silent_socket_def me_close_socket_none me_current_def me_live_def
        split: option.split)
next
  case (Me_timer now)
  then show ?thesis using ok by (simp add: me_current_def me_live_def)
next
  case (Me_refresh r now)
  then show ?thesis using ok by (cases r) (simp_all add: me_refresh_done_def me_current_def me_live_def)
next
  case (Me_resume now)
  then show ?thesis using ok by (simp add: me_resume_def me_current_def me_live_def)
next
  case Me_cleanup
  then show ?thesis by (simp add: me_cleanup_def me_close_socket_none me_current_def)
qed

lemma mev_reachable_current: "mev_reachable signedIn parse s \<Longrightarrow> me_current s"
proof (induction rule: mev_reachable.induct)
  case (me_start st)
  show ?case by (simp add: use_messages_events_def me_initial_def me_current_def)
next
  case (me_next s inp s' outs)
  then show ?case using me_current_step[of s parse inp] by simp
qed

subsection \<open>Properties\<close>

lemma cancelled_quiet:
  assumes ok: "me_base s" and c: "me_cancelled s" and en: "me_enabled signedIn inp s"
  shows "snd (me_handle parse inp s) = [] \<and> me_cancelled (fst (me_handle parse inp s)) \<and>
    me_status (fst (me_handle parse inp s)) = Rt_disconnected"
proof -
  have n: "\<not> me_live s i" "me_socket s = None" "me_reconnect_timer s = None" "me_keepalive_timer s = None"
    "me_status s = Rt_disconnected" for i
    using ok c by (auto simp: me_base_def)
  show ?thesis using n(2-) c en n(1)[unfolded me_live_def]
    by (cases inp) (auto simp: me_tokens_read_def me_minted_def me_on_close_def me_refresh_done_def me_cleanup_def
        me_close_socket_def me_clear_timers_def clear_keepalive_def)
qed

text \<open>
  C25. The mobile app never holds two event sockets: at most one socket is connecting or open and it is the
  current one, whatever order opens, closes, resumes, timers, mints and refreshes come in. Once the effect
  is cleaned up no socket and no timer is left, and nothing that still arrives reaches the handler, the
  status or the store.
\<close>
theorem mobile_one_live_socket:
  assumes "mev_reachable signedIn parse s"
  shows "(me_live s i \<longrightarrow> me_live s j \<longrightarrow> i = j) \<and> (me_live s i \<longrightarrow> me_socket s = Some i) \<and>
    (me_cancelled s \<longrightarrow> \<not> me_live s i \<and> me_reconnect_timer s = None \<and> me_keepalive_timer s = None) \<and>
    (me_cancelled s \<longrightarrow> me_enabled signedIn inp s \<longrightarrow> snd (me_handle parse inp s) = [] \<and>
       me_status (fst (me_handle parse inp s)) = Rt_disconnected)"
proof -
  have ok: "me_base s" using mev_reachable_ok[OF assms] by simp
  then have l: "me_live s k \<Longrightarrow> me_socket s = Some k" for k by (simp add: me_base_def)
  then have "me_live s i \<longrightarrow> me_live s j \<longrightarrow> i = j" by (metis option.inject)
  moreover have "\<not> me_live s i \<and> me_reconnect_timer s = None \<and> me_keepalive_timer s = None" if "me_cancelled s"
    using ok that l[of i] by (auto simp: me_base_def)
  ultimately show ?thesis using l[of i] cancelled_quiet[OF ok, of signedIn inp parse] by blast
qed

text \<open>
  C36. The mobile socket is never stuck: while its user is signed in, an effect that is neither cleaned up
  nor stopped always has something that moves it on, namely a current socket that is connecting, open or
  closing with its close event still to come (never one that has already closed), a reconnect timer, the
  read of the tokens or the mint of the ticket of the latest connection, or a session refresh; and it
  stops after at most five failed recoveries in a row.
\<close>
theorem mobile_socket_not_stuck:
  assumes "mev_reachable True parse s" "\<not> me_cancelled s" "\<not> me_is_stopped s"
  shows "((\<exists>i. me_socket s = Some i \<and>
        me_sockets s i \<in> {Some Rs_connecting, Some Rs_open, Some Rs_closing}) \<or>
      me_reconnect_timer s \<noteq> None \<or> me_connect_generation s \<in> set (me_token_reads s) \<or>
      me_connect_generation s \<in> set (me_mints s) \<or> me_refreshes s > 0) \<and>
    me_auth_recovery_failures s < 5"
proof -
  have "me_socket s = Some i \<Longrightarrow> me_sockets s i \<in> {Some Rs_connecting, Some Rs_open, Some Rs_closing}" for i
    using mev_reachable_current[OF assms(1)] by (auto simp: me_current_def me_live_def)
  then show ?thesis
    using mev_reachable_ok[OF assms(1)] assms(2,3)
    by (auto simp: me_moving_def me_base_def MAX_AUTH_RECOVERY_FAILURES_def)
qed

text \<open>
  Coming to the foreground restarts a socket that gave up, with its counters cleared, and never one
  that was stopped for another reason (no usable token, the feature off, the session over).
\<close>
theorem foreground_restarts_given_up:
  assumes "mev_reachable signedIn parse s" "\<not> me_cancelled s" "me_is_stopped s"
  shows "me_resume now s = s \<or>
    (me_has_given_up s \<and> \<not> me_is_stopped (me_resume now s) \<and> me_auth_recovery_failures (me_resume now s) = 0 \<and>
     me_attempt (me_resume now s) = 0 \<and>
     me_connect_generation (me_resume now s) \<in> set (me_token_reads (me_resume now s)))"
  using assms(2,3) by (auto simp: me_resume_def me_connect_def Let_def)

fun me_run :: "bool \<Rightarrow> (jstr \<Rightarrow> json option) \<Rightarrow> mev_input list \<Rightarrow> mev \<Rightarrow> (mev \<times> mev_out list) option" where
  "me_run signedIn parse [] s = Some (s, [])"
| "me_run signedIn parse (i # is) s =
     (if me_enabled signedIn i s
      then (case me_handle parse i s of (s1, o1) \<Rightarrow>
              map_option (\<lambda>(s2, o2). (s2, o1 @ o2)) (me_run signedIn parse is s1))
      else None)"

lemma me_run_reachable:
  "me_run signedIn parse is s = Some (s', outs) \<Longrightarrow> mev_reachable signedIn parse s \<Longrightarrow> mev_reachable signedIn parse s'"
proof (induction "is" arbitrary: s outs)
  case (Cons i js)
  obtain s1 o1 where h: "me_handle parse i s = (s1, o1)" by fastforce
  with Cons.prems obtain o2 where "me_run signedIn parse js s1 = Some (s', o2)" "me_enabled signedIn i s"
    by (auto split: if_splits)
  then show ?case using Cons.IH me_next[OF Cons.prems(2) _ h] by blast
qed simp

definition me_begin :: mev where
  "me_begin = use_messages_events Rt_disconnected"

text \<open>Open a socket; leave it silent for longer than a minute; come back and open another.\<close>

definition me_reopened :: "mev_input list" where
  "me_reopened = [Me_tokens 1 True, Me_mint 1 (Inr ''t1'') 0, Me_open 0 10, Me_resume 70020, Me_tokens 2 True,
     Me_mint 2 (Inr ''t2'') 70100]"

theorem mobile_one_live_socket_witness:
  "\<exists>s. mev_reachable True parse_none s \<and> me_sockets s 0 = Some Rs_closing \<and> me_live s 1 \<and> me_socket s = Some 1 \<and> \<not> me_live s 0"
proof -
  have "map_option (\<lambda>(s, outs). (me_live s 1, me_sockets s 0)) (me_run True parse_none me_reopened me_begin) =
      Some (True, Some Rs_closing)" by code_simp
  then obtain s outs where r: "me_run True parse_none me_reopened me_begin = Some (s, outs)" and
    s: "me_live s 1" "me_sockets s 0 = Some Rs_closing" by auto
  have "mev_reachable True parse_none s" by (rule me_run_reachable[OF r]) (simp add: me_begin_def me_start)
  then show ?thesis using s mobile_one_live_socket[of True parse_none s 1 0] by auto
qed

theorem mobile_socket_not_stuck_witness:
  "\<exists>s. mev_reachable True parse_none s \<and> me_socket s = None \<and> me_token_reads s = [] \<and> me_mints s = [] \<and>
     me_refreshes s = 0 \<and> me_reconnect_timer s \<noteq> None"
proof -
  have "map_option (\<lambda>(s, outs). (me_socket s, me_token_reads s, me_mints s, me_refreshes s, me_cancelled s, me_is_stopped s))
      (me_run True parse_none [Me_tokens 1 True, Me_mint 1 (Inr ''t1'') 0, Me_open 0 10, Me_closed 0 None None 20] me_begin) =
      Some (None, [], [], 0, False, False)" by code_simp
  then obtain s outs where r: "me_run True parse_none [Me_tokens 1 True, Me_mint 1 (Inr ''t1'') 0, Me_open 0 10,
        Me_closed 0 None None 20] me_begin = Some (s, outs)" and
    s: "me_socket s = None" "me_token_reads s = []" "me_mints s = []" "me_refreshes s = 0" "\<not> me_cancelled s" "\<not> me_is_stopped s"
    by auto
  have "mev_reachable True parse_none s" by (rule me_run_reachable[OF r]) (simp add: me_begin_def me_start)
  then show ?thesis using s mobile_socket_not_stuck[of parse_none s] by auto
qed

theorem foreground_restarts_given_up_witness:
  "\<exists>s. mev_reachable True parse_none s \<and> me_is_stopped s \<and> me_resume 9 s = s"
proof -
  have "map_option (\<lambda>(s, outs). (me_cancelled s, me_is_stopped s, me_has_given_up s))
      (me_run True parse_none [Me_tokens 1 True, Me_mint 1 (Inl (Err_api E_unavailable (Some 404) None)) 0] me_begin) =
      Some (False, True, False)" by code_simp
  then obtain s outs where r: "me_run True parse_none [Me_tokens 1 True,
        Me_mint 1 (Inl (Err_api E_unavailable (Some 404) None)) 0] me_begin = Some (s, outs)" and
    s: "\<not> me_cancelled s" "me_is_stopped s" "\<not> me_has_given_up s" by auto
  have "mev_reachable True parse_none s" by (rule me_run_reachable[OF r]) (simp add: me_begin_def me_start)
  then show ?thesis using s foreground_restarts_given_up[of True parse_none s 9] by blast
qed

subsection \<open>Where the policy is not kept\<close>

text \<open>
  A rate-limited close while a reconnect is already scheduled does not wait: here the timer that a
  session refresh has set fires after one second.
\<close>

definition me_raced :: "mev_input list" where
  "me_raced = [Me_tokens 1 True, Me_mint 1 (Inr ''t1'') 0, Me_open 0 10, Me_closed 0 (Some 4401) None 20,
     Me_resume 30, Me_tokens 2 True, Me_mint 2 (Inr ''t2'') 40]"

lemma rate_limit_wait_dropped:
  "map_option (\<lambda>(s, outs). me_reconnect_timer s)
     (me_run True parse_none (me_raced @ [Me_refresh Refreshed 50, Me_closed 1 (Some 4429) None 60]) me_begin) =
   Some (Some 1050)"
  by code_simp

text \<open>
  A refusal to refresh the session stops the effect but not the socket that is connecting: it opens, the
  status says connected, and when it falls silent nothing takes its place.
\<close>

lemma stopped_shows_connected:
  "map_option (\<lambda>(s, outs). (me_is_stopped s, me_status s, me_socket s, me_reconnect_timer s))
     (me_run True parse_none (me_raced @ [Me_refresh Refresh_denied 50, Me_open 1 60, Me_keepalive 90000]) me_begin) =
   Some (True, Rt_connected, None, None)"
  by code_simp

end
