(* ===== verification/Mobile_Access.thy ===== *)
theory Mobile_Access
  imports Mobile_Sends
begin

section \<open>Access to Direct Casts in the mobile app\<close>

text \<open>
  \<^verbatim>\<open>farcaster-audio/hooks/useMessagingAccess.ts\<close> with the enable errors of
  \<^verbatim>\<open>farcaster-audio/services/messagesApi.ts\<close>: the token status cached for one account, the state of the
  gate and the enabling of messages. The signing of the token request (\<^verbatim>\<open>signMessagingToken\<close>) is a call
  whose result is an argument: the body, or its error.
\<close>

subsection \<open>Errors of enabling\<close>

datatype enable_error_code =
  Ee_invalid_signature | Ee_invalid_auth_request | Ee_rate_limited | Ee_unavailable | Ee_network
  | Ee_upstream_error | Ee_unknown

definition enable_error_by_detail :: "jstr \<Rightarrow> enable_error_code option" where
  "enable_error_by_detail d =
     (if d = ''invalid_signature'' then Some Ee_invalid_signature
      else if d = ''invalid_auth_request'' then Some Ee_invalid_auth_request
      else if d = ''rate_limited'' then Some Ee_rate_limited
      else if d \<in> {''registry_unavailable'', ''upstream_error'', ''token_rejected'', ''messaging_unavailable''}
      then Some Ee_upstream_error else None)"

text \<open>A cancelled request is an axios error without a response.\<close>

definition to_enable_error :: "raw_error \<Rightarrow> enable_error_code" where
  "to_enable_error e =
     (case e of
        Raw_other \<Rightarrow> Ee_unknown
      | Raw_abort \<Rightarrow> Ee_network
      | Raw_axios None detail msg \<Rightarrow> Ee_network
      | Raw_axios (Some status) detail msg \<Rightarrow>
          if status = 429 then Ee_rate_limited
          else (case Option.bind detail enable_error_by_detail of
                  Some code \<Rightarrow> code
                | None \<Rightarrow> if status = 404 then Ee_unavailable else Ee_unknown))"

datatype enable_failure = Ef_signer_link jstr | Ef_enable enable_error_code | Ef_other

fun ENABLE_COPY :: "enable_error_code \<Rightarrow> jstr" where
  "ENABLE_COPY Ee_invalid_signature =
     ''That phrase doesn't control this Farcaster account. Use the recovery phrase for this account.''"
| "ENABLE_COPY Ee_invalid_auth_request = ''Something went wrong preparing the request. Try again.''"
| "ENABLE_COPY Ee_rate_limited = ''Too many attempts. Wait a minute and try again.''"
| "ENABLE_COPY Ee_unavailable = ''Messages aren't available right now.''"
| "ENABLE_COPY Ee_network = ''You're offline. Check your connection.''"
| "ENABLE_COPY Ee_upstream_error = ''Farcaster is having trouble. Try again shortly.''"
| "ENABLE_COPY Ee_unknown = ''Something went wrong. Try again.''"

definition describe_enable_error :: "enable_failure \<Rightarrow> jstr" where
  "describe_enable_error e =
     (case e of Ef_signer_link msg \<Rightarrow> msg | Ef_enable code \<Rightarrow> ENABLE_COPY code | Ef_other \<Rightarrow> ENABLE_COPY Ee_unknown)"

subsection \<open>The cached status\<close>

datatype access_state = As_checking | As_ready | As_needs_enable | As_error

datatype enable_reason = Er_missing | Er_expired | Er_rejected

record token_snapshot =
  ts_fid :: int
  ts_token_status :: "messaging_token_status option"
  ts_expires_at :: "jstr option"
  ts_is_unavailable :: bool

record token_store =
  tk_snapshot :: "token_snapshot option"
  tk_in_flight :: "int option"

text \<open>The subscription to the session: a sign-out drops both.\<close>

definition token_store_on_auth :: "bool \<Rightarrow> bool \<Rightarrow> token_store \<Rightarrow> token_store" where
  "token_store_on_auth hadUser hasUser t =
     (if hadUser \<and> \<not> hasUser then t\<lparr>tk_snapshot := None, tk_in_flight := None\<rparr> else t)"

text \<open>\<^verbatim>\<open>loadTokenStatus\<close> up to its await (whether it asks the server) and after it.\<close>

definition load_token_status :: "int \<Rightarrow> bool \<Rightarrow> token_store \<Rightarrow> token_store \<times> bool" where
  "load_token_status fid force t =
     (if \<not> force \<and> (case tk_snapshot t of Some sn \<Rightarrow> ts_fid sn = fid | None \<Rightarrow> False) then (t, False)
      else if tk_in_flight t = Some fid then (t, False)
      else (t\<lparr>tk_in_flight := Some fid\<rparr>, True))"

definition load_token_status_done ::
  "int \<Rightarrow> messaging_status option \<Rightarrow> token_store \<times> mb_store \<Rightarrow> token_store \<times> mb_store" where
  "load_token_status_done fid r ts =
     (case ts of (t, s) \<Rightarrow>
        (case (case r of
                 Some status \<Rightarrow>
                   (\<lparr>ts_fid = fid, ts_token_status = ms_token_status status, ts_expires_at = ms_expires_at status,
                     ts_is_unavailable = (ms_signer_status status = Some SS_unavailable)\<rparr>,
                    if \<not> ms_enabled status then mb_set_availability Mav_unavailable s else s)
               | None \<Rightarrow>
                   (\<lparr>ts_fid = fid, ts_token_status = None, ts_expires_at = None, ts_is_unavailable = True\<rparr>, s))
         of (sn, s1) \<Rightarrow>
           (t\<lparr>tk_snapshot := Some sn,
              tk_in_flight := (if tk_in_flight t = Some fid then None else tk_in_flight t)\<rparr>, s1)))"

fun reason_by_access_error :: "messages_error_code \<Rightarrow> enable_reason option" where
  "reason_by_access_error E_token_missing = Some Er_missing"
| "reason_by_access_error E_token_expired = Some Er_expired"
| "reason_by_access_error E_token_rejected = Some Er_rejected"
| "reason_by_access_error _ = None"

fun reason_by_token_status :: "messaging_token_status \<Rightarrow> enable_reason option" where
  "reason_by_token_status Token_missing = Some Er_missing"
| "reason_by_token_status Token_expired = Some Er_expired"
| "reason_by_token_status Token_active = None"

definition reason_for :: "messages_error_code option \<Rightarrow> messaging_token_status option \<Rightarrow> enable_reason option" where
  "reason_for accessError tokenStatus =
     (case accessError of
        Some e \<Rightarrow> reason_by_access_error e
      | None \<Rightarrow> Option.bind tokenStatus reason_by_token_status)"

definition access_state_for :: "messages_error_code option \<Rightarrow> token_snapshot option \<Rightarrow> access_state" where
  "access_state_for accessError snapshot =
     (if accessError \<noteq> None then As_needs_enable
      else case snapshot of
             None \<Rightarrow> As_checking
           | Some sn \<Rightarrow>
               if ts_is_unavailable sn then As_error
               else if ts_token_status sn = Some Token_active then As_ready else As_needs_enable)"

subsection \<open>The hook\<close>

record access_hook =
  ah_is_enabling :: bool
  ah_enable_error :: "jstr option"

definition snapshot_of :: "int \<Rightarrow> token_store \<Rightarrow> token_snapshot option" where
  "snapshot_of fid t =
     (case tk_snapshot t of Some sn \<Rightarrow> if ts_fid sn = fid then Some sn else None | None \<Rightarrow> None)"

definition access_state_of :: "int \<Rightarrow> token_store \<Rightarrow> mb_store \<Rightarrow> access_state" where
  "access_state_of fid t s = access_state_for (mb_access_error s) (snapshot_of fid t)"

definition enable_reason_of :: "int \<Rightarrow> token_store \<Rightarrow> mb_store \<Rightarrow> enable_reason option" where
  "enable_reason_of fid t s =
     reason_for (mb_access_error s) (Option.bind (snapshot_of fid t) ts_token_status)"

definition mount_access :: "int \<Rightarrow> token_store \<Rightarrow> token_store \<times> bool" where
  "mount_access fid t = (if fid = 0 then (t, False) else load_token_status fid False t)"

definition refresh_access :: "int \<Rightarrow> token_store \<Rightarrow> token_store \<times> bool" where
  "refresh_access fid t = (if fid = 0 then (t, False) else load_token_status fid True t)"

text \<open>\<^verbatim>\<open>enable\<close> up to its awaits (whether it goes on to sign) and after them.\<close>

definition enable_access :: "int \<Rightarrow> access_hook \<Rightarrow> access_hook \<times> bool" where
  "enable_access fid h =
     (if fid = 0 \<or> ah_is_enabling h then (h, False)
      else (h\<lparr>ah_is_enabling := True, ah_enable_error := None\<rparr>, True))"

definition enable_access_done ::
  "int \<Rightarrow> enable_failure + (messaging_token_status \<times> jstr option) \<Rightarrow>
   access_hook \<times> token_store \<times> mb_store \<Rightarrow> (access_hook \<times> token_store \<times> mb_store) \<times> bool" where
  "enable_access_done fid r hts =
     (case hts of (h, t, s) \<Rightarrow>
        case r of
          Inr (status, expires) \<Rightarrow>
            ((h\<lparr>ah_is_enabling := False\<rparr>,
              t\<lparr>tk_snapshot := Some \<lparr>ts_fid = fid, ts_token_status = Some status, ts_expires_at = expires,
                                     ts_is_unavailable = False\<rparr>\<rparr>,
              set_access_error None s), True)
        | Inl e \<Rightarrow>
            ((h\<lparr>ah_is_enabling := False, ah_enable_error := Some (describe_enable_error e)\<rparr>, t, s), False))"

definition clear_enable_error :: "access_hook \<Rightarrow> access_hook" where
  "clear_enable_error h = h\<lparr>ah_enable_error := None\<rparr>"

subsection \<open>The system\<close>

text \<open>
  The accounts that sign in and out on the device (\<open>accounts\<close>; \<open>0\<close> is nobody), the gate and its calls. A
  change of the account runs the subscription and then the effect of the hook.
\<close>

datatype access_call = Ac_status int | Ac_enable int

record access_sys =
  ay_fid :: int
  ay_tokens :: token_store
  ay_hook :: access_hook
  ay_store :: mb_store
  ay_calls :: "access_call list"

definition access_start :: access_sys where
  "access_start = \<lparr>ay_fid = 0, ay_tokens = \<lparr>tk_snapshot = None, tk_in_flight = None\<rparr>,
     ay_hook = \<lparr>ah_is_enabling = False, ah_enable_error = None\<rparr>, ay_store = INITIAL_STATE, ay_calls = []\<rparr>"

definition status_act :: "int \<Rightarrow> token_store \<times> bool \<Rightarrow> access_sys \<Rightarrow> access_sys" where
  "status_act fid a x = x\<lparr>ay_tokens := fst a, ay_calls := ay_calls x @ (if snd a then [Ac_status fid] else [])\<rparr>"

definition switch_account :: "int \<Rightarrow> access_sys \<Rightarrow> access_sys" where
  "switch_account fid x =
     (let x1 = x\<lparr>ay_fid := fid, ay_tokens := token_store_on_auth (ay_fid x \<noteq> 0) (fid \<noteq> 0) (ay_tokens x)\<rparr>
      in if fid = ay_fid x then x1 else status_act fid (mount_access fid (ay_tokens x1)) x1)"

inductive access_step :: "int set \<Rightarrow> access_sys \<Rightarrow> access_sys \<Rightarrow> bool" for accounts where
  ac_switch: "fid = 0 \<or> fid \<in> accounts \<Longrightarrow> access_step accounts x (switch_account fid x)"
| ac_mount: "access_step accounts x (status_act (ay_fid x) (mount_access (ay_fid x) (ay_tokens x)) x)"
| ac_refresh: "access_step accounts x (status_act (ay_fid x) (refresh_access (ay_fid x) (ay_tokens x)) x)"
| ac_status: "Ac_status fid \<in> set (ay_calls x) \<Longrightarrow>
    load_token_status_done fid r (ay_tokens x, ay_store x) = (t, s) \<Longrightarrow>
    access_step accounts x (x\<lparr>ay_tokens := t, ay_store := s, ay_calls := remove1 (Ac_status fid) (ay_calls x)\<rparr>)"
| ac_enable: "enable_access (ay_fid x) (ay_hook x) = (h, go) \<Longrightarrow>
    access_step accounts x (x\<lparr>ay_hook := h, ay_calls := ay_calls x @ (if go then [Ac_enable (ay_fid x)] else [])\<rparr>)"
| ac_enabled: "Ac_enable fid \<in> set (ay_calls x) \<Longrightarrow>
    enable_access_done fid r' (ay_hook x, ay_tokens x, ay_store x) = ((h, t, s), won) \<Longrightarrow>
    access_step accounts x (x\<lparr>ay_hook := h, ay_tokens := t, ay_store := s, ay_calls := remove1 (Ac_enable fid) (ay_calls x)\<rparr>)"
| ac_clear: "access_step accounts x (x\<lparr>ay_hook := clear_enable_error (ay_hook x)\<rparr>)"
| ac_store: "access_step accounts x (x\<lparr>ay_store := run_mb_op op' (ay_store x)\<rparr>)"

inductive access_reachable :: "int set \<Rightarrow> access_sys \<Rightarrow> bool" for accounts where
  ac_init: "access_reachable accounts access_start"
| ac_next: "access_reachable accounts x \<Longrightarrow> access_step accounts x y \<Longrightarrow> access_reachable accounts y"

subsection \<open>Invariants\<close>

definition enable_calls :: "access_call list \<Rightarrow> access_call list" where
  "enable_calls cs = filter (\<lambda>c. case c of Ac_enable f \<Rightarrow> True | _ \<Rightarrow> False) cs"

lemma enable_calls_simps [simp]:
  "enable_calls [] = []" "enable_calls (cs @ ds) = enable_calls cs @ enable_calls ds"
  "enable_calls (Ac_status f # cs) = enable_calls cs" "enable_calls (Ac_enable f # cs) = Ac_enable f # enable_calls cs"
  by (simp_all add: enable_calls_def)

lemma enable_calls_remove [simp]:
  "enable_calls (remove1 (Ac_status f) cs) = enable_calls cs"
  by (induction cs) (auto simp: enable_calls_def split: access_call.splits)

lemma enable_calls_remove_enable:
  "Ac_enable f \<in> set cs \<Longrightarrow> Suc (length (enable_calls (remove1 (Ac_enable f) cs))) = length (enable_calls cs)"
  by (induction cs) (auto simp: enable_calls_def split: access_call.splits)

definition enabling_ok :: "access_sys \<Rightarrow> bool" where
  "enabling_ok x \<longleftrightarrow> length (enable_calls (ay_calls x)) = (if ah_is_enabling (ay_hook x) then 1 else 0)"

lemma enabling_step: "access_step accounts x y \<Longrightarrow> enabling_ok x \<Longrightarrow> enabling_ok y"
proof (induction rule: access_step.induct)
  case (ac_enabled fid x r' h t s won)
  have "\<not> ah_is_enabling h" using ac_enabled(2) by (auto simp: enable_access_done_def split: sum.splits prod.splits)
  then show ?case using ac_enabled(1,3) enable_calls_remove_enable[OF ac_enabled(1)]
    by (auto simp: enabling_ok_def split: if_splits)
next
  case (ac_enable x h go)
  then show ?case by (auto simp: enabling_ok_def enable_access_def split: if_splits)
qed (auto simp: enabling_ok_def status_act_def switch_account_def Let_def clear_enable_error_def)

lemma enabling_reachable: "access_reachable accounts x \<Longrightarrow> enabling_ok x"
proof (induction rule: access_reachable.induct)
  case ac_init
  then show ?case by (simp add: enabling_ok_def access_start_def)
qed (rule enabling_step)

text \<open>One account on the device.\<close>

definition one_account :: "int \<Rightarrow> access_sys \<Rightarrow> bool" where
  "one_account f x \<longleftrightarrow> ay_fid x \<in> {0, f} \<and> set (ay_calls x) \<subseteq> {Ac_status f, Ac_enable f} \<and>
     (case tk_snapshot (ay_tokens x) of Some sn \<Rightarrow> ts_fid sn = f | None \<Rightarrow> True) \<and>
     (tk_in_flight (ay_tokens x) \<noteq> None \<longrightarrow> tk_in_flight (ay_tokens x) = Some f \<and> Ac_status f \<in> set (ay_calls x)) \<and>
     (ay_fid x = f \<longrightarrow> tk_snapshot (ay_tokens x) = None \<longrightarrow> Ac_status f \<in> set (ay_calls x))"

lemma one_account_load:
  assumes "one_account f x \<or> (one_account f (x\<lparr>ay_fid := 0\<rparr>) \<and> ay_fid x = f)" "f \<noteq> 0" "ay_fid x = f"
  shows "one_account f (status_act f (load_token_status f force (ay_tokens x)) x)"
proof (cases "snd (load_token_status f force (ay_tokens x))")
  case True
  then have "fst (load_token_status f force (ay_tokens x)) = (ay_tokens x)\<lparr>tk_in_flight := Some f\<rparr>"
    by (auto simp: load_token_status_def split: if_splits)
  then show ?thesis using True assms by (auto simp: one_account_def status_act_def)
next
  case False
  then have "fst (load_token_status f force (ay_tokens x)) = ay_tokens x"
    "tk_snapshot (ay_tokens x) = None \<longrightarrow> tk_in_flight (ay_tokens x) = Some f"
    by (auto simp: load_token_status_def split: if_splits option.splits)
  then show ?thesis using False assms by (auto simp: one_account_def status_act_def)
qed

lemma one_account_nobody: "one_account f x \<Longrightarrow> f \<noteq> 0 \<Longrightarrow>
    one_account f (x\<lparr>ay_fid := 0, ay_tokens := token_store_on_auth a False (ay_tokens x)\<rparr>)" for a
  by (auto simp: one_account_def token_store_on_auth_def)

lemma one_account_switch:
  assumes ok: "one_account f x" and f: "f \<noteq> 0" and to: "fid = 0 \<or> fid = f"
  shows "one_account f (switch_account fid x)"
proof (cases "fid = 0")
  case True
  then show ?thesis using one_account_nobody[OF ok f, of True] one_account_nobody[OF ok f, of False]
    by (simp add: switch_account_def Let_def mount_access_def status_act_def)
next
  case False
  have t: "token_store_on_auth a True tk = tk" for a tk by (simp add: token_store_on_auth_def)
  show ?thesis
  proof (cases "ay_fid x = f")
    case True
    then have "x\<lparr>ay_fid := f\<rparr> = x" by simp
    then show ?thesis using ok False to True f by (auto simp: switch_account_def Let_def t)
  next
    case ne: False
    then have "ay_fid x = 0" using ok by (simp add: one_account_def)
    then have "x\<lparr>ay_fid := 0\<rparr> = x" by simp
    then have "one_account f (x\<lparr>ay_fid := 0\<rparr>)" using ok by simp
    then show ?thesis using one_account_load[of f "x\<lparr>ay_fid := f\<rparr>" False] f False to \<open>ay_fid x = 0\<close>
      by (simp add: switch_account_def Let_def t mount_access_def)
  qed
qed

lemma one_account_step: "access_step {f} x y \<Longrightarrow> f \<noteq> 0 \<Longrightarrow> one_account f x \<Longrightarrow> one_account f y"
proof (induction rule: access_step.induct)
  case (ac_switch fid x)
  then show ?case using one_account_switch by simp
next
  case (ac_mount x)
  then show ?case using one_account_load[of f x False]
    by (cases "ay_fid x = 0") (auto simp: mount_access_def status_act_def one_account_def)
next
  case (ac_refresh x)
  then show ?case using one_account_load[of f x True]
    by (cases "ay_fid x = 0") (auto simp: refresh_access_def status_act_def one_account_def)
next
  case (ac_status fid x r t s)
  then have "fid = f" by (auto simp: one_account_def)
  then show ?case using ac_status
    by (auto simp: one_account_def load_token_status_done_def dest: notin_set_remove1 split: option.splits if_splits)
next
  case (ac_enable x h go)
  then show ?case by (auto simp: one_account_def enable_access_def split: if_splits)
next
  case (ac_enabled fid x r' h t s won)
  then have "fid = f" by (auto simp: one_account_def)
  then show ?case using ac_enabled
    by (auto simp: one_account_def enable_access_done_def dest: notin_set_remove1 split: sum.splits)
qed (auto simp: one_account_def)

lemma one_account_reachable: "access_reachable {f} x \<Longrightarrow> f \<noteq> 0 \<Longrightarrow> one_account f x"
proof (induction rule: access_reachable.induct)
  case ac_init
  then show ?case by (simp add: one_account_def access_start_def)
qed (rule one_account_step)

subsection \<open>Properties\<close>

text \<open>
  C37. With one account on the device the gate never checks for ever: whenever it shows the check, a status
  call for the account is under way, and whatever it answers, or if it fails, the check is over.
\<close>
theorem access_check_ends:
  assumes "access_reachable {f} x" "f \<noteq> 0" "ay_fid x = f" "access_state_of f (ay_tokens x) (ay_store x) = As_checking"
  shows "Ac_status f \<in> set (ay_calls x) \<and>
    (case load_token_status_done f r (ay_tokens x, ay_store x) of (t, s) \<Rightarrow> access_state_of f t s \<noteq> As_checking)"
proof -
  have "one_account f x" using one_account_reachable[OF assms(1,2)] .
  then have "Ac_status f \<in> set (ay_calls x)" using assms(3,4)
    by (auto simp: one_account_def access_state_of_def access_state_for_def snapshot_of_def split: option.splits if_splits)
  then show ?thesis
    by (simp add: load_token_status_done_def access_state_of_def access_state_for_def snapshot_of_def split: option.splits)
qed

text \<open>
  Enabling messages opens the gate: when the server stores an active token, the state becomes ready,
  whatever error or status it had before, and the reason to enable is gone; a failure leaves the gate as
  it was and shows its copy; and in every reachable state at most one enable call is under way.
\<close>
theorem enable_opens_gate:
  assumes "access_reachable accounts x"
  shows "length (enable_calls (ay_calls x)) \<le> 1 \<and>
    (case enable_access_done fid (Inr (Token_active, expires)) (ay_hook x, ay_tokens x, ay_store x) of
       ((h, t, s), won) \<Rightarrow> won \<and> \<not> ah_is_enabling h \<and> access_state_of fid t s = As_ready \<and> enable_reason_of fid t s = None) \<and>
    (case enable_access_done fid (Inl e) (ay_hook x, ay_tokens x, ay_store x) of
       ((h, t, s), won) \<Rightarrow> \<not> won \<and> \<not> ah_is_enabling h \<and> t = ay_tokens x \<and> s = ay_store x \<and>
         ah_enable_error h = Some (describe_enable_error e))"
  using enabling_reachable[OF assms]
  by (auto simp: enabling_ok_def enable_access_done_def access_state_of_def access_state_for_def snapshot_of_def
      enable_reason_of_def reason_for_def set_access_error_def split: if_splits)

definition demo_checking :: access_sys where
  "demo_checking = switch_account 7 access_start"

lemma demo_checking_reachable: "access_reachable {7} demo_checking"
  unfolding demo_checking_def by (rule ac_next[OF ac_init access_step.ac_switch]) simp

theorem access_check_ends_witness:
  "Ac_status 7 \<in> set (ay_calls demo_checking) \<and>
   (case load_token_status_done 7 None (ay_tokens demo_checking, ay_store demo_checking) of
      (t, s) \<Rightarrow> access_state_of 7 t s \<noteq> As_checking)"
proof -
  have "ay_fid demo_checking = 7" "access_state_of 7 (ay_tokens demo_checking) (ay_store demo_checking) = As_checking"
    by code_simp+
  from access_check_ends[OF demo_checking_reachable _ this] show ?thesis by simp
qed

theorem enable_opens_gate_witness:
  "length (enable_calls (ay_calls demo_checking)) \<le> 1 \<and>
   (case enable_access_done 7 (Inr (Token_active, None)) (ay_hook demo_checking, ay_tokens demo_checking, ay_store demo_checking) of
      ((h, t, s), won) \<Rightarrow> won \<and> access_state_of 7 t s = As_ready)"
  using enable_opens_gate[OF demo_checking_reachable, of 7 None] by (auto split: prod.splits)

subsection \<open>Two accounts, or one that comes back\<close>

text \<open>
  The cache has one place: the answer for an account that has signed out overwrites the status of the one
  that is signed in, which is then checked for ever, with no call under way.
\<close>

lemma status_settles:
  assumes "access_reachable accounts x" "Ac_status fid \<in> set (ay_calls x)"
  shows "access_reachable accounts (x\<lparr>ay_tokens := fst (load_token_status_done fid r (ay_tokens x, ay_store x)),
    ay_store := snd (load_token_status_done fid r (ay_tokens x, ay_store x)),
    ay_calls := remove1 (Ac_status fid) (ay_calls x)\<rparr>)"
  by (rule ac_next[OF assms(1) access_step.ac_status[OF assms(2), of r]]) simp

lemma late_status_strands_viewer:
  "\<exists>x. access_reachable {7, 8} x \<and> ay_fid x = 8 \<and> ay_calls x = [] \<and>
     access_state_of 8 (ay_tokens x) (ay_store x) = As_checking"
proof -
  define x1 where "x1 = switch_account 8 (switch_account 0 (switch_account 7 access_start))"
  define x2 where "x2 = x1\<lparr>ay_tokens := fst (load_token_status_done 8 None (ay_tokens x1, ay_store x1)),
    ay_store := snd (load_token_status_done 8 None (ay_tokens x1, ay_store x1)), ay_calls := remove1 (Ac_status 8) (ay_calls x1)\<rparr>"
  define x3 where "x3 = x2\<lparr>ay_tokens := fst (load_token_status_done 7 None (ay_tokens x2, ay_store x2)),
    ay_store := snd (load_token_status_done 7 None (ay_tokens x2, ay_store x2)), ay_calls := remove1 (Ac_status 7) (ay_calls x2)\<rparr>"
  have "access_reachable {7, 8} x1" unfolding x1_def
    by (intro ac_next[OF _ access_step.ac_switch] ac_init) simp_all
  moreover have "ay_calls x1 = [Ac_status 7, Ac_status 8]" unfolding x1_def by code_simp
  ultimately have "access_reachable {7, 8} x3" unfolding x3_def x2_def
    by (intro status_settles) simp_all
  moreover have "ay_fid x3 = 8" unfolding x3_def x2_def x1_def by code_simp
  moreover have "ay_calls x3 = []" unfolding x3_def x2_def x1_def by code_simp
  moreover have "access_state_of 8 (ay_tokens x3) (ay_store x3) = As_checking" unfolding x3_def x2_def x1_def by code_simp
  ultimately show ?thesis by blast
qed

text \<open>
  A status that was asked for before a sign-out and answers after it is kept: when the same account signs
  in again it is taken as ready without asking, although the sign-out has deleted the token.
\<close>

lemma stale_status_survives_sign_out:
  "let x1 = switch_account 0 (switch_account 7 access_start);
       (t, s) = load_token_status_done 7 (Some \<lparr>ms_enabled = True, ms_signer_status = None,
         ms_token_status = Some Token_active, ms_expires_at = None\<rparr>) (ay_tokens x1, ay_store x1);
       x2 = switch_account 7 (x1\<lparr>ay_tokens := t, ay_store := s, ay_calls := []\<rparr>)
   in ay_calls x2 = [] \<and> access_state_of 7 (ay_tokens x2) (ay_store x2) = As_ready"
  by code_simp

end
