(* ===== verification/Mobile_Search.thy ===== *)
theory Mobile_Search
  imports Mobile_Sends
begin

section \<open>Searching, reacting and addressing a draft in the mobile app\<close>

text \<open>
  \<^verbatim>\<open>farcaster-audio/hooks/useMessageSearch.ts\<close>, \<^verbatim>\<open>useMessageReactions.ts\<close> and \<^verbatim>\<open>useDraftRecipient.ts\<close>.
  The pages of the server are an argument: the answer to the n-th request with a cursor.
\<close>

subsection \<open>Fetching until there are hits\<close>

definition SEARCH_DEBOUNCE_MS :: int where "SEARCH_DEBOUNCE_MS = 250"

definition MIN_QUERY_LENGTH :: nat where "MIN_QUERY_LENGTH = 2"

definition MAX_EMPTY_PAGES_PER_FETCH :: nat where "MAX_EMPTY_PAGES_PER_FETCH = 10"

type_synonym search_page = "message_search_hit list \<times> jstr option"

type_synonym search_server = "nat \<Rightarrow> jstr option \<Rightarrow> mb_error + search_page"

function fetch_until_from :: "search_server \<Rightarrow> nat \<Rightarrow> jstr option \<Rightarrow> mb_error + search_page" where
  "fetch_until_from fetchPage emptyPages cursor =
     (if emptyPages < MAX_EMPTY_PAGES_PER_FETCH then
        (case fetchPage emptyPages cursor of
           Inl e \<Rightarrow> Inl e
         | Inr (items, nextCursor) \<Rightarrow>
             if items \<noteq> [] \<or> nextCursor = None then Inr (items, nextCursor)
             else fetch_until_from fetchPage (emptyPages + 1) nextCursor)
      else Inr ([], cursor))"
  by pat_completeness auto
termination
  by (relation "measure (\<lambda>(f, n, c). MAX_EMPTY_PAGES_PER_FETCH - n)") auto

declare fetch_until_from.simps [simp del]

definition fetch_until_hits :: "search_server \<Rightarrow> jstr option \<Rightarrow> mb_error + search_page" where
  "fetch_until_hits fetchPage startCursor = fetch_until_from fetchPage 0 startCursor"

definition mb_is_invalid_cursor_error :: "mb_error \<Rightarrow> bool" where
  "mb_is_invalid_cursor_error e \<longleftrightarrow> (case e of Err_api code st msg \<Rightarrow> code = E_invalid_cursor | _ \<Rightarrow> False)"

text \<open>The second server answers after the restart; the last component is \<^verbatim>\<open>isRestart\<close>.\<close>

definition fetch_more_or_restart ::
  "(jstr option \<Rightarrow> mb_error + search_page) \<Rightarrow> (jstr option \<Rightarrow> mb_error + search_page) \<Rightarrow> jstr \<Rightarrow>
   mb_error + (search_page \<times> bool)" where
  "fetch_more_or_restart fetchFrom fetchFromAgain cursor =
     (case fetchFrom (Some cursor) of
        Inr page \<Rightarrow> Inr (page, False)
      | Inl e \<Rightarrow>
          if \<not> mb_is_invalid_cursor_error e then Inl e
          else (case fetchFromAgain None of Inl e2 \<Rightarrow> Inl e2 | Inr page \<Rightarrow> Inr (page, True)))"

fun fresh_hits :: "jstr list \<Rightarrow> message_search_hit list \<Rightarrow> message_search_hit list" where
  "fresh_hits seen [] = []"
| "fresh_hits seen (h # hs) =
     (if message_id (hit_message h) \<in> set seen then fresh_hits seen hs
      else h # fresh_hits (message_id (hit_message h) # seen) hs)"

definition append_unique_hits :: "message_search_hit list \<Rightarrow> message_search_hit list \<Rightarrow> message_search_hit list" where
  "append_unique_hits previous incoming =
     previous @ fresh_hits (map (\<lambda>h. message_id (hit_message h)) previous) incoming"

subsection \<open>The search hook\<close>

text \<open>
  \<open>sh_controller\<close> is \<^verbatim>\<open>controllerRef.current\<close>, \<open>sh_effect\<close> the controller the effect's cleanup aborts,
  \<open>sh_timer\<close> the one its debounce timer waits with, \<open>sh_aborted\<close> the controllers that were aborted. The
  target is the conversation (if any) and the trimmed query.
\<close>

type_synonym search_target = "jstr option \<times> jstr"

record search_hook =
  sh_hits :: "message_search_hit list"
  sh_cursor :: "jstr option"
  sh_is_loading :: bool
  sh_is_loading_more :: bool
  sh_error_code :: "messages_error_code option"
  sh_controller :: "nat option"
  sh_effect :: "nat option"
  sh_timer :: "nat option"
  sh_aborted :: "nat list"
  sh_next :: nat
  sh_enabled :: bool
  sh_target :: search_target

datatype search_call = Sc_first nat search_target | Sc_more nat search_target jstr

definition abort_search :: "nat option \<Rightarrow> search_hook \<Rightarrow> search_hook" where
  "abort_search c h = (case c of None \<Rightarrow> h | Some i \<Rightarrow> h\<lparr>sh_aborted := i # sh_aborted h\<rparr>)"

text \<open>The cleanup of the last run of the effect, and the effect.\<close>

definition search_cleanup :: "search_hook \<Rightarrow> search_hook" where
  "search_cleanup h = abort_search (sh_effect h) (h\<lparr>sh_timer := None, sh_effect := None\<rparr>)"

definition search_effect :: "search_hook \<Rightarrow> search_hook" where
  "search_effect h =
     (let h1 = (abort_search (sh_controller h) h)\<lparr>sh_hits := [], sh_cursor := None, sh_error_code := None\<rparr>
      in if \<not> sh_enabled h1 \<or> length (snd (sh_target h1)) < MIN_QUERY_LENGTH then h1\<lparr>sh_is_loading := False\<rparr>
         else h1\<lparr>sh_controller := Some (sh_next h1), sh_effect := Some (sh_next h1), sh_timer := Some (sh_next h1),
                 sh_next := sh_next h1 + 1, sh_is_loading := True\<rparr>)"

definition search_render :: "bool \<Rightarrow> jstr option \<Rightarrow> jstr \<Rightarrow> search_hook \<Rightarrow> search_hook" where
  "search_render isEnabled conversationId query h =
     (if sh_enabled h = isEnabled \<and> sh_target h = (conversationId, js_trim query) then h
      else search_effect ((search_cleanup h)\<lparr>sh_enabled := isEnabled, sh_target := (conversationId, js_trim query)\<rparr>))"

definition search_timer_fired :: "search_hook \<Rightarrow> search_hook \<times> search_call list" where
  "search_timer_fired h =
     (case sh_timer h of None \<Rightarrow> (h, []) | Some i \<Rightarrow> (h\<lparr>sh_timer := None\<rparr>, [Sc_first i (sh_target h)]))"

definition search_first_done ::
  "nat \<Rightarrow> mb_error + search_page \<Rightarrow> search_hook \<times> mb_store \<Rightarrow> search_hook \<times> mb_store" where
  "search_first_done i r hs =
     (case hs of (h, s) \<Rightarrow>
        if i \<in> set (sh_aborted h) then (h, s)
        else case r of
               Inr (items, nextCursor) \<Rightarrow>
                 (h\<lparr>sh_hits := append_unique_hits [] items, sh_cursor := nextCursor, sh_is_loading := False\<rparr>, s)
             | Inl e \<Rightarrow>
                 (case apply_messages_error e s of (code, s1, probe) \<Rightarrow>
                    (h\<lparr>sh_error_code := (if code \<noteq> None then code else sh_error_code h), sh_is_loading := False\<rparr>, s1)))"

definition search_load_more :: "search_hook \<Rightarrow> search_hook \<times> search_call list" where
  "search_load_more h =
     (case sh_cursor h of
        None \<Rightarrow> (h, [])
      | Some cursor \<Rightarrow>
          if cursor = [] \<or> sh_is_loading_more h \<or> sh_is_loading h then (h, [])
          else (h\<lparr>sh_controller := Some (sh_next h), sh_next := sh_next h + 1, sh_is_loading_more := True\<rparr>,
                [Sc_more (sh_next h) (sh_target h) cursor]))"

definition search_more_done ::
  "nat \<Rightarrow> mb_error + (search_page \<times> bool) \<Rightarrow> search_hook \<times> mb_store \<Rightarrow> search_hook \<times> mb_store" where
  "search_more_done i r hs =
     (case hs of (h, s) \<Rightarrow>
        if i \<in> set (sh_aborted h) then (h\<lparr>sh_is_loading_more := False\<rparr>, s)
        else case r of
               Inr ((items, nextCursor), isRestart) \<Rightarrow>
                 (h\<lparr>sh_hits := append_unique_hits (if isRestart then [] else sh_hits h) items, sh_cursor := nextCursor,
                    sh_is_loading_more := False\<rparr>, s)
             | Inl e \<Rightarrow> (h\<lparr>sh_is_loading_more := False\<rparr>, fst (snd (apply_messages_error e s))))"

definition search_mounted :: "bool \<Rightarrow> jstr option \<Rightarrow> jstr \<Rightarrow> search_hook" where
  "search_mounted isEnabled conversationId query =
     search_effect \<lparr>sh_hits = [], sh_cursor = None, sh_is_loading = False, sh_is_loading_more = False,
       sh_error_code = None, sh_controller = None, sh_effect = None, sh_timer = None, sh_aborted = [],
       sh_next = 0, sh_enabled = isEnabled, sh_target = (conversationId, js_trim query)\<rparr>"

subsection \<open>Reactions\<close>

text \<open>\<^verbatim>\<open>toggleReaction\<close>: the store and, when a call goes out, whether it adds the reaction.\<close>

definition mb_toggle_reaction :: "jstr option \<Rightarrow> message \<Rightarrow> jstr \<Rightarrow> mb_store \<Rightarrow> mb_store \<times> bool option" where
  "mb_toggle_reaction conversationId m reaction s =
     (if \<not> js_string_set conversationId \<or> send_state m \<noteq> None \<or> is_deleted m then (s, None)
      else let isAdding = \<not> list_ex (\<lambda>r. r_reaction r = reaction \<and> r_viewer_reacted r) (reactions m)
           in (apply_reaction (the conversationId) (message_id m) reaction isAdding s, Some isAdding))"

definition mb_toggle_reaction_done ::
  "jstr \<Rightarrow> message \<Rightarrow> jstr \<Rightarrow> bool \<Rightarrow> mb_error option \<Rightarrow> mb_store \<Rightarrow> mb_store \<times> jstr option" where
  "mb_toggle_reaction_done cid m reaction isAdding r s =
     (case r of
        None \<Rightarrow> (s, None)
      | Some e \<Rightarrow>
          (case describe_messages_failure e (apply_reaction cid (message_id m) reaction (\<not> isAdding) s) of
             (msg, s1, probe) \<Rightarrow> (s1, msg)))"

subsection \<open>The recipient of a draft\<close>

definition MAX_REMEMBERED_RECIPIENTS :: nat where "MAX_REMEMBERED_RECIPIENTS = 50"

definition remember_draft_recipient ::
  "message_user \<Rightarrow> (int, message_user) jsmap \<Rightarrow> (int, message_user) jsmap" where
  "remember_draft_recipient user remembered =
     (let m = jm_set (u_fid user) user (jm_delete (u_fid user) remembered)
      in if jm_size m > MAX_REMEMBERED_RECIPIENTS
         then (case jm_keys m of [] \<Rightarrow> m | oldest # ks \<Rightarrow> jm_delete oldest m) else m)"

text \<open>The user of a profile answer; a field that is missing or \<^verbatim>\<open>null\<close> is \<open>None\<close>.\<close>

record profile_user =
  pr_fid :: "int option"
  pr_username :: "jstr option"
  pr_display_name :: "jstr option"
  pr_pfp_url :: "jstr option"

definition to_message_user :: "int \<Rightarrow> profile_user option \<Rightarrow> message_user option" where
  "to_message_user fid user =
     (case user of
        None \<Rightarrow> None
      | Some u \<Rightarrow>
          if pr_fid u \<noteq> Some fid then None
          else Some \<lparr>u_fid = fid, u_username = (if js_string_set (pr_username u) then pr_username u else None),
                     u_display_name = (case pr_display_name u of None \<Rightarrow> [] | Some d \<Rightarrow> d),
                     u_pfp_url = (if js_string_set (pr_pfp_url u) then pr_pfp_url u else None)\<rparr>)"

record draft_recipient =
  dr_recipient :: "message_user option"
  dr_is_loading :: bool

text \<open>
  The effect for a fid, with the calls under way: each has its fid and whether its effect has been
  cleaned up.
\<close>

record draft_hook =
  dh_fid :: "int option"
  dh_state :: draft_recipient
  dh_calls :: "(int \<times> bool) list"

definition draft_recipient_effect :: "(int, message_user) jsmap \<Rightarrow> int option \<Rightarrow> draft_hook \<Rightarrow> draft_hook" where
  "draft_recipient_effect remembered fid h =
     (let h1 = h\<lparr>dh_fid := fid, dh_calls := map (\<lambda>(f, c). (f, True)) (dh_calls h)\<rparr>
      in if fid = None \<or> fid = Some 0 then h1\<lparr>dh_state := \<lparr>dr_recipient = None, dr_is_loading = False\<rparr>\<rparr>
         else case jm_get remembered (the fid) of
                Some u \<Rightarrow> h1\<lparr>dh_state := \<lparr>dr_recipient = Some u, dr_is_loading = False\<rparr>\<rparr>
              | None \<Rightarrow> h1\<lparr>dh_state := \<lparr>dr_recipient = None, dr_is_loading = True\<rparr>, dh_calls := dh_calls h1 @ [(the fid, False)]\<rparr>)"

text \<open>\<^verbatim>\<open>useState\<close>'s initial value, and the first run of the effect.\<close>

definition draft_initial_state :: "(int, message_user) jsmap \<Rightarrow> int option \<Rightarrow> draft_recipient" where
  "draft_initial_state remembered fid =
     (let isSet = fid \<noteq> None \<and> fid \<noteq> Some 0; user = (if isSet then jm_get remembered (the fid) else None)
      in \<lparr>dr_recipient = user, dr_is_loading = isSet \<and> user = None\<rparr>)"

definition draft_recipient_mounted :: "(int, message_user) jsmap \<Rightarrow> int option \<Rightarrow> draft_hook" where
  "draft_recipient_mounted remembered fid =
     draft_recipient_effect remembered fid \<lparr>dh_fid = fid, dh_state = draft_initial_state remembered fid, dh_calls = []\<rparr>"

definition draft_recipient_done :: "nat \<Rightarrow> profile_user option option \<Rightarrow> draft_hook \<Rightarrow> draft_hook" where
  "draft_recipient_done k r h =
     (case dh_calls h ! k of (fid, isCancelled) \<Rightarrow>
        let h1 = h\<lparr>dh_calls := take k (dh_calls h) @ drop (Suc k) (dh_calls h)\<rparr>
        in if isCancelled then h1
           else h1\<lparr>dh_state := \<lparr>dr_recipient = (case r of Some user \<Rightarrow> to_message_user fid user | None \<Rightarrow> None),
                              dr_is_loading = False\<rparr>\<rparr>)"

subsection \<open>What a fetch returns\<close>

text \<open>The cursor a fetch has after n pages.\<close>

fun cursor_after :: "search_server \<Rightarrow> jstr option \<Rightarrow> nat \<Rightarrow> jstr option" where
  "cursor_after f c 0 = c"
| "cursor_after f c (Suc n) = (case f n (cursor_after f c n) of Inr (items, nx) \<Rightarrow> nx | Inl e \<Rightarrow> None)"

definition empty_page :: "search_server \<Rightarrow> jstr option \<Rightarrow> nat \<Rightarrow> bool" where
  "empty_page f c k \<longleftrightarrow> (case f k (cursor_after f c k) of Inr ([], Some nx) \<Rightarrow> True | _ \<Rightarrow> False)"

lemma fetch_until_stops:
  assumes "n \<le> MAX_EMPTY_PAGES_PER_FETCH"
  shows "\<exists>m. n \<le> m \<and> m \<le> MAX_EMPTY_PAGES_PER_FETCH \<and> list_all (empty_page f c) [n..<m] \<and>
    (if m = MAX_EMPTY_PAGES_PER_FETCH then fetch_until_from f n (cursor_after f c n) = Inr ([], cursor_after f c m)
     else \<not> empty_page f c m \<and> fetch_until_from f n (cursor_after f c n) = f m (cursor_after f c m))"
  using assms
proof (induction "MAX_EMPTY_PAGES_PER_FETCH - n" arbitrary: n)
  case 0
  then have "n = MAX_EMPTY_PAGES_PER_FETCH" by simp
  then show ?case by (intro exI[of _ n]) (simp add: fetch_until_from.simps)
next
  case (Suc d)
  then have lt: "n < MAX_EMPTY_PAGES_PER_FETCH" by simp
  show ?case
  proof (cases "empty_page f c n")
    case False
    then have "fetch_until_from f n (cursor_after f c n) = f n (cursor_after f c n)"
      using lt by (subst fetch_until_from.simps) (auto simp: empty_page_def split: sum.splits prod.splits list.splits option.splits)
    with False lt show ?thesis by (intro exI[of _ n]) simp
  next
    case True
    then obtain nx where p: "f n (cursor_after f c n) = Inr ([], Some nx)"
      by (auto simp: empty_page_def split: sum.splits prod.splits list.splits option.splits)
    have "d = MAX_EMPTY_PAGES_PER_FETCH - Suc n" "Suc n \<le> MAX_EMPTY_PAGES_PER_FETCH" using Suc.hyps(2) lt by simp_all
    then obtain m where m: "Suc n \<le> m" "m \<le> MAX_EMPTY_PAGES_PER_FETCH" "list_all (empty_page f c) [Suc n..<m]"
      "if m = MAX_EMPTY_PAGES_PER_FETCH then fetch_until_from f (Suc n) (cursor_after f c (Suc n)) = Inr ([], cursor_after f c m)
       else \<not> empty_page f c m \<and> fetch_until_from f (Suc n) (cursor_after f c (Suc n)) = f m (cursor_after f c m)"
      using Suc.hyps(1)[of "Suc n"] by blast
    have "fetch_until_from f n (cursor_after f c n) = fetch_until_from f (Suc n) (cursor_after f c (Suc n))"
      using lt p by (subst fetch_until_from.simps) simp
    moreover have "[n..<m] = n # [Suc n..<m]" using m(1) by (simp add: upt_conv_Cons)
    ultimately show ?thesis using m True by (intro exI[of _ m]) (simp del: cursor_after.simps)
  qed
qed

text \<open>
  A search fetch always ends, after at most ten requests, each with the cursor of the page before:
  it skips empty pages that have a next cursor, and what it returns is the first page that has hits, that
  is the last one, or that failed; only after ten empty pages does it return none and leave the cursor
  for the next fetch.
\<close>
theorem search_fetch_ends:
  "\<exists>m \<le> 10. list_all (empty_page f c) [0..<m] \<and>
    (if m = 10 then fetch_until_hits f c = Inr ([], cursor_after f c 10)
     else \<not> empty_page f c m \<and> fetch_until_hits f c = f m (cursor_after f c m))"
proof -
  obtain m where "m \<le> 10" "list_all (empty_page f c) [0..<m]"
    "if m = 10 then fetch_until_from f 0 c = Inr ([], cursor_after f c m)
     else \<not> empty_page f c m \<and> fetch_until_from f 0 c = f m (cursor_after f c m)"
    using fetch_until_stops[of 0 f c, unfolded MAX_EMPTY_PAGES_PER_FETCH_def cursor_after.simps(1)] by auto
  then show ?thesis unfolding fetch_until_hits_def by (intro exI[of _ m]) auto
qed

theorem search_fetch_ends_witness:
  "fetch_until_hits (\<lambda>n c. Inr ([], Some ''c'')) None = Inr ([], Some ''c'')"
proof -
  have e: "empty_page (\<lambda>n c. Inr ([], Some ''c'')) None k" for k by (simp add: empty_page_def)
  have a: "cursor_after (\<lambda>n c. Inr ([], Some ''c'')) None 10 = Some ''c''" by code_simp
  show ?thesis using search_fetch_ends[of "\<lambda>n c. Inr ([], Some ''c'')" None] e a by (auto split: if_splits)
qed

lemma fresh_hits_new:
  "h \<in> set (fresh_hits seen hs) \<Longrightarrow> message_id (hit_message h) \<notin> set seen \<and> h \<in> set hs"
  by (induction seen hs rule: fresh_hits.induct) (auto split: if_splits)

lemma fresh_hits_distinct: "distinct (map (\<lambda>h. message_id (hit_message h)) (fresh_hits seen hs))"
proof (induction seen hs rule: fresh_hits.induct)
  case (2 seen h hs)
  then show ?case using fresh_hits_new[of _ "message_id (hit_message h) # seen" hs] by force
qed simp

lemma append_unique_distinct:
  "distinct (map (\<lambda>h. message_id (hit_message h)) ps) \<Longrightarrow>
   distinct (map (\<lambda>h. message_id (hit_message h)) (append_unique_hits ps hs))"
proof -
  let ?g = "\<lambda>h. message_id (hit_message h)"
  assume d: "distinct (map ?g ps)"
  have "?g p \<noteq> ?g k" if "k \<in> set (fresh_hits (map ?g ps) hs)" "p \<in> set ps" for k p
    using fresh_hits_new[OF that(1)] imageI[OF that(2), of ?g] by auto
  then have "set (map ?g ps) \<inter> set (map ?g (fresh_hits (map ?g ps) hs)) = {}" by auto
  then show ?thesis using d fresh_hits_distinct[of "map ?g ps" hs] by (simp add: append_unique_hits_def)
qed

lemma append_unique_set: "set (append_unique_hits ps hs) \<subseteq> set ps \<union> set hs"
  by (auto simp: append_unique_hits_def dest!: fresh_hits_new)

subsection \<open>The search as a system\<close>

text \<open>
  \<open>matches\<close> says which hits belong to a target; the server answers a call with hits of its target. Renders
  with any options, the timer, further pages and answers come in any order.
\<close>

record search_sys =
  ss_hook :: search_hook
  ss_store :: mb_store
  ss_calls :: "search_call list"

definition hits_for :: "(search_target \<Rightarrow> message_search_hit \<Rightarrow> bool) \<Rightarrow> search_target \<Rightarrow> message_search_hit list \<Rightarrow> bool" where
  "hits_for matches t hs = list_all (matches t) hs"

inductive search_step :: "(search_target \<Rightarrow> message_search_hit \<Rightarrow> bool) \<Rightarrow> search_sys \<Rightarrow> search_sys \<Rightarrow> bool" for matches where
  ss_render: "search_step matches x (x\<lparr>ss_hook := search_render en conv q (ss_hook x)\<rparr>)"
| ss_timer: "search_timer_fired (ss_hook x) = (h, cs) \<Longrightarrow>
    search_step matches x (x\<lparr>ss_hook := h, ss_calls := ss_calls x @ cs\<rparr>)"
| ss_more: "search_load_more (ss_hook x) = (h, cs) \<Longrightarrow>
    search_step matches x (x\<lparr>ss_hook := h, ss_calls := ss_calls x @ cs\<rparr>)"
| ss_first_done: "Sc_first i t \<in> set (ss_calls x) \<Longrightarrow> (\<And>items nx. r = Inr (items, nx) \<Longrightarrow> hits_for matches t items) \<Longrightarrow>
    search_first_done i r (ss_hook x, ss_store x) = (h, s) \<Longrightarrow>
    search_step matches x (x\<lparr>ss_hook := h, ss_store := s, ss_calls := remove1 (Sc_first i t) (ss_calls x)\<rparr>)"
| ss_more_done: "Sc_more i t c \<in> set (ss_calls x) \<Longrightarrow>
    (\<And>items nx re. r' = Inr ((items, nx), re) \<Longrightarrow> hits_for matches t items) \<Longrightarrow>
    search_more_done i r' (ss_hook x, ss_store x) = (h, s) \<Longrightarrow>
    search_step matches x (x\<lparr>ss_hook := h, ss_store := s, ss_calls := remove1 (Sc_more i t c) (ss_calls x)\<rparr>)"
| ss_store_op: "search_step matches x (x\<lparr>ss_store := run_mb_op op' (ss_store x)\<rparr>)"

inductive search_reachable :: "(search_target \<Rightarrow> message_search_hit \<Rightarrow> bool) \<Rightarrow> search_sys \<Rightarrow> bool" for matches where
  ss_init: "search_reachable matches \<lparr>ss_hook = search_mounted en conv q, ss_store = s, ss_calls = []\<rparr>"
| ss_next: "search_reachable matches x \<Longrightarrow> search_step matches x y \<Longrightarrow> search_reachable matches y"

definition more_calls :: "search_call list \<Rightarrow> search_call list" where
  "more_calls cs = filter (\<lambda>c. case c of Sc_more i t cur \<Rightarrow> True | _ \<Rightarrow> False) cs"

definition older_than :: "nat option \<Rightarrow> nat \<Rightarrow> bool" where
  "older_than c n \<longleftrightarrow> (case c of None \<Rightarrow> True | Some i \<Rightarrow> i < n)"

fun call_id :: "search_call \<Rightarrow> nat" where
  "call_id (Sc_first i t) = i" | "call_id (Sc_more i t c) = i"

fun call_target :: "search_call \<Rightarrow> search_target" where
  "call_target (Sc_first i t) = t" | "call_target (Sc_more i t c) = t"

fun call_owner :: "search_call \<Rightarrow> search_hook \<Rightarrow> nat option" where
  "call_owner (Sc_first i t) h = sh_effect h" | "call_owner (Sc_more i t c) h = sh_controller h"

text \<open>The controllers: used ones are older than the next; a live call has the current target.\<close>

definition controllers_ok :: "search_hook \<Rightarrow> search_call list \<Rightarrow> bool" where
  "controllers_ok h cs \<longleftrightarrow> older_than (sh_controller h) (sh_next h) \<and> older_than (sh_effect h) (sh_next h) \<and>
     (\<forall>i \<in> set (sh_aborted h). i < sh_next h) \<and>
     (\<forall>c \<in> set cs. call_id c < sh_next h \<and>
        (call_id c \<notin> set (sh_aborted h) \<longrightarrow> call_target c = sh_target h \<and> call_owner c h = Some (call_id c))) \<and>
     (\<forall>i. sh_timer h = Some i \<longrightarrow> sh_effect h = Some i \<and> i \<notin> set (sh_aborted h))"

definition search_busy_ok :: "search_hook \<Rightarrow> search_call list \<Rightarrow> bool" where
  "search_busy_ok h cs \<longleftrightarrow>
     (sh_is_loading h \<longrightarrow> (\<exists>i. i \<notin> set (sh_aborted h) \<and> (sh_timer h = Some i \<or> (\<exists>t. Sc_first i t \<in> set cs)))) \<and>
     length (more_calls cs) = (if sh_is_loading_more h then 1 else 0)"

definition search_ok :: "(search_target \<Rightarrow> message_search_hit \<Rightarrow> bool) \<Rightarrow> search_sys \<Rightarrow> bool" where
  "search_ok matches x \<longleftrightarrow> controllers_ok (ss_hook x) (ss_calls x) \<and> search_busy_ok (ss_hook x) (ss_calls x) \<and>
     hits_for matches (sh_target (ss_hook x)) (sh_hits (ss_hook x)) \<and>
     distinct (map (\<lambda>h. message_id (hit_message h)) (sh_hits (ss_hook x)))"

lemma more_calls_simps [simp]:
  "more_calls [] = []" "more_calls (cs @ ds) = more_calls cs @ more_calls ds"
  "more_calls (Sc_first i t # cs) = more_calls cs" "more_calls (Sc_more i t c # cs) = Sc_more i t c # more_calls cs"
  by (simp_all add: more_calls_def)

lemma more_calls_remove_first [simp]: "more_calls (remove1 (Sc_first i t) cs) = more_calls cs"
  by (induction cs) (auto simp: more_calls_def split: search_call.splits)

lemma more_calls_remove:
  "Sc_more i t c \<in> set cs \<Longrightarrow> Suc (length (more_calls (remove1 (Sc_more i t c) cs))) = length (more_calls cs)"
  by (induction cs) (auto simp: more_calls_def split: search_call.splits)

lemma abort_search_frame [simp]:
  "sh_hits (abort_search c h) = sh_hits h" "sh_controller (abort_search c h) = sh_controller h"
  "sh_effect (abort_search c h) = sh_effect h" "sh_timer (abort_search c h) = sh_timer h"
  "sh_next (abort_search c h) = sh_next h" "sh_target (abort_search c h) = sh_target h"
  "sh_enabled (abort_search c h) = sh_enabled h" "sh_is_loading_more (abort_search c h) = sh_is_loading_more h"
  "sh_aborted (abort_search c h) = (case c of None \<Rightarrow> [] | Some i \<Rightarrow> [i]) @ sh_aborted h"
  by (simp_all add: abort_search_def split: option.split)

lemma busy_weaken:
  "search_busy_ok h cs \<Longrightarrow> sh_is_loading h' = False \<Longrightarrow> sh_is_loading_more h' = sh_is_loading_more h \<Longrightarrow>
   more_calls cs' = more_calls cs \<Longrightarrow> search_busy_ok h' cs'"
  by (simp add: search_busy_ok_def)

text \<open>A run of the effect aborts every call under way.\<close>

lemma search_effect_ok:
  assumes c: "controllers_ok h0 cs" and b: "search_busy_ok h0 cs"
    and h: "h = (search_cleanup h0)\<lparr>sh_enabled := en, sh_target := t\<rparr>"
  shows "controllers_ok (search_effect h) cs" "search_busy_ok (search_effect h) cs"
    "sh_hits (search_effect h) = []"
proof -
  have f: "sh_aborted (abort_search (sh_controller h) h) =
      (case sh_controller h0 of None \<Rightarrow> [] | Some i \<Rightarrow> [i]) @ (case sh_effect h0 of None \<Rightarrow> [] | Some i \<Rightarrow> [i]) @ sh_aborted h0"
    "sh_next h = sh_next h0" "sh_controller h = sh_controller h0" "sh_effect h = None" "sh_timer h = None"
    "sh_is_loading_more h = sh_is_loading_more h0" "sh_target h = t"
    by (simp_all add: h search_cleanup_def)
  let ?ab = "set (sh_aborted (abort_search (sh_controller h) h))"
  have gone: "call_id k < sh_next h0 \<and> call_id k \<in> ?ab" if "k \<in> set cs" for k
    using c that unfolding f(1) controllers_ok_def by (cases k) (auto split: option.splits)
  have lt: "\<forall>i \<in> ?ab. i < sh_next h0" "older_than (sh_controller h0) (sh_next h0)"
    using c unfolding f(1) by (auto simp: controllers_ok_def older_than_def split: option.splits)
  have new: "sh_next h0 \<notin> ?ab" using lt(1) by blast
  show "sh_hits (search_effect h) = []" by (simp add: search_effect_def Let_def)
  show "controllers_ok (search_effect h) cs"
  proof (cases "\<not> sh_enabled h \<or> length (snd (sh_target h)) < MIN_QUERY_LENGTH")
    case True
    then have e: "search_effect h = (abort_search (sh_controller h) h)\<lparr>sh_hits := [], sh_cursor := None,
        sh_error_code := None, sh_is_loading := False\<rparr>"
      by (simp add: search_effect_def Let_def)
    show ?thesis unfolding controllers_ok_def e
      using gone lt by (simp add: f older_than_def)
  next
    case False
    then have e: "search_effect h = (abort_search (sh_controller h) h)\<lparr>sh_hits := [], sh_cursor := None,
        sh_error_code := None, sh_controller := Some (sh_next h0), sh_effect := Some (sh_next h0),
        sh_timer := Some (sh_next h0), sh_next := sh_next h0 + 1, sh_is_loading := True\<rparr>"
      by (simp add: search_effect_def Let_def f)
    show ?thesis unfolding controllers_ok_def e
      using gone lt new by (simp add: f(2-) older_than_def less_SucI)
  qed
  show "search_busy_ok (search_effect h) cs"
  proof (cases "\<not> sh_enabled h \<or> length (snd (sh_target h)) < MIN_QUERY_LENGTH")
    case True
    then show ?thesis using b by (simp add: search_busy_ok_def search_effect_def Let_def f(2-))
  next
    case False
    have m: "length (more_calls cs) = (if sh_is_loading_more h0 then 1 else 0)" using b by (simp add: search_busy_ok_def)
    from False show ?thesis unfolding search_busy_ok_def
      using new m by (auto simp: search_effect_def Let_def f(2-) simp del: abort_search_frame(9))
  qed
qed

lemma controllers_ok_mono:
  "controllers_ok h cs \<Longrightarrow> set cs' \<subseteq> set cs \<Longrightarrow> controllers_ok h cs'"
  unfolding controllers_ok_def by blast

lemma search_render_ok:
  assumes "search_ok m x"
  shows "search_ok m (x\<lparr>ss_hook := search_render en conv q (ss_hook x)\<rparr>)"
proof (cases "sh_enabled (ss_hook x) = en \<and> sh_target (ss_hook x) = (conv, js_trim q)")
  case True
  then show ?thesis using assms by (simp add: search_render_def search_ok_def)
next
  case False
  then have e: "search_render en conv q (ss_hook x) =
      search_effect ((search_cleanup (ss_hook x))\<lparr>sh_enabled := en, sh_target := (conv, js_trim q)\<rparr>)"
    unfolding search_render_def by (simp only: if_False)
  show ?thesis
    using search_effect_ok[where en = en and t = "(conv, js_trim q)" and cs = "ss_calls x", OF _ _ refl, of "ss_hook x"] assms
    by (simp add: e search_ok_def hits_for_def)
qed

lemma search_timer_ok:
  assumes f: "search_timer_fired (ss_hook x) = (h, cs)" and ok: "search_ok m x"
  shows "search_ok m (x\<lparr>ss_hook := h, ss_calls := ss_calls x @ cs\<rparr>)"
proof (cases "sh_timer (ss_hook x)")
  case None
  then show ?thesis using f ok by (simp add: search_timer_fired_def search_ok_def)
next
  case (Some i)
  then have e: "h = (ss_hook x)\<lparr>sh_timer := None\<rparr>" "cs = [Sc_first i (sh_target (ss_hook x))]"
    using f by (simp_all add: search_timer_fired_def)
  have c: "controllers_ok (ss_hook x) (ss_calls x)" and b: "search_busy_ok (ss_hook x) (ss_calls x)"
    using ok by (simp_all add: search_ok_def)
  have o: "call_owner k h = call_owner k (ss_hook x)" for k by (cases k) (simp_all add: e)
  have i: "sh_effect (ss_hook x) = Some i" "i < sh_next (ss_hook x)" "i \<notin> set (sh_aborted (ss_hook x))"
    using c Some by (auto simp: controllers_ok_def older_than_def)
  have "controllers_ok h (ss_calls x @ cs)"
    using c i unfolding controllers_ok_def by (simp add: o) (simp add: e)
  moreover have "search_busy_ok h (ss_calls x @ cs)"
    using b i Some unfolding search_busy_ok_def by (cases "sh_target (ss_hook x)") (auto simp: e)
  ultimately show ?thesis using ok by (simp add: search_ok_def e)
qed

lemma search_load_more_ok:
  assumes f: "search_load_more (ss_hook x) = (h, cs)" and ok: "search_ok m x"
  shows "search_ok m (x\<lparr>ss_hook := h, ss_calls := ss_calls x @ cs\<rparr>)"
proof (cases "cs = []")
  case True
  then have "h = ss_hook x" using f by (auto simp: search_load_more_def split: option.splits if_splits)
  with True ok show ?thesis by (simp add: search_ok_def)
next
  case False
  let ?h = "ss_hook x"
  from False obtain cursor where e: "h = ?h\<lparr>sh_controller := Some (sh_next ?h), sh_next := sh_next ?h + 1, sh_is_loading_more := True\<rparr>"
      "cs = [Sc_more (sh_next ?h) (sh_target ?h) cursor]" "\<not> sh_is_loading_more ?h" "\<not> sh_is_loading ?h"
    using f by (auto simp: search_load_more_def split: option.splits if_splits)
  have c: "controllers_ok ?h (ss_calls x)" and b: "search_busy_ok ?h (ss_calls x)" using ok by (simp_all add: search_ok_def)
  have none: "more_calls (ss_calls x) = []" using b e(3) by (simp add: search_busy_ok_def)
  have o: "call_owner k h = call_owner k ?h" if "k \<in> set (ss_calls x)" for k
  proof (cases k)
    case (Sc_more i t c')
    then show ?thesis using none that by (auto simp: more_calls_def filter_empty_conv)
  qed (simp add: e)
  have "controllers_ok h (ss_calls x @ cs)"
    using c unfolding controllers_ok_def by (auto simp: o) (auto simp: e older_than_def split: option.splits)
  moreover have "search_busy_ok h (ss_calls x @ cs)"
    using e(4) none by (simp add: search_busy_ok_def e(1,2))
  ultimately show ?thesis using ok by (simp add: search_ok_def e)
qed

lemma append_unique_hits_for:
  "hits_for m t ps \<Longrightarrow> hits_for m t hs \<Longrightarrow> hits_for m t (append_unique_hits ps hs)"
  using append_unique_set[of ps hs] by (auto simp: hits_for_def list_all_iff)

text \<open>What an answer leaves of the hook.\<close>

definition same_controllers :: "search_hook \<Rightarrow> search_hook \<Rightarrow> bool" where
  "same_controllers h h' \<longleftrightarrow> sh_controller h' = sh_controller h \<and> sh_effect h' = sh_effect h \<and>
     sh_next h' = sh_next h \<and> sh_aborted h' = sh_aborted h \<and> sh_target h' = sh_target h \<and> sh_timer h' = sh_timer h"

lemma controllers_ok_frame:
  "controllers_ok h cs \<Longrightarrow> same_controllers h h' \<Longrightarrow> controllers_ok h' cs"
proof -
  assume a: "controllers_ok h cs" "same_controllers h h'"
  have "call_owner c h' = call_owner c h" for c using a(2) by (cases c) (simp_all add: same_controllers_def)
  then show ?thesis using a by (simp add: controllers_ok_def same_controllers_def)
qed

lemma search_first_done_frame:
  assumes f: "search_first_done i r (h0, s0) = (h, s)" and a: "i \<notin> set (sh_aborted h0)"
  shows "same_controllers h0 h" "sh_is_loading h = False" "sh_is_loading_more h = sh_is_loading_more h0"
    "sh_hits h = (case r of Inl e \<Rightarrow> sh_hits h0 | Inr p \<Rightarrow> append_unique_hits [] (fst p))"
proof -
  have "same_controllers h0 h \<and> sh_is_loading h = False \<and> sh_is_loading_more h = sh_is_loading_more h0 \<and>
    sh_hits h = (case r of Inl e \<Rightarrow> sh_hits h0 | Inr p \<Rightarrow> append_unique_hits [] (fst p))"
  proof (cases r)
    case (Inl e)
    then show ?thesis using f[symmetric] a
      by (cases "apply_messages_error e s0") (simp add: search_first_done_def same_controllers_def)
  next
    case (Inr p)
    then show ?thesis using f[symmetric] a by (cases p) (simp add: search_first_done_def same_controllers_def)
  qed
  then show "same_controllers h0 h" "sh_is_loading h = False" "sh_is_loading_more h = sh_is_loading_more h0"
    "sh_hits h = (case r of Inl e \<Rightarrow> sh_hits h0 | Inr p \<Rightarrow> append_unique_hits [] (fst p))" by blast+
qed

lemma search_more_done_frame:
  assumes f: "search_more_done i r (h0, s0) = (h, s)"
  shows "same_controllers h0 h" "sh_is_loading h = sh_is_loading h0" "sh_is_loading_more h = False"
    "sh_hits h = (case r of Inl e \<Rightarrow> sh_hits h0 | Inr p \<Rightarrow> if i \<in> set (sh_aborted h0) then sh_hits h0
       else append_unique_hits (if snd p then [] else sh_hits h0) (fst (fst p)))"
proof -
  have "same_controllers h0 h \<and> sh_is_loading h = sh_is_loading h0 \<and> sh_is_loading_more h = False \<and>
    sh_hits h = (case r of Inl e \<Rightarrow> sh_hits h0 | Inr p \<Rightarrow> if i \<in> set (sh_aborted h0) then sh_hits h0
       else append_unique_hits (if snd p then [] else sh_hits h0) (fst (fst p)))"
  proof (cases "i \<in> set (sh_aborted h0)")
    case True
    then show ?thesis using f[symmetric] by (simp add: search_more_done_def same_controllers_def split: sum.split)
  next
    case a: False
    show ?thesis
    proof (cases r)
      case (Inl e)
      then show ?thesis using f[symmetric] a by (simp add: search_more_done_def same_controllers_def)
    next
      case (Inr p)
      then show ?thesis using f[symmetric] a
        by (cases p, cases "fst p") (simp add: search_more_done_def same_controllers_def)
    qed
  qed
  then show "same_controllers h0 h" "sh_is_loading h = sh_is_loading h0" "sh_is_loading_more h = False"
    "sh_hits h = (case r of Inl e \<Rightarrow> sh_hits h0 | Inr p \<Rightarrow> if i \<in> set (sh_aborted h0) then sh_hits h0
       else append_unique_hits (if snd p then [] else sh_hits h0) (fst (fst p)))" by blast+
qed

lemma search_first_done_ok:
  assumes f: "search_first_done i r (ss_hook x, ss_store x) = (h, s)" and c: "Sc_first i t \<in> set (ss_calls x)"
    and r: "\<And>items nx. r = Inr (items, nx) \<Longrightarrow> hits_for m t items" and ok: "search_ok m x"
  shows "search_ok m (x\<lparr>ss_hook := h, ss_store := s, ss_calls := remove1 (Sc_first i t) (ss_calls x)\<rparr>)"
proof -
  let ?h = "ss_hook x" and ?cs = "remove1 (Sc_first i t) (ss_calls x)"
  have k: "controllers_ok ?h (ss_calls x)" and b: "search_busy_ok ?h (ss_calls x)"
    and hf: "hits_for m (sh_target ?h) (sh_hits ?h)" and d: "distinct (map (\<lambda>h. message_id (hit_message h)) (sh_hits ?h))"
    using ok by (simp_all add: search_ok_def)
  have k': "controllers_ok ?h ?cs" by (rule controllers_ok_mono[OF k set_remove1_subset])
  show ?thesis
  proof (cases "i \<in> set (sh_aborted ?h)")
    case True
    then have e: "h = ?h" using f by (simp add: search_first_done_def)
    have "search_busy_ok ?h ?cs" unfolding search_busy_ok_def
    proof (intro conjI impI)
      assume "sh_is_loading ?h"
      then obtain j where j: "j \<notin> set (sh_aborted ?h)" "sh_timer ?h = Some j \<or> (\<exists>t. Sc_first j t \<in> set (ss_calls x))"
        using b by (auto simp: search_busy_ok_def)
      moreover have "Sc_first j u \<in> set ?cs" if "Sc_first j u \<in> set (ss_calls x)" for u
        using that j(1) True by (subst in_set_remove1) auto
      ultimately show "\<exists>i. i \<notin> set (sh_aborted ?h) \<and> (sh_timer ?h = Some i \<or> (\<exists>t. Sc_first i t \<in> set ?cs))" by blast
    next
      show "length (more_calls ?cs) = (if sh_is_loading_more ?h then 1 else 0)" using b by (simp add: search_busy_ok_def)
    qed
    then show ?thesis using k' hf d by (simp add: search_ok_def e)
  next
    case False
    then have t: "t = sh_target ?h" using k c unfolding controllers_ok_def by fastforce
    note e = search_first_done_frame[OF f False]
    have kk: "controllers_ok h ?cs" using controllers_ok_frame[OF k' e(1)] .
    have bb: "search_busy_ok h ?cs" using busy_weaken[OF b e(2,3)] by simp
    have th: "sh_target h = sh_target ?h" using e(1) by (simp add: same_controllers_def)
    have "hits_for m (sh_target h) (sh_hits h) \<and> distinct (map (\<lambda>h. message_id (hit_message h)) (sh_hits h))"
    proof (cases r)
      case (Inl err)
      then show ?thesis using hf d by (simp add: e(4) th)
    next
      case (Inr p)
      then have "hits_for m (sh_target ?h) (fst p)" using r[of "fst p" "snd p"] t by simp
      then have "hits_for m (sh_target ?h) (append_unique_hits [] (fst p))"
        using append_unique_hits_for[of m _ "[]"] by (simp add: hits_for_def)
      then show ?thesis using append_unique_distinct[of "[]" "fst p"] by (simp add: e(4) th Inr)
    qed
    with kk bb show ?thesis by (simp add: search_ok_def)
  qed
qed

lemma search_more_done_ok:
  assumes f: "search_more_done i r (ss_hook x, ss_store x) = (h, s)" and c: "Sc_more i t cur \<in> set (ss_calls x)"
    and r: "\<And>items nx re. r = Inr ((items, nx), re) \<Longrightarrow> hits_for m t items" and ok: "search_ok m x"
  shows "search_ok m (x\<lparr>ss_hook := h, ss_store := s, ss_calls := remove1 (Sc_more i t cur) (ss_calls x)\<rparr>)"
proof -
  let ?h = "ss_hook x" and ?cs = "remove1 (Sc_more i t cur) (ss_calls x)"
  have k: "controllers_ok ?h (ss_calls x)" and b: "search_busy_ok ?h (ss_calls x)"
    and hf: "hits_for m (sh_target ?h) (sh_hits ?h)" and d: "distinct (map (\<lambda>h. message_id (hit_message h)) (sh_hits ?h))"
    using ok by (simp_all add: search_ok_def)
  have k': "controllers_ok ?h ?cs" by (rule controllers_ok_mono[OF k set_remove1_subset])
  note e = search_more_done_frame[OF f]
  have th: "sh_target h = sh_target ?h" "sh_aborted h = sh_aborted ?h" "sh_timer h = sh_timer ?h"
    using e(1) by (simp_all add: same_controllers_def)
  have "length (more_calls (ss_calls x)) = 1"
    using b more_calls_remove[OF c] by (auto simp: search_busy_ok_def split: if_splits)
  then have n: "more_calls ?cs = []" using more_calls_remove[OF c] by simp
  have "Sc_first j u \<in> set ?cs" if "Sc_first j u \<in> set (ss_calls x)" for j u using that by (subst in_set_remove1) auto
  then have bb: "search_busy_ok h ?cs" using b n unfolding search_busy_ok_def e(2,3) th by simp
  have kk: "controllers_ok h ?cs" using controllers_ok_frame[OF k' e(1)] .
  have "hits_for m (sh_target h) (sh_hits h) \<and> distinct (map (\<lambda>h. message_id (hit_message h)) (sh_hits h))"
  proof (cases r)
    case (Inl err)
    then show ?thesis using hf d by (simp add: e(4) th)
  next
    case (Inr p)
    show ?thesis
    proof (cases "i \<in> set (sh_aborted ?h)")
      case True
      then show ?thesis using hf d by (simp add: e(4) th Inr)
    next
      case False
      then have t: "t = sh_target ?h" using k c unfolding controllers_ok_def by fastforce
      let ?old = "if snd p then [] else sh_hits ?h"
      have "hits_for m (sh_target ?h) ?old" "distinct (map (\<lambda>h. message_id (hit_message h)) ?old)"
        using hf d by (simp_all add: hits_for_def)
      moreover have "hits_for m (sh_target ?h) (fst (fst p))"
        using r[of "fst (fst p)" "snd (fst p)" "snd p"] Inr t by simp
      ultimately show ?thesis
        using append_unique_hits_for[of m _ ?old] append_unique_distinct[of ?old] False
        unfolding e(4) th Inr by (simp only: sum.case if_False)
    qed
  qed
  with kk bb show ?thesis by (simp add: search_ok_def)
qed

lemma search_step_ok: "search_step m x y \<Longrightarrow> search_ok m x \<Longrightarrow> search_ok m y"
proof (induction rule: search_step.induct)
  case (ss_store_op x op')
  then show ?case by (simp add: search_ok_def)
qed (blast intro: search_render_ok search_timer_ok search_load_more_ok search_first_done_ok search_more_done_ok)+

lemma search_reachable_ok: "search_reachable m x \<Longrightarrow> search_ok m x"
proof (induction rule: search_reachable.induct)
  case (ss_init en conv q s)
  show ?case
    by (simp add: search_ok_def search_mounted_def search_effect_def Let_def abort_search_def controllers_ok_def
        search_busy_ok_def older_than_def hits_for_def)
next
  case (ss_next x y)
  then show ?case using search_step_ok by blast
qed

text \<open>
  C27. However renders, the debounce timer, further pages and late answers interleave, the hits shown
  always belong to the query and conversation of the last render and no message is shown twice; a
  spinner of the search waits for its timer or for a call that was not aborted, and a spinner of a
  further page for the one such call.
\<close>
theorem search_shows_current_query:
  assumes "search_reachable matches x"
  shows "list_all (matches (sh_target (ss_hook x))) (sh_hits (ss_hook x)) \<and>
    distinct (map (\<lambda>h. message_id (hit_message h)) (sh_hits (ss_hook x))) \<and>
    (sh_is_loading (ss_hook x) \<longrightarrow> (\<exists>i. i \<notin> set (sh_aborted (ss_hook x)) \<and>
      (sh_timer (ss_hook x) = Some i \<or> (\<exists>t. Sc_first i t \<in> set (ss_calls x))))) \<and>
    length (more_calls (ss_calls x)) = (if sh_is_loading_more (ss_hook x) then 1 else 0)"
  using search_reachable_ok[OF assms] by (simp add: search_ok_def hits_for_def search_busy_ok_def)

subsection \<open>The draft's recipient as a system\<close>

text \<open>
  The app remembers users it has loaded, the screen's fid changes, and answers of any kind arrive. The fid
  of the hook is the one of its last effect. \<open>told\<close> are the users the app remembers in the run, \<open>answered\<close>
  the users of its profile answers, whoever the call had asked for.
\<close>

record draft_sys =
  ds_remembered :: "(int, message_user) jsmap"
  ds_hook :: draft_hook

inductive draft_step :: "(message_user \<Rightarrow> bool) \<Rightarrow> (profile_user \<Rightarrow> bool) \<Rightarrow> draft_sys \<Rightarrow> draft_sys \<Rightarrow> bool"
  for told answered where
  ds_remember: "told u \<Longrightarrow>
    draft_step told answered x (x\<lparr>ds_remembered := remember_draft_recipient u (ds_remembered x)\<rparr>)"
| ds_effect: "draft_step told answered x
    (x\<lparr>ds_hook := draft_recipient_effect (ds_remembered x) fid (ds_hook x)\<rparr>)"
| ds_done: "k < length (dh_calls (ds_hook x)) \<Longrightarrow> (\<And>p. r = Some (Some p) \<Longrightarrow> answered p) \<Longrightarrow>
    draft_step told answered x (x\<lparr>ds_hook := draft_recipient_done k r (ds_hook x)\<rparr>)"

inductive draft_reachable :: "(message_user \<Rightarrow> bool) \<Rightarrow> (profile_user \<Rightarrow> bool) \<Rightarrow> draft_sys \<Rightarrow> bool"
  for told answered where
  ds_init: "draft_reachable told answered \<lparr>ds_remembered = [], ds_hook = draft_recipient_mounted [] fid\<rparr>"
| ds_next: "draft_reachable told answered x \<Longrightarrow> draft_step told answered x y \<Longrightarrow> draft_reachable told answered y"

text \<open>The user is the one whose account the profile is: their own fid, names and picture.\<close>

definition described_by :: "profile_user \<Rightarrow> message_user \<Rightarrow> bool" where
  "described_by p u \<longleftrightarrow> pr_fid p = Some (u_fid u) \<and>
     u_username u = (if pr_username p = Some [] then None else pr_username p) \<and>
     u_display_name u = (case pr_display_name p of None \<Rightarrow> [] | Some d \<Rightarrow> d) \<and>
     u_pfp_url u = (if pr_pfp_url p = Some [] then None else pr_pfp_url p)"

definition draft_true :: "(message_user \<Rightarrow> bool) \<Rightarrow> (profile_user \<Rightarrow> bool) \<Rightarrow> draft_sys \<Rightarrow> bool" where
  "draft_true told answered x \<longleftrightarrow> (\<forall>f u. jm_get (ds_remembered x) f = Some u \<longrightarrow> told u) \<and>
     (\<forall>u. dr_recipient (dh_state (ds_hook x)) = Some u \<longrightarrow> told u \<or> (\<exists>p. answered p \<and> described_by p u))"

lemma remember_gets:
  "jm_get (remember_draft_recipient u m) f = Some v \<Longrightarrow> v = u \<or> jm_get m f = Some v"
  by (auto simp: remember_draft_recipient_def Let_def jm.get_put jm.get_del split: if_splits list.splits)

lemma to_message_user_described: "to_message_user fid (Some p) = Some u \<Longrightarrow> described_by p u"
  by (auto simp: to_message_user_def described_by_def js_string_set_def split: if_splits option.splits)

lemma draft_true_step: "draft_step told answered x y \<Longrightarrow> draft_true told answered x \<Longrightarrow> draft_true told answered y"
proof (induction rule: draft_step.induct)
  case (ds_remember u x)
  then show ?case using remember_gets by (fastforce simp: draft_true_def)
next
  case (ds_effect x fid)
  then show ?case by (auto simp: draft_true_def draft_recipient_effect_def Let_def split: option.split)
next
  case (ds_done k x r)
  obtain fid c where p: "dh_calls (ds_hook x) ! k = (fid, c)" by force
  have n: "to_message_user fid None = None" by (simp add: to_message_user_def)
  show ?case
  proof (cases "r = None \<or> r = Some None")
    case True
    then show ?thesis using ds_done(3) p n by (auto simp: draft_true_def draft_recipient_done_def Let_def)
  next
    case False
    then obtain q where q: "r = Some (Some q)" by (cases r; cases "the r") auto
    then show ?thesis using ds_done p to_message_user_described[of fid q]
      by (auto simp: draft_true_def draft_recipient_done_def Let_def)
  qed
qed

lemma draft_reachable_true: "draft_reachable told answered x \<Longrightarrow> draft_true told answered x"
proof (induction rule: draft_reachable.induct)
  case (ds_init fid)
  show ?case by (simp add: draft_true_def draft_recipient_mounted_def draft_recipient_effect_def Let_def jm_get_def)
next
  case (ds_next x y)
  then show ?case using draft_true_step by blast
qed

definition remembered_ok :: "(int, message_user) jsmap \<Rightarrow> bool" where
  "remembered_ok m \<longleftrightarrow> jm_ok m \<and> (\<forall>f u. jm_get m f = Some u \<longrightarrow> u_fid u = f) \<and> jm_size m \<le> MAX_REMEMBERED_RECIPIENTS"

definition draft_ok :: "draft_hook \<Rightarrow> bool" where
  "draft_ok h \<longleftrightarrow> (\<forall>u. dr_recipient (dh_state h) = Some u \<longrightarrow> dh_fid h = Some (u_fid u) \<and> \<not> dr_is_loading (dh_state h)) \<and>
     (\<forall>c \<in> set (dh_calls h). \<not> snd c \<longrightarrow> dh_fid h = Some (fst c)) \<and>
     length (filter (\<lambda>c. \<not> snd c) (dh_calls h)) = (if dr_is_loading (dh_state h) then 1 else 0)"

lemma remember_ok: "remembered_ok m \<Longrightarrow> remembered_ok (remember_draft_recipient u m)"
proof -
  assume m: "remembered_ok m"
  let ?m = "jm_set (u_fid u) u (jm_delete (u_fid u) m)"
  have n: "jm_size ?m \<le> Suc MAX_REMEMBERED_RECIPIENTS"
    using m le_trans[OF length_filter_le[of "\<lambda>k'. k' \<noteq> u_fid u" "jm_keys m"]]
    by (simp add: remembered_ok_def jm_size_keys js_list)
  have ok: "jm_ok ?m" using m by (simp add: remembered_ok_def jm_simps)
  have own: "u_fid v = f" if "jm_get ?m f = Some v" for f v
  proof (cases "f = u_fid u")
    case False
    then have "jm_get m f = Some v" using that by (simp add: jm.get_put jm.get_del)
    then show ?thesis using m unfolding remembered_ok_def by blast
  qed (use that in \<open>simp add: jm.get_put\<close>)
  show ?thesis
  proof (cases "jm_size ?m > MAX_REMEMBERED_RECIPIENTS")
    case False
    then have "remember_draft_recipient u m = ?m" by (simp add: remember_draft_recipient_def)
    with False ok own show ?thesis unfolding remembered_ok_def by (metis not_less)
  next
    case True
    then obtain k ks where k: "jm_keys ?m = k # ks" unfolding jm_size_keys by (cases "jm_keys ?m") auto
    then have e: "remember_draft_recipient u m = jm_delete k ?m" using True by (simp add: remember_draft_recipient_def)
    have "jm_size (jm_delete k ?m) \<le> length ks"
      unfolding jm_size_keys jm_keys_delete k by (simp add: length_filter_le)
    moreover have "length ks \<le> MAX_REMEMBERED_RECIPIENTS" using n k unfolding jm_size_keys by simp
    moreover have "u_fid v = f" if "jm_get (jm_delete k ?m) f = Some v" for f v
      using own[of f v] that by (cases "f = k") (simp_all add: jm.get_del)
    ultimately show ?thesis using jm.ok_del[OF ok] unfolding e remembered_ok_def by (blast intro: le_trans)
  qed
qed

lemma draft_effect_ok: "remembered_ok m \<Longrightarrow> draft_ok (draft_recipient_effect m fid h)"
  by (auto simp: draft_ok_def draft_recipient_effect_def Let_def remembered_ok_def filter_empty_conv
      split: option.split)

lemma to_message_user_fid: "to_message_user fid user = Some u \<Longrightarrow> u_fid u = fid"
  by (auto simp: to_message_user_def split: option.splits if_splits)

lemma draft_done_ok:
  assumes k: "k < length (dh_calls h)" and h: "draft_ok h"
  shows "draft_ok (draft_recipient_done k r h)"
proof -
  obtain fid c where p: "dh_calls h ! k = (fid, c)" by force
  let ?cs = "take k (dh_calls h) @ drop (Suc k) (dh_calls h)"
  have l: "dh_calls h = take k (dh_calls h) @ (fid, c) # drop (Suc k) (dh_calls h)"
    using k p id_take_nth_drop by metis
  have sub: "set ?cs \<subseteq> set (dh_calls h)" by (auto dest: in_set_takeD in_set_dropD)
  have cnt: "length (filter (\<lambda>c. \<not> snd c) (dh_calls h)) =
      length (filter (\<lambda>c. \<not> snd c) ?cs) + (if c then 0 else 1)"
    by (subst l) simp
  show ?thesis
  proof (cases c)
    case True
    then show ?thesis using h cnt sub p by (auto simp: draft_ok_def draft_recipient_done_def Let_def)
  next
    case False
    have "(fid, c) \<in> set (dh_calls h)" using k p nth_mem by metis
    then have f: "dh_fid h = Some fid" using h False by (auto simp: draft_ok_def)
    have "length (filter (\<lambda>c. \<not> snd c) ?cs) = 0"
      using cnt h False by (simp add: draft_ok_def split: if_splits)
    then have none: "filter (\<lambda>c. \<not> snd c) ?cs = []" by simp
    then show ?thesis using False p f to_message_user_fid
      by (auto simp: draft_ok_def draft_recipient_done_def Let_def filter_empty_conv split: option.splits)
  qed
qed

lemma draft_reachable_ok: "draft_reachable told answered x \<Longrightarrow> remembered_ok (ds_remembered x) \<and> draft_ok (ds_hook x)"
proof (induction rule: draft_reachable.induct)
  case (ds_init fid)
  have "remembered_ok []" by (simp add: remembered_ok_def jm_size_def)
  then show ?case by (simp add: draft_recipient_mounted_def draft_effect_ok)
next
  case (ds_next x y)
  from ds_next(2,3) show ?case
    by (cases rule: draft_step.cases) (simp_all add: remember_ok draft_effect_ok draft_done_ok)
qed

text \<open>
  C38. Whatever users the app remembered, however the screen's fid changes and whatever the profile calls
  answer and when, the person a draft shows is the one its fid names: a user the app remembered under
  their own fid, or the user of a profile answer whose own fid is that fid, with that profile's names and
  picture, so an answer about somebody else is never shown under the fid. While it loads nobody is shown
  and exactly one call that was not cancelled is under way, for that fid; at most 50 users are remembered.
\<close>
theorem draft_recipient_is_asked_for:
  assumes "draft_reachable told answered x"
  shows "(\<forall>u. dr_recipient (dh_state (ds_hook x)) = Some u \<longrightarrow>
      dh_fid (ds_hook x) = Some (u_fid u) \<and> \<not> dr_is_loading (dh_state (ds_hook x)) \<and>
      (told u \<or> (\<exists>p. answered p \<and> described_by p u))) \<and>
    filter (\<lambda>c. \<not> snd c) (dh_calls (ds_hook x)) =
      (if dr_is_loading (dh_state (ds_hook x)) then [(the (dh_fid (ds_hook x)), False)] else []) \<and>
    jm_size (ds_remembered x) \<le> 50"
proof -
  let ?h = "ds_hook x"
  have r: "remembered_ok (ds_remembered x)" and d: "draft_ok ?h" using draft_reachable_ok[OF assms] by simp_all
  have 1: "\<forall>u. dr_recipient (dh_state ?h) = Some u \<longrightarrow> dh_fid ?h = Some (u_fid u) \<and> \<not> dr_is_loading (dh_state ?h) \<and>
      (told u \<or> (\<exists>p. answered p \<and> described_by p u))"
    using d draft_reachable_true[OF assms] by (simp add: draft_ok_def draft_true_def)
  have 2: "jm_size (ds_remembered x) \<le> 50" using r by (simp add: remembered_ok_def MAX_REMEMBERED_RECIPIENTS_def)
  have e: "c = (the (dh_fid ?h), False)" if "c \<in> set (filter (\<lambda>c. \<not> snd c) (dh_calls ?h))" for c
    using d that by (cases c) (auto simp: draft_ok_def)
  have 3: "filter (\<lambda>c. \<not> snd c) (dh_calls ?h) = (if dr_is_loading (dh_state ?h) then [(the (dh_fid ?h), False)] else [])"
  proof (cases "dr_is_loading (dh_state ?h)")
    case True
    then obtain c where "filter (\<lambda>c. \<not> snd c) (dh_calls ?h) = [c]"
      using d by (auto simp: draft_ok_def length_Suc_conv)
    then show ?thesis using True e[of c] by simp
  qed (use d in \<open>simp add: draft_ok_def\<close>)
  show ?thesis using 1 3 2 by blast
qed

text \<open>A draft opened for user 2, then for user 3; the answer about user 2 comes late.\<close>

definition demo_asked :: draft_sys where
  "demo_asked = \<lparr>ds_remembered = [], ds_hook = draft_recipient_effect [] (Some 3) (draft_recipient_mounted [] (Some 2))\<rparr>"

definition profile_two :: profile_user where
  "profile_two = \<lparr>pr_fid = Some 2, pr_username = Some ''two'', pr_display_name = None, pr_pfp_url = None\<rparr>"

definition profile_three :: profile_user where
  "profile_three = \<lparr>pr_fid = Some 3, pr_username = Some ''three'', pr_display_name = Some ''Tre'', pr_pfp_url = None\<rparr>"

definition demo_late :: draft_sys where
  "demo_late = demo_asked\<lparr>ds_hook := draft_recipient_done 0 (Some (Some profile_two)) (ds_hook demo_asked)\<rparr>"

definition demo_answered :: "profile_user \<Rightarrow> draft_sys" where
  "demo_answered p = demo_late\<lparr>ds_hook := draft_recipient_done 0 (Some (Some p)) (ds_hook demo_late)\<rparr>"

definition answers_of :: "profile_user list \<Rightarrow> profile_user \<Rightarrow> bool" where
  "answers_of ps p \<longleftrightarrow> p \<in> set ps"

lemma demo_asked_reachable: "draft_reachable told answered demo_asked"
  using ds_next[OF ds_init draft_step.ds_effect[where fid = "Some 3"], of told answered "Some 2"] by (simp add: demo_asked_def)

lemma demo_late_reachable: "answered profile_two \<Longrightarrow> draft_reachable told answered demo_late"
proof -
  assume "answered profile_two"
  then have p: "\<And>q. Some (Some profile_two) = Some (Some q) \<Longrightarrow> answered q" by simp
  have "0 < length (dh_calls (ds_hook demo_asked))" by code_simp
  then have "draft_step told answered demo_asked demo_late" unfolding demo_late_def by (rule draft_step.ds_done) (rule p)
  with demo_asked_reachable show ?thesis by (rule draft_reachable.ds_next)
qed

lemma demo_answered_reachable:
  "answered profile_two \<Longrightarrow> answered p \<Longrightarrow> draft_reachable told answered (demo_answered p)"
proof -
  assume a: "answered profile_two" "answered p"
  then have p: "\<And>q. Some (Some p) = Some (Some q) \<Longrightarrow> answered q" by simp
  have "0 < length (dh_calls (ds_hook demo_late))" by code_simp
  then have "draft_step told answered demo_late (demo_answered p)" unfolding demo_answered_def
    by (rule draft_step.ds_done) (rule p)
  with demo_late_reachable[of answered, OF a(1)] show ?thesis by (rule draft_reachable.ds_next)
qed

text \<open>The answer is about user 3, or again about user 2.\<close>

theorem draft_recipient_is_asked_for_witness:
  "dr_recipient (dh_state (ds_hook demo_late)) = None \<and>
   filter (\<lambda>c. \<not> snd c) (dh_calls (ds_hook demo_late)) = [(3, False)] \<and>
   (\<exists>u. dr_recipient (dh_state (ds_hook (demo_answered profile_three))) = Some u \<and>
      u_username u = Some ''three'' \<and> described_by profile_three u) \<and>
   dr_recipient (dh_state (ds_hook (demo_answered profile_two))) = None"
proof -
  let ?a = "answers_of [profile_two]" and ?b = "answers_of [profile_two, profile_three]"
  have nt: "\<not> described_by profile_two u" if "u_fid u = 3" for u using that by (simp add: described_by_def profile_two_def)
  have late: "dr_is_loading (dh_state (ds_hook demo_late))" "dh_fid (ds_hook demo_late) = Some 3" by code_simp+
  have l: "draft_reachable (\<lambda>u. False) ?a demo_late" by (rule demo_late_reachable) (simp add: answers_of_def)
  have 3: "draft_reachable (\<lambda>u. False) ?b (demo_answered profile_three)"
    by (rule demo_answered_reachable) (simp_all add: answers_of_def)
  have 2: "draft_reachable (\<lambda>u. False) ?a (demo_answered profile_two)"
    by (rule demo_answered_reachable) (simp_all add: answers_of_def)
  have f: "dh_fid (ds_hook (demo_answered profile_three)) = Some 3" "dh_fid (ds_hook (demo_answered profile_two)) = Some 3"
    "map_option u_username (dr_recipient (dh_state (ds_hook (demo_answered profile_three)))) = Some (Some ''three'')"
    by code_simp+
  obtain u where u: "dr_recipient (dh_state (ds_hook (demo_answered profile_three))) = Some u" "u_username u = Some ''three''"
    using f(3) by auto
  have "\<exists>p. ?b p \<and> described_by p u" "u_fid u = 3"
    using draft_recipient_is_asked_for[OF 3] u(1) f(1) by auto
  then have "described_by profile_three u" using nt by (auto simp: answers_of_def)
  moreover have "dr_recipient (dh_state (ds_hook (demo_answered profile_two))) = None"
    using draft_recipient_is_asked_for[OF 2] f(2) nt
    by (cases "dr_recipient (dh_state (ds_hook (demo_answered profile_two)))") (auto simp: answers_of_def)
  ultimately show ?thesis
    using draft_recipient_is_asked_for[OF l] late u by (cases "dr_recipient (dh_state (ds_hook demo_late))") auto
qed

text \<open>A search whose first answer came; the query then changes while its next page is under way.\<close>

definition found_hit :: message_search_hit where
  "found_hit = \<lparr>hit_message = (mb_build_optimistic_message ''m1'' ''7-42'' mb_me ''gm'' None 1000)\<lparr>send_state := None\<rparr>,
     hit_conversation = \<lparr>conversation_id = ''7-42'', is_group = False, c_name = None, photo_url = None,
       participants = [], counterparty = None, last_message = None, unread_count = 0,
       unread_mentions_count = 0, muted = False, pinned = False, archived = False, category = CDefault,
       access = Read_write, last_read_at = 0, manually_marked_unread = False, created_at = 0,
       peer_last_read_at = None\<rparr>,
     hit_highlights = [], hit_before = [], hit_after = [], hit_highlight_ranges = None, hit_matched_terms = None,
     hit_thread_cursor = None, hit_thread_newer_cursor = None\<rparr>"

definition search_says :: "search_target \<Rightarrow> message_search_hit \<Rightarrow> bool" where
  "search_says t h \<longleftrightarrow> snd t = m_text (hit_message h)"

definition search_began :: search_sys where
  "search_began = \<lparr>ss_hook = fst (search_timer_fired (search_mounted True None '' gm'')), ss_store = mo_store mobile_start,
     ss_calls = [Sc_first 0 (None, ''gm'')]\<rparr>"

definition search_found :: search_sys where
  "search_found = search_began\<lparr>ss_hook := fst (search_first_done 0 (Inr ([found_hit, found_hit], Some ''c'')) (ss_hook search_began, ss_store search_began)),
     ss_calls := []\<rparr>"

lemma search_found_reachable: "search_reachable search_says search_found"
proof -
  let ?m = "\<lparr>ss_hook = search_mounted True None '' gm'', ss_store = mo_store mobile_start, ss_calls = []\<rparr>"
  have t: "search_timer_fired (ss_hook ?m) = (ss_hook search_began, [Sc_first 0 (None, ''gm'')])" by code_simp
  have "search_reachable search_says search_began"
    using ss_next[OF ss_init ss_timer[OF t]] by (simp add: search_began_def)
  moreover have "search_step search_says search_began search_found"
  proof -
    have c: "Sc_first 0 (None, ''gm'') \<in> set (ss_calls search_began)" by (simp add: search_began_def)
    have h: "search_first_done 0 (Inr ([found_hit, found_hit], Some ''c'')) (ss_hook search_began, ss_store search_began) =
        (ss_hook search_found, ss_store search_began)"
      by (simp add: search_found_def search_first_done_def search_began_def)
    have r: "hits_for search_says (None, ''gm'') items" if "Inr ([found_hit, found_hit], Some ''c'') = (Inr (items, nx) :: mb_error + search_page)" for items nx
    proof -
      have "search_says (None, ''gm'') found_hit" by code_simp
      with that show ?thesis by (auto simp: hits_for_def)
    qed
    have e: "search_found = search_began\<lparr>ss_hook := ss_hook search_found, ss_store := ss_store search_began,
        ss_calls := remove1 (Sc_first 0 (None, ''gm'')) (ss_calls search_began)\<rparr>"
      by (simp add: search_found_def search_began_def)
    show ?thesis by (subst e) (rule ss_first_done[OF c r h])
  qed
  ultimately show ?thesis by (rule search_reachable.ss_next)
qed

theorem search_shows_current_query_witness:
  "sh_hits (ss_hook search_found) = [found_hit] \<and> list_all (search_says (None, ''gm'')) (sh_hits (ss_hook search_found)) \<and>
   \<not> sh_is_loading (ss_hook search_found)"
proof -
  have "sh_target (ss_hook search_found) = (None, ''gm'')" "sh_hits (ss_hook search_found) = [found_hit]"
    "\<not> sh_is_loading (ss_hook search_found)" by code_simp+
  then show ?thesis using search_shows_current_query[OF search_found_reachable] by simp
qed

end
