(* ===== verification/Mobile_Space.thy ===== *)
theory Mobile_Space
  imports Space_Events JS_Value
begin

section \<open>A space in the mobile app\<close>

text \<open>
  The session half of \<^verbatim>\<open>farcaster-audio/stores/spaceStore.ts\<close>, the hook \<^verbatim>\<open>hooks/useSpace.ts\<close> with
  \<^verbatim>\<open>hooks/useReconnect.ts\<close>, and the module state of \<^verbatim>\<open>services/livekit.ts\<close>. Participants, rooms, reaction
  bubbles, events and the browser's parsing are those of the web's \<^verbatim>\<open>Space_Session\<close> and \<^verbatim>\<open>Space_Events\<close>;
  the handlers are the app's own. Every await ends a step: what comes after it is a \<open>space_call\<close> with what
  the closure has captured, and a function whose name ends in \<open>done\<close> takes the answer, \<open>None\<close> for a call
  that throws. LiveKit rooms are numbered. Times are in milliseconds.
\<close>

subsection \<open>The store\<close>

record space_store =
  so_room :: "space_room option"
  so_participants :: "session_participant list"
  so_hand_queue :: "int list"
  so_my_role :: "jstr option"
  so_is_connected :: bool
  so_is_muted :: bool
  so_is_hand_raised :: bool
  so_is_recording :: bool
  so_chat_tick :: nat

definition SPACE_INITIAL_STATE :: space_store where
  "SPACE_INITIAL_STATE = \<lparr>so_room = None, so_participants = [], so_hand_queue = [], so_my_role = None,
     so_is_connected = False, so_is_muted = True, so_is_hand_raised = False, so_is_recording = False, so_chat_tick = 0\<rparr>"

definition so_add_participant :: "session_participant \<Rightarrow> space_store \<Rightarrow> space_store" where
  "so_add_participant p s =
     s\<lparr>so_participants := filter (\<lambda>q. pt_fid q \<noteq> pt_fid p) (so_participants s) @ [p]\<rparr>"

definition so_remove_participant :: "int \<Rightarrow> space_store \<Rightarrow> space_store" where
  "so_remove_participant fid s =
     s\<lparr>so_participants := filter (\<lambda>p. pt_fid p \<noteq> fid) (so_participants s),
       so_hand_queue := filter (\<lambda>f. f \<noteq> fid) (so_hand_queue s)\<rparr>"

definition so_update_participant ::
  "int \<Rightarrow> (session_participant \<Rightarrow> session_participant) \<Rightarrow> space_store \<Rightarrow> space_store" where
  "so_update_participant fid updates s =
     s\<lparr>so_participants := map (\<lambda>p. if pt_fid p = fid then updates p else p) (so_participants s)\<rparr>"

definition so_set_speaking :: "int set \<Rightarrow> space_store \<Rightarrow> space_store" where
  "so_set_speaking speakingFids s =
     s\<lparr>so_participants := map (\<lambda>p. if pt_is_speaking p = (pt_fid p \<in> speakingFids) then p
        else p\<lparr>pt_is_speaking := pt_fid p \<in> speakingFids\<rparr>) (so_participants s)\<rparr>"

definition so_set_recording :: "bool \<Rightarrow> space_store \<Rightarrow> space_store" where
  "so_set_recording b s =
     s\<lparr>so_is_recording := b, so_room := map_option (\<lambda>r. r\<lparr>sr_recording := b\<rparr>) (so_room s)\<rparr>"

definition so_bump_chat :: "space_store \<Rightarrow> space_store" where
  "so_bump_chat s = s\<lparr>so_chat_tick := so_chat_tick s + 1\<rparr>"

definition so_join :: "space_room \<Rightarrow> session_participant list \<Rightarrow> jstr \<Rightarrow> space_store \<Rightarrow> space_store" where
  "so_join room participants myRole s =
     s\<lparr>so_room := Some room, so_participants := participants, so_my_role := Some myRole, so_is_connected := True,
       so_is_muted := (myRole = ''listener''), so_is_hand_raised := False, so_hand_queue := [],
       so_is_recording := sr_recording room\<rparr>"

definition so_leave :: "space_store \<Rightarrow> space_store" where
  "so_leave s = SPACE_INITIAL_STATE"

subsection \<open>Identities and pictures\<close>

text \<open>\<^verbatim>\<open>parseInt(s, 10)\<close>: spaces, a sign and the longest run of digits; \<open>None\<close> is \<^verbatim>\<open>NaN\<close>.\<close>

definition parse_int_10 :: "jstr \<Rightarrow> int option" where
  "parse_int_10 s =
     (let t = dropWhile js_space s;
          u = (if t \<noteq> [] \<and> hd t \<in> {CHR ''+'', CHR ''-''} then tl t else t);
          digits = takeWhile js_is_digit u;
          n = int (js_to_nat digits)
      in if digits = [] then None else Some (if t \<noteq> [] \<and> hd t = CHR ''-'' then - n else n))"

definition mb_participant_fid :: "bool \<Rightarrow> jstr option \<Rightarrow> int option" where
  "mb_participant_fid isNative identity =
     (if isNative then parse_participant_fid identity
      else case identity of
             None \<Rightarrow> None
           | Some i \<Rightarrow>
               if i = [] then None
               else (case parse_int_10 i of None \<Rightarrow> None | Some n \<Rightarrow> if n > 0 then Some n else None))"

definition is_native_room :: "space_room option \<Rightarrow> bool" where
  "is_native_room room = (case room of None \<Rightarrow> False | Some r \<Rightarrow> sr_is_farcaster_native r)"

text \<open>The native room's id on Farcaster, where the code asks for both fields.\<close>

definition native_id :: "space_room option \<Rightarrow> jstr option" where
  "native_id room =
     (case room of
        None \<Rightarrow> None
      | Some r \<Rightarrow> (case sr_farcaster_room_id r of
                     None \<Rightarrow> None
                   | Some i \<Rightarrow> if sr_is_farcaster_native r \<and> i \<noteq> [] then Some i else None))"

text \<open>A URL parses to its protocol and host name, or not at all; the host \<^verbatim>\<open>URL\<close> gives is never empty here.\<close>

record phone_runtime = runtime +
  pr_url :: "jstr \<Rightarrow> (jstr \<times> jstr) option"

definition host_ends_with :: "jstr \<Rightarrow> jstr \<Rightarrow> bool" where
  "host_ends_with s suffix = (drop (length s - length suffix) s = suffix \<and> length suffix \<le> length s)"

definition dotted_quad :: "jstr \<Rightarrow> bool" where
  "dotted_quad host =
     (let ps = js_split (CHR ''.'') host
      in length ps = 4 \<and> list_all (\<lambda>p. p \<noteq> [] \<and> length p \<le> 3 \<and> list_all js_is_digit p) ps)"

definition private_172 :: "jstr \<Rightarrow> bool" where
  "private_172 host =
     list_ex (\<lambda>n. js_starts_with (''172.'' @ js_of_nat n @ ''.'') host) [16..<32]"

definition is_safe_public_https_url :: "phone_runtime \<Rightarrow> jstr option \<Rightarrow> bool" where
  "is_safe_public_https_url rt url =
     (case url of
        None \<Rightarrow> False
      | Some u \<Rightarrow>
          if u = [] then False
          else (case pr_url rt u of
             None \<Rightarrow> False
           | Some (protocol, hostname) \<Rightarrow>
               (let host = js_lower hostname; inner = (if js_starts_with ''['' host then drop 1 host else host)
                in protocol = ''https:'' \<and> host \<noteq> ''localhost'' \<and> \<not> host_ends_with host ''.local'' \<and>
                   \<not> list_ex (\<lambda>p. js_starts_with p host) [''127.'', ''10.'', ''192.168.'', ''169.254.'', ''0.''] \<and>
                   \<not> private_172 host \<and>
                   \<not> list_ex (\<lambda>p. js_starts_with p inner) [''::1'', ''fe80:'', ''fc00:'', ''fd00:''] \<and>
                   \<not> dotted_quad host \<and> \<not> js_starts_with ''['' host \<and> CHR ''.'' \<in> set host)))"

definition is_safe_image_url :: "phone_runtime \<Rightarrow> jstr option \<Rightarrow> bool" where
  "is_safe_image_url rt url = is_safe_public_https_url rt url"

definition some_text :: "jstr option \<Rightarrow> jstr option" where
  "some_text x = (if x = Some [] then None else x)"

subsection \<open>The state of the hook\<close>

record phone_user =
  pu_fid :: int
  pu_display_name :: "jstr option"
  pu_username :: "jstr option"
  pu_pfp_url :: "jstr option"

record phone =
  ph_store :: space_store
  ph_user :: "phone_user option"
  ph_reaction_seq :: nat
  ph_reactions :: "reaction_bubble list"
  ph_reaction_updates :: "(jstr \<times> int) list"
  ph_invite :: "pending_stage_invite option"
  ph_invite_room :: "jstr option"
  ph_invite_poll :: "jstr option"
  ph_speakers :: "int list"
  ph_heartbeat :: "jstr option"
  ph_room_ref :: "nat option"
  ph_listening :: "nat list"
  ph_active :: "nat option"
  ph_active_ws :: "jstr option"
  ph_connected :: "nat list"
  ph_mics :: "nat list"
  ph_next :: nat
  ph_reconnect :: reconnect_state

text \<open>What follows a connect: the room and what the join gave.\<close>

datatype join_ctx =
  Join_native space_room jstr jstr jstr
  | Join_juke jstr "jstr option" jstr

datatype stage_action = Act_accept | Act_decline | Act_raise bool | Act_promote int | Act_demote int | Act_end

record phone_detail =
  pd_room :: space_room
  pd_participants :: "session_participant list"

text \<open>Where a reconnect waits: its sleep, or the call that is under way.\<close>

datatype reconnect_at =
  At_sleep int
  | At_refresh
  | At_check
  | At_drop phone_detail "nat option"
  | At_connect phone_detail jstr
  | At_kicked "nat option"

datatype space_call =
  K_get_room jstr "phone_user option"
  | K_gate space_room phone_user
  | K_bearer space_room phone_user
  | K_native_join space_room phone_user
  | K_juke_join jstr
  | K_connect join_ctx
  | K_join_mic join_ctx nat
  | K_hydrate
  | K_tick jstr int
  | K_sign stage_action space_room int
  | K_post stage_action space_room
  | K_leave jstr
  | K_disconnect "nat option"
  | K_toggle "nat option" bool
  | K_promoted "nat option"
  | K_demoted "nat option"
  | K_speak "nat option"
  | K_react jstr
  | K_react_http jstr
  | K_refetch jstr
  | K_attach jstr
  | K_top_up jstr
  | K_reconnect jstr "int option" reconnect_at
  | K_mini_toggle "nat option" bool
  | K_mini_leave
  | K_mini_drop "nat option"

definition on_store :: "(space_store \<Rightarrow> space_store) \<Rightarrow> phone \<Rightarrow> phone" where
  "on_store f s = s\<lparr>ph_store := f (ph_store s)\<rparr>"

text \<open>\<^verbatim>\<open>useAuthStore.getState().user?.fid\<close> where the code asks for a truthy one.\<close>

definition my_fid :: "phone \<Rightarrow> int option" where
  "my_fid s = (case ph_user s of None \<Rightarrow> None | Some u \<Rightarrow> if pu_fid u = 0 then None else Some (pu_fid u))"

definition my_name :: "phone_user \<Rightarrow> jstr" where
  "my_name u = or_else (pu_display_name u) (or_else (pu_username u) (default_name (pu_fid u)))"

definition fid_of :: "phone \<Rightarrow> live_participant \<Rightarrow> int option" where
  "fid_of s p = mb_participant_fid (is_native_room (so_room (ph_store s))) (lp_identity p)"

definition mb_participant :: "int \<Rightarrow> participant_metadata \<Rightarrow> jstr \<Rightarrow> bool \<Rightarrow> bool \<Rightarrow> jstr \<Rightarrow> session_participant" where
  "mb_participant fid md role muted speaking name =
     \<lparr>pt_fid = fid, pt_role = or_else (md_role md) role, pt_is_muted = muted, pt_is_speaking = speaking,
      pt_hand_raised = False, pt_display_name = name, pt_pfp_url = some_text (md_pfp_url md)\<rparr>"

text \<open>
  \<^verbatim>\<open>reactionIdRef.current += 1\<close> happens at once; the updater passed to \<^verbatim>\<open>setReactions\<close> is queued and
  runs when React gets to it, and it reads the ref then, not the number it was queued with.
\<close>

definition mb_push_reaction :: "jstr \<Rightarrow> int \<Rightarrow> phone \<Rightarrow> phone" where
  "mb_push_reaction key fid s =
     s\<lparr>ph_reaction_seq := ph_reaction_seq s + 1, ph_reaction_updates := ph_reaction_updates s @ [(key, fid)]\<rparr>"

definition run_reaction_update :: "phone \<Rightarrow> phone" where
  "run_reaction_update s =
     (case ph_reaction_updates s of
        [] \<Rightarrow> s
      | (key, fid) # updates \<Rightarrow>
          s\<lparr>ph_reaction_updates := updates,
            ph_reactions := last_n 19 (ph_reactions s)
              @ [\<lparr>rb_key = key, rb_id = ph_reaction_seq s, rb_fid = fid\<rparr>]\<rparr>)"

subsection \<open>Timers\<close>

definition FARCASTER_HEARTBEAT_INTERVAL_MS :: int where "FARCASTER_HEARTBEAT_INTERVAL_MS = 10000"

definition PENDING_INVITE_POLL_INTERVAL_MS :: int where "PENDING_INVITE_POLL_INTERVAL_MS = 5000"

definition stop_heartbeat :: "phone \<Rightarrow> phone" where
  "stop_heartbeat s = s\<lparr>ph_heartbeat := None\<rparr>"

text \<open>Each beat posts \<open>ph_speakers\<close> for the room of the interval and swallows what comes back.\<close>

definition start_heartbeat :: "jstr \<Rightarrow> phone \<Rightarrow> phone" where
  "start_heartbeat farcasterRoomId s = (stop_heartbeat s)\<lparr>ph_heartbeat := Some farcasterRoomId\<rparr>"

definition stop_pending_invite_poll :: "phone \<Rightarrow> phone" where
  "stop_pending_invite_poll s = s\<lparr>ph_invite_poll := None, ph_invite_room := None, ph_invite := None\<rparr>"

definition invite_tick :: "jstr \<Rightarrow> phone \<Rightarrow> space_call list" where
  "invite_tick farcasterRoomId s =
     (if ph_invite_room s \<noteq> Some farcasterRoomId then []
      else case my_fid s of None \<Rightarrow> [] | Some fid \<Rightarrow> [K_tick farcasterRoomId fid])"

definition start_pending_invite_poll :: "jstr \<Rightarrow> phone \<Rightarrow> phone \<times> space_call list" where
  "start_pending_invite_poll farcasterRoomId s =
     (if ph_invite_room s = Some farcasterRoomId then (s, [])
      else let s1 = (stop_pending_invite_poll s)\<lparr>ph_invite_room := Some farcasterRoomId\<rparr>
           in (s1\<lparr>ph_invite_poll := Some farcasterRoomId\<rparr>, invite_tick farcasterRoomId s1))"

definition invite_poll_fired :: "phone \<Rightarrow> space_call list" where
  "invite_poll_fired s = (case ph_invite_poll s of None \<Rightarrow> [] | Some i \<Rightarrow> invite_tick i s)"

record stage_invite =
  si_inviter_fid :: "int option"
  si_role :: "jstr option"

record invited_participant = native_participant +
  ip_pending_invite :: "stage_invite option"

definition invite_of :: "invited_participant list \<Rightarrow> stage_invite \<Rightarrow> pending_stage_invite" where
  "invite_of ps invite =
     (let inviter = (case si_inviter_fid invite of
             None \<Rightarrow> None | Some f \<Rightarrow> if f = 0 then None else find (\<lambda>p. np_fid p = Some f) ps)
      in \<lparr>pi_inviter_fid = si_inviter_fid invite,
          pi_inviter_display_name = (case inviter of
             None \<Rightarrow> None
           | Some p \<Rightarrow> (case some_text (np_display_name p) of Some n \<Rightarrow> Some n | None \<Rightarrow> some_text (np_username p))),
          pi_inviter_pfp_url = (case inviter of None \<Rightarrow> None | Some p \<Rightarrow> np_pfp_url p),
          pi_role = or_else (si_role invite) ''speaker''\<rparr>)"

definition invite_tick_done :: "jstr \<Rightarrow> int \<Rightarrow> invited_participant list option \<Rightarrow> phone \<Rightarrow> phone" where
  "invite_tick_done farcasterRoomId myFid r s =
     (case r of
        None \<Rightarrow> s
      | Some ps \<Rightarrow>
          if ph_invite_room s \<noteq> Some farcasterRoomId then s
          else (let invite = (case find (\<lambda>p. np_fid p = Some myFid) ps of
                                None \<Rightarrow> None | Some me \<Rightarrow> ip_pending_invite me)
                in s\<lparr>ph_invite := map_option (invite_of ps) invite\<rparr>))"

subsection \<open>Events of the room\<close>

definition mb_on_participant_connected :: "runtime \<Rightarrow> live_participant \<Rightarrow> phone \<Rightarrow> phone" where
  "mb_on_participant_connected rt p s =
     (case fid_of s p of
        None \<Rightarrow> s
      | Some fid \<Rightarrow> on_store (so_add_participant (mb_participant fid (parse_metadata rt (lp_metadata p)) ''listener'' True
                      False (or_else (lp_name p) (default_name fid)))) s)"

definition mb_on_participant_disconnected :: "live_participant \<Rightarrow> phone \<Rightarrow> phone" where
  "mb_on_participant_disconnected p s =
     (case fid_of s p of None \<Rightarrow> s | Some fid \<Rightarrow> on_store (so_remove_participant fid) s)"

definition mb_on_track :: "bool \<Rightarrow> live_participant \<Rightarrow> phone \<Rightarrow> phone" where
  "mb_on_track muted p s =
     (case fid_of s p of
        None \<Rightarrow> s
      | Some fid \<Rightarrow> on_store (so_update_participant fid
          (\<lambda>q. if muted then q\<lparr>pt_is_muted := True, pt_is_speaking := False\<rparr> else q\<lparr>pt_is_muted := False\<rparr>)) s)"

definition heard_name :: "participant_metadata \<Rightarrow> live_participant \<Rightarrow> int \<Rightarrow> jstr" where
  "heard_name md p fid = or_else (md_display_name md) (or_else (lp_name p) (default_name fid))"

text \<open>The loop over the active speakers; \<open>known\<close> is \<^verbatim>\<open>knownFids\<close>, the result has \<^verbatim>\<open>fids\<close>.\<close>

fun mb_hear_speakers :: "runtime \<Rightarrow> live_participant list \<Rightarrow> int set \<Rightarrow> phone \<Rightarrow> phone \<times> int list" where
  "mb_hear_speakers rt [] known s = (s, [])"
| "mb_hear_speakers rt (p # ps) known s =
     (case fid_of s p of
        None \<Rightarrow> mb_hear_speakers rt ps known s
      | Some fid \<Rightarrow>
          (let md = parse_metadata rt (lp_metadata p);
               s1 = (if fid \<in> known then s
                     else on_store (so_add_participant (mb_participant fid md ''speaker'' False True (heard_name md p fid))) s)
           in case mb_hear_speakers rt ps (insert fid known) s1 of (s2, heard) \<Rightarrow> (s2, fid # heard)))"

definition mb_on_active_speakers :: "runtime \<Rightarrow> live_participant list \<Rightarrow> phone \<Rightarrow> phone" where
  "mb_on_active_speakers rt speakers s =
     (case mb_hear_speakers rt speakers (set (map pt_fid (so_participants (ph_store s)))) s of
        (s1, heard) \<Rightarrow> on_store (so_set_speaking (set heard)) (s1\<lparr>ph_speakers := heard\<rparr>))"

text \<open>The flag says that the room is over: the callback of \<^verbatim>\<open>setOnRoomEnded\<close> runs.\<close>

definition mb_on_disconnected :: "nat \<Rightarrow> disconnect_reason \<Rightarrow> phone \<Rightarrow> phone \<times> bool" where
  "mb_on_disconnected i reason s =
     (let s1 = on_store (\<lambda>t. t\<lparr>so_is_connected := False\<rparr>) s
      in if reason \<noteq> Other_reason
         then (on_store so_leave (stop_pending_invite_poll (stop_heartbeat (s1\<lparr>ph_room_ref := None\<rparr>))), True)
         else (s1, False))"

text \<open>Metadata that does not parse is ignored here.\<close>

definition mb_on_metadata_changed :: "runtime \<Rightarrow> live_participant \<Rightarrow> phone \<Rightarrow> phone" where
  "mb_on_metadata_changed rt p s =
     (case fid_of s p of
        None \<Rightarrow> s
      | Some fid \<Rightarrow>
          (let isBad = (case some_text (lp_metadata p) of None \<Rightarrow> False | Some raw \<Rightarrow> rt_metadata rt raw = None);
               md = parse_metadata rt (lp_metadata p)
           in if isBad then s
              else if \<not> list_ex (\<lambda>q. pt_fid q = fid) (so_participants (ph_store s))
              then on_store (so_add_participant (mb_participant fid md ''listener'' True False (heard_name md p fid))) s
              else case some_text (md_role md) of
                     Some role \<Rightarrow> on_store (so_update_participant fid (\<lambda>q. q\<lparr>pt_role := role\<rparr>)) s
                   | None \<Rightarrow> s))"

definition mb_on_permissions_changed :: "bool \<Rightarrow> bool \<Rightarrow> bool \<Rightarrow> phone \<Rightarrow> phone \<times> space_call list" where
  "mb_on_permissions_changed isLocal couldPublish canPublish s =
     (if \<not> isLocal then (s, [])
      else case my_fid s of
        None \<Rightarrow> (s, [])
      | Some fid \<Rightarrow>
          if canPublish \<and> \<not> couldPublish
          then (on_store (\<lambda>t. so_update_participant fid (\<lambda>q. q\<lparr>pt_role := ''speaker'', pt_is_muted := False\<rparr>)
                  (t\<lparr>so_my_role := Some ''speaker''\<rparr>)) s, [K_promoted (ph_active s)])
          else if \<not> canPublish \<and> couldPublish
          then (on_store (\<lambda>t. so_update_participant fid (\<lambda>q. q\<lparr>pt_role := ''listener'', pt_is_muted := True\<rparr>)
                  (t\<lparr>so_my_role := Some ''listener''\<rparr>)) s, [K_demoted (ph_active s)])
          else (s, []))"

definition mb_sender_role :: "live_participant option \<Rightarrow> phone \<Rightarrow> jstr option" where
  "mb_sender_role participant s =
     (case participant of
        None \<Rightarrow> None
      | Some p \<Rightarrow> (case fid_of s p of
                     None \<Rightarrow> None
                   | Some fid \<Rightarrow> map_option pt_role (find (\<lambda>q. pt_fid q = fid) (so_participants (ph_store s)))))"

definition mb_on_data_received ::
  "runtime \<Rightarrow> jstr \<Rightarrow> live_participant option \<Rightarrow> jstr option \<Rightarrow> phone \<Rightarrow> phone \<times> space_call list" where
  "mb_on_data_received rt payload participant topic s =
     (case rt_data rt payload of
        None \<Rightarrow> (s, [])
      | Some d \<Rightarrow>
          if topic = Some ''space_chat'' \<and> dp_type d = Some ''new_reply'' then (on_store so_bump_chat s, [])
          else if topic = Some ''space_state'' \<and> dp_type d = Some ''recording_state'' \<and> dp_recording d \<noteq> None
          then (if participant = None \<or> mb_sender_role participant s \<in> {Some ''host'', Some ''co_host''}
                then (on_store (so_set_recording (the (dp_recording d))) s, [])
                else (s, case so_room (ph_store s) of
                           None \<Rightarrow> [] | Some r \<Rightarrow> if sr_is_farcaster_native r then [] else [K_refetch (sr_id r)]))
          else if topic = Some ''reactions'' \<and> dp_type d = Some ''reaction''
          then (case (some_text (dp_key d), participant) of
                  (Some key, Some p) \<Rightarrow>
                    (case fid_of s p of Some fid \<Rightarrow> mb_push_reaction key fid s | None \<Rightarrow> s, [])
                | _ \<Rightarrow> (s, []))
          else (s, []))"

fun mb_on_room_event :: "runtime \<Rightarrow> nat \<Rightarrow> room_event \<Rightarrow> phone \<Rightarrow> phone \<times> space_call list" where
  "mb_on_room_event rt i (Participant_connected p) s = (mb_on_participant_connected rt p s, [])"
| "mb_on_room_event rt i (Participant_disconnected p) s = (mb_on_participant_disconnected p s, [])"
| "mb_on_room_event rt i (Track_muted p) s = (mb_on_track True p s, [])"
| "mb_on_room_event rt i (Track_unmuted p) s = (mb_on_track False p s, [])"
| "mb_on_room_event rt i (Active_speakers_changed ps) s = (mb_on_active_speakers rt ps s, [])"
| "mb_on_room_event rt i (Disconnected reason) s = (fst (mb_on_disconnected i reason s), [])"
| "mb_on_room_event rt i Reconnecting s = (on_store (\<lambda>t. t\<lparr>so_is_connected := False\<rparr>) s, [])"
| "mb_on_room_event rt i Reconnected s = (on_store (\<lambda>t. t\<lparr>so_is_connected := True\<rparr>) s, [])"
| "mb_on_room_event rt i (Metadata_changed p) s = (mb_on_metadata_changed rt p s, [])"
| "mb_on_room_event rt i (Permissions_changed l could can) s = mb_on_permissions_changed l could can s"
| "mb_on_room_event rt i (Data_received payload p topic) s = mb_on_data_received rt payload p topic s"

definition refetch_done :: "bool option \<Rightarrow> phone \<Rightarrow> phone" where
  "refetch_done r s = (case r of None \<Rightarrow> s | Some b \<Rightarrow> on_store (so_set_recording b) s)"

definition setup_room_listeners :: "nat \<Rightarrow> phone \<Rightarrow> phone" where
  "setup_room_listeners i s =
     (if ph_room_ref s = Some i then s
      else on_store (\<lambda>t. t\<lparr>so_is_connected := True\<rparr>)
             (s\<lparr>ph_room_ref := Some i, ph_listening := i # ph_listening s\<rparr>))"

subsection \<open>The microphone\<close>

text \<open>LiveKit set the microphone of a room: \<open>None\<close> when the module had no active room.\<close>

definition mic_set :: "nat option \<Rightarrow> bool \<Rightarrow> phone \<Rightarrow> phone" where
  "mic_set room isEnabled s =
     (case room of
        None \<Rightarrow> s
      | Some i \<Rightarrow> s\<lparr>ph_mics := (if isEnabled then i # filter (\<lambda>j. j \<noteq> i) (ph_mics s) else filter (\<lambda>j. j \<noteq> i) (ph_mics s))\<rparr>)"

definition promoted_done :: "nat option \<Rightarrow> bool \<Rightarrow> phone \<Rightarrow> phone" where
  "promoted_done room ok s =
     (if ok then on_store (\<lambda>t. t\<lparr>so_is_muted := False\<rparr>) (mic_set room True s) else s)"

definition demoted_done :: "nat option \<Rightarrow> bool \<Rightarrow> phone \<Rightarrow> phone" where
  "demoted_done room ok s =
     (if ok then on_store (\<lambda>t. t\<lparr>so_is_muted := True\<rparr>) (mic_set room False s) else s)"

definition update_me :: "(session_participant \<Rightarrow> session_participant) \<Rightarrow> phone \<Rightarrow> phone" where
  "update_me f s = (case my_fid s of None \<Rightarrow> s | Some fid \<Rightarrow> on_store (so_update_participant fid f) s)"

text \<open>Without an active room \<^verbatim>\<open>toggleMicrophone\<close> returns \<^verbatim>\<open>false\<close> at once.\<close>

definition mb_toggle_mute :: "phone \<Rightarrow> space_call list" where
  "mb_toggle_mute s =
     (case ph_active s of None \<Rightarrow> [K_toggle None False] | Some i \<Rightarrow> [K_toggle (Some i) (i \<in> set (ph_mics s))])"

definition mb_toggle_mute_done :: "nat option \<Rightarrow> bool \<Rightarrow> bool \<Rightarrow> phone \<Rightarrow> phone" where
  "mb_toggle_mute_done room wasEnabled ok s =
     (if ok then update_me (\<lambda>p. p\<lparr>pt_is_muted := wasEnabled\<rparr>)
         (on_store (\<lambda>t. t\<lparr>so_is_muted := wasEnabled\<rparr>) (mic_set room (\<not> wasEnabled) s))
      else s)"

definition start_speaking :: "phone \<Rightarrow> space_call list" where
  "start_speaking s = [K_speak (ph_active s)]"

definition start_speaking_done :: "nat option \<Rightarrow> bool \<Rightarrow> phone \<Rightarrow> phone" where
  "start_speaking_done room ok s =
     (if ok then update_me (\<lambda>p. p\<lparr>pt_is_muted := False\<rparr>) (on_store (\<lambda>t. t\<lparr>so_is_muted := False\<rparr>) (mic_set room True s))
      else s)"

definition mb_send_reaction :: "jstr \<Rightarrow> space_call list" where
  "mb_send_reaction key = [K_react key]"

definition show_own_reaction :: "jstr \<Rightarrow> phone \<Rightarrow> phone" where
  "show_own_reaction key s = (case my_fid s of None \<Rightarrow> s | Some fid \<Rightarrow> mb_push_reaction key fid s)"

text \<open>After LiveKit's publish; the post to Farcaster may fail.\<close>

definition send_reaction_done :: "jstr \<Rightarrow> bool \<Rightarrow> phone \<Rightarrow> phone \<times> space_call list" where
  "send_reaction_done key ok s =
     (if \<not> ok then (s, [])
      else if native_id (so_room (ph_store s)) \<noteq> None then (s, [K_react_http key])
      else (show_own_reaction key s, []))"

subsection \<open>Connecting\<close>

definition mb_hydrate_remote :: "runtime \<Rightarrow> remote_participant \<Rightarrow> phone \<Rightarrow> phone" where
  "mb_hydrate_remote rt p s =
     (let q = live_participant.truncate p
      in case fid_of s q of
        None \<Rightarrow> s
      | Some fid \<Rightarrow>
          (let md = parse_metadata rt (lp_metadata q)
           in on_store (so_add_participant (mb_participant fid md (if rp_can_publish p then ''speaker'' else ''listener'')
                (\<not> rp_microphone_enabled p) False (heard_name md q fid))) s))"

definition mb_seed_local :: "phone \<Rightarrow> phone" where
  "mb_seed_local s =
     (case (ph_user s, my_fid s, so_my_role (ph_store s)) of
        (Some me, Some fid, Some role) \<Rightarrow>
          if role = [] then s
          else on_store (so_add_participant \<lparr>pt_fid = fid, pt_role = role,
                 pt_is_muted = (role \<notin> {''host'', ''co_host'', ''speaker''}), pt_is_speaking = False,
                 pt_hand_raised = False, pt_display_name = my_name me, pt_pfp_url = pu_pfp_url me\<rparr>) s
      | _ \<Rightarrow> s)"

text \<open>\<^verbatim>\<open>new Date(expiresAt).getTime()\<close> is the argument \<open>parse\<close>.\<close>

definition mb_cache_token ::
  "(jstr \<Rightarrow> int option) \<Rightarrow> jstr \<Rightarrow> jstr option \<Rightarrow> jstr option \<Rightarrow> phone \<Rightarrow> phone" where
  "mb_cache_token parse token expiresAt wsUrl s =
     (let rc = (ph_reconnect s)\<lparr>rc_token := token, rc_token_expires_at :=
            (case some_text expiresAt of None \<Rightarrow> 0 | Some e \<Rightarrow> (case parse e of Some t \<Rightarrow> t | None \<Rightarrow> 0))\<rparr>
      in s\<lparr>ph_reconnect := (case some_text wsUrl of None \<Rightarrow> rc | Some u \<Rightarrow> rc\<lparr>rc_ws_url := u\<rparr>)\<rparr>)"

text \<open>\<^verbatim>\<open>connectToRoom\<close> has ended: a new room is the active one.\<close>

definition room_connected :: "jstr \<Rightarrow> phone \<Rightarrow> phone" where
  "room_connected wsUrl s =
     s\<lparr>ph_active := Some (ph_next s), ph_active_ws := Some wsUrl, ph_connected := ph_next s # ph_connected s,
       ph_next := ph_next s + 1\<rparr>"

definition finish_join :: "(jstr \<Rightarrow> int option) \<Rightarrow> join_ctx \<Rightarrow> phone \<Rightarrow> phone \<times> space_call list" where
  "finish_join parse ctx s =
     (case ctx of
        Join_native room farcasterRoomId token wsUrl \<Rightarrow>
          (case start_pending_invite_poll farcasterRoomId
                  (start_heartbeat farcasterRoomId (mb_cache_token parse token None (Some wsUrl) s)) of
             (s1, cs) \<Rightarrow> (s1, cs @ [K_hydrate]))
      | Join_juke token expiresAt wsUrl \<Rightarrow> (mb_cache_token parse token expiresAt (Some wsUrl) s, []))"

definition ctx_ws :: "join_ctx \<Rightarrow> jstr" where
  "ctx_ws ctx = (case ctx of Join_native r f t w \<Rightarrow> w | Join_juke t e w \<Rightarrow> w)"

definition mb_connect_done ::
  "(jstr \<Rightarrow> int option) \<Rightarrow> runtime \<Rightarrow> join_ctx \<Rightarrow> remote_participant list option \<Rightarrow> phone \<Rightarrow> phone \<times> space_call list" where
  "mb_connect_done parse rt ctx r s =
     (case r of
        None \<Rightarrow> (s, [])
      | Some remotes \<Rightarrow>
          (let i = ph_next s;
               s1 = setup_room_listeners i (room_connected (ctx_ws ctx) s);
               s2 = mb_seed_local (foldl (\<lambda>u p. mb_hydrate_remote rt p u) s1 remotes)
           in if so_my_role (ph_store s2) \<in> {Some ''host'', Some ''co_host'', Some ''speaker''}
              then (s2, [K_join_mic ctx i])
              else finish_join parse ctx s2))"

definition join_mic_done ::
  "(jstr \<Rightarrow> int option) \<Rightarrow> join_ctx \<Rightarrow> nat \<Rightarrow> bool \<Rightarrow> phone \<Rightarrow> phone \<times> space_call list" where
  "join_mic_done parse ctx i ok s =
     (if ok then finish_join parse ctx (on_store (\<lambda>t. t\<lparr>so_is_muted := False\<rparr>) (mic_set (Some i) True s))
      else (s, []))"

subsection \<open>Joining\<close>

definition mb_join_room :: "jstr \<Rightarrow> phone \<Rightarrow> space_call list" where
  "mb_join_room roomId s = [K_get_room roomId (ph_user s)]"

text \<open>\<open>user\<close> is the user of the closure; a call that is not made in the result is a throw.\<close>

definition get_room_done :: "jstr \<Rightarrow> phone_user option \<Rightarrow> space_room option \<Rightarrow> space_call list" where
  "get_room_done roomId user r =
     (case r of
        None \<Rightarrow> []
      | Some room \<Rightarrow>
          if native_id (Some room) \<noteq> None
          then (case user of None \<Rightarrow> [] | Some u \<Rightarrow> if pu_fid u = 0 then [] else [K_gate room u])
          else [K_juke_join roomId])"

definition gate_done :: "space_room \<Rightarrow> phone_user \<Rightarrow> bool option \<Rightarrow> space_call list" where
  "gate_done room user r = (if r = Some True then [K_bearer room user] else [])"

definition bearer_done :: "space_room \<Rightarrow> phone_user \<Rightarrow> bool \<Rightarrow> space_call list" where
  "bearer_done room user ok = (if ok then [K_native_join room user] else [])"

text \<open>The answer of the native join: a token and the URL of Farcaster's LiveKit.\<close>

definition native_join_done ::
  "space_room \<Rightarrow> phone_user \<Rightarrow> (jstr \<times> jstr) option \<Rightarrow> phone \<Rightarrow> phone \<times> space_call list" where
  "native_join_done room user r s =
     (case r of
        None \<Rightarrow> (s, [])
      | Some (token, wsUrl) \<Rightarrow>
          (let fid = pu_fid user; role = (if sr_host_fid room = fid then ''host'' else ''listener'');
               me = \<lparr>pt_fid = fid, pt_role = role, pt_is_muted = (role = ''listener''), pt_is_speaking = False,
                     pt_hand_raised = False, pt_display_name = my_name user, pt_pfp_url = pu_pfp_url user\<rparr>
           in (on_store (so_join room [me] role) s,
               [K_connect (Join_native room (the (native_id (Some room))) token wsUrl)])))"

record mb_join_response =
  jr_room :: space_room
  jr_participants :: "session_participant list"
  jr_role :: jstr
  jr_token :: jstr
  jr_expires_at :: "jstr option"
  jr_ws_url :: jstr

definition juke_join_done :: "mb_join_response option \<Rightarrow> phone \<Rightarrow> phone \<times> space_call list" where
  "juke_join_done r s =
     (case r of
        None \<Rightarrow> (s, [])
      | Some x \<Rightarrow> (on_store (so_join (jr_room x) (jr_participants x) (jr_role x)) s,
                   [K_connect (Join_juke (jr_token x) (jr_expires_at x) (jr_ws_url x))]))"

text \<open>The overlay of names, pictures and roles of a native room.\<close>

definition mb_native_role :: "jstr \<Rightarrow> jstr" where
  "mb_native_role r =
     (if r = ''host'' then ''host'' else if r = ''cohost'' then ''co_host''
      else if r = ''speaker'' then ''speaker'' else ''listener'')"

definition overlay_one :: "phone_runtime \<Rightarrow> int set \<Rightarrow> native_participant \<Rightarrow> phone \<Rightarrow> phone" where
  "overlay_one rt seen p s =
     (case np_fid p of
        None \<Rightarrow> s
      | Some fid \<Rightarrow>
          if fid = 0 then s
          else (let role = mb_native_role (np_role p);
                    name = or_else (np_display_name p) (or_else (np_username p) (default_name fid));
                    isSafe = is_safe_image_url rt (np_pfp_url p)
                in if fid \<in> seen
                   then on_store (so_update_participant fid (\<lambda>q. q\<lparr>pt_role := role, pt_display_name := name,
                          pt_pfp_url := (if isSafe then np_pfp_url p else pt_pfp_url q), pt_hand_raised := np_hand_raised p\<rparr>)) s
                   else on_store (so_add_participant \<lparr>pt_fid = fid, pt_role = role, pt_is_muted = (role = ''listener''),
                          pt_is_speaking = False, pt_hand_raised = np_hand_raised p, pt_display_name = name,
                          pt_pfp_url = (if isSafe then np_pfp_url p else None)\<rparr>) s))"

definition hydrate_done :: "phone_runtime \<Rightarrow> native_participant list option \<Rightarrow> phone \<Rightarrow> phone" where
  "hydrate_done rt r s =
     (case r of
        None \<Rightarrow> s
      | Some upstream \<Rightarrow>
          (let seen = set (map pt_fid (so_participants (ph_store s)))
           in foldl (\<lambda>u p. overlay_one rt seen p u) s upstream))"

subsection \<open>Leaving\<close>

text \<open>How \<^verbatim>\<open>disconnectFromRoom\<close> ends: whole, throwing at the room or throwing at the audio session.\<close>

datatype drop_result = Dropped | Threw_at_room | Threw_at_audio

definition room_gone :: "nat option \<Rightarrow> phone \<Rightarrow> phone" where
  "room_gone room s =
     (case room of
        None \<Rightarrow> s
      | Some i \<Rightarrow> s\<lparr>ph_connected := filter (\<lambda>j. j \<noteq> i) (ph_connected s), ph_mics := filter (\<lambda>j. j \<noteq> i) (ph_mics s)\<rparr>)"

definition mb_disconnect_from_room_done :: "nat option \<Rightarrow> drop_result \<Rightarrow> phone \<Rightarrow> phone" where
  "mb_disconnect_from_room_done room r s =
     (if r = Threw_at_room then s
      else (room_gone room s)\<lparr>ph_active := (if room = None then ph_active s else None), ph_active_ws := None\<rparr>)"

definition mb_disconnect :: "phone \<Rightarrow> phone \<times> space_call list" where
  "mb_disconnect s = (stop_pending_invite_poll (stop_heartbeat s), [K_disconnect (ph_active s)])"

definition mb_disconnect_done :: "nat option \<Rightarrow> drop_result \<Rightarrow> phone \<Rightarrow> phone" where
  "mb_disconnect_done room r s =
     on_store so_leave ((mb_disconnect_from_room_done room r s)\<lparr>ph_room_ref := None\<rparr>)"

definition mb_leave_room :: "jstr \<Rightarrow> phone \<Rightarrow> phone \<times> space_call list" where
  "mb_leave_room roomId s =
     (if native_id (so_room (ph_store s)) \<noteq> None then mb_disconnect s else (s, [K_leave roomId]))"

definition leave_done :: "bool \<Rightarrow> phone \<Rightarrow> phone \<times> space_call list" where
  "leave_done ok s = (if ok then mb_disconnect s else (s, []))"

subsection \<open>The stage\<close>

text \<open>
  The actions that go to the server: in a native room with a bearer that is signed first. A raised hand is
  negated from the store as rendered.
\<close>

definition needs_native :: "stage_action \<Rightarrow> bool" where
  "needs_native a = (case a of Act_accept \<Rightarrow> True | Act_decline \<Rightarrow> True | Act_raise b \<Rightarrow> True | _ \<Rightarrow> False)"

definition stage :: "stage_action \<Rightarrow> phone \<Rightarrow> space_call list" where
  "stage a s =
     (case so_room (ph_store s) of
        None \<Rightarrow> []
      | Some room \<Rightarrow>
          if native_id (Some room) \<noteq> None
          then (case my_fid s of None \<Rightarrow> [] | Some fid \<Rightarrow> [K_sign a room fid])
          else if needs_native a then [] else [K_post a room])"

definition toggle_raise_hand :: "phone \<Rightarrow> space_call list" where
  "toggle_raise_hand s = stage (Act_raise (\<not> so_is_hand_raised (ph_store s))) s"

definition sign_done :: "stage_action \<Rightarrow> space_room \<Rightarrow> bool \<Rightarrow> space_call list" where
  "sign_done a room ok = (if ok then [K_post a room] else [])"

definition post_done :: "stage_action \<Rightarrow> bool \<Rightarrow> phone \<Rightarrow> phone \<times> space_call list" where
  "post_done a ok s =
     (if \<not> ok then (s, [])
      else case a of
        Act_accept \<Rightarrow> (s\<lparr>ph_invite := None\<rparr>, [])
      | Act_decline \<Rightarrow> (s\<lparr>ph_invite := None\<rparr>, [])
      | Act_raise b \<Rightarrow> (on_store (\<lambda>t. t\<lparr>so_is_hand_raised := b\<rparr>) s, [])
      | Act_promote f \<Rightarrow> (s, [])
      | Act_demote f \<Rightarrow> (s, [])
      | Act_end \<Rightarrow> mb_disconnect s)"

text \<open>The screen shows a space that is in the store already, and the screen goes.\<close>

definition attach_listeners :: "phone \<Rightarrow> phone \<times> space_call list" where
  "attach_listeners s =
     (case ph_active s of
        None \<Rightarrow> (s, [])
      | Some i \<Rightarrow>
          if ph_room_ref s \<noteq> None then (s, [])
          else (let s1 = setup_room_listeners i s
                in case so_room (ph_store s1) of
                     None \<Rightarrow> (s1, [])
                   | Some room \<Rightarrow>
                       if \<not> sr_is_farcaster_native room then (s1, [K_attach (sr_id room)])
                       else case native_id (Some room) of
                              None \<Rightarrow> (s1, []) | Some f \<Rightarrow> (start_heartbeat f s1, [])))"

definition attach_done :: "(jstr \<Rightarrow> int option) \<Rightarrow> (jstr \<times> jstr option) option \<Rightarrow> phone \<Rightarrow> phone" where
  "attach_done parse r s =
     (case r of None \<Rightarrow> s | Some (token, expiresAt) \<Rightarrow> mb_cache_token parse token expiresAt (ph_active_ws s) s)"

definition space_unmounted :: "phone \<Rightarrow> phone" where
  "space_unmounted s = stop_pending_invite_poll (stop_heartbeat s)"

text \<open>The refs are the screen's own: a new one starts with fresh ones over the shared store and module.\<close>

definition fresh_reconnect :: reconnect_state where
  "fresh_reconnect = \<lparr>rc_attempts = 0, rc_is_reconnecting = False, rc_token = [], rc_token_expires_at = 0,
     rc_ws_url = []\<rparr>"

definition space_mounted :: "phone \<Rightarrow> phone" where
  "space_mounted s =
     s\<lparr>ph_reaction_seq := 0, ph_reactions := [], ph_reaction_updates := [], ph_invite := None, ph_invite_room := None, ph_invite_poll := None,
       ph_speakers := [], ph_heartbeat := None, ph_room_ref := None, ph_reconnect := fresh_reconnect\<rparr>"

subsection \<open>Reconnecting\<close>

definition MB_RECONNECT_MAX_ATTEMPTS :: nat where "MB_RECONNECT_MAX_ATTEMPTS = 5"

definition MB_RECONNECT_BASE_DELAY_MS :: int where "MB_RECONNECT_BASE_DELAY_MS = 1000"

definition TOKEN_REFRESH_BUFFER_SEC :: int where "TOKEN_REFRESH_BUFFER_SEC = 300"

definition mb_is_token_expiring_soon :: "int \<Rightarrow> phone \<Rightarrow> bool" where
  "mb_is_token_expiring_soon now s =
     (rc_token_expires_at (ph_reconnect s) - now < 1000 * TOKEN_REFRESH_BUFFER_SEC)"

definition set_reconnect :: "(reconnect_state \<Rightarrow> reconnect_state) \<Rightarrow> phone \<Rightarrow> phone" where
  "set_reconnect f s = s\<lparr>ph_reconnect := f (ph_reconnect s)\<rparr>"

definition reconnect_over :: "phone \<Rightarrow> phone" where
  "reconnect_over s = set_reconnect (\<lambda>r. r\<lparr>rc_is_reconnecting := False\<rparr>) s"

text \<open>The head of the loop: \<open>rid\<close> and \<open>fid\<close> are those of the closure's room and user.\<close>

definition reconnect_head :: "jstr \<Rightarrow> int option \<Rightarrow> phone \<Rightarrow> phone \<times> space_call list" where
  "reconnect_head rid fid s =
     (if rc_attempts (ph_reconnect s) < MB_RECONNECT_MAX_ATTEMPTS
      then (s, [K_reconnect rid fid
                  (At_sleep (min (MB_RECONNECT_BASE_DELAY_MS * 2 ^ rc_attempts (ph_reconnect s)) 30000))])
      else (on_store so_leave (reconnect_over s), []))"

definition mb_reconnect :: "phone \<Rightarrow> phone \<times> space_call list" where
  "mb_reconnect s =
     (case so_room (ph_store s) of
        None \<Rightarrow> (s, [])
      | Some room \<Rightarrow>
          if rc_is_reconnecting (ph_reconnect s) \<or> sr_is_farcaster_native room then (s, [])
          else reconnect_head (sr_id room) (map_option pu_fid (ph_user s))
                 (on_store (\<lambda>t. t\<lparr>so_is_connected := False\<rparr>)
                   (set_reconnect (\<lambda>r. r\<lparr>rc_is_reconnecting := True, rc_attempts := 0\<rparr>) s)))"

definition attempt_failed :: "jstr \<Rightarrow> int option \<Rightarrow> phone \<Rightarrow> phone \<times> space_call list" where
  "attempt_failed rid fid s =
     reconnect_head rid fid (set_reconnect (\<lambda>r. r\<lparr>rc_attempts := rc_attempts r + 1\<rparr>) s)"

definition slept :: "jstr \<Rightarrow> int option \<Rightarrow> int \<Rightarrow> phone \<Rightarrow> phone \<times> space_call list" where
  "slept rid fid now s =
     (s, [K_reconnect rid fid
            (if mb_is_token_expiring_soon now s \<or> rc_token (ph_reconnect s) = [] then At_refresh else At_check)])"

definition token_refreshed ::
  "(jstr \<Rightarrow> int option) \<Rightarrow> jstr \<Rightarrow> int option \<Rightarrow> (jstr \<times> jstr option) option \<Rightarrow> phone \<Rightarrow> phone \<times> space_call list" where
  "token_refreshed parse rid fid r s =
     (case r of
        None \<Rightarrow> attempt_failed rid fid s
      | Some (token, expiresAt) \<Rightarrow> (mb_cache_token parse token expiresAt None s, [K_reconnect rid fid At_check]))"

definition room_checked :: "jstr \<Rightarrow> int option \<Rightarrow> phone_detail option \<Rightarrow> phone \<Rightarrow> phone \<times> space_call list" where
  "room_checked rid fid r s =
     (case r of
        None \<Rightarrow> attempt_failed rid fid s
      | Some d \<Rightarrow>
          if sr_status (pd_room d) \<noteq> ''active'' then (reconnect_over (on_store so_leave s), [])
          else (s, [K_reconnect rid fid (At_drop d (ph_active s))]))"

definition old_room_dropped ::
  "jstr \<Rightarrow> jstr \<Rightarrow> int option \<Rightarrow> phone_detail \<Rightarrow> nat option \<Rightarrow> drop_result \<Rightarrow> phone \<Rightarrow> phone \<times> space_call list" where
  "old_room_dropped configUrl rid fid d room r s =
     (let s1 = mb_disconnect_from_room_done room r s
      in if r \<noteq> Dropped then attempt_failed rid fid s1 else (s1, [K_reconnect rid fid (At_connect d (or_else (Some (rc_ws_url (ph_reconnect s1))) configUrl))]))"

text \<open>
  The connect uses the URL and token of the ref, or the configured URL. The restored state sets the room
  and its participants without more.
\<close>

definition reconnected ::
  "jstr \<Rightarrow> int option \<Rightarrow> phone_detail \<Rightarrow> jstr \<Rightarrow> bool \<Rightarrow> phone \<Rightarrow> phone \<times> space_call list" where
  "reconnected rid fid d wsUrl ok s =
     (if \<not> ok then attempt_failed rid fid s
      else (let s1 = on_store (\<lambda>t. t\<lparr>so_room := Some (pd_room d), so_participants := pd_participants d\<rparr>)
                       (room_connected wsUrl s)
            in case find (\<lambda>p. Some (pt_fid p) = fid) (pd_participants d) of
                 None \<Rightarrow> (s1, [K_reconnect rid fid (At_kicked (ph_active s1))])
               | Some me \<Rightarrow>
                   (on_store (\<lambda>t. t\<lparr>so_my_role := Some (pt_role me), so_is_connected := True\<rparr>)
                      (set_reconnect (\<lambda>r. r\<lparr>rc_attempts := 0, rc_is_reconnecting := False\<rparr>) s1), [])))"

definition kicked_dropped :: "jstr \<Rightarrow> int option \<Rightarrow> nat option \<Rightarrow> drop_result \<Rightarrow> phone \<Rightarrow> phone \<times> space_call list" where
  "kicked_dropped rid fid room r s =
     (let s1 = mb_disconnect_from_room_done room r s
      in if r \<noteq> Dropped then attempt_failed rid fid s1 else (reconnect_over (on_store so_leave s1), []))"

text \<open>What the last call answered; a \<open>sleep\<close> ends at a time.\<close>

datatype reconnect_answer =
  Ans_time int
  | Ans_token "(jstr \<times> jstr option) option"
  | Ans_detail "phone_detail option"
  | Ans_drop drop_result
  | Ans_connect bool

fun reconnect_done ::
  "(jstr \<Rightarrow> int option) \<Rightarrow> jstr \<Rightarrow> jstr \<Rightarrow> int option \<Rightarrow> reconnect_at \<Rightarrow> reconnect_answer \<Rightarrow> phone \<Rightarrow>
   (phone \<times> space_call list) option" where
  "reconnect_done parse url rid fid (At_sleep d) (Ans_time now) s = Some (slept rid fid now s)"
| "reconnect_done parse url rid fid At_refresh (Ans_token r) s = Some (token_refreshed parse rid fid r s)"
| "reconnect_done parse url rid fid At_check (Ans_detail r) s = Some (room_checked rid fid r s)"
| "reconnect_done parse url rid fid (At_drop d room) (Ans_drop r) s = Some (old_room_dropped url rid fid d room r s)"
| "reconnect_done parse url rid fid (At_connect d wsUrl) (Ans_connect ok) s = Some (reconnected rid fid d wsUrl ok s)"
| "reconnect_done parse url rid fid (At_kicked room) (Ans_drop r) s = Some (kicked_dropped rid fid room r s)"
| "reconnect_done parse url rid fid k a s = None"

text \<open>The app comes to the foreground; an interruption of the audio ends; the token's minute timer.\<close>

definition space_foreground :: "phone \<Rightarrow> phone \<times> space_call list" where
  "space_foreground s =
     (if so_room (ph_store s) = None then (s, [])
      else case ph_active s of
             Some i \<Rightarrow> if i \<in> set (ph_connected s) then (s, []) else mb_reconnect s
           | None \<Rightarrow> mb_reconnect s)"

definition audio_interruption :: "bool \<Rightarrow> bool \<Rightarrow> phone \<Rightarrow> phone \<times> space_call list" where
  "audio_interruption hasEnded shouldResume s = (if hasEnded \<and> shouldResume then mb_reconnect s else (s, []))"

definition check_token :: "int \<Rightarrow> phone \<Rightarrow> space_call list" where
  "check_token now s =
     (case so_room (ph_store s) of
        None \<Rightarrow> []
      | Some room \<Rightarrow>
          if sr_is_farcaster_native room \<or> \<not> mb_is_token_expiring_soon now s then [] else [K_top_up (sr_id room)])"

definition top_up_done :: "(jstr \<Rightarrow> int option) \<Rightarrow> (jstr \<times> jstr option) option \<Rightarrow> phone \<Rightarrow> phone" where
  "top_up_done parse r s =
     (case r of None \<Rightarrow> s | Some (token, expiresAt) \<Rightarrow> mb_cache_token parse token expiresAt None s)"

text \<open>The bar the app shows over its other screens, in \<^verbatim>\<open>app/_layout.tsx\<close>.\<close>

definition mini_toggle_mute :: "phone \<Rightarrow> space_call list" where
  "mini_toggle_mute s =
     (case ph_active s of None \<Rightarrow> [K_mini_toggle None False] | Some i \<Rightarrow> [K_mini_toggle (Some i) (i \<in> set (ph_mics s))])"

definition mini_toggle_done :: "nat option \<Rightarrow> bool \<Rightarrow> bool \<Rightarrow> phone \<Rightarrow> phone" where
  "mini_toggle_done room wasEnabled ok s =
     (if ok then on_store (\<lambda>t. t\<lparr>so_is_muted := wasEnabled\<rparr>) (mic_set room (\<not> wasEnabled) s) else s)"

definition mini_leave :: "phone \<Rightarrow> space_call list" where
  "mini_leave s = (if so_room (ph_store s) = None then [] else [K_mini_leave])"

definition mini_leave_done :: "phone \<Rightarrow> space_call list" where
  "mini_leave_done s = [K_mini_drop (ph_active s)]"

definition mini_dropped :: "nat option \<Rightarrow> drop_result \<Rightarrow> phone \<Rightarrow> phone" where
  "mini_dropped room r s =
     (let s1 = mb_disconnect_from_room_done room r s in if r = Dropped then on_store so_leave s1 else s1)"

subsection \<open>The space as a system\<close>

record space_env =
  ev_parse :: "jstr \<Rightarrow> int option"
  ev_runtime :: phone_runtime
  ev_url :: jstr

datatype call_answer =
  An_room "space_room option"
  | An_gate "bool option"
  | An_ok bool
  | An_native_join "(jstr \<times> jstr) option"
  | An_juke_join "mb_join_response option"
  | An_remotes "remote_participant list option"
  | An_overlay "native_participant list option"
  | An_tick "invited_participant list option"
  | An_drop drop_result
  | An_recording "bool option"
  | An_token "(jstr \<times> jstr option) option"
  | An_reconnect reconnect_answer

abbreviation ev_rt :: "space_env \<Rightarrow> runtime" where
  "ev_rt env \<equiv> runtime.truncate (ev_runtime env)"

definition space_call_done :: "space_env \<Rightarrow> space_call \<Rightarrow> call_answer \<Rightarrow> phone \<Rightarrow> (phone \<times> space_call list) option" where
  "space_call_done env c answer s =
     (case c of
        K_get_room rid user \<Rightarrow> (case answer of An_room r \<Rightarrow> Some (s, get_room_done rid user r) | _ \<Rightarrow> None)
      | K_gate room user \<Rightarrow> (case answer of An_gate r \<Rightarrow> Some (s, gate_done room user r) | _ \<Rightarrow> None)
      | K_bearer room user \<Rightarrow> (case answer of An_ok ok \<Rightarrow> Some (s, bearer_done room user ok) | _ \<Rightarrow> None)
      | K_native_join room user \<Rightarrow> (case answer of An_native_join r \<Rightarrow> Some (native_join_done room user r s) | _ \<Rightarrow> None)
      | K_juke_join rid \<Rightarrow> (case answer of An_juke_join r \<Rightarrow> Some (juke_join_done r s) | _ \<Rightarrow> None)
      | K_connect ctx \<Rightarrow> (case answer of An_remotes r \<Rightarrow> Some (mb_connect_done (ev_parse env) (ev_rt env) ctx r s) | _ \<Rightarrow> None)
      | K_join_mic ctx i \<Rightarrow> (case answer of An_ok ok \<Rightarrow> Some (join_mic_done (ev_parse env) ctx i ok s) | _ \<Rightarrow> None)
      | K_hydrate \<Rightarrow> (case answer of An_overlay r \<Rightarrow> Some (hydrate_done (ev_runtime env) r s, []) | _ \<Rightarrow> None)
      | K_tick f fid \<Rightarrow> (case answer of An_tick r \<Rightarrow> Some (invite_tick_done f fid r s, []) | _ \<Rightarrow> None)
      | K_sign a room fid \<Rightarrow> (case answer of An_ok ok \<Rightarrow> Some (s, sign_done a room ok) | _ \<Rightarrow> None)
      | K_post a room \<Rightarrow> (case answer of An_ok ok \<Rightarrow> Some (post_done a ok s) | _ \<Rightarrow> None)
      | K_leave rid \<Rightarrow> (case answer of An_ok ok \<Rightarrow> Some (leave_done ok s) | _ \<Rightarrow> None)
      | K_disconnect room \<Rightarrow> (case answer of An_drop r \<Rightarrow> Some (mb_disconnect_done room r s, []) | _ \<Rightarrow> None)
      | K_toggle room was \<Rightarrow> (case answer of An_ok ok \<Rightarrow> Some (mb_toggle_mute_done room was ok s, []) | _ \<Rightarrow> None)
      | K_promoted room \<Rightarrow> (case answer of An_ok ok \<Rightarrow> Some (promoted_done room ok s, []) | _ \<Rightarrow> None)
      | K_demoted room \<Rightarrow> (case answer of An_ok ok \<Rightarrow> Some (demoted_done room ok s, []) | _ \<Rightarrow> None)
      | K_speak room \<Rightarrow> (case answer of An_ok ok \<Rightarrow> Some (start_speaking_done room ok s, []) | _ \<Rightarrow> None)
      | K_react key \<Rightarrow> (case answer of An_ok ok \<Rightarrow> Some (send_reaction_done key ok s) | _ \<Rightarrow> None)
      | K_react_http key \<Rightarrow> (case answer of An_ok ok \<Rightarrow> Some (show_own_reaction key s, []) | _ \<Rightarrow> None)
      | K_refetch rid \<Rightarrow> (case answer of An_recording r \<Rightarrow> Some (refetch_done r s, []) | _ \<Rightarrow> None)
      | K_attach rid \<Rightarrow> (case answer of An_token r \<Rightarrow> Some (attach_done (ev_parse env) r s, []) | _ \<Rightarrow> None)
      | K_top_up rid \<Rightarrow> (case answer of An_token r \<Rightarrow> Some (top_up_done (ev_parse env) r s, []) | _ \<Rightarrow> None)
      | K_reconnect rid fid k \<Rightarrow> (case answer of An_reconnect a \<Rightarrow> reconnect_done (ev_parse env) (ev_url env) rid fid k a s | _ \<Rightarrow> None)
      | K_mini_toggle room was \<Rightarrow> (case answer of An_ok ok \<Rightarrow> Some (mini_toggle_done room was ok s, []) | _ \<Rightarrow> None)
      | K_mini_leave \<Rightarrow> (case answer of An_ok ok \<Rightarrow> Some (s, mini_leave_done s) | _ \<Rightarrow> None)
      | K_mini_drop room \<Rightarrow> (case answer of An_drop r \<Rightarrow> Some (mini_dropped room r s, []) | _ \<Rightarrow> None))"

text \<open>
  What the user and the device do, the events of the rooms that are listened to, and React running the
  oldest of the queued updates of the reactions.
\<close>

datatype space_input =
  In_join jstr
  | In_leave jstr
  | In_toggle_mute
  | In_react jstr
  | In_speak
  | In_raise_hand
  | In_stage stage_action
  | In_attach
  | In_unmount
  | In_foreground
  | In_interruption bool bool
  | In_token_timer int
  | In_invite_timer
  | In_mini_toggle
  | In_mini_leave
  | In_event nat room_event
  | In_user "phone_user option"
  | In_reaction_update

fun do_input :: "space_env \<Rightarrow> space_input \<Rightarrow> phone \<Rightarrow> phone \<times> space_call list" where
  "do_input env (In_join rid) s = (s, mb_join_room rid s)"
| "do_input env (In_leave rid) s = mb_leave_room rid s"
| "do_input env In_toggle_mute s = (s, mb_toggle_mute s)"
| "do_input env (In_react key) s = (s, mb_send_reaction key)"
| "do_input env In_speak s = (s, start_speaking s)"
| "do_input env In_raise_hand s = (s, toggle_raise_hand s)"
| "do_input env (In_stage a) s = (s, stage a s)"
| "do_input env In_attach s = attach_listeners s"
| "do_input env In_unmount s = (space_unmounted s, [])"
| "do_input env In_foreground s = space_foreground s"
| "do_input env (In_interruption ended resume) s = audio_interruption ended resume s"
| "do_input env (In_token_timer now) s = (s, check_token now s)"
| "do_input env In_invite_timer s = (s, invite_poll_fired s)"
| "do_input env In_mini_toggle s = (s, mini_toggle_mute s)"
| "do_input env In_mini_leave s = (s, mini_leave s)"
| "do_input env (In_event i ev) s =
     (case mb_on_room_event (ev_rt env) i ev s of
        (s1, cs) \<Rightarrow> (case ev of Disconnected r \<Rightarrow> room_gone (Some i) s1 | _ \<Rightarrow> s1, cs))"
| "do_input env (In_user u) s = (s\<lparr>ph_user := u\<rparr>, [])"
| "do_input env In_reaction_update s = (run_reaction_update s, [])"

record space_sys =
  sx_phone :: phone
  sx_calls :: "space_call list"

text \<open>The server lists a participant once.\<close>

definition fids_once :: "session_participant list \<Rightarrow> bool" where
  "fids_once ps \<longleftrightarrow> distinct (map pt_fid ps)"

fun answer_ok :: "call_answer \<Rightarrow> bool" where
  "answer_ok (An_juke_join (Some x)) \<longleftrightarrow> fids_once (jr_participants x)"
| "answer_ok (An_reconnect (Ans_detail (Some d))) \<longleftrightarrow> fids_once (pd_participants d)"
| "answer_ok a \<longleftrightarrow> True"

inductive space_step :: "space_env \<Rightarrow> space_sys \<Rightarrow> space_sys \<Rightarrow> bool" for env where
  sx_input: "(\<And>i ev. a = In_event i ev \<Longrightarrow> i \<in> set (ph_listening (sx_phone x))) \<Longrightarrow>
    do_input env a (sx_phone x) = (s, cs) \<Longrightarrow>
    space_step env x (x\<lparr>sx_phone := s, sx_calls := sx_calls x @ cs\<rparr>)"
| sx_answer: "c \<in> set (sx_calls x) \<Longrightarrow> answer_ok r \<Longrightarrow> space_call_done env c r (sx_phone x) = Some (s, cs) \<Longrightarrow>
    space_step env x (x\<lparr>sx_phone := s, sx_calls := remove1 c (sx_calls x) @ cs\<rparr>)"

inductive space_reachable :: "space_env \<Rightarrow> space_sys \<Rightarrow> bool" for env where
  sx_init: "fids_once (so_participants (ph_store s)) \<Longrightarrow>
    space_reachable env \<lparr>sx_phone = space_mounted s, sx_calls = []\<rparr>"
| sx_next: "space_reachable env x \<Longrightarrow> space_step env x y \<Longrightarrow> space_reachable env y"

subsection \<open>Permissions and the intent to join\<close>

text \<open>\<^verbatim>\<open>hooks/useSpacePermissions.ts\<close>, for a role or none.\<close>

record space_permissions =
  can_publish_audio :: bool
  can_self_mute :: bool
  can_raise_hand :: bool
  can_promote :: bool
  can_demote :: bool
  can_mute_others :: bool
  can_kick :: bool
  can_ban :: bool
  can_set_cohost :: bool
  can_end_room :: bool
  can_start_recording :: bool
  perm_is_host :: bool
  perm_is_cohost :: bool
  perm_is_speaker :: bool
  perm_is_listener :: bool

definition space_permissions_of :: "jstr option \<Rightarrow> space_permissions" where
  "space_permissions_of role =
     (let isHost = (role = Some ''host''); isCohost = (role = Some ''co_host''); isSpeaker = (role = Some ''speaker'');
          isListener = (role = Some ''listener'')
      in \<lparr>can_publish_audio = isHost \<or> isCohost \<or> isSpeaker, can_self_mute = isHost \<or> isCohost \<or> isSpeaker,
          can_raise_hand = isListener, can_promote = isHost \<or> isCohost, can_demote = isHost \<or> isCohost,
          can_mute_others = isHost \<or> isCohost, can_kick = isHost \<or> isCohost, can_ban = isHost \<or> isCohost,
          can_set_cohost = isHost, can_end_room = isHost \<or> isCohost, can_start_recording = isHost \<or> isCohost,
          perm_is_host = isHost, perm_is_cohost = isCohost, perm_is_speaker = isSpeaker, perm_is_listener = isListener\<rparr>)"

definition can_act_on_participant :: "jstr option \<Rightarrow> jstr \<Rightarrow> bool" where
  "can_act_on_participant myRole targetRole =
     (if myRole = None \<or> myRole = Some [] then False
      else if myRole = Some ''co_host'' \<and> targetRole = ''host'' then False
      else myRole = Some ''host'' \<or> myRole = Some ''co_host'')"

text \<open>\<^verbatim>\<open>utils/spaceJoinIntent.ts\<close>: the pending intent is a room and the time it expires.\<close>

definition SPACE_JOIN_INTENT_TTL_MS :: int where "SPACE_JOIN_INTENT_TTL_MS = 60 * 1000"

definition mark_space_join_intent :: "int \<Rightarrow> jstr \<Rightarrow> (jstr \<times> int) option" where
  "mark_space_join_intent now roomId = Some (roomId, now + SPACE_JOIN_INTENT_TTL_MS)"

definition consume_space_join_intent ::
  "int \<Rightarrow> jstr \<Rightarrow> (jstr \<times> int) option \<Rightarrow> bool \<times> (jstr \<times> int) option" where
  "consume_space_join_intent now roomId pending =
     (case pending of
        None \<Rightarrow> (False, pending)
      | Some (rid, expiresAt) \<Rightarrow> if rid \<noteq> roomId then (False, pending) else (now \<le> expiresAt, None))"

text \<open>One tap lets at most one visit skip the confirmation, of the tapped room and within the minute.\<close>

lemma intent_used_once:
  assumes "consume_space_join_intent now rid (mark_space_join_intent t r) = (b, p)"
  shows "(b \<longleftrightarrow> rid = r \<and> now \<le> t + 60000) \<and> (b \<longrightarrow> consume_space_join_intent now' rid' p = (False, None))"
  using assms by (auto simp: consume_space_join_intent_def mark_space_join_intent_def SPACE_JOIN_INTENT_TTL_MS_def split: if_splits)

text \<open>Only a host touches the host, and whoever may act on somebody may promote.\<close>

lemma acting_needs_rank:
  "can_act_on_participant r ''host'' \<longrightarrow> r = Some ''host''"
  "can_act_on_participant r t \<longrightarrow> can_promote (space_permissions_of r) \<and> can_kick (space_permissions_of r)"
  by (auto simp: can_act_on_participant_def space_permissions_of_def Let_def split: if_splits)

subsection \<open>What every step keeps\<close>

definition bubbles_ok :: "phone \<Rightarrow> bool" where
  "bubbles_ok s \<longleftrightarrow> length (ph_reactions s) \<le> 20 \<and> sorted (map rb_id (ph_reactions s)) \<and>
     (\<forall>r \<in> set (ph_reactions s). rb_id r \<le> ph_reaction_seq s)"

definition invite_ok :: "phone \<Rightarrow> bool" where
  "invite_ok s \<longleftrightarrow> ph_invite_poll s = ph_invite_room s \<and> (ph_invite s \<noteq> None \<longrightarrow> ph_invite_room s \<noteq> None)"

definition phone_ok :: "phone \<Rightarrow> bool" where
  "phone_ok s \<longleftrightarrow> fids_once (so_participants (ph_store s)) \<and> bubbles_ok s \<and> invite_ok s"

definition same_rc :: "phone \<Rightarrow> phone \<Rightarrow> bool" where
  "same_rc s t \<longleftrightarrow> rc_attempts (ph_reconnect t) = rc_attempts (ph_reconnect s) \<and>
     rc_is_reconnecting (ph_reconnect t) = rc_is_reconnecting (ph_reconnect s)"

definition fine :: "phone \<Rightarrow> phone \<Rightarrow> bool" where
  "fine s t \<longleftrightarrow> (phone_ok s \<longrightarrow> phone_ok t) \<and> same_rc s t"

named_theorems fine_intros

lemma fine_refl [fine_intros]: "fine s s"
  by (simp add: fine_def same_rc_def)

lemma fine_trans: "fine s t \<Longrightarrow> fine t u \<Longrightarrow> fine s u"
  by (simp add: fine_def same_rc_def)

definition roster_keeping :: "(space_store \<Rightarrow> space_store) \<Rightarrow> bool" where
  "roster_keeping f \<longleftrightarrow> (\<forall>t. fids_once (so_participants t) \<longrightarrow> fids_once (so_participants (f t)))"

lemma fine_on_store [fine_intros]: "roster_keeping f \<Longrightarrow> fine s (on_store f s)"
  by (simp add: fine_def same_rc_def phone_ok_def on_store_def roster_keeping_def bubbles_ok_def invite_ok_def)

lemma fine_frame:
  assumes "ph_store t = ph_store s" "ph_reactions t = ph_reactions s" "ph_reaction_seq t = ph_reaction_seq s"
    "ph_invite t = ph_invite s" "ph_invite_room t = ph_invite_room s" "ph_invite_poll t = ph_invite_poll s" "same_rc s t"
  shows "fine s t"
  using assms by (simp add: fine_def phone_ok_def bubbles_ok_def invite_ok_def)

named_theorems keeping

lemma roster_keeping_add [keeping]: "roster_keeping (so_add_participant p)"
  by (auto simp: roster_keeping_def so_add_participant_def fids_once_def distinct_map intro: inj_on_subset)

lemma roster_keeping_remove [keeping]: "roster_keeping (so_remove_participant fid)"
  by (auto simp: roster_keeping_def so_remove_participant_def fids_once_def distinct_map intro: inj_on_subset)

lemma roster_keeping_update [keeping]:
  "(\<And>p. pt_fid (f p) = pt_fid p) \<Longrightarrow> roster_keeping (so_update_participant fid f)"
proof -
  assume f: "\<And>p. pt_fid (f p) = pt_fid p"
  have "pt_fid \<circ> (\<lambda>p. if pt_fid p = fid then f p else p) = pt_fid" by (rule ext) (simp add: f)
  then show ?thesis by (simp add: roster_keeping_def so_update_participant_def fids_once_def)
qed

lemma roster_keeping_speaking [keeping]: "roster_keeping (so_set_speaking F)"
proof -
  have "map pt_fid (so_participants (so_set_speaking F t)) = map pt_fid (so_participants t)" for t
    unfolding so_set_speaking_def by (simp add: comp_def if_distrib cong: if_cong)
  then show ?thesis by (simp add: roster_keeping_def fids_once_def)
qed

lemma roster_keeping_flags [keeping]:
  "roster_keeping (so_set_recording b)" "roster_keeping so_bump_chat" "roster_keeping so_leave"
  "roster_keeping (\<lambda>t. t\<lparr>so_is_connected := b\<rparr>)" "roster_keeping (\<lambda>t. t\<lparr>so_is_muted := b\<rparr>)"
  "roster_keeping (\<lambda>t. t\<lparr>so_is_hand_raised := b\<rparr>)"
  by (simp_all add: roster_keeping_def so_set_recording_def so_bump_chat_def so_leave_def SPACE_INITIAL_STATE_def fids_once_def)

lemma roster_keeping_role [keeping]:
  "roster_keeping f \<Longrightarrow> roster_keeping (\<lambda>t. f (t\<lparr>so_my_role := r\<rparr>))"
  by (simp add: roster_keeping_def)

lemma roster_keeping_join [keeping]: "fids_once ps \<Longrightarrow> roster_keeping (so_join room ps role)"
  by (simp add: roster_keeping_def so_join_def)

lemma last_n_sorted: "sorted_wrt R xs \<Longrightarrow> sorted_wrt R (last_n n xs)"
  by (simp add: last_n_def sorted_wrt_drop)

lemma fine_push [fine_intros]: "fine s (mb_push_reaction key fid s)"
  by (auto simp: fine_def phone_ok_def same_rc_def mb_push_reaction_def bubbles_ok_def invite_ok_def)

lemma fine_reaction_update [fine_intros]: "fine s (run_reaction_update s)"
proof (cases "ph_reaction_updates s")
  case Nil
  then show ?thesis using fine_refl by (simp add: run_reaction_update_def)
next
  case (Cons u updates)
  have "bubbles_ok (run_reaction_update s)" if r: "bubbles_ok s"
  proof -
    have l: "length (last_n 19 (ph_reactions s)) \<le> 19" by (rule length_last_n)
    have m: "rb_id x \<le> ph_reaction_seq s" if "x \<in> set (last_n 19 (ph_reactions s))" for x
      using r subsetD[OF set_last_n that] by (simp add: bubbles_ok_def)
    have o: "sorted (map rb_id (last_n 19 (ph_reactions s)))"
      using r last_n_sorted[of "(\<le>)" "map rb_id (ph_reactions s)" 19] by (simp add: bubbles_ok_def last_n_def drop_map)
    show ?thesis
      using r l m o Cons unfolding bubbles_ok_def run_reaction_update_def
      by (cases u) (auto simp: sorted_append)
  qed
  then show ?thesis
    using Cons by (cases u) (auto simp: fine_def phone_ok_def same_rc_def run_reaction_update_def invite_ok_def)
qed

lemma fine_stop_heartbeat [fine_intros]: "fine s (stop_heartbeat s)" "fine s (start_heartbeat f s)"
  by (rule fine_frame; simp add: stop_heartbeat_def start_heartbeat_def same_rc_def)+

lemma fine_stop_invite [fine_intros]: "fine s (stop_pending_invite_poll s)"
  by (simp add: fine_def phone_ok_def same_rc_def stop_pending_invite_poll_def bubbles_ok_def invite_ok_def)

lemma fine_start_invite [fine_intros]: "fine s (fst (start_pending_invite_poll f s))"
  by (simp add: fine_def phone_ok_def same_rc_def start_pending_invite_poll_def stop_pending_invite_poll_def bubbles_ok_def
      invite_ok_def Let_def)

lemma fine_tick [fine_intros]: "fine s (invite_tick_done f fid r s)"
  by (auto simp: fine_def phone_ok_def same_rc_def invite_tick_done_def bubbles_ok_def invite_ok_def Let_def
      split: option.split)

lemma fine_case_option [fine_intros]:
  "fine s a \<Longrightarrow> (\<And>x. fine s (b x)) \<Longrightarrow> fine s (case v of None \<Rightarrow> a | Some x \<Rightarrow> b x)"
  by (cases v) simp_all

lemma fine_if [fine_intros]: "fine s a \<Longrightarrow> fine s b \<Longrightarrow> fine s (if c then a else b)"
  by simp

subsection \<open>Every handler is fine\<close>

lemma fine_handlers [fine_intros]:
  "fine s (mb_on_participant_connected rt p s)" "fine s (mb_on_participant_disconnected p s)"
  "fine s (mb_on_track b p s)" "fine s (refetch_done r s)" "fine s (mb_hydrate_remote rt rp s)" "fine s (mb_seed_local s)"
  unfolding mb_on_participant_connected_def mb_on_participant_disconnected_def mb_on_track_def refetch_done_def
    mb_hydrate_remote_def mb_seed_local_def Let_def
  by ((intro fine_intros keeping; simp)+, auto intro!: fine_intros keeping split: option.split)

lemma fine_metadata [fine_intros]: "fine s (mb_on_metadata_changed rt p s)"
  unfolding mb_on_metadata_changed_def Let_def by (intro fine_intros keeping; simp)

lemma fine_permissions [fine_intros]: "fine s (fst (mb_on_permissions_changed l could can s))"
  by (auto simp: mb_on_permissions_changed_def intro!: fine_intros keeping split: option.split)

lemma fine_data [fine_intros]: "fine s (fst (mb_on_data_received rt payload p topic s))"
  by (auto simp: mb_on_data_received_def intro!: fine_intros keeping split: option.split)

lemma fine_foldl: "(\<And>u x. fine u (f u x)) \<Longrightarrow> fine s (foldl f s xs)"
  by (induction xs arbitrary: s) (auto intro: fine_refl fine_trans)

lemma fine_hear: "mb_hear_speakers rt ps known s = (s1, heard) \<Longrightarrow> fine s s1"
proof (induction rt ps known s arbitrary: s1 heard rule: mb_hear_speakers.induct)
  case (2 rt p ps known s)
  show ?case
  proof (cases "fid_of s p")
    case None
    then show ?thesis using 2 by simp
  next
    case (Some fid)
    let ?u = "if fid \<in> known then s else on_store (so_add_participant (mb_participant fid
      (parse_metadata rt (lp_metadata p)) ''speaker'' False True (heard_name (parse_metadata rt (lp_metadata p)) p fid))) s"
    have "fine s ?u" by (intro fine_intros keeping)
    moreover obtain heard' where "mb_hear_speakers rt ps (insert fid known) ?u = (s1, heard')"
      using 2(3) Some by (auto simp: Let_def split: prod.splits)
    ultimately show ?thesis using 2(2)[OF Some refl refl] fine_trans by blast
  qed
qed (simp add: fine_refl)

lemma fine_speakers [fine_intros]: "fine s (mb_on_active_speakers rt ps s)"
proof -
  obtain s1 heard where h: "mb_hear_speakers rt ps (set (map pt_fid (so_participants (ph_store s)))) s = (s1, heard)"
    by (cases "mb_hear_speakers rt ps (set (map pt_fid (so_participants (ph_store s)))) s")
  have "fine s1 (s1\<lparr>ph_speakers := heard\<rparr>)" by (rule fine_frame) (simp_all add: same_rc_def)
  moreover have "fine (s1\<lparr>ph_speakers := heard\<rparr>) (mb_on_active_speakers rt ps s)"
    unfolding mb_on_active_speakers_def h prod.case by (intro fine_intros keeping)
  ultimately show ?thesis using fine_hear[OF h] fine_trans by blast
qed

lemma fine_ended [fine_intros]: "fine s (fst (mb_on_disconnected i reason s))"
proof -
  let ?s1 = "on_store (\<lambda>t. t\<lparr>so_is_connected := False\<rparr>) s"
  have a: "fine s ?s1" by (intro fine_intros keeping)
  have b: "fine ?s1 (?s1\<lparr>ph_room_ref := None\<rparr>)" by (rule fine_frame) (simp_all add: same_rc_def)
  have c: "fine (?s1\<lparr>ph_room_ref := None\<rparr>)
      (on_store so_leave (stop_pending_invite_poll (stop_heartbeat (?s1\<lparr>ph_room_ref := None\<rparr>))))"
    by (rule fine_trans[OF fine_stop_heartbeat(1) fine_trans[OF fine_stop_invite fine_on_store]]) (rule keeping)
  show ?thesis using a fine_trans[OF a fine_trans[OF b c]] by (simp add: mb_on_disconnected_def Let_def)
qed

lemma fine_event: "fine s (fst (mb_on_room_event rt i ev s))"
  by (cases ev) (auto intro!: fine_intros keeping)

lemma fine_gone [fine_intros]: "fine s (room_gone room s)"
  by (cases room) (auto intro!: fine_frame simp: room_gone_def same_rc_def)

lemma fine_mic [fine_intros]: "fine s (mic_set room b s)"
  by (cases room) (auto intro!: fine_frame simp: mic_set_def same_rc_def)

lemma fine_drop [fine_intros]: "fine s (mb_disconnect_from_room_done room r s)"
proof -
  have "fine (room_gone room s) ((room_gone room s)\<lparr>ph_active := a, ph_active_ws := None\<rparr>)" for a
    by (rule fine_frame) (simp_all add: same_rc_def)
  then have "fine s ((room_gone room s)\<lparr>ph_active := a, ph_active_ws := None\<rparr>)" for a
    by (rule fine_trans[OF fine_gone])
  then show ?thesis unfolding mb_disconnect_from_room_done_def by (auto intro: fine_refl)
qed

lemma fine_disconnect [fine_intros]: "fine s (fst (mb_disconnect s))"
  by (simp add: mb_disconnect_def fine_trans[OF fine_stop_heartbeat(1) fine_stop_invite])

lemma fine_then_store: "fine s t \<Longrightarrow> roster_keeping f \<Longrightarrow> fine s (on_store f t)"
  using fine_trans fine_on_store by blast

lemma fine_disconnect_done [fine_intros]: "fine s (mb_disconnect_done room r s)"
proof -
  let ?d = "mb_disconnect_from_room_done room r s"
  have "fine ?d (?d\<lparr>ph_room_ref := None\<rparr>)" by (rule fine_frame) (simp_all add: same_rc_def)
  then show ?thesis
    unfolding mb_disconnect_done_def using fine_trans[OF fine_drop] by (intro fine_then_store keeping)
qed

lemma fine_update_me: "fine s t \<Longrightarrow> (\<And>p. pt_fid (f p) = pt_fid p) \<Longrightarrow> fine s (update_me f t)"
  unfolding update_me_def by (cases "my_fid t") (auto intro!: fine_then_store keeping)

lemma fine_mics [fine_intros]:
  "fine s (promoted_done room ok s)" "fine s (demoted_done room ok s)" "fine s (mb_toggle_mute_done room was ok s)"
  "fine s (start_speaking_done room ok s)" "fine s (mini_toggle_done room was ok s)"
  unfolding promoted_done_def demoted_done_def mb_toggle_mute_done_def start_speaking_done_def mini_toggle_done_def
  by (auto intro!: fine_update_me fine_then_store fine_mic fine_refl keeping)

lemma fine_cache [fine_intros]: "fine s (mb_cache_token parse token e url s)"
  by (rule fine_frame) (simp_all add: mb_cache_token_def Let_def same_rc_def split: option.split)

lemma fine_listeners [fine_intros]: "fine s (setup_room_listeners i s)"
proof -
  have "fine s (s\<lparr>ph_room_ref := Some i, ph_listening := i # ph_listening s\<rparr>)"
    by (rule fine_frame) (simp_all add: same_rc_def)
  then show ?thesis unfolding setup_room_listeners_def by (auto intro!: fine_refl fine_then_store keeping)
qed

lemma fine_connected [fine_intros]: "fine s (room_connected url s)"
  by (rule fine_frame) (simp_all add: room_connected_def same_rc_def)

lemma fine_finish [fine_intros]: "fine s (fst (finish_join parse ctx s))"
proof (cases ctx)
  case (Join_native room f token url)
  have "fine s (fst (start_pending_invite_poll f (start_heartbeat f (mb_cache_token parse token None (Some url) s))))"
    by (rule fine_trans[OF fine_cache fine_trans[OF fine_stop_heartbeat(2) fine_start_invite]])
  then show ?thesis using Join_native
    by (cases "start_pending_invite_poll f (start_heartbeat f (mb_cache_token parse token None (Some url) s))")
      (simp add: finish_join_def)
qed (simp add: finish_join_def fine_cache)

lemma fine_connect [fine_intros]: "fine s (fst (mb_connect_done parse rt ctx r s))"
proof (cases r)
  case (Some remotes)
  let ?s1 = "setup_room_listeners (ph_next s) (room_connected (ctx_ws ctx) s)"
  let ?s2 = "mb_seed_local (foldl (\<lambda>u p. mb_hydrate_remote rt p u) ?s1 remotes)"
  have "fine s ?s1" by (rule fine_trans[OF fine_connected fine_listeners])
  moreover have "fine ?s1 ?s2"
    by (rule fine_trans[OF fine_foldl fine_handlers(6)]) (rule fine_handlers)
  ultimately have "fine s ?s2" by (rule fine_trans)
  moreover have "fine ?s2 (fst (finish_join parse ctx ?s2))" by (rule fine_finish)
  ultimately show ?thesis using Some fine_trans by (simp add: mb_connect_done_def Let_def)
qed (simp add: mb_connect_done_def fine_refl)

lemma fine_join_mic [fine_intros]: "fine s (fst (join_mic_done parse ctx i ok s))"
proof -
  have "fine s (on_store (\<lambda>t. t\<lparr>so_is_muted := False\<rparr>) (mic_set (Some i) True s))"
    by (intro fine_then_store fine_mic keeping)
  then show ?thesis using fine_trans[OF _ fine_finish] by (simp add: join_mic_done_def fine_refl)
qed

lemma fine_native_join [fine_intros]: "fine s (fst (native_join_done room user r s))"
  by (auto simp: native_join_done_def Let_def fids_once_def intro!: fine_intros keeping split: option.split)

lemma fine_juke_join: "(\<And>x. r = Some x \<Longrightarrow> fids_once (jr_participants x)) \<Longrightarrow> fine s (fst (juke_join_done r s))"
  by (cases r) (auto simp: juke_join_done_def intro!: fine_intros keeping)

lemma fine_overlay [fine_intros]: "fine s (hydrate_done rt r s)"
proof -
  have "fine u (overlay_one rt seen p u)" for u p seen
    unfolding overlay_one_def Let_def by (intro fine_intros keeping) simp_all
  then show ?thesis unfolding hydrate_done_def Let_def by (cases r) (auto intro: fine_foldl fine_refl)
qed

lemma fine_post [fine_intros]: "fine s (fst (post_done a ok s))"
proof -
  have "fine s (s\<lparr>ph_invite := None\<rparr>)"
    by (simp add: fine_def phone_ok_def same_rc_def bubbles_ok_def invite_ok_def)
  then show ?thesis by (cases a) (auto simp: post_done_def intro!: fine_intros keeping)
qed

lemma fine_reaction [fine_intros]: "fine s (show_own_reaction key s)" "fine s (fst (send_reaction_done key ok s))"
  by (auto simp: show_own_reaction_def send_reaction_done_def intro!: fine_intros split: option.split)

lemma fine_leave [fine_intros]: "fine s (fst (mb_leave_room rid s))" "fine s (fst (leave_done ok s))"
  by (auto simp: mb_leave_room_def leave_done_def intro!: fine_intros)

lemma fine_attach [fine_intros]: "fine s (fst (attach_listeners s))" "fine s (attach_done parse t s)" "fine s (top_up_done parse t s)"
  by (auto simp: attach_listeners_def attach_done_def top_up_done_def Let_def split: option.split
      intro!: fine_intros intro: fine_trans[OF fine_listeners fine_stop_heartbeat(2)])

lemma fine_mini [fine_intros]: "fine s (mini_dropped room r s)"
  by (auto simp: mini_dropped_def Let_def intro!: fine_then_store fine_drop keeping)

lemma fine_unmount [fine_intros]: "fine s (space_unmounted s)"
  unfolding space_unmounted_def by (rule fine_trans[OF fine_stop_heartbeat(1) fine_stop_invite])

subsection \<open>The reconnect\<close>

definition is_rc :: "space_call \<Rightarrow> bool" where
  "is_rc c \<longleftrightarrow> (case c of K_reconnect rid fid k \<Rightarrow> True | _ \<Rightarrow> False)"

abbreviation rc_calls :: "space_call list \<Rightarrow> space_call list" where
  "rc_calls cs \<equiv> filter is_rc cs"

text \<open>A detail that a reconnect carries lists its participants once.\<close>

definition at_ok :: "reconnect_at \<Rightarrow> bool" where
  "at_ok k \<longleftrightarrow> (case k of At_drop d room \<Rightarrow> fids_once (pd_participants d)
     | At_connect d url \<Rightarrow> fids_once (pd_participants d) | _ \<Rightarrow> True)"

definition call_fine :: "space_call \<Rightarrow> bool" where
  "call_fine c \<longleftrightarrow> (case c of K_reconnect rid fid k \<Rightarrow> at_ok k | _ \<Rightarrow> True)"

definition rc_tracked :: "phone \<Rightarrow> space_call list \<Rightarrow> bool" where
  "rc_tracked s cs \<longleftrightarrow> length (rc_calls cs) = (if rc_is_reconnecting (ph_reconnect s) then 1 else 0) \<and>
     (rc_is_reconnecting (ph_reconnect s) \<longrightarrow> rc_attempts (ph_reconnect s) < MB_RECONNECT_MAX_ATTEMPTS) \<and>
     list_all call_fine cs"

text \<open>An operation that may start or move a reconnect: what it leaves, from a phone that has none under way.\<close>

definition rc_moves :: "phone \<Rightarrow> phone \<times> space_call list \<Rightarrow> bool" where
  "rc_moves s r \<longleftrightarrow> (phone_ok s \<longrightarrow> phone_ok (fst r)) \<and> rc_tracked (fst r) (snd r)"

lemma fine_over: "fine s t \<Longrightarrow> phone_ok s \<Longrightarrow> phone_ok (reconnect_over t)" "phone_ok t \<Longrightarrow> phone_ok (set_reconnect f t)"
  by (auto simp: fine_def phone_ok_def reconnect_over_def set_reconnect_def bubbles_ok_def invite_ok_def)

lemma phone_ok_leave: "phone_ok s \<Longrightarrow> phone_ok (on_store so_leave s)"
  using fine_on_store[OF roster_keeping_flags(3)] by (simp add: fine_def)

lemma rc_moves_head:
  "rc_is_reconnecting (ph_reconnect s) \<Longrightarrow> rc_moves s (reconnect_head rid fid s)"
  by (auto simp: rc_moves_def reconnect_head_def rc_tracked_def is_rc_def call_fine_def at_ok_def
      intro: phone_ok_leave fine_over fine_refl)
    (simp_all add: reconnect_over_def set_reconnect_def on_store_def)

lemma rc_moves_from: "rc_moves t r \<Longrightarrow> (phone_ok s \<Longrightarrow> phone_ok t) \<Longrightarrow> rc_moves s r"
  by (simp add: rc_moves_def)

lemma rc_moves_failed:
  "rc_is_reconnecting (ph_reconnect s) \<Longrightarrow> rc_moves s (attempt_failed rid fid s)"
  unfolding attempt_failed_def by (rule rc_moves_from[OF rc_moves_head fine_over(2)]) (simp_all add: set_reconnect_def)

text \<open>The reconnect goes on with its next call.\<close>

definition rc_live :: "phone \<Rightarrow> bool" where
  "rc_live s \<longleftrightarrow> rc_is_reconnecting (ph_reconnect s) \<and> rc_attempts (ph_reconnect s) < MB_RECONNECT_MAX_ATTEMPTS"

lemma rc_moves_on:
  "fine s t \<Longrightarrow> rc_live s \<Longrightarrow> at_ok k \<Longrightarrow> rc_moves s (t, [K_reconnect rid fid k])"
  by (simp add: rc_moves_def fine_def same_rc_def rc_live_def rc_tracked_def is_rc_def call_fine_def)

lemma rc_moves_ends:
  assumes "fine s t"
  shows "rc_moves s (reconnect_over (on_store so_leave t), [])"
proof -
  have f: "fine s (on_store so_leave t)" by (intro fine_then_store assms keeping)
  show ?thesis
    unfolding rc_moves_def using fine_over(1)[OF f]
    by (auto simp: rc_tracked_def) (simp_all add: reconnect_over_def set_reconnect_def)
qed

lemma rc_moves_checked:
  assumes "rc_live s" "\<And>d. r = Some d \<Longrightarrow> fids_once (pd_participants d)"
  shows "rc_moves s (room_checked rid fid r s)"
proof (cases r)
  case None
  then show ?thesis using assms(1) by (simp add: room_checked_def rc_moves_failed rc_live_def)
next
  case (Some d)
  then show ?thesis using assms rc_moves_ends[OF fine_refl] rc_moves_on[OF fine_refl]
    by (simp add: room_checked_def at_ok_def)
qed

lemma rc_moves_dropped:
  assumes "rc_live s" "fids_once (pd_participants d)"
  shows "rc_moves s (old_room_dropped url rid fid d room r s)"
proof -
  have f: "fine s (mb_disconnect_from_room_done room r s)" by (rule fine_drop)
  then have "rc_moves s (attempt_failed rid fid (mb_disconnect_from_room_done room r s))"
    using assms(1) by (intro rc_moves_from[OF rc_moves_failed]) (auto simp: fine_def same_rc_def rc_live_def)
  moreover have "at_ok (At_connect d u)" for u using assms(2) by (simp add: at_ok_def)
  ultimately show ?thesis using rc_moves_on[OF f assms(1)] by (cases r) (simp_all add: old_room_dropped_def Let_def)
qed

lemma rc_moves_reconnected:
  assumes "rc_live s" "fids_once (pd_participants d)"
  shows "rc_moves s (reconnected rid fid d url ok s)"
proof (cases ok)
  case False
  then show ?thesis using assms(1) by (simp add: reconnected_def rc_moves_failed rc_live_def)
next
  case True
  let ?s1 = "on_store (\<lambda>t. t\<lparr>so_room := Some (pd_room d), so_participants := pd_participants d\<rparr>) (room_connected url s)"
  have f: "fine s ?s1"
    by (rule fine_then_store[OF fine_connected]) (simp add: roster_keeping_def assms(2))
  show ?thesis
  proof (cases "find (\<lambda>p. Some (pt_fid p) = fid) (pd_participants d)")
    case None
    then show ?thesis using True rc_moves_on[OF f assms(1)] by (simp add: reconnected_def Let_def at_ok_def)
  next
    case (Some me)
    let ?f = "\<lambda>t. t\<lparr>so_my_role := Some (pt_role me), so_is_connected := True\<rparr>"
    have "phone_ok (on_store ?f (set_reconnect g ?s1))" if "phone_ok s" for g
    proof -
      have "phone_ok (set_reconnect g ?s1)" using f that by (intro fine_over(2)) (simp add: fine_def)
      moreover have "roster_keeping ?f" by (simp add: roster_keeping_def)
      ultimately show ?thesis using fine_on_store[of ?f] by (auto simp: fine_def)
    qed
    then show ?thesis using True Some
      by (simp add: reconnected_def Let_def rc_moves_def rc_tracked_def)
        (simp add: on_store_def set_reconnect_def)
  qed
qed

lemma rc_moves_kicked:
  assumes "rc_live s"
  shows "rc_moves s (kicked_dropped rid fid room r s)"
proof -
  have f: "fine s (mb_disconnect_from_room_done room r s)" by (rule fine_drop)
  then have "rc_moves s (attempt_failed rid fid (mb_disconnect_from_room_done room r s))"
    using assms(1) by (intro rc_moves_from[OF rc_moves_failed]) (auto simp: fine_def same_rc_def rc_live_def)
  then show ?thesis using rc_moves_ends[OF f] by (cases r) (simp_all add: kicked_dropped_def Let_def)
qed

lemma rc_moves_done:
  assumes "reconnect_done parse url rid fid k a s = Some r" "rc_live s" "at_ok k" "answer_ok (An_reconnect a)"
  shows "rc_moves s r"
proof -
  have t: "rc_moves s (token_refreshed parse rid fid x s)" for x
    using rc_moves_failed[of s] rc_moves_on[OF fine_cache, of s At_check] assms(2)
    by (auto simp: token_refreshed_def at_ok_def rc_live_def split: option.split)
  have sl: "rc_moves s (slept rid fid now s)" for now
    using rc_moves_on[OF fine_refl assms(2)] by (simp add: slept_def at_ok_def)
  have ch: "rc_moves s (room_checked rid fid x s)" if "answer_ok (An_reconnect (Ans_detail x))" for x
    using that by (intro rc_moves_checked[OF assms(2)]) auto
  show ?thesis
    using assms t sl ch rc_moves_dropped[OF assms(2)] rc_moves_reconnected[OF assms(2)] rc_moves_kicked[OF assms(2)]
    by (cases k; cases a) (simp_all add: at_ok_def, blast+)
qed

lemma rc_moves_start:
  assumes "\<not> rc_is_reconnecting (ph_reconnect s)"
  shows "rc_moves s (mb_reconnect s)"
proof -
  have n: "rc_moves s (s, [])" using assms by (simp add: rc_moves_def rc_tracked_def)
  let ?s1 = "on_store (\<lambda>t. t\<lparr>so_is_connected := False\<rparr>)
    (set_reconnect (\<lambda>r. r\<lparr>rc_is_reconnecting := True, rc_attempts := 0\<rparr>) s)"
  have "phone_ok ?s1" if "phone_ok s"
    using fine_over(2)[OF that] fine_on_store[OF roster_keeping_flags(4)] by (auto simp: fine_def)
  then have "rc_moves s (reconnect_head rid fid ?s1)" for rid fid
    by (rule rc_moves_from[OF rc_moves_head, rotated]) (simp_all add: on_store_def set_reconnect_def)
  then show ?thesis using n assms by (auto simp: mb_reconnect_def split: option.split)
qed

subsection \<open>Every step\<close>

definition space_sys_ok :: "space_sys \<Rightarrow> bool" where
  "space_sys_ok x \<longleftrightarrow> phone_ok (sx_phone x) \<and> rc_tracked (sx_phone x) (sx_calls x)"

lemma not_rc_fine: "rc_calls cs = [] \<Longrightarrow> list_all call_fine cs"
  by (auto simp: filter_empty_conv list_all_iff is_rc_def call_fine_def split: space_call.splits)

definition plain :: "phone \<Rightarrow> phone \<times> space_call list \<Rightarrow> bool" where
  "plain s r \<longleftrightarrow> fine s (fst r) \<and> rc_calls (snd r) = []"

lemma plain_input:
  assumes "\<And>b c. a \<noteq> In_interruption b c" "a \<noteq> In_foreground"
  shows "plain s (do_input env a s)"
proof (cases a)
  case (In_event i ev)
  have e: "fine s (fst (mb_on_room_event (ev_rt env) i ev s))" by (rule fine_event)
  then have f: "fine s (room_gone (Some i) (fst (mb_on_room_event (ev_rt env) i ev s)))" by (rule fine_trans) (rule fine_gone)
  have "rc_calls (snd (mb_on_room_event (ev_rt env) i ev s)) = []"
    by (cases ev) (simp_all add: mb_on_permissions_changed_def mb_on_data_received_def is_rc_def split: option.split)
  then show ?thesis using e f In_event
    by (cases "mb_on_room_event (ev_rt env) i ev s"; cases ev) (simp_all add: plain_def)
next
  case (In_user u)
  have "fine s (s\<lparr>ph_user := u\<rparr>)" by (rule fine_frame) (simp_all add: same_rc_def)
  then show ?thesis using In_user by (simp add: plain_def)
next
  case (In_leave rid)
  then show ?thesis by (simp add: plain_def fine_leave) (simp add: mb_leave_room_def mb_disconnect_def is_rc_def)
next
  case In_attach
  then show ?thesis by (simp add: plain_def fine_attach)
      (simp add: attach_listeners_def Let_def is_rc_def split: option.split)
next
  case (In_stage b)
  then show ?thesis by (simp add: plain_def fine_refl stage_def is_rc_def split: option.split)
next
  case In_raise_hand
  then show ?thesis by (simp add: plain_def fine_refl toggle_raise_hand_def stage_def is_rc_def split: option.split)
qed (use assms in \<open>simp_all add: plain_def fine_refl fine_unmount fine_reaction_update mb_join_room_def mb_toggle_mute_def mb_send_reaction_def
    start_speaking_def check_token_def invite_poll_fired_def invite_tick_def mini_toggle_mute_def mini_leave_def is_rc_def
    split: option.split\<close>)

lemma rc_finish: "rc_calls (snd (finish_join parse ctx s)) = []"
  by (simp add: finish_join_def start_pending_invite_poll_def invite_tick_def Let_def is_rc_def
      split: join_ctx.split option.split)

lemma plain_answer:
  assumes d: "space_call_done env c r s = Some u" and c: "\<not> is_rc c" and r: "answer_ok r"
  shows "plain s u"
proof -
  have j: "plain s (juke_join_done x s)" if "answer_ok (An_juke_join x)" for x
  proof -
    have "fine s (fst (juke_join_done x s))" by (rule fine_juke_join) (use that in auto)
    then show ?thesis by (simp add: plain_def) (simp add: juke_join_done_def is_rc_def split: option.split)
  qed
  have cn: "plain s (mb_connect_done (ev_parse env) (ev_rt env) ctx x s)" for ctx x
    unfolding plain_def using fine_connect
    by (simp add: mb_connect_done_def Let_def is_rc_def rc_finish split: option.split)
  have jm: "plain s (join_mic_done (ev_parse env) ctx i ok s)" for ctx i ok
    unfolding plain_def using fine_join_mic by (simp add: join_mic_done_def rc_finish)
  have ps: "plain s (post_done a ok s)" for a ok
    unfolding plain_def using fine_post by (cases a) (simp_all add: post_done_def mb_disconnect_def is_rc_def)
  have lv: "plain s (leave_done ok s)" for ok
    unfolding plain_def using fine_leave(2) by (simp add: leave_done_def mb_disconnect_def is_rc_def)
  have rx: "plain s (send_reaction_done key ok s)" for key ok
    unfolding plain_def using fine_reaction(2) by (simp add: send_reaction_done_def is_rc_def)
  have nj: "plain s (native_join_done room user x s)" for room user x
    unfolding plain_def using fine_native_join by (simp add: native_join_done_def Let_def is_rc_def split: option.split)
  have keep: "plain s (s, cs)" if "rc_calls cs = []" for cs using that by (simp add: plain_def fine_refl)
  have one: "plain s (t, [])" if "fine s t" for t using that by (simp add: plain_def)
  have calls: "rc_calls (get_room_done rid user x) = []" "rc_calls (gate_done room w y) = []"
    "rc_calls (bearer_done room w ok) = []" "rc_calls (sign_done a room ok) = []" "rc_calls (mini_leave_done s) = []"
    for rid user x room w y ok a
    by (auto simp: get_room_done_def gate_done_def bearer_done_def sign_done_def mini_leave_done_def is_rc_def
        split: option.split)
  show ?thesis
    using d r j cn jm ps lv rx nj keep[OF calls(1)] keep[OF calls(2)] keep[OF calls(3)] keep[OF calls(4)] keep[OF calls(5)]
      one[OF fine_overlay] one[OF fine_tick] one[OF fine_disconnect_done] one[OF fine_mics(1)] one[OF fine_mics(2)]
      one[OF fine_mics(3)] one[OF fine_mics(4)] one[OF fine_mics(5)] one[OF fine_reaction(1)] one[OF fine_handlers(4)]
      one[OF fine_attach(2)] one[OF fine_attach(3)] one[OF fine_mini] c
    unfolding space_call_done_def by (cases c; cases r) (simp_all add: is_rc_def, auto)
qed

lemma sys_ok_plain:
  assumes "plain s (t, ds)" "phone_ok s" "rc_tracked s cs" "rc_calls bs = rc_calls cs" "set bs \<subseteq> set cs"
  shows "phone_ok t \<and> rc_tracked t (bs @ ds)"
proof -
  have "list_all call_fine bs" using assms(3,5) by (auto simp: rc_tracked_def list_all_iff)
  then show ?thesis
    using assms not_rc_fine[of ds] by (simp add: plain_def fine_def same_rc_def rc_tracked_def)
qed

lemma rc_calls_remove:
  "\<not> is_rc c \<Longrightarrow> rc_calls (remove1 c cs) = rc_calls cs"
  "is_rc c \<Longrightarrow> c \<in> set cs \<Longrightarrow> Suc (length (rc_calls (remove1 c cs))) = length (rc_calls cs)"
  by (induction cs) auto

lemma rc_step_ok:
  assumes "rc_moves s (t, ds)" "phone_ok s" "rc_calls bs = []"
  shows "phone_ok t \<and> rc_tracked t (bs @ ds)"
  using assms not_rc_fine[of bs] by (simp add: rc_moves_def rc_tracked_def)

lemma start_ok:
  assumes "mb_reconnect s = (t, ds)" "phone_ok s" "rc_tracked s cs"
  shows "phone_ok t \<and> rc_tracked t (cs @ ds)"
proof (cases "rc_is_reconnecting (ph_reconnect s)")
  case True
  then have "t = s" "ds = []" using assms(1) by (auto simp: mb_reconnect_def split: option.splits)
  then show ?thesis using assms by simp
next
  case False
  then have "rc_calls cs = []" using assms(3) by (simp add: rc_tracked_def)
  then show ?thesis using rc_step_ok[OF rc_moves_start[OF False, unfolded assms(1)] assms(2)] by simp
qed

lemma sys_ok_step: "space_step env x y \<Longrightarrow> space_sys_ok x \<Longrightarrow> space_sys_ok y"
proof (induction rule: space_step.induct)
  case (sx_input a x s cs)
  have p: "phone_ok (sx_phone x)" and r: "rc_tracked (sx_phone x) (sx_calls x)" using sx_input(3) by (simp_all add: space_sys_ok_def)
  have idle: "phone_ok (sx_phone x) \<and> rc_tracked (sx_phone x) (sx_calls x @ [])" using p r by simp
  consider (fg) "a = In_foreground" | (ir) b c where "a = In_interruption b c" | (pl) "plain (sx_phone x) (do_input env a (sx_phone x))"
    using plain_input[of a] by blast
  then have "phone_ok s \<and> rc_tracked s (sx_calls x @ cs)"
  proof cases
    case fg
    then have "(s, cs) = (sx_phone x, []) \<or> mb_reconnect (sx_phone x) = (s, cs)"
      using sx_input(2) by (auto simp: space_foreground_def split: option.splits if_splits)
    then show ?thesis using idle start_ok[OF _ p r] by auto
  next
    case ir
    then have "(s, cs) = (sx_phone x, []) \<or> mb_reconnect (sx_phone x) = (s, cs)"
      using sx_input(2) by (auto simp: audio_interruption_def split: if_splits)
    then show ?thesis using idle start_ok[OF _ p r] by auto
  next
    case pl
    then show ?thesis using sys_ok_plain[OF _ p r refl] sx_input(2) by simp
  qed
  then show ?case by (simp add: space_sys_ok_def)
next
  case (sx_answer c x r s cs)
  have p: "phone_ok (sx_phone x)" and t: "rc_tracked (sx_phone x) (sx_calls x)" using sx_answer(4) by (simp_all add: space_sys_ok_def)
  have "phone_ok s \<and> rc_tracked s (remove1 c (sx_calls x) @ cs)"
  proof (cases "is_rc c")
    case False
    then show ?thesis
      using sys_ok_plain[OF plain_answer[OF sx_answer(3) False sx_answer(2)] p t rc_calls_remove(1)[OF False]]
      by (simp add: set_remove1_subset)
  next
    case True
    then obtain rid fid k where c: "c = K_reconnect rid fid k" by (cases c) (simp_all add: is_rc_def)
    have len: "length (rc_calls (sx_calls x)) \<le> 1" using t by (simp add: rc_tracked_def)
    have suc: "Suc (length (rc_calls (remove1 c (sx_calls x)))) = length (rc_calls (sx_calls x))"
      by (rule rc_calls_remove(2)[OF True sx_answer(1)])
    have live: "rc_live (sx_phone x)"
      using t suc by (auto simp: rc_tracked_def rc_live_def split: if_splits)
    have ok: "at_ok k" using t sx_answer(1) c by (auto simp: rc_tracked_def list_all_iff call_fine_def)
    obtain a where a: "r = An_reconnect a" using sx_answer(3) c by (cases r) (simp_all add: space_call_done_def)
    have "rc_moves (sx_phone x) (s, cs)"
      using rc_moves_done[OF _ live ok] sx_answer(2,3) c a by (simp add: space_call_done_def)
    moreover have "rc_calls (remove1 c (sx_calls x)) = []"
      using len suc by (cases "rc_calls (remove1 c (sx_calls x))") auto
    ultimately show ?thesis by (rule rc_step_ok[OF _ p])
  qed
  then show ?case by (simp add: space_sys_ok_def)
qed

lemma space_reachable_ok: "space_reachable env x \<Longrightarrow> space_sys_ok x"
proof (induction rule: space_reachable.induct)
  case (sx_init s)
  then show ?case
    by (simp add: space_sys_ok_def phone_ok_def space_mounted_def bubbles_ok_def invite_ok_def rc_tracked_def fresh_reconnect_def)
next
  case (sx_next x y)
  then show ?case using sys_ok_step by blast
qed

lemma next_reaction_last:
  assumes "bubbles_ok s" "ph_reaction_updates s = []"
  shows "\<exists>earlier i. ph_reactions (run_reaction_update (mb_push_reaction key fid s)) =
      earlier @ [\<lparr>rb_key = key, rb_id = i, rb_fid = fid\<rparr>] \<and> (\<forall>r \<in> set earlier. rb_id r < i)"
proof -
  have "ph_reactions (run_reaction_update (mb_push_reaction key fid s)) =
      last_n 19 (ph_reactions s) @ [\<lparr>rb_key = key, rb_id = ph_reaction_seq s + 1, rb_fid = fid\<rparr>]"
    using assms(2) by (simp add: mb_push_reaction_def run_reaction_update_def)
  moreover have "rb_id r < ph_reaction_seq s + 1" if "r \<in> set (last_n 19 (ph_reactions s))" for r
  proof -
    have "r \<in> set (ph_reactions s)" using that by (auto simp: last_n_def dest: in_set_dropD)
    then show ?thesis using assms(1) by (auto simp: bubbles_ok_def)
  qed
  ultimately show ?thesis by blast
qed

text \<open>
  C11. The state of a space stays sound on the phone. The premise is that the server's own lists name a
  participant once (\<open>answer_ok\<close>: a Juke join, the room details of a reconnect) and that the screen mounts
  over such a list. Then, whatever joins, leaves, events, promotions, answers, renders and reconnects
  interleave, no participant is listed twice, at most twenty reactions are shown, in the order of their
  ids and none with an id that was not handed out yet; a reaction that comes while no other waits to be
  shown is then the last one shown, as it was sent and under an id above all others; the invite poll runs
  exactly for the room it watches, and an invite is shown only while one is watched.
\<close>
theorem space_screen_sound:
  assumes "space_reachable env x"
  shows "distinct (map pt_fid (so_participants (ph_store (sx_phone x)))) \<and>
    length (ph_reactions (sx_phone x)) \<le> 20 \<and> sorted (map rb_id (ph_reactions (sx_phone x))) \<and>
    (\<forall>r \<in> set (ph_reactions (sx_phone x)). rb_id r \<le> ph_reaction_seq (sx_phone x)) \<and>
    (ph_reaction_updates (sx_phone x) = [] \<longrightarrow>
      (\<exists>earlier i. ph_reactions (run_reaction_update (mb_push_reaction key fid (sx_phone x))) =
          earlier @ [\<lparr>rb_key = key, rb_id = i, rb_fid = fid\<rparr>] \<and> (\<forall>r \<in> set earlier. rb_id r < i))) \<and>
    ph_invite_poll (sx_phone x) = ph_invite_room (sx_phone x) \<and>
    (ph_invite (sx_phone x) \<noteq> None \<longrightarrow> ph_invite_room (sx_phone x) \<noteq> None)"
proof -
  have ok: "phone_ok (sx_phone x)" using space_reachable_ok[OF assms] by (simp add: space_sys_ok_def)
  then have "bubbles_ok (sx_phone x)" by (simp add: phone_ok_def)
  then show ?thesis using ok next_reaction_last[of "sx_phone x" key fid]
    by (auto simp: phone_ok_def fids_once_def bubbles_ok_def invite_ok_def)
qed

text \<open>
  The ids are not distinct: two reactions that arrive before React runs the first of their updates are
  both shown under the second one's id.
\<close>

lemma batched_reactions_share_id:
  assumes "ph_reaction_updates s = []" "ph_reactions s = []"
  shows "map (\<lambda>r. (rb_key r, rb_id r)) (ph_reactions (run_reaction_update (run_reaction_update
      (mb_push_reaction b g (mb_push_reaction a f s)))))
    = [(a, ph_reaction_seq s + 2), (b, ph_reaction_seq s + 2)]"
  using assms by (simp add: mb_push_reaction_def run_reaction_update_def last_n_def)

text \<open>How far a reconnect is from its end: each attempt has at most six calls.\<close>

definition at_rank :: "reconnect_at \<Rightarrow> nat" where
  "at_rank k = (case k of At_sleep d \<Rightarrow> 5 | At_refresh \<Rightarrow> 4 | At_check \<Rightarrow> 3 | At_drop d room \<Rightarrow> 2 | At_connect d url \<Rightarrow> 1
     | At_kicked room \<Rightarrow> 0)"

definition reconnect_rank :: "phone \<Rightarrow> reconnect_at \<Rightarrow> nat" where
  "reconnect_rank s k = 6 * (MB_RECONNECT_MAX_ATTEMPTS - Suc (rc_attempts (ph_reconnect s))) + at_rank k"

definition reconnect_nearer :: "phone \<Rightarrow> reconnect_at \<Rightarrow> phone \<times> space_call list \<Rightarrow> bool" where
  "reconnect_nearer s k r \<longleftrightarrow>
     (snd r = [] \<and> \<not> rc_is_reconnecting (ph_reconnect (fst r))) \<or>
     (\<exists>rid fid k'. snd r = [K_reconnect rid fid k'] \<and> reconnect_rank (fst r) k' < reconnect_rank s k)"

lemma nearer_failed:
  assumes "rc_attempts (ph_reconnect t) = rc_attempts (ph_reconnect s)" "rc_attempts (ph_reconnect s) < MB_RECONNECT_MAX_ATTEMPTS"
  shows "reconnect_nearer s k (attempt_failed rid fid t)"
  using assms
  by (auto simp: reconnect_nearer_def attempt_failed_def reconnect_head_def set_reconnect_def reconnect_rank_def at_rank_def
      reconnect_over_def on_store_def)

lemma nearer_on:
  "same_rc s t \<Longrightarrow> at_rank k' < at_rank k \<Longrightarrow> reconnect_nearer s k (t, [K_reconnect rid fid k'])"
  by (simp add: reconnect_nearer_def reconnect_rank_def same_rc_def)

lemma nearer_over: "reconnect_nearer s k (reconnect_over t, [])"
  by (simp add: reconnect_nearer_def reconnect_over_def set_reconnect_def)

lemma rc_done_nearer:
  assumes d: "reconnect_done parse url rid fid k a s = Some r" and l: "rc_live s"
  shows "reconnect_nearer s k r"
proof -
  have f: "reconnect_nearer s k (attempt_failed rid fid t)" if "same_rc s t" for t
    using that l by (intro nearer_failed) (simp_all add: same_rc_def rc_live_def)
  have self: "same_rc s s" by (simp add: same_rc_def)
  have drop: "same_rc s (mb_disconnect_from_room_done room x s)" for room x using fine_drop by (simp add: fine_def)
  have cache: "same_rc s (mb_cache_token parse t e u s)" for t e u using fine_cache by (simp add: fine_def)
  consider (sleep) dl now where "k = At_sleep dl" "r = slept rid fid now s"
    | (refresh) x where "k = At_refresh" "r = token_refreshed parse rid fid x s"
    | (check) x where "k = At_check" "r = room_checked rid fid x s"
    | (drop) dt room x where "k = At_drop dt room" "r = old_room_dropped url rid fid dt room x s"
    | (connect) dt u ok where "k = At_connect dt u" "r = reconnected rid fid dt u ok s"
    | (kicked) room x where "k = At_kicked room" "r = kicked_dropped rid fid room x s"
    using d by (cases k; cases a) auto
  then show ?thesis
  proof cases
    case sleep
    then show ?thesis using nearer_on[OF self] by (simp add: slept_def at_rank_def)
  next
    case refresh
    then show ?thesis using nearer_on[OF cache] f[OF self]
      by (auto simp: token_refreshed_def at_rank_def split: option.split)
  next
    case check
    then show ?thesis using nearer_on[OF self] f[OF self] nearer_over
      by (auto simp: room_checked_def at_rank_def split: option.split)
  next
    case drop
    then show ?thesis using nearer_on[OF \<open>\<And>x room. same_rc s (mb_disconnect_from_room_done room x s)\<close>]
        f[OF \<open>\<And>x room. same_rc s (mb_disconnect_from_room_done room x s)\<close>]
      by (auto simp: old_room_dropped_def Let_def at_rank_def)
  next
    case connect
    let ?s1 = "on_store (\<lambda>t. t\<lparr>so_room := Some (pd_room dt), so_participants := pd_participants dt\<rparr>) (room_connected u s)"
    have "same_rc s ?s1" by (simp add: same_rc_def on_store_def room_connected_def)
    then show ?thesis using connect nearer_on[of s ?s1 _ k] f[OF self]
      by (auto simp: reconnected_def Let_def at_rank_def split: option.split)
        (simp add: reconnect_nearer_def on_store_def set_reconnect_def)
  next
    case kicked
    then show ?thesis using f[OF drop] nearer_over by (auto simp: kicked_dropped_def Let_def)
  qed
qed

text \<open>
  C10. A reconnect always ends and is never doubled: while one is marked as running exactly one of its calls
  is under way, at most twenty-nine calls remain (five attempts, six calls each), and every step of the
  system either leaves it and what remains as they are, or takes it nearer to its end, where the mark is
  cleared.
\<close>
theorem mobile_reconnect_ends:
  assumes "space_reachable env x" "rc_is_reconnecting (ph_reconnect (sx_phone x))"
  shows "\<exists>rid fid k. rc_calls (sx_calls x) = [K_reconnect rid fid k] \<and> reconnect_rank (sx_phone x) k < 30 \<and>
    (\<forall>y. space_step env x y \<longrightarrow>
       rc_calls (sx_calls y) = rc_calls (sx_calls x) \<and> reconnect_rank (sx_phone y) k = reconnect_rank (sx_phone x) k \<or>
       reconnect_nearer (sx_phone x) k (sx_phone y, rc_calls (sx_calls y)))"
proof -
  have ok: "space_sys_ok x" using space_reachable_ok[OF assms(1)] .
  then have t: "rc_tracked (sx_phone x) (sx_calls x)" by (simp add: space_sys_ok_def)
  have live: "rc_live (sx_phone x)" using t assms(2) by (simp add: rc_tracked_def rc_live_def)
  obtain c where c: "rc_calls (sx_calls x) = [c]" using t assms(2) by (auto simp: rc_tracked_def length_Suc_conv)
  then have "c \<in> set (rc_calls (sx_calls x))" by simp
  then have "is_rc c" by simp
  then obtain rid fid k where k: "c = K_reconnect rid fid k" by (cases c) (simp_all add: is_rc_def)
  have rank: "reconnect_rank s k = reconnect_rank (sx_phone x) k" if "same_rc (sx_phone x) s" for s
    using that by (simp add: reconnect_rank_def same_rc_def)
  have "reconnect_rank (sx_phone x) k < 30"
    using live by (auto simp: reconnect_rank_def rc_live_def at_rank_def MB_RECONNECT_MAX_ATTEMPTS_def split: reconnect_at.split)
  moreover have "rc_calls (sx_calls y) = rc_calls (sx_calls x) \<and> reconnect_rank (sx_phone y) k = reconnect_rank (sx_phone x) k \<or>
       reconnect_nearer (sx_phone x) k (sx_phone y, rc_calls (sx_calls y))" if "space_step env x y" for y
    using that
  proof (cases rule: space_step.cases)
    case (sx_input a s cs)
    have "mb_reconnect (sx_phone x) = (sx_phone x, [])" using assms(2) by (simp add: mb_reconnect_def split: option.split)
    then have "plain (sx_phone x) (do_input env a (sx_phone x))"
      using plain_input[of a "sx_phone x" env]
      by (cases a) (auto simp: plain_def fine_refl space_foreground_def audio_interruption_def split: option.split)
    then show ?thesis using sx_input rank by (auto simp: plain_def fine_def)
  next
    case (sx_answer b r s cs)
    show ?thesis
    proof (cases "is_rc b")
      case False
      then show ?thesis using sx_answer plain_answer[OF sx_answer(4) False sx_answer(3)] rank
        by (auto simp: plain_def fine_def rc_calls_remove(1))
    next
      case True
      then have "b \<in> set (rc_calls (sx_calls x))" using sx_answer(2) by simp
      then have b: "b = K_reconnect rid fid k" using c k by simp
      obtain a where a: "r = An_reconnect a" using sx_answer(4) b by (cases r) (simp_all add: space_call_done_def)
      have n: "reconnect_nearer (sx_phone x) k (s, cs)"
        using rc_done_nearer[OF _ live] sx_answer(4) a b by (simp add: space_call_done_def)
      have "Suc (length (rc_calls (remove1 b (sx_calls x)))) = 1"
        using rc_calls_remove(2)[OF True sx_answer(2)] c by simp
      then have "rc_calls (remove1 b (sx_calls x) @ cs) = rc_calls cs" by simp
      moreover have "rc_calls cs = cs" using n by (auto simp: reconnect_nearer_def is_rc_def)
      ultimately show ?thesis using n sx_answer(1) by simp
    qed
  qed
  ultimately show ?thesis using c k by blast
qed

text \<open>Handlers that leave the recording flag as it is.\<close>

definition rec_kept :: "phone \<Rightarrow> phone \<Rightarrow> bool" where
  "rec_kept s t \<longleftrightarrow> so_is_recording (ph_store t) = so_is_recording (ph_store s)"

lemma rec_kept_store:
  "rec_kept s (on_store (so_add_participant p) s)" "rec_kept s (on_store (so_remove_participant fid) s)"
  "rec_kept s (on_store (so_update_participant fid f) s)" "rec_kept s (on_store (so_set_speaking F) s)"
  "rec_kept s (on_store (\<lambda>t. so_update_participant fid f (t\<lparr>so_my_role := r\<rparr>)) s)"
  "rec_kept s (on_store (\<lambda>t. t\<lparr>so_is_connected := b\<rparr>) s)" "rec_kept s (on_store so_bump_chat s)" "rec_kept s s"
  "rec_kept s (mb_push_reaction key fid s)" "rec_kept s (run_reaction_update s)"
  by (auto simp: rec_kept_def run_reaction_update_def split: list.split) (simp_all add: rec_kept_def on_store_def so_add_participant_def so_remove_participant_def so_update_participant_def
      so_set_speaking_def so_bump_chat_def mb_push_reaction_def Let_def)

lemma rec_kept_hear: "mb_hear_speakers rt ps known s = (s1, heard) \<Longrightarrow> rec_kept s s1"
proof (induction rt ps known s arbitrary: s1 heard rule: mb_hear_speakers.induct)
  case (2 rt p ps known s)
  show ?case
  proof (cases "fid_of s p")
    case None
    then show ?thesis using 2 by simp
  next
    case (Some fid)
    let ?u = "if fid \<in> known then s else on_store (so_add_participant (mb_participant fid
      (parse_metadata rt (lp_metadata p)) ''speaker'' False True (heard_name (parse_metadata rt (lp_metadata p)) p fid))) s"
    obtain heard' where "mb_hear_speakers rt ps (insert fid known) ?u = (s1, heard')"
      using 2(3) Some by (auto simp: Let_def split: prod.splits)
    then have "rec_kept ?u s1" using 2(2)[OF Some refl refl] by blast
    moreover have "rec_kept s ?u" by (simp add: rec_kept_store)
    ultimately show ?thesis by (simp add: rec_kept_def)
  qed
qed (simp add: rec_kept_def)

lemma rec_kept_speakers: "rec_kept s (mb_on_active_speakers rt ps s)"
proof -
  obtain s1 heard where h: "mb_hear_speakers rt ps (set (map pt_fid (so_participants (ph_store s)))) s = (s1, heard)"
    by (cases "mb_hear_speakers rt ps (set (map pt_fid (so_participants (ph_store s)))) s")
  then show ?thesis using rec_kept_hear[OF h] unfolding mb_on_active_speakers_def h prod.case
    by (simp add: rec_kept_def on_store_def so_set_speaking_def)
qed

lemma rec_kept_events:
  "rec_kept s (mb_on_participant_connected rt p s)" "rec_kept s (mb_on_participant_disconnected p s)"
  "rec_kept s (mb_on_track b p s)" "rec_kept s (mb_on_metadata_changed rt p s)"
  "rec_kept s (fst (mb_on_permissions_changed l could can s))"
  by (simp_all add: mb_on_participant_connected_def mb_on_participant_disconnected_def mb_on_track_def
      mb_on_metadata_changed_def mb_on_permissions_changed_def Let_def rec_kept_store split: option.split)

lemma mb_sender_role_roster:
  assumes "mb_sender_role p s = Some role"
  shows "\<exists>q fid m. p = Some q \<and> fid_of s q = Some fid \<and> m \<in> set (so_participants (ph_store s)) \<and> pt_fid m = fid \<and> pt_role m = role"
  using assms by (auto simp: mb_sender_role_def find_Some_iff split: option.splits) (metis nth_mem)

lemma data_recording:
  assumes "\<not> rec_kept s (fst (mb_on_data_received rt payload p topic s))"
  shows "\<exists>d. topic = Some ''space_state'' \<and> rt_data rt payload = Some d \<and>
    dp_recording d = Some (\<not> so_is_recording (ph_store s)) \<and>
    (p = None \<or> mb_sender_role p s \<in> {Some ''host'', Some ''co_host''})"
proof (cases "rt_data rt payload")
  case None
  then show ?thesis using assms by (simp add: mb_on_data_received_def rec_kept_store)
next
  case (Some d)
  have rec: "rec_kept s (on_store (so_set_recording b) s) \<longleftrightarrow> b = so_is_recording (ph_store s)" for b
    by (simp add: rec_kept_def on_store_def so_set_recording_def)
  show ?thesis
    using assms Some rec
    by (auto simp: mb_on_data_received_def rec_kept_store split: if_splits option.splits)
qed

text \<open>
  The recording badge cannot be spoofed on the phone: an event of a room changes it only as a packet of
  the server or of somebody the roster lists as host or co-host, or because the room is over.
\<close>
theorem mobile_recording_by_hosts:
  assumes "so_is_recording (ph_store (fst (mb_on_room_event rt i ev s))) \<noteq> so_is_recording (ph_store s)"
  shows "(\<exists>payload p d. ev = Data_received payload p (Some ''space_state'') \<and> rt_data rt payload = Some d \<and>
      dp_recording d = Some (\<not> so_is_recording (ph_store s)) \<and>
      (p = None \<or> (\<exists>q fid m. p = Some q \<and> fid_of s q = Some fid \<and> m \<in> set (so_participants (ph_store s)) \<and>
        pt_fid m = fid \<and> pt_role m \<in> {''host'', ''co_host''}))) \<or>
    (\<exists>r. ev = Disconnected r \<and> r \<noteq> Other_reason)"
proof -
  have n: "\<not> rec_kept s (fst (mb_on_room_event rt i ev s))" using assms by (simp add: rec_kept_def)
  show ?thesis
  proof (cases ev)
    case (Data_received payload p topic)
    then obtain d where d: "topic = Some ''space_state''" "rt_data rt payload = Some d"
      "dp_recording d = Some (\<not> so_is_recording (ph_store s))"
      "p = None \<or> mb_sender_role p s \<in> {Some ''host'', Some ''co_host''}"
      using n data_recording[of s rt payload p topic] by auto
    have "p = None \<or> (\<exists>q fid m. p = Some q \<and> fid_of s q = Some fid \<and> m \<in> set (so_participants (ph_store s)) \<and>
        pt_fid m = fid \<and> pt_role m \<in> {''host'', ''co_host''})"
      using d(4) mb_sender_role_roster[of p s] by blast
    with d Data_received show ?thesis by blast
  next
    case (Disconnected reason)
    then show ?thesis using n by (auto simp: mb_on_disconnected_def Let_def rec_kept_store split: if_splits)
  qed (use n in \<open>simp_all add: rec_kept_events rec_kept_speakers rec_kept_store\<close>)
qed

subsection \<open>Runs\<close>

definition answer_nth :: "space_env \<Rightarrow> nat \<Rightarrow> call_answer \<Rightarrow> space_sys \<Rightarrow> space_sys" where
  "answer_nth env n r x =
     (let c = sx_calls x ! n
      in case space_call_done env c r (sx_phone x) of
           None \<Rightarrow> x
         | Some (s, cs) \<Rightarrow> x\<lparr>sx_phone := s, sx_calls := remove1 c (sx_calls x) @ cs\<rparr>)"

definition answer_all :: "space_env \<Rightarrow> call_answer list \<Rightarrow> space_sys \<Rightarrow> space_sys" where
  "answer_all env rs x = foldl (\<lambda>y r. answer_nth env 0 r y) x rs"

definition input_sys :: "space_env \<Rightarrow> space_input \<Rightarrow> space_sys \<Rightarrow> space_sys" where
  "input_sys env a x =
     (case do_input env a (sx_phone x) of (s, cs) \<Rightarrow> x\<lparr>sx_phone := s, sx_calls := sx_calls x @ cs\<rparr>)"

definition demo_space_env :: space_env where
  "demo_space_env = \<lparr>ev_parse = (\<lambda>_. None), ev_runtime = \<lparr>rt_metadata = (\<lambda>_. None),
     rt_data = (\<lambda>_. Some \<lparr>dp_type = Some ''recording_state'', dp_key = None, dp_recording = Some True\<rparr>),
     rt_protocol = (\<lambda>_. None), rt_my_fid = Some 7, pr_url = (\<lambda>_. None)\<rparr>, ev_url = ''wss''\<rparr>"

definition demo_space_room :: "jstr \<Rightarrow> jstr option \<Rightarrow> bool \<Rightarrow> space_room" where
  "demo_space_room rid native recording = \<lparr>sr_id = rid, sr_host_fid = 7, sr_status = ''active'', sr_recording = recording,
     sr_is_farcaster_native = (native \<noteq> None), sr_farcaster_room_id = native\<rparr>"

definition demo_host :: session_participant where
  "demo_host = \<lparr>pt_fid = 7, pt_role = ''host'', pt_is_muted = False, pt_is_speaking = False, pt_hand_raised = False,
     pt_display_name = ''me'', pt_pfp_url = None\<rparr>"

text \<open>A host in a room, with the microphone on, whose screen has just been shown.\<close>

definition demo_phone :: "jstr option \<Rightarrow> phone" where
  "demo_phone native = space_mounted \<lparr>ph_store = (so_join (demo_space_room ''r'' native False) [demo_host] ''host'' SPACE_INITIAL_STATE),
     ph_user = Some \<lparr>pu_fid = 7, pu_display_name = Some ''me'', pu_username = None, pu_pfp_url = None\<rparr>,
     ph_reaction_seq = 0, ph_reactions = [], ph_reaction_updates = [], ph_invite = None, ph_invite_room = None, ph_invite_poll = None,
     ph_speakers = [], ph_heartbeat = None, ph_room_ref = None, ph_listening = [], ph_active = Some 0,
     ph_active_ws = Some ''wss'', ph_connected = [0], ph_mics = [0], ph_next = 1, ph_reconnect = fresh_reconnect\<rparr>"

definition demo_shown :: "jstr option \<Rightarrow> space_sys" where
  "demo_shown native = \<lparr>sx_phone = demo_phone native, sx_calls = []\<rparr>"

definition demo_dropped :: space_sys where
  "demo_dropped = input_sys demo_space_env (In_interruption True True) (demo_shown None)"

lemma demo_shown_reachable: "space_reachable demo_space_env (demo_shown native)"
  unfolding demo_shown_def demo_phone_def
  by (rule sx_init) (simp add: fids_once_def so_join_def)

lemma demo_dropped_reachable: "space_reachable demo_space_env demo_dropped"
proof -
  let ?i = "do_input demo_space_env (In_interruption True True) (sx_phone (demo_shown None))"
  have "space_step demo_space_env (demo_shown None) ((demo_shown None)\<lparr>sx_phone := fst ?i, sx_calls := sx_calls (demo_shown None) @ snd ?i\<rparr>)"
    by (rule sx_input[where a = "In_interruption True True"]) simp_all
  then have "space_step demo_space_env (demo_shown None) demo_dropped"
    by (simp add: demo_dropped_def input_sys_def case_prod_unfold)
  with demo_shown_reachable show ?thesis by (rule sx_next)
qed

theorem space_screen_sound_witness:
  "map pt_fid (so_participants (ph_store (sx_phone demo_dropped))) = [7] \<and>
   distinct (map pt_fid (so_participants (ph_store (sx_phone demo_dropped)))) \<and>
   ph_invite_poll (sx_phone demo_dropped) = ph_invite_room (sx_phone demo_dropped)"
proof -
  have "map pt_fid (so_participants (ph_store (sx_phone demo_dropped))) = [7]" by code_simp
  then show ?thesis using space_screen_sound[OF demo_dropped_reachable] by blast
qed

theorem mobile_reconnect_ends_witness:
  "rc_calls (sx_calls demo_dropped) = [K_reconnect ''r'' (Some 7) (At_sleep 1000)] \<and>
   reconnect_rank (sx_phone demo_dropped) (At_sleep 1000) < 30"
proof -
  have r: "rc_is_reconnecting (ph_reconnect (sx_phone demo_dropped))" by code_simp
  have "rc_calls (sx_calls demo_dropped) = [K_reconnect ''r'' (Some 7) (At_sleep 1000)]" by code_simp
  then show ?thesis using mobile_reconnect_ends[OF demo_dropped_reachable r] by auto
qed

theorem mobile_recording_by_hosts_witness:
  "so_is_recording (ph_store (fst (mb_on_room_event (ev_rt demo_space_env) 0 (Data_received ''p'' None (Some ''space_state''))
      (demo_phone None)))) \<and>
   (\<exists>d. rt_data (ev_rt demo_space_env) ''p'' = Some d \<and> dp_recording d = Some True)"
proof -
  let ?ev = "Data_received ''p'' None (Some ''space_state'')"
  have t: "so_is_recording (ph_store (fst (mb_on_room_event (ev_rt demo_space_env) 0 ?ev (demo_phone None))))" by code_simp
  have f: "\<not> so_is_recording (ph_store (demo_phone None))" by code_simp
  have "so_is_recording (ph_store (fst (mb_on_room_event (ev_rt demo_space_env) 0 ?ev (demo_phone None)))) \<noteq>
      so_is_recording (ph_store (demo_phone None))"
    using t f by simp
  from mobile_recording_by_hosts[OF this] t f show ?thesis by auto
qed

subsection \<open>What goes wrong\<close>

text \<open>
  A reconnect that gives up while LiveKit is still connected (as after an interruption, when only the API
  is down) shows no space any more, but the room stays connected and its microphone stays on.
\<close>

theorem given_up_reconnect_stays_on_air:
  "let s = sx_phone (answer_all demo_space_env (concat (replicate 5 [An_reconnect (Ans_time 0), An_reconnect (Ans_token None)]))
       demo_dropped)
   in so_room (ph_store s) = None \<and> so_is_muted (ph_store s) \<and> ph_active s = Some 0 \<and> ph_connected s = [0] \<and> ph_mics s = [0]"
  by code_simp

definition demo_detail :: phone_detail where
  "demo_detail = \<lparr>pd_room = demo_space_room ''r'' None True, pd_participants = [demo_host]\<rparr>"

definition reconnect_answers :: "call_answer list" where
  "reconnect_answers = [An_reconnect (Ans_time 0), An_reconnect (Ans_token (Some (''t'', None))),
     An_reconnect (Ans_detail (Some demo_detail)), An_reconnect (Ans_drop Dropped), An_reconnect (Ans_connect True)]"

text \<open>
  A reconnect that succeeds leaves the new LiveKit room without listeners, and showing the space again does
  not attach them; the user is shown unmuted with the microphone off, and the recording badge is stale.
\<close>

theorem reconnected_room_is_deaf:
  "let x = answer_all demo_space_env reconnect_answers (input_sys demo_space_env (In_interruption True True)
       (answer_nth demo_space_env 0 (An_token None) (input_sys demo_space_env In_attach (demo_shown None)))); s = sx_phone x
   in so_is_connected (ph_store s) \<and> ph_active s = Some 1 \<and> ph_listening s = [0] \<and>
      ph_listening (fst (attach_listeners s)) = [0] \<and> \<not> so_is_muted (ph_store s) \<and> ph_mics s = [] \<and>
      \<not> so_is_recording (ph_store s) \<and> map_option sr_recording (so_room (ph_store s)) = Some True"
  by code_simp

text \<open>The user leaves while a reconnect sleeps: the reconnect goes on and takes them back into the space.\<close>

theorem reconnect_undoes_leave:
  "let y = input_sys demo_space_env (In_leave ''r'') demo_dropped;
       z = answer_nth demo_space_env 1 (An_drop Dropped) (answer_nth demo_space_env 1 (An_ok True) y);
       s = sx_phone (answer_all demo_space_env reconnect_answers z)
   in so_room (ph_store (sx_phone z)) = None \<and> ph_active (sx_phone z) = None \<and>
      map_option sr_id (so_room (ph_store s)) = Some ''r'' \<and> so_is_connected (ph_store s) \<and> ph_connected s = [1]"
  by code_simp

text \<open>
  Joining another space does not leave the current one: its LiveKit room stays connected with the
  microphone on, and nothing refers to it any more.
\<close>

theorem join_keeps_old_room_on_air:
  "let s = sx_phone (answer_all demo_space_env [An_room (Some (demo_space_room ''q'' None False)),
         An_juke_join (Some \<lparr>jr_room = demo_space_room ''q'' None False, jr_participants = [], jr_role = ''listener'',
           jr_token = ''t'', jr_expires_at = None, jr_ws_url = ''wss''\<rparr>), An_remotes (Some [])]
       (input_sys demo_space_env (In_join ''q'') (demo_shown None)))
   in map_option sr_id (so_room (ph_store s)) = Some ''q'' \<and> so_is_muted (ph_store s) \<and> ph_active s = Some 1 \<and>
      0 \<in> set (ph_connected s) \<and> ph_mics s = [0]"
  by code_simp

text \<open>
  A native join that the user leaves while it connects finishes all the same: connected without a room,
  with the heartbeat and the invite poll running.
\<close>

theorem join_finishes_after_leave:
  "let y = answer_all demo_space_env [An_room (Some (demo_space_room ''n'' (Some ''f'') False)), An_gate (Some True), An_ok True,
         An_native_join (Some (''t'', ''wss''))] (input_sys demo_space_env (In_join ''n'') \<lparr>sx_phone = demo_phone None, sx_calls = []\<rparr>);
       z = answer_nth demo_space_env 1 (An_drop Dropped) (input_sys demo_space_env (In_leave ''n'') y);
       s = sx_phone (answer_nth demo_space_env 0 (An_remotes (Some [])) z)
   in so_room (ph_store s) = None \<and> so_is_connected (ph_store s) \<and> ph_heartbeat s = Some ''f'' \<and> ph_invite_poll s = Some ''f''"
  by code_simp

text \<open>Coming back to a native space starts the heartbeat again but not the poll for stage invites.\<close>

theorem shown_again_polls_no_invites:
  "let s = sx_phone (input_sys demo_space_env In_attach (demo_shown (Some ''f'')))
   in ph_heartbeat s = Some ''f'' \<and> ph_invite_poll s = None"
  by code_simp

text \<open>A native room is never reconnected: nothing follows the interruption or the foreground.\<close>

theorem native_room_not_reconnected:
  assumes "so_room (ph_store s) = Some room" "sr_is_farcaster_native room"
  shows "mb_reconnect s = (s, [])"
  using assms by (simp add: mb_reconnect_def)

text \<open>A leave that the server refuses does nothing: the phone stays connected with its microphone.\<close>

theorem refused_leave_stays:
  "sx_phone (answer_nth demo_space_env 0 (An_ok False) (input_sys demo_space_env (In_leave ''r'') (demo_shown None))) = demo_phone None"
  by code_simp

text \<open>Without a LiveKit room a toggle shows the user as unmuted.\<close>

theorem toggle_without_room_unmutes:
  assumes "ph_active s = None"
  shows "mb_toggle_mute s = [K_toggle None False] \<and> \<not> so_is_muted (ph_store (mb_toggle_mute_done None False True s))"
  using assms
  by (simp add: mb_toggle_mute_def mb_toggle_mute_done_def mic_set_def update_me_def on_store_def so_update_participant_def
      split: option.split)

end
