(* ===== verification/Mobile_Rail.thy ===== *)
theory Mobile_Rail
  imports Discovery
begin

section \<open>The discovery rail of the mobile app\<close>

text \<open>
  The discovery half of \<^verbatim>\<open>farcaster-audio/stores/spaceStore.ts\<close>, the order of
  \<^verbatim>\<open>hooks/mergeDiscoverySpaces.ts\<close> and the hook \<^verbatim>\<open>hooks/useLiveSpaces.ts\<close>. Where the app's code is the
  web's the definitions of \<^verbatim>\<open>Discovery\<close> are used. A refresh has four answers that arrive one by one; a
  failed one is replaced by the list the store has at that moment. Sockets are numbered; one that was
  told to close stays in \<open>rl_sockets\<close> until its \<^verbatim>\<open>onclose\<close>.
\<close>

subsection \<open>The lists of the store\<close>

definition mb_normalize :: "(jstr \<Rightarrow> int option) \<Rightarrow> int \<Rightarrow> discovery_lists \<Rightarrow> discovery_lists" where
  "mb_normalize parse nowMs ls = normalize_discovery_lists parse ls nowMs"

datatype rail_op =
  Set_discovery_spaces discovery_lists
  | Set_active_live_spaces "space list"
  | Add_active_live_space space
  | Remove_active_live_space jstr
  | Set_scheduled_spaces "space list"
  | Set_farcaster_live_spaces "native_space list"
  | Set_farcaster_scheduled_spaces "native_space list"
  | Reset_spaces

fun run_rail_op :: "(jstr \<Rightarrow> int option) \<Rightarrow> int \<Rightarrow> rail_op \<Rightarrow> discovery_lists \<Rightarrow> discovery_lists" where
  "run_rail_op parse now (Set_discovery_spaces spaces) s = mb_normalize parse now spaces"
| "run_rail_op parse now (Set_active_live_spaces rooms) s = mb_normalize parse now (s\<lparr>juke_live := rooms\<rparr>)"
| "run_rail_op parse now (Add_active_live_space room) s =
     mb_normalize parse now (s\<lparr>juke_live := room # filter (\<lambda>r. sp_id r \<noteq> sp_id room) (juke_live s)\<rparr>)"
| "run_rail_op parse now (Remove_active_live_space roomId) s =
     s\<lparr>juke_live := filter (\<lambda>r. sp_id r \<noteq> roomId) (juke_live s)\<rparr>"
| "run_rail_op parse now (Set_scheduled_spaces rooms) s = mb_normalize parse now (s\<lparr>juke_scheduled := rooms\<rparr>)"
| "run_rail_op parse now (Set_farcaster_live_spaces xs) s = mb_normalize parse now (s\<lparr>farcaster_live := xs\<rparr>)"
| "run_rail_op parse now (Set_farcaster_scheduled_spaces xs) s =
     mb_normalize parse now (s\<lparr>farcaster_scheduled := xs\<rparr>)"
| "run_rail_op parse now Reset_spaces s = initial_lists"

subsection \<open>The order of the feed\<close>

definition live_first :: "(discovery_space \<Rightarrow> discovery_space \<Rightarrow> int) \<Rightarrow> discovery_space \<Rightarrow> discovery_space \<Rightarrow> int" where
  "live_first cmp a b =
     (if is_live_discovery_space a \<noteq> is_live_discovery_space b
      then (if is_live_discovery_space a then -1 else 1) else cmp a b)"

definition mb_merge_discovery_spaces :: "(jstr \<Rightarrow> int option) \<Rightarrow> discovery_lists \<Rightarrow> discovery_space list" where
  "mb_merge_discovery_spaces parse args =
     (let live = map Juke_hosted (juke_live args) @ map Farcaster_native (farcaster_live args);
          scheduled = map Juke_hosted (juke_scheduled args) @ map Farcaster_native (farcaster_scheduled args)
      in js_sort (live_first (by_time_desc parse))
           (js_sort (by_time_desc parse) live @ js_sort (by_time_desc parse) scheduled))"

definition MAX_SAFE_INTEGER :: int where "MAX_SAFE_INTEGER = 2 ^ 53 - 1"

definition rail_time :: "(jstr \<Rightarrow> int option) \<Rightarrow> discovery_space \<Rightarrow> int" where
  "rail_time parse item =
     (let isLive = is_live_discovery_space item;
          raw = (case item of
             Farcaster_native sp \<Rightarrow> if isLive then ns_started_at sp else ns_scheduled_at sp
           | Juke_hosted sp \<Rightarrow> if isLive then Some (sp_started_at sp) else sp_scheduled_at sp);
          parsed = (case raw of None \<Rightarrow> None | Some r \<Rightarrow> if r = [] then None else parse r)
      in case parsed of Some t \<Rightarrow> t | None \<Rightarrow> if isLive then 0 else MAX_SAFE_INTEGER)"

definition rail_order :: "(jstr \<Rightarrow> int option) \<Rightarrow> discovery_space \<Rightarrow> discovery_space \<Rightarrow> int" where
  "rail_order parse = live_first (\<lambda>a b. if is_live_discovery_space a then rail_time parse b - rail_time parse a
     else rail_time parse a - rail_time parse b)"

definition rail_spaces :: "(jstr \<Rightarrow> int option) \<Rightarrow> discovery_lists \<Rightarrow> discovery_space list" where
  "rail_spaces parse ls = js_sort (rail_order parse) (mb_merge_discovery_spaces parse ls)"

interpretation rail_order: js_comparator "rail_order parse" for parse
  by unfold_locales (auto simp: rail_order_def live_first_def split: if_splits)

interpretation merge_order: js_comparator "live_first (by_time_desc parse)" for parse
  by unfold_locales (auto simp: by_time_desc_def live_first_def split: if_splits)

subsection \<open>The hook\<close>

definition ROOM_EVENTS_RECONNECT_BASE_MS :: int where "ROOM_EVENTS_RECONNECT_BASE_MS = 1000"

definition ROOM_EVENTS_RECONNECT_MAX_MS :: int where "ROOM_EVENTS_RECONNECT_MAX_MS = 30000"

record rail_answers =
  ra_active :: "space list option"
  ra_scheduled :: "space list option"
  ra_live :: "native_space list option"
  ra_native_scheduled :: "native_space list option"

record rail =
  rl_lists :: discovery_lists
  rl_refresh :: "rail_answers option"
  rl_socket :: "nat option"
  rl_sockets :: "nat list"
  rl_closing :: "nat list"
  rl_timer :: "int option"
  rl_attempt :: nat
  rl_next :: nat
  rl_cancelled :: bool

datatype rail_answer =
  Ra_active "space list option" | Ra_scheduled "space list option"
  | Ra_live "native_space list option" | Ra_native_scheduled "native_space list option"

definition rail_refresh :: "rail \<Rightarrow> rail" where
  "rail_refresh s =
     (if rl_refresh s = None
      then s\<lparr>rl_refresh := Some \<lparr>ra_active = None, ra_scheduled = None, ra_live = None, ra_native_scheduled = None\<rparr>\<rparr>
      else s)"

text \<open>One of the four fetches settles, with \<open>None\<close> when it failed; the last of them publishes.\<close>

fun settle_answer :: "discovery_lists \<Rightarrow> rail_answer \<Rightarrow> rail_answers \<Rightarrow> rail_answers" where
  "settle_answer st (Ra_active r) a =
     a\<lparr>ra_active := Some (case r of Some rooms \<Rightarrow> rooms | None \<Rightarrow> juke_live st)\<rparr>"
| "settle_answer st (Ra_scheduled r) a =
     a\<lparr>ra_scheduled := Some (case r of Some rooms \<Rightarrow> rooms | None \<Rightarrow> juke_scheduled st)\<rparr>"
| "settle_answer st (Ra_live r) a =
     a\<lparr>ra_live := Some (case r of Some xs \<Rightarrow> xs | None \<Rightarrow> farcaster_live st)\<rparr>"
| "settle_answer st (Ra_native_scheduled r) a =
     a\<lparr>ra_native_scheduled := Some (case r of Some xs \<Rightarrow> xs | None \<Rightarrow> farcaster_scheduled st)\<rparr>"

definition all_answers :: "rail_answers \<Rightarrow> discovery_lists option" where
  "all_answers a =
     (case (ra_active a, ra_scheduled a, ra_live a, ra_native_scheduled a) of
        (Some w, Some x, Some y, Some z) \<Rightarrow>
          Some \<lparr>juke_live = w, juke_scheduled = x, farcaster_live = y, farcaster_scheduled = z\<rparr>
      | _ \<Rightarrow> None)"

definition refresh_answered :: "(jstr \<Rightarrow> int option) \<Rightarrow> int \<Rightarrow> rail_answer \<Rightarrow> rail \<Rightarrow> rail" where
  "refresh_answered parse now r s =
     (case rl_refresh s of
        None \<Rightarrow> s
      | Some a \<Rightarrow>
          (let a1 = settle_answer (rl_lists s) r a
           in case all_answers a1 of
                None \<Rightarrow> s\<lparr>rl_refresh := Some a1\<rparr>
              | Some spaces \<Rightarrow> s\<lparr>rl_lists := run_rail_op parse now (Set_discovery_spaces spaces) (rl_lists s),
                                rl_refresh := None\<rparr>))"

definition close_rail_socket :: "nat option \<Rightarrow> rail \<Rightarrow> rail" where
  "close_rail_socket i s = (case i of None \<Rightarrow> s | Some k \<Rightarrow> s\<lparr>rl_closing := k # rl_closing s\<rparr>)"

definition rail_schedule_reconnect :: "rail \<Rightarrow> rail" where
  "rail_schedule_reconnect s =
     (if rl_cancelled s \<or> rl_timer s \<noteq> None then s
      else s\<lparr>rl_timer := Some (min (ROOM_EVENTS_RECONNECT_BASE_MS * 2 ^ rl_attempt s) ROOM_EVENTS_RECONNECT_MAX_MS),
             rl_attempt := rl_attempt s + 1\<rparr>)"

definition rail_connect :: "rail \<Rightarrow> rail" where
  "rail_connect s =
     (if rl_cancelled s then s
      else let s1 = close_rail_socket (rl_socket s) s
           in s1\<lparr>rl_socket := Some (rl_next s1), rl_sockets := rl_next s1 # rl_sockets s1, rl_next := rl_next s1 + 1\<rparr>)"

definition rail_timer_fired :: "rail \<Rightarrow> rail" where
  "rail_timer_fired s = (if rl_timer s = None then s else rail_connect (s\<lparr>rl_timer := None\<rparr>))"

definition rail_on_open :: "nat \<Rightarrow> rail \<Rightarrow> rail" where
  "rail_on_open i s = s\<lparr>rl_attempt := 0\<rparr>"

text \<open>The type of the payload, \<open>None\<close> if it is malformed.\<close>

definition rail_on_message :: "jstr option \<Rightarrow> rail \<Rightarrow> rail" where
  "rail_on_message payloadType s = (if payloadType = Some ''rooms_changed'' then rail_refresh s else s)"

definition rail_on_error :: "nat \<Rightarrow> rail \<Rightarrow> rail" where
  "rail_on_error i s = close_rail_socket (Some i) s"

definition rail_on_close :: "nat \<Rightarrow> rail \<Rightarrow> rail" where
  "rail_on_close i s =
     (let s1 = s\<lparr>rl_sockets := filter (\<lambda>j. j \<noteq> i) (rl_sockets s)\<rparr>
      in if rl_socket s1 = Some i then rail_schedule_reconnect (s1\<lparr>rl_socket := None\<rparr>) else s1)"

definition rail_foreground :: "rail \<Rightarrow> rail" where
  "rail_foreground s =
     (let s1 = rail_refresh s in if rl_socket s1 = None then rail_connect s1 else s1)"

definition rail_mount :: "discovery_lists \<Rightarrow> rail" where
  "rail_mount ls =
     rail_connect (rail_refresh \<lparr>rl_lists = ls, rl_refresh = None, rl_socket = None, rl_sockets = [], rl_closing = [],
       rl_timer = None, rl_attempt = 0, rl_next = 0, rl_cancelled = False\<rparr>)"

definition rail_unmount :: "rail \<Rightarrow> rail" where
  "rail_unmount s = close_rail_socket (rl_socket s) (s\<lparr>rl_cancelled := True, rl_timer := None\<rparr>)"

subsection \<open>The rail as a system\<close>

text \<open>
  A socket that was told to close delivers no more than its \<^verbatim>\<open>onclose\<close>; after the unmount the app state
  is no longer heard.
\<close>

inductive rail_step :: "(jstr \<Rightarrow> int option) \<Rightarrow> rail \<Rightarrow> rail \<Rightarrow> bool" for parse where
  rs_op: "rail_step parse s (s\<lparr>rl_lists := run_rail_op parse now op' (rl_lists s)\<rparr>)"
| rs_refresh: "rail_step parse s (rail_refresh s)"
| rs_answer: "rail_step parse s (refresh_answered parse now r s)"
| rs_open: "i \<in> set (rl_sockets s) \<Longrightarrow> i \<notin> set (rl_closing s) \<Longrightarrow> rail_step parse s (rail_on_open i s)"
| rs_message: "i \<in> set (rl_sockets s) \<Longrightarrow> i \<notin> set (rl_closing s) \<Longrightarrow> rail_step parse s (rail_on_message ty s)"
| rs_error: "i \<in> set (rl_sockets s) \<Longrightarrow> rail_step parse s (rail_on_error i s)"
| rs_close: "i \<in> set (rl_sockets s) \<Longrightarrow> rail_step parse s (rail_on_close i s)"
| rs_timer: "rail_step parse s (rail_timer_fired s)"
| rs_foreground: "\<not> rl_cancelled s \<Longrightarrow> rail_step parse s (rail_foreground s)"
| rs_unmount: "\<not> rl_cancelled s \<Longrightarrow> rail_step parse s (rail_unmount s)"

inductive rail_reachable :: "(jstr \<Rightarrow> int option) \<Rightarrow> rail \<Rightarrow> bool" for parse where
  rr_mount: "rail_reachable parse (rail_mount (foldl (\<lambda>ls p. run_rail_op parse (fst p) (snd p) ls) initial_lists ops))"
| rr_step: "rail_reachable parse s \<Longrightarrow> rail_step parse s t \<Longrightarrow> rail_reachable parse t"

text \<open>What the lists of the store are, and the sockets.\<close>

definition rail_lists_ok :: "discovery_lists \<Rightarrow> bool" where
  "rail_lists_ok ls \<longleftrightarrow> distinct (native_ids ls) \<and> (\<forall>r \<in> set (juke_live ls). sp_status r = ''active'') \<and>
     (\<forall>s \<in> set (farcaster_live ls). ns_state s = ''live'') \<and>
     (\<forall>r \<in> set (juke_scheduled ls). sp_status r = ''scheduled'') \<and>
     (\<forall>s \<in> set (farcaster_scheduled ls). ns_state s = ''scheduled'')"

definition is_current :: "rail \<Rightarrow> nat \<Rightarrow> bool" where
  "is_current s i \<longleftrightarrow> rl_socket s = Some i"

definition rail_sockets_ok :: "rail \<Rightarrow> bool" where
  "rail_sockets_ok s \<longleftrightarrow> distinct (rl_sockets s) \<and>
     (\<forall>i \<in> set (rl_sockets s). i < rl_next s \<and> (i \<notin> set (rl_closing s) \<longrightarrow> is_current s i \<and> \<not> rl_cancelled s)) \<and>
     set_option (rl_socket s) \<subseteq> set (rl_sockets s) \<and>
     (if rl_cancelled s then rl_timer s = None else rl_socket s \<noteq> None \<or> rl_timer s \<noteq> None) \<and>
     set_option (rl_timer s) \<subseteq> {1000..30000}"

lemma mirrored_ids_filter:
  "set (mirrored_ids (filter P rs)) \<subseteq> set (mirrored_ids rs) \<and>
   (distinct (mirrored_ids rs) \<longrightarrow> distinct (mirrored_ids (filter P rs)))"
  by (induction rs) (auto simp: mirrored_ids_def)

lemma rail_lists_ok_normalize: "rail_lists_ok (mb_normalize parse now ls)"
  unfolding rail_lists_ok_def mb_normalize_def using normalized_once[of parse ls now] by blast

lemma rail_lists_ok_op: "rail_lists_ok s \<Longrightarrow> rail_lists_ok (run_rail_op parse now op' s)"
proof (cases op')
  case (Remove_active_live_space i)
  assume "rail_lists_ok s"
  then show ?thesis
    using mirrored_ids_filter[of "\<lambda>r. sp_id r \<noteq> i" "juke_live s"] Remove_active_live_space
    by (auto simp: rail_lists_ok_def native_ids_def)
qed (simp_all add: rail_lists_ok_normalize, simp add: rail_lists_ok_def initial_lists_def native_ids_def mirrored_ids_def)

lemma rail_lists_ok_ops: "rail_lists_ok (foldl (\<lambda>ls p. run_rail_op parse (fst p) (snd p) ls) initial_lists ops)"
  by (induction ops rule: rev_induct)
    (simp_all add: rail_lists_ok_op, simp add: rail_lists_ok_def initial_lists_def native_ids_def mirrored_ids_def)

lemma rail_refresh_frame [simp]:
  "rl_lists (rail_refresh s) = rl_lists s" "rl_socket (rail_refresh s) = rl_socket s"
  "rl_sockets (rail_refresh s) = rl_sockets s" "rl_closing (rail_refresh s) = rl_closing s"
  "rl_timer (rail_refresh s) = rl_timer s" "rl_next (rail_refresh s) = rl_next s"
  "rl_cancelled (rail_refresh s) = rl_cancelled s"
  by (simp_all add: rail_refresh_def)

lemma rail_sockets_ok_frame:
  assumes "rail_sockets_ok s" "rl_socket t = rl_socket s" "rl_sockets t = rl_sockets s" "rl_closing t = rl_closing s"
    "rl_timer t = rl_timer s" "rl_next t = rl_next s" "rl_cancelled t = rl_cancelled s"
  shows "rail_sockets_ok t"
  using assms(1) unfolding rail_sockets_ok_def is_current_def assms(2-) .

lemma rail_answered_frame:
  "rl_socket (refresh_answered parse now r s) = rl_socket s" "rl_sockets (refresh_answered parse now r s) = rl_sockets s"
  "rl_closing (refresh_answered parse now r s) = rl_closing s" "rl_timer (refresh_answered parse now r s) = rl_timer s"
  "rl_next (refresh_answered parse now r s) = rl_next s" "rl_cancelled (refresh_answered parse now r s) = rl_cancelled s"
  by (auto simp: refresh_answered_def Let_def split: option.splits)

lemma rail_answered_lists: "rail_lists_ok (rl_lists s) \<Longrightarrow> rail_lists_ok (rl_lists (refresh_answered parse now r s))"
  by (auto simp: refresh_answered_def Let_def rail_lists_ok_normalize split: option.splits)

lemma close_rail_socket_simps [simp]:
  "rl_lists (close_rail_socket i s) = rl_lists s" "rl_socket (close_rail_socket i s) = rl_socket s"
  "rl_sockets (close_rail_socket i s) = rl_sockets s" "rl_timer (close_rail_socket i s) = rl_timer s"
  "rl_next (close_rail_socket i s) = rl_next s" "rl_cancelled (close_rail_socket i s) = rl_cancelled s"
  "set (rl_closing (close_rail_socket i s)) = set_option i \<union> set (rl_closing s)"
  by (auto simp: close_rail_socket_def split: option.split)

text \<open>Without asking for a socket or a timer: what a connect needs.\<close>

lemma rail_connect_ok:
  assumes d: "distinct (rl_sockets s)"
    and "\<forall>i \<in> set (rl_sockets s). i < rl_next s \<and> (i \<notin> set (rl_closing s) \<longrightarrow> is_current s i)"
    and "\<not> rl_cancelled s" and "set_option (rl_timer s) \<subseteq> {1000..30000}"
  shows "rail_sockets_ok (rail_connect s)"
proof -
  have e: "rail_connect s = (close_rail_socket (rl_socket s) s)\<lparr>rl_socket := Some (rl_next s),
      rl_sockets := rl_next s # rl_sockets s, rl_next := rl_next s + 1\<rparr>"
    using assms(3) by (simp add: rail_connect_def Let_def)
  have "i \<in> set (rl_closing (rail_connect s))" "i < rl_next s + 1" if "i \<in> set (rl_sockets s)" for i
    using assms(2) that by (auto simp: e is_current_def)
  then show ?thesis using assms(1,2,3,4) unfolding rail_sockets_ok_def by (auto simp: e is_current_def)
qed

lemma wait_bounds: "1000 \<le> min (1000 * 2 ^ n) (30000 :: int)"
proof -
  have "1 \<le> (2 :: int) ^ n" by simp
  then show ?thesis by simp
qed

lemma rail_on_close_ok:
  assumes "rail_sockets_ok s" "i \<in> set (rl_sockets s)"
  shows "rail_sockets_ok (rail_on_close i s)"
proof (cases "rl_socket s = Some i")
  case False
  have e: "rail_on_close i s = s\<lparr>rl_sockets := filter (\<lambda>j. j \<noteq> i) (rl_sockets s)\<rparr>"
    using False by (simp add: rail_on_close_def Let_def)
  have "set_option (rl_socket s) \<subseteq> set (filter (\<lambda>j. j \<noteq> i) (rl_sockets s))"
    using assms False by (cases "rl_socket s") (auto simp: rail_sockets_ok_def)
  then show ?thesis using assms(1) unfolding e rail_sockets_ok_def is_current_def by auto
next
  case True
  let ?t = "rail_on_close i s"
  have e: "rl_socket ?t = None" "rl_sockets ?t = filter (\<lambda>j. j \<noteq> i) (rl_sockets s)" "rl_closing ?t = rl_closing s"
      "rl_next ?t = rl_next s" "rl_cancelled ?t = rl_cancelled s"
      "rl_timer ?t = (if rl_cancelled s \<or> rl_timer s \<noteq> None then rl_timer s else Some (min (1000 * 2 ^ rl_attempt s) 30000))"
    using True by (simp_all add: rail_on_close_def rail_schedule_reconnect_def Let_def ROOM_EVENTS_RECONNECT_BASE_MS_def
        ROOM_EVENTS_RECONNECT_MAX_MS_def)
  have "\<forall>j \<in> set (rl_sockets s). j \<notin> set (rl_closing s) \<longrightarrow> j = i"
    using assms(1) True by (auto simp: rail_sockets_ok_def is_current_def)
  then show ?thesis
    using assms(1) wait_bounds[of "rl_attempt s"] unfolding rail_sockets_ok_def e
    by (auto simp: is_current_def split: if_splits)
qed

lemma rail_step_sockets: "rail_step parse s t \<Longrightarrow> rail_sockets_ok s \<Longrightarrow> rail_sockets_ok t"
proof (induction rule: rail_step.induct)
  case (rs_answer now r s)
  then show ?case by (rule rail_sockets_ok_frame) (simp_all add: rail_answered_frame)
next
  case (rs_message i s ty)
  from rs_message(3) show ?case by (rule rail_sockets_ok_frame) (simp_all add: rail_on_message_def)
next
  case (rs_error i s)
  then show ?case by (auto simp: rail_sockets_ok_def rail_on_error_def is_current_def)
next
  case (rs_close i s)
  then show ?case by (rule rail_on_close_ok[rotated])
next
  case (rs_timer s)
  show ?case
  proof (cases "rl_timer s")
    case (Some d)
    then have c: "\<not> rl_cancelled s" using rs_timer by (auto simp: rail_sockets_ok_def split: if_splits)
    have "rail_sockets_ok (rail_connect (s\<lparr>rl_timer := None\<rparr>))"
      by (rule rail_connect_ok) (use rs_timer c in \<open>simp_all add: rail_sockets_ok_def is_current_def\<close>)
    then show ?thesis using Some by (simp add: rail_timer_fired_def)
  qed (use rs_timer in \<open>simp add: rail_timer_fired_def\<close>)
next
  case (rs_foreground s)
  show ?case
  proof (cases "rl_socket s")
    case None
    have "rail_sockets_ok (rail_connect (rail_refresh s))"
      by (rule rail_connect_ok) (use rs_foreground in \<open>simp_all add: rail_sockets_ok_def is_current_def\<close>)
    then show ?thesis using None by (simp add: rail_foreground_def)
  next
    case (Some i)
    then show ?thesis using rs_foreground by (auto simp: rail_foreground_def intro: rail_sockets_ok_frame)
  qed
next
  case (rs_unmount s)
  then show ?case by (auto simp: rail_unmount_def rail_sockets_ok_def is_current_def)
next
  case (rs_op s now op')
  then show ?case by (rule rail_sockets_ok_frame) simp_all
next
  case (rs_refresh s)
  then show ?case by (rule rail_sockets_ok_frame) simp_all
next
  case (rs_open i s)
  from rs_open(3) show ?case by (rule rail_sockets_ok_frame) (simp_all add: rail_on_open_def)
qed

lemma rail_step_lists: "rail_step parse s t \<Longrightarrow> rail_lists_ok (rl_lists s) \<Longrightarrow> rail_lists_ok (rl_lists t)"
  by (induction rule: rail_step.induct)
    (auto simp: rail_lists_ok_op rail_answered_lists rail_on_open_def rail_on_message_def rail_on_error_def rail_on_close_def
      rail_schedule_reconnect_def rail_timer_fired_def rail_connect_def rail_foreground_def rail_unmount_def Let_def)

lemma rail_reachable_ok: "rail_reachable parse s \<Longrightarrow> rail_sockets_ok s \<and> rail_lists_ok (rl_lists s)"
proof (induction rule: rail_reachable.induct)
  case (rr_mount ops)
  show ?case
    by (simp add: rail_mount_def rail_connect_def Let_def rail_lists_ok_ops)
      (simp add: rail_sockets_ok_def close_rail_socket_def is_current_def)
next
  case (rr_step s t)
  then show ?case using rail_step_sockets rail_step_lists by blast
qed

subsection \<open>What the rail guarantees\<close>

text \<open>
  C40. The rail's socket: whatever opens, fails, closes, timers and app states come in whatever order, at
  most one socket is not told to close and it is the current one; until the unmount there is always a
  current socket, whose close is still to come, or a timer of one to thirty seconds; after it there is
  neither a timer nor a socket left open.
\<close>
theorem rail_keeps_one_socket:
  assumes "rail_reachable parse s"
  shows "filter (\<lambda>i. i \<notin> set (rl_closing s)) (rl_sockets s) \<in>
      {[], case rl_socket s of None \<Rightarrow> [] | Some i \<Rightarrow> [i]} \<and>
    (\<not> rl_cancelled s \<longrightarrow> (\<exists>i \<in> set (rl_sockets s). rl_socket s = Some i) \<or>
       (\<exists>d. rl_timer s = Some d \<and> 1000 \<le> d \<and> d \<le> 30000)) \<and>
    (rl_cancelled s \<longrightarrow> rl_timer s = None \<and> set (rl_sockets s) \<subseteq> set (rl_closing s))"
proof -
  let ?o = "filter (\<lambda>i. i \<notin> set (rl_closing s)) (rl_sockets s)"
  have ok: "rail_sockets_ok s" using rail_reachable_ok[OF assms] by simp
  have d: "distinct ?o" using ok by (simp add: rail_sockets_ok_def)
  have c: "rl_socket s = Some i" "\<not> rl_cancelled s" if "i \<in> set ?o" for i
    using ok that by (auto simp: rail_sockets_ok_def is_current_def)
  have "?o \<in> {[], case rl_socket s of None \<Rightarrow> [] | Some i \<Rightarrow> [i]}"
  proof (cases ?o)
    case (Cons i ks)
    then have i: "rl_socket s = Some i" using c(1)[of i] by simp
    have "ks = []"
    proof (rule ccontr)
      assume "ks \<noteq> []"
      then obtain j js where "ks = j # js" by (cases ks) auto
      then show False using d Cons c(1)[of j] i by simp
    qed
    then show ?thesis using Cons i by simp
  qed simp
  moreover have "\<not> rl_cancelled s \<longrightarrow> (\<exists>i \<in> set (rl_sockets s). rl_socket s = Some i) \<or>
       (\<exists>d. rl_timer s = Some d \<and> 1000 \<le> d \<and> d \<le> 30000)"
    using ok by (cases "rl_socket s"; cases "rl_timer s") (auto simp: rail_sockets_ok_def split: if_splits)
  moreover have "rl_cancelled s \<longrightarrow> rl_timer s = None \<and> set (rl_sockets s) \<subseteq> set (rl_closing s)"
    using ok by (auto simp: rail_sockets_ok_def)
  ultimately show ?thesis by blast
qed

text \<open>
  When a space started and when it is scheduled for, in milliseconds: a live one without a readable
  start counts as started at 0, an upcoming one without a readable time as the latest of all.
\<close>

definition read_date :: "(jstr \<Rightarrow> int option) \<Rightarrow> jstr option \<Rightarrow> int option" where
  "read_date parse raw = (if raw = Some [] then None else Option.bind raw parse)"

fun started_ms :: "(jstr \<Rightarrow> int option) \<Rightarrow> discovery_space \<Rightarrow> int" where
  "started_ms parse (Farcaster_native sp) = (case read_date parse (ns_started_at sp) of Some t \<Rightarrow> t | None \<Rightarrow> 0)"
| "started_ms parse (Juke_hosted sp) = (case read_date parse (Some (sp_started_at sp)) of Some t \<Rightarrow> t | None \<Rightarrow> 0)"

fun scheduled_ms :: "(jstr \<Rightarrow> int option) \<Rightarrow> discovery_space \<Rightarrow> int" where
  "scheduled_ms parse (Farcaster_native sp) =
     (case read_date parse (ns_scheduled_at sp) of Some t \<Rightarrow> t | None \<Rightarrow> 9007199254740991)"
| "scheduled_ms parse (Juke_hosted sp) =
     (case read_date parse (sp_scheduled_at sp) of Some t \<Rightarrow> t | None \<Rightarrow> 9007199254740991)"

lemma rail_time_ms:
  "rail_time parse x = (if is_live_discovery_space x then started_ms parse x else scheduled_ms parse x)"
  by (cases x) (auto simp: rail_time_def Let_def read_date_def MAX_SAFE_INTEGER_def split: option.split)

text \<open>
  C39. The rail shows every Farcaster room once: whatever lists the four endpoints answer and in whatever
  order the answers and other writers of the store interleave, no Farcaster room is shown twice, as itself
  or through the Juke rooms that mirror it; the rail shows exactly the spaces of the store's four lists (a
  Juke room that mirrors none may be on both of Juke's lists); live ones stand before upcoming ones, the
  live ones from the one that started last on and the upcoming ones from the one scheduled soonest on.
\<close>
theorem rail_shows_spaces_once:
  assumes "rail_reachable parse s"
  shows "distinct (native_ids (rl_lists s)) \<and>
    mset (rail_spaces parse (rl_lists s)) =
      mset (map Juke_hosted (juke_live (rl_lists s) @ juke_scheduled (rl_lists s)) @
            map Farcaster_native (farcaster_live (rl_lists s) @ farcaster_scheduled (rl_lists s))) \<and>
    sorted_wrt (\<lambda>a b. is_live_discovery_space b \<longrightarrow> is_live_discovery_space a \<and> started_ms parse b \<le> started_ms parse a)
      (rail_spaces parse (rl_lists s)) \<and>
    sorted_wrt (\<lambda>a b. \<not> is_live_discovery_space a \<longrightarrow> \<not> is_live_discovery_space b \<and> scheduled_ms parse a \<le> scheduled_ms parse b)
      (rail_spaces parse (rl_lists s))"
proof -
  have "mset (rail_spaces parse (rl_lists s)) =
      mset (map Juke_hosted (juke_live (rl_lists s) @ juke_scheduled (rl_lists s)) @
            map Farcaster_native (farcaster_live (rl_lists s) @ farcaster_scheduled (rl_lists s)))"
    by (simp add: rail_spaces_def mb_merge_discovery_spaces_def Let_def ac_simps)
  moreover have o: "sorted_wrt (\<lambda>a b. rail_order parse a b \<le> 0) (rail_spaces parse (rl_lists s))"
    unfolding rail_spaces_def by (rule rail_order.sorted_sort)
  moreover have "sorted_wrt (\<lambda>a b. is_live_discovery_space b \<longrightarrow> is_live_discovery_space a \<and> started_ms parse b \<le> started_ms parse a)
      (rail_spaces parse (rl_lists s))"
    by (rule sorted_wrt_mono_rel[OF _ o]) (auto simp: rail_order_def live_first_def rail_time_ms split: if_splits)
  moreover have "sorted_wrt (\<lambda>a b. \<not> is_live_discovery_space a \<longrightarrow> \<not> is_live_discovery_space b \<and> scheduled_ms parse a \<le> scheduled_ms parse b)
      (rail_spaces parse (rl_lists s))"
    by (rule sorted_wrt_mono_rel[OF _ o]) (auto simp: rail_order_def live_first_def rail_time_ms split: if_splits)
  ultimately show ?thesis using rail_reachable_ok[OF assms] by (simp add: rail_lists_ok_def)
qed

definition two_rooms :: discovery_lists where
  "two_rooms = initial_lists\<lparr>juke_scheduled :=
     [(a_room ''soon'' ''scheduled'')\<lparr>sp_scheduled_at := Some ''1''\<rparr>, (a_room ''late'' ''scheduled'')\<lparr>sp_scheduled_at := Some ''2''\<rparr>]\<rparr>"

definition digit_dates :: "jstr \<Rightarrow> int option" where
  "digit_dates r = Some (int (js_to_nat r))"

text \<open>A rail whose first socket fell, with a room and a native space that the server told of.\<close>

definition demo_native :: native_space where
  "demo_native = \<lparr>ns_id = ''f'', ns_title = None, ns_state = ''live'', ns_started_at = Some ''3'', ns_scheduled_at = None\<rparr>"

definition demo_rail :: rail where
  "demo_rail = (rail_on_close 0 (rail_mount initial_lists))
     \<lparr>rl_lists := run_rail_op digit_dates 0 (Set_discovery_spaces (two_rooms\<lparr>farcaster_live := [demo_native, demo_native]\<rparr>))
        initial_lists\<rparr>"

lemma demo_rail_reachable: "rail_reachable digit_dates demo_rail"
proof -
  let ?m = "rail_mount initial_lists"
  have l: "rl_lists (rail_on_close 0 ?m) = initial_lists" by code_simp
  have "0 \<in> set (rl_sockets ?m)" by code_simp
  from rr_step[OF rr_mount[of digit_dates "[]", simplified] rs_close[OF this]]
  have r: "rail_reachable digit_dates (rail_on_close 0 ?m)" .
  show ?thesis
    using rr_step[OF r rs_op[where now = 0 and op' = "Set_discovery_spaces (two_rooms\<lparr>farcaster_live := [demo_native, demo_native]\<rparr>)"]]
    unfolding demo_rail_def l .
qed

theorem rail_keeps_one_socket_witness:
  "rl_socket demo_rail = None \<and> (\<exists>d. rl_timer demo_rail = Some d \<and> 1000 \<le> d \<and> d \<le> 30000)"
proof -
  have "rl_socket demo_rail = None" "\<not> rl_cancelled demo_rail" by code_simp+
  then show ?thesis using rail_keeps_one_socket[OF demo_rail_reachable] by auto
qed

theorem rail_shows_spaces_once_witness:
  "distinct (native_ids (rl_lists demo_rail)) \<and> native_ids (rl_lists demo_rail) = [''f''] \<and>
   map is_live_discovery_space (rail_spaces digit_dates (rl_lists demo_rail)) = [True, False, False] \<and>
   map (scheduled_ms digit_dates) (tl (rail_spaces digit_dates (rl_lists demo_rail))) = [1, 2]"
proof -
  have "native_ids (rl_lists demo_rail) = [''f'']"
    "map is_live_discovery_space (rail_spaces digit_dates (rl_lists demo_rail)) = [True, False, False]"
    "map (scheduled_ms digit_dates) (tl (rail_spaces digit_dates (rl_lists demo_rail))) = [1, 2]" by code_simp+
  then show ?thesis using rail_shows_spaces_once[OF demo_rail_reachable] by simp
qed

subsection \<open>Two surprises\<close>

text \<open>
  The merge's header says the soonest upcoming room surfaces first; it puts the latest first, and the hook
  sorts again.
\<close>

theorem merge_puts_latest_first:
  "mb_merge_discovery_spaces digit_dates two_rooms = map Juke_hosted (rev (juke_scheduled two_rooms)) \<and>
   rail_spaces digit_dates two_rooms = map Juke_hosted (juke_scheduled two_rooms)"
  by (rule conjI; code_simp)

text \<open>
  A foreground opens a socket but leaves the reconnect timer, which then closes that healthy socket and
  opens another.
\<close>

theorem foreground_leaves_timer:
  "let s = rail_foreground (rail_on_close 0 (rail_mount initial_lists))
   in rl_socket s = Some 1 \<and> rl_timer s = Some 1000 \<and>
      rl_socket (rail_timer_fired s) = Some 2 \<and> rl_closing (rail_timer_fired s) = [1]"
  by code_simp

end
