(* ===== verification/Spec2Isabelle.thy ===== *)
theory Spec2Isabelle
  imports
    Message_Specs Message_Lifecycle Message_Inbox Message_Accounts Message_Chains
    Thread_View Events_Socket Thread_Tree Discovery Space_Events
    Web_Sign_In Web_Endpoints Windowing Messaging_Sync Notification_Store Embed_Sdk Mobile_Window Mobile_Inbox Mobile_Events Mobile_Access
    Mobile_Search Mobile_Space Mobile_Rail
begin

text \<open>
  A verification library for the client core of Juke, a Farcaster client with live audio spaces.
  The repository has a Next.js web app (\<^verbatim>\<open>landing\<close>), a React Native app
  (\<^verbatim>\<open>farcaster-audio\<close>) and a Python service (\<^verbatim>\<open>backend\<close>). The library models the TypeScript
  core of the web app: the files under \<^verbatim>\<open>landing/lib\<close>, the session hooks under
  \<^verbatim>\<open>landing/app/app/space\<close>, the messaging hook, the handlers of the home page, the middleware and two
  public endpoints; and the messaging and spaces of the mobile app: the stores, state machines and pure functions that
  decide what the screens show, what is sent and who may frame the page.

  \<^bold>\<open>How the program is modelled.\<close> A store is a record, its actions are functions from state to state.
  An asynchronous action is split at its awaits: the part before the call returns the calls it leaves in
  flight, with the variables its continuation captured, and a second function takes the result of the
  call. A step relation lets calls settle in any order between any actions, so a property of the
  reachable states holds for every interleaving. Results of the network, of the browser and of LiveKit
  are arguments: any value, unless a property says otherwise (\<open>server_ok\<close> in \<^verbatim>\<open>Message_Sys\<close>: the
  backend's messages are confirmed ones and an inbox page lists no conversation twice). Errors are values
  (\<open>js_error\<close>, \<open>mixer_error\<close>); \<^verbatim>\<open>null\<close> and \<^verbatim>\<open>undefined\<close> are \<open>None\<close>; strings are lists of characters
  below 256, which is enough for comparing, trimming and splitting them; numbers are integers, times in
  milliseconds, gains are rationals. A JavaScript \<^verbatim>\<open>Map\<close> whose order matters is an association list
  (\<^verbatim>\<open>JS_Map\<close>), any other dictionary a map; \<^verbatim>\<open>Array.sort\<close> is a stable insertion sort.

  \<^bold>\<open>The shared theories.\<close>
  \<^item> \<^verbatim>\<open>Prelude\<close>: strings, decimal numbers, list operations and the sort of the runtime; the locale
    \<open>js_comparator\<close> states what a comparison function must satisfy and proves that the sort is sorted
    and stable. It is interpreted by the order of messages (\<open>msgs\<close>) and of discovery cards (\<open>by_time\<close>).
  \<^item> \<^verbatim>\<open>JS_Map\<close>: insertion-ordered maps; the locale \<open>insertion_map\<close> has the laws clients use and is
    interpreted as \<open>jm\<close>.

  \<^bold>\<open>Messaging\<close> (\<^verbatim>\<open>landing/lib/stores/messageStore.ts\<close>, \<^verbatim>\<open>landing/lib/messages\<close>,
  \<^verbatim>\<open>landing/lib/api/messages*.ts\<close>).
  \<^item> \<^verbatim>\<open>Messages_Types\<close>: the wire types and the classes of errors.
  \<^item> \<^verbatim>\<open>Message_List\<close>: the list of a thread (\<^verbatim>\<open>message-list.ts\<close>): merge, update, reactions, optimistic rows,
    echoes. \<^verbatim>\<open>Inbox_Merge\<close>: a refreshed inbox page. \<^verbatim>\<open>Draft_Storage\<close>: drafts in the browser's storage.
  \<^item> \<^verbatim>\<open>Message_Store\<close> has the state and the synchronous helpers of the store, \<^verbatim>\<open>Message_Actions\<close> its loads and
    pages, \<^verbatim>\<open>Message_Sends\<close> sends, reactions, read state and socket events. \<^verbatim>\<open>Message_Sys\<close> composes them
    into the step relation \<open>sys_step\<close> over a state and its calls in flight.
  \<^item> \<^verbatim>\<open>Message_Confirm\<close> and \<^verbatim>\<open>Message_Demo\<close> hold shared lemmas and executable scripts; the properties are in
    \<^verbatim>\<open>Message_Specs\<close> (merge and drafts), \<^verbatim>\<open>Message_Lifecycle\<close> (threads and sends), \<^verbatim>\<open>Message_Inbox\<close>
    (inbox and badge), \<^verbatim>\<open>Message_Accounts\<close> (switching accounts) and \<^verbatim>\<open>Message_Chains\<close> (sends that queue
    behind the first message to a peer). \<open>session_reachable\<close> are the runs that switch no account and reset
    no store while such a send is pending, \<open>first_try_reachable\<close> those of them in which no first message
    is retried: a retry goes past the queue (\<open>retry_races_first_send\<close>).
  \<^item> \<^verbatim>\<open>Thread_View\<close>: the unread divider, rows, receipts, double taps, labels of a thread and the inbox.
  \<^item> \<^verbatim>\<open>Events_Socket\<close>: the reconnecting WebSocket of \<^verbatim>\<open>messagesEvents.ts\<close> as a state machine over its
    callbacks, with its closing codes, backoff and ticket mints. Its events are what \<open>ingest_event\<close> takes.

  \<^bold>\<open>Conversations and discovery.\<close>
  \<^item> \<^verbatim>\<open>Thread_Tree\<close>: the reply tree of \<^verbatim>\<open>landing/lib/thread/thread-tree.ts\<close>. The result of an operation that
    may return its input object has a flag for it. Recursion that a callback can prolong has fuel: a
    fuel above the height of the updated tree always gives a result (\<open>update_tree_maps\<close>).
  \<^item> \<^verbatim>\<open>Discovery\<close>: the feed of spaces: merge, normalised snapshots, refreshes and RSVPs.

  \<^bold>\<open>Audio spaces\<close> (\<^verbatim>\<open>landing/lib/space\<close>, \<^verbatim>\<open>landing/app/app/space\<close>).
  \<^item> \<^verbatim>\<open>Audio_Mixer\<close>: the local sources, their gains and the one published track, with connecting (a room that
    lingers is disconnected first, and \<^verbatim>\<open>room.connect\<close> may fail) and leaving the room of \<^verbatim>\<open>livekit.ts\<close>. \<open>mixer_reachable\<close> are all
    interleavings, \<open>serial_reachable\<close> those in which adding, joining and leaving do not overlap.
  \<^item> \<^verbatim>\<open>Space_Session\<close>: the session store, the microphone and the reconnect engine over the mixer. The
    engine's loop is total: its measure is the number of attempts left of eight.
  \<^item> \<^verbatim>\<open>Space_Events\<close>: the handlers of room events and the hydration of the roster.

  \<^bold>\<open>Sign-in\<close> (\<^verbatim>\<open>landing/lib/auth\<close>, \<^verbatim>\<open>landing/lib/stores/authStore.ts\<close>, \<^verbatim>\<open>landing/lib/api/client.ts\<close>).
  \<^item> \<^verbatim>\<open>JS_Value\<close> and \<^verbatim>\<open>Base64\<close> are the runtime: numbers (\<open>js_num\<close>: NaN, infinities and exact rationals),
    JSON values, dates, \<^verbatim>\<open>btoa\<close>, \<^verbatim>\<open>atob\<close> and the UTF-8 coders.
  \<^item> \<^verbatim>\<open>Auth_Tokens\<close>: the hqa1 token of \<^verbatim>\<open>protocolToken.ts\<close>. \<^verbatim>\<open>Messaging_Token\<close>: the canonical request of
    \<^verbatim>\<open>messagingToken.ts\<close>, with \<^verbatim>\<open>JSON.stringify\<close>.
  \<^item> \<^verbatim>\<open>Key_Gateway\<close>: what the custody key may sign (\<^verbatim>\<open>protocolLogin.ts\<close>). Signing returns the list of
    operations on the custody account, so that "nothing was signed" is a statement about that list.
  \<^item> \<^verbatim>\<open>Signer_Link\<close>: the flows of \<^verbatim>\<open>protocolLogin.ts\<close> and \<^verbatim>\<open>webSignIn.ts\<close>. A flow takes a \<open>world\<close> (each answer
    of the server, each reading of a clock, each abort) and returns its result with the trace of what it
    sent, signed and showed. The status poll is a \<open>partial_function\<close>: that it returns is proved, from a
    clock that advances by the sleeps, with at most 61 polls and five logins.
  \<^item> \<^verbatim>\<open>Auth_Address\<close>: the sealed key of \<^verbatim>\<open>authAddressStore.ts\<close>, once as whole operations and once access by
    access, so that two tabs interleave. \<^verbatim>\<open>Web_Sign_In\<close> composes the store with the flows, and resolves
    FIDs and custody addresses.
  \<^item> \<^verbatim>\<open>Auth_Session\<close>: the session, the single-flight refresh and the calls of \<^verbatim>\<open>apiFetch\<close> that wait for it, as
    a step relation over login, logout, responses and refresh outcomes.

  The functions of viem (SIWE text, hex, key derivation, EIP-712 signatures) and of WebCrypto are arguments.
  Laws a property needs of them are its premises: hex conversion inverts, a seal opens under its own key.
  The prepare response is taken to have its declared shape, and no object has a \<^verbatim>\<open>__proto__\<close> member; numbers
  are not rounded to doubles.

  \<^bold>\<open>The messaging surface\<close> (\<^verbatim>\<open>landing/lib/messages\<close>, \<^verbatim>\<open>landing/components/messages/useMessagingSync.ts\<close>).
  \<^item> \<^verbatim>\<open>Background_Poll\<close>: the badge poll of \<^verbatim>\<open>background-poll.ts\<close>, a state machine over retains, releases,
    timer ticks and status calls. The record of functions it is given is the argument of the locale
    \<open>poll_host\<close>, whose laws say what a store must do with them.
  \<^item> \<^verbatim>\<open>Messaging_Sync\<close>: the effects of \<^verbatim>\<open>useMessagingSync.ts\<close> over the message store (\<open>sys_step\<close>), the socket
    of \<^verbatim>\<open>Events_Socket\<close> and the poll, as the interpretation \<open>message_poll\<close>. A commit of React runs the
    cleanup and the body of each effect with a changed dependency. Each step of the surface is a sequence
    of steps of the store.
  \<^item> \<^verbatim>\<open>Windowing\<close>: the row layout, the binary search for the first visible row and the scroll anchor.

  \<^bold>\<open>Feed and notifications.\<close>
  \<^item> \<^verbatim>\<open>Cast_Feed\<close>: the feed store, the normalisation of casts and the handlers of the home page
    (\<^verbatim>\<open>landing/app/app/page.tsx\<close>): loads, optimistic reactions with their rollback, deletes, and the
    interleaving of casts with voice notes.
  \<^item> \<^verbatim>\<open>Notification_Store\<close>: the pages of notifications, the badge and the persisted time of the last visit.
    It shares the cast of \<^verbatim>\<open>Cast_Feed\<close>; a row of the list reacts as the feed does.

  \<^bold>\<open>Framing and public endpoints\<close> (\<^verbatim>\<open>landing/lib/security\<close>, \<^verbatim>\<open>landing/middleware.ts\<close>, \<^verbatim>\<open>landing/app/api\<close>).
  \<^item> \<^verbatim>\<open>Rate_Limit\<close>: the fixed-window limiter over a bounded insertion-ordered map.
  \<^item> \<^verbatim>\<open>Web_Security\<close>: the content security policy as text, the frame ancestors of an embedded space and the
    middleware. \<open>header_policies\<close> reads a header the way a browser does, so that what is proved is about the
    policy a browser enforces.
  \<^item> \<^verbatim>\<open>Web_Endpoints\<close>: the violation report sink and the webhook proxy, from the request to the response.

  \<^bold>\<open>The embed\<close> (\<^verbatim>\<open>landing/lib/juke-embed-sdk.ts\<close>, \<^verbatim>\<open>miniapp-*.ts\<close>, \<^verbatim>\<open>embed-sign-in-popup.ts\<close>).
  \<^item> \<^verbatim>\<open>Embed_Sign_In\<close>: which hosts are trusted, the exchange of a mini app token and its cache, and the popup
    that hands its session to the page that opened it, as a listener over messages, aborts and polls.
  \<^item> \<^verbatim>\<open>Embed_Sdk\<close>: partner tokens, the session with its renewal, joining and leaving, and the one LiveKit room,
    as a step relation over calls in flight.

  \<^bold>\<open>Messaging in the mobile app\<close> (\<^verbatim>\<open>farcaster-audio/stores\<close>, \<^verbatim>\<open>hooks\<close>, \<^verbatim>\<open>services\<close>, \<^verbatim>\<open>utils\<close>).
  \<^item> \<^verbatim>\<open>Mobile_Store\<close>: \<^verbatim>\<open>messageStore.ts\<close> of the app, every helper and action over the wire types above; windows
    of threads, slices of inboxes and the badge with their invariants.
  \<^item> \<^verbatim>\<open>Mobile_Sends\<close>: \<^verbatim>\<open>useSendMessage.ts\<close> with its queue of draft sends and the errors of \<^verbatim>\<open>messagesErrors.ts\<close>
    and \<^verbatim>\<open>messagesApi.ts\<close>, as a system in which any other writer of the store may interfere.
  \<^item> \<^verbatim>\<open>Mobile_Window\<close>: \<^verbatim>\<open>useConversation.ts\<close>. Its specification is the history on the server: every loaded
    window refines an unbroken stretch of it.
  \<^item> \<^verbatim>\<open>Mobile_Inbox\<close>: \<^verbatim>\<open>useInbox.ts\<close> and \<^verbatim>\<open>useMessagesBadge.ts\<close> with their calls over the one store.
  \<^item> \<^verbatim>\<open>Mobile_Events\<close>: \<^verbatim>\<open>useMessagesEvents.ts\<close>, the reconnecting socket as a machine; the web's is
    \<^verbatim>\<open>Events_Socket\<close>.
  \<^item> \<^verbatim>\<open>Mobile_Access\<close>: \<^verbatim>\<open>useMessagingAccess.ts\<close>, the gate before messaging and the status it caches.
  \<^item> \<^verbatim>\<open>Mobile_Search\<close>: the debounced search of \<^verbatim>\<open>useMessageSearch.ts\<close> as a system of controllers, calls
    and late answers, the reactions, and the recipient of a draft. A fetch asks for at most ten pages.

  \<^bold>\<open>Spaces in the mobile app\<close>.
  \<^item> \<^verbatim>\<open>Mobile_Space\<close>: the session of \<^verbatim>\<open>spaceStore.ts\<close>, \<^verbatim>\<open>useSpace.ts\<close>, \<^verbatim>\<open>useReconnect.ts\<close> and the module state
    of \<^verbatim>\<open>livekit.ts\<close>, as one system: joins, leaves, room events, stage actions, the microphone and the
    reconnect, each split at its awaits, interleave in any order. The updater of a reaction runs as a step
    of its own, as React defers it. A reconnect has five attempts of at most six calls. Its runs at the end show what goes wrong when these overlap.
  \<^item> \<^verbatim>\<open>Mobile_Rail\<close>: the discovery lists, their order and \<^verbatim>\<open>useLiveSpaces.ts\<close> with its refresh and socket.

  The URL parser, \<^verbatim>\<open>decodeURIComponent\<close>, \<^verbatim>\<open>JSON.parse\<close>, \<^verbatim>\<open>Date.parse\<close>, the mini app SDK and LiveKit are
  arguments of these theories. An error message with a dash is kept with two hyphens.

  \<^bold>\<open>What the properties show.\<close> Invariants of all reachable states (threads sorted and free of duplicates,
  inboxes free of duplicates, at most one live socket, faders applied, rosters sound, a badge that counts
  exactly the unseen); that a message is never lost, doubled or downgraded by any order of echoes, pages
  and failures; that first messages to a peer do not race as long as none is retried; that merging a page refines the merge of two
  maps, and the rate limiter one window per client; round trips of drafts, tokens and policies; that the
  reconnect engines end and are never stuck; that an open messaging screen always has a socket or a poll;
  that a failed like leaves no trace, whatever happened since; that peers cannot forge a recording state;
  that the custody key signs only the pinned payloads, and nothing when a check fails; that a refresh
  never revives a session that was ended, and serves every call that waits; that linking ends; that a
  page nobody may frame is never framed when a lookup fails; that only Farcaster hosts are trusted and a
  popup hands its session only to its own origin. Some lemmas state where the code does not do what its
  comments promise: each exhibits a reachable state.

  \<^bold>\<open>Not modelled.\<close> Rendering (all React components apart from the handlers named above), the mobile app
  beyond its messaging and spaces, its native modules, the Python service, wrappers that only call the network, data tables, timers other
  than through the steps they take, audio samples, and time itself beyond the readings of the clock that
  an action makes.
\<close>

end
